(* ===== verification/Isz_Prelude.thy ===== *)
theory Isz_Prelude
  imports Main "HOL-Library.Word" "HOL-Library.Monad_Syntax"
begin

text \<open>
  Shared vocabulary of the development: the machine types of the C sources, the
  public error codes of \<^verbatim>\<open>include/ishizue/isz.h\<close>, the byte-extraction facts behind the
  wire format, the kernel record that carries every outcome the operating system and the C
  library hand to the program, and the generic lemmas the component theories use.

  Conventions.
  \<^item> \<^verbatim>\<open>uint8_t .. uint64_t\<close> are words of that width. \<^verbatim>\<open>int\<close> and \<^verbatim>\<open>int32_t\<close> are \<open>int\<close>, converted
    with \<open>sint\<close> where the code casts from an unsigned word. \<^verbatim>\<open>size_t\<close> is \<open>nat\<close>: every size the
    modelled code computes is far below the 64-bit limit, and the one wrap-around the code
    writes on purpose (the object-id counter) is kept at its 32-bit width.
  \<^item> A pointer is a reference (\<open>nat\<close>) into a map, \<open>None\<close> where it may be \<^verbatim>\<open>NULL\<close>; freeing an
    object removes it from the map.
  \<^item> The outer \<open>option\<close> of an operation is memory safety: \<open>None\<close> means that the C code would
    read or write outside an array or through a freed pointer.
\<close>

unbundle bit_operations_syntax

named_theorems wire_simps \<open>closed forms of the wire encoders and decoders\<close>
named_theorems isz_defs \<open>unfolding rules for the small setters\<close>

type_synonym u8 = "8 word"
type_synonym u16 = "16 word"
type_synonym u32 = "32 word"
type_synonym u64 = "64 word"
type_synonym fd = int

subsection \<open>Error codes\<close>

datatype isz_error =
    ISZ_OK
  | ISZ_ERR_COMMIT_FAILED
  | ISZ_ERR_COMMIT_PENDING
  | ISZ_ERR_RESOURCE_LIMIT
  | ISZ_ERR_SURFACE_NO_PLANE_SLOT
  | ISZ_ERR_PLANE_UNAVAIL
  | ISZ_ERR_TRANSFORM_UNSUPPORTED
  | ISZ_ERR_OUTPUT_DISCONNECTED
  | ISZ_ERR_INVALID_DMABUF
  | ISZ_ERR_CLIENT_DISCONNECTED
  | ISZ_ERR_INVALID_ARG
  | ISZ_ERR_FEATURE_UNAVAIL
  | ISZ_ERR_NO_MEMORY
  | ISZ_ERR_DRM_MASTER
  | ISZ_ERR_CLIENT_TOO_SLOW
  | ISZ_ERR_ACCESS_DENIED

text \<open>The numeric values of the enumeration; replies carry them on the wire.\<close>

fun isz_error_code :: "isz_error \<Rightarrow> int" where
  "isz_error_code ISZ_OK = 0"
| "isz_error_code ISZ_ERR_COMMIT_FAILED = -1"
| "isz_error_code ISZ_ERR_COMMIT_PENDING = -2"
| "isz_error_code ISZ_ERR_RESOURCE_LIMIT = -3"
| "isz_error_code ISZ_ERR_SURFACE_NO_PLANE_SLOT = -4"
| "isz_error_code ISZ_ERR_PLANE_UNAVAIL = -5"
| "isz_error_code ISZ_ERR_TRANSFORM_UNSUPPORTED = -6"
| "isz_error_code ISZ_ERR_OUTPUT_DISCONNECTED = -7"
| "isz_error_code ISZ_ERR_INVALID_DMABUF = -8"
| "isz_error_code ISZ_ERR_CLIENT_DISCONNECTED = -9"
| "isz_error_code ISZ_ERR_INVALID_ARG = -10"
| "isz_error_code ISZ_ERR_FEATURE_UNAVAIL = -11"
| "isz_error_code ISZ_ERR_NO_MEMORY = -12"
| "isz_error_code ISZ_ERR_DRM_MASTER = -13"
| "isz_error_code ISZ_ERR_CLIENT_TOO_SLOW = -14"
| "isz_error_code ISZ_ERR_ACCESS_DENIED = -15"

text \<open>The \<^verbatim>\<open>errno\<close> values the modelled code sets or tests.\<close>

datatype errno = EINVAL | EMSGSIZE | EBADMSG | EIO | EAGAIN | EINTR | EOTHER

subsection \<open>The operating system and the C library\<close>

text \<open>
  Every call whose outcome the program does not control takes it from a script: the
  outcomes in call order. A theorem that quantifies over the kernel record covers every
  behaviour of the environment. The logs record what the program did to the outside:
  \<open>k_sent\<close> the frames the kernel accepted (socket, bytes, passed descriptors), \<open>k_closed\<close> the
  descriptors closed, \<open>k_duped\<close> the descriptors \<^verbatim>\<open>dup\<close> created.
\<close>

datatype io_result = IoN nat | IoErr errno

text \<open>What one \<^verbatim>\<open>recvmsg\<close> delivers: bytes, control messages, and the truncation flag \<^verbatim>\<open>MSG_CTRUNC\<close>.
  No bytes means that the peer closed the connection.\<close>

datatype cmsg = ScmRights "fd list" | OtherCmsg
datatype recv_result = RecvErr errno | RecvData "u8 list" "cmsg list" bool

datatype accept_result =
    AcceptFd fd "int option"                 \<comment> \<open>the new socket and the peer's pid, \<open>None\<close> when SO_PEERCRED fails\<close>
  | AcceptIntr | AcceptErr

record kern =
  k_allocs :: "bool list"                    \<comment> \<open>malloc/calloc/realloc/strdup: success or NULL\<close>
  k_sends  :: "io_result list"               \<comment> \<open>sendmsg/send results\<close>
  k_recvs  :: "recv_result list"             \<comment> \<open>what the socket has to deliver\<close>
  k_dups   :: "fd option list"               \<comment> \<open>dup results\<close>
  k_clock  :: "u64 list"                     \<comment> \<open>clock_gettime readings in nanoseconds\<close>
  k_accepts :: "accept_result list"          \<comment> \<open>accept4 results\<close>
  k_ctls   :: "bool list"                    \<comment> \<open>fcntl and epoll_ctl: success or failure\<close>
  k_sent   :: "(fd \<times> u8 list \<times> fd list) list"
  k_closed :: "fd list"
  k_duped  :: "fd list"

definition kern_init :: kern where
  "kern_init = \<lparr>k_allocs = [], k_sends = [], k_recvs = [], k_dups = [], k_clock = [],
     k_accepts = [], k_ctls = [],
     k_sent = [], k_closed = [], k_duped = []\<rparr>"

text \<open>An exhausted script means success for an allocation and a control call, failure for \<^verbatim>\<open>dup\<close>, a send
  that the socket accepts in full, a socket with nothing to read and a listening socket with no
  connection waiting (\<^verbatim>\<open>EAGAIN\<close>).\<close>

definition k_alloc :: "'z kern_scheme \<Rightarrow> 'z kern_scheme \<times> bool" where
  "k_alloc k = (case k_allocs k of [] \<Rightarrow> (k, True) | b # bs \<Rightarrow> (k\<lparr>k_allocs := bs\<rparr>, b))"

definition k_dup :: "'z kern_scheme \<Rightarrow> fd \<Rightarrow> 'z kern_scheme \<times> fd option" where
  "k_dup k d = (case k_dups k of
       [] \<Rightarrow> (k, None)
     | None # rs \<Rightarrow> (k\<lparr>k_dups := rs\<rparr>, None)
     | Some n # rs \<Rightarrow> (k\<lparr>k_dups := rs, k_duped := k_duped k @ [n]\<rparr>, Some n))"

definition k_now :: "'z kern_scheme \<Rightarrow> 'z kern_scheme \<times> u64" where
  "k_now k = (case k_clock k of [] \<Rightarrow> (k, 0) | t # ts \<Rightarrow> (k\<lparr>k_clock := ts\<rparr>, t))"

definition k_ctl :: "'z kern_scheme \<Rightarrow> 'z kern_scheme \<times> bool" where
  "k_ctl k = (case k_ctls k of [] \<Rightarrow> (k, True) | b # bs \<Rightarrow> (k\<lparr>k_ctls := bs\<rparr>, b))"

definition k_close :: "'z kern_scheme \<Rightarrow> fd \<Rightarrow> 'z kern_scheme" where
  "k_close k d = k\<lparr>k_closed := k_closed k @ [d]\<rparr>"

definition k_close_all :: "'z kern_scheme \<Rightarrow> fd list \<Rightarrow> 'z kern_scheme" where
  "k_close_all k ds = k\<lparr>k_closed := k_closed k @ ds\<rparr>"

definition k_send :: "'z kern_scheme \<Rightarrow> fd \<Rightarrow> u8 list \<Rightarrow> fd list \<Rightarrow> 'z kern_scheme \<times> io_result" where
  "k_send k d bytes fds =
     (let (k, r) = (case k_sends k of [] \<Rightarrow> (k, IoN (length bytes))
                    | r # rs \<Rightarrow> (k\<lparr>k_sends := rs\<rparr>, r))
      in case r of
           IoN n \<Rightarrow> (k\<lparr>k_sent := k_sent k @ [(d, take n bytes, fds)]\<rparr>, IoN (min n (length bytes)))
         | IoErr e \<Rightarrow> (k, IoErr e))"

text \<open>\<^verbatim>\<open>recvmsg\<close> into a buffer of \<open>cap\<close> bytes. The socket is a byte stream: what does not fit stays
  queued, and the control messages travel with the first byte.\<close>

definition k_recv :: "'z kern_scheme \<Rightarrow> nat \<Rightarrow> 'z kern_scheme \<times> recv_result" where
  "k_recv k cap = (case k_recvs k of
       [] \<Rightarrow> (k, RecvErr EAGAIN)
     | RecvErr e # rs \<Rightarrow> (k\<lparr>k_recvs := rs\<rparr>, RecvErr e)
     | RecvData bs cm tr # rs \<Rightarrow>
         (if length bs \<le> cap then (k\<lparr>k_recvs := rs\<rparr>, RecvData bs cm tr)
          else (k\<lparr>k_recvs := RecvData (drop cap bs) [] False # rs\<rparr>,
                RecvData (take cap bs) cm tr)))"

text \<open>What the receive script still holds; every delivering call with room makes it smaller.\<close>

definition recv_size :: "'z kern_scheme \<Rightarrow> nat" where
  "recv_size k = sum_list (map (\<lambda>r. case r of RecvErr e \<Rightarrow> 1 | RecvData bs cm tr \<Rightarrow> 1 + length bs) (k_recvs k))"

subsection \<open>Bytes of words\<close>

text \<open>\<open>byte_of k v\<close> is the C expression \<^verbatim>\<open>(uint8_t)((v >> k) & 0xffu)\<close>.\<close>

definition byte_of :: "nat \<Rightarrow> 'a::len word \<Rightarrow> u8" where
  "byte_of k v = ucast (drop_bit k v AND 0xff)"

lemma isz_error_code_inj: "isz_error_code a = isz_error_code b \<Longrightarrow> a = b"
  by (cases a; cases b) simp_all

lemma isz_error_code_nonpos: "isz_error_code e \<le> 0" "isz_error_code e \<ge> -15"
  by (cases e; simp)+

lemma isz_error_code_neg [simp]: "isz_error_code e < 0 \<longleftrightarrow> e \<noteq> ISZ_OK"
  by (cases e) simp_all

lemma mask_ff: "(0xff :: 'a::len word) = mask 8"
  by (simp add: mask_eq_exp_minus_1)

lemma bit_byte_of: "bit (byte_of k v) n \<longleftrightarrow> n < 8 \<and> bit v (k + n)"
  by (auto simp: byte_of_def mask_ff bit_simps add.commute dest: bit_imp_le_length)

lemma bit_byte_at:
  fixes v :: "'a::len word"
  shows "bit (push_bit k (ucast (byte_of k v) :: 'a word)) n \<longleftrightarrow> k \<le> n \<and> n < k + 8 \<and> bit v n"
  by (auto simp: bit_simps bit_byte_of dest: bit_imp_le_length)

lemma bit_byte_at_0:
  fixes v :: "'a::len word"
  shows "bit (ucast (byte_of 0 v) :: 'a word) n \<longleftrightarrow> n < 8 \<and> bit v n"
  using bit_byte_at [of 0 v n] by simp

lemma k_close_all_Nil [simp]: "k_close_all k [] = k"
  by (simp add: k_close_all_def)

lemma k_close_all_Cons: "k_close_all k (d # ds) = k_close_all (k_close k d) ds"
  by (simp add: k_close_all_def k_close_def)

lemma k_close_simps [simp]:
  "k_sent (k_close k d) = k_sent k" "k_closed (k_close k d) = k_closed k @ [d]"
  "k_duped (k_close k d) = k_duped k" "k_allocs (k_close k d) = k_allocs k"
  "k_sent (k_close_all k ds) = k_sent k" "k_closed (k_close_all k ds) = k_closed k @ ds"
  "k_duped (k_close_all k ds) = k_duped k" "k_allocs (k_close_all k ds) = k_allocs k"
  by (simp_all add: k_close_def k_close_all_def)

lemma k_alloc_simps [simp]:
  "k_sent (fst (k_alloc k)) = k_sent k" "k_closed (fst (k_alloc k)) = k_closed k"
  "k_duped (fst (k_alloc k)) = k_duped k"
  by (simp_all add: k_alloc_def split: list.splits)

lemma k_alloc_log: "k_alloc k = (k', b) \<Longrightarrow>
    k_sent k' = k_sent k \<and> k_closed k' = k_closed k \<and> k_duped k' = k_duped k"
  using k_alloc_simps [of k] by simp

lemma k_recv_size:
  "k_recv k cap = (k', r) \<Longrightarrow> 0 < cap \<Longrightarrow> k_recvs k \<noteq> [] \<Longrightarrow> recv_size k' < recv_size k"
  by (auto simp: k_recv_def recv_size_def split: list.splits recv_result.splits if_splits)

lemma k_recv_Nil: "k_recvs k = [] \<Longrightarrow> k_recv k cap = (k, RecvErr EAGAIN)"
  by (simp add: k_recv_def)

lemma k_recv_simps:
  "k_recv k cap = (k', r) \<Longrightarrow> k_closed k' = k_closed k \<and> k_sent k' = k_sent k \<and> k_duped k' = k_duped k
     \<and> k_sends k' = k_sends k \<and> k_allocs k' = k_allocs k \<and> k_dups k' = k_dups k \<and> k_clock k' = k_clock k"
  by (auto simp: k_recv_def split: list.splits recv_result.splits if_splits)

subsection \<open>Lists\<close>

lemma list_update_append_right:
  "n = length xs \<Longrightarrow> (xs @ y # ys)[n := z] = xs @ z # ys"
  by simp

lemma take_length_append [simp]: "n = length xs \<Longrightarrow> take n (xs @ ys) = xs"
  by simp

lemma drop_length_append [simp]: "n = length xs \<Longrightarrow> drop n (xs @ ys) = ys"
  by simp

lemma option_eqI: "(\<And>t. x = Some t \<longleftrightarrow> y = Some t) \<Longrightarrow> x = y"
  by (cases x; cases y) auto

lemma map_of_snoc_fresh: "k \<notin> fst ` set xs \<Longrightarrow> map_of (xs @ [(k, v)]) = (map_of xs)(k \<mapsto> v)"
  by (induction xs) (auto simp: fun_upd_twist)

lemma fold_filter_if: "fold (\<lambda>x s. if P x then f x s else s) xs s = fold f (filter P xs) s"
  by (induction xs arbitrary: s) simp_all


subsection \<open>Total correctness\<close>

text \<open>\<open>succeeds r Q\<close>: the computation returns, so it has no undefined behaviour, and its result satisfies \<open>Q\<close>. The equations push it through the constructs of
  the option monad, so that what remains of a goal are the calls of other operations; their rules are collected in \<open>succeeds_intros\<close>.\<close>

definition succeeds :: "'a option \<Rightarrow> ('a \<Rightarrow> bool) \<Rightarrow> bool" where
  "succeeds r Q \<longleftrightarrow> (\<exists>x. r = Some x \<and> Q x)"

named_theorems succeeds_intros \<open>rules for the calls in a computation\<close>

lemma succeeds_simps [simp]:
  "succeeds (Some x) Q \<longleftrightarrow> Q x"
  "\<not> succeeds None Q"
  "succeeds (Option.bind r f) Q \<longleftrightarrow> succeeds r (\<lambda>x. succeeds (f x) Q)"
  by (auto simp: succeeds_def bind_eq_Some_conv)

lemma succeeds_conseq: "succeeds r P \<Longrightarrow> (\<And>x. P x \<Longrightarrow> Q x) \<Longrightarrow> succeeds r Q"
  by (auto simp: succeeds_def)

lemma succeedsD: "succeeds r Q \<Longrightarrow> \<exists>x. r = Some x \<and> Q x"
  by (simp add: succeeds_def)

lemma succeeds_if [succeeds_intros]: "(c \<Longrightarrow> succeeds r Q) \<Longrightarrow> (\<not> c \<Longrightarrow> succeeds s Q) \<Longrightarrow> succeeds (if c then r else s) Q"
  by simp

lemma succeeds_case_option [succeeds_intros]:
  "(x = None \<Longrightarrow> succeeds r Q) \<Longrightarrow> (\<And>y. x = Some y \<Longrightarrow> succeeds (f y) Q) \<Longrightarrow> succeeds (case x of None \<Rightarrow> r | Some y \<Rightarrow> f y) Q"
  by (cases x) simp_all

lemma succeeds_case_prod [succeeds_intros]: "(\<And>y z. p = (y, z) \<Longrightarrow> succeeds (f y z) Q) \<Longrightarrow> succeeds (case p of (y, z) \<Rightarrow> f y z) Q"
  by (cases p) simp

lemma succeeds_case_bool [succeeds_intros]: "(c \<Longrightarrow> succeeds r Q) \<Longrightarrow> (\<not> c \<Longrightarrow> succeeds s Q) \<Longrightarrow> succeeds (case c of True \<Rightarrow> r | False \<Rightarrow> s) Q"
  by (cases c) simp_all

lemma succeeds_Let [succeeds_intros]: "(\<And>y. y = x \<Longrightarrow> succeeds (f y) Q) \<Longrightarrow> succeeds (let y = x in f y) Q"
  by simp

end
