(* ===== verification/Isz_Wire.thy ===== *)
theory Isz_Wire
  imports Isz_Prelude
begin

text \<open>
  The framing layer of \<^verbatim>\<open>src/protocol/isz_protocol.c\<close> and \<^verbatim>\<open>isz_protocol.h\<close>: byte-order helpers,
  \<^verbatim>\<open>isz_proto_encode\<close> and \<^verbatim>\<open>isz_proto_decode\<close>, and the payload read and write helpers the
  dispatcher chains. A buffer is a list of bytes; a write or read outside it is \<open>None\<close>.
\<close>

section \<open>Constants of the protocol\<close>

abbreviation (input) "ISZ_PROTOCOL_MAGIC \<equiv> (0x49535A48 :: u32)"
abbreviation (input) "ISZ_PROTOCOL_VERSION \<equiv> (1 :: u32)"
abbreviation (input) "ISZ_PROTO_MAX_MESSAGE \<equiv> (8192 :: nat)"
abbreviation (input) "ISZ_PROTO_MAX_FDS \<equiv> (8 :: nat)"
abbreviation (input) "ISZ_MSG_HEADER_SIZE \<equiv> (8 :: nat)"

abbreviation (input) "ISZ_MSG_HANDSHAKE_DONE \<equiv> (1 :: u32)"
abbreviation (input) "ISZ_MSG_GLOBAL \<equiv> (2 :: u32)"
abbreviation (input) "ISZ_MSG_CAPABILITIES \<equiv> (3 :: u32)"
abbreviation (input) "ISZ_MSG_SURFACE_CREATE \<equiv> (4 :: u32)"
abbreviation (input) "ISZ_MSG_SURFACE_DESTROY \<equiv> (5 :: u32)"
abbreviation (input) "ISZ_MSG_SURFACE_ATTACH_BUFFER \<equiv> (6 :: u32)"
abbreviation (input) "ISZ_MSG_SURFACE_DAMAGE \<equiv> (7 :: u32)"
abbreviation (input) "ISZ_MSG_SURFACE_SET_POSITION \<equiv> (8 :: u32)"
abbreviation (input) "ISZ_MSG_SURFACE_SET_SIZE \<equiv> (9 :: u32)"
abbreviation (input) "ISZ_MSG_SURFACE_SET_PLANE_TYPE \<equiv> (10 :: u32)"
abbreviation (input) "ISZ_MSG_SURFACE_SET_PLANE_SLOT \<equiv> (11 :: u32)"
abbreviation (input) "ISZ_MSG_SURFACE_SET_ZPOS \<equiv> (12 :: u32)"
abbreviation (input) "ISZ_MSG_SURFACE_SET_TRANSFORM \<equiv> (13 :: u32)"
abbreviation (input) "ISZ_MSG_SURFACE_CREATE_SUBSURFACE \<equiv> (14 :: u32)"
abbreviation (input) "ISZ_MSG_SURFACE_CREATE_POPUP \<equiv> (15 :: u32)"
abbreviation (input) "ISZ_MSG_SURFACE_CREATE_LAYER \<equiv> (16 :: u32)"
abbreviation (input) "ISZ_MSG_BUFFER_DESTROY \<equiv> (17 :: u32)"
abbreviation (input) "ISZ_MSG_RELEASE \<equiv> (18 :: u32)"
abbreviation (input) "ISZ_MSG_SEAT_SET_KEYBOARD_FOCUS \<equiv> (19 :: u32)"
abbreviation (input) "ISZ_MSG_SEAT_SET_CURSOR_SURFACE \<equiv> (20 :: u32)"
abbreviation (input) "ISZ_MSG_COMMIT \<equiv> (21 :: u32)"
abbreviation (input) "ISZ_MSG_OUTPUT_ENABLE \<equiv> (22 :: u32)"
abbreviation (input) "ISZ_MSG_OUTPUT_DISABLE \<equiv> (23 :: u32)"
abbreviation (input) "ISZ_MSG_OUTPUT_SET_DPMS \<equiv> (24 :: u32)"
abbreviation (input) "ISZ_MSG_OUTPUT_SET_GAMMA \<equiv> (25 :: u32)"
abbreviation (input) "ISZ_MSG_OUTPUT_SET_DEGAMMA \<equiv> (26 :: u32)"
abbreviation (input) "ISZ_MSG_OUTPUT_SET_CTM \<equiv> (27 :: u32)"
abbreviation (input) "ISZ_MSG_OUTPUT_SET_HDR_METADATA \<equiv> (28 :: u32)"
abbreviation (input) "ISZ_MSG_CAPTURE_START \<equiv> (29 :: u32)"
abbreviation (input) "ISZ_MSG_CAPTURE_STOP \<equiv> (30 :: u32)"
abbreviation (input) "ISZ_MSG_CAPTURE_DONE \<equiv> (31 :: u32)"
abbreviation (input) "ISZ_MSG_PRESENTED \<equiv> (32 :: u32)"
abbreviation (input) "ISZ_MSG_DRAG_START \<equiv> (33 :: u32)"
abbreviation (input) "ISZ_MSG_DRAG_MOTION \<equiv> (34 :: u32)"
abbreviation (input) "ISZ_MSG_DRAG_ACCEPT \<equiv> (35 :: u32)"
abbreviation (input) "ISZ_MSG_DRAG_REJECT \<equiv> (36 :: u32)"
abbreviation (input) "ISZ_MSG_DRAG_DROP \<equiv> (37 :: u32)"
abbreviation (input) "ISZ_MSG_POPUP_DISMISS \<equiv> (38 :: u32)"
abbreviation (input) "ISZ_MSG_CLIPBOARD_SET \<equiv> (39 :: u32)"
abbreviation (input) "ISZ_MSG_CLIPBOARD_REQUEST \<equiv> (40 :: u32)"
abbreviation (input) "ISZ_MSG_ERROR \<equiv> (50 :: u32)"
abbreviation (input) "ISZ_MSG_SURFACE_PREFERRED_SCALE \<equiv> (51 :: u32)"
abbreviation (input) "ISZ_MSG_SET_SELECTION_OWNER \<equiv> (52 :: u32)"
abbreviation (input) "ISZ_MSG_TEXT_INPUT_PREEDIT \<equiv> (53 :: u32)"
abbreviation (input) "ISZ_MSG_TEXT_INPUT_COMMIT \<equiv> (54 :: u32)"
abbreviation (input) "ISZ_MSG_IDLE_INHIBIT_ACTIVE \<equiv> (55 :: u32)"
abbreviation (input) "ISZ_MSG_IDLE_INHIBIT_INACTIVE \<equiv> (56 :: u32)"

section \<open>Byte-order helpers\<close>

definition isz_put_u32_le :: "u8 list \<Rightarrow> nat \<Rightarrow> u32 \<Rightarrow> u8 list option" where
  "isz_put_u32_le p off v =
     (if off + 4 \<le> length p
      then Some (p[off := byte_of 0 v, off + 1 := byte_of 8 v,
                   off + 2 := byte_of 16 v, off + 3 := byte_of 24 v])
      else None)"

definition isz_get_u32_le :: "u8 list \<Rightarrow> nat \<Rightarrow> u32 option" where
  "isz_get_u32_le p off =
     (if off + 4 \<le> length p
      then Some (ucast (p ! off) OR push_bit 8 (ucast (p ! (off + 1)))
                 OR push_bit 16 (ucast (p ! (off + 2))) OR push_bit 24 (ucast (p ! (off + 3))))
      else None)"

definition isz_put_u32_be :: "u8 list \<Rightarrow> nat \<Rightarrow> u32 \<Rightarrow> u8 list option" where
  "isz_put_u32_be p off v =
     (if off + 4 \<le> length p
      then Some (p[off := byte_of 24 v, off + 1 := byte_of 16 v,
                   off + 2 := byte_of 8 v, off + 3 := byte_of 0 v])
      else None)"

definition isz_get_u32_be :: "u8 list \<Rightarrow> nat \<Rightarrow> u32 option" where
  "isz_get_u32_be p off =
     (if off + 4 \<le> length p
      then Some (push_bit 24 (ucast (p ! off)) OR push_bit 16 (ucast (p ! (off + 1)))
                 OR push_bit 8 (ucast (p ! (off + 2))) OR ucast (p ! (off + 3)))
      else None)"

section \<open>Frames\<close>

text \<open>\<^verbatim>\<open>memcpy(dst + off, src, len)\<close> between distinct buffers.\<close>

definition memcpy_at :: "u8 list \<Rightarrow> nat \<Rightarrow> u8 list \<Rightarrow> nat \<Rightarrow> u8 list option" where
  "memcpy_at dst off src len =
     (if off + len \<le> length dst \<and> len \<le> length src
      then Some (take off dst @ take len src @ drop (off + len) dst) else None)"

text \<open>
  \<^verbatim>\<open>isz_proto_encode\<close>: \<open>payload = None\<close> is a \<^verbatim>\<open>NULL\<close> pointer; the result is the error number
  of the return value 0, or the filled buffer with the byte count.
\<close>

definition isz_proto_encode ::
    "u8 list \<Rightarrow> nat \<Rightarrow> u32 \<Rightarrow> u8 list option \<Rightarrow> nat \<Rightarrow> (errno + u8 list \<times> nat) option" where
  "isz_proto_encode out_buf out_buf_len msg_id payload payload_len =
     (if payload_len > 0 \<and> payload = None then Some (Inl EINVAL)
      else if payload_len > ISZ_PROTO_MAX_MESSAGE - ISZ_MSG_HEADER_SIZE then Some (Inl EMSGSIZE)
      else let total = ISZ_MSG_HEADER_SIZE + payload_len in
        if out_buf_len < total then Some (Inl EMSGSIZE)
        else do {
          out \<leftarrow> isz_put_u32_le out_buf 0 (of_nat (4 + payload_len));
          out \<leftarrow> isz_put_u32_le out 4 msg_id;
          out \<leftarrow> (if payload_len > 0
                 then memcpy_at out ISZ_MSG_HEADER_SIZE (the payload) payload_len
                 else Some out);
          Some (Inr (out, total))
        })"

text \<open>Results of \<^verbatim>\<open>isz_proto_decode\<close>: 0, \<^verbatim>\<open>(size_t)-1\<close> with its \<^verbatim>\<open>errno\<close>, or a message with the
  number of bytes consumed.\<close>

datatype decoded =
    Incomplete
  | Malformed errno
  | Decoded nat u32 "u8 list"

definition isz_proto_decode :: "u8 list \<Rightarrow> nat \<Rightarrow> decoded option" where
  "isz_proto_decode in_buf len =
     (if len < 4 then Some Incomplete
      else do {
        msg_len \<leftarrow> isz_get_u32_le in_buf 0;
        (if unat msg_len < 4 then Some (Malformed EBADMSG)
         else if unat msg_len > ISZ_PROTO_MAX_MESSAGE - 4 then Some (Malformed EMSGSIZE)
         else let total = 4 + unat msg_len in
           if len < total then Some Incomplete
           else do {
             msg_id \<leftarrow> isz_get_u32_le in_buf 4;
             Some (Decoded total msg_id
                    (take (unat msg_len - 4) (drop ISZ_MSG_HEADER_SIZE in_buf)))
           })
      })"

section \<open>Payload helpers\<close>

definition isz_proto_write_u32 :: "u8 list \<Rightarrow> nat \<Rightarrow> u32 \<Rightarrow> (u8 list \<times> nat) option" where
  "isz_proto_write_u32 buf off v = do { b \<leftarrow> isz_put_u32_le buf off v; Some (b, off + 4) }"

definition isz_proto_write_i32 :: "u8 list \<Rightarrow> nat \<Rightarrow> int \<Rightarrow> (u8 list \<times> nat) option" where
  "isz_proto_write_i32 buf off v =
     do { b \<leftarrow> isz_put_u32_le buf off (word_of_int v); Some (b, off + 4) }"

text \<open>The byte loop of \<^verbatim>\<open>isz_proto_write_u64\<close>, unrolled over \<^verbatim>\<open>i = 0 .. 7\<close> by a fold.\<close>

definition isz_proto_write_u64 :: "u8 list \<Rightarrow> nat \<Rightarrow> u64 \<Rightarrow> (u8 list \<times> nat) option" where
  "isz_proto_write_u64 buf off v =
     (if off + 8 \<le> length buf
      then Some (fold (\<lambda>i p. p[off + i := byte_of (8 * i) v]) [0..<8] buf, off + 8) else None)"

definition isz_proto_write_u8 :: "u8 list \<Rightarrow> nat \<Rightarrow> u8 \<Rightarrow> (u8 list \<times> nat) option" where
  "isz_proto_write_u8 buf off v = (if off < length buf then Some (buf[off := v], off + 1) else None)"

definition isz_proto_read_u32 :: "u8 list \<Rightarrow> nat \<Rightarrow> u32 option" where
  "isz_proto_read_u32 buf off = isz_get_u32_le buf off"

definition isz_proto_read_i32 :: "u8 list \<Rightarrow> nat \<Rightarrow> int option" where
  "isz_proto_read_i32 buf off = map_option sint (isz_get_u32_le buf off)"

definition isz_proto_read_u64 :: "u8 list \<Rightarrow> nat \<Rightarrow> u64 option" where
  "isz_proto_read_u64 buf off =
     (if off + 8 \<le> length buf
      then Some (fold (\<lambda>i v. v OR push_bit (8 * i) (ucast (buf ! (off + i)))) [0..<8] 0) else None)"

definition isz_proto_read_u8 :: "u8 list \<Rightarrow> nat \<Rightarrow> u8 option" where
  "isz_proto_read_u8 buf off = (if off < length buf then Some (buf ! off) else None)"

text \<open>
  The checked readers return \<^verbatim>\<open>false\<close> (here \<open>Some None\<close>) or the value and the advanced offset.
  The outer \<open>None\<close> is a read past the end of the buffer itself.
\<close>

definition isz_proto_read_u32_checked ::
    "u8 list \<Rightarrow> nat \<Rightarrow> nat \<Rightarrow> (u32 \<times> nat) option option" where
  "isz_proto_read_u32_checked buf off payload_len =
     (if off > payload_len \<or> payload_len - off < 4 then Some None
      else do { v \<leftarrow> isz_proto_read_u32 buf off; Some (Some (v, off + 4)) })"

definition isz_proto_read_i32_checked ::
    "u8 list \<Rightarrow> nat \<Rightarrow> nat \<Rightarrow> (int \<times> nat) option option" where
  "isz_proto_read_i32_checked buf off payload_len =
     (if off > payload_len \<or> payload_len - off < 4 then Some None
      else do { v \<leftarrow> isz_proto_read_i32 buf off; Some (Some (v, off + 4)) })"

definition isz_proto_read_u64_checked ::
    "u8 list \<Rightarrow> nat \<Rightarrow> nat \<Rightarrow> (u64 \<times> nat) option option" where
  "isz_proto_read_u64_checked buf off payload_len =
     (if off > payload_len \<or> payload_len - off < 8 then Some None
      else do { v \<leftarrow> isz_proto_read_u64 buf off; Some (Some (v, off + 8)) })"

section \<open>Reference encodings\<close>

text \<open>What the byte-level code is meant to compute: the little- and big-endian byte lists of a
  word, and the frame of a message.\<close>

definition le32 :: "u32 \<Rightarrow> u8 list" where
  "le32 v = [byte_of 0 v, byte_of 8 v, byte_of 16 v, byte_of 24 v]"

definition be32 :: "u32 \<Rightarrow> u8 list" where
  "be32 v = rev (le32 v)"

definition le64 :: "u64 \<Rightarrow> u8 list" where
  "le64 v = map (\<lambda>i. byte_of (8 * i) v) [0..<8]"

definition frame :: "u32 \<Rightarrow> u8 list \<Rightarrow> u8 list" where
  "frame msg_id payload = le32 (of_nat (4 + length payload)) @ le32 msg_id @ payload"

section \<open>Byte-order lemmas\<close>

lemma length_le32 [simp]: "length (le32 v) = 4"
  by (simp add: le32_def)

lemma length_be32 [simp]: "length (be32 v) = 4"
  by (simp add: be32_def)

lemma length_le64 [simp]: "length (le64 v) = 8"
  by (simp add: le64_def)

lemma length_frame [simp]: "length (frame m p) = 8 + length p"
  by (simp add: frame_def)

lemma join_bytes_u32:
  fixes v :: u32
  shows "ucast (byte_of 0 v) OR push_bit 8 (ucast (byte_of 8 v)) OR
         push_bit 16 (ucast (byte_of 16 v)) OR push_bit 24 (ucast (byte_of 24 v)) = v"
    (is "?w = v")
proof (rule bit_word_eqI)
  fix n assume "n < LENGTH(32)"
  then show "bit ?w n = bit v n"
    by (auto simp only: bit_or_iff bit_byte_at bit_byte_at_0) auto
qed

lemma split_bytes_u32:
  fixes a b c d :: u8
  defines "w \<equiv> (ucast a OR push_bit 8 (ucast b) OR push_bit 16 (ucast c) OR push_bit 24 (ucast d)) :: u32"
  shows "byte_of 0 w = a" "byte_of 8 w = b" "byte_of 16 w = c" "byte_of 24 w = d"
  by (rule bit_word_eqI; auto simp: w_def bit_byte_of bit_simps dest: bit_imp_le_length)+

lemma take_4_nth: "off + 4 \<le> length p \<Longrightarrow>
    take 4 (drop off p) = [p ! off, p ! (off + 1), p ! (off + 2), p ! (off + 3)]"
  by (rule nth_equalityI) (auto simp: less_Suc_eq numeral_eq_Suc)

lemma isz_put_u32_le_eq [wire_simps]:
  "isz_put_u32_le p off v =
     (if off + 4 \<le> length p then Some (take off p @ le32 v @ drop (off + 4) p) else None)"
proof -
  have "p[off := byte_of 0 v, off + 1 := byte_of 8 v, off + 2 := byte_of 16 v, off + 3 := byte_of 24 v]
      = take off p @ le32 v @ drop (off + 4) p" if "off + 4 \<le> length p"
    using that by (intro nth_equalityI) (auto simp: le32_def nth_append nth_list_update nth_Cons' )
  then show ?thesis by (simp add: isz_put_u32_le_def)
qed

lemma isz_put_u32_be_eq [wire_simps]:
  "isz_put_u32_be p off v =
     (if off + 4 \<le> length p then Some (take off p @ be32 v @ drop (off + 4) p) else None)"
proof -
  have "p[off := byte_of 24 v, off + 1 := byte_of 16 v, off + 2 := byte_of 8 v, off + 3 := byte_of 0 v]
      = take off p @ be32 v @ drop (off + 4) p" if "off + 4 \<le> length p"
    using that by (intro nth_equalityI) (auto simp: be32_def le32_def nth_append nth_list_update nth_Cons')
  then show ?thesis by (simp add: isz_put_u32_be_def)
qed

lemma isz_get_u32_le_Some_iff:
  "isz_get_u32_le p off = Some v \<longleftrightarrow> off + 4 \<le> length p \<and> take 4 (drop off p) = le32 v"
proof
  assume "isz_get_u32_le p off = Some v"
  then have len: "off + 4 \<le> length p"
    and v: "v = ucast (p ! off) OR push_bit 8 (ucast (p ! (off + 1)))
                 OR push_bit 16 (ucast (p ! (off + 2))) OR push_bit 24 (ucast (p ! (off + 3)))"
    by (auto simp: isz_get_u32_le_def split: if_splits)
  then show "off + 4 \<le> length p \<and> take 4 (drop off p) = le32 v"
    by (simp add: take_4_nth le32_def split_bytes_u32)
next
  assume h: "off + 4 \<le> length p \<and> take 4 (drop off p) = le32 v"
  then have "[p ! off, p ! (off + 1), p ! (off + 2), p ! (off + 3)] = le32 v"
    by (metis take_4_nth)
  then have "p ! off = byte_of 0 v" "p ! (off + 1) = byte_of 8 v"
    "p ! (off + 2) = byte_of 16 v" "p ! (off + 3) = byte_of 24 v"
    by (simp_all add: le32_def)
  with h show "isz_get_u32_le p off = Some v"
    using join_bytes_u32 [of v] by (simp add: isz_get_u32_le_def)
qed

lemma isz_get_u32_le_append [wire_simps]:
  "off = length pre \<Longrightarrow> isz_get_u32_le (pre @ le32 v @ post) off = Some v"
  by (simp add: isz_get_u32_le_Some_iff)

lemmas isz_get_u32_le_0 [wire_simps] =
  isz_get_u32_le_append [where pre = "[]" and off = 0, simplified]

lemma isz_get_u32_le_4 [wire_simps]: "isz_get_u32_le (le32 u @ le32 v @ post) 4 = Some v"
  by (simp add: isz_get_u32_le_Some_iff)

lemma isz_get_u32_le_None_iff: "isz_get_u32_le p off = None \<longleftrightarrow> length p < off + 4"
  by (auto simp: isz_get_u32_le_def)

lemma isz_get_u32_be_append [wire_simps]:
  "off = length pre \<Longrightarrow> isz_get_u32_be (pre @ be32 v @ post) off = Some v"
  using join_bytes_u32 [of v]
  by (simp add: isz_get_u32_be_def be32_def le32_def nth_append ac_simps)

lemma le32_inj [simp]: "le32 a = le32 b \<longleftrightarrow> a = b"
  by (metis append_Nil2 isz_get_u32_le_0 option.inject)

subsection \<open>64-bit fields\<close>

lemma upt_0_8: "[0..<8] = [0, 1, 2, 3, 4, 5, 6, 7 :: nat]"
  by (simp add: upt_rec)

lemma join_bytes_u64: "fold (\<lambda>i w. w OR push_bit (8 * i) (ucast (byte_of (8 * i) v))) [0..<8] (0 :: u64) = v"
    (is "?w = v")
proof (rule bit_word_eqI)
  fix n assume "n < LENGTH(64)"
  then show "bit ?w n = bit v n"
    by (auto simp: upt_0_8 bit_or_iff bit_byte_at bit_byte_at_0)
qed

lemma fold_list_update_append:
  "length xs = length zs \<Longrightarrow>
     fold (\<lambda>i p. p[length pre + i := zs ! i]) [0..<length zs] (pre @ xs @ post) = pre @ zs @ post"
proof (induction zs arbitrary: xs post rule: rev_induct)
  case Nil
  then show ?case by simp
next
  case (snoc z zs)
  from snoc.prems obtain x xs' where xs: "xs = xs' @ [x]" "length xs' = length zs"
    by (cases xs rule: rev_cases) auto
  have "fold (\<lambda>i p. p[length pre + i := (zs @ [z]) ! i]) [0..<length zs] (pre @ xs' @ x # post)
      = fold (\<lambda>i p. p[length pre + i := zs ! i]) [0..<length zs] (pre @ xs' @ x # post)"
    by (rule fold_cong) (auto simp: nth_append)
  also have "\<dots> = pre @ zs @ x # post"
    by (rule snoc.IH [OF xs(2)])
  finally show ?case
    by (simp add: xs nth_append list_update_append)
qed

lemma isz_proto_write_u64_eq [wire_simps]:
  "isz_proto_write_u64 buf off v =
     (if off + 8 \<le> length buf then Some (take off buf @ le64 v @ drop (off + 8) buf, off + 8) else None)"
proof (cases "off + 8 \<le> length buf")
  case True
  then have split: "buf = take off buf @ take 8 (drop off buf) @ drop (off + 8) buf"
    by (metis append_take_drop_id add.commute drop_drop)
  have "fold (\<lambda>i p. p[off + i := byte_of (8 * i) v]) [0..<8] buf
      = fold (\<lambda>i p. p[length (take off buf) + i := le64 v ! i]) [0..<length (le64 v)]
          (take off buf @ take 8 (drop off buf) @ drop (off + 8) buf)"
    using True split by (intro fold_cong) (auto simp: le64_def)
  also have "\<dots> = take off buf @ le64 v @ drop (off + 8) buf"
    using True by (intro fold_list_update_append) simp
  finally show ?thesis using True by (simp add: isz_proto_write_u64_def)
qed (simp add: isz_proto_write_u64_def)

lemma isz_proto_read_u64_append [wire_simps]:
  "off = length pre \<Longrightarrow> isz_proto_read_u64 (pre @ le64 v @ post) off = Some v"
proof -
  assume off: "off = length pre"
  have "fold (\<lambda>i w. w OR push_bit (8 * i) (ucast ((pre @ le64 v @ post) ! (off + i)))) [0..<8] (0 :: u64)
      = fold (\<lambda>i w. w OR push_bit (8 * i) (ucast (byte_of (8 * i) v))) [0..<8] 0"
    by (intro fold_cong) (auto simp: off nth_append le64_def)
  then show ?thesis by (simp add: isz_proto_read_u64_def off join_bytes_u64)
qed

subsection \<open>Closed forms of the payload helpers\<close>

lemma isz_proto_write_u32_eq [wire_simps]:
  "isz_proto_write_u32 buf off v =
     (if off + 4 \<le> length buf then Some (take off buf @ le32 v @ drop (off + 4) buf, off + 4) else None)"
  by (simp add: isz_proto_write_u32_def isz_put_u32_le_eq)

lemma isz_proto_write_i32_eq [wire_simps]:
  "isz_proto_write_i32 buf off v =
     (if off + 4 \<le> length buf
      then Some (take off buf @ le32 (word_of_int v) @ drop (off + 4) buf, off + 4) else None)"
  by (simp add: isz_proto_write_i32_def isz_put_u32_le_eq)

lemma isz_proto_read_u32_checked_safe: "isz_proto_read_u32_checked p off (length p) \<noteq> None"
  by (simp add: isz_proto_read_u32_checked_def isz_proto_read_u32_def isz_get_u32_le_def) linarith

lemma isz_proto_read_i32_checked_safe: "isz_proto_read_i32_checked p off (length p) \<noteq> None"
  by (simp add: isz_proto_read_i32_checked_def isz_proto_read_i32_def isz_get_u32_le_def) linarith

lemma isz_proto_read_u64_checked_safe: "isz_proto_read_u64_checked p off (length p) \<noteq> None"
  by (simp add: isz_proto_read_u64_checked_def isz_proto_read_u64_def) linarith

subsection \<open>Frames\<close>

lemma memcpy_at_eq [wire_simps]:
  "memcpy_at dst off src (length src) =
     (if off + length src \<le> length dst then Some (take off dst @ src @ drop (off + length src) dst) else None)"
  by (simp add: memcpy_at_def)

lemma isz_proto_encode_eq:
  assumes "out_buf_len \<le> length out_buf"
  shows "isz_proto_encode out_buf out_buf_len msg_id (Some payload) (length payload) =
     Some (if length payload > 8184 \<or> out_buf_len < 8 + length payload then Inl EMSGSIZE
           else Inr (frame msg_id payload @ drop (8 + length payload) out_buf, 8 + length payload))"
  using assms by (auto simp: isz_proto_encode_def Let_def wire_simps frame_def add.commute)

lemma isz_proto_encode_NULL:
  assumes "out_buf_len \<le> length out_buf"
  shows "isz_proto_encode out_buf out_buf_len msg_id None 0 =
     Some (if out_buf_len < 8 then Inl EMSGSIZE else Inr (frame msg_id [] @ drop 8 out_buf, 8))"
  using assms by (auto simp: isz_proto_encode_def Let_def wire_simps frame_def)

lemma unat_frame_len: "n \<le> 8184 \<Longrightarrow> unat (4 + word_of_nat n :: u32) = 4 + n"
  using unat_of_nat [where ?'a = 32, of "4 + n"] by simp

lemma isz_proto_decode_frame:
  assumes "length payload \<le> 8184" "8 + length payload \<le> len"
  shows "isz_proto_decode (frame msg_id payload @ rest) len =
           Some (Decoded (8 + length payload) msg_id payload)"
  using assms
  by (simp add: isz_proto_decode_def frame_def wire_simps unat_frame_len Let_def)

lemma le32_word: "4 \<le> unat v \<Longrightarrow> le32 (word_of_nat (4 + (unat v - 4))) = le32 v"
  by simp

lemma isz_proto_decode_Decoded:
  assumes "len \<le> length buf" "isz_proto_decode buf len = Some (Decoded t m p)"
  shows "t \<le> len \<and> t \<le> 8192 \<and> t = 8 + length p \<and> take t buf = frame m p"
proof -
  from assms obtain v where v: "isz_get_u32_le buf 0 = Some v" "4 \<le> unat v" "unat v \<le> 8188"
    and t: "t = 4 + unat v" "t \<le> len" and m: "isz_get_u32_le buf 4 = Some m"
    and p: "p = take (unat v - 4) (drop 8 buf)"
    by (auto simp: isz_proto_decode_def bind_eq_Some_conv Let_def split: if_splits)
  from v(1) have "take 4 buf = le32 v" by (simp add: isz_get_u32_le_Some_iff)
  moreover from m have "take 4 (drop 4 buf) = le32 m" by (simp add: isz_get_u32_le_Some_iff)
  moreover have "take t buf = take 4 buf @ take 4 (drop 4 buf) @ take (t - 8) (drop 8 buf)"
    using take_add [of 4 "t - 4" buf] take_add [of 4 "t - 8" "drop 4 buf"] t v by simp
  moreover have len: "length p = unat v - 4" using t v assms by (simp add: p)
  ultimately show ?thesis
    using t v le32_word [of v] by (simp add: frame_def p)
qed

lemma isz_proto_decode_safe: "len \<le> length buf \<Longrightarrow> isz_proto_decode buf len \<noteq> None"
  by (auto simp: isz_proto_decode_def Let_def isz_get_u32_le_def split: bind_splits)

lemma isz_proto_decode_short:
  assumes "n < 8 + length payload" "length payload \<le> 8184"
  shows "isz_proto_decode (take n (frame msg_id payload)) n = Some Incomplete"
proof (cases "n < 4")
  case True
  then show ?thesis by (simp add: isz_proto_decode_def)
next
  case False
  then have "take n (frame msg_id payload) =
      le32 (of_nat (4 + length payload)) @ take (n - 4) (le32 msg_id @ payload)"
    by (simp add: frame_def)
  with False assms show ?thesis
    by (simp add: isz_proto_decode_def wire_simps unat_frame_len Let_def)
qed

section \<open>Properties of the framing layer\<close>

text \<open>C1: encoding followed by decoding is the identity on every message that fits. For a payload
  of at most 8184 bytes and an output buffer that holds the frame, \<^verbatim>\<open>isz_proto_encode\<close> succeeds
  without touching memory outside the buffer, and \<^verbatim>\<open>isz_proto_decode\<close> of the bytes it wrote (with
  whatever follows them) returns exactly the message id, the payload and the frame length.\<close>

theorem encode_decode_roundtrip:
  assumes "length payload \<le> 8184" and "8 + length payload \<le> out_buf_len"
    and "out_buf_len \<le> length out_buf"
  shows "\<exists>out. isz_proto_encode out_buf out_buf_len msg_id (Some payload) (length payload)
                = Some (Inr (out, 8 + length payload))
           \<and> length out = length out_buf
           \<and> isz_proto_decode out (length out)
                = Some (Decoded (8 + length payload) msg_id payload)"
  using assms by (simp add: isz_proto_encode_eq isz_proto_decode_frame)

theorem encode_decode_roundtrip_witness:
  "\<exists>out. isz_proto_encode (replicate 16 0) 16 7 (Some [1, 2, 3]) 3 = Some (Inr (out, 11))
         \<and> length out = 16 \<and> isz_proto_decode out 16 = Some (Decoded 11 7 [1, 2, 3])"
  using encode_decode_roundtrip [of "[1, 2, 3]" 16 "replicate 16 0" 7] by (auto simp: numeral_3_eq_3)

text \<open>C2: decoding is sound on arbitrary input. \<^verbatim>\<open>isz_proto_decode\<close> never reads outside the bytes it
  was given, and whatever it accepts is a frame of at most 8192 bytes inside the input whose
  re-encoding is the bytes consumed.\<close>

theorem decode_sound:
  assumes "len \<le> length buf"
  shows "isz_proto_decode buf len \<noteq> None
       \<and> (\<forall>t m p. isz_proto_decode buf len = Some (Decoded t m p) \<longrightarrow>
            t \<le> len \<and> t \<le> ISZ_PROTO_MAX_MESSAGE \<and> take t buf = frame m p)"
  using isz_proto_decode_safe [OF assms] isz_proto_decode_Decoded [OF assms] by blast

theorem decode_sound_witness:
  "isz_proto_decode (frame 5 [9] @ [1, 2]) 11 = Some (Decoded 9 5 [9])
   \<and> 9 \<le> (11 :: nat) \<and> take 9 (frame 5 [9] @ [1, 2]) = frame 5 [9]"
  using decode_sound [of 11 "frame 5 [9] @ [1, 2]"] isz_proto_decode_frame [of "[9]" 11 5 "[1, 2]"] by simp

text \<open>Framing is unambiguous under fragmentation. A proper prefix of a frame is reported as
  incomplete, never as a shorter message and never as malformed, so a receiver that waits for
  more bytes cannot mis-split the stream.\<close>

theorem decode_prefix_incomplete:
  assumes "n < 8 + length payload" and "length payload \<le> 8184"
  shows "isz_proto_decode (take n (frame msg_id payload)) n = Some Incomplete"
  using assms by (rule isz_proto_decode_short)

theorem decode_prefix_incomplete_witness:
  "isz_proto_decode (take 9 (frame 4 [1, 2, 3])) 9 = Some Incomplete"
  using decode_prefix_incomplete [of 9 "[1, 2, 3]" 4] by simp

end
