(* ===== verification/Isz_Socket.thy ===== *)
theory Isz_Socket
  imports Isz_Wire
begin

text \<open>
  Socket I/O of \<^verbatim>\<open>src/protocol/isz_protocol.c\<close>: sending a frame with descriptors, extracting
  received descriptors, the stateless and the stateful receive paths, and the blocking
  exchange of magic and version. The receive loops recurse on what the socket still has to
  deliver, so they are total.
\<close>

section \<open>Sending\<close>

text \<open>The three results of \<^verbatim>\<open>isz_proto_send_frame\<close>: the byte count, 0 for \<^verbatim>\<open>EAGAIN\<close>, -1.\<close>

datatype send_out = SendDone nat | SendAgain | SendFail errno

definition isz_proto_send_frame ::
    "'z kern_scheme \<Rightarrow> fd \<Rightarrow> u8 list \<Rightarrow> nat \<Rightarrow> fd list option \<Rightarrow> nat \<Rightarrow> 'z kern_scheme \<times> send_out" where
  "isz_proto_send_frame k fd frm frame_len fds n_fds =
     (if frame_len < ISZ_MSG_HEADER_SIZE \<or> frame_len > ISZ_PROTO_MAX_MESSAGE
      then (k, SendFail EMSGSIZE)
      else if n_fds > ISZ_PROTO_MAX_FDS then (k, SendFail EMSGSIZE)
      else if n_fds > 0 \<and> fds = None then (k, SendFail EINVAL)
      else
        let control = (if n_fds > 0 then take n_fds (the fds) else []);
            (k, r) = k_send k fd (take frame_len frm) control
        in case r of
             IoErr e \<Rightarrow> (k, if e = EAGAIN then SendAgain else SendFail e)
           | IoN n \<Rightarrow> (k, if n \<noteq> frame_len then SendFail EIO else SendDone frame_len))"

definition isz_proto_send_with_fds ::
    "'z kern_scheme \<Rightarrow> fd \<Rightarrow> u32 \<Rightarrow> u8 list option \<Rightarrow> nat \<Rightarrow> fd list option \<Rightarrow> nat \<Rightarrow> ('z kern_scheme \<times> send_out) option"
  where
  "isz_proto_send_with_fds k fd msg_id payload payload_len fds n_fds =
     (if payload_len > 0 \<and> payload = None then Some (k, SendFail EINVAL)
      else if payload_len > ISZ_PROTO_MAX_MESSAGE - ISZ_MSG_HEADER_SIZE then Some (k, SendFail EMSGSIZE)
      else do {
        r \<leftarrow> isz_proto_encode (replicate ISZ_PROTO_MAX_MESSAGE 0) ISZ_PROTO_MAX_MESSAGE
               msg_id payload payload_len;
        (case r of
           Inl e \<Rightarrow> Some (k, SendFail e)
         | Inr (buf, n) \<Rightarrow> Some (isz_proto_send_frame k fd buf n fds n_fds))
      })"

section \<open>Extracting descriptors\<close>

text \<open>The inner loop of \<^verbatim>\<open>isz_extract_fds\<close> over the descriptors of one control message, then the
  outer loop over the control messages. The state is the descriptors kept so far, the
  kernel, and the overflow flag.\<close>

fun extract_fds_loop :: "nat \<Rightarrow> fd list \<Rightarrow> fd list \<times> 'z kern_scheme \<times> bool \<Rightarrow> fd list \<times> 'z kern_scheme \<times> bool" where
  "extract_fds_loop cap [] s = s"
| "extract_fds_loop cap (got # gs) (out, k, overflow) =
     (if length out < cap then extract_fds_loop cap gs (out @ [got], k, overflow)
      else extract_fds_loop cap gs (out, k_close k got, True))"

fun extract_cmsg_loop :: "nat \<Rightarrow> cmsg list \<Rightarrow> fd list \<times> 'z kern_scheme \<times> bool \<Rightarrow> fd list \<times> 'z kern_scheme \<times> bool" where
  "extract_cmsg_loop cap [] s = s"
| "extract_cmsg_loop cap (OtherCmsg # cs) s = extract_cmsg_loop cap cs s"
| "extract_cmsg_loop cap (ScmRights ds # cs) s = extract_cmsg_loop cap cs (extract_fds_loop cap ds s)"

text \<open>On overflow every descriptor kept so far is closed and -1 (here \<open>None\<close>) is returned.\<close>

definition isz_extract_fds :: "'z kern_scheme \<Rightarrow> cmsg list \<Rightarrow> nat \<Rightarrow> 'z kern_scheme \<times> fd list option" where
  "isz_extract_fds k cmsgs cap =
     (let (out, k, overflow) = extract_cmsg_loop cap cmsgs ([], k, False)
      in if overflow then (k_close_all k out, None) else (k, Some out))"

datatype recv_raw = RawErr errno | RawClosed | RawBytes "u8 list" "fd list"

definition isz_proto_recv_with_fds :: "'z kern_scheme \<Rightarrow> nat \<Rightarrow> 'z kern_scheme \<times> recv_raw" where
  "isz_proto_recv_with_fds k buf_len =
     (if buf_len < ISZ_PROTO_MAX_MESSAGE then (k, RawErr EMSGSIZE)
      else let (k, r) = k_recv k buf_len in
        case r of
          RecvErr e \<Rightarrow> (k, RawErr e)
        | RecvData bs cmsgs ctrunc \<Rightarrow>
            if bs = [] then (k, RawClosed)
            else if ctrunc then (k, RawErr EMSGSIZE)
            else let (k, fds) = isz_extract_fds k cmsgs ISZ_PROTO_MAX_FDS in
              (case fds of None \<Rightarrow> (k, RawErr EMSGSIZE) | Some ds \<Rightarrow> (k, RawBytes bs ds)))"

definition fds_of_cmsgs :: "cmsg list \<Rightarrow> fd list" where
  "fds_of_cmsgs cs = concat (map (\<lambda>c. case c of ScmRights ds \<Rightarrow> ds | OtherCmsg \<Rightarrow> []) cs)"

lemma extract_fds_loop_eq:
  "extract_fds_loop cap ds (out, k, ov) =
     (out @ take (cap - length out) ds, k_close_all k (drop (cap - length out) ds),
      ov \<or> length ds > cap - length out)"
  by (induction ds arbitrary: out k ov)
     (auto simp: take_Cons' drop_Cons' k_close_all_Cons k_close_all_def k_close_def)

lemma fds_of_cmsgs_simps [simp]:
  "fds_of_cmsgs [] = []" "fds_of_cmsgs (OtherCmsg # cs) = fds_of_cmsgs cs"
  "fds_of_cmsgs (ScmRights ds # cs) = ds @ fds_of_cmsgs cs"
  by (simp_all add: fds_of_cmsgs_def)

lemma k_close_all_append: "k_close_all (k_close_all k xs) ys = k_close_all k (xs @ ys)"
  by (simp add: k_close_all_def)

lemma extract_cmsg_loop_eq:
  "length out \<le> cap \<Longrightarrow> extract_cmsg_loop cap cs (out, k, ov) =
     (out @ take (cap - length out) (fds_of_cmsgs cs),
      k_close_all k (drop (cap - length out) (fds_of_cmsgs cs)),
      ov \<or> length (fds_of_cmsgs cs) > cap - length out)"
proof (induction cs arbitrary: out k ov)
  case Nil
  then show ?case by simp
next
  case (Cons c cs)
  show ?case
  proof (cases c)
    case (ScmRights ds)
    let ?out = "out @ take (cap - length out) ds"
    have "length ?out \<le> cap" using Cons.prems by simp
    moreover have "cap - length ?out = cap - length out - length ds" by simp
    ultimately show ?thesis
      using Cons.IH [of ?out] ScmRights by (auto simp: extract_fds_loop_eq k_close_all_append)
  next
    case OtherCmsg
    with Cons show ?thesis by simp
  qed
qed

lemma isz_extract_fds_eq:
  "isz_extract_fds k cs cap =
     (if length (fds_of_cmsgs cs) > cap then (k_close_all k (drop cap (fds_of_cmsgs cs) @ take cap (fds_of_cmsgs cs)), None)
      else (k, Some (fds_of_cmsgs cs)))"
  by (auto simp: isz_extract_fds_def extract_cmsg_loop_eq k_close_all_append)

lemma isz_extract_fds_size: "isz_extract_fds k cs cap = (k', r) \<Longrightarrow> recv_size k' = recv_size k"
  by (auto simp: isz_extract_fds_eq recv_size_def k_close_all_def split: if_splits)


section \<open>Stateful receive\<close>

text \<open>\<^verbatim>\<open>struct isz_proto_recv_state\<close>: the valid bytes of \<^verbatim>\<open>buf\<close> (so \<^verbatim>\<open>have\<close> is their number), the
  stashed descriptors (so \<^verbatim>\<open>n_pending_fds\<close> is their number), and the progress flag.\<close>

record recv_state =
  rs_bytes :: "u8 list"
  rs_pending_fds :: "fd list"
  rs_in_progress :: bool

definition isz_proto_recv_state_init :: recv_state where
  "isz_proto_recv_state_init = \<lparr>rs_bytes = [], rs_pending_fds = [], rs_in_progress = False\<rparr>"

definition isz_proto_recv_state_discard :: "'z kern_scheme \<Rightarrow> recv_state \<Rightarrow> 'z kern_scheme \<times> recv_state" where
  "isz_proto_recv_state_discard k st =
     (k_close_all k (rs_pending_fds st), isz_proto_recv_state_init)"

text \<open>Results: a message (the whole frame, its id, the payload length, its descriptors), 0, or -1.\<close>

datatype recv_out = RecvMsg "u8 list" u32 nat "fd list" | RecvWait | RecvFail

datatype parse_out = ParseFail | ParseMore | ParseMsg recv_state "u8 list" u32 nat "fd list"

text \<open>The first half of the loop body: parse a complete message from what is buffered.\<close>

definition recv_state_parse :: "recv_state \<Rightarrow> parse_out option" where
  "recv_state_parse st =
     (if length (rs_bytes st) \<ge> 4 then do {
        msg_len \<leftarrow> isz_get_u32_le (rs_bytes st) 0;
        (if unat msg_len < 4 then Some ParseFail
         else if unat msg_len > ISZ_PROTO_MAX_MESSAGE - 4 then Some ParseFail
         else let total = 4 + unat msg_len in
           if length (rs_bytes st) \<ge> total then do {
             msg_id \<leftarrow> isz_get_u32_le (rs_bytes st) 4;
             (let rest = length (rs_bytes st) - total in
              Some (ParseMsg (st\<lparr>rs_bytes := drop total (rs_bytes st), rs_pending_fds := [],
                                 rs_in_progress := rest > 0\<rparr>)
                      (take total (rs_bytes st)) msg_id (unat msg_len - 4) (rs_pending_fds st)))
           }
           else Some ParseMore)
      } else Some ParseMore)"

text \<open>The loop itself, \<^verbatim>\<open>isz_proto_recv_state_read\<close>.\<close>

function (sequential) recv_state_loop :: "'z kern_scheme \<Rightarrow> recv_state \<Rightarrow> ('z kern_scheme \<times> recv_state \<times> recv_out) option" where
  "recv_state_loop k st =
     (case recv_state_parse st of
        None \<Rightarrow> None
      | Some ParseFail \<Rightarrow> Some (k, st, RecvFail)
      | Some (ParseMsg st' frm msg_id plen fds) \<Rightarrow> Some (k, st', RecvMsg frm msg_id plen fds)
      | Some ParseMore \<Rightarrow>
          (let cap = ISZ_PROTO_MAX_MESSAGE - length (rs_bytes st) in
           if cap = 0 then Some (k, st, RecvFail)
           else if k_recvs k = [] then Some (k, st, RecvWait)
           else case k_recv k cap of
                  (k', RecvErr e) \<Rightarrow>
                    if e = EINTR then recv_state_loop k' st
                    else if e = EAGAIN then Some (k', st, RecvWait)
                    else Some (k', st, RecvFail)
                | (k', RecvData bs cmsgs ctrunc) \<Rightarrow>
                    if bs = [] then Some (k', st, RecvFail)
                    else let st' = st\<lparr>rs_bytes := rs_bytes st @ bs, rs_in_progress := True\<rparr> in
                      if ctrunc then Some (k', st', RecvFail)
                      else (case isz_extract_fds k' cmsgs (ISZ_PROTO_MAX_FDS - length (rs_pending_fds st)) of
                              (k'', None) \<Rightarrow> Some (k'', st'\<lparr>rs_pending_fds := []\<rparr>, RecvFail)
                            | (k'', Some ds) \<Rightarrow>
                                recv_state_loop k'' (st'\<lparr>rs_pending_fds := rs_pending_fds st @ ds\<rparr>))))"
  by pat_completeness auto

termination
proof (relation "measure (\<lambda>(k, st). recv_size k)", goal_cases)
  case 1
  then show ?case by simp
next
  case (2 k st)
  then show ?case by (auto dest!: k_recv_size [OF sym])
next
  case (3 k st)
  then show ?case by (auto dest!: k_recv_size [OF sym] isz_extract_fds_size [OF sym])
qed

declare recv_state_loop.simps [simp del]

definition isz_proto_recv_state_read ::
    "'z kern_scheme \<Rightarrow> recv_state \<Rightarrow> nat \<Rightarrow> ('z kern_scheme \<times> recv_state \<times> recv_out) option" where
  "isz_proto_recv_state_read k st buf_len =
     (if buf_len < ISZ_PROTO_MAX_MESSAGE then Some (k, st, RecvFail) else recv_state_loop k st)"

section \<open>Magic and version\<close>

text \<open>\<^verbatim>\<open>isz_send_all\<close>: the part of the buffer still to send shrinks, or the send script does.\<close>

function isz_send_all :: "'z kern_scheme \<Rightarrow> fd \<Rightarrow> u8 list \<Rightarrow> 'z kern_scheme \<times> bool" where
  "isz_send_all k fd buf =
     (if buf = [] then (k, True)
      else if k_sends k = [] then (fst (k_send k fd buf []), True)
      else case k_send k fd buf [] of
             (k', IoErr e) \<Rightarrow> if e = EINTR then isz_send_all k' fd buf else (k', False)
           | (k', IoN n) \<Rightarrow> if n = 0 then (k', False) else isz_send_all k' fd (drop n buf))"
  by pat_completeness auto

termination
  by (relation "measure (\<lambda>(k, fd, buf). length (k_sends k))")
     (auto simp: k_send_def split: list.splits io_result.splits)

declare isz_send_all.simps [simp del]

text \<open>\<^verbatim>\<open>isz_recv_all\<close> collects \<open>len\<close> bytes from the blocking socket; \<open>None\<close> is the return value -1.
  Descriptors a peer attaches to these bytes are not received by \<^verbatim>\<open>recv\<close>.\<close>

function isz_recv_all :: "'z kern_scheme \<Rightarrow> nat \<Rightarrow> u8 list \<Rightarrow> 'z kern_scheme \<times> u8 list option" where
  "isz_recv_all k len got =
     (if length got \<ge> len then (k, Some got)
      else if k_recvs k = [] then (k, None)
      else case k_recv k (len - length got) of
             (k', RecvErr e) \<Rightarrow> if e = EINTR then isz_recv_all k' len got else (k', None)
           | (k', RecvData bs cs tr) \<Rightarrow> if bs = [] then (k', None) else isz_recv_all k' len (got @ bs))"
  by pat_completeness auto

termination
  by (relation "measure (\<lambda>(k, len, got). recv_size k)") (auto dest!: k_recv_size [OF sym])

declare isz_recv_all.simps [simp del]

definition isz_proto_send_magic :: "'z kern_scheme \<Rightarrow> fd \<Rightarrow> u32 \<Rightarrow> ('z kern_scheme \<times> bool) option" where
  "isz_proto_send_magic k fd version = do {
     buf \<leftarrow> isz_put_u32_be (replicate 8 0) 0 ISZ_PROTOCOL_MAGIC;
     buf \<leftarrow> isz_put_u32_le buf 4 version;
     Some (isz_send_all k fd buf)
   }"

text \<open>Result of \<^verbatim>\<open>isz_proto_recv_magic\<close>: 8 with the version, -2, or -1.\<close>

datatype magic_out = MagicOk u32 | MagicMismatch | MagicError

definition isz_proto_recv_magic :: "'z kern_scheme \<Rightarrow> ('z kern_scheme \<times> magic_out) option" where
  "isz_proto_recv_magic k =
     (case isz_recv_all k 8 [] of
        (k, None) \<Rightarrow> Some (k, MagicError)
      | (k, Some buf) \<Rightarrow> do {
          magic \<leftarrow> isz_get_u32_be buf 0;
          (if magic \<noteq> ISZ_PROTOCOL_MAGIC then Some (k, MagicMismatch)
           else do { v \<leftarrow> isz_get_u32_le buf 4; Some (k, MagicOk v) })
        })"

definition isz_proto_send_version_reply :: "'z kern_scheme \<Rightarrow> fd \<Rightarrow> u32 \<Rightarrow> ('z kern_scheme \<times> bool) option" where
  "isz_proto_send_version_reply k fd version = do {
     buf \<leftarrow> isz_put_u32_le (replicate 4 0) 0 version;
     Some (isz_send_all k fd buf)
   }"

definition isz_proto_recv_version_reply :: "'z kern_scheme \<Rightarrow> ('z kern_scheme \<times> u32 option) option" where
  "isz_proto_recv_version_reply k =
     (case isz_recv_all k 4 [] of
        (k, None) \<Rightarrow> Some (k, None)
      | (k, Some buf) \<Rightarrow> do { v \<leftarrow> isz_get_u32_le buf 0; Some (k, Some v) })"

section \<open>The receive path parses exactly as \<open>isz_proto_decode\<close> does\<close>

lemma recv_state_parse_decode:
  "recv_state_parse st =
     (case isz_proto_decode (rs_bytes st) (length (rs_bytes st)) of
        None \<Rightarrow> None
      | Some Incomplete \<Rightarrow> Some ParseMore
      | Some (Malformed e) \<Rightarrow> Some ParseFail
      | Some (Decoded t m p) \<Rightarrow>
          Some (ParseMsg (st\<lparr>rs_bytes := drop t (rs_bytes st), rs_pending_fds := [],
                             rs_in_progress := length (rs_bytes st) - t > 0\<rparr>)
                  (take t (rs_bytes st)) m (length p) (rs_pending_fds st)))"
proof -
  have "length (take (unat v - 4) (drop 8 (rs_bytes st))) = unat v - 4"
    if "4 + unat v \<le> length (rs_bytes st)" for v :: u32
    using that by simp
  then show ?thesis
    by (auto simp: recv_state_parse_def isz_proto_decode_def Let_def not_less split: bind_splits)
qed

lemma recv_state_parse_safe: "recv_state_parse st \<noteq> None"
  using isz_proto_decode_safe [of "length (rs_bytes st)" "rs_bytes st"]
  by (auto simp: recv_state_parse_decode split: option.splits decoded.splits)

section \<open>Bounds of the receive state\<close>

definition recv_state_ok :: "recv_state \<Rightarrow> bool" where
  "recv_state_ok st \<longleftrightarrow> length (rs_bytes st) \<le> ISZ_PROTO_MAX_MESSAGE
      \<and> length (rs_pending_fds st) \<le> ISZ_PROTO_MAX_FDS"

definition recv_out_ok :: "recv_out \<Rightarrow> bool" where
  "recv_out_ok r = (case r of
      RecvMsg frm m n fds \<Rightarrow> length frm \<le> ISZ_PROTO_MAX_MESSAGE \<and> length frm = 8 + n
         \<and> length fds \<le> ISZ_PROTO_MAX_FDS
    | _ \<Rightarrow> True)"

lemma recv_state_parse_ok:
  assumes "recv_state_parse st = Some (ParseMsg st' frm m n fds)" "recv_state_ok st"
  shows "recv_state_ok st' \<and> recv_out_ok (RecvMsg frm m n fds)"
  using assms isz_proto_decode_Decoded [of "length (rs_bytes st)" "rs_bytes st"]
  by (fastforce simp: recv_state_parse_decode recv_state_ok_def recv_out_ok_def
      split: option.splits decoded.splits)

lemma k_recv_len: "k_recv k cap = (k', RecvData bs cs tr) \<Longrightarrow> length bs \<le> cap"
  by (auto simp: k_recv_def split: list.splits recv_result.splits if_splits)

lemma isz_extract_fds_len: "isz_extract_fds k cs cap = (k', Some ds) \<Longrightarrow> length ds \<le> cap"
  by (auto simp: isz_extract_fds_eq split: if_splits)

text \<open>A total-correctness rule for the receive loop: \<open>P\<close> is the loop invariant, \<open>Q\<close> holds at every
  return. Every fact about the loop below is an instance of it.\<close>

lemma recv_state_loop_rule:
  assumes P: "P k st"
    and pfail: "\<And>k st. P k st \<Longrightarrow> recv_state_parse st = Some ParseFail \<Longrightarrow> Q k st RecvFail"
    and pmsg: "\<And>k st st' frm m n fds. P k st \<Longrightarrow> recv_state_parse st = Some (ParseMsg st' frm m n fds)
        \<Longrightarrow> Q k st' (RecvMsg frm m n fds)"
    and full: "\<And>k st. P k st \<Longrightarrow> recv_state_parse st = Some ParseMore
        \<Longrightarrow> length (rs_bytes st) \<ge> ISZ_PROTO_MAX_MESSAGE \<Longrightarrow> Q k st RecvFail"
    and none: "\<And>k st. P k st \<Longrightarrow> recv_state_parse st = Some ParseMore
        \<Longrightarrow> length (rs_bytes st) < ISZ_PROTO_MAX_MESSAGE \<Longrightarrow> k_recvs k = [] \<Longrightarrow> Q k st RecvWait"
    and err: "\<And>k st k' e. P k st \<Longrightarrow> recv_state_parse st = Some ParseMore
        \<Longrightarrow> length (rs_bytes st) < ISZ_PROTO_MAX_MESSAGE \<Longrightarrow> k_recvs k \<noteq> []
        \<Longrightarrow> k_recv k (ISZ_PROTO_MAX_MESSAGE - length (rs_bytes st)) = (k', RecvErr e)
        \<Longrightarrow> if e = EINTR then P k' st else Q k' st (if e = EAGAIN then RecvWait else RecvFail)"
    and data: "\<And>k st k' bs cs tr. P k st \<Longrightarrow> recv_state_parse st = Some ParseMore
        \<Longrightarrow> length (rs_bytes st) < ISZ_PROTO_MAX_MESSAGE \<Longrightarrow> k_recvs k \<noteq> []
        \<Longrightarrow> k_recv k (ISZ_PROTO_MAX_MESSAGE - length (rs_bytes st)) = (k', RecvData bs cs tr)
        \<Longrightarrow> if bs = [] then Q k' st RecvFail
            else let st' = st\<lparr>rs_bytes := rs_bytes st @ bs, rs_in_progress := True\<rparr> in
              if tr then Q k' st' RecvFail
              else case isz_extract_fds k' cs (ISZ_PROTO_MAX_FDS - length (rs_pending_fds st)) of
                     (k'', None) \<Rightarrow> Q k'' (st'\<lparr>rs_pending_fds := []\<rparr>) RecvFail
                   | (k'', Some ds) \<Rightarrow> P k'' (st'\<lparr>rs_pending_fds := rs_pending_fds st @ ds\<rparr>)"
  shows "\<exists>k' st' out. recv_state_loop k st = Some (k', st', out) \<and> Q k' st' out"
  using P
proof (induction k st rule: recv_state_loop.induct)
  case (1 k st)
  let ?cap = "ISZ_PROTO_MAX_MESSAGE - length (rs_bytes st)"
  obtain r where r: "recv_state_parse st = Some r"
    using recv_state_parse_safe by blast
  consider "r = ParseFail" | st' frm m n fds where "r = ParseMsg st' frm m n fds"
    | "r = ParseMore" "?cap = 0" | "r = ParseMore" "?cap > 0" "k_recvs k = []"
    | k' e where "r = ParseMore" "?cap > 0" "k_recvs k \<noteq> []" "k_recv k ?cap = (k', RecvErr e)"
    | k' bs cs tr where "r = ParseMore" "?cap > 0" "k_recvs k \<noteq> []" "k_recv k ?cap = (k', RecvData bs cs tr)"
    by (cases r; cases "k_recv k ?cap"; cases "snd (k_recv k ?cap)") fastforce+
  then show ?case
  proof cases
    case 5
    with r 1(1) 1(3) err [of k st k' e] show ?thesis
      by (auto simp: recv_state_loop.simps [of k st] split: if_splits)
  next
    case 6
    let ?st' = "st\<lparr>rs_bytes := rs_bytes st @ bs, rs_in_progress := True\<rparr>"
    show ?thesis
    proof (cases "bs = [] \<or> tr")
      case True
      with 6 r 1(3) data [of k st k' bs cs tr] show ?thesis
        by (auto simp: recv_state_loop.simps [of k st] Let_def)
    next
      case False
      obtain k'' d where d: "isz_extract_fds k' cs (8 - length (rs_pending_fds st)) = (k'', d)"
        by fastforce
      from False 6 r 1(3) d data [of k st k' bs cs tr] 1(2) show ?thesis
        by (cases d) (auto simp: recv_state_loop.simps [of k st] Let_def)
    qed
  qed (use r 1(3) pfail pmsg full none in \<open>auto simp: recv_state_loop.simps [of k st]\<close>)
qed

lemma recv_state_loop_ok:
  assumes "recv_state_ok st"
  shows "\<exists>k' st' out. recv_state_loop k st = Some (k', st', out) \<and> recv_state_ok st' \<and> recv_out_ok out"
proof (rule recv_state_loop_rule [where P = "\<lambda>k st. recv_state_ok st"], goal_cases)
  case (3 k st st' frm m n fds)
  then show ?case by (simp add: recv_state_parse_ok)
qed (use assms in \<open>auto simp: recv_out_ok_def recv_state_ok_def Let_def dest!: k_recv_len isz_extract_fds_len
        split: prod.splits option.splits\<close>)

section \<open>Reassembly\<close>

text \<open>What a script still delivers: its bytes and its descriptors. A script is \<open>healthy\<close> when the
  peer neither closes nor overruns the control buffer and the socket reports no error but
  \<^verbatim>\<open>EINTR\<close>; its fragmentation is arbitrary.\<close>

definition recv_stream :: "'z kern_scheme \<Rightarrow> u8 list" where
  "recv_stream k = concat (map (\<lambda>r. case r of RecvErr e \<Rightarrow> [] | RecvData bs cs tr \<Rightarrow> bs) (k_recvs k))"

definition recv_fds :: "'z kern_scheme \<Rightarrow> fd list" where
  "recv_fds k = concat (map (\<lambda>r. case r of RecvErr e \<Rightarrow> [] | RecvData bs cs tr \<Rightarrow> fds_of_cmsgs cs) (k_recvs k))"

definition recv_healthy :: "'z kern_scheme \<Rightarrow> bool" where
  "recv_healthy k = list_all (\<lambda>r. case r of RecvErr e \<Rightarrow> e = EINTR | RecvData bs cs tr \<Rightarrow> bs \<noteq> [] \<and> \<not> tr) (k_recvs k)"

lemma k_recv_healthy_err:
  assumes "k_recv k cap = (k', RecvErr e)" "recv_healthy k" "k_recvs k \<noteq> []"
  shows "e = EINTR \<and> recv_healthy k' \<and> recv_stream k' = recv_stream k \<and> recv_fds k' = recv_fds k
       \<and> k_closed k' = k_closed k"
  using assms
  by (auto simp: k_recv_def recv_healthy_def recv_stream_def recv_fds_def
      split: list.splits recv_result.splits if_splits)

lemma k_recv_healthy_data:
  assumes "k_recv k cap = (k', RecvData bs cs tr)" "recv_healthy k" "0 < cap"
  shows "bs \<noteq> [] \<and> \<not> tr \<and> recv_healthy k' \<and> recv_stream k = bs @ recv_stream k'
       \<and> recv_fds k = fds_of_cmsgs cs @ recv_fds k' \<and> k_closed k' = k_closed k"
  using assms
  by (auto simp: k_recv_def recv_healthy_def recv_stream_def recv_fds_def
      split: list.splits recv_result.splits if_splits)

lemma recv_state_parse_more:
  assumes "rs_bytes st @ s = frame m p @ rest" "length p \<le> 8184" "length (rs_bytes st) < 8 + length p"
  shows "recv_state_parse st = Some ParseMore"
proof -
  have "rs_bytes st = take (length (rs_bytes st)) (frame m p @ rest)"
    by (metis append_eq_conv_conj assms(1))
  also have "\<dots> = take (length (rs_bytes st)) (frame m p)"
    using assms(3) by simp
  finally have "isz_proto_decode (rs_bytes st) (length (rs_bytes st)) = Some Incomplete"
    using isz_proto_decode_short [of "length (rs_bytes st)" p m] assms by simp
  then show ?thesis by (simp add: recv_state_parse_decode)
qed

lemma recv_state_parse_msg:
  assumes "rs_bytes st @ s = frame m p @ rest" "length p \<le> 8184" "8 + length p \<le> length (rs_bytes st)"
  shows "\<exists>left. rs_bytes st = frame m p @ left \<and> rest = left @ s
     \<and> recv_state_parse st = Some (ParseMsg (st\<lparr>rs_bytes := left, rs_pending_fds := [],
            rs_in_progress := left \<noteq> []\<rparr>) (frame m p) m (length p) (rs_pending_fds st))"
proof -
  from assms(1) obtain us where "rs_bytes st = frame m p @ us \<and> us @ s = rest
      \<or> rs_bytes st @ us = frame m p \<and> s = us @ rest"
    by (auto simp: append_eq_append_conv2)
  moreover have "us = []" if "rs_bytes st @ us = frame m p"
    using arg_cong [OF that, of length] assms(3) by (cases us) simp_all
  ultimately obtain left where left: "rs_bytes st = frame m p @ left" "rest = left @ s"
    by force
  with assms have "isz_proto_decode (rs_bytes st) (length (rs_bytes st)) =
      Some (Decoded (8 + length p) m p)"
    by (simp add: isz_proto_decode_frame)
  with left show ?thesis by (simp add: recv_state_parse_decode)
qed

text \<open>The descriptors that arrive until \<open>n\<close> more bytes have been received: those of every chunk up to the one that brings the last of these bytes.\<close>

fun arriving :: "nat \<Rightarrow> recv_result list \<Rightarrow> fd list" where
  "arriving n [] = []"
| "arriving n (RecvErr e # rs) = (if n = 0 then [] else arriving n rs)"
| "arriving n (RecvData bs cs tr # rs) = (if n = 0 then [] else fds_of_cmsgs cs @ arriving (n - length bs) rs)"

lemma arriving_0 [simp]: "arriving 0 rs = []"
  by (cases "(0 :: nat, rs)" rule: arriving.cases) simp_all

lemma length_arriving: "length (arriving n (k_recvs k)) \<le> length (recv_fds k)"
proof -
  have "length (arriving n rs) \<le> length (concat (map (\<lambda>r. case r of RecvErr e \<Rightarrow> [] | RecvData bs cs tr \<Rightarrow> fds_of_cmsgs cs) rs))" for rs
    by (induction n rs rule: arriving.induct) simp_all
  then show ?thesis by (simp add: recv_fds_def)
qed

lemma k_recv_arriving_err:
  "k_recv k cap = (k', RecvErr e) \<Longrightarrow> k_recvs k \<noteq> [] \<Longrightarrow> arriving n (k_recvs k') = arriving n (k_recvs k)"
  by (auto simp: k_recv_def split: list.splits recv_result.splits if_splits)

lemma k_recv_arriving_data:
  assumes "k_recv k cap = (k', RecvData bs cs tr)" "0 < n"
  shows "arriving n (k_recvs k) = fds_of_cmsgs cs @ arriving (n - length bs) (k_recvs k')"
  using assms by (auto simp: k_recv_def fds_of_cmsgs_def split: list.splits recv_result.splits if_splits)

text \<open>The descriptors received by the time the stream has been read up to offset \<open>n\<close>, counted from the first buffered byte.\<close>

definition fds_upto :: "'z kern_scheme \<Rightarrow> recv_state \<Rightarrow> nat \<Rightarrow> fd list" where
  "fds_upto k st n = rs_pending_fds st @ arriving (n - length (rs_bytes st)) (k_recvs k)"

lemma recv_next_exact:
  assumes "recv_healthy k" "rs_bytes st @ recv_stream k = frame m p @ rest" "length p \<le> 8184"
    and "length (fds_upto k st (8 + length p)) \<le> ISZ_PROTO_MAX_FDS"
  shows "\<exists>k' st'. recv_state_loop k st = Some (k', st', RecvMsg (frame m p) m (length p) (fds_upto k st (8 + length p)))
     \<and> recv_healthy k' \<and> rs_bytes st' @ recv_stream k' = rest \<and> rs_pending_fds st' = []
     \<and> fds_upto k st (8 + length p) @ recv_fds k' = rs_pending_fds st @ recv_fds k
     \<and> (\<forall>n. fds_upto k st (8 + length p) @ fds_upto k' st' n = fds_upto k st (8 + length p + n)) \<and> k_closed k' = k_closed k"
proof -
  let ?n = "8 + length p"
  let ?I = "\<lambda>k1 st1. recv_healthy k1 \<and> rs_bytes st1 @ recv_stream k1 = frame m p @ rest
     \<and> rs_pending_fds st1 @ recv_fds k1 = rs_pending_fds st @ recv_fds k \<and> k_closed k1 = k_closed k
     \<and> (\<forall>n. fds_upto k1 st1 (?n + n) = fds_upto k st (?n + n))"
  let ?Q = "\<lambda>k' st' out. out = RecvMsg (frame m p) m (length p) (fds_upto k st ?n)
     \<and> recv_healthy k' \<and> rs_bytes st' @ recv_stream k' = rest \<and> rs_pending_fds st' = []
     \<and> fds_upto k st ?n @ recv_fds k' = rs_pending_fds st @ recv_fds k
     \<and> (\<forall>n. fds_upto k st ?n @ fds_upto k' st' n = fds_upto k st (?n + n)) \<and> k_closed k' = k_closed k"
  have more: "length (rs_bytes st1) < ?n \<longleftrightarrow> recv_state_parse st1 = Some ParseMore" if "?I k1 st1" for k1 st1
    using that recv_state_parse_more [of st1 "recv_stream k1" m p rest] assms(3)
      recv_state_parse_msg [of st1 "recv_stream k1" m p rest] by fastforce
  have "\<exists>k' st' out. recv_state_loop k st = Some (k', st', out) \<and> ?Q k' st' out"
  proof (rule recv_state_loop_rule [where P = ?I], goal_cases)
    case 1
    then show ?case using assms by simp
  next
    case (2 k1 st1)
    then show ?case using more [of k1 st1] recv_state_parse_msg [of st1 "recv_stream k1" m p rest] assms(3)
      by fastforce
  next
    case (3 k1 st1 st' frm m' n fds)
    then have "?n \<le> length (rs_bytes st1)" using more [of k1 st1] by fastforce
    with 3 recv_state_parse_msg [of st1 "recv_stream k1" m p rest] assms(3) obtain left where
      left: "rs_bytes st1 = frame m p @ left" "rest = left @ recv_stream k1" "st' = st1\<lparr>rs_bytes := left, rs_pending_fds := [], rs_in_progress := left \<noteq> []\<rparr>"
        "frm = frame m p" "m' = m" "n = length p" "fds = rs_pending_fds st1" by fastforce
    have up: "fds_upto k st (?n + j) = rs_pending_fds st1 @ arriving (j - length left) (k_recvs k1)" for j
    proof -
      have "fds_upto k st (?n + j) = fds_upto k1 st1 (?n + j)" using 3(1) by simp
      then show ?thesis using left(1) by (simp add: fds_upto_def)
    qed
    from up [of 0] have "fds_upto k st ?n = rs_pending_fds st1" by simp
    with 3(1) left up show ?case by (simp add: fds_upto_def)
  next
    case (4 k1 st1)
    then show ?case using more [of k1 st1] assms(3) by simp
  next
    case (5 k1 st1)
    then have "recv_stream k1 = []" by (simp add: recv_stream_def)
    with 5 have "rs_bytes st1 = frame m p @ rest" by simp
    with 5 more [of k1 st1] show ?case by simp
  next
    case (6 k1 st1 k' e)
    with k_recv_healthy_err [OF 6(5)] k_recv_arriving_err [OF 6(5,4)] show ?case by (simp add: fds_upto_def)
  next
    case (7 k1 st1 k' bs cs tr)
    note h = k_recv_healthy_data [OF 7(5)]
    have lt: "length (rs_bytes st1) < ?n" using 7(1,2) more by blast
    then have ar: "arriving (?n + j - length (rs_bytes st1)) (k_recvs k1)
        = fds_of_cmsgs cs @ arriving (?n + j - length (rs_bytes st1) - length bs) (k_recvs k')" for j
      by (intro k_recv_arriving_data [OF 7(5)]) simp
    have "fds_upto k st (?n + 0) = fds_upto k1 st1 (?n + 0)" using 7(1) by metis
    also have "\<dots> = (rs_pending_fds st1 @ fds_of_cmsgs cs) @ arriving (?n + 0 - length (rs_bytes st1) - length bs) (k_recvs k')"
      using ar [of 0] by (simp add: fds_upto_def)
    finally have fds: "length (fds_of_cmsgs cs) \<le> 8 - length (rs_pending_fds st1)" using arg_cong [of "fds_upto k st ?n" _ length] assms(4) by simp
    have eq: "\<forall>j. fds_upto k1 st1 (?n + j) = fds_upto k st (?n + j)" using 7(1) by blast
    have "fds_upto k' (st1\<lparr>rs_bytes := rs_bytes st1 @ bs, rs_in_progress := True, rs_pending_fds := rs_pending_fds st1 @ fds_of_cmsgs cs\<rparr>) (?n + j)
        = fds_upto k1 st1 (?n + j)" for j
      using ar [of j] by (simp add: fds_upto_def)
    with eq 7(1-3) h fds show ?case by (simp add: isz_extract_fds_eq)
  qed
  then show ?thesis by blast
qed

lemma recv_next_message:
  assumes "recv_healthy k" "rs_bytes st @ recv_stream k = frame m p @ rest" "length p \<le> 8184"
    and "length (rs_pending_fds st) + length (recv_fds k) \<le> ISZ_PROTO_MAX_FDS"
  shows "\<exists>k' st' fds. recv_state_loop k st = Some (k', st', RecvMsg (frame m p) m (length p) fds)
     \<and> recv_healthy k' \<and> rs_bytes st' @ recv_stream k' = rest \<and> rs_pending_fds st' = []
     \<and> fds @ recv_fds k' = rs_pending_fds st @ recv_fds k \<and> k_closed k' = k_closed k"
proof -
  have "length (fds_upto k st (8 + length p)) \<le> 8"
    using assms(4) length_arriving [of "8 + length p - length (rs_bytes st)" k] by (simp add: fds_upto_def)
  from recv_next_exact [OF assms(1-3) this] show ?thesis by blast
qed

text \<open>A caller that asks \<open>n\<close> times in a row and collects the messages with their descriptors, as the dispatch loop does.\<close>

fun recv_calls :: "nat \<Rightarrow> 'z kern_scheme \<Rightarrow> recv_state \<Rightarrow> ('z kern_scheme \<times> recv_state \<times> (u32 \<times> u8 list \<times> fd list) list) option" where
  "recv_calls 0 k st = Some (k, st, [])"
| "recv_calls (Suc n) k st =
     (case isz_proto_recv_state_read k st ISZ_PROTO_MAX_MESSAGE of
        Some (k', st', RecvMsg frm m plen fds) \<Rightarrow>
          map_option (\<lambda>(k2, st2, ms). (k2, st2, (m, drop ISZ_MSG_HEADER_SIZE frm, fds) # ms))
            (recv_calls n k' st')
      | _ \<Rightarrow> None)"

text \<open>Which descriptors belong to which message: \<open>F n\<close> are the descriptors received up to offset \<open>n\<close> of the stream, and a message gets those that were received up to its end
  and have not gone to an earlier message.\<close>

fun with_fds :: "nat \<Rightarrow> nat \<Rightarrow> (nat \<Rightarrow> fd list) \<Rightarrow> (u32 \<times> u8 list) list \<Rightarrow> (u32 \<times> u8 list \<times> fd list) list" where
  "with_fds off given F [] = []"
| "with_fds off given F ((m, p) # msgs) =
     (let off' = off + ISZ_MSG_HEADER_SIZE + length p
      in (m, p, drop given (F off')) # with_fds off' (length (F off')) F msgs)"

lemma with_fds_shift:
  "(\<And>n. xs @ F1 n = F (d + n)) \<Longrightarrow> with_fds (d + off) (length xs + given) F msgs = with_fds off given F1 msgs"
proof (induction msgs arbitrary: off given)
  case (Cons mp msgs)
  obtain m p where mp: "mp = (m, p)" by fastforce
  have F: "F (d + off + 8 + length p) = xs @ F1 (off + 8 + length p)" using Cons.prems [of "off + 8 + length p"] by (simp add: ac_simps)
  from Cons.IH [OF Cons.prems, of "off + 8 + length p" "length (F1 (off + 8 + length p))"] F mp show ?case by (simp add: Let_def ac_simps)
qed simp

lemma recv_calls_messages:
  assumes "recv_healthy k" "list_all (\<lambda>(m, p). length p \<le> 8184) msgs"
    and "rs_bytes st @ recv_stream k = concat (map (\<lambda>(m, p). frame m p) msgs) @ rest"
    and "list_all (\<lambda>(m, p, fds). length fds \<le> ISZ_PROTO_MAX_FDS) (with_fds 0 0 (fds_upto k st) msgs)"
  shows "\<exists>k' st'. recv_calls (length msgs) k st = Some (k', st', with_fds 0 0 (fds_upto k st) msgs) \<and> recv_healthy k'
      \<and> rs_bytes st' @ recv_stream k' = rest"
  using assms
proof (induction msgs arbitrary: k st)
  case Nil
  then show ?case by simp
next
  case (Cons mp msgs)
  obtain m p where mp: "mp = (m, p)" by fastforce
  let ?fds = "fds_upto k st (8 + length p)"
  have "length ?fds \<le> 8" using Cons.prems(4) mp by (simp add: Let_def)
  with Cons.prems mp recv_next_exact [of k st m p "concat (map (\<lambda>(m, p). frame m p) msgs) @ rest"] obtain k1 st1 where
    one: "recv_state_loop k st = Some (k1, st1, RecvMsg (frame m p) m (length p) ?fds)"
    and inv: "recv_healthy k1" "rs_bytes st1 @ recv_stream k1 = concat (map (\<lambda>(m, p). frame m p) msgs) @ rest"
      "\<forall>n. ?fds @ fds_upto k1 st1 n = fds_upto k st (8 + length p + n)"
    by auto
  have rest: "with_fds (8 + length p) (length ?fds) (fds_upto k st) msgs = with_fds 0 0 (fds_upto k1 st1) msgs"
    using with_fds_shift [of ?fds "fds_upto k1 st1" "fds_upto k st" "8 + length p" 0 0 msgs] inv(3) by simp
  then have "list_all (\<lambda>(m, p, fds). length fds \<le> 8) (with_fds 0 0 (fds_upto k1 st1) msgs)" using Cons.prems(4) mp by (simp add: Let_def)
  with Cons.IH [OF inv(1) _ inv(2)] Cons.prems(2)
  obtain k' st' where "recv_calls (length msgs) k1 st1 = Some (k', st', with_fds 0 0 (fds_upto k1 st1) msgs)" "recv_healthy k'"
    "rs_bytes st' @ recv_stream k' = rest" by auto
  with one rest show ?case
    by (simp add: isz_proto_recv_state_read_def mp frame_def Let_def)
qed

lemma recv_wait_when_empty:
  "rs_bytes st = [] \<Longrightarrow> k_recvs k = [] \<Longrightarrow> recv_state_loop k st = Some (k, st, RecvWait)"
  by (simp add: recv_state_loop.simps recv_state_parse_def)

section \<open>Properties of the socket layer\<close>

text \<open>C3: the stateful receiver is memory safe, total and bounded. From a state with at most 8192
  buffered bytes and 8 stashed descriptors, and for every behaviour of the socket, a read
  returns without accessing memory out of bounds; the new state keeps both bounds and a
  delivered frame fits the caller's 8192-byte buffer and 8-entry descriptor array.\<close>

theorem recv_state_read_safe:
  assumes "recv_state_ok st"
  shows "\<exists>k' st' out. isz_proto_recv_state_read k st ISZ_PROTO_MAX_MESSAGE = Some (k', st', out)
           \<and> recv_state_ok st' \<and> recv_out_ok out"
  using recv_state_loop_ok [OF assms] by (simp add: isz_proto_recv_state_read_def)

theorem recv_state_read_safe_witness:
  "\<exists>k' st' out. isz_proto_recv_state_read (kern_init\<lparr>k_recvs := [RecvData [4, 0] [] False]\<rparr>)
       isz_proto_recv_state_init ISZ_PROTO_MAX_MESSAGE = Some (k', st', out)
     \<and> recv_state_ok st' \<and> recv_out_ok out"
  by (rule recv_state_read_safe) (simp add: recv_state_ok_def isz_proto_recv_state_init_def)

text \<open>C4: reassembly is exact under every fragmentation. Whatever chunks a healthy socket delivers (single bytes, several frames at once, interrupted calls), if the buffered bytes and the bytes
  still to come are the frames of the messages \<open>msgs\<close>, then \<open>length msgs\<close> successive reads return exactly these messages, in order, each with the descriptors that arrived up to its
  end and went to no earlier message, and leave exactly the bytes that follow. The stream may carry any number of descriptors, but at most eight may go to one message: the code fails a read with more.\<close>

theorem recv_reassembles:
  assumes "recv_healthy k" and "list_all (\<lambda>(m, p). length p \<le> 8184) msgs"
    and "rs_bytes st @ recv_stream k = concat (map (\<lambda>(m, p). frame m p) msgs) @ rest"
    and "list_all (\<lambda>(m, p, fds). length fds \<le> ISZ_PROTO_MAX_FDS) (with_fds 0 0 (fds_upto k st) msgs)"
  shows "\<exists>k' st'. recv_calls (length msgs) k st = Some (k', st', with_fds 0 0 (fds_upto k st) msgs)
           \<and> rs_bytes st' @ recv_stream k' = rest"
  using recv_calls_messages [OF assms] by blast

text \<open>Two messages with a descriptor each, the second one in two chunks.\<close>

definition sample_chunks :: kern where
  "sample_chunks = kern_init\<lparr>k_recvs := [RecvData (frame 4 []) [ScmRights [7]] False, RecvErr EINTR,
     RecvData (take 5 (frame 5 [1, 0, 0, 0])) [ScmRights [8]] False, RecvData (drop 5 (frame 5 [1, 0, 0, 0])) [] False]\<rparr>"

lemma sample_chunks_fds:
  "with_fds 0 0 (fds_upto sample_chunks isz_proto_recv_state_init) [(4, []), (5, [1, 0, 0, 0])] = [(4, [], [7]), (5, [1, 0, 0, 0], [8])]"
  by (simp add: fds_upto_def sample_chunks_def isz_proto_recv_state_init_def fds_of_cmsgs_def frame_def le32_def Let_def)

theorem recv_reassembles_witness:
  "\<exists>k' st'. recv_calls 2 sample_chunks isz_proto_recv_state_init = Some (k', st', [(4, [], [7]), (5, [1, 0, 0, 0], [8])])
     \<and> rs_bytes st' @ recv_stream k' = []"
  using recv_reassembles [of sample_chunks "[(4, []), (5, [1, 0, 0, 0])]" isz_proto_recv_state_init "[]", unfolded sample_chunks_fds]
  by (simp add: recv_healthy_def sample_chunks_def isz_proto_recv_state_init_def recv_stream_def frame_def le32_def numeral_2_eq_2)

text \<open>C5: each message gets its own descriptors. A read of a healthy socket returns the next message with the descriptors that were stashed and those that arrive until its last byte has been received, in
  order, if these are at most eight. None stays behind in the stash, all others are still to be delivered, and no descriptor is closed.\<close>

theorem recv_fds_conserved:
  assumes "recv_healthy k" and "rs_bytes st @ recv_stream k = frame m p @ rest" and "length p \<le> 8184"
    and "fds = rs_pending_fds st @ arriving (length (frame m p) - length (rs_bytes st)) (k_recvs k)" and "length fds \<le> ISZ_PROTO_MAX_FDS"
  shows "\<exists>k' st'.
           isz_proto_recv_state_read k st ISZ_PROTO_MAX_MESSAGE
             = Some (k', st', RecvMsg (frame m p) m (length p) fds)
         \<and> rs_pending_fds st' = [] \<and> fds @ recv_fds k' = rs_pending_fds st @ recv_fds k
         \<and> k_closed k' = k_closed k"
proof -
  have "fds = fds_upto k st (8 + length p)" using assms(4) by (simp add: fds_upto_def)
  with recv_next_exact [OF assms(1-3)] assms(5) obtain k' st' where
    "recv_state_loop k st = Some (k', st', RecvMsg (frame m p) m (length p) fds)"
    "rs_pending_fds st' = []" "fds @ recv_fds k' = rs_pending_fds st @ recv_fds k"
    "k_closed k' = k_closed k" by blast
  then show ?thesis by (simp add: isz_proto_recv_state_read_def)
qed

theorem recv_fds_conserved_witness:
  "\<exists>k' st'. isz_proto_recv_state_read sample_chunks isz_proto_recv_state_init ISZ_PROTO_MAX_MESSAGE = Some (k', st', RecvMsg (frame 4 []) 4 0 [7])
     \<and> recv_fds k' = [8]"
proof -
  let ?st = isz_proto_recv_state_init
  have h: "recv_healthy sample_chunks" "rs_bytes ?st @ recv_stream sample_chunks = frame 4 [] @ frame 5 [1, 0, 0, 0]" "length ([] :: u8 list) \<le> 8184"
    "[7] = rs_pending_fds ?st @ arriving (length (frame 4 []) - length (rs_bytes ?st)) (k_recvs sample_chunks)" "length [7 :: fd] \<le> ISZ_PROTO_MAX_FDS"
    by (simp_all add: sample_chunks_def recv_healthy_def isz_proto_recv_state_init_def recv_stream_def fds_of_cmsgs_def frame_def le32_def)
  have "rs_pending_fds ?st @ recv_fds sample_chunks = [7, 8]"
    by (simp add: sample_chunks_def isz_proto_recv_state_init_def recv_fds_def fds_of_cmsgs_def)
  with recv_fds_conserved [OF h] show ?thesis by auto
qed

text \<open>Descriptor overflow leaks. When a message that already stashed a descriptor receives more
  than fit, the read fails, the stash is emptied, and the descriptor stashed earlier is neither
  closed nor kept: the later discard of the state cannot close it either.\<close>

theorem recv_overflow_leaks_stashed_fd:
  "\<exists>k' st'. isz_proto_recv_state_read
        (kern_init\<lparr>k_recvs := [RecvData [1] [ScmRights [20, 21, 22, 23, 24, 25, 26, 27]] False]\<rparr>)
        \<lparr>rs_bytes = [8, 0, 0, 0], rs_pending_fds = [10], rs_in_progress = True\<rparr> ISZ_PROTO_MAX_MESSAGE
      = Some (k', st', RecvFail)
     \<and> 10 \<notin> set (rs_pending_fds st')
     \<and> 10 \<notin> set (k_closed (fst (isz_proto_recv_state_discard k' st')))"
proof -
  have "isz_get_u32_le [8, 0, 0, 0 :: u8] 0 = Some 8"
    by (simp add: isz_get_u32_le_def)
  then show ?thesis
    by (simp add: isz_proto_recv_state_read_def recv_state_loop.simps recv_state_parse_def
      k_recv_def isz_extract_fds_eq kern_init_def isz_proto_recv_state_discard_def k_close_all_def
      isz_proto_recv_state_init_def)
qed

end
