(* ===== verification/Isz_Conn.thy ===== *)
theory Isz_Conn
  imports Isz_Socket "HOL-Library.Multiset"
begin

text \<open>
  Per-connection state of \<^verbatim>\<open>src/protocol/isz_conn.c\<close> and \<^verbatim>\<open>isz_conn.h\<close>: the outbound queue with
  back-pressure, and the per-connection object-id table. The singly linked queue from
  \<^verbatim>\<open>send_head\<close> to \<^verbatim>\<open>send_tail\<close> is a list of nodes, head first. The object array is the list of its
  \<^verbatim>\<open>objects_count\<close> used entries. All operations take a connection that is not \<^verbatim>\<open>NULL\<close>.

  Two interfaces are stated as locales and interpreted on these definitions: \<open>fifo_channel\<close>
  (what a sender may rely on) and \<open>id_table\<close> (what the dispatcher relies on when it resolves
  the ids a client sends).
\<close>

section \<open>State\<close>

datatype obj_kind =
    ISZ_OBJECT_NONE | ISZ_OBJECT_SURFACE | ISZ_OBJECT_BUFFER | ISZ_OBJECT_OUTPUT | ISZ_OBJECT_SEAT

record obj_entry =
  oe_id :: u32
  oe_handle :: nat
  oe_kind :: obj_kind

text \<open>\<^verbatim>\<open>struct isz_msg_node\<close>; \<^verbatim>\<open>total\<close> is the length of \<open>mn_buf\<close>, \<^verbatim>\<open>n_fds\<close> that of \<open>mn_fds\<close>. The field
  \<^verbatim>\<open>sent\<close> is set to 0 and never used.\<close>

record msg_node =
  mn_buf :: "u8 list"
  mn_fds :: "fd list"

record conn =
  c_fd :: fd
  c_recv_state :: recv_state
  c_version :: u32
  c_allowlisted :: bool
  c_handshake_done :: bool
  c_dead :: bool
  c_queue :: "msg_node list"
  c_queued_events :: nat
  c_objects :: "obj_entry list"
  c_objects_cap :: nat
  c_next_object_id :: u32

abbreviation (input) "ISZ_MAX_EVENTS_PER_CLIENT \<equiv> (1024 :: nat)"

section \<open>Outbound queue\<close>

text \<open>The \<^verbatim>\<open>dup\<close> loop of \<^verbatim>\<open>isz_msg_node_alloc\<close>: \<open>got\<close> are the descriptors stored in the node so far. A
  ninth descriptor would be written outside \<^verbatim>\<open>node->fds\<close>; a failed \<^verbatim>\<open>dup\<close> closes what was stored.\<close>

fun msg_node_dup_loop :: "'z kern_scheme \<Rightarrow> fd list \<Rightarrow> fd list \<Rightarrow> ('z kern_scheme \<times> fd list option) option" where
  "msg_node_dup_loop k [] got = Some (k, Some got)"
| "msg_node_dup_loop k (d # ds) got =
     (case k_dup k d of
        (k, None) \<Rightarrow> Some (k_close_all k got, None)
      | (k, Some n) \<Rightarrow>
          if length got < ISZ_PROTO_MAX_FDS then msg_node_dup_loop k ds (got @ [n]) else None)"

definition isz_msg_node_alloc ::
    "'z kern_scheme \<Rightarrow> u8 list \<Rightarrow> nat \<Rightarrow> fd list option \<Rightarrow> nat \<Rightarrow> ('z kern_scheme \<times> msg_node option) option" where
  "isz_msg_node_alloc k frm frame_len fds n_fds =
     (case k_alloc k of
        (k, False) \<Rightarrow> Some (k, None)
      | (k, True) \<Rightarrow>
          if frame_len > length frm then None
          else if n_fds = 0 then Some (k, Some \<lparr>mn_buf = take frame_len frm, mn_fds = []\<rparr>)
          else do {
            ds \<leftarrow> fds;
            (if n_fds > length ds then None
             else do {
               (k, r) \<leftarrow> msg_node_dup_loop k (take n_fds ds) [];
               Some (k, map_option (\<lambda>got. \<lparr>mn_buf = take frame_len frm, mn_fds = got\<rparr>) r)
             })
          })"

definition isz_msg_node_free :: "'z kern_scheme \<Rightarrow> msg_node \<Rightarrow> 'z kern_scheme" where
  "isz_msg_node_free k node = k_close_all k (mn_fds node)"

definition isz_conn_create :: "'z kern_scheme \<Rightarrow> fd \<Rightarrow> 'z kern_scheme \<times> conn option" where
  "isz_conn_create k fd =
     (case k_alloc k of
        (k, False) \<Rightarrow> (k_close k fd, None)
      | (k, True) \<Rightarrow>
          (k, Some \<lparr>c_fd = fd, c_recv_state = isz_proto_recv_state_init, c_version = 0,
                    c_allowlisted = False, c_handshake_done = False, c_dead = False,
                    c_queue = [], c_queued_events = 0, c_objects = [], c_objects_cap = 0,
                    c_next_object_id = 1\<rparr>))"

text \<open>\<^verbatim>\<open>isz_conn_close\<close> frees the connection, so only the kernel is left.\<close>

definition isz_conn_close :: "'z kern_scheme \<Rightarrow> conn \<Rightarrow> 'z kern_scheme" where
  "isz_conn_close k c =
     (let k = (if c_fd c \<ge> 0 then k_close k (c_fd c) else k);
          k = fold (\<lambda>node k. isz_msg_node_free k node) (c_queue c) k
      in fst (isz_proto_recv_state_discard k (c_recv_state c)))"

definition isz_conn_recv :: "'z kern_scheme \<Rightarrow> conn \<Rightarrow> nat \<Rightarrow> ('z kern_scheme \<times> conn \<times> recv_out) option" where
  "isz_conn_recv k c buf_len = do {
     (k, st, out) \<leftarrow> isz_proto_recv_state_read k (c_recv_state c) buf_len;
     Some (k, c\<lparr>c_recv_state := st\<rparr>, out)
   }"

text \<open>The code after the label \<^verbatim>\<open>enqueue\<close> of \<^verbatim>\<open>isz_conn_send\<close>.\<close>

definition conn_enqueue ::
    "'z kern_scheme \<Rightarrow> conn \<Rightarrow> u8 list \<Rightarrow> nat \<Rightarrow> fd list option \<Rightarrow> nat \<Rightarrow> ('z kern_scheme \<times> conn \<times> isz_error) option" where
  "conn_enqueue k c buf len fds n_fds =
     (if c_queued_events c \<ge> ISZ_MAX_EVENTS_PER_CLIENT
      then Some (k, c\<lparr>c_dead := True\<rparr>, ISZ_ERR_CLIENT_TOO_SLOW)
      else do {
        (k, r) \<leftarrow> isz_msg_node_alloc k buf len fds n_fds;
        (case r of
           None \<Rightarrow> Some (k, c\<lparr>c_dead := True\<rparr>, ISZ_ERR_NO_MEMORY)
         | Some node \<Rightarrow>
             Some (k, c\<lparr>c_queue := c_queue c @ [node], c_queued_events := c_queued_events c + 1\<rparr>,
                   ISZ_OK))
      })"

definition isz_conn_send ::
    "'z kern_scheme \<Rightarrow> conn \<Rightarrow> u32 \<Rightarrow> u8 list option \<Rightarrow> nat \<Rightarrow> fd list option \<Rightarrow> nat
       \<Rightarrow> ('z kern_scheme \<times> conn \<times> isz_error) option" where
  "isz_conn_send k c msg_id payload payload_len fds n_fds =
     (if c_dead c then Some (k, c, ISZ_ERR_CLIENT_DISCONNECTED)
      else do {
        r \<leftarrow> isz_proto_encode (replicate ISZ_PROTO_MAX_MESSAGE 0) ISZ_PROTO_MAX_MESSAGE
               msg_id payload payload_len;
        (case r of
           Inl e \<Rightarrow> Some (k, c, ISZ_ERR_INVALID_ARG)
         | Inr (buf, len) \<Rightarrow>
             if c_queue c \<noteq> [] then conn_enqueue k c buf len fds n_fds
             else (case isz_proto_send_frame k (c_fd c) buf len fds n_fds of
                     (k, SendDone n) \<Rightarrow> Some (k, c, ISZ_OK)
                   | (k, SendAgain) \<Rightarrow> conn_enqueue k c buf len fds n_fds
                   | (k, SendFail e) \<Rightarrow>
                       Some (k, c\<lparr>c_dead := True\<rparr>, ISZ_ERR_CLIENT_DISCONNECTED)))
      })"

text \<open>The loop of \<^verbatim>\<open>isz_conn_drain\<close> recurses on the queue it pops.\<close>

fun conn_drain_loop :: "'z kern_scheme \<Rightarrow> conn \<Rightarrow> msg_node list \<Rightarrow> 'z kern_scheme \<times> conn \<times> isz_error" where
  "conn_drain_loop k c [] = (k, c\<lparr>c_queue := []\<rparr>, ISZ_OK)"
| "conn_drain_loop k c (node # q) =
     (case isz_proto_send_frame k (c_fd c) (mn_buf node) (length (mn_buf node))
             (Some (mn_fds node)) (length (mn_fds node)) of
        (k, SendAgain) \<Rightarrow> (k, c\<lparr>c_queue := node # q\<rparr>, ISZ_ERR_COMMIT_PENDING)
      | (k, SendFail e) \<Rightarrow>
          (k, c\<lparr>c_queue := node # q, c_dead := True\<rparr>, ISZ_ERR_CLIENT_DISCONNECTED)
      | (k, SendDone n) \<Rightarrow>
          conn_drain_loop (isz_msg_node_free k node)
            (c\<lparr>c_queued_events := c_queued_events c - 1\<rparr>) q)"

definition isz_conn_drain :: "'z kern_scheme \<Rightarrow> conn \<Rightarrow> 'z kern_scheme \<times> conn \<times> isz_error" where
  "isz_conn_drain k c =
     (if c_dead c then (k, c, ISZ_ERR_CLIENT_DISCONNECTED) else conn_drain_loop k c (c_queue c))"

section \<open>Object table\<close>

text \<open>The result is the new id, 0 when \<^verbatim>\<open>realloc\<close> fails.\<close>

definition isz_conn_register_object :: "'z kern_scheme \<Rightarrow> conn \<Rightarrow> nat \<Rightarrow> obj_kind \<Rightarrow> 'z kern_scheme \<times> conn \<times> u32" where
  "isz_conn_register_object k c handle kind =
     (let (k, c, ok) =
            (if length (c_objects c) = c_objects_cap c
             then let ncap = (if c_objects_cap c \<noteq> 0 then c_objects_cap c * 2 else 8)
                  in case k_alloc k of
                       (k, False) \<Rightarrow> (k, c, False)
                     | (k, True) \<Rightarrow> (k, c\<lparr>c_objects_cap := ncap\<rparr>, True)
             else (k, c, True))
      in if \<not> ok then (k, c, 0)
         else let id = c_next_object_id c;
                  next_id = (if id + 1 = 0 then 1 else id + 1)
              in (k, c\<lparr>c_next_object_id := next_id,
                       c_objects := c_objects c @ [\<lparr>oe_id = id, oe_handle = handle, oe_kind = kind\<rparr>]\<rparr>,
                  id))"

fun lookup_loop :: "obj_entry list \<Rightarrow> u32 \<Rightarrow> obj_kind \<Rightarrow> nat option" where
  "lookup_loop [] i kind = None"
| "lookup_loop (e # es) i kind =
     (if oe_id e = i then (if oe_kind e \<noteq> kind then None else Some (oe_handle e))
      else lookup_loop es i kind)"

definition isz_conn_lookup_object :: "conn \<Rightarrow> u32 \<Rightarrow> obj_kind \<Rightarrow> nat option" where
  "isz_conn_lookup_object c i kind = (if i = 0 then None else lookup_loop (c_objects c) i kind)"

text \<open>The position of the first entry with an id, then the tail entry moves into it.\<close>

fun find_index :: "obj_entry list \<Rightarrow> u32 \<Rightarrow> nat \<Rightarrow> nat option" where
  "find_index [] i n = None"
| "find_index (e # es) i n = (if oe_id e = i then Some n else find_index es i (n + 1))"

definition isz_conn_unregister_object :: "conn \<Rightarrow> u32 \<Rightarrow> conn" where
  "isz_conn_unregister_object c i =
     (if i = 0 then c
      else case find_index (c_objects c) i 0 of
             None \<Rightarrow> c
           | Some n \<Rightarrow>
               let count = length (c_objects c) - 1;
                   objs = (if n \<noteq> count then (c_objects c)[n := c_objects c ! count] else c_objects c)
               in c\<lparr>c_objects := take count objs\<rparr>)"

section \<open>Invariant of a connection\<close>

definition node_ok :: "msg_node \<Rightarrow> bool" where
  "node_ok n \<longleftrightarrow> ISZ_MSG_HEADER_SIZE \<le> length (mn_buf n) \<and> length (mn_buf n) \<le> ISZ_PROTO_MAX_MESSAGE
      \<and> length (mn_fds n) \<le> ISZ_PROTO_MAX_FDS"

definition conn_ok :: "conn \<Rightarrow> bool" where
  "conn_ok c \<longleftrightarrow> recv_state_ok (c_recv_state c)
      \<and> c_queued_events c = length (c_queue c) \<and> length (c_queue c) \<le> ISZ_MAX_EVENTS_PER_CLIENT
      \<and> list_all node_ok (c_queue c)
      \<and> length (c_objects c) \<le> c_objects_cap c \<and> c_next_object_id c \<noteq> 0
      \<and> 0 \<notin> oe_id ` set (c_objects c)"

text \<open>What left the connection and what waits in it: the frames with the number of descriptors
  they carry, in order.\<close>

definition conn_delivered :: "'z kern_scheme \<times> conn \<Rightarrow> (u8 list \<times> nat) list" where
  "conn_delivered s = [(b, length ds). (d, b, ds) \<leftarrow> k_sent (fst s), d = c_fd (snd s)]"

definition conn_pending :: "'z kern_scheme \<times> conn \<Rightarrow> (u8 list \<times> nat) list" where
  "conn_pending s = map (\<lambda>n. (mn_buf n, length (mn_fds n))) (c_queue (snd s))"

definition queue_fds :: "conn \<Rightarrow> fd list" where
  "queue_fds c = concat (map mn_fds (c_queue c))"

text \<open>Ownership of duplicated descriptors: what the step duplicated is queued or closed again.\<close>

definition dup_balance :: "'z kern_scheme \<Rightarrow> conn \<Rightarrow> 'z kern_scheme \<Rightarrow> conn \<Rightarrow> bool" where
  "dup_balance k c k' c' \<longleftrightarrow>
     mset (k_duped k') + mset (k_closed k) + mset (queue_fds c)
       = mset (k_duped k) + mset (k_closed k') + mset (queue_fds c')"

lemma k_dup_cases:
  assumes "k_dup k d = (k', r)"
  shows "k_sent k' = k_sent k \<and> k_closed k' = k_closed k
       \<and> k_duped k' = k_duped k @ (case r of None \<Rightarrow> [] | Some n \<Rightarrow> [n])"
  using assms by (auto simp: k_dup_def split: list.splits option.splits)

lemma msg_node_dup_loop_spec:
  assumes "length got + length ds \<le> ISZ_PROTO_MAX_FDS"
  shows "\<exists>k' r new. msg_node_dup_loop k ds got = Some (k', r) \<and> k_sent k' = k_sent k
    \<and> k_duped k' = k_duped k @ new
    \<and> (r = None \<and> k_closed k' = k_closed k @ got @ new
       \<or> r = Some (got @ new) \<and> length new = length ds \<and> k_closed k' = k_closed k)"
  using assms
proof (induction ds arbitrary: k got)
  case Nil
  then show ?case by simp
next
  case (Cons d ds)
  obtain k1 r where kd: "k_dup k d = (k1, r)" by fastforce
  note log = k_dup_cases [OF kd]
  show ?case
  proof (cases r)
    case None
    with kd log show ?thesis by simp
  next
    case (Some n)
    from Cons.prems have len: "length (got @ [n]) + length ds \<le> ISZ_PROTO_MAX_FDS" by simp
    from Cons.IH [OF len, of k1] obtain k' r' new where
      loop: "msg_node_dup_loop k1 ds (got @ [n]) = Some (k', r')" "k_sent k' = k_sent k1"
        "k_duped k' = k_duped k1 @ new"
        "r' = None \<and> k_closed k' = k_closed k1 @ (got @ [n]) @ new
         \<or> r' = Some ((got @ [n]) @ new) \<and> length new = length ds \<and> k_closed k' = k_closed k1" by blast
    have "length got < ISZ_PROTO_MAX_FDS" using Cons.prems by simp
    with kd Some loop(1) have "msg_node_dup_loop k (d # ds) got = Some (k', r')" by simp
    moreover have "k_sent k' = k_sent k" "k_duped k' = k_duped k @ (n # new)"
      using loop(2,3) log Some by simp_all
    moreover have "r' = None \<and> k_closed k' = k_closed k @ got @ (n # new)
         \<or> r' = Some (got @ (n # new)) \<and> length (n # new) = length (d # ds) \<and> k_closed k' = k_closed k"
      using loop(4) log by auto
    ultimately show ?thesis by blast
  qed
qed

lemma isz_msg_node_alloc_spec:
  assumes "length ds \<le> ISZ_PROTO_MAX_FDS" "len \<le> length frm"
  shows "\<exists>k' r. isz_msg_node_alloc k frm len (Some ds) (length ds) = Some (k', r)
    \<and> k_sent k' = k_sent k
    \<and> (case r of
         None \<Rightarrow> mset (k_duped k') + mset (k_closed k) = mset (k_duped k) + mset (k_closed k')
       | Some n \<Rightarrow> mn_buf n = take len frm \<and> length (mn_fds n) = length ds
                    \<and> k_duped k' = k_duped k @ mn_fds n \<and> k_closed k' = k_closed k)"
proof -
  obtain k1 b where ka: "k_alloc k = (k1, b)" by fastforce
  note log = k_alloc_log [OF ka]
  from msg_node_dup_loop_spec [of "[]" ds k1] assms obtain k' r new where
    loop: "msg_node_dup_loop k1 ds [] = Some (k', r)" and s: "k_sent k' = k_sent k1"
    and d: "k_duped k' = k_duped k1 @ new"
    and r: "r = None \<and> k_closed k' = k_closed k1 @ new
       \<or> r = Some new \<and> length new = length ds \<and> k_closed k' = k_closed k1"
    by auto
  show ?thesis
  proof (cases b)
    case False
    with ka log show ?thesis by (simp add: isz_msg_node_alloc_def)
  next
    case True
    with ka assms loop have eq: "isz_msg_node_alloc k frm len (Some ds) (length ds)
        = Some (k', map_option (\<lambda>got. \<lparr>mn_buf = take len frm, mn_fds = got\<rparr>) r)"
      by (auto simp: isz_msg_node_alloc_def)
    then show ?thesis using log s d r by (auto simp: ac_simps)
  qed
qed

lemma k_send_spec:
  "k_send k d bs ds = (k', r) \<Longrightarrow>
     k_closed k' = k_closed k \<and> k_duped k' = k_duped k \<and>
     (case r of IoErr e \<Rightarrow> k_sent k' = k_sent k
      | IoN n \<Rightarrow> n \<le> length bs \<and> k_sent k' = k_sent k @ [(d, take n bs, ds)])"
  by (auto simp: k_send_def min_def split: list.splits io_result.splits)

lemma isz_proto_send_frame_spec:
  assumes "isz_proto_send_frame k d b (length b) (Some ds) (length ds) = (k', r)"
  shows "k_closed k' = k_closed k \<and> k_duped k' = k_duped k \<and>
     (case r of SendDone n \<Rightarrow> n = length b \<and> k_sent k' = k_sent k @ [(d, b, ds)]
      | SendAgain \<Rightarrow> k_sent k' = k_sent k
      | SendFail e \<Rightarrow> True)"
proof -
  obtain k1 io where s: "k_send k d b (if ds = [] then [] else ds) = (k1, io)" by fastforce
  from k_send_spec [OF s] s assms show ?thesis
    by (auto simp: isz_proto_send_frame_def Let_def split: if_splits io_result.splits)
qed

lemma isz_proto_send_frame_prefix:
  "isz_proto_send_frame k d (b @ junk) (length b) fds n = isz_proto_send_frame k d b (length b) fds n"
  by (simp add: isz_proto_send_frame_def)

lemma conn_delivered_upd [simp]:
  "conn_delivered (k, c\<lparr>c_queue := q\<rparr>) = conn_delivered (k, c)"
  "conn_delivered (k, c\<lparr>c_queued_events := n\<rparr>) = conn_delivered (k, c)"
  "conn_delivered (k, c\<lparr>c_dead := b\<rparr>) = conn_delivered (k, c)"
  by (simp_all add: conn_delivered_def)

lemma conn_delivered_sent:
  "k_sent k' = k_sent k \<Longrightarrow> conn_delivered (k', c) = conn_delivered (k, c)"
  "k_sent k' = k_sent k @ [(c_fd c, b, ds)] \<Longrightarrow>
     conn_delivered (k', c) = conn_delivered (k, c) @ [(b, length ds)]"
  by (simp_all add: conn_delivered_def)

lemma conn_pending_simp: "conn_pending (k, c) = map (\<lambda>n. (mn_buf n, length (mn_fds n))) (c_queue c)"
  by (simp add: conn_pending_def)

lemma conn_enqueue_spec:
  assumes "length ds \<le> ISZ_PROTO_MAX_FDS" "length b \<le> ISZ_PROTO_MAX_MESSAGE" "8 \<le> length b"
  shows "\<exists>k' c' r. conn_enqueue k c (b @ junk) (length b) (Some ds) (length ds) = Some (k', c', r)
    \<and> dup_balance k c k' c' \<and> (conn_ok c \<longrightarrow> conn_ok c')
    \<and> c' = c\<lparr>c_queue := c_queue c', c_queued_events := c_queued_events c', c_dead := c_dead c'\<rparr>
    \<and> (if r = ISZ_OK
       then c_dead c' = c_dead c \<and> conn_delivered (k', c') = conn_delivered (k, c)
          \<and> conn_pending (k', c') = conn_pending (k, c) @ [(b, length ds)]
       else c_dead c')"
proof (cases "c_queued_events c \<ge> ISZ_MAX_EVENTS_PER_CLIENT")
  case True
  then show ?thesis by (simp add: conn_enqueue_def dup_balance_def queue_fds_def conn_ok_def)
next
  case False
  from isz_msg_node_alloc_spec [of ds "length b" "b @ junk" k] assms obtain k' r where
    al: "isz_msg_node_alloc k (b @ junk) (length b) (Some ds) (length ds) = Some (k', r)"
      "k_sent k' = k_sent k"
    and r: "case r of
         None \<Rightarrow> mset (k_duped k') + mset (k_closed k) = mset (k_duped k) + mset (k_closed k')
       | Some n \<Rightarrow> mn_buf n = take (length b) (b @ junk) \<and> length (mn_fds n) = length ds
                    \<and> k_duped k' = k_duped k @ mn_fds n \<and> k_closed k' = k_closed k"
    by auto
  show ?thesis
  proof (cases r)
    case None
    with r al False show ?thesis
      by (simp add: conn_enqueue_def dup_balance_def queue_fds_def conn_ok_def)
  next
    case (Some n)
    with r have n: "mn_buf n = b" "length (mn_fds n) = length ds"
      "k_duped k' = k_duped k @ mn_fds n" "k_closed k' = k_closed k" by simp_all
    let ?c = "c\<lparr>c_queue := c_queue c @ [n], c_queued_events := c_queued_events c + 1\<rparr>"
    from Some al(1) False have "conn_enqueue k c (b @ junk) (length b) (Some ds) (length ds)
        = Some (k', ?c, ISZ_OK)" by (simp add: conn_enqueue_def)
    moreover have "dup_balance k c k' ?c" using n(3,4) by (simp add: dup_balance_def queue_fds_def)
    moreover have "conn_ok c \<longrightarrow> conn_ok ?c"
      using n(1,2) assms False by (simp add: conn_ok_def node_ok_def)
    moreover have "conn_delivered (k', ?c) = conn_delivered (k, c)"
      "conn_pending (k', ?c) = conn_pending (k, c) @ [(b, length ds)]"
      using conn_delivered_sent(1) [OF al(2), of c] n(1,2) by (simp_all add: conn_pending_simp)
    ultimately show ?thesis by force
  qed
qed

text \<open>The behaviour of \<^verbatim>\<open>isz_conn_send\<close> on every branch.\<close>

lemma isz_conn_send_spec:
  assumes "length ds \<le> ISZ_PROTO_MAX_FDS"
  shows "\<exists>k' c' r. isz_conn_send k c m (Some p) (length p) (Some ds) (length ds) = Some (k', c', r)
    \<and> dup_balance k c k' c' \<and> (conn_ok c \<longrightarrow> conn_ok c')
    \<and> c' = c\<lparr>c_queue := c_queue c', c_queued_events := c_queued_events c', c_dead := c_dead c'\<rparr>
    \<and> (if r = ISZ_OK
       then \<not> c_dead c' \<and> conn_delivered (k', c') @ conn_pending (k', c')
              = conn_delivered (k, c) @ conn_pending (k, c) @ [(frame m p, length ds)]
       else c_dead c' \<or> k' = k \<and> c' = c)"
proof (cases "c_dead c \<or> length p > 8184")
  case True
  then show ?thesis by (auto simp: isz_conn_send_def isz_proto_encode_eq dup_balance_def)
next
  case False
  define b where "b = frame m p"
  define junk :: "u8 list" where "junk = drop (8 + length p) (replicate ISZ_PROTO_MAX_MESSAGE 0)"
  have enc: "isz_proto_encode (replicate ISZ_PROTO_MAX_MESSAGE 0) ISZ_PROTO_MAX_MESSAGE m (Some p) (length p)
      = Some (Inr (b @ junk, length b))"
    using False by (simp add: isz_proto_encode_eq b_def junk_def)
  have len: "length b \<le> ISZ_PROTO_MAX_MESSAGE" "8 \<le> length b" using False by (simp_all add: b_def)
  note enq = conn_enqueue_spec [OF assms len, of _ c junk]
  show ?thesis
  proof (cases "c_queue c = []")
    case queued: False
    have "isz_conn_send k c m (Some p) (length p) (Some ds) (length ds)
        = conn_enqueue k c (b @ junk) (length b) (Some ds) (length ds)"
      using False queued by (simp add: isz_conn_send_def enc)
    with enq [of k] False show ?thesis unfolding b_def [symmetric] by (auto split: if_splits)
  next
    case True
    obtain k1 io where sf: "isz_proto_send_frame k (c_fd c) b (length b) (Some ds) (length ds) = (k1, io)"
      by fastforce
    note log = isz_proto_send_frame_spec [OF sf]
    have eq: "isz_conn_send k c m (Some p) (length p) (Some ds) (length ds)
        = (case io of SendDone n \<Rightarrow> Some (k1, c, ISZ_OK)
             | SendAgain \<Rightarrow> conn_enqueue k1 c (b @ junk) (length b) (Some ds) (length ds)
             | SendFail e \<Rightarrow> Some (k1, c\<lparr>c_dead := True\<rparr>, ISZ_ERR_CLIENT_DISCONNECTED))"
      using False True by (simp add: isz_conn_send_def enc sf isz_proto_send_frame_prefix)
    show ?thesis
    proof (cases io)
      case (SendDone n)
      with eq False log True conn_delivered_sent(2) [of k1 k c] show ?thesis
        by (simp add: dup_balance_def conn_pending_simp b_def)
    next
      case SendAgain
      with log have "k_sent k1 = k_sent k" by simp
      from conn_delivered_sent(1) [OF this, of c] SendAgain eq False log True enq [of k1] show ?thesis
        by (auto simp: dup_balance_def conn_pending_simp b_def split: if_splits)
    next
      case (SendFail e)
      with eq False log show ?thesis by (simp add: dup_balance_def queue_fds_def conn_ok_def)
    qed
  qed
qed

lemma isz_conn_send_NULL:
  "isz_conn_send k c m None 0 None 0 = isz_conn_send k c m (Some []) (length ([] :: u8 list)) (Some []) (length ([] :: fd list))"
  "isz_conn_send k c m (Some p) n None 0 = isz_conn_send k c m (Some p) n (Some []) (length ([] :: fd list))"
  by (simp_all add: isz_conn_send_def isz_proto_encode_def conn_enqueue_def isz_msg_node_alloc_def
      isz_proto_send_frame_def cong: if_cong)

text \<open>Sends and drains touch only the queue, its counter and the dead flag.\<close>

lemma conn_queue_update_fields:
  assumes "c' = c\<lparr>c_queue := q, c_queued_events := n, c_dead := d\<rparr>"
  shows "c_fd c' = c_fd c" "c_recv_state c' = c_recv_state c" "c_version c' = c_version c"
    "c_allowlisted c' = c_allowlisted c" "c_handshake_done c' = c_handshake_done c"
    "c_objects c' = c_objects c" "c_objects_cap c' = c_objects_cap c"
    "c_next_object_id c' = c_next_object_id c"
  using assms by simp_all

text \<open>A socket with room takes the frame at once.\<close>

lemma isz_conn_send_direct:
  assumes "\<not> c_dead c" "c_queue c = []" "k_sends k = []" "length p \<le> 8184" "length ds \<le> ISZ_PROTO_MAX_FDS"
  shows "isz_conn_send k c m (Some p) (length p) (Some ds) (length ds)
     = Some (k\<lparr>k_sent := k_sent k @ [(c_fd c, frame m p, ds)]\<rparr>, c, ISZ_OK)"
  using assms by (auto simp: isz_conn_send_def isz_proto_encode_eq isz_proto_send_frame_def k_send_def)

lemma conn_drain_loop_spec:
  assumes "conn_drain_loop k c q = (k', c', r)"
  shows "(\<not> c_dead c' \<longrightarrow> conn_delivered (k', c') @ conn_pending (k', c')
            = conn_delivered (k, c) @ map (\<lambda>n. (mn_buf n, length (mn_fds n))) q)
    \<and> dup_balance k (c\<lparr>c_queue := q\<rparr>) k' c'
    \<and> (conn_ok (c\<lparr>c_queue := q\<rparr>) \<longrightarrow> conn_ok c')
    \<and> c' = c\<lparr>c_queue := c_queue c', c_queued_events := c_queued_events c', c_dead := c_dead c'\<rparr>
    \<and> (r = ISZ_OK \<longleftrightarrow> c_queue c' = []) \<and> r \<in> {ISZ_OK, ISZ_ERR_COMMIT_PENDING, ISZ_ERR_CLIENT_DISCONNECTED}
    \<and> (r = ISZ_ERR_CLIENT_DISCONNECTED \<longrightarrow> c_dead c') \<and> (r \<noteq> ISZ_ERR_CLIENT_DISCONNECTED \<longrightarrow> c_dead c' = c_dead c)
    \<and> (\<exists>done. q = done @ c_queue c')"
  using assms
proof (induction q arbitrary: k c)
  case Nil
  then show ?case by (auto simp: conn_pending_simp dup_balance_def queue_fds_def conn_ok_def)
next
  case (Cons n q)
  obtain k1 io where sf: "isz_proto_send_frame k (c_fd c) (mn_buf n) (length (mn_buf n))
      (Some (mn_fds n)) (length (mn_fds n)) = (k1, io)" by fastforce
  note log = isz_proto_send_frame_spec [OF sf]
  show ?case
  proof (cases io)
    case SendAgain
    with Cons.prems sf log conn_delivered_sent(1) [of k1 k c] show ?thesis
      by (auto simp: conn_pending_simp dup_balance_def queue_fds_def)
  next
    case (SendFail e)
    with Cons.prems sf log show ?thesis
      by (auto simp: conn_pending_simp dup_balance_def queue_fds_def conn_ok_def)
  next
    case (SendDone m)
    let ?k = "isz_msg_node_free k1 n" and ?c = "c\<lparr>c_queued_events := c_queued_events c - 1\<rparr>"
    from Cons.prems sf SendDone have loop: "conn_drain_loop ?k ?c q = (k', c', r)" by simp
    have "k_sent ?k = k_sent k @ [(c_fd c, mn_buf n, mn_fds n)]"
      using log SendDone by (simp add: isz_msg_node_free_def)
    from conn_delivered_sent(2) [OF this] have del:
      "conn_delivered (?k, ?c) = conn_delivered (k, c) @ [(mn_buf n, length (mn_fds n))]" by simp
    have ok: "conn_ok (c\<lparr>c_queue := n # q\<rparr>) \<longrightarrow> conn_ok (?c\<lparr>c_queue := q\<rparr>)"
      by (auto simp: conn_ok_def)
    have bal: "dup_balance ?k (?c\<lparr>c_queue := q\<rparr>) k' c' \<Longrightarrow> dup_balance k (c\<lparr>c_queue := n # q\<rparr>) k' c'"
      using log by (simp add: dup_balance_def queue_fds_def isz_msg_node_free_def ac_simps)
    note ih = Cons.IH [OF loop]
    have "c' = c\<lparr>c_queue := c_queue c', c_queued_events := c_queued_events c', c_dead := c_dead c'\<rparr>"
      by (rule trans [OF ih [THEN conjunct2, THEN conjunct2, THEN conjunct2, THEN conjunct1]]) simp
    moreover have "\<exists>done. n # q = done @ c_queue c'" using ih by (metis append_Cons)
    ultimately show ?thesis using ih del ok bal by simp blast
  qed
qed

lemma isz_conn_drain_spec:
  assumes "isz_conn_drain k c = (k', c', r)"
  shows "(\<not> c_dead c' \<longrightarrow> conn_delivered (k', c') @ conn_pending (k', c')
            = conn_delivered (k, c) @ conn_pending (k, c))
    \<and> dup_balance k c k' c' \<and> (conn_ok c \<longrightarrow> conn_ok c')
    \<and> (c_dead c \<longrightarrow> c_dead c')
    \<and> c' = c\<lparr>c_queue := c_queue c', c_queued_events := c_queued_events c', c_dead := c_dead c'\<rparr>
    \<and> (r = ISZ_OK \<longrightarrow> c_queue c' = [] \<and> \<not> c_dead c')
    \<and> (r \<noteq> ISZ_ERR_CLIENT_DISCONNECTED \<longrightarrow> \<not> c_dead c')"
proof (cases "c_dead c")
  case True
  with assms show ?thesis by (auto simp: isz_conn_drain_def dup_balance_def)
next
  case False
  with assms have "conn_drain_loop k c (c_queue c) = (k', c', r)" by (simp add: isz_conn_drain_def)
  from conn_drain_loop_spec [OF this] False show ?thesis by (auto simp: conn_pending_simp)
qed

section \<open>The channel interface\<close>

text \<open>
  What a sender relies on. \<open>send\<close> accepts a message or refuses it, \<open>flush\<close> pushes what waits;
  \<open>delivered\<close> is what left, \<open>pending\<close> what waits, both in order. Sending a valid message is
  memory safe. While the channel is alive an accepted message is appended to what left and
  waits, and nothing else ever changes it.
\<close>

datatype 'm chan_op = ChanSend 'm | ChanFlush

text \<open>Run a sequence of operations; the result has the accepted messages in order.\<close>

fun chan_run ::
    "('s \<Rightarrow> 'm \<Rightarrow> ('s \<times> bool) option) \<Rightarrow> ('s \<Rightarrow> 's) \<Rightarrow> 'm chan_op list \<Rightarrow> 's \<Rightarrow> ('s \<times> 'm list) option" where
  "chan_run send flush [] s = Some (s, [])"
| "chan_run send flush (ChanSend m # ops) s = do {
     (s1, ok) \<leftarrow> send s m;
     (s2, acc) \<leftarrow> chan_run send flush ops s1;
     Some (s2, if ok then m # acc else acc) }"
| "chan_run send flush (ChanFlush # ops) s = chan_run send flush ops (flush s)"

fun chan_op_valid :: "('m \<Rightarrow> bool) \<Rightarrow> 'm chan_op \<Rightarrow> bool" where
  "chan_op_valid valid (ChanSend m) = valid m"
| "chan_op_valid valid ChanFlush = True"

locale fifo_channel =
  fixes send :: "'s \<Rightarrow> 'm \<Rightarrow> ('s \<times> bool) option" and flush :: "'s \<Rightarrow> 's" and valid :: "'m \<Rightarrow> bool"
    and wire :: "'m \<Rightarrow> 'w" and delivered pending :: "'s \<Rightarrow> 'w list" and alive :: "'s \<Rightarrow> bool"
  assumes send_total: "valid m \<Longrightarrow> \<exists>s' ok. send s m = Some (s', ok)"
    and send_accept: "valid m \<Longrightarrow> send s m = Some (s', True) \<Longrightarrow>
        delivered s' @ pending s' = delivered s @ pending s @ [wire m]"
    and send_refuse: "valid m \<Longrightarrow> send s m = Some (s', False) \<Longrightarrow> alive s' \<Longrightarrow>
        delivered s' @ pending s' = delivered s @ pending s"
    and flush_keeps: "alive (flush s) \<Longrightarrow>
        delivered (flush s) @ pending (flush s) = delivered s @ pending s"
    and send_dead: "valid m \<Longrightarrow> send s m = Some (s', ok) \<Longrightarrow> alive s' \<Longrightarrow> alive s"
    and flush_dead: "alive (flush s) \<Longrightarrow> alive s"
begin

lemma run_total:
  "list_all (chan_op_valid valid) ops \<Longrightarrow> \<exists>s' acc. chan_run send flush ops s = Some (s', acc)"
proof (induction ops arbitrary: s)
  case (Cons op ops)
  show ?case
  proof (cases op)
    case (ChanSend m)
    with Cons.prems obtain s1 ok where "send s m = Some (s1, ok)" using send_total by fastforce
    with Cons.IH [of s1] Cons.prems ChanSend show ?thesis by auto
  qed (use Cons in auto)
qed simp

lemma run_alive:
  assumes "chan_run send flush ops s = Some (s', acc)" "alive s'" "list_all (chan_op_valid valid) ops"
  shows "alive s"
  using assms
proof (induction ops arbitrary: s acc)
  case (Cons op ops)
  show ?case
  proof (cases op)
    case (ChanSend m)
    with Cons.prems obtain s1 ok acc1 where "send s m = Some (s1, ok)"
        "chan_run send flush ops s1 = Some (s', acc1)" "valid m"
      by (auto simp: bind_eq_Some_conv)
    with Cons.IH [of s1 acc1] Cons.prems send_dead [of m s s1 ok] show ?thesis by simp
  next
    case ChanFlush
    with Cons.IH [of "flush s" acc] Cons.prems flush_dead show ?thesis by simp
  qed
qed simp

lemma run_in_order:
  assumes "chan_run send flush ops s = Some (s', acc)" "alive s'" "list_all (chan_op_valid valid) ops"
  shows "delivered s' @ pending s' = delivered s @ pending s @ map wire acc"
  using assms
proof (induction ops arbitrary: s acc)
  case (Cons op ops)
  show ?case
  proof (cases op)
    case (ChanSend m)
    with Cons.prems obtain s1 ok acc1 where s1: "send s m = Some (s1, ok)" "valid m"
      and run: "chan_run send flush ops s1 = Some (s', acc1)"
      and acc: "acc = (if ok then m # acc1 else acc1)" and v: "list_all (chan_op_valid valid) ops"
      by (auto simp: bind_eq_Some_conv)
    have "alive s1" by (rule run_alive [OF run Cons.prems(2) v])
    with Cons.IH [OF run Cons.prems(2) v] s1 acc send_accept [of m s s1] send_refuse [of m s s1]
    show ?thesis by (cases ok) auto
  next
    case ChanFlush
    with Cons.prems have run: "chan_run send flush ops (flush s) = Some (s', acc)"
      and v: "list_all (chan_op_valid valid) ops" by simp_all
    have "alive (flush s)" by (rule run_alive [OF run Cons.prems(2) v])
    then show ?thesis using Cons.IH [OF run Cons.prems(2) v] flush_keeps by simp
  qed
qed simp

end

text \<open>The connection as a channel: a message is an id, a payload and at most eight descriptors.\<close>

definition conn_chan_send :: "'z kern_scheme \<times> conn \<Rightarrow> u32 \<times> u8 list \<times> fd list \<Rightarrow> (('z kern_scheme \<times> conn) \<times> bool) option" where
  "conn_chan_send s m = (case (s, m) of ((k, c), (i, p, ds)) \<Rightarrow> do {
     (k', c', r) \<leftarrow> isz_conn_send k c i (Some p) (length p) (Some ds) (length ds);
     Some ((k', c'), r = ISZ_OK) })"

definition conn_chan_flush :: "'z kern_scheme \<times> conn \<Rightarrow> 'z kern_scheme \<times> conn" where
  "conn_chan_flush s = (case isz_conn_drain (fst s) (snd s) of (k', c', r) \<Rightarrow> (k', c'))"

definition conn_msg_valid :: "u32 \<times> u8 list \<times> fd list \<Rightarrow> bool" where
  "conn_msg_valid m = (case m of (i, p, ds) \<Rightarrow> length ds \<le> ISZ_PROTO_MAX_FDS)"

definition conn_msg_wire :: "u32 \<times> u8 list \<times> fd list \<Rightarrow> u8 list \<times> nat" where
  "conn_msg_wire m = (case m of (i, p, ds) \<Rightarrow> (frame i p, length ds))"

definition conn_alive :: "'z kern_scheme \<times> conn \<Rightarrow> bool" where
  "conn_alive s \<longleftrightarrow> \<not> c_dead (snd s)"

lemma conn_chan_send_spec:
  assumes "conn_msg_valid m"
  shows "\<exists>s' ok. conn_chan_send s m = Some (s', ok) \<and> (conn_alive s' \<longrightarrow> conn_alive s)
     \<and> (if ok then conn_alive s' \<and> conn_delivered s' @ conn_pending s'
                 = conn_delivered s @ conn_pending s @ [conn_msg_wire m]
        else conn_alive s' \<longrightarrow> s' = s)"
proof -
  obtain k c i p ds where sm: "s = (k, c)" "m = (i, p, ds)" by (metis surj_pair)
  with assms have "length ds \<le> ISZ_PROTO_MAX_FDS" by (simp add: conn_msg_valid_def)
  from isz_conn_send_spec [OF this, of k c i p] obtain k' c' r where
    snd: "isz_conn_send k c i (Some p) (length p) (Some ds) (length ds) = Some (k', c', r)"
    and r: "if r = ISZ_OK
       then \<not> c_dead c' \<and> conn_delivered (k', c') @ conn_pending (k', c')
              = conn_delivered (k, c) @ conn_pending (k, c) @ [(frame i p, length ds)]
       else c_dead c' \<or> k' = k \<and> c' = c" by blast
  from snd have "conn_chan_send s m = Some ((k', c'), r = ISZ_OK)" by (simp add: conn_chan_send_def sm)
  moreover have "c_dead c \<Longrightarrow> c_dead c'" using snd by (simp add: isz_conn_send_def)
  ultimately show ?thesis using r
    by (auto simp: conn_alive_def conn_msg_wire_def sm split: if_splits)
qed

interpretation conn_chan: fifo_channel conn_chan_send conn_chan_flush conn_msg_valid conn_msg_wire
  conn_delivered conn_pending conn_alive
proof (unfold_locales, goal_cases)
  case (1 m s)
  with conn_chan_send_spec [of m s] show ?case by blast
next
  case (2 m s s')
  with conn_chan_send_spec [of m s] show ?case by auto
next
  case (3 m s s')
  with conn_chan_send_spec [of m s] show ?case by auto
next
  case (4 s)
  obtain k' c' r where "isz_conn_drain (fst s) (snd s) = (k', c', r)" by (metis surj_pair)
  with 4 isz_conn_drain_spec [OF this] show ?case by (simp add: conn_chan_flush_def conn_alive_def)
next
  case (5 m s s' ok)
  with conn_chan_send_spec [of m s] show ?case by auto
next
  case (6 s)
  obtain k' c' r where "isz_conn_drain (fst s) (snd s) = (k', c', r)" by (metis surj_pair)
  with 6 isz_conn_drain_spec [OF this] show ?case by (auto simp: conn_chan_flush_def conn_alive_def)
qed

section \<open>The object-table interface\<close>

text \<open>
  What the dispatcher relies on when it maps ids to handles. \<open>view\<close> is the table as a map,
  \<open>used\<close> the ids handed out so far, and \<open>fits n s\<close> says that \<open>n\<close> more registrations fit before the
  id counter wraps.
\<close>

datatype ('h, 'k, 'i) tbl_op = TblAdd 'h 'k | TblDel 'i

fun tbl_run :: "('s \<Rightarrow> 'h \<Rightarrow> 'k \<Rightarrow> 's \<times> 'i) \<Rightarrow> ('s \<Rightarrow> 'i \<Rightarrow> 's) \<Rightarrow> ('h, 'k, 'i) tbl_op list \<Rightarrow> 's \<Rightarrow> 's" where
  "tbl_run register unregister [] s = s"
| "tbl_run register unregister (TblAdd h kd # ops) s =
     tbl_run register unregister ops (fst (register s h kd))"
| "tbl_run register unregister (TblDel i # ops) s = tbl_run register unregister ops (unregister s i)"

locale id_table =
  fixes register :: "'s \<Rightarrow> 'h \<Rightarrow> 'k \<Rightarrow> 's \<times> 'i" and lookup :: "'s \<Rightarrow> 'i \<Rightarrow> 'k \<Rightarrow> 'h option"
    and unregister :: "'s \<Rightarrow> 'i \<Rightarrow> 's" and view :: "'s \<Rightarrow> 'i \<Rightarrow> ('h \<times> 'k) option"
    and used :: "'s \<Rightarrow> 'i set" and fits :: "nat \<Rightarrow> 's \<Rightarrow> bool" and none :: 'i
  assumes lookup_view: "lookup s i kd
        = (case view s i of Some (h, kd') \<Rightarrow> if kd' = kd then Some h else None | None \<Rightarrow> None)"
    and register_ok: "fits (Suc n) s \<Longrightarrow> register s h kd = (s', i) \<Longrightarrow> i \<noteq> none \<Longrightarrow>
        i \<notin> used s \<and> view s' = (view s)(i \<mapsto> (h, kd)) \<and> used s' = insert i (used s)"
    and register_fail: "register s h kd = (s', none) \<Longrightarrow> fits (Suc n) s \<Longrightarrow> view s' = view s \<and> used s' = used s"
    and register_fits: "fits (Suc n) s \<Longrightarrow> fits n (fst (register s h kd))"
    and unregister_view: "fits n s \<Longrightarrow> view (unregister s i) = (view s)(i := None)
        \<and> used (unregister s i) = used s"
    and unregister_fits: "fits n s \<Longrightarrow> fits n (unregister s i)"
    and view_used: "fits n s \<Longrightarrow> dom (view s) \<subseteq> used s"
    and fits_less: "fits (Suc n) s \<Longrightarrow> fits n s"
begin

lemma register_lookup:
  assumes "fits (Suc n) s" "register s h kd = (s', i)" "i \<noteq> none"
  shows "lookup s' j kd' = (if j = i then (if kd = kd' then Some h else None) else lookup s j kd')"
  using register_ok [OF assms] by (simp add: lookup_view)

lemma no_reuse:
  assumes "fits (length ops) s" "i \<in> used s" "view s i = None"
  shows "lookup (tbl_run register unregister ops s) i kd = None"
  using assms
proof (induction ops arbitrary: s)
  case Nil
  then show ?case by (simp add: lookup_view)
next
  case (Cons op ops)
  show ?case
  proof (cases op)
    case (TblAdd h kd)
    obtain s' j where r: "register s h kd = (s', j)" by fastforce
    have "fits (length ops) s'" using register_fits [of "length ops" s h kd] Cons.prems r by simp
    moreover have "i \<in> used s' \<and> view s' i = None"
    proof (cases "j = none")
      case True
      with register_fail [of s h kd s' "length ops"] r Cons.prems show ?thesis by simp
    next
      case False
      with register_ok [of "length ops" s h kd s' j] r Cons.prems show ?thesis by auto
    qed
    ultimately show ?thesis using Cons.IH [of s'] TblAdd r by simp
  next
    case (TblDel j)
    have "fits (length ops) (unregister s j)"
      using unregister_fits [of "Suc (length ops)" s j] fits_less Cons.prems by simp
    then show ?thesis using Cons.IH [of "unregister s j"] TblDel unregister_view Cons.prems by simp
  qed
qed

lemma stays_registered:
  assumes "fits (length ops) s" "view s i = Some (h, kd)" "TblDel i \<notin> set ops" "i \<noteq> none"
  shows "lookup (tbl_run register unregister ops s) i kd = Some h"
  using assms
proof (induction ops arbitrary: s)
  case Nil
  then show ?case by (simp add: lookup_view)
next
  case (Cons op ops)
  show ?case
  proof (cases op)
    case (TblAdd h' kd')
    obtain s' j where r: "register s h' kd' = (s', j)" by fastforce
    have "fits (length ops) s'" using register_fits [of "length ops" s h' kd'] Cons.prems r by simp
    moreover have "view s' i = Some (h, kd)"
    proof (cases "j = none")
      case True
      with register_fail [of s h' kd' s' "length ops"] r Cons.prems show ?thesis by simp
    next
      case False
      have "i \<in> used s" using view_used [of "length (op # ops)" s] Cons.prems by auto
      with False register_ok [of "length ops" s h' kd' s' j] r Cons.prems show ?thesis by auto
    qed
    ultimately show ?thesis using Cons.IH [of s'] TblAdd r Cons.prems by simp
  next
    case (TblDel j)
    have "fits (length ops) (unregister s j)"
      using unregister_fits [of "Suc (length ops)" s j] fits_less Cons.prems by simp
    then show ?thesis
      using Cons.IH [of "unregister s j"] TblDel unregister_view [of "length (op # ops)" s j] Cons.prems
      by simp
  qed
qed

lemma dropped_gone:
  assumes "fits (length ops) s" "i \<in> used s" "TblDel i \<in> set ops"
  shows "lookup (tbl_run register unregister ops s) i kd = None"
  using assms
proof (induction ops arbitrary: s)
  case (Cons op ops)
  show ?case
  proof (cases op)
    case (TblAdd h' kd')
    obtain s' j where r: "register s h' kd' = (s', j)" by fastforce
    have "fits (length ops) s'" using register_fits [of "length ops" s h' kd'] Cons.prems r by simp
    moreover have "i \<in> used s'"
      using register_fail [of s h' kd' s' "length ops"] register_ok [of "length ops" s h' kd' s' j] r Cons.prems by (cases "j = none") auto
    ultimately show ?thesis using Cons.IH [of s'] TblAdd r Cons.prems by simp
  next
    case (TblDel j)
    have fits: "fits (length ops) (unregister s j)"
      using unregister_fits [of "Suc (length ops)" s j] fits_less Cons.prems by simp
    have u: "i \<in> used (unregister s j)" "j = i \<Longrightarrow> view (unregister s j) i = None"
      using unregister_view [of "length (op # ops)" s j] Cons.prems by simp_all
    show ?thesis
    proof (cases "j = i")
      case True
      with no_reuse [OF fits u(1) u(2)] TblDel show ?thesis by simp
    next
      case False
      with Cons.IH [OF fits u(1)] TblDel Cons.prems(3) show ?thesis by simp
    qed
  qed
qed simp

lemma registered_lookup:
  assumes "fits (Suc (length ops)) s" "register s h kd = (s', i)" "i \<noteq> none"
  shows "lookup (tbl_run register unregister ops s') i kd' = (if TblDel i \<notin> set ops \<and> kd' = kd then Some h else None)"
proof -
  note r = register_ok [OF assms]
  have fits: "fits (length ops) s'" using register_fits [OF assms(1), of h kd] assms(2) by simp
  show ?thesis
  proof (cases "TblDel i \<in> set ops")
    case True
    with dropped_gone [OF fits] r show ?thesis by simp
  next
    case False
    with stays_registered [OF fits, of i h kd] r assms(3) show ?thesis by (auto simp: lookup_view split: option.splits if_splits)
  qed
qed

end

text \<open>The connection's table as such an interface.\<close>

definition objs_view :: "obj_entry list \<Rightarrow> u32 \<Rightarrow> (nat \<times> obj_kind) option" where
  "objs_view es i = (if i = 0 then None else map_of (map (\<lambda>e. (oe_id e, oe_handle e, oe_kind e)) es) i)"

definition conn_tbl_register :: "'z kern_scheme \<times> conn \<Rightarrow> nat \<Rightarrow> obj_kind \<Rightarrow> ('z kern_scheme \<times> conn) \<times> u32" where
  "conn_tbl_register s h kd =
     (case isz_conn_register_object (fst s) (snd s) h kd of (k, c, i) \<Rightarrow> ((k, c), i))"

definition conn_tbl_lookup :: "'z kern_scheme \<times> conn \<Rightarrow> u32 \<Rightarrow> obj_kind \<Rightarrow> nat option" where
  "conn_tbl_lookup s i kd = isz_conn_lookup_object (snd s) i kd"

definition conn_tbl_unregister :: "'z kern_scheme \<times> conn \<Rightarrow> u32 \<Rightarrow> 'z kern_scheme \<times> conn" where
  "conn_tbl_unregister s i = (fst s, isz_conn_unregister_object (snd s) i)"

definition conn_tbl_view :: "'z kern_scheme \<times> conn \<Rightarrow> u32 \<Rightarrow> (nat \<times> obj_kind) option" where
  "conn_tbl_view s = objs_view (c_objects (snd s))"

definition conn_tbl_used :: "'z kern_scheme \<times> conn \<Rightarrow> u32 set" where
  "conn_tbl_used s = {i. 0 < i \<and> i < c_next_object_id (snd s)}"

definition conn_tbl_fits :: "nat \<Rightarrow> 'z kern_scheme \<times> conn \<Rightarrow> bool" where
  "conn_tbl_fits n s \<longleftrightarrow> distinct (map oe_id (c_objects (snd s)))
     \<and> oe_id ` set (c_objects (snd s)) \<subseteq> conn_tbl_used s
     \<and> c_next_object_id (snd s) \<noteq> 0 \<and> unat (c_next_object_id (snd s)) + n < 2 ^ 32"

lemma lookup_loop_map_of:
  "lookup_loop es i kd = (case map_of (map (\<lambda>e. (oe_id e, oe_handle e, oe_kind e)) es) i of
      None \<Rightarrow> None | Some (h, kd') \<Rightarrow> if kd' = kd then Some h else None)"
  by (induction es) auto

lemma objs_view_Some:
  "distinct (map oe_id es) \<Longrightarrow>
     objs_view es i = Some (h, kd) \<longleftrightarrow>
       i \<noteq> 0 \<and> (\<exists>e \<in> set es. oe_id e = i \<and> oe_handle e = h \<and> oe_kind e = kd)"
  by (auto simp: objs_view_def comp_def image_iff)

lemma find_index_None: "find_index es i m = None \<longleftrightarrow> i \<notin> oe_id ` set es"
  by (induction es arbitrary: m) auto

lemma find_index_Some:
  "find_index es i m = Some n \<Longrightarrow> m \<le> n \<and> n - m < length es \<and> oe_id (es ! (n - m)) = i"
  by (induction es arbitrary: m) (fastforce simp: nth_Cons' split: if_splits)+

lemma swap_remove_mset:
  assumes "n < length es"
  shows "mset (take (length es - 1)
           (if n \<noteq> length es - 1 then es[n := es ! (length es - 1)] else es)) = mset es - {#es ! n#}"
proof -
  obtain ys y where es: "es = ys @ [y]" using assms by (cases es rule: rev_cases) auto
  show ?thesis
  proof (cases "n = length ys")
    case False
    with assms es have "n < length ys" by simp
    then show ?thesis by (simp add: es nth_append list_update_append mset_update)
  qed (simp add: es nth_append)
qed

lemma isz_conn_unregister_object_set:
  assumes "distinct (map oe_id (c_objects c))" "i \<noteq> 0"
  shows "set (c_objects (isz_conn_unregister_object c i)) = {e \<in> set (c_objects c). oe_id e \<noteq> i}
       \<and> distinct (map oe_id (c_objects (isz_conn_unregister_object c i)))"
proof (cases "find_index (c_objects c) i 0")
  case None
  then have "i \<notin> oe_id ` set (c_objects c)" by (simp add: find_index_None)
  then show ?thesis using None assms by (auto simp: isz_conn_unregister_object_def)
next
  case (Some n)
  let ?es = "c_objects c"
  define es' where "es' = c_objects (isz_conn_unregister_object c i)"
  from find_index_Some [OF Some] have n: "n < length ?es" "oe_id (?es ! n) = i" by auto
  have "es' = take (length ?es - 1)
           (if n \<noteq> length ?es - 1 then ?es[n := ?es ! (length ?es - 1)] else ?es)"
    using Some assms by (simp add: es'_def isz_conn_unregister_object_def Let_def)
  then have es: "mset ?es = add_mset (?es ! n) (mset es')"
    using swap_remove_mset [OF n(1)] n by (simp only:) simp
  then have st: "set ?es = insert (?es ! n) (set es')"
    by (metis set_mset_add_mset_insert set_mset_mset)
  from es n have "mset (map oe_id ?es) = mset (i # map oe_id es')" by simp
  then have "distinct (i # map oe_id es')"
    using assms(1) by (metis mset_eq_imp_distinct_iff)
  then have "i \<notin> oe_id ` set es'" "distinct (map oe_id es')" by simp_all
  then show ?thesis unfolding es'_def [symmetric] using st n(2) by (auto simp: image_iff)
qed

lemma objs_view_unregister:
  assumes "distinct (map oe_id (c_objects c))"
  shows "objs_view (c_objects (isz_conn_unregister_object c i)) = (objs_view (c_objects c))(i := None)"
proof (cases "i = 0")
  case True
  then show ?thesis by (auto simp: isz_conn_unregister_object_def objs_view_def)
next
  case False
  note u = isz_conn_unregister_object_set [OF assms False]
  show ?thesis
  proof (rule ext, rule option.expand)
    fix j
    let ?l = "objs_view (c_objects (isz_conn_unregister_object c i)) j"
      and ?r = "((objs_view (c_objects c))(i := None)) j"
    have eq: "?l = Some hk \<longleftrightarrow> ?r = Some hk" for hk
      using objs_view_Some [OF conjunct2 [OF u]] objs_view_Some [OF assms] u by (cases hk) auto
    then show "(?l = None) = (?r = None)" "?l \<noteq> None \<Longrightarrow> ?r \<noteq> None \<Longrightarrow> the ?l = the ?r"
      by (metis not_None_eq, metis option.collapse option.sel)
  qed
qed

lemma conn_tbl_register_cases:
  assumes "conn_tbl_fits (Suc n) s" "conn_tbl_register s h kd = (s', i)"
  shows "i = 0 \<and> c_objects (snd s') = c_objects (snd s) \<and> c_next_object_id (snd s') = c_next_object_id (snd s)
    \<or> i = c_next_object_id (snd s) \<and> i \<noteq> 0 \<and> c_next_object_id (snd s') = i + 1 \<and> i + 1 \<noteq> 0 \<and> unat (i + 1) = unat i + 1
      \<and> c_objects (snd s') = c_objects (snd s) @ [\<lparr>oe_id = i, oe_handle = h, oe_kind = kd\<rparr>]"
proof -
  let ?i = "c_next_object_id (snd s)"
  have i: "?i \<noteq> 0" "unat ?i + 1 < 2 ^ 32" using assms(1) by (simp_all add: conn_tbl_fits_def)
  then have "unat (?i + 1) = unat ?i + 1" by (simp add: unat_word_ariths)
  moreover from this have "?i + 1 \<noteq> 0" by (metis Suc_eq_plus1 unat_0 nat.distinct(1))
  ultimately show ?thesis using i(1) assms(2)
    by (auto simp: conn_tbl_register_def isz_conn_register_object_def Let_def split: if_splits prod.splits bool.splits)
qed

lemma isz_conn_unregister_next [simp]:
  "c_next_object_id (isz_conn_unregister_object c i) = c_next_object_id c"
  by (simp add: isz_conn_unregister_object_def Let_def split: option.splits)

lemma isz_conn_unregister_zero [simp]: "isz_conn_unregister_object c 0 = c"
  by (simp add: isz_conn_unregister_object_def)

interpretation conn_tbl: id_table conn_tbl_register conn_tbl_lookup conn_tbl_unregister
  conn_tbl_view conn_tbl_used conn_tbl_fits "0 :: u32"
proof (unfold_locales, goal_cases)
  case (1 s i kd)
  then show ?case
    by (simp add: conn_tbl_lookup_def conn_tbl_view_def objs_view_def isz_conn_lookup_object_def
        lookup_loop_map_of)
next
  case (2 n s h kd s' i)
  from conn_tbl_register_cases [OF 2(1,2)] 2(3) have
    c: "i = c_next_object_id (snd s)" "i \<noteq> 0" "c_next_object_id (snd s') = i + 1" "unat (i + 1) = unat i + 1"
      "c_objects (snd s') = c_objects (snd s) @ [\<lparr>oe_id = i, oe_handle = h, oe_kind = kd\<rparr>]" by auto
  have "i \<notin> oe_id ` set (c_objects (snd s))"
    using 2(1) c(1) by (auto simp: conn_tbl_fits_def conn_tbl_used_def)
  then have "map_of (map (\<lambda>e. (oe_id e, oe_handle e, oe_kind e)) (c_objects (snd s))) i = None"
    by (simp add: map_of_eq_None_iff image_image)
  then have "conn_tbl_view s' = (conn_tbl_view s)(i \<mapsto> (h, kd))"
    using c by (auto simp: conn_tbl_view_def objs_view_def map_add_def fun_eq_iff split: option.splits)
  moreover have "x < i + 1 \<longleftrightarrow> x < i \<or> x = i" for x
    using c(4) by (simp add: word_less_nat_alt less_Suc_eq word_unat_eq_iff)
  then have "conn_tbl_used s' = insert i (conn_tbl_used s)"
    unfolding conn_tbl_used_def c(1) [symmetric] c(3) using c(2) by (auto simp: word_neq_0_conv)
  moreover have "i \<notin> conn_tbl_used s" using c by (simp add: conn_tbl_used_def)
  ultimately show ?case by blast
next
  case (3 s h kd s' n)
  from conn_tbl_register_cases [OF 3(2,1)] show ?case
    by (auto simp: conn_tbl_view_def conn_tbl_used_def)
next
  case (4 n s h kd)
  obtain s' i where r: "conn_tbl_register s h kd = (s', i)" by fastforce
  have used: "\<forall>e \<in> set (c_objects (snd s)). 0 < unat (oe_id e) \<and> unat (oe_id e) < unat (c_next_object_id (snd s))"
    using 4 by (auto simp: conn_tbl_fits_def conn_tbl_used_def word_less_nat_alt)
  from conn_tbl_register_cases [OF 4 r] show ?case
  proof (elim disjE conjE)
    assume "c_objects (snd s') = c_objects (snd s)" "c_next_object_id (snd s') = c_next_object_id (snd s)"
    with 4 r show ?thesis by (simp add: conn_tbl_fits_def conn_tbl_used_def)
  next
    assume "i = c_next_object_id (snd s)" "i \<noteq> 0" "c_next_object_id (snd s') = i + 1" "i + 1 \<noteq> 0"
      "unat (i + 1) = unat i + 1"
      "c_objects (snd s') = c_objects (snd s) @ [\<lparr>oe_id = i, oe_handle = h, oe_kind = kd\<rparr>]"
    with 4 r used show ?thesis
      by (auto simp: conn_tbl_fits_def conn_tbl_used_def word_less_nat_alt unat_gt_0 intro: less_SucI)
  qed
next
  case (5 n s i)
  then show ?case
    by (simp add: conn_tbl_view_def conn_tbl_used_def conn_tbl_unregister_def conn_tbl_fits_def
        objs_view_unregister)
next
  case (6 n s i)
  then show ?case using isz_conn_unregister_object_set [of "snd s" i]
    by (cases "i = 0") (auto simp: conn_tbl_fits_def conn_tbl_used_def conn_tbl_unregister_def)
next
  case (7 n s)
  show ?case
  proof
    fix i assume "i \<in> dom (conn_tbl_view s)"
    then have "i \<in> oe_id ` set (c_objects (snd s))"
      by (auto simp: conn_tbl_view_def objs_view_def dest!: map_of_SomeD split: if_splits)
    with 7 show "i \<in> conn_tbl_used s" by (auto simp: conn_tbl_fits_def)
  qed
next
  case (8 n s)
  then show ?case by (simp add: conn_tbl_fits_def)
qed

section \<open>Properties of a connection\<close>

lemma isz_msg_node_free_fold:
  "fold (\<lambda>node k. isz_msg_node_free k node) q k = k_close_all k (concat (map mn_fds q))"
  by (induction q arbitrary: k) (simp_all add: isz_msg_node_free_def k_close_all_append)

lemma isz_conn_create_ok:
  "isz_conn_create k fd = (k', Some c) \<Longrightarrow>
     conn_ok c \<and> conn_tbl_fits (2 ^ 32 - 2) (k', c) \<and> \<not> c_dead c \<and> c_queue c = [] \<and> c_fd c = fd"
  by (auto simp: isz_conn_create_def conn_ok_def recv_state_ok_def isz_proto_recv_state_init_def
      conn_tbl_fits_def conn_tbl_used_def split: prod.splits bool.splits)

text \<open>C6: one send, on every branch. With at most eight descriptors \<^verbatim>\<open>isz_conn_send\<close> stays inside its
  buffers, keeps the connection invariant (the counter \<^verbatim>\<open>queued_events\<close> is the queue length and
  never exceeds 1024), and balances descriptors: everything it duplicated is in the queue or
  closed again. On success the frame is appended to what was delivered or queued; on failure the
  connection is marked dead, or (an oversized payload) nothing changed.\<close>

theorem conn_send_spec:
  assumes "length ds \<le> ISZ_PROTO_MAX_FDS" and "conn_ok c"
  shows "\<exists>k' c' r. isz_conn_send k c m (Some p) (length p) (Some ds) (length ds) = Some (k', c', r)
    \<and> conn_ok c' \<and> dup_balance k c k' c'
    \<and> (if r = ISZ_OK
       then \<not> c_dead c' \<and> conn_delivered (k', c') @ conn_pending (k', c')
              = conn_delivered (k, c) @ conn_pending (k, c) @ [(frame m p, length ds)]
       else c_dead c' \<or> k' = k \<and> c' = c)"
  using isz_conn_send_spec [OF assms(1), of k c m p] assms(2) by blast

definition sample_conn :: conn where
  "sample_conn = the (snd (isz_conn_create kern_init 5))"

lemma sample_conn_create: "isz_conn_create kern_init 5 = (kern_init, Some sample_conn)"
  by (simp add: sample_conn_def isz_conn_create_def k_alloc_def kern_init_def)

lemmas sample_conn_facts = isz_conn_create_ok [OF sample_conn_create]

theorem conn_send_spec_witness:
  "\<exists>k' c' r. isz_conn_send (kern_init\<lparr>k_sends := [IoErr EAGAIN], k_dups := [Some 9]\<rparr>) sample_conn 4
       (Some [1]) (length [1 :: u8]) (Some [3]) (length [3 :: fd]) = Some (k', c', r)
    \<and> conn_ok c' \<and> dup_balance (kern_init\<lparr>k_sends := [IoErr EAGAIN], k_dups := [Some 9]\<rparr>) sample_conn k' c'
    \<and> (if r = ISZ_OK
       then \<not> c_dead c' \<and> conn_delivered (k', c') @ conn_pending (k', c')
              = conn_delivered (kern_init\<lparr>k_sends := [IoErr EAGAIN], k_dups := [Some 9]\<rparr>, sample_conn)
                @ conn_pending (kern_init\<lparr>k_sends := [IoErr EAGAIN], k_dups := [Some 9]\<rparr>, sample_conn)
                @ [(frame 4 [1], length [3 :: fd])]
       else c_dead c' \<or> k' = kern_init\<lparr>k_sends := [IoErr EAGAIN], k_dups := [Some 9]\<rparr> \<and> c' = sample_conn)"
  by (rule conn_send_spec) (simp_all add: sample_conn_facts)

text \<open>C7: messages never overtake each other. For every sequence of sends and drains and every
  behaviour of the socket, no operation leaves its buffers, and as long as the connection is
  alive the frames that left it followed by the frames still queued are exactly the accepted
  messages in the order they were sent: none is lost, duplicated or reordered.\<close>

theorem conn_messages_in_order:
  assumes "list_all (chan_op_valid conn_msg_valid) ops"
  shows "\<exists>s' acc. chan_run conn_chan_send conn_chan_flush ops s = Some (s', acc)
     \<and> (conn_alive s' \<longrightarrow> conn_delivered s' @ conn_pending s'
          = conn_delivered s @ conn_pending s @ map conn_msg_wire acc)"
  using conn_chan.run_total [OF assms, of s] conn_chan.run_in_order [OF _ _ assms, of s] by blast

theorem conn_messages_in_order_witness:
  "\<exists>s' acc. chan_run conn_chan_send conn_chan_flush
        [ChanSend (4, [1], []), ChanSend (5, [], []), ChanFlush] (kern_init, sample_conn) = Some (s', acc)
     \<and> conn_alive s' \<and> conn_delivered s' @ conn_pending s' = map conn_msg_wire acc"
proof -
  let ?ops = "[ChanSend (4, [1], []), ChanSend (5, [], []), ChanFlush] :: (u32 \<times> u8 list \<times> fd list) chan_op list"
  have "list_all (chan_op_valid conn_msg_valid) ?ops" by (simp add: conn_msg_valid_def)
  from conn_messages_in_order [OF this, of "(kern_init, sample_conn)"] obtain s' acc where
    run: "chan_run conn_chan_send conn_chan_flush ?ops (kern_init, sample_conn) = Some (s', acc)"
    and ord: "conn_alive s' \<longrightarrow> conn_delivered s' @ conn_pending s'
          = conn_delivered (kern_init, sample_conn) @ conn_pending (kern_init, sample_conn) @ map conn_msg_wire acc"
    by blast
  have "conn_alive s'"
    using run isz_conn_send_direct [of sample_conn "_ :: kern" "[1]" "[]" 4] isz_conn_send_direct [of sample_conn "_ :: kern" "[]" "[]" 5]
    by (auto simp: conn_chan_send_def conn_chan_flush_def isz_conn_drain_def sample_conn_facts conn_alive_def kern_init_def)
  moreover have "conn_delivered (kern_init, sample_conn) = []" "conn_pending (kern_init, sample_conn) = []"
    by (simp_all add: conn_delivered_def conn_pending_def kern_init_def sample_conn_facts)
  ultimately show ?thesis using run ord by auto
qed

text \<open>closing releases everything. \<^verbatim>\<open>isz_conn_close\<close> closes the socket, every descriptor of
  every queued message and every descriptor stashed by an unfinished read, each exactly once.\<close>

theorem conn_close_closes_all:
  "k_closed (isz_conn_close k c) =
     k_closed k @ (if c_fd c \<ge> 0 then [c_fd c] else []) @ queue_fds c @ rs_pending_fds (c_recv_state c)"
  by (simp add: isz_conn_close_def Let_def isz_msg_node_free_fold isz_proto_recv_state_discard_def
      queue_fds_def)

text \<open>C8: an id resolves to its object until it is dropped, and never again. Before the 32-bit counter wraps, a registration fails only when the table is full and cannot grow, and then changes nothing.
  Otherwise it returns an id that was not in use and leaves all other ids alone; whatever objects are registered or dropped afterwards, the id resolves to the registered handle, under
  the registered kind only, exactly as long as it has not been dropped.\<close>

theorem object_ids_stable:
  assumes "conn_tbl_fits (Suc (length ops)) s" and "conn_tbl_register s h kd = (s', i)"
  shows "if i = 0 then length (c_objects (snd s)) = c_objects_cap (snd s) \<and> \<not> snd (k_alloc (fst s)) \<and> conn_tbl_view s' = conn_tbl_view s
    else (\<forall>kd'. conn_tbl_lookup s i kd' = None) \<and> (\<forall>j kd'. j \<noteq> i \<longrightarrow> conn_tbl_lookup s' j kd' = conn_tbl_lookup s j kd')
      \<and> (\<forall>kd'. conn_tbl_lookup (tbl_run conn_tbl_register conn_tbl_unregister ops s') i kd' = (if TblDel i \<notin> set ops \<and> kd' = kd then Some h else None))"
proof (cases "i = 0")
  case True
  have "c_next_object_id (snd s) \<noteq> 0" using assms(1) by (simp add: conn_tbl_fits_def)
  then have "length (c_objects (snd s)) = c_objects_cap (snd s) \<and> \<not> snd (k_alloc (fst s))"
    using assms(2) True by (auto simp: conn_tbl_register_def isz_conn_register_object_def Let_def split: if_splits prod.splits bool.splits)
  with True conn_tbl.register_fail [of s h kd s'] assms show ?thesis by simp
next
  case False
  have "conn_tbl_view s i = None" using conn_tbl.register_ok [OF assms False] conn_tbl.view_used [OF assms(1)] by auto
  then have "conn_tbl_lookup s i kd' = None" for kd' by (simp add: conn_tbl.lookup_view)
  with False conn_tbl.registered_lookup [OF assms False] conn_tbl.register_lookup [OF assms False] show ?thesis by simp
qed

definition sample_table :: "kern \<times> conn" where
  "sample_table = (kern_init, sample_conn\<lparr>c_objects :=
     [\<lparr>oe_id = 2, oe_handle = 7, oe_kind = ISZ_OBJECT_SURFACE\<rparr>], c_next_object_id := 3, c_objects_cap := 8\<rparr>)"

lemma sample_table_facts:
  "conn_tbl_fits n sample_table \<longleftrightarrow> n + 3 < 2 ^ 32"
  "snd (conn_tbl_register sample_table 9 ISZ_OBJECT_BUFFER) = 3"
  by (auto simp: sample_table_def conn_tbl_fits_def conn_tbl_used_def conn_tbl_register_def isz_conn_register_object_def)

text \<open>An object is registered and found while another one is dropped, and not found after it was dropped itself.\<close>

theorem object_ids_stable_witness:
  "conn_tbl_lookup (tbl_run conn_tbl_register conn_tbl_unregister
       [TblAdd 5 ISZ_OBJECT_SURFACE, TblDel 2] (fst (conn_tbl_register sample_table 9 ISZ_OBJECT_BUFFER))) 3 ISZ_OBJECT_BUFFER = Some 9
   \<and> conn_tbl_lookup (tbl_run conn_tbl_register conn_tbl_unregister
       [TblDel 3, TblAdd 5 ISZ_OBJECT_BUFFER] (fst (conn_tbl_register sample_table 9 ISZ_OBJECT_BUFFER))) 3 ISZ_OBJECT_BUFFER = None"
proof -
  obtain s' where s': "conn_tbl_register sample_table 9 ISZ_OBJECT_BUFFER = (s', 3)" using sample_table_facts(2) by (metis prod.collapse)
  have "conn_tbl_fits (Suc (length [TblAdd 5 ISZ_OBJECT_SURFACE, TblDel 2])) sample_table" "conn_tbl_fits (Suc (length [TblDel 3, TblAdd 5 ISZ_OBJECT_BUFFER])) sample_table"
    by (simp_all add: sample_table_facts)
  from object_ids_stable [OF this(1) s'] object_ids_stable [OF this(2) s'] s' show ?thesis by simp
qed

text \<open>After the counter wraps the new id may equal one that is still registered, and a lookup
  returns the older object: the id of the new object names the wrong one.\<close>

lemma object_ids_collide_after_wrap:
  "let c = sample_conn\<lparr>c_objects := [\<lparr>oe_id = 1, oe_handle = 7, oe_kind = ISZ_OBJECT_SURFACE\<rparr>],
             c_next_object_id := - 1, c_objects_cap := 8\<rparr>;
       (k1, c1, i1) = isz_conn_register_object kern_init c 8 ISZ_OBJECT_SURFACE;
       (k2, c2, i2) = isz_conn_register_object k1 c1 9 ISZ_OBJECT_SURFACE
   in i2 = 1 \<and> isz_conn_lookup_object c2 i2 ISZ_OBJECT_SURFACE = Some 7"
  by (simp add: isz_conn_register_object_def isz_conn_lookup_object_def Let_def)

text \<open>The limit of eight descriptors is enforced only on the direct path: with a message queued, a
  ninth descriptor is written past \<^verbatim>\<open>node->fds\<close>.\<close>

lemma conn_enqueue_ninth_fd_overflows:
  "isz_conn_send (kern_init\<lparr>k_dups := map Some [10..18]\<rparr>)
     (sample_conn\<lparr>c_queue := [\<lparr>mn_buf = frame 4 [], mn_fds = []\<rparr>], c_queued_events := 1\<rparr>)
     4 (Some []) 0 (Some [1, 2, 3, 4, 5, 6, 7, 8, 9]) 9 = None"
proof -
  have "isz_proto_encode (replicate 8192 0) 8192 4 (Some []) 0
      = Some (Inr (frame 4 [] @ drop 8 (replicate 8192 0), 8))"
    using isz_proto_encode_eq [of 8192 "replicate 8192 0" 4 "[]"] by simp
  then show ?thesis
    by (simp add: isz_conn_send_def conn_enqueue_def isz_msg_node_alloc_def k_alloc_def k_dup_def
        kern_init_def upto_rec1 sample_conn_facts Let_def numeral_eq_Suc)
qed

end
