(* ===== verification/Isz_Buffer.thy ===== *)
theory Isz_Buffer
  imports Isz_Prelude
begin

text \<open>
  Tracked buffers of \<^verbatim>\<open>src/buffer/isz_buffer.c\<close> and \<^verbatim>\<open>isz_buffer.h\<close>: import, reference counting,
  release, the per-client import cache, and the pending-release list. The build without
  libdrm is modelled (\<^verbatim>\<open>ISHIZUE_HAVE_DRM\<close> undefined), so no syncobj is ever created.

  Buffers live in a heap: a reference maps to the struct until it is freed, and reading or
  writing through a freed reference is \<open>None\<close>. New objects get fresh references. The state
  record extends the kernel record, so the operations below also run on the server state,
  which extends it further.
\<close>

section \<open>State\<close>

record buffer_desc =
  bd_width :: u32
  bd_height :: u32
  bd_stride :: u32
  bd_offset :: u32
  bd_format :: u32
  bd_modifier :: u64
  bd_alpha_mode :: u8

text \<open>\<^verbatim>\<open>struct isz_buffer\<close>. \<open>b_priv\<close> is the mapping of the shared-memory fallback; the intrusive node
  \<^verbatim>\<open>release_node\<close> is membership in \<open>bs_pending\<close>.\<close>

record buffer =
  b_dmabuf_fd :: fd
  b_width :: u32
  b_height :: u32
  b_stride :: u32
  b_offset :: u32
  b_format :: u32
  b_modifier :: u64
  b_alpha_mode :: u8
  b_client_id :: u32
  b_released :: bool
  b_refcount :: u32
  b_priv :: "nat option"
  b_priv_size :: nat
  b_is_shm :: bool
  b_in_syncobj :: u32
  b_out_syncobj :: u32
  b_release_pending :: bool

record bstate = kern +
  bs_bufs :: "nat \<Rightarrow> buffer option"
  bs_next_buf :: nat
  bs_pending :: "nat list"

definition upd_buf :: "'z bstate_scheme \<Rightarrow> nat \<Rightarrow> buffer \<Rightarrow> 'z bstate_scheme" where
  "upd_buf w r b = w\<lparr>bs_bufs := (bs_bufs w)(r \<mapsto> b)\<rparr>"

section \<open>Import, reference counts, release\<close>

text \<open>\<open>out\<close> says that the result pointer is not \<^verbatim>\<open>NULL\<close>; the result is the error or the new buffer.\<close>

definition isz_buffer_import ::
    "'z bstate_scheme \<Rightarrow> u32 \<Rightarrow> fd \<Rightarrow> buffer_desc option \<Rightarrow> bool \<Rightarrow> 'z bstate_scheme \<times> (isz_error + nat)" where
  "isz_buffer_import w client_id dmabuf_fd desc out =
     (if \<not> out then ((if dmabuf_fd \<ge> 0 then k_close w dmabuf_fd else w), Inl ISZ_ERR_INVALID_ARG)
      else case desc of
        None \<Rightarrow> (w, Inl ISZ_ERR_INVALID_ARG)
      | Some d \<Rightarrow>
          if dmabuf_fd < 0 then (w, Inl ISZ_ERR_INVALID_ARG)
          else if bd_width d = 0 \<or> bd_height d = 0 \<or> bd_stride d = 0
          then (k_close w dmabuf_fd, Inl ISZ_ERR_INVALID_DMABUF)
          else case k_alloc w of
            (w, False) \<Rightarrow> (k_close w dmabuf_fd, Inl ISZ_ERR_NO_MEMORY)
          | (w, True) \<Rightarrow>
              let r = bs_next_buf w;
                  b = \<lparr>b_dmabuf_fd = dmabuf_fd, b_width = bd_width d, b_height = bd_height d,
                       b_stride = bd_stride d, b_offset = bd_offset d, b_format = bd_format d,
                       b_modifier = bd_modifier d, b_alpha_mode = bd_alpha_mode d,
                       b_client_id = client_id, b_released = False, b_refcount = 1,
                       b_priv = None, b_priv_size = 0, b_is_shm = False,
                       b_in_syncobj = 0, b_out_syncobj = 0, b_release_pending = False\<rparr>
              in (upd_buf (w\<lparr>bs_next_buf := r + 1\<rparr>) r b, Inr r))"

definition isz_buffer_release :: "'z bstate_scheme \<Rightarrow> nat option \<Rightarrow> 'z bstate_scheme option" where
  "isz_buffer_release w buf = (case buf of
       None \<Rightarrow> Some w
     | Some r \<Rightarrow> do { b \<leftarrow> bs_bufs w r; Some (upd_buf w r (b\<lparr>b_released := True\<rparr>)) })"

definition isz_buffer_ref :: "'z bstate_scheme \<Rightarrow> nat option \<Rightarrow> 'z bstate_scheme option" where
  "isz_buffer_ref w buf = (case buf of
       None \<Rightarrow> Some w
     | Some r \<Rightarrow> do { b \<leftarrow> bs_bufs w r; Some (upd_buf w r (b\<lparr>b_refcount := b_refcount b + 1\<rparr>)) })"

text \<open>The last reference unlinks the buffer from the pending list, closes its descriptor and frees
  it; unmapping the shared-memory mapping has no effect on the modelled state.\<close>

definition isz_buffer_unref :: "'z bstate_scheme \<Rightarrow> nat option \<Rightarrow> 'z bstate_scheme option" where
  "isz_buffer_unref w buf = (case buf of
       None \<Rightarrow> Some w
     | Some r \<Rightarrow> do {
         b \<leftarrow> bs_bufs w r;
         (if b_refcount b > 1 then Some (upd_buf w r (b\<lparr>b_refcount := b_refcount b - 1\<rparr>))
          else let w = w\<lparr>bs_pending := remove1 r (bs_pending w)\<rparr>;
                   w = (if b_dmabuf_fd b \<ge> 0 then k_close w (b_dmabuf_fd b) else w)
               in Some (w\<lparr>bs_bufs := (bs_bufs w)(r := None)\<rparr>))
       })"

section \<open>Import cache\<close>

abbreviation (input) "ISZ_BUFFER_CACHE_SLOTS \<equiv> (32 :: nat)"

record cache_entry =
  ce_fd :: fd
  ce_buf :: "nat option"

record buffer_cache =
  bc_slots :: "cache_entry list"
  bc_count :: u32

definition cache_hash :: "fd \<Rightarrow> nat" where
  "cache_hash fd = unat (word_of_int fd * 2654435761 :: u32) mod ISZ_BUFFER_CACHE_SLOTS"

definition isz_buffer_cache_init :: buffer_cache where
  "isz_buffer_cache_init =
     \<lparr>bc_slots = replicate ISZ_BUFFER_CACHE_SLOTS \<lparr>ce_fd = -1, ce_buf = None\<rparr>, bc_count = 0\<rparr>"

text \<open>The \<open>i\<close>-th slot of the probe chain of \<open>fd\<close>.\<close>

definition probe :: "fd \<Rightarrow> nat \<Rightarrow> nat" where
  "probe fd i = (cache_hash fd + i) mod ISZ_BUFFER_CACHE_SLOTS"

text \<open>The loops over the probe chain stop at the first slot that is empty or holds \<open>fd\<close>.\<close>

definition cache_stop :: "cache_entry list \<Rightarrow> fd \<Rightarrow> nat option" where
  "cache_stop slots fd =
     map_option (probe fd)
       (find (\<lambda>i. ce_fd (slots ! probe fd i) = -1 \<or> ce_fd (slots ! probe fd i) = fd)
          [0..<ISZ_BUFFER_CACHE_SLOTS])"

definition isz_buffer_cache_lookup :: "buffer_cache \<Rightarrow> fd \<Rightarrow> nat option" where
  "isz_buffer_cache_lookup cache fd =
     (if fd < 0 then None
      else case cache_stop (bc_slots cache) fd of
             None \<Rightarrow> None
           | Some idx \<Rightarrow> if ce_fd (bc_slots cache ! idx) = -1 then None else ce_buf (bc_slots cache ! idx))"

definition isz_buffer_cache_insert ::
    "'z bstate_scheme \<Rightarrow> buffer_cache \<Rightarrow> nat option \<Rightarrow> ('z bstate_scheme \<times> buffer_cache \<times> isz_error) option" where
  "isz_buffer_cache_insert w cache buf = (case buf of
       None \<Rightarrow> Some (w, cache, ISZ_ERR_INVALID_ARG)
     | Some r \<Rightarrow> do {
         b \<leftarrow> bs_bufs w r;
         (if b_dmabuf_fd b < 0 then Some (w, cache, ISZ_ERR_INVALID_ARG)
          else case cache_stop (bc_slots cache) (b_dmabuf_fd b) of
            None \<Rightarrow> Some (w, cache, ISZ_ERR_RESOURCE_LIMIT)
          | Some idx \<Rightarrow>
              let e = bc_slots cache ! idx in
              if ce_fd e = b_dmabuf_fd b then do {
                w \<leftarrow> isz_buffer_unref w (ce_buf e);
                w \<leftarrow> isz_buffer_ref w (Some r);
                Some (w, cache\<lparr>bc_slots := (bc_slots cache)[idx := e\<lparr>ce_buf := Some r\<rparr>]\<rparr>, ISZ_OK)
              } else do {
                w \<leftarrow> isz_buffer_ref w (Some r);
                Some (w, cache\<lparr>bc_slots := (bc_slots cache)[idx := \<lparr>ce_fd = b_dmabuf_fd b, ce_buf = Some r\<rparr>],
                               bc_count := bc_count cache + 1\<rparr>, ISZ_OK)
              })
       })"

text \<open>The backshift loop of \<^verbatim>\<open>isz_buffer_cache_evict\<close> over \<^verbatim>\<open>i = 1 .. 31\<close>; \<open>hole\<close> changes as it runs.\<close>

fun evict_backshift :: "cache_entry list \<Rightarrow> nat \<Rightarrow> nat list \<Rightarrow> cache_entry list" where
  "evict_backshift slots hole [] = slots"
| "evict_backshift slots hole (i # is) =
     (let cur = (hole + i) mod ISZ_BUFFER_CACHE_SLOTS;
          e = slots ! cur
      in if ce_fd e = -1 then slots
         else let home = cache_hash (ce_fd e);
                  dist_cur = (cur + ISZ_BUFFER_CACHE_SLOTS - hole) mod ISZ_BUFFER_CACHE_SLOTS;
                  dist_home = (cur + ISZ_BUFFER_CACHE_SLOTS - home) mod ISZ_BUFFER_CACHE_SLOTS
              in if dist_home \<ge> dist_cur then evict_backshift slots hole is
                 else evict_backshift
                        (slots[hole := \<lparr>ce_fd = ce_fd e, ce_buf = ce_buf e\<rparr>,
                               cur := \<lparr>ce_fd = -1, ce_buf = None\<rparr>]) cur is)"

definition isz_buffer_cache_evict ::
    "'z bstate_scheme \<Rightarrow> buffer_cache \<Rightarrow> fd \<Rightarrow> ('z bstate_scheme \<times> buffer_cache) option" where
  "isz_buffer_cache_evict w cache fd =
     (if fd < 0 then Some (w, cache)
      else case cache_stop (bc_slots cache) fd of
        None \<Rightarrow> Some (w, cache)
      | Some victim \<Rightarrow>
          if ce_fd (bc_slots cache ! victim) = -1 then Some (w, cache)
          else do {
            w \<leftarrow> isz_buffer_unref w (ce_buf (bc_slots cache ! victim));
            (let slots = (bc_slots cache)[victim := \<lparr>ce_fd = -1, ce_buf = None\<rparr>];
                 count = (if bc_count cache > 0 then bc_count cache - 1 else bc_count cache)
             in Some (w, cache\<lparr>bc_slots := evict_backshift slots victim [1..<ISZ_BUFFER_CACHE_SLOTS],
                               bc_count := count\<rparr>))
          })"

fun cache_unref_all :: "'z bstate_scheme \<Rightarrow> cache_entry list \<Rightarrow> 'z bstate_scheme option" where
  "cache_unref_all w [] = Some w"
| "cache_unref_all w (e # es) = do { w \<leftarrow> isz_buffer_unref w (ce_buf e); cache_unref_all w es }"

definition isz_buffer_cache_destroy ::
    "'z bstate_scheme \<Rightarrow> buffer_cache \<Rightarrow> ('z bstate_scheme \<times> buffer_cache) option" where
  "isz_buffer_cache_destroy w cache = do {
     w \<leftarrow> cache_unref_all w (bc_slots cache);
     Some (w, isz_buffer_cache_init)
   }"

section \<open>Page flips and the pending-release list\<close>

text \<open>Without libdrm there is no acquire fence.\<close>

definition isz_buffer_set_in_fence_fd :: "nat option \<Rightarrow> int \<Rightarrow> fd \<Rightarrow> isz_error" where
  "isz_buffer_set_in_fence_fd buf drm_fd sync_file_fd =
     (if buf = None \<or> sync_file_fd < 0 then ISZ_ERR_INVALID_ARG else ISZ_ERR_FEATURE_UNAVAIL)"

text \<open>The wire send is a logging stub in the source.\<close>

definition isz_buffer_send_release :: "'z bstate_scheme \<Rightarrow> nat option \<Rightarrow> isz_error option" where
  "isz_buffer_send_release w buf = (case buf of
       None \<Rightarrow> Some ISZ_ERR_INVALID_ARG
     | Some r \<Rightarrow> do { b \<leftarrow> bs_bufs w r; Some ISZ_OK })"

definition isz_buffer_on_page_flip :: "'z bstate_scheme \<Rightarrow> nat option \<Rightarrow> 'z bstate_scheme option" where
  "isz_buffer_on_page_flip w buf = (case buf of
       None \<Rightarrow> Some w
     | Some r \<Rightarrow> do { rc \<leftarrow> isz_buffer_send_release w (Some r); isz_buffer_release w (Some r) })"

text \<open>\<^verbatim>\<open>isz_list_pop_front(&srv->pending_releases)\<close> and the clearing of \<^verbatim>\<open>release_pending\<close>, which both drain
  loops start with.\<close>

definition pop_pending :: "'z bstate_scheme \<Rightarrow> nat \<Rightarrow> 'z bstate_scheme option" where
  "pop_pending w r = do {
     b \<leftarrow> bs_bufs w r;
     Some (upd_buf (w\<lparr>bs_pending := tl (bs_pending w)\<rparr>) r (b\<lparr>b_release_pending := False\<rparr>))
   }"

fun poll_loop :: "'z bstate_scheme \<Rightarrow> nat list \<Rightarrow> 'z bstate_scheme option" where
  "poll_loop w [] = Some w"
| "poll_loop w (r # rs) = do {
     w \<leftarrow> pop_pending w r;
     rc \<leftarrow> isz_buffer_send_release w (Some r);
     w \<leftarrow> isz_buffer_release w (Some r);
     w \<leftarrow> isz_buffer_unref w (Some r);
     poll_loop w rs
   }"

definition isz_buffer_poll_out_fences :: "'z bstate_scheme \<Rightarrow> 'z bstate_scheme option" where
  "isz_buffer_poll_out_fences w = poll_loop w (bs_pending w)"

fun release_destroy_loop :: "'z bstate_scheme \<Rightarrow> nat list \<Rightarrow> 'z bstate_scheme option" where
  "release_destroy_loop w [] = Some w"
| "release_destroy_loop w (r # rs) = do {
     w \<leftarrow> pop_pending w r;
     w \<leftarrow> isz_buffer_release w (Some r);
     w \<leftarrow> isz_buffer_unref w (Some r);
     release_destroy_loop w rs
   }"

definition isz_buffer_release_destroy :: "'z bstate_scheme \<Rightarrow> 'z bstate_scheme option" where
  "isz_buffer_release_destroy w = release_destroy_loop w (bs_pending w)"

section \<open>Reference counting\<close>

lemma upd_buf_simps [simp]:
  "bs_bufs (upd_buf w r b) = (bs_bufs w)(r \<mapsto> b)" "bs_pending (upd_buf w r b) = bs_pending w"
  "bs_next_buf (upd_buf w r b) = bs_next_buf w" "k_closed (upd_buf w r b) = k_closed w"
  "k_sent (upd_buf w r b) = k_sent w" "k_allocs (upd_buf w r b) = k_allocs w"
  "k_duped (upd_buf w r b) = k_duped w"
  by (simp_all add: upd_buf_def)

lemma k_close_bstate [simp]:
  "bs_bufs (k_close w d) = bs_bufs w" "bs_pending (k_close w d) = bs_pending w"
  "bs_next_buf (k_close w d) = bs_next_buf w"
  by (simp_all add: k_close_def)

lemma k_alloc_bstate: "k_alloc w = (w', ok) \<Longrightarrow>
    bs_bufs w' = bs_bufs w \<and> bs_pending w' = bs_pending w \<and> bs_next_buf w' = bs_next_buf w"
  by (auto simp: k_alloc_def split: list.splits)

text \<open>The count after a sequence of references (\<open>True\<close>) and releases (\<open>False\<close>), as long as it stays
  positive and below \<^verbatim>\<open>UINT32_MAX\<close>, and the corresponding run of the code.\<close>

fun rc_track :: "nat \<Rightarrow> bool list \<Rightarrow> nat option" where
  "rc_track n [] = Some n"
| "rc_track n (True # ops) = (if n + 1 < 2 ^ 32 then rc_track (n + 1) ops else None)"
| "rc_track n (False # ops) = (if n > 1 then rc_track (n - 1) ops else None)"

fun rc_run :: "'z bstate_scheme \<Rightarrow> nat \<Rightarrow> bool list \<Rightarrow> 'z bstate_scheme option" where
  "rc_run w r [] = Some w"
| "rc_run w r (True # ops) = do { w \<leftarrow> isz_buffer_ref w (Some r); rc_run w r ops }"
| "rc_run w r (False # ops) = do { w \<leftarrow> isz_buffer_unref w (Some r); rc_run w r ops }"

lemma unat_inc: "unat (v :: u32) + 1 < 2 ^ 32 \<Longrightarrow> unat (v + 1) = unat v + 1"
  by (simp add: unat_word_ariths)

lemma unat_dec: "0 < unat (v :: u32) \<Longrightarrow> unat (v - 1) = unat v - 1"
  by (metis One_nat_def unat_minus_one unat_0 less_irrefl)

lemma upd_buf_twice [simp]: "upd_buf (upd_buf w r a) r b = upd_buf w r b"
  by (simp add: upd_buf_def)

lemma upd_buf_same: "bs_bufs w r = Some b \<Longrightarrow> upd_buf w r b = w"
  by (simp add: upd_buf_def fun_upd_idem)

lemma rc_run_spec:
  assumes "bs_bufs w r = Some b" "rc_track (unat (b_refcount b)) ops = Some m"
  shows "\<exists>c. rc_run w r ops = Some (upd_buf w r (b\<lparr>b_refcount := c\<rparr>)) \<and> unat c = m"
  using assms
proof (induction "unat (b_refcount b)" ops arbitrary: w b rule: rc_track.induct)
  case 1
  then show ?case by (intro exI [of _ "b_refcount b"]) (simp add: upd_buf_same)
next
  case (2 ops)
  let ?b = "b\<lparr>b_refcount := b_refcount b + 1\<rparr>"
  from 2 have lt: "unat (b_refcount b) + 1 < 2 ^ 32" by (simp split: if_splits)
  have inc: "unat (b_refcount ?b) = unat (b_refcount b) + 1" using unat_inc [OF lt] by simp
  from 2 inc lt have "\<exists>c. rc_run (upd_buf w r ?b) r ops
      = Some (upd_buf (upd_buf w r ?b) r (?b\<lparr>b_refcount := c\<rparr>)) \<and> unat c = m"
    by (intro 2(1)) auto
  with 2 show ?case by (auto simp: isz_buffer_ref_def)
next
  case (3 ops)
  let ?b = "b\<lparr>b_refcount := b_refcount b - 1\<rparr>"
  from 3 have gt: "unat (b_refcount b) > 1" by (simp split: if_splits)
  then have "b_refcount b > 1" by (simp add: word_less_nat_alt)
  moreover have inc: "unat (b_refcount ?b) = unat (b_refcount b) - 1" using unat_dec gt by simp
  from 3 inc gt have "\<exists>c. rc_run (upd_buf w r ?b) r ops
      = Some (upd_buf (upd_buf w r ?b) r (?b\<lparr>b_refcount := c\<rparr>)) \<and> unat c = m"
    by (intro 3(1)) auto
  ultimately show ?case using 3 by (auto simp: isz_buffer_unref_def)
qed

lemma isz_buffer_unref_last:
  assumes "bs_bufs w r = Some b" "unat (b_refcount b) = 1" "b_dmabuf_fd b \<ge> 0"
  shows "\<exists>w'. isz_buffer_unref w (Some r) = Some w' \<and> bs_bufs w' = (bs_bufs w)(r := None)
     \<and> k_closed w' = k_closed w @ [b_dmabuf_fd b] \<and> bs_pending w' = remove1 r (bs_pending w)"
  using assms by (simp add: isz_buffer_unref_def word_less_nat_alt Let_def k_close_def)

section \<open>The cache as a map\<close>

text \<open>The invariant that lookups rely on: an occupied slot is reached from the home slot of its key
  through occupied slots with other keys.\<close>

definition chain_to :: "cache_entry list \<Rightarrow> fd \<Rightarrow> nat \<Rightarrow> bool" where
  "chain_to slots fd j = list_ex (\<lambda>i. probe fd i = j
      \<and> list_all (\<lambda>i'. ce_fd (slots ! probe fd i') \<noteq> -1 \<and> ce_fd (slots ! probe fd i') \<noteq> fd) [0..<i])
      [0..<ISZ_BUFFER_CACHE_SLOTS]"

definition cache_ok :: "buffer_cache \<Rightarrow> bool" where
  "cache_ok cache \<longleftrightarrow> length (bc_slots cache) = ISZ_BUFFER_CACHE_SLOTS
     \<and> list_all (\<lambda>e. ce_fd e \<ge> -1 \<and> (ce_fd e = -1 \<longleftrightarrow> ce_buf e = None)) (bc_slots cache)
     \<and> list_all (\<lambda>j. ce_fd (bc_slots cache ! j) \<noteq> -1 \<longrightarrow> chain_to (bc_slots cache) (ce_fd (bc_slots cache ! j)) j)
         [0..<ISZ_BUFFER_CACHE_SLOTS]"

lemma probe_less [simp]: "probe fd i < 32"
  by (simp add: probe_def)

lemma chain_to_iff:
  "chain_to slots fd j \<longleftrightarrow> (\<exists>i<32. probe fd i = j
      \<and> (\<forall>i'<i. ce_fd (slots ! probe fd i') \<noteq> -1 \<and> ce_fd (slots ! probe fd i') \<noteq> fd))"
  by (auto simp: chain_to_def list_ex_iff list_all_iff)

lemma cache_okD:
  assumes "cache_ok cache"
  shows "length (bc_slots cache) = 32"
    and "j < 32 \<Longrightarrow> ce_fd (bc_slots cache ! j) \<noteq> -1 \<Longrightarrow>
           chain_to (bc_slots cache) (ce_fd (bc_slots cache ! j)) j"
    and "j < 32 \<Longrightarrow> ce_fd (bc_slots cache ! j) = -1 \<longleftrightarrow> ce_buf (bc_slots cache ! j) = None"
    and "j < 32 \<Longrightarrow> ce_fd (bc_slots cache ! j) \<ge> -1"
  using assms by (auto simp: cache_ok_def list_all_length)

lemma cache_stop_Some:
  assumes "cache_stop slots fd = Some idx"
  shows "\<exists>i<32. idx = probe fd i \<and> (ce_fd (slots ! idx) = -1 \<or> ce_fd (slots ! idx) = fd)
     \<and> (\<forall>i'<i. ce_fd (slots ! probe fd i') \<noteq> -1 \<and> ce_fd (slots ! probe fd i') \<noteq> fd)"
  using assms unfolding cache_stop_def by (fastforce simp: find_Some_iff)

lemma cache_stop_hit:
  assumes "chain_to slots fd j" "ce_fd (slots ! j) = fd"
  shows "cache_stop slots fd = Some j"
proof -
  from assms(1) obtain i where i: "i < 32" "probe fd i = j"
    "\<forall>i'<i. ce_fd (slots ! probe fd i') \<noteq> -1 \<and> ce_fd (slots ! probe fd i') \<noteq> fd"
    by (auto simp: chain_to_iff)
  have "find (\<lambda>i. ce_fd (slots ! probe fd i) = -1 \<or> ce_fd (slots ! probe fd i) = fd) [0..<32] = Some i"
    unfolding find_Some_iff using i assms(2) by (intro exI [of _ i]) auto
  then show ?thesis using i(2) by (simp add: cache_stop_def)
qed

text \<open>Under the invariant a lookup finds exactly what is stored, wherever it is stored.\<close>

lemma cache_lookup_iff:
  assumes "cache_ok cache" "0 \<le> fd"
  shows "isz_buffer_cache_lookup cache fd = Some r \<longleftrightarrow>
     (\<exists>j<32. ce_fd (bc_slots cache ! j) = fd \<and> ce_buf (bc_slots cache ! j) = Some r)"
proof
  assume l: "isz_buffer_cache_lookup cache fd = Some r"
  then obtain idx where "cache_stop (bc_slots cache) fd = Some idx" "ce_fd (bc_slots cache ! idx) \<noteq> -1"
    "ce_buf (bc_slots cache ! idx) = Some r"
    by (auto simp: isz_buffer_cache_lookup_def split: if_splits option.splits)
  with cache_stop_Some [of "bc_slots cache" fd idx]
  show "\<exists>j<32. ce_fd (bc_slots cache ! j) = fd \<and> ce_buf (bc_slots cache ! j) = Some r"
    by (intro exI [of _ idx]) auto
next
  assume "\<exists>j<32. ce_fd (bc_slots cache ! j) = fd \<and> ce_buf (bc_slots cache ! j) = Some r"
  then obtain j where j: "j < 32" "ce_fd (bc_slots cache ! j) = fd" "ce_buf (bc_slots cache ! j) = Some r" by blast
  with assms cache_okD(2) [OF assms(1) j(1)] have "cache_stop (bc_slots cache) fd = Some j"
    by (intro cache_stop_hit) auto
  then show "isz_buffer_cache_lookup cache fd = Some r"
    using j assms(2) by (simp add: isz_buffer_cache_lookup_def)
qed

lemma cache_key_unique:
  assumes "cache_ok cache" "j < 32" "j' < 32" "ce_fd (bc_slots cache ! j) = ce_fd (bc_slots cache ! j')"
    "ce_fd (bc_slots cache ! j) \<noteq> -1"
  shows "j = j'"
  using cache_stop_hit [of "bc_slots cache" _ j] cache_stop_hit [of "bc_slots cache" _ j']
    cache_okD(2) [OF assms(1)] assms(2-5) by (metis option.inject)

text \<open>The two ways an insertion writes the table.\<close>

lemma cache_ok_replace:
  assumes ok: "cache_ok cache" and "j < 32" "ce_fd (bc_slots cache ! j) \<noteq> -1"
  shows "cache_ok (cache\<lparr>bc_slots := (bc_slots cache)[j := (bc_slots cache ! j)\<lparr>ce_buf := Some r\<rparr>]\<rparr>)"
proof -
  let ?s = "(bc_slots cache)[j := (bc_slots cache ! j)\<lparr>ce_buf := Some r\<rparr>]"
  have fd: "ce_fd (?s ! i) = ce_fd (bc_slots cache ! i)" for i
    using assms(2) cache_okD(1) [OF ok] by (cases "i = j") simp_all
  then have "chain_to ?s = chain_to (bc_slots cache)"
    by (simp add: fun_eq_iff chain_to_iff)
  with ok assms(2,3) fd show ?thesis
    by (auto simp: cache_ok_def list_all_length nth_list_update)
qed

lemma cache_ok_fill:
  assumes ok: "cache_ok cache" and stop: "cache_stop (bc_slots cache) fd = Some j"
    and free: "ce_fd (bc_slots cache ! j) = -1" and "0 \<le> fd"
  shows "cache_ok (cache\<lparr>bc_slots := (bc_slots cache)[j := \<lparr>ce_fd = fd, ce_buf = Some r\<rparr>], bc_count := n\<rparr>)"
proof -
  let ?s = "(bc_slots cache)[j := \<lparr>ce_fd = fd, ce_buf = Some r\<rparr>]"
  from cache_stop_Some [OF stop] obtain i where i: "i < 32" "j = probe fd i"
    "\<forall>i'<i. ce_fd (bc_slots cache ! probe fd i') \<noteq> -1 \<and> ce_fd (bc_slots cache ! probe fd i') \<noteq> fd" by auto
  have j: "j < 32" using i(2) by simp
  have other: "?s ! k = bc_slots cache ! k" if "ce_fd (bc_slots cache ! k) \<noteq> -1" for k
    using that free by (cases "k = j") simp_all
  have new: "chain_to ?s fd j" unfolding chain_to_iff using i other by (intro exI [of _ i]) auto
  have old: "chain_to ?s f k" if c: "chain_to (bc_slots cache) f k" for f k
    using c other unfolding chain_to_iff by (metis (no_types, lifting))
  have len: "length ?s = 32" using cache_okD(1) [OF ok] by simp
  have "chain_to ?s (ce_fd (?s ! k)) k" if "k < 32" "ce_fd (?s ! k) \<noteq> -1" for k
    using that new old cache_okD(1,2) [OF ok] j by (cases "k = j") auto
  moreover have "ce_fd (?s ! k) \<ge> -1 \<and> (ce_fd (?s ! k) = -1 \<longleftrightarrow> ce_buf (?s ! k) = None)" if "k < 32" for k
    using that cache_okD(1,3,4) [OF ok] j assms(4) by (cases "k = j") auto
  ultimately show ?thesis using len by (auto simp only: cache_ok_def list_all_length) auto
qed

lemma cache_lookup_upd:
  assumes "cache_ok cache" "cache_ok (cache\<lparr>bc_slots := (bc_slots cache)[j := e], bc_count := n\<rparr>)"
    and "j < 32" "ce_fd e = fd" "ce_buf e = Some r" "0 \<le> fd" "0 \<le> f"
    and "ce_fd (bc_slots cache ! j) = -1 \<or> ce_fd (bc_slots cache ! j) = fd"
  shows "isz_buffer_cache_lookup (cache\<lparr>bc_slots := (bc_slots cache)[j := e], bc_count := n\<rparr>) f
     = (if f = fd then Some r else isz_buffer_cache_lookup cache f)"
proof -
  let ?c = "cache\<lparr>bc_slots := (bc_slots cache)[j := e], bc_count := n\<rparr>"
  have len: "length (bc_slots cache) = 32" by (rule cache_okD(1) [OF assms(1)])
  have eq: "isz_buffer_cache_lookup ?c f = Some x \<longleftrightarrow>
      (if f = fd then Some r else isz_buffer_cache_lookup cache f) = Some x" for x
  proof (cases "f = fd")
    case True
    have "isz_buffer_cache_lookup ?c fd = Some r"
      unfolding cache_lookup_iff [OF assms(2) assms(6)]
      using assms(3-5) len by (intro exI [of _ j]) simp
    with True show ?thesis by simp
  next
    case False
    have "ce_fd (bc_slots ?c ! k) = f \<and> ce_buf (bc_slots ?c ! k) = Some x \<longleftrightarrow>
        ce_fd (bc_slots cache ! k) = f \<and> ce_buf (bc_slots cache ! k) = Some x" if "k < 32" for k
      using that False assms(3,4,7,8) len by (cases "k = j") auto
    with False show ?thesis
      unfolding cache_lookup_iff [OF assms(2) assms(7)] by (simp add: cache_lookup_iff [OF assms(1,7)]) blast
  qed
  show ?thesis by (metis eq not_None_eq)
qed

lemma isz_buffer_cache_insert_spec:
  assumes ok: "cache_ok cache" and ins: "isz_buffer_cache_insert w cache (Some r) = Some (w', cache', ISZ_OK)"
    and b: "bs_bufs w r = Some b"
  shows "cache_ok cache' \<and> (\<forall>f \<ge> 0. isz_buffer_cache_lookup cache' f
      = (if f = b_dmabuf_fd b then Some r else isz_buffer_cache_lookup cache f))"
proof -
  let ?fd = "b_dmabuf_fd b"
  from ins b obtain idx where pos: "0 \<le> ?fd" and stop: "cache_stop (bc_slots cache) ?fd = Some idx"
    and c': "cache' = (if ce_fd (bc_slots cache ! idx) = ?fd
       then cache\<lparr>bc_slots := (bc_slots cache)[idx := (bc_slots cache ! idx)\<lparr>ce_buf := Some r\<rparr>]\<rparr>
       else cache\<lparr>bc_slots := (bc_slots cache)[idx := \<lparr>ce_fd = ?fd, ce_buf = Some r\<rparr>], bc_count := bc_count cache + 1\<rparr>)"
    by (auto simp: isz_buffer_cache_insert_def Let_def bind_eq_Some_conv split: if_splits option.splits)
  from cache_stop_Some [OF stop] have idx: "idx < 32"
    "ce_fd (bc_slots cache ! idx) = -1 \<or> ce_fd (bc_slots cache ! idx) = ?fd" by auto
  show ?thesis
  proof (cases "ce_fd (bc_slots cache ! idx) = ?fd")
    case True
    let ?e = "(bc_slots cache ! idx)\<lparr>ce_buf := Some r\<rparr>"
    have eq: "cache' = cache\<lparr>bc_slots := (bc_slots cache)[idx := ?e], bc_count := bc_count cache\<rparr>"
      using c' True by simp
    have ok': "cache_ok cache'" using cache_ok_replace [OF ok idx(1), of r] c' True pos by simp
    with True idx pos show ?thesis
      using cache_lookup_upd [where e = ?e and n = "bc_count cache" and r = r, OF ok _ idx(1)] by (simp add: eq)
  next
    case False
    have ok': "cache_ok cache'" using cache_ok_fill [OF ok stop _ pos] idx(2) False c' by simp
    with False idx pos show ?thesis
      using cache_lookup_upd [where e = "\<lparr>ce_fd = ?fd, ce_buf = Some r\<rparr>" and n = "bc_count cache + 1" and r = r,
          OF ok _ idx(1)] by (simp add: c')
  qed
qed

lemma cache_ok_init: "cache_ok isz_buffer_cache_init"
  by (simp add: cache_ok_def isz_buffer_cache_init_def list_all_iff)

section \<open>Properties of the buffer layer\<close>

definition sample_desc :: buffer_desc where
  "sample_desc = \<lparr>bd_width = 4, bd_height = 4, bd_stride = 16, bd_offset = 0, bd_format = 0x34325258,
     bd_modifier = 0, bd_alpha_mode = 0\<rparr>"

definition bstate_init :: bstate where
  "bstate_init = kern.extend kern_init \<lparr>bs_bufs = (\<lambda>_. None), bs_next_buf = 1, bs_pending = []\<rparr>"

definition sample_bstate :: bstate where
  "sample_bstate = fst (isz_buffer_import bstate_init 0 9 (Some sample_desc) True)"

lemma sample_bstate_buf: "\<exists>b. bs_bufs sample_bstate 1 = Some b \<and> b_refcount b = 1 \<and> b_dmabuf_fd b = 9"
  by (simp add: sample_bstate_def isz_buffer_import_def bstate_init_def sample_desc_def k_alloc_def
      kern_init_def kern.extend_def)

text \<open>C10: reference counting is exact. For every sequence of references and releases during which
  the count stays positive, the buffer stays allocated, nothing but its count changes, and the
  count is the initial one plus references minus releases; when the count is back at one, the
  next release frees the buffer and closes its descriptor, once.\<close>

theorem buffer_refcount_exact:
  assumes "bs_bufs w r = Some b" and "b_dmabuf_fd b \<ge> 0"
    and "rc_track (unat (b_refcount b)) ops = Some 1"
  shows "\<exists>w1 w2. rc_run w r ops = Some w1 \<and> bs_bufs w1 = (bs_bufs w)(r \<mapsto> b\<lparr>b_refcount := 1\<rparr>)
     \<and> k_closed w1 = k_closed w
     \<and> isz_buffer_unref w1 (Some r) = Some w2 \<and> bs_bufs w2 = (bs_bufs w)(r := None)
     \<and> k_closed w2 = k_closed w @ [b_dmabuf_fd b]"
proof -
  from rc_run_spec [OF assms(1,3)] obtain c where
    run: "rc_run w r ops = Some (upd_buf w r (b\<lparr>b_refcount := c\<rparr>))" and "unat c = 1" by blast
  then have c: "c = 1" by (simp add: word_unat_eq_iff)
  let ?w1 = "upd_buf w r (b\<lparr>b_refcount := 1\<rparr>)"
  from isz_buffer_unref_last [of ?w1 r "b\<lparr>b_refcount := 1\<rparr>"] assms(2) obtain w2 where
    "isz_buffer_unref ?w1 (Some r) = Some w2" "bs_bufs w2 = (bs_bufs ?w1)(r := None)"
    "k_closed w2 = k_closed ?w1 @ [b_dmabuf_fd b]" by auto
  with run c show ?thesis by simp
qed

theorem buffer_refcount_exact_witness:
  "\<exists>b w1 w2. rc_run sample_bstate 1 [True, True, False, True, False, False] = Some w1
     \<and> bs_bufs w1 = (bs_bufs sample_bstate)(1 \<mapsto> b\<lparr>b_refcount := 1\<rparr>)
     \<and> k_closed w1 = k_closed sample_bstate
     \<and> isz_buffer_unref w1 (Some 1) = Some w2 \<and> bs_bufs w2 = (bs_bufs sample_bstate)(1 := None)
     \<and> k_closed w2 = k_closed sample_bstate @ [9]"
proof -
  obtain b where b: "bs_bufs sample_bstate 1 = Some b" "b_refcount b = 1" "b_dmabuf_fd b = 9"
    using sample_bstate_buf by blast
  with buffer_refcount_exact [of sample_bstate 1 b "[True, True, False, True, False, False]"]
  show ?thesis by auto
qed

text \<open>C11: the import cache behaves as a map under insertion. Every insertion that succeeds keeps the
  probe-chain invariant, makes its descriptor resolve to the inserted buffer, and leaves what
  every other descriptor resolves to unchanged.\<close>

theorem cache_insert_lookup:
  assumes "cache_ok cache" and "bs_bufs w r = Some b"
    and "isz_buffer_cache_insert w cache (Some r) = Some (w', cache', ISZ_OK)" and "0 \<le> f"
  shows "cache_ok cache' \<and> isz_buffer_cache_lookup cache' f
      = (if f = b_dmabuf_fd b then Some r else isz_buffer_cache_lookup cache f)"
  using isz_buffer_cache_insert_spec [OF assms(1,3,2)] assms(4) by blast

lemma cache_stop_init: "cache_stop (bc_slots isz_buffer_cache_init) fd = Some (probe fd 0)"
  by (simp add: cache_stop_def isz_buffer_cache_init_def upt_rec)

lemma cache_slot_init: "j < 32 \<Longrightarrow> bc_slots isz_buffer_cache_init ! j = \<lparr>ce_fd = -1, ce_buf = None\<rparr>"
  by (simp add: isz_buffer_cache_init_def)

theorem cache_insert_lookup_witness:
  "\<exists>w' cache'. isz_buffer_cache_insert sample_bstate isz_buffer_cache_init (Some 1) = Some (w', cache', ISZ_OK)
     \<and> cache_ok cache' \<and> isz_buffer_cache_lookup cache' 9 = Some 1"
proof -
  obtain b where b: "bs_bufs sample_bstate 1 = Some b" "b_dmabuf_fd b = 9"
    using sample_bstate_buf by blast
  obtain w' cache' where ins:
    "isz_buffer_cache_insert sample_bstate isz_buffer_cache_init (Some 1) = Some (w', cache', ISZ_OK)"
    using b cache_slot_init [of "probe 9 0"]
    by (auto simp: isz_buffer_cache_insert_def cache_stop_init isz_buffer_ref_def Let_def)
  from cache_insert_lookup [OF cache_ok_init b(1) ins, of 9] b ins show ?thesis by simp
qed

text \<open>Two entries that share their home slot.\<close>

definition collided_cache :: buffer_cache where
  "collided_cache = \<lparr>bc_slots = (replicate 32 \<lparr>ce_fd = -1, ce_buf = None\<rparr>)
     [19 := \<lparr>ce_fd = 3, ce_buf = None\<rparr>, 20 := \<lparr>ce_fd = 35, ce_buf = Some 2\<rparr>], bc_count = 2\<rparr>"

lemma cache_hash_3_35: "cache_hash 3 = 19" "cache_hash 35 = 19"
  by (simp_all add: cache_hash_def)

lemma cache_stop_first:
  "ce_fd (slots ! probe fd 0) = -1 \<or> ce_fd (slots ! probe fd 0) = fd \<Longrightarrow> cache_stop slots fd = Some (probe fd 0)"
  by (simp add: cache_stop_def upt_rec)

text \<open>eviction breaks the cache. Descriptors 3 and 35 share their home slot. After both were
  inserted, evicting 3 leaves the entry of 35 in its slot, with the reference the cache holds,
  but empties the slot before it: 35 is no longer found.\<close>

theorem cache_evict_loses_entry:
  "isz_buffer_cache_lookup collided_cache 35 = Some 2
   \<and> (\<exists>cache'. isz_buffer_cache_evict bstate_init collided_cache 3 = Some (bstate_init, cache')
        \<and> bc_slots cache' ! 20 = \<lparr>ce_fd = 35, ce_buf = Some 2\<rparr>
        \<and> isz_buffer_cache_lookup cache' 35 = None)"
proof -
  have p: "probe 3 0 = 19" "probe 35 0 = 19" "probe 35 1 = 20" "probe 35 (Suc 0) = 20"
    by (simp_all add: probe_def cache_hash_3_35)
  have "cache_stop (bc_slots collided_cache) 35 = Some 20"
    by (simp add: cache_stop_def upt_rec collided_cache_def p)
  then have l: "isz_buffer_cache_lookup collided_cache 35 = Some 2"
    by (simp add: isz_buffer_cache_lookup_def collided_cache_def)
  let ?s = "(bc_slots collided_cache)[19 := \<lparr>ce_fd = -1, ce_buf = None\<rparr>]"
  have "[1..<32 :: nat] = 1 # 2 # [3..<32]" by (simp add: upt_rec)
  then have shift: "evict_backshift ?s 19 [1..<32] = ?s"
    by (simp only:) (simp add: collided_cache_def cache_hash_3_35 Let_def)
  have ev: "isz_buffer_cache_evict bstate_init collided_cache 3
      = Some (bstate_init, collided_cache\<lparr>bc_slots := ?s, bc_count := 1\<rparr>)"
    using shift cache_stop_first [of "bc_slots collided_cache" 3] p(1)
    by (simp add: isz_buffer_cache_evict_def collided_cache_def isz_buffer_unref_def Let_def)
  have "isz_buffer_cache_lookup (collided_cache\<lparr>bc_slots := ?s, bc_count := 1\<rparr>) 35 = None"
    using cache_stop_first [of ?s 35] p(2) by (simp add: isz_buffer_cache_lookup_def collided_cache_def)
  with l ev show ?thesis by (simp add: collided_cache_def)
qed

text \<open>Ownership on the error paths: a descriptor passed without a descriptor record is not closed,
  although every other failure closes it.\<close>

lemma import_without_desc_leaks:
  "0 \<le> fd \<Longrightarrow> isz_buffer_import w c fd None True = (w, Inl ISZ_ERR_INVALID_ARG)"
  by (simp add: isz_buffer_import_def)

lemma import_owns_fd:
  assumes "isz_buffer_import w c fd (Some d) out = (w', r)" "0 \<le> fd"
  shows "case r of Inl e \<Rightarrow> k_closed w' = k_closed w @ [fd] \<and> bs_bufs w' = bs_bufs w
     | Inr ref \<Rightarrow> k_closed w' = k_closed w \<and> ref = bs_next_buf w
         \<and> (\<exists>b. bs_bufs w' ref = Some b \<and> bs_bufs w' = (bs_bufs w)(ref \<mapsto> b) \<and> b_dmabuf_fd b = fd \<and> b_refcount b = 1
              \<and> b_format b = bd_format d \<and> b_width b = bd_width d \<and> b_height b = bd_height d)"
  using assms k_alloc_bstate [of w] k_alloc_log [of w]
  by (auto simp: isz_buffer_import_def Let_def split: if_splits prod.splits bool.splits)

end
