(* ===== verification/Isz_World.thy ===== *)
theory Isz_World
  imports Isz_Conn Isz_Buffer
begin

text \<open>
  The server's data model, \<^verbatim>\<open>src/isz_server_internal.h\<close>, \<^verbatim>\<open>src/render/isz_surface_internal.h\<close> and
  \<^verbatim>\<open>src/input/isz_seat_internal.h\<close>, as one state record. The record extends the buffer state, which
  extends the kernel record, so that the operations of the lower layers run on it directly.

  Each kind of object lives in a map from references to records; an object is removed when it
  is freed, and access through a dangling reference is \<open>None\<close>. The intrusive lists
  \<^verbatim>\<open>srv->outputs\<close>, \<^verbatim>\<open>srv->clients\<close>, the surface list and the children lists are lists of
  references (the list operations themselves are the subject of \<open>Isz_List\<close>). Module-static
  tables of the sources (plane reservations, captures, consents, the clipboard slot, the
  selection descriptors) are fields of the record. There is one server.

  An emitted event is appended to \<open>w_events\<close>; what the listeners of the embedding program do
  with it is outside the model (\<open>Isz_Listeners\<close> models the registry).
\<close>

section \<open>Enumerations of the public header\<close>

datatype isz_plane_type = ISZ_PLANE_PRIMARY | ISZ_PLANE_OVERLAY | ISZ_PLANE_CURSOR

datatype isz_transform =
    ISZ_TRANSFORM_NORMAL | ISZ_TRANSFORM_ROTATE_90 | ISZ_TRANSFORM_ROTATE_180
  | ISZ_TRANSFORM_ROTATE_270 | ISZ_TRANSFORM_REFLECT_X | ISZ_TRANSFORM_REFLECT_Y

datatype isz_layer = ISZ_LAYER_OVERLAY | ISZ_LAYER_BOTTOM | ISZ_LAYER_TOP | ISZ_LAYER_LOCK

datatype isz_dpms_state = ISZ_DPMS_ON | ISZ_DPMS_STANDBY | ISZ_DPMS_SUSPEND | ISZ_DPMS_OFF

datatype isz_surface_kind =
    ISZ_SURFACE_NORMAL | ISZ_SURFACE_SUBSURFACE | ISZ_SURFACE_POPUP | ISZ_SURFACE_LAYER

datatype isz_surface_role =
    ISZ_SURFACE_ROLE_NORMAL | ISZ_SURFACE_ROLE_X11_TOPLEVEL | ISZ_SURFACE_ROLE_X11_POPUP
  | ISZ_SURFACE_ROLE_LAYER

datatype isz_backend_st =
    ISZ_BACKEND_UNINITIALIZED | ISZ_BACKEND_READY | ISZ_BACKEND_COMMITTING | ISZ_BACKEND_ERROR

datatype isz_server_st = ISZ_SERVER_UNINITIALIZED | ISZ_SERVER_RUNNING | ISZ_SERVER_DESTROYING

datatype isz_consent_kind =
    ISZ_CONSENT_SCREEN_CAPTURE | ISZ_CONSENT_FILE_ACCESS | ISZ_CONSENT_NOTIFICATION

text \<open>Casting an integer to an enumeration; \<open>None\<close> for a value outside it.\<close>

definition plane_type_of_int :: "int \<Rightarrow> isz_plane_type option" where
  "plane_type_of_int v = (if v = 0 then Some ISZ_PLANE_PRIMARY else if v = 1 then Some ISZ_PLANE_OVERLAY
     else if v = 2 then Some ISZ_PLANE_CURSOR else None)"

definition transform_of_int :: "int \<Rightarrow> isz_transform option" where
  "transform_of_int v = (if v = 0 then Some ISZ_TRANSFORM_NORMAL
     else if v = 1 then Some ISZ_TRANSFORM_ROTATE_90 else if v = 2 then Some ISZ_TRANSFORM_ROTATE_180
     else if v = 3 then Some ISZ_TRANSFORM_ROTATE_270 else if v = 4 then Some ISZ_TRANSFORM_REFLECT_X
     else if v = 5 then Some ISZ_TRANSFORM_REFLECT_Y else None)"

definition layer_of_int :: "int \<Rightarrow> isz_layer option" where
  "layer_of_int v = (if v = 0 then Some ISZ_LAYER_OVERLAY else if v = 1 then Some ISZ_LAYER_BOTTOM
     else if v = 2 then Some ISZ_LAYER_TOP else if v = 3 then Some ISZ_LAYER_LOCK else None)"

definition dpms_of_int :: "int \<Rightarrow> isz_dpms_state option" where
  "dpms_of_int v = (if v = 0 then Some ISZ_DPMS_ON else if v = 1 then Some ISZ_DPMS_STANDBY
     else if v = 2 then Some ISZ_DPMS_SUSPEND else if v = 3 then Some ISZ_DPMS_OFF else None)"

section \<open>Objects\<close>

record isz_mode =
  md_width :: u32
  md_height :: u32
  md_refresh_mhz :: u32
  md_preferred :: bool

record plane_slot =
  ps_id :: int
  ps_type :: isz_plane_type
  ps_formats :: "u32 list"
  ps_supports_scaling :: bool
  ps_supports_transform :: bool
  ps_zpos_min :: int
  ps_zpos_max :: int

record color_lut =
  lut_r :: "u16 list"
  lut_g :: "u16 list"
  lut_b :: "u16 list"
  lut_size :: nat
  lut_set :: bool

text \<open>\<^verbatim>\<open>struct isz_output\<close>. A mode pointer is the index of the mode in \<^verbatim>\<open>modes\<close>; \<open>o_mode_ptrs\<close> is the
  cached pointer array, \<open>None\<close> for \<^verbatim>\<open>NULL\<close>. The floats of the colour matrix are kept as their bit patterns.\<close>

record isz_output =
  o_id :: u32
  o_name :: "char list"
  o_headless_id :: u32
  o_is_headless :: bool
  o_vrr_enabled :: bool
  o_gpu_node_path :: "char list"
  o_modes :: "isz_mode list"
  o_mode_ptrs :: "nat list option"
  o_current_mode :: "nat option"
  o_edid :: "u8 list option"
  o_dpms :: isz_dpms_state
  o_enabled :: bool
  o_disconnected :: bool
  o_slots :: "plane_slot list option"
  o_gamma :: color_lut
  o_degamma :: color_lut
  o_ctm :: "u32 list"
  o_ctm_set :: bool
  o_hdr :: "u8 list"
  o_hdr_set :: bool
  o_idle_inhibit_count :: int

record isz_rect =
  rc_x1 :: int
  rc_y1 :: int
  rc_x2 :: int
  rc_y2 :: int

record isz_surface =
  sf_client_id :: u32
  sf_owning_conn :: "nat option"
  sf_object_id :: u32
  sf_kind :: isz_surface_kind
  sf_current :: "nat option"
  sf_pending_release :: "nat option"
  sf_damage :: "isz_rect list"
  sf_damage_cap :: nat
  sf_x :: int
  sf_y :: int
  sf_width :: int
  sf_height :: int
  sf_plane_type :: isz_plane_type
  sf_plane_type_set :: bool
  sf_plane_slot :: int
  sf_plane_slot_set :: bool
  sf_zpos :: int
  sf_transform :: isz_transform
  sf_output :: "nat option"
  sf_parent :: "nat option"
  sf_popup_x :: int
  sf_popup_y :: int
  sf_subsurface_flags :: u32
  sf_layer :: isz_layer
  sf_serial :: u64
  sf_idle_inhibit :: bool
  sf_scale_numerator :: u32
  sf_scale_denominator :: u32
  sf_role :: isz_surface_role
  sf_role_handle :: u64

record isz_backend =
  be_state :: isz_backend_st
  be_last_error :: isz_error

text \<open>Entries of the module-static tables.\<close>

record reservation =
  rv_out :: nat
  rv_slot_id :: int
  rv_holder :: "nat option"

record capture =
  cp_out :: nat
  cp_dmabuf_fd :: fd
  cp_desc :: buffer_desc
  cp_active :: bool
  cp_owning_conn :: "nat option"

record consent_entry =
  cs_output :: nat
  cs_kind :: isz_consent_kind
  cs_expires_ns :: u64
  cs_used :: bool

record isz_seat =
  st_name :: "char list"
  st_is_default :: bool
  st_keyboard_focus :: "nat option"
  st_cursor_surface :: "nat option"
  st_cursor_hotspot_x :: u32
  st_cursor_hotspot_y :: u32
  st_cursor_visible :: bool
  st_selection_owner :: "nat option list"
  st_selection_timestamp :: "u64 list"
  st_text_inputs :: "nat list"
  st_input_method :: "nat option"

record isz_text_input =
  ti_seat :: nat
  ti_enabled :: bool
  ti_surrounding_text :: "u8 list option"
  ti_surrounding_cursor :: u32
  ti_surrounding_anchor :: u32
  ti_content_hint :: u32
  ti_content_purpose :: u32
  ti_cursor_rect_x :: int
  ti_cursor_rect_y :: int
  ti_cursor_rect_w :: int
  ti_cursor_rect_h :: int
  ti_owning_conn :: "nat option"
  ti_object_id :: u32

record clipboard_slot =
  cb_fd :: fd
  cb_mime :: "u8 list"
  cb_mime_len :: nat

record isz_client =
  cl_conn :: "nat option"
  cl_peer_pid :: int
  cl_buffer_cache :: buffer_cache

datatype event =
    ISZ_EVENT_OUTPUT_ADD | ISZ_EVENT_OUTPUT_REMOVE
  | ISZ_EVENT_CLIENT_CONNECT | ISZ_EVENT_CLIENT_DISCONNECT
  | ISZ_EVENT_KEYBOARD_FOCUS_CHANGED nat "nat option"
  | ISZ_EVENT_IDLE_INHIBIT_ACTIVE nat | ISZ_EVENT_IDLE_INHIBIT_INACTIVE nat

record world = bstate +
  w_state :: isz_server_st
  w_backend :: isz_backend
  w_outputs :: "nat \<Rightarrow> isz_output option"
  w_output_list :: "nat list"
  w_next_output :: nat
  w_next_output_id :: u32
  w_output_list_count :: nat
  w_surfaces :: "nat \<Rightarrow> isz_surface option"
  w_surface_list :: "nat list"
  w_next_surface :: nat
  w_children :: "nat \<Rightarrow> nat list"
  w_next_surface_serial :: u64
  w_conns :: "nat \<Rightarrow> conn option"
  w_next_conn :: nat
  w_clients :: "nat \<Rightarrow> isz_client option"
  w_client_list :: "nat list"
  w_next_client :: nat
  w_resv :: "reservation list"
  w_captures :: "capture list"
  w_consents :: "consent_entry list"
  w_input_state :: bool
  w_seats :: "nat \<Rightarrow> isz_seat option"
  w_seat_list :: "nat list"
  w_next_seat :: nat
  w_default_seat :: "nat option"
  w_clipboard :: clipboard_slot
  w_selection_fd :: "fd list"
  w_events :: "event list"
  w_text_inputs :: "nat \<Rightarrow> isz_text_input option"
  w_next_text_input :: nat
  w_input_methods :: "nat \<Rightarrow> nat option"   \<comment> \<open>the input-method stubs, each with its seat\<close>
  w_next_input_method :: nat
  w_listen_fd :: fd
  w_allow_binaries :: "(nat \<times> nat) list"
  w_allow_cgroups :: "char list list"

text \<open>The state of a server that has just started: one headless backend, no outputs, surfaces or clients.\<close>

definition color_lut_zero :: color_lut where
  "color_lut_zero = \<lparr>lut_r = [], lut_g = [], lut_b = [], lut_size = 0, lut_set = False\<rparr>"

definition output_zero :: isz_output where
  "output_zero = \<lparr>o_id = 0, o_name = [], o_headless_id = 0, o_is_headless = False, o_vrr_enabled = False,
     o_gpu_node_path = [], o_modes = [], o_mode_ptrs = None, o_current_mode = None, o_edid = None,
     o_dpms = ISZ_DPMS_ON, o_enabled = False, o_disconnected = False, o_slots = None,
     o_gamma = color_lut_zero, o_degamma = color_lut_zero, o_ctm = replicate 9 0, o_ctm_set = False,
     o_hdr = [], o_hdr_set = False, o_idle_inhibit_count = 0\<rparr>"

definition world_init :: world where
  "world_init = bstate.extend bstate_init
     \<lparr>w_state = ISZ_SERVER_RUNNING, w_backend = \<lparr>be_state = ISZ_BACKEND_READY, be_last_error = ISZ_OK\<rparr>,
      w_outputs = (\<lambda>_. None), w_output_list = [], w_next_output = 1, w_next_output_id = 1,
      w_output_list_count = 0,
      w_surfaces = (\<lambda>_. None), w_surface_list = [], w_next_surface = 1, w_children = (\<lambda>_. []),
      w_next_surface_serial = 0,
      w_conns = (\<lambda>_. None), w_next_conn = 1,
      w_clients = (\<lambda>_. None), w_client_list = [], w_next_client = 1,
      w_resv = [], w_captures = [],
      w_consents = replicate 32 \<lparr>cs_output = 0, cs_kind = ISZ_CONSENT_SCREEN_CAPTURE, cs_expires_ns = 0,
                                  cs_used = False\<rparr>,
      w_input_state = False, w_seats = (\<lambda>_. None), w_seat_list = [], w_next_seat = 1, w_default_seat = None,
      w_clipboard = \<lparr>cb_fd = -1, cb_mime = replicate 64 0, cb_mime_len = 0\<rparr>, w_selection_fd = [-1, -1], w_events = [],
      w_text_inputs = (\<lambda>_. None), w_next_text_input = 1, w_input_methods = (\<lambda>_. None), w_next_input_method = 1, w_listen_fd = -1, w_allow_binaries = [], w_allow_cgroups = []\<rparr>"

section \<open>Access\<close>

definition upd_surface :: "world \<Rightarrow> nat \<Rightarrow> isz_surface \<Rightarrow> world" where
  "upd_surface w r s = w\<lparr>w_surfaces := (w_surfaces w)(r \<mapsto> s)\<rparr>"

definition upd_output :: "world \<Rightarrow> nat \<Rightarrow> isz_output \<Rightarrow> world" where
  "upd_output w r o' = w\<lparr>w_outputs := (w_outputs w)(r \<mapsto> o')\<rparr>"

definition upd_conn :: "world \<Rightarrow> nat \<Rightarrow> conn \<Rightarrow> world" where
  "upd_conn w r c = w\<lparr>w_conns := (w_conns w)(r \<mapsto> c)\<rparr>"

definition upd_seat :: "world \<Rightarrow> nat \<Rightarrow> isz_seat \<Rightarrow> world" where
  "upd_seat w r s = w\<lparr>w_seats := (w_seats w)(r \<mapsto> s)\<rparr>"

text \<open>\<^verbatim>\<open>isz_server_emit_event\<close>, as far as the library itself is concerned.\<close>

definition isz_server_emit_event :: "world \<Rightarrow> event \<Rightarrow> world" where
  "isz_server_emit_event w ev =
     (if w_state w = ISZ_SERVER_DESTROYING then w else w\<lparr>w_events := w_events w @ [ev]\<rparr>)"

text \<open>\<^verbatim>\<open>isz_conn_send\<close> through a connection pointer.\<close>

definition conn_send_ref ::
    "world \<Rightarrow> nat \<Rightarrow> u32 \<Rightarrow> u8 list option \<Rightarrow> nat \<Rightarrow> fd list option \<Rightarrow> nat \<Rightarrow> (world \<times> isz_error) option" where
  "conn_send_ref w cr msg_id payload payload_len fds n_fds = do {
     c \<leftarrow> w_conns w cr;
     (w, c, r) \<leftarrow> isz_conn_send w c msg_id payload payload_len fds n_fds;
     Some (upd_conn w cr c, r)
   }"

section \<open>Frames\<close>

text \<open>Every field of the server state beyond the kernel record is a function of \<open>kern.more\<close>, so an
  operation of the lower layers that keeps it keeps them all.\<close>

lemma kern_more_world:
  fixes w w' :: world
  assumes "kern.more w' = kern.more w"
  shows "bs_bufs w' = bs_bufs w" "bs_next_buf w' = bs_next_buf w" "bs_pending w' = bs_pending w"
    "w_state w' = w_state w" "w_backend w' = w_backend w" "w_outputs w' = w_outputs w"
    "w_output_list w' = w_output_list w" "w_next_output w' = w_next_output w"
    "w_next_output_id w' = w_next_output_id w" "w_output_list_count w' = w_output_list_count w"
    "w_surfaces w' = w_surfaces w" "w_surface_list w' = w_surface_list w"
    "w_next_surface w' = w_next_surface w" "w_children w' = w_children w"
    "w_next_surface_serial w' = w_next_surface_serial w" "w_conns w' = w_conns w"
    "w_next_conn w' = w_next_conn w" "w_clients w' = w_clients w" "w_client_list w' = w_client_list w"
    "w_next_client w' = w_next_client w" "w_resv w' = w_resv w" "w_captures w' = w_captures w"
    "w_consents w' = w_consents w" "w_input_state w' = w_input_state w" "w_seats w' = w_seats w"
    "w_seat_list w' = w_seat_list w" "w_next_seat w' = w_next_seat w"
    "w_default_seat w' = w_default_seat w" "w_clipboard w' = w_clipboard w"
    "w_selection_fd w' = w_selection_fd w" "w_events w' = w_events w"
    "w_text_inputs w' = w_text_inputs w" "w_next_text_input w' = w_next_text_input w" "w_listen_fd w' = w_listen_fd w"
    "w_input_methods w' = w_input_methods w" "w_next_input_method w' = w_next_input_method w"
    "w_allow_binaries w' = w_allow_binaries w" "w_allow_cgroups w' = w_allow_cgroups w"
  using assms by (cases w; cases w'; simp)+

lemma kern_more_alloc: "kern.more (fst (k_alloc k)) = kern.more k"
  by (simp add: k_alloc_def split: list.splits)

end
