(* ===== verification/Isz_Senders.thy ===== *)
theory Isz_Senders
  imports Isz_World
begin

text \<open>
  The server-to-client half of \<^verbatim>\<open>src/isz_client_dispatch.c\<close>: the reply builders and the event
  senders of \<^verbatim>\<open>isz_wire_senders.h\<close>. Each fills a payload buffer of fixed size and hands it to
  \<^verbatim>\<open>isz_conn_send\<close>; the closed forms show that none of them writes outside its buffer and which
  frame each puts on the wire.
\<close>

section \<open>Replies\<close>

definition isz_reply_error :: "world \<Rightarrow> nat \<Rightarrow> u32 \<Rightarrow> isz_error \<Rightarrow> world option" where
  "isz_reply_error w conn orig_msg_id err_code = do {
     (payload, off) \<leftarrow> isz_proto_write_u32 (replicate 8 0) 0 orig_msg_id;
     (payload, off) \<leftarrow> isz_proto_write_i32 payload off (isz_error_code err_code);
     (w, rc) \<leftarrow> conn_send_ref w conn ISZ_MSG_ERROR (Some payload) off None 0;
     Some w
   }"

definition isz_reply_surface_create :: "world \<Rightarrow> nat \<Rightarrow> u32 \<Rightarrow> world option" where
  "isz_reply_surface_create w conn surface_id = do {
     (payload, off) \<leftarrow> isz_proto_write_u32 (replicate 4 0) 0 surface_id;
     (w, rc) \<leftarrow> conn_send_ref w conn ISZ_MSG_SURFACE_CREATE (Some payload) off None 0;
     Some w
   }"

definition isz_reply_attach_buffer :: "world \<Rightarrow> nat \<Rightarrow> u32 \<Rightarrow> u32 \<Rightarrow> world option" where
  "isz_reply_attach_buffer w conn surface_id buffer_id = do {
     (payload, off) \<leftarrow> isz_proto_write_u32 (replicate 8 0) 0 surface_id;
     (payload, off) \<leftarrow> isz_proto_write_u32 payload off buffer_id;
     (w, rc) \<leftarrow> conn_send_ref w conn ISZ_MSG_SURFACE_ATTACH_BUFFER (Some payload) off None 0;
     Some w
   }"

definition isz_reply_subsurface :: "world \<Rightarrow> nat \<Rightarrow> u32 \<Rightarrow> u32 \<Rightarrow> world option" where
  "isz_reply_subsurface w conn parent_id child_id = do {
     (payload, off) \<leftarrow> isz_proto_write_u32 (replicate 8 0) 0 parent_id;
     (payload, off) \<leftarrow> isz_proto_write_u32 payload off child_id;
     (w, rc) \<leftarrow> conn_send_ref w conn ISZ_MSG_SURFACE_CREATE_SUBSURFACE (Some payload) off None 0;
     Some w
   }"

definition isz_reply_popup :: "world \<Rightarrow> nat \<Rightarrow> u32 \<Rightarrow> u32 \<Rightarrow> world option" where
  "isz_reply_popup w conn parent_id popup_id = do {
     (payload, off) \<leftarrow> isz_proto_write_u32 (replicate 8 0) 0 parent_id;
     (payload, off) \<leftarrow> isz_proto_write_u32 payload off popup_id;
     (w, rc) \<leftarrow> conn_send_ref w conn ISZ_MSG_SURFACE_CREATE_POPUP (Some payload) off None 0;
     Some w
   }"

definition isz_reply_layer :: "world \<Rightarrow> nat \<Rightarrow> u32 \<Rightarrow> u32 \<Rightarrow> world option" where
  "isz_reply_layer w conn output_id layer_id = do {
     (payload, off) \<leftarrow> isz_proto_write_u32 (replicate 8 0) 0 output_id;
     (payload, off) \<leftarrow> isz_proto_write_u32 payload off layer_id;
     (w, rc) \<leftarrow> conn_send_ref w conn ISZ_MSG_SURFACE_CREATE_LAYER (Some payload) off None 0;
     Some w
   }"

section \<open>Events\<close>

definition isz_send_presented :: "world \<Rightarrow> nat option \<Rightarrow> u32 \<Rightarrow> u64 \<Rightarrow> world option" where
  "isz_send_presented w conn surface_id vblank_ns = (case conn of
       None \<Rightarrow> Some w
     | Some c \<Rightarrow> do {
         (payload, off) \<leftarrow> isz_proto_write_u32 (replicate 12 0) 0 surface_id;
         (payload, off) \<leftarrow> isz_proto_write_u64 payload off vblank_ns;
         (w, rc) \<leftarrow> conn_send_ref w c ISZ_MSG_PRESENTED (Some payload) off None 0;
         Some w })"

definition isz_send_release :: "world \<Rightarrow> nat option \<Rightarrow> u32 \<Rightarrow> world option" where
  "isz_send_release w conn buffer_id = (case conn of
       None \<Rightarrow> Some w
     | Some c \<Rightarrow> do {
         (payload, off) \<leftarrow> isz_proto_write_u32 (replicate 4 0) 0 buffer_id;
         (w, rc) \<leftarrow> conn_send_ref w c ISZ_MSG_RELEASE (Some payload) off None 0;
         Some w })"

definition isz_send_capture_done :: "world \<Rightarrow> nat option \<Rightarrow> u32 \<Rightarrow> fd \<Rightarrow> world option" where
  "isz_send_capture_done w conn output_id dmabuf_fd = (case conn of
       None \<Rightarrow> Some w
     | Some c \<Rightarrow> do {
         (payload, off) \<leftarrow> isz_proto_write_u32 (replicate 4 0) 0 output_id;
         (w, rc) \<leftarrow> (if dmabuf_fd \<ge> 0
            then conn_send_ref w c ISZ_MSG_CAPTURE_DONE (Some payload) off (Some [dmabuf_fd]) 1
            else conn_send_ref w c ISZ_MSG_CAPTURE_DONE (Some payload) off None 0);
         Some w })"

definition isz_send_surface_preferred_scale :: "world \<Rightarrow> nat option \<Rightarrow> u32 \<Rightarrow> u32 \<Rightarrow> u32 \<Rightarrow> world option" where
  "isz_send_surface_preferred_scale w conn surface_id numerator denominator = (case conn of
       None \<Rightarrow> Some w
     | Some c \<Rightarrow> do {
         (payload, off) \<leftarrow> isz_proto_write_u32 (replicate 12 0) 0 surface_id;
         (payload, off) \<leftarrow> isz_proto_write_u32 payload off numerator;
         (payload, off) \<leftarrow> isz_proto_write_u32 payload off denominator;
         (w, rc) \<leftarrow> conn_send_ref w c ISZ_MSG_SURFACE_PREFERRED_SCALE (Some payload) off None 0;
         Some w })"

text \<open>Text is the bytes before the terminating \<^verbatim>\<open>NUL\<close>; \<open>None\<close> is a \<^verbatim>\<open>NULL\<close> pointer.\<close>

definition isz_send_text_input_preedit ::
    "world \<Rightarrow> nat option \<Rightarrow> u32 \<Rightarrow> u8 list option \<Rightarrow> int \<Rightarrow> int \<Rightarrow> world option" where
  "isz_send_text_input_preedit w conn text_input_id txt cursor_begin cursor_end = (case conn of
       None \<Rightarrow> Some w
     | Some c \<Rightarrow>
         let bytes = (case txt of None \<Rightarrow> [] | Some b \<Rightarrow> b);
             text_len = (if length bytes > ISZ_PROTO_MAX_MESSAGE - ISZ_MSG_HEADER_SIZE - 12
                         then ISZ_PROTO_MAX_MESSAGE - ISZ_MSG_HEADER_SIZE - 12 else length bytes)
         in do {
           (payload, off) \<leftarrow> isz_proto_write_u32 (replicate (ISZ_PROTO_MAX_MESSAGE - ISZ_MSG_HEADER_SIZE) 0) 0 text_input_id;
           (payload, off) \<leftarrow> isz_proto_write_i32 payload off cursor_begin;
           (payload, off) \<leftarrow> isz_proto_write_i32 payload off cursor_end;
           payload \<leftarrow> (if text_len > 0 then memcpy_at payload off bytes text_len else Some payload);
           (w, rc) \<leftarrow> conn_send_ref w c ISZ_MSG_TEXT_INPUT_PREEDIT (Some payload) (off + text_len) None 0;
           Some w })"

definition isz_send_text_input_commit :: "world \<Rightarrow> nat option \<Rightarrow> u32 \<Rightarrow> u8 list option \<Rightarrow> world option" where
  "isz_send_text_input_commit w conn text_input_id txt = (case conn of
       None \<Rightarrow> Some w
     | Some c \<Rightarrow>
         let bytes = (case txt of None \<Rightarrow> [] | Some b \<Rightarrow> b);
             text_len = (if length bytes > ISZ_PROTO_MAX_MESSAGE - ISZ_MSG_HEADER_SIZE - 4
                         then ISZ_PROTO_MAX_MESSAGE - ISZ_MSG_HEADER_SIZE - 4 else length bytes)
         in do {
           (payload, off) \<leftarrow> isz_proto_write_u32 (replicate (ISZ_PROTO_MAX_MESSAGE - ISZ_MSG_HEADER_SIZE) 0) 0 text_input_id;
           payload \<leftarrow> (if text_len > 0 then memcpy_at payload off bytes text_len else Some payload);
           (w, rc) \<leftarrow> conn_send_ref w c ISZ_MSG_TEXT_INPUT_COMMIT (Some payload) (off + text_len) None 0;
           Some w })"

definition isz_send_idle_inhibit_active :: "world \<Rightarrow> nat option \<Rightarrow> u32 \<Rightarrow> world option" where
  "isz_send_idle_inhibit_active w conn output_id = (case conn of
       None \<Rightarrow> Some w
     | Some c \<Rightarrow> do {
         (payload, off) \<leftarrow> isz_proto_write_u32 (replicate 4 0) 0 output_id;
         (w, rc) \<leftarrow> conn_send_ref w c ISZ_MSG_IDLE_INHIBIT_ACTIVE (Some payload) off None 0;
         Some w })"

definition isz_send_idle_inhibit_inactive :: "world \<Rightarrow> nat option \<Rightarrow> u32 \<Rightarrow> world option" where
  "isz_send_idle_inhibit_inactive w conn output_id = (case conn of
       None \<Rightarrow> Some w
     | Some c \<Rightarrow> do {
         (payload, off) \<leftarrow> isz_proto_write_u32 (replicate 4 0) 0 output_id;
         (w, rc) \<leftarrow> conn_send_ref w c ISZ_MSG_IDLE_INHIBIT_INACTIVE (Some payload) off None 0;
         Some w })"

text \<open>The walk of \<^verbatim>\<open>isz_render_send_idle_inhibit\<close> over the surface list; \<open>seen\<close> is the table of at most
  32 connections already notified.\<close>

fun idle_inhibit_loop :: "world \<Rightarrow> nat \<Rightarrow> u32 \<Rightarrow> bool \<Rightarrow> nat list \<Rightarrow> nat list \<Rightarrow> world option" where
  "idle_inhibit_loop w out out_id active [] seen = Some w"
| "idle_inhibit_loop w out out_id active (r # rs) seen = do {
     s \<leftarrow> w_surfaces w r;
     (case sf_owning_conn s of
        None \<Rightarrow> idle_inhibit_loop w out out_id active rs seen
      | Some c \<Rightarrow>
          if sf_output s \<noteq> Some out then idle_inhibit_loop w out out_id active rs seen
          else if c \<in> set seen then idle_inhibit_loop w out out_id active rs seen
          else do {
            w \<leftarrow> (if active then isz_send_idle_inhibit_active w (Some c) out_id
                 else isz_send_idle_inhibit_inactive w (Some c) out_id);
            idle_inhibit_loop w out out_id active rs (if length seen < 32 then seen @ [c] else seen)
          })
   }"

definition isz_render_send_idle_inhibit :: "world \<Rightarrow> nat option \<Rightarrow> bool \<Rightarrow> world option" where
  "isz_render_send_idle_inhibit w out active = (case out of
       None \<Rightarrow> Some w
     | Some r \<Rightarrow> do {
         o' \<leftarrow> w_outputs w r;
         idle_inhibit_loop w r (o_id o') active (w_surface_list w) [] })"

definition isz_render_send_presented :: "world \<Rightarrow> nat \<Rightarrow> u64 \<Rightarrow> world option" where
  "isz_render_send_presented w surf vblank_ns = do {
     s \<leftarrow> w_surfaces w surf;
     (if sf_owning_conn s = None \<or> sf_object_id s = 0 then Some w
      else isz_send_presented w (sf_owning_conn s) (sf_object_id s) vblank_ns)
   }"

section \<open>Closed forms\<close>

text \<open>Sending through a live connection with at most eight descriptors never fails the memory-safety
  check, and changes nothing but the kernel and that connection.\<close>

definition send_frame_ref :: "world \<Rightarrow> nat \<Rightarrow> u32 \<Rightarrow> u8 list \<Rightarrow> fd list \<Rightarrow> (world \<times> isz_error) option" where
  "send_frame_ref w cr m p ds = conn_send_ref w cr m (Some p) (length p) (Some ds) (length ds)"

definition send_event :: "world \<Rightarrow> nat \<Rightarrow> u32 \<Rightarrow> u8 list \<Rightarrow> world option" where
  "send_event w cr m p = map_option fst (send_frame_ref w cr m p [])"

lemma bind_fst: "do { (w', rc) \<leftarrow> x; Some w' } = map_option fst x"
  by (cases x) auto

lemma conn_send_ref_NULL:
  "conn_send_ref w cr m (Some p) (length p) None 0 = send_frame_ref w cr m p []"
  by (simp add: conn_send_ref_def send_frame_ref_def isz_conn_send_NULL)

lemma conn_send_event:
  "n = length p \<Longrightarrow> do { (w', rc) \<leftarrow> conn_send_ref w cr m (Some p) n None 0; Some w' } = send_event w cr m p"
  by (simp add: bind_fst conn_send_ref_NULL send_event_def)

lemmas sender_defs = isz_reply_error_def isz_reply_surface_create_def isz_reply_attach_buffer_def
  isz_reply_subsurface_def isz_reply_popup_def isz_reply_layer_def isz_send_presented_def
  isz_send_release_def isz_send_surface_preferred_scale_def isz_send_idle_inhibit_active_def
  isz_send_idle_inhibit_inactive_def

named_theorems sender_eqs \<open>what each sender puts on the wire\<close>

lemma sender_eqs_all [sender_eqs]:
  "isz_reply_error w c orig e = send_event w c ISZ_MSG_ERROR (le32 orig @ le32 (word_of_int (isz_error_code e)))"
  "isz_reply_surface_create w c i = send_event w c ISZ_MSG_SURFACE_CREATE (le32 i)"
  "isz_reply_attach_buffer w c i j = send_event w c ISZ_MSG_SURFACE_ATTACH_BUFFER (le32 i @ le32 j)"
  "isz_reply_subsurface w c i j = send_event w c ISZ_MSG_SURFACE_CREATE_SUBSURFACE (le32 i @ le32 j)"
  "isz_reply_popup w c i j = send_event w c ISZ_MSG_SURFACE_CREATE_POPUP (le32 i @ le32 j)"
  "isz_reply_layer w c i j = send_event w c ISZ_MSG_SURFACE_CREATE_LAYER (le32 i @ le32 j)"
  "isz_send_presented w (Some c) i t = send_event w c ISZ_MSG_PRESENTED (le32 i @ le64 t)"
  "isz_send_release w (Some c) i = send_event w c ISZ_MSG_RELEASE (le32 i)"
  "isz_send_surface_preferred_scale w (Some c) i n d = send_event w c ISZ_MSG_SURFACE_PREFERRED_SCALE (le32 i @ le32 n @ le32 d)"
  "isz_send_idle_inhibit_active w (Some c) i = send_event w c ISZ_MSG_IDLE_INHIBIT_ACTIVE (le32 i)"
  "isz_send_idle_inhibit_inactive w (Some c) i = send_event w c ISZ_MSG_IDLE_INHIBIT_INACTIVE (le32 i)"
  by (simp_all add: sender_defs wire_simps conn_send_event)

lemma sender_eqs_NULL [sender_eqs]:
  "isz_send_presented w None i t = Some w" "isz_send_release w None i = Some w"
  "isz_send_surface_preferred_scale w None i n d = Some w"
  "isz_send_idle_inhibit_active w None i = Some w" "isz_send_idle_inhibit_inactive w None i = Some w"
  by (simp_all add: sender_defs)

text \<open>Only the first \<open>payload_len\<close> bytes of the payload buffer matter.\<close>

lemma isz_proto_encode_take:
  "n \<le> length p \<Longrightarrow> isz_proto_encode out len m (Some p) n = isz_proto_encode out len m (Some (take n p)) n"
  by (simp add: isz_proto_encode_def memcpy_at_def Let_def cong: if_cong)

lemma conn_send_ref_take:
  assumes "n \<le> length p"
  shows "conn_send_ref w c m (Some p) n f k = conn_send_ref w c m (Some (take n p)) n f k"
  unfolding conn_send_ref_def isz_conn_send_def isz_proto_encode_take [OF assms, symmetric] by (rule refl)

lemma conn_send_event_take:
  assumes "take n p = q" "n = length q" "n \<le> length p"
  shows "do { (w', rc) \<leftarrow> conn_send_ref w cr m (Some p) n None 0; Some w' } = send_event w cr m q"
  using conn_send_event [of n q w cr m] conn_send_ref_take [OF assms(3)] assms(1,2) by simp

lemma text_input_eqs [sender_eqs]:
  "isz_send_text_input_preedit w (Some c) i (Some t) b e =
     send_event w c ISZ_MSG_TEXT_INPUT_PREEDIT
       (le32 i @ le32 (word_of_int b) @ le32 (word_of_int e) @ take 8172 t)"
  "isz_send_text_input_commit w (Some c) i (Some t) =
     send_event w c ISZ_MSG_TEXT_INPUT_COMMIT (le32 i @ take 8180 t)"
proof -
  let ?n = "min (length t) 8172"
  let ?p = "le32 i @ le32 (word_of_int b) @ le32 (word_of_int e) @ take ?n t @ replicate (8172 - ?n) (0 :: u8)"
  have "isz_send_text_input_preedit w (Some c) i (Some t) b e
      = do { (w', rc) \<leftarrow> conn_send_ref w c 53 (Some ?p) (12 + ?n) None 0; Some w' }"
    by (auto simp: isz_send_text_input_preedit_def wire_simps Let_def memcpy_at_def min_def)
  also have "\<dots> = send_event w c 53 (le32 i @ le32 (word_of_int b) @ le32 (word_of_int e) @ take 8172 t)"
    by (rule conn_send_event_take) (simp_all add: min_def)
  finally show "isz_send_text_input_preedit w (Some c) i (Some t) b e =
     send_event w c ISZ_MSG_TEXT_INPUT_PREEDIT (le32 i @ le32 (word_of_int b) @ le32 (word_of_int e) @ take 8172 t)" .
next
  let ?n = "min (length t) 8180"
  let ?p = "le32 i @ take ?n t @ replicate (8180 - ?n) (0 :: u8)"
  have "isz_send_text_input_commit w (Some c) i (Some t)
      = do { (w', rc) \<leftarrow> conn_send_ref w c 54 (Some ?p) (4 + ?n) None 0; Some w' }"
    by (auto simp: isz_send_text_input_commit_def wire_simps Let_def memcpy_at_def min_def)
  also have "\<dots> = send_event w c 54 (le32 i @ take 8180 t)"
    by (rule conn_send_event_take) (simp_all add: min_def)
  finally show "isz_send_text_input_commit w (Some c) i (Some t) =
     send_event w c ISZ_MSG_TEXT_INPUT_COMMIT (le32 i @ take 8180 t)" .
qed

section \<open>What a send changes\<close>

text \<open>Sending touches the kernel and the send queue of connections, nothing else.\<close>

definition conn_io :: "conn \<Rightarrow> conn \<Rightarrow> bool" where
  "conn_io c c' \<longleftrightarrow>
     c' = c\<lparr>c_queue := c_queue c', c_queued_events := c_queued_events c', c_dead := c_dead c'\<rparr>
     \<and> (conn_ok c \<longrightarrow> conn_ok c')"

definition io_frame :: "world \<Rightarrow> world \<Rightarrow> bool" where
  "io_frame w w' \<longleftrightarrow> kern.more (w'\<lparr>w_conns := w_conns w\<rparr>) = kern.more w
     \<and> (\<forall>r. rel_option conn_io (w_conns w r) (w_conns w' r))"

lemma conn_io_refl [simp]: "conn_io c c"
  by (simp add: conn_io_def)

lemma conn_io_trans: "conn_io a b \<Longrightarrow> conn_io b c \<Longrightarrow> conn_io a c"
  by (cases a; cases b; cases c) (auto simp: conn_io_def)

lemma rel_conn_io_trans: "rel_option conn_io a b \<Longrightarrow> rel_option conn_io b c \<Longrightarrow> rel_option conn_io a c"
  by (cases a; cases b; cases c) (auto intro: conn_io_trans)

lemma conn_io_fields:
  assumes "conn_io c c'"
  shows "c_fd c' = c_fd c" "c_recv_state c' = c_recv_state c" "c_version c' = c_version c"
    "c_allowlisted c' = c_allowlisted c" "c_handshake_done c' = c_handshake_done c"
    "c_objects c' = c_objects c" "c_objects_cap c' = c_objects_cap c"
    "c_next_object_id c' = c_next_object_id c"
  using assms unfolding conn_io_def by (metis conn_queue_update_fields)+

lemma io_frame_refl [simp]: "io_frame w w"
  by (simp add: io_frame_def option.rel_refl)

lemma io_frame_fields:
  assumes "io_frame w w'"
  shows "bs_bufs w' = bs_bufs w" "bs_next_buf w' = bs_next_buf w" "bs_pending w' = bs_pending w"
    "w_state w' = w_state w" "w_backend w' = w_backend w" "w_outputs w' = w_outputs w"
    "w_output_list w' = w_output_list w" "w_next_output w' = w_next_output w"
    "w_next_output_id w' = w_next_output_id w" "w_output_list_count w' = w_output_list_count w"
    "w_surfaces w' = w_surfaces w" "w_surface_list w' = w_surface_list w"
    "w_next_surface w' = w_next_surface w" "w_children w' = w_children w"
    "w_next_surface_serial w' = w_next_surface_serial w"
    "w_next_conn w' = w_next_conn w" "w_clients w' = w_clients w" "w_client_list w' = w_client_list w"
    "w_next_client w' = w_next_client w" "w_resv w' = w_resv w" "w_captures w' = w_captures w"
    "w_consents w' = w_consents w" "w_input_state w' = w_input_state w" "w_seats w' = w_seats w"
    "w_seat_list w' = w_seat_list w" "w_next_seat w' = w_next_seat w"
    "w_default_seat w' = w_default_seat w" "w_clipboard w' = w_clipboard w"
    "w_selection_fd w' = w_selection_fd w" "w_events w' = w_events w"
    "w_text_inputs w' = w_text_inputs w" "w_next_text_input w' = w_next_text_input w" "w_listen_fd w' = w_listen_fd w"
    "w_input_methods w' = w_input_methods w" "w_next_input_method w' = w_next_input_method w"
    "w_allow_binaries w' = w_allow_binaries w" "w_allow_cgroups w' = w_allow_cgroups w"
  using kern_more_world [OF conjunct1 [OF assms [unfolded io_frame_def]]] by simp_all

lemma io_frame_conns: "io_frame w w' \<Longrightarrow> rel_option conn_io (w_conns w r) (w_conns w' r)"
  by (simp add: io_frame_def)

lemma io_frame_conn_Some:
  "io_frame w w' \<Longrightarrow> w_conns w r = Some c \<Longrightarrow> \<exists>c'. w_conns w' r = Some c' \<and> conn_io c c'"
  by (drule io_frame_conns [of _ _ r]) (auto simp: option_rel_Some1)

lemma io_frame_conn_back:
  "io_frame w w' \<Longrightarrow> w_conns w' r = Some c' \<Longrightarrow> \<exists>c. w_conns w r = Some c \<and> conn_io c c'"
  by (drule io_frame_conns [of _ _ r]) (auto simp: option_rel_Some2)

lemma io_frame_conn_live: "io_frame w w' \<Longrightarrow> (w_conns w' r = None) = (w_conns w r = None)"
  by (drule io_frame_conns [of _ _ r]) (auto elim: option.rel_cases)

lemma io_frame_trans [trans]:
  assumes "io_frame a b" "io_frame b c"
  shows "io_frame a c"
proof -
  have "kern.more (c\<lparr>w_conns := w_conns a\<rparr>) = kern.more (b\<lparr>w_conns := w_conns a\<rparr>)"
    using assms(2) unfolding io_frame_def by (cases a; cases b; cases c) simp
  moreover have "rel_option conn_io (w_conns a r) (w_conns c r)" for r
    using io_frame_conns [OF assms(1), of r] io_frame_conns [OF assms(2), of r]
    by (rule rel_conn_io_trans)
  ultimately show ?thesis using assms(1) by (simp add: io_frame_def)
qed

subsection \<open>The send path keeps the rest of the state\<close>

lemma k_send_more: "kern.more (fst (k_send k d b f)) = kern.more k"
  by (simp add: k_send_def Let_def split: list.splits io_result.splits)

lemma isz_proto_send_frame_more: "kern.more (fst (isz_proto_send_frame k d b n fds m)) = kern.more k"
  using k_send_more [of k d "take n b" "if m = 0 then [] else case fds of None \<Rightarrow> [] | Some f \<Rightarrow> take m f"]
  by (auto simp: isz_proto_send_frame_def Let_def split: prod.splits io_result.splits if_splits)

lemma k_dup_more: "kern.more (fst (k_dup k d)) = kern.more k"
  by (simp add: k_dup_def split: list.splits option.splits)

lemma k_close_more [simp]: "kern.more (k_close k d) = kern.more k" "kern.more (k_close_all k ds) = kern.more k"
  by (simp_all add: k_close_def k_close_all_def)

lemma msg_node_dup_loop_more: "msg_node_dup_loop k ds got = Some (k', r) \<Longrightarrow> kern.more k' = kern.more k"
proof (induction k ds got rule: msg_node_dup_loop.induct)
  case (2 k d ds got)
  have "kern.more (fst (k_dup k d)) = kern.more k" by (rule k_dup_more)
  with 2 show ?case by (auto split: prod.splits option.splits if_splits)
qed simp

lemma isz_msg_node_alloc_more: "isz_msg_node_alloc k f n fds m = Some (k', r) \<Longrightarrow> kern.more k' = kern.more k"
  using kern_more_alloc [of k]
  by (auto simp: isz_msg_node_alloc_def bind_eq_Some_conv split: prod.splits bool.splits if_splits
      dest!: msg_node_dup_loop_more)

lemma isz_conn_send_more:
  assumes "isz_conn_send k c m p n fds j = Some (k', c', r)"
  shows "kern.more k' = kern.more k"
proof -
  have enq: "kern.more k2 = kern.more k1" if "conn_enqueue k1 c b l fds j = Some (k2, c2, r2)" for k1 b l k2 c2 r2
    using that by (auto simp: conn_enqueue_def bind_eq_Some_conv split: if_splits option.splits
        dest!: isz_msg_node_alloc_more)
  have snd: "kern.more k1 = kern.more k" if "isz_proto_send_frame k (c_fd c) b l fds j = (k1, x)" for b l k1 x
    using isz_proto_send_frame_more [of k "c_fd c" b l fds j] that by simp
  show ?thesis
  proof (cases "c_dead c")
    case True
    with assms show ?thesis by (simp add: isz_conn_send_def)
  next
    case False
    with assms obtain enc where
      "isz_proto_encode (replicate ISZ_PROTO_MAX_MESSAGE 0) ISZ_PROTO_MAX_MESSAGE m p n = Some enc"
      and step: "(case enc of Inl e \<Rightarrow> Some (k, c, ISZ_ERR_INVALID_ARG)
         | Inr (buf, len) \<Rightarrow>
             if c_queue c \<noteq> [] then conn_enqueue k c buf len fds j
             else (case isz_proto_send_frame k (c_fd c) buf len fds j of
                     (k, SendDone n) \<Rightarrow> Some (k, c, ISZ_OK)
                   | (k, SendAgain) \<Rightarrow> conn_enqueue k c buf len fds j
                   | (k, SendFail e) \<Rightarrow> Some (k, c\<lparr>c_dead := True\<rparr>, ISZ_ERR_CLIENT_DISCONNECTED)))
         = Some (k', c', r)"
      by (simp only: isz_conn_send_def if_False bind_eq_Some_conv) blast
    show ?thesis
    proof (cases enc)
      case (Inl e)
      with step show ?thesis by simp
    next
      case (Inr bl)
      obtain b l where bl: "bl = (b, l)" by fastforce
      obtain k1 x where fr: "isz_proto_send_frame k (c_fd c) b l fds j = (k1, x)" by fastforce
      from step Inr bl fr snd [OF fr] show ?thesis
        by (cases "c_queue c = []"; cases x) (auto dest: enq)
    qed
  qed
qed

lemma send_frame_ref_frame:
  assumes "w_conns w cr = Some c" "length ds \<le> ISZ_PROTO_MAX_FDS"
  shows "\<exists>w' r. send_frame_ref w cr m p ds = Some (w', r) \<and> io_frame w w'"
proof -
  from isz_conn_send_spec [OF assms(2), of w c m p] obtain k' c' r where
    s: "isz_conn_send w c m (Some p) (length p) (Some ds) (length ds) = Some (k', c', r)"
    and c': "conn_ok c \<longrightarrow> conn_ok c'"
       "c' = c\<lparr>c_queue := c_queue c', c_queued_events := c_queued_events c', c_dead := c_dead c'\<rparr>"
    by metis
  have more: "kern.more k' = kern.more w" by (rule isz_conn_send_more [OF s])
  note conns = kern_more_world(16) [OF more]
  have "kern.more (upd_conn k' cr c'\<lparr>w_conns := w_conns w\<rparr>) = kern.more w"
    using more by (cases k'; cases w) (simp add: upd_conn_def)
  moreover have "rel_option conn_io (w_conns w x) (w_conns (upd_conn k' cr c') x)" for x
    using assms(1) c' by (auto simp: upd_conn_def conns conn_io_def option.rel_refl)
  ultimately have "io_frame w (upd_conn k' cr c')" by (simp add: io_frame_def)
  then show ?thesis using assms(1) s by (auto simp: send_frame_ref_def conn_send_ref_def)
qed

lemma send_event_frame:
  assumes "w_conns w cr = Some c"
  shows "\<exists>w'. send_event w cr m p = Some w' \<and> io_frame w w'"
  using send_frame_ref_frame [OF assms, of "[]" m p] by (auto simp: send_event_def)

lemma idle_inhibit_loop_frame:
  assumes "\<forall>r \<in> set rs. \<exists>s. w_surfaces w r = Some s \<and> (\<forall>c. sf_owning_conn s = Some c \<longrightarrow> w_conns w c \<noteq> None)"
  shows "\<exists>w'. idle_inhibit_loop w out i active rs seen = Some w' \<and> io_frame w w'"
  using assms
proof (induction rs arbitrary: w seen)
  case (Cons r rs)
  from Cons.prems obtain s where s: "w_surfaces w r = Some s"
    and live: "\<forall>c. sf_owning_conn s = Some c \<longrightarrow> w_conns w c \<noteq> None" by auto
  have skip: "\<exists>w'. idle_inhibit_loop w out i active rs seen = Some w' \<and> io_frame w w'"
    using Cons.IH Cons.prems by simp
  show ?case
  proof (cases "\<exists>c. sf_owning_conn s = Some c \<and> sf_output s = Some out \<and> c \<notin> set seen")
    case False
    with skip s show ?thesis by (auto split: option.splits)
  next
    case True
    then obtain c where c: "sf_owning_conn s = Some c" "sf_output s = Some out" "c \<notin> set seen" by blast
    from live c(1) obtain cc where cc: "w_conns w c = Some cc" by auto
    have "\<exists>w1. (if active then isz_send_idle_inhibit_active w (Some c) i
          else isz_send_idle_inhibit_inactive w (Some c) i) = Some w1 \<and> io_frame w w1"
      using send_event_frame [OF cc] by (simp add: sender_eqs)
    then obtain w1 where w1: "(if active then isz_send_idle_inhibit_active w (Some c) i
          else isz_send_idle_inhibit_inactive w (Some c) i) = Some w1" "io_frame w w1" by blast
    let ?seen = "if length seen < 32 then seen @ [c] else seen"
    have "\<forall>r \<in> set rs. \<exists>s. w_surfaces w1 r = Some s \<and> (\<forall>c. sf_owning_conn s = Some c \<longrightarrow> w_conns w1 c \<noteq> None)"
      using Cons.prems by (simp add: io_frame_fields [OF w1(2)] io_frame_conn_live [OF w1(2)])
    from Cons.IH [OF this, of ?seen] obtain w' where
      w': "idle_inhibit_loop w1 out i active rs ?seen = Some w'" "io_frame w1 w'" by blast
    with s c w1 show ?thesis using io_frame_trans [OF w1(2) w'(2)] by simp
  qed
qed simp

end
