(* ===== verification/Isz_Plane_Slots.thy ===== *)
theory Isz_Plane_Slots
  imports Isz_World
begin

text \<open>
  Plane-slot reservations, \<^verbatim>\<open>src/render/isz_plane_slots.c\<close>. The module-static table \<^verbatim>\<open>s_resv\<close> with its
  count is the list of its used entries. The locale \<open>slot_registry\<close> is what the surface and commit
  layers rely on; the table implements it as a map from (output, slot) to the holder.
\<close>

section \<open>Reservation table\<close>

abbreviation (input) "ISZ_RESERVATION_MAX \<equiv> (64 :: nat)"

fun resv_find_from :: "reservation list \<Rightarrow> nat \<Rightarrow> int \<Rightarrow> nat \<Rightarrow> nat option" where
  "resv_find_from [] out slot_id i = None"
| "resv_find_from (e # es) out slot_id i =
     (if rv_out e = out \<and> rv_slot_id e = slot_id then Some i else resv_find_from es out slot_id (i + 1))"

definition resv_find :: "reservation list \<Rightarrow> nat \<Rightarrow> int \<Rightarrow> nat option" where
  "resv_find rs out slot_id = resv_find_from rs out slot_id 0"

definition resv_held_by :: "reservation list \<Rightarrow> nat \<Rightarrow> int \<Rightarrow> nat \<Rightarrow> bool" where
  "resv_held_by rs out slot_id surf =
     (case resv_find rs out slot_id of None \<Rightarrow> False | Some idx \<Rightarrow> rv_holder (rs ! idx) = Some surf)"

definition isz_plane_slot_held_by :: "world \<Rightarrow> nat \<Rightarrow> int \<Rightarrow> nat \<Rightarrow> bool" where
  "isz_plane_slot_held_by w out slot_id surf = resv_held_by (w_resv w) out slot_id surf"

definition resv_set :: "reservation list \<Rightarrow> nat \<Rightarrow> int \<Rightarrow> nat \<Rightarrow> reservation list \<times> isz_error" where
  "resv_set rs out slot_id surf =
     (case resv_find rs out slot_id of
        Some idx \<Rightarrow> (rs[idx := (rs ! idx)\<lparr>rv_holder := Some surf\<rparr>], ISZ_OK)
      | None \<Rightarrow>
          if length rs \<ge> ISZ_RESERVATION_MAX then (rs, ISZ_ERR_RESOURCE_LIMIT)
          else (rs @ [\<lparr>rv_out = out, rv_slot_id = slot_id, rv_holder = Some surf\<rparr>], ISZ_OK))"

definition resv_clear :: "reservation list \<Rightarrow> nat \<Rightarrow> int \<Rightarrow> nat \<Rightarrow> reservation list" where
  "resv_clear rs out slot_id surf =
     (case resv_find rs out slot_id of
        None \<Rightarrow> rs
      | Some idx \<Rightarrow>
          if rv_holder (rs ! idx) \<noteq> Some surf then rs
          else let count = length rs - 1
               in take count (if idx \<noteq> count then rs[idx := rs ! count] else rs))"

section \<open>Slots of an output\<close>

text \<open>The outer \<open>option\<close> is a dangling output pointer, the inner one the result \<^verbatim>\<open>NULL\<close>.\<close>

definition isz_plane_slot_get :: "world \<Rightarrow> nat option \<Rightarrow> int \<Rightarrow> plane_slot option option" where
  "isz_plane_slot_get w out slot_id = (case out of
       None \<Rightarrow> Some None
     | Some r \<Rightarrow> do {
         o' \<leftarrow> w_outputs w r;
         Some (case o_slots o' of None \<Rightarrow> None | Some slots \<Rightarrow> find (\<lambda>s. ps_id s = slot_id) slots) })"

text \<open>The result is the error, or the slot id.\<close>

definition isz_plane_slot_assign :: "world \<Rightarrow> nat option \<Rightarrow> nat option \<Rightarrow> (world \<times> (isz_error + int)) option" where
  "isz_plane_slot_assign w out surf = (case (out, surf) of
       (Some o', Some r) \<Rightarrow> do {
         s \<leftarrow> w_surfaces w r;
         (if \<not> sf_plane_slot_set s then Some (w, Inl ISZ_ERR_SURFACE_NO_PLANE_SLOT)
          else do {
            slot \<leftarrow> isz_plane_slot_get w (Some o') (sf_plane_slot s);
            (case slot of
               None \<Rightarrow> Some (w, Inl ISZ_ERR_PLANE_UNAVAIL)
             | Some sl \<Rightarrow>
                 if resv_held_by (w_resv w) o' (sf_plane_slot s) r then Some (w, Inr (ps_id sl))
                 else if (case resv_find (w_resv w) o' (sf_plane_slot s) of
                            None \<Rightarrow> False | Some idx \<Rightarrow> rv_holder (w_resv w ! idx) \<noteq> None)
                 then Some (w, Inl ISZ_ERR_PLANE_UNAVAIL)
                 else if ps_type sl \<noteq> sf_plane_type s then Some (w, Inl ISZ_ERR_PLANE_UNAVAIL)
                 else do {
                   fmt_ok \<leftarrow> (case sf_current s of
                       None \<Rightarrow> Some True
                     | Some b \<Rightarrow> do { buf \<leftarrow> bs_bufs w b; Some (b_format buf \<in> set (ps_formats sl)) });
                   (if \<not> fmt_ok then Some (w, Inl ISZ_ERR_PLANE_UNAVAIL)
                    else case resv_set (w_resv w) o' (sf_plane_slot s) r of
                           (rs, rc) \<Rightarrow>
                             if isz_error_code rc < 0 then Some (w\<lparr>w_resv := rs\<rparr>, Inl rc)
                             else Some (w\<lparr>w_resv := rs\<rparr>, Inr (ps_id sl)))
                 })
          })
       }
     | _ \<Rightarrow> Some (w, Inl ISZ_ERR_INVALID_ARG))"

definition isz_plane_slot_release :: "world \<Rightarrow> nat option \<Rightarrow> int \<Rightarrow> nat \<Rightarrow> world" where
  "isz_plane_slot_release w out slot_id surf = (case out of
       None \<Rightarrow> w
     | Some o' \<Rightarrow> w\<lparr>w_resv := resv_clear (w_resv w) o' slot_id surf\<rparr>)"

section \<open>The registry interface\<close>

locale slot_registry =
  fixes holder :: "'s \<Rightarrow> 'k \<Rightarrow> 'h option" and claim :: "'s \<Rightarrow> 'k \<Rightarrow> 'h \<Rightarrow> 's option"
    and drop_claim :: "'s \<Rightarrow> 'k \<Rightarrow> 'h \<Rightarrow> 's" and ok :: "'s \<Rightarrow> bool"
  assumes claim_holder: "ok s \<Longrightarrow> claim s k h = Some s' \<Longrightarrow> holder s' = (holder s)(k \<mapsto> h)"
    and claim_ok: "ok s \<Longrightarrow> claim s k h = Some s' \<Longrightarrow> ok s'"
    and drop_holder: "ok s \<Longrightarrow>
        holder (drop_claim s k h) = (if holder s k = Some h then (holder s)(k := None) else holder s)"
    and drop_ok: "ok s \<Longrightarrow> ok (drop_claim s k h)"
begin

text \<open>Undoing a list of claims restores the holders when the claimed keys were free and distinct:
  what a rollback needs.\<close>

lemma rollback:
  assumes "ok s" "distinct ks" "list_all (\<lambda>k. holder s k = Some (h k)) ks"
  shows "ok (fold (\<lambda>k s. drop_claim s k (h k)) ks s)
       \<and> holder (fold (\<lambda>k s. drop_claim s k (h k)) ks s) = (\<lambda>k. if k \<in> set ks then None else holder s k)"
  using assms
proof (induction ks arbitrary: s)
  case Nil
  then show ?case by simp
next
  case (Cons k ks)
  let ?s = "drop_claim s k (h k)"
  have d: "ok ?s" "holder ?s = (holder s)(k := None)"
    using Cons.prems drop_ok drop_holder by simp_all
  moreover have "list_all (\<lambda>k. holder ?s k = Some (h k)) ks"
    using Cons.prems d(2) by (auto simp: list_all_iff)
  ultimately show ?case using Cons.IH [of ?s] Cons.prems by auto
qed

end

definition resv_ok :: "reservation list \<Rightarrow> bool" where
  "resv_ok rs \<longleftrightarrow> distinct (map (\<lambda>e. (rv_out e, rv_slot_id e)) rs) \<and> length rs \<le> ISZ_RESERVATION_MAX
     \<and> list_all (\<lambda>e. rv_holder e \<noteq> None) rs"

definition resv_holder :: "reservation list \<Rightarrow> nat \<times> int \<Rightarrow> nat option" where
  "resv_holder rs k = (case resv_find rs (fst k) (snd k) of None \<Rightarrow> None | Some idx \<Rightarrow> rv_holder (rs ! idx))"

definition resv_claim :: "reservation list \<Rightarrow> nat \<times> int \<Rightarrow> nat \<Rightarrow> reservation list option" where
  "resv_claim rs k h = (case resv_set rs (fst k) (snd k) h of (rs', rc) \<Rightarrow> if rc = ISZ_OK then Some rs' else None)"

definition resv_drop :: "reservation list \<Rightarrow> nat \<times> int \<Rightarrow> nat \<Rightarrow> reservation list" where
  "resv_drop rs k h = resv_clear rs (fst k) (snd k) h"

lemma resv_find_from_Some:
  "resv_find_from rs out sl i = Some n \<Longrightarrow>
     i \<le> n \<and> n - i < length rs \<and> rv_out (rs ! (n - i)) = out \<and> rv_slot_id (rs ! (n - i)) = sl"
  by (induction rs arbitrary: i) (fastforce simp: nth_Cons' split: if_splits)+

lemma resv_find_from_None:
  "resv_find_from rs out sl i = None \<longleftrightarrow> (out, sl) \<notin> (\<lambda>e. (rv_out e, rv_slot_id e)) ` set rs"
  by (induction rs arbitrary: i) auto

lemma resv_find_Some:
  "resv_find rs out sl = Some n \<Longrightarrow> n < length rs \<and> rv_out (rs ! n) = out \<and> rv_slot_id (rs ! n) = sl"
  using resv_find_from_Some [of rs out sl 0 n] by (simp add: resv_find_def)

lemma resv_find_None:
  "resv_find rs out sl = None \<longleftrightarrow> (out, sl) \<notin> (\<lambda>e. (rv_out e, rv_slot_id e)) ` set rs"
  by (simp add: resv_find_def resv_find_from_None)

text \<open>With distinct keys the holder is determined by membership, so the position does not matter.\<close>

abbreviation (input) "resv_key e \<equiv> (rv_out e, rv_slot_id e)"

lemma resv_okD:
  assumes "resv_ok rs"
  shows "distinct rs" "length rs \<le> ISZ_RESERVATION_MAX" "inj_on (\<lambda>e. resv_key e) (set rs)"
    "e \<in> set rs \<Longrightarrow> \<exists>h. rv_holder e = Some h"
  using assms by (auto simp: resv_ok_def distinct_map list_all_iff)

lemma resv_uniq: "resv_ok rs \<Longrightarrow> e \<in> set rs \<Longrightarrow> e' \<in> set rs \<Longrightarrow> resv_key e = resv_key e' \<Longrightarrow> e = e'"
  using resv_okD(3) [of rs] by (auto dest: inj_onD)

lemma resv_find_uniq:
  assumes "resv_ok rs" "resv_find rs out sl = Some n"
  shows "n < length rs" "rs ! n \<in> set rs" "resv_key (rs ! n) = (out, sl)"
    "\<And>e. e \<in> set rs \<Longrightarrow> resv_key e = (out, sl) \<Longrightarrow> e = rs ! n"
proof -
  show n: "n < length rs" "rs ! n \<in> set rs" "resv_key (rs ! n) = (out, sl)"
    using resv_find_Some [OF assms(2)] by auto
  show "\<And>e. e \<in> set rs \<Longrightarrow> resv_key e = (out, sl) \<Longrightarrow> e = rs ! n"
    using resv_uniq [OF assms(1) _ n(2)] n(3) by simp
qed

lemma resv_holder_Some:
  assumes "resv_ok rs"
  shows "resv_holder rs (out, sl) = Some h \<longleftrightarrow>
     (\<exists>e \<in> set rs. resv_key e = (out, sl) \<and> rv_holder e = Some h)"
proof (cases "resv_find rs out sl")
  case None
  with resv_find_None [of rs out sl] show ?thesis by (auto simp: resv_holder_def image_iff)
next
  case (Some n)
  from resv_find_uniq [OF assms Some] Some show ?thesis by (auto simp: resv_holder_def)
qed

lemma resv_holder_eqI:
  assumes "resv_ok rs" "\<And>out sl h. (\<exists>e \<in> set rs. resv_key e = (out, sl) \<and> rv_holder e = Some h)
      \<longleftrightarrow> m (out, sl) = Some h"
  shows "resv_holder rs = m"
proof
  fix k :: "nat \<times> int"
  obtain out sl where k: "k = (out, sl)" by fastforce
  have "resv_holder rs k = Some h \<longleftrightarrow> m k = Some h" for h
    using resv_holder_Some [OF assms(1)] assms(2) k by simp
  then show "resv_holder rs k = m k" by (metis option.exhaust)
qed

lemma resv_claim_spec:
  assumes ok: "resv_ok rs" and cl: "resv_claim rs k h = Some rs'"
  shows "resv_ok rs' \<and> resv_holder rs' = (resv_holder rs)(k \<mapsto> h)"
proof -
  obtain out sl where k: "k = (out, sl)" by fastforce
  have spec: "resv_ok rs' \<and> (\<forall>x. x \<in> set rs' \<longleftrightarrow>
      x = \<lparr>rv_out = out, rv_slot_id = sl, rv_holder = Some h\<rparr> \<or> x \<in> set rs \<and> resv_key x \<noteq> (out, sl))"
  proof (cases "resv_find rs out sl")
    case None
    with cl k have "rs' = rs @ [\<lparr>rv_out = out, rv_slot_id = sl, rv_holder = Some h\<rparr>]" "length rs < 64"
      by (auto simp: resv_claim_def resv_set_def split: if_splits)
    moreover have "(out, sl) \<notin> (\<lambda>e. resv_key e) ` set rs" using None by (simp add: resv_find_None)
    ultimately show ?thesis using ok by (auto simp: resv_ok_def)
  next
    case (Some n)
    note u = resv_find_uniq [OF ok Some]
    let ?e = "(rs ! n)\<lparr>rv_holder := Some h\<rparr>"
    from Some cl k have rs': "rs' = rs[n := ?e]" by (auto simp: resv_claim_def resv_set_def)
    have "map (\<lambda>e. resv_key e) rs' = map (\<lambda>e. resv_key e) rs"
      using u(1) by (intro nth_equalityI) (auto simp: rs' nth_list_update)
    then have "resv_ok rs'" using ok u(1) unfolding resv_ok_def
      by (auto simp: rs' list_all_length nth_list_update)
    moreover have "?e = \<lparr>rv_out = out, rv_slot_id = sl, rv_holder = Some h\<rparr>"
      using u(3) by (cases "rs ! n") simp
    moreover have "set rs' = insert ?e (set rs - {rs ! n})"
      using u(1) resv_okD(1) [OF ok] by (simp add: rs' set_update_distinct)
    ultimately show ?thesis using u(3,4) by auto
  qed
  have "resv_holder rs' = (resv_holder rs)(k \<mapsto> h)"
  proof (rule resv_holder_eqI)
    show "resv_ok rs'" using spec by simp
    fix o' s' h'
    show "(\<exists>e \<in> set rs'. resv_key e = (o', s') \<and> rv_holder e = Some h')
        \<longleftrightarrow> ((resv_holder rs)(k \<mapsto> h)) (o', s') = Some h'"
    proof (cases "(o', s') = (out, sl)")
      case True
      let ?n = "\<lparr>rv_out = out, rv_slot_id = sl, rv_holder = Some h\<rparr>"
      have n: "?n \<in> set rs'" "\<And>e. e \<in> set rs' \<Longrightarrow> resv_key e = (out, sl) \<Longrightarrow> e = ?n" using spec by blast+
      have "(\<exists>e \<in> set rs'. resv_key e = (out, sl) \<and> rv_holder e = Some h') \<longleftrightarrow> h = h'"
      proof
        assume "\<exists>e \<in> set rs'. resv_key e = (out, sl) \<and> rv_holder e = Some h'"
        then obtain e where "e \<in> set rs'" "resv_key e = (out, sl)" "rv_holder e = Some h'" by blast
        with n(2) [of e] show "h = h'" by (metis option.inject reservation.select_convs(3))
      qed (use n(1) in \<open>auto intro!: bexI [of _ ?n]\<close>)
      with True k show ?thesis by simp
    next
      case False
      with spec have "(\<exists>e \<in> set rs'. resv_key e = (o', s') \<and> rv_holder e = Some h')
          \<longleftrightarrow> (\<exists>e \<in> set rs. resv_key e = (o', s') \<and> rv_holder e = Some h')" by (metis (no_types, lifting) reservation.select_convs(1,2))
      moreover have "((resv_holder rs)(k \<mapsto> h)) (o', s') = resv_holder rs (o', s')" using False k by auto
      ultimately show ?thesis by (simp add: resv_holder_Some [OF ok])
    qed
  qed
  with spec show ?thesis by simp
qed

lemma resv_drop_spec:
  assumes ok: "resv_ok rs"
  shows "resv_ok (resv_drop rs k h) \<and> resv_holder (resv_drop rs k h)
     = (if resv_holder rs k = Some h then (resv_holder rs)(k := None) else resv_holder rs)"
proof -
  obtain out sl where k: "k = (out, sl)" by fastforce
  show ?thesis
  proof (cases "resv_holder rs k = Some h")
    case False
    then have "resv_drop rs k h = rs"
      by (auto simp: resv_drop_def resv_clear_def resv_holder_def split: option.splits)
    with False ok show ?thesis by simp
  next
    case True
    then obtain n where n: "resv_find rs out sl = Some n" "rv_holder (rs ! n) = Some h"
      by (auto simp: k resv_holder_def split: option.splits)
    note u = resv_find_uniq [OF ok n(1)]
    have m: "mset rs = add_mset (rs ! n) (mset (resv_drop rs k h))"
      using swap_remove_mset [OF u(1)] u(1,2) n by (auto simp: resv_drop_def resv_clear_def k Let_def)
    then have "mset (map (\<lambda>e. resv_key e) rs) = mset (map (\<lambda>e. resv_key e) ((rs ! n) # resv_drop rs k h))"
      by simp
    then have d: "distinct (map (\<lambda>e. resv_key e) ((rs ! n) # resv_drop rs k h))"
      using ok mset_eq_imp_distinct_iff unfolding resv_ok_def by blast
    have st: "set rs = insert (rs ! n) (set (resv_drop rs k h))"
      using arg_cong [OF m, of set_mset] by simp
    have "size (mset rs) = Suc (length (resv_drop rs k h))" using m by simp
    then have ok': "resv_ok (resv_drop rs k h)"
      using ok d st by (auto simp: resv_ok_def list_all_iff)
    have mem: "x \<in> set (resv_drop rs k h) \<longleftrightarrow> x \<in> set rs \<and> resv_key x \<noteq> (out, sl)" for x
    proof -
      have "resv_key y \<noteq> (out, sl)" if "y \<in> set (resv_drop rs k h)" for y
        using d u(3) that by (metis (no_types, lifting) distinct.simps(2) image_eqI image_set list.simps(9))
      then show ?thesis using st u(3) by auto
    qed
    have "resv_holder (resv_drop rs k h) = (resv_holder rs)(k := None)"
    proof (rule resv_holder_eqI [OF ok'])
      fix o' s' h'
      show "(\<exists>e \<in> set (resv_drop rs k h). resv_key e = (o', s') \<and> rv_holder e = Some h')
          \<longleftrightarrow> ((resv_holder rs)(k := None)) (o', s') = Some h'"
        using mem by (cases "(o', s') = (out, sl)") (auto simp: k resv_holder_Some [OF ok])
    qed
    then show ?thesis using True ok' by simp
  qed
qed

interpretation resv: slot_registry resv_holder resv_claim resv_drop resv_ok
  using resv_claim_spec resv_drop_spec by unfold_locales auto

section \<open>Property\<close>

lemma resv_held_by_holder: "resv_held_by rs out sl r \<longleftrightarrow> resv_holder rs (out, sl) = Some r"
  by (auto simp: resv_held_by_def resv_holder_def split: option.splits)

lemma isz_plane_slot_get_id:
  "isz_plane_slot_get w out slot_id = Some (Some sl) \<Longrightarrow> ps_id sl = slot_id"
  by (auto simp: isz_plane_slot_get_def bind_eq_Some_conv find_Some_iff split: option.splits)

lemma isz_plane_slot_assign_cases:
  assumes "isz_plane_slot_assign w (Some o') (Some r) = Some (w', res)" "resv_ok (w_resv w)"
  shows "(\<exists>e. res = Inl e \<and> e \<noteq> ISZ_OK \<and> w' = w)
    \<or> (\<exists>s. w_surfaces w r = Some s \<and> res = Inr (sf_plane_slot s)
         \<and> (resv_holder (w_resv w) (o', sf_plane_slot s) = Some r \<and> w' = w
           \<or> resv_holder (w_resv w) (o', sf_plane_slot s) = None
             \<and> (\<exists>rs. resv_claim (w_resv w) (o', sf_plane_slot s) r = Some rs \<and> w' = w\<lparr>w_resv := rs\<rparr>)))"
proof -
  have rs: "rc \<noteq> ISZ_OK \<Longrightarrow> rs = w_resv w" "rc = ISZ_OK \<Longrightarrow> resv_claim (w_resv w) (o', sl) r = Some rs"
    if "resv_set (w_resv w) o' sl r = (rs, rc)" for rs rc sl
    using that by (auto simp: resv_set_def resv_claim_def split: option.splits if_splits)
  have free_slot: "resv_holder (w_resv w) (o', sl) = None"
    if "\<not> (case resv_find (w_resv w) o' sl of None \<Rightarrow> False | Some idx \<Rightarrow> rv_holder (w_resv w ! idx) \<noteq> None)" for sl
    using that by (auto simp: resv_holder_def split: option.splits)
  from assms obtain s where s: "w_surfaces w r = Some s"
    by (auto simp: isz_plane_slot_assign_def bind_eq_Some_conv)
  note asg = assms(1) [unfolded isz_plane_slot_assign_def option.case prod.case s Option.bind.bind_lunit]
  show ?thesis
  proof (cases "sf_plane_slot_set s")
    case False
    with asg show ?thesis by auto
  next
    case True
    with asg obtain slot where slot: "isz_plane_slot_get w (Some o') (sf_plane_slot s) = Some slot"
      by (auto simp: bind_eq_Some_conv)
    show ?thesis
    proof (cases slot)
      case None
      with asg True slot show ?thesis by auto
    next
      case (Some sl)
      note id = isz_plane_slot_get_id [OF slot [unfolded Some]]
      note step = asg True slot Some
      consider (held) "resv_held_by (w_resv w) o' (sf_plane_slot s) r"
        | (other) "\<not> resv_held_by (w_resv w) o' (sf_plane_slot s) r"
           "case resv_find (w_resv w) o' (sf_plane_slot s) of None \<Rightarrow> False | Some idx \<Rightarrow> rv_holder (w_resv w ! idx) \<noteq> None"
        | (free) "\<not> resv_held_by (w_resv w) o' (sf_plane_slot s) r"
           "\<not> (case resv_find (w_resv w) o' (sf_plane_slot s) of None \<Rightarrow> False | Some idx \<Rightarrow> rv_holder (w_resv w ! idx) \<noteq> None)"
        by blast
      then show ?thesis
      proof cases
        case held
        with step id s show ?thesis by (simp add: resv_held_by_holder)
      next
        case other
        with step show ?thesis by auto
      next
        case free
        obtain rs rc where st: "resv_set (w_resv w) o' (sf_plane_slot s) r = (rs, rc)" by fastforce
        let ?w = "w\<lparr>w_resv := rs\<rparr>"
        note asg' = asg [unfolded slot Some Option.bind.bind_lunit option.case if_not_P [OF free(1)] if_not_P [OF free(2)] st prod.case]
        have "(\<exists>e. res = Inl e \<and> e \<noteq> ISZ_OK \<and> w' = w) \<or> rc \<noteq> ISZ_OK \<and> w' = ?w \<and> res = Inl rc
            \<or> rc = ISZ_OK \<and> w' = ?w \<and> res = Inr (ps_id sl)"
        proof (cases "ps_type sl \<noteq> sf_plane_type s")
          case mismatch: True
          with asg' True have "res = Inl ISZ_ERR_PLANE_UNAVAIL" "w' = w" by auto
          then show ?thesis by simp
        next
          case matching: False
          from asg' True matching obtain fmt_ok where
            "(if \<not> fmt_ok then Some (w, Inl ISZ_ERR_PLANE_UNAVAIL)
              else if isz_error_code rc < 0 then Some (?w, Inl rc) else Some (?w, Inr (ps_id sl))) = Some (w', res)"
            by (simp only: not_not if_True if_False bind_eq_Some_conv simp_thms) blast
          then show ?thesis by (simp only: isz_error_code_neg split: if_splits) auto
        qed
        then consider (err) e where "res = Inl e" "e \<noteq> ISZ_OK" "w' = w"
          | (full) "rc \<noteq> ISZ_OK" "w' = ?w" "res = Inl rc" | (ok) "rc = ISZ_OK" "w' = ?w" "res = Inr (ps_id sl)"
          by blast
        then show ?thesis
        proof cases
          case err
          then show ?thesis by blast
        next
          case full
          with rs(1) [OF st] show ?thesis by simp
        next
          case ok
          with rs(2) [OF st] s id free_slot [OF free(2)] show ?thesis by simp
        qed
      qed
    qed
  qed
qed

text \<open>C13: a plane slot has one holder. A successful \<^verbatim>\<open>isz_plane_slot_assign\<close> makes the surface the
  holder of exactly the slot it asked for, only when the slot was free or already its own, and
  leaves every other reservation alone; a failed one changes nothing.\<close>

theorem plane_assign_exclusive:
  assumes "isz_plane_slot_assign w (Some o') (Some r) = Some (w', res)" and "resv_ok (w_resv w)"
  shows "resv_ok (w_resv w') \<and>
    (case res of
       Inl e \<Rightarrow> e \<noteq> ISZ_OK \<and> w' = w
     | Inr slot_id \<Rightarrow>
         resv_holder (w_resv w) (o', slot_id) \<in> {None, Some r}
         \<and> resv_holder (w_resv w') = (resv_holder (w_resv w))((o', slot_id) \<mapsto> r)
         \<and> w' = w\<lparr>w_resv := w_resv w'\<rparr>)"
  using isz_plane_slot_assign_cases [OF assms] assms(2)
proof (elim disjE exE conjE)
  fix s rs
  assume "res = Inr (sf_plane_slot s)" "resv_holder (w_resv w) (o', sf_plane_slot s) = None"
    "resv_claim (w_resv w) (o', sf_plane_slot s) r = Some rs" "w' = w\<lparr>w_resv := rs\<rparr>"
  with resv.claim_holder [OF assms(2)] resv.claim_ok [OF assms(2)] show ?thesis by auto
qed (auto simp: fun_upd_idem)

text \<open>An output with one primary slot, and a surface that asks for it.\<close>

definition slot_sample_world :: world where
  "slot_sample_world =
     world_init\<lparr>w_outputs := (\<lambda>_. None)(1 \<mapsto> output_zero\<lparr>o_slots := Some
         [\<lparr>ps_id = 1, ps_type = ISZ_PLANE_PRIMARY, ps_formats = [0x34325258], ps_supports_scaling = True,
           ps_supports_transform = True, ps_zpos_min = 0, ps_zpos_max = 0\<rparr>]\<rparr>),
       w_surfaces := (\<lambda>_. None)(1 \<mapsto>
         \<lparr>sf_client_id = 0, sf_owning_conn = None, sf_object_id = 0, sf_kind = ISZ_SURFACE_NORMAL,
          sf_current = None, sf_pending_release = None, sf_damage = [], sf_damage_cap = 0,
          sf_x = 0, sf_y = 0, sf_width = 0, sf_height = 0,
          sf_plane_type = ISZ_PLANE_PRIMARY, sf_plane_type_set = True, sf_plane_slot = 1,
          sf_plane_slot_set = True, sf_zpos = 0, sf_transform = ISZ_TRANSFORM_NORMAL, sf_output = Some 1,
          sf_parent = None, sf_popup_x = 0, sf_popup_y = 0, sf_subsurface_flags = 0,
          sf_layer = ISZ_LAYER_OVERLAY, sf_serial = 0, sf_idle_inhibit = False,
          sf_scale_numerator = 0, sf_scale_denominator = 0,
          sf_role = ISZ_SURFACE_ROLE_NORMAL, sf_role_handle = 0\<rparr>)\<rparr>"

theorem plane_assign_exclusive_witness:
  "\<exists>w'. isz_plane_slot_assign slot_sample_world (Some 1) (Some 1) = Some (w', Inr 1)
     \<and> resv_ok (w_resv w') \<and> resv_holder (w_resv w') = (resv_holder (w_resv slot_sample_world))((1, 1) \<mapsto> 1)"
proof -
  have ok: "resv_ok (w_resv slot_sample_world)"
    by (simp add: slot_sample_world_def world_init_def bstate.defs kern.defs bstate_init_def kern_init_def resv_ok_def)
  obtain w' where "isz_plane_slot_assign slot_sample_world (Some 1) (Some 1) = Some (w', Inr 1)"
    by (simp add: slot_sample_world_def world_init_def bstate.defs kern.defs bstate_init_def kern_init_def
        isz_plane_slot_assign_def isz_plane_slot_get_def resv_held_by_def resv_find_def resv_set_def output_zero_def)
  with plane_assign_exclusive [OF this ok] show ?thesis by auto
qed

end
