(* ===== verification/Isz_Surface.thy ===== *)
theory Isz_Surface
  imports Isz_Senders Isz_Plane_Slots
begin

text \<open>
  Surfaces, \<^verbatim>\<open>src/render/isz_surface.c\<close>: creation and destruction, buffer attach and detach with the
  two-buffer swap, damage, the setters, subsurfaces, popups and layer surfaces, and the idle-inhibit
  accounting. A surface argument is \<open>None\<close> for \<^verbatim>\<open>NULL\<close>; the outer \<open>option\<close> of a result is memory
  safety.
\<close>

section \<open>Lifecycle\<close>

text \<open>\<^verbatim>\<open>isz_surface_create\<close>: the reference, or \<open>None\<close> for \<^verbatim>\<open>NULL\<close>. The server argument is never \<^verbatim>\<open>NULL\<close> here.\<close>

definition surface_zero :: isz_surface where
  "surface_zero =
     \<lparr>sf_client_id = 0, sf_owning_conn = None, sf_object_id = 0, sf_kind = ISZ_SURFACE_NORMAL,
      sf_current = None, sf_pending_release = None, sf_damage = [], sf_damage_cap = 0,
      sf_x = 0, sf_y = 0, sf_width = 0, sf_height = 0,
      sf_plane_type = ISZ_PLANE_PRIMARY, sf_plane_type_set = False, sf_plane_slot = -1,
      sf_plane_slot_set = False, sf_zpos = 0, sf_transform = ISZ_TRANSFORM_NORMAL, sf_output = None,
      sf_parent = None, sf_popup_x = 0, sf_popup_y = 0, sf_subsurface_flags = 0,
      sf_layer = ISZ_LAYER_OVERLAY, sf_serial = 0, sf_idle_inhibit = False,
      sf_scale_numerator = 0, sf_scale_denominator = 0,
      sf_role = ISZ_SURFACE_ROLE_NORMAL, sf_role_handle = 0\<rparr>"

definition isz_surface_create :: "world \<Rightarrow> world \<times> nat option" where
  "isz_surface_create w =
     (case k_alloc w of
        (w, False) \<Rightarrow> (w, None)
      | (w, True) \<Rightarrow>
          let r = w_next_surface w; serial = w_next_surface_serial w + 1
          in (upd_surface (w\<lparr>w_next_surface := r + 1, w_next_surface_serial := serial,
                             w_children := (w_children w)(r := []),
                             w_surface_list := w_surface_list w @ [r]\<rparr>)
                r (surface_zero\<lparr>sf_serial := serial\<rparr>),
              Some r))"

text \<open>\<^verbatim>\<open>isz_surface_inhibit_adjust\<close>; \<open>None\<close> as the output is \<^verbatim>\<open>NULL\<close>.\<close>

definition isz_surface_inhibit_adjust :: "world \<Rightarrow> nat option \<Rightarrow> int \<Rightarrow> world option" where
  "isz_surface_inhibit_adjust w out delta = (case out of
       None \<Rightarrow> Some w
     | Some r \<Rightarrow>
         if delta = 0 then Some w
         else do {
           o' \<leftarrow> w_outputs w r;
           let before = o_idle_inhibit_count o';
           let after = before + delta;
           let w = upd_output w r (o'\<lparr>o_idle_inhibit_count := after\<rparr>);
           (if before = 0 \<and> after > 0
            then isz_render_send_idle_inhibit (isz_server_emit_event w (ISZ_EVENT_IDLE_INHIBIT_ACTIVE r)) (Some r) True
            else if before > 0 \<and> after = 0
            then isz_render_send_idle_inhibit (isz_server_emit_event w (ISZ_EVENT_IDLE_INHIBIT_INACTIVE r)) (Some r) False
            else Some w)
         })"

text \<open>Unlinking a subsurface from its parent's children list. When the parent is gone the list head is
  freed memory, which the first and the last child point to.\<close>

definition unlink_child :: "world \<Rightarrow> nat \<Rightarrow> nat option \<Rightarrow> world option" where
  "unlink_child w r parent = do {
     p \<leftarrow> parent;
     (if w_surfaces w p = None \<and> w_children w p \<noteq> [] \<and> (hd (w_children w p) = r \<or> last (w_children w p) = r)
      then None
      else Some (w\<lparr>w_children := (w_children w)(p := remove1 r (w_children w p))\<rparr>))
   }"

definition release_unref :: "world \<Rightarrow> nat option \<Rightarrow> world option" where
  "release_unref w buf = do { w \<leftarrow> isz_buffer_release w buf; isz_buffer_unref w buf }"

definition isz_surface_destroy :: "world \<Rightarrow> nat option \<Rightarrow> world option" where
  "isz_surface_destroy w surf = (case surf of
       None \<Rightarrow> Some w
     | Some r \<Rightarrow> do {
         s \<leftarrow> w_surfaces w r;
         w \<leftarrow> (if sf_idle_inhibit s then isz_surface_inhibit_adjust w (sf_output s) (-1) else Some w);
         let w = w\<lparr>w_surface_list := remove1 r (w_surface_list w)\<rparr>;
         w \<leftarrow> (if sf_kind s = ISZ_SURFACE_SUBSURFACE then unlink_child w r (sf_parent s) else Some w);
         let w = (if sf_plane_slot_set s \<and> sf_output s \<noteq> None
                  then isz_plane_slot_release w (sf_output s) (sf_plane_slot s) r else w);
         w \<leftarrow> (if sf_current s \<noteq> None then release_unref w (sf_current s) else Some w);
         w \<leftarrow> (if sf_pending_release s \<noteq> None then release_unref w (sf_pending_release s) else Some w);
         Some (w\<lparr>w_surfaces := (w_surfaces w)(r := None)\<rparr>)
       })"

section \<open>Operations on a surface that may be NULL\<close>

definition with_surface ::
    "world \<Rightarrow> nat option \<Rightarrow> (nat \<Rightarrow> isz_surface \<Rightarrow> (world \<times> isz_error) option) \<Rightarrow> (world \<times> isz_error) option" where
  "with_surface w surf f = (case surf of
       None \<Rightarrow> Some (w, ISZ_ERR_INVALID_ARG)
     | Some r \<Rightarrow> do { s \<leftarrow> w_surfaces w r; f r s })"

definition isz_surface_get_serial :: "world \<Rightarrow> nat option \<Rightarrow> u64 option" where
  "isz_surface_get_serial w surf = (case surf of
       None \<Rightarrow> Some 0 | Some r \<Rightarrow> map_option sf_serial (w_surfaces w r))"

subsection \<open>Buffers\<close>

definition isz_surface_attach_buffer :: "world \<Rightarrow> nat option \<Rightarrow> fd \<Rightarrow> buffer_desc option \<Rightarrow> (world \<times> isz_error) option" where
  "isz_surface_attach_buffer w surf dmabuf_fd desc = (case surf of
       None \<Rightarrow> Some (if dmabuf_fd \<ge> 0 then k_close w dmabuf_fd else w, ISZ_ERR_INVALID_ARG)
     | Some r \<Rightarrow>
         if dmabuf_fd < 0 \<or> desc = None then Some (w, ISZ_ERR_INVALID_ARG)
         else do {
           s \<leftarrow> w_surfaces w r;
           (case isz_buffer_import w (sf_client_id s) dmabuf_fd desc True of
              (w, Inl rc) \<Rightarrow> Some (w, rc)
            | (w, Inr buf) \<Rightarrow> do {
                w \<leftarrow> (if sf_pending_release s \<noteq> None then release_unref w (sf_pending_release s) else Some w);
                b \<leftarrow> bs_bufs w buf;
                let s = s\<lparr>sf_pending_release := sf_current s, sf_current := Some buf\<rparr>;
                let s = (if sf_width s = 0 \<or> sf_height s = 0
                         then s\<lparr>sf_width := sint (b_width b), sf_height := sint (b_height b)\<rparr> else s);
                Some (upd_surface w r s, ISZ_OK)
              })
         })"

definition isz_surface_detach_buffer :: "world \<Rightarrow> nat option \<Rightarrow> (world \<times> isz_error) option" where
  "isz_surface_detach_buffer w surf = with_surface w surf (\<lambda>r s.
     if sf_current s \<noteq> None
     then do {
       w \<leftarrow> release_unref w (sf_current s);
       Some (upd_surface w r (s\<lparr>sf_current := None\<rparr>), ISZ_OK)
     }
     else Some (w, ISZ_OK))"

subsection \<open>Damage\<close>

abbreviation (input) "ISZ_SURFACE_MAX_DAMAGE \<equiv> (256 :: nat)"

text \<open>The doubling loop of the capacity.\<close>

function damage_grow :: "nat \<Rightarrow> nat \<Rightarrow> nat" where
  "damage_grow ncap need = (if ncap = 0 then 0 else if ncap < need then damage_grow (ncap * 2) need else ncap)"
  by pat_completeness auto
termination by (relation "measure (\<lambda>(ncap, need). need - ncap)") auto

declare damage_grow.simps [simp del]

text \<open>\<open>rects\<close> is the caller's array, \<open>None\<close> for \<^verbatim>\<open>NULL\<close>; \<^verbatim>\<open>damage_count\<close> is the length of the list.\<close>

definition isz_surface_damage :: "world \<Rightarrow> nat option \<Rightarrow> isz_rect list option \<Rightarrow> nat \<Rightarrow> (world \<times> isz_error) option" where
  "isz_surface_damage w surf rects cnt = with_surface w surf (\<lambda>r s.
     if cnt = 0 then Some (w, ISZ_OK)
     else case rects of
       None \<Rightarrow> Some (w, ISZ_ERR_INVALID_ARG)
     | Some rs \<Rightarrow>
         if length (sf_damage s) + cnt > ISZ_SURFACE_MAX_DAMAGE then Some (w, ISZ_ERR_RESOURCE_LIMIT)
         else let (w, s, ok) =
                (if length (sf_damage s) + cnt > sf_damage_cap s
                 then let ncap = damage_grow (if sf_damage_cap s \<noteq> 0 then sf_damage_cap s else 8)
                                   (length (sf_damage s) + cnt)
                      in case k_alloc w of
                           (w, False) \<Rightarrow> (w, s, False)
                         | (w, True) \<Rightarrow> (w, s\<lparr>sf_damage_cap := ncap\<rparr>, True)
                 else (w, s, True))
         in if \<not> ok then Some (w, ISZ_ERR_NO_MEMORY)
            else if cnt > length rs \<or> length (sf_damage s) + cnt > sf_damage_cap s then None
            else Some (upd_surface w r (s\<lparr>sf_damage := sf_damage s @ take cnt rs\<rparr>), ISZ_OK))"

subsection \<open>Setters\<close>

definition isz_surface_set_output :: "world \<Rightarrow> nat option \<Rightarrow> nat option \<Rightarrow> (world \<times> isz_error) option" where
  "isz_surface_set_output w surf out = (case (surf, out) of
       (Some r, Some o') \<Rightarrow> do {
         s \<leftarrow> w_surfaces w r;
         w \<leftarrow> (if sf_idle_inhibit s \<and> sf_output s \<noteq> Some o'
               then do { w \<leftarrow> isz_surface_inhibit_adjust w (sf_output s) (-1);
                         isz_surface_inhibit_adjust w (Some o') 1 }
               else Some w);
         Some (upd_surface w r (s\<lparr>sf_output := Some o'\<rparr>), ISZ_OK)
       }
     | _ \<Rightarrow> Some (w, ISZ_ERR_INVALID_ARG))"

definition isz_surface_clear_output :: "world \<Rightarrow> nat option \<Rightarrow> (world \<times> isz_error) option" where
  "isz_surface_clear_output w surf = with_surface w surf (\<lambda>r s. do {
     let w = (if sf_plane_slot_set s \<and> sf_output s \<noteq> None
              then isz_plane_slot_release w (sf_output s) (sf_plane_slot s) r else w);
     w \<leftarrow> (if sf_idle_inhibit s then isz_surface_inhibit_adjust w (sf_output s) (-1) else Some w);
     Some (upd_surface w r (s\<lparr>sf_output := None\<rparr>), ISZ_OK)
   })"

definition isz_surface_set_position :: "world \<Rightarrow> nat option \<Rightarrow> int \<Rightarrow> int \<Rightarrow> (world \<times> isz_error) option" where
  "isz_surface_set_position w surf x y = with_surface w surf (\<lambda>r s.
     Some (upd_surface w r (s\<lparr>sf_x := x, sf_y := y\<rparr>), ISZ_OK))"

definition isz_surface_set_size :: "world \<Rightarrow> nat option \<Rightarrow> int \<Rightarrow> int \<Rightarrow> (world \<times> isz_error) option" where
  "isz_surface_set_size w surf width height = with_surface w surf (\<lambda>r s.
     if width \<le> 0 \<or> height \<le> 0 then Some (w, ISZ_ERR_INVALID_ARG)
     else Some (upd_surface w r (s\<lparr>sf_width := width, sf_height := height\<rparr>), ISZ_OK))"

definition isz_surface_set_plane_type :: "world \<Rightarrow> nat option \<Rightarrow> int \<Rightarrow> (world \<times> isz_error) option" where
  "isz_surface_set_plane_type w surf type = with_surface w surf (\<lambda>r s.
     case plane_type_of_int type of
       None \<Rightarrow> Some (w, ISZ_ERR_INVALID_ARG)
     | Some t \<Rightarrow> Some (upd_surface w r (s\<lparr>sf_plane_type := t, sf_plane_type_set := True\<rparr>), ISZ_OK))"

definition isz_surface_set_plane_slot :: "world \<Rightarrow> nat option \<Rightarrow> int \<Rightarrow> (world \<times> isz_error) option" where
  "isz_surface_set_plane_slot w surf slot = with_surface w surf (\<lambda>r s.
     if slot < 0 then Some (w, ISZ_ERR_INVALID_ARG)
     else Some (upd_surface w r (s\<lparr>sf_plane_slot := slot, sf_plane_slot_set := True\<rparr>), ISZ_OK))"

definition isz_surface_set_zpos :: "world \<Rightarrow> nat option \<Rightarrow> int \<Rightarrow> (world \<times> isz_error) option" where
  "isz_surface_set_zpos w surf zpos = with_surface w surf (\<lambda>r s.
     Some (upd_surface w r (s\<lparr>sf_zpos := zpos\<rparr>), ISZ_OK))"

definition isz_surface_set_transform :: "world \<Rightarrow> nat option \<Rightarrow> int \<Rightarrow> (world \<times> isz_error) option" where
  "isz_surface_set_transform w surf t = with_surface w surf (\<lambda>r s.
     case transform_of_int t of
       None \<Rightarrow> Some (w, ISZ_ERR_INVALID_ARG)
     | Some tr \<Rightarrow> Some (upd_surface w r (s\<lparr>sf_transform := tr\<rparr>), ISZ_OK))"

subsection \<open>Subsurfaces, popups, layers\<close>

definition isz_surface_create_subsurface :: "world \<Rightarrow> nat option \<Rightarrow> (world \<times> nat option) option" where
  "isz_surface_create_subsurface w parent = (case parent of
       None \<Rightarrow> Some (w, None)
     | Some p \<Rightarrow> do {
         ps \<leftarrow> w_surfaces w p;
         (case isz_surface_create w of
            (w, None) \<Rightarrow> Some (w, None)
          | (w, Some sub) \<Rightarrow> do {
              s \<leftarrow> w_surfaces w sub;
              let w = upd_surface w sub (s\<lparr>sf_kind := ISZ_SURFACE_SUBSURFACE, sf_parent := Some p\<rparr>);
              Some (w\<lparr>w_children := (w_children w)(p := w_children w p @ [sub])\<rparr>, Some sub)
            })
       })"

definition isz_surface_set_subsurface_flags :: "world \<Rightarrow> nat option \<Rightarrow> u32 \<Rightarrow> (world \<times> isz_error) option" where
  "isz_surface_set_subsurface_flags w sub flags = with_surface w sub (\<lambda>r s.
     if sf_kind s \<noteq> ISZ_SURFACE_SUBSURFACE then Some (w, ISZ_ERR_INVALID_ARG)
     else Some (upd_surface w r (s\<lparr>sf_subsurface_flags := flags\<rparr>), ISZ_OK))"

definition isz_surface_create_popup :: "world \<Rightarrow> nat option \<Rightarrow> int \<Rightarrow> int \<Rightarrow> (world \<times> nat option) option" where
  "isz_surface_create_popup w parent x y = (case parent of
       None \<Rightarrow> Some (w, None)
     | Some p \<Rightarrow> do {
         ps \<leftarrow> w_surfaces w p;
         (case isz_surface_create w of
            (w, None) \<Rightarrow> Some (w, None)
          | (w, Some pop) \<Rightarrow> do {
              s \<leftarrow> w_surfaces w pop;
              Some (upd_surface w pop (s\<lparr>sf_kind := ISZ_SURFACE_POPUP, sf_parent := Some p,
                                         sf_popup_x := x, sf_popup_y := y\<rparr>), Some pop)
            })
       })"

definition isz_surface_create_layer :: "world \<Rightarrow> nat option \<Rightarrow> isz_layer \<Rightarrow> (world \<times> nat option) option" where
  "isz_surface_create_layer w out layer = (case out of
       None \<Rightarrow> Some (w, None)
     | Some o' \<Rightarrow> do {
         os \<leftarrow> w_outputs w o';
         (case isz_surface_create w of
            (w, None) \<Rightarrow> Some (w, None)
          | (w, Some r) \<Rightarrow> do {
              s \<leftarrow> w_surfaces w r;
              Some (upd_surface w r (s\<lparr>sf_kind := ISZ_SURFACE_LAYER, sf_layer := layer,
                                       sf_output := Some o'\<rparr>), Some r)
            })
       })"

subsection \<open>Idle inhibit, scale, role\<close>

definition isz_surface_set_idle_inhibit :: "world \<Rightarrow> nat option \<Rightarrow> bool \<Rightarrow> (world \<times> isz_error) option" where
  "isz_surface_set_idle_inhibit w surf inhibit = with_surface w surf (\<lambda>r s.
     if sf_idle_inhibit s = inhibit then Some (w, ISZ_OK)
     else do {
       w \<leftarrow> isz_surface_inhibit_adjust w (sf_output s) (if inhibit then 1 else -1);
       Some (upd_surface w r (s\<lparr>sf_idle_inhibit := inhibit\<rparr>), ISZ_OK)
     })"

definition isz_surface_set_scale :: "world \<Rightarrow> nat option \<Rightarrow> u32 \<Rightarrow> u32 \<Rightarrow> (world \<times> isz_error) option" where
  "isz_surface_set_scale w surf numerator denominator = with_surface w surf (\<lambda>r s.
     if denominator = 0 then Some (w, ISZ_ERR_INVALID_ARG)
     else do {
       let w = upd_surface w r (s\<lparr>sf_scale_numerator := numerator, sf_scale_denominator := denominator\<rparr>);
       w \<leftarrow> (if sf_owning_conn s \<noteq> None \<and> sf_object_id s \<noteq> 0
             then isz_send_surface_preferred_scale w (sf_owning_conn s) (sf_object_id s) numerator denominator
             else Some w);
       Some (w, ISZ_OK)
     })"

definition surface_role_of_int :: "int \<Rightarrow> isz_surface_role option" where
  "surface_role_of_int v = (if v = 0 then Some ISZ_SURFACE_ROLE_NORMAL
     else if v = 1 then Some ISZ_SURFACE_ROLE_X11_TOPLEVEL else if v = 2 then Some ISZ_SURFACE_ROLE_X11_POPUP
     else if v = 3 then Some ISZ_SURFACE_ROLE_LAYER else None)"

definition isz_surface_set_role :: "world \<Rightarrow> nat option \<Rightarrow> int \<Rightarrow> u64 \<Rightarrow> (world \<times> isz_error) option" where
  "isz_surface_set_role w surf role role_handle = with_surface w surf (\<lambda>r s.
     case surface_role_of_int role of
       None \<Rightarrow> Some (w, ISZ_ERR_INVALID_ARG)
     | Some ro \<Rightarrow> Some (upd_surface w r (s\<lparr>sf_role := ro, sf_role_handle := role_handle\<rparr>), ISZ_OK))"

definition isz_surface_get_role :: "world \<Rightarrow> nat option \<Rightarrow> isz_surface_role option" where
  "isz_surface_get_role w surf = (case surf of
       None \<Rightarrow> Some ISZ_SURFACE_ROLE_NORMAL | Some r \<Rightarrow> map_option sf_role (w_surfaces w r))"

definition isz_surface_get_role_handle :: "world \<Rightarrow> nat option \<Rightarrow> u64 option" where
  "isz_surface_get_role_handle w surf = (case surf of
       None \<Rightarrow> Some 0 | Some r \<Rightarrow> map_option sf_role_handle (w_surfaces w r))"

end
