(* ===== verification/Isz_Surface_Inv.thy ===== *)
theory Isz_Surface_Inv
  imports Isz_Surface
begin

text \<open>
  The invariant of the render layer and its preservation by every operation of
  \<^verbatim>\<open>src/render/isz_surface.c\<close>: surfaces point to live outputs, connections and parents; every live
  buffer is owned by exactly one surface and holds one reference; the idle-inhibit count of an
  output is the number of surfaces that inhibit on it, and the events emitted so far announce
  exactly whether it is positive. \<open>render_frame\<close> says what an operation on an existing surface leaves
  alone; \<open>creates\<close> and \<open>without\<close> do the same for creation and destruction.
\<close>

section \<open>Invariant of the render layer\<close>

text \<open>The buffers a surface owns.\<close>

definition surf_bufs :: "isz_surface \<Rightarrow> nat set" where
  "surf_bufs s = set_option (sf_current s) \<union> set_option (sf_pending_release s)"

definition surf_ok :: "world \<Rightarrow> isz_surface \<Rightarrow> bool" where
  "surf_ok w s \<longleftrightarrow> length (sf_damage s) \<le> sf_damage_cap s \<and> length (sf_damage s) \<le> ISZ_SURFACE_MAX_DAMAGE
     \<and> (\<forall>out. sf_output s = Some out \<longrightarrow> w_outputs w out \<noteq> None)
     \<and> (\<forall>c. sf_owning_conn s = Some c \<longrightarrow> w_conns w c \<noteq> None)
     \<and> (sf_kind s = ISZ_SURFACE_SUBSURFACE \<longrightarrow> (\<exists>p. sf_parent s = Some p \<and> w_surfaces w p \<noteq> None))
     \<and> (sf_current s = None \<or> sf_current s \<noteq> sf_pending_release s)"

text \<open>Every live buffer is owned by exactly one surface, holds its one reference and a descriptor.\<close>

definition owned :: "(nat \<Rightarrow> isz_surface option) \<Rightarrow> nat \<Rightarrow> nat \<Rightarrow> bool" where
  "owned S b r \<longleftrightarrow> (\<exists>s. S r = Some s \<and> b \<in> surf_bufs s)"

definition bufs_ok :: "(nat \<Rightarrow> isz_surface option) \<Rightarrow> (nat \<Rightarrow> buffer option) \<Rightarrow> nat \<Rightarrow> bool" where
  "bufs_ok S B nb \<longleftrightarrow>
     (\<forall>b r r'. owned S b r \<longrightarrow> owned S b r' \<longrightarrow> r = r')
     \<and> (\<forall>b. (\<exists>r. owned S b r) \<longleftrightarrow> B b \<noteq> None)
     \<and> (\<forall>b buf. B b = Some buf \<longrightarrow> b_refcount buf = 1 \<and> b_dmabuf_fd buf \<ge> 0 \<and> b < nb)"

text \<open>The surfaces that keep an output awake, and the state the emitted events announce.\<close>

definition inhibitors :: "(nat \<Rightarrow> isz_surface option) \<Rightarrow> nat \<Rightarrow> nat set" where
  "inhibitors S out = {r. \<exists>s. S r = Some s \<and> sf_idle_inhibit s \<and> sf_output s = Some out}"

fun idle_announced :: "event list \<Rightarrow> nat \<Rightarrow> bool \<Rightarrow> bool" where
  "idle_announced [] out b = b"
| "idle_announced (ISZ_EVENT_IDLE_INHIBIT_ACTIVE o' # es) out b = idle_announced es out (if o' = out then True else b)"
| "idle_announced (ISZ_EVENT_IDLE_INHIBIT_INACTIVE o' # es) out b = idle_announced es out (if o' = out then False else b)"
| "idle_announced (_ # es) out b = idle_announced es out b"

definition idle_ok :: "(nat \<Rightarrow> isz_surface option) \<Rightarrow> (nat \<Rightarrow> isz_output option) \<Rightarrow> event list \<Rightarrow> bool" where
  "idle_ok S Os ev \<longleftrightarrow> (\<forall>out. case Os out of
       None \<Rightarrow> \<not> idle_announced ev out False
     | Some o' \<Rightarrow> o_idle_inhibit_count o' = int (card (inhibitors S out))
         \<and> idle_announced ev out False = (o_idle_inhibit_count o' > 0))"

definition surfaces_ok :: "world \<Rightarrow> bool" where
  "surfaces_ok w \<longleftrightarrow> w_state w \<noteq> ISZ_SERVER_DESTROYING
     \<and> distinct (w_surface_list w) \<and> set (w_surface_list w) = dom (w_surfaces w)
     \<and> (\<forall>r s. w_surfaces w r = Some s \<longrightarrow> r < w_next_surface w \<and> surf_ok w s)"

definition render_ok :: "world \<Rightarrow> bool" where
  "render_ok w \<longleftrightarrow> surfaces_ok w \<and> bufs_ok (w_surfaces w) (bs_bufs w) (bs_next_buf w)
     \<and> idle_ok (w_surfaces w) (w_outputs w) (w_events w) \<and> resv_ok (w_resv w)"

lemma surfaces_okD:
  assumes "surfaces_ok w" "w_surfaces w r = Some s"
  shows "surf_ok w s" "r < w_next_surface w" "r \<in> set (w_surface_list w)"
  using assms by (auto simp: surfaces_ok_def)

lemma render_okD:
  assumes "render_ok w"
  shows "surfaces_ok w" "bufs_ok (w_surfaces w) (bs_bufs w) (bs_next_buf w)"
    "idle_ok (w_surfaces w) (w_outputs w) (w_events w)" "resv_ok (w_resv w)"
  using assms by (auto simp: render_ok_def)

lemma finite_inhibitors:
  assumes "surfaces_ok w"
  shows "finite (inhibitors (w_surfaces w) out)"
proof (rule finite_subset)
  show "inhibitors (w_surfaces w) out \<subseteq> set (w_surface_list w)"
    using assms by (auto simp: inhibitors_def surfaces_ok_def)
qed simp

lemma surf_ok_io: "io_frame w w' \<Longrightarrow> surf_ok w' s = surf_ok w s"
  by (auto simp: surf_ok_def io_frame_fields io_frame_conn_live)

lemma render_ok_io:
  assumes "io_frame w w'"
  shows "render_ok w' = render_ok w"
  by (simp add: render_ok_def surfaces_ok_def io_frame_fields [OF assms] surf_ok_io [OF assms])

lemma idle_announced_append: "idle_announced (xs @ ys) out b = idle_announced ys out (idle_announced xs out b)"
  by (induction xs out b rule: idle_announced.induct) auto

lemma idle_ok_event:
  assumes "\<And>out b. idle_announced [e] out b = b"
  shows "idle_ok S Os (ev @ [e]) = idle_ok S Os ev"
proof -
  have eq: "idle_announced (ev @ [e]) out False = idle_announced ev out False" for out
    by (simp add: idle_announced_append assms)
  show ?thesis unfolding idle_ok_def eq by (rule refl)
qed

subsection \<open>Idle-inhibit accounting\<close>

lemma surface_list_live:
  assumes "surfaces_ok w"
  shows "\<forall>r \<in> set (w_surface_list w). \<exists>s. w_surfaces w r = Some s \<and> (\<forall>c. sf_owning_conn s = Some c \<longrightarrow> w_conns w c \<noteq> None)"
  using assms by (auto simp: surfaces_ok_def surf_ok_def dom_def)

text \<open>The state after the adjustment, up to what the notifications do to the connections.\<close>

definition adjust_event :: "nat \<Rightarrow> int \<Rightarrow> int \<Rightarrow> event list" where
  "adjust_event r before after =
     (if before = 0 \<and> after > 0 then [ISZ_EVENT_IDLE_INHIBIT_ACTIVE r]
      else if before > 0 \<and> after = 0 then [ISZ_EVENT_IDLE_INHIBIT_INACTIVE r] else [])"

definition adjusted :: "world \<Rightarrow> nat \<Rightarrow> isz_output \<Rightarrow> int \<Rightarrow> world" where
  "adjusted w r o' d =
     (upd_output w r (o'\<lparr>o_idle_inhibit_count := o_idle_inhibit_count o' + d\<rparr>))
       \<lparr>w_events := w_events w @ adjust_event r (o_idle_inhibit_count o') (o_idle_inhibit_count o' + d)\<rparr>"

lemma adjusted_fields [simp]:
  "w_surfaces (adjusted w r o' d) = w_surfaces w" "w_surface_list (adjusted w r o' d) = w_surface_list w"
  "w_next_surface (adjusted w r o' d) = w_next_surface w" "w_children (adjusted w r o' d) = w_children w"
  "w_conns (adjusted w r o' d) = w_conns w" "w_state (adjusted w r o' d) = w_state w"
  "bs_bufs (adjusted w r o' d) = bs_bufs w" "bs_next_buf (adjusted w r o' d) = bs_next_buf w"
  "w_resv (adjusted w r o' d) = w_resv w"
  "w_outputs (adjusted w r o' d) = (w_outputs w)(r \<mapsto> o'\<lparr>o_idle_inhibit_count := o_idle_inhibit_count o' + d\<rparr>)"
  "w_events (adjusted w r o' d) = w_events w @ adjust_event r (o_idle_inhibit_count o') (o_idle_inhibit_count o' + d)"
  by (simp_all add: adjusted_def upd_output_def)

lemma isz_surface_inhibit_adjust_spec:
  assumes "surfaces_ok w" "w_outputs w r = Some o'" "d \<noteq> 0"
  shows "\<exists>w'. isz_surface_inhibit_adjust w (Some r) d = Some w' \<and> io_frame (adjusted w r o' d) w'"
proof -
  let ?a = "adjusted w r o' d"
  have live: "\<forall>r \<in> set (w_surface_list ?a). \<exists>s. w_surfaces ?a r = Some s
      \<and> (\<forall>c. sf_owning_conn s = Some c \<longrightarrow> w_conns ?a c \<noteq> None)"
    using surface_list_live [OF assms(1)] by simp
  have snd: "\<exists>w'. isz_render_send_idle_inhibit ?a (Some r) b = Some w' \<and> io_frame ?a w'" for b
    using idle_inhibit_loop_frame [OF live] by (simp add: isz_render_send_idle_inhibit_def)
  have run: "w_state w \<noteq> ISZ_SERVER_DESTROYING" using assms(1) by (simp add: surfaces_ok_def)
  define o2 where "o2 = o'\<lparr>o_idle_inhibit_count := o_idle_inhibit_count o' + d\<rparr>"
  have emit: "isz_server_emit_event (upd_output w r o2) e = upd_output w r o2\<lparr>w_events := w_events w @ [e]\<rparr>" for e
    using run by (simp add: isz_server_emit_event_def upd_output_def)
  consider (act) "o_idle_inhibit_count o' = 0" "o_idle_inhibit_count o' + d > 0"
    | (inact) "o_idle_inhibit_count o' > 0" "o_idle_inhibit_count o' + d = 0"
    | (quiet) "\<not> (o_idle_inhibit_count o' = 0 \<and> o_idle_inhibit_count o' + d > 0)"
        "\<not> (o_idle_inhibit_count o' > 0 \<and> o_idle_inhibit_count o' + d = 0)" by blast
  then show ?thesis
  proof cases
    case act
    then have "?a = upd_output w r o2\<lparr>w_events := w_events w @ [ISZ_EVENT_IDLE_INHIBIT_ACTIVE r]\<rparr>"
      by (simp add: adjusted_def adjust_event_def o2_def upd_output_def)
    with act assms snd [of True] emit show ?thesis
      by (simp add: isz_surface_inhibit_adjust_def o2_def)
  next
    case inact
    then have "?a = upd_output w r o2\<lparr>w_events := w_events w @ [ISZ_EVENT_IDLE_INHIBIT_INACTIVE r]\<rparr>"
      by (simp add: adjusted_def adjust_event_def o2_def upd_output_def)
    with inact assms snd [of False] emit show ?thesis
      by (simp add: isz_surface_inhibit_adjust_def o2_def)
  next
    case quiet
    then have "isz_surface_inhibit_adjust w (Some r) d = Some (upd_output w r o2)"
      using assms by (auto simp: isz_surface_inhibit_adjust_def o2_def Let_def)
    moreover have "?a = upd_output w r o2"
      using quiet by (auto simp: adjusted_def adjust_event_def o2_def upd_output_def)
    ultimately show ?thesis by simp
  qed
qed

text \<open>The output a surface keeps awake. Every operation moves at most one contribution.\<close>

definition contrib :: "isz_surface \<Rightarrow> nat option" where
  "contrib s = (if sf_idle_inhibit s then sf_output s else None)"

lemma inhibitors_contrib: "r \<in> inhibitors S out \<longleftrightarrow> (\<exists>s. S r = Some s \<and> contrib s = Some out)"
  by (auto simp: inhibitors_def contrib_def)

lemma idle_announced_adjust:
  "idle_announced (ev @ adjust_event out b a) x f =
     (if x = out \<and> b = 0 \<and> a > 0 then True else if x = out \<and> b > 0 \<and> a = 0 then False
      else idle_announced ev x f)"
  by (auto simp: idle_announced_append adjust_event_def)

lemma idle_okD:
  "idle_ok S Os ev \<Longrightarrow> Os out = Some o' \<Longrightarrow> o_idle_inhibit_count o' = int (card (inhibitors S out))
     \<and> idle_announced ev out False = (o_idle_inhibit_count o' > 0)"
  unfolding idle_ok_def by (erule allE [of _ out]) simp

lemma idle_okD_None: "idle_ok S Os ev \<Longrightarrow> Os out = None \<Longrightarrow> \<not> idle_announced ev out False"
  unfolding idle_ok_def by (erule allE [of _ out]) simp

lemma idle_ok_same:
  assumes "idle_ok S Os ev" "(case S r of None \<Rightarrow> None | Some s \<Rightarrow> contrib s) = (case x of None \<Rightarrow> None | Some s \<Rightarrow> contrib s)"
  shows "idle_ok (S(r := x)) Os ev"
proof -
  have eq: "inhibitors (S(r := x)) out = inhibitors S out" for out
    using assms(2) by (auto simp: inhibitors_contrib set_eq_iff split: option.splits)
  show ?thesis using assms(1) unfolding idle_ok_def eq .
qed

lemma idle_ok_adjust:
  assumes "idle_ok S Os ev" "Os out = Some o'"
    and "inhibitors S' out = insert r (inhibitors S out) \<and> r \<notin> inhibitors S out \<and> finite (inhibitors S out) \<and> d = 1
       \<or> inhibitors S out = insert r (inhibitors S' out) \<and> r \<notin> inhibitors S' out \<and> finite (inhibitors S' out) \<and> d = -1"
    and "\<And>x. x \<noteq> out \<Longrightarrow> inhibitors S' x = inhibitors S x"
  shows "idle_ok S' (Os(out \<mapsto> o'\<lparr>o_idle_inhibit_count := o_idle_inhibit_count o' + d\<rparr>))
    (ev @ adjust_event out (o_idle_inhibit_count o') (o_idle_inhibit_count o' + d))"
  unfolding idle_ok_def
proof
  fix x
  show "case (Os(out \<mapsto> o'\<lparr>o_idle_inhibit_count := o_idle_inhibit_count o' + d\<rparr>)) x of
      None \<Rightarrow> \<not> idle_announced (ev @ adjust_event out (o_idle_inhibit_count o') (o_idle_inhibit_count o' + d)) x False
    | Some p \<Rightarrow> o_idle_inhibit_count p = int (card (inhibitors S' x))
        \<and> idle_announced (ev @ adjust_event out (o_idle_inhibit_count o') (o_idle_inhibit_count o' + d)) x False
           = (o_idle_inhibit_count p > 0)"
  proof (cases "x = out")
    case True
    then show ?thesis using assms(3) idle_okD [OF assms(1,2)] by (auto simp: idle_announced_adjust)
  next
    case False
    then show ?thesis
      using assms(4) idle_okD [OF assms(1), of x] idle_okD_None [OF assms(1), of x]
      by (auto simp: idle_announced_adjust split: option.splits)
  qed
qed

lemma idle_ok_drop:
  assumes "idle_ok S Os ev" "Os out = Some o'" "S r = Some s" "contrib s = Some out" "finite (inhibitors S out)"
    "(case x of None \<Rightarrow> None | Some s \<Rightarrow> contrib s) = None"
  shows "idle_ok (S(r := x)) (Os(out \<mapsto> o'\<lparr>o_idle_inhibit_count := o_idle_inhibit_count o' + -1\<rparr>))
    (ev @ adjust_event out (o_idle_inhibit_count o') (o_idle_inhibit_count o' + -1))"
proof (rule idle_ok_adjust [OF assms(1,2), where r = r])
  have eq: "inhibitors (S(r := x)) y = inhibitors S y - {r}" for y
    using assms(6) by (auto simp: inhibitors_contrib set_eq_iff split: option.splits)
  have "r \<in> inhibitors S out" using assms(3,4) by (simp add: inhibitors_contrib)
  then show "inhibitors (S(r := x)) out = insert r (inhibitors S out) \<and> r \<notin> inhibitors S out \<and> finite (inhibitors S out) \<and> (- 1 :: int) = 1
       \<or> inhibitors S out = insert r (inhibitors (S(r := x)) out) \<and> r \<notin> inhibitors (S(r := x)) out
          \<and> finite (inhibitors (S(r := x)) out) \<and> (- 1 :: int) = - 1"
    using assms(5) by (auto simp: eq)
  show "inhibitors (S(r := x)) y = inhibitors S y" if "y \<noteq> out" for y
    using that assms(3,4) by (auto simp: eq inhibitors_contrib)
qed

lemma idle_ok_gain:
  assumes "idle_ok S Os ev" "Os out = Some o'" "(case S r of None \<Rightarrow> None | Some s \<Rightarrow> contrib s) = None"
    "contrib s' = Some out" "finite (inhibitors S out)"
  shows "idle_ok (S(r \<mapsto> s')) (Os(out \<mapsto> o'\<lparr>o_idle_inhibit_count := o_idle_inhibit_count o' + 1\<rparr>))
    (ev @ adjust_event out (o_idle_inhibit_count o') (o_idle_inhibit_count o' + 1))"
proof (rule idle_ok_adjust [OF assms(1,2), where r = r])
  have notin: "r \<notin> inhibitors S y" for y
    using assms(3) by (auto simp: inhibitors_contrib split: option.splits)
  have eq: "inhibitors (S(r \<mapsto> s')) y = (if y = out then insert r (inhibitors S y) else inhibitors S y)" for y
    using assms(4) notin [of y] by (auto simp: inhibitors_contrib split: if_splits)
  show "inhibitors (S(r \<mapsto> s')) out = insert r (inhibitors S out) \<and> r \<notin> inhibitors S out \<and> finite (inhibitors S out) \<and> (1 :: int) = 1
       \<or> inhibitors S out = insert r (inhibitors (S(r \<mapsto> s')) out) \<and> r \<notin> inhibitors (S(r \<mapsto> s')) out
          \<and> finite (inhibitors (S(r \<mapsto> s')) out) \<and> (1 :: int) = - 1"
    using assms(5) notin by (simp add: eq)
  show "inhibitors (S(r \<mapsto> s')) y = inhibitors S y" if "y \<noteq> out" for y
    using that by (simp add: eq)
qed

subsection \<open>Buffer ownership\<close>

lemma bufs_okD:
  assumes "bufs_ok S B nb" "S r = Some s" "b \<in> surf_bufs s"
  shows "\<exists>buf. B b = Some buf \<and> b_refcount buf = 1 \<and> b_dmabuf_fd buf \<ge> 0 \<and> b < nb"
proof -
  have "owned S b r" using assms(2,3) by (auto simp: owned_def)
  with assms(1) obtain buf where "B b = Some buf" unfolding bufs_ok_def by blast
  with assms(1) show ?thesis unfolding bufs_ok_def by blast
qed

lemma owned_upd: "owned (S(r := x)) b r' = (if r' = r then (\<exists>s. x = Some s \<and> b \<in> surf_bufs s) else owned S b r')"
  by (auto simp: owned_def)

lemma bufs_ok_same:
  assumes "bufs_ok S B nb"
    "(case S r of None \<Rightarrow> {} | Some s \<Rightarrow> surf_bufs s) = (case x of None \<Rightarrow> {} | Some s \<Rightarrow> surf_bufs s)"
  shows "bufs_ok (S(r := x)) B nb"
proof -
  have "owned (S(r := x)) b r' = owned S b r'" for b r'
    using assms(2) by (auto simp: owned_def split: option.splits)
  with assms(1) show ?thesis by (simp add: bufs_ok_def)
qed

lemma bufs_ok_release:
  assumes "bufs_ok S B nb" "S r = Some s" "b \<in> surf_bufs s" "surf_bufs s' = surf_bufs s - {b}"
  shows "bufs_ok (S(r \<mapsto> s')) (B(b := None)) nb"
proof -
  have "owned S b r" using assms(2,3) by (auto simp: owned_def)
  then have uniq: "r' = r" if "owned S b r'" for r' using assms(1) that unfolding bufs_ok_def by blast
  have at: "owned S x r \<longleftrightarrow> x \<in> surf_bufs s" for x using assms(2) by (simp add: owned_def)
  have own: "owned (S(r \<mapsto> s')) x r' \<longleftrightarrow> x \<noteq> b \<and> owned S x r'" for x r'
    using uniq assms(4) by (cases "r' = r") (auto simp: owned_upd at)
  show ?thesis using assms(1) unfolding bufs_ok_def own by (simp add: fun_upd_apply) blast
qed

lemma bufs_ok_new:
  assumes "bufs_ok S B nb" "S r = Some s" "surf_bufs s' = insert nb (surf_bufs s)"
    "b_refcount buf = 1" "b_dmabuf_fd buf \<ge> 0"
  shows "bufs_ok (S(r \<mapsto> s')) (B(nb \<mapsto> buf)) (nb + 1)"
proof -
  have fresh: "\<not> owned S nb r'" for r' using assms(1) unfolding bufs_ok_def by (metis less_irrefl option.exhaust)
  have own: "owned (S(r \<mapsto> s')) x r' \<longleftrightarrow> owned S x r' \<or> x = nb \<and> r' = r" for x r'
    using assms(2,3) by (auto simp: owned_def)
  show ?thesis
    using assms(1,4,5) fresh unfolding bufs_ok_def own by (auto simp: less_Suc_eq)
qed

definition released :: "world \<Rightarrow> nat \<Rightarrow> buffer \<Rightarrow> world" where
  "released w b buf = w\<lparr>k_closed := k_closed w @ [b_dmabuf_fd buf], bs_bufs := (bs_bufs w)(b := None),
     bs_pending := remove1 b (bs_pending w)\<rparr>"

lemma release_unref_eq:
  assumes "bs_bufs w b = Some buf" "b_refcount buf = 1" "b_dmabuf_fd buf \<ge> 0"
  shows "release_unref w (Some b) = Some (released w b buf)"
  using assms by (simp add: release_unref_def isz_buffer_release_def isz_buffer_unref_def upd_buf_def
      released_def k_close_def)

lemma released_fields [simp]:
  "w_surfaces (released w b buf) = w_surfaces w" "w_surface_list (released w b buf) = w_surface_list w"
  "w_next_surface (released w b buf) = w_next_surface w" "w_children (released w b buf) = w_children w"
  "w_conns (released w b buf) = w_conns w" "w_state (released w b buf) = w_state w"
  "bs_next_buf (released w b buf) = bs_next_buf w" "w_resv (released w b buf) = w_resv w"
  "w_outputs (released w b buf) = w_outputs w" "w_events (released w b buf) = w_events w"
  "bs_bufs (released w b buf) = (bs_bufs w)(b := None)"
  by (simp_all add: released_def)

subsection \<open>What the operations on an existing surface leave alone\<close>

definition surf_id :: "isz_surface \<Rightarrow> nat option \<times> u32 \<times> isz_surface_kind \<times> nat option" where
  "surf_id s = (sf_owning_conn s, sf_object_id s, sf_kind s, sf_parent s)"

definition render_frame :: "world \<Rightarrow> world \<Rightarrow> bool" where
  "render_frame w w' \<longleftrightarrow>
     kern.more (w'\<lparr>bs_bufs := bs_bufs w, bs_next_buf := bs_next_buf w, bs_pending := bs_pending w,
                   w_conns := w_conns w, w_surfaces := w_surfaces w, w_outputs := w_outputs w,
                   w_resv := w_resv w, w_events := w_events w\<rparr>) = kern.more w
     \<and> (\<forall>r. rel_option conn_io (w_conns w r) (w_conns w' r))
     \<and> (\<forall>r. map_option surf_id (w_surfaces w' r) = map_option surf_id (w_surfaces w r))
     \<and> (\<forall>r. map_option (o_idle_inhibit_count_update (\<lambda>_. 0)) (w_outputs w' r)
             = map_option (o_idle_inhibit_count_update (\<lambda>_. 0)) (w_outputs w r))"

lemma render_frame_refl [simp]: "render_frame w w"
  by (simp add: render_frame_def option.rel_refl)

lemma render_frame_trans [trans]:
  assumes "render_frame a b" "render_frame b c"
  shows "render_frame a c"
proof -
  have "kern.more (c\<lparr>bs_bufs := bs_bufs a, bs_next_buf := bs_next_buf a, bs_pending := bs_pending a,
                   w_conns := w_conns a, w_surfaces := w_surfaces a, w_outputs := w_outputs a,
                   w_resv := w_resv a, w_events := w_events a\<rparr>)
      = kern.more (b\<lparr>bs_bufs := bs_bufs a, bs_next_buf := bs_next_buf a, bs_pending := bs_pending a,
                   w_conns := w_conns a, w_surfaces := w_surfaces a, w_outputs := w_outputs a,
                   w_resv := w_resv a, w_events := w_events a\<rparr>)"
    using assms(2) unfolding render_frame_def by (cases a; cases b; cases c) simp
  moreover have "rel_option conn_io (w_conns a r) (w_conns c r)" for r
    using assms by (auto simp: render_frame_def intro: rel_conn_io_trans)
  ultimately show ?thesis using assms by (simp add: render_frame_def)
qed

lemma render_frame_io: "io_frame w w' \<Longrightarrow> render_frame w w'"
  by (cases w; cases w') (simp add: io_frame_def render_frame_def)

lemma render_frame_surface:
  "w_surfaces w r = Some s \<Longrightarrow> surf_id s' = surf_id s \<Longrightarrow> render_frame w (upd_surface w r s')"
  by (cases w) (simp add: render_frame_def upd_surface_def option.rel_refl)

lemma render_frame_adjusted: "w_outputs w r = Some o' \<Longrightarrow> render_frame w (adjusted w r o' d)"
  by (cases w) (simp add: render_frame_def adjusted_def upd_output_def option.rel_refl)

lemma render_frame_released: "render_frame w (released w b buf)"
  by (cases w) (simp add: render_frame_def released_def option.rel_refl)

lemma render_frame_slot_release: "render_frame w (isz_plane_slot_release w out i r)"
  by (cases w) (simp add: render_frame_def isz_plane_slot_release_def option.rel_refl split: option.splits)

lemma render_frame_more: "kern.more w' = kern.more w \<Longrightarrow> render_frame w w'"
  by (cases w; cases w') (simp add: render_frame_def option.rel_refl)

lemma render_frame_alloc: "k_alloc w = (w', b) \<Longrightarrow> render_frame w w'"
  using kern_more_alloc [of w] by (auto intro: render_frame_more)

lemma render_frame_fields:
  assumes "render_frame w w'"
  shows "w_state w' = w_state w" "w_backend w' = w_backend w"
    "w_output_list w' = w_output_list w" "w_next_output w' = w_next_output w"
    "w_next_output_id w' = w_next_output_id w" "w_output_list_count w' = w_output_list_count w"
    "w_surface_list w' = w_surface_list w"
    "w_next_surface w' = w_next_surface w" "w_children w' = w_children w"
    "w_next_surface_serial w' = w_next_surface_serial w"
    "w_next_conn w' = w_next_conn w" "w_clients w' = w_clients w" "w_client_list w' = w_client_list w"
    "w_next_client w' = w_next_client w" "w_captures w' = w_captures w"
    "w_consents w' = w_consents w" "w_input_state w' = w_input_state w" "w_seats w' = w_seats w"
    "w_seat_list w' = w_seat_list w" "w_next_seat w' = w_next_seat w"
    "w_default_seat w' = w_default_seat w" "w_clipboard w' = w_clipboard w"
    "w_selection_fd w' = w_selection_fd w"
    "w_text_inputs w' = w_text_inputs w" "w_next_text_input w' = w_next_text_input w" "w_listen_fd w' = w_listen_fd w"
    "w_input_methods w' = w_input_methods w" "w_next_input_method w' = w_next_input_method w"
    "w_allow_binaries w' = w_allow_binaries w" "w_allow_cgroups w' = w_allow_cgroups w"
  using kern_more_world [OF conjunct1 [OF assms [unfolded render_frame_def]]] by simp_all

lemma render_frame_maps:
  assumes "render_frame w w'"
  shows "rel_option conn_io (w_conns w r) (w_conns w' r)"
    "map_option surf_id (w_surfaces w' r) = map_option surf_id (w_surfaces w r)"
    "map_option (o_idle_inhibit_count_update (\<lambda>_. 0)) (w_outputs w' r)
             = map_option (o_idle_inhibit_count_update (\<lambda>_. 0)) (w_outputs w r)"
  using assms by (auto simp: render_frame_def)

lemma render_frame_live:
  assumes "render_frame w w'"
  shows "(w_conns w' r = None) = (w_conns w r = None)" "(w_surfaces w' r = None) = (w_surfaces w r = None)"
    "(w_outputs w' r = None) = (w_outputs w r = None)"
  using render_frame_maps [OF assms, of r] by (auto elim: option.rel_cases)

subsection \<open>Preservation\<close>

lemma surf_ok_frame: "render_frame w w' \<Longrightarrow> surf_ok w' s = surf_ok w s"
  by (simp add: surf_ok_def render_frame_live)

lemma surfaces_ok_frame:
  assumes "surfaces_ok w" "render_frame w w'"
    and "\<And>r s. w_surfaces w' r = Some s \<Longrightarrow> w_surfaces w r = Some s \<or> surf_ok w s"
  shows "surfaces_ok w'"
proof -
  have "dom (w_surfaces w') = dom (w_surfaces w)"
    using render_frame_live(2) [OF assms(2)] by (auto simp: dom_def)
  moreover have "r < w_next_surface w' \<and> surf_ok w' s" if "w_surfaces w' r = Some s" for r s
  proof -
    have "w_surfaces w r \<noteq> None" using that render_frame_live(2) [OF assms(2), of r] by simp
    then obtain s0 where "w_surfaces w r = Some s0" by blast
    with surfaces_okD [OF assms(1)] assms(3) [OF that] show ?thesis
      by (auto simp: surf_ok_frame [OF assms(2)] render_frame_fields [OF assms(2)])
  qed
  ultimately show ?thesis
    using assms(1) by (simp add: surfaces_ok_def render_frame_fields [OF assms(2)])
qed

text \<open>Changing one surface without touching its buffers or its idle contribution.\<close>

lemma render_ok_upd_surface:
  assumes "render_ok w" "w_surfaces w r = Some s" "surf_ok w s'" "surf_id s' = surf_id s"
    "surf_bufs s' = surf_bufs s" "contrib s' = contrib s"
  shows "render_ok (upd_surface w r s')" "render_frame w (upd_surface w r s')"
proof -
  show fr: "render_frame w (upd_surface w r s')" by (rule render_frame_surface [OF assms(2,4)])
  have "surfaces_ok (upd_surface w r s')"
    by (rule surfaces_ok_frame [OF render_okD(1) [OF assms(1)] fr])
      (use assms(3) in \<open>auto simp: upd_surface_def split: if_splits\<close>)
  moreover have "bufs_ok ((w_surfaces w)(r \<mapsto> s')) (bs_bufs w) (bs_next_buf w)"
    by (rule bufs_ok_same [OF render_okD(2) [OF assms(1)]]) (simp add: assms)
  moreover have "idle_ok ((w_surfaces w)(r \<mapsto> s')) (w_outputs w) (w_events w)"
    by (rule idle_ok_same [OF render_okD(3) [OF assms(1)]]) (simp add: assms)
  ultimately show "render_ok (upd_surface w r s')"
    using assms(1) by (simp add: render_ok_def upd_surface_def)
qed

lemma render_ok_more:
  assumes "render_ok w" "kern.more w' = kern.more w"
  shows "render_ok w'"
proof -
  note f = kern_more_world [OF assms(2)]
  show ?thesis using assms(1) by (simp add: render_ok_def surfaces_ok_def surf_ok_def f)
qed

text \<open>An operation that is safe, keeps the invariant and stays within the frame.\<close>

definition op_ok :: "world \<Rightarrow> (world \<times> 'r) option \<Rightarrow> bool" where
  "op_ok w res \<longleftrightarrow> (\<exists>w' x. res = Some (w', x) \<and> render_ok w' \<and> render_frame w w')"

lemma op_okI: "render_ok w' \<Longrightarrow> render_frame w w' \<Longrightarrow> op_ok w (Some (w', x))"
  by (simp add: op_ok_def)

definition live_or_NULL :: "world \<Rightarrow> nat option \<Rightarrow> bool" where
  "live_or_NULL w surf \<longleftrightarrow> (\<forall>r. surf = Some r \<longrightarrow> w_surfaces w r \<noteq> None)"

lemma with_surface_ok:
  assumes "render_ok w" "live_or_NULL w surf"
    "\<And>r s. surf = Some r \<Longrightarrow> w_surfaces w r = Some s \<Longrightarrow> surf_ok w s \<Longrightarrow> op_ok w (f r s)"
  shows "op_ok w (with_surface w surf f)"
proof (cases surf)
  case None
  with assms(1) show ?thesis by (simp add: with_surface_def op_okI)
next
  case (Some r)
  with assms(2) obtain s where s: "w_surfaces w r = Some s" by (auto simp: live_or_NULL_def)
  with assms(3) [OF Some s surfaces_okD(1) [OF render_okD(1) [OF assms(1)] s]] Some
  show ?thesis by (simp add: with_surface_def)
qed

lemma upd_surface_op_ok:
  assumes "render_ok w" "w_surfaces w r = Some s" "surf_ok w s'" "surf_id s' = surf_id s"
    "surf_bufs s' = surf_bufs s" "contrib s' = contrib s"
  shows "op_ok w (Some (upd_surface w r s', x))"
  using render_ok_upd_surface [OF assms] by (rule op_okI)

lemmas surf_view = surf_ok_def surf_id_def surf_bufs_def contrib_def

named_theorems surface_ops \<open>safety of the operations on a surface\<close>

lemma plain_setters_ok [surface_ops]:
  assumes "render_ok w" "live_or_NULL w surf"
  shows "op_ok w (isz_surface_set_position w surf x y)"
    "op_ok w (isz_surface_set_size w surf x y)"
    "op_ok w (isz_surface_set_plane_type w surf x)"
    "op_ok w (isz_surface_set_plane_slot w surf x)"
    "op_ok w (isz_surface_set_zpos w surf x)"
    "op_ok w (isz_surface_set_transform w surf x)"
    "op_ok w (isz_surface_set_subsurface_flags w surf f)"
    "op_ok w (isz_surface_set_role w surf x h)"
  unfolding isz_surface_set_position_def isz_surface_set_size_def isz_surface_set_plane_type_def
    isz_surface_set_plane_slot_def isz_surface_set_zpos_def isz_surface_set_transform_def
    isz_surface_set_subsurface_flags_def isz_surface_set_role_def
  by (rule with_surface_ok [OF assms],
      auto split: option.splits intro!: upd_surface_op_ok [OF assms(1)] op_okI [OF assms(1)] simp: surf_view)+

lemma isz_surface_set_scale_ok [surface_ops]:
  assumes "render_ok w" "live_or_NULL w surf"
  shows "op_ok w (isz_surface_set_scale w surf n d)"
  unfolding isz_surface_set_scale_def
proof (rule with_surface_ok [OF assms])
  fix r s
  assume s: "w_surfaces w r = Some s" "surf_ok w s"
  let ?s = "s\<lparr>sf_scale_numerator := n, sf_scale_denominator := d\<rparr>"
  let ?w = "upd_surface w r ?s"
  have w1: "render_ok ?w" "render_frame w ?w"
    using render_ok_upd_surface [OF assms(1) s(1), of ?s] s(2) by (simp_all add: surf_view)
  have "\<exists>w'. isz_send_surface_preferred_scale ?w (sf_owning_conn s) (sf_object_id s) n d = Some w' \<and> io_frame ?w w'"
  proof (cases "sf_owning_conn s")
    case (Some c)
    with s(2) obtain cc where "w_conns ?w c = Some cc" by (auto simp: surf_ok_def upd_surface_def)
    from send_event_frame [OF this] Some show ?thesis by (simp add: sender_eqs)
  qed (simp add: sender_eqs)
  then obtain w' where w': "isz_send_surface_preferred_scale ?w (sf_owning_conn s) (sf_object_id s) n d = Some w'"
    "io_frame ?w w'" by blast
  have "render_ok w'" "render_frame w w'"
    using w1 render_ok_io [OF w'(2)] render_frame_trans [OF w1(2) render_frame_io [OF w'(2)]] by simp_all
  with w1 w'(1) assms(1) show "op_ok w (if d = 0 then Some (w, ISZ_ERR_INVALID_ARG)
      else do { let w = ?w;
                w \<leftarrow> (if sf_owning_conn s \<noteq> None \<and> sf_object_id s \<noteq> 0
                      then isz_send_surface_preferred_scale w (sf_owning_conn s) (sf_object_id s) n d else Some w);
                Some (w, ISZ_OK) })"
    by (auto simp: op_ok_def Let_def)
qed

subsection \<open>Moving the idle contribution\<close>

lemma io_frame_upd_surface: "io_frame a b \<Longrightarrow> io_frame (upd_surface a r s) (upd_surface b r s)"
  by (cases a; cases b) (simp add: io_frame_def upd_surface_def)

lemma render_ok_moved:
  assumes "render_ok w" "w_surfaces w r = Some s" "surf_ok w s'" "surf_id s' = surf_id s"
    "surf_bufs s' = surf_bufs s"
    and fr: "render_frame w w'" and eqs: "w_surfaces w' = w_surfaces w" "bs_bufs w' = bs_bufs w"
      "bs_next_buf w' = bs_next_buf w" "resv_ok (w_resv w')"
    and idle: "idle_ok ((w_surfaces w)(r \<mapsto> s')) (w_outputs w') (w_events w')"
  shows "render_ok (upd_surface w' r s')" "render_frame w (upd_surface w' r s')"
proof -
  have "render_frame w' (upd_surface w' r s')"
    using render_frame_surface [of w' r s s'] assms(2,4) eqs(1) by simp
  then show fr': "render_frame w (upd_surface w' r s')" by (rule render_frame_trans [OF fr])
  have "surfaces_ok (upd_surface w' r s')"
    by (rule surfaces_ok_frame [OF render_okD(1) [OF assms(1)] fr'])
      (use assms(3) eqs(1) in \<open>auto simp: upd_surface_def split: if_splits\<close>)
  moreover have "bufs_ok ((w_surfaces w)(r \<mapsto> s')) (bs_bufs w) (bs_next_buf w)"
    by (rule bufs_ok_same [OF render_okD(2) [OF assms(1)]]) (simp add: assms)
  ultimately show "render_ok (upd_surface w' r s')"
    using eqs idle by (simp add: render_ok_def upd_surface_def)
qed

text \<open>The adjustment a surface needs before its contribution changes: the old output loses it, the
  new one gains it.\<close>

lemma adjust_drop:
  assumes "render_ok w" "w_surfaces w r = Some s" "contrib s = Some out"
    "(case x of None \<Rightarrow> None | Some s \<Rightarrow> contrib s) = None"
  shows "\<exists>w'. isz_surface_inhibit_adjust w (Some out) (-1) = Some w' \<and> render_frame w w'
    \<and> w_surfaces w' = w_surfaces w \<and> bs_bufs w' = bs_bufs w \<and> bs_next_buf w' = bs_next_buf w
    \<and> w_resv w' = w_resv w \<and> idle_ok ((w_surfaces w)(r := x)) (w_outputs w') (w_events w')"
proof -
  note ok = render_okD [OF assms(1)]
  have "sf_output s = Some out" using assms(3) by (simp add: contrib_def split: if_splits)
  then obtain o' where o': "w_outputs w out = Some o'"
    using surfaces_okD(1) [OF ok(1) assms(2)] by (auto simp: surf_ok_def)
  from isz_surface_inhibit_adjust_spec [OF ok(1) o', of "-1"] obtain w' where
    w': "isz_surface_inhibit_adjust w (Some out) (-1) = Some w'" "io_frame (adjusted w out o' (-1)) w'" by auto
  have "render_frame w w'"
    by (rule render_frame_trans [OF render_frame_adjusted [OF o'] render_frame_io [OF w'(2)]])
  moreover have "idle_ok ((w_surfaces w)(r := x)) (w_outputs w') (w_events w')"
    using idle_ok_drop [OF ok(3) o' assms(2,3) finite_inhibitors [OF ok(1)] assms(4)]
    by (simp add: io_frame_fields [OF w'(2)])
  ultimately show ?thesis using w'(1) by (auto simp: io_frame_fields [OF w'(2)])
qed

lemma adjust_gain:
  assumes "surfaces_ok w" "idle_ok S (w_outputs w) (w_events w)" "w_outputs w out \<noteq> None"
    "(case S r of None \<Rightarrow> None | Some s \<Rightarrow> contrib s) = None" "contrib s' = Some out" "finite (inhibitors S out)"
  shows "\<exists>w'. isz_surface_inhibit_adjust w (Some out) 1 = Some w' \<and> render_frame w w'
    \<and> w_surfaces w' = w_surfaces w \<and> bs_bufs w' = bs_bufs w \<and> bs_next_buf w' = bs_next_buf w
    \<and> w_resv w' = w_resv w \<and> idle_ok (S(r \<mapsto> s')) (w_outputs w') (w_events w')"
proof -
  from assms(3) obtain o' where o': "w_outputs w out = Some o'" by auto
  from isz_surface_inhibit_adjust_spec [OF assms(1) o', of 1] obtain w' where
    w': "isz_surface_inhibit_adjust w (Some out) 1 = Some w'" "io_frame (adjusted w out o' 1) w'" by auto
  have "render_frame w w'"
    by (rule render_frame_trans [OF render_frame_adjusted [OF o'] render_frame_io [OF w'(2)]])
  moreover have "idle_ok (S(r \<mapsto> s')) (w_outputs w') (w_events w')"
    using idle_ok_gain [OF assms(2) o' assms(4,5,6)] by (simp add: io_frame_fields [OF w'(2)])
  ultimately show ?thesis using w'(1) by (auto simp: io_frame_fields [OF w'(2)])
qed

lemma isz_surface_set_idle_inhibit_ok [surface_ops]:
  assumes "render_ok w" "live_or_NULL w surf"
  shows "op_ok w (isz_surface_set_idle_inhibit w surf b)"
  unfolding isz_surface_set_idle_inhibit_def
proof (rule with_surface_ok [OF assms])
  fix r s
  assume s: "w_surfaces w r = Some s" "surf_ok w s"
  let ?s = "s\<lparr>sf_idle_inhibit := b\<rparr>" and ?d = "if b then 1 else -1 :: int"
  note ok = render_okD [OF assms(1)]
  have s': "surf_ok w ?s" "surf_id ?s = surf_id s" "surf_bufs ?s = surf_bufs s"
    using s(2) by (simp_all add: surf_view)
  have adj: "\<exists>w'. isz_surface_inhibit_adjust w (sf_output s) ?d = Some w' \<and> render_frame w w'
    \<and> w_surfaces w' = w_surfaces w \<and> bs_bufs w' = bs_bufs w \<and> bs_next_buf w' = bs_next_buf w
    \<and> w_resv w' = w_resv w \<and> idle_ok ((w_surfaces w)(r \<mapsto> ?s)) (w_outputs w') (w_events w')"
    if ne: "sf_idle_inhibit s \<noteq> b"
  proof (cases "sf_output s")
    case None
    then have "idle_ok ((w_surfaces w)(r \<mapsto> ?s)) (w_outputs w) (w_events w)"
      by (intro idle_ok_same [OF ok(3)]) (simp add: s contrib_def)
    with None show ?thesis by (simp add: isz_surface_inhibit_adjust_def)
  next
    case (Some out)
    with s(2) have live: "w_outputs w out \<noteq> None" by (simp add: surf_ok_def)
    show ?thesis
    proof (cases b)
      case True
      with adjust_gain [OF ok(1,3) live _ _ finite_inhibitors [OF ok(1)], of r ?s] Some ne s(1)
      show ?thesis by (simp add: contrib_def)
    next
      case False
      with adjust_drop [OF assms(1) s(1), of out "Some ?s"] Some ne show ?thesis by (simp add: contrib_def)
    qed
  qed
  show "op_ok w (if sf_idle_inhibit s = b then Some (w, ISZ_OK)
      else do { w \<leftarrow> isz_surface_inhibit_adjust w (sf_output s) ?d; Some (upd_surface w r ?s, ISZ_OK) })"
  proof (cases "sf_idle_inhibit s = b")
    case True
    then show ?thesis using assms(1) by (simp add: op_okI)
  next
    case False
    with adj obtain w' where w': "isz_surface_inhibit_adjust w (sf_output s) ?d = Some w'" "render_frame w w'"
        "w_surfaces w' = w_surfaces w" "bs_bufs w' = bs_bufs w" "bs_next_buf w' = bs_next_buf w"
        "w_resv w' = w_resv w" "idle_ok ((w_surfaces w)(r \<mapsto> ?s)) (w_outputs w') (w_events w')" by blast
    then have "render_ok (upd_surface w' r ?s)" "render_frame w (upd_surface w' r ?s)"
      using render_ok_moved [OF assms(1) s(1) s' w'(2-5) _ w'(7)] ok(4) by simp_all
    with False w'(1) show ?thesis by (simp add: op_okI)
  qed
qed

text \<open>Clearing or moving the output: the old output loses the contribution first.\<close>

lemma adjust_leave:
  assumes "render_ok w" "w_surfaces w r = Some s"
  shows "\<exists>w'. (if sf_idle_inhibit s then isz_surface_inhibit_adjust w (sf_output s) (-1) else Some w) = Some w'
    \<and> render_frame w w' \<and> w_surfaces w' = w_surfaces w \<and> bs_bufs w' = bs_bufs w \<and> bs_next_buf w' = bs_next_buf w
    \<and> w_resv w' = w_resv w
    \<and> (\<forall>x. (case x of None \<Rightarrow> None | Some s \<Rightarrow> contrib s) = None \<longrightarrow>
          idle_ok ((w_surfaces w)(r := x)) (w_outputs w') (w_events w'))"
proof (cases "contrib s")
  case None
  then have "(if sf_idle_inhibit s then isz_surface_inhibit_adjust w (sf_output s) (-1) else Some w) = Some w"
    by (simp add: contrib_def isz_surface_inhibit_adjust_def split: if_splits)
  moreover have "(case x of None \<Rightarrow> None | Some s \<Rightarrow> contrib s) = None \<longrightarrow>
      idle_ok ((w_surfaces w)(r := x)) (w_outputs w) (w_events w)" for x
    using idle_ok_same [OF render_okD(3) [OF assms(1)], of r x] assms(2) None by simp
  ultimately show ?thesis by simp
next
  case (Some out)
  then have inh: "sf_idle_inhibit s" "sf_output s = Some out" by (auto simp: contrib_def split: if_splits)
  from adjust_drop [OF assms Some, of None] obtain w' where
    w': "isz_surface_inhibit_adjust w (Some out) (-1) = Some w'" "render_frame w w'"
      "w_surfaces w' = w_surfaces w" "bs_bufs w' = bs_bufs w" "bs_next_buf w' = bs_next_buf w" "w_resv w' = w_resv w"
    by auto
  have "(case x of None \<Rightarrow> None | Some s \<Rightarrow> contrib s) = None \<longrightarrow>
      idle_ok ((w_surfaces w)(r := x)) (w_outputs w') (w_events w')" for x
    using adjust_drop [OF assms Some, of x] w'(1) by auto
  with w' inh show ?thesis by simp
qed

lemma render_ok_slot_release:
  assumes "render_ok w"
  shows "render_ok (isz_plane_slot_release w out i r)"
proof -
  have "resv_ok (resv_clear (w_resv w) o' i r)" for o'
    using resv.drop_ok [OF render_okD(4) [OF assms], of "(o', i)" r] by (simp add: resv_drop_def)
  with assms show ?thesis
    by (auto simp: isz_plane_slot_release_def render_ok_def surfaces_ok_def surf_ok_def split: option.splits)
qed

lemma isz_surface_clear_output_ok [surface_ops]:
  assumes "render_ok w" "live_or_NULL w surf"
  shows "op_ok w (isz_surface_clear_output w surf)"
  unfolding isz_surface_clear_output_def
proof (rule with_surface_ok [OF assms])
  fix r s
  assume s: "w_surfaces w r = Some s" "surf_ok w s"
  let ?w = "if sf_plane_slot_set s \<and> sf_output s \<noteq> None
              then isz_plane_slot_release w (sf_output s) (sf_plane_slot s) r else w"
  let ?s = "s\<lparr>sf_output := None\<rparr>"
  have w1: "render_ok ?w" "render_frame w ?w"
    using assms(1) by (simp_all add: render_ok_slot_release render_frame_slot_release)
  have s1: "w_surfaces ?w r = Some s" "surf_ok ?w ?s"
    using s by (simp_all add: isz_plane_slot_release_def surf_view split: option.splits)
  from adjust_leave [OF w1(1) s1(1)] obtain w' where
    w': "(if sf_idle_inhibit s then isz_surface_inhibit_adjust ?w (sf_output s) (-1) else Some ?w) = Some w'"
      "render_frame ?w w'" "w_surfaces w' = w_surfaces ?w" "bs_bufs w' = bs_bufs ?w"
      "bs_next_buf w' = bs_next_buf ?w" "w_resv w' = w_resv ?w"
      "idle_ok ((w_surfaces ?w)(r \<mapsto> ?s)) (w_outputs w') (w_events w')"
    by (auto simp: contrib_def)
  have "render_ok (upd_surface w' r ?s)" "render_frame ?w (upd_surface w' r ?s)"
    using render_ok_moved [OF w1(1) s1 _ _ w'(2-5) _ w'(7)] render_okD(4) [OF w1(1)] w'(6)
    by (simp_all add: surf_view)
  with w'(1) render_frame_trans [OF w1(2)] show "op_ok w (do {
     let w = ?w;
     w \<leftarrow> (if sf_idle_inhibit s then isz_surface_inhibit_adjust w (sf_output s) (-1) else Some w);
     Some (upd_surface w r ?s, ISZ_OK)
   })" unfolding Let_def by (simp add: op_ok_def)
qed

lemma isz_surface_set_output_ok [surface_ops]:
  assumes "render_ok w" "live_or_NULL w surf" "\<And>o'. out = Some o' \<Longrightarrow> w_outputs w o' \<noteq> None"
  shows "op_ok w (isz_surface_set_output w surf out)"
proof (cases "surf = None \<or> out = None")
  case True
  then show ?thesis
    using assms(1) by (auto simp: isz_surface_set_output_def op_okI split: option.splits)
next
  case False
  then obtain r o' where a: "surf = Some r" "out = Some o'" by auto
  with assms(2) obtain s where s: "w_surfaces w r = Some s" by (auto simp: live_or_NULL_def)
  note ok = render_okD [OF assms(1)]
  let ?s = "s\<lparr>sf_output := Some o'\<rparr>"
  have s': "surf_ok w ?s" "surf_id ?s = surf_id s" "surf_bufs ?s = surf_bufs s"
    using surfaces_okD(1) [OF ok(1) s] assms(3) [OF a(2)] by (simp_all add: surf_view)
  show ?thesis
  proof (cases "sf_idle_inhibit s \<and> sf_output s \<noteq> Some o'")
    case False
    then have "contrib ?s = contrib s" by (auto simp: contrib_def)
    note put = upd_surface_op_ok [OF assms(1) s s' this]
    from False a s put show ?thesis
      by (simp only: isz_surface_set_output_def option.case prod.case if_False Option.bind.bind_lunit simp_thms)
  next
    case True
    from adjust_leave [OF assms(1) s] True obtain w1 where
      w1: "isz_surface_inhibit_adjust w (sf_output s) (-1) = Some w1" "render_frame w w1"
        "w_surfaces w1 = w_surfaces w" "bs_bufs w1 = bs_bufs w" "bs_next_buf w1 = bs_next_buf w"
        "w_resv w1 = w_resv w" "idle_ok ((w_surfaces w)(r := None)) (w_outputs w1) (w_events w1)"
      by auto
    have fin: "finite (inhibitors ((w_surfaces w)(r := None)) o')"
      by (rule finite_subset [OF _ finite_inhibitors [OF ok(1)]])
        (auto simp: inhibitors_def split: if_splits)
    have sok: "surfaces_ok w1" by (rule surfaces_ok_frame [OF ok(1) w1(2)]) (simp add: w1(3))
    have live: "w_outputs w1 o' \<noteq> None" using assms(3) [OF a(2)] render_frame_live(3) [OF w1(2)] by simp
    from adjust_gain [OF sok w1(7) live _ _ fin, of r ?s] True obtain w2 where
      w2: "isz_surface_inhibit_adjust w1 (Some o') 1 = Some w2" "render_frame w1 w2"
        "w_surfaces w2 = w_surfaces w1" "bs_bufs w2 = bs_bufs w1" "bs_next_buf w2 = bs_next_buf w1"
        "w_resv w2 = w_resv w1" "idle_ok ((w_surfaces w)(r \<mapsto> ?s)) (w_outputs w2) (w_events w2)"
      by (auto simp: contrib_def)
    have "render_ok (upd_surface w2 r ?s)" "render_frame w (upd_surface w2 r ?s)"
      using render_ok_moved [OF assms(1) s s' render_frame_trans [OF w1(2) w2(2)] _ _ _ _ w2(7)] w1 w2 ok(4)
      by simp_all
    with True a s w1(1) w2(1) show ?thesis by (simp add: isz_surface_set_output_def op_okI)
  qed
qed

subsection \<open>Damage and buffers\<close>

lemma damage_grow_ge: "0 < ncap \<Longrightarrow> need \<le> damage_grow ncap need \<and> ncap \<le> damage_grow ncap need"
proof (induction ncap need rule: damage_grow.induct)
  case (1 ncap need)
  then show ?case by (subst (1 2) damage_grow.simps) auto
qed

lemma isz_surface_damage_ok [surface_ops]:
  assumes "render_ok w" "live_or_NULL w surf" "\<And>rs. rects = Some rs \<Longrightarrow> n \<le> length rs"
  shows "op_ok w (isz_surface_damage w surf rects n)"
  unfolding isz_surface_damage_def
proof (rule with_surface_ok [OF assms(1,2)])
  fix r s
  assume s: "w_surfaces w r = Some s" "surf_ok w s"
  let ?body = "if n = 0 then Some (w, ISZ_OK)
     else case rects of
       None \<Rightarrow> Some (w, ISZ_ERR_INVALID_ARG)
     | Some rs \<Rightarrow>
         if length (sf_damage s) + n > ISZ_SURFACE_MAX_DAMAGE then Some (w, ISZ_ERR_RESOURCE_LIMIT)
         else let (w, s, ok) =
                (if length (sf_damage s) + n > sf_damage_cap s
                 then let ncap = damage_grow (if sf_damage_cap s \<noteq> 0 then sf_damage_cap s else 8)
                                   (length (sf_damage s) + n)
                      in case k_alloc w of
                           (w, False) \<Rightarrow> (w, s, False)
                         | (w, True) \<Rightarrow> (w, s\<lparr>sf_damage_cap := ncap\<rparr>, True)
                 else (w, s, True))
         in if \<not> ok then Some (w, ISZ_ERR_NO_MEMORY)
            else if n > length rs \<or> length (sf_damage s) + n > sf_damage_cap s then None
            else Some (upd_surface w r (s\<lparr>sf_damage := sf_damage s @ take n rs\<rparr>), ISZ_OK)"
  have put: "op_ok w (Some (upd_surface w1 r (s\<lparr>sf_damage_cap := cap, sf_damage := sf_damage s @ take n rs\<rparr>), ISZ_OK))"
    if "kern.more w1 = kern.more w" "length (sf_damage s) + n \<le> cap"
      "length (sf_damage s) + n \<le> ISZ_SURFACE_MAX_DAMAGE" for w1 cap rs
  proof -
    note f = kern_more_world [OF that(1)]
    have 1: "render_ok w1" "w_surfaces w1 r = Some s"
      using render_ok_more [OF assms(1) that(1)] f s(1) by simp_all
    have "surf_ok w1 (s\<lparr>sf_damage_cap := cap, sf_damage := sf_damage s @ take n rs\<rparr>)"
      using s(2) that(2,3) by (auto simp: surf_ok_def f)
    from render_ok_upd_surface [OF 1 this] render_frame_trans [OF render_frame_more [OF that(1)]]
    show ?thesis by (simp add: surf_view op_ok_def)
  qed
  obtain w1 b where al: "k_alloc w = (w1, b)" by fastforce
  then have m: "kern.more w1 = kern.more w" using kern_more_alloc [of w] by simp
  have fail: "op_ok w (Some (w1, e))" for e :: isz_error
    using render_ok_more [OF assms(1) m] render_frame_more [OF m] by (rule op_okI)
  have keep: "op_ok w (Some (w, e))" for e :: isz_error using assms(1) by (simp add: op_okI)
  have same: "s\<lparr>sf_damage_cap := sf_damage_cap s, sf_damage := d\<rparr> = s\<lparr>sf_damage := d\<rparr>" for d by simp
  define ncap where "ncap = damage_grow (if sf_damage_cap s \<noteq> 0 then sf_damage_cap s else 8) (length (sf_damage s) + n)"
  have grow: "length (sf_damage s) + n \<le> ncap"
    unfolding ncap_def by (rule damage_grow_ge [THEN conjunct1]) simp
  show "op_ok w ?body"
  proof (cases "n = 0 \<or> rects = None \<or> length (sf_damage s) + n > ISZ_SURFACE_MAX_DAMAGE")
    case True
    then show ?thesis using keep by (auto split: option.splits)
  next
    case False
    then obtain rs where rs: "rects = Some rs" "n \<noteq> 0" "length (sf_damage s) + n \<le> ISZ_SURFACE_MAX_DAMAGE" by auto
    show ?thesis
    proof (cases "length (sf_damage s) + n > sf_damage_cap s")
      case True
      with rs assms(3) [OF rs(1)] al fail grow put [OF m grow rs(3)] show ?thesis
        unfolding ncap_def [symmetric] by (cases b) (simp_all add: Let_def not_le)
    next
      case False
      then show ?thesis
        using rs assms(3) [OF rs(1)] put [of w "sf_damage_cap s" rs, unfolded same] by (simp add: Let_def not_le)
    qed
  qed
qed

text \<open>Replacing the buffers of a surface: the ones in \<open>dead\<close> are closed and freed.\<close>

lemma render_ok_released:
  assumes "render_ok w" "w_surfaces w r = Some s" "b \<in> surf_bufs s"
    "surf_bufs s' = surf_bufs s - {b}" "surf_ok w s'" "surf_id s' = surf_id s" "contrib s' = contrib s"
  shows "\<exists>buf. bs_bufs w b = Some buf \<and> release_unref w (Some b) = Some (released w b buf)
    \<and> render_ok (upd_surface (released w b buf) r s') \<and> render_frame w (upd_surface (released w b buf) r s')"
proof -
  note ok = render_okD [OF assms(1)]
  from bufs_okD [OF ok(2) assms(2,3)] obtain buf where
    buf: "bs_bufs w b = Some buf" "b_refcount buf = 1" "b_dmabuf_fd buf \<ge> 0" by auto
  let ?w = "released w b buf"
  have fr: "render_frame w (upd_surface ?w r s')"
    using render_frame_trans [OF render_frame_released render_frame_surface [of ?w r s s']] assms(2,6) by simp
  have "surfaces_ok (upd_surface ?w r s')"
    by (rule surfaces_ok_frame [OF ok(1) fr]) (use assms(5) in \<open>auto simp: upd_surface_def split: if_splits\<close>)
  moreover have "bufs_ok ((w_surfaces w)(r \<mapsto> s')) ((bs_bufs w)(b := None)) (bs_next_buf w)"
    by (rule bufs_ok_release [OF ok(2) assms(2-4)])
  moreover have "idle_ok ((w_surfaces w)(r \<mapsto> s')) (w_outputs w) (w_events w)"
    by (rule idle_ok_same [OF ok(3)]) (simp add: assms)
  ultimately have "render_ok (upd_surface ?w r s')"
    using ok(4) by (simp add: render_ok_def upd_surface_def)
  with buf fr release_unref_eq [OF buf] show ?thesis by simp
qed

lemma isz_surface_detach_buffer_ok [surface_ops]:
  assumes "render_ok w" "live_or_NULL w surf"
  shows "op_ok w (isz_surface_detach_buffer w surf)"
  unfolding isz_surface_detach_buffer_def
proof (rule with_surface_ok [OF assms])
  fix r s
  assume s: "w_surfaces w r = Some s" "surf_ok w s"
  show "op_ok w (if sf_current s \<noteq> None then do { w \<leftarrow> release_unref w (sf_current s);
      Some (upd_surface w r (s\<lparr>sf_current := None\<rparr>), ISZ_OK) } else Some (w, ISZ_OK))"
  proof (cases "sf_current s")
    case None
    then show ?thesis using assms(1) by (simp add: op_okI)
  next
    case (Some b)
    then have "surf_bufs (s\<lparr>sf_current := None\<rparr>) = surf_bufs s - {b}"
      using s(2) by (auto simp: surf_bufs_def surf_ok_def)
    with render_ok_released [OF assms(1) s(1), of b "s\<lparr>sf_current := None\<rparr>"] s(2) Some
    obtain buf where "release_unref w (Some b) = Some (released w b buf)"
      "render_ok (upd_surface (released w b buf) r (s\<lparr>sf_current := None\<rparr>))"
      "render_frame w (upd_surface (released w b buf) r (s\<lparr>sf_current := None\<rparr>))"
      by (auto simp: surf_bufs_def surf_ok_def surf_id_def contrib_def cong: if_cong)
    with Some show ?thesis by (simp add: op_okI)
  qed
qed

text \<open>Importing a descriptor: the buffer is new, and the surface takes it as its current one.\<close>

definition imported :: "world \<Rightarrow> buffer \<Rightarrow> world" where
  "imported w buf = w\<lparr>bs_next_buf := bs_next_buf w + 1, bs_bufs := (bs_bufs w)(bs_next_buf w \<mapsto> buf)\<rparr>"

lemma isz_buffer_import_cases:
  fixes w :: world
  assumes "fd \<ge> 0"
  obtains (fail) w' e where "isz_buffer_import w cid fd (Some d) True = (w', Inl e)" "kern.more w' = kern.more w" "e \<noteq> ISZ_OK"
      "k_closed w' = k_closed w @ [fd]"
    | (ok) w1 buf where "isz_buffer_import w cid fd (Some d) True = (imported w1 buf, Inr (bs_next_buf w))"
      "kern.more w1 = kern.more w" "b_refcount buf = 1" "b_dmabuf_fd buf = fd" "k_closed w1 = k_closed w"
      "b_width buf = bd_width d" "b_height buf = bd_height d"
proof (cases "bd_width d = 0 \<or> bd_height d = 0 \<or> bd_stride d = 0")
  case True
  with assms show ?thesis
    by (intro fail [of "k_close w fd" ISZ_ERR_INVALID_DMABUF]) (simp_all add: isz_buffer_import_def)
next
  case False
  obtain w1 b where al: "k_alloc w = (w1, b)" by fastforce
  then have m: "kern.more w1 = kern.more w" "k_closed w1 = k_closed w"
    using kern_more_alloc [of w] k_alloc_log [OF al] by simp_all
  show ?thesis
  proof (cases b)
    case True
    define buf where "buf = \<lparr>b_dmabuf_fd = fd, b_width = bd_width d, b_height = bd_height d,
       b_stride = bd_stride d, b_offset = bd_offset d, b_format = bd_format d,
       b_modifier = bd_modifier d, b_alpha_mode = bd_alpha_mode d, b_client_id = cid, b_released = False,
       b_refcount = 1, b_priv = None, b_priv_size = 0, b_is_shm = False,
       b_in_syncobj = 0, b_out_syncobj = 0, b_release_pending = False\<rparr>"
    have "isz_buffer_import w cid fd (Some d) True = (imported w1 buf, Inr (bs_next_buf w))"
      using True False assms al kern_more_world(2) [OF m(1)]
      by (simp add: isz_buffer_import_def Let_def imported_def upd_buf_def buf_def)
    from ok [OF this m(1) _ _ m(2)] show ?thesis by (simp add: buf_def)
  qed (use False assms al m in \<open>intro fail [of "k_close w1 fd" ISZ_ERR_NO_MEMORY],
      auto simp: isz_buffer_import_def\<close>)
qed

lemma render_ok_imported:
  assumes "render_ok w" "w_surfaces w r = Some s" "sf_pending_release s = None" "b_refcount buf = 1" "b_dmabuf_fd buf \<ge> 0"
    "s' = s\<lparr>sf_pending_release := sf_current s, sf_current := Some (bs_next_buf w), sf_width := x, sf_height := y\<rparr>"
  shows "render_ok (upd_surface (imported w buf) r s')" "render_frame w (upd_surface (imported w buf) r s')"
proof -
  note ok = render_okD [OF assms(1)]
  have "render_frame w (imported w buf)" by (cases w) (simp add: imported_def render_frame_def option.rel_refl)
  moreover have sid: "surf_id s' = surf_id s" by (simp add: assms(6) surf_id_def)
  ultimately show fr: "render_frame w (upd_surface (imported w buf) r s')"
    using render_frame_trans render_frame_surface [of "imported w buf" r s s'] assms(2) by (simp add: imported_def)
  have bufs: "surf_bufs s' = insert (bs_next_buf w) (surf_bufs s)" using assms(3,6) by (auto simp: surf_bufs_def)
  have "bs_next_buf w \<notin> surf_bufs s" using bufs_okD [OF ok(2) assms(2)] by blast
  then have sok: "surf_ok w s'"
    using surfaces_okD(1) [OF ok(1) assms(2)] assms(6) by (auto simp: surf_ok_def surf_bufs_def)
  have "surfaces_ok (upd_surface (imported w buf) r s')"
    by (rule surfaces_ok_frame [OF ok(1) fr])
      (use sok in \<open>auto simp: upd_surface_def imported_def split: if_splits\<close>)
  moreover have "bufs_ok ((w_surfaces w)(r \<mapsto> s')) ((bs_bufs w)(bs_next_buf w \<mapsto> buf)) (bs_next_buf w + 1)"
    by (rule bufs_ok_new [OF ok(2) assms(2) bufs assms(4,5)])
  moreover have "idle_ok ((w_surfaces w)(r \<mapsto> s')) (w_outputs w) (w_events w)"
    by (rule idle_ok_same [OF ok(3)]) (simp add: assms contrib_def)
  ultimately show "render_ok (upd_surface (imported w buf) r s')"
    using ok(4) by (simp add: render_ok_def upd_surface_def imported_def)
qed

text \<open>The three outcomes of an attach: nothing happens, the import fails and closes the descriptor, or
  the buffers move up one place and the buffer that was pending is released.\<close>

lemma isz_surface_attach_buffer_spec:
  assumes "render_ok w" "w_surfaces w r = Some s" "fd \<ge> 0"
  shows "\<exists>w' e. isz_surface_attach_buffer w (Some r) fd (Some d) = Some (w', e) \<and> render_ok w' \<and> render_frame w w'
    \<and> (if e = ISZ_OK
       then \<exists>s' b buf. w_surfaces w' r = Some s' \<and> sf_current s' = Some b \<and> bs_bufs w' b = Some buf
              \<and> b_dmabuf_fd buf = fd \<and> bs_bufs w b = None \<and> sf_pending_release s' = sf_current s
              \<and> k_closed w' = k_closed w @ (case sf_pending_release s of None \<Rightarrow> []
                    | Some p \<Rightarrow> [b_dmabuf_fd (the (bs_bufs w p))])
       else k_closed w' = k_closed w @ [fd] \<and> w_surfaces w' = w_surfaces w \<and> bs_bufs w' = bs_bufs w)"
proof -
  note ok = render_okD [OF assms(1)]
  from assms(3) show ?thesis
  proof (cases rule: isz_buffer_import_cases [of fd w "sf_client_id s" d])
    case (fail w' e)
    with assms(2,3) have "isz_surface_attach_buffer w (Some r) fd (Some d) = Some (w', e)"
      by (simp add: isz_surface_attach_buffer_def)
    then show ?thesis
      using fail render_ok_more [OF assms(1) fail(2)] render_frame_more [OF fail(2)]
        kern_more_world(1,11) [OF fail(2)] by simp
  next
    case (ok w1 buf)
    note f1 = kern_more_world [OF ok(2)]
    let ?b = "bs_next_buf w"
    have r1: "render_ok w1" "render_frame w w1" "w_surfaces w1 r = Some s"
      using render_ok_more [OF assms(1) ok(2)] render_frame_more [OF ok(2)] assms(2) by (simp_all add: f1)
    have fresh: "bs_bufs w ?b = None"
      using render_okD(2) [OF assms(1)] unfolding bufs_ok_def by (metis less_irrefl not_None_eq)
    let ?swap = "\<lambda>x y. s\<lparr>sf_pending_release := sf_current s, sf_current := Some ?b, sf_width := x, sf_height := y\<rparr>"
    define x where "x = (if sf_width s = 0 \<or> sf_height s = 0 then sint (b_width buf) else sf_width s)"
    define y where "y = (if sf_width s = 0 \<or> sf_height s = 0 then sint (b_height buf) else sf_height s)"
    have swap: "(if sf_width s = 0 \<or> sf_height s = 0
        then s\<lparr>sf_pending_release := sf_current s, sf_current := Some ?b, sf_width := sint (b_width buf), sf_height := sint (b_height buf)\<rparr>
        else s\<lparr>sf_pending_release := sf_current s, sf_current := Some ?b\<rparr>) = ?swap x y"
      by (simp add: x_def y_def)
    show ?thesis
    proof (cases "sf_pending_release s")
      case None
      let ?w = "upd_surface (imported w1 buf) r (?swap x y)"
      have "isz_surface_attach_buffer w (Some r) fd (Some d) = Some (?w, ISZ_OK)"
        using assms(2,3) ok(1) None swap [symmetric]
        by (simp add: isz_surface_attach_buffer_def Let_def imported_def f1 cong: if_cong)
      moreover have "render_ok ?w" "render_frame w1 ?w"
        using render_ok_imported [OF r1(1) r1(3) None ok(3), where x = x and y = y and s' = "?swap x y"] ok(4) assms(3) by (simp_all add: f1)
      moreover have "w_surfaces ?w r = Some (?swap x y)" "bs_bufs ?w ?b = Some buf" "k_closed ?w = k_closed w"
        by (simp_all add: upd_surface_def imported_def f1 ok(5))
      ultimately show ?thesis using render_frame_trans [OF r1(2)] None ok(4) fresh by simp
    next
      case (Some p)
      let ?s1 = "s\<lparr>sf_pending_release := None\<rparr>"
      have pin: "p \<in> surf_bufs s" using Some by (simp add: surf_bufs_def)
      have sok: "surf_ok w1 s" using surfaces_okD(1) [OF render_okD(1) [OF r1(1)] r1(3)] .
      have "surf_bufs ?s1 = surf_bufs s - {p}" "surf_ok w1 ?s1" "surf_id ?s1 = surf_id s" "contrib ?s1 = contrib s"
        using Some sok by (auto simp: surf_view)
      from render_ok_released [OF r1(1,3) pin this] obtain pb where
        pb: "bs_bufs w1 p = Some pb" "release_unref w1 (Some p) = Some (released w1 p pb)"
          "render_ok (upd_surface (released w1 p pb) r ?s1)" "render_frame w1 (upd_surface (released w1 p pb) r ?s1)"
        by blast
      let ?w2 = "upd_surface (released w1 p pb) r ?s1"
      let ?w = "upd_surface (imported ?w2 buf) r (?swap x y)"
      have pne: "p \<noteq> ?b" using pb(1) fresh by (auto simp: f1)
      have pb_ok: "b_refcount pb = 1" "b_dmabuf_fd pb \<ge> 0"
        using bufs_okD [OF render_okD(2) [OF r1(1)] r1(3) pin] pb(1) by auto
      have rel: "release_unref (imported w1 buf) (Some p) = Some (released (imported w1 buf) p pb)"
        using release_unref_eq [of "imported w1 buf" p pb] pb(1) pb_ok pne by (simp add: imported_def f1)
      have comm: "upd_surface (released (imported w1 buf) p pb) r (?swap x y) = ?w"
        using pne f1(2) by (cases w1) (simp add: upd_surface_def released_def imported_def fun_upd_twist)
      have "isz_surface_attach_buffer w (Some r) fd (Some d) = Some (?w, ISZ_OK)"
        using assms(2,3) ok(1) Some swap [symmetric] rel comm [symmetric] pne
        by (simp add: isz_surface_attach_buffer_def Let_def f1 cong: if_cong)
          (simp add: imported_def f1 cong: if_cong)
      moreover have "render_ok ?w" "render_frame ?w2 ?w"
        using render_ok_imported [OF pb(3) _ _ ok(3), of r ?s1, where x = x and y = y and s' = "?swap x y"] ok(4) assms(3)
        by (simp_all add: upd_surface_def f1)
      moreover have "w_surfaces ?w r = Some (?swap x y)" "bs_bufs ?w ?b = Some buf"
        "k_closed ?w = k_closed w @ [b_dmabuf_fd pb]"
        by (simp_all add: upd_surface_def imported_def released_def f1 ok(5))
      ultimately show ?thesis
        using render_frame_trans [OF r1(2) render_frame_trans [OF pb(4)]] Some ok(4) fresh pb(1) by (simp add: f1)
    qed
  qed
qed

lemma isz_surface_attach_buffer_ok [surface_ops]:
  assumes "render_ok w" "live_or_NULL w surf"
  shows "op_ok w (isz_surface_attach_buffer w surf fd desc)"
proof (cases "surf = None \<or> fd < 0 \<or> desc = None")
  case True
  have "kern.more (k_close w fd) = kern.more w" by simp
  then have "op_ok w (Some (k_close w fd, ISZ_ERR_INVALID_ARG))"
    by (intro op_okI render_ok_more [OF assms(1)] render_frame_more)
  with True assms(1) show ?thesis
    by (auto simp: isz_surface_attach_buffer_def op_okI split: option.splits)
next
  case False
  then obtain r d where rd: "surf = Some r" "desc = Some d" "fd \<ge> 0" by auto
  with assms(2) obtain s where s: "w_surfaces w r = Some s" by (auto simp: live_or_NULL_def)
  from isz_surface_attach_buffer_spec [OF assms(1) s rd(3), of d] rd show ?thesis by (auto simp: op_ok_def)
qed

subsection \<open>Creation\<close>

definition created :: "world \<Rightarrow> isz_surface \<Rightarrow> world" where
  "created w s = upd_surface (w\<lparr>w_next_surface := w_next_surface w + 1,
       w_next_surface_serial := w_next_surface_serial w + 1,
       w_children := (w_children w)(w_next_surface w := []),
       w_surface_list := w_surface_list w @ [w_next_surface w]\<rparr>) (w_next_surface w) s"

definition new_surface :: "world \<Rightarrow> isz_surface" where
  "new_surface w = surface_zero\<lparr>sf_serial := w_next_surface_serial w + 1\<rparr>"

lemma isz_surface_create_cases:
  obtains (fail) w1 where "isz_surface_create w = (w1, None)" "kern.more w1 = kern.more w"
  | (ok) w1 where "isz_surface_create w = (created w1 (new_surface w), Some (w_next_surface w))" "kern.more w1 = kern.more w"
proof -
  obtain w1 b where al: "k_alloc w = (w1, b)" by fastforce
  then have m: "kern.more w1 = kern.more w" using kern_more_alloc [of w] by simp
  from al ok [OF _ m] fail [OF _ m] kern_more_world [OF m] show ?thesis
    by (cases b) (simp_all add: isz_surface_create_def created_def new_surface_def Let_def)
qed

lemma created_fields [simp]:
  "w_surfaces (created w s) = (w_surfaces w)(w_next_surface w \<mapsto> s)" "w_outputs (created w s) = w_outputs w"
  "w_conns (created w s) = w_conns w" "w_events (created w s) = w_events w" "w_resv (created w s) = w_resv w"
  "bs_bufs (created w s) = bs_bufs w" "bs_next_buf (created w s) = bs_next_buf w"
  "w_next_surface (created w s) = w_next_surface w + 1" "w_state (created w s) = w_state w"
  "w_surface_list (created w s) = w_surface_list w @ [w_next_surface w]"
  by (simp_all add: created_def upd_surface_def)

lemma surfaces_ok_fresh: "surfaces_ok w \<Longrightarrow> w_surfaces w (w_next_surface w) = None"
  by (cases "w_surfaces w (w_next_surface w)") (auto dest: surfaces_okD(2))

lemma render_ok_created:
  assumes "render_ok w" "surf_ok w s" "surf_bufs s = {}" "contrib s = None"
  shows "render_ok (created w s)"
proof -
  note ok = render_okD [OF assms(1)]
  let ?r = "w_next_surface w"
  note fresh = surfaces_ok_fresh [OF ok(1)]
  have mono: "surf_ok (created w s) t" if "surf_ok w t" for t using that by (auto simp: surf_ok_def)
  have notin: "?r \<notin> set (w_surface_list w)" using ok(1) fresh by (auto simp: surfaces_ok_def)
  have "r < w_next_surface w + 1 \<and> surf_ok (created w s) t" if "((w_surfaces w)(?r \<mapsto> s)) r = Some t" for r t
    using that surfaces_okD(1,2) [OF ok(1)] assms(2) mono by (fastforce split: if_splits)
  then have "surfaces_ok (created w s)"
    using ok(1) notin by (simp add: surfaces_ok_def)
  moreover have "bufs_ok ((w_surfaces w)(?r \<mapsto> s)) (bs_bufs w) (bs_next_buf w)"
    by (rule bufs_ok_same [OF ok(2)]) (simp add: fresh assms(3))
  moreover have "idle_ok ((w_surfaces w)(?r \<mapsto> s)) (w_outputs w) (w_events w)"
    by (rule idle_ok_same [OF ok(3)]) (simp add: fresh assms(4))
  ultimately show ?thesis using ok(4) by (simp add: render_ok_def)
qed

text \<open>What a successful creation gives: a fresh surface in a state where nothing else changed.\<close>

definition creates :: "world \<Rightarrow> isz_surface \<Rightarrow> (world \<times> nat option) \<Rightarrow> bool" where
  "creates w s res \<longleftrightarrow> (\<exists>w1 ch. kern.more w1 = kern.more w \<and>
     (res = (w1, None) \<or> res = ((created w1 s)\<lparr>w_children := ch\<rparr>, Some (w_next_surface w))))"

lemma isz_surface_create_spec: "creates w (new_surface w) (isz_surface_create w)"
proof (cases rule: isz_surface_create_cases [of w])
  case (ok w1)
  moreover have "(created w1 s)\<lparr>w_children := w_children (created w1 s)\<rparr> = created w1 s" for s by simp
  ultimately show ?thesis unfolding creates_def by metis
qed (auto simp: creates_def)

lemma create_then:
  assumes "isz_surface_create w = (w1, Some r)"
  shows "r = w_next_surface w" "w_surfaces w1 r = Some (new_surface w)"
    "creates w s' (w1\<lparr>w_surfaces := (w_surfaces w1)(r \<mapsto> s'), w_children := ch\<rparr>, Some r)"
proof -
  from assms obtain w0 where w0: "kern.more w0 = kern.more w" "w1 = created w0 (new_surface w)" "r = w_next_surface w"
    by (cases rule: isz_surface_create_cases [of w]) auto
  note f = kern_more_world [OF w0(1)]
  from w0 show "r = w_next_surface w" "w_surfaces w1 r = Some (new_surface w)" by (simp_all add: f)
  have "w1\<lparr>w_surfaces := (w_surfaces w1)(r \<mapsto> s'), w_children := ch\<rparr> = (created w0 s')\<lparr>w_children := ch\<rparr>"
    using w0(2,3) f(13) by (simp add: created_def upd_surface_def)
  with w0 show "creates w s' (w1\<lparr>w_surfaces := (w_surfaces w1)(r \<mapsto> s'), w_children := ch\<rparr>, Some r)"
    by (auto simp: creates_def)
qed

lemma creates_fail: "isz_surface_create w = (w1, None) \<Longrightarrow> creates w s (w1, None)"
  by (cases rule: isz_surface_create_cases [of w]) (auto simp: creates_def)

lemma isz_surface_create_subsurface_spec:
  assumes "w_surfaces w p \<noteq> None"
  shows "\<exists>res. isz_surface_create_subsurface w (Some p) = Some res
    \<and> creates w (new_surface w\<lparr>sf_kind := ISZ_SURFACE_SUBSURFACE, sf_parent := Some p\<rparr>) res"
proof (cases "isz_surface_create w")
  case (Pair w1 o')
  show ?thesis
  proof (cases o')
    case None
    with Pair assms creates_fail show ?thesis by (auto simp: isz_surface_create_subsurface_def)
  next
    case (Some r)
    note c = create_then [OF Pair [unfolded Some]]
    from c(2) c(3) assms Pair Some show ?thesis
      by (auto simp: isz_surface_create_subsurface_def Let_def upd_surface_def)
  qed
qed

lemma isz_surface_create_popup_spec:
  assumes "w_surfaces w p \<noteq> None"
  shows "\<exists>res. isz_surface_create_popup w (Some p) x y = Some res
    \<and> creates w (new_surface w\<lparr>sf_kind := ISZ_SURFACE_POPUP, sf_parent := Some p, sf_popup_x := x, sf_popup_y := y\<rparr>) res"
proof (cases "isz_surface_create w")
  case (Pair w1 o')
  show ?thesis
  proof (cases o')
    case None
    with Pair assms creates_fail show ?thesis by (auto simp: isz_surface_create_popup_def)
  next
    case (Some r)
    note c = create_then [OF Pair [unfolded Some]]
    from c(2) c(3) [of _ "w_children w1"] assms Pair Some show ?thesis
      by (auto simp: isz_surface_create_popup_def Let_def upd_surface_def)
  qed
qed

lemma isz_surface_create_layer_spec:
  assumes "w_outputs w out \<noteq> None"
  shows "\<exists>res. isz_surface_create_layer w (Some out) l = Some res
    \<and> creates w (new_surface w\<lparr>sf_kind := ISZ_SURFACE_LAYER, sf_layer := l, sf_output := Some out\<rparr>) res"
proof (cases "isz_surface_create w")
  case (Pair w1 o')
  show ?thesis
  proof (cases o')
    case None
    with Pair assms creates_fail show ?thesis by (auto simp: isz_surface_create_layer_def)
  next
    case (Some r)
    note c = create_then [OF Pair [unfolded Some]]
    from c(2) c(3) [of _ "w_children w1"] assms Pair Some show ?thesis
      by (auto simp: isz_surface_create_layer_def Let_def upd_surface_def)
  qed
qed

lemma creates_render_ok:
  assumes "creates w s (w', x)" "render_ok w" "surf_ok w s" "surf_bufs s = {}" "contrib s = None"
  shows "render_ok w'"
proof -
  from assms(1) obtain w1 ch where w1: "kern.more w1 = kern.more w"
    "w' = w1 \<or> w' = (created w1 s)\<lparr>w_children := ch\<rparr>" by (auto simp: creates_def)
  note r1 = render_ok_more [OF assms(2) w1(1)]
  have "surf_ok w1 s" using assms(3) by (simp add: surf_ok_def kern_more_world [OF w1(1)])
  from render_ok_created [OF r1 this assms(4,5)]
  have "render_ok ((created w1 s)\<lparr>w_children := ch\<rparr>)"
    by (simp add: render_ok_def surfaces_ok_def surf_ok_def)
  with r1 w1(2) show ?thesis by auto
qed

lemma new_surface_view:
  "surf_bufs (new_surface w) = {}" "contrib (new_surface w) = None" "surf_ok w (new_surface w)"
  "sf_damage (new_surface w) = []" "sf_owning_conn (new_surface w) = None" "sf_output (new_surface w) = None"
  "sf_current (new_surface w) = None" "sf_pending_release (new_surface w) = None"
  "sf_idle_inhibit (new_surface w) = False" "sf_kind (new_surface w) = ISZ_SURFACE_NORMAL"
  by (simp_all add: new_surface_def surface_zero_def surf_view)

subsection \<open>Destruction\<close>

definition childless :: "world \<Rightarrow> nat \<Rightarrow> bool" where
  "childless w r \<longleftrightarrow> (\<forall>x s. w_surfaces w x = Some s \<longrightarrow> x \<noteq> r \<longrightarrow> sf_kind s = ISZ_SURFACE_SUBSURFACE
     \<longrightarrow> sf_parent s \<noteq> Some r)"

lemma bufs_ok_remove:
  assumes "bufs_ok S B nb" "S r = Some s"
  shows "bufs_ok (S(r := None)) (\<lambda>b. if b \<in> surf_bufs s then None else B b) nb"
proof -
  have at: "owned S x r \<longleftrightarrow> x \<in> surf_bufs s" for x using assms(2) by (simp add: owned_def)
  then have uniq: "r' = r" if "owned S b r'" "b \<in> surf_bufs s" for r' b
    using assms(1) that unfolding bufs_ok_def by blast
  have own: "owned (S(r := None)) x r' \<longleftrightarrow> x \<notin> surf_bufs s \<and> owned S x r'" for x r'
    using uniq by (cases "r' = r") (auto simp: owned_upd at)
  show ?thesis using assms(1) unfolding bufs_ok_def own by (simp split: if_splits) blast
qed

text \<open>Releasing both buffers of a surface.\<close>

definition release_fds :: "world \<Rightarrow> isz_surface \<Rightarrow> fd list" where
  "release_fds w s = [b_dmabuf_fd (the (bs_bufs w b)).
     b \<leftarrow> (case sf_current s of None \<Rightarrow> [] | Some b \<Rightarrow> [b]) @ (case sf_pending_release s of None \<Rightarrow> [] | Some b \<Rightarrow> [b])]"

lemma release_both:
  assumes "bufs_ok S (bs_bufs w) nb" "S r = Some s" "sf_current s = None \<or> sf_current s \<noteq> sf_pending_release s"
  shows "\<exists>w'. do { w \<leftarrow> (if sf_current s \<noteq> None then release_unref w (sf_current s) else Some w);
                 w \<leftarrow> (if sf_pending_release s \<noteq> None then release_unref w (sf_pending_release s) else Some w);
                 f w } = f w'
    \<and> w' = w\<lparr>k_closed := k_closed w @ release_fds w s, bs_pending := bs_pending w',
              bs_bufs := (\<lambda>b. if b \<in> surf_bufs s then None else bs_bufs w b)\<rparr>"
proof -
  have live: "\<exists>buf. bs_bufs w b = Some buf \<and> b_refcount buf = 1 \<and> b_dmabuf_fd buf \<ge> 0" if "b \<in> surf_bufs s" for b
    using bufs_okD [OF assms(1,2) that] by blast
  let ?opt = "\<lambda>w x. if x \<noteq> None then release_unref w x else Some w"
  obtain w1 where w1: "?opt w (sf_current s) = Some w1"
    "w1 = w\<lparr>k_closed := k_closed w @ (case sf_current s of None \<Rightarrow> [] | Some b \<Rightarrow> [b_dmabuf_fd (the (bs_bufs w b))]),
            bs_pending := bs_pending w1, bs_bufs := (\<lambda>b. if Some b = sf_current s then None else bs_bufs w b)\<rparr>"
  proof (cases "sf_current s")
    case None
    then show ?thesis by (intro that [of w]) simp_all
  next
    case (Some b)
    then obtain buf where "bs_bufs w b = Some buf" "b_refcount buf = 1" "b_dmabuf_fd buf \<ge> 0"
      using live [of b] by (auto simp: surf_bufs_def)
    from release_unref_eq [OF this] this Some show ?thesis
      by (intro that [of "released w b buf"]) (auto simp: released_def fun_eq_iff)
  qed
  obtain w2 where w2: "?opt w1 (sf_pending_release s) = Some w2"
    "w2 = w1\<lparr>k_closed := k_closed w1 @ (case sf_pending_release s of None \<Rightarrow> [] | Some b \<Rightarrow> [b_dmabuf_fd (the (bs_bufs w b))]),
            bs_pending := bs_pending w2, bs_bufs := (\<lambda>b. if Some b = sf_pending_release s then None else bs_bufs w1 b)\<rparr>"
  proof (cases "sf_pending_release s")
    case None
    then show ?thesis by (intro that [of w1]) simp_all
  next
    case (Some b)
    then obtain buf where buf: "bs_bufs w b = Some buf" "b_refcount buf = 1" "b_dmabuf_fd buf \<ge> 0"
      using live [of b] by (auto simp: surf_bufs_def)
    have b1: "bs_bufs w1 b = Some buf" using buf(1) assms(3) Some by (subst w1(2)) auto
    from release_unref_eq [OF b1 buf(2,3)] buf(1) Some show ?thesis
      by (intro that [of "released w1 b buf"]) (auto simp: released_def fun_eq_iff)
  qed
  have "k_closed w1 = k_closed w @ (case sf_current s of None \<Rightarrow> [] | Some b \<Rightarrow> [b_dmabuf_fd (the (bs_bufs w b))])"
    "bs_bufs w1 = (\<lambda>b. if Some b = sf_current s then None else bs_bufs w b)"
    by (subst w1(2), simp)+
  then have "w2 = w\<lparr>k_closed := k_closed w @ release_fds w s, bs_pending := bs_pending w2,
        bs_bufs := (\<lambda>b. if b \<in> surf_bufs s then None else bs_bufs w b)\<rparr>"
    by (subst w2(2), subst w1(2)) (auto simp: release_fds_def surf_bufs_def fun_eq_iff split: option.splits)
  then show ?thesis using w1(1) w2(1) by (intro exI [of _ w2]) simp
qed

text \<open>The state with the surface taken out, before the frame of a destruction.\<close>

definition without :: "world \<Rightarrow> nat \<Rightarrow> (nat \<Rightarrow> nat list) \<Rightarrow> world" where
  "without w r ch = w\<lparr>w_surfaces := (w_surfaces w)(r := None), w_surface_list := remove1 r (w_surface_list w),
     w_children := ch\<rparr>"

lemma without_fields [simp]:
  "w_surfaces (without w r ch) = (w_surfaces w)(r := None)" "w_surface_list (without w r ch) = remove1 r (w_surface_list w)"
  "w_children (without w r ch) = ch" "w_outputs (without w r ch) = w_outputs w" "w_conns (without w r ch) = w_conns w"
  "w_state (without w r ch) = w_state w" "w_next_surface (without w r ch) = w_next_surface w"
  by (simp_all add: without_def)

lemma surfaces_ok_without:
  assumes "surfaces_ok w" "childless w r" "w_surfaces w r = Some s"
  shows "surfaces_ok (without w r ch)"
proof -
  have "surf_ok (without w r ch) t" if "w_surfaces w x = Some t" "x \<noteq> r" for x t
  proof -
    have "surf_ok w t" by (rule surfaces_okD(1) [OF assms(1) that(1)])
    moreover have "sf_kind t = ISZ_SURFACE_SUBSURFACE \<longrightarrow> sf_parent t \<noteq> Some r"
      using assms(2) that unfolding childless_def by blast
    ultimately show ?thesis by (auto simp: surf_ok_def)
  qed
  then have "x < w_next_surface w \<and> surf_ok (without w r ch) t" if "((w_surfaces w)(r := None)) x = Some t" for x t
    using that surfaces_okD(2) [OF assms(1)] by (simp split: if_splits)
  moreover have "set (remove1 r (w_surface_list w)) = dom ((w_surfaces w)(r := None))"
    using assms(1) by (simp add: surfaces_ok_def)
  ultimately show ?thesis
    using assms(1) by (simp add: surfaces_ok_def)
qed

lemma render_frame_without: "render_frame w w' \<Longrightarrow> render_frame (without w r ch) (without w' r ch)"
  by (cases w; cases w') (simp add: render_frame_def without_def)

lemma unlink_child_spec:
  assumes "w_surfaces w p \<noteq> None"
  shows "\<exists>ch. unlink_child w r (Some p) = Some (w\<lparr>w_children := ch\<rparr>)"
  by (rule exI [of _ "(w_children w)(p := remove1 r (w_children w p))"]) (use assms in \<open>simp add: unlink_child_def\<close>)

lemma isz_surface_destroy_spec:
  assumes "render_ok w" "w_surfaces w r = Some s" "childless w r"
  shows "\<exists>w' pre ch. isz_surface_destroy w (Some r) = Some w' \<and> render_ok w'
    \<and> render_frame (without w r ch) w' \<and> w_surfaces w' = (w_surfaces w)(r := None)
    \<and> k_closed w' = pre @ release_fds w s \<and> bs_bufs w' = (\<lambda>b. if b \<in> surf_bufs s then None else bs_bufs w b)"
proof -
  note ok = render_okD [OF assms(1)]
  note sok = surfaces_okD(1) [OF ok(1) assms(2)]
  from adjust_leave [OF assms(1,2)] obtain w1 where
    w1: "(if sf_idle_inhibit s then isz_surface_inhibit_adjust w (sf_output s) (-1) else Some w) = Some w1"
      "render_frame w w1" "w_surfaces w1 = w_surfaces w" "bs_bufs w1 = bs_bufs w" "bs_next_buf w1 = bs_next_buf w"
      "w_resv w1 = w_resv w" "idle_ok ((w_surfaces w)(r := None)) (w_outputs w1) (w_events w1)"
    by auto
  let ?w1 = "w1\<lparr>w_surface_list := remove1 r (w_surface_list w1)\<rparr>"
  have "\<exists>ch. (if sf_kind s = ISZ_SURFACE_SUBSURFACE then unlink_child ?w1 r (sf_parent s) else Some ?w1)
      = Some (?w1\<lparr>w_children := ch\<rparr>)"
  proof (cases "sf_kind s = ISZ_SURFACE_SUBSURFACE")
    case True
    with sok obtain p where p: "sf_parent s = Some p" "w_surfaces w p \<noteq> None" by (auto simp: surf_ok_def)
    then have "w_surfaces ?w1 p \<noteq> None" by (simp add: w1(3))
    from unlink_child_spec [OF this] True p(1) show ?thesis by simp
  next
    case False
    have "?w1\<lparr>w_children := w_children ?w1\<rparr> = ?w1" by simp
    with False show ?thesis by metis
  qed
  then obtain ch where ch: "(if sf_kind s = ISZ_SURFACE_SUBSURFACE then unlink_child ?w1 r (sf_parent s) else Some ?w1)
      = Some (?w1\<lparr>w_children := ch\<rparr>)" by blast
  let ?w2 = "?w1\<lparr>w_children := ch\<rparr>"
  define w3 where "w3 = (if sf_plane_slot_set s \<and> sf_output s \<noteq> None
             then isz_plane_slot_release ?w2 (sf_output s) (sf_plane_slot s) r else ?w2)"
  have f3: "bs_bufs w3 = bs_bufs w" "w_surfaces w3 = w_surfaces w" "bs_next_buf w3 = bs_next_buf w"
    "w_outputs w3 = w_outputs w1" "w_events w3 = w_events w1"
    using w1 by (auto simp: w3_def isz_plane_slot_release_def split: option.splits)
  have resv3: "resv_ok (w_resv w3)"
  proof -
    have "resv_ok (resv_clear (w_resv w) o' (sf_plane_slot s) r)" for o'
      using resv.drop_ok [OF ok(4), of "(o', sf_plane_slot s)" r] by (simp add: resv_drop_def)
    then show ?thesis using ok(4) w1(6) by (auto simp: w3_def isz_plane_slot_release_def split: option.splits)
  qed
  have bufs3: "bufs_ok (w_surfaces w) (bs_bufs w3) (bs_next_buf w)" using ok(2) by (simp only: f3)
  have cp: "sf_current s = None \<or> sf_current s \<noteq> sf_pending_release s" using sok by (simp add: surf_ok_def)
  from release_both [OF bufs3 assms(2) cp, of "\<lambda>w. Some (w\<lparr>w_surfaces := (w_surfaces w)(r := None)\<rparr>)"] obtain w4 where
    w4: "do { w \<leftarrow> (if sf_current s \<noteq> None then release_unref w3 (sf_current s) else Some w3);
              w \<leftarrow> (if sf_pending_release s \<noteq> None then release_unref w (sf_pending_release s) else Some w);
              Some (w\<lparr>w_surfaces := (w_surfaces w)(r := None)\<rparr>) } = Some (w4\<lparr>w_surfaces := (w_surfaces w4)(r := None)\<rparr>)"
      "w4 = w3\<lparr>k_closed := k_closed w3 @ release_fds w3 s, bs_pending := bs_pending w4,
              bs_bufs := (\<lambda>b. if b \<in> surf_bufs s then None else bs_bufs w3 b)\<rparr>" by blast
  let ?w' = "w4\<lparr>w_surfaces := (w_surfaces w4)(r := None)\<rparr>"
  have run: "isz_surface_destroy w (Some r) = Some ?w'"
    using assms(2) w1(1) ch w4(1) unfolding isz_surface_destroy_def Let_def w3_def by (simp del: not_None_eq)
  have f4: "w_surfaces w4 = w_surfaces w" "bs_bufs w4 = (\<lambda>b. if b \<in> surf_bufs s then None else bs_bufs w b)"
    "w_outputs w4 = w_outputs w1" "w_events w4 = w_events w1" "bs_next_buf w4 = bs_next_buf w" "resv_ok (w_resv w4)"
    using f3 resv3 by (subst w4(2), simp cong: if_cong)+
  have w4w: "render_frame (without w1 r ch) ?w'"
  proof -
    have "render_frame ?w2 w3" by (simp add: w3_def render_frame_slot_release)
    moreover have "render_frame w3 w4" by (subst w4(2)) (cases w3, simp add: render_frame_def option.rel_refl)
    ultimately have "render_frame ?w2 w4" by (rule render_frame_trans)
    then have "render_frame (?w2\<lparr>w_surfaces := (w_surfaces w)(r := None)\<rparr>) (w4\<lparr>w_surfaces := (w_surfaces w)(r := None)\<rparr>)"
      by (cases w1; cases w4) (simp add: render_frame_def)
    moreover have "?w2\<lparr>w_surfaces := (w_surfaces w)(r := None)\<rparr> = without w1 r ch" by (simp add: without_def w1(3))
    ultimately show ?thesis by (simp add: f4(1))
  qed
  have fr: "render_frame (without w r ch) ?w'" by (rule render_frame_trans [OF render_frame_without [OF w1(2)] w4w])
  have "surfaces_ok ?w'"
    by (rule surfaces_ok_frame [OF surfaces_ok_without [OF ok(1) assms(3,2)] fr]) (simp add: f4(1))
  then have "render_ok ?w'"
    using bufs_ok_remove [OF ok(2) assms(2)] w1(7) f4 by (simp add: render_ok_def)
  moreover have "release_fds w3 s = release_fds w s" by (simp add: release_fds_def f3(1))
  moreover have "k_closed ?w' = k_closed w3 @ release_fds w3 s" by (simp, subst w4(2), simp)
  ultimately show ?thesis using run fr f4 by auto
qed

section \<open>Sequences of calls\<close>

text \<open>The calls an embedding program makes on surfaces.\<close>

datatype surf_call =
    SurfCreate
  | SurfDestroy nat
  | SurfAttach nat fd "buffer_desc option"
  | SurfDetach nat
  | SurfDamage nat "isz_rect list"
  | SurfSetOutput nat nat
  | SurfClearOutput nat
  | SurfSetPosition nat int int
  | SurfSetSize nat int int
  | SurfSetPlaneType nat int
  | SurfSetPlaneSlot nat int
  | SurfSetTransform nat int
  | SurfSetIdleInhibit nat bool
  | SurfSetScale nat u32 u32
  | SurfSetRole nat int u64
  | SurfCreateSub nat
  | SurfCreatePopup nat int int
  | SurfCreateLayer nat isz_layer

fun surf_call_run :: "world \<Rightarrow> surf_call \<Rightarrow> world option" where
  "surf_call_run w SurfCreate = Some (fst (isz_surface_create w))"
| "surf_call_run w (SurfDestroy r) = isz_surface_destroy w (Some r)"
| "surf_call_run w (SurfAttach r d desc) = map_option fst (isz_surface_attach_buffer w (Some r) d desc)"
| "surf_call_run w (SurfDetach r) = map_option fst (isz_surface_detach_buffer w (Some r))"
| "surf_call_run w (SurfDamage r rs) = map_option fst (isz_surface_damage w (Some r) (Some rs) (length rs))"
| "surf_call_run w (SurfSetOutput r out) = map_option fst (isz_surface_set_output w (Some r) (Some out))"
| "surf_call_run w (SurfClearOutput r) = map_option fst (isz_surface_clear_output w (Some r))"
| "surf_call_run w (SurfSetPosition r x y) = map_option fst (isz_surface_set_position w (Some r) x y)"
| "surf_call_run w (SurfSetSize r x y) = map_option fst (isz_surface_set_size w (Some r) x y)"
| "surf_call_run w (SurfSetPlaneType r t) = map_option fst (isz_surface_set_plane_type w (Some r) t)"
| "surf_call_run w (SurfSetPlaneSlot r t) = map_option fst (isz_surface_set_plane_slot w (Some r) t)"
| "surf_call_run w (SurfSetTransform r t) = map_option fst (isz_surface_set_transform w (Some r) t)"
| "surf_call_run w (SurfSetIdleInhibit r b) = map_option fst (isz_surface_set_idle_inhibit w (Some r) b)"
| "surf_call_run w (SurfSetScale r n d) = map_option fst (isz_surface_set_scale w (Some r) n d)"
| "surf_call_run w (SurfSetRole r t h) = map_option fst (isz_surface_set_role w (Some r) t h)"
| "surf_call_run w (SurfCreateSub r) = map_option fst (isz_surface_create_subsurface w (Some r))"
| "surf_call_run w (SurfCreatePopup r x y) = map_option fst (isz_surface_create_popup w (Some r) x y)"
| "surf_call_run w (SurfCreateLayer out l) = map_option fst (isz_surface_create_layer w (Some out) l)"

text \<open>The caller's side: the surface and the output named exist, and a surface is not destroyed before
  its subsurfaces.\<close>

fun surf_call_pre :: "world \<Rightarrow> surf_call \<Rightarrow> bool" where
  "surf_call_pre w SurfCreate = True"
| "surf_call_pre w (SurfDestroy r) = (w_surfaces w r \<noteq> None \<and> childless w r)"
| "surf_call_pre w (SurfSetOutput r out) = (w_surfaces w r \<noteq> None \<and> w_outputs w out \<noteq> None)"
| "surf_call_pre w (SurfCreateLayer out l) = (w_outputs w out \<noteq> None)"
| "surf_call_pre w (SurfAttach r d desc) = (w_surfaces w r \<noteq> None)"
| "surf_call_pre w (SurfDetach r) = (w_surfaces w r \<noteq> None)"
| "surf_call_pre w (SurfDamage r rs) = (w_surfaces w r \<noteq> None)"
| "surf_call_pre w (SurfClearOutput r) = (w_surfaces w r \<noteq> None)"
| "surf_call_pre w (SurfSetPosition r x y) = (w_surfaces w r \<noteq> None)"
| "surf_call_pre w (SurfSetSize r x y) = (w_surfaces w r \<noteq> None)"
| "surf_call_pre w (SurfSetPlaneType r t) = (w_surfaces w r \<noteq> None)"
| "surf_call_pre w (SurfSetPlaneSlot r t) = (w_surfaces w r \<noteq> None)"
| "surf_call_pre w (SurfSetTransform r t) = (w_surfaces w r \<noteq> None)"
| "surf_call_pre w (SurfSetIdleInhibit r b) = (w_surfaces w r \<noteq> None)"
| "surf_call_pre w (SurfSetScale r n d) = (w_surfaces w r \<noteq> None)"
| "surf_call_pre w (SurfSetRole r t h) = (w_surfaces w r \<noteq> None)"
| "surf_call_pre w (SurfCreateSub r) = (w_surfaces w r \<noteq> None)"
| "surf_call_pre w (SurfCreatePopup r x y) = (w_surfaces w r \<noteq> None)"

text \<open>A run of calls is legal when each call meets its precondition in the state it is made in.\<close>

fun surf_calls_legal :: "world \<Rightarrow> surf_call list \<Rightarrow> bool" where
  "surf_calls_legal w [] = True"
| "surf_calls_legal w (c # cs) = (surf_call_pre w c \<and> (case surf_call_run w c of None \<Rightarrow> True | Some w' \<Rightarrow> surf_calls_legal w' cs))"

fun surf_calls_run :: "world \<Rightarrow> surf_call list \<Rightarrow> world option" where
  "surf_calls_run w [] = Some w"
| "surf_calls_run w (c # cs) = surf_call_run w c \<bind> (\<lambda>w. surf_calls_run w cs)"

lemma op_ok_fst: "op_ok w res \<Longrightarrow> \<exists>w'. map_option fst res = Some w' \<and> render_ok w'"
  by (auto simp: op_ok_def)

lemma op_ok_ex: "op_ok w res \<Longrightarrow> \<exists>w'. (\<exists>x. res = Some (w', x)) \<and> render_ok w'"
  by (auto simp: op_ok_def)

lemma surf_call_run_ok:
  assumes "render_ok w" "surf_call_pre w c"
  shows "\<exists>w'. surf_call_run w c = Some w' \<and> render_ok w'"
proof -
  have live: "w_surfaces w r \<noteq> None \<Longrightarrow> live_or_NULL w (Some r)" for r by (simp add: live_or_NULL_def)
  have made: "\<exists>w'. map_option fst x = Some w' \<and> render_ok w'"
    if "\<exists>res. x = Some res \<and> creates w s res" "surf_ok w s" "surf_bufs s = {}" "contrib s = None"
    for x :: "(world \<times> nat option) option" and s
    using that creates_render_ok [OF _ assms(1) that(2-4)] by auto
  have new_ok: "surf_ok w s" if "sf_damage s = []" "sf_owning_conn s = None" "sf_current s = None"
    "sf_output s = None \<or> w_outputs w (the (sf_output s)) \<noteq> None"
    "sf_kind s = ISZ_SURFACE_SUBSURFACE \<Longrightarrow> \<exists>p. sf_parent s = Some p \<and> w_surfaces w p \<noteq> None" for s
    using that by (auto simp: surf_ok_def)
  show ?thesis
  proof (cases c)
    case SurfCreate
    obtain w' x where cr: "isz_surface_create w = (w', x)" by fastforce
    from creates_render_ok [OF isz_surface_create_spec [of w, unfolded cr] assms(1) new_surface_view(3,1,2)] cr SurfCreate
    show ?thesis by simp
  next
    case (SurfDestroy r)
    with assms isz_surface_destroy_spec [OF assms(1), of r] show ?thesis by auto
  next
    case (SurfSetOutput r out)
    with assms live [of r] op_ok_fst [OF isz_surface_set_output_ok [OF assms(1), of "Some r" "Some out"]]
    show ?thesis by simp
  next
    case (SurfCreateLayer out l)
    with assms(2) have live: "w_outputs w out \<noteq> None" by simp
    show ?thesis unfolding SurfCreateLayer surf_call_run.simps
      by (rule made [OF isz_surface_create_layer_spec [OF live, where l = l]])
        (use live in \<open>auto simp: surf_bufs_def contrib_def new_surface_view intro!: new_ok\<close>)
  next
    case (SurfCreateSub r)
    with assms(2) have live: "w_surfaces w r \<noteq> None" by simp
    show ?thesis unfolding SurfCreateSub surf_call_run.simps
      by (rule made [OF isz_surface_create_subsurface_spec [OF live]])
        (use live in \<open>auto simp: surf_bufs_def contrib_def new_surface_view intro!: new_ok\<close>)
  next
    case (SurfCreatePopup r x y)
    with assms(2) have live: "w_surfaces w r \<noteq> None" by simp
    show ?thesis unfolding SurfCreatePopup surf_call_run.simps
      by (rule made [OF isz_surface_create_popup_spec [OF live, where x = x and y = y]])
        (use live in \<open>auto simp: surf_bufs_def contrib_def new_surface_view intro!: new_ok\<close>)
  qed (use assms in \<open>auto simp: live_or_NULL_def intro!: op_ok_ex surface_ops\<close>)
qed

lemma surf_calls_run_ok:
  assumes "render_ok w" "surf_calls_legal w cs"
  shows "\<exists>w'. surf_calls_run w cs = Some w' \<and> render_ok w'"
  using assms
proof (induction cs arbitrary: w)
  case (Cons c cs)
  then obtain w1 where "surf_call_run w c = Some w1" "render_ok w1"
    using surf_call_run_ok [of w c] by auto
  with Cons show ?case by simp
qed simp

text \<open>C14: for every sequence of calls that names live objects and destroys subsurfaces before their
  parent, and for every outcome of the environment, no call touches freed memory, and the invariant of
  the render layer holds afterwards: buffers have exactly one owner and are freed when it lets go,
  damage stays within its array, and idle-inhibit counts and events match the surfaces.\<close>

theorem surface_calls_safe:
  assumes "render_ok w" and "surf_calls_legal w cs"
  shows "\<exists>w'. surf_calls_run w cs = Some w' \<and> render_ok w'"
  using assms by (rule surf_calls_run_ok)

text \<open>A server with one output, and a subsurface, a layer surface and two attached buffers in it.\<close>

definition sample_world :: world where
  "sample_world = world_init\<lparr>w_outputs := (\<lambda>_. None)(1 \<mapsto> output_zero), w_output_list := [1], w_next_output := 2\<rparr>"

lemma render_ok_sample_world: "render_ok sample_world"
  by (simp add: sample_world_def render_ok_def surfaces_ok_def bufs_ok_def owned_def idle_ok_def resv_ok_def
      world_init_def bstate_init_def bstate.defs kern_init_def kern.defs output_zero_def inhibitors_def)

definition sample_calls :: "surf_call list" where
  "sample_calls = [SurfCreate, SurfSetOutput 1 1, SurfSetIdleInhibit 1 True, SurfAttach 1 7 (Some sample_desc),
     SurfCreateSub 1, SurfSetIdleInhibit 1 False, SurfAttach 1 8 (Some sample_desc), SurfDetach 1,
     SurfDestroy 2, SurfDestroy 1]"

lemmas sample_run_defs = sample_world_def world_init_def bstate_init_def bstate.defs kern_init_def kern.defs
  output_zero_def isz_surface_create_def k_alloc_def upd_surface_def upd_output_def isz_surface_set_output_def
  isz_surface_set_idle_inhibit_def isz_surface_attach_buffer_def isz_surface_detach_buffer_def
  isz_surface_create_subsurface_def isz_surface_destroy_def with_surface_def isz_buffer_import_def
  surface_zero_def sample_desc_def isz_surface_inhibit_adjust_def isz_server_emit_event_def
  isz_render_send_idle_inhibit_def unlink_child_def release_unref_def isz_buffer_release_def
  isz_buffer_unref_def upd_buf_def k_close_def childless_def isz_plane_slot_release_def Let_def

theorem surface_calls_safe_witness:
  "surf_calls_legal sample_world sample_calls \<and> (\<exists>w'. surf_calls_run sample_world sample_calls = Some w' \<and> render_ok w')"
proof -
  have legal: "surf_calls_legal sample_world sample_calls"
    by (simp add: sample_calls_def sample_run_defs)
  with surface_calls_safe [OF render_ok_sample_world legal] show ?thesis by simp
qed

text \<open>C15: attaching a buffer to a live surface. On success the new buffer is the current one, the old
  current one waits for its release, and the one that waited is freed and its descriptor closed; nothing
  else is closed. On failure the descriptor handed in is closed exactly once and nothing else changes.\<close>

theorem attach_swaps_buffers:
  assumes "render_ok w" and "w_surfaces w r = Some s" and "dmabuf_fd \<ge> 0"
  shows "\<exists>w' e. isz_surface_attach_buffer w (Some r) dmabuf_fd (Some d) = Some (w', e)
    \<and> (if e = ISZ_OK
       then \<exists>s' b buf. w_surfaces w' r = Some s' \<and> sf_current s' = Some b \<and> bs_bufs w' b = Some buf
              \<and> b_dmabuf_fd buf = dmabuf_fd \<and> bs_bufs w b = None \<and> sf_pending_release s' = sf_current s
              \<and> k_closed w' = k_closed w @ (case sf_pending_release s of None \<Rightarrow> []
                    | Some p \<Rightarrow> [b_dmabuf_fd (the (bs_bufs w p))])
       else k_closed w' = k_closed w @ [dmabuf_fd] \<and> w_surfaces w' = w_surfaces w \<and> bs_bufs w' = bs_bufs w)"
  using isz_surface_attach_buffer_spec [OF assms, of d] by blast

definition two_buffer_world :: world where
  "two_buffer_world = the (surf_calls_run sample_world
     [SurfCreate, SurfAttach 1 7 (Some sample_desc), SurfAttach 1 8 (Some sample_desc)])"

lemma two_buffer_world_facts:
  "render_ok two_buffer_world"
  "\<exists>s. w_surfaces two_buffer_world 1 = Some s \<and> sf_pending_release s = Some 1 \<and> sf_current s = Some 2
     \<and> b_dmabuf_fd (the (bs_bufs two_buffer_world 1)) = 7"
proof -
  let ?cs = "[SurfCreate, SurfAttach 1 7 (Some sample_desc), SurfAttach 1 8 (Some sample_desc)]"
  have "surf_calls_legal sample_world ?cs" by (simp add: sample_run_defs)
  from surf_calls_run_ok [OF render_ok_sample_world this] show "render_ok two_buffer_world"
    by (auto simp: two_buffer_world_def)
  show "\<exists>s. w_surfaces two_buffer_world 1 = Some s \<and> sf_pending_release s = Some 1 \<and> sf_current s = Some 2
     \<and> b_dmabuf_fd (the (bs_bufs two_buffer_world 1)) = 7"
    by (simp add: two_buffer_world_def sample_run_defs)
qed

theorem attach_swaps_buffers_witness:
  "\<exists>w' e. isz_surface_attach_buffer two_buffer_world (Some 1) 9 (Some sample_desc) = Some (w', e)
    \<and> (if e = ISZ_OK then k_closed w' = k_closed two_buffer_world @ [7]
       else k_closed w' = k_closed two_buffer_world @ [9])"
proof -
  obtain s where s: "w_surfaces two_buffer_world 1 = Some s" "sf_pending_release s = Some 1"
    "b_dmabuf_fd (the (bs_bufs two_buffer_world 1)) = 7" using two_buffer_world_facts(2) by blast
  from attach_swaps_buffers [OF two_buffer_world_facts(1) s(1), of 9 sample_desc] s(2,3)
  show ?thesis by (auto split: if_splits)
qed

text \<open>destroying a surface that has no subsurfaces frees it and exactly the buffers it owned,
  and the last descriptors it closes are theirs.\<close>

theorem destroy_releases_buffers:
  assumes "render_ok w" and "w_surfaces w r = Some s" and "childless w r"
  shows "\<exists>w' pre. isz_surface_destroy w (Some r) = Some w'
    \<and> w_surfaces w' = (w_surfaces w)(r := None) \<and> r \<notin> set (w_surface_list w')
    \<and> bs_bufs w' = (\<lambda>b. if b \<in> surf_bufs s then None else bs_bufs w b)
    \<and> k_closed w' = pre @ release_fds w s"
proof -
  obtain w' pre where "isz_surface_destroy w (Some r) = Some w'" "render_ok w'"
    "w_surfaces w' = (w_surfaces w)(r := None)" "k_closed w' = pre @ release_fds w s"
    "bs_bufs w' = (\<lambda>b. if b \<in> surf_bufs s then None else bs_bufs w b)"
    using isz_surface_destroy_spec [OF assms] by blast
  moreover from this have "r \<notin> set (w_surface_list w')" by (auto simp: render_ok_def surfaces_ok_def)
  ultimately show ?thesis by blast
qed

theorem destroy_releases_buffers_witness:
  "\<exists>w' pre. isz_surface_destroy two_buffer_world (Some 1) = Some w' \<and> w_surfaces w' 1 = None
    \<and> k_closed w' = pre @ [8, 7]"
proof -
  obtain s where s: "w_surfaces two_buffer_world 1 = Some s" using two_buffer_world_facts(2) by blast
  have "childless two_buffer_world 1" "release_fds two_buffer_world s = [8, 7]"
    using s by (auto simp: two_buffer_world_def sample_run_defs release_fds_def)
  with destroy_releases_buffers [OF two_buffer_world_facts(1) s] show ?thesis by auto
qed

text \<open>A parent destroyed before its subsurface leaves the subsurface linked to freed memory: destroying
  the subsurface afterwards is a use after free.\<close>

lemma parent_destroyed_first_faults:
  "surf_calls_run sample_world [SurfCreate, SurfCreateSub 1, SurfDestroy 1, SurfDestroy 2] = None"
  by (simp add: sample_run_defs)

end
