(* ===== verification/Isz_Output.thy ===== *)
theory Isz_Output
  imports Isz_Surface_Inv
begin

text \<open>
  Outputs, \<^verbatim>\<open>src/isz_output.c\<close>: wrapping and unwrapping of headless outputs, the cached output list,
  modes, enable and disable, DPMS, colour tables, HDR metadata and plane-slot queries. The DRM half
  (\<^verbatim>\<open>ISHIZUE_HAVE_DRM\<close>) is not part of the modelled build; \<^verbatim>\<open>ENABLE_HDR\<close> is on.

  A mode pointer is the pair of its output and its index, so that a mode of another output is told apart.
\<close>

section \<open>Helpers\<close>

definition isz_output_free_modes :: "isz_output \<Rightarrow> isz_output" where
  "isz_output_free_modes o' = o'\<lparr>o_modes := [], o_mode_ptrs := None\<rparr>"

definition isz_output_free_color_lut :: "color_lut \<Rightarrow> color_lut" where
  "isz_output_free_color_lut lut = lut\<lparr>lut_r := [], lut_g := [], lut_b := [], lut_size := 0, lut_set := False\<rparr>"

text \<open>The channel arguments are \<open>None\<close> for \<^verbatim>\<open>NULL\<close>; reading past an array is \<open>None\<close> overall. All three
  allocations are attempted before the check.\<close>

definition isz_output_set_color_lut ::
    "world \<Rightarrow> color_lut \<Rightarrow> u16 list option \<Rightarrow> u16 list option \<Rightarrow> u16 list option \<Rightarrow> nat \<Rightarrow> nat
       \<Rightarrow> (world \<times> color_lut \<times> isz_error) option" where
  "isz_output_set_color_lut w lut r g b sz hw_size = (case (r, g, b) of
       (Some r, Some g, Some b) \<Rightarrow>
         if sz \<noteq> hw_size then Some (w, lut, ISZ_ERR_INVALID_ARG)
         else let (w, nr) = k_alloc w; (w, ng) = k_alloc w; (w, nb) = k_alloc w
              in if \<not> (nr \<and> ng \<and> nb) then Some (w, lut, ISZ_ERR_NO_MEMORY)
                 else if sz > length r \<or> sz > length g \<or> sz > length b then None
                 else Some (w, (isz_output_free_color_lut lut)\<lparr>lut_r := take sz r, lut_g := take sz g,
                                 lut_b := take sz b, lut_size := sz, lut_set := True\<rparr>, ISZ_OK)
     | _ \<Rightarrow> Some (w, lut, ISZ_ERR_INVALID_ARG))"

abbreviation (input) "ISZ_FMT_XRGB8888 \<equiv> (0x34325258 :: u32)"
abbreviation (input) "ISZ_FMT_ARGB8888 \<equiv> (0x34325241 :: u32)"

definition headless_slots :: "plane_slot list" where
  "headless_slots =
     [\<lparr>ps_id = 1, ps_type = ISZ_PLANE_PRIMARY, ps_formats = [ISZ_FMT_XRGB8888, ISZ_FMT_ARGB8888],
       ps_supports_scaling = True, ps_supports_transform = True, ps_zpos_min = 0, ps_zpos_max = 0\<rparr>,
      \<lparr>ps_id = 2, ps_type = ISZ_PLANE_OVERLAY, ps_formats = [ISZ_FMT_XRGB8888, ISZ_FMT_ARGB8888],
       ps_supports_scaling = True, ps_supports_transform = True, ps_zpos_min = 1, ps_zpos_max = 255\<rparr>,
      \<lparr>ps_id = 3, ps_type = ISZ_PLANE_CURSOR, ps_formats = [ISZ_FMT_ARGB8888],
       ps_supports_scaling = False, ps_supports_transform = False, ps_zpos_min = 256, ps_zpos_max = 256\<rparr>]"

definition isz_output_build_headless_slots :: "world \<Rightarrow> isz_output \<Rightarrow> world \<times> isz_output \<times> isz_error" where
  "isz_output_build_headless_slots w o' =
     (case k_alloc w of
        (w, False) \<Rightarrow> (w, o'\<lparr>o_slots := None\<rparr>, ISZ_ERR_NO_MEMORY)
      | (w, True) \<Rightarrow> (w, o'\<lparr>o_slots := Some headless_slots\<rparr>, ISZ_OK))"

definition isz_output_destroy_internal :: "isz_output \<Rightarrow> isz_output" where
  "isz_output_destroy_internal o' =
     (let o' = isz_output_free_modes o';
          o' = o'\<lparr>o_gamma := isz_output_free_color_lut (o_gamma o'),
                  o_degamma := isz_output_free_color_lut (o_degamma o')\<rparr>
      in o'\<lparr>o_edid := None, o_slots := None, o_current_mode := None\<rparr>)"

section \<open>Wrapping headless outputs\<close>

record headless_output_info =
  hi_id :: u32
  hi_name :: "char list"
  hi_width :: u32
  hi_height :: u32
  hi_refresh_mhz :: u32
  hi_enabled :: bool

fun headless_wrapped :: "world \<Rightarrow> nat list \<Rightarrow> u32 \<Rightarrow> nat option option" where
  "headless_wrapped w [] hid = Some None"
| "headless_wrapped w (r # rs) hid = do {
     o' \<leftarrow> w_outputs w r;
     (if o_is_headless o' \<and> o_headless_id o' = hid then Some (Some r) else headless_wrapped w rs hid)
   }"

text \<open>The output is linked, and visible, only after the last allocation succeeded; the identifier is
  taken at the first one.\<close>

definition isz_server_wrap_headless_output :: "world \<Rightarrow> headless_output_info option \<Rightarrow> (world \<times> isz_error) option" where
  "isz_server_wrap_headless_output w info = (case info of
       None \<Rightarrow> Some (w, ISZ_ERR_INVALID_ARG)
     | Some info \<Rightarrow> do {
         found \<leftarrow> headless_wrapped w (w_output_list w) (hi_id info);
         (if found \<noteq> None then Some (w, ISZ_OK)
          else case k_alloc w of
            (w, False) \<Rightarrow> Some (w, ISZ_ERR_NO_MEMORY)
          | (w, True) \<Rightarrow>
              let o' = output_zero\<lparr>o_id := w_next_output_id w, o_headless_id := hi_id info, o_is_headless := True,
                                   o_dpms := ISZ_DPMS_OFF, o_enabled := False, o_name := take 31 (hi_name info)\<rparr>;
                  w = w\<lparr>w_next_output_id := w_next_output_id w + 1\<rparr>
              in case k_alloc w of
                (w, False) \<Rightarrow> Some (w, ISZ_ERR_NO_MEMORY)
              | (w, True) \<Rightarrow>
                  case k_alloc w of
                    (w, False) \<Rightarrow> Some (w, ISZ_ERR_NO_MEMORY)
                  | (w, True) \<Rightarrow>
                      let o' = o'\<lparr>o_modes := [\<lparr>md_width = hi_width info, md_height = hi_height info,
                                               md_refresh_mhz = hi_refresh_mhz info, md_preferred = True\<rparr>]\<rparr>
                      in case k_alloc w of
                        (w, False) \<Rightarrow> Some (w, ISZ_ERR_NO_MEMORY)
                      | (w, True) \<Rightarrow>
                          case isz_output_build_headless_slots w (o'\<lparr>o_mode_ptrs := Some [0]\<rparr>) of
                            (w, o', rc) \<Rightarrow>
                              if isz_error_code rc < 0 then Some (w, ISZ_ERR_NO_MEMORY)
                              else let r = w_next_output w;
                                       w = upd_output (w\<lparr>w_next_output := r + 1\<rparr>) r o';
                                       w = w\<lparr>w_output_list := w_output_list w @ [r]\<rparr>
                                   in Some (isz_server_emit_event w ISZ_EVENT_OUTPUT_ADD, ISZ_OK))
       })"

definition isz_server_unwrap_headless_output :: "world \<Rightarrow> u32 \<Rightarrow> world option" where
  "isz_server_unwrap_headless_output w hid = do {
     found \<leftarrow> headless_wrapped w (w_output_list w) hid;
     (case found of
        None \<Rightarrow> Some w
      | Some r \<Rightarrow> do {
          o' \<leftarrow> w_outputs w r;
          Some (isz_server_emit_event (upd_output w r (o'\<lparr>o_disconnected := True\<rparr>)) ISZ_EVENT_OUTPUT_REMOVE)
        })
   }"

section \<open>Public operations\<close>

text \<open>\<^verbatim>\<open>isz_output_list\<close> returns the cache and the count; the cache is the list itself as long as it was
  large enough. \<open>None\<close> is \<^verbatim>\<open>NULL\<close> after a failed \<^verbatim>\<open>realloc\<close>, with count 0.\<close>

definition isz_output_list :: "world \<Rightarrow> world \<times> nat list option" where
  "isz_output_list w =
     (let n = length (w_output_list w)
      in if n > w_output_list_count w
         then case k_alloc w of
                (w, False) \<Rightarrow> (w, None)
              | (w, True) \<Rightarrow> (w\<lparr>w_output_list_count := n\<rparr>, Some (w_output_list w))
         else (w, Some (w_output_list w)))"

definition with_output ::
    "world \<Rightarrow> nat option \<Rightarrow> (nat \<Rightarrow> isz_output \<Rightarrow> (world \<times> isz_error) option) \<Rightarrow> (world \<times> isz_error) option" where
  "with_output w out f = (case out of
       None \<Rightarrow> Some (w, ISZ_ERR_INVALID_ARG)
     | Some r \<Rightarrow> do { o' \<leftarrow> w_outputs w r; f r o' })"

text \<open>The mode pointers, \<open>None\<close> for a \<^verbatim>\<open>NULL\<close> array.\<close>

definition isz_output_get_modes :: "world \<Rightarrow> nat option \<Rightarrow> (nat \<times> nat) list option option" where
  "isz_output_get_modes w out = (case out of
       None \<Rightarrow> Some None
     | Some r \<Rightarrow> do { o' \<leftarrow> w_outputs w r; Some (map_option (map (Pair r)) (o_mode_ptrs o')) })"

definition isz_output_enable :: "world \<Rightarrow> nat option \<Rightarrow> (nat \<times> nat) option \<Rightarrow> (world \<times> isz_error) option" where
  "isz_output_enable w out mode = (case mode of
       None \<Rightarrow> Some (w, ISZ_ERR_INVALID_ARG)
     | Some (owner, i) \<Rightarrow> with_output w out (\<lambda>r o'.
         if \<not> (owner = r \<and> i < length (o_modes o')) then Some (w, ISZ_ERR_INVALID_ARG)
         else Some (upd_output w r (o'\<lparr>o_current_mode := Some i, o_enabled := True, o_dpms := ISZ_DPMS_ON\<rparr>), ISZ_OK)))"

definition isz_output_disable :: "world \<Rightarrow> nat option \<Rightarrow> (world \<times> isz_error) option" where
  "isz_output_disable w out = with_output w out (\<lambda>r o'.
     Some (upd_output w r (o'\<lparr>o_enabled := False, o_current_mode := None\<rparr>), ISZ_OK))"

definition isz_output_destroy :: "world \<Rightarrow> nat option \<Rightarrow> world option" where
  "isz_output_destroy w out = (case out of
       None \<Rightarrow> Some w
     | Some r \<Rightarrow> do {
         o' \<leftarrow> w_outputs w r;
         Some (w\<lparr>w_output_list := remove1 r (w_output_list w), w_outputs := (w_outputs w)(r := None),
                 w_output_list_count := 0\<rparr>)
       })"

definition isz_output_set_dpms :: "world \<Rightarrow> nat option \<Rightarrow> isz_dpms_state \<Rightarrow> (world \<times> isz_error) option" where
  "isz_output_set_dpms w out state = with_output w out (\<lambda>r o'.
     Some (upd_output w r (o'\<lparr>o_dpms := state\<rparr>), ISZ_OK))"

definition isz_output_get_edid :: "world \<Rightarrow> nat option \<Rightarrow> u8 list option option" where
  "isz_output_get_edid w out = (case out of None \<Rightarrow> Some None | Some r \<Rightarrow> map_option o_edid (w_outputs w r))"

abbreviation (input) "ISZ_HEADLESS_LUT_SIZE \<equiv> (256 :: nat)"

definition isz_output_set_gamma ::
    "world \<Rightarrow> nat option \<Rightarrow> u16 list option \<Rightarrow> u16 list option \<Rightarrow> u16 list option \<Rightarrow> nat \<Rightarrow> (world \<times> isz_error) option" where
  "isz_output_set_gamma w out r g b sz = with_output w out (\<lambda>ref o'. do {
     let hw = (if o_is_headless o' then ISZ_HEADLESS_LUT_SIZE else sz);
     (w, lut, rc) \<leftarrow> isz_output_set_color_lut w (o_gamma o') r g b sz hw;
     Some (upd_output w ref (o'\<lparr>o_gamma := lut\<rparr>), rc)
   })"

definition isz_output_set_degamma ::
    "world \<Rightarrow> nat option \<Rightarrow> u16 list option \<Rightarrow> u16 list option \<Rightarrow> u16 list option \<Rightarrow> nat \<Rightarrow> (world \<times> isz_error) option" where
  "isz_output_set_degamma w out r g b sz = with_output w out (\<lambda>ref o'. do {
     let hw = (if o_is_headless o' then ISZ_HEADLESS_LUT_SIZE else sz);
     (w, lut, rc) \<leftarrow> isz_output_set_color_lut w (o_degamma o') r g b sz hw;
     Some (upd_output w ref (o'\<lparr>o_degamma := lut\<rparr>), rc)
   })"

text \<open>The matrix is \<^verbatim>\<open>const float matrix[9]\<close>.\<close>

definition isz_output_set_ctm :: "world \<Rightarrow> nat option \<Rightarrow> u32 list option \<Rightarrow> (world \<times> isz_error) option" where
  "isz_output_set_ctm w out matrix = (case matrix of
       None \<Rightarrow> Some (w, ISZ_ERR_INVALID_ARG)
     | Some m \<Rightarrow> with_output w out (\<lambda>r o'.
         if length m < 9 then None
         else Some (upd_output w r (o'\<lparr>o_ctm := take 9 m, o_ctm_set := True\<rparr>), ISZ_OK)))"

text \<open>The metadata argument is its \<^verbatim>\<open>size\<close> field and its 64 bytes; \<open>o_hdr\<close> keeps the \<^verbatim>\<open>size\<close> bytes stored.\<close>

definition isz_output_set_hdr_metadata :: "world \<Rightarrow> nat option \<Rightarrow> (nat \<times> u8 list) option \<Rightarrow> (world \<times> isz_error) option" where
  "isz_output_set_hdr_metadata w out meta = (case meta of
       None \<Rightarrow> Some (w, ISZ_ERR_INVALID_ARG)
     | Some (sz, bytes) \<Rightarrow> with_output w out (\<lambda>r o'.
         let n = (if sz > 64 then 64 else sz)
         in if n > length bytes then None
            else Some (upd_output w r (o'\<lparr>o_hdr := take n bytes, o_hdr_set := True\<rparr>), ISZ_OK)))"

text \<open>\<^verbatim>\<open>isz_output_get_plane_slots\<close> fills at most \<^verbatim>\<open>max\<close> entries and returns the number of slots.\<close>

definition isz_output_get_plane_slots :: "world \<Rightarrow> nat option \<Rightarrow> nat \<Rightarrow> (nat \<times> plane_slot list) option" where
  "isz_output_get_plane_slots w out max_n = (case out of
       None \<Rightarrow> Some (0, [])
     | Some r \<Rightarrow> do {
         o' \<leftarrow> w_outputs w r;
         let slots = (case o_slots o' of None \<Rightarrow> [] | Some s \<Rightarrow> s);
         let n = (if length slots < max_n then length slots else max_n);
         Some (length slots, map (\<lambda>s. s\<lparr>ps_formats := take 16 (ps_formats s)\<rparr>) (take n slots))
       })"

definition isz_output_set_gpu_node :: "world \<Rightarrow> nat option \<Rightarrow> char list option \<Rightarrow> (world \<times> isz_error) option" where
  "isz_output_set_gpu_node w out path = (case path of
       None \<Rightarrow> Some (w, ISZ_ERR_INVALID_ARG)
     | Some p \<Rightarrow> with_output w out (\<lambda>r o'.
         if length p = 0 \<or> length p \<ge> 64 then Some (w, ISZ_ERR_INVALID_ARG)
         else Some (upd_output w r (o'\<lparr>o_gpu_node_path := p\<rparr>), ISZ_OK)))"

definition isz_output_get_hdr_metadata :: "world \<Rightarrow> nat option \<Rightarrow> u8 list option option" where
  "isz_output_get_hdr_metadata w out = (case out of
       None \<Rightarrow> Some None | Some r \<Rightarrow> map_option (\<lambda>o'. Some (o_hdr o')) (w_outputs w r))"

definition isz_output_set_vrr_enabled :: "world \<Rightarrow> nat option \<Rightarrow> bool \<Rightarrow> (world \<times> isz_error) option" where
  "isz_output_set_vrr_enabled w out enabled = with_output w out (\<lambda>r o'.
     Some (upd_output w r (o'\<lparr>o_vrr_enabled := enabled\<rparr>), ISZ_OK))"

section \<open>Invariant\<close>

definition lut_ok :: "bool \<Rightarrow> color_lut \<Rightarrow> bool" where
  "lut_ok headless l \<longleftrightarrow> length (lut_r l) = lut_size l \<and> length (lut_g l) = lut_size l \<and> length (lut_b l) = lut_size l
     \<and> (headless \<and> lut_set l \<longrightarrow> lut_size l = ISZ_HEADLESS_LUT_SIZE)"

text \<open>An enabled output has a current mode, and mode pointers stay within the modes; the fixed-size
  arrays of the struct are never overrun.\<close>

definition out_ok :: "isz_output \<Rightarrow> bool" where
  "out_ok o' \<longleftrightarrow> (\<forall>i. o_current_mode o' = Some i \<longrightarrow> i < length (o_modes o'))
     \<and> (\<forall>ps. o_mode_ptrs o' = Some ps \<longrightarrow> (\<forall>i \<in> set ps. i < length (o_modes o')))
     \<and> (o_enabled o' \<longrightarrow> o_current_mode o' \<noteq> None)
     \<and> length (o_ctm o') = 9 \<and> length (o_hdr o') \<le> 64 \<and> length (o_name o') \<le> 31 \<and> length (o_gpu_node_path o') < 64
     \<and> lut_ok (o_is_headless o') (o_gamma o') \<and> lut_ok (o_is_headless o') (o_degamma o')"

definition outputs_ok :: "world \<Rightarrow> bool" where
  "outputs_ok w \<longleftrightarrow> distinct (w_output_list w) \<and> set (w_output_list w) = dom (w_outputs w)
     \<and> (\<forall>r o'. w_outputs w r = Some o' \<longrightarrow> r < w_next_output w \<and> out_ok o')"

text \<open>The operations that only change the fields of one output.\<close>

definition output_frame :: "world \<Rightarrow> world \<Rightarrow> bool" where
  "output_frame w w' \<longleftrightarrow> kern.more (w'\<lparr>w_outputs := w_outputs w\<rparr>) = kern.more w
     \<and> (\<forall>r. map_option (\<lambda>o'. (o_id o', o_idle_inhibit_count o')) (w_outputs w' r)
             = map_option (\<lambda>o'. (o_id o', o_idle_inhibit_count o')) (w_outputs w r))"

lemma output_frame_refl [simp]: "output_frame w w"
  by (simp add: output_frame_def)

lemma output_frame_fields:
  assumes "output_frame w w'"
  shows "bs_bufs w' = bs_bufs w" "bs_next_buf w' = bs_next_buf w"
    "w_state w' = w_state w" "w_output_list w' = w_output_list w" "w_next_output w' = w_next_output w"
    "w_surfaces w' = w_surfaces w" "w_surface_list w' = w_surface_list w"
    "w_next_surface w' = w_next_surface w" "w_children w' = w_children w" "w_conns w' = w_conns w"
    "w_next_conn w' = w_next_conn w" "w_clients w' = w_clients w" "w_client_list w' = w_client_list w"
    "w_resv w' = w_resv w" "w_captures w' = w_captures w"
    "w_consents w' = w_consents w" "w_input_state w' = w_input_state w" "w_seats w' = w_seats w"
    "w_seat_list w' = w_seat_list w" "w_next_seat w' = w_next_seat w"
    "w_default_seat w' = w_default_seat w" "w_clipboard w' = w_clipboard w"
    "w_selection_fd w' = w_selection_fd w" "w_events w' = w_events w" "w_backend w' = w_backend w"
    "w_text_inputs w' = w_text_inputs w" "w_next_text_input w' = w_next_text_input w" "w_listen_fd w' = w_listen_fd w"
    "w_input_methods w' = w_input_methods w" "w_next_input_method w' = w_next_input_method w"
    "w_allow_binaries w' = w_allow_binaries w" "w_allow_cgroups w' = w_allow_cgroups w" "w_next_client w' = w_next_client w"
  using kern_more_world [OF conjunct1 [OF assms [unfolded output_frame_def]]] by simp_all

lemma output_frame_at:
  "output_frame w w' \<Longrightarrow> map_option (\<lambda>o'. (o_id o', o_idle_inhibit_count o')) (w_outputs w' r)
     = map_option (\<lambda>o'. (o_id o', o_idle_inhibit_count o')) (w_outputs w r)"
  by (simp add: output_frame_def)

lemma output_frame_live: "output_frame w w' \<Longrightarrow> (w_outputs w' r = None) = (w_outputs w r = None)"
  by (drule output_frame_at [of _ _ r]) (cases "w_outputs w r"; cases "w_outputs w' r"; simp)

lemma output_frame_upd:
  assumes "kern.more w1 = kern.more w" "w_outputs w r = Some o'" "o_id p = o_id o'"
    "o_idle_inhibit_count p = o_idle_inhibit_count o'"
  shows "output_frame w (upd_output w1 r p)"
proof -
  have "kern.more (upd_output w1 r p\<lparr>w_outputs := w_outputs w\<rparr>) = kern.more w"
    using assms(1) by (cases w; cases w1) (simp add: upd_output_def)
  then show ?thesis using assms kern_more_world(6) [OF assms(1)] by (simp add: output_frame_def upd_output_def)
qed

lemma render_ok_output:
  assumes "output_frame w w'" "render_ok w"
  shows "render_ok w'"
proof -
  note f = output_frame_fields [OF assms(1)] and ok = render_okD [OF assms(2)]
  have "surf_ok w' s = surf_ok w s" for s by (simp add: surf_ok_def f output_frame_live [OF assms(1)])
  then have "surfaces_ok w'" using ok(1) by (simp add: surfaces_ok_def f)
  moreover have "idle_ok (w_surfaces w) (w_outputs w') (w_events w)"
    unfolding idle_ok_def
  proof
    fix out
    have "map_option o_idle_inhibit_count (w_outputs w' out) = map_option o_idle_inhibit_count (w_outputs w out)"
      using output_frame_at [OF assms(1), of out] by (cases "w_outputs w out"; cases "w_outputs w' out") auto
    then show "case w_outputs w' out of None \<Rightarrow> \<not> idle_announced (w_events w) out False
      | Some o' \<Rightarrow> o_idle_inhibit_count o' = int (card (inhibitors (w_surfaces w) out))
          \<and> idle_announced (w_events w) out False = (o_idle_inhibit_count o' > 0)"
      using idle_okD [OF ok(3), of out] idle_okD_None [OF ok(3), of out]
      by (cases "w_outputs w out"; cases "w_outputs w' out") auto
  qed
  ultimately show ?thesis using ok by (simp add: render_ok_def f)
qed

definition oop_ok :: "world \<Rightarrow> (world \<times> 'r) option \<Rightarrow> bool" where
  "oop_ok w res \<longleftrightarrow> (\<exists>w' x. res = Some (w', x) \<and> outputs_ok w' \<and> output_frame w w')"

lemma outputs_okD: "outputs_ok w \<Longrightarrow> w_outputs w r = Some o' \<Longrightarrow> out_ok o' \<and> r < w_next_output w"
  by (simp add: outputs_ok_def)

lemma outputs_ok_frame:
  assumes "outputs_ok w" "output_frame w w'" "\<And>r p. w_outputs w' r = Some p \<Longrightarrow> w_outputs w r = Some p \<or> out_ok p"
  shows "outputs_ok w'"
proof -
  have dom: "dom (w_outputs w') = dom (w_outputs w)" using output_frame_live [OF assms(2)] by (auto simp: dom_def)
  have "out_ok p \<and> r < w_next_output w" if "w_outputs w' r = Some p" for r p
  proof -
    from that output_frame_live [OF assms(2), of r] obtain q where "w_outputs w r = Some q" by auto
    with outputs_okD [OF assms(1)] assms(3) [OF that] show ?thesis by auto
  qed
  then show ?thesis using assms(1) dom by (simp add: outputs_ok_def output_frame_fields [OF assms(2)])
qed

lemma upd_output_ok:
  assumes "outputs_ok w" "w_outputs w r = Some o'" "kern.more w1 = kern.more w"
    "out_ok o' \<Longrightarrow> out_ok p" "o_id p = o_id o'" "o_idle_inhibit_count p = o_idle_inhibit_count o'"
  shows "oop_ok w (Some (upd_output w1 r p, x))"
proof -
  note fr = output_frame_upd [OF assms(3,2,5,6)]
  have "outputs_ok (upd_output w1 r p)"
    by (rule outputs_ok_frame [OF assms(1) fr])
      (use assms(1,2,4) outputs_okD kern_more_world(6) [OF assms(3)] in \<open>auto simp: upd_output_def split: if_splits\<close>)
  with fr show ?thesis by (simp add: oop_ok_def)
qed

lemma with_output_ok:
  assumes "outputs_ok w" "\<And>r. out = Some r \<Longrightarrow> w_outputs w r \<noteq> None"
    "\<And>r o'. out = Some r \<Longrightarrow> w_outputs w r = Some o' \<Longrightarrow> out_ok o' \<Longrightarrow> oop_ok w (f r o')"
  shows "oop_ok w (with_output w out f)"
proof (cases out)
  case None
  with assms(1) show ?thesis by (simp add: with_output_def oop_ok_def)
next
  case (Some r)
  with assms(2) obtain o' where o': "w_outputs w r = Some o'" by auto
  with assms(3) [OF Some o'] outputs_okD [OF assms(1) o'] Some show ?thesis by (simp add: with_output_def)
qed

lemma oop_ok_same: "outputs_ok w \<Longrightarrow> oop_ok w (Some (w, x))"
  by (simp add: oop_ok_def)

named_theorems output_ops \<open>safety of the operations on an output\<close>

lemma isz_output_enable_ok [output_ops]:
  assumes "outputs_ok w" "\<And>r. out = Some r \<Longrightarrow> w_outputs w r \<noteq> None"
  shows "oop_ok w (isz_output_enable w out mode)"
proof (cases mode)
  case None
  with assms(1) show ?thesis by (simp add: isz_output_enable_def oop_ok_same)
next
  case (Some m)
  obtain owner i where m: "m = (owner, i)" by fastforce
  show ?thesis unfolding isz_output_enable_def Some m option.case prod.case
    by (rule with_output_ok [OF assms])
      (auto simp: oop_ok_same [OF assms(1)] out_ok_def intro!: upd_output_ok [OF assms(1)])
qed

lemma plain_output_setters_ok [output_ops]:
  assumes "outputs_ok w" "\<And>r. out = Some r \<Longrightarrow> w_outputs w r \<noteq> None"
  shows "oop_ok w (isz_output_disable w out)" "oop_ok w (isz_output_set_dpms w out st)"
    "oop_ok w (isz_output_set_vrr_enabled w out b)"
  unfolding isz_output_disable_def isz_output_set_dpms_def isz_output_set_vrr_enabled_def
  by (rule with_output_ok [OF assms], auto simp: out_ok_def intro!: upd_output_ok [OF assms(1)])+

lemma isz_output_set_gpu_node_ok [output_ops]:
  assumes "outputs_ok w" "\<And>r. out = Some r \<Longrightarrow> w_outputs w r \<noteq> None"
  shows "oop_ok w (isz_output_set_gpu_node w out path)"
proof (cases path)
  case (Some p)
  show ?thesis unfolding isz_output_set_gpu_node_def Some option.case
    by (rule with_output_ok [OF assms])
      (auto simp: out_ok_def oop_ok_same [OF assms(1)] intro!: upd_output_ok [OF assms(1)])
qed (simp add: isz_output_set_gpu_node_def oop_ok_same [OF assms(1)])

lemma isz_output_set_ctm_ok [output_ops]:
  assumes "outputs_ok w" "\<And>r. out = Some r \<Longrightarrow> w_outputs w r \<noteq> None" "\<And>m. matrix = Some m \<Longrightarrow> length m = 9"
  shows "oop_ok w (isz_output_set_ctm w out matrix)"
proof (cases matrix)
  case (Some m)
  with assms(3) have len: "length m = 9" by simp
  show ?thesis unfolding isz_output_set_ctm_def Some option.case
    by (rule with_output_ok [OF assms(1,2)])
      (use len in \<open>auto simp: out_ok_def intro!: upd_output_ok [OF assms(1)]\<close>)
qed (simp add: isz_output_set_ctm_def oop_ok_same [OF assms(1)])

lemma isz_output_set_hdr_metadata_ok [output_ops]:
  assumes "outputs_ok w" "\<And>r. out = Some r \<Longrightarrow> w_outputs w r \<noteq> None"
    "\<And>n bs. meta = Some (n, bs) \<Longrightarrow> min n 64 \<le> length bs"
  shows "oop_ok w (isz_output_set_hdr_metadata w out meta)"
proof (cases meta)
  case (Some m)
  obtain n bs where m: "m = (n, bs)" by fastforce
  with assms(3) Some have len: "min n 64 \<le> length bs" by simp
  show ?thesis unfolding isz_output_set_hdr_metadata_def Some m option.case prod.case
    by (rule with_output_ok [OF assms(1,2)])
      (use len in \<open>auto simp: out_ok_def Let_def min_def split: if_splits intro!: upd_output_ok [OF assms(1)]\<close>)
qed (simp add: isz_output_set_hdr_metadata_def oop_ok_same [OF assms(1)])

definition arr_covers :: "'a list option \<Rightarrow> nat \<Rightarrow> bool" where
  "arr_covers x n \<longleftrightarrow> (case x of None \<Rightarrow> True | Some xs \<Rightarrow> n \<le> length xs)"

lemma isz_output_set_color_lut_spec:
  assumes "arr_covers r sz" "arr_covers g sz" "arr_covers b sz"
  shows "\<exists>w' lut' rc. isz_output_set_color_lut w lut r g b sz hw = Some (w', lut', rc) \<and> kern.more w' = kern.more w
    \<and> (rc \<noteq> ISZ_OK \<and> lut' = lut
       \<or> rc = ISZ_OK \<and> sz = hw \<and> (\<exists>r' g' b'. r = Some r' \<and> g = Some g' \<and> b = Some b'
            \<and> lut' = \<lparr>lut_r = take sz r', lut_g = take sz g', lut_b = take sz b', lut_size = sz, lut_set = True\<rparr>))"
proof (cases "r = None \<or> g = None \<or> b = None \<or> sz \<noteq> hw")
  case True
  then show ?thesis by (auto simp: isz_output_set_color_lut_def split: option.splits)
next
  case False
  then obtain r' g' b' where a: "r = Some r'" "g = Some g'" "b = Some b'" "sz = hw" by auto
  obtain w1 x1 where k1: "k_alloc w = (w1, x1)" by fastforce
  obtain w2 x2 where k2: "k_alloc w1 = (w2, x2)" by fastforce
  obtain w3 x3 where k3: "k_alloc w2 = (w3, x3)" by fastforce
  have more: "kern.more w3 = kern.more w"
    using kern_more_alloc [of w] kern_more_alloc [of w1] kern_more_alloc [of w2] k1 k2 k3 by simp
  have len: "sz \<le> length r'" "sz \<le> length g'" "sz \<le> length b'" using assms a by (simp_all add: arr_covers_def)
  show ?thesis
    using a k1 k2 k3 more len
    by (cases lut) (auto simp: isz_output_set_color_lut_def isz_output_free_color_lut_def not_less)
qed

lemma lut_setters_ok [output_ops]:
  assumes "outputs_ok w" "\<And>r. out = Some r \<Longrightarrow> w_outputs w r \<noteq> None"
    "arr_covers r sz" "arr_covers g sz" "arr_covers b sz"
  shows "oop_ok w (isz_output_set_gamma w out r g b sz)" "oop_ok w (isz_output_set_degamma w out r g b sz)"
proof -
  note spec = isz_output_set_color_lut_spec [OF assms(3-5), where w = w]
  have hw: "lut_ok (o_is_headless o') lut'"
    if "lut_ok (o_is_headless o') lut" "isz_output_set_color_lut w lut r g b sz (if o_is_headless o' then 256 else sz) = Some (w', lut', rc)"
    for o' lut w' lut' rc
    using spec [where lut = lut and hw = "if o_is_headless o' then 256 else sz"] that assms(3-5)
    by (auto simp: lut_ok_def arr_covers_def split: if_splits)
  have upd: "oop_ok w (do { let hw = (if o_is_headless o' then 256 else sz);
       (w, lut, rc) \<leftarrow> isz_output_set_color_lut w (rd o') r g b sz hw;
       Some (upd_output w ref (wr lut o'), rc) })"
    if o': "w_outputs w ref = Some o'" "lut_ok (o_is_headless o') (rd o')"
      "\<And>l. lut_ok (o_is_headless o') l \<Longrightarrow> out_ok o' \<Longrightarrow> out_ok (wr l o')" "\<And>l. o_id (wr l o') = o_id o'"
      "\<And>l. o_idle_inhibit_count (wr l o') = o_idle_inhibit_count o'" for rd wr ref o'
  proof -
    let ?hw = "if o_is_headless o' then 256 else sz"
    from spec [where lut = "rd o'" and hw = ?hw] obtain w' lut' rc where
      st: "isz_output_set_color_lut w (rd o') r g b sz ?hw = Some (w', lut', rc)" "kern.more w' = kern.more w" by metis
    have "oop_ok w (Some (upd_output w' ref (wr lut' o'), rc))"
      by (rule upd_output_ok [OF assms(1) o'(1) st(2) o'(3) o'(4,5)]) (rule hw [OF o'(2) st(1)])
    then show ?thesis using st(1) by (simp add: Let_def)
  qed
  show "oop_ok w (isz_output_set_gamma w out r g b sz)"
    unfolding isz_output_set_gamma_def
    by (rule with_output_ok [OF assms(1,2)], assumption, rule upd [where ?rd1 = o_gamma and ?wr1 = "\<lambda>l. o_gamma_update (\<lambda>_. l)"])
      (auto simp: out_ok_def)
  show "oop_ok w (isz_output_set_degamma w out r g b sz)"
    unfolding isz_output_set_degamma_def
    by (rule with_output_ok [OF assms(1,2)], assumption, rule upd [where ?rd1 = o_degamma and ?wr1 = "\<lambda>l. o_degamma_update (\<lambda>_. l)"])
      (auto simp: out_ok_def)
qed

subsection \<open>Appearing and disappearing outputs\<close>

lemma headless_wrapped_spec:
  assumes "\<forall>r \<in> set rs. w_outputs w r \<noteq> None"
  shows "\<exists>f. headless_wrapped w rs hid = Some f
     \<and> (f = None \<longleftrightarrow> (\<forall>r \<in> set rs. \<forall>o'. w_outputs w r = Some o' \<longrightarrow> \<not> (o_is_headless o' \<and> o_headless_id o' = hid)))
     \<and> (\<forall>r. f = Some r \<longrightarrow> r \<in> set rs \<and> (\<exists>o'. w_outputs w r = Some o' \<and> o_is_headless o' \<and> o_headless_id o' = hid))"
  using assms
proof (induction rs)
  case (Cons r rs)
  then obtain o' where o': "w_outputs w r = Some o'" by auto
  show ?case
  proof (cases "o_is_headless o' \<and> o_headless_id o' = hid")
    case True
    with o' show ?thesis by auto
  next
    case False
    from Cons obtain f where "headless_wrapped w rs hid = Some f"
      "f = None \<longleftrightarrow> (\<forall>r \<in> set rs. \<forall>o'. w_outputs w r = Some o' \<longrightarrow> \<not> (o_is_headless o' \<and> o_headless_id o' = hid))"
      "\<forall>r. f = Some r \<longrightarrow> r \<in> set rs \<and> (\<exists>o'. w_outputs w r = Some o' \<and> o_is_headless o' \<and> o_headless_id o' = hid)"
      by auto
    with False o' show ?thesis by (intro exI [of _ f]) auto
  qed
qed simp

lemma outputs_list_live: "outputs_ok w \<Longrightarrow> \<forall>r \<in> set (w_output_list w). w_outputs w r \<noteq> None"
  by (auto simp: outputs_ok_def)

definition headless_output :: "u32 \<Rightarrow> headless_output_info \<Rightarrow> isz_output" where
  "headless_output i info = output_zero\<lparr>o_id := i, o_headless_id := hi_id info, o_is_headless := True,
     o_dpms := ISZ_DPMS_OFF, o_name := take 31 (hi_name info),
     o_modes := [\<lparr>md_width = hi_width info, md_height = hi_height info, md_refresh_mhz = hi_refresh_mhz info,
                  md_preferred = True\<rparr>],
     o_mode_ptrs := Some [0], o_slots := Some headless_slots\<rparr>"

text \<open>What a successful wrap adds to the state.\<close>

definition wrapped :: "world \<Rightarrow> isz_output \<Rightarrow> world" where
  "wrapped w o' = w\<lparr>w_next_output := w_next_output w + 1, w_outputs := (w_outputs w)(w_next_output w \<mapsto> o'),
     w_output_list := w_output_list w @ [w_next_output w], w_events := w_events w @ [ISZ_EVENT_OUTPUT_ADD]\<rparr>"

lemma wrap_cases:
  assumes "headless_wrapped w (w_output_list w) (hi_id info) = Some None" "w_state w \<noteq> ISZ_SERVER_DESTROYING"
  obtains (fail) w1 i where "isz_server_wrap_headless_output w (Some info) = Some (w1, ISZ_ERR_NO_MEMORY)"
      "kern.more w1 = kern.more (w\<lparr>w_next_output_id := i\<rparr>)"
  | (ok) w1 i where "isz_server_wrap_headless_output w (Some info) = Some (wrapped w1 (headless_output (w_next_output_id w) info), ISZ_OK)"
      "kern.more w1 = kern.more (w\<lparr>w_next_output_id := i\<rparr>)"
proof -
  obtain w1 b1 where k1: "k_alloc w = (w1, b1)" by fastforce
  then have m1: "kern.more w1 = kern.more w" using kern_more_alloc [of w] by simp
  let ?w1 = "w1\<lparr>w_next_output_id := w_next_output_id w1 + 1\<rparr>"
  have nid: "w_next_output_id w1 = w_next_output_id w" using m1 by (rule kern_more_world)
  have m1': "kern.more ?w1 = kern.more (w\<lparr>w_next_output_id := w_next_output_id w + 1\<rparr>)"
    using m1 by (cases w; cases w1) simp
  obtain w2 b2 where k2: "k_alloc ?w1 = (w2, b2)" by fastforce
  obtain w3 b3 where k3: "k_alloc w2 = (w3, b3)" by fastforce
  obtain w4 b4 where k4: "k_alloc w3 = (w4, b4)" by fastforce
  obtain w5 b5 where k5: "k_alloc w4 = (w5, b5)" by fastforce
  have m: "kern.more w2 = kern.more ?w1" "kern.more w3 = kern.more ?w1" "kern.more w4 = kern.more ?w1" "kern.more w5 = kern.more ?w1"
    using kern_more_alloc [of ?w1] kern_more_alloc [of w2] kern_more_alloc [of w3] kern_more_alloc [of w4] k2 k3 k4 k5
    by simp_all
  have m0: "kern.more w1 = kern.more (w\<lparr>w_next_output_id := w_next_output_id w\<rparr>)" using m1 by simp
  have st: "w_state w5 \<noteq> ISZ_SERVER_DESTROYING"
    using assms(2) kern_more_world(4) [OF m(4)] kern_more_world(4) [OF m1] by simp
  note defs = isz_server_wrap_headless_output_def isz_output_build_headless_slots_def isz_server_emit_event_def
    wrapped_def headless_output_def upd_output_def output_zero_def Let_def
  consider "\<not> b1" | "b1" "\<not> b2" | "b1" "b2" "\<not> b3" | "b1" "b2" "b3" "\<not> b4" | "b1" "b2" "b3" "b4" "\<not> b5"
    | "b1" "b2" "b3" "b4" "b5" by blast
  then show ?thesis
  proof cases
    case 1
    with assms k1 show ?thesis by (intro fail [OF _ m0]) (simp add: defs)
  next
    case 2
    with assms k1 k2 show ?thesis by (intro fail [OF _ m(1) [unfolded m1']]) (simp add: defs)
  next
    case 3
    with assms k1 k2 k3 show ?thesis by (intro fail [OF _ m(2) [unfolded m1']]) (simp add: defs)
  next
    case 4
    with assms k1 k2 k3 k4 show ?thesis by (intro fail [OF _ m(3) [unfolded m1']]) (simp add: defs)
  next
    case 5
    with assms k1 k2 k3 k4 k5 show ?thesis by (intro fail [OF _ m(4) [unfolded m1']]) (simp add: defs)
  next
    case 6
    with assms k1 k2 k3 k4 k5 st show ?thesis by (intro ok [OF _ m(4) [unfolded m1']]) (simp add: defs nid)
  qed
qed

lemma out_ok_headless_output: "out_ok (headless_output i info)"
  by (simp add: out_ok_def headless_output_def output_zero_def lut_ok_def color_lut_zero_def)

lemma outputs_ok_fresh: "outputs_ok w \<Longrightarrow> w_outputs w (w_next_output w) = None"
  by (cases "w_outputs w (w_next_output w)") (auto dest: outputs_okD)

lemma wrapped_ok:
  assumes "outputs_ok w" "render_ok w" "out_ok o'" "o_idle_inhibit_count o' = 0"
  shows "outputs_ok (wrapped w o') \<and> render_ok (wrapped w o')"
proof
  note ok = render_okD [OF assms(2)] and fresh = outputs_ok_fresh [OF assms(1)]
  let ?n = "w_next_output w"
  have "?n \<notin> set (w_output_list w)" using assms(1) fresh by (auto simp: outputs_ok_def)
  moreover have "r < ?n + 1 \<and> out_ok p" if "((w_outputs w)(?n \<mapsto> o')) r = Some p" for r p
    using that assms(3) outputs_okD [OF assms(1)] by (fastforce split: if_splits)
  ultimately show "outputs_ok (wrapped w o')"
    using assms(1) by (simp add: outputs_ok_def wrapped_def)
  have "surf_ok (wrapped w o') s" if "surf_ok w s" for s using that by (auto simp: surf_ok_def wrapped_def)
  then have "surfaces_ok (wrapped w o')" using ok(1) by (simp add: surfaces_ok_def wrapped_def)
  moreover have "idle_ok (w_surfaces w) ((w_outputs w)(?n \<mapsto> o')) (w_events w @ [ISZ_EVENT_OUTPUT_ADD])"
    unfolding idle_ok_def
  proof
    fix out
    have "inhibitors (w_surfaces w) ?n = {}"
      using surfaces_okD(1) [OF ok(1)] fresh by (fastforce simp: inhibitors_def surf_ok_def)
    then show "case ((w_outputs w)(?n \<mapsto> o')) out of None \<Rightarrow> \<not> idle_announced (w_events w @ [ISZ_EVENT_OUTPUT_ADD]) out False
      | Some o' \<Rightarrow> o_idle_inhibit_count o' = int (card (inhibitors (w_surfaces w) out))
          \<and> idle_announced (w_events w @ [ISZ_EVENT_OUTPUT_ADD]) out False = (o_idle_inhibit_count o' > 0)"
      using idle_okD [OF ok(3), of out] idle_okD_None [OF ok(3), of out] fresh assms(4)
      by (cases "out = ?n") (auto simp: idle_announced_append split: option.splits)
  qed
  ultimately show "render_ok (wrapped w o')" using ok by (simp add: render_ok_def wrapped_def)
qed

lemma next_id_ok:
  assumes "kern.more w1 = kern.more (w\<lparr>w_next_output_id := i\<rparr>)"
  shows "outputs_ok w1 = outputs_ok w" "render_ok w1 = render_ok w"
proof -
  note f = kern_more_world [OF assms]
  show "outputs_ok w1 = outputs_ok w" by (simp add: outputs_ok_def f)
  show "render_ok w1 = render_ok w" by (simp add: render_ok_def surfaces_ok_def surf_ok_def f)
qed

lemma isz_server_wrap_headless_output_ok:
  assumes "outputs_ok w" "render_ok w"
  shows "\<exists>w' rc. isz_server_wrap_headless_output w (Some info) = Some (w', rc) \<and> outputs_ok w' \<and> render_ok w'
    \<and> (if rc = ISZ_OK
       then \<exists>r o'. r \<in> set (w_output_list w') \<and> w_outputs w' r = Some o' \<and> o_is_headless o' \<and> o_headless_id o' = hi_id info
       else w_output_list w' = w_output_list w \<and> w_outputs w' = w_outputs w)"
proof -
  from headless_wrapped_spec [OF outputs_list_live [OF assms(1)], of "hi_id info"] obtain f where
    f: "headless_wrapped w (w_output_list w) (hi_id info) = Some f"
      "\<forall>r. f = Some r \<longrightarrow> r \<in> set (w_output_list w) \<and> (\<exists>o'. w_outputs w r = Some o' \<and> o_is_headless o' \<and> o_headless_id o' = hi_id info)"
    by blast
  show ?thesis
  proof (cases f)
    case (Some r)
    with f assms show ?thesis by (auto simp: isz_server_wrap_headless_output_def)
  next
    case None
    have st: "w_state w \<noteq> ISZ_SERVER_DESTROYING" using assms(2) by (simp add: render_ok_def surfaces_ok_def)
    from f(1) [unfolded None] st show ?thesis
    proof (cases rule: wrap_cases)
      case (fail w1 i)
      then show ?thesis using assms next_id_ok [OF fail(2)] kern_more_world(6,7) [OF fail(2)] by simp
    next
      case (ok w1 i)
      let ?o = "headless_output (w_next_output_id w) info"
      have "outputs_ok (wrapped w1 ?o) \<and> render_ok (wrapped w1 ?o)"
        by (rule wrapped_ok) (use assms next_id_ok [OF ok(2)] in \<open>simp_all add: out_ok_headless_output\<close>,
            simp add: headless_output_def output_zero_def)
      moreover have "w_next_output w1 \<in> set (w_output_list (wrapped w1 ?o))" "w_outputs (wrapped w1 ?o) (w_next_output w1) = Some ?o"
        "o_is_headless ?o" "o_headless_id ?o = hi_id info"
        by (simp_all add: wrapped_def headless_output_def)
      ultimately show ?thesis using ok(1) by auto
    qed
  qed
qed

lemma isz_server_unwrap_headless_output_ok:
  assumes "outputs_ok w" "render_ok w"
  shows "\<exists>w'. isz_server_unwrap_headless_output w hid = Some w' \<and> outputs_ok w' \<and> render_ok w'"
proof -
  from headless_wrapped_spec [OF outputs_list_live [OF assms(1)], of hid] obtain f where
    f: "headless_wrapped w (w_output_list w) hid = Some f"
      "\<forall>r. f = Some r \<longrightarrow> (\<exists>o'. w_outputs w r = Some o')" by blast
  show ?thesis
  proof (cases f)
    case None
    with f assms show ?thesis by (simp add: isz_server_unwrap_headless_output_def)
  next
    case (Some r)
    with f obtain o' where o': "w_outputs w r = Some o'" by auto
    let ?w1 = "upd_output w r (o'\<lparr>o_disconnected := True\<rparr>)"
    let ?w2 = "?w1\<lparr>w_events := w_events ?w1 @ [ISZ_EVENT_OUTPUT_REMOVE]\<rparr>"
    have "oop_ok w (Some (?w1, ()))" by (rule upd_output_ok [OF assms(1) o']) (auto simp: out_ok_def)
    then have w1: "outputs_ok ?w1" "render_ok ?w1" using render_ok_output [OF _ assms(2)] by (auto simp: oop_ok_def)
    have "idle_ok (w_surfaces ?w1) (w_outputs ?w1) (w_events ?w1 @ [ISZ_EVENT_OUTPUT_REMOVE])"
      using render_okD(3) [OF w1(2)] by (subst idle_ok_event) simp_all
    then have "outputs_ok ?w2" "render_ok ?w2"
      using w1 by (simp_all add: outputs_ok_def render_ok_def surfaces_ok_def surf_ok_def)
    moreover have "w_state ?w1 \<noteq> ISZ_SERVER_DESTROYING" using w1(2) by (simp add: render_ok_def surfaces_ok_def)
    ultimately show ?thesis
      using f(1) Some o' by (simp add: isz_server_unwrap_headless_output_def isz_server_emit_event_def)
  qed
qed

text \<open>Destroying an output is safe for the rest of the server only when no surface is assigned to it.\<close>

definition unassigned :: "world \<Rightarrow> nat \<Rightarrow> bool" where
  "unassigned w out \<longleftrightarrow> (\<forall>r s. w_surfaces w r = Some s \<longrightarrow> sf_output s \<noteq> Some out)"

lemma isz_output_destroy_ok:
  assumes "outputs_ok w" "render_ok w" "w_outputs w r = Some o'" "unassigned w r"
  shows "\<exists>w'. isz_output_destroy w (Some r) = Some w' \<and> outputs_ok w' \<and> render_ok w' \<and> r \<notin> set (w_output_list w')"
proof -
  let ?w = "w\<lparr>w_output_list := remove1 r (w_output_list w), w_outputs := (w_outputs w)(r := None), w_output_list_count := 0\<rparr>"
  note ok = render_okD [OF assms(2)]
  have "outputs_ok ?w" using assms(1) by (simp add: outputs_ok_def)
  moreover have "render_ok ?w"
  proof -
    have "surf_ok ?w s" if "w_surfaces w x = Some s" for x s
      using surfaces_okD(1) [OF ok(1) that] assms(4) that by (auto simp: surf_ok_def unassigned_def)
    then have "surfaces_ok ?w" using ok(1) by (simp add: surfaces_ok_def)
    moreover have "idle_ok (w_surfaces w) ((w_outputs w)(r := None)) (w_events w)"
    proof -
      have "inhibitors (w_surfaces w) r = {}" using assms(4) by (auto simp: inhibitors_def unassigned_def)
      then have "\<not> idle_announced (w_events w) r False" using idle_okD [OF ok(3) assms(3)] by simp
      then show ?thesis using ok(3) unfolding idle_ok_def by simp
    qed
    ultimately show ?thesis using ok by (simp add: render_ok_def)
  qed
  moreover have "r \<notin> set (w_output_list ?w)" using assms(1) by (simp add: outputs_ok_def)
  ultimately show ?thesis using assms(3) by (simp add: isz_output_destroy_def)
qed

lemma isz_output_list_ok:
  assumes "outputs_ok w" "render_ok w"
  shows "\<exists>w' r. isz_output_list w = (w', r) \<and> outputs_ok w' \<and> render_ok w' \<and> (r = None \<or> r = Some (w_output_list w))
     \<and> w_output_list w' = w_output_list w \<and> w_outputs w' = w_outputs w"
proof -
  obtain w1 b where k: "k_alloc w = (w1, b)" by fastforce
  then have m: "kern.more w1 = kern.more w" using kern_more_alloc [of w] by simp
  note f = kern_more_world [OF m]
  show ?thesis
    using assms k by (cases b)
      (auto simp: isz_output_list_def Let_def outputs_ok_def render_ok_def surfaces_ok_def surf_ok_def f)
qed

section \<open>Sequences of calls\<close>

datatype out_call =
    OutWrap headless_output_info
  | OutUnwrap u32
  | OutList
  | OutEnable nat "nat \<times> nat"
  | OutDisable nat
  | OutDpms nat isz_dpms_state
  | OutGamma nat "u16 list" "u16 list" "u16 list" nat
  | OutDegamma nat "u16 list" "u16 list" "u16 list" nat
  | OutHdr nat "u8 list"
  | OutDestroy nat

fun out_call_run :: "world \<Rightarrow> out_call \<Rightarrow> world option" where
  "out_call_run w (OutWrap info) = map_option fst (isz_server_wrap_headless_output w (Some info))"
| "out_call_run w (OutUnwrap hid) = isz_server_unwrap_headless_output w hid"
| "out_call_run w OutList = Some (fst (isz_output_list w))"
| "out_call_run w (OutEnable r m) = map_option fst (isz_output_enable w (Some r) (Some m))"
| "out_call_run w (OutDisable r) = map_option fst (isz_output_disable w (Some r))"
| "out_call_run w (OutDpms r s) = map_option fst (isz_output_set_dpms w (Some r) s)"
| "out_call_run w (OutGamma o' r g b n) = map_option fst (isz_output_set_gamma w (Some o') (Some r) (Some g) (Some b) n)"
| "out_call_run w (OutDegamma o' r g b n) = map_option fst (isz_output_set_degamma w (Some o') (Some r) (Some g) (Some b) n)"
| "out_call_run w (OutHdr r bs) = map_option fst (isz_output_set_hdr_metadata w (Some r) (Some (length bs, bs)))"
| "out_call_run w (OutDestroy r) = isz_output_destroy w (Some r)"

fun out_call_pre :: "world \<Rightarrow> out_call \<Rightarrow> bool" where
  "out_call_pre w (OutWrap info) = True"
| "out_call_pre w (OutUnwrap hid) = True"
| "out_call_pre w OutList = True"
| "out_call_pre w (OutEnable r m) = (w_outputs w r \<noteq> None)"
| "out_call_pre w (OutDisable r) = (w_outputs w r \<noteq> None)"
| "out_call_pre w (OutDpms r s) = (w_outputs w r \<noteq> None)"
| "out_call_pre w (OutGamma o' r g b n) = (w_outputs w o' \<noteq> None \<and> n \<le> length r \<and> n \<le> length g \<and> n \<le> length b)"
| "out_call_pre w (OutDegamma o' r g b n) = (w_outputs w o' \<noteq> None \<and> n \<le> length r \<and> n \<le> length g \<and> n \<le> length b)"
| "out_call_pre w (OutHdr r bs) = (w_outputs w r \<noteq> None)"
| "out_call_pre w (OutDestroy r) = (w_outputs w r \<noteq> None \<and> unassigned w r)"

fun out_calls_legal :: "world \<Rightarrow> out_call list \<Rightarrow> bool" where
  "out_calls_legal w [] = True"
| "out_calls_legal w (c # cs) = (out_call_pre w c \<and> (case out_call_run w c of None \<Rightarrow> True | Some w' \<Rightarrow> out_calls_legal w' cs))"

fun out_calls_run :: "world \<Rightarrow> out_call list \<Rightarrow> world option" where
  "out_calls_run w [] = Some w"
| "out_calls_run w (c # cs) = out_call_run w c \<bind> (\<lambda>w. out_calls_run w cs)"

lemma oop_ok_ex: "oop_ok w res \<Longrightarrow> render_ok w \<Longrightarrow> \<exists>w'. (\<exists>x. res = Some (w', x)) \<and> outputs_ok w' \<and> render_ok w'"
  by (auto simp: oop_ok_def intro: render_ok_output)

lemma out_call_run_ok:
  assumes "outputs_ok w" "render_ok w" "out_call_pre w c"
  shows "\<exists>w'. out_call_run w c = Some w' \<and> outputs_ok w' \<and> render_ok w'"
proof (cases c)
  case (OutWrap info)
  with isz_server_wrap_headless_output_ok [OF assms(1,2), of info] show ?thesis by auto
next
  case (OutUnwrap hid)
  with isz_server_unwrap_headless_output_ok [OF assms(1,2), of hid] show ?thesis by auto
next
  case OutList
  with isz_output_list_ok [OF assms(1,2)] show ?thesis by auto
next
  case (OutDestroy r)
  with assms isz_output_destroy_ok [OF assms(1,2), of r] show ?thesis by auto
qed (use assms in \<open>auto simp: arr_covers_def intro!: oop_ok_ex output_ops\<close>)

lemma out_calls_run_ok:
  assumes "outputs_ok w" "render_ok w" "out_calls_legal w cs"
  shows "\<exists>w'. out_calls_run w cs = Some w' \<and> outputs_ok w' \<and> render_ok w'"
  using assms
proof (induction cs arbitrary: w)
  case (Cons c cs)
  then obtain w1 where "out_call_run w c = Some w1" "outputs_ok w1" "render_ok w1"
    using out_call_run_ok [of w c] by auto
  with Cons show ?case by simp
qed simp

text \<open>outputs stay well formed. For every sequence of hotplugs, unplugs, listings, mode, DPMS, colour
  and HDR calls on live outputs, and for every failing allocation in between, the output list names
  exactly the allocated outputs, an enabled output has one of its own modes, and the fixed-size tables
  of the struct are never overrun; destroying an output that no surface is assigned to keeps all this,
  together with the invariant of the render layer.\<close>

theorem output_calls_safe:
  assumes "outputs_ok w" and "render_ok w" and "out_calls_legal w cs"
  shows "\<exists>w'. out_calls_run w cs = Some w' \<and> outputs_ok w' \<and> render_ok w'"
  using assms by (rule out_calls_run_ok)

lemma outputs_ok_init: "outputs_ok world_init" "render_ok world_init"
  by (simp_all add: outputs_ok_def world_init_def bstate_init_def bstate.defs kern_init_def kern.defs
      render_ok_def surfaces_ok_def bufs_ok_def owned_def idle_ok_def resv_ok_def)

definition sample_info :: headless_output_info where
  "sample_info = \<lparr>hi_id = 1, hi_name = ''HEADLESS-1'', hi_width = 1024, hi_height = 768, hi_refresh_mhz = 60000, hi_enabled = False\<rparr>"

theorem output_calls_safe_witness:
  "\<exists>w'. out_calls_run world_init [OutWrap sample_info, OutList, OutEnable 1 (1, 0), OutUnwrap 1, OutDestroy 1] = Some w'
     \<and> outputs_ok w' \<and> render_ok w'"
proof -
  have "out_calls_legal world_init [OutWrap sample_info, OutList, OutEnable 1 (1, 0), OutUnwrap 1, OutDestroy 1]"
    by (simp add: world_init_def bstate_init_def bstate.defs kern_init_def kern.defs sample_info_def
        isz_server_wrap_headless_output_def k_alloc_def Let_def isz_output_build_headless_slots_def upd_output_def
        isz_server_emit_event_def isz_output_list_def isz_output_enable_def with_output_def unassigned_def
        isz_server_unwrap_headless_output_def isz_output_destroy_def output_zero_def)
  from output_calls_safe [OF outputs_ok_init this] show ?thesis .
qed

text \<open>An output destroyed while a surface is assigned to it leaves that surface with a dangling pointer:
  the next operation that follows it is a use after free.\<close>

lemma destroyed_output_dangles:
  "\<exists>w1 w2. surf_calls_run sample_world [SurfCreate, SurfSetOutput 1 1, SurfSetIdleInhibit 1 True] = Some w1
     \<and> isz_output_destroy w1 (Some 1) = Some w2 \<and> surf_call_run w2 (SurfSetIdleInhibit 1 False) = None"
  by (simp add: sample_run_defs isz_output_destroy_def)

end
