(* ===== verification/Isz_Backend.thy ===== *)
theory Isz_Backend
  imports Isz_World
begin

text \<open>
  The backend state machine, \<^verbatim>\<open>src/backend/isz_backend.c\<close>, and the headless backend's operations
  of \<^verbatim>\<open>src/backend/isz_headless.c\<close>. A concrete backend is given by its operations, which act on
  the generic struct; the generic layer owns the transitions. The documented machine of
  \<^verbatim>\<open>isz_backend.h\<close> is the relation \<open>be_step\<close>, and the locale \<open>backend_contract\<close> states what the header
  asks of an implementation; the headless backend is shown to satisfy it.
\<close>

section \<open>Generic layer\<close>

definition isz_backend_finish_commit :: "isz_backend \<Rightarrow> isz_backend" where
  "isz_backend_finish_commit b =
     (if be_state b = ISZ_BACKEND_COMMITTING then b\<lparr>be_state := ISZ_BACKEND_READY\<rparr> else b)"

definition isz_backend_set_error :: "isz_backend \<Rightarrow> isz_error \<Rightarrow> isz_backend" where
  "isz_backend_set_error b err = b\<lparr>be_state := ISZ_BACKEND_ERROR, be_last_error := err\<rparr>"

definition isz_backend_commit ::
    "(isz_backend \<Rightarrow> isz_backend \<times> isz_error) \<Rightarrow> isz_backend \<Rightarrow> isz_backend \<times> isz_error" where
  "isz_backend_commit ops_commit b =
     (case be_state b of
        ISZ_BACKEND_UNINITIALIZED \<Rightarrow> (b, ISZ_ERR_INVALID_ARG)
      | ISZ_BACKEND_ERROR \<Rightarrow>
          (b, if be_last_error b \<noteq> ISZ_OK then be_last_error b else ISZ_ERR_COMMIT_FAILED)
      | ISZ_BACKEND_COMMITTING \<Rightarrow> (b, ISZ_ERR_COMMIT_PENDING)
      | ISZ_BACKEND_READY \<Rightarrow>
          (case ops_commit (b\<lparr>be_state := ISZ_BACKEND_COMMITTING\<rparr>) of
             (b, rc) \<Rightarrow>
               if isz_error_code rc < 0
               then ((if be_state b = ISZ_BACKEND_COMMITTING
                      then b\<lparr>be_state := ISZ_BACKEND_READY\<rparr> else b), rc)
               else (b, ISZ_OK)))"

definition isz_backend_read_events ::
    "(isz_backend \<Rightarrow> isz_backend \<times> isz_error) \<Rightarrow> isz_backend \<Rightarrow> isz_backend \<times> isz_error" where
  "isz_backend_read_events ops_read b =
     (if be_state b = ISZ_BACKEND_UNINITIALIZED then (b, ISZ_ERR_INVALID_ARG)
      else case ops_read b of
             (b, rc) \<Rightarrow> if isz_error_code rc < 0 then (b, rc) else (b, ISZ_OK))"

section \<open>Headless operations\<close>

definition isz_headless_commit :: "isz_backend \<Rightarrow> isz_backend \<times> isz_error" where
  "isz_headless_commit b = (isz_backend_finish_commit b, ISZ_OK)"

definition isz_headless_read_events :: "isz_backend \<Rightarrow> isz_backend \<times> isz_error" where
  "isz_headless_read_events b = (b, ISZ_OK)"

section \<open>The documented state machine\<close>

inductive be_step :: "isz_backend_st \<Rightarrow> isz_backend_st \<Rightarrow> bool" where
  be_init: "be_step ISZ_BACKEND_UNINITIALIZED ISZ_BACKEND_READY"
| be_commit: "be_step ISZ_BACKEND_READY ISZ_BACKEND_COMMITTING"
| be_done: "be_step ISZ_BACKEND_COMMITTING ISZ_BACKEND_READY"
| be_fatal: "be_step s ISZ_BACKEND_ERROR"

inductive_cases be_stepE: "be_step s t"
inductive_simps be_step_error: "be_step ISZ_BACKEND_ERROR t"

text \<open>Zero or more documented steps.\<close>

abbreviation be_steps :: "isz_backend_st \<Rightarrow> isz_backend_st \<Rightarrow> bool" where
  "be_steps \<equiv> be_step\<^sup>*\<^sup>*"

lemma be_steps_intros:
  "be_steps ISZ_BACKEND_READY ISZ_BACKEND_COMMITTING" "be_steps ISZ_BACKEND_COMMITTING ISZ_BACKEND_READY"
  "be_steps s ISZ_BACKEND_ERROR"
  by (rule r_into_rtranclp, rule be_step.intros)+

text \<open>
  What the header asks of a concrete backend: \<open>commit\<close> starts from COMMITTING and either leaves
  it there, finishes it, or sets the error state before it returns a failure; \<open>read\<close> may finish a
  pending commit, and a failure of it is fatal.
\<close>

locale backend_contract =
  fixes op_commit op_read :: "isz_backend \<Rightarrow> isz_backend \<times> isz_error"
  assumes commit_state: "be_state b = ISZ_BACKEND_COMMITTING \<Longrightarrow> op_commit b = (b', rc) \<Longrightarrow>
        be_state b' \<in> {ISZ_BACKEND_COMMITTING, ISZ_BACKEND_READY, ISZ_BACKEND_ERROR}"
    and commit_ok: "be_state b = ISZ_BACKEND_COMMITTING \<Longrightarrow> op_commit b = (b', ISZ_OK) \<Longrightarrow>
        be_state b' \<noteq> ISZ_BACKEND_ERROR"
    and read_state: "op_read b = (b', rc) \<Longrightarrow> be_state b' = be_state b
        \<or> be_state b = ISZ_BACKEND_COMMITTING \<and> be_state b' = ISZ_BACKEND_READY
        \<or> be_state b' = ISZ_BACKEND_ERROR"
begin

lemma commit_steps:
  assumes "isz_backend_commit op_commit b = (b', rc)"
  shows "be_steps (be_state b) (be_state b')"
proof (cases "be_state b = ISZ_BACKEND_READY")
  case False
  with assms show ?thesis by (auto simp: isz_backend_commit_def split: isz_backend_st.splits)
next
  case True
  let ?b = "b\<lparr>be_state := ISZ_BACKEND_COMMITTING\<rparr>"
  obtain b1 rc1 where c: "op_commit ?b = (b1, rc1)" by fastforce
  have st: "be_state b1 \<in> {ISZ_BACKEND_COMMITTING, ISZ_BACKEND_READY, ISZ_BACKEND_ERROR}"
    using commit_state [OF _ c] by simp
  have start: "be_steps ISZ_BACKEND_READY ISZ_BACKEND_COMMITTING" by (rule be_steps_intros)
  have "be_steps ISZ_BACKEND_COMMITTING (be_state b1)" using st by (auto intro: be_steps_intros)
  moreover have "be_state b' = be_state b1 \<or> be_state b' = ISZ_BACKEND_READY"
    using assms True c by (auto simp: isz_backend_commit_def split: if_splits)
  ultimately show ?thesis using True start by (metis rtranclp_trans rtranclp.simps)
qed

lemma read_steps:
  assumes "isz_backend_read_events op_read b = (b', rc)"
  shows "be_steps (be_state b) (be_state b')"
proof -
  obtain b1 rc1 where r: "op_read b = (b1, rc1)" by fastforce
  from read_state [OF r] assms r show ?thesis
    by (auto simp: isz_backend_read_events_def split: if_splits intro: be_steps_intros)
qed

lemma commit_result:
  assumes "isz_backend_commit op_commit b = (b', rc)"
  shows "(be_state b = ISZ_BACKEND_COMMITTING \<longrightarrow> rc = ISZ_ERR_COMMIT_PENDING \<and> b' = b)
       \<and> (be_state b = ISZ_BACKEND_ERROR \<longrightarrow> isz_error_code rc < 0 \<and> b' = b)
       \<and> (rc = ISZ_OK \<longrightarrow> be_state b = ISZ_BACKEND_READY \<and> be_state b' \<noteq> ISZ_BACKEND_ERROR)
       \<and> (isz_error_code rc < 0 \<and> be_state b = ISZ_BACKEND_READY \<longrightarrow>
            be_state b' = ISZ_BACKEND_READY \<or> be_state b' = ISZ_BACKEND_ERROR)"
proof -
  obtain b1 rc1 where c: "op_commit (b\<lparr>be_state := ISZ_BACKEND_COMMITTING\<rparr>) = (b1, rc1)" by fastforce
  have "be_state b1 \<in> {ISZ_BACKEND_COMMITTING, ISZ_BACKEND_READY, ISZ_BACKEND_ERROR}"
    "rc1 = ISZ_OK \<Longrightarrow> be_state b1 \<noteq> ISZ_BACKEND_ERROR"
    using commit_state [OF _ c] commit_ok [of "b\<lparr>be_state := ISZ_BACKEND_COMMITTING\<rparr>" b1] c by simp_all
  with assms c show ?thesis
    by (auto simp: isz_backend_commit_def split: isz_backend_st.splits if_splits)
qed

end

interpretation headless: backend_contract isz_headless_commit isz_headless_read_events
  by unfold_locales
     (auto simp: isz_headless_commit_def isz_headless_read_events_def isz_backend_finish_commit_def
       split: if_splits)

section \<open>Property\<close>

text \<open>C12: the headless backend follows the documented machine. Commits and event reads only move
  along the transitions of the header; a commit while one is pending returns
  \<^verbatim>\<open>ISZ_ERR_COMMIT_PENDING\<close> and changes nothing; a commit in the error state fails; a successful
  commit starts from READY and is complete when it returns.\<close>

theorem headless_state_machine:
  "be_steps (be_state b) (be_state (fst (isz_backend_commit isz_headless_commit b)))
   \<and> be_steps (be_state b) (be_state (fst (isz_backend_read_events isz_headless_read_events b)))
   \<and> (case be_state b of
        ISZ_BACKEND_UNINITIALIZED \<Rightarrow> isz_backend_commit isz_headless_commit b = (b, ISZ_ERR_INVALID_ARG)
      | ISZ_BACKEND_READY \<Rightarrow> isz_backend_commit isz_headless_commit b = (b, ISZ_OK)
      | ISZ_BACKEND_COMMITTING \<Rightarrow> isz_backend_commit isz_headless_commit b = (b, ISZ_ERR_COMMIT_PENDING)
      | ISZ_BACKEND_ERROR \<Rightarrow> isz_error_code (snd (isz_backend_commit isz_headless_commit b)) < 0)"
proof -
  have "be_steps (be_state b) (be_state (fst (isz_backend_commit isz_headless_commit b)))"
    using headless.commit_steps [of b] by (metis prod.collapse)
  moreover have "be_steps (be_state b) (be_state (fst (isz_backend_read_events isz_headless_read_events b)))"
    using headless.read_steps [of b] by (metis prod.collapse)
  ultimately show ?thesis
    by (cases "be_state b") (auto simp: isz_backend_commit_def isz_headless_commit_def
        isz_backend_finish_commit_def intro: isz_backend.equality)
qed

end
