(* ===== verification/Isz_Text.thy ===== *)
theory Isz_Text
  imports Isz_Prelude "HOL-Library.Char_ord"
begin

text \<open>
  Numbers in text, as the C library reads and prints them: \<^verbatim>\<open>%u\<close> of \<^verbatim>\<open>snprintf\<close> and \<^verbatim>\<open>strtoul\<close> with base 10 on a 64-bit machine. Printing and
  reading are inverse.
\<close>

section \<open>Printing\<close>

definition digit_char :: "nat \<Rightarrow> char" where
  "digit_char n = char_of (48 + n)"

fun dec :: "nat \<Rightarrow> char list" where
  "dec n = (if n < 10 then [digit_char n] else dec (n div 10) @ [digit_char (n mod 10)])"

declare dec.simps [simp del]

text \<open>\<^verbatim>\<open>snprintf\<close> into an array of \<open>cap\<close> bytes: what the array holds, and the length it would have needed.\<close>

definition snprintf :: "nat \<Rightarrow> char list \<Rightarrow> char list \<times> nat" where
  "snprintf cap s = (take (cap - 1) s, length s)"

section \<open>Reading\<close>

definition is_digit :: "char \<Rightarrow> bool" where
  "is_digit c \<longleftrightarrow> 48 \<le> (of_char c :: nat) \<and> (of_char c :: nat) \<le> 57"

definition is_space :: "char \<Rightarrow> bool" where
  "is_space c \<longleftrightarrow> c = CHR '' '' \<or> 9 \<le> (of_char c :: nat) \<and> (of_char c :: nat) \<le> 13"

definition digit_val :: "char \<Rightarrow> nat" where
  "digit_val c = of_char c - 48"

definition dec_val :: "char list \<Rightarrow> nat" where
  "dec_val s = foldl (\<lambda>a c. 10 * a + digit_val c) 0 s"

text \<open>The value and the rest of the string; without a digit nothing is consumed. A value that does not fit is \<^verbatim>\<open>ULONG_MAX\<close>, and a minus sign negates
  modulo \<open>2 ^ 64\<close>.\<close>

definition strtoul :: "char list \<Rightarrow> nat \<times> char list" where
  "strtoul s =
     (let t = dropWhile is_space s;
          neg = (t \<noteq> [] \<and> hd t = CHR ''-'');
          t = (if t \<noteq> [] \<and> (hd t = CHR ''-'' \<or> hd t = CHR ''+'') then tl t else t);
          ds = takeWhile is_digit t;
          v = dec_val ds
      in if ds = [] then (0, s)
         else (if 2 ^ 64 \<le> v then 2 ^ 64 - 1 else if neg then (2 ^ 64 - v) mod 2 ^ 64 else v, dropWhile is_digit t))"

section \<open>Round trip\<close>

lemma of_char_digit: "n < 10 \<Longrightarrow> (of_char (digit_char n) :: nat) = 48 + n"
  by (simp add: digit_char_def of_char_of)

lemma digit_char_facts:
  assumes "n < 10"
  shows "is_digit (digit_char n)" "\<not> is_space (digit_char n)" "digit_char n \<noteq> CHR ''-''" "digit_char n \<noteq> CHR ''+''" "digit_val (digit_char n) = n"
proof -
  note o = of_char_digit [OF assms]
  show "is_digit (digit_char n)" "digit_val (digit_char n) = n" using assms by (simp_all add: is_digit_def digit_val_def o)
  show "\<not> is_space (digit_char n)" "digit_char n \<noteq> CHR ''-''" "digit_char n \<noteq> CHR ''+''"
    using o by (auto simp: is_space_def)
qed

lemma dec_nonempty: "dec n \<noteq> []"
  by (simp add: dec.simps [of n])

lemma dec_digits: "c \<in> set (dec n) \<Longrightarrow> \<exists>d<10. c = digit_char d"
proof (induction n rule: dec.induct)
  case (1 n)
  show ?case
  proof (cases "n < 10")
    case True
    with "1.prems" show ?thesis by (auto simp: dec.simps [of n])
  next
    case False
    with "1.prems" have "c \<in> set (dec (n div 10)) \<or> c = digit_char (n mod 10)" by (auto simp: dec.simps [of n])
    moreover have "n mod 10 < 10" by simp
    ultimately show ?thesis using "1.IH" [OF False] by blast
  qed
qed

lemma dec_is_digits:
  assumes "c \<in> set (dec n)"
  shows "is_digit c" "\<not> is_space c" "c \<noteq> CHR ''-''" "c \<noteq> CHR ''+''"
proof -
  from dec_digits [OF assms] obtain d where "d < 10" "c = digit_char d" by blast
  then show "is_digit c" "\<not> is_space c" "c \<noteq> CHR ''-''" "c \<noteq> CHR ''+''" using digit_char_facts by simp_all
qed

lemma dec_val_dec: "dec_val (dec n) = n"
proof (induction n rule: dec.induct)
  case (1 n)
  show ?case
  proof (cases "n < 10")
    case True
    then show ?thesis by (simp add: dec.simps [of n] dec_val_def digit_char_facts)
  next
    case False
    with 1 have "dec_val (dec (n div 10)) = n div 10" by simp
    with False show ?thesis by (simp add: dec.simps [of n] dec_val_def digit_char_facts)
  qed
qed

lemma length_dec: "n < 10 ^ Suc k \<Longrightarrow> length (dec n) \<le> Suc k"
proof (induction k arbitrary: n)
  case (Suc k)
  show ?case
  proof (cases "n < 10")
    case False
    have "n div 10 < 10 ^ Suc k" using Suc.prems by (simp add: less_mult_imp_div_less)
    from Suc.IH [OF this] False show ?thesis by (simp add: dec.simps [of n])
  qed (simp add: dec.simps [of n])
qed (simp add: dec.simps)

lemma strtoul_dec:
  assumes "n < 2 ^ 64"
  shows "strtoul (dec n) = (n, [])"
proof -
  obtain c s where cs: "dec n = c # s" using dec_nonempty by (cases "dec n") auto
  have c: "\<not> is_space c" "c \<noteq> CHR ''-''" "c \<noteq> CHR ''+''" using dec_is_digits [of c n] cs by simp_all
  have all: "takeWhile is_digit (dec n) = dec n" "dropWhile is_digit (dec n) = []" using dec_is_digits(1) by (simp_all add: takeWhile_eq_all_conv)
  have "dropWhile is_space (dec n) = dec n" using cs c(1) by simp
  then show ?thesis using assms all cs c dec_val_dec [of n] by (simp add: strtoul_def Let_def)
qed

end
