(* ===== verification/Isz_Headless.thy ===== *)
theory Isz_Headless
  imports Isz_Output Isz_Backend Isz_Text
begin

text \<open>
  The headless backend, \<^verbatim>\<open>src/backend/isz_headless.c\<close>, and the creation of a backend in \<^verbatim>\<open>src/backend/isz_backend.c\<close>. The output
  hook of the server is the parameter \<open>hook\<close>; the environment is a map from names to values. The commit and event operations are in
  \<open>Isz_Backend\<close>.
\<close>

section \<open>State\<close>

record isz_headless_output =
  ho_id :: u32
  ho_width :: u32
  ho_height :: u32
  ho_refresh_mhz :: u32
  ho_enabled :: bool
  ho_name :: "char list"

record isz_headless_state =
  hs_outputs :: "isz_headless_output list"
  hs_output_cap :: nat
  hs_next_id :: u32
  hs_def_width :: u32
  hs_def_height :: u32
  hs_def_refresh_mhz :: u32
  hs_hook :: bool                              \<comment> \<open>a hook is registered\<close>

record isz_headless_config =
  hc_width :: u32
  hc_height :: u32
  hc_refresh_rate :: u32

type_synonym hook = "world \<Rightarrow> headless_output_info \<Rightarrow> bool \<Rightarrow> world option"

section \<open>Helpers\<close>

definition parse_u32_env :: "(char list \<Rightarrow> char list option) \<Rightarrow> char list \<Rightarrow> u32 \<Rightarrow> u32" where
  "parse_u32_env env name def = (case env name of
       None \<Rightarrow> def
     | Some s \<Rightarrow>
         if s = [] then def
         else let (v, end) = strtoul s
              in if end = s \<or> end \<noteq> [] \<or> v = 0 \<or> v > 0xffffffff then def else of_nat v)"

definition fill_info :: "isz_headless_output \<Rightarrow> headless_output_info" where
  "fill_info o' = \<lparr>hi_id = ho_id o', hi_name = ho_name o', hi_width = ho_width o', hi_height = ho_height o', hi_refresh_mhz = ho_refresh_mhz o',
     hi_enabled = ho_enabled o'\<rparr>"

definition fire_hook :: "hook \<Rightarrow> world \<Rightarrow> isz_headless_state \<Rightarrow> isz_headless_output \<Rightarrow> bool \<Rightarrow> world option" where
  "fire_hook hook w st o' added = (if \<not> hs_hook st then Some w else hook w (fill_info o') added)"

text \<open>The doubling loop. It starts from at least 4; the test for 0 only makes the function total.\<close>

function grow_cap :: "nat \<Rightarrow> nat \<Rightarrow> nat" where
  "grow_cap ncap need = (if ncap < need \<and> 0 < ncap then grow_cap (ncap * 2) need else ncap)"
  by pat_completeness auto
termination
  by (relation "measure (\<lambda>(ncap, need). need - ncap)") auto

declare grow_cap.simps [simp del]

definition ensure_capacity :: "world \<Rightarrow> isz_headless_state \<Rightarrow> nat \<Rightarrow> world \<times> isz_headless_state \<times> isz_error" where
  "ensure_capacity w st need =
     (if need \<le> hs_output_cap st then (w, st, ISZ_OK)
      else let ncap = grow_cap (if hs_output_cap st \<noteq> 0 then hs_output_cap st * 2 else 4) need
           in case k_alloc w of
                (w, False) \<Rightarrow> (w, st, ISZ_ERR_NO_MEMORY)
              | (w, True) \<Rightarrow> (w, st\<lparr>hs_output_cap := ncap\<rparr>, ISZ_OK))"

definition headless_name :: "u32 \<Rightarrow> char list" where
  "headless_name i = fst (snprintf 32 (''HEADLESS-'' @ dec (unat i)))"

text \<open>Storing into the array past its capacity is \<open>None\<close>.\<close>

definition append_output ::
    "hook \<Rightarrow> world \<Rightarrow> isz_headless_state \<Rightarrow> u32 \<Rightarrow> u32 \<Rightarrow> u32 \<Rightarrow> (world \<times> isz_headless_state \<times> isz_error) option" where
  "append_output hook w st width height refresh_mhz =
     (case ensure_capacity w st (length (hs_outputs st) + 1) of
        (w, st, rc) \<Rightarrow>
          if isz_error_code rc < 0 then Some (w, st, rc)
          else case k_alloc w of
                 (w, False) \<Rightarrow> Some (w, st, ISZ_ERR_NO_MEMORY)
               | (w, True) \<Rightarrow> do {
                   let st = st\<lparr>hs_next_id := hs_next_id st + 1\<rparr>;
                   let o' = \<lparr>ho_id = hs_next_id st, ho_width = width, ho_height = height, ho_refresh_mhz = refresh_mhz, ho_enabled = False,
                             ho_name = headless_name (hs_next_id st)\<rparr>;
                   st \<leftarrow> (if length (hs_outputs st) < hs_output_cap st then Some (st\<lparr>hs_outputs := hs_outputs st @ [o']\<rparr>) else None);
                   w \<leftarrow> fire_hook hook w st o' True;
                   Some (w, st, ISZ_OK)
                 })"

section \<open>Backend operations\<close>

definition isz_headless_init ::
    "(char list \<Rightarrow> char list option) \<Rightarrow> isz_headless_config option \<Rightarrow> world \<Rightarrow> (world \<times> isz_headless_state option \<times> isz_error) option" where
  "isz_headless_init env config w =
     (case k_alloc w of
        (w, False) \<Rightarrow> Some (w, None, ISZ_ERR_NO_MEMORY)
      | (w, True) \<Rightarrow> do {
          let width = (case config of Some c \<Rightarrow> if hc_width c \<noteq> 0 then hc_width c else 1024 | None \<Rightarrow> 1024);
          let height = (case config of Some c \<Rightarrow> if hc_height c \<noteq> 0 then hc_height c else 768 | None \<Rightarrow> 768);
          let refresh = (case config of Some c \<Rightarrow> if hc_refresh_rate c \<noteq> 0 then hc_refresh_rate c else 60000 | None \<Rightarrow> 60000);
          let width = parse_u32_env env ''ISZ_HEADLESS_WIDTH'' width;
          let height = parse_u32_env env ''ISZ_HEADLESS_HEIGHT'' height;
          let refresh = parse_u32_env env ''ISZ_HEADLESS_REFRESH'' refresh;
          let st = \<lparr>hs_outputs = [], hs_output_cap = 0, hs_next_id = 0, hs_def_width = width, hs_def_height = height,
                    hs_def_refresh_mhz = refresh, hs_hook = False\<rparr>;
          (w, st, rc) \<leftarrow> append_output (\<lambda>w info added. Some w) w st width height refresh;
          (if isz_error_code rc < 0 then Some (w, None, rc) else Some (w, Some st, ISZ_OK))
        })"

fun destroy_outputs :: "hook \<Rightarrow> world \<Rightarrow> isz_headless_state \<Rightarrow> isz_headless_output list \<Rightarrow> world option" where
  "destroy_outputs hook w st [] = Some w"
| "destroy_outputs hook w st (o' # os) = do { w \<leftarrow> fire_hook hook w st o' False; destroy_outputs hook w st os }"

definition isz_headless_destroy :: "hook \<Rightarrow> world \<Rightarrow> isz_headless_state option \<Rightarrow> world option" where
  "isz_headless_destroy hook w impl = (case impl of None \<Rightarrow> Some w | Some st \<Rightarrow> destroy_outputs hook w st (hs_outputs st))"

definition isz_headless_blank_all_crtcs :: "isz_backend \<Rightarrow> isz_backend" where
  "isz_headless_blank_all_crtcs b = b"

text \<open>The functions for the layer above; they are no-ops or errors when the backend is not headless.\<close>

definition isz_headless_set_output_hook :: "isz_headless_state option \<Rightarrow> isz_headless_state option" where
  "isz_headless_set_output_hook impl = map_option (\<lambda>st. st\<lparr>hs_hook := True\<rparr>) impl"

definition isz_headless_simulate_output_hotplug ::
    "hook \<Rightarrow> world \<Rightarrow> isz_headless_state option \<Rightarrow> u32 \<Rightarrow> u32 \<Rightarrow> (world \<times> isz_headless_state option \<times> isz_error) option" where
  "isz_headless_simulate_output_hotplug hook w impl width height = (case impl of
       None \<Rightarrow> Some (w, None, ISZ_ERR_INVALID_ARG)
     | Some st \<Rightarrow>
         if width = 0 \<or> height = 0 then Some (w, Some st, ISZ_ERR_INVALID_ARG)
         else do {
           (w, st, rc) \<leftarrow> append_output hook w st width height (hs_def_refresh_mhz st);
           Some (w, Some st, rc)
         })"

definition isz_headless_outputs :: "isz_headless_state option \<Rightarrow> isz_headless_output list" where
  "isz_headless_outputs impl = (case impl of None \<Rightarrow> [] | Some st \<Rightarrow> hs_outputs st)"

section \<open>Creating and destroying a backend\<close>

datatype isz_backend_type = ISZ_BACKEND_DRM | ISZ_BACKEND_HEADLESS | ISZ_BACKEND_NESTED

text \<open>\<^verbatim>\<open>isz_drm_init\<close> in the build without libdrm\<close>

definition isz_drm_init :: "world \<Rightarrow> (world \<times> isz_headless_state option \<times> isz_error) option" where
  "isz_drm_init w = Some (w, None, ISZ_ERR_FEATURE_UNAVAIL)"

definition isz_backend_create ::
    "(char list \<Rightarrow> char list option) \<Rightarrow> isz_backend_type \<Rightarrow> isz_headless_config option \<Rightarrow> world
      \<Rightarrow> (world \<times> (isz_backend \<times> isz_headless_state option) option) option" where
  "isz_backend_create env type config w =
     (if type = ISZ_BACKEND_NESTED then Some (w, None)
      else case k_alloc w of
             (w, False) \<Rightarrow> Some (w, None)
           | (w, True) \<Rightarrow> do {
               let b = \<lparr>be_state = ISZ_BACKEND_UNINITIALIZED, be_last_error = ISZ_OK\<rparr>;
               (w, impl, rc) \<leftarrow> (if type = ISZ_BACKEND_DRM then isz_drm_init w else isz_headless_init env config w);
               (if isz_error_code rc < 0 then Some (w, None)
                else Some (w, Some (b\<lparr>be_state := ISZ_BACKEND_READY\<rparr>, impl)))
             })"

definition isz_backend_destroy :: "hook \<Rightarrow> world \<Rightarrow> (isz_backend \<times> isz_headless_state option) option \<Rightarrow> world option" where
  "isz_backend_destroy hook w b = (case b of None \<Rightarrow> Some w | Some (b, impl) \<Rightarrow> isz_headless_destroy hook w impl)"

definition isz_backend_blank_all_crtcs :: "isz_backend option \<Rightarrow> isz_backend option" where
  "isz_backend_blank_all_crtcs b = map_option isz_headless_blank_all_crtcs b"

section \<open>Facts\<close>

definition headless_ok :: "isz_headless_state \<Rightarrow> bool" where
  "headless_ok st \<longleftrightarrow> length (hs_outputs st) \<le> hs_output_cap st"

lemma grow_cap_ge: "0 < c \<Longrightarrow> need \<le> grow_cap c need \<and> 0 < grow_cap c need"
  by (induction c need rule: grow_cap.induct) (subst (1 2) grow_cap.simps, auto)

lemma parse_u32_env_dec:
  assumes "env name = Some (dec n)" "0 < n" "n < 2 ^ 32"
  shows "parse_u32_env env name def = of_nat n"
  using assms strtoul_dec [of n] dec_nonempty [of n] by (simp add: parse_u32_env_def)

text \<open>A new output: the next id, and a name that fits.\<close>

definition headless_new :: "u32 \<Rightarrow> u32 \<Rightarrow> u32 \<Rightarrow> u32 \<Rightarrow> isz_headless_output" where
  "headless_new i width height refresh = \<lparr>ho_id = i, ho_width = width, ho_height = height, ho_refresh_mhz = refresh, ho_enabled = False,
     ho_name = headless_name i\<rparr>"

lemma headless_name_fits: "headless_name i = ''HEADLESS-'' @ dec (unat i)"
proof -
  have "unat i < 2 ^ LENGTH(32)" by (rule unsigned_less)
  then have "unat i < 10 ^ Suc 9" by simp
  from length_dec [OF this] show ?thesis by (simp add: headless_name_def snprintf_def)
qed

lemma append_output_outcome:
  fixes width height refresh :: u32
  assumes "headless_ok st"
  defines "o' \<equiv> headless_new (hs_next_id st + 1) width height refresh"
  shows "(\<exists>w1 st'. append_output hook w st width height refresh = Some (w1, st', ISZ_ERR_NO_MEMORY) \<and> kern.more w1 = kern.more w
      \<and> headless_ok st' \<and> hs_outputs st' = hs_outputs st)
    \<or> (\<exists>w1 st'. append_output hook w st width height refresh = map_option (\<lambda>w. (w, st', ISZ_OK)) (fire_hook hook w1 st' o' True)
      \<and> kern.more w1 = kern.more w \<and> headless_ok st' \<and> hs_hook st' = hs_hook st \<and> hs_outputs st' = hs_outputs st @ [o'])"
proof -
  obtain w1 st1 rc where e: "ensure_capacity w st (length (hs_outputs st) + 1) = (w1, st1, rc)" by (metis prod_cases3)
  have f: "kern.more w1 = kern.more w" "hs_outputs st1 = hs_outputs st" "hs_next_id st1 = hs_next_id st" "hs_hook st1 = hs_hook st"
    "rc = ISZ_OK \<and> length (hs_outputs st) < hs_output_cap st1 \<or> rc = ISZ_ERR_NO_MEMORY \<and> st1 = st"
    using e kern_more_alloc [of w] grow_cap_ge [of "hs_output_cap st * 2" "Suc (length (hs_outputs st))"] grow_cap_ge [of 4 "Suc (length (hs_outputs st))"]
    by (auto simp: ensure_capacity_def Let_def split: if_splits prod.splits bool.splits)
  obtain w2 b2 where a: "k_alloc w1 = (w2, b2)" by fastforce
  have m2: "kern.more w2 = kern.more w" using kern_more_alloc [of w1] a f(1) by simp
  show ?thesis
  proof (cases "rc = ISZ_OK \<and> b2")
    case False
    then have "\<exists>w' st'. append_output hook w st width height refresh = Some (w', st', ISZ_ERR_NO_MEMORY) \<and> kern.more w' = kern.more w
      \<and> headless_ok st' \<and> hs_outputs st' = hs_outputs st"
      using e f a m2 assms(1) by (cases "rc = ISZ_OK") (auto simp: append_output_def headless_ok_def)
    then show ?thesis by blast
  next
    case True
    let ?st = "st1\<lparr>hs_next_id := hs_next_id st1 + 1, hs_outputs := hs_outputs st @ [o']\<rparr>"
    have "append_output hook w st width height refresh = map_option (\<lambda>w. (w, ?st, ISZ_OK)) (fire_hook hook w2 ?st o' True)"
      using e f a True by (simp add: append_output_def Let_def o'_def headless_new_def map_option_case bind_eq_Some_conv split: option.splits)
    moreover have "headless_ok ?st" "hs_hook ?st = hs_hook st" "hs_outputs ?st = hs_outputs st @ [o']"
      using f(4,5) True by (auto simp: headless_ok_def)
    ultimately show ?thesis using m2 by blast
  qed
qed

text \<open>The geometry of the first output: environment, else configuration, else the built-in default.\<close>

definition first_output :: "(char list \<Rightarrow> char list option) \<Rightarrow> isz_headless_config option \<Rightarrow> isz_headless_output" where
  "first_output env config = headless_new 1
     (parse_u32_env env ''ISZ_HEADLESS_WIDTH'' (case config of Some c \<Rightarrow> if hc_width c \<noteq> 0 then hc_width c else 1024 | None \<Rightarrow> 1024))
     (parse_u32_env env ''ISZ_HEADLESS_HEIGHT'' (case config of Some c \<Rightarrow> if hc_height c \<noteq> 0 then hc_height c else 768 | None \<Rightarrow> 768))
     (parse_u32_env env ''ISZ_HEADLESS_REFRESH'' (case config of Some c \<Rightarrow> if hc_refresh_rate c \<noteq> 0 then hc_refresh_rate c else 60000 | None \<Rightarrow> 60000))"

lemma isz_headless_init_outcome:
  "\<exists>w' impl rc. isz_headless_init env config w = Some (w', impl, rc) \<and> kern.more w' = kern.more w
    \<and> (impl = None \<and> rc = ISZ_ERR_NO_MEMORY
       \<or> rc = ISZ_OK \<and> (\<exists>st. impl = Some st \<and> headless_ok st \<and> \<not> hs_hook st \<and> hs_outputs st = [first_output env config]))"
proof -
  obtain w1 b1 where a: "k_alloc w = (w1, b1)" by fastforce
  have m1: "kern.more w1 = kern.more w" using kern_more_alloc [of w] a by simp
  show ?thesis
  proof (cases b1)
    case False
    with a m1 show ?thesis by (simp add: isz_headless_init_def)
  next
    case True
    define width where "width = parse_u32_env env ''ISZ_HEADLESS_WIDTH'' (case config of Some c \<Rightarrow> if hc_width c \<noteq> 0 then hc_width c else 1024 | None \<Rightarrow> 1024)"
    define height where "height = parse_u32_env env ''ISZ_HEADLESS_HEIGHT'' (case config of Some c \<Rightarrow> if hc_height c \<noteq> 0 then hc_height c else 768 | None \<Rightarrow> 768)"
    define refresh where "refresh = parse_u32_env env ''ISZ_HEADLESS_REFRESH'' (case config of Some c \<Rightarrow> if hc_refresh_rate c \<noteq> 0 then hc_refresh_rate c else 60000 | None \<Rightarrow> 60000)"
    define st where "st = \<lparr>hs_outputs = [], hs_output_cap = 0, hs_next_id = 0, hs_def_width = width, hs_def_height = height,
                    hs_def_refresh_mhz = refresh, hs_hook = False\<rparr>"
    have eq: "isz_headless_init env config w = do {
        (w, st, rc) \<leftarrow> append_output (\<lambda>w info added. Some w) w1 st width height refresh;
        (if isz_error_code rc < 0 then Some (w, None, rc) else Some (w, Some st, ISZ_OK)) }"
      using a True by (simp add: isz_headless_init_def width_def height_def refresh_def st_def Let_def)
    have first: "first_output env config = headless_new (hs_next_id st + 1) width height refresh"
      by (simp add: first_output_def width_def height_def refresh_def st_def)
    have st: "headless_ok st" "\<not> hs_hook st" "hs_outputs st = []" by (simp_all add: st_def headless_ok_def)
    from append_output_outcome [OF st(1), of "\<lambda>w info added. Some w" w1 width height refresh] show ?thesis
    proof (elim disjE exE conjE)
      fix w2 st'
      assume "append_output (\<lambda>w info added. Some w) w1 st width height refresh = Some (w2, st', ISZ_ERR_NO_MEMORY)" "kern.more w2 = kern.more w1"
      then show ?thesis using m1 unfolding eq by (simp add:)
    next
      fix w2 st'
      assume "append_output (\<lambda>w info added. Some w) w1 st width height refresh
          = map_option (\<lambda>w. (w, st', ISZ_OK)) (fire_hook (\<lambda>w info added. Some w) w2 st' (headless_new (hs_next_id st + 1) width height refresh) True)"
        "kern.more w2 = kern.more w1" "headless_ok st'" "hs_hook st' = hs_hook st"
        "hs_outputs st' = hs_outputs st @ [headless_new (hs_next_id st + 1) width height refresh]"
      then show ?thesis using m1 st first unfolding eq by (simp add: fire_hook_def)
    qed
  qed
qed

end
