(* ===== verification/Isz_Psi.thy ===== *)
theory Isz_Psi
  imports Isz_Text
begin

text \<open>
  The memory pressure monitor, \<^verbatim>\<open>src/buffer/isz_psi.c\<close>. What the kernel answers is given by parameters: whether the directory exists and the
  result of \<^verbatim>\<open>open\<close>, the number of bytes a \<^verbatim>\<open>write\<close> accepts (\<open>None\<close> for a failure), and the script of \<^verbatim>\<open>read\<close> results.
  A write to the monitor's file is returned with the new state.
\<close>

section \<open>State and operations\<close>

datatype isz_psi_level = ISZ_PSI_SOME | ISZ_PSI_FULL

record isz_psi_threshold =
  pt_level :: isz_psi_level
  pt_window_us :: u32
  pt_threshold_pct :: u32

record isz_psi_monitor =
  pm_fd :: fd
  pm_enabled :: bool
  pm_trigger :: "char list"
  pm_armed :: bool

datatype psi_read = PsiBytes nat | PsiIntr | PsiAgain | PsiFail

definition isz_psi_init :: "bool \<Rightarrow> fd option \<Rightarrow> isz_psi_monitor" where
  "isz_psi_init dir opened =
     (let mon = \<lparr>pm_fd = -1, pm_enabled = False, pm_trigger = [], pm_armed = False\<rparr>
      in if \<not> dir then mon
         else case opened of None \<Rightarrow> mon | Some fd \<Rightarrow> mon\<lparr>pm_fd := fd, pm_enabled := True\<rparr>)"

definition clamp_window :: "u32 \<Rightarrow> u32" where
  "clamp_window window =
     (let window = (if window < 500000 then 500000 else window)
      in if window > 10000000 then 10000000 else window)"

definition clamp_pct :: "u32 \<Rightarrow> u32" where
  "clamp_pct pct =
     (let pct = (if pct = 0 then 1 else pct)
      in if pct > 100 then 100 else pct)"

definition trigger_text :: "isz_psi_level \<Rightarrow> nat \<Rightarrow> nat \<Rightarrow> char list" where
  "trigger_text level window pct = (if level = ISZ_PSI_FULL then ''full'' else ''some'') @ '' '' @ dec window @ '' '' @ dec pct"

definition isz_psi_set_threshold ::
    "isz_psi_monitor \<Rightarrow> isz_psi_threshold option \<Rightarrow> nat option \<Rightarrow> isz_psi_monitor \<times> char list option" where
  "isz_psi_set_threshold mon t written = (case t of
       None \<Rightarrow> (mon, None)
     | Some t \<Rightarrow>
         if \<not> pm_enabled mon then (mon, None)
         else if pm_fd mon < 0 then (mon, None)
         else
           let window = clamp_window (pt_window_us t);
               pct = clamp_pct (pt_threshold_pct t);
               (trigger, n) = snprintf 64 (trigger_text (pt_level t) (unat window) (unat pct));
               mon = mon\<lparr>pm_trigger := trigger\<rparr>
           in if n \<ge> 64 then (mon\<lparr>pm_trigger := []\<rparr>, None)
              else (if written = Some n then mon\<lparr>pm_armed := True\<rparr> else mon, Some trigger))"

definition isz_psi_get_fd :: "isz_psi_monitor \<Rightarrow> fd" where
  "isz_psi_get_fd mon = (if \<not> pm_enabled mon then -1 else pm_fd mon)"

text \<open>The read that is repeated while it is interrupted; an exhausted script answers \<^verbatim>\<open>EAGAIN\<close>.\<close>

fun psi_read_loop :: "psi_read list \<Rightarrow> psi_read" where
  "psi_read_loop [] = PsiAgain"
| "psi_read_loop (PsiIntr # rs) = psi_read_loop rs"
| "psi_read_loop (r # rs) = r"

definition isz_psi_dispatch :: "isz_psi_monitor \<Rightarrow> psi_read list \<Rightarrow> nat option \<Rightarrow> isz_psi_monitor \<times> char list option" where
  "isz_psi_dispatch mon reads written =
     (if \<not> pm_enabled mon \<or> pm_fd mon < 0 then (mon, None)
      else case psi_read_loop reads of
             PsiBytes n \<Rightarrow>
               if pm_armed mon \<and> pm_trigger mon \<noteq> []
               then (if written \<noteq> Some (length (pm_trigger mon)) then mon\<lparr>pm_armed := False\<rparr> else mon, Some (pm_trigger mon))
               else (mon, None)
           | _ \<Rightarrow> (mon, None))"

definition isz_psi_destroy :: "'z kern_scheme \<Rightarrow> isz_psi_monitor \<Rightarrow> 'z kern_scheme \<times> isz_psi_monitor" where
  "isz_psi_destroy k mon =
     (let (k, mon) = (if pm_fd mon \<ge> 0 then (k_close k (pm_fd mon), mon\<lparr>pm_fd := -1\<rparr>) else (k, mon))
      in (k, mon\<lparr>pm_enabled := False, pm_armed := False, pm_trigger := []\<rparr>))"

section \<open>Bounds\<close>

lemma clamp_window_range: "500000 \<le> clamp_window w \<and> clamp_window w \<le> 10000000"
  "500000 \<le> w \<and> w \<le> 10000000 \<Longrightarrow> clamp_window w = w"
  by (auto simp: clamp_window_def Let_def not_less)

lemma clamp_pct_range: "1 \<le> clamp_pct p \<and> clamp_pct p \<le> 100" "1 \<le> p \<and> p \<le> 100 \<Longrightarrow> clamp_pct p = p"
proof -
  have "1 \<le> p" if "p \<noteq> 0" using that by (metis word_coorder.not_eq_extremum inc_le add.left_neutral)
  then show "1 \<le> clamp_pct p \<and> clamp_pct p \<le> 100" by (auto simp: clamp_pct_def Let_def not_less)
  show "clamp_pct p = p" if "1 \<le> p \<and> p \<le> 100" using that by (auto simp: clamp_pct_def Let_def not_less)
qed

text \<open>A trigger the kernel can have been given: level, window and percentage within the documented ranges.\<close>

definition psi_trigger :: "char list \<Rightarrow> bool" where
  "psi_trigger s \<longleftrightarrow> (\<exists>lvl w p. 500000 \<le> w \<and> w \<le> 10000000 \<and> 1 \<le> p \<and> p \<le> 100 \<and> s = trigger_text lvl w p)"

lemma psi_trigger_length:
  assumes "psi_trigger s"
  shows "length s < 64" "s \<noteq> []"
proof -
  from assms obtain lvl w p where s: "w \<le> 10000000" "p \<le> 100" "s = trigger_text lvl w p" by (auto simp: psi_trigger_def)
  have "length (dec w) \<le> 8" "length (dec p) \<le> 3" using length_dec [of w 7] length_dec [of p 2] s(1,2) by simp_all
  with s(3) show "length s < 64" "s \<noteq> []" by (auto simp: trigger_text_def)
qed

definition psi_inv :: "isz_psi_monitor \<Rightarrow> bool" where
  "psi_inv mon \<longleftrightarrow> (pm_enabled mon \<longrightarrow> 0 \<le> pm_fd mon) \<and> (pm_trigger mon = [] \<or> psi_trigger (pm_trigger mon))
     \<and> (pm_armed mon \<longrightarrow> pm_enabled mon \<and> pm_trigger mon \<noteq> [])"

lemma set_threshold_trigger:
  "psi_trigger (trigger_text lvl (unat (clamp_window w)) (unat (clamp_pct p)))"
proof -
  have "500000 \<le> unat (clamp_window w)" "unat (clamp_window w) \<le> 10000000" "1 \<le> unat (clamp_pct p)" "unat (clamp_pct p) \<le> 100"
    using clamp_window_range(1) [of w] clamp_pct_range(1) [of p] by (simp_all add: word_le_nat_alt)
  then show ?thesis unfolding psi_trigger_def by blast
qed

lemma set_threshold_eq:
  assumes "pm_enabled mon" "0 \<le> pm_fd mon"
  shows "\<exists>s. psi_trigger s \<and> isz_psi_set_threshold mon (Some t) written =
      ((if written = Some (length s) then mon\<lparr>pm_trigger := s, pm_armed := True\<rparr> else mon\<lparr>pm_trigger := s\<rparr>), Some s)
    \<and> (500000 \<le> pt_window_us t \<and> pt_window_us t \<le> 10000000 \<and> 1 \<le> pt_threshold_pct t \<and> pt_threshold_pct t \<le> 100 \<longrightarrow>
         s = trigger_text (pt_level t) (unat (pt_window_us t)) (unat (pt_threshold_pct t)))"
proof -
  define s where "s = trigger_text (pt_level t) (unat (clamp_window (pt_window_us t))) (unat (clamp_pct (pt_threshold_pct t)))"
  have s: "psi_trigger s" unfolding s_def by (rule set_threshold_trigger)
  note len = psi_trigger_length(1) [OF s]
  have sp: "snprintf 64 s = (s, length s)" using len by (simp add: snprintf_def)
  have "isz_psi_set_threshold mon (Some t) written =
      ((if written = Some (length s) then mon\<lparr>pm_trigger := s, pm_armed := True\<rparr> else mon\<lparr>pm_trigger := s\<rparr>), Some s)"
    using assms len by (simp add: isz_psi_set_threshold_def Let_def sp not_less flip: s_def)
  moreover have "s = trigger_text (pt_level t) (unat (pt_window_us t)) (unat (pt_threshold_pct t))"
    if "500000 \<le> pt_window_us t \<and> pt_window_us t \<le> 10000000 \<and> 1 \<le> pt_threshold_pct t \<and> pt_threshold_pct t \<le> 100"
    using that clamp_window_range(2) clamp_pct_range(2) by (simp add: s_def)
  ultimately show ?thesis using s by blast
qed

text \<open>A threshold out of range is not ignored: it is moved into the range and written.\<close>

lemma psi_out_of_range_is_written:
  assumes "pm_enabled mon" "0 \<le> pm_fd mon"
  shows "snd (isz_psi_set_threshold mon (Some \<lparr>pt_level = lvl, pt_window_us = 0, pt_threshold_pct = 0\<rparr>) written) = Some (trigger_text lvl 500000 1)"
proof -
  have c: "clamp_window 0 = 500000" "clamp_pct 0 = 1" by (simp_all add: clamp_window_def clamp_pct_def)
  have "psi_trigger (trigger_text lvl 500000 1)" using set_threshold_trigger [of lvl 0 0] by (simp add: c)
  from psi_trigger_length(1) [OF this] assms show ?thesis by (simp add: isz_psi_set_threshold_def Let_def snprintf_def c)
qed

section \<open>Properties\<close>

text \<open>C28: the bounds of what is written to the kernel. Arming an enabled monitor with a threshold in range writes exactly its text, level, window and percentage, and arms the monitor when the
  kernel takes the whole text. Whatever threshold the caller passes, nothing is written but a complete text that fits the buffer of 64 bytes, with a window between half a
  second and ten seconds and a percentage between 1 and 100; the monitor invariant holds afterwards, and what \<^verbatim>\<open>isz_psi_dispatch\<close> writes later to re-arm is such a text as well. The
  format is the one of the code, not the one of the kernel, which expects a stall time before the window. A threshold out of range is clamped by the code
  (\<open>psi_out_of_range_is_written\<close>), where the header says that it is ignored; the property holds either way.\<close>

theorem psi_triggers_in_range:
  assumes "psi_inv mon" and "pm_enabled mon"
  shows "\<exists>mon' out. isz_psi_set_threshold mon (Some t) written = (mon', out) \<and> psi_inv mon'
    \<and> (\<forall>s. out = Some s \<longrightarrow> psi_trigger s \<and> length s < 64)
    \<and> (500000 \<le> pt_window_us t \<and> pt_window_us t \<le> 10000000 \<and> 1 \<le> pt_threshold_pct t \<and> pt_threshold_pct t \<le> 100 \<longrightarrow>
         (let s = trigger_text (pt_level t) (unat (pt_window_us t)) (unat (pt_threshold_pct t))
          in out = Some s \<and> (written = Some (length s) \<longrightarrow> pm_armed mon')))
    \<and> (\<forall>reads written' mon'' s'. isz_psi_dispatch mon' reads written' = (mon'', Some s') \<longrightarrow> psi_trigger s' \<and> psi_inv mon'')"
proof -
  have fd: "0 \<le> pm_fd mon" using assms by (simp add: psi_inv_def)
  from set_threshold_eq [OF assms(2) fd, of t written] obtain s where
    s: "psi_trigger s" "isz_psi_set_threshold mon (Some t) written =
      ((if written = Some (length s) then mon\<lparr>pm_trigger := s, pm_armed := True\<rparr> else mon\<lparr>pm_trigger := s\<rparr>), Some s)"
    "500000 \<le> pt_window_us t \<and> pt_window_us t \<le> 10000000 \<and> 1 \<le> pt_threshold_pct t \<and> pt_threshold_pct t \<le> 100 \<longrightarrow>
         s = trigger_text (pt_level t) (unat (pt_window_us t)) (unat (pt_threshold_pct t))"
    by blast
  define mon' where "mon' = (if written = Some (length s) then mon\<lparr>pm_trigger := s, pm_armed := True\<rparr> else mon\<lparr>pm_trigger := s\<rparr>)"
  have inv: "psi_inv mon'" using assms s(1) psi_trigger_length [OF s(1)] by (simp add: psi_inv_def mon'_def)
  have rearm: "\<forall>reads written' mon'' s'. isz_psi_dispatch mon' reads written' = (mon'', Some s') \<longrightarrow> psi_trigger s' \<and> psi_inv mon''"
    using inv by (auto simp: isz_psi_dispatch_def psi_inv_def split: if_splits psi_read.splits)
  have armed: "written = Some (length s) \<longrightarrow> pm_armed mon'" by (simp add: mon'_def)
  show ?thesis unfolding s(2) mon'_def [symmetric] Let_def
    using s(1,3) psi_trigger_length(1) [OF s(1)] inv rearm armed by (intro exI [of _ mon'] exI [of _ "Some s"]) auto
qed

theorem psi_triggers_in_range_witness:
  "\<exists>mon'. isz_psi_set_threshold (isz_psi_init True (Some 7)) (Some \<lparr>pt_level = ISZ_PSI_FULL, pt_window_us = 2000000, pt_threshold_pct = 50\<rparr>) (Some 15)
     = (mon', Some ''full 2000000 50'') \<and> psi_inv mon' \<and> pm_armed mon'"
proof -
  have "psi_inv (isz_psi_init True (Some 7))" "pm_enabled (isz_psi_init True (Some 7))" by (simp_all add: psi_inv_def isz_psi_init_def)
  moreover have "trigger_text ISZ_PSI_FULL 2000000 50 = ''full 2000000 50''" 
  proof -
    have "char_of (50 :: nat) = CHR ''2''" "char_of (48 :: nat) = CHR ''0''" "char_of (53 :: nat) = CHR ''5''"
      by (simp_all add: char_of_def bit_0)
    then show ?thesis by (simp add: trigger_text_def dec.simps digit_char_def)
  qed
  ultimately show ?thesis using psi_triggers_in_range [of "isz_psi_init True (Some 7)" "\<lparr>pt_level = ISZ_PSI_FULL, pt_window_us = 2000000, pt_threshold_pct = 50\<rparr>" "Some 15"]
    by auto
qed

text \<open>A rejected trigger leaves the monitor armed when an earlier one was accepted.\<close>

lemma psi_rejected_trigger_stays_armed:
  assumes "psi_inv mon" "pm_armed mon"
  shows "pm_armed (fst (isz_psi_set_threshold mon (Some t) None))"
  using assms set_threshold_eq [of mon t None] by (fastforce simp: psi_inv_def)

end
