(* ===== verification/Isz_Thread_Pool.thy ===== *)
theory Isz_Thread_Pool
  imports Isz_Prelude "HOL-Library.Multiset"
begin

text \<open>
  The worker threads of \<^verbatim>\<open>src/util/isz_thread_pool.c\<close>, as a transition system. A step is one section of code that runs under the
  pool's lock, or one action outside it; the steps of the workers and of the owner interleave freely. A worker
  in \<^verbatim>\<open>isz_cond_wait\<close> is \<open>Waiting\<close>; a signal wakes one waiting worker, a broadcast all, and a wait may also end
  spuriously, as POSIX allows. The lists \<open>tp_submitted\<close>, \<open>tp_taken\<close>, \<open>tp_ran\<close> and \<open>tp_signalled\<close> record what happened; no step reads them. The
  result \<open>None\<close> is an access to a freed work item.
\<close>

section \<open>State\<close>

record work_item =
  wi_fn :: nat
  wi_ctx :: nat
  wi_fence_fd :: fd
  wi_next :: "nat option"

datatype worker = Ready | Waiting | Running nat | Signalling nat | Exited

type_synonym work = "nat \<times> nat \<times> fd"            \<comment> \<open>function, context, fence\<close>

record pool = kern +
  tp_items :: "nat \<Rightarrow> work_item option"
  tp_next_item :: nat
  tp_head :: "nat option"
  tp_tail :: "nat option"
  tp_shutdown :: bool
  tp_workers :: "worker list"
  tp_submitted :: "work list"
  tp_taken :: "work list"
  tp_ran :: "work list"
  tp_signalled :: "work list"

abbreviation (input) ISZ_THREAD_POOL_SIZE :: nat where "ISZ_THREAD_POOL_SIZE \<equiv> 4"

definition work_of :: "work_item \<Rightarrow> work" where
  "work_of it = (wi_fn it, wi_ctx it, wi_fence_fd it)"

section \<open>Operations\<close>

text \<open>The allocations and the initialisation of lock and condition variable succeed or fail as the scripts of the kernel record say; \<open>spawn\<close> says for each worker
  whether \<^verbatim>\<open>pthread_create\<close> succeeds.\<close>

definition isz_thread_pool_create :: "'z kern_scheme \<Rightarrow> bool list \<Rightarrow> nat \<Rightarrow> 'z kern_scheme \<times> pool option" where
  "isz_thread_pool_create k spawn n_workers =
     (let n_workers = (if n_workers = 0 then ISZ_THREAD_POOL_SIZE else n_workers)
      in case k_alloc k of
           (k, False) \<Rightarrow> (k, None)
         | (k, True) \<Rightarrow>
             (case k_alloc k of
                (k, False) \<Rightarrow> (k, None)
              | (k, True) \<Rightarrow>
                  (case k_ctl k of
                     (k, False) \<Rightarrow> (k, None)
                   | (k, True) \<Rightarrow>
                       (case k_ctl k of
                          (k, False) \<Rightarrow> (k, None)
                        | (k, True) \<Rightarrow>
                            if False \<in> set (take n_workers spawn) then (k, None)
                            else (k, Some (kern.extend (kern.truncate k) \<lparr>tp_items = (\<lambda>_. None), tp_next_item = 0, tp_head = None, tp_tail = None,
                              tp_shutdown = False, tp_workers = replicate n_workers Ready,
                              tp_submitted = [], tp_taken = [], tp_ran = [], tp_signalled = []\<rparr>))))))"

text \<open>One turn of worker \<open>i\<close>. A waiting worker has no turn until it is woken, and an exited one has none.\<close>

definition worker_step :: "pool \<Rightarrow> nat \<Rightarrow> pool option" where
  "worker_step p i = (case tp_workers p ! i of
       Ready \<Rightarrow>
         (case tp_head p of
            None \<Rightarrow> Some (p\<lparr>tp_workers := (tp_workers p)[i := (if tp_shutdown p then Exited else Waiting)]\<rparr>)
          | Some r \<Rightarrow> do {
              item \<leftarrow> tp_items p r;
              Some (p\<lparr>tp_head := wi_next item, tp_tail := (if wi_next item = None then None else tp_tail p),
                      tp_workers := (tp_workers p)[i := Running r], tp_taken := tp_taken p @ [work_of item]\<rparr>)
            })
     | Running r \<Rightarrow> do {
         item \<leftarrow> tp_items p r;
         Some (p\<lparr>tp_ran := tp_ran p @ [work_of item], tp_workers := (tp_workers p)[i := Signalling r]\<rparr>)
       }
     | Signalling r \<Rightarrow> do {
         item \<leftarrow> tp_items p r;
         Some (p\<lparr>tp_signalled := tp_signalled p @ [work_of item], tp_items := (tp_items p)(r := None),
                 tp_workers := (tp_workers p)[i := Ready]\<rparr>)
       }
     | _ \<Rightarrow> Some p)"

definition can_step :: "pool \<Rightarrow> nat \<Rightarrow> bool" where
  "can_step p i \<longleftrightarrow> i < length (tp_workers p) \<and> tp_workers p ! i \<noteq> Waiting \<and> tp_workers p ! i \<noteq> Exited"

text \<open>The end of a wait: by a signal, a broadcast or spuriously.\<close>

definition wake :: "pool \<Rightarrow> nat \<Rightarrow> pool" where
  "wake p i = (if i < length (tp_workers p) \<and> tp_workers p ! i = Waiting then p\<lparr>tp_workers := (tp_workers p)[i := Ready]\<rparr> else p)"

definition wake_all :: "pool \<Rightarrow> pool" where
  "wake_all p = p\<lparr>tp_workers := map (\<lambda>s. if s = Waiting then Ready else s) (tp_workers p)\<rparr>"

text \<open>\<open>efd\<close> is the result of \<^verbatim>\<open>eventfd\<close>, \<open>waiter\<close> the worker the signal wakes; \<open>-1\<close> is returned for a failure.\<close>

definition isz_thread_pool_submit_work :: "pool \<Rightarrow> nat option \<Rightarrow> nat \<Rightarrow> fd option \<Rightarrow> nat \<Rightarrow> (pool \<times> fd) option" where
  "isz_thread_pool_submit_work p fn ctx efd waiter = (case fn of
       None \<Rightarrow> Some (p, -1)
     | Some f \<Rightarrow>
         (case efd of
            None \<Rightarrow> Some (p, -1)
          | Some d \<Rightarrow>
              (case k_alloc p of
                 (p, False) \<Rightarrow> Some (k_close p d, -1)
               | (p, True) \<Rightarrow> do {
                   let r = tp_next_item p;
                   let item = \<lparr>wi_fn = f, wi_ctx = ctx, wi_fence_fd = d, wi_next = None\<rparr>;
                   let p = p\<lparr>tp_items := (tp_items p)(r \<mapsto> item), tp_next_item := r + 1, tp_submitted := tp_submitted p @ [work_of item]\<rparr>;
                   p \<leftarrow> (case tp_tail p of
                          None \<Rightarrow> Some (p\<lparr>tp_head := Some r\<rparr>)
                        | Some t \<Rightarrow> do { last \<leftarrow> tp_items p t; Some (p\<lparr>tp_items := (tp_items p)(t \<mapsto> last\<lparr>wi_next := Some r\<rparr>)\<rparr>) });
                   Some (wake (p\<lparr>tp_tail := Some r\<rparr>) waiter, d)
                 })))"

text \<open>\<^verbatim>\<open>isz_thread_pool_destroy\<close> up to the joins, which return when every worker has exited.\<close>

definition isz_thread_pool_destroy :: "pool \<Rightarrow> pool" where
  "isz_thread_pool_destroy p = wake_all (p\<lparr>tp_shutdown := True\<rparr>)"

definition all_exited :: "pool \<Rightarrow> bool" where
  "all_exited p \<longleftrightarrow> (\<forall>s \<in> set (tp_workers p). s = Exited)"

section \<open>Transitions\<close>

text \<open>No work is submitted to a pool that is being destroyed. The signal wakes a waiting worker if there is one.\<close>

inductive pool_step :: "pool \<Rightarrow> pool \<Rightarrow> bool" where
  worker: "can_step p i \<Longrightarrow> worker_step p i = Some p' \<Longrightarrow> pool_step p p'"
| spurious: "pool_step p (wake p i)"
| submit: "\<not> tp_shutdown p \<Longrightarrow> (Waiting \<in> set (tp_workers p) \<Longrightarrow> i < length (tp_workers p) \<and> tp_workers p ! i = Waiting) \<Longrightarrow>
     isz_thread_pool_submit_work p fn ctx efd i = Some (p', d) \<Longrightarrow> pool_step p p'"
| destroy: "pool_step p (isz_thread_pool_destroy p)"

section \<open>Invariant\<close>

fun chain :: "(nat \<Rightarrow> work_item option) \<Rightarrow> nat option \<Rightarrow> nat list \<Rightarrow> bool" where
  "chain I h [] = (h = None)"
| "chain I h (r # q) = (h = Some r \<and> (\<exists>it. I r = Some it \<and> chain I (wi_next it) q))"

definition rref :: "worker \<Rightarrow> nat list" where
  "rref s = (case s of Running r \<Rightarrow> [r] | _ \<Rightarrow> [])"

definition sref :: "worker \<Rightarrow> nat list" where
  "sref s = (case s of Signalling r \<Rightarrow> [r] | _ \<Rightarrow> [])"

abbreviation runs :: "pool \<Rightarrow> nat list" where "runs p \<equiv> concat (map rref (tp_workers p))"
abbreviation sigs :: "pool \<Rightarrow> nat list" where "sigs p \<equiv> concat (map sref (tp_workers p))"

definition works :: "(nat \<Rightarrow> work_item option) \<Rightarrow> nat list \<Rightarrow> work list" where
  "works I rs = map (\<lambda>r. work_of (the (I r))) rs"

definition busy :: "worker \<Rightarrow> bool" where
  "busy s \<longleftrightarrow> s \<noteq> Waiting \<and> s \<noteq> Exited"

text \<open>\<open>q\<close> are the queued items. Every live item is queued or in the hands of one worker; a queued item has a worker that
  will get to it.\<close>

definition pool_inv :: "pool \<Rightarrow> nat list \<Rightarrow> bool" where
  "pool_inv p q \<longleftrightarrow> chain (tp_items p) (tp_head p) q \<and> tp_tail p = (if q = [] then None else Some (last q))
     \<and> distinct (q @ runs p @ sigs p) \<and> dom (tp_items p) = set (q @ runs p @ sigs p) \<and> (\<forall>r \<in> dom (tp_items p). r < tp_next_item p)
     \<and> tp_submitted p = tp_taken p @ works (tp_items p) q
     \<and> mset (tp_taken p) = mset (tp_ran p) + mset (works (tp_items p) (runs p))
     \<and> mset (tp_ran p) = mset (tp_signalled p) + mset (works (tp_items p) (sigs p))
     \<and> tp_workers p \<noteq> [] \<and> (q \<noteq> [] \<longrightarrow> (\<exists>s \<in> set (tp_workers p). busy s))
     \<and> (tp_shutdown p \<longrightarrow> Waiting \<notin> set (tp_workers p))
     \<and> (Exited \<in> set (tp_workers p) \<longrightarrow> tp_shutdown p \<and> q = [])"

lemma pool_invD:
  assumes "pool_inv p q"
  shows "chain (tp_items p) (tp_head p) q" "tp_tail p = (if q = [] then None else Some (last q))"
    "distinct (q @ runs p @ sigs p)" "dom (tp_items p) = set (q @ runs p @ sigs p)" "\<forall>r \<in> dom (tp_items p). r < tp_next_item p"
    "tp_submitted p = tp_taken p @ works (tp_items p) q"
    "mset (tp_taken p) = mset (tp_ran p) + mset (works (tp_items p) (runs p))"
    "mset (tp_ran p) = mset (tp_signalled p) + mset (works (tp_items p) (sigs p))"
    "tp_workers p \<noteq> []" "q \<noteq> [] \<Longrightarrow> \<exists>s \<in> set (tp_workers p). busy s"
    "tp_shutdown p \<Longrightarrow> Waiting \<notin> set (tp_workers p)" "Exited \<in> set (tp_workers p) \<Longrightarrow> tp_shutdown p \<and> q = []"
  using assms unfolding pool_inv_def by blast+

lemma mset_concat_update:
  assumes "i < length ws"
  shows "mset (concat (map f (ws[i := y]))) + mset (f (ws ! i)) = mset (concat (map f ws)) + mset (f y)"
proof -
  have "ws = take i ws @ ws ! i # drop (Suc i) ws" "ws[i := y] = take i ws @ y # drop (Suc i) ws"
    using assms by (simp_all add: id_take_nth_drop upd_conv_take_nth_drop)
  then have "concat (map f ws) = concat (map f (take i ws)) @ f (ws ! i) @ concat (map f (drop (Suc i) ws))"
    "concat (map f (ws[i := y])) = concat (map f (take i ws)) @ f y @ concat (map f (drop (Suc i) ws))"
    by (metis (no_types) concat.simps(2) concat_append list.map(2) map_append)+
  then show ?thesis by simp
qed

lemma works_cong: "(\<And>r. r \<in> set rs \<Longrightarrow> map_option work_of (I r) = map_option work_of (J r)) \<Longrightarrow> works I rs = works J rs"
proof -
  have "work_of (the (I r)) = work_of (the (J r))" if "map_option work_of (I r) = map_option work_of (J r)" "I r \<noteq> None \<or> J r \<noteq> None" for r
    using that by (cases "I r"; cases "J r") auto
  moreover have "I r = J r" if "map_option work_of (I r) = map_option work_of (J r)" "I r = None" for r
    using that by (cases "J r") auto
  ultimately show "works I rs = works J rs" if "\<And>r. r \<in> set rs \<Longrightarrow> map_option work_of (I r) = map_option work_of (J r)"
    using that unfolding works_def by (metis (no_types, lifting) map_cong)
qed

lemma chain_cong: "(\<And>r. r \<in> set q \<Longrightarrow> I r = J r) \<Longrightarrow> chain I h q = chain J h q"
  by (induction q arbitrary: h) auto

lemma chain_append:
  assumes "chain I h q" "distinct q" "q \<noteq> []" "I (last q) = Some t" "r \<notin> set q" "wi_next it = None"
  shows "chain (I(r \<mapsto> it, last q \<mapsto> t\<lparr>wi_next := Some r\<rparr>)) h (q @ [r])"
  using assms
proof (induction q arbitrary: h)
  case (Cons x q)
  show ?case
  proof (cases q)
    case Nil
    with Cons.prems show ?thesis by auto
  next
    case (Cons y ys)
    then have "x \<noteq> last q" "x \<noteq> r" using Cons.prems(2,5) by auto
    with Cons.IH Cons.prems Cons show ?thesis by auto
  qed
qed simp

subsection \<open>Steps of a worker\<close>

lemma worker_take:
  assumes "pool_inv p q" "i < length (tp_workers p)" "tp_workers p ! i = Ready" "tp_head p = Some r"
  shows "\<exists>p' q'. worker_step p i = Some p' \<and> pool_inv p' q' \<and> q = r # q' \<and> tp_shutdown p' = tp_shutdown p
    \<and> tp_workers p' = (tp_workers p)[i := Running r] \<and> tp_submitted p' = tp_submitted p"
proof -
  note d = pool_invD [OF assms(1)]
  from d(1) assms(4) obtain q' it where q: "q = r # q'" "tp_items p r = Some it" "chain (tp_items p) (wi_next it) q'" by (cases q) auto
  define p' where "p' = p\<lparr>tp_head := wi_next it, tp_tail := (if wi_next it = None then None else tp_tail p),
                      tp_workers := (tp_workers p)[i := Running r], tp_taken := tp_taken p @ [work_of it]\<rparr>"
  have f: "tp_items p' = tp_items p" "tp_head p' = wi_next it" "tp_tail p' = (if wi_next it = None then None else tp_tail p)"
    "tp_workers p' = (tp_workers p)[i := Running r]" "tp_taken p' = tp_taken p @ [work_of it]" "tp_next_item p' = tp_next_item p"
    "tp_submitted p' = tp_submitted p" "tp_ran p' = tp_ran p" "tp_signalled p' = tp_signalled p" "tp_shutdown p' = tp_shutdown p"
    by (simp_all add: p'_def)
  have next': "wi_next it = None \<longleftrightarrow> q' = []" using q(3) by (cases q') auto
  have m: "mset (runs p') = add_mset r (mset (runs p))" "mset (sigs p') = mset (sigs p)"
    using mset_concat_update [OF assms(2), of rref "Running r"] mset_concat_update [OF assms(2), of sref "Running r"] assms(3)
    by (simp_all add: f(4) rref_def sref_def)
  have eq: "mset (q' @ runs p' @ sigs p') = mset (q @ runs p @ sigs p)" by (simp add: m q(1))
  have w: "works I (r # rs) = work_of (the (I r)) # works I rs" for I and rs :: "nat list" by (simp add: works_def)
  have mw: "mset (works (tp_items p) (runs p')) = add_mset (work_of it) (mset (works (tp_items p) (runs p)))"
    "mset (works (tp_items p) (sigs p')) = mset (works (tp_items p) (sigs p))"
    unfolding works_def mset_map m by (simp_all add: q(2))
  have "pool_inv p' q'" unfolding pool_inv_def
  proof (intro conjI)
    show "chain (tp_items p') (tp_head p') q'" "tp_tail p' = (if q' = [] then None else Some (last q'))"
      using q d(2) next' by (auto simp: f)
    show "distinct (q' @ runs p' @ sigs p')" "dom (tp_items p') = set (q' @ runs p' @ sigs p')"
      using d(3,4) mset_eq_imp_distinct_iff [OF eq] mset_eq_setD [OF eq] by (auto simp: f(1))
    show "tp_submitted p' = tp_taken p' @ works (tp_items p') q'" using d(6) by (simp add: f q(1,2) w)
    show "mset (tp_taken p') = mset (tp_ran p') + mset (works (tp_items p') (runs p'))"
      "mset (tp_ran p') = mset (tp_signalled p') + mset (works (tp_items p') (sigs p'))" using d(7,8) mw by (simp_all add: f)
    have "Running r \<in> set (tp_workers p')" using assms(2) by (simp add: f set_update_memI)
    then show "q' \<noteq> [] \<longrightarrow> (\<exists>s \<in> set (tp_workers p'). busy s)" by (auto simp: busy_def)
    show "tp_shutdown p' \<longrightarrow> Waiting \<notin> set (tp_workers p')" using d(11) set_update_subset_insert [of "tp_workers p" i "Running r"] by (auto simp: f)
    show "Exited \<in> set (tp_workers p') \<longrightarrow> tp_shutdown p' \<and> q' = []"
      using d(12) set_update_subset_insert [of "tp_workers p" i "Running r"] q(1) by (auto simp: f)
  qed (use d in \<open>simp_all add: f\<close>)
  moreover have "worker_step p i = Some p'" using assms(3,4) q(2) by (simp add: worker_step_def p'_def)
  ultimately show ?thesis using q(1) f(4,7,10) by blast
qed

lemma worker_idle:
  assumes "pool_inv p q" "i < length (tp_workers p)" "tp_workers p ! i = Ready" "tp_head p = None"
  shows "\<exists>p'. worker_step p i = Some p' \<and> pool_inv p' q \<and> q = [] \<and> tp_shutdown p' = tp_shutdown p
    \<and> tp_workers p' = (tp_workers p)[i := (if tp_shutdown p then Exited else Waiting)] \<and> tp_submitted p' = tp_submitted p"
proof -
  note d = pool_invD [OF assms(1)]
  let ?s = "if tp_shutdown p then Exited else Waiting"
  define p' where "p' = p\<lparr>tp_workers := (tp_workers p)[i := ?s]\<rparr>"
  have q: "q = []" using d(1) assms(4) by (cases q) auto
  have m: "mset (runs p') = mset (runs p)" "mset (sigs p') = mset (sigs p)"
    using mset_concat_update [OF assms(2), of rref ?s] mset_concat_update [OF assms(2), of sref ?s] assms(3)
    by (simp_all add: p'_def rref_def sref_def)
  have eq: "mset (q @ runs p' @ sigs p') = mset (q @ runs p @ sigs p)" by (simp add: m)
  have "pool_inv p' q" unfolding pool_inv_def
  proof (intro conjI)
    show "distinct (q @ runs p' @ sigs p')" "dom (tp_items p') = set (q @ runs p' @ sigs p')"
      using d(3,4) mset_eq_imp_distinct_iff [OF eq] mset_eq_setD [OF eq] by (auto simp: p'_def)
    have "tp_items p' = tp_items p" by (simp add: p'_def)
    then show "mset (tp_taken p') = mset (tp_ran p') + mset (works (tp_items p') (runs p'))"
      "mset (tp_ran p') = mset (tp_signalled p') + mset (works (tp_items p') (sigs p'))"
      using d(7,8) unfolding works_def mset_map m by (simp_all add: p'_def)
    show "tp_shutdown p' \<longrightarrow> Waiting \<notin> set (tp_workers p')" "Exited \<in> set (tp_workers p') \<longrightarrow> tp_shutdown p' \<and> q = []"
      using d(11,12) q set_update_subset_insert [of "tp_workers p" i ?s] by (auto simp: p'_def split: if_splits)
  qed (use d q in \<open>simp_all add: p'_def\<close>)
  moreover have "worker_step p i = Some p'" using assms(3,4) by (simp add: worker_step_def p'_def)
  ultimately show ?thesis using q by (auto simp: p'_def)
qed

lemma worker_run:
  assumes "pool_inv p q" "i < length (tp_workers p)" "tp_workers p ! i = Running r"
  shows "\<exists>p'. worker_step p i = Some p' \<and> pool_inv p' q \<and> tp_shutdown p' = tp_shutdown p
    \<and> tp_workers p' = (tp_workers p)[i := Signalling r] \<and> tp_submitted p' = tp_submitted p"
proof -
  note d = pool_invD [OF assms(1)]
  have "r \<in> set (runs p)" using assms(2,3) nth_mem [OF assms(2)] by (force simp: rref_def)
  with d(4) obtain it where it: "tp_items p r = Some it" by auto
  define p' where "p' = p\<lparr>tp_ran := tp_ran p @ [work_of it], tp_workers := (tp_workers p)[i := Signalling r]\<rparr>"
  have f: "tp_items p' = tp_items p" "tp_workers p' = (tp_workers p)[i := Signalling r]" by (simp_all add: p'_def)
  have m: "add_mset r (mset (runs p')) = mset (runs p)" "mset (sigs p') = add_mset r (mset (sigs p))"
    using mset_concat_update [OF assms(2), of rref "Signalling r"] mset_concat_update [OF assms(2), of sref "Signalling r"] assms(3)
    by (simp_all add: f(2) rref_def sref_def)
  have eq: "mset (q @ runs p' @ sigs p') = mset (q @ runs p @ sigs p)" using m by (simp flip: m(1))
  have "pool_inv p' q" unfolding pool_inv_def
  proof (intro conjI)
    show "distinct (q @ runs p' @ sigs p')" "dom (tp_items p') = set (q @ runs p' @ sigs p')"
      using d(3,4) mset_eq_imp_distinct_iff [OF eq] mset_eq_setD [OF eq] by (auto simp: f(1))
    show "mset (tp_taken p') = mset (tp_ran p') + mset (works (tp_items p') (runs p'))"
      using d(7) unfolding works_def mset_map m(1) [symmetric] by (simp add: p'_def it)
    show "mset (tp_ran p') = mset (tp_signalled p') + mset (works (tp_items p') (sigs p'))"
      using d(8) unfolding works_def mset_map m(2) by (simp add: p'_def it)
    have "Signalling r \<in> set (tp_workers p')" using assms(2) by (simp add: f set_update_memI)
    then show "q \<noteq> [] \<longrightarrow> (\<exists>s \<in> set (tp_workers p'). busy s)" by (auto simp: busy_def)
    show "tp_shutdown p' \<longrightarrow> Waiting \<notin> set (tp_workers p')" "Exited \<in> set (tp_workers p') \<longrightarrow> tp_shutdown p' \<and> q = []"
      using d(11,12) set_update_subset_insert [of "tp_workers p" i "Signalling r"] by (auto simp: p'_def)
  qed (use d in \<open>simp_all add: p'_def\<close>)
  moreover have "worker_step p i = Some p'" using assms(3) it by (simp add: worker_step_def p'_def)
  ultimately show ?thesis by (auto simp: p'_def)
qed

lemma worker_signal:
  assumes "pool_inv p q" "i < length (tp_workers p)" "tp_workers p ! i = Signalling r"
  shows "\<exists>p'. worker_step p i = Some p' \<and> pool_inv p' q \<and> tp_shutdown p' = tp_shutdown p
    \<and> tp_workers p' = (tp_workers p)[i := Ready] \<and> tp_submitted p' = tp_submitted p"
proof -
  note d = pool_invD [OF assms(1)]
  have "r \<in> set (sigs p)" using assms(2,3) nth_mem [OF assms(2)] by (force simp: sref_def)
  with d(4) obtain it where it: "tp_items p r = Some it" by auto
  define p' where "p' = p\<lparr>tp_signalled := tp_signalled p @ [work_of it], tp_items := (tp_items p)(r := None),
                 tp_workers := (tp_workers p)[i := Ready]\<rparr>"
  have f: "tp_items p' = (tp_items p)(r := None)" "tp_workers p' = (tp_workers p)[i := Ready]" by (simp_all add: p'_def)
  have m: "mset (runs p') = mset (runs p)" "add_mset r (mset (sigs p')) = mset (sigs p)"
    using mset_concat_update [OF assms(2), of rref Ready] mset_concat_update [OF assms(2), of sref Ready] assms(3)
    by (simp_all add: f(2) rref_def sref_def)
  have eq: "mset (r # q @ runs p' @ sigs p') = mset (q @ runs p @ sigs p)" using m(1) by (simp flip: m(2))
  have r: "r \<notin> set (q @ runs p' @ sigs p')" "distinct (q @ runs p' @ sigs p')" using d(3) mset_eq_imp_distinct_iff [OF eq] by simp_all
  have wk: "works (tp_items p') rs = works (tp_items p) rs" if "r \<notin> set rs" for rs
    using that by (auto simp: works_def f(1))
  have "pool_inv p' q" unfolding pool_inv_def
  proof (intro conjI)
    have "chain (tp_items p') h q = chain (tp_items p) h q" for h by (rule chain_cong) (use r(1) in \<open>auto simp: f(1)\<close>)
    with d(1) show "chain (tp_items p') (tp_head p') q" by (simp add: p'_def)
    show "distinct (q @ runs p' @ sigs p')" by (rule r(2))
    show "dom (tp_items p') = set (q @ runs p' @ sigs p')" using d(4) mset_eq_setD [OF eq] r(1) by (auto simp: f(1))
    show "tp_submitted p' = tp_taken p' @ works (tp_items p') q" using d(6) r(1) wk [of q] by (simp add: p'_def)
    show "mset (tp_taken p') = mset (tp_ran p') + mset (works (tp_items p') (runs p'))"
    proof -
      have "mset (works (tp_items p) (runs p)) = mset (works (tp_items p) (runs p'))" unfolding works_def mset_map m(1) ..
      with d(7) r(1) wk [of "runs p'"] show ?thesis by (simp add: p'_def)
    qed
    have "mset (works (tp_items p) (sigs p)) = add_mset (work_of it) (mset (works (tp_items p) (sigs p')))"
      unfolding works_def mset_map m(2) [symmetric] by (simp add: it)
    then show "mset (tp_ran p') = mset (tp_signalled p') + mset (works (tp_items p') (sigs p'))"
      using d(8) r(1) wk [of "sigs p'"] by (simp add: p'_def)
    have "Ready \<in> set (tp_workers p')" using assms(2) by (simp add: f set_update_memI)
    then show "q \<noteq> [] \<longrightarrow> (\<exists>s \<in> set (tp_workers p'). busy s)" by (auto simp: busy_def)
    show "tp_shutdown p' \<longrightarrow> Waiting \<notin> set (tp_workers p')" "Exited \<in> set (tp_workers p') \<longrightarrow> tp_shutdown p' \<and> q = []"
      using d(11,12) set_update_subset_insert [of "tp_workers p" i Ready] by (auto simp: p'_def)
  qed (use d in \<open>auto simp: p'_def\<close>)
  moreover have "worker_step p i = Some p'" using assms(3) it by (simp add: worker_step_def p'_def)
  ultimately show ?thesis by (auto simp: p'_def)
qed

subsection \<open>Waking and submitting\<close>

lemma no_refs_unwaiting:
  fixes ws ws' :: "worker list"
  assumes "list_all2 (\<lambda>s s'. s' = s \<or> s = Waiting \<and> s' = Ready) ws ws'"
  shows "concat (map rref ws') = concat (map rref ws)" "concat (map sref ws') = concat (map sref ws)"
    "Waiting \<in> set ws' \<Longrightarrow> Waiting \<in> set ws" "Exited \<in> set ws' \<longleftrightarrow> Exited \<in> set ws" "(\<exists>s \<in> set ws. busy s) \<Longrightarrow> (\<exists>s \<in> set ws'. busy s)"
    "ws' = [] \<longleftrightarrow> ws = []"
  using assms by (induction rule: list_all2_induct) (auto simp: rref_def sref_def busy_def)

lemma pool_inv_workers:
  assumes "pool_inv p q" "list_all2 (\<lambda>s s'. s' = s \<or> s = Waiting \<and> s' = Ready) (tp_workers p) ws"
  shows "pool_inv (p\<lparr>tp_workers := ws\<rparr>) q"
  using assms(1) no_refs_unwaiting [OF assms(2)] unfolding pool_inv_def by auto

lemma wake_all2: "list_all2 (\<lambda>s s'. s' = s \<or> s = Waiting \<and> s' = Ready) (tp_workers p) (tp_workers (wake p i))"
  by (auto simp: wake_def list_all2_conv_all_nth nth_list_update)

lemma pool_inv_wake: "pool_inv p q \<Longrightarrow> pool_inv (wake p i) q"
  using pool_inv_workers [of p q, OF _ wake_all2 [of p i]] by (auto simp: wake_def split: if_splits)

lemma pool_inv_destroy:
  assumes "pool_inv p q"
  shows "pool_inv (isz_thread_pool_destroy p) q"
proof -
  let ?ws = "map (\<lambda>s. if s = Waiting then Ready else s) (tp_workers p)"
  have "list_all2 (\<lambda>s s'. s' = s \<or> s = Waiting \<and> s' = Ready) (tp_workers p) ?ws" by (auto simp: list_all2_conv_all_nth)
  from pool_inv_workers [OF assms this] have "pool_inv (p\<lparr>tp_workers := ?ws\<rparr>) q" .
  moreover have "Waiting \<notin> set ?ws" by auto
  ultimately show ?thesis by (auto simp: isz_thread_pool_destroy_def wake_all_def pool_inv_def)
qed

text \<open>The queue after a successful submission, before the signal.\<close>

lemma pool_inv_enqueue:
  assumes "pool_inv p q" "wi_next it = None" "\<exists>s \<in> set ws. busy s" "Exited \<notin> set ws"
    "list_all2 (\<lambda>s s'. s' = s \<or> s = Waiting \<and> s' = Ready) (tp_workers p) ws"
  defines "r \<equiv> tp_next_item p"
  defines "I \<equiv> (case tp_tail p of None \<Rightarrow> (tp_items p)(r \<mapsto> it)
      | Some t \<Rightarrow> (tp_items p)(r \<mapsto> it, t \<mapsto> (the (tp_items p t))\<lparr>wi_next := Some r\<rparr>))"
  shows "pool_inv (p\<lparr>tp_items := I, tp_next_item := r + 1, tp_submitted := tp_submitted p @ [work_of it],
      tp_head := (if tp_tail p = None then Some r else tp_head p), tp_tail := Some r, tp_workers := ws\<rparr>) (q @ [r])"
    (is "pool_inv ?p _")
proof -
  note d = pool_invD [OF assms(1)] and n = no_refs_unwaiting [OF assms(5)]
  have refs: "runs ?p = runs p" "sigs ?p = sigs p" using n by simp_all
  have fresh: "r \<notin> dom (tp_items p)" using d(5) by (auto simp: r_def)
  have tl: "\<exists>x. tp_items p t = Some x \<and> t \<noteq> r" if "tp_tail p = Some t" for t
  proof -
    from that d(2) have "t \<in> set q" by (auto split: if_splits)
    then have "t \<in> dom (tp_items p)" unfolding d(4) by simp
    with fresh show ?thesis by auto
  qed
  have old: "map_option work_of (I x) = map_option work_of (tp_items p x)" if "x \<in> dom (tp_items p)" for x
  proof (cases "tp_tail p")
    case None
    with that fresh show ?thesis by (auto simp: I_def)
  next
    case (Some t)
    with that fresh tl [OF Some] show ?thesis by (auto simp: I_def work_of_def)
  qed
  have wk: "works I rs = works (tp_items p) rs" if "set rs \<subseteq> dom (tp_items p)" for rs
    by (rule works_cong) (use old that in blast)
  have sub: "set q \<subseteq> dom (tp_items p)" "set (runs p) \<subseteq> dom (tp_items p)" "set (sigs p) \<subseteq> dom (tp_items p)"
    unfolding d(4) by auto
  note wks = wk [OF sub(1)] wk [OF sub(2)] wk [OF sub(3)]
  have wr: "map_option work_of (I r) = Some (work_of it)"
    using tl by (cases "tp_tail p") (auto simp: I_def)
  have domI: "dom I = insert r (dom (tp_items p))"
    using tl by (cases "tp_tail p") (auto simp: I_def)
  show ?thesis unfolding pool_inv_def
  proof (intro conjI)
    show "chain (tp_items ?p) (tp_head ?p) (q @ [r])"
    proof (cases "q = []")
      case True
      with d(1,2) assms(2) show ?thesis by (simp add: I_def)
    next
      case False
      then have lq: "last q \<in> dom (tp_items p)" using d(4) by simp
      then obtain t where t: "tp_items p (last q) = Some t" by auto
      have "r \<notin> set q" using fresh d(4) by auto
      from chain_append [OF d(1) _ False t this assms(2)] d(2,3) False t show ?thesis by (simp add: I_def)
    qed
    show "distinct ((q @ [r]) @ runs ?p @ sigs ?p)" using d(3,4) fresh unfolding refs by auto
    show "dom (tp_items ?p) = set ((q @ [r]) @ runs ?p @ sigs ?p)" using d(4) domI unfolding refs by auto
    show "\<forall>x \<in> dom (tp_items ?p). x < tp_next_item ?p" using d(5) domI by (auto simp: r_def less_Suc_eq)
    have "works I [r] = [work_of it]" using wr by (auto simp: works_def)
    then show "tp_submitted ?p = tp_taken ?p @ works (tp_items ?p) (q @ [r])"
      using d(6) wks(1) by (simp add: works_def)
    show "mset (tp_taken ?p) = mset (tp_ran ?p) + mset (works (tp_items ?p) (runs ?p))"
      "mset (tp_ran ?p) = mset (tp_signalled ?p) + mset (works (tp_items ?p) (sigs ?p))"
      using d(7,8) wks(2,3) unfolding refs by simp_all
    show "tp_shutdown ?p \<longrightarrow> Waiting \<notin> set (tp_workers ?p)" using d(11) n(3) by auto
  qed (use d(9) n(6) assms(3,4) in \<open>auto simp: r_def\<close>)
qed

lemma pool_inv_more: "kern.more p' = kern.more p \<Longrightarrow> pool_inv p q \<Longrightarrow> pool_inv p' q" for p p' :: pool
  by (cases p; cases p') (simp add: pool_inv_def)

lemma wake_eq: "wake p i = p\<lparr>tp_workers := tp_workers (wake p i)\<rparr>"
  by (simp add: wake_def)

lemma submit_outcome:
  assumes "pool_inv p q" "\<not> tp_shutdown p" "Waiting \<in> set (tp_workers p) \<Longrightarrow> i < length (tp_workers p) \<and> tp_workers p ! i = Waiting"
  shows "\<exists>p' d q'. isz_thread_pool_submit_work p fn ctx efd i = Some (p', d) \<and> pool_inv p' q' \<and> tp_shutdown p' = tp_shutdown p"
proof (cases "fn = None \<or> efd = None")
  case True
  with assms(1) show ?thesis by (auto simp: isz_thread_pool_submit_work_def split: option.splits)
next
  case False
  then obtain f dd where fd: "fn = Some f" "efd = Some dd" by auto
  obtain p1 ok where a: "k_alloc p = (p1, ok)" by fastforce
  have m: "kern.more p1 = kern.more p" using a by (auto simp: k_alloc_def split: list.splits)
  have f1: "tp_items p1 = tp_items p" "tp_next_item p1 = tp_next_item p" "tp_head p1 = tp_head p" "tp_tail p1 = tp_tail p"
    "tp_shutdown p1 = tp_shutdown p" "tp_workers p1 = tp_workers p" "tp_submitted p1 = tp_submitted p" "tp_taken p1 = tp_taken p"
    "tp_ran p1 = tp_ran p" "tp_signalled p1 = tp_signalled p" using a by (auto simp: k_alloc_def split: list.splits)
  have inv1: "pool_inv p1 q" using assms(1) unfolding pool_inv_def f1 .
  show ?thesis
  proof (cases ok)
    case False
    have "pool_inv (k_close p1 dd) q" using inv1 by (simp add: pool_inv_def k_close_def)
    with False fd a f1(5) show ?thesis by (auto simp: isz_thread_pool_submit_work_def k_close_def)
  next
    case True
    note d = pool_invD [OF inv1]
    let ?it = "\<lparr>wi_fn = f, wi_ctx = ctx, wi_fence_fd = dd, wi_next = None\<rparr>"
    let ?ws = "tp_workers (wake p1 i)"
    have "Exited \<notin> set (tp_workers p1)" using d(12) assms(2) f1(5) by auto
    with no_refs_unwaiting(4) [OF wake_all2 [of p1 i]] have ex: "Exited \<notin> set ?ws" by simp
    have "\<exists>s \<in> set ?ws. busy s"
    proof (cases "Waiting \<in> set (tp_workers p1)")
      case True
      with assms(3) have "Ready \<in> set ?ws" by (auto simp: f1 wake_def intro!: set_update_memI)
      then show ?thesis by (auto simp: busy_def)
    next
      case False
      then have "?ws = tp_workers p1" by (auto simp: wake_def dest: nth_mem)
      with False ex d(9) show ?thesis by (cases "tp_workers p1") (auto simp: busy_def)
    qed
    note inv2 = pool_inv_enqueue [OF inv1 _ this ex wake_all2, of ?it]
    have tail: "t \<in> dom (tp_items p1)" "t \<noteq> tp_next_item p1" if "tp_tail p1 = Some t" for t
    proof -
      from that d(2) have "t \<in> set q" by (auto split: if_splits)
      then show "t \<in> dom (tp_items p1)" unfolding d(4) by simp
      with d(5) show "t \<noteq> tp_next_item p1" by blast
    qed
    define p0 where "p0 = p1\<lparr>tp_items := (tp_items p1)(tp_next_item p1 \<mapsto> ?it), tp_next_item := tp_next_item p1 + 1, tp_submitted := tp_submitted p1 @ [work_of ?it]\<rparr>"
    define p2 where "p2 = (case tp_tail p1 of None \<Rightarrow> p0\<lparr>tp_head := Some (tp_next_item p1)\<rparr>
        | Some t \<Rightarrow> p0\<lparr>tp_items := (tp_items p0)(t \<mapsto> (the (tp_items p0 t))\<lparr>wi_next := Some (tp_next_item p1)\<rparr>)\<rparr>)"
    define p3 where "p3 = p2\<lparr>tp_tail := Some (tp_next_item p1)\<rparr>"
    have ws: "tp_workers (wake p3 i) = ?ws" "tp_shutdown (wake p3 i) = tp_shutdown p"
      by (auto simp: p3_def p2_def p0_def wake_def f1 split: option.splits)
    have "pool_inv (wake p3 i) (q @ [tp_next_item p1])"
      by (rule pool_inv_more [OF _ inv2], subst wake_eq, subst ws(1))
         (use tail in \<open>cases p1, auto simp: p3_def p2_def p0_def split: option.splits\<close>)
    moreover have "isz_thread_pool_submit_work p fn ctx efd i = Some (wake p3 i, dd)"
      using fd a True tail by (cases "tp_tail p1") (auto simp: isz_thread_pool_submit_work_def Let_def p3_def p2_def p0_def)
    ultimately show ?thesis using ws(2) by blast
  qed
qed

section \<open>Reachable states\<close>

definition pool_reach :: "pool \<Rightarrow> bool" where
  "pool_reach p \<longleftrightarrow> (\<exists>k k' :: kern. \<exists>spawn n p0. isz_thread_pool_create k spawn n = (k', Some p0) \<and> pool_step\<^sup>*\<^sup>* p0 p)"

lemma pool_inv_create:
  assumes "isz_thread_pool_create k spawn n = (k', Some p)"
  shows "pool_inv p []"
  using assms
  by (auto simp: isz_thread_pool_create_def Let_def pool_inv_def kern.defs works_def rref_def sref_def split: prod.splits bool.splits if_splits)

text \<open>An upper bound for the number of turns the workers can take before there is new work or a wake-up.\<close>

fun weight :: "worker \<Rightarrow> nat" where
  "weight Ready = 1" | "weight Waiting = 0" | "weight (Running r) = 3" | "weight (Signalling r) = 2" | "weight Exited = 0"

definition pool_work :: "pool \<Rightarrow> nat" where
  "pool_work p = 3 * (length (tp_submitted p) - length (tp_taken p)) + sum_list (map weight (tp_workers p))"

lemma pool_work_inv: "pool_inv p q \<Longrightarrow> pool_work p = 3 * length q + sum_list (map weight (tp_workers p))"
  using pool_invD(6) [of p q] by (simp add: pool_work_def works_def)

lemma sum_weight_update:
  "i < length ws \<Longrightarrow> sum_list (map weight (ws[i := y])) + weight (ws ! i) = sum_list (map weight ws) + weight y"
  by (simp add: map_update sum_list_update) (metis add.commute elem_le_sum_list le_add_diff_inverse2 length_map nth_map trans_le_add1)

lemma worker_outcome:
  assumes "pool_inv p q" "can_step p i"
  shows "\<exists>p' q'. worker_step p i = Some p' \<and> pool_inv p' q' \<and> pool_work p' < pool_work p"
proof -
  have i: "i < length (tp_workers p)" "busy (tp_workers p ! i)" using assms(2) by (simp_all add: can_step_def busy_def)
  note u = sum_weight_update [OF i(1)]
  show ?thesis
  proof (cases "tp_workers p ! i")
    case Ready
    show ?thesis
    proof (cases "tp_head p")
      case None
      from worker_idle [OF assms(1) i(1) Ready None] u [of "if tp_shutdown p then Exited else Waiting"] Ready assms(1) show ?thesis
        by (auto simp: pool_work_inv)
    next
      case (Some r)
      from worker_take [OF assms(1) i(1) Ready Some] u [of "Running r"] Ready assms(1) show ?thesis by (auto simp: pool_work_inv)
    qed
  next
    case (Running r)
    from worker_run [OF assms(1) i(1) Running] u [of "Signalling r"] Running assms(1) show ?thesis by (auto simp: pool_work_inv)
  next
    case (Signalling r)
    from worker_signal [OF assms(1) i(1) Signalling] u [of Ready] Signalling assms(1) show ?thesis by (auto simp: pool_work_inv)
  qed (use i(2) in \<open>simp_all add: busy_def\<close>)
qed

lemma pool_inv_step:
  assumes "pool_step p p'" "pool_inv p q"
  shows "\<exists>q'. pool_inv p' q'"
  using assms(1)
proof (cases rule: pool_step.cases)
  case (worker i)
  with worker_outcome [OF assms(2)] show ?thesis by fastforce
next
  case (submit i fn ctx efd d)
  with submit_outcome [OF assms(2), of i fn ctx efd] show ?thesis by fastforce
qed (use assms(2) pool_inv_wake pool_inv_destroy in blast)+

lemma pool_inv_reach:
  assumes "pool_reach p"
  shows "\<exists>q. pool_inv p q"
proof -
  from assms obtain k k' :: kern and spawn n p0 where "isz_thread_pool_create k spawn n = (k', Some p0)" "pool_step\<^sup>*\<^sup>* p0 p"
    by (auto simp: pool_reach_def)
  from this(2) pool_inv_create [OF this(1)] show ?thesis
    by (induction rule: rtranclp_induct) (auto dest: pool_inv_step)
qed

definition worker_turn :: "pool \<Rightarrow> pool \<Rightarrow> bool" where
  "worker_turn p p' \<longleftrightarrow> (\<exists>i. can_step p i \<and> worker_step p i = Some p')"

lemma worker_turns_bounded:
  assumes "pool_inv p q" "(worker_turn ^^ n) p p'"
  shows "n \<le> pool_work p"
  using assms
proof (induction n arbitrary: p q)
  case (Suc n)
  from Suc.prems(2) obtain p1 where p1: "worker_turn p p1" "(worker_turn ^^ n) p1 p'" by (metis relpowp_Suc_D2)
  then obtain i where "can_step p i" "worker_step p i = Some p1" by (auto simp: worker_turn_def)
  with worker_outcome [OF Suc.prems(1)] obtain q1 where "pool_inv p1 q1" "pool_work p1 < pool_work p" by fastforce
  with Suc.IH p1(2) show ?case by fastforce
qed simp

section \<open>Properties\<close>

text \<open>C27: submitted work is always done. In every reachable state, whatever the interleaving: no worker touches a freed item; left to themselves the
  workers come to rest after at most \<open>pool_work p\<close> turns; and when they rest, the items were taken in the order of
  submission, each was run exactly once and its fence was signalled, and all items are freed. If the pool is being destroyed, all workers have exited
  then, so the joins return.\<close>

theorem submitted_work_is_done:
  assumes "pool_reach p"
  shows "(\<forall>i. can_step p i \<longrightarrow> worker_step p i \<noteq> None)
    \<and> (\<forall>n p'. (worker_turn ^^ n) p p' \<longrightarrow> n \<le> pool_work p)
    \<and> ((\<forall>i. \<not> can_step p i) \<longrightarrow> tp_taken p = tp_submitted p \<and> mset (tp_ran p) = mset (tp_submitted p)
         \<and> mset (tp_signalled p) = mset (tp_submitted p) \<and> tp_items p = (\<lambda>_. None) \<and> (tp_shutdown p \<longrightarrow> all_exited p))"
proof (intro conjI)
  from pool_inv_reach [OF assms] obtain q where inv: "pool_inv p q" ..
  note d = pool_invD [OF inv]
  show "\<forall>i. can_step p i \<longrightarrow> worker_step p i \<noteq> None" using worker_outcome [OF inv] by fastforce
  show "\<forall>n p'. (worker_turn ^^ n) p p' \<longrightarrow> n \<le> pool_work p" using worker_turns_bounded [OF inv] by blast
  show "(\<forall>i. \<not> can_step p i) \<longrightarrow> tp_taken p = tp_submitted p \<and> mset (tp_ran p) = mset (tp_submitted p)
         \<and> mset (tp_signalled p) = mset (tp_submitted p) \<and> tp_items p = (\<lambda>_. None) \<and> (tp_shutdown p \<longrightarrow> all_exited p)"
  proof
    assume "\<forall>i. \<not> can_step p i"
    then have rest: "s = Waiting \<or> s = Exited" if "s \<in> set (tp_workers p)" for s
      using that by (auto simp: can_step_def in_set_conv_nth)
    then have q: "q = []" using d(10) by (auto simp: busy_def)
    have "rref s = []" "sref s = []" if "s \<in> set (tp_workers p)" for s using rest [OF that] by (auto simp: rref_def sref_def)
    then have refs: "runs p = []" "sigs p = []" by simp_all
    then have "dom (tp_items p) = {}" unfolding d(4) q by (simp only: refs) simp
    moreover have "all_exited p" if "tp_shutdown p" using d(11) [OF that] rest by (auto simp: all_exited_def)
    ultimately show "tp_taken p = tp_submitted p \<and> mset (tp_ran p) = mset (tp_submitted p)
         \<and> mset (tp_signalled p) = mset (tp_submitted p) \<and> tp_items p = (\<lambda>_. None) \<and> (tp_shutdown p \<longrightarrow> all_exited p)"
      using d(6,7,8) unfolding refs q by (simp add: works_def)
  qed
qed

text \<open>One worker, one item: submitted while the worker waits, run and signalled, and the pool destroyed.\<close>

definition sample_pool :: pool where
  "sample_pool = the (snd (isz_thread_pool_create kern_init [] 1))"

lemma sample_pool_create: "isz_thread_pool_create kern_init [] 1 = (kern_init, Some sample_pool)"
  by (simp add: sample_pool_def isz_thread_pool_create_def k_alloc_def k_ctl_def kern_init_def)

definition sample_run :: "pool option" where
  "sample_run = do {
     p \<leftarrow> worker_step sample_pool 0;
     (p, d) \<leftarrow> isz_thread_pool_submit_work p (Some 1) 2 (Some 9) 0;
     p \<leftarrow> worker_step p 0; p \<leftarrow> worker_step p 0; p \<leftarrow> worker_step p 0;
     worker_step (isz_thread_pool_destroy p) 0
   }"

lemma sample_pool_fields:
  "tp_items sample_pool = (\<lambda>_. None)" "tp_next_item sample_pool = 0" "tp_head sample_pool = None" "tp_tail sample_pool = None"
  "\<not> tp_shutdown sample_pool" "tp_workers sample_pool = [Ready]" "tp_submitted sample_pool = []" "k_allocs sample_pool = []"
  by (simp_all add: sample_pool_def isz_thread_pool_create_def k_alloc_def k_ctl_def kern_init_def kern.defs)

lemma sample_run_reach: "\<exists>p. sample_run = Some p \<and> pool_reach p \<and> tp_shutdown p \<and> (\<forall>i. \<not> can_step p i) \<and> tp_submitted p = [(1, 2, 9)]"
proof -
  note ev = sample_pool_fields worker_step_def can_step_def
  define p1 where "p1 = sample_pool\<lparr>tp_workers := [Waiting]\<rparr>"
  obtain p2 where p2: "isz_thread_pool_submit_work p1 (Some 1) 2 (Some 9) 0 = Some (p2, 9)" "tp_workers p2 = [Ready]" "tp_head p2 = Some 0"
    "tp_items p2 0 = Some \<lparr>wi_fn = 1, wi_ctx = 2, wi_fence_fd = 9, wi_next = None\<rparr>" "tp_submitted p2 = [(1, 2, 9)]"
    by (simp add: isz_thread_pool_submit_work_def k_alloc_def p1_def sample_pool_fields Let_def wake_def work_of_def)
  obtain p3 where p3: "worker_step p2 0 = Some p3" "tp_workers p3 = [Running 0]" "tp_head p3 = None" "tp_items p3 = tp_items p2" "tp_submitted p3 = [(1, 2, 9)]"
    using p2 by (simp add: worker_step_def)
  obtain p4 where p4: "worker_step p3 0 = Some p4" "tp_workers p4 = [Signalling 0]" "tp_head p4 = None" "tp_items p4 = tp_items p2" "tp_submitted p4 = [(1, 2, 9)]"
    using p2 p3 by (simp add: worker_step_def)
  obtain p5 where p5: "worker_step p4 0 = Some p5" "tp_workers p5 = [Ready]" "tp_head p5 = None" "tp_submitted p5 = [(1, 2, 9)]"
    using p2 p4 by (simp add: worker_step_def)
  let ?p6 = "isz_thread_pool_destroy p5"
  obtain p7 where p7: "worker_step ?p6 0 = Some p7" "tp_workers p7 = [Exited]" "tp_submitted p7 = [(1, 2, 9)]" "tp_shutdown p7"
    using p5 by (simp add: worker_step_def isz_thread_pool_destroy_def wake_all_def)
  have "pool_step sample_pool p1" by (rule pool_step.worker [of _ 0]) (simp_all add: ev p1_def)
  moreover have "pool_step p1 p2" by (rule pool_step.submit [OF _ _ p2(1)]) (simp_all add: p1_def sample_pool_fields)
  moreover have "pool_step p2 p3" "pool_step p3 p4" "pool_step p4 p5"
    using p2(2) p3(1,2) p4(1,2) p5(1) by (auto intro!: pool_step.worker [of _ 0] simp: can_step_def)
  moreover have "pool_step p5 ?p6" by (rule pool_step.destroy)
  moreover have "pool_step ?p6 p7" using p7(1) p5(2) by (auto intro!: pool_step.worker [of _ 0] simp: can_step_def isz_thread_pool_destroy_def wake_all_def)
  ultimately have "pool_step\<^sup>*\<^sup>* sample_pool p7" by (meson converse_rtranclp_into_rtranclp rtranclp.rtrancl_refl)
  with sample_pool_create have "pool_reach p7" unfolding pool_reach_def by blast
  moreover have "worker_step sample_pool 0 = Some p1" by (simp add: ev p1_def)
  then have "sample_run = Some p7" using p2(1) p3(1) p4(1) p5(1) p7(1) by (simp add: sample_run_def)
  ultimately show ?thesis using p7 by (auto simp: can_step_def)
qed

theorem submitted_work_is_done_witness:
  "\<exists>p. sample_run = Some p \<and> tp_ran p = [(1, 2, 9)] \<and> all_exited p"
proof -
  from sample_run_reach obtain p where p: "sample_run = Some p" "pool_reach p" "tp_shutdown p" "\<forall>i. \<not> can_step p i" "tp_submitted p = [(1, 2, 9)]" by blast
  with submitted_work_is_done [OF p(2)] show ?thesis by auto
qed

end
