(* ===== verification/Isz_Handshake.thy ===== *)
theory Isz_Handshake
  imports Isz_Conn
begin

text \<open>
  The server side of the connection handshake, \<^verbatim>\<open>src/protocol/isz_handshake.c\<close>: send magic and
  version, check the client's version, announce the globals (the enumeration functions return
  nothing in this version), the capabilities, and the end of the handshake. Message
  order rests on the channel interface of \<open>Isz_Conn\<close>.
\<close>

section \<open>Definitions\<close>

definition isz_handshake_list_outputs :: "nat list" where
  "isz_handshake_list_outputs = []"

definition isz_handshake_active_seat :: "nat option" where
  "isz_handshake_active_seat = None"

abbreviation (input) "ISZ_GLOBAL_OUTPUT \<equiv> (0 :: u32)"
abbreviation (input) "ISZ_GLOBAL_SEAT \<equiv> (1 :: u32)"

definition isz_put_u32_le_local :: "u8 list \<Rightarrow> nat \<Rightarrow> u32 \<Rightarrow> u8 list option" where
  "isz_put_u32_le_local p off v =
     (if off + 4 \<le> length p
      then Some (p[off := byte_of 0 v, off + 1 := byte_of 8 v,
                   off + 2 := byte_of 16 v, off + 3 := byte_of 24 v])
      else None)"

text \<open>\<open>True\<close> is the return value 0, \<open>False\<close> is -1.\<close>

definition isz_handshake_send ::
    "'z kern_scheme \<Rightarrow> conn \<Rightarrow> u32 \<Rightarrow> u8 list option \<Rightarrow> nat \<Rightarrow> ('z kern_scheme \<times> conn \<times> bool) option" where
  "isz_handshake_send k c msg_id payload payload_len = do {
     (k, c, r) \<leftarrow> isz_conn_send k c msg_id payload payload_len None 0;
     (if r \<noteq> ISZ_OK then Some (k, c, False)
      else let (k, c, r) = isz_conn_drain k c
           in Some (k, c, \<not> (r \<noteq> ISZ_OK \<and> r \<noteq> ISZ_ERR_COMMIT_PENDING)))
   }"

definition isz_handshake_send_global_output :: "'z kern_scheme \<Rightarrow> conn \<Rightarrow> nat \<Rightarrow> ('z kern_scheme \<times> conn \<times> bool) option" where
  "isz_handshake_send_global_output k c out = do {
     payload \<leftarrow> isz_put_u32_le_local (replicate 8 0) 0 ISZ_GLOBAL_OUTPUT;
     payload \<leftarrow> isz_put_u32_le_local payload 4 0;
     isz_handshake_send k c ISZ_MSG_GLOBAL (Some payload) 8
   }"

definition isz_handshake_send_global_seat :: "'z kern_scheme \<Rightarrow> conn \<Rightarrow> nat \<Rightarrow> ('z kern_scheme \<times> conn \<times> bool) option" where
  "isz_handshake_send_global_seat k c seat = do {
     payload \<leftarrow> isz_put_u32_le_local (replicate 8 0) 0 ISZ_GLOBAL_SEAT;
     payload \<leftarrow> isz_put_u32_le_local payload 4 0;
     isz_handshake_send k c ISZ_MSG_GLOBAL (Some payload) 8
   }"

fun handshake_outputs_loop :: "'z kern_scheme \<Rightarrow> conn \<Rightarrow> nat list \<Rightarrow> ('z kern_scheme \<times> conn \<times> bool) option" where
  "handshake_outputs_loop k c [] = Some (k, c, True)"
| "handshake_outputs_loop k c (out # outs) = do {
     (k, c, ok) \<leftarrow> isz_handshake_send_global_output k c out;
     (if ok then handshake_outputs_loop k c outs else Some (k, c, False))
   }"

definition handshake_capabilities :: "'z kern_scheme \<Rightarrow> conn \<Rightarrow> ('z kern_scheme \<times> conn \<times> bool) option" where
  "handshake_capabilities k c = do {
     payload \<leftarrow> isz_put_u32_le_local (replicate 12 0) 0 0;
     payload \<leftarrow> isz_put_u32_le_local payload 4 0;
     payload \<leftarrow> isz_put_u32_le_local payload 8 0;
     isz_handshake_send k c ISZ_MSG_CAPABILITIES (Some payload) 12
   }"

text \<open>\<^verbatim>\<open>conn->dead = true; return ISZ_ERR_CLIENT_DISCONNECTED;\<close>\<close>

definition handshake_fail :: "'z kern_scheme \<Rightarrow> conn \<Rightarrow> ('z kern_scheme \<times> conn \<times> isz_error) option" where
  "handshake_fail k c = Some (k, c\<lparr>c_dead := True\<rparr>, ISZ_ERR_CLIENT_DISCONNECTED)"

text \<open>Steps 4 to 6, after the version was accepted.\<close>

definition handshake_announce :: "'z kern_scheme \<Rightarrow> conn \<Rightarrow> ('z kern_scheme \<times> conn \<times> isz_error) option" where
  "handshake_announce k c = do {
     (k, c, ok) \<leftarrow> handshake_outputs_loop k c isz_handshake_list_outputs;
     (if \<not> ok then handshake_fail k c
      else do {
        (k, c, ok) \<leftarrow> (case isz_handshake_active_seat of
             None \<Rightarrow> Some (k, c, True)
           | Some seat \<Rightarrow> isz_handshake_send_global_seat k c seat);
        (if \<not> ok then handshake_fail k c
         else do {
           (k, c, ok) \<leftarrow> handshake_capabilities k c;
           (if \<not> ok then handshake_fail k c
            else do {
              (k, c, ok) \<leftarrow> isz_handshake_send k c ISZ_MSG_HANDSHAKE_DONE None 0;
              (if \<not> ok then handshake_fail k c
               else Some (k, c\<lparr>c_handshake_done := True\<rparr>, ISZ_OK))
            })
         })
      })
   }"

definition isz_handshake_server_side :: "'z kern_scheme \<Rightarrow> conn \<Rightarrow> ('z kern_scheme \<times> conn \<times> isz_error) option" where
  "isz_handshake_server_side k c =
     (if c_handshake_done c then Some (k, c, ISZ_ERR_INVALID_ARG)
      else do {
        (k, ok) \<leftarrow> isz_proto_send_magic k (c_fd c) ISZ_PROTOCOL_VERSION;
        (if \<not> ok then handshake_fail k c
         else do {
           (k, v) \<leftarrow> isz_proto_recv_version_reply k;
           (case v of
              None \<Rightarrow> handshake_fail k c
            | Some client_version \<Rightarrow>
                if client_version = 0 \<or> client_version > ISZ_PROTOCOL_VERSION then handshake_fail k c
                else handshake_announce k (c\<lparr>c_version := client_version\<rparr>))
         })
      })"

section \<open>Lemmas\<close>

lemma isz_put_u32_le_local_eq: "isz_put_u32_le_local = isz_put_u32_le"
  by (simp add: isz_put_u32_le_local_def isz_put_u32_le_def fun_eq_iff)

lemma le32_0: "le32 0 = [0, 0, 0, 0]"
  by (simp add: le32_def byte_of_def)

lemma handshake_capabilities_eq:
  "handshake_capabilities k c = isz_handshake_send k c ISZ_MSG_CAPABILITIES (Some (replicate 12 0)) 12"
  by (simp add: handshake_capabilities_def isz_put_u32_le_local_eq isz_put_u32_le_eq le32_0 numeral_eq_Suc)

text \<open>One handshake message: memory safe; on success the frame is behind everything sent before.\<close>

lemma isz_handshake_send_spec:
  assumes "conn_ok c"
  shows "\<exists>k' c' ok. isz_handshake_send k c m (Some p) (length p) = Some (k', c', ok) \<and> conn_ok c'
     \<and> c' = c\<lparr>c_queue := c_queue c', c_queued_events := c_queued_events c', c_dead := c_dead c'\<rparr>
     \<and> (ok \<longrightarrow> \<not> c_dead c' \<and> conn_delivered (k', c') @ conn_pending (k', c')
           = conn_delivered (k, c) @ conn_pending (k, c) @ [(frame m p, 0)])"
proof -
  from isz_conn_send_spec [of "[]" k c m p] assms obtain k1 c1 r1 where
    s: "isz_conn_send k c m (Some p) (length p) None 0 = Some (k1, c1, r1)" "conn_ok c1"
      "c1 = c\<lparr>c_queue := c_queue c1, c_queued_events := c_queued_events c1, c_dead := c_dead c1\<rparr>"
    and r: "r1 = ISZ_OK \<Longrightarrow> \<not> c_dead c1 \<and> conn_delivered (k1, c1) @ conn_pending (k1, c1)
              = conn_delivered (k, c) @ conn_pending (k, c) @ [(frame m p, 0)]"
    by (auto simp: isz_conn_send_NULL split: if_splits)
  obtain k2 c2 r2 where d: "isz_conn_drain k1 c1 = (k2, c2, r2)" by (metis surj_pair)
  note ds = isz_conn_drain_spec [OF d]
  show ?thesis
  proof (cases "r1 = ISZ_OK")
    case False
    with s show ?thesis by (auto simp: isz_handshake_send_def)
  next
    case True
    have "c2 = c\<lparr>c_queue := c_queue c2, c_queued_events := c_queued_events c2, c_dead := c_dead c2\<rparr>"
      using s(3) ds by (metis (no_types, lifting) conn.surjective conn.update_convs(6-8))
    with True s ds d r show ?thesis by (auto simp: isz_handshake_send_def)
  qed
qed

lemma isz_send_all_spec:
  "isz_send_all k fd buf = (k', True) \<Longrightarrow>
     \<exists>chunks. k_sent k' = k_sent k @ map (\<lambda>b. (fd, b, [])) chunks \<and> concat chunks = buf"
proof (induction k fd buf rule: isz_send_all.induct)
  case (1 k fd buf)
  obtain k1 r where s: "k_send k fd buf [] = (k1, r)" by fastforce
  note log = k_send_spec [OF s]
  consider "buf = []" | "buf \<noteq> []" "k_sends k = []" | "buf \<noteq> []" "k_sends k \<noteq> []" by blast
  then show ?case
  proof cases
    case 1
    with "1.prems" show ?thesis by (simp add: isz_send_all.simps [of k])
  next
    case 2
    with "1.prems" show ?thesis
      by (auto simp: isz_send_all.simps [of k] k_send_def intro!: exI [of _ "[buf]"])
  next
    case 3
    show ?thesis
    proof (cases r)
      case (IoErr e)
      with 3 "1.prems" s have "e = EINTR" "isz_send_all k1 fd buf = (k', True)"
        by (auto simp: isz_send_all.simps [of k fd buf] split: if_splits)
      with "1.IH"(2) [OF 3 s [symmetric] IoErr] log IoErr show ?thesis by simp
    next
      case (IoN n)
      with 3 "1.prems" s have n: "n \<noteq> 0" "isz_send_all k1 fd (drop n buf) = (k', True)"
        by (auto simp: isz_send_all.simps [of k fd buf] split: if_splits)
      with "1.IH"(1) [OF 3 s [symmetric] IoN] obtain chunks where
        c: "k_sent k' = k_sent k1 @ map (\<lambda>b. (fd, b, [])) chunks" "concat chunks = drop n buf" by blast
      with log IoN show ?thesis by (intro exI [of _ "take n buf # chunks"]) simp
    qed
  qed
qed

lemma isz_recv_all_spec:
  "isz_recv_all k len got = (k', r) \<Longrightarrow> length got \<le> len \<Longrightarrow>
     k_sent k' = k_sent k \<and> (case r of None \<Rightarrow> True | Some b \<Rightarrow> length b = len)"
proof (induction k len got rule: isz_recv_all.induct)
  case (1 k len got)
  obtain k1 x where s: "k_recv k (len - length got) = (k1, x)" by fastforce
  note log = k_recv_simps [OF s]
  show ?case
  proof (cases "length got \<ge> len \<or> k_recvs k = []")
    case True
    with "1.prems" show ?thesis by (auto simp: isz_recv_all.simps [of k] split: if_splits)
  next
    case False
    then have f: "\<not> len \<le> length got" "k_recvs k \<noteq> []" by auto
    show ?thesis
    proof (cases x)
      case (RecvErr e)
      with f "1.prems" s log "1.IH"(1) [OF f s [symmetric] RecvErr] show ?thesis
        by (auto simp: isz_recv_all.simps [of k len got] split: if_splits)
    next
      case (RecvData bs cs tr)
      have "length bs \<le> len - length got"
        using s RecvData by (auto simp: k_recv_def split: list.splits recv_result.splits if_splits)
      with f "1.prems" s log "1.IH"(2) [OF f s [symmetric] RecvData] RecvData show ?thesis
        by (auto simp: isz_recv_all.simps [of k len got] split: if_splits)
    qed
  qed
qed

lemma isz_proto_recv_version_reply_total:
  "\<exists>k' v. isz_proto_recv_version_reply k = Some (k', v) \<and> k_sent k' = k_sent k"
proof -
  obtain k' r where r: "isz_recv_all k 4 [] = (k', r)" by fastforce
  from isz_recv_all_spec [OF r] show ?thesis
    by (cases r) (auto simp: isz_proto_recv_version_reply_def r isz_get_u32_le_def)
qed

lemma isz_proto_send_magic_spec:
  "\<exists>k' ok. isz_proto_send_magic k fd v = Some (k', ok) \<and> (ok \<longrightarrow>
     (\<exists>chunks. k_sent k' = k_sent k @ map (\<lambda>b. (fd, b, [])) chunks
        \<and> concat chunks = be32 ISZ_PROTOCOL_MAGIC @ le32 v))"
proof -
  have buf: "isz_proto_send_magic k fd v = Some (isz_send_all k fd (be32 ISZ_PROTOCOL_MAGIC @ le32 v))"
    by (simp add: isz_proto_send_magic_def wire_simps)
  obtain k' ok where s: "isz_send_all k fd (be32 ISZ_PROTOCOL_MAGIC @ le32 v) = (k', ok)" by fastforce
  with isz_send_all_spec [of k fd _ k'] show ?thesis by (auto simp: buf)
qed

lemma handshake_announce_spec:
  assumes "conn_ok c" "\<not> c_handshake_done c"
  shows "\<exists>k' c' r. handshake_announce k c = Some (k', c', r) \<and> conn_ok c' \<and> c_version c' = c_version c
     \<and> (r = ISZ_OK \<and> c_handshake_done c' \<and> \<not> c_dead c' \<and>
          conn_delivered (k', c') @ conn_pending (k', c') = conn_delivered (k, c) @ conn_pending (k, c)
            @ [(frame ISZ_MSG_CAPABILITIES (replicate 12 0), 0), (frame ISZ_MSG_HANDSHAKE_DONE [], 0)]
        \<or> r = ISZ_ERR_CLIENT_DISCONNECTED \<and> \<not> c_handshake_done c' \<and> c_dead c')"
proof -
  from isz_handshake_send_spec [OF assms(1), of k 3 "replicate 12 0"] obtain k1 c1 ok1 where
    s1: "handshake_capabilities k c = Some (k1, c1, ok1)" "conn_ok c1"
      "c1 = c\<lparr>c_queue := c_queue c1, c_queued_events := c_queued_events c1, c_dead := c_dead c1\<rparr>"
      "ok1 \<longrightarrow> \<not> c_dead c1 \<and> conn_delivered (k1, c1) @ conn_pending (k1, c1)
         = conn_delivered (k, c) @ conn_pending (k, c) @ [(frame 3 (replicate 12 0), 0)]"
    by (auto simp: handshake_capabilities_eq)
  from isz_handshake_send_spec [OF s1(2), of k1 1 "[]"] obtain k2 c2 ok2 where
    s2: "isz_handshake_send k1 c1 ISZ_MSG_HANDSHAKE_DONE None 0 = Some (k2, c2, ok2)" "conn_ok c2"
      "c2 = c1\<lparr>c_queue := c_queue c2, c_queued_events := c_queued_events c2, c_dead := c_dead c2\<rparr>"
      "ok2 \<longrightarrow> \<not> c_dead c2 \<and> conn_delivered (k2, c2) @ conn_pending (k2, c2)
         = conn_delivered (k1, c1) @ conn_pending (k1, c1) @ [(frame 1 [], 0)]"
    by (auto simp: isz_handshake_send_def isz_conn_send_NULL)
  note fields = conn_queue_update_fields [OF s1(3)] conn_queue_update_fields [OF s2(3)]
  have eq: "handshake_announce k c =
     (if \<not> ok1 then handshake_fail k1 c1
      else if \<not> ok2 then handshake_fail k2 c2 else Some (k2, c2\<lparr>c_handshake_done := True\<rparr>, ISZ_OK))"
    by (simp add: handshake_announce_def isz_handshake_list_outputs_def isz_handshake_active_seat_def s1(1) s2(1))
  consider "\<not> ok1" | "ok1" "\<not> ok2" | "ok1" "ok2" by blast
  then show ?thesis
  proof cases
    case 1
    with eq s1(2) assms(2) fields show ?thesis by (simp add: handshake_fail_def conn_ok_def)
  next
    case 2
    with eq s2(2) assms(2) fields show ?thesis by (simp add: handshake_fail_def conn_ok_def)
  next
    case 3
    have "conn_ok (c2\<lparr>c_handshake_done := True\<rparr>)" using s2(2) by (simp add: conn_ok_def)
    moreover have "conn_delivered (k2, c2\<lparr>c_handshake_done := True\<rparr>) = conn_delivered (k2, c2)"
      "conn_pending (k2, c2\<lparr>c_handshake_done := True\<rparr>) = conn_pending (k2, c2)"
      by (simp_all add: conn_delivered_def conn_pending_def)
    ultimately show ?thesis using 3 eq s1(4) s2(4) fields by simp
  qed
qed

text \<open>The bytes a peer will have received: what left and what waits, concatenated.\<close>

definition conn_bytes :: "'z kern_scheme \<times> conn \<Rightarrow> u8 list" where
  "conn_bytes s = concat (map fst (conn_delivered s @ conn_pending s))"

section \<open>Properties\<close>

lemma handshake_server_side_cases:
  fixes k :: "'a kern_scheme"
  assumes "conn_ok c" "\<not> c_handshake_done c" "c_queue c = []"
  shows "\<exists>k' c' r. isz_handshake_server_side k c = Some (k', c', r) \<and> conn_ok c'
     \<and> (r = ISZ_OK \<and> c_handshake_done c' \<and> \<not> c_dead c' \<and> c_version c' = 1
          \<and> conn_bytes (k', c') = conn_bytes (k, c) @ be32 ISZ_PROTOCOL_MAGIC @ le32 ISZ_PROTOCOL_VERSION
              @ frame ISZ_MSG_CAPABILITIES (replicate 12 0) @ frame ISZ_MSG_HANDSHAKE_DONE []
        \<or> r = ISZ_ERR_CLIENT_DISCONNECTED \<and> \<not> c_handshake_done c' \<and> c_dead c')"
proof -
  have fail: "handshake_fail k1 c = Some (k1, c\<lparr>c_dead := True\<rparr>, ISZ_ERR_CLIENT_DISCONNECTED)"
    "conn_ok (c\<lparr>c_dead := True\<rparr>)" for k1 :: "'a kern_scheme"
    using assms(1) by (simp_all add: handshake_fail_def conn_ok_def)
  from isz_proto_send_magic_spec [of k "c_fd c" 1] obtain k1 ok where
    magic: "isz_proto_send_magic k (c_fd c) 1 = Some (k1, ok)"
    and chunks: "ok \<longrightarrow> (\<exists>chunks. k_sent k1 = k_sent k @ map (\<lambda>b. (c_fd c, b, [])) chunks
        \<and> concat chunks = be32 ISZ_PROTOCOL_MAGIC @ le32 1)" by blast
  obtain k2 v where rv: "isz_proto_recv_version_reply k1 = Some (k2, v)" "k_sent k2 = k_sent k1"
    using isz_proto_recv_version_reply_total by blast
  show ?thesis
  proof (cases "ok \<and> v = Some 1")
    case False
    have "w = 0 \<or> 1 < w" if "v = Some w" "ok" for w
      using that False by (auto simp: word_less_nat_alt word_unat_eq_iff)
    then have "isz_handshake_server_side k c = handshake_fail k1 c
        \<or> isz_handshake_server_side k c = handshake_fail k2 c"
      using assms(2) magic rv False by (auto simp: isz_handshake_server_side_def split: option.splits)
    with fail assms(2) show ?thesis by auto
  next
    case True
    then have eq: "isz_handshake_server_side k c = handshake_announce k2 (c\<lparr>c_version := 1\<rparr>)"
      using assms(2) magic rv by (simp add: isz_handshake_server_side_def)
    have c1: "conn_ok (c\<lparr>c_version := 1\<rparr>)" "\<not> c_handshake_done (c\<lparr>c_version := 1\<rparr>)"
      using assms by (simp_all add: conn_ok_def)
    have "conn_bytes (k2, c\<lparr>c_version := 1\<rparr>) = conn_bytes (k, c) @ be32 ISZ_PROTOCOL_MAGIC @ le32 1"
      using chunks True rv(2) assms(3)
      by (auto simp: conn_bytes_def conn_delivered_def conn_pending_def comp_def)
    with handshake_announce_spec [OF c1, of k2] eq show ?thesis
      by (fastforce simp: conn_bytes_def)
  qed
qed

lemma isz_recv_all_healthy:
  "recv_healthy k \<Longrightarrow> length got \<le> len \<Longrightarrow> len \<le> length got + length (recv_stream k) \<Longrightarrow>
     \<exists>k'. isz_recv_all k len got = (k', Some (got @ take (len - length got) (recv_stream k)))
        \<and> k_sends k' = k_sends k"
proof (induction k len got rule: isz_recv_all.induct)
  case (1 k len got)
  obtain k1 x where s: "k_recv k (len - length got) = (k1, x)" by fastforce
  show ?case
  proof (cases "length got \<ge> len")
    case True
    with "1.prems" show ?thesis by (simp add: isz_recv_all.simps [of k])
  next
    case False
    with "1.prems" have ne: "k_recvs k \<noteq> []" by (auto simp: recv_stream_def)
    show ?thesis
    proof (cases x)
      case (RecvErr e)
      with k_recv_healthy_err [of k _ k1 e] "1.prems" s ne have
        "e = EINTR" "recv_healthy k1" "recv_stream k1 = recv_stream k" by auto
      with "1.IH"(1) [OF False ne s [symmetric] RecvErr] "1.prems" s RecvErr False ne k_recv_simps [OF s]
      show ?thesis by (auto simp: isz_recv_all.simps [of k len got])
    next
      case (RecvData bs cs tr)
      have len: "length bs \<le> len - length got"
        using s RecvData by (auto simp: k_recv_def split: list.splits recv_result.splits if_splits)
      from k_recv_healthy_data [of k _ k1 bs cs tr] "1.prems" s RecvData False have
        "bs \<noteq> []" "recv_healthy k1" "recv_stream k = bs @ recv_stream k1" by auto
      with "1.IH"(2) [OF False ne s [symmetric] RecvData] "1.prems" s RecvData False ne len k_recv_simps [OF s]
      show ?thesis by (auto simp: isz_recv_all.simps [of k len got])
    qed
  qed
qed

lemma isz_handshake_send_direct:
  assumes "\<not> c_dead c" "c_queue c = []" "k_sends k = []" "length p \<le> 8184"
  shows "\<exists>k'. isz_handshake_send k c m (Some p) (length p) = Some (k', c, True) \<and> k_sends k' = []"
proof -
  have "c\<lparr>c_queue := []\<rparr> = c" using assms(2) by (simp add: conn.equality)
  then show ?thesis
    using isz_conn_send_direct [OF assms, of "[]" m] assms
    by (simp add: isz_handshake_send_def isz_conn_send_NULL isz_conn_drain_def)
qed

lemma handshake_healthy:
  assumes "\<not> c_handshake_done c" "\<not> c_dead c" "c_queue c = []" "k_sends k = []"
    and "recv_healthy k" "recv_stream k = le32 v @ rest"
  shows "\<exists>k' c' r. isz_handshake_server_side k c = Some (k', c', r) \<and> (r = ISZ_OK \<longleftrightarrow> v = 1)"
proof -
  let ?k = "k\<lparr>k_sent := k_sent k @ [(c_fd c, be32 ISZ_PROTOCOL_MAGIC @ le32 1, [])]\<rparr>"
  have magic: "isz_proto_send_magic k (c_fd c) 1 = Some (?k, True)"
    using assms(4) by (simp add: isz_proto_send_magic_def wire_simps isz_send_all.simps k_send_def le32_def)
  from isz_recv_all_healthy [of ?k "[]" 4] assms(4-6) obtain k2 where
    "isz_recv_all ?k 4 [] = (k2, Some (le32 v))" and k2: "k_sends k2 = []"
    by (auto simp: recv_healthy_def recv_stream_def)
  then have rv: "isz_proto_recv_version_reply ?k = Some (k2, Some v)"
    using isz_get_u32_le_0 [of v "[]"] by (simp add: isz_proto_recv_version_reply_def)
  let ?c = "c\<lparr>c_version := v\<rparr>"
  show ?thesis
  proof (cases "v = 1")
    case False
    then have "v = 0 \<or> 1 < v" by (auto simp: word_less_nat_alt word_unat_eq_iff)
    with False assms(1) magic rv show ?thesis
      by (auto simp: isz_handshake_server_side_def handshake_fail_def)
  next
    case True
    from isz_handshake_send_direct [of ?c k2 "replicate 12 0" 3] assms k2 obtain k3 where
      s3: "handshake_capabilities k2 ?c = Some (k3, ?c, True)" "k_sends k3 = []"
      by (auto simp: handshake_capabilities_eq)
    from isz_handshake_send_direct [of ?c k3 "[]" 1] assms s3 obtain k4 where
      "isz_handshake_send k3 ?c 1 None 0 = Some (k4, ?c, True)"
      by (auto simp: isz_handshake_send_def isz_conn_send_NULL)
    with True assms(1) magic rv s3 show ?thesis
      by (simp add: isz_handshake_server_side_def handshake_announce_def isz_handshake_list_outputs_def
          isz_handshake_active_seat_def)
  qed
qed

text \<open>C9: the handshake on a fresh connection, for every behaviour of the socket. It never leaves
  its buffers and ends in one of two ways: established, with protocol version 1 and the bytes
  magic, version, capabilities, end-of-handshake sent or queued in this order; or disconnected,
  with the connection marked dead and never marked established. On a socket that accepts
  writes and delivers a version, it is established exactly when that version is 1. These are the bytes of the code, not those of \<^verbatim>\<open>doc/protocol.md\<close> and
  \<^verbatim>\<open>SPEC.md\<close>: there a \<^verbatim>\<open>GLOBAL\<close> message follows for every output and the active seat, but the two functions that enumerate them are stubs that find none.\<close>

theorem handshake_outcome:
  assumes "conn_ok c" and "\<not> c_handshake_done c" and "\<not> c_dead c" and "c_queue c = []"
  shows "\<exists>k' c' r. isz_handshake_server_side k c = Some (k', c', r) \<and> conn_ok c'
     \<and> (r = ISZ_OK \<and> c_handshake_done c' \<and> \<not> c_dead c' \<and> c_version c' = 1
          \<and> conn_bytes (k', c') = conn_bytes (k, c) @ be32 ISZ_PROTOCOL_MAGIC @ le32 ISZ_PROTOCOL_VERSION
              @ frame ISZ_MSG_CAPABILITIES (replicate 12 0) @ frame ISZ_MSG_HANDSHAKE_DONE []
        \<or> r = ISZ_ERR_CLIENT_DISCONNECTED \<and> \<not> c_handshake_done c' \<and> c_dead c')
     \<and> (\<forall>v rest. k_sends k = [] \<and> recv_healthy k \<and> recv_stream k = le32 v @ rest \<longrightarrow> (r = ISZ_OK \<longleftrightarrow> v = 1))"
  using handshake_server_side_cases [OF assms(1,2,4), of k] handshake_healthy [OF assms(2-4), of k]
  by fastforce

theorem handshake_outcome_witness:
  "\<exists>k' c'. isz_handshake_server_side (kern_init\<lparr>k_recvs := [RecvData (le32 1) [] False]\<rparr>) sample_conn
       = Some (k', c', ISZ_OK) \<and> c_version c' = 1"
proof -
  let ?k = "kern_init\<lparr>k_recvs := [RecvData (le32 1) [] False]\<rparr>"
  have h: "k_sends ?k = []" "recv_healthy ?k" "recv_stream ?k = le32 1 @ []"
    by (simp_all add: kern_init_def recv_healthy_def recv_stream_def le32_def)
  have "\<not> c_handshake_done sample_conn" by (simp add: sample_conn_def isz_conn_create_def k_alloc_def kern_init_def)
  with handshake_outcome [of sample_conn ?k] h sample_conn_facts show ?thesis by fastforce
qed

end
