(* ===== verification/Isz_Allowlist.thy ===== *)
theory Isz_Allowlist
  imports Isz_World "HOL-Library.Sublist"
begin

text \<open>
  Which clients may connect: \<^verbatim>\<open>src/isz_allowlist.c\<close>. What the file system and \<^verbatim>\<open>/proc\<close> hold is a parameter: \<open>stat\<close> gives
  device and inode of a path, and the record \<open>proc_info\<close> what a process shows of itself.

  A C string is the list of characters before its terminator; a pointer into a character buffer is the
  rest of the buffer from there, terminator included. The result \<open>None\<close> is a read past the buffer.
\<close>

section \<open>What the process shows of itself\<close>

datatype read_result = ReadBytes "char list" | ReadIntr | ReadFail

record proc_info =
  pi_exe :: "(nat \<times> nat) option"                \<comment> \<open>stat of \<^verbatim>\<open>/proc/<pid>/exe\<close>\<close>
  pi_cgroup :: "read_result list option"        \<comment> \<open>open of \<^verbatim>\<open>/proc/<pid>/cgroup\<close>, then the results of read\<close>

abbreviation (input) "NUL \<equiv> CHR 0x00"
abbreviation (input) "NL \<equiv> CHR 0x0A"
abbreviation (input) "COLON \<equiv> CHR 0x3A"
abbreviation (input) "SLASH \<equiv> CHR 0x2F"

section \<open>Adding entries\<close>

definition isz_allowlist_add_binary :: "(char list \<Rightarrow> (nat \<times> nat) option) \<Rightarrow> world \<Rightarrow> char list option \<Rightarrow> world \<times> isz_error" where
  "isz_allowlist_add_binary stat w path = (case path of
       None \<Rightarrow> (w, ISZ_ERR_INVALID_ARG)
     | Some p \<Rightarrow>
         (case stat p of
            None \<Rightarrow> (w, ISZ_ERR_INVALID_ARG)
          | Some st \<Rightarrow>
              (case k_alloc w of
                 (w, False) \<Rightarrow> (w, ISZ_ERR_NO_MEMORY)
               | (w, True) \<Rightarrow> (w\<lparr>w_allow_binaries := w_allow_binaries w @ [st]\<rparr>, ISZ_OK))))"

definition isz_allowlist_add_cgroup :: "world \<Rightarrow> char list option \<Rightarrow> world \<times> isz_error" where
  "isz_allowlist_add_cgroup w cgroup_path = (case cgroup_path of
       None \<Rightarrow> (w, ISZ_ERR_INVALID_ARG)
     | Some p \<Rightarrow>
         (case k_alloc w of
            (w, False) \<Rightarrow> (w, ISZ_ERR_NO_MEMORY)
          | (w, True) \<Rightarrow>
              (case k_alloc w of
                 (w, False) \<Rightarrow> (w, ISZ_ERR_NO_MEMORY)
               | (w, True) \<Rightarrow> (w\<lparr>w_allow_cgroups := w_allow_cgroups w @ [p]\<rparr>, ISZ_OK))))"

section \<open>Checking a peer\<close>

definition peer_pid_matches_binary :: "world \<Rightarrow> proc_info \<Rightarrow> bool" where
  "peer_pid_matches_binary w pr =
     (if w_allow_binaries w = [] then False
      else case pi_exe pr of
             None \<Rightarrow> False
           | Some st \<Rightarrow> list_ex (\<lambda>b. fst b = fst st \<and> snd b = snd st) (w_allow_binaries w))"

text \<open>The read loop of \<^verbatim>\<open>read_peer_cgroup\<close>: \<open>cap\<close> is \<^verbatim>\<open>buf_len - 1\<close>, and \<open>acc\<close> the bytes read so far.\<close>

fun read_cgroup_loop :: "nat \<Rightarrow> read_result list \<Rightarrow> char list \<Rightarrow> char list option" where
  "read_cgroup_loop cap [] acc = Some acc"
| "read_cgroup_loop cap (r # rs) acc =
     (if length acc < cap
      then (case r of
              ReadIntr \<Rightarrow> read_cgroup_loop cap rs acc
            | ReadFail \<Rightarrow> None
            | ReadBytes bs \<Rightarrow>
                if bs = [] then Some acc
                else read_cgroup_loop cap rs (acc @ take (cap - length acc) bs))
      else Some acc)"

definition read_peer_cgroup :: "proc_info \<Rightarrow> nat \<Rightarrow> char list option" where
  "read_peer_cgroup pr buf_len = (case pi_cgroup pr of
       None \<Rightarrow> None
     | Some rs \<Rightarrow> map_option (\<lambda>bs. bs @ [NUL]) (read_cgroup_loop (buf_len - 1) rs []))"

text \<open>\<^verbatim>\<open>strchr\<close> on a C string: the rest of the string from the first occurrence.\<close>

definition strchr :: "char list \<Rightarrow> char \<Rightarrow> char list option" where
  "strchr s c = (case dropWhile (\<lambda>x. x \<noteq> c) s of [] \<Rightarrow> None | p \<Rightarrow> Some p)"

definition cgroup_line_path :: "char list \<Rightarrow> char list option" where
  "cgroup_line_path line = do {
     p \<leftarrow> strchr line COLON;
     p \<leftarrow> strchr (tl p) COLON;
     Some (takeWhile (\<lambda>c. c \<noteq> NL) (tl p))
   }"

text \<open>The test of one line: an allowed path is a prefix of it that ends at a path boundary.\<close>

definition cgroup_line_matches :: "char list \<Rightarrow> char list \<Rightarrow> bool" where
  "cgroup_line_matches path line = (case cgroup_line_path line of
       None \<Rightarrow> False
     | Some p \<Rightarrow>
         length p \<ge> length path \<and> take (length path) p = path
         \<and> (length p = length path \<or> p ! length path = SLASH))"

text \<open>The loop over the lines, on the buffer from the current line on: the newline behind the line is
  overwritten in place, so the buffer comes back changed.\<close>

function scan_lines :: "char list \<Rightarrow> char list \<Rightarrow> (char list \<times> bool) option" where
  "scan_lines path buf =
     (if NUL \<notin> set buf then None
      else if hd buf = NUL then Some (buf, False)
      else
        let line = takeWhile (\<lambda>c. c \<noteq> NUL \<and> c \<noteq> NL) buf;
            rest = drop (length line) buf
        in if hd rest = NL
           then if cgroup_line_matches path line then Some (line @ NUL # tl rest, True)
                else do { (r, b) \<leftarrow> scan_lines path (tl rest); Some (line @ NUL # r, b) }
           else Some (buf, cgroup_line_matches path line))"
  by pat_completeness auto
termination
proof (relation "measure (length \<circ> snd)")
  show "((path, tl rest), (path, buf)) \<in> measure (length \<circ> snd)"
    if "\<not> NUL \<notin> set buf" "rest = drop (length line) buf" for path buf line rest :: "char list"
    using that by (cases buf) auto
qed simp

fun match_cgroups :: "char list list \<Rightarrow> char list \<Rightarrow> bool option" where
  "match_cgroups [] buf = Some False"
| "match_cgroups (path # paths) buf = do {
     (buf, found) \<leftarrow> scan_lines path buf;
     (if found then Some True else match_cgroups paths buf)
   }"

definition peer_pid_matches_cgroup :: "world \<Rightarrow> proc_info \<Rightarrow> bool option" where
  "peer_pid_matches_cgroup w pr =
     (if w_allow_cgroups w = [] then Some False
      else case read_peer_cgroup pr 4096 of
             None \<Rightarrow> Some False
           | Some buf \<Rightarrow> match_cgroups (w_allow_cgroups w) buf)"

definition isz_allowlist_check :: "(int \<Rightarrow> proc_info) \<Rightarrow> world \<Rightarrow> int \<Rightarrow> bool option" where
  "isz_allowlist_check proc w peer_pid =
     (if peer_pid \<le> 0 then Some False
      else if w_allow_binaries w = [] \<and> w_allow_cgroups w = [] then Some False
      else if peer_pid_matches_binary w (proc peer_pid) then Some True
      else do {
        m \<leftarrow> peer_pid_matches_cgroup w (proc peer_pid);
        (if m then Some True else Some False)
      })"

declare scan_lines.simps [simp del]

section \<open>What the scan finds\<close>

text \<open>The lines of a buffer, as the scan sees them: separated by newlines, up to the terminator.\<close>

fun c_lines :: "char list \<Rightarrow> char list list" where
  "c_lines [] = []"
| "c_lines (c # s) =
     (if c = NL then [] # c_lines s
      else case c_lines s of [] \<Rightarrow> [[c]] | l # ls \<Rightarrow> (c # l) # ls)"

lemma c_lines_append: "NL \<notin> set l \<Longrightarrow> c_lines (l @ NL # s) = l # c_lines s"
  by (induction l) auto

lemma c_lines_single: "NL \<notin> set l \<Longrightarrow> c_lines l = (if l = [] then [] else [l])"
  by (induction l) auto

lemma no_match_Nil [simp]: "cgroup_line_matches path [] = False"
  by (simp add: cgroup_line_matches_def cgroup_line_path_def strchr_def)

lemma scan_lines_spec:
  assumes "NUL \<notin> set s"
  shows "\<exists>s' j'. scan_lines path (s @ NUL # j) = Some (s' @ NUL # j', list_ex (cgroup_line_matches path) (c_lines s))
    \<and> (list_ex (cgroup_line_matches path) (c_lines s) \<or> s' = takeWhile (\<lambda>c. c \<noteq> NL) s)"
  using assms
proof (induction "length s" arbitrary: s j rule: less_induct)
  case less
  let ?l = "takeWhile (\<lambda>c. c \<noteq> NL) s" and ?r = "dropWhile (\<lambda>c. c \<noteq> NL) s"
  have nl: "NL \<notin> set ?l" by (auto dest: set_takeWhileD)
  have nul: "NUL \<notin> set ?l" "NUL \<notin> set ?r" using less.prems by (auto dest: set_takeWhileD set_dropWhileD)
  have line: "takeWhile (\<lambda>c. c \<noteq> NUL \<and> c \<noteq> NL) (s @ NUL # j) = ?l"
    using less.prems by (induction s) auto
  show ?case
  proof (cases "s = []")
    case True
    then show ?thesis by (simp add: scan_lines.simps [of path "NUL # j"])
  next
    case False
    then have hd: "hd (s @ NUL # j) \<noteq> NUL" using less.prems by (cases s) auto
    show ?thesis
    proof (cases ?r)
      case Nil
      then have s: "NL \<notin> set s" "?l = s" using dropWhile_eq_Nil_conv [of "\<lambda>c. c \<noteq> NL" s] by (auto simp: takeWhile_eq_all_conv)
      have ls: "takeWhile (\<lambda>c. c \<noteq> NUL \<and> c \<noteq> NL) (s @ NUL # j) = s" unfolding line by (rule s(2))
      have "scan_lines path (s @ NUL # j) = Some (s @ NUL # j, cgroup_line_matches path s)"
        using hd by (simp add: scan_lines.simps [of path "s @ NUL # j"] Let_def ls)
      with s(1) False show ?thesis unfolding s(2) by (auto simp: c_lines_single [OF s(1)])
    next
      case (Cons c t)
      have c: "c = NL" using Cons hd_dropWhile [of "\<lambda>c. c \<noteq> NL" s] by (auto simp: dropWhile_eq_Cons_conv)
      have s: "s = ?l @ NL # t" using takeWhile_dropWhile_id [of "\<lambda>c. c \<noteq> NL" s] Cons c by simp
      then have t: "length t < length s" "NUL \<notin> set t" using nul(2) Cons by (metis length_append length_Cons less_add_Suc2 add_Suc_right, simp)
      have rest: "drop (length ?l) (s @ NUL # j) = NL # t @ NUL # j"
        by (subst (2) s) simp
      have lines: "c_lines s = ?l # c_lines t" by (subst s) (rule c_lines_append [OF nl])
      from less.hyps [OF t, of j] obtain s' j' where
        ih: "scan_lines path (t @ NUL # j) = Some (s' @ NUL # j', list_ex (cgroup_line_matches path) (c_lines t))" by blast
      have "scan_lines path (s @ NUL # j) = (if cgroup_line_matches path ?l then Some (?l @ NUL # t @ NUL # j, True)
          else Some (?l @ NUL # s' @ NUL # j', list_ex (cgroup_line_matches path) (c_lines t)))"
        using hd by (simp add: scan_lines.simps [of path "s @ NUL # j"] Let_def line rest ih del: drop_append)
      then show ?thesis unfolding lines by (cases "cgroup_line_matches path ?l") auto
    qed
  qed
qed

lemma match_cgroups_one_line:
  assumes "NUL \<notin> set l" "NL \<notin> set l"
  shows "match_cgroups paths (l @ NUL # j) = Some (\<exists>p \<in> set paths. cgroup_line_matches p l)"
proof (induction paths arbitrary: j)
  case (Cons p ps)
  have l: "list_ex (cgroup_line_matches p) (c_lines l) = cgroup_line_matches p l" using assms(2) by (simp add: c_lines_single)
  have tw: "takeWhile (\<lambda>c. c \<noteq> NL) l = l" using assms(2) by (auto simp: takeWhile_eq_all_conv)
  from scan_lines_spec [OF assms(1), of p j] Cons.IH show ?case unfolding l tw by auto
qed simp

lemma match_cgroups_spec:
  assumes "NUL \<notin> set s"
  shows "match_cgroups (p # ps) (s @ NUL # j) = Some ((\<exists>l \<in> set (c_lines s). cgroup_line_matches p l)
    \<or> (\<exists>q \<in> set ps. cgroup_line_matches q (takeWhile (\<lambda>c. c \<noteq> NL) s)))"
proof -
  let ?l = "takeWhile (\<lambda>c. c \<noteq> NL) s"
  have "NUL \<notin> set ?l" "NL \<notin> set ?l" using assms by (auto dest: set_takeWhileD)
  from match_cgroups_one_line [OF this] scan_lines_spec [OF assms, of p j] show ?thesis
    by (auto simp: list_ex_iff)
qed

lemma peer_pid_matches_cgroup_spec:
  "peer_pid_matches_cgroup w pr = Some (\<exists>buf p ps. read_peer_cgroup pr 4096 = Some buf \<and> w_allow_cgroups w = p # ps
      \<and> ((\<exists>l \<in> set (c_lines (takeWhile (\<lambda>c. c \<noteq> NUL) buf)). cgroup_line_matches p l)
         \<or> (\<exists>q \<in> set ps. cgroup_line_matches q (takeWhile (\<lambda>c. c \<noteq> NUL \<and> c \<noteq> NL) buf))))"
proof -
  have buf: "\<exists>j. buf = takeWhile (\<lambda>c. c \<noteq> NUL) buf @ NUL # j" if "read_peer_cgroup pr 4096 = Some buf" for buf
  proof -
    from that have "NUL \<in> set buf" by (auto simp: read_peer_cgroup_def split: option.splits)
    then have "dropWhile (\<lambda>c. c \<noteq> NUL) buf \<noteq> []" by auto
    then show ?thesis using takeWhile_dropWhile_id [of "\<lambda>c. c \<noteq> NUL" buf] hd_dropWhile [of "\<lambda>c. c \<noteq> NUL" buf]
      by (metis list.collapse)
  qed
  have two: "takeWhile (\<lambda>c. c \<noteq> NL) (takeWhile (\<lambda>c. c \<noteq> NUL) b) = takeWhile (\<lambda>c. c \<noteq> NUL \<and> c \<noteq> NL) b" for b
    by (induction b) auto
  show ?thesis
  proof (cases "w_allow_cgroups w = [] \<or> read_peer_cgroup pr 4096 = None")
    case True
    then show ?thesis by (auto simp: peer_pid_matches_cgroup_def)
  next
    case False
    then obtain p ps b where a: "w_allow_cgroups w = p # ps" "read_peer_cgroup pr 4096 = Some b" by (cases "w_allow_cgroups w") auto
    from buf [OF a(2)] obtain j where j: "b = takeWhile (\<lambda>c. c \<noteq> NUL) b @ NUL # j" by blast
    have "NUL \<notin> set (takeWhile (\<lambda>c. c \<noteq> NUL) b)" by (auto dest: set_takeWhileD)
    from match_cgroups_spec [OF this, of p ps j, folded j, unfolded two] a show ?thesis
      by (auto simp: peer_pid_matches_cgroup_def)
  qed
qed

lemma isz_allowlist_check_total: "\<exists>b. isz_allowlist_check proc w pid = Some b"
  unfolding isz_allowlist_check_def peer_pid_matches_cgroup_spec by simp blast

lemma isz_allowlist_check_cong:
  assumes "w_allow_binaries w' = w_allow_binaries w" "w_allow_cgroups w' = w_allow_cgroups w"
  shows "isz_allowlist_check proc w' pid = isz_allowlist_check proc w pid"
  unfolding isz_allowlist_check_def peer_pid_matches_binary_def peer_pid_matches_cgroup_def assms by (rule refl)

section \<open>What the check answers\<close>

text \<open>The exact answer, branch by branch: the first added cgroup is compared with every line, a later one with the first line only.\<close>

lemma allowlist_check_exact:
  "isz_allowlist_check proc w pid = Some (0 < pid \<and>
     ((\<exists>st. pi_exe (proc pid) = Some st \<and> st \<in> set (w_allow_binaries w))
      \<or> (\<exists>buf p ps. read_peer_cgroup (proc pid) 4096 = Some buf \<and> w_allow_cgroups w = p # ps
          \<and> ((\<exists>l \<in> set (c_lines (takeWhile (\<lambda>c. c \<noteq> NUL) buf)). cgroup_line_matches p l)
             \<or> (\<exists>q \<in> set ps. cgroup_line_matches q (takeWhile (\<lambda>c. c \<noteq> NUL \<and> c \<noteq> NL) buf))))))"
proof -
  have bin: "peer_pid_matches_binary w pr \<longleftrightarrow> (\<exists>st. pi_exe pr = Some st \<and> st \<in> set (w_allow_binaries w))" for pr
    by (auto simp: peer_pid_matches_binary_def list_ex_iff simp flip: prod_eq_iff split: option.splits)
  show ?thesis
    by (cases "0 < pid") (auto simp: isz_allowlist_check_def bin peer_pid_matches_cgroup_spec)
qed

text \<open>The scan for the first path overwrites the newlines, so a later path is compared with the first line only: with the paths in this
  order the peer is refused, in the other order it is accepted.\<close>

lemma second_cgroup_sees_first_line:
  "match_cgroups [''/x'', ''/b''] (''1:a:/a'' @ NL # ''0::/b'' @ NL # [NUL]) = Some False"
  "match_cgroups [''/b'', ''/x''] (''1:a:/a'' @ NL # ''0::/b'' @ NL # [NUL]) = Some True"
  by (simp_all add: scan_lines.simps Let_def cgroup_line_matches_def cgroup_line_path_def strchr_def)

text \<open>An added \<^verbatim>\<open>/\<close> matches the root cgroup and no other.\<close>

lemma root_covers_only_itself:
  "cgroup_line_matches [SLASH] (''0::'' @ [SLASH])" "\<not> cgroup_line_matches [SLASH] (''0::'' @ SLASH # ''user.slice'')"
  by (simp_all add: cgroup_line_matches_def cgroup_line_path_def strchr_def)

section \<open>The contract of the lists\<close>

text \<open>What the lists are meant to admit, stated without the scan: a cgroup covers itself and what lies below it, the root
  everything; a peer is listed when its executable is, or when a listed cgroup covers the path of some line of its cgroup file.\<close>

definition cgroup_covers :: "char list \<Rightarrow> char list \<Rightarrow> bool" where
  "cgroup_covers q p \<longleftrightarrow> p = q \<or> prefix (q @ [SLASH]) p \<or> q = [SLASH]"

definition peer_lines :: "proc_info \<Rightarrow> char list list" where
  "peer_lines pr = (case read_peer_cgroup pr 4096 of None \<Rightarrow> [] | Some buf \<Rightarrow> c_lines (takeWhile (\<lambda>c. c \<noteq> NUL) buf))"

definition line_covered :: "char list \<Rightarrow> char list \<Rightarrow> bool" where
  "line_covered q l \<longleftrightarrow> (case cgroup_line_path l of None \<Rightarrow> False | Some p \<Rightarrow> cgroup_covers q p)"

definition exe_listed :: "world \<Rightarrow> proc_info \<Rightarrow> bool" where
  "exe_listed w pr \<longleftrightarrow> (case pi_exe pr of None \<Rightarrow> False | Some st \<Rightarrow> st \<in> set (w_allow_binaries w))"

definition cgroup_listed :: "world \<Rightarrow> proc_info \<Rightarrow> bool" where
  "cgroup_listed w pr \<longleftrightarrow> (\<exists>q \<in> set (w_allow_cgroups w). \<exists>l \<in> set (peer_lines pr). line_covered q l)"

lemma path_boundary:
  "length p \<ge> length q \<and> take (length q) p = q \<and> (length p = length q \<or> p ! length q = SLASH) \<longleftrightarrow> p = q \<or> prefix (q @ [SLASH]) p"
  (is "?l \<longleftrightarrow> ?r")
proof
  assume l: ?l
  then have p: "p = q @ drop (length q) p" by (metis append_take_drop_id)
  show ?r
  proof (cases "length p = length q")
    case True
    with p show ?thesis by simp
  next
    case False
    with l have "drop (length q) p = SLASH # drop (Suc (length q)) p" by (metis Cons_nth_drop_Suc le_neq_implies_less)
    with p have "p = (q @ [SLASH]) @ drop (Suc (length q)) p" by simp
    then show ?thesis unfolding prefix_def by blast
  qed
qed (auto simp: prefix_def nth_append)

lemma cgroup_line_matches_sound: "cgroup_line_matches q l \<Longrightarrow> line_covered q l"
  by (auto simp: cgroup_line_matches_def line_covered_def cgroup_covers_def path_boundary split: option.splits)

lemma cgroup_line_matches_complete: "line_covered q l \<Longrightarrow> q \<noteq> [SLASH] \<Longrightarrow> cgroup_line_matches q l"
  by (auto simp: cgroup_line_matches_def line_covered_def cgroup_covers_def path_boundary split: option.splits)

lemma c_lines_first: "s \<noteq> [] \<Longrightarrow> c_lines s \<noteq> [] \<and> hd (c_lines s) = takeWhile (\<lambda>c. c \<noteq> NL) s"
proof (induction s)
  case (Cons c s)
  then show ?case by (cases s) (auto split: list.splits)
qed simp

lemma first_line_of_buf:
  "takeWhile (\<lambda>c. c \<noteq> NUL \<and> c \<noteq> NL) buf = takeWhile (\<lambda>c. c \<noteq> NL) (takeWhile (\<lambda>c. c \<noteq> NUL) buf)"
  by (induction buf) auto

lemma first_line_listed:
  assumes "cgroup_line_matches q (takeWhile (\<lambda>c. c \<noteq> NUL \<and> c \<noteq> NL) buf)"
  shows "takeWhile (\<lambda>c. c \<noteq> NUL \<and> c \<noteq> NL) buf \<in> set (c_lines (takeWhile (\<lambda>c. c \<noteq> NUL) buf))"
proof -
  let ?s = "takeWhile (\<lambda>c. c \<noteq> NUL) buf"
  have "?s \<noteq> []" using assms unfolding first_line_of_buf by (cases "?s = []") simp_all
  from c_lines_first [OF this] show ?thesis unfolding first_line_of_buf by (metis hd_in_set)
qed

lemma matched_is_listed:
  assumes "peer_pid_matches_cgroup w pr = Some True"
  shows "cgroup_listed w pr"
proof -
  from assms obtain buf p ps where a: "read_peer_cgroup pr 4096 = Some buf" "w_allow_cgroups w = p # ps"
    and m: "(\<exists>l \<in> set (c_lines (takeWhile (\<lambda>c. c \<noteq> NUL) buf)). cgroup_line_matches p l)
         \<or> (\<exists>q \<in> set ps. cgroup_line_matches q (takeWhile (\<lambda>c. c \<noteq> NUL \<and> c \<noteq> NL) buf))"
    unfolding peer_pid_matches_cgroup_spec by blast
  from m obtain q l where "q \<in> set (p # ps)" "l \<in> set (c_lines (takeWhile (\<lambda>c. c \<noteq> NUL) buf))" "cgroup_line_matches q l"
  proof (elim disjE bexE)
    fix l assume "l \<in> set (c_lines (takeWhile (\<lambda>c. c \<noteq> NUL) buf))" "cgroup_line_matches p l"
    then show ?thesis by (intro that [of p l]) simp_all
  next
    fix q assume q: "q \<in> set ps" "cgroup_line_matches q (takeWhile (\<lambda>c. c \<noteq> NUL \<and> c \<noteq> NL) buf)"
    from q(1) first_line_listed [OF q(2)] q(2) show ?thesis by (intro that) simp_all
  qed
  with a show ?thesis by (auto simp: cgroup_listed_def peer_lines_def dest: cgroup_line_matches_sound)
qed

lemma covered_is_matched:
  assumes q: "q \<in> set (w_allow_cgroups w)" "q \<noteq> [SLASH]" and l: "l \<in> set (peer_lines pr)" "line_covered q l"
    and first: "q = hd (w_allow_cgroups w) \<or> l = hd (peer_lines pr)"
  shows "peer_pid_matches_cgroup w pr = Some True"
proof -
  from q(1) obtain p ps where ps: "w_allow_cgroups w = p # ps" by (cases "w_allow_cgroups w") auto
  from l(1) obtain buf where buf: "read_peer_cgroup pr 4096 = Some buf" by (cases "read_peer_cgroup pr 4096") (auto simp: peer_lines_def)
  let ?s = "takeWhile (\<lambda>c. c \<noteq> NUL) buf"
  have lines: "peer_lines pr = c_lines ?s" using buf by (simp add: peer_lines_def)
  have ne: "?s \<noteq> []" using l(1) unfolding lines by (cases "?s = []") simp_all
  have m: "cgroup_line_matches q l" using l(2) q(2) by (rule cgroup_line_matches_complete)
  have "(\<exists>l \<in> set (c_lines ?s). cgroup_line_matches p l)
     \<or> (\<exists>q \<in> set ps. cgroup_line_matches q (takeWhile (\<lambda>c. c \<noteq> NUL \<and> c \<noteq> NL) buf))"
  proof (cases "q = p")
    case True
    with m l(1) show ?thesis unfolding lines by blast
  next
    case False
    with first q(1) ps have "q \<in> set ps" "l = hd (c_lines ?s)" unfolding lines by auto
    with m c_lines_first [OF ne] show ?thesis unfolding first_line_of_buf by auto
  qed
  with buf ps show ?thesis unfolding peer_pid_matches_cgroup_spec by blast
qed

text \<open>The check in terms of the two comparisons.\<close>

lemma check_by_lists:
  "isz_allowlist_check proc w pid
    = Some (0 < pid \<and> (exe_listed w (proc pid) \<or> peer_pid_matches_cgroup w (proc pid) = Some True))"
  unfolding allowlist_check_exact by (auto simp: exe_listed_def peer_pid_matches_cgroup_spec split: option.splits)

section \<open>Properties\<close>

text \<open>C22: who may connect. The check always returns; it admits nobody whose pid is not positive and nobody who is not listed, that is whose executable is not an
  added binary and whose cgroup file has no line at or below an added cgroup. A peer with a listed executable is admitted. A peer
  with a listed cgroup is admitted when the cgroup is the first added one or the line is the first of the file, and the cgroup is not
  the root; so it is whenever one cgroup was added, or the file has one line as on the unified hierarchy. With both lists empty nobody is
  admitted. The limits are the code's and not the comments': the scan for the first cgroup overwrites the newlines, so a later one
  sees only the first line, and an added \<^verbatim>\<open>/\<close> covers no path but itself.\<close>

theorem allowlist_admits_only_listed:
  "\<exists>ok. isz_allowlist_check proc w pid = Some ok
    \<and> (ok \<longrightarrow> 0 < pid \<and> (exe_listed w (proc pid) \<or> cgroup_listed w (proc pid)))
    \<and> (0 < pid \<and> exe_listed w (proc pid) \<longrightarrow> ok)
    \<and> (\<forall>q \<in> set (w_allow_cgroups w). \<forall>l \<in> set (peer_lines (proc pid)).
        0 < pid \<and> line_covered q l \<and> q \<noteq> [SLASH] \<and> (q = hd (w_allow_cgroups w) \<or> l = hd (peer_lines (proc pid))) \<longrightarrow> ok)
    \<and> (0 < pid \<and> cgroup_listed w (proc pid) \<and> [SLASH] \<notin> set (w_allow_cgroups w)
        \<and> (length (w_allow_cgroups w) = 1 \<or> length (peer_lines (proc pid)) = 1) \<longrightarrow> ok)
    \<and> (w_allow_binaries w = [] \<and> w_allow_cgroups w = [] \<longrightarrow> \<not> ok)"
proof -
  let ?pr = "proc pid" and ?m = "peer_pid_matches_cgroup w (proc pid) = Some True" and ?e = "exe_listed w (proc pid)"
  have only: ?m if "cgroup_listed w ?pr" "[SLASH] \<notin> set (w_allow_cgroups w)"
      "length (w_allow_cgroups w) = 1 \<or> length (peer_lines ?pr) = 1"
  proof -
    from that(1) obtain q l where ql: "q \<in> set (w_allow_cgroups w)" "l \<in> set (peer_lines ?pr)" "line_covered q l"
      by (auto simp: cgroup_listed_def)
    with that(2) have ns: "q \<noteq> [SLASH]" by auto
    have "q = hd (w_allow_cgroups w) \<or> l = hd (peer_lines ?pr)" using that(3) ql(1,2) by (auto simp: length_Suc_conv)
    with ql ns show ?thesis by (intro covered_is_matched)
  qed
  have empty: "\<not> ?m \<and> \<not> exe_listed w ?pr" if "w_allow_binaries w = [] \<and> w_allow_cgroups w = []"
    using that by (auto simp: exe_listed_def peer_pid_matches_cgroup_def split: option.splits)
  have sound: "cgroup_listed w ?pr" if ?m using that by (rule matched_is_listed)
  have cov: ?m if "q \<in> set (w_allow_cgroups w)" "l \<in> set (peer_lines ?pr)" "line_covered q l" "q \<noteq> [SLASH]"
      "q = hd (w_allow_cgroups w) \<or> l = hd (peer_lines ?pr)" for q l
    using that(1,4,2,3,5) by (rule covered_is_matched)
  have "(?e \<or> ?m) \<longrightarrow> ?e \<or> cgroup_listed w ?pr" using sound by blast
  moreover have "\<forall>q \<in> set (w_allow_cgroups w). \<forall>l \<in> set (peer_lines ?pr). line_covered q l \<and> q \<noteq> [SLASH]
      \<and> (q = hd (w_allow_cgroups w) \<or> l = hd (peer_lines ?pr)) \<longrightarrow> ?m" using cov by blast
  moreover have "cgroup_listed w ?pr \<and> [SLASH] \<notin> set (w_allow_cgroups w)
      \<and> (length (w_allow_cgroups w) = 1 \<or> length (peer_lines ?pr) = 1) \<longrightarrow> ?m" using only by blast
  ultimately show ?thesis unfolding check_by_lists using empty
    by (intro exI [of _ "0 < pid \<and> (?e \<or> ?m)"]) fast
qed

text \<open>A process in a subtree of the only added cgroup, and one in a sibling whose name starts alike.\<close>

definition sample_allow :: world where
  "sample_allow = world_init\<lparr>w_allow_binaries := [], w_allow_cgroups := [''/a'']\<rparr>"

definition sample_proc :: "int \<Rightarrow> proc_info" where
  "sample_proc pid = \<lparr>pi_exe = None, pi_cgroup = Some [ReadBytes (if pid = 7 then ''0::/a/b'' else ''0::/ab'')]\<rparr>"

theorem allowlist_admits_only_listed_witness:
  "isz_allowlist_check sample_proc sample_allow 7 = Some True \<and> isz_allowlist_check sample_proc sample_allow 8 = Some False"
proof -
  have l: "peer_lines (sample_proc 7) = [''0::/a/b'']" "peer_lines (sample_proc 8) = [''0::/ab'']"
    by (simp_all add: peer_lines_def read_peer_cgroup_def sample_proc_def)
  have c: "cgroup_listed sample_allow (sample_proc 7)" "\<not> cgroup_listed sample_allow (sample_proc 8)"
    by (simp_all add: cgroup_listed_def l sample_allow_def line_covered_def cgroup_line_path_def strchr_def cgroup_covers_def prefix_def)
  have e: "\<not> exe_listed sample_allow (sample_proc 8)" by (simp add: exe_listed_def sample_proc_def)
  have one: "length (w_allow_cgroups sample_allow) = 1" "[SLASH] \<notin> set (w_allow_cgroups sample_allow)" by (simp_all add: sample_allow_def)
  from allowlist_admits_only_listed [of sample_proc sample_allow 7] c(1) one
  have "isz_allowlist_check sample_proc sample_allow 7 = Some True" by auto
  moreover from allowlist_admits_only_listed [of sample_proc sample_allow 8] c(2) e
  have "isz_allowlist_check sample_proc sample_allow 8 = Some False" by auto
  ultimately show ?thesis ..
qed

end
