(* ===== verification/Isz_Seat.thy ===== *)
theory Isz_Seat
  imports Isz_Surface_Inv
begin

text \<open>
  Seats, \<^verbatim>\<open>src/input/isz_seat_api.c\<close>, in the build without libinput and xkbcommon: the seat list and the
  default seat, keyboard focus and cursor, the device settings, the two selection slots with their
  stale-claim rule, and the text-input and input-method objects.
\<close>

section \<open>Seats\<close>

definition seat_zero :: isz_seat where
  "seat_zero = \<lparr>st_name = [], st_is_default = False, st_keyboard_focus = None, st_cursor_surface = None,
     st_cursor_hotspot_x = 0, st_cursor_hotspot_y = 0, st_cursor_visible = False,
     st_selection_owner = [None, None], st_selection_timestamp = [0, 0], st_text_inputs = [],
     st_input_method = None\<rparr>"

text \<open>The input state is allocated by the first function that needs it.\<close>

definition ensure_input_state :: "world \<Rightarrow> world \<times> bool" where
  "ensure_input_state w =
     (if w_input_state w then (w, True)
      else case k_alloc w of
             (w, False) \<Rightarrow> (w, False)
           | (w, True) \<Rightarrow> (w\<lparr>w_input_state := True\<rparr>, True))"

definition isz_seat_create :: "world \<Rightarrow> char list option \<Rightarrow> world \<times> nat option" where
  "isz_seat_create w name = (case name of
       None \<Rightarrow> (w, None)
     | Some nm \<Rightarrow>
         (case ensure_input_state w of
            (w, False) \<Rightarrow> (w, None)
          | (w, True) \<Rightarrow>
              (case k_alloc w of
                 (w, False) \<Rightarrow> (w, None)
               | (w, True) \<Rightarrow>
                   let r = w_next_seat w;
                       seat = seat_zero\<lparr>st_cursor_visible := True, st_name := take 63 nm\<rparr>
                   in (w\<lparr>w_seats := (w_seats w)(r \<mapsto> seat), w_next_seat := r + 1,
                         w_seat_list := r # w_seat_list w\<rparr>, Some r))))"

text \<open>Freeing the text inputs of a seat; reading a freed one is a fault.\<close>

fun free_text_inputs :: "world \<Rightarrow> nat list \<Rightarrow> world option" where
  "free_text_inputs w [] = Some w"
| "free_text_inputs w (t # ts) = do {
     ti \<leftarrow> w_text_inputs w t;
     free_text_inputs (w\<lparr>w_text_inputs := (w_text_inputs w)(t := None)\<rparr>) ts
   }"

definition isz_seat_destroy :: "world \<Rightarrow> nat option \<Rightarrow> world option" where
  "isz_seat_destroy w seat = (case seat of
       None \<Rightarrow> Some w
     | Some r \<Rightarrow> do {
         s \<leftarrow> w_seats w r;
         w \<leftarrow> free_text_inputs w (st_text_inputs s);
         let w = (case st_input_method s of
                    None \<Rightarrow> w
                  | Some im \<Rightarrow> w\<lparr>w_input_methods := (w_input_methods w)(im := None)\<rparr>);
         let w = (if w_input_state w
                  then w\<lparr>w_seat_list := remove1 r (w_seat_list w),
                         w_default_seat := (if w_default_seat w = Some r then None else w_default_seat w)\<rparr>
                  else w);
         Some (w\<lparr>w_seats := (w_seats w)(r := None)\<rparr>)
       })"

definition isz_seat_default :: "world \<Rightarrow> (world \<times> nat option) option" where
  "isz_seat_default w =
     (case ensure_input_state w of
        (w, False) \<Rightarrow> Some (w, None)
      | (w, True) \<Rightarrow>
          (case w_default_seat w of
             Some r \<Rightarrow> Some (w, Some r)
           | None \<Rightarrow>
               (case isz_seat_create w (Some ''seat0'') of
                  (w, None) \<Rightarrow> Some (w, None)
                | (w, Some r) \<Rightarrow> do {
                    s \<leftarrow> w_seats w r;
                    Some ((upd_seat w r (s\<lparr>st_is_default := True\<rparr>))\<lparr>w_default_seat := Some r\<rparr>, Some r)
                  })))"

definition with_seat ::
    "world \<Rightarrow> nat option \<Rightarrow> (nat \<Rightarrow> isz_seat \<Rightarrow> (world \<times> isz_error) option) \<Rightarrow> (world \<times> isz_error) option" where
  "with_seat w seat f = (case seat of
       None \<Rightarrow> Some (w, ISZ_ERR_INVALID_ARG)
     | Some r \<Rightarrow> do { s \<leftarrow> w_seats w r; f r s })"

definition isz_seat_set_keyboard_focus :: "world \<Rightarrow> nat option \<Rightarrow> nat option \<Rightarrow> (world \<times> isz_error) option" where
  "isz_seat_set_keyboard_focus w seat surf = with_seat w seat (\<lambda>r s.
     Some (isz_server_emit_event (upd_seat w r (s\<lparr>st_keyboard_focus := surf\<rparr>))
             (ISZ_EVENT_KEYBOARD_FOCUS_CHANGED r surf), ISZ_OK))"

definition isz_seat_set_cursor_surface :: "world \<Rightarrow> nat option \<Rightarrow> nat option \<Rightarrow> (world \<times> isz_error) option" where
  "isz_seat_set_cursor_surface w seat surf = with_seat w seat (\<lambda>r s.
     Some (upd_seat w r (s\<lparr>st_cursor_surface := surf\<rparr>), ISZ_OK))"

definition isz_seat_set_cursor_hotspot :: "world \<Rightarrow> nat option \<Rightarrow> u32 \<Rightarrow> u32 \<Rightarrow> (world \<times> isz_error) option" where
  "isz_seat_set_cursor_hotspot w seat x y = with_seat w seat (\<lambda>r s.
     Some (upd_seat w r (s\<lparr>st_cursor_hotspot_x := x, st_cursor_hotspot_y := y\<rparr>), ISZ_OK))"

definition isz_seat_set_cursor_visible :: "world \<Rightarrow> nat option \<Rightarrow> bool \<Rightarrow> (world \<times> isz_error) option" where
  "isz_seat_set_cursor_visible w seat visible = with_seat w seat (\<lambda>r s.
     Some (upd_seat w r (s\<lparr>st_cursor_visible := visible\<rparr>), ISZ_OK))"

section \<open>Selections\<close>

abbreviation (input) "ISZ_SELECTION_SLOT_COUNT \<equiv> (2 :: int)"

definition isz_seat_set_selection_owner ::
    "world \<Rightarrow> nat option \<Rightarrow> int \<Rightarrow> nat option \<Rightarrow> u64 \<Rightarrow> (world \<times> isz_error) option" where
  "isz_seat_set_selection_owner w seat slot owner timestamp_ns = with_seat w seat (\<lambda>r s.
     if slot < 0 \<or> slot \<ge> ISZ_SELECTION_SLOT_COUNT then Some (w, ISZ_ERR_INVALID_ARG)
     else
       let i = nat slot
       in if owner \<noteq> None
          then if st_selection_owner s ! i \<noteq> None \<and> timestamp_ns < st_selection_timestamp s ! i
               then Some (w, ISZ_ERR_INVALID_ARG)
               else Some (upd_seat w r (s\<lparr>st_selection_owner := (st_selection_owner s)[i := owner],
                                         st_selection_timestamp := (st_selection_timestamp s)[i := timestamp_ns]\<rparr>), ISZ_OK)
          else Some (upd_seat w r (s\<lparr>st_selection_owner := (st_selection_owner s)[i := None],
                                    st_selection_timestamp := (st_selection_timestamp s)[i := 0]\<rparr>), ISZ_OK))"

definition isz_seat_get_selection_owner :: "world \<Rightarrow> nat option \<Rightarrow> int \<Rightarrow> nat option option" where
  "isz_seat_get_selection_owner w seat slot = (case seat of
       None \<Rightarrow> Some None
     | Some r \<Rightarrow>
         if slot < 0 \<or> slot \<ge> ISZ_SELECTION_SLOT_COUNT then Some None
         else do { s \<leftarrow> w_seats w r; Some (st_selection_owner s ! nat slot) })"

section \<open>Devices\<close>

text \<open>The settings cached for a device. Without libinput \<^verbatim>\<open>isz_seat_device_apply_config\<close> does nothing; the
  floats of the calibration matrix are kept as their bit patterns.\<close>

datatype isz_accel_profile = ISZ_ACCEL_NONE | ISZ_ACCEL_FLAT | ISZ_ACCEL_ADAPTIVE

record isz_seat_device =
  sd_tap_enabled :: bool
  sd_tap_drag_enabled :: bool
  sd_natural_scroll :: bool
  sd_accel_profile :: isz_accel_profile
  sd_calibration :: "u32 list"

definition isz_seat_device_set_tap_enabled :: "isz_seat_device option \<Rightarrow> bool \<Rightarrow> isz_seat_device option \<times> isz_error" where
  "isz_seat_device_set_tap_enabled dev enabled = (case dev of
       None \<Rightarrow> (None, ISZ_ERR_INVALID_ARG) | Some d \<Rightarrow> (Some (d\<lparr>sd_tap_enabled := enabled\<rparr>), ISZ_OK))"

definition isz_seat_device_set_tap_drag_enabled :: "isz_seat_device option \<Rightarrow> bool \<Rightarrow> isz_seat_device option \<times> isz_error" where
  "isz_seat_device_set_tap_drag_enabled dev enabled = (case dev of
       None \<Rightarrow> (None, ISZ_ERR_INVALID_ARG) | Some d \<Rightarrow> (Some (d\<lparr>sd_tap_drag_enabled := enabled\<rparr>), ISZ_OK))"

definition isz_seat_device_set_natural_scroll :: "isz_seat_device option \<Rightarrow> bool \<Rightarrow> isz_seat_device option \<times> isz_error" where
  "isz_seat_device_set_natural_scroll dev enabled = (case dev of
       None \<Rightarrow> (None, ISZ_ERR_INVALID_ARG) | Some d \<Rightarrow> (Some (d\<lparr>sd_natural_scroll := enabled\<rparr>), ISZ_OK))"

definition isz_seat_device_set_accel_profile ::
    "isz_seat_device option \<Rightarrow> isz_accel_profile \<Rightarrow> isz_seat_device option \<times> isz_error" where
  "isz_seat_device_set_accel_profile dev profile = (case dev of
       None \<Rightarrow> (None, ISZ_ERR_INVALID_ARG) | Some d \<Rightarrow> (Some (d\<lparr>sd_accel_profile := profile\<rparr>), ISZ_OK))"

text \<open>\<open>None\<close> in the result is the read past a matrix of fewer than nine floats.\<close>

definition isz_seat_device_set_calibration ::
    "isz_seat_device option \<Rightarrow> u32 list option \<Rightarrow> (isz_seat_device option \<times> isz_error) option" where
  "isz_seat_device_set_calibration dev matrix = (case (dev, matrix) of
       (Some d, Some m) \<Rightarrow>
         if length m < 9 then None else Some (Some (d\<lparr>sd_calibration := take 9 m\<rparr>), ISZ_OK)
     | _ \<Rightarrow> Some (dev, ISZ_ERR_INVALID_ARG))"

section \<open>Text input and input methods\<close>

definition isz_seat_create_text_input :: "world \<Rightarrow> nat option \<Rightarrow> (world \<times> nat option) option" where
  "isz_seat_create_text_input w seat = (case seat of
       None \<Rightarrow> Some (w, None)
     | Some r \<Rightarrow>
         (case k_alloc w of
            (w, False) \<Rightarrow> Some (w, None)
          | (w, True) \<Rightarrow> do {
              s \<leftarrow> w_seats w r;
              let t = w_next_text_input w;
              let ti = \<lparr>ti_seat = r, ti_enabled = False, ti_surrounding_text = None, ti_surrounding_cursor = 0,
                        ti_surrounding_anchor = 0, ti_content_hint = 0, ti_content_purpose = 0, ti_cursor_rect_x = 0,
                        ti_cursor_rect_y = 0, ti_cursor_rect_w = 0, ti_cursor_rect_h = 0, ti_owning_conn = None,
                        ti_object_id = 0\<rparr>;
              let w = w\<lparr>w_text_inputs := (w_text_inputs w)(t \<mapsto> ti), w_next_text_input := t + 1\<rparr>;
              Some (upd_seat w r (s\<lparr>st_text_inputs := t # st_text_inputs s\<rparr>), Some t)
            }))"

definition isz_seat_create_input_method :: "world \<Rightarrow> nat option \<Rightarrow> (world \<times> nat option) option" where
  "isz_seat_create_input_method w seat = (case seat of
       None \<Rightarrow> Some (w, None)
     | Some r \<Rightarrow> do {
         s \<leftarrow> w_seats w r;
         let w = (case st_input_method s of
                    None \<Rightarrow> w
                  | Some im \<Rightarrow> upd_seat (w\<lparr>w_input_methods := (w_input_methods w)(im := None)\<rparr>) r (s\<lparr>st_input_method := None\<rparr>));
         (case k_alloc w of
            (w, False) \<Rightarrow> Some (w, None)
          | (w, True) \<Rightarrow>
              let im = w_next_input_method w;
                  w = w\<lparr>w_input_methods := (w_input_methods w)(im \<mapsto> r), w_next_input_method := im + 1\<rparr>
              in Some (upd_seat w r (s\<lparr>st_input_method := Some im\<rparr>), Some im))
       })"

definition upd_text_input :: "world \<Rightarrow> nat \<Rightarrow> isz_text_input \<Rightarrow> world" where
  "upd_text_input w t ti = w\<lparr>w_text_inputs := (w_text_inputs w)(t \<mapsto> ti)\<rparr>"

definition with_text_input ::
    "world \<Rightarrow> nat option \<Rightarrow> (nat \<Rightarrow> isz_text_input \<Rightarrow> (world \<times> isz_error) option) \<Rightarrow> (world \<times> isz_error) option" where
  "with_text_input w ti f = (case ti of
       None \<Rightarrow> Some (w, ISZ_ERR_INVALID_ARG)
     | Some t \<Rightarrow> do { x \<leftarrow> w_text_inputs w t; f t x })"

definition isz_text_input_set_surrounding_text ::
    "world \<Rightarrow> nat option \<Rightarrow> u8 list option \<Rightarrow> u32 \<Rightarrow> u32 \<Rightarrow> (world \<times> isz_error) option" where
  "isz_text_input_set_surrounding_text w ti txt cursor anchor = with_text_input w ti (\<lambda>t x.
     let (w, ok) = (if txt \<noteq> None then k_alloc w else (w, True))
     in if \<not> ok then Some (w, ISZ_ERR_NO_MEMORY)
        else Some (upd_text_input w t (x\<lparr>ti_surrounding_text := txt, ti_surrounding_cursor := cursor,
                                         ti_surrounding_anchor := anchor\<rparr>), ISZ_OK))"

definition isz_text_input_set_content_type :: "world \<Rightarrow> nat option \<Rightarrow> u32 \<Rightarrow> u32 \<Rightarrow> (world \<times> isz_error) option" where
  "isz_text_input_set_content_type w ti hint purpose = with_text_input w ti (\<lambda>t x.
     Some (upd_text_input w t (x\<lparr>ti_content_hint := hint, ti_content_purpose := purpose\<rparr>), ISZ_OK))"

definition isz_text_input_set_cursor_rectangle ::
    "world \<Rightarrow> nat option \<Rightarrow> int \<Rightarrow> int \<Rightarrow> int \<Rightarrow> int \<Rightarrow> (world \<times> isz_error) option" where
  "isz_text_input_set_cursor_rectangle w ti x y wd h = with_text_input w ti (\<lambda>t i.
     Some (upd_text_input w t (i\<lparr>ti_cursor_rect_x := x, ti_cursor_rect_y := y, ti_cursor_rect_w := wd,
                                 ti_cursor_rect_h := h\<rparr>), ISZ_OK))"

definition isz_text_input_enable :: "world \<Rightarrow> nat option \<Rightarrow> (world \<times> isz_error) option" where
  "isz_text_input_enable w ti = with_text_input w ti (\<lambda>t x. Some (upd_text_input w t (x\<lparr>ti_enabled := True\<rparr>), ISZ_OK))"

definition isz_text_input_disable :: "world \<Rightarrow> nat option \<Rightarrow> (world \<times> isz_error) option" where
  "isz_text_input_disable w ti = with_text_input w ti (\<lambda>t x. Some (upd_text_input w t (x\<lparr>ti_enabled := False\<rparr>), ISZ_OK))"

definition isz_text_input_commit_string :: "world \<Rightarrow> nat option \<Rightarrow> u8 list option \<Rightarrow> (world \<times> isz_error) option" where
  "isz_text_input_commit_string w ti txt = with_text_input w ti (\<lambda>t x. do {
     w \<leftarrow> (if ti_owning_conn x \<noteq> None \<and> ti_object_id x \<noteq> 0
          then isz_send_text_input_commit w (ti_owning_conn x) (ti_object_id x) txt else Some w);
     Some (w, ISZ_OK) })"

definition isz_text_input_preedit_string ::
    "world \<Rightarrow> nat option \<Rightarrow> u8 list option \<Rightarrow> int \<Rightarrow> int \<Rightarrow> (world \<times> isz_error) option" where
  "isz_text_input_preedit_string w ti txt cursor_begin cursor_end = with_text_input w ti (\<lambda>t x. do {
     w \<leftarrow> (if ti_owning_conn x \<noteq> None \<and> ti_object_id x \<noteq> 0
          then isz_send_text_input_preedit w (ti_owning_conn x) (ti_object_id x) txt cursor_begin cursor_end else Some w);
     Some (w, ISZ_OK) })"

definition isz_text_input_destroy :: "world \<Rightarrow> nat option \<Rightarrow> world option" where
  "isz_text_input_destroy w ti = (case ti of
       None \<Rightarrow> Some w
     | Some t \<Rightarrow> do {
         x \<leftarrow> w_text_inputs w t;
         s \<leftarrow> w_seats w (ti_seat x);
         let w = upd_seat w (ti_seat x) (s\<lparr>st_text_inputs := remove1 t (st_text_inputs s)\<rparr>);
         Some (w\<lparr>w_text_inputs := (w_text_inputs w)(t := None)\<rparr>)
       })"

definition isz_input_method_destroy :: "world \<Rightarrow> nat option \<Rightarrow> world option" where
  "isz_input_method_destroy w im = (case im of
       None \<Rightarrow> Some w
     | Some i \<Rightarrow> do {
         r \<leftarrow> w_input_methods w i;
         s \<leftarrow> w_seats w r;
         let w = (if st_input_method s = Some i then upd_seat w r (s\<lparr>st_input_method := None\<rparr>) else w);
         Some (w\<lparr>w_input_methods := (w_input_methods w)(i := None)\<rparr>)
       })"

section \<open>Invariant\<close>

definition seat_ok :: "world \<Rightarrow> nat \<Rightarrow> isz_seat \<Rightarrow> bool" where
  "seat_ok w r s \<longleftrightarrow> length (st_selection_owner s) = 2 \<and> length (st_selection_timestamp s) = 2
     \<and> distinct (st_text_inputs s) \<and> length (st_name s) < 64
     \<and> (\<forall>t. t \<in> set (st_text_inputs s) \<longleftrightarrow> (\<exists>ti. w_text_inputs w t = Some ti \<and> ti_seat ti = r))
     \<and> (\<forall>i. st_input_method s = Some i \<longleftrightarrow> w_input_methods w i = Some r)"

text \<open>The seat list names the allocated seats; a seat's lists name exactly its text inputs and its
  input method, and each of these belongs to an allocated seat.\<close>

definition seats_ok :: "world \<Rightarrow> bool" where
  "seats_ok w \<longleftrightarrow> distinct (w_seat_list w) \<and> set (w_seat_list w) = dom (w_seats w)
     \<and> (\<forall>r s. w_seats w r = Some s \<longrightarrow> r < w_next_seat w \<and> seat_ok w r s)
     \<and> (\<forall>d. w_default_seat w = Some d \<longrightarrow> w_seats w d \<noteq> None)
     \<and> (w_seat_list w \<noteq> [] \<longrightarrow> w_input_state w)
     \<and> (\<forall>t ti. w_text_inputs w t = Some ti \<longrightarrow>
          t < w_next_text_input w \<and> w_seats w (ti_seat ti) \<noteq> None \<and> ti_owning_conn ti = None)
     \<and> (\<forall>i r. w_input_methods w i = Some r \<longrightarrow> i < w_next_input_method w \<and> w_seats w r \<noteq> None)"

text \<open>What the operations of this component leave alone: everything but the seat objects, and events
  that are not about outputs.\<close>

definition seat_frame :: "world \<Rightarrow> world \<Rightarrow> bool" where
  "seat_frame w w' \<longleftrightarrow>
     kern.more (w'\<lparr>w_input_state := w_input_state w, w_seats := w_seats w, w_seat_list := w_seat_list w,
                   w_next_seat := w_next_seat w, w_default_seat := w_default_seat w, w_events := w_events w,
                   w_text_inputs := w_text_inputs w, w_next_text_input := w_next_text_input w,
                   w_input_methods := w_input_methods w, w_next_input_method := w_next_input_method w\<rparr>) = kern.more w
     \<and> (\<exists>evs. w_events w' = w_events w @ evs \<and> (\<forall>e \<in> set evs. \<exists>r f. e = ISZ_EVENT_KEYBOARD_FOCUS_CHANGED r f))"

lemma seat_frame_refl [simp]: "seat_frame w w"
  by (cases w) (simp add: seat_frame_def)

lemma seat_frame_fields:
  assumes "seat_frame w w'"
  shows "bs_bufs w' = bs_bufs w" "bs_next_buf w' = bs_next_buf w" "bs_pending w' = bs_pending w"
    "w_state w' = w_state w" "w_backend w' = w_backend w" "w_outputs w' = w_outputs w"
    "w_output_list w' = w_output_list w" "w_next_output w' = w_next_output w"
    "w_surfaces w' = w_surfaces w" "w_surface_list w' = w_surface_list w"
    "w_next_surface w' = w_next_surface w" "w_children w' = w_children w" "w_conns w' = w_conns w"
    "w_resv w' = w_resv w" "w_captures w' = w_captures w" "w_consents w' = w_consents w"
    "w_clipboard w' = w_clipboard w" "w_selection_fd w' = w_selection_fd w"
    "w_clients w' = w_clients w" "w_client_list w' = w_client_list w"
    "w_next_client w' = w_next_client w" "w_next_conn w' = w_next_conn w"
  using kern_more_world [OF conjunct1 [OF assms [unfolded seat_frame_def]]] by simp_all

lemma seat_frame_trans [trans]:
  assumes "seat_frame a b" "seat_frame b c"
  shows "seat_frame a c"
proof -
  from assms obtain es es' where "w_events b = w_events a @ es" "w_events c = w_events b @ es'"
    "\<forall>e \<in> set es. \<exists>r f. e = ISZ_EVENT_KEYBOARD_FOCUS_CHANGED r f" "\<forall>e \<in> set es'. \<exists>r f. e = ISZ_EVENT_KEYBOARD_FOCUS_CHANGED r f"
    by (auto simp: seat_frame_def)
  then have "\<exists>evs. w_events c = w_events a @ evs \<and> (\<forall>e \<in> set evs. \<exists>r f. e = ISZ_EVENT_KEYBOARD_FOCUS_CHANGED r f)"
    by (intro exI [of _ "es @ es'"]) auto
  with assms show ?thesis by (cases a; cases b; cases c) (simp add: seat_frame_def)
qed

lemma idle_ok_focus:
  assumes "idle_ok S Out evs" "\<forall>e \<in> set es. \<exists>r f. e = ISZ_EVENT_KEYBOARD_FOCUS_CHANGED r f"
  shows "idle_ok S Out (evs @ es)"
  using assms
proof (induction es rule: rev_induct)
  case (snoc e es)
  then have "idle_ok S Out (evs @ es)" by simp
  with snoc.prems(2) show ?case using idle_ok_event [of e S Out "evs @ es"] by auto
qed simp

lemma render_ok_seat:
  assumes "seat_frame w w'" "render_ok w"
  shows "render_ok w'"
proof -
  note f = seat_frame_fields [OF assms(1)] and ok = render_okD [OF assms(2)]
  from assms(1) obtain es where es: "w_events w' = w_events w @ es" "\<forall>e \<in> set es. \<exists>r f. e = ISZ_EVENT_KEYBOARD_FOCUS_CHANGED r f"
    by (auto simp: seat_frame_def)
  have "idle_ok (w_surfaces w) (w_outputs w) (w_events w')" unfolding es(1) by (rule idle_ok_focus [OF ok(3) es(2)])
  with ok show ?thesis by (simp add: render_ok_def surfaces_ok_def surf_ok_def f)
qed

lemma seats_okD:
  assumes "seats_ok w"
  shows "w_seats w r = Some s \<Longrightarrow> r < w_next_seat w \<and> seat_ok w r s"
    "w_text_inputs w t = Some ti \<Longrightarrow> t < w_next_text_input w \<and> w_seats w (ti_seat ti) \<noteq> None \<and> ti_owning_conn ti = None"
    "w_input_methods w i = Some r \<Longrightarrow> i < w_next_input_method w \<and> w_seats w r \<noteq> None"
    "w_default_seat w = Some d \<Longrightarrow> w_seats w d \<noteq> None"
  using assms by (auto simp: seats_ok_def)

lemma seats_ok_fresh:
  assumes "seats_ok w"
  shows "w_seats w (w_next_seat w) = None" "w_text_inputs w (w_next_text_input w) = None"
    "w_input_methods w (w_next_input_method w) = None" "w_next_seat w \<notin> set (w_seat_list w)"
proof -
  show "w_seats w (w_next_seat w) = None"
    by (rule ccontr) (auto dest: seats_okD(1) [OF assms])
  then show "w_next_seat w \<notin> set (w_seat_list w)" using assms by (auto simp: seats_ok_def)
  show "w_text_inputs w (w_next_text_input w) = None"
    by (rule ccontr) (auto dest: seats_okD(2) [OF assms])
  show "w_input_methods w (w_next_input_method w) = None"
    by (rule ccontr) (auto dest: seats_okD(3) [OF assms])
qed

text \<open>A call on the seat objects: it returns, keeps the invariant, and touches nothing else.\<close>

definition sop_ok :: "world \<Rightarrow> (world \<times> 'r) option \<Rightarrow> bool" where
  "sop_ok w res \<longleftrightarrow> (\<exists>w' x. res = Some (w', x) \<and> seats_ok w' \<and> seat_frame w w')"

named_theorems seat_ops \<open>every operation on seats keeps the invariant\<close>

lemma sop_okI: "seats_ok w' \<Longrightarrow> seat_frame w w' \<Longrightarrow> sop_ok w (Some (w', x))"
  by (simp add: sop_ok_def)

lemma upd_seat_ok:
  assumes "seats_ok w" "w_seats w r = Some s" "seat_ok w r s'"
  shows "seats_ok (upd_seat w r s')" "seat_frame w (upd_seat w r s')"
proof -
  have "seat_ok (upd_seat w r s') x y = seat_ok w x y" for x y by (simp add: seat_ok_def upd_seat_def)
  with assms show "seats_ok (upd_seat w r s')" by (auto simp: seats_ok_def upd_seat_def dom_def)
  show "seat_frame w (upd_seat w r s')" by (cases w) (simp add: seat_frame_def upd_seat_def)
qed

lemma with_seat_ok:
  assumes "seats_ok w" "\<And>r. seat = Some r \<Longrightarrow> w_seats w r \<noteq> None"
    "\<And>r s. seat = Some r \<Longrightarrow> w_seats w r = Some s \<Longrightarrow> seat_ok w r s \<Longrightarrow> sop_ok w (f r s)"
  shows "sop_ok w (with_seat w seat f)"
proof (cases seat)
  case (Some r)
  with assms(2) obtain s where "w_seats w r = Some s" by auto
  with Some assms(1,3) seats_okD(1) [OF assms(1)] show ?thesis by (simp add: with_seat_def)
qed (use assms(1) in \<open>simp add: with_seat_def sop_ok_def\<close>)

lemma emit_focus_ok:
  "seats_ok w1 \<Longrightarrow> seats_ok (isz_server_emit_event w1 (ISZ_EVENT_KEYBOARD_FOCUS_CHANGED r f))"
  "seat_frame w w1 \<Longrightarrow> seat_frame w (isz_server_emit_event w1 (ISZ_EVENT_KEYBOARD_FOCUS_CHANGED r f))"
proof -
  show "seats_ok w1 \<Longrightarrow> seats_ok (isz_server_emit_event w1 (ISZ_EVENT_KEYBOARD_FOCUS_CHANGED r f))"
    by (simp add: isz_server_emit_event_def seats_ok_def seat_ok_def)
  have "seat_frame w1 (isz_server_emit_event w1 (ISZ_EVENT_KEYBOARD_FOCUS_CHANGED r f))"
    by (cases w1) (simp add: isz_server_emit_event_def seat_frame_def)
  then show "seat_frame w w1 \<Longrightarrow> seat_frame w (isz_server_emit_event w1 (ISZ_EVENT_KEYBOARD_FOCUS_CHANGED r f))"
    by (blast intro: seat_frame_trans)
qed

lemma seat_setters_ok [seat_ops]:
  assumes "seats_ok w" "\<And>r. seat = Some r \<Longrightarrow> w_seats w r \<noteq> None"
  shows "sop_ok w (isz_seat_set_keyboard_focus w seat surf)"
    "sop_ok w (isz_seat_set_cursor_surface w seat surf)"
    "sop_ok w (isz_seat_set_cursor_hotspot w seat x y)"
    "sop_ok w (isz_seat_set_cursor_visible w seat v)"
    "sop_ok w (isz_seat_set_selection_owner w seat slot owner ts)"
proof -
  note with_ok = with_seat_ok [OF assms]
  show "sop_ok w (isz_seat_set_keyboard_focus w seat surf)" unfolding isz_seat_set_keyboard_focus_def
    by (intro with_ok sop_okI emit_focus_ok upd_seat_ok [OF assms(1)]) (auto simp: seat_ok_def)
  show "sop_ok w (isz_seat_set_cursor_surface w seat surf)" unfolding isz_seat_set_cursor_surface_def
    by (intro with_ok sop_okI upd_seat_ok [OF assms(1)]) (auto simp: seat_ok_def)
  show "sop_ok w (isz_seat_set_cursor_hotspot w seat x y)" unfolding isz_seat_set_cursor_hotspot_def
    by (intro with_ok sop_okI upd_seat_ok [OF assms(1)]) (auto simp: seat_ok_def)
  show "sop_ok w (isz_seat_set_cursor_visible w seat v)" unfolding isz_seat_set_cursor_visible_def
    by (intro with_ok sop_okI upd_seat_ok [OF assms(1)]) (auto simp: seat_ok_def)
  have same: "sop_ok w (Some (w, e))" for e using assms(1) by (intro sop_okI) simp_all
  have upd: "sop_ok w (Some (upd_seat w r (s\<lparr>st_selection_owner := (st_selection_owner s)[i := a],
      st_selection_timestamp := (st_selection_timestamp s)[i := b]\<rparr>), e))"
    if "w_seats w r = Some s" "seat_ok w r s" for r s i a b e
    using that by (intro sop_okI upd_seat_ok [OF assms(1)]) (auto simp: seat_ok_def)
  show "sop_ok w (isz_seat_set_selection_owner w seat slot owner ts)"
    unfolding isz_seat_set_selection_owner_def Let_def by (rule with_ok) (auto intro!: same upd)
qed

lemma seat_frame_more: "kern.more w' = kern.more w \<Longrightarrow> seat_frame w w'"
  by (cases w; cases w') (simp add: seat_frame_def)

lemma seats_ok_more:
  assumes "seats_ok w" "kern.more w' = kern.more w"
  shows "seats_ok w'"
proof -
  note f = kern_more_world [OF assms(2)]
  have "seat_ok w' r s = seat_ok w r s" for r s by (simp add: seat_ok_def f)
  with assms(1) show ?thesis by (simp add: seats_ok_def f)
qed

lemma alloc_seat:
  assumes "k_alloc w = (w1, b)" "seats_ok w"
  shows "seats_ok w1" "seat_frame w w1" "w_seats w1 = w_seats w"
proof -
  have m: "kern.more w1 = kern.more w" using kern_more_alloc [of w] assms(1) by simp
  show "seats_ok w1" "seat_frame w w1" using seats_ok_more [OF assms(2) m] seat_frame_more [OF m] by auto
  show "w_seats w1 = w_seats w" by (simp add: kern_more_world [OF m])
qed

lemma ensure_input_state_ok:
  assumes "ensure_input_state w = (w1, b)" "seats_ok w"
  shows "seats_ok w1" "seat_frame w w1" "b \<Longrightarrow> w_input_state w1"
proof -
  obtain w2 b2 where k: "k_alloc w = (w2, b2)" by fastforce
  note w2 = alloc_seat [OF k assms(2)]
  have "seat_ok (w2\<lparr>w_input_state := True\<rparr>) r s = seat_ok w2 r s" for r s by (simp add: seat_ok_def)
  with w2(1) have "seats_ok (w2\<lparr>w_input_state := True\<rparr>)" by (simp add: seats_ok_def)
  moreover have "seat_frame w (w2\<lparr>w_input_state := True\<rparr>)"
    using w2(2) by (rule seat_frame_trans) (cases w2, simp add: seat_frame_def)
  ultimately show "seats_ok w1" "seat_frame w w1" "b \<Longrightarrow> w_input_state w1"
    using assms w2 k by (auto simp: ensure_input_state_def split: if_splits bool.splits)
qed

lemma new_seat_ok:
  assumes "seats_ok w" "w_input_state w" "length nm < 64"
  defines "w' \<equiv> w\<lparr>w_seats := (w_seats w)(w_next_seat w \<mapsto> seat_zero\<lparr>st_cursor_visible := True, st_name := nm\<rparr>),
      w_next_seat := w_next_seat w + 1, w_seat_list := w_next_seat w # w_seat_list w\<rparr>"
  shows "seats_ok w'" "seat_frame w w'"
proof -
  note fresh = seats_ok_fresh [OF assms(1)] and ok = seats_okD [OF assms(1)]
  let ?n = "w_next_seat w"
  have new: "seat_ok w' ?n (seat_zero\<lparr>st_cursor_visible := True, st_name := nm\<rparr>)"
    using ok(2,3) fresh assms(3) by (fastforce simp: seat_ok_def seat_zero_def w'_def)
  have old: "seat_ok w' r s = seat_ok w r s" for r s by (simp add: seat_ok_def w'_def)
  have "r < w_next_seat w' \<and> seat_ok w' r s" if "w_seats w' r = Some s" for r s
    using that new old ok(1) [of r s] by (auto simp: w'_def split: if_splits)
  then show "seats_ok w'" using assms(1,2) fresh by (auto simp: seats_ok_def w'_def)
  show "seat_frame w w'" unfolding w'_def by (cases w) (simp add: seat_frame_def)
qed

lemma isz_seat_create_ok:
  assumes "isz_seat_create w name = (w', res)" "seats_ok w"
  shows "seats_ok w'" "seat_frame w w'" "res = Some r \<Longrightarrow> w_seats w' r \<noteq> None"
proof -
  obtain w1 b1 where e: "ensure_input_state w = (w1, b1)" by fastforce
  note w1 = ensure_input_state_ok [OF e assms(2)]
  obtain w2 b2 where k: "k_alloc w1 = (w2, b2)" by fastforce
  note w2 = alloc_seat [OF k w1(1)]
  have m: "w_input_state w2 = w_input_state w1"
    using kern_more_world(24) [OF kern_more_alloc [of w1]] k by simp
  have new: "b1 \<Longrightarrow> seats_ok (w2\<lparr>w_seats := (w_seats w2)(w_next_seat w2 \<mapsto> seat_zero\<lparr>st_cursor_visible := True, st_name := take 63 nm\<rparr>),
      w_next_seat := w_next_seat w2 + 1, w_seat_list := w_next_seat w2 # w_seat_list w2\<rparr>)"
    "b1 \<Longrightarrow> seat_frame w2 (w2\<lparr>w_seats := (w_seats w2)(w_next_seat w2 \<mapsto> seat_zero\<lparr>st_cursor_visible := True, st_name := take 63 nm\<rparr>),
      w_next_seat := w_next_seat w2 + 1, w_seat_list := w_next_seat w2 # w_seat_list w2\<rparr>)" for nm
    using new_seat_ok [OF w2(1), of "take 63 nm"] w1(3) m by simp_all
  note fr = seat_frame_trans [OF w1(2) w2(2)]
  show "seats_ok w'" "seat_frame w w'" "res = Some r \<Longrightarrow> w_seats w' r \<noteq> None"
    using assms e k w1 w2 new seat_frame_trans [OF fr new(2)] fr
    by (auto simp: isz_seat_create_def Let_def split: option.splits bool.splits)
qed

lemma isz_seat_default_ok:
  assumes "seats_ok w"
  shows "\<exists>w' res. isz_seat_default w = Some (w', res) \<and> seats_ok w' \<and> seat_frame w w'
    \<and> (\<forall>r. res = Some r \<longrightarrow> w_seats w' r \<noteq> None \<and> w_default_seat w' = Some r)"
proof -
  obtain w1 b1 where e: "ensure_input_state w = (w1, b1)" by fastforce
  note w1 = ensure_input_state_ok [OF e assms]
  obtain w2 res2 where c: "isz_seat_create w1 (Some ''seat0'') = (w2, res2)" by fastforce
  note w2 = isz_seat_create_ok [OF c w1(1)]
  show ?thesis
  proof (cases "b1 \<and> w_default_seat w1 = None \<and> res2 \<noteq> None")
    case False
    with e c w1 w2 seat_frame_trans [OF w1(2) w2(2)] seats_okD(4) [OF w1(1)] show ?thesis
      by (auto simp: isz_seat_default_def split: option.splits bool.splits)
  next
    case True
    then obtain r where r: "res2 = Some r" by auto
    with w2(3) obtain s where s: "w_seats w2 r = Some s" by auto
    let ?w3 = "upd_seat w2 r (s\<lparr>st_is_default := True\<rparr>)"
    have "seat_ok w2 r (s\<lparr>st_is_default := True\<rparr>)" using seats_okD(1) [OF w2(1) s] by (simp add: seat_ok_def)
    note w3 = upd_seat_ok [OF w2(1) s this]
    let ?w4 = "?w3\<lparr>w_default_seat := Some r\<rparr>"
    have live: "w_seats ?w3 r \<noteq> None" by (simp add: upd_seat_def)
    have "seat_ok ?w4 x y = seat_ok ?w3 x y" for x y by (simp add: seat_ok_def)
    with w3(1) live have "seats_ok ?w4" by (simp add: seats_ok_def)
    moreover have "seat_frame ?w3 ?w4" by (cases ?w3) (simp add: seat_frame_def)
    ultimately show ?thesis
      using True e c r s live seat_frame_trans [OF seat_frame_trans [OF w1(2) w2(2)] seat_frame_trans [OF w3(2)]]
      by (auto simp: isz_seat_default_def)
  qed
qed

lemma free_text_inputs_spec:
  assumes "distinct ts" "\<forall>t \<in> set ts. w_text_inputs w t \<noteq> None"
  shows "free_text_inputs w ts = Some (w\<lparr>w_text_inputs := (\<lambda>t. if t \<in> set ts then None else w_text_inputs w t)\<rparr>)"
  using assms
proof (induction ts arbitrary: w)
  case (Cons t ts)
  let ?w1 = "w\<lparr>w_text_inputs := (w_text_inputs w)(t := None)\<rparr>"
  from Cons.prems obtain ti where "w_text_inputs w t = Some ti" by auto
  moreover have "free_text_inputs ?w1 ts = Some (?w1\<lparr>w_text_inputs := (\<lambda>x. if x \<in> set ts then None else w_text_inputs ?w1 x)\<rparr>)"
    using Cons.prems by (intro Cons.IH) auto
  moreover have "(\<lambda>x. if x \<in> set ts then None else w_text_inputs ?w1 x) = (\<lambda>x. if x \<in> set (t # ts) then None else w_text_inputs w x)"
    by auto
  ultimately show ?case by (simp del: list.set)
qed simp

lemma isz_seat_destroy_ok:
  assumes "seats_ok w" "w_seats w r = Some s"
  shows "\<exists>w'. isz_seat_destroy w (Some r) = Some w' \<and> seats_ok w' \<and> seat_frame w w'
    \<and> w_seats w' = (w_seats w)(r := None) \<and> (\<forall>t ti. w_text_inputs w' t = Some ti \<longrightarrow> ti_seat ti \<noteq> r)"
proof -
  note ok = seats_okD [OF assms(1)]
  have sok: "seat_ok w r s" using ok(1) [OF assms(2)] by simp
  let ?T = "\<lambda>t. if t \<in> set (st_text_inputs s) then None else w_text_inputs w t"
  let ?I = "case st_input_method s of None \<Rightarrow> w_input_methods w | Some i \<Rightarrow> (w_input_methods w)(i := None)"
  let ?w' = "w\<lparr>w_text_inputs := ?T, w_input_methods := ?I, w_seat_list := remove1 r (w_seat_list w),
      w_default_seat := (if w_default_seat w = Some r then None else w_default_seat w), w_seats := (w_seats w)(r := None)\<rparr>"
  have "\<forall>t \<in> set (st_text_inputs s). w_text_inputs w t \<noteq> None" "distinct (st_text_inputs s)"
    using sok by (auto simp: seat_ok_def)
  note free = free_text_inputs_spec [OF this(2,1)]
  have inp: "w_input_state w" using assms by (auto simp: seats_ok_def)
  have run: "isz_seat_destroy w (Some r) = Some ?w'"
    using assms(2) free inp by (cases "st_input_method s") (simp_all add: isz_seat_destroy_def Let_def)
  have own: "?T t = Some ti \<longleftrightarrow> w_text_inputs w t = Some ti \<and> ti_seat ti \<noteq> r" for t ti
    using sok by (auto simp: seat_ok_def)
  have im: "?I i = Some x \<longleftrightarrow> w_input_methods w i = Some x \<and> x \<noteq> r" for i x
  proof (cases "st_input_method s")
    case None
    then have "w_input_methods w i \<noteq> Some r" using sok by (metis seat_ok_def option.distinct(1))
    with None show ?thesis by auto
  next
    case (Some j)
    then have "w_input_methods w i = Some r \<longleftrightarrow> i = j" using sok by (metis seat_ok_def option.inject)
    with Some show ?thesis by auto
  qed
  have old: "seat_ok ?w' x y" if "w_seats w x = Some y" "x \<noteq> r" for x y
  proof -
    have "seat_ok w x y" using ok(1) [OF that(1)] by simp
    moreover have "(\<exists>ti. ?T t = Some ti \<and> ti_seat ti = x) = (\<exists>ti. w_text_inputs w t = Some ti \<and> ti_seat ti = x)" for t
      using that(2) unfolding own by auto
    moreover have "(?I i = Some x) = (w_input_methods w i = Some x)" for i using that(2) im by blast
    ultimately show ?thesis by (simp add: seat_ok_def)
  qed
  have "seats_ok ?w'"
    unfolding seats_ok_def
  proof (intro conjI allI impI)
    show "set (w_seat_list ?w') = dom (w_seats ?w')" using assms by (auto simp: seats_ok_def)
  qed (use assms(1) ok old own im inp in \<open>auto simp: seats_ok_def simp del: split_paired_Ex split: if_splits\<close>)
  moreover have "seat_frame w ?w'" by (cases w) (simp add: seat_frame_def)
  ultimately show ?thesis using run own by auto
qed

lemma upd_text_input_ok:
  assumes "seats_ok w" "w_text_inputs w t = Some x" "ti_seat x' = ti_seat x" "ti_owning_conn x' = ti_owning_conn x"
  shows "seats_ok (upd_text_input w t x')" "seat_frame w (upd_text_input w t x')"
proof -
  have "(\<exists>ti. w_text_inputs (upd_text_input w t x') u = Some ti \<and> ti_seat ti = r) = (\<exists>ti. w_text_inputs w u = Some ti \<and> ti_seat ti = r)" for u r
    using assms(2,3) by (simp add: upd_text_input_def)
  then have "seat_ok (upd_text_input w t x') r s = seat_ok w r s" for r s
    unfolding seat_ok_def by (simp add: upd_text_input_def)
  with assms show "seats_ok (upd_text_input w t x')" by (auto simp: seats_ok_def upd_text_input_def)
  show "seat_frame w (upd_text_input w t x')" by (cases w) (simp add: seat_frame_def upd_text_input_def)
qed

lemma with_text_input_ok:
  assumes "seats_ok w" "\<And>t. ti = Some t \<Longrightarrow> w_text_inputs w t \<noteq> None"
    "\<And>t x. ti = Some t \<Longrightarrow> w_text_inputs w t = Some x \<Longrightarrow> ti_owning_conn x = None \<Longrightarrow> sop_ok w (f t x)"
  shows "sop_ok w (with_text_input w ti f)"
proof (cases ti)
  case (Some t)
  with assms(2) obtain x where "w_text_inputs w t = Some x" by auto
  with Some assms(1,3) seats_okD(2) [OF assms(1)] show ?thesis by (simp add: with_text_input_def)
qed (use assms(1) in \<open>simp add: with_text_input_def sop_ok_def\<close>)

lemma text_input_setters_ok [seat_ops]:
  assumes "seats_ok w" "\<And>t. ti = Some t \<Longrightarrow> w_text_inputs w t \<noteq> None"
  shows "sop_ok w (isz_text_input_set_content_type w ti hint purpose)"
    "sop_ok w (isz_text_input_set_cursor_rectangle w ti x y wd h)"
    "sop_ok w (isz_text_input_enable w ti)"
    "sop_ok w (isz_text_input_disable w ti)"
    "sop_ok w (isz_text_input_commit_string w ti txt)"
    "sop_ok w (isz_text_input_preedit_string w ti txt cb ce)"
proof -
  note with_ok = with_text_input_ok [OF assms]
  have upd: "sop_ok w (Some (upd_text_input w t x', e))"
    if "w_text_inputs w t = Some x" "ti_seat x' = ti_seat x" "ti_owning_conn x' = ti_owning_conn x" for t x x' e
    using upd_text_input_ok [OF assms(1) that] by (rule sop_okI)
  show "sop_ok w (isz_text_input_set_content_type w ti hint purpose)"
    "sop_ok w (isz_text_input_set_cursor_rectangle w ti x y wd h)"
    "sop_ok w (isz_text_input_enable w ti)" "sop_ok w (isz_text_input_disable w ti)"
    unfolding isz_text_input_set_content_type_def isz_text_input_set_cursor_rectangle_def
      isz_text_input_enable_def isz_text_input_disable_def
    by - (rule with_ok, assumption, rule upd, assumption, simp, simp)+
  show "sop_ok w (isz_text_input_commit_string w ti txt)" "sop_ok w (isz_text_input_preedit_string w ti txt cb ce)"
    unfolding isz_text_input_commit_string_def isz_text_input_preedit_string_def
    using assms(1) by (intro with_ok; simp add: sop_ok_def)+
qed

lemma isz_text_input_set_surrounding_text_ok [seat_ops]:
  assumes "seats_ok w" "\<And>t. ti = Some t \<Longrightarrow> w_text_inputs w t \<noteq> None"
  shows "sop_ok w (isz_text_input_set_surrounding_text w ti txt c a)"
proof -
  obtain w1 b where k: "k_alloc w = (w1, b)" by fastforce
  note w1 = alloc_seat [OF k assms(1)]
  have t1: "w_text_inputs w1 = w_text_inputs w" using kern_more_world [OF kern_more_alloc [of w]] k by simp
  have upd: "sop_ok w (Some (upd_text_input v t (x\<lparr>ti_surrounding_text := tx, ti_surrounding_cursor := c, ti_surrounding_anchor := a\<rparr>), e))"
    if "seats_ok v" "seat_frame w v" "w_text_inputs v t = Some x" for v t x e tx
    using upd_text_input_ok [OF that(1,3)] seat_frame_trans [OF that(2)] by (intro sop_okI) auto
  have fail: "sop_ok w (Some (w1, e))" for e using w1 by (intro sop_okI)
  show ?thesis
    unfolding isz_text_input_set_surrounding_text_def
    by (rule with_text_input_ok [OF assms]; cases "txt = None"; cases b)
      (simp_all add: k upd [OF assms(1)] upd [OF w1(1,2)] t1 fail)
qed

text \<open>Changing one seat together with the objects that hang off it.\<close>

lemma seats_ok_objects:
  fixes T n I m s'
  assumes "seats_ok w" "w_seats w r = Some s"
  defines "w' \<equiv> (upd_seat w r s')\<lparr>w_text_inputs := T, w_next_text_input := n, w_input_methods := I, w_next_input_method := m\<rparr>"
  assumes new: "seat_ok w' r s'" and old: "\<And>x y. w_seats w x = Some y \<Longrightarrow> x \<noteq> r \<Longrightarrow> seat_ok w x y \<Longrightarrow> seat_ok w' x y"
    and T: "\<And>t ti. T t = Some ti \<Longrightarrow> t < n \<and> w_seats w (ti_seat ti) \<noteq> None \<and> ti_owning_conn ti = None"
    and I: "\<And>i x. I i = Some x \<Longrightarrow> i < m \<and> w_seats w x \<noteq> None"
  shows "seats_ok w' \<and> seat_frame w w'"
proof
  note ok = seats_okD [OF assms(1)]
  have "x < w_next_seat w \<and> seat_ok w' x y" if "w_seats w' x = Some y" for x y
  proof (cases "x = r")
    case True
    with that new ok(1) [OF assms(2)] show ?thesis by (simp add: upd_seat_def w'_def)
  next
    case False
    with that have "w_seats w x = Some y" by (simp add: upd_seat_def w'_def)
    with old [OF this False] ok(1) [OF this] show ?thesis by simp
  qed
  then show "seats_ok w'"
    using assms(1,2) T I unfolding seats_ok_def by (auto simp: upd_seat_def w'_def)
  show "seat_frame w w'" unfolding w'_def by (cases w) (simp add: seat_frame_def upd_seat_def)
qed

lemma isz_seat_create_text_input_ok:
  assumes "seats_ok w" "w_seats w r \<noteq> None"
  shows "\<exists>w' t. isz_seat_create_text_input w (Some r) = Some (w', t) \<and> seats_ok w' \<and> seat_frame w w'
    \<and> (\<forall>i. t = Some i \<longrightarrow> w_text_inputs w i = None \<and> w_text_inputs w' i \<noteq> None)"
proof -
  obtain w1 b where k: "k_alloc w = (w1, b)" by fastforce
  note w1 = alloc_seat [OF k assms(1)] and t1 = kern_more_world [OF kern_more_alloc [of w], unfolded k fst_conv]
  from assms(2) w1(3) obtain s where s: "w_seats w1 r = Some s" by auto
  let ?t = "w_next_text_input w1"
  let ?ti = "\<lparr>ti_seat = r, ti_enabled = False, ti_surrounding_text = None, ti_surrounding_cursor = 0,
      ti_surrounding_anchor = 0, ti_content_hint = 0, ti_content_purpose = 0, ti_cursor_rect_x = 0,
      ti_cursor_rect_y = 0, ti_cursor_rect_w = 0, ti_cursor_rect_h = 0, ti_owning_conn = None, ti_object_id = 0\<rparr>"
  let ?s = "s\<lparr>st_text_inputs := ?t # st_text_inputs s\<rparr>"
  let ?w2 = "(upd_seat w1 r ?s)\<lparr>w_text_inputs := (w_text_inputs w1)(?t \<mapsto> ?ti), w_next_text_input := ?t + 1,
      w_input_methods := w_input_methods w1, w_next_input_method := w_next_input_method w1\<rparr>"
  note ok = seats_okD [OF w1(1)] and fresh = seats_ok_fresh [OF w1(1)]
  have sok: "seat_ok w1 r s" using ok(1) [OF s] by simp
  have "?t \<notin> set (st_text_inputs s)" using sok fresh(2) by (auto simp: seat_ok_def)
  then have "seats_ok ?w2 \<and> seat_frame w1 ?w2"
    by (intro seats_ok_objects [OF w1(1) s])
       (use sok fresh(2) s in \<open>auto simp: seat_ok_def upd_seat_def less_Suc_eq dest: ok(2,3) split: if_splits\<close>)
  moreover have "isz_seat_create_text_input w (Some r) = Some (?w2, Some ?t)" if "b"
    using that k s by (simp add: isz_seat_create_text_input_def Let_def upd_seat_def)
  moreover have "isz_seat_create_text_input w (Some r) = Some (w1, None)" if "\<not> b"
    using that k by (simp add: isz_seat_create_text_input_def)
  ultimately show ?thesis
    using w1 seat_frame_trans [OF w1(2), of ?w2] fresh(2) t1 by (cases b) auto
qed

lemma isz_text_input_destroy_ok:
  assumes "seats_ok w" "w_text_inputs w t = Some x"
  shows "\<exists>w'. isz_text_input_destroy w (Some t) = Some w' \<and> seats_ok w' \<and> seat_frame w w'
    \<and> w_text_inputs w' = (w_text_inputs w)(t := None)"
proof -
  note ok = seats_okD [OF assms(1)]
  from ok(2) [OF assms(2)] obtain s where s: "w_seats w (ti_seat x) = Some s" by auto
  have sok: "seat_ok w (ti_seat x) s" using ok(1) [OF s] by simp
  let ?s = "s\<lparr>st_text_inputs := remove1 t (st_text_inputs s)\<rparr>"
  let ?w' = "(upd_seat w (ti_seat x) ?s)\<lparr>w_text_inputs := (w_text_inputs w)(t := None), w_next_text_input := w_next_text_input w,
      w_input_methods := w_input_methods w, w_next_input_method := w_next_input_method w\<rparr>"
  have "seats_ok ?w' \<and> seat_frame w ?w'"
    by (rule seats_ok_objects [OF assms(1) s])
       (use sok assms(2) in \<open>auto simp: seat_ok_def upd_seat_def dest: ok(2,3) split: if_splits\<close>)
  moreover have "isz_text_input_destroy w (Some t) = Some ?w'"
    using assms(2) s by (simp add: isz_text_input_destroy_def Let_def upd_seat_def)
  ultimately show ?thesis by (auto simp: upd_seat_def)
qed

lemma isz_input_method_destroy_ok:
  assumes "seats_ok w" "w_input_methods w i = Some r"
  shows "\<exists>w'. isz_input_method_destroy w (Some i) = Some w' \<and> seats_ok w' \<and> seat_frame w w'
    \<and> w_input_methods w' = (w_input_methods w)(i := None)"
proof -
  note ok = seats_okD [OF assms(1)]
  from ok(3) [OF assms(2)] obtain s where s: "w_seats w r = Some s" by auto
  have sok: "seat_ok w r s" using ok(1) [OF s] by simp
  then have im: "st_input_method s = Some i" using assms(2) by (simp add: seat_ok_def)
  let ?w' = "(upd_seat w r (s\<lparr>st_input_method := None\<rparr>))\<lparr>w_text_inputs := w_text_inputs w, w_next_text_input := w_next_text_input w,
      w_input_methods := (w_input_methods w)(i := None), w_next_input_method := w_next_input_method w\<rparr>"
  have uniq: "w_input_methods w j = Some r \<longleftrightarrow> j = i" for j using sok im by (auto simp: seat_ok_def)
  have "seats_ok ?w' \<and> seat_frame w ?w'"
  proof (rule seats_ok_objects [OF assms(1) s])
    show "seat_ok ?w' r (s\<lparr>st_input_method := None\<rparr>)" using sok uniq by (auto simp: seat_ok_def upd_seat_def)
  qed (use assms(2) in \<open>auto simp: seat_ok_def upd_seat_def dest: ok(2,3) split: if_splits\<close>)
  moreover have "isz_input_method_destroy w (Some i) = Some ?w'"
    using assms(2) s im by (simp add: isz_input_method_destroy_def Let_def upd_seat_def)
  ultimately show ?thesis by (auto simp: upd_seat_def)
qed

lemma isz_seat_create_input_method_ok:
  assumes "seats_ok w" "w_seats w r = Some s"
  shows "\<exists>w' i. isz_seat_create_input_method w (Some r) = Some (w', i) \<and> seats_ok w' \<and> seat_frame w w'
    \<and> (\<forall>j. i = Some j \<longrightarrow> w_input_methods w' j = Some r)"
proof -
  let ?w1 = "case st_input_method s of None \<Rightarrow> w
    | Some im \<Rightarrow> upd_seat (w\<lparr>w_input_methods := (w_input_methods w)(im := None)\<rparr>) r (s\<lparr>st_input_method := None\<rparr>)"
  have sok: "seat_ok w r s" using seats_okD(1) [OF assms] by simp
  have w1: "seats_ok ?w1 \<and> seat_frame w ?w1 \<and> w_seats ?w1 r = Some (s\<lparr>st_input_method := None\<rparr>)"
  proof (cases "st_input_method s")
    case None
    then have "s\<lparr>st_input_method := None\<rparr> = s" by simp
    with None assms show ?thesis by simp
  next
    case (Some im)
    then have im: "w_input_methods w im = Some r" using sok by (auto simp: seat_ok_def)
    have "isz_input_method_destroy w (Some im) = Some ?w1"
      using im assms(2) Some by (simp add: isz_input_method_destroy_def Let_def upd_seat_def)
    with isz_input_method_destroy_ok [OF assms(1) im] Some show ?thesis by (auto simp: upd_seat_def)
  qed
  obtain w2 b where k: "k_alloc ?w1 = (w2, b)" by fastforce
  note w2 = alloc_seat [OF k conjunct1 [OF w1]]
  have s2: "w_seats w2 r = Some (s\<lparr>st_input_method := None\<rparr>)" using w1 w2(3) by simp
  note ok = seats_okD [OF w2(1)] and fresh = seats_ok_fresh [OF w2(1)]
  let ?i = "w_next_input_method w2"
  let ?w3 = "(upd_seat w2 r (s\<lparr>st_input_method := Some ?i\<rparr>))\<lparr>w_text_inputs := w_text_inputs w2, w_next_text_input := w_next_text_input w2,
      w_input_methods := (w_input_methods w2)(?i \<mapsto> r), w_next_input_method := ?i + 1\<rparr>"
  have "seats_ok ?w3 \<and> seat_frame w2 ?w3"
    by (rule seats_ok_objects [OF w2(1) s2])
       (use ok(1) [OF s2] fresh(3) s2 in \<open>auto simp: seat_ok_def upd_seat_def less_Suc_eq dest: ok(2,3) split: if_splits\<close>)
  moreover have "isz_seat_create_input_method w (Some r) = Some (?w3, Some ?i)" if "b"
    using that k assms(2) by (simp add: isz_seat_create_input_method_def Let_def upd_seat_def)
  moreover have "isz_seat_create_input_method w (Some r) = Some (w2, None)" if "\<not> b"
    using that k assms(2) by (simp add: isz_seat_create_input_method_def Let_def)
  ultimately show ?thesis
    using w1 w2 seat_frame_trans [of w ?w1 w2] seat_frame_trans [of w w2 ?w3] by (cases b) auto
qed

section \<open>Properties\<close>

datatype seat_call =
    SeatCreate "char list" | SeatDestroy nat | SeatDefault
  | SeatFocus nat "nat option" | SeatCursor nat "nat option" | SeatHotspot nat u32 u32 | SeatVisible nat bool
  | SeatSelect nat int "nat option" u64
  | TextCreate nat | TextDestroy nat | TextSurround nat "u8 list option" u32 u32 | TextContent nat u32 u32
  | TextRect nat int int int int | TextEnable nat | TextDisable nat | TextCommit nat "u8 list option"
  | TextPreedit nat "u8 list option" int int
  | MethodCreate nat | MethodDestroy nat

fun seat_call_run :: "world \<Rightarrow> seat_call \<Rightarrow> world option" where
  "seat_call_run w (SeatCreate nm) = Some (fst (isz_seat_create w (Some nm)))"
| "seat_call_run w (SeatDestroy r) = isz_seat_destroy w (Some r)"
| "seat_call_run w SeatDefault = map_option fst (isz_seat_default w)"
| "seat_call_run w (SeatFocus r f) = map_option fst (isz_seat_set_keyboard_focus w (Some r) f)"
| "seat_call_run w (SeatCursor r f) = map_option fst (isz_seat_set_cursor_surface w (Some r) f)"
| "seat_call_run w (SeatHotspot r x y) = map_option fst (isz_seat_set_cursor_hotspot w (Some r) x y)"
| "seat_call_run w (SeatVisible r v) = map_option fst (isz_seat_set_cursor_visible w (Some r) v)"
| "seat_call_run w (SeatSelect r sl f t) = map_option fst (isz_seat_set_selection_owner w (Some r) sl f t)"
| "seat_call_run w (TextCreate r) = map_option fst (isz_seat_create_text_input w (Some r))"
| "seat_call_run w (TextDestroy t) = isz_text_input_destroy w (Some t)"
| "seat_call_run w (TextSurround t x c a) = map_option fst (isz_text_input_set_surrounding_text w (Some t) x c a)"
| "seat_call_run w (TextContent t h p) = map_option fst (isz_text_input_set_content_type w (Some t) h p)"
| "seat_call_run w (TextRect t x y wd h) = map_option fst (isz_text_input_set_cursor_rectangle w (Some t) x y wd h)"
| "seat_call_run w (TextEnable t) = map_option fst (isz_text_input_enable w (Some t))"
| "seat_call_run w (TextDisable t) = map_option fst (isz_text_input_disable w (Some t))"
| "seat_call_run w (TextCommit t x) = map_option fst (isz_text_input_commit_string w (Some t) x)"
| "seat_call_run w (TextPreedit t x b e) = map_option fst (isz_text_input_preedit_string w (Some t) x b e)"
| "seat_call_run w (MethodCreate r) = map_option fst (isz_seat_create_input_method w (Some r))"
| "seat_call_run w (MethodDestroy i) = isz_input_method_destroy w (Some i)"

text \<open>The caller passes objects that it has not destroyed; an input method is also gone once the seat
  has got another one.\<close>

fun seat_call_pre :: "world \<Rightarrow> seat_call \<Rightarrow> bool" where
  "seat_call_pre w (SeatCreate nm) = True"
| "seat_call_pre w SeatDefault = True"
| "seat_call_pre w (SeatDestroy r) = (w_seats w r \<noteq> None)"
| "seat_call_pre w (SeatFocus r f) = (w_seats w r \<noteq> None)"
| "seat_call_pre w (SeatCursor r f) = (w_seats w r \<noteq> None)"
| "seat_call_pre w (SeatHotspot r x y) = (w_seats w r \<noteq> None)"
| "seat_call_pre w (SeatVisible r v) = (w_seats w r \<noteq> None)"
| "seat_call_pre w (SeatSelect r sl f t) = (w_seats w r \<noteq> None)"
| "seat_call_pre w (TextCreate r) = (w_seats w r \<noteq> None)"
| "seat_call_pre w (MethodCreate r) = (w_seats w r \<noteq> None)"
| "seat_call_pre w (MethodDestroy i) = (w_input_methods w i \<noteq> None)"
| "seat_call_pre w (TextDestroy t) = (w_text_inputs w t \<noteq> None)"
| "seat_call_pre w (TextSurround t x c a) = (w_text_inputs w t \<noteq> None)"
| "seat_call_pre w (TextContent t h p) = (w_text_inputs w t \<noteq> None)"
| "seat_call_pre w (TextRect t x y wd h) = (w_text_inputs w t \<noteq> None)"
| "seat_call_pre w (TextEnable t) = (w_text_inputs w t \<noteq> None)"
| "seat_call_pre w (TextDisable t) = (w_text_inputs w t \<noteq> None)"
| "seat_call_pre w (TextCommit t x) = (w_text_inputs w t \<noteq> None)"
| "seat_call_pre w (TextPreedit t x b e) = (w_text_inputs w t \<noteq> None)"

fun seat_calls_legal :: "world \<Rightarrow> seat_call list \<Rightarrow> bool" where
  "seat_calls_legal w [] = True"
| "seat_calls_legal w (c # cs) =
     (seat_call_pre w c \<and> (case seat_call_run w c of None \<Rightarrow> True | Some w' \<Rightarrow> seat_calls_legal w' cs))"

fun seat_calls_run :: "world \<Rightarrow> seat_call list \<Rightarrow> world option" where
  "seat_calls_run w [] = Some w"
| "seat_calls_run w (c # cs) = seat_call_run w c \<bind> (\<lambda>w. seat_calls_run w cs)"

lemma sop_ok_ex: "sop_ok w res \<Longrightarrow> \<exists>w'. (\<exists>x. res = Some (w', x)) \<and> seats_ok w' \<and> seat_frame w w'"
  by (auto simp: sop_ok_def)

lemma seat_call_run_ok:
  assumes "seats_ok w" "seat_call_pre w c"
  shows "\<exists>w'. seat_call_run w c = Some w' \<and> seats_ok w' \<and> seat_frame w w'"
proof (cases c)
  case (SeatCreate nm)
  with isz_seat_create_ok [OF surjective_pairing assms(1), of "Some nm"] show ?thesis by simp
next
  case (SeatDestroy r)
  with isz_seat_destroy_ok [OF assms(1), of r] assms(2) show ?thesis by auto
next
  case SeatDefault
  with isz_seat_default_ok [OF assms(1)] show ?thesis by auto
next
  case (TextCreate r)
  with isz_seat_create_text_input_ok [OF assms(1), of r] assms(2) show ?thesis by auto
next
  case (TextDestroy t)
  with isz_text_input_destroy_ok [OF assms(1), of t] assms(2) show ?thesis by auto
next
  case (MethodCreate r)
  with isz_seat_create_input_method_ok [OF assms(1), of r] assms(2) show ?thesis by auto
next
  case (MethodDestroy i)
  with isz_input_method_destroy_ok [OF assms(1), of i] assms(2) show ?thesis by auto
qed (use assms in \<open>auto intro!: sop_ok_ex seat_ops\<close>)

lemma seat_calls_run_ok:
  assumes "seats_ok w" "seat_calls_legal w cs"
  shows "\<exists>w'. seat_calls_run w cs = Some w' \<and> seats_ok w' \<and> seat_frame w w'"
  using assms
proof (induction cs arbitrary: w)
  case (Cons c cs)
  then obtain w1 where w1: "seat_call_run w c = Some w1" "seats_ok w1" "seat_frame w w1"
    using seat_call_run_ok [of w c] by auto
  with Cons obtain w' where "seat_calls_run w1 cs = Some w'" "seats_ok w'" "seat_frame w1 w'" by auto
  with w1 show ?case by (auto intro: seat_frame_trans)
qed simp

text \<open>C18: seats stay well formed. Every sequence of seat, selection, text-input and input-method calls on
  objects that exist, with any allocation failing, is memory safe; it keeps the seat list, the default
  seat and the lists of text inputs consistent, and leaves the render layer's invariant intact.\<close>

theorem seat_calls_safe:
  assumes "seats_ok w" and "render_ok w" and "seat_calls_legal w cs"
  shows "\<exists>w'. seat_calls_run w cs = Some w' \<and> seats_ok w' \<and> render_ok w'"
  using seat_calls_run_ok [OF assms(1,3)] render_ok_seat [OF _ assms(2)] by blast

lemma seats_ok_init: "seats_ok world_init"
  by (simp add: seats_ok_def world_init_def bstate_init_def bstate.defs kern_init_def kern.defs)

lemma render_ok_init: "render_ok world_init"
  by (simp add: world_init_def bstate_init_def bstate.defs kern_init_def kern.defs
      render_ok_def surfaces_ok_def bufs_ok_def owned_def idle_ok_def resv_ok_def)

theorem seat_calls_safe_witness:
  "\<exists>w'. seat_calls_run world_init [SeatDefault, TextCreate 1, MethodCreate 1, TextEnable 1, SeatFocus 1 None,
      SeatSelect 1 0 (Some 7) 5, TextCreate 1, TextDestroy 1, MethodCreate 1, MethodDestroy 2, SeatDestroy 1] = Some w'
     \<and> seats_ok w' \<and> render_ok w'"
proof -
  have "seat_calls_legal world_init [SeatDefault, TextCreate 1, MethodCreate 1, TextEnable 1, SeatFocus 1 None,
      SeatSelect 1 0 (Some 7) 5, TextCreate 1, TextDestroy 1, MethodCreate 1, MethodDestroy 2, SeatDestroy 1]"
    by (simp add: world_init_def bstate_init_def bstate.defs kern_init_def kern.defs isz_seat_default_def
        ensure_input_state_def isz_seat_create_def k_alloc_def Let_def seat_zero_def upd_seat_def
        isz_seat_create_text_input_def isz_seat_create_input_method_def isz_text_input_enable_def with_text_input_def
        upd_text_input_def isz_seat_set_keyboard_focus_def with_seat_def isz_server_emit_event_def
        isz_seat_set_selection_owner_def isz_text_input_destroy_def isz_input_method_destroy_def isz_seat_destroy_def)
  from seat_calls_safe [OF seats_ok_init render_ok_init this] show ?thesis .
qed

text \<open>Claims of a selection slot, in the order in which they arrive.\<close>

fun claim_run :: "world \<Rightarrow> nat \<Rightarrow> int \<Rightarrow> (nat \<times> u64) list \<Rightarrow> world option" where
  "claim_run w r slot [] = Some w"
| "claim_run w r slot ((f, t) # cs) =
     isz_seat_set_selection_owner w (Some r) slot (Some f) t \<bind> (\<lambda>(w, e). claim_run w r slot cs)"

text \<open>The claim that has to win: the last one of those with the latest timestamp.\<close>

definition latest_claim :: "(nat \<times> u64) list \<Rightarrow> nat \<Rightarrow> u64 \<Rightarrow> bool" where
  "latest_claim cs f t \<longleftrightarrow> (\<exists>pre post. cs = pre @ (f, t) # post
     \<and> (\<forall>c \<in> set pre. snd c \<le> t) \<and> (\<forall>c \<in> set post. snd c < t))"

lemma latest_claim_snoc:
  assumes "latest_claim cs f t"
  shows "u < t \<Longrightarrow> latest_claim (cs @ [(g, u)]) f t" "\<not> u < t \<Longrightarrow> latest_claim (cs @ [(g, u)]) g u"
proof -
  from assms obtain pre post where p: "cs = pre @ (f, t) # post" "\<forall>c \<in> set pre. snd c \<le> t" "\<forall>c \<in> set post. snd c < t"
    by (auto simp: latest_claim_def)
  show "latest_claim (cs @ [(g, u)]) f t" if "u < t"
    unfolding latest_claim_def using p that by (intro exI [of _ pre] exI [of _ "post @ [(g, u)]"]) auto
  show "latest_claim (cs @ [(g, u)]) g u" if "\<not> u < t"
    unfolding latest_claim_def using p that by (intro exI [of _ cs] exI [of _ "[]"]) (auto simp: not_less intro: order_trans less_imp_le)
qed

lemma claim_run_append: "claim_run w r slot (cs @ ds) = claim_run w r slot cs \<bind> (\<lambda>w. claim_run w r slot ds)"
  by (induction w r slot cs rule: claim_run.induct) (auto simp: bind_assoc split: bind_splits)

lemma claim_run_latest:
  assumes "seats_ok w" "w_seats w r = Some s" "0 \<le> slot" "slot < 2" "st_selection_owner s ! nat slot = None" "cs \<noteq> []"
  shows "\<exists>w' s' f t. claim_run w r slot cs = Some w' \<and> seats_ok w' \<and> w_seats w' r = Some s' \<and> latest_claim cs f t
    \<and> st_selection_owner s' ! nat slot = Some f \<and> st_selection_timestamp s' ! nat slot = t
    \<and> st_selection_owner s' ! (1 - nat slot) = st_selection_owner s ! (1 - nat slot)"
  using assms(6)
proof (induction cs rule: rev_induct)
  case (snoc c cs)
  obtain g u where c: "c = (g, u)" by fastforce
  have "nat slot = 0 \<or> nat slot = 1" using assms(3,4) by linarith
  then have i: "nat slot < 2" "nat slot \<noteq> 1 - nat slot" by auto
  show ?case
  proof (cases "cs = []")
    case True
    have "seat_ok w r s" using seats_okD(1) [OF assms(1,2)] by simp
    moreover have "latest_claim [(g, u)] g u" unfolding latest_claim_def by (intro exI [of _ "[]"]) simp
    ultimately show ?thesis
      using True c assms(1-5) i seat_setters_ok(5) [OF assms(1), of "Some r" slot "Some g" u]
      by (auto simp: isz_seat_set_selection_owner_def with_seat_def upd_seat_def seat_ok_def sop_ok_def Let_def)
  next
    case False
    with snoc.IH obtain w' s' f t where IH: "claim_run w r slot cs = Some w'" "seats_ok w'" "w_seats w' r = Some s'"
      "latest_claim cs f t" "st_selection_owner s' ! nat slot = Some f" "st_selection_timestamp s' ! nat slot = t"
      "st_selection_owner s' ! (1 - nat slot) = st_selection_owner s ! (1 - nat slot)" by blast
    have "seat_ok w' r s'" using seats_okD(1) [OF IH(2,3)] by simp
    with IH c assms(3,4) i latest_claim_snoc [OF IH(4), of u g] seat_setters_ok(5) [OF IH(2), of "Some r" slot "Some g" u]
    show ?thesis
      by (cases "u < t") (auto simp: claim_run_append isz_seat_set_selection_owner_def with_seat_def upd_seat_def seat_ok_def sop_ok_def Let_def)
  qed
qed simp

text \<open>C19: the latest claim owns a selection. When clients claim a free slot one after the other, in whatever
  order their timestamps arrive, the owner in the end is the last of the claims with the largest
  timestamp, and the other slot is not affected.\<close>

theorem selection_latest_wins:
  assumes "seats_ok w" and "w_seats w r = Some s" and "slot \<in> {0, 1}" and "st_selection_owner s ! nat slot = None" and "cs \<noteq> []"
  shows "\<exists>w' f t. claim_run w r slot cs = Some w' \<and> latest_claim cs f t
    \<and> isz_seat_get_selection_owner w' (Some r) slot = Some (Some f)
    \<and> isz_seat_get_selection_owner w' (Some r) (1 - slot) = isz_seat_get_selection_owner w (Some r) (1 - slot)"
proof -
  have "0 \<le> slot" "slot < 2" "1 - nat slot = nat (1 - slot)" using assms(3) by auto
  with claim_run_latest [OF assms(1,2) _ _ assms(4,5)] obtain w' s' f t where
    "claim_run w r slot cs = Some w'" "w_seats w' r = Some s'" "latest_claim cs f t"
    "st_selection_owner s' ! nat slot = Some f" "st_selection_owner s' ! nat (1 - slot) = st_selection_owner s ! nat (1 - slot)"
    by metis
  with assms(2,3) show ?thesis by (auto simp: isz_seat_get_selection_owner_def)
qed

theorem selection_latest_wins_witness:
  "\<exists>w w' f t. seat_calls_run world_init [SeatDefault] = Some w \<and> claim_run w 1 0 [(10, 5), (11, 9), (12, 3)] = Some w'
    \<and> latest_claim [(10, 5), (11, 9), (12, 3)] f t \<and> isz_seat_get_selection_owner w' (Some 1) 0 = Some (Some f)"
proof -
  have legal: "seat_calls_legal world_init [SeatDefault]"
    using isz_seat_default_ok [OF seats_ok_init] by auto
  from seat_calls_run_ok [OF seats_ok_init legal] obtain w where
    w: "seat_calls_run world_init [SeatDefault] = Some w" "seats_ok w" by auto
  then have "\<exists>s. w_seats w 1 = Some s \<and> st_selection_owner s ! 0 = None"
    by (auto simp: world_init_def bstate_init_def bstate.defs kern_init_def kern.defs isz_seat_default_def
        ensure_input_state_def isz_seat_create_def k_alloc_def Let_def seat_zero_def upd_seat_def)
  then obtain s where "w_seats w 1 = Some s" "st_selection_owner s ! nat 0 = None" by auto
  from selection_latest_wins [OF w(2) this(1) _ this(2), of "[(10, 5), (11, 9), (12, 3)]"] w(1)
  show ?thesis by auto
qed

end
