(* ===== verification/Isz_Consent.thy ===== *)
theory Isz_Consent
  imports Isz_World
begin

text \<open>
  Portal consent, \<^verbatim>\<open>src/isz_capture_consent.c\<close>: a table of 32 time-limited grants keyed by output and kind.
  There is one server, so the \<^verbatim>\<open>srv\<close> field of an entry is left out. The table is shown to implement a
  finite map from keys to expiry times in which a grant may evict one other key.
\<close>

section \<open>Operations\<close>

abbreviation (input) "ISZ_CONSENT_SLOTS \<equiv> (32 :: nat)"
abbreviation (input) "ISZ_CONSENT_TIMEOUT_NS \<equiv> (60000000000 :: u64)"

definition consent_kind_of_int :: "int \<Rightarrow> isz_consent_kind option" where
  "consent_kind_of_int v = (if v = 0 then Some ISZ_CONSENT_SCREEN_CAPTURE else if v = 1 then Some ISZ_CONSENT_FILE_ACCESS
     else if v = 2 then Some ISZ_CONSENT_NOTIFICATION else None)"

text \<open>The scan: \<open>i\<close> is the index of the first entry of the list, \<open>fr\<close> and \<open>old\<close> are \<^verbatim>\<open>free_slot\<close> and
  \<^verbatim>\<open>oldest\<close>, \<open>exp\<close> is \<^verbatim>\<open>oldest_expiry\<close>.\<close>

fun consent_scan ::
    "consent_entry list \<Rightarrow> nat \<Rightarrow> nat \<Rightarrow> isz_consent_kind \<Rightarrow> bool \<Rightarrow> nat option \<Rightarrow> nat option \<Rightarrow> u64 \<Rightarrow> nat option" where
  "consent_scan [] i out kind find_free fr old exp =
     (if \<not> find_free then None else if fr \<noteq> None then fr else old)"
| "consent_scan (e # es) i out kind find_free fr old exp =
     (if \<not> cs_used e
      then consent_scan es (i + 1) out kind find_free (if find_free \<and> fr = None then Some i else fr) old exp
      else if cs_output e = out \<and> cs_kind e = kind then Some i
      else if find_free \<and> cs_expires_ns e < exp
      then consent_scan es (i + 1) out kind find_free fr (Some i) (cs_expires_ns e)
      else consent_scan es (i + 1) out kind find_free fr old exp)"

definition isz_consent_find :: "consent_entry list \<Rightarrow> nat \<Rightarrow> isz_consent_kind \<Rightarrow> bool \<Rightarrow> nat option" where
  "isz_consent_find es out kind find_free = consent_scan es 0 out kind find_free None None (- 1)"

definition isz_consent_grant :: "world \<Rightarrow> nat option \<Rightarrow> int \<Rightarrow> world \<times> isz_error" where
  "isz_consent_grant w output kind = (case output of
       None \<Rightarrow> (w, ISZ_ERR_INVALID_ARG)
     | Some out \<Rightarrow>
         (case consent_kind_of_int kind of
            None \<Rightarrow> (w, ISZ_ERR_INVALID_ARG)
          | Some kd \<Rightarrow>
              (case isz_consent_find (w_consents w) out kd True of
                 None \<Rightarrow> (w, ISZ_ERR_RESOURCE_LIMIT)
               | Some i \<Rightarrow>
                   let (w, now) = k_now w
                   in (w\<lparr>w_consents := (w_consents w)[i :=
                          \<lparr>cs_output = out, cs_kind = kd, cs_expires_ns = now + ISZ_CONSENT_TIMEOUT_NS, cs_used = True\<rparr>]\<rparr>,
                       ISZ_OK))))"

definition isz_consent_check :: "world \<Rightarrow> nat option \<Rightarrow> int \<Rightarrow> world \<times> bool" where
  "isz_consent_check w output kind = (case output of
       None \<Rightarrow> (w, False)
     | Some out \<Rightarrow>
         (case consent_kind_of_int kind of
            None \<Rightarrow> (w, False)
          | Some kd \<Rightarrow>
              (case isz_consent_find (w_consents w) out kd False of
                 None \<Rightarrow> (w, False)
               | Some i \<Rightarrow>
                   if \<not> cs_used (w_consents w ! i) then (w, False)
                   else let (w, now) = k_now w
                        in if now \<ge> cs_expires_ns (w_consents w ! i)
                           then (w\<lparr>w_consents := (w_consents w)[i := (w_consents w ! i)\<lparr>cs_used := False\<rparr>]\<rparr>, False)
                           else (w, True))))"

definition isz_capture_grant :: "world \<Rightarrow> nat option \<Rightarrow> world" where
  "isz_capture_grant w output = fst (isz_consent_grant w output 0)"

definition isz_capture_check_consent :: "world \<Rightarrow> nat option \<Rightarrow> world \<times> bool" where
  "isz_capture_check_consent w output = isz_consent_check w output 0"

section \<open>The table as a map\<close>

abbreviation (input) ckey :: "consent_entry \<Rightarrow> nat \<times> isz_consent_kind" where
  "ckey e \<equiv> (cs_output e, cs_kind e)"

definition grants :: "consent_entry list \<Rightarrow> nat \<times> isz_consent_kind \<Rightarrow> u64 option" where
  "grants es k = map_option cs_expires_ns (find (\<lambda>e. cs_used e \<and> ckey e = k) es)"

text \<open>A key has at most one used entry.\<close>

definition consents_ok :: "consent_entry list \<Rightarrow> bool" where
  "consents_ok es \<longleftrightarrow> length es = ISZ_CONSENT_SLOTS
     \<and> (\<forall>i < length es. \<forall>j < length es. cs_used (es ! i) \<and> cs_used (es ! j) \<and> ckey (es ! i) = ckey (es ! j) \<longrightarrow> i = j)"

text \<open>What a scan for a free entry returns: the entry of the key, else a free one, else some entry.\<close>

lemma consent_scan_hit:
  assumes "\<exists>e \<in> set es. cs_used e \<and> ckey e = (out, kind)"
  shows "\<exists>j < length es. consent_scan es i out kind ff fr old exp = Some (i + j) \<and> cs_used (es ! j) \<and> ckey (es ! j) = (out, kind)"
  using assms
proof (induction es arbitrary: i fr old exp)
  case (Cons e es)
  show ?case
  proof (cases "cs_used e \<and> ckey e = (out, kind)")
    case True
    then show ?thesis by (intro exI [of _ 0]) simp
  next
    case False
    with Cons.prems have "\<exists>e \<in> set es. cs_used e \<and> ckey e = (out, kind)" by auto
    note IH = Cons.IH [OF this]
    let ?fr = "if \<not> cs_used e \<and> ff \<and> fr = None then Some i else fr"
    let ?hit = "cs_used e \<and> ff \<and> cs_expires_ns e < exp"
    have "consent_scan (e # es) i out kind ff fr old exp
        = consent_scan es (i + 1) out kind ff ?fr (if ?hit then Some i else old) (if ?hit then cs_expires_ns e else exp)"
      using False by auto
    with IH [of "i + 1" ?fr "if ?hit then Some i else old" "if ?hit then cs_expires_ns e else exp"] show ?thesis by fastforce
  qed
qed simp

lemma consent_scan_miss:
  assumes "\<not> (\<exists>e \<in> set es. cs_used e \<and> ckey e = (out, kind))"
  shows "consent_scan es i out kind False fr old exp = None"
  using assms
proof (induction es arbitrary: i fr old exp)
  case (Cons e es)
  then have "\<not> (cs_used e \<and> ckey e = (out, kind))" "\<not> (\<exists>e \<in> set es. cs_used e \<and> ckey e = (out, kind))"
    by auto
  with Cons.IH show ?case by auto
qed simp

lemma consent_scan_free:
  assumes "\<not> (\<exists>e \<in> set es. cs_used e \<and> ckey e = (out, kind))"
    "consent_scan es i out kind True fr old exp = Some n"
  shows "fr = Some n \<or> fr = None \<and> (\<exists>j < length es. n = i + j \<and> \<not> cs_used (es ! j))
    \<or> fr = None \<and> (\<forall>e \<in> set es. cs_used e) \<and> (old = Some n \<or> (\<exists>j < length es. n = i + j))"
  using assms
proof (induction es arbitrary: i fr old exp)
  case Nil
  then show ?case by (auto split: if_splits)
next
  case (Cons e es)
  then have miss: "\<not> (cs_used e \<and> ckey e = (out, kind))" "\<not> (\<exists>e \<in> set es. cs_used e \<and> ckey e = (out, kind))"
    by auto
  let ?fr = "if \<not> cs_used e \<and> fr = None then Some i else fr"
  let ?hit = "cs_used e \<and> cs_expires_ns e < exp"
  let ?old = "if ?hit then Some i else old"
  have "consent_scan es (i + 1) out kind True ?fr ?old (if ?hit then cs_expires_ns e else exp) = Some n"
    using Cons.prems(2) miss(1) by (auto split: if_splits)
  from Cons.IH [OF miss(2) this] consider "?fr = Some n"
    | j where "?fr = None" "j < length es" "n = i + 1 + j" "\<not> cs_used (es ! j)"
    | "?fr = None" "\<forall>e \<in> set es. cs_used e" "?old = Some n"
    | j where "?fr = None" "\<forall>e \<in> set es. cs_used e" "j < length es" "n = i + 1 + j" by (elim disjE conjE exE) assumption+
  then show ?case
  proof cases
    case 1
    then show ?thesis by (cases "\<not> cs_used e \<and> fr = None") (auto intro!: exI [of _ 0])
  next
    case 2
    then show ?thesis by (auto split: if_splits intro!: exI [of _ "j + 1"])
  next
    case 3
    then show ?thesis by (auto split: if_splits)
  next
    case 4
    then show ?thesis by (auto split: if_splits intro!: exI [of _ "j + 1"])
  qed
qed

lemma grants_Some:
  assumes "consents_ok es"
  shows "grants es k = Some t \<longleftrightarrow> (\<exists>i < length es. cs_used (es ! i) \<and> ckey (es ! i) = k \<and> cs_expires_ns (es ! i) = t)"
proof
  assume "grants es k = Some t"
  then show "\<exists>i < length es. cs_used (es ! i) \<and> ckey (es ! i) = k \<and> cs_expires_ns (es ! i) = t"
    by (auto simp: grants_def find_Some_iff)
next
  assume "\<exists>i < length es. cs_used (es ! i) \<and> ckey (es ! i) = k \<and> cs_expires_ns (es ! i) = t"
  then obtain i where i: "i < length es" "cs_used (es ! i)" "ckey (es ! i) = k" "cs_expires_ns (es ! i) = t" by blast
  have "\<not> (cs_used (es ! j) \<and> ckey (es ! j) = k)" if "j < i" for j
    using assms i that unfolding consents_ok_def by (metis less_trans less_irrefl)
  with i have "find (\<lambda>e. cs_used e \<and> ckey e = k) es = Some (es ! i)"
    unfolding find_Some_iff by (intro exI [of _ i]) auto
  with i(4) show "grants es k = Some t" by (simp add: grants_def)
qed

lemma grants_None: "grants es k = None \<longleftrightarrow> \<not> (\<exists>e \<in> set es. cs_used e \<and> ckey e = k)"
  by (auto simp: grants_def find_None_iff)

lemma grants_hit: "grants es k = Some t \<Longrightarrow> \<exists>e \<in> set es. cs_used e \<and> ckey e = k"
  by (auto simp: grants_def find_Some_iff)

lemma isz_consent_find_check:
  assumes "consents_ok es"
  shows "case grants es (out, kd) of
      None \<Rightarrow> isz_consent_find es out kd False = None
    | Some t \<Rightarrow> \<exists>i < length es. isz_consent_find es out kd False = Some i \<and> cs_used (es ! i) \<and> ckey (es ! i) = (out, kd)
        \<and> cs_expires_ns (es ! i) = t"
proof (cases "grants es (out, kd)")
  case None
  then have "\<not> (\<exists>e \<in> set es. cs_used e \<and> ckey e = (out, kd))" by (rule grants_None [THEN iffD1])
  from consent_scan_miss [OF this] None show ?thesis by (simp add: isz_consent_find_def)
next
  case (Some t)
  note hit = grants_hit [OF Some]
  from consent_scan_hit [OF hit, of 0 False None None "- 1"] obtain i where
    i: "i < length es" "isz_consent_find es out kd False = Some i" "cs_used (es ! i)" "ckey (es ! i) = (out, kd)"
    by (auto simp: isz_consent_find_def)
  then have "grants es (out, kd) = Some (cs_expires_ns (es ! i))" using grants_Some [OF assms] by blast
  with i Some show ?thesis by auto
qed

lemma isz_consent_find_grant:
  assumes "consents_ok es" "isz_consent_find es out kd True = Some i"
  shows "i < length es \<and> (cs_used (es ! i) \<and> ckey (es ! i) = (out, kd)
    \<or> grants es (out, kd) = None \<and> (\<not> cs_used (es ! i) \<or> (\<forall>e \<in> set es. cs_used e)))"
proof (cases "grants es (out, kd)")
  case None
  then have "\<not> (\<exists>e \<in> set es. cs_used e \<and> ckey e = (out, kd))" by (rule grants_None [THEN iffD1])
  from consent_scan_free [OF this assms(2) [unfolded isz_consent_find_def]] None show ?thesis by auto
next
  case (Some t)
  note hit = grants_hit [OF Some]
  from consent_scan_hit [OF hit, of 0 True None None "- 1"] assms(2) show ?thesis by (auto simp: isz_consent_find_def)
qed

text \<open>Writing a grant into the entry that was found.\<close>

lemma grants_update:
  assumes "consents_ok es" "i < length es" "cs_used (es ! i) \<and> ckey (es ! i) = k \<or> grants es k = None"
    "cs_used e" "ckey e = k"
  shows "consents_ok (es[i := e])"
    "grants (es[i := e]) = (\<lambda>k'. if k' = k then Some (cs_expires_ns e)
        else if cs_used (es ! i) \<and> ckey (es ! i) = k' then None else grants es k')"
proof -
  have other: "\<not> (cs_used (es ! j) \<and> ckey (es ! j) = k)" if "j < length es" "j \<noteq> i" for j
  proof
    assume h: "cs_used (es ! j) \<and> ckey (es ! j) = k"
    then have "grants es k \<noteq> None" using that(1) by (auto simp: grants_None)
    with assms(3) have "cs_used (es ! i) \<and> ckey (es ! i) = k" by simp
    with h assms(1,2) that show False unfolding consents_ok_def by blast
  qed
  show ok': "consents_ok (es[i := e])"
    unfolding consents_ok_def
  proof (intro conjI allI impI)
    show "length (es[i := e]) = ISZ_CONSENT_SLOTS" using assms(1) by (simp add: consents_ok_def)
  next
    fix a b
    assume ab: "a < length (es[i := e])" "b < length (es[i := e])"
      "cs_used (es[i := e] ! a) \<and> cs_used (es[i := e] ! b) \<and> ckey (es[i := e] ! a) = ckey (es[i := e] ! b)"
    then show "a = b"
      using other [of a] other [of b] assms(1,2,5) by (cases "a = i"; cases "b = i") (auto simp: consents_ok_def)
  qed
  have "grants (es[i := e]) k' = (if k' = k then Some (cs_expires_ns e)
      else if cs_used (es ! i) \<and> ckey (es ! i) = k' then None else grants es k')" for k'
  proof (rule option_eqI)
    fix t
    show "grants (es[i := e]) k' = Some t \<longleftrightarrow> (if k' = k then Some (cs_expires_ns e)
      else if cs_used (es ! i) \<and> ckey (es ! i) = k' then None else grants es k') = Some t"
    proof (cases "k' = k")
      case True
      have "(\<exists>j < length es. cs_used (es[i := e] ! j) \<and> ckey (es[i := e] ! j) = k \<and> cs_expires_ns (es[i := e] ! j) = t)
          \<longleftrightarrow> cs_expires_ns e = t"
        using other assms(2,4,5) by (metis nth_list_update_eq nth_list_update_neq)
      with True show ?thesis unfolding grants_Some [OF ok'] by simp
    next
      case False
      have "(\<exists>j < length es. cs_used (es[i := e] ! j) \<and> ckey (es[i := e] ! j) = k' \<and> cs_expires_ns (es[i := e] ! j) = t)
          \<longleftrightarrow> (\<exists>j < length es. j \<noteq> i \<and> cs_used (es ! j) \<and> ckey (es ! j) = k' \<and> cs_expires_ns (es ! j) = t)"
        using False assms(2,5) by (metis nth_list_update_eq nth_list_update_neq)
      also have "\<dots> \<longleftrightarrow> \<not> (cs_used (es ! i) \<and> ckey (es ! i) = k') \<and> grants es k' = Some t"
        unfolding grants_Some [OF assms(1)] using assms(1,2) unfolding consents_ok_def by metis
      finally show ?thesis using False unfolding grants_Some [OF ok'] by simp
    qed
  qed
  then show "grants (es[i := e]) = (\<lambda>k'. if k' = k then Some (cs_expires_ns e)
        else if cs_used (es ! i) \<and> ckey (es ! i) = k' then None else grants es k')" by blast
qed

lemma kern_more_now: "kern.more (fst (k_now k)) = kern.more k"
  by (simp add: k_now_def split: list.splits)

text \<open>Marking an entry unused removes its key.\<close>

lemma grants_expire:
  assumes "consents_ok es" "i < length es" "cs_used (es ! i)"
  shows "consents_ok (es[i := (es ! i)\<lparr>cs_used := False\<rparr>])"
    "grants (es[i := (es ! i)\<lparr>cs_used := False\<rparr>]) = (grants es)(ckey (es ! i) := None)"
proof -
  let ?es = "es[i := (es ! i)\<lparr>cs_used := False\<rparr>]"
  have same: "cs_used (?es ! j) \<longleftrightarrow> j \<noteq> i \<and> cs_used (es ! j)" "cs_output (?es ! j) = cs_output (es ! j)"
    "cs_kind (?es ! j) = cs_kind (es ! j)" "cs_expires_ns (?es ! j) = cs_expires_ns (es ! j)" if "j < length es" for j
    using that by (cases "j = i"; simp)+
  show ok': "consents_ok ?es" using assms(1) by (simp add: consents_ok_def same)
  have "grants ?es k = ((grants es)(ckey (es ! i) := None)) k" for k
  proof (rule option_eqI)
    fix t
    have "(\<exists>j < length es. j \<noteq> i \<and> cs_used (es ! j) \<and> ckey (es ! j) = k \<and> cs_expires_ns (es ! j) = t)
        \<longleftrightarrow> ckey (es ! i) \<noteq> k \<and> grants es k = Some t"
      unfolding grants_Some [OF assms(1)] using assms unfolding consents_ok_def by metis
    then show "grants ?es k = Some t \<longleftrightarrow> ((grants es)(ckey (es ! i) := None)) k = Some t"
      unfolding grants_Some [OF ok'] by (auto simp: same cong: conj_cong)
  qed
  then show "grants ?es = (grants es)(ckey (es ! i) := None)" by blast
qed

lemma isz_consent_check_spec:
  assumes "consents_ok (w_consents w)" "consent_kind_of_int kind = Some kd" "isz_consent_check w (Some out) kind = (w', b)"
  shows "b \<longleftrightarrow> (\<exists>t. grants (w_consents w) (out, kd) = Some t \<and> snd (k_now w) < t)"
    "consents_ok (w_consents w')"
    "grants (w_consents w') = (if b then grants (w_consents w) else (grants (w_consents w))((out, kd) := None))"
    "kern.more (w'\<lparr>w_consents := w_consents w\<rparr>) = kern.more w"
proof -
  obtain w1 now where n: "k_now w = (w1, now)" by fastforce
  have m: "kern.more w1 = kern.more w" using kern_more_now [of w] n by simp
  note f = kern_more_world(23) [OF m]
  have more: "kern.more (w1\<lparr>w_consents := x, w_consents := w_consents w\<rparr>) = kern.more w" for x
    using m by (cases w; cases w1) simp
  note find = isz_consent_find_check [OF assms(1), of out kd]
  have "(b \<longleftrightarrow> (\<exists>t. grants (w_consents w) (out, kd) = Some t \<and> now < t)) \<and> consents_ok (w_consents w')
    \<and> grants (w_consents w') = (if b then grants (w_consents w) else (grants (w_consents w))((out, kd) := None))
    \<and> kern.more (w'\<lparr>w_consents := w_consents w\<rparr>) = kern.more w"
  proof (cases "grants (w_consents w) (out, kd)")
    case None
    with find assms show ?thesis by (cases w) (auto simp: isz_consent_check_def fun_upd_idem)
  next
    case (Some t)
    with find obtain i where i: "i < length (w_consents w)" "isz_consent_find (w_consents w) out kd False = Some i"
      "cs_used (w_consents w ! i)" "ckey (w_consents w ! i) = (out, kd)" "cs_expires_ns (w_consents w ! i) = t" by auto
    note expire = grants_expire [OF assms(1) i(1,3), unfolded i(4)]
    show ?thesis
    proof (cases "now \<ge> t")
      case True
      with assms(2,3) i n f have "b = False" "w' = w1\<lparr>w_consents := (w_consents w)[i := (w_consents w ! i)\<lparr>cs_used := False\<rparr>]\<rparr>"
        by (auto simp: isz_consent_check_def)
      with expire more Some True show ?thesis by auto
    next
      case False
      with assms(2,3) i n f have "b" "w' = w1" by (auto simp: isz_consent_check_def)
      with assms(1) Some False f more [of "w_consents w1"] show ?thesis by (auto simp: not_le)
    qed
  qed
  then show "b \<longleftrightarrow> (\<exists>t. grants (w_consents w) (out, kd) = Some t \<and> snd (k_now w) < t)"
    "consents_ok (w_consents w')"
    "grants (w_consents w') = (if b then grants (w_consents w) else (grants (w_consents w))((out, kd) := None))"
    "kern.more (w'\<lparr>w_consents := w_consents w\<rparr>) = kern.more w"
    using n by auto
qed

lemma isz_consent_grant_spec:
  assumes "consents_ok (w_consents w)" "consent_kind_of_int kind = Some kd" "isz_consent_grant w (Some out) kind = (w', ISZ_OK)"
  shows "consents_ok (w_consents w')"
    "\<exists>ev. grants (w_consents w') = (\<lambda>k. if k = (out, kd) then Some (snd (k_now w) + ISZ_CONSENT_TIMEOUT_NS)
          else if ev = Some k then None else grants (w_consents w) k)
      \<and> (ev \<noteq> None \<longrightarrow> (\<forall>e \<in> set (w_consents w). cs_used e))"
    "kern.more (w'\<lparr>w_consents := w_consents w\<rparr>) = kern.more w"
proof -
  let ?es = "w_consents w"
  obtain w1 now where n: "k_now w = (w1, now)" by fastforce
  have m: "kern.more w1 = kern.more w" using kern_more_now [of w] n by simp
  from assms(2,3) obtain i where i: "isz_consent_find ?es out kd True = Some i"
    by (auto simp: isz_consent_grant_def split: option.splits)
  let ?e = "\<lparr>cs_output = out, cs_kind = kd, cs_expires_ns = now + ISZ_CONSENT_TIMEOUT_NS, cs_used = True\<rparr>"
  have w': "w' = w1\<lparr>w_consents := ?es[i := ?e]\<rparr>"
    using assms(2,3) i n kern_more_world(23) [OF m] by (auto simp: isz_consent_grant_def)
  note find = isz_consent_find_grant [OF assms(1) i]
  have "cs_used (?es ! i) \<and> ckey (?es ! i) = (out, kd) \<or> grants ?es (out, kd) = None" using find by auto
  note upd = grants_update [OF assms(1) conjunct1 [OF find] this, of ?e]
  show "consents_ok (w_consents w')" using upd(1) w' by simp
  let ?ev = "if cs_used (?es ! i) \<and> ckey (?es ! i) \<noteq> (out, kd) then Some (ckey (?es ! i)) else None"
  have "grants (w_consents w') = (\<lambda>k. if k = (out, kd) then Some (now + ISZ_CONSENT_TIMEOUT_NS)
        else if ?ev = Some k then None else grants ?es k)"
    using upd(2) w' by (auto simp: fun_eq_iff)
  moreover have "?ev \<noteq> None \<longrightarrow> (\<forall>e \<in> set ?es. cs_used e)" using find by auto
  ultimately show "\<exists>ev. grants (w_consents w') = (\<lambda>k. if k = (out, kd) then Some (snd (k_now w) + ISZ_CONSENT_TIMEOUT_NS)
          else if ev = Some k then None else grants ?es k)
      \<and> (ev \<noteq> None \<longrightarrow> (\<forall>e \<in> set ?es. cs_used e))"
    unfolding n snd_conv by (intro exI [of _ ?ev] conjI)
  show "kern.more (w'\<lparr>w_consents := w_consents w\<rparr>) = kern.more w" using m w' by (cases w; cases w1) simp
qed

section \<open>Property\<close>

text \<open>a grant is valid for exactly sixty seconds. After a successful grant a check of the same output and
  kind at a later reading of the clock succeeds when fewer than sixty seconds have passed and fails,
  and withdraws the grant, otherwise; the grant takes at most one other grant away, and only when
  all 32 entries were in use; every other grant is as before.\<close>

theorem consent_valid_sixty_seconds:
  assumes "consents_ok (w_consents w)" and "consent_kind_of_int kind = Some kd"
    and "isz_consent_grant w (Some out) kind = (w1, ISZ_OK)"
    and "unat (snd (k_now w)) + 60000000000 < 2 ^ 64"
    and "isz_consent_check w1 (Some out) kind = (w2, b)"
  shows "(b \<longleftrightarrow> unat (snd (k_now w1)) < unat (snd (k_now w)) + 60000000000)
    \<and> (\<exists>ev. (ev \<noteq> None \<longrightarrow> (\<forall>e \<in> set (w_consents w). cs_used e))
      \<and> grants (w_consents w2) = (\<lambda>k. if k = (out, kd) then if b then Some (snd (k_now w) + 60000000000) else None
          else if ev = Some k then None else grants (w_consents w) k))"
proof
  note g = isz_consent_grant_spec [OF assms(1-3)]
  note c = isz_consent_check_spec [OF g(1) assms(2,5)]
  from g(2) obtain ev where ev: "ev \<noteq> None \<longrightarrow> (\<forall>e \<in> set (w_consents w). cs_used e)"
    "grants (w_consents w1) = (\<lambda>k. if k = (out, kd) then Some (snd (k_now w) + 60000000000)
          else if ev = Some k then None else grants (w_consents w) k)" by auto
  have "unat (snd (k_now w) + 60000000000) = unat (snd (k_now w)) + 60000000000"
    using assms(4) by (subst unat_add_lem [THEN iffD1]) simp_all
  then show "b \<longleftrightarrow> unat (snd (k_now w1)) < unat (snd (k_now w)) + 60000000000"
    using c(1) ev(2) by (simp add: word_less_nat_alt)
  from ev c(3) show "\<exists>ev. (ev \<noteq> None \<longrightarrow> (\<forall>e \<in> set (w_consents w). cs_used e))
      \<and> grants (w_consents w2) = (\<lambda>k. if k = (out, kd) then if b then Some (snd (k_now w) + 60000000000) else None
          else if ev = Some k then None else grants (w_consents w) k)"
    by (intro exI [of _ ev]) (auto simp: fun_eq_iff)
qed

lemma consents_ok_init: "consents_ok (w_consents world_init)"
  by (simp add: consents_ok_def world_init_def bstate_init_def bstate.defs kern_init_def kern.defs)

lemma init_grant_now:
  "\<exists>w1. isz_consent_grant (world_init\<lparr>k_clock := [5, t]\<rparr>) (Some 1) 0 = (w1, ISZ_OK) \<and> snd (k_now w1) = t"
  by (simp add: isz_consent_grant_def consent_kind_of_int_def isz_consent_find_def world_init_def bstate_init_def bstate.defs
      kern_init_def kern.defs k_now_def numeral_eq_Suc)

theorem consent_valid_sixty_seconds_witness:
  "\<exists>w1. isz_consent_grant (world_init\<lparr>k_clock := [5, 60000000004]\<rparr>) (Some 1) 0 = (w1, ISZ_OK)
     \<and> snd (isz_consent_check w1 (Some 1) 0)"
proof -
  let ?w = "world_init\<lparr>k_clock := [5, 60000000004]\<rparr>"
  obtain w1 where w1: "isz_consent_grant ?w (Some 1) 0 = (w1, ISZ_OK)" "snd (k_now w1) = 60000000004"
    using init_grant_now by blast
  have "consents_ok (w_consents ?w)" "consent_kind_of_int 0 = Some ISZ_CONSENT_SCREEN_CAPTURE" "snd (k_now ?w) = 5"
    using consents_ok_init by (simp_all add: consent_kind_of_int_def k_now_def)
  with consent_valid_sixty_seconds [of ?w 0 _ 1 w1 "fst (isz_consent_check w1 (Some 1) 0)" "snd (isz_consent_check w1 (Some 1) 0)"] w1
  show ?thesis by auto
qed

end
