(* ===== verification/Isz_Capture.thy ===== *)
theory Isz_Capture
  imports Isz_Consent Isz_Output
begin

text \<open>
  Screen capture, \<^verbatim>\<open>src/render/isz_capture.c\<close>, in the build without DRM: the table of at most eight running
  captures, the consent gate of \<^verbatim>\<open>isz_output_capture_start\<close>, and the hand-back of the buffer by
  \<^verbatim>\<open>isz_output_capture_stop\<close> through \<^verbatim>\<open>isz_render_send_capture_done\<close> of \<^verbatim>\<open>src/isz_client_dispatch.c\<close>.
\<close>

section \<open>Operations\<close>

abbreviation (input) "ISZ_CAPTURE_MAX \<equiv> (8 :: nat)"

fun capture_find_from :: "capture list \<Rightarrow> nat \<Rightarrow> nat \<Rightarrow> nat option" where
  "capture_find_from [] out i = None"
| "capture_find_from (c # cs) out i = (if cp_out c = out \<and> cp_active c then Some i else capture_find_from cs out (i + 1))"

definition capture_find :: "capture list \<Rightarrow> nat \<Rightarrow> nat option" where
  "capture_find cs out = capture_find_from cs out 0"

definition isz_capture_set_owning_conn :: "world \<Rightarrow> nat option \<Rightarrow> nat option \<Rightarrow> world" where
  "isz_capture_set_owning_conn w out conn = (case out of
       None \<Rightarrow> w
     | Some r \<Rightarrow>
         (case capture_find (w_captures w) r of
            None \<Rightarrow> w
          | Some i \<Rightarrow> w\<lparr>w_captures := (w_captures w)[i := (w_captures w ! i)\<lparr>cp_owning_conn := conn\<rparr>]\<rparr>))"

definition isz_capture_get_owning_conn :: "world \<Rightarrow> nat option \<Rightarrow> nat option" where
  "isz_capture_get_owning_conn w out = (case out of
       None \<Rightarrow> None
     | Some r \<Rightarrow>
         (case capture_find (w_captures w) r of None \<Rightarrow> None | Some i \<Rightarrow> cp_owning_conn (w_captures w ! i)))"

definition isz_render_send_capture_done :: "world \<Rightarrow> nat option \<Rightarrow> fd \<Rightarrow> world option" where
  "isz_render_send_capture_done w out dmabuf_fd = (case out of
       None \<Rightarrow> Some w
     | Some r \<Rightarrow>
         (case isz_capture_get_owning_conn w (Some r) of
            None \<Rightarrow> Some w
          | Some c \<Rightarrow> do { o' \<leftarrow> w_outputs w r; isz_send_capture_done w (Some c) (o_id o') dmabuf_fd }))"

definition isz_output_capture_start :: "world \<Rightarrow> nat option \<Rightarrow> fd \<Rightarrow> buffer_desc option \<Rightarrow> (world \<times> isz_error) option" where
  "isz_output_capture_start w out dmabuf_fd desc = (case out of
       None \<Rightarrow> Some (if dmabuf_fd \<ge> 0 then k_close w dmabuf_fd else w, ISZ_ERR_INVALID_ARG)
     | Some r \<Rightarrow>
         (case desc of
            None \<Rightarrow> Some (w, ISZ_ERR_INVALID_ARG)
          | Some d \<Rightarrow>
              if dmabuf_fd < 0 then Some (w, ISZ_ERR_INVALID_ARG)
              else do {
                o' \<leftarrow> w_outputs w r;
                let (w, granted) = isz_capture_check_consent w (Some r);
                (if \<not> granted then Some (k_close w dmabuf_fd, ISZ_ERR_ACCESS_DENIED)
                 else if capture_find (w_captures w) r \<noteq> None then Some (k_close w dmabuf_fd, ISZ_ERR_INVALID_ARG)
                 else if length (w_captures w) \<ge> ISZ_CAPTURE_MAX then Some (k_close w dmabuf_fd, ISZ_ERR_RESOURCE_LIMIT)
                 else Some (w\<lparr>w_captures := w_captures w @ [\<lparr>cp_out = r, cp_dmabuf_fd = dmabuf_fd, cp_desc = d,
                                                            cp_active = True, cp_owning_conn = None\<rparr>]\<rparr>, ISZ_OK))
              }))"

definition isz_output_capture_stop :: "world \<Rightarrow> nat option \<Rightarrow> (world \<times> isz_error) option" where
  "isz_output_capture_stop w out = (case out of
       None \<Rightarrow> Some (w, ISZ_ERR_INVALID_ARG)
     | Some r \<Rightarrow>
         (case capture_find (w_captures w) r of
            None \<Rightarrow> Some (w, ISZ_ERR_INVALID_ARG)
          | Some idx \<Rightarrow> do {
              let d = cp_dmabuf_fd (w_captures w ! idx);
              let cs = (w_captures w)[idx := (w_captures w ! idx)\<lparr>cp_active := False\<rparr>];
              let count = length cs - 1;
              let cs = (if idx \<noteq> count then cs[idx := cs ! count] else cs);
              w \<leftarrow> isz_render_send_capture_done (w\<lparr>w_captures := take count cs\<rparr>) (Some r) d;
              Some (w, ISZ_OK)
            }))"

section \<open>Invariant\<close>

definition captures_ok :: "capture list \<Rightarrow> bool" where
  "captures_ok cs \<longleftrightarrow> length cs \<le> ISZ_CAPTURE_MAX \<and> distinct (map cp_out cs) \<and> (\<forall>c \<in> set cs. cp_active c \<and> cp_dmabuf_fd c \<ge> 0)"

lemma capture_find_from_Some:
  "capture_find_from cs out i = Some n \<Longrightarrow> i \<le> n \<and> n - i < length cs \<and> cp_out (cs ! (n - i)) = out \<and> cp_active (cs ! (n - i))"
  by (induction cs arbitrary: i) (fastforce simp: nth_Cons' split: if_splits)+

lemma capture_find_from_None: "capture_find_from cs out i = None \<longleftrightarrow> (\<forall>c \<in> set cs. \<not> (cp_out c = out \<and> cp_active c))"
  by (induction cs arbitrary: i) auto

lemma capture_find_Some: "capture_find cs out = Some n \<Longrightarrow> n < length cs \<and> cp_out (cs ! n) = out \<and> cp_active (cs ! n)"
  using capture_find_from_Some [of cs out 0 n] by (simp add: capture_find_def)

lemma capture_find_None: "capture_find cs out = None \<longleftrightarrow> (\<forall>c \<in> set cs. \<not> (cp_out c = out \<and> cp_active c))"
  by (simp add: capture_find_def capture_find_from_None)

text \<open>The compaction removes the entry.\<close>

lemma capture_compact:
  assumes "captures_ok cs" "idx < length cs"
  defines "cs1 \<equiv> cs[idx := (cs ! idx)\<lparr>cp_active := False\<rparr>]"
  defines "cs2 \<equiv> take (length cs1 - 1) (if idx \<noteq> length cs1 - 1 then cs1[idx := cs1 ! (length cs1 - 1)] else cs1)"
  shows "mset cs2 = mset cs - {#cs ! idx#}" "captures_ok cs2" "capture_find cs2 (cp_out (cs ! idx)) = None"
proof -
  have "mset cs1 = add_mset (cs1 ! idx) (mset cs - {#cs ! idx#})"
    using assms(2) by (simp add: cs1_def mset_update)
  then show ms: "mset cs2 = mset cs - {#cs ! idx#}"
    using swap_remove_mset [of idx cs1] assms(2) by (simp add: cs2_def cs1_def)
  then have cs: "mset cs = mset (cs ! idx # cs2)" using assms(2) by simp
  then have "mset (map cp_out cs) = mset (map cp_out (cs ! idx # cs2))" by (simp only: mset_map)
  moreover have "distinct (map cp_out cs)" using assms(1) by (simp add: captures_ok_def)
  ultimately have dist: "distinct (cp_out (cs ! idx) # map cp_out cs2)" by (metis mset_eq_imp_distinct_iff list.simps(9))
  have "set cs = set (cs ! idx # cs2)" using cs by (rule mset_eq_setD)
  with dist assms(1) show "captures_ok cs2" by (auto simp: captures_ok_def cs2_def cs1_def)
  from dist show "capture_find cs2 (cp_out (cs ! idx)) = None" by (auto simp: capture_find_None image_iff)
qed

text \<open>What the operations of this component leave alone.\<close>

definition capture_frame :: "world \<Rightarrow> world \<Rightarrow> bool" where
  "capture_frame w w' \<longleftrightarrow>
     kern.more (w'\<lparr>w_captures := w_captures w, w_consents := w_consents w\<rparr>) = kern.more w"

lemma capture_frame_fields:
  assumes "capture_frame w w'"
  shows "bs_bufs w' = bs_bufs w" "bs_next_buf w' = bs_next_buf w" "w_state w' = w_state w" "w_backend w' = w_backend w"
    "w_outputs w' = w_outputs w" "w_output_list w' = w_output_list w" "w_next_output w' = w_next_output w"
    "w_surfaces w' = w_surfaces w" "w_surface_list w' = w_surface_list w"
    "w_next_surface w' = w_next_surface w" "w_children w' = w_children w" "w_conns w' = w_conns w"
    "w_resv w' = w_resv w" "w_clipboard w' = w_clipboard w" "w_selection_fd w' = w_selection_fd w"
    "w_events w' = w_events w" "w_seats w' = w_seats w" "w_seat_list w' = w_seat_list w" "w_next_seat w' = w_next_seat w"
    "w_default_seat w' = w_default_seat w" "w_input_state w' = w_input_state w" "w_text_inputs w' = w_text_inputs w"
    "w_next_text_input w' = w_next_text_input w" "w_input_methods w' = w_input_methods w"
    "w_next_input_method w' = w_next_input_method w"
    "w_clients w' = w_clients w" "w_client_list w' = w_client_list w"
    "w_next_client w' = w_next_client w" "w_next_conn w' = w_next_conn w"
  using kern_more_world [OF assms [unfolded capture_frame_def]] by simp_all

lemma capture_frame_refl [simp]: "capture_frame w w"
  by (cases w) (simp add: capture_frame_def)

lemma render_ok_capture: "capture_frame w w' \<Longrightarrow> render_ok w \<Longrightarrow> render_ok w'"
  using capture_frame_fields [of w w'] by (simp add: render_ok_def surfaces_ok_def surf_ok_def)

lemma outputs_ok_capture: "capture_frame w w' \<Longrightarrow> outputs_ok w \<Longrightarrow> outputs_ok w'"
  using capture_frame_fields [of w w'] by (simp add: outputs_ok_def)

lemma isz_capture_set_owning_conn_ok:
  assumes "captures_ok (w_captures w)"
  shows "captures_ok (w_captures (isz_capture_set_owning_conn w out conn))"
    "capture_frame w (isz_capture_set_owning_conn w out conn)"
    "w_consents (isz_capture_set_owning_conn w out conn) = w_consents w"
proof -
  have upd: "captures_ok (cs[i := (cs ! i)\<lparr>cp_owning_conn := conn\<rparr>])" if "captures_ok cs" "i < length cs" for cs i
  proof -
    have "map cp_out (cs[i := (cs ! i)\<lparr>cp_owning_conn := conn\<rparr>]) = map cp_out cs"
      using that(2) by (simp add: map_update list_update_same_conv)
    with that show ?thesis by (auto simp: captures_ok_def dest!: set_update_subset_insert [THEN subsetD])
  qed
  show "captures_ok (w_captures (isz_capture_set_owning_conn w out conn))"
    using assms by (auto simp: isz_capture_set_owning_conn_def split: option.splits dest!: capture_find_Some intro!: upd)
  show "capture_frame w (isz_capture_set_owning_conn w out conn)"
    "w_consents (isz_capture_set_owning_conn w out conn) = w_consents w"
    by (cases w; simp add: isz_capture_set_owning_conn_def capture_frame_def split: option.splits)+
qed

lemma isz_output_capture_start_outcome:
  assumes "captures_ok (w_captures w)" and "consents_ok (w_consents w)" and "w_outputs w r \<noteq> None" and "dmabuf_fd \<ge> 0"
  shows "\<exists>w' rc. isz_output_capture_start w (Some r) dmabuf_fd (Some d) = Some (w', rc)
    \<and> captures_ok (w_captures w') \<and> consents_ok (w_consents w') \<and> capture_frame w w'
    \<and> (rc = ISZ_OK \<longleftrightarrow> (\<exists>t. grants (w_consents w) (r, ISZ_CONSENT_SCREEN_CAPTURE) = Some t \<and> snd (k_now w) < t)
          \<and> r \<notin> cp_out ` set (w_captures w) \<and> length (w_captures w) < ISZ_CAPTURE_MAX)
    \<and> (if rc = ISZ_OK
       then k_closed w' = k_closed w \<and> (\<exists>c. w_captures w' = w_captures w @ [c] \<and> cp_out c = r \<and> cp_dmabuf_fd c = dmabuf_fd)
       else k_closed w' = k_closed w @ [dmabuf_fd] \<and> w_captures w' = w_captures w)"
proof -
  from assms(3) obtain o' where o': "w_outputs w r = Some o'" by auto
  obtain w1 b where c: "isz_consent_check w (Some r) 0 = (w1, b)" by fastforce
  have kd: "consent_kind_of_int 0 = Some ISZ_CONSENT_SCREEN_CAPTURE" by (simp add: consent_kind_of_int_def)
  note spec = isz_consent_check_spec [OF assms(2) kd c]
  have cap: "w_captures w1 = w_captures w" using kern_more_world(22) [OF spec(4)] by simp
  have closed: "k_closed w1 = k_closed w"
    using c by (auto simp: isz_consent_check_def k_now_def Let_def split: option.splits list.splits if_splits)
  have fr: "capture_frame w w1" "capture_frame w (k_close w1 dmabuf_fd)" "capture_frame w (w1\<lparr>w_captures := x\<rparr>)" for x
    using spec(4) by (cases w; cases w1; simp add: capture_frame_def k_close_def)+
  have find: "capture_find (w_captures w) r = None \<longleftrightarrow> r \<notin> cp_out ` set (w_captures w)"
    using assms(1) by (auto simp: capture_find_None captures_ok_def)
  show ?thesis
    using assms o' c spec(1,2) cap closed fr find
    by (cases b; cases "r \<in> cp_out ` set (w_captures w)"; cases "length (w_captures w) < 8")
       (auto simp: isz_output_capture_start_def isz_capture_check_consent_def captures_ok_def k_close_def)
qed

section \<open>Properties\<close>

text \<open>C20: a capture needs consent. Starting a capture on a live output returns; it succeeds exactly when an unexpired
  grant of screen capture exists for this output, the output is not being captured yet and fewer
  than eight captures run; then the descriptor is kept by the new entry, and in every other case it is
  closed exactly once and no capture starts.\<close>

theorem capture_needs_consent:
  assumes "captures_ok (w_captures w)" and "consents_ok (w_consents w)" and "w_outputs w r \<noteq> None" and "dmabuf_fd \<ge> 0"
  shows "\<exists>w' rc. isz_output_capture_start w (Some r) dmabuf_fd (Some d) = Some (w', rc)
    \<and> captures_ok (w_captures w') \<and> consents_ok (w_consents w') \<and> capture_frame w w'
    \<and> (rc = ISZ_OK \<longleftrightarrow> (\<exists>t. grants (w_consents w) (r, ISZ_CONSENT_SCREEN_CAPTURE) = Some t \<and> snd (k_now w) < t)
          \<and> r \<notin> cp_out ` set (w_captures w) \<and> length (w_captures w) < ISZ_CAPTURE_MAX)
    \<and> (if rc = ISZ_OK
       then k_closed w' = k_closed w \<and> (\<exists>c. w_captures w' = w_captures w @ [c] \<and> cp_out c = r \<and> cp_dmabuf_fd c = dmabuf_fd)
       else k_closed w' = k_closed w @ [dmabuf_fd] \<and> w_captures w' = w_captures w)"
  using assms by (rule isz_output_capture_start_outcome)

definition granted_world :: world where
  "granted_world = isz_capture_grant (sample_world\<lparr>k_clock := [5, 6]\<rparr>) (Some 1)"

lemma granted_world_facts:
  "captures_ok (w_captures granted_world)" "consents_ok (w_consents granted_world)" "w_outputs granted_world 1 \<noteq> None"
proof -
  let ?w = "sample_world\<lparr>k_clock := [5, 6]\<rparr>"
  have kd: "consent_kind_of_int 0 = Some ISZ_CONSENT_SCREEN_CAPTURE" by (simp add: consent_kind_of_int_def)
  have ok: "consents_ok (w_consents ?w)" using consents_ok_init by (simp add: sample_world_def)
  obtain w1 where w1: "isz_consent_grant ?w (Some 1) 0 = (w1, ISZ_OK)"
    by (simp add: isz_consent_grant_def consent_kind_of_int_def isz_consent_find_def sample_world_def world_init_def
        bstate_init_def bstate.defs kern_init_def kern.defs k_now_def numeral_eq_Suc)
  note g = isz_consent_grant_spec [OF ok kd w1]
  have gw: "granted_world = w1" using w1 by (simp add: granted_world_def isz_capture_grant_def)
  show "captures_ok (w_captures granted_world)" "consents_ok (w_consents granted_world)" "w_outputs granted_world 1 \<noteq> None"
    using g(1) kern_more_world [OF g(3)] unfolding gw
    by (simp_all add: sample_world_def captures_ok_def world_init_def bstate_init_def bstate.defs kern_init_def kern.defs)
qed

theorem capture_needs_consent_witness:
  "\<exists>w' rc. isz_output_capture_start granted_world (Some 1) 9 (Some sample_desc) = Some (w', rc)
    \<and> captures_ok (w_captures w') \<and> (if rc = ISZ_OK then \<exists>c. w_captures w' = w_captures granted_world @ [c] else w_captures w' = w_captures granted_world)"
  using capture_needs_consent [OF granted_world_facts, of 9 sample_desc] by (auto split: if_splits)

text \<open>Stopping a capture: the entry is removed before its owner is looked up, so no connection is found.\<close>

lemma isz_output_capture_stop_spec:
  assumes "captures_ok (w_captures w)"
  shows "\<exists>w' rc. isz_output_capture_stop w (Some r) = Some (w', rc) \<and> captures_ok (w_captures w') \<and> capture_frame w w'
    \<and> w_consents w' = w_consents w
    \<and> (if r \<in> cp_out ` set (w_captures w)
       then rc = ISZ_OK \<and> w' = w\<lparr>w_captures := w_captures w'\<rparr> \<and> r \<notin> cp_out ` set (w_captures w')
       else rc = ISZ_ERR_INVALID_ARG \<and> w' = w)"
proof (cases "capture_find (w_captures w) r")
  case None
  with assms have "r \<notin> cp_out ` set (w_captures w)" by (auto simp: capture_find_None captures_ok_def)
  with None assms show ?thesis by (simp add: isz_output_capture_stop_def)
next
  case (Some i)
  note i = capture_find_Some [OF Some]
  let ?cs1 = "(w_captures w)[i := (w_captures w ! i)\<lparr>cp_active := False\<rparr>]"
  define cs2 where "cs2 = take (length ?cs1 - 1) (if i \<noteq> length ?cs1 - 1 then ?cs1[i := ?cs1 ! (length ?cs1 - 1)] else ?cs1)"
  note cp = capture_compact [OF assms conjunct1 [OF i], folded cs2_def]
  let ?w' = "w\<lparr>w_captures := cs2\<rparr>"
  have none: "capture_find cs2 r = None" using cp(3) i by simp
  then have "isz_render_send_capture_done ?w' (Some r) d = Some ?w'" for d
    by (simp add: isz_render_send_capture_done_def isz_capture_get_owning_conn_def)
  moreover have "isz_output_capture_stop w (Some r)
      = isz_render_send_capture_done ?w' (Some r) (cp_dmabuf_fd (w_captures w ! i)) \<bind> (\<lambda>w. Some (w, ISZ_OK))"
    unfolding isz_output_capture_stop_def Let_def cs2_def by (simp only: option.case Some)
  ultimately have run: "isz_output_capture_stop w (Some r) = Some (?w', ISZ_OK)" by simp
  have "r \<in> cp_out ` set (w_captures w)" using i by force
  moreover have "r \<notin> cp_out ` set cs2" using none cp(2) by (auto simp: capture_find_None captures_ok_def)
  moreover have "capture_frame w ?w'" by (cases w) (simp add: capture_frame_def)
  ultimately show ?thesis using run cp(2) by auto
qed

text \<open>Stopping a capture never hands the buffer back. Whatever connection started it, the call removes the
  entry and returns success, sends nothing to any connection and does not close the descriptor, which
  no table names any more: it is lost.\<close>

theorem capture_stop_loses_buffer:
  assumes "captures_ok (w_captures w)" and "c \<in> set (w_captures w)"
  shows "\<exists>w'. isz_output_capture_stop w (Some (cp_out c)) = Some (w', ISZ_OK)
    \<and> k_sent w' = k_sent w \<and> k_closed w' = k_closed w \<and> w_conns w' = w_conns w
    \<and> cp_out c \<notin> cp_out ` set (w_captures w')"
proof -
  from isz_output_capture_stop_spec [OF assms(1), of "cp_out c"] assms(2) obtain w' where
    "isz_output_capture_stop w (Some (cp_out c)) = Some (w', ISZ_OK)" "w' = w\<lparr>w_captures := w_captures w'\<rparr>"
    "cp_out c \<notin> cp_out ` set (w_captures w')" by auto
  moreover from this(2) have "k_sent w' = k_sent w" "k_closed w' = k_closed w" "w_conns w' = w_conns w"
    by (cases w, cases w', simp)+
  ultimately show ?thesis by blast
qed

theorem capture_stop_loses_buffer_witness:
  "\<exists>w' c. captures_ok [c] \<and> cp_dmabuf_fd c = 9 \<and> cp_owning_conn c = Some 1
    \<and> isz_output_capture_stop (sample_world\<lparr>w_captures := [c]\<rparr>) (Some 1) = Some (w', ISZ_OK)
    \<and> k_sent w' = k_sent sample_world \<and> k_closed w' = k_closed sample_world"
proof -
  let ?c = "\<lparr>cp_out = 1, cp_dmabuf_fd = 9, cp_desc = sample_desc, cp_active = True, cp_owning_conn = Some 1\<rparr>"
  have "captures_ok [?c]" by (simp add: captures_ok_def)
  with capture_stop_loses_buffer [of "sample_world\<lparr>w_captures := [?c]\<rparr>" ?c] show ?thesis
    by (intro exI [of _ "fst (the (isz_output_capture_stop (sample_world\<lparr>w_captures := [?c]\<rparr>) (Some 1)))"] exI [of _ ?c]) auto
qed

end
