(* ===== verification/Isz_Commit.thy ===== *)
theory Isz_Commit
  imports Isz_Output Isz_Backend
begin

text \<open>
  The commit path, \<^verbatim>\<open>src/render/isz_commit.c\<close>: collecting the surfaces of an output, validation, slot
  reservation, the hand-over to the backend state machine with the headless backend, rollback, and the
  presentation events.
\<close>

section \<open>Operations\<close>

text \<open>The walk of \<^verbatim>\<open>collect_output_surfaces\<close>; \<open>None\<close> in the result is the failed \<^verbatim>\<open>realloc\<close>.\<close>

fun collect_loop :: "world \<Rightarrow> nat \<Rightarrow> nat list \<Rightarrow> nat \<Rightarrow> nat list \<Rightarrow> (world \<times> nat list option) option" where
  "collect_loop w out [] cap arr = Some (w, Some arr)"
| "collect_loop w out (r # rs) cap arr = do {
     s \<leftarrow> w_surfaces w r;
     (if sf_output s \<noteq> Some out then collect_loop w out rs cap arr
      else if length arr = cap
      then case k_alloc w of
             (w, False) \<Rightarrow> Some (w, None)
           | (w, True) \<Rightarrow> collect_loop w out rs (cap * 2) (arr @ [r])
      else collect_loop w out rs cap (arr @ [r]))
   }"

definition collect_output_surfaces :: "world \<Rightarrow> nat \<Rightarrow> (world \<times> nat list option) option" where
  "collect_output_surfaces w out =
     (case k_alloc w of
        (w, False) \<Rightarrow> Some (w, None)
      | (w, True) \<Rightarrow> collect_loop w out (w_surface_list w) 8 [])"

definition validate_surface :: "world \<Rightarrow> isz_surface \<Rightarrow> nat \<Rightarrow> isz_error option" where
  "validate_surface w s out =
     (if \<not> sf_plane_type_set s then Some ISZ_ERR_INVALID_ARG
      else if \<not> sf_plane_slot_set s then Some ISZ_ERR_SURFACE_NO_PLANE_SLOT
      else do {
        slot \<leftarrow> isz_plane_slot_get w (Some out) (sf_plane_slot s);
        Some (case slot of
                None \<Rightarrow> ISZ_ERR_PLANE_UNAVAIL
              | Some sl \<Rightarrow>
                  if ps_type sl \<noteq> sf_plane_type s then ISZ_ERR_PLANE_UNAVAIL
                  else if sf_transform s \<noteq> ISZ_TRANSFORM_NORMAL \<and> \<not> ps_supports_transform sl
                  then ISZ_ERR_TRANSFORM_UNSUPPORTED
                  else ISZ_OK)
      })"

record commit_reservation =
  cr_surf :: nat
  cr_slot_id :: int
  cr_newly_reserved :: bool

text \<open>The validate-and-reserve loop. Its error exit leaves the reservations made so far.\<close>

fun commit_reserve ::
    "world \<Rightarrow> nat \<Rightarrow> nat list \<Rightarrow> commit_reservation list \<Rightarrow> (world \<times> (isz_error + commit_reservation list)) option" where
  "commit_reserve w out [] resv = Some (w, Inr resv)"
| "commit_reserve w out (r # rs) resv = do {
     s \<leftarrow> w_surfaces w r;
     rc \<leftarrow> validate_surface w s out;
     (if isz_error_code rc < 0 then Some (w, Inl rc)
      else do {
        let was_in_use = isz_plane_slot_held_by w out (sf_plane_slot s) r;
        (w, res) \<leftarrow> isz_plane_slot_assign w (Some out) (Some r);
        (case res of
           Inl e \<Rightarrow> Some (w, Inl e)
         | Inr slot_id \<Rightarrow>
             commit_reserve w out rs (resv @ [\<lparr>cr_surf = r, cr_slot_id = sf_plane_slot s, cr_newly_reserved = \<not> was_in_use\<rparr>]))
      })
   }"

definition commit_rollback :: "world \<Rightarrow> nat \<Rightarrow> commit_reservation list \<Rightarrow> world" where
  "commit_rollback w out resv =
     fold (\<lambda>c w. if cr_newly_reserved c then isz_plane_slot_release w (Some out) (cr_slot_id c) (cr_surf c) else w) resv w"

fun commit_present :: "world \<Rightarrow> nat list \<Rightarrow> u64 \<Rightarrow> world option" where
  "commit_present w [] vblank_ns = Some w"
| "commit_present w (r # rs) vblank_ns = do {
     s \<leftarrow> w_surfaces w r;
     w \<leftarrow> (if sf_current s \<noteq> None then isz_render_send_presented w r vblank_ns else Some w);
     s \<leftarrow> w_surfaces w r;
     commit_present (upd_surface w r (s\<lparr>sf_damage := []\<rparr>)) rs vblank_ns
   }"

abbreviation (input) "ISZ_COMMIT_TEST_ONLY \<equiv> (2 :: u32)"

text \<open>The body after the surfaces were collected and the reservation array was allocated.\<close>

definition commit_body :: "world \<Rightarrow> nat \<Rightarrow> u32 \<Rightarrow> nat list \<Rightarrow> (world \<times> isz_error) option" where
  "commit_body w out flags surfs = do {
     (w, res) \<leftarrow> commit_reserve w out surfs [];
     (case res of
        Inl rc \<Rightarrow> Some (w, rc)
      | Inr resv \<Rightarrow>
          case isz_backend_commit isz_headless_commit (w_backend w) of
            (be, rc) \<Rightarrow>
              let w = w\<lparr>w_backend := be\<rparr>
              in if isz_error_code rc < 0 then Some (commit_rollback w out resv, rc)
                 else if flags AND ISZ_COMMIT_TEST_ONLY = 0
                 then do {
                   let (w, vblank_ns) = k_now w;
                   w \<leftarrow> commit_present w surfs vblank_ns;
                   Some (w, ISZ_OK)
                 }
                 else Some (w, ISZ_OK))
   }"

definition isz_commit :: "world \<Rightarrow> nat option \<Rightarrow> u32 \<Rightarrow> (world \<times> isz_error) option" where
  "isz_commit w out flags = (case out of
       None \<Rightarrow> Some (w, ISZ_ERR_INVALID_ARG)
     | Some r \<Rightarrow> do {
         o' \<leftarrow> w_outputs w r;
         (if be_state (w_backend w) = ISZ_BACKEND_COMMITTING then Some (w, ISZ_ERR_COMMIT_PENDING)
          else if o_disconnected o' then Some (w, ISZ_ERR_OUTPUT_DISCONNECTED)
          else do {
            (w, surfs) \<leftarrow> collect_output_surfaces w r;
            (case surfs of
               None \<Rightarrow> Some (w, ISZ_ERR_NO_MEMORY)
             | Some surfs \<Rightarrow>
                 let (w, ok) = (if surfs \<noteq> [] then k_alloc w else (w, True))
                 in if \<not> ok then Some (w, ISZ_ERR_NO_MEMORY) else commit_body w r flags surfs)
          })
       })"

section \<open>Lemmas\<close>

lemma collect_loop_spec:
  assumes "\<forall>r \<in> set rs. w_surfaces w r \<noteq> None"
  shows "\<exists>w' res. collect_loop w out rs cap arr = Some (w', res) \<and> kern.more w' = kern.more w
    \<and> (res = None \<or> res = Some (arr @ filter (\<lambda>r. sf_output (the (w_surfaces w r)) = Some out) rs))"
  using assms
proof (induction rs arbitrary: w cap arr)
  case (Cons r rs)
  then obtain s where s: "w_surfaces w r = Some s" by auto
  obtain w1 b where k: "k_alloc w = (w1, b)" by fastforce
  then have m: "kern.more w1 = kern.more w" using kern_more_alloc [of w] by simp
  have live1: "\<forall>r \<in> set rs. w_surfaces w1 r \<noteq> None" using Cons.prems kern_more_world(11) [OF m] by simp
  have keep: "\<exists>w' res. collect_loop w out rs c a = Some (w', res) \<and> kern.more w' = kern.more w
    \<and> (res = None \<or> res = Some (a @ filter (\<lambda>r. sf_output (the (w_surfaces w r)) = Some out) rs))" for c a
    using Cons.IH [of w c a] Cons.prems by simp
  have grow: "\<exists>w' res. collect_loop w1 out rs c a = Some (w', res) \<and> kern.more w' = kern.more w
    \<and> (res = None \<or> res = Some (a @ filter (\<lambda>r. sf_output (the (w_surfaces w r)) = Some out) rs))" for c a
    using Cons.IH [OF live1, of c a] m kern_more_world(11) [OF m] by simp
  consider "sf_output s \<noteq> Some out" | "sf_output s = Some out" "length arr = cap" "\<not> b"
    | "sf_output s = Some out" "length arr = cap" "b" | "sf_output s = Some out" "length arr \<noteq> cap" by blast
  then show ?case
  proof cases
    case 1
    with s keep [of cap arr] show ?thesis by simp
  next
    case 2
    with s k m show ?thesis by simp
  next
    case 3
    with s k grow [of "cap * 2" "arr @ [r]"] show ?thesis by simp
  next
    case 4
    with s keep [of cap "arr @ [r]"] show ?thesis by simp
  qed
qed simp

lemma collect_output_surfaces_spec:
  assumes "surfaces_ok w"
  shows "\<exists>w' res. collect_output_surfaces w out = Some (w', res) \<and> kern.more w' = kern.more w
    \<and> (res = None \<or> res = Some (filter (\<lambda>r. sf_output (the (w_surfaces w r)) = Some out) (w_surface_list w)))"
proof -
  obtain w1 b where k: "k_alloc w = (w1, b)" by fastforce
  then have m: "kern.more w1 = kern.more w" using kern_more_alloc [of w] by simp
  note f = kern_more_world [OF m]
  have "\<forall>r \<in> set (w_surface_list w1). w_surfaces w1 r \<noteq> None" using assms by (auto simp: f surfaces_ok_def)
  from collect_loop_spec [OF this, of out 8 "[]"] m k f show ?thesis
    by (cases b) (auto simp: collect_output_surfaces_def)
qed

definition cr_key :: "nat \<Rightarrow> commit_reservation \<Rightarrow> nat \<times> int" where
  "cr_key out c = (out, cr_slot_id c)"

definition newly :: "commit_reservation list \<Rightarrow> commit_reservation list" where
  "newly cs = filter cr_newly_reserved cs"

text \<open>What the reservations of one commit did to the table.\<close>

definition reserved :: "nat \<Rightarrow> commit_reservation list \<Rightarrow> reservation list \<Rightarrow> reservation list \<Rightarrow> bool" where
  "reserved out cs rs rs' \<longleftrightarrow> resv_ok rs' \<and> distinct (map (cr_key out) (newly cs))
     \<and> (\<forall>c \<in> set (newly cs). resv_holder rs (cr_key out c) = None)
     \<and> resv_holder rs' = resv_holder rs ++ map_of (map (\<lambda>c. (cr_key out c, cr_surf c)) (newly cs))
     \<and> (\<forall>c \<in> set cs. resv_holder rs' (cr_key out c) = Some (cr_surf c))"

lemma reserved_resv_ok: "reserved out cs rs rs' \<Longrightarrow> resv_ok rs'"
  by (simp add: reserved_def)

lemma newly_snoc: "newly (cs @ [c]) = newly cs @ (if cr_newly_reserved c then [c] else [])"
  by (simp add: newly_def)

lemma reserved_held:
  assumes "reserved out cs rs rs'" "resv_holder rs' (out, sl) = Some r"
  shows "reserved out (cs @ [\<lparr>cr_surf = r, cr_slot_id = sl, cr_newly_reserved = False\<rparr>]) rs rs'"
  using assms by (auto simp: reserved_def newly_snoc cr_key_def)

lemma reserved_new:
  assumes "reserved out cs rs rs'" "resv_holder rs' (out, sl) = None" "resv_claim rs' (out, sl) r = Some rs''"
  shows "reserved out (cs @ [\<lparr>cr_surf = r, cr_slot_id = sl, cr_newly_reserved = True\<rparr>]) rs rs''"
proof -
  let ?c = "\<lparr>cr_surf = r, cr_slot_id = sl, cr_newly_reserved = True\<rparr>"
  from assms(1) have ok: "resv_ok rs'" and hold: "resv_holder rs' = resv_holder rs ++ map_of (map (\<lambda>c. (cr_key out c, cr_surf c)) (newly cs))"
    and own: "\<forall>c \<in> set cs. resv_holder rs' (cr_key out c) = Some (cr_surf c)" by (auto simp: reserved_def)
  have h'': "resv_holder rs'' = (resv_holder rs')((out, sl) \<mapsto> r)" "resv_ok rs''"
    using resv.claim_holder [OF ok assms(3)] resv.claim_ok [OF ok assms(3)] by auto
  have fresh: "(out, sl) \<notin> cr_key out ` set (newly cs)"
    using own assms(2) by (auto simp: newly_def)
  have free: "resv_holder rs (out, sl) = None"
    using assms(2) hold by (auto simp: map_add_None)
  have "map_of (map (\<lambda>c. (cr_key out c, cr_surf c)) (newly cs @ [?c]))
      = (map_of (map (\<lambda>c. (cr_key out c, cr_surf c)) (newly cs)))((out, sl) \<mapsto> r)"
    using map_of_snoc_fresh [of "(out, sl)" "map (\<lambda>c. (cr_key out c, cr_surf c)) (newly cs)" r] fresh
    by (simp add: cr_key_def image_image)
  moreover have "\<forall>c \<in> set cs. cr_key out c \<noteq> (out, sl)" using own assms(2) by fastforce
  ultimately show ?thesis
    using assms(1) h'' fresh free hold own by (auto simp: reserved_def newly_snoc cr_key_def)
qed

lemma render_ok_resv: "render_ok w \<Longrightarrow> resv_ok rs \<Longrightarrow> render_ok (w\<lparr>w_resv := rs\<rparr>)"
  by (simp add: render_ok_def surfaces_ok_def surf_ok_def)

lemma isz_plane_slot_assign_total:
  assumes "render_ok w" "w_surfaces w r = Some s" "w_outputs w out \<noteq> None"
  shows "\<exists>w' res. isz_plane_slot_assign w (Some out) (Some r) = Some (w', res)"
proof -
  from assms(3) obtain o' where o': "w_outputs w out = Some o'" by auto
  have live: "\<exists>buf. bs_bufs w b = Some buf" if "sf_current s = Some b" for b
    using bufs_okD [OF render_okD(2) [OF assms(1)] assms(2), of b] that by (auto simp: surf_bufs_def)
  show ?thesis
  proof (cases "sf_current s")
    case None
    with assms(2) o' show ?thesis
      by (auto simp: isz_plane_slot_assign_def isz_plane_slot_get_def split: option.splits prod.splits)
  next
    case (Some b)
    with live obtain buf where "bs_bufs w b = Some buf" by blast
    with Some assms(2) o' show ?thesis
      by (auto simp: isz_plane_slot_assign_def isz_plane_slot_get_def split: option.splits prod.splits)
  qed
qed

lemma validate_surface_total: "w_outputs w out \<noteq> None \<Longrightarrow> \<exists>rc. validate_surface w s out = Some rc"
  by (auto simp: validate_surface_def isz_plane_slot_get_def)

lemma resv_held_by_key: "isz_plane_slot_held_by w out sl r = (resv_holder (w_resv w) (out, sl) = Some r)"
  by (simp add: isz_plane_slot_held_by_def resv_held_by_holder)

text \<open>What the loop returns: the state with another reservation table, and an error or the new entries.\<close>

definition reserve_post ::
    "world \<Rightarrow> nat \<Rightarrow> nat list \<Rightarrow> commit_reservation list \<Rightarrow> (world \<times> (isz_error + commit_reservation list)) option \<Rightarrow> bool" where
  "reserve_post w0 out rs cs result \<longleftrightarrow> (\<exists>rsv' res. result = Some (w0\<lparr>w_resv := rsv'\<rparr>, res) \<and> resv_ok rsv'
    \<and> (case res of Inl e \<Rightarrow> e \<noteq> ISZ_OK
       | Inr cs' \<Rightarrow> reserved out cs' (w_resv w0) rsv' \<and> (\<exists>new. cs' = cs @ new \<and> map cr_surf new = rs
            \<and> map cr_slot_id new = map (\<lambda>r. sf_plane_slot (the (w_surfaces w0 r))) rs)))"

lemma reserve_post_Cons:
  assumes "reserve_post w0 out rs (cs @ [c]) result" "cr_surf c = r" "cr_slot_id c = sf_plane_slot (the (w_surfaces w0 r))"
  shows "reserve_post w0 out (r # rs) cs result"
proof -
  from assms(1) obtain rsv' res where p: "result = Some (w0\<lparr>w_resv := rsv'\<rparr>, res)" "resv_ok rsv'"
    "case res of Inl e \<Rightarrow> e \<noteq> ISZ_OK
       | Inr cs' \<Rightarrow> reserved out cs' (w_resv w0) rsv' \<and> (\<exists>new. cs' = (cs @ [c]) @ new \<and> map cr_surf new = rs
            \<and> map cr_slot_id new = map (\<lambda>r. sf_plane_slot (the (w_surfaces w0 r))) rs)"
    unfolding reserve_post_def by blast
  have "case res of Inl e \<Rightarrow> e \<noteq> ISZ_OK
       | Inr cs' \<Rightarrow> reserved out cs' (w_resv w0) rsv' \<and> (\<exists>new. cs' = cs @ new \<and> map cr_surf new = r # rs
            \<and> map cr_slot_id new = map (\<lambda>r. sf_plane_slot (the (w_surfaces w0 r))) (r # rs))"
  proof (cases res)
    case (Inr cs')
    with p(3) obtain new where "reserved out cs' (w_resv w0) rsv'" "cs' = cs @ (c # new)" "map cr_surf new = rs"
      "map cr_slot_id new = map (\<lambda>r. sf_plane_slot (the (w_surfaces w0 r))) rs" by auto
    with Inr assms(2,3) show ?thesis by (auto intro!: exI [of _ "c # new"])
  qed (use p(3) in simp)
  with p(1,2) show ?thesis unfolding reserve_post_def by blast
qed

lemma commit_reserve_spec:
  assumes "render_ok w0" "w = w0\<lparr>w_resv := rsv\<rparr>" "w_outputs w0 out \<noteq> None" "\<forall>r \<in> set rs. w_surfaces w0 r \<noteq> None"
    "reserved out cs (w_resv w0) rsv"
  shows "reserve_post w0 out rs cs (commit_reserve w out rs cs)"
  using assms
proof (induction rs arbitrary: w rsv cs)
  case Nil
  then show ?case unfolding reserve_post_def by (intro exI [of _ rsv] exI [of _ "Inr cs"]) (simp add: reserved_resv_ok)
next
  case (Cons r rs)
  then obtain s where s: "w_surfaces w0 r = Some s" by auto
  have ok: "resv_ok rsv" using Cons.prems(5) by (simp add: reserved_def)
  then have rok: "render_ok w" using Cons.prems(1,2) by (simp add: render_ok_resv)
  from validate_surface_total [of w out s] Cons.prems obtain rc where rc: "validate_surface w s out = Some rc" by auto
  have sw: "w_surfaces w r = Some s" using s Cons.prems(2) by simp
  note w0 = Cons.prems(2) [symmetric]
  from isz_plane_slot_assign_total [OF rok, of r s out] sw Cons.prems(2,3) obtain w1 res where
    asg: "isz_plane_slot_assign w (Some out) (Some r) = Some (w1, res)" by auto
  show ?case
  proof (cases "rc = ISZ_OK")
    case False
    with sw rc ok show ?thesis unfolding reserve_post_def by (intro exI [of _ rsv] exI [of _ "Inl rc"]) (simp add: w0)
  next
    case True
    let ?c = "\<lambda>b. \<lparr>cr_surf = r, cr_slot_id = sf_plane_slot s, cr_newly_reserved = b\<rparr>"
    have wr: "w_resv w = rsv" "w\<lparr>w_resv := x\<rparr> = w0\<lparr>w_resv := x\<rparr>" for x using Cons.prems(2) by simp_all
    have "(\<exists>e. res = Inl e \<and> e \<noteq> ISZ_OK \<and> w1 = w)
      \<or> res = Inr (sf_plane_slot s) \<and> resv_holder rsv (out, sf_plane_slot s) = Some r \<and> w1 = w
      \<or> res = Inr (sf_plane_slot s) \<and> resv_holder rsv (out, sf_plane_slot s) = None
         \<and> (\<exists>rsv1. resv_claim rsv (out, sf_plane_slot s) r = Some rsv1 \<and> w1 = w0\<lparr>w_resv := rsv1\<rparr>)"
      using isz_plane_slot_assign_cases [OF asg render_okD(4) [OF rok]] sw unfolding wr by force
    then consider (err) e where "res = Inl e" "e \<noteq> ISZ_OK" "w1 = w"
      | (held) "res = Inr (sf_plane_slot s)" "resv_holder rsv (out, sf_plane_slot s) = Some r" "w1 = w"
      | (new) rsv1 where "res = Inr (sf_plane_slot s)" "resv_holder rsv (out, sf_plane_slot s) = None"
          "resv_claim rsv (out, sf_plane_slot s) r = Some rsv1" "w1 = w0\<lparr>w_resv := rsv1\<rparr>"
      by blast
    then show ?thesis
    proof cases
      case err
      with sw rc True asg ok show ?thesis
        unfolding reserve_post_def by (intro exI [of _ rsv] exI [of _ "Inl e"]) (simp add: Let_def w0)
    next
      case held
      have step: "commit_reserve w out (r # rs) cs = commit_reserve w out rs (cs @ [?c False])"
        using sw rc True asg held Cons.prems(2) by (simp add: Let_def resv_held_by_key)
      from Cons.IH [OF Cons.prems(1-3) _ reserved_held [OF Cons.prems(5) held(2)]] Cons.prems(4)
      have "reserve_post w0 out rs (cs @ [?c False]) (commit_reserve w out rs (cs @ [?c False]))" by simp
      then show ?thesis unfolding step by (rule reserve_post_Cons) (simp_all add: s)
    next
      case new
      have step: "commit_reserve w out (r # rs) cs = commit_reserve w1 out rs (cs @ [?c True])"
        using sw rc True asg new Cons.prems(2) by (simp add: Let_def resv_held_by_key)
      from Cons.IH [OF Cons.prems(1) new(4) Cons.prems(3) _ reserved_new [OF Cons.prems(5) new(2,3)]] Cons.prems(4)
      have "reserve_post w0 out rs (cs @ [?c True]) (commit_reserve w1 out rs (cs @ [?c True]))" by simp
      then show ?thesis unfolding step by (rule reserve_post_Cons) (simp_all add: s)
    qed
  qed
qed

lemma isz_plane_slot_release_drop:
  "isz_plane_slot_release w (Some out) sl r = w\<lparr>w_resv := resv_drop (w_resv w) (out, sl) r\<rparr>"
  by (simp add: isz_plane_slot_release_def resv_drop_def)

text \<open>The rollback gives back exactly what the commit took.\<close>

lemma commit_rollback_spec:
  assumes "reserved out cs rs (w_resv w)" "resv_ok rs"
  shows "\<exists>rs'. commit_rollback w out cs = w\<lparr>w_resv := rs'\<rparr> \<and> resv_ok rs' \<and> resv_holder rs' = resv_holder rs"
proof -
  let ?ps = "map (\<lambda>c. (cr_key out c, cr_surf c)) (newly cs)"
  let ?ks = "map (cr_key out) (newly cs)"
  let ?h = "\<lambda>k. the (map_of ?ps k)"
  let ?drop = "fold (\<lambda>k s. resv_drop s k (?h k)) ?ks"
  from assms(1) have r: "resv_ok (w_resv w)" "distinct ?ks" "\<forall>c \<in> set (newly cs). resv_holder rs (cr_key out c) = None"
    "resv_holder (w_resv w) = resv_holder rs ++ map_of ?ps" "\<forall>c \<in> set cs. resv_holder (w_resv w) (cr_key out c) = Some (cr_surf c)"
    by (auto simp: reserved_def)
  have dist: "distinct (map fst ?ps)" using r(2) by (simp add: comp_def)
  have h: "?h (cr_key out c) = cr_surf c" if "c \<in> set (newly cs)" for c
    using dist that by (subst map_of_is_SomeI [of ?ps "cr_key out c" "cr_surf c"]) auto
  have fold: "fold (\<lambda>c w. isz_plane_slot_release w (Some out) (cr_slot_id c) (cr_surf c)) ds w
      = w\<lparr>w_resv := fold (\<lambda>k s. resv_drop s k (?h k)) (map (cr_key out) ds) (w_resv w)\<rparr>"
    if "set ds \<subseteq> set (newly cs)" for ds w
    using that by (induction ds arbitrary: w) (simp_all add: isz_plane_slot_release_drop h, simp add: cr_key_def h [unfolded cr_key_def])
  have "list_all (\<lambda>k. resv_holder (w_resv w) k = Some (?h k)) ?ks"
    using r(5) h by (auto simp: list_all_iff newly_def)
  from resv.rollback [OF r(1,2) this]
  have rb: "resv_ok (?drop (w_resv w))" "resv_holder (?drop (w_resv w)) = (\<lambda>k. if k \<in> set ?ks then None else resv_holder (w_resv w) k)"
    by auto
  have "resv_holder (?drop (w_resv w)) k = resv_holder rs k" for k
  proof (cases "k \<in> set ?ks")
    case True
    with rb(2) r(3) show ?thesis by auto
  next
    case False
    then have "map_of ?ps k = None" by (auto simp: map_of_eq_None_iff)
    with False rb(2) r(4) show ?thesis by (simp add: map_add_def)
  qed
  moreover have "commit_rollback w out cs = w\<lparr>w_resv := ?drop (w_resv w)\<rparr>"
    using fold [of "newly cs" w] by (simp add: commit_rollback_def fold_filter_if newly_def)
  ultimately show ?thesis using rb(1) by (intro exI [of _ "?drop (w_resv w)"]) auto
qed

text \<open>Presentation: each surface is notified at most once, and its damage is cleared.\<close>

lemma commit_present_spec:
  assumes "render_ok w" "\<forall>r \<in> set rs. w_surfaces w r \<noteq> None"
  shows "\<exists>w'. commit_present w rs t = Some w' \<and> render_ok w' \<and> render_frame w w'
    \<and> w_surfaces w' = (\<lambda>r. if r \<in> set rs then map_option (sf_damage_update (\<lambda>_. [])) (w_surfaces w r) else w_surfaces w r)
    \<and> w_resv w' = w_resv w \<and> bs_bufs w' = bs_bufs w"
  using assms
proof (induction rs arbitrary: w)
  case Nil
  then show ?case by simp
next
  case (Cons r rs)
  then obtain s where s: "w_surfaces w r = Some s" by auto
  have sok: "surf_ok w s" using surfaces_okD(1) [OF render_okD(1) [OF Cons.prems(1)] s] .
  have "\<exists>w1. (if sf_current s \<noteq> None then isz_render_send_presented w r t else Some w) = Some w1 \<and> io_frame w w1"
  proof (cases "sf_current s = None \<or> sf_owning_conn s = None \<or> sf_object_id s = 0")
    case True
    with s show ?thesis by (auto simp: isz_render_send_presented_def)
  next
    case False
    then obtain c cc where "sf_owning_conn s = Some c" "w_conns w c = Some cc" using sok by (auto simp: surf_ok_def)
    with send_event_frame [of w c cc] s False show ?thesis
      by (simp add: isz_render_send_presented_def sender_eqs)
  qed
  then obtain w1 where w1: "(if sf_current s \<noteq> None then isz_render_send_presented w r t else Some w) = Some w1" "io_frame w w1"
    by blast
  note f = io_frame_fields [OF w1(2)]
  let ?s = "s\<lparr>sf_damage := []\<rparr>"
  have s1: "w_surfaces w1 r = Some s" "render_ok w1" "surf_ok w1 ?s"
    using s Cons.prems(1) render_ok_io [OF w1(2)] sok by (simp_all add: f surf_ok_io [OF w1(2)], simp add: surf_ok_def)
  have w2: "render_ok (upd_surface w1 r ?s)" "render_frame w1 (upd_surface w1 r ?s)"
    using render_ok_upd_surface [OF s1(2,1,3)] by (simp_all add: surf_view)
  have "\<forall>r \<in> set rs. w_surfaces (upd_surface w1 r ?s) r \<noteq> None"
    using Cons.prems(2) by (simp add: upd_surface_def f)
  then have "\<forall>x \<in> set rs. w_surfaces (upd_surface w1 r ?s) x \<noteq> None"
    using Cons.prems(2) by (simp add: upd_surface_def f)
  from Cons.IH [OF w2(1) this] obtain w' where
    w': "commit_present (upd_surface w1 r ?s) rs t = Some w'" "render_ok w'" "render_frame (upd_surface w1 r ?s) w'"
      "w_surfaces w' = (\<lambda>x. if x \<in> set rs then map_option (sf_damage_update (\<lambda>_. [])) (w_surfaces (upd_surface w1 r ?s) x)
          else w_surfaces (upd_surface w1 r ?s) x)"
      "w_resv w' = w_resv (upd_surface w1 r ?s)" "bs_bufs w' = bs_bufs (upd_surface w1 r ?s)" by blast
  have "commit_present w (r # rs) t = Some w'" using s w1(1) s1(1) w'(1) by simp
  moreover have "render_frame w w'"
    using render_frame_trans [OF render_frame_io [OF w1(2)] render_frame_trans [OF w2(2) w'(3)]] .
  moreover have "w_surfaces w' = (\<lambda>x. if x \<in> set (r # rs) then map_option (sf_damage_update (\<lambda>_. [])) (w_surfaces w x) else w_surfaces w x)"
    by (auto simp: w'(4) upd_surface_def f s fun_eq_iff)
  ultimately show ?case using w'(2,5,6) by (simp add: upd_surface_def f)
qed

definition surfaces_of :: "world \<Rightarrow> nat \<Rightarrow> nat list" where
  "surfaces_of w out = filter (\<lambda>r. sf_output (the (w_surfaces w r)) = Some out) (w_surface_list w)"

text \<open>The outcome of a commit. \<open>w\<close> is the state before, \<open>w'\<close> the state after.\<close>

definition commit_outcome :: "world \<Rightarrow> nat \<Rightarrow> nat list \<Rightarrow> u32 \<Rightarrow> world \<Rightarrow> isz_error \<Rightarrow> bool" where
  "commit_outcome w out surfs flags w' rc \<longleftrightarrow> render_ok w' \<and> render_frame w w' \<and>
     (if rc = ISZ_OK
      then be_state (w_backend w) = ISZ_BACKEND_READY
        \<and> (\<forall>r \<in> set surfs. \<exists>s. w_surfaces w r = Some s \<and> resv_holder (w_resv w') (out, sf_plane_slot s) = Some r)
        \<and> (\<forall>r. w_surfaces w' r = (if r \<in> set surfs \<and> flags AND ISZ_COMMIT_TEST_ONLY = 0
                then map_option (sf_damage_update (\<lambda>_. [])) (w_surfaces w r) else w_surfaces w r))
      else w_surfaces w' = w_surfaces w)"

lemma render_frame_resv: "render_frame w (w\<lparr>w_resv := rs\<rparr>)"
  by (cases w) (simp add: render_frame_def option.rel_refl)

lemma render_ok_backend: "render_ok (w\<lparr>w_backend := b\<rparr>) = render_ok w"
  by (simp add: render_ok_def surfaces_ok_def surf_ok_def)

lemma headless_commit_result:
  "\<exists>rc. isz_backend_commit isz_headless_commit b = (b, rc) \<and> (rc = ISZ_OK \<longleftrightarrow> be_state b = ISZ_BACKEND_READY)"
  by (cases "be_state b")
     (auto simp: isz_backend_commit_def isz_headless_commit_def isz_backend_finish_commit_def intro: isz_backend.equality)

lemma commit_reserve_start:
  assumes "render_ok w" "w_outputs w out \<noteq> None" "\<forall>r \<in> set rs. w_surfaces w r \<noteq> None"
  shows "reserve_post w out rs [] (commit_reserve w out rs [])"
  using assms render_okD(4) [OF assms(1)]
  by (intro commit_reserve_spec [where rsv = "w_resv w"]) (simp_all add: reserved_def newly_def)

lemma reserved_slots:
  assumes "reserved out cs rs rs'" "map cr_surf cs = surfs" "map cr_slot_id cs = map f surfs" "r \<in> set surfs"
  shows "resv_holder rs' (out, f r) = Some r"
proof -
  from assms(2,4) obtain c where c: "c \<in> set cs" "cr_surf c = r" by auto
  from assms(2,3) have "map cr_slot_id cs = map (\<lambda>c. f (cr_surf c)) cs" by (auto simp: comp_def)
  with c have "cr_slot_id c = f r" by (auto simp: map_eq_conv)
  with assms(1) c show ?thesis by (auto simp: reserved_def cr_key_def)
qed

lemma commit_body_refused:
  assumes "render_ok w" "w_outputs w out \<noteq> None" "\<forall>r \<in> set surfs. w_surfaces w r \<noteq> None"
    "commit_reserve w out surfs [] = Some (w1, Inr resv)" "be_state (w_backend w) \<noteq> ISZ_BACKEND_READY"
  shows "\<exists>rs rc. commit_body w out flags surfs = Some (w\<lparr>w_resv := rs\<rparr>, rc) \<and> rc \<noteq> ISZ_OK \<and> resv_ok rs
    \<and> resv_holder rs = resv_holder (w_resv w)"
proof -
  from commit_reserve_start [OF assms(1-3)] assms(4) obtain rsv where
    r: "w1 = w\<lparr>w_resv := rsv\<rparr>" "reserved out resv (w_resv w) rsv" by (auto simp: reserve_post_def)
  from headless_commit_result [of "w_backend w"] assms(5) obtain rc where
    rc: "isz_backend_commit isz_headless_commit (w_backend w) = (w_backend w, rc)" "rc \<noteq> ISZ_OK" by auto
  from commit_rollback_spec [of out resv "w_resv w" w1] r render_okD(4) [OF assms(1)] obtain rs where
    rs: "commit_rollback w1 out resv = w1\<lparr>w_resv := rs\<rparr>" "resv_ok rs" "resv_holder rs = resv_holder (w_resv w)" by auto
  with assms(4) rc r(1) show ?thesis by (intro exI [of _ rs] exI [of _ rc]) (simp add: commit_body_def)
qed

lemma commit_body_spec:
  assumes "render_ok w" "w_outputs w out \<noteq> None" "\<forall>r \<in> set surfs. w_surfaces w r \<noteq> None"
  shows "\<exists>w' rc. commit_body w out flags surfs = Some (w', rc) \<and> commit_outcome w out surfs flags w' rc"
proof -
  from commit_reserve_start [OF assms] obtain rsv res where
    r: "commit_reserve w out surfs [] = Some (w\<lparr>w_resv := rsv\<rparr>, res)" "resv_ok rsv"
    and post: "case res of Inl e \<Rightarrow> e \<noteq> ISZ_OK | Inr cs \<Rightarrow> reserved out cs (w_resv w) rsv \<and> map cr_surf cs = surfs
        \<and> map cr_slot_id cs = map (\<lambda>r. sf_plane_slot (the (w_surfaces w r))) surfs"
    by (simp add: reserve_post_def cong: sum.case_cong) blast
  let ?w1 = "w\<lparr>w_resv := rsv\<rparr>"
  have ok1: "render_ok ?w1" "render_frame w ?w1" using assms(1) r(2) by (simp_all add: render_ok_resv render_frame_resv)
  show ?thesis
  proof (cases res)
    case (Inl e)
    with r(1) post ok1 show ?thesis by (auto simp: commit_body_def commit_outcome_def)
  next
    case (Inr cs)
    note resv = r(1) [unfolded Inr]
    show ?thesis
    proof (cases "be_state (w_backend w) = ISZ_BACKEND_READY")
      case False
      from commit_body_refused [OF assms resv False] obtain rs rc where
        "commit_body w out flags surfs = Some (w\<lparr>w_resv := rs\<rparr>, rc)" "rc \<noteq> ISZ_OK" "resv_ok rs" by blast
      with assms(1) show ?thesis by (simp add: commit_outcome_def render_ok_resv render_frame_resv)
    next
      case True
      with headless_commit_result [of "w_backend w"]
      have be: "isz_backend_commit isz_headless_commit (w_backend w) = (w_backend w, ISZ_OK)" by auto
      have held: "\<forall>r \<in> set surfs. \<exists>s. w_surfaces w r = Some s \<and> resv_holder rsv (out, sf_plane_slot s) = Some r"
        using reserved_slots [of out cs "w_resv w" rsv surfs] post Inr assms(3) by fastforce
      show ?thesis
      proof (cases "flags AND ISZ_COMMIT_TEST_ONLY = 0")
        case False
        with resv be held ok1 True show ?thesis by (simp add: commit_body_def commit_outcome_def)
      next
        case tst: True
        obtain w2 t where n: "k_now ?w1 = (w2, t)" by fastforce
        then have m: "kern.more w2 = kern.more ?w1" by (auto simp: k_now_def split: list.splits)
        note f = kern_more_world [OF m]
        have "render_ok w2" using ok1(1) by (simp add: render_ok_def surfaces_ok_def surf_ok_def f)
        moreover have "\<forall>r \<in> set surfs. w_surfaces w2 r \<noteq> None" using assms(3) by (simp add: f)
        ultimately obtain w' where w': "commit_present w2 surfs t = Some w'" "render_ok w'" "render_frame w2 w'"
          "w_surfaces w' = (\<lambda>r. if r \<in> set surfs then map_option (sf_damage_update (\<lambda>_. [])) (w_surfaces w2 r) else w_surfaces w2 r)"
          "w_resv w' = w_resv w2" using commit_present_spec [of w2 surfs t] by blast
        have "render_frame w w'" using render_frame_trans [OF ok1(2) render_frame_trans [OF render_frame_more [OF m] w'(3)]] .
        with resv be held True tst n w' show ?thesis by (simp add: commit_body_def commit_outcome_def f)
      qed
    qed
  qed
qed

lemma commit_outcome_more:
  assumes "kern.more w1 = kern.more w" "commit_outcome w1 out surfs flags w' rc"
  shows "commit_outcome w out surfs flags w' rc"
  using assms(2) render_frame_trans [OF render_frame_more [OF assms(1)], of w']
  by (auto simp: commit_outcome_def kern_more_world [OF assms(1)])

lemma isz_commit_outcome:
  assumes "render_ok w" and "w_outputs w out \<noteq> None"
  shows "\<exists>w' rc. isz_commit w (Some out) flags = Some (w', rc) \<and> commit_outcome w out (surfaces_of w out) flags w' rc"
proof -
  from assms(2) obtain o' where o': "w_outputs w out = Some o'" by auto
  from collect_output_surfaces_spec [OF render_okD(1) [OF assms(1)], of out] obtain w1 res where
    c: "collect_output_surfaces w out = Some (w1, res)" "kern.more w1 = kern.more w" "res = None \<or> res = Some (surfaces_of w out)"
    by (auto simp: surfaces_of_def)
  let ?alloc = "if surfaces_of w out \<noteq> [] then k_alloc w1 else (w1, True)"
  obtain w2 b where k: "?alloc = (w2, b)" by fastforce
  then have m: "kern.more w2 = kern.more w" using kern_more_alloc [of w1] c(2) by (auto split: if_splits)
  have same: "commit_outcome w out (surfaces_of w out) flags v rc" if "kern.more v = kern.more w" "rc \<noteq> ISZ_OK" for v rc
    using that assms(1) render_ok_more [OF assms(1) that(1)] kern_more_world(11) [OF that(1)] by (simp add: commit_outcome_def render_frame_more)
  have live: "\<forall>r \<in> set (surfaces_of w out). w_surfaces w r \<noteq> None"
    using render_okD(1) [OF assms(1)] by (auto simp: surfaces_of_def surfaces_ok_def)
  have "\<exists>w' rc. commit_body w2 out flags (surfaces_of w out) = Some (w', rc) \<and> commit_outcome w out (surfaces_of w out) flags w' rc"
    using commit_body_spec [of w2 out "surfaces_of w out" flags] assms(1) live o' render_ok_more [OF assms(1) m] kern_more_world [OF m]
      commit_outcome_more [OF m] by auto
  then show ?thesis
    using o' c k same [of w] same [OF c(2)] same [OF m]
    by (cases "be_state (w_backend w) = ISZ_BACKEND_COMMITTING"; cases "o_disconnected o'"; cases b)
       (auto simp: isz_commit_def Let_def)
qed

section \<open>Properties\<close>

text \<open>C16: a commit on a live output never reads freed memory and keeps the invariant of the render layer.
  When it succeeds, the backend was ready, every surface assigned to the output holds the plane slot it
  asked for and, unless it was a test, the damage of exactly these surfaces is cleared; when it fails, no surface has changed.\<close>

theorem commit_spec:
  assumes "render_ok w" and "w_outputs w out \<noteq> None"
  shows "\<exists>w' rc. isz_commit w (Some out) flags = Some (w', rc) \<and> commit_outcome w out (surfaces_of w out) flags w' rc"
  using isz_commit_outcome [OF assms] .

text \<open>A server with one headless output and one surface placed on its primary plane.\<close>

definition slotted_world :: world where
  "slotted_world = the (surf_calls_run
     (sample_world\<lparr>w_outputs := (\<lambda>_. None)(1 \<mapsto> output_zero\<lparr>o_slots := Some headless_slots\<rparr>),
        w_backend := \<lparr>be_state = ISZ_BACKEND_READY, be_last_error = ISZ_OK\<rparr>\<rparr>)
     [SurfCreate, SurfSetOutput 1 1, SurfSetPlaneType 1 0, SurfSetPlaneSlot 1 1, SurfCreate, SurfSetOutput 2 1])"

lemmas slotted_defs = slotted_world_def sample_run_defs isz_surface_set_plane_type_def plane_type_of_int_def
  isz_surface_set_plane_slot_def headless_slots_def

lemma slotted_world_ok: "render_ok slotted_world" "w_outputs slotted_world 1 \<noteq> None"
proof -
  let ?w = "sample_world\<lparr>w_outputs := (\<lambda>_. None)(1 \<mapsto> output_zero\<lparr>o_slots := Some headless_slots\<rparr>),
     w_backend := \<lparr>be_state = ISZ_BACKEND_READY, be_last_error = ISZ_OK\<rparr>\<rparr>"
  let ?cs = "[SurfCreate, SurfSetOutput 1 1, SurfSetPlaneType 1 0, SurfSetPlaneSlot 1 1, SurfCreate, SurfSetOutput 2 1]"
  have "surf_calls_legal ?w ?cs" by (simp add: slotted_defs)
  moreover have "render_ok ?w"
    by (simp add: sample_world_def render_ok_def surfaces_ok_def bufs_ok_def owned_def idle_ok_def resv_ok_def
      world_init_def bstate_init_def bstate.defs kern_init_def kern.defs output_zero_def inhibitors_def)
  ultimately show "render_ok slotted_world" using surf_calls_run_ok [of ?w ?cs] by (auto simp: slotted_world_def)
  show "w_outputs slotted_world 1 \<noteq> None" by (simp add: slotted_defs)
qed

theorem commit_spec_witness:
  "\<exists>w' rc. isz_commit slotted_world (Some 1) 0 = Some (w', rc) \<and> commit_outcome slotted_world 1 (surfaces_of slotted_world 1) 0 w' rc"
  using commit_spec [OF slotted_world_ok] .

text \<open>C17: a commit the backend refuses is rolled back. When every surface could be validated and given its
  slot and the backend is not ready, the commit fails, and afterwards the state differs from the state
  before at most in the layout of the reservation table: every slot has the holder it had.\<close>

theorem refused_commit_rolls_back:
  assumes "render_ok w" and "w_outputs w out \<noteq> None" and "\<forall>r \<in> set surfs. w_surfaces w r \<noteq> None"
    and "commit_reserve w out surfs [] = Some (w1, Inr resv)" and "be_state (w_backend w) \<noteq> ISZ_BACKEND_READY"
  shows "\<exists>rs rc. commit_body w out flags surfs = Some (w\<lparr>w_resv := rs\<rparr>, rc) \<and> rc \<noteq> ISZ_OK
    \<and> resv_holder rs = resv_holder (w_resv w)"
  using commit_body_refused [OF assms, of flags] by blast

lemmas commit_run_defs = validate_surface_def isz_plane_slot_get_def isz_plane_slot_assign_def
  isz_plane_slot_held_by_def resv_held_by_def resv_find_def resv_set_def resv_holder_def

theorem refused_commit_rolls_back_witness:
  "\<exists>rs rc. commit_body (slotted_world\<lparr>w_backend := \<lparr>be_state = ISZ_BACKEND_ERROR, be_last_error = ISZ_OK\<rparr>\<rparr>) 1 0 [1]
      = Some (slotted_world\<lparr>w_backend := \<lparr>be_state = ISZ_BACKEND_ERROR, be_last_error = ISZ_OK\<rparr>, w_resv := rs\<rparr>, rc)
    \<and> rc \<noteq> ISZ_OK \<and> resv_holder rs (1, 1) = None"
proof -
  let ?w = "slotted_world\<lparr>w_backend := \<lparr>be_state = ISZ_BACKEND_ERROR, be_last_error = ISZ_OK\<rparr>\<rparr>"
  have "\<exists>w1 resv. commit_reserve ?w 1 [1] [] = Some (w1, Inr resv)"
    by (simp add: slotted_defs commit_run_defs)
  then obtain w1 resv where r: "commit_reserve ?w 1 [1] [] = Some (w1, Inr resv)" by blast
  have "render_ok ?w" "w_outputs ?w 1 \<noteq> None" using slotted_world_ok by (simp_all add: render_ok_backend)
  moreover have "\<forall>r \<in> set [1]. w_surfaces ?w r \<noteq> None" "resv_holder (w_resv ?w) (1, 1) = None"
    by (simp_all add: slotted_defs resv_holder_def resv_find_def)
  moreover have "be_state (w_backend ?w) \<noteq> ISZ_BACKEND_READY" by simp
  ultimately obtain rs rc where "commit_body ?w 1 0 [1] = Some (?w\<lparr>w_resv := rs\<rparr>, rc)" "rc \<noteq> ISZ_OK"
    "resv_holder rs = resv_holder (w_resv ?w)" "resv_holder (w_resv ?w) (1, 1) = None"
    using refused_commit_rolls_back [OF _ _ _ r] by blast
  then show ?thesis by (intro exI [of _ rs] exI [of _ rc]) simp
qed

text \<open>A failure of the validation loop is not rolled back: here the second surface has no plane type, the
  commit fails, and the slot taken for the first surface stays taken although the commit reserved it.\<close>

lemma failed_validation_keeps_slots:
  "resv_holder (w_resv slotted_world) (1, 1) = None
   \<and> (\<exists>w'. isz_commit slotted_world (Some 1) 0 = Some (w', ISZ_ERR_INVALID_ARG) \<and> resv_holder (w_resv w') (1, 1) = Some 1)"
  by (simp add: isz_commit_def collect_output_surfaces_def commit_body_def slotted_defs commit_run_defs)

end
