(* ===== verification/Isz_Dispatch.thy ===== *)
theory Isz_Dispatch
  imports Isz_Seat Isz_Capture Isz_Commit
begin

text \<open>
  The client message dispatcher, \<^verbatim>\<open>src/isz_client_dispatch.c\<close>: payload parsing, object lookup, the handler
  of every message, and the entry point \<^verbatim>\<open>isz_handle_client_message\<close>.

  A handler takes the state, the connection and the payload, whose length is \<^verbatim>\<open>payload_len\<close>, and returns the new
  state; reading past the payload or through a dangling pointer gives \<open>None\<close>. The handlers that use
  descriptors also return the descriptor array, in which a consumed descriptor has become \<open>-1\<close>.
\<close>

section \<open>Helpers\<close>

definition isz_consume_fd :: "fd list \<Rightarrow> nat \<Rightarrow> fd list" where
  "isz_consume_fd fds idx = (if idx < length fds then fds[idx := -1] else fds)"

text \<open>Continue with the value a checked reader returned, or take the error branch.\<close>

definition checked :: "('a \<times> nat) option option \<Rightarrow> 'b option \<Rightarrow> ('a \<Rightarrow> nat \<Rightarrow> 'b option) \<Rightarrow> 'b option" where
  "checked r fail k = do { x \<leftarrow> r; (case x of None \<Rightarrow> fail | Some (v, off) \<Rightarrow> k v off) }"

abbreviation "rd_u32 payload off \<equiv> isz_proto_read_u32_checked payload off (length payload)"
abbreviation "rd_i32 payload off \<equiv> isz_proto_read_i32_checked payload off (length payload)"
abbreviation "rd_u64 payload off \<equiv> isz_proto_read_u64_checked payload off (length payload)"

text \<open>The object table of the connection.\<close>

definition lookup_ref :: "world \<Rightarrow> nat \<Rightarrow> u32 \<Rightarrow> obj_kind \<Rightarrow> nat option option" where
  "lookup_ref w conn i kind = do { c \<leftarrow> w_conns w conn; Some (isz_conn_lookup_object c i kind) }"

definition register_ref :: "world \<Rightarrow> nat \<Rightarrow> nat \<Rightarrow> obj_kind \<Rightarrow> (world \<times> u32) option" where
  "register_ref w conn handle kind = do {
     c \<leftarrow> w_conns w conn;
     (case isz_conn_register_object w c handle kind of (w, c, i) \<Rightarrow> Some (upd_conn w conn c, i))
   }"

definition unregister_ref :: "world \<Rightarrow> nat \<Rightarrow> u32 \<Rightarrow> world option" where
  "unregister_ref w conn i = do { c \<leftarrow> w_conns w conn; Some (upd_conn w conn (isz_conn_unregister_object c i)) }"

definition isz_resolve_output :: "world \<Rightarrow> nat \<Rightarrow> u32 \<Rightarrow> (world \<times> nat option) option" where
  "isz_resolve_output w conn output_id = do {
     found \<leftarrow> (if output_id \<noteq> 0 then lookup_ref w conn output_id ISZ_OBJECT_OUTPUT else Some None);
     (case found of
        Some out \<Rightarrow> Some (w, Some out)
      | None \<Rightarrow>
          (case isz_output_list w of
             (w, Some (out # outs)) \<Rightarrow> Some (w, Some out)
           | (w, _) \<Rightarrow> Some (w, None)))
   }"

definition isz_resolve_seat :: "world \<Rightarrow> nat \<Rightarrow> u32 \<Rightarrow> (world \<times> nat option) option" where
  "isz_resolve_seat w conn seat_id = do {
     found \<leftarrow> (if seat_id \<noteq> 0 then lookup_ref w conn seat_id ISZ_OBJECT_SEAT else Some None);
     (case found of
        Some seat \<Rightarrow> Some (w, Some seat)
      | None \<Rightarrow> isz_seat_default w)
   }"

text \<open>The output named at the head of the payload, with the offset behind it.\<close>

definition isz_resolve_output_payload :: "world \<Rightarrow> nat \<Rightarrow> u8 list \<Rightarrow> (world \<times> nat option \<times> nat) option" where
  "isz_resolve_output_payload w conn payload =
     checked (rd_u32 payload 0) (Some (w, None, 0))
       (\<lambda>output_id off. do { (w, out) \<leftarrow> isz_resolve_output w conn output_id; Some (w, out, off) })"

text \<open>Report the result of a setter.\<close>

definition reply_unless_ok :: "nat \<Rightarrow> u32 \<Rightarrow> (world \<times> isz_error) option \<Rightarrow> world option" where
  "reply_unless_ok conn msg res = do {
     (w, rc) \<leftarrow> res;
     (if rc \<noteq> ISZ_OK then isz_reply_error w conn msg rc else Some w)
   }"

section \<open>Surface messages\<close>

text \<open>Registering a new surface: on failure it is destroyed again.\<close>

definition register_surface :: "world \<Rightarrow> nat \<Rightarrow> u32 \<Rightarrow> nat \<Rightarrow> (world \<Rightarrow> u32 \<Rightarrow> world option) \<Rightarrow> world option" where
  "register_surface w conn msg surf reply = do {
     (w, i) \<leftarrow> register_ref w conn surf ISZ_OBJECT_SURFACE;
     (if i = 0
      then do { w \<leftarrow> isz_surface_destroy w (Some surf); isz_reply_error w conn msg ISZ_ERR_NO_MEMORY }
      else do {
        s \<leftarrow> w_surfaces w surf;
        reply (upd_surface w surf (s\<lparr>sf_owning_conn := Some conn, sf_object_id := i\<rparr>)) i
      })
   }"

definition isz_handle_surface_create :: "world \<Rightarrow> nat \<Rightarrow> world option" where
  "isz_handle_surface_create w conn =
     (case isz_surface_create w of
        (w, None) \<Rightarrow> isz_reply_error w conn ISZ_MSG_SURFACE_CREATE ISZ_ERR_NO_MEMORY
      | (w, Some surf) \<Rightarrow>
          register_surface w conn ISZ_MSG_SURFACE_CREATE surf (\<lambda>w i. isz_reply_surface_create w conn i))"

definition isz_handle_surface_destroy :: "world \<Rightarrow> nat \<Rightarrow> u8 list \<Rightarrow> world option" where
  "isz_handle_surface_destroy w conn payload =
     (let fail = isz_reply_error w conn ISZ_MSG_SURFACE_DESTROY ISZ_ERR_INVALID_ARG
      in checked (rd_u32 payload 0) fail (\<lambda>surface_id off. do {
           surf \<leftarrow> lookup_ref w conn surface_id ISZ_OBJECT_SURFACE;
           (case surf of
              None \<Rightarrow> fail
            | Some r \<Rightarrow> do {
                w \<leftarrow> unregister_ref w conn surface_id;
                isz_surface_destroy w (Some r)
              })
         }))"

definition isz_handle_attach_buffer :: "world \<Rightarrow> nat \<Rightarrow> u8 list \<Rightarrow> fd list \<Rightarrow> (world \<times> fd list) option" where
  "isz_handle_attach_buffer w conn payload fds =
     (let err = (\<lambda>w fds rc. do { w \<leftarrow> isz_reply_error w conn ISZ_MSG_SURFACE_ATTACH_BUFFER rc; Some (w, fds) });
          fail = err w fds ISZ_ERR_INVALID_ARG
      in checked (rd_u32 payload 0) fail (\<lambda>surface_id off.
         checked (rd_u32 payload off) fail (\<lambda>fd_index off.
         checked (rd_u32 payload off) fail (\<lambda>wd off.
         checked (rd_u32 payload off) fail (\<lambda>ht off.
         checked (rd_u32 payload off) fail (\<lambda>stride off.
         checked (rd_u32 payload off) fail (\<lambda>offset off.
         checked (rd_u32 payload off) fail (\<lambda>format off.
         checked (rd_u64 payload off) fail (\<lambda>modifier off.
         if off \<ge> length payload then fail
         else do {
           alpha_mode \<leftarrow> isz_proto_read_u8 payload off;
           let desc = \<lparr>bd_width = wd, bd_height = ht, bd_stride = stride, bd_offset = offset, bd_format = format,
                       bd_modifier = modifier, bd_alpha_mode = alpha_mode\<rparr>;
           surf \<leftarrow> lookup_ref w conn surface_id ISZ_OBJECT_SURFACE;
           (case surf of
              None \<Rightarrow> fail
            | Some r \<Rightarrow>
                if unat fd_index \<ge> length fds \<or> fds ! unat fd_index < 0 then err w fds ISZ_ERR_INVALID_DMABUF
                else do {
                  let dmabuf_fd = fds ! unat fd_index;
                  let fds = isz_consume_fd fds (unat fd_index);
                  (w, rc) \<leftarrow> isz_surface_attach_buffer w (Some r) dmabuf_fd (Some desc);
                  (if rc \<noteq> ISZ_OK then err w fds rc
                   else do {
                     s \<leftarrow> w_surfaces w r;
                     (w, buffer_id) \<leftarrow> (case sf_current s of
                         None \<Rightarrow> Some (w, 0)
                       | Some b \<Rightarrow> register_ref w conn b ISZ_OBJECT_BUFFER);
                     (if buffer_id = 0 then err w fds ISZ_ERR_NO_MEMORY
                      else do { w \<leftarrow> isz_reply_attach_buffer w conn surface_id buffer_id; Some (w, fds) })
                   })
                })
         })))))))))"

fun read_rects :: "u8 list \<Rightarrow> nat \<Rightarrow> nat \<Rightarrow> isz_rect list option" where
  "read_rects payload off 0 = Some []"
| "read_rects payload off (Suc n) = do {
     x1 \<leftarrow> isz_proto_read_i32 payload off;
     y1 \<leftarrow> isz_proto_read_i32 payload (off + 4);
     x2 \<leftarrow> isz_proto_read_i32 payload (off + 8);
     y2 \<leftarrow> isz_proto_read_i32 payload (off + 12);
     rs \<leftarrow> read_rects payload (off + 16) n;
     Some (\<lparr>rc_x1 = x1, rc_y1 = y1, rc_x2 = x2, rc_y2 = y2\<rparr> # rs)
   }"

definition isz_handle_damage :: "world \<Rightarrow> nat \<Rightarrow> u8 list \<Rightarrow> world option" where
  "isz_handle_damage w conn payload =
     (let fail = isz_reply_error w conn ISZ_MSG_SURFACE_DAMAGE ISZ_ERR_INVALID_ARG
      in checked (rd_u32 payload 0) fail (\<lambda>surface_id off.
         checked (rd_u32 payload off) fail (\<lambda>n_rects off.
         if length payload - off < unat n_rects * 16 then fail
         else do {
           surf \<leftarrow> lookup_ref w conn surface_id ISZ_OBJECT_SURFACE;
           (case surf of
              None \<Rightarrow> fail
            | Some r \<Rightarrow>
                if n_rects = 0
                then do { (w, rc) \<leftarrow> isz_surface_damage w (Some r) None 0; Some w }
                else case k_alloc w of
                       (w, False) \<Rightarrow> isz_reply_error w conn ISZ_MSG_SURFACE_DAMAGE ISZ_ERR_NO_MEMORY
                     | (w, True) \<Rightarrow> do {
                         rects \<leftarrow> read_rects payload off (unat n_rects);
                         reply_unless_ok conn ISZ_MSG_SURFACE_DAMAGE
                           (isz_surface_damage w (Some r) (Some rects) (unat n_rects))
                       })
         })))"

definition isz_handle_surface_setter ::
    "world \<Rightarrow> nat \<Rightarrow> u8 list \<Rightarrow> u32 \<Rightarrow> (world \<Rightarrow> nat option \<Rightarrow> int \<Rightarrow> (world \<times> isz_error) option) \<Rightarrow> world option" where
  "isz_handle_surface_setter w conn payload reply_msg_id setter =
     (let fail = isz_reply_error w conn reply_msg_id ISZ_ERR_INVALID_ARG
      in checked (rd_u32 payload 0) fail (\<lambda>surface_id off.
         checked (rd_i32 payload off) fail (\<lambda>val off. do {
           surf \<leftarrow> lookup_ref w conn surface_id ISZ_OBJECT_SURFACE;
           (case surf of
              None \<Rightarrow> fail
            | Some r \<Rightarrow> reply_unless_ok conn reply_msg_id (setter w (Some r) val))
         })))"

definition isz_handle_set_position :: "world \<Rightarrow> nat \<Rightarrow> u8 list \<Rightarrow> world option" where
  "isz_handle_set_position w conn payload =
     (let fail = isz_reply_error w conn ISZ_MSG_SURFACE_SET_POSITION ISZ_ERR_INVALID_ARG
      in checked (rd_u32 payload 0) fail (\<lambda>surface_id off.
         checked (rd_i32 payload off) fail (\<lambda>x off.
         checked (rd_i32 payload off) fail (\<lambda>y off. do {
           surf \<leftarrow> lookup_ref w conn surface_id ISZ_OBJECT_SURFACE;
           (case surf of
              None \<Rightarrow> fail
            | Some r \<Rightarrow> reply_unless_ok conn ISZ_MSG_SURFACE_SET_POSITION (isz_surface_set_position w (Some r) x y))
         }))))"

definition isz_handle_set_size :: "world \<Rightarrow> nat \<Rightarrow> u8 list \<Rightarrow> world option" where
  "isz_handle_set_size w conn payload =
     (let fail = isz_reply_error w conn ISZ_MSG_SURFACE_SET_SIZE ISZ_ERR_INVALID_ARG
      in checked (rd_u32 payload 0) fail (\<lambda>surface_id off.
         checked (rd_i32 payload off) fail (\<lambda>wd off.
         checked (rd_i32 payload off) fail (\<lambda>ht off. do {
           surf \<leftarrow> lookup_ref w conn surface_id ISZ_OBJECT_SURFACE;
           (case surf of
              None \<Rightarrow> fail
            | Some r \<Rightarrow> reply_unless_ok conn ISZ_MSG_SURFACE_SET_SIZE (isz_surface_set_size w (Some r) wd ht))
         }))))"

definition isz_handle_create_subsurface :: "world \<Rightarrow> nat \<Rightarrow> u8 list \<Rightarrow> world option" where
  "isz_handle_create_subsurface w conn payload =
     (let fail = isz_reply_error w conn ISZ_MSG_SURFACE_CREATE_SUBSURFACE ISZ_ERR_INVALID_ARG
      in checked (rd_u32 payload 0) fail (\<lambda>parent_id off. do {
           parent \<leftarrow> lookup_ref w conn parent_id ISZ_OBJECT_SURFACE;
           (case parent of
              None \<Rightarrow> fail
            | Some p \<Rightarrow> do {
                (w, sub) \<leftarrow> isz_surface_create_subsurface w (Some p);
                (case sub of
                   None \<Rightarrow> isz_reply_error w conn ISZ_MSG_SURFACE_CREATE_SUBSURFACE ISZ_ERR_NO_MEMORY
                 | Some r \<Rightarrow>
                     register_surface w conn ISZ_MSG_SURFACE_CREATE_SUBSURFACE r (\<lambda>w i. isz_reply_subsurface w conn parent_id i))
              })
         }))"

definition isz_handle_create_popup :: "world \<Rightarrow> nat \<Rightarrow> u8 list \<Rightarrow> world option" where
  "isz_handle_create_popup w conn payload =
     (let fail = isz_reply_error w conn ISZ_MSG_SURFACE_CREATE_POPUP ISZ_ERR_INVALID_ARG
      in checked (rd_u32 payload 0) fail (\<lambda>parent_id off.
         checked (rd_i32 payload off) fail (\<lambda>x off.
         checked (rd_i32 payload off) fail (\<lambda>y off. do {
           parent \<leftarrow> lookup_ref w conn parent_id ISZ_OBJECT_SURFACE;
           (case parent of
              None \<Rightarrow> fail
            | Some p \<Rightarrow> do {
                (w, pop) \<leftarrow> isz_surface_create_popup w (Some p) x y;
                (case pop of
                   None \<Rightarrow> isz_reply_error w conn ISZ_MSG_SURFACE_CREATE_POPUP ISZ_ERR_NO_MEMORY
                 | Some r \<Rightarrow>
                     register_surface w conn ISZ_MSG_SURFACE_CREATE_POPUP r (\<lambda>w i. isz_reply_popup w conn parent_id i))
              })
         }))))"

definition isz_handle_create_layer :: "world \<Rightarrow> nat \<Rightarrow> u8 list \<Rightarrow> world option" where
  "isz_handle_create_layer w conn payload =
     (let err = (\<lambda>w rc. isz_reply_error w conn ISZ_MSG_SURFACE_CREATE_LAYER rc)
      in checked (rd_u32 payload 0) (err w ISZ_ERR_INVALID_ARG) (\<lambda>output_id off.
         checked (rd_i32 payload off) (err w ISZ_ERR_INVALID_ARG) (\<lambda>layer off. do {
           (w, out) \<leftarrow> isz_resolve_output w conn output_id;
           (case out of
              None \<Rightarrow> err w ISZ_ERR_INVALID_ARG
            | Some o' \<Rightarrow>
                (case layer_of_int layer of
                   None \<Rightarrow> err w ISZ_ERR_INVALID_ARG
                 | Some l \<Rightarrow> do {
                     (w, s) \<leftarrow> isz_surface_create_layer w (Some o') l;
                     (case s of
                        None \<Rightarrow> err w ISZ_ERR_NO_MEMORY
                      | Some r \<Rightarrow>
                          register_surface w conn ISZ_MSG_SURFACE_CREATE_LAYER r
                            (\<lambda>w i. do { ou \<leftarrow> w_outputs w o'; isz_reply_layer w conn (o_id ou) i }))
                   }))
         })))"

definition isz_handle_buffer_destroy :: "world \<Rightarrow> nat \<Rightarrow> u8 list \<Rightarrow> world option" where
  "isz_handle_buffer_destroy w conn payload =
     checked (rd_u32 payload 0) (isz_reply_error w conn ISZ_MSG_BUFFER_DESTROY ISZ_ERR_INVALID_ARG) (\<lambda>buffer_id off. do {
       buf \<leftarrow> lookup_ref w conn buffer_id ISZ_OBJECT_BUFFER;
       (case buf of
          None \<Rightarrow> Some w
        | Some b \<Rightarrow> do {
            w \<leftarrow> unregister_ref w conn buffer_id;
            release_unref w (Some b)
          })
     })"

definition isz_handle_popup_dismiss :: "world \<Rightarrow> nat \<Rightarrow> u8 list \<Rightarrow> world option" where
  "isz_handle_popup_dismiss w conn payload =
     (let fail = isz_reply_error w conn ISZ_MSG_POPUP_DISMISS ISZ_ERR_INVALID_ARG
      in checked (rd_u32 payload 0) fail (\<lambda>surface_id off. do {
           surf \<leftarrow> lookup_ref w conn surface_id ISZ_OBJECT_SURFACE;
           (if surf = None then fail else Some w)
         }))"

section \<open>Output messages\<close>

definition isz_handle_commit :: "world \<Rightarrow> nat \<Rightarrow> u8 list \<Rightarrow> world option" where
  "isz_handle_commit w conn payload =
     (let fail = isz_reply_error w conn ISZ_MSG_COMMIT ISZ_ERR_INVALID_ARG
      in checked (rd_u32 payload 0) fail (\<lambda>output_id off.
         checked (rd_u32 payload off) fail (\<lambda>flags off. do {
           (w, out) \<leftarrow> isz_resolve_output w conn output_id;
           (case out of
              None \<Rightarrow> isz_reply_error w conn ISZ_MSG_COMMIT ISZ_ERR_INVALID_ARG
            | Some o' \<Rightarrow> reply_unless_ok conn ISZ_MSG_COMMIT (isz_commit w (Some o') flags))
         })))"

definition isz_handle_output_enable :: "world \<Rightarrow> nat \<Rightarrow> u8 list \<Rightarrow> world option" where
  "isz_handle_output_enable w conn payload = do {
     (w, out, off) \<leftarrow> isz_resolve_output_payload w conn payload;
     let fail = isz_reply_error w conn ISZ_MSG_OUTPUT_ENABLE ISZ_ERR_INVALID_ARG;
     (case out of
        None \<Rightarrow> fail
      | Some o' \<Rightarrow> checked (rd_u32 payload off) fail (\<lambda>mode_index off. do {
          modes \<leftarrow> isz_output_get_modes w (Some o');
          (case modes of
             None \<Rightarrow> fail
           | Some ms \<Rightarrow>
               if unat mode_index \<ge> length ms then fail
               else reply_unless_ok conn ISZ_MSG_OUTPUT_ENABLE (isz_output_enable w (Some o') (Some (ms ! unat mode_index))))
        }))
   }"

definition isz_handle_output_disable :: "world \<Rightarrow> nat \<Rightarrow> u8 list \<Rightarrow> world option" where
  "isz_handle_output_disable w conn payload = do {
     (w, out, off) \<leftarrow> isz_resolve_output_payload w conn payload;
     (case out of
        None \<Rightarrow> isz_reply_error w conn ISZ_MSG_OUTPUT_DISABLE ISZ_ERR_INVALID_ARG
      | Some o' \<Rightarrow> reply_unless_ok conn ISZ_MSG_OUTPUT_DISABLE (isz_output_disable w (Some o')))
   }"

definition isz_handle_output_set_dpms :: "world \<Rightarrow> nat \<Rightarrow> u8 list \<Rightarrow> world option" where
  "isz_handle_output_set_dpms w conn payload = do {
     (w, out, off) \<leftarrow> isz_resolve_output_payload w conn payload;
     let fail = isz_reply_error w conn ISZ_MSG_OUTPUT_SET_DPMS ISZ_ERR_INVALID_ARG;
     (case out of
        None \<Rightarrow> fail
      | Some o' \<Rightarrow> checked (rd_i32 payload off) fail (\<lambda>state off.
          case dpms_of_int state of
            None \<Rightarrow> fail
          | Some st \<Rightarrow> reply_unless_ok conn ISZ_MSG_OUTPUT_SET_DPMS (isz_output_set_dpms w (Some o') st)))
   }"

text \<open>One little-endian 16-bit channel value.\<close>

definition read_u16 :: "u8 list \<Rightarrow> nat \<Rightarrow> u16 option" where
  "read_u16 payload off = do {
     a \<leftarrow> isz_proto_read_u8 payload off;
     b \<leftarrow> isz_proto_read_u8 payload (off + 1);
     Some (ucast a OR push_bit 8 (ucast b))
   }"

fun read_lut :: "u8 list \<Rightarrow> nat \<Rightarrow> nat \<Rightarrow> (u16 list \<times> u16 list \<times> u16 list) option" where
  "read_lut payload off 0 = Some ([], [], [])"
| "read_lut payload off (Suc n) = do {
     r \<leftarrow> read_u16 payload off;
     g \<leftarrow> read_u16 payload (off + 2);
     b \<leftarrow> read_u16 payload (off + 4);
     (rs, gs, bs) \<leftarrow> read_lut payload (off + 6) n;
     Some (r # rs, g # gs, b # bs)
   }"

definition isz_parse_lut_payload ::
    "u8 list \<Rightarrow> nat \<Rightarrow> (isz_error + nat \<times> u16 list \<times> u16 list \<times> u16 list) option" where
  "isz_parse_lut_payload payload off =
     checked (rd_u32 payload off) (Some (Inl ISZ_ERR_INVALID_ARG)) (\<lambda>sz off.
       if sz = 0 \<or> length payload - off < unat sz * 6 then Some (Inl ISZ_ERR_INVALID_ARG)
       else if unat sz > 4096 then Some (Inl ISZ_ERR_RESOURCE_LIMIT)
       else do { (r, g, b) \<leftarrow> read_lut payload off (unat sz); Some (Inr (unat sz, r, g, b)) })"

definition isz_handle_output_set_lut ::
    "world \<Rightarrow> nat \<Rightarrow> u8 list \<Rightarrow> u32
     \<Rightarrow> (world \<Rightarrow> nat option \<Rightarrow> u16 list option \<Rightarrow> u16 list option \<Rightarrow> u16 list option \<Rightarrow> nat \<Rightarrow> (world \<times> isz_error) option)
     \<Rightarrow> world option" where
  "isz_handle_output_set_lut w conn payload reply_id api = do {
     (w, out, off) \<leftarrow> isz_resolve_output_payload w conn payload;
     (case out of
        None \<Rightarrow> isz_reply_error w conn reply_id ISZ_ERR_INVALID_ARG
      | Some o' \<Rightarrow> do {
          lut \<leftarrow> isz_parse_lut_payload payload off;
          (case lut of
             Inl rc \<Rightarrow> isz_reply_error w conn reply_id rc
           | Inr (n, r, g, b) \<Rightarrow> reply_unless_ok conn reply_id (api w (Some o') (Some r) (Some g) (Some b) n))
        })
   }"

fun read_u32s :: "u8 list \<Rightarrow> nat \<Rightarrow> nat \<Rightarrow> u32 list option" where
  "read_u32s payload off 0 = Some []"
| "read_u32s payload off (Suc n) = do {
     x \<leftarrow> isz_proto_read_u32 payload off;
     xs \<leftarrow> read_u32s payload (off + 4) n;
     Some (x # xs)
   }"

definition isz_handle_output_set_ctm :: "world \<Rightarrow> nat \<Rightarrow> u8 list \<Rightarrow> world option" where
  "isz_handle_output_set_ctm w conn payload = do {
     (w, out, off) \<leftarrow> isz_resolve_output_payload w conn payload;
     let fail = isz_reply_error w conn ISZ_MSG_OUTPUT_SET_CTM ISZ_ERR_INVALID_ARG;
     (case out of
        None \<Rightarrow> fail
      | Some o' \<Rightarrow>
          if length payload - off < 36 then fail
          else do {
            matrix \<leftarrow> read_u32s payload off 9;
            reply_unless_ok conn ISZ_MSG_OUTPUT_SET_CTM (isz_output_set_ctm w (Some o') (Some matrix))
          })
   }"

definition isz_handle_output_set_hdr :: "world \<Rightarrow> nat \<Rightarrow> u8 list \<Rightarrow> world option" where
  "isz_handle_output_set_hdr w conn payload = do {
     (w, out, off) \<leftarrow> isz_resolve_output_payload w conn payload;
     let fail = isz_reply_error w conn ISZ_MSG_OUTPUT_SET_HDR_METADATA ISZ_ERR_INVALID_ARG;
     (case out of
        None \<Rightarrow> fail
      | Some o' \<Rightarrow>
          if length payload < off then fail
          else let n = (if length payload - off > 64 then 64 else length payload - off)
               in reply_unless_ok conn ISZ_MSG_OUTPUT_SET_HDR_METADATA
                    (isz_output_set_hdr_metadata w (Some o') (Some (n, take n (drop off payload)))))
   }"

section \<open>Seat messages\<close>

text \<open>The surface named by an id, where 0 means none; the outer \<open>None\<close> of the result is the failed lookup.\<close>

definition optional_surface :: "world \<Rightarrow> nat \<Rightarrow> u32 \<Rightarrow> nat option option option" where
  "optional_surface w conn surface_id =
     (if surface_id = 0 then Some (Some None)
      else do {
        surf \<leftarrow> lookup_ref w conn surface_id ISZ_OBJECT_SURFACE;
        Some (case surf of None \<Rightarrow> None | Some r \<Rightarrow> Some (Some r))
      })"

definition handle_seat_surface ::
    "world \<Rightarrow> nat \<Rightarrow> u8 list \<Rightarrow> u32 \<Rightarrow> (world \<Rightarrow> nat option \<Rightarrow> nat option \<Rightarrow> (world \<times> isz_error) option) \<Rightarrow> world option" where
  "handle_seat_surface w conn payload msg api =
     (let fail = (\<lambda>w. isz_reply_error w conn msg ISZ_ERR_INVALID_ARG)
      in checked (rd_u32 payload 0) (fail w) (\<lambda>seat_id off.
         checked (rd_u32 payload off) (fail w) (\<lambda>surface_id off. do {
           (w, seat) \<leftarrow> isz_resolve_seat w conn seat_id;
           (case seat of
              None \<Rightarrow> fail w
            | Some st \<Rightarrow> do {
                surf \<leftarrow> optional_surface w conn surface_id;
                (case surf of
                   None \<Rightarrow> fail w
                 | Some sf \<Rightarrow> reply_unless_ok conn msg (api w (Some st) sf))
              })
         })))"

definition isz_handle_seat_set_keyboard_focus :: "world \<Rightarrow> nat \<Rightarrow> u8 list \<Rightarrow> world option" where
  "isz_handle_seat_set_keyboard_focus w conn payload =
     handle_seat_surface w conn payload ISZ_MSG_SEAT_SET_KEYBOARD_FOCUS isz_seat_set_keyboard_focus"

definition isz_handle_seat_set_cursor_surface :: "world \<Rightarrow> nat \<Rightarrow> u8 list \<Rightarrow> world option" where
  "isz_handle_seat_set_cursor_surface w conn payload =
     handle_seat_surface w conn payload ISZ_MSG_SEAT_SET_CURSOR_SURFACE isz_seat_set_cursor_surface"

section \<open>Capture messages\<close>

definition isz_handle_capture_start :: "world \<Rightarrow> nat \<Rightarrow> u8 list \<Rightarrow> fd list \<Rightarrow> (world \<times> fd list) option" where
  "isz_handle_capture_start w conn payload fds =
     (let err = (\<lambda>w fds rc. do { w \<leftarrow> isz_reply_error w conn ISZ_MSG_CAPTURE_START rc; Some (w, fds) });
          fail = err w fds ISZ_ERR_INVALID_ARG
      in checked (rd_u32 payload 0) fail (\<lambda>output_id off.
         checked (rd_u32 payload off) fail (\<lambda>fd_index off.
         checked (rd_u32 payload off) fail (\<lambda>wd off.
         checked (rd_u32 payload off) fail (\<lambda>ht off.
         checked (rd_u32 payload off) fail (\<lambda>stride off.
         checked (rd_u32 payload off) fail (\<lambda>offset off.
         checked (rd_u32 payload off) fail (\<lambda>format off.
         checked (rd_u64 payload off) fail (\<lambda>modifier off.
         if off \<ge> length payload then fail
         else do {
           alpha_mode \<leftarrow> isz_proto_read_u8 payload off;
           let desc = \<lparr>bd_width = wd, bd_height = ht, bd_stride = stride, bd_offset = offset, bd_format = format,
                       bd_modifier = modifier, bd_alpha_mode = alpha_mode\<rparr>;
           (w, out) \<leftarrow> isz_resolve_output w conn output_id;
           (case out of
              None \<Rightarrow> err w fds ISZ_ERR_INVALID_ARG
            | Some o' \<Rightarrow>
                if unat fd_index \<ge> length fds \<or> fds ! unat fd_index < 0 then err w fds ISZ_ERR_INVALID_DMABUF
                else do {
                  let dmabuf_fd = fds ! unat fd_index;
                  let fds = isz_consume_fd fds (unat fd_index);
                  (w, rc) \<leftarrow> isz_output_capture_start w (Some o') dmabuf_fd (Some desc);
                  (if rc \<noteq> ISZ_OK then err w fds rc
                   else Some (isz_capture_set_owning_conn w (Some o') (Some conn), fds))
                })
         })))))))))"

definition isz_handle_capture_stop :: "world \<Rightarrow> nat \<Rightarrow> u8 list \<Rightarrow> world option" where
  "isz_handle_capture_stop w conn payload =
     (let fail = (\<lambda>w. isz_reply_error w conn ISZ_MSG_CAPTURE_STOP ISZ_ERR_INVALID_ARG)
      in checked (rd_u32 payload 0) (fail w) (\<lambda>output_id off. do {
           (w, out) \<leftarrow> isz_resolve_output w conn output_id;
           (case out of
              None \<Rightarrow> fail w
            | Some o' \<Rightarrow> do {
                w \<leftarrow> reply_unless_ok conn ISZ_MSG_CAPTURE_STOP (isz_output_capture_stop w (Some o'));
                Some (isz_capture_set_owning_conn w (Some o') None)
              })
         }))"

section \<open>Clipboard and selections\<close>

definition isz_clipboard_slot_clear :: "world \<Rightarrow> world" where
  "isz_clipboard_slot_clear w =
     (let s = w_clipboard w;
          w = (if cb_fd s \<ge> 0 then k_close w (cb_fd s) else w)
      in w\<lparr>w_clipboard := s\<lparr>cb_fd := -1, cb_mime := (cb_mime s)[0 := 0], cb_mime_len := 0\<rparr>\<rparr>)"

definition isz_handle_clipboard_set :: "world \<Rightarrow> nat \<Rightarrow> u8 list \<Rightarrow> fd list \<Rightarrow> (world \<times> fd list) option" where
  "isz_handle_clipboard_set w conn payload fds =
     (let err = (\<lambda>w rc. do { w \<leftarrow> isz_reply_error w conn ISZ_MSG_CLIPBOARD_SET rc; Some (w, fds) });
          fail = err w ISZ_ERR_INVALID_ARG
      in checked (rd_u32 payload 0) fail (\<lambda>fd_index off.
         checked (rd_u32 payload off) fail (\<lambda>mime_len off.
         if unat mime_len > 63 \<or> length payload - off < unat mime_len then fail
         else if unat fd_index \<ge> length fds \<or> fds ! unat fd_index < 0 then fail
         else case k_dup w (fds ! unat fd_index) of
                (w, None) \<Rightarrow> err w ISZ_ERR_NO_MEMORY
              | (w, Some stored) \<Rightarrow> do {
                  let fds = isz_consume_fd fds (unat fd_index);
                  let w = isz_clipboard_slot_clear w;
                  let s = w_clipboard w;
                  mime \<leftarrow> memcpy_at (cb_mime s) 0 (drop off payload) (unat mime_len);
                  (if unat mime_len \<ge> length mime then None
                   else Some (w\<lparr>w_clipboard := s\<lparr>cb_fd := stored, cb_mime := mime[unat mime_len := 0],
                                                cb_mime_len := unat mime_len\<rparr>\<rparr>, fds))
                })))"

definition isz_handle_clipboard_request :: "world \<Rightarrow> nat \<Rightarrow> world option" where
  "isz_handle_clipboard_request w conn = do {
     let s = w_clipboard w;
     (payload, off) \<leftarrow> isz_proto_write_u32 (replicate 68 0) 0 (of_nat (cb_mime_len s));
     (payload, off) \<leftarrow> (if cb_mime_len s > 0
        then do { p \<leftarrow> memcpy_at payload off (cb_mime s) (cb_mime_len s); Some (p, off + cb_mime_len s) }
        else Some (payload, off));
     (if cb_fd s \<ge> 0
      then case k_dup w (cb_fd s) of
             (w, None) \<Rightarrow> isz_reply_error w conn ISZ_MSG_CLIPBOARD_REQUEST ISZ_ERR_NO_MEMORY
           | (w, Some dup_fd) \<Rightarrow> do {
               (w, rc) \<leftarrow> conn_send_ref w conn ISZ_MSG_CLIPBOARD_REQUEST (Some payload) off (Some [dup_fd]) 1;
               Some (if rc \<noteq> ISZ_OK then k_close w dup_fd else w)
             }
      else do {
        (w, rc) \<leftarrow> conn_send_ref w conn ISZ_MSG_CLIPBOARD_REQUEST (Some payload) off None 0;
        Some w
      })
   }"

abbreviation (input) "ISZ_SELECTION_FD_NONE \<equiv> (0xFFFFFFFF :: u32)"

definition close_selection_fd :: "world \<Rightarrow> nat \<Rightarrow> world" where
  "close_selection_fd w slot =
     (if w_selection_fd w ! slot \<ge> 0 then k_close w (w_selection_fd w ! slot) else w)"

definition isz_handle_set_selection_owner :: "world \<Rightarrow> nat \<Rightarrow> u8 list \<Rightarrow> fd list \<Rightarrow> (world \<times> fd list) option" where
  "isz_handle_set_selection_owner w conn payload fds =
     (let err = (\<lambda>w fds rc. do { w \<leftarrow> isz_reply_error w conn ISZ_MSG_SET_SELECTION_OWNER rc; Some (w, fds) });
          fail = err w fds ISZ_ERR_INVALID_ARG
      in checked (rd_u32 payload 0) fail (\<lambda>slot off.
         checked (rd_u64 payload off) fail (\<lambda>timestamp_ns off.
         checked (rd_u32 payload off) fail (\<lambda>surface_id off.
         checked (rd_u32 payload off) fail (\<lambda>fd_index off.
         if slot > 1 then fail
         else do {
           surf \<leftarrow> optional_surface w conn surface_id;
           (case surf of
              None \<Rightarrow> fail
            | Some owner \<Rightarrow> do {
                (w, seat) \<leftarrow> isz_seat_default w;
                (case seat of
                   None \<Rightarrow> err w fds ISZ_ERR_NO_MEMORY
                 | Some st \<Rightarrow> do {
                     (w, rc) \<leftarrow> isz_seat_set_selection_owner w (Some st) (int (unat slot)) owner timestamp_ns;
                     (if rc \<noteq> ISZ_OK then err w fds rc
                      else if fd_index \<noteq> ISZ_SELECTION_FD_NONE \<and> unat fd_index < length fds \<and> fds ! unat fd_index \<ge> 0
                      then (case k_dup w (fds ! unat fd_index) of
                              (w, None) \<Rightarrow> err w (isz_consume_fd fds (unat fd_index)) ISZ_ERR_NO_MEMORY
                            | (w, Some stored) \<Rightarrow>
                                let w = close_selection_fd w (unat slot)
                                in Some (w\<lparr>w_selection_fd := (w_selection_fd w)[unat slot := stored]\<rparr>,
                                         isz_consume_fd fds (unat fd_index)))
                      else if owner = None
                      then if w_selection_fd w ! unat slot \<ge> 0
                           then let w = close_selection_fd w (unat slot)
                                in Some (w\<lparr>w_selection_fd := (w_selection_fd w)[unat slot := -1]\<rparr>, fds)
                           else Some (w, fds)
                      else Some (w, fds))
                   })
              })
         })))))"

definition isz_handle_drag_stub :: "world \<Rightarrow> nat \<Rightarrow> u32 \<Rightarrow> world option" where
  "isz_handle_drag_stub w conn msg_id = isz_reply_error w conn msg_id ISZ_ERR_FEATURE_UNAVAIL"

section \<open>The dispatcher\<close>

definition dispatch_fds :: "world \<Rightarrow> nat \<Rightarrow> u32 \<Rightarrow> u8 list \<Rightarrow> fd list \<Rightarrow> (world \<times> fd list) option" where
  "dispatch_fds w conn msg_id payload fds =
     (if msg_id = ISZ_MSG_SURFACE_ATTACH_BUFFER then isz_handle_attach_buffer w conn payload fds
      else if msg_id = ISZ_MSG_CAPTURE_START then isz_handle_capture_start w conn payload fds
      else if msg_id = ISZ_MSG_CLIPBOARD_SET then isz_handle_clipboard_set w conn payload fds
      else if msg_id = ISZ_MSG_SET_SELECTION_OWNER then isz_handle_set_selection_owner w conn payload fds
      else do {
        w \<leftarrow>
          (if msg_id = ISZ_MSG_SURFACE_CREATE then isz_handle_surface_create w conn
           else if msg_id = ISZ_MSG_SURFACE_DESTROY then isz_handle_surface_destroy w conn payload
           else if msg_id = ISZ_MSG_SURFACE_DAMAGE then isz_handle_damage w conn payload
           else if msg_id = ISZ_MSG_SURFACE_SET_POSITION then isz_handle_set_position w conn payload
           else if msg_id = ISZ_MSG_SURFACE_SET_SIZE then isz_handle_set_size w conn payload
           else if msg_id = ISZ_MSG_SURFACE_SET_PLANE_TYPE
             then isz_handle_surface_setter w conn payload ISZ_MSG_SURFACE_SET_PLANE_TYPE isz_surface_set_plane_type
           else if msg_id = ISZ_MSG_SURFACE_SET_PLANE_SLOT
             then isz_handle_surface_setter w conn payload ISZ_MSG_SURFACE_SET_PLANE_SLOT isz_surface_set_plane_slot
           else if msg_id = ISZ_MSG_SURFACE_SET_ZPOS
             then isz_handle_surface_setter w conn payload ISZ_MSG_SURFACE_SET_ZPOS isz_surface_set_zpos
           else if msg_id = ISZ_MSG_SURFACE_SET_TRANSFORM
             then isz_handle_surface_setter w conn payload ISZ_MSG_SURFACE_SET_TRANSFORM isz_surface_set_transform
           else if msg_id = ISZ_MSG_SURFACE_CREATE_SUBSURFACE then isz_handle_create_subsurface w conn payload
           else if msg_id = ISZ_MSG_SURFACE_CREATE_POPUP then isz_handle_create_popup w conn payload
           else if msg_id = ISZ_MSG_SURFACE_CREATE_LAYER then isz_handle_create_layer w conn payload
           else if msg_id = ISZ_MSG_BUFFER_DESTROY then isz_handle_buffer_destroy w conn payload
           else if msg_id = ISZ_MSG_COMMIT then isz_handle_commit w conn payload
           else if msg_id = ISZ_MSG_OUTPUT_ENABLE then isz_handle_output_enable w conn payload
           else if msg_id = ISZ_MSG_OUTPUT_DISABLE then isz_handle_output_disable w conn payload
           else if msg_id = ISZ_MSG_OUTPUT_SET_DPMS then isz_handle_output_set_dpms w conn payload
           else if msg_id = ISZ_MSG_OUTPUT_SET_GAMMA
             then isz_handle_output_set_lut w conn payload ISZ_MSG_OUTPUT_SET_GAMMA isz_output_set_gamma
           else if msg_id = ISZ_MSG_OUTPUT_SET_DEGAMMA
             then isz_handle_output_set_lut w conn payload ISZ_MSG_OUTPUT_SET_DEGAMMA isz_output_set_degamma
           else if msg_id = ISZ_MSG_OUTPUT_SET_CTM then isz_handle_output_set_ctm w conn payload
           else if msg_id = ISZ_MSG_OUTPUT_SET_HDR_METADATA then isz_handle_output_set_hdr w conn payload
           else if msg_id = ISZ_MSG_SEAT_SET_KEYBOARD_FOCUS then isz_handle_seat_set_keyboard_focus w conn payload
           else if msg_id = ISZ_MSG_SEAT_SET_CURSOR_SURFACE then isz_handle_seat_set_cursor_surface w conn payload
           else if msg_id = ISZ_MSG_CAPTURE_STOP then isz_handle_capture_stop w conn payload
           else if msg_id = ISZ_MSG_POPUP_DISMISS then isz_handle_popup_dismiss w conn payload
           else if msg_id = ISZ_MSG_CLIPBOARD_REQUEST then isz_handle_clipboard_request w conn
           else if msg_id \<in> {ISZ_MSG_DRAG_START, ISZ_MSG_DRAG_MOTION, ISZ_MSG_DRAG_ACCEPT, ISZ_MSG_DRAG_REJECT, ISZ_MSG_DRAG_DROP}
             then isz_handle_drag_stub w conn msg_id
           else isz_reply_error w conn msg_id ISZ_ERR_INVALID_ARG);
        Some (w, fds)
      })"

definition isz_handle_client_message ::
    "world \<Rightarrow> nat option \<Rightarrow> u32 \<Rightarrow> u8 list \<Rightarrow> fd list \<Rightarrow> (world \<times> fd list \<times> isz_error) option" where
  "isz_handle_client_message w conn msg_id payload fds = (case conn of
       None \<Rightarrow> Some (w, fds, ISZ_ERR_INVALID_ARG)
     | Some cr \<Rightarrow> do {
         c \<leftarrow> w_conns w cr;
         (if \<not> c_handshake_done c then Some (w, fds, ISZ_ERR_CLIENT_DISCONNECTED)
          else do { (w, fds) \<leftarrow> dispatch_fds w cr msg_id payload fds; Some (w, fds, ISZ_OK) })
       })"

end
