(* ===== verification/Isz_Dispatch_Inv.thy ===== *)
theory Isz_Dispatch_Inv
  imports Isz_Dispatch
begin

text \<open>
  The invariant of the whole server state, and that the dispatcher keeps it: for every message a client can
  send, well formed or not, and every outcome of the allocations and system calls, handling the message is
  memory safe, with the two exceptions stated with the main theorem.
\<close>

section \<open>Invariant\<close>

abbreviation is_surf :: "obj_entry \<Rightarrow> bool" where
  "is_surf e \<equiv> oe_kind e = ISZ_OBJECT_SURFACE"

text \<open>The object table of connection \<open>cr\<close>: it names surfaces and buffers only; a surface it names is allocated
  and belongs to this connection, and no surface is named twice.\<close>

definition objs_ok :: "(nat \<Rightarrow> isz_surface option) \<Rightarrow> nat \<Rightarrow> obj_entry list \<Rightarrow> bool" where
  "objs_ok S cr es \<longleftrightarrow> (\<forall>e \<in> set es. oe_kind e = ISZ_OBJECT_BUFFER
       \<or> is_surf e \<and> map_option sf_owning_conn (S (oe_handle e)) = Some (Some cr))
     \<and> distinct (map oe_handle (filter is_surf es))"

definition conns_ok :: "world \<Rightarrow> bool" where
  "conns_ok w \<longleftrightarrow> (\<forall>cr c. w_conns w cr = Some c \<longrightarrow> conn_ok c \<and> objs_ok (w_surfaces w) cr (c_objects c))"

definition clipboard_ok :: "clipboard_slot \<Rightarrow> bool" where
  "clipboard_ok s \<longleftrightarrow> length (cb_mime s) = 64 \<and> cb_mime_len s < 64"

definition side_ok :: "world \<Rightarrow> bool" where
  "side_ok w \<longleftrightarrow> seats_ok w \<and> captures_ok (w_captures w) \<and> consents_ok (w_consents w)
     \<and> clipboard_ok (w_clipboard w) \<and> length (w_selection_fd w) = 2"

definition world_ok :: "world \<Rightarrow> bool" where
  "world_ok w \<longleftrightarrow> render_ok w \<and> outputs_ok w \<and> side_ok w \<and> conns_ok w"

lemma world_okD:
  assumes "world_ok w"
  shows "render_ok w" "outputs_ok w" "seats_ok w" "captures_ok (w_captures w)" "consents_ok (w_consents w)"
    "clipboard_ok (w_clipboard w)" "length (w_selection_fd w) = 2" "conns_ok w" "side_ok w"
  using assms by (simp_all add: world_ok_def side_ok_def)

text \<open>What no message changes: the clients, and of every connection the socket, the receive state and the
  handshake flag.\<close>

definition conn_view :: "conn \<Rightarrow> fd \<times> recv_state \<times> bool" where
  "conn_view c = (c_fd c, c_recv_state c, c_handshake_done c)"

definition server_view ::
    "world \<Rightarrow> (nat \<Rightarrow> isz_client option) \<times> nat list \<times> nat \<times> nat \<times> isz_server_st \<times> (nat \<Rightarrow> (fd \<times> recv_state \<times> bool) option)" where
  "server_view w = (w_clients w, w_client_list w, w_next_client w, w_next_conn w, w_state w,
     \<lambda>cr. map_option conn_view (w_conns w cr))"

text \<open>A step of the server: the invariant holds afterwards.\<close>

definition step_ok :: "world \<Rightarrow> world \<Rightarrow> bool" where
  "step_ok w w' \<longleftrightarrow> world_ok w' \<and> server_view w' = server_view w"

lemma server_view_conn: "server_view w' = server_view w \<Longrightarrow> map_option conn_view (w_conns w' cr) = map_option conn_view (w_conns w cr)"
  unfolding server_view_def by (auto dest: fun_cong)

lemma server_view_dom: "server_view w' = server_view w \<Longrightarrow> dom (w_conns w') = dom (w_conns w)"
  by (auto simp: dom_def) (metis server_view_conn option.map_disc_iff option.distinct(1) not_None_eq)+

lemma server_view_upd: "w_conns w cr = Some c \<Longrightarrow> conn_view c' = conn_view c \<Longrightarrow> server_view (upd_conn w cr c') = server_view w"
  by (auto simp: server_view_def upd_conn_def)

lemma step_ok_refl: "world_ok w \<Longrightarrow> step_ok w w"
  by (simp add: step_ok_def)

lemma step_ok_trans [trans]: "step_ok a b \<Longrightarrow> step_ok b c \<Longrightarrow> step_ok a c"
  by (simp add: step_ok_def)

lemma step_ok_conn: "step_ok w w' \<Longrightarrow> w_conns w cr \<noteq> None \<Longrightarrow> w_conns w' cr \<noteq> None"
  using server_view_dom [of w' w] by (auto simp: step_ok_def dom_def)

lemma step_okD: "step_ok w w' \<Longrightarrow> world_ok w'"
  by (simp add: step_ok_def)

section \<open>Frames\<close>

lemma objs_ok_view:
  assumes "\<And>r. map_option sf_owning_conn (S' r) = map_option sf_owning_conn (S r)"
  shows "objs_ok S' cr es = objs_ok S cr es"
  by (simp add: objs_ok_def assms)

lemma owner_view: "map_option surf_id x = map_option surf_id y \<Longrightarrow> map_option sf_owning_conn x = map_option sf_owning_conn y"
  by (cases x; cases y) (simp_all add: surf_id_def)

lemma conns_ok_frame:
  assumes "conns_ok w" "\<And>r. rel_option conn_io (w_conns w r) (w_conns w' r)"
    "\<And>r. map_option sf_owning_conn (w_surfaces w' r) = map_option sf_owning_conn (w_surfaces w r)"
  shows "conns_ok w'"
  unfolding conns_ok_def
proof (intro allI impI)
  fix cr c'
  assume c': "w_conns w' cr = Some c'"
  with assms(2) [of cr] obtain c where c: "w_conns w cr = Some c" "conn_io c c'" by (auto elim: option.rel_cases)
  with assms(1) have "conn_ok c" "objs_ok (w_surfaces w) cr (c_objects c)" by (auto simp: conns_ok_def)
  with c(2) show "conn_ok c' \<and> objs_ok (w_surfaces w') cr (c_objects c')"
    using objs_ok_view [of "w_surfaces w'" "w_surfaces w" cr "c_objects c"] assms(3) conn_io_fields(6) [OF c(2)]
    by (simp add: conn_io_def)
qed

lemma rel_conn_io_refl: "rel_option conn_io x x"
  by (simp add: option.rel_refl)

lemma conn_view_io: "rel_option conn_io x y \<Longrightarrow> map_option conn_view y = map_option conn_view x"
  by (auto simp: conn_view_def conn_io_fields elim!: option.rel_cases)

lemma outputs_ok_render:
  assumes "outputs_ok w" "render_frame w w'"
  shows "outputs_ok w'"
proof -
  note f = render_frame_fields [OF assms(2)]
  have "r < w_next_output w \<and> out_ok p" if "w_outputs w' r = Some p" for r p
  proof -
    from that render_frame_maps(3) [OF assms(2), of r] obtain q where
      q: "w_outputs w r = Some q" "p\<lparr>o_idle_inhibit_count := 0\<rparr> = q\<lparr>o_idle_inhibit_count := 0\<rparr>"
      by (cases "w_outputs w r") auto
    from q(2) have "out_ok p = out_ok q" by (cases p; cases q) (simp add: out_ok_def)
    with q(1) outputs_okD [OF assms(1)] show ?thesis by auto
  qed
  moreover have "dom (w_outputs w') = dom (w_outputs w)"
    using render_frame_live(3) [OF assms(2)] by (auto simp: dom_def)
  ultimately show ?thesis using assms(1) by (simp add: outputs_ok_def f)
qed

lemma side_ok_fields:
  assumes "side_ok w" "w_input_state w' = w_input_state w" "w_seats w' = w_seats w" "w_seat_list w' = w_seat_list w"
    "w_next_seat w' = w_next_seat w" "w_default_seat w' = w_default_seat w" "w_text_inputs w' = w_text_inputs w"
    "w_next_text_input w' = w_next_text_input w" "w_input_methods w' = w_input_methods w"
    "w_next_input_method w' = w_next_input_method w" "w_captures w' = w_captures w" "w_consents w' = w_consents w"
    "w_clipboard w' = w_clipboard w" "w_selection_fd w' = w_selection_fd w"
  shows "side_ok w'"
  using assms by (simp add: side_ok_def seats_ok_def seat_ok_def)

lemma step_ok_render:
  assumes "world_ok w" "render_ok w'" "render_frame w w'"
  shows "step_ok w w'"
proof -
  note f = render_frame_fields [OF assms(3)] and m = render_frame_maps [OF assms(3)]
  have "conns_ok w'" by (rule conns_ok_frame [OF world_okD(8) [OF assms(1)] m(1) owner_view [OF m(2)]])
  moreover have "side_ok w'" by (rule side_ok_fields [OF world_okD(9) [OF assms(1)]]) (simp_all add: f)
  ultimately show ?thesis
    using assms outputs_ok_render [OF world_okD(2) [OF assms(1)] assms(3)] conn_view_io [OF m(1)]
    by (simp add: step_ok_def world_ok_def server_view_def f)
qed

lemma step_ok_io: "world_ok w \<Longrightarrow> io_frame w w' \<Longrightarrow> step_ok w w'"
  using step_ok_render [OF _ _ render_frame_io] render_ok_io world_okD(1) by blast

lemma step_ok_more: "world_ok w \<Longrightarrow> kern.more w' = kern.more w \<Longrightarrow> step_ok w w'"
  using step_ok_render [OF _ _ render_frame_more] render_ok_more world_okD(1) by blast

lemma step_ok_output:
  assumes "world_ok w" "outputs_ok w'" "output_frame w w'"
  shows "step_ok w w'"
proof -
  note f = output_frame_fields [OF assms(3)]
  have "conns_ok w'" by (rule conns_ok_frame [OF world_okD(8) [OF assms(1)]]) (simp_all add: f rel_conn_io_refl)
  moreover have "side_ok w'" by (rule side_ok_fields [OF world_okD(9) [OF assms(1)]]) (simp_all add: f)
  ultimately show ?thesis
    using assms render_ok_output [OF assms(3) world_okD(1) [OF assms(1)]] by (simp add: step_ok_def world_ok_def server_view_def f)
qed

lemma step_ok_seat:
  assumes "world_ok w" "seats_ok w'" "seat_frame w w'"
  shows "step_ok w w'"
proof -
  note f = seat_frame_fields [OF assms(3)] and ok = world_okD [OF assms(1)]
  have "conns_ok w'" by (rule conns_ok_frame [OF ok(8)]) (simp_all add: f rel_conn_io_refl)
  then show ?thesis
    using assms ok render_ok_seat [OF assms(3) ok(1)] by (simp add: step_ok_def world_ok_def side_ok_def outputs_ok_def server_view_def f)
qed

lemma step_ok_capture:
  assumes "world_ok w" "captures_ok (w_captures w')" "consents_ok (w_consents w')" "capture_frame w w'"
  shows "step_ok w w'"
proof -
  note f = capture_frame_fields [OF assms(4)] and ok = world_okD [OF assms(1)]
  have "conns_ok w'" by (rule conns_ok_frame [OF ok(8)]) (simp_all add: f rel_conn_io_refl)
  moreover have "seats_ok w'" using ok(3) by (simp add: seats_ok_def seat_ok_def f)
  ultimately show ?thesis
    using assms ok render_ok_capture [OF assms(4) ok(1)] outputs_ok_capture [OF assms(4) ok(2)]
    by (simp add: step_ok_def world_ok_def side_ok_def server_view_def f)
qed

section \<open>Rules for handlers\<close>

definition ok_res :: "('a \<Rightarrow> bool) \<Rightarrow> 'a option \<Rightarrow> bool" where
  "ok_res Q res \<longleftrightarrow> (\<exists>x. res = Some x \<and> Q x)"

named_theorems disp \<open>rules that take a handler apart\<close>

lemma ok_res_Some: "Q x \<Longrightarrow> ok_res Q (Some x)"
  by (simp add: ok_res_def)

lemma ok_res_option [disp]:
  "(x = None \<Longrightarrow> ok_res Q a) \<Longrightarrow> (\<And>y. x = Some y \<Longrightarrow> ok_res Q (b y)) \<Longrightarrow> ok_res Q (case x of None \<Rightarrow> a | Some y \<Rightarrow> b y)"
  by (cases x) auto

lemma ok_res_if [disp]:
  "(c \<Longrightarrow> ok_res Q a) \<Longrightarrow> (\<not> c \<Longrightarrow> ok_res Q b) \<Longrightarrow> ok_res Q (if c then a else b)"
  by simp

lemma ok_res_bind: "ok_res R m \<Longrightarrow> (\<And>x. R x \<Longrightarrow> ok_res Q (f x)) \<Longrightarrow> ok_res Q (m \<bind> f)"
  by (auto simp: ok_res_def)

lemma checked_ok [disp]:
  "ok_res Q fail \<Longrightarrow> (\<And>v. off + 4 \<le> length payload \<Longrightarrow> ok_res Q (k v (off + 4))) \<Longrightarrow>
     ok_res Q (checked (rd_u32 payload off) fail k)"
  "ok_res Q fail \<Longrightarrow> (\<And>i. off + 4 \<le> length payload \<Longrightarrow> ok_res Q (l i (off + 4))) \<Longrightarrow>
     ok_res Q (checked (rd_i32 payload off) fail l)"
  "ok_res Q fail \<Longrightarrow> (\<And>u. off + 8 \<le> length payload \<Longrightarrow> ok_res Q (m u (off + 8))) \<Longrightarrow>
     ok_res Q (checked (rd_u64 payload off) fail m)"
proof -
  show "ok_res Q fail \<Longrightarrow> (\<And>v. off + 4 \<le> length payload \<Longrightarrow> ok_res Q (k v (off + 4))) \<Longrightarrow>
     ok_res Q (checked (rd_u32 payload off) fail k)"
    using isz_proto_read_u32_checked_safe [of payload off]
    by (auto simp: checked_def isz_proto_read_u32_checked_def split: if_splits bind_splits)
  show "ok_res Q fail \<Longrightarrow> (\<And>i. off + 4 \<le> length payload \<Longrightarrow> ok_res Q (l i (off + 4))) \<Longrightarrow>
     ok_res Q (checked (rd_i32 payload off) fail l)"
    using isz_proto_read_i32_checked_safe [of payload off]
    by (auto simp: checked_def isz_proto_read_i32_checked_def split: if_splits bind_splits)
  show "ok_res Q fail \<Longrightarrow> (\<And>u. off + 8 \<le> length payload \<Longrightarrow> ok_res Q (m u (off + 8))) \<Longrightarrow>
     ok_res Q (checked (rd_u64 payload off) fail m)"
    using isz_proto_read_u64_checked_safe [of payload off]
    by (auto simp: checked_def isz_proto_read_u64_checked_def split: if_splits bind_splits)
qed

text \<open>In the rules below \<open>w0\<close> is the state in which the message arrived.\<close>

lemma send_event_ok:
  assumes "step_ok w0 w" "w_conns w0 cr \<noteq> None"
  shows "ok_res (step_ok w0) (send_event w cr m p)"
proof -
  from step_ok_conn [OF assms] obtain c where "w_conns w cr = Some c" by auto
  from send_event_frame [OF this, of m p] obtain w' where "send_event w cr m p = Some w'" "io_frame w w'" by blast
  with step_ok_trans [OF assms(1) step_ok_io [OF step_okD [OF assms(1)]]] show ?thesis by (auto simp: ok_res_def)
qed

lemma replies_ok:
  assumes "w_conns w0 cr \<noteq> None" "step_ok w0 w"
  shows "ok_res (step_ok w0) (isz_reply_error w cr m e)"
    "ok_res (step_ok w0) (isz_reply_surface_create w cr i)"
    "ok_res (step_ok w0) (isz_reply_attach_buffer w cr i j)"
    "ok_res (step_ok w0) (isz_reply_subsurface w cr i j)"
    "ok_res (step_ok w0) (isz_reply_popup w cr i j)"
    "ok_res (step_ok w0) (isz_reply_layer w cr i j)"
  using send_event_ok [OF assms(2,1)] by (simp_all add: sender_eqs)

lemma lookup_ok:
  assumes "w_conns w0 cr \<noteq> None" "step_ok w0 w"
    "\<And>res. (\<And>r. res = Some r \<Longrightarrow> w_surfaces w r \<noteq> None) \<Longrightarrow> ok_res Q (f res)"
  shows "ok_res Q (lookup_ref w cr i ISZ_OBJECT_SURFACE \<bind> f)"
proof -
  from step_ok_conn [OF assms(2,1)] obtain c where c: "w_conns w cr = Some c" by auto
  then have ok: "objs_ok (w_surfaces w) cr (c_objects c)"
    using world_okD(8) [OF step_okD [OF assms(2)]] by (auto simp: conns_ok_def)
  have "w_surfaces w r \<noteq> None" if "lookup_loop es i ISZ_OBJECT_SURFACE = Some r" "set es \<subseteq> set (c_objects c)" for es r
    using that ok by (induction es) (auto simp: objs_ok_def split: if_splits)
  then have "w_surfaces w r \<noteq> None" if "isz_conn_lookup_object c i ISZ_OBJECT_SURFACE = Some r" for r
    using that by (auto simp: isz_conn_lookup_object_def split: if_splits)
  with c assms(3) show ?thesis by (simp add: lookup_ref_def)
qed

lemma no_outputs_registered:
  assumes "w_conns w cr = Some c" "world_ok w" "kind \<noteq> ISZ_OBJECT_SURFACE" "kind \<noteq> ISZ_OBJECT_BUFFER"
  shows "isz_conn_lookup_object c i kind = None"
proof -
  have ok: "objs_ok (w_surfaces w) cr (c_objects c)" using assms(1) world_okD(8) [OF assms(2)] by (auto simp: conns_ok_def)
  have "lookup_loop es i kind = None" if "set es \<subseteq> set (c_objects c)" for es
    using that ok assms(3,4) by (induction es) (auto simp: objs_ok_def)
  then show ?thesis by (simp add: isz_conn_lookup_object_def)
qed

lemma resolve_output_spec:
  assumes "world_ok w" "w_conns w cr \<noteq> None"
  shows "\<exists>w' out. isz_resolve_output w cr i = Some (w', out) \<and> step_ok w w' \<and> w_output_list w' = w_output_list w
    \<and> w_outputs w' = w_outputs w
    \<and> (out = None \<or> w_output_list w \<noteq> [] \<and> out = Some (hd (w_output_list w)) \<and> w_outputs w (hd (w_output_list w)) \<noteq> None)"
proof -
  from assms(2) obtain c where c: "w_conns w cr = Some c" by auto
  obtain w1 b where k: "k_alloc w = (w1, b)" by fastforce
  then have m: "kern.more w1 = kern.more w" using kern_more_alloc [of w] by simp
  note f = kern_more_world [OF m]
  have s1: "step_ok w w1" by (rule step_ok_more [OF assms(1) m])
  let ?w2 = "w1\<lparr>w_output_list_count := length (w_output_list w)\<rparr>"
  have fr: "render_frame w1 w1" by simp
  have "render_ok ?w2" "outputs_ok ?w2" "side_ok ?w2" "conns_ok ?w2" "server_view ?w2 = server_view w1"
    using world_okD [OF step_okD [OF s1]]
    by (simp_all add: render_ok_def surfaces_ok_def surf_ok_def outputs_ok_def side_ok_def seats_ok_def seat_ok_def conns_ok_def
        server_view_def)
  then have s2: "step_ok w ?w2" using s1 by (simp add: step_ok_def world_ok_def)
  have live: "w_outputs w (hd (w_output_list w)) \<noteq> None" if "w_output_list w \<noteq> []"
    using world_okD(2) [OF assms(1)] that by (metis domIff hd_in_set outputs_ok_def)
  have lk: "(if i \<noteq> 0 then lookup_ref w cr i ISZ_OBJECT_OUTPUT else Some None) = Some None"
    using c no_outputs_registered [OF c assms(1), of ISZ_OBJECT_OUTPUT] by (simp add: lookup_ref_def)
  show ?thesis
    unfolding isz_resolve_output_def lk isz_output_list_def
    using s1 s2 live step_ok_refl [OF assms(1)] k f
    by (cases "w_output_list w"; cases b) (auto simp: Let_def)
qed

lemma resolve_output_ok:
  assumes "w_conns w0 cr \<noteq> None" "step_ok w0 w"
    "\<And>w' out. step_ok w0 w' \<Longrightarrow> (\<And>r. out = Some r \<Longrightarrow> w_outputs w' r \<noteq> None) \<Longrightarrow> ok_res Q (f w' out)"
  shows "ok_res Q (isz_resolve_output w cr i \<bind> (\<lambda>(w, out). f w out))"
proof -
  from resolve_output_spec [OF step_okD [OF assms(2)] step_ok_conn [OF assms(2,1)], of i] obtain w' out where
    r: "isz_resolve_output w cr i = Some (w', out)" "step_ok w w'" "\<And>r. out = Some r \<Longrightarrow> w_outputs w' r \<noteq> None" by auto
  with assms(3) [OF step_ok_trans [OF assms(2) r(2)] r(3)] show ?thesis by simp
qed

lemma resolve_payload_ok:
  assumes "w_conns w0 cr \<noteq> None" "step_ok w0 w"
    "\<And>w' out off. step_ok w0 w' \<Longrightarrow> (\<And>r. out = Some r \<Longrightarrow> w_outputs w' r \<noteq> None \<and> off = 4 \<and> 4 \<le> length payload) \<Longrightarrow> ok_res Q (f w' out off)"
  shows "ok_res Q (isz_resolve_output_payload w cr payload \<bind> (\<lambda>(w, out, off). f w out off))"
proof -
  let ?R = "\<lambda>(w', out, off). step_ok w0 w' \<and> (\<forall>r. out = Some r \<longrightarrow> w_outputs w' r \<noteq> None \<and> off = (4 :: nat) \<and> 4 \<le> length payload)"
  have "ok_res ?R (isz_resolve_output_payload w cr payload)"
    unfolding isz_resolve_output_payload_def
    by (intro checked_ok resolve_output_ok [OF assms(1,2)] ok_res_Some) (use assms(2) in auto)
  then show ?thesis by (rule ok_res_bind) (auto intro: assms(3))
qed

lemma resolve_seat_ok:
  assumes "w_conns w0 cr \<noteq> None" "step_ok w0 w"
    "\<And>w' seat. step_ok w0 w' \<Longrightarrow> (\<And>r. seat = Some r \<Longrightarrow> w_seats w' r \<noteq> None) \<Longrightarrow> ok_res Q (f w' seat)"
  shows "ok_res Q (isz_resolve_seat w cr i \<bind> (\<lambda>(w, seat). f w seat))"
proof -
  note w = step_okD [OF assms(2)]
  from step_ok_conn [OF assms(2,1)] obtain c where c: "w_conns w cr = Some c" by auto
  have "(if i \<noteq> 0 then lookup_ref w cr i ISZ_OBJECT_SEAT else Some None) = Some None"
    using c no_outputs_registered [OF c w, of ISZ_OBJECT_SEAT] by (simp add: lookup_ref_def)
  moreover from isz_seat_default_ok [OF world_okD(3) [OF w]] obtain w' res where
    d: "isz_seat_default w = Some (w', res)" "seats_ok w'" "seat_frame w w'" "\<And>r. res = Some r \<Longrightarrow> w_seats w' r \<noteq> None" by blast
  ultimately show ?thesis
    using assms(3) [OF step_ok_trans [OF assms(2) step_ok_seat [OF w d(2,3)]] d(4)] by (simp add: isz_resolve_seat_def)
qed

text \<open>Setters: the three kinds of component operations.\<close>

definition pair_step :: "world \<Rightarrow> world \<times> 'r \<Rightarrow> bool" where
  "pair_step w0 x \<longleftrightarrow> step_ok w0 (fst x)"

lemma ops_step:
  "op_ok w res \<Longrightarrow> step_ok w0 w \<Longrightarrow> ok_res (pair_step w0) res"
  "oop_ok w res \<Longrightarrow> step_ok w0 w \<Longrightarrow> ok_res (pair_step w0) res"
  "sop_ok w res \<Longrightarrow> step_ok w0 w \<Longrightarrow> ok_res (pair_step w0) res"
  using step_ok_trans [of w0 w] step_ok_render [OF step_okD [of w0 w]] step_ok_output [OF step_okD [of w0 w]]
    step_ok_seat [OF step_okD [of w0 w]]
  by (fastforce simp: ok_res_def pair_step_def op_ok_def oop_ok_def sop_ok_def)+

lemma reply_unless_ok:
  assumes "w_conns w0 cr \<noteq> None" "ok_res (pair_step w0) res"
  shows "ok_res (step_ok w0) (reply_unless_ok cr m res)"
  using assms(2) replies_ok(1) [OF assms(1)] by (auto simp: ok_res_def pair_step_def reply_unless_ok_def)

lemmas answers = replies_ok lookup_ok resolve_output_ok resolve_payload_ok resolve_seat_ok reply_unless_ok

section \<open>The handlers\<close>

text \<open>The payload readers do not leave the payload once its length was checked.\<close>

lemma read_i32_in: "off + 4 \<le> length p \<Longrightarrow> \<exists>v. isz_proto_read_i32 p off = Some v"
  by (simp add: isz_proto_read_i32_def isz_get_u32_le_def)

lemma read_rects_in: "off + 16 * n \<le> length p \<Longrightarrow> \<exists>rs. read_rects p off n = Some rs \<and> length rs = n"
proof (induction n arbitrary: off)
  case (Suc n)
  then have len: "off + 16 + 16 * n \<le> length p" by simp
  then have "\<exists>v. isz_proto_read_i32 p x = Some v" if "x \<in> {off, off + 4, off + 8, off + 12}" for x
    using that by (intro read_i32_in) auto
  then obtain a b c d where "isz_proto_read_i32 p off = Some a" "isz_proto_read_i32 p (off + 4) = Some b"
    "isz_proto_read_i32 p (off + 8) = Some c" "isz_proto_read_i32 p (off + 12) = Some d"
    by (metis insertCI)
  with Suc.IH [OF len] show ?case by auto
qed simp

lemma read_u32s_in: "off + 4 * n \<le> length p \<Longrightarrow> \<exists>xs. read_u32s p off n = Some xs \<and> length xs = n"
proof (induction n arbitrary: off)
  case (Suc n)
  then have "\<exists>v. isz_proto_read_u32 p off = Some v" by (simp add: isz_proto_read_u32_def isz_get_u32_le_def)
  with Suc.IH [of "off + 4"] Suc.prems show ?case by auto
qed simp

lemma read_lut_in:
  "off + 6 * n \<le> length p \<Longrightarrow> \<exists>r g b. read_lut p off n = Some (r, g, b) \<and> length r = n \<and> length g = n \<and> length b = n"
proof (induction n arbitrary: off)
  case (Suc n)
  then have "\<exists>v. read_u16 p x = Some v" if "x \<in> {off, off + 2, off + 4}" for x
    using that by (auto simp: read_u16_def isz_proto_read_u8_def)
  then obtain r g b where "read_u16 p off = Some r" "read_u16 p (off + 2) = Some g" "read_u16 p (off + 4) = Some b"
    by (metis insertCI)
  with Suc.IH [of "off + 6"] Suc.prems show ?case by auto
qed simp

lemma surface_ops_live:
  assumes "step_ok w0 w"
  shows "render_ok w" "w_surfaces w r \<noteq> None \<Longrightarrow> live_or_NULL w (Some r)"
  using assms by (simp_all add: live_or_NULL_def world_okD(1) [OF step_okD])

lemma setter_handlers_ok:
  assumes "world_ok w" "w_conns w cr \<noteq> None"
  shows "ok_res (step_ok w) (isz_handle_surface_setter w cr p m isz_surface_set_plane_type)"
    "ok_res (step_ok w) (isz_handle_surface_setter w cr p m isz_surface_set_plane_slot)"
    "ok_res (step_ok w) (isz_handle_surface_setter w cr p m isz_surface_set_zpos)"
    "ok_res (step_ok w) (isz_handle_surface_setter w cr p m isz_surface_set_transform)"
    "ok_res (step_ok w) (isz_handle_set_position w cr p)"
    "ok_res (step_ok w) (isz_handle_set_size w cr p)"
  unfolding isz_handle_surface_setter_def isz_handle_set_position_def isz_handle_set_size_def Let_def
  by (intro disp answers [OF assms(2)] ops_step(1) [where w0 = w] surface_ops step_ok_refl [OF assms(1)]
        surface_ops_live [OF step_ok_refl [OF assms(1)]]; blast)+

lemma handle_popup_dismiss_ok:
  assumes "world_ok w" "w_conns w cr \<noteq> None"
  shows "ok_res (step_ok w) (isz_handle_popup_dismiss w cr p)"
  unfolding isz_handle_popup_dismiss_def Let_def
  by (intro disp answers [OF assms(2)] step_ok_refl [OF assms(1)] ok_res_Some)

lemma commit_step:
  assumes "w_outputs w out \<noteq> None" "step_ok w0 w"
  shows "ok_res (pair_step w0) (isz_commit w (Some out) flags)"
proof -
  from isz_commit_outcome [OF world_okD(1) [OF step_okD [OF assms(2)]] assms(1), of flags] obtain w' rc where
    "isz_commit w (Some out) flags = Some (w', rc)" "render_ok w'" "render_frame w w'" by (auto simp: commit_outcome_def)
  with step_ok_trans [OF assms(2) step_ok_render [OF step_okD [OF assms(2)]]] show ?thesis
    by (auto simp: ok_res_def pair_step_def)
qed

lemma handle_commit_ok:
  assumes "world_ok w" "w_conns w cr \<noteq> None"
  shows "ok_res (step_ok w) (isz_handle_commit w cr p)"
  unfolding isz_handle_commit_def Let_def
  by (intro disp answers [OF assms(2)] step_ok_refl [OF assms(1)] commit_step) (assumption | blast)+

lemma handle_damage_ok:
  assumes "world_ok w" "w_conns w cr \<noteq> None"
  shows "ok_res (step_ok w) (isz_handle_damage w cr p)"
proof -
  obtain w1 b where k: "k_alloc w = (w1, b)" by fastforce
  have s1: "step_ok w w1" by (rule step_ok_more [OF assms(1)]) (use kern_more_alloc [of w] k in simp)
  have srf: "w_surfaces w1 = w_surfaces w" using kern_more_world(11) [OF kern_more_alloc [of w]] k by simp
  have body: "ok_res (step_ok w) (case k_alloc w of (w, True) \<Rightarrow>
        read_rects p (0 + 4 + 4) (unat n) \<bind> (\<lambda>rects. reply_unless_ok cr ISZ_MSG_SURFACE_DAMAGE
          (isz_surface_damage w (Some r) (Some rects) (unat n)))
      | (w, False) \<Rightarrow> isz_reply_error w cr ISZ_MSG_SURFACE_DAMAGE ISZ_ERR_NO_MEMORY)"
    if "0 + 4 + 4 \<le> length p" "\<not> length p - (0 + 4 + 4) < unat n * 16" "w_surfaces w r \<noteq> None" for n r
  proof -
    from that(1,2) have "8 + 16 * unat n \<le> length p" by linarith
    from read_rects_in [OF this] obtain rs where rs: "read_rects p (0 + 4 + 4) (unat n) = Some rs" "length rs = unat n" by auto
    have "op_ok w1 (isz_surface_damage w1 (Some r) (Some rs) (unat n))"
      using surface_ops_live(1) [OF s1] surface_ops_live(2) [OF s1, of r] that(3) srf rs(2) by (intro isz_surface_damage_ok) auto
    from reply_unless_ok [OF assms(2) ops_step(1) [OF this s1]] replies_ok(1) [OF assms(2) s1] show ?thesis
      unfolding k prod.case rs(1) by (cases b) simp_all
  qed
  have zero: "ok_res (step_ok w) (isz_surface_damage w (Some r) None 0 \<bind> (\<lambda>(w, rc). Some w))" if "w_surfaces w r \<noteq> None" for r
    using that by (auto simp: isz_surface_damage_def with_surface_def ok_res_def step_ok_refl [OF assms(1)])
  show ?thesis
    unfolding isz_handle_damage_def Let_def
    by (intro disp answers [OF assms(2)] step_ok_refl [OF assms(1)] zero body) (assumption | blast)+
qed

lemma output_ops_live:
  assumes "step_ok w0 w"
  shows "outputs_ok w" "seats_ok w"
  using assms by (simp_all add: world_okD(2,3) [OF step_okD])

lemma lut_api_ok:
  assumes "world_ok w" "w_conns w cr \<noteq> None"
    "\<And>v out r g b n. outputs_ok v \<Longrightarrow> w_outputs v out \<noteq> None \<Longrightarrow> length r = n \<Longrightarrow> length g = n \<Longrightarrow> length b = n \<Longrightarrow>
       oop_ok v (api v (Some out) (Some r) (Some g) (Some b) n)"
  shows "ok_res (step_ok w) (isz_handle_output_set_lut w cr p m api)"
proof -
  have parse: "ok_res (\<lambda>x. \<forall>n r g b. x = Inr (n, r, g, b) \<longrightarrow> length r = n \<and> length g = n \<and> length b = n)
      (isz_parse_lut_payload p 4)"
  proof -
    have "ok_res (\<lambda>x. \<forall>n r g b. x = Inr (n, r, g, b) \<longrightarrow> length r = n \<and> length g = n \<and> length b = n)
        (read_lut p (4 + 4) (unat sz) \<bind> (\<lambda>(r, g, b). Some (Inr (unat sz, r, g, b))))"
      if "4 + 4 \<le> length p" "\<not> (sz = 0 \<or> length p - (4 + 4) < unat sz * 6)" for sz :: u32
    proof -
      from that have "8 + 6 * unat sz \<le> length p" by linarith
      from read_lut_in [OF this] show ?thesis by (auto simp: ok_res_def)
    qed
    then show ?thesis unfolding isz_parse_lut_payload_def by (intro disp ok_res_Some) auto
  qed
  have body: "ok_res (step_ok w) (isz_parse_lut_payload p off \<bind> case_sum (isz_reply_error v cr m)
        (\<lambda>(n, r, g, b). reply_unless_ok cr m (api v (Some out) (Some r) (Some g) (Some b) n)))"
    if "step_ok w v" "w_outputs v out \<noteq> None \<and> off = 4 \<and> 4 \<le> length p" for v out off
  proof -
    from parse that(2) obtain x where x: "isz_parse_lut_payload p off = Some x"
      "\<And>n r g b. x = Inr (n, r, g, b) \<Longrightarrow> length r = n \<and> length g = n \<and> length b = n" by (auto simp: ok_res_def)
    show ?thesis
      unfolding x(1)
      using x(2) that reply_unless_ok [OF assms(2) ops_step(2) [OF assms(3) that(1)]] output_ops_live [OF that(1)]
        replies_ok(1) [OF assms(2) that(1)]
      by (auto split: sum.split)
  qed
  show ?thesis
    unfolding isz_handle_output_set_lut_def
    by (intro disp answers [OF assms(2)] step_ok_refl [OF assms(1)] body) (assumption | blast)+
qed

lemma lut_handlers_ok:
  assumes "world_ok w" "w_conns w cr \<noteq> None"
  shows "ok_res (step_ok w) (isz_handle_output_set_lut w cr p m isz_output_set_gamma)"
    "ok_res (step_ok w) (isz_handle_output_set_lut w cr p m isz_output_set_degamma)"
  by (intro lut_api_ok [OF assms] lut_setters_ok; simp add: arr_covers_def)+

lemma plain_output_handlers_ok:
  assumes "world_ok w" "w_conns w cr \<noteq> None"
  shows "ok_res (step_ok w) (isz_handle_output_disable w cr p)" "ok_res (step_ok w) (isz_handle_output_set_dpms w cr p)"
proof -
  have op: "ok_res (pair_step w) (isz_output_disable v (Some r))" "ok_res (pair_step w) (isz_output_set_dpms v (Some r) d)"
    if "step_ok w v" "w_outputs v r \<noteq> None" for v r d
    using that by (intro ops_step(2) [OF _ that(1)] plain_output_setters_ok output_ops_live [OF that(1)]; simp)+
  show "ok_res (step_ok w) (isz_handle_output_disable w cr p)" "ok_res (step_ok w) (isz_handle_output_set_dpms w cr p)"
    unfolding isz_handle_output_disable_def isz_handle_output_set_dpms_def Let_def
    by (intro disp answers [OF assms(2)] step_ok_refl [OF assms(1)] op; blast)+
qed

lemma handle_output_enable_ok:
  assumes "world_ok w" "w_conns w cr \<noteq> None"
  shows "ok_res (step_ok w) (isz_handle_output_enable w cr p)"
proof -
  have op: "ok_res (pair_step w) (isz_output_enable v (Some r) md)" if "step_ok w v" "w_outputs v r \<noteq> None" for v r md
    using that by (intro ops_step(2) [OF _ that(1)] isz_output_enable_ok output_ops_live [OF that(1)]; simp)
  have modes: "ok_res (step_ok w) (isz_output_get_modes v (Some r) \<bind> f)"
    if "w_outputs v r \<noteq> None" "\<And>ms. ok_res (step_ok w) (f ms)" for v r f
    using that by (auto simp: isz_output_get_modes_def)
  show ?thesis
    unfolding isz_handle_output_enable_def Let_def
    by (intro disp modes answers [OF assms(2)] step_ok_refl [OF assms(1)] op; blast)
qed

lemma handle_output_set_ctm_ok:
  assumes "world_ok w" "w_conns w cr \<noteq> None"
  shows "ok_res (step_ok w) (isz_handle_output_set_ctm w cr p)"
proof -
  have body: "ok_res (step_ok w) (read_u32s p off 9 \<bind> (\<lambda>matrix. reply_unless_ok cr ISZ_MSG_OUTPUT_SET_CTM
      (isz_output_set_ctm v (Some r) (Some matrix))))"
    if "step_ok w v" "w_outputs v r \<noteq> None \<and> off = 4 \<and> 4 \<le> length p" "\<not> length p - off < 36" for v r off
  proof -
    from that(2,3) have "off + 4 * 9 \<le> length p" by linarith
    from read_u32s_in [OF this] obtain xs where xs: "read_u32s p off 9 = Some xs" "length xs = 9" by blast
    have "oop_ok v (isz_output_set_ctm v (Some r) (Some xs))"
      using that(2) xs(2) by (intro isz_output_set_ctm_ok output_ops_live [OF that(1)]) auto
    from reply_unless_ok [OF assms(2) ops_step(2) [OF this that(1)]] xs(1) show ?thesis by simp
  qed
  show ?thesis
    unfolding isz_handle_output_set_ctm_def Let_def
    by (intro disp answers [OF assms(2)] step_ok_refl [OF assms(1)] body; blast)
qed

lemma handle_output_set_hdr_ok:
  assumes "world_ok w" "w_conns w cr \<noteq> None"
  shows "ok_res (step_ok w) (isz_handle_output_set_hdr w cr p)"
proof -
  have op: "ok_res (pair_step w) (isz_output_set_hdr_metadata v (Some r) (Some (n, take n (drop off p))))"
    if "step_ok w v" "w_outputs v r \<noteq> None" "n \<le> length p - off" for v r n off
    using that by (intro ops_step(2) [OF _ that(1)] isz_output_set_hdr_metadata_ok output_ops_live [OF that(1)]) auto
  show ?thesis
    unfolding isz_handle_output_set_hdr_def Let_def
    by (intro disp answers [OF assms(2)] step_ok_refl [OF assms(1)] op) (assumption | (simp; fail) | blast)+
qed

lemma seat_handlers_ok:
  assumes "world_ok w" "w_conns w cr \<noteq> None"
  shows "ok_res (step_ok w) (isz_handle_seat_set_keyboard_focus w cr p)"
    "ok_res (step_ok w) (isz_handle_seat_set_cursor_surface w cr p)"
proof -
  have op: "ok_res (pair_step w) (isz_seat_set_keyboard_focus v (Some r) s)" "ok_res (pair_step w) (isz_seat_set_cursor_surface v (Some r) s)"
    if "step_ok w v" "w_seats v r \<noteq> None" for v r s
    using that by (intro ops_step(3) [OF _ that(1)] seat_setters_ok output_ops_live [OF that(1)]; simp)+
  have opt: "ok_res (step_ok w) (optional_surface v cr i \<bind> f)" if "step_ok w v" "\<And>x. ok_res (step_ok w) (f x)" for v i f
    using that step_ok_conn [OF that(1) assms(2)] by (auto simp: optional_surface_def lookup_ref_def)
  show "ok_res (step_ok w) (isz_handle_seat_set_keyboard_focus w cr p)"
    "ok_res (step_ok w) (isz_handle_seat_set_cursor_surface w cr p)"
    unfolding isz_handle_seat_set_keyboard_focus_def isz_handle_seat_set_cursor_surface_def handle_seat_surface_def Let_def
    by (intro disp opt answers [OF assms(2)] step_ok_refl [OF assms(1)] op; blast)+
qed

section \<open>Object tables\<close>

lemma objs_ok_mono:
  assumes "objs_ok S k es"
    "\<And>h. map_option sf_owning_conn (S h) = Some (Some k) \<Longrightarrow> map_option sf_owning_conn (S' h) = Some (Some k)"
  shows "objs_ok S' k es"
  using assms by (auto simp: objs_ok_def)

lemma world_ok_upd_conn:
  assumes "world_ok w" "conn_ok c'" "objs_ok (w_surfaces w) cr (c_objects c')"
  shows "world_ok (upd_conn w cr c')"
proof -
  note ok = world_okD [OF assms(1)]
  have "render_ok (upd_conn w cr c')"
    using ok(1) by (fastforce simp: upd_conn_def render_ok_def surfaces_ok_def surf_ok_def)
  moreover have "outputs_ok (upd_conn w cr c')" "side_ok (upd_conn w cr c')"
    using ok(2,9) by (simp_all add: upd_conn_def outputs_ok_def side_ok_def seats_ok_def seat_ok_def)
  moreover have "conns_ok (upd_conn w cr c')" using ok(8) assms(2,3) by (simp add: upd_conn_def conns_ok_def)
  ultimately show ?thesis by (simp add: world_ok_def)
qed

lemma upd_conn_step:
  assumes "step_ok w0 w" "w_conns w cr = Some c" "conn_view c' = conn_view c" "conn_ok c'" "objs_ok (w_surfaces w) cr (c_objects c')"
  shows "step_ok w0 (upd_conn w cr c')"
  using world_ok_upd_conn [OF step_okD [OF assms(1)] assms(4,5)] server_view_upd [OF assms(2,3)] assms(1)
  by (simp add: step_ok_def)

lemma register_ref_spec:
  assumes "step_ok w0 w" "w_conns w0 cr \<noteq> None"
  shows "\<exists>w1 c c' i. register_ref w cr h kd = Some (upd_conn w1 cr c', i) \<and> kern.more w1 = kern.more w
    \<and> w_conns w1 cr = Some c \<and> conn_ok c' \<and> conn_view c' = conn_view c
    \<and> c_objects c' = c_objects c @ (if i = 0 then [] else [\<lparr>oe_id = i, oe_handle = h, oe_kind = kd\<rparr>])"
proof -
  from step_ok_conn [OF assms] obtain c where c: "w_conns w cr = Some c" by auto
  then have ok: "conn_ok c" using world_okD(8) [OF step_okD [OF assms(1)]] by (auto simp: conns_ok_def)
  obtain w1 c' i where r: "isz_conn_register_object w c h kd = (w1, c', i)" by (metis prod_cases3)
  then have m: "kern.more w1 = kern.more w"
    using kern_more_alloc [of w]
    by (auto simp: isz_conn_register_object_def Let_def split: if_splits prod.splits bool.splits)
  have "conn_ok c'" "conn_view c' = conn_view c"
    "c_objects c' = c_objects c @ (if i = 0 then [] else [\<lparr>oe_id = i, oe_handle = h, oe_kind = kd\<rparr>])"
    using r ok by (auto simp: isz_conn_register_object_def conn_ok_def conn_view_def Let_def split: if_splits prod.splits bool.splits)
  moreover have "w_conns w1 cr = Some c" using kern_more_world [OF m] c by simp
  moreover have "register_ref w cr h kd = Some (upd_conn w1 cr c', i)" using c r by (simp add: register_ref_def)
  ultimately show ?thesis using m by metis
qed

text \<open>No connection names surface \<open>r\<close>.\<close>

definition unnamed :: "world \<Rightarrow> nat \<Rightarrow> bool" where
  "unnamed w r \<longleftrightarrow> (\<forall>cr c. w_conns w cr = Some c \<longrightarrow> r \<notin> oe_handle ` {e \<in> set (c_objects c). is_surf e})"

lemma unnamed_unowned:
  assumes "world_ok w" "w_surfaces w r = Some s" "sf_owning_conn s = None"
  shows "unnamed w r"
  using assms world_okD(8) [OF assms(1)] by (fastforce simp: unnamed_def conns_ok_def objs_ok_def)

text \<open>Destroying a surface that no connection names and that has no subsurfaces.\<close>

lemma destroy_step:
  assumes "step_ok w0 w" "w_surfaces w r \<noteq> None" "childless w r" "unnamed w r"
  shows "ok_res (step_ok w0) (isz_surface_destroy w (Some r))"
proof -
  note wok = step_okD [OF assms(1)]
  from assms(2) obtain s where s: "w_surfaces w r = Some s" by auto
  from isz_surface_destroy_spec [OF world_okD(1) [OF wok] s assms(3)] obtain w' ch where
    d: "isz_surface_destroy w (Some r) = Some w'" "render_ok w'" "render_frame (without w r ch) w'"
      "w_surfaces w' = (w_surfaces w)(r := None)" by blast
  let ?v = "without w r ch"
  note f = render_frame_fields [OF d(3)] and m = render_frame_maps [OF d(3)]
  have v: "w_conns ?v = w_conns w" "w_outputs ?v = w_outputs w" by (simp_all add: without_def)
  have "conns_ok ?v"
  proof -
    have "objs_ok ((w_surfaces w)(r := None)) k (c_objects c)" if "w_conns w k = Some c" for k c
    proof -
      from that world_okD(8) [OF wok] have "objs_ok (w_surfaces w) k (c_objects c)" by (auto simp: conns_ok_def)
      moreover from that assms(4) have "\<forall>e \<in> set (c_objects c). is_surf e \<longrightarrow> oe_handle e \<noteq> r" by (auto simp: unnamed_def)
      ultimately show ?thesis by (auto simp: objs_ok_def)
    qed
    with world_okD(8) [OF wok] show ?thesis by (auto simp: conns_ok_def without_def)
  qed
  from conns_ok_frame [OF this m(1) owner_view [OF m(2)]] have "conns_ok w'" .
  moreover have "side_ok w'" by (rule side_ok_fields [OF world_okD(9) [OF wok]]) (simp_all add: f without_def)
  moreover have "outputs_ok ?v" using world_okD(2) [OF wok] by (simp add: without_def outputs_ok_def)
  moreover have "server_view w' = server_view w0"
    using conn_view_io [OF m(1)] v assms(1) by (simp add: step_ok_def server_view_def f without_def)
  ultimately show ?thesis using d outputs_ok_render [OF _ d(3)] by (simp add: ok_res_def step_ok_def world_ok_def)
qed

text \<open>Creating a surface, and entering it into the table of the connection.\<close>

lemma created_step:
  assumes "step_ok w0 w" "creates w s (w', x)" "surf_ok w s" "surf_bufs s = {}" "contrib s = None" "sf_owning_conn s = None"
  shows "step_ok w0 w'" "w_outputs w' = w_outputs w"
    "x = Some r \<Longrightarrow> w_surfaces w' r = Some s \<and> childless w' r"
proof -
  note wok = step_okD [OF assms(1)]
  from assms(2) obtain w1 ch where w1: "kern.more w1 = kern.more w"
    "w' = w1 \<and> x = None \<or> w' = (created w1 s)\<lparr>w_children := ch\<rparr> \<and> x = Some (w_next_surface w)" by (auto simp: creates_def)
  note f = kern_more_world [OF w1(1)]
  note fresh = surfaces_ok_fresh [OF render_okD(1) [OF world_okD(1) [OF wok]]]
  let ?n = "w_next_surface w" and ?v = "(created w1 s)\<lparr>w_children := ch\<rparr>"
  have "objs_ok ((w_surfaces w)(?n \<mapsto> s)) k es" if "objs_ok (w_surfaces w) k es" for k es
    by (rule objs_ok_mono [OF that]) (use fresh in auto)
  then have "conns_ok ?v" using world_okD(8) [OF wok] by (auto simp: conns_ok_def f)
  moreover have "side_ok ?v" by (rule side_ok_fields [OF world_okD(9) [OF wok]]) (simp_all add: f created_def upd_surface_def)
  moreover have "outputs_ok ?v"
    using world_okD(2) [OF wok] by (simp add: outputs_ok_def created_def upd_surface_def f)
  moreover have "server_view ?v = server_view w0"
    using assms(1) by (simp add: step_ok_def server_view_def f created_def upd_surface_def)
  ultimately show "step_ok w0 w'"
    using w1(2) creates_render_ok [OF assms(2) world_okD(1) [OF wok] assms(3-5)] step_ok_more [OF wok w1(1)] assms(1)
    unfolding step_ok_def world_ok_def by metis
  show "w_outputs w' = w_outputs w" using w1(2) by (auto simp: f)
  assume x: "x = Some r"
  with w1(2) have v: "w' = ?v" "r = ?n" by auto
  have "sf_parent t \<noteq> Some ?n" if "w_surfaces w y = Some t" "sf_kind t = ISZ_SURFACE_SUBSURFACE" for y t
    using surfaces_okD(1) [OF render_okD(1) [OF world_okD(1) [OF wok]] that(1)] that(2) fresh by (auto simp: surf_ok_def)
  then show "w_surfaces w' r = Some s \<and> childless w' r" unfolding v by (auto simp: childless_def f)
qed

lemma own_surface_step:
  assumes "step_ok w0 w" "w_conns w cr = Some c" "w_surfaces w r = Some s" "sf_owning_conn s = None" "conn_ok c'" "conn_view c' = conn_view c"
    "c_objects c' = c_objects c @ [\<lparr>oe_id = i, oe_handle = r, oe_kind = ISZ_OBJECT_SURFACE\<rparr>]"
  shows "step_ok w0 (upd_surface (upd_conn w cr c') r (s\<lparr>sf_owning_conn := Some cr, sf_object_id := i\<rparr>))"
    (is "step_ok w0 (upd_surface ?u r ?s)")
proof -
  note wok = step_okD [OF assms(1)]
  let ?v = "upd_surface ?u r ?s"
  note ok = world_okD [OF wok] and rok = render_okD [OF world_okD(1) [OF wok]]
  have f: "w_surfaces ?v = (w_surfaces w)(r \<mapsto> ?s)" "w_conns ?v = (w_conns w)(cr \<mapsto> c')" "w_outputs ?v = w_outputs w"
    "w_events ?v = w_events w" "w_resv ?v = w_resv w" "bs_bufs ?v = bs_bufs w" "bs_next_buf ?v = bs_next_buf w"
    "w_surface_list ?v = w_surface_list w" "w_next_surface ?v = w_next_surface w" "w_state ?v = w_state w"
    by (simp_all add: upd_surface_def upd_conn_def)
  have mono: "surf_ok ?v t" if "surf_ok w t" for t using that assms(3) by (auto simp: surf_ok_def f)
  have "surf_ok ?v ?s" using surfaces_okD(1) [OF rok(1) assms(3)] assms(3) by (auto simp: surf_ok_def f)
  with mono surfaces_okD [OF rok(1)] assms(3) have "surfaces_ok ?v"
    using rok(1) by (fastforce simp: surfaces_ok_def f)
  moreover have "bufs_ok (w_surfaces ?v) (bs_bufs w) (bs_next_buf w)"
    unfolding f by (rule bufs_ok_same [OF rok(2)]) (simp add: assms(3) surf_bufs_def)
  moreover have "idle_ok (w_surfaces ?v) (w_outputs w) (w_events w)"
    unfolding f by (rule idle_ok_same [OF rok(3)]) (simp add: assms(3) contrib_def)
  ultimately have "render_ok ?v" using rok(4) by (simp add: render_ok_def f)
  moreover have "outputs_ok ?v" "side_ok ?v"
    using ok(2,9) by (simp_all add: upd_conn_def upd_surface_def outputs_ok_def side_ok_def seats_ok_def seat_ok_def)
  moreover have "conns_ok ?v"
  proof -
    have un: "unnamed w r" by (rule unnamed_unowned [OF wok assms(3,4)])
    have mono: "objs_ok ((w_surfaces w)(r \<mapsto> ?s)) k es" if "objs_ok (w_surfaces w) k es" for k es
      by (rule objs_ok_mono [OF that]) (use assms(3,4) in auto)
    from un assms(2) have "r \<notin> oe_handle ` set (filter is_surf (c_objects c))" by (auto simp: unnamed_def)
    with mono ok(8) assms(2,7) have "objs_ok ((w_surfaces w)(r \<mapsto> ?s)) cr (c_objects c')"
      by (fastforce simp: conns_ok_def objs_ok_def)
    with mono ok(8) assms(5) show ?thesis by (auto simp: conns_ok_def f)
  qed
  moreover have "server_view ?v = server_view w0"
    using server_view_upd [OF assms(2,6)] assms(1) by (simp add: step_ok_def server_view_def upd_surface_def)
  ultimately show ?thesis by (simp add: step_ok_def world_ok_def)
qed

lemma register_surface_ok:
  assumes conn: "w_conns w0 cr \<noteq> None" and w: "step_ok w0 w" "w_surfaces w r = Some s" "sf_owning_conn s = None" "childless w r"
    and reply: "\<And>v i. step_ok w0 v \<Longrightarrow> w_outputs v = w_outputs w \<Longrightarrow> ok_res (step_ok w0) (reply v i)"
  shows "ok_res (step_ok w0) (register_surface w cr m r reply)"
proof -
  from register_ref_spec [OF w(1) conn, of r ISZ_OBJECT_SURFACE] obtain w1 c c' i where
    g: "register_ref w cr r ISZ_OBJECT_SURFACE = Some (upd_conn w1 cr c', i)" "kern.more w1 = kern.more w"
      "w_conns w1 cr = Some c" "conn_ok c'" "conn_view c' = conn_view c"
      "c_objects c' = c_objects c @ (if i = 0 then [] else [\<lparr>oe_id = i, oe_handle = r, oe_kind = ISZ_OBJECT_SURFACE\<rparr>])" by blast
  note f = kern_more_world [OF g(2)]
  have s1: "step_ok w0 w1" by (rule step_ok_trans [OF w(1) step_ok_more [OF step_okD [OF w(1)] g(2)]])
  have objs: "objs_ok (w_surfaces w1) cr (c_objects c)" using g(3) world_okD(8) [OF step_okD [OF s1]] by (auto simp: conns_ok_def)
  have srf: "w_surfaces w1 r = Some s" using w(2) f by simp
  note un = unnamed_unowned [OF step_okD [OF s1] srf w(3)]
  show ?thesis
  proof (cases "i = 0")
    case True
    let ?v = "upd_conn w1 cr c'"
    have v: "step_ok w0 ?v" using g(6) objs True by (intro upd_conn_step [OF s1 g(3,5,4)]) simp_all
    have "unnamed ?v r" using un g(3,6) True by (auto simp: unnamed_def upd_conn_def)
    moreover have "w_surfaces ?v r \<noteq> None" "childless ?v r"
      using srf w(4) f by (simp_all add: upd_conn_def childless_def)
    ultimately have "ok_res (step_ok w0) (isz_surface_destroy ?v (Some r))" by (intro destroy_step [OF v])
    then show ?thesis using g(1) True replies_ok(1) [OF conn] by (auto simp: register_surface_def elim: ok_res_bind)
  next
    case False
    let ?s = "s\<lparr>sf_owning_conn := Some cr, sf_object_id := i\<rparr>"
    let ?v = "upd_surface (upd_conn w1 cr c') r ?s"
    have v: "step_ok w0 ?v" using g(6) False by (intro own_surface_step [OF s1 g(3) srf w(3) g(4,5)]) simp
    show ?thesis using g(1) False srf reply [OF v] f by (simp add: register_surface_def upd_conn_def upd_surface_def)
  qed
qed

lemma create_handlers_ok:
  assumes "world_ok w" "w_conns w cr \<noteq> None"
  shows "ok_res (step_ok w) (isz_handle_surface_create w cr)"
    "ok_res (step_ok w) (isz_handle_create_subsurface w cr p)"
    "ok_res (step_ok w) (isz_handle_create_popup w cr p)"
    "ok_res (step_ok w) (isz_handle_create_layer w cr p)"
proof -
  note refl = step_ok_refl [OF assms(1)]
  have reg: "ok_res (step_ok w) (case x of None \<Rightarrow> isz_reply_error v cr m e | Some r \<Rightarrow> register_surface v cr m r reply)"
    if "creates u s (v, x)" "step_ok w u" "surf_ok u s" "surf_bufs s = {}" "contrib s = None" "sf_owning_conn s = None"
      "\<And>v i. step_ok w v \<Longrightarrow> w_outputs v = w_outputs u \<Longrightarrow> ok_res (step_ok w) (reply v i)" for u v s x m e reply
  proof -
    note c = created_step [OF that(2,1,3-6)]
    show ?thesis
      using c that(6,7) replies_ok(1) [OF assms(2) c(1)]
      by (auto split: option.split intro!: register_surface_ok [OF assms(2) c(1)])
  qed
  have bind: "ok_res (step_ok w) (res \<bind> (\<lambda>(v, x). case x of None \<Rightarrow> isz_reply_error v cr m e
        | Some r \<Rightarrow> register_surface v cr m r reply))"
    if "\<exists>y. res = Some y \<and> creates u s y" "step_ok w u" "surf_ok u s" "surf_bufs s = {}" "contrib s = None" "sf_owning_conn s = None"
      "\<And>v i. step_ok w v \<Longrightarrow> w_outputs v = w_outputs u \<Longrightarrow> ok_res (step_ok w) (reply v i)" for res u s m e reply
    using that(1) reg [OF _ that(2-7)] by (auto split: prod.split)
  have sub: "ok_res (step_ok w) (isz_surface_create_subsurface w (Some q) \<bind> (\<lambda>(v, x). case x of
        None \<Rightarrow> isz_reply_error v cr m e | Some r \<Rightarrow> register_surface v cr m r (\<lambda>v i. isz_reply_subsurface v cr j i)))"
    if "w_surfaces w q \<noteq> None" for q m e j
    using that new_surface_view [of w]
    by (intro bind [OF isz_surface_create_subsurface_spec refl] replies_ok(4) [OF assms(2)]) (auto simp: surf_view)
  have pop: "ok_res (step_ok w) (isz_surface_create_popup w (Some q) x y \<bind> (\<lambda>(v, x). case x of
        None \<Rightarrow> isz_reply_error v cr m e | Some r \<Rightarrow> register_surface v cr m r (\<lambda>v i. isz_reply_popup v cr j i)))"
    if "w_surfaces w q \<noteq> None" for q m e j x y
    using that new_surface_view [of w]
    by (intro bind [OF isz_surface_create_popup_spec refl] replies_ok(5) [OF assms(2)]) (auto simp: surf_view)
  have lay: "ok_res (step_ok w) (isz_surface_create_layer v (Some q) l \<bind> (\<lambda>(v, x). case x of
        None \<Rightarrow> isz_reply_error v cr m e | Some r \<Rightarrow> register_surface v cr m r
           (\<lambda>v i. do { ou \<leftarrow> w_outputs v q; isz_reply_layer v cr (o_id ou) i })))"
    if "step_ok w v" "w_outputs v q \<noteq> None" for q m e l v
    using that new_surface_view [of v] replies_ok(6) [OF assms(2)]
    by (intro bind [OF isz_surface_create_layer_spec that(1)]) (auto simp: surf_view)
  show "ok_res (step_ok w) (isz_handle_surface_create w cr)"
    unfolding isz_handle_surface_create_def
    using bind [of "Some (isz_surface_create w)" w "new_surface w", OF _ refl new_surface_view(3,1,2,5) replies_ok(2) [OF assms(2)]]
      isz_surface_create_spec [of w]
    by (auto split: prod.split option.split)
  show "ok_res (step_ok w) (isz_handle_create_subsurface w cr p)" "ok_res (step_ok w) (isz_handle_create_popup w cr p)"
    unfolding isz_handle_create_subsurface_def isz_handle_create_popup_def Let_def
    by (intro sub pop checked_ok ok_res_option [where Q = "step_ok w" and x = "_ :: nat option"] answers [OF assms(2)] refl; blast)+
  show "ok_res (step_ok w) (isz_handle_create_layer w cr p)"
    unfolding isz_handle_create_layer_def Let_def
    by (intro lay disp answers [OF assms(2)] refl; blast)
qed

lemma lookup_loop_index:
  "lookup_loop es i kd = Some h \<Longrightarrow> \<exists>n < length es. find_index es i m = Some (n + m) \<and> oe_handle (es ! n) = h \<and> oe_kind (es ! n) = kd"
proof (induction es arbitrary: m)
  case (Cons e es)
  show ?case
  proof (cases "oe_id e = i")
    case False
    with Cons.IH [of "m + 1"] Cons.prems obtain n where
      "n < length es" "find_index es i (m + 1) = Some (n + (m + 1))" "oe_handle (es ! n) = h" "oe_kind (es ! n) = kd" by auto
    with False show ?thesis by (intro exI [of _ "Suc n"]) simp
  qed (use Cons.prems in \<open>auto split: if_splits\<close>)
qed simp

text \<open>Unregistering takes out exactly the entry the lookup found.\<close>

lemma unregister_found:
  assumes "isz_conn_lookup_object c i kd = Some h"
  shows "\<exists>e. e \<in># mset (c_objects c) \<and> oe_handle e = h \<and> oe_kind e = kd
    \<and> mset (c_objects (isz_conn_unregister_object c i)) = mset (c_objects c) - {#e#}"
proof -
  from assms have i: "i \<noteq> 0" "lookup_loop (c_objects c) i kd = Some h"
    by (auto simp: isz_conn_lookup_object_def split: if_splits)
  from lookup_loop_index [OF i(2), of 0] obtain n where
    n: "n < length (c_objects c)" "find_index (c_objects c) i 0 = Some n" "oe_handle (c_objects c ! n) = h"
      "oe_kind (c_objects c ! n) = kd" by auto
  from swap_remove_mset [OF n(1)] i(1) n(2)
  have "mset (c_objects (isz_conn_unregister_object c i)) = mset (c_objects c) - {#c_objects c ! n#}"
    by (auto simp: isz_conn_unregister_object_def Let_def split: if_splits)
  with n show ?thesis by force
qed

lemma objs_ok_remove:
  assumes "objs_ok S k es" "e \<in># mset es" "mset es' = mset es - {#e#}"
  shows "objs_ok S k es'" "is_surf e \<Longrightarrow> oe_handle e \<notin> oe_handle ` {e \<in> set es'. is_surf e}"
proof -
  let ?h = "\<lambda>xs. map oe_handle (filter is_surf xs)"
  from assms(2,3) have m: "mset es = add_mset e (mset es')" by simp
  then have "mset (?h es) = mset (?h (e # es'))" by simp
  with assms(1) have d: "distinct (?h (e # es'))" unfolding objs_ok_def by (metis mset_eq_imp_distinct_iff)
  have "set es' \<subseteq> set es" using m by (metis set_mset_add_mset_insert set_mset_mset subset_insertI)
  with assms(1) d show "objs_ok S k es'" by (auto simp: objs_ok_def split: if_splits)
  show "is_surf e \<Longrightarrow> oe_handle e \<notin> oe_handle ` {e \<in> set es'. is_surf e}" using d by auto
qed

lemma conn_ok_unregister:
  assumes "conn_ok c" "mset (c_objects (isz_conn_unregister_object c i)) = mset (c_objects c) - M"
  shows "conn_ok (isz_conn_unregister_object c i)"
proof -
  have "length (c_objects (isz_conn_unregister_object c i)) \<le> length (c_objects c)"
    using arg_cong [OF assms(2), of size] by (simp add: size_Diff_subset_Int)
  moreover have "set (c_objects (isz_conn_unregister_object c i)) \<subseteq> set (c_objects c)"
    using assms(2) by (metis in_diffD set_mset_mset subsetI)
  moreover have "c_recv_state (isz_conn_unregister_object c i) = c_recv_state c" "c_queue (isz_conn_unregister_object c i) = c_queue c"
    "c_queued_events (isz_conn_unregister_object c i) = c_queued_events c"
    "c_objects_cap (isz_conn_unregister_object c i) = c_objects_cap c"
    "c_next_object_id (isz_conn_unregister_object c i) = c_next_object_id c"
    by (simp_all add: isz_conn_unregister_object_def Let_def split: option.splits)
  ultimately show ?thesis using assms(1) by (auto simp: conn_ok_def)
qed

lemma conn_view_unregister: "conn_view (isz_conn_unregister_object c i) = conn_view c"
  by (simp add: conn_view_def isz_conn_unregister_object_def Let_def split: option.splits)

lemma handle_surface_destroy_ok:
  assumes "world_ok w" "w_conns w cr \<noteq> None"
    "\<And>i r. isz_proto_read_u32 p 0 = Some i \<Longrightarrow> lookup_ref w cr i ISZ_OBJECT_SURFACE = Some (Some r) \<Longrightarrow> childless w r"
  shows "ok_res (step_ok w) (isz_handle_surface_destroy w cr p)"
proof -
  note refl = step_ok_refl [OF assms(1)]
  from assms(2) obtain c where c: "w_conns w cr = Some c" by auto
  then have ok: "conn_ok c" "objs_ok (w_surfaces w) cr (c_objects c)"
    using world_okD(8) [OF assms(1)] by (auto simp: conns_ok_def)
  have found: "ok_res (step_ok w) (unregister_ref w cr i \<bind> (\<lambda>w. isz_surface_destroy w (Some r)))"
    if l: "isz_conn_lookup_object c i ISZ_OBJECT_SURFACE = Some r" and ch: "childless w r" for i r
  proof -
    let ?c = "isz_conn_unregister_object c i"
    from unregister_found [OF l] obtain e where
      e: "e \<in># mset (c_objects c)" "oe_handle e = r" "is_surf e" "mset (c_objects ?c) = mset (c_objects c) - {#e#}" by blast
    note rm = objs_ok_remove [OF ok(2) e(1,4)]
    have s: "step_ok w (upd_conn w cr ?c)" by (rule upd_conn_step [OF refl c conn_view_unregister conn_ok_unregister [OF ok(1) e(4)] rm(1)])
    have own: "map_option sf_owning_conn (w_surfaces w r) = Some (Some cr)" using ok(2) e(1-3) by (auto simp: objs_ok_def)
    have "unnamed (upd_conn w cr ?c) r"
      unfolding unnamed_def
    proof (intro allI impI)
      fix k d
      assume d: "w_conns (upd_conn w cr ?c) k = Some d"
      show "r \<notin> oe_handle ` {e \<in> set (c_objects d). is_surf e}"
      proof (cases "k = cr")
        case True
        with d rm(2) [OF e(3)] e(2) show ?thesis by (simp add: upd_conn_def)
      next
        case False
        with d world_okD(8) [OF assms(1)] have "objs_ok (w_surfaces w) k (c_objects d)" by (auto simp: upd_conn_def conns_ok_def)
        with own False show ?thesis by (auto simp: objs_ok_def)
      qed
    qed
    moreover have "w_surfaces (upd_conn w cr ?c) r \<noteq> None" "childless (upd_conn w cr ?c) r"
      using own ch by (auto simp: upd_conn_def childless_def)
    ultimately show ?thesis using destroy_step [OF s] c by (simp add: unregister_ref_def)
  qed
  show ?thesis
    using replies_ok(1) [OF assms(2) refl] found assms(3) c
    by (auto simp: isz_handle_surface_destroy_def Let_def checked_def isz_proto_read_u32_checked_def lookup_ref_def
        ok_res_def isz_proto_read_u32_def isz_get_u32_le_def split: option.split)
qed

section \<open>The handlers that take descriptors\<close>

text \<open>At most one descriptor of the message is consumed.\<close>

definition fds_step :: "world \<Rightarrow> fd list \<Rightarrow> world \<times> fd list \<Rightarrow> bool" where
  "fds_step w0 fds x \<longleftrightarrow> step_ok w0 (fst x)
     \<and> (snd x = fds \<or> (\<exists>i < length fds. 0 \<le> fds ! i \<and> snd x = fds[i := -1]))"

lemma fds_err:
  assumes "w_conns w0 cr \<noteq> None" "step_ok w0 w"
  shows "ok_res (fds_step w0 fds) (isz_reply_error w cr m e \<bind> (\<lambda>w. Some (w, fds)))"
    "\<not> (length fds \<le> i \<or> fds ! i < 0) \<Longrightarrow>
       ok_res (fds_step w0 fds) (isz_reply_error w cr m e \<bind> (\<lambda>w. Some (w, isz_consume_fd fds i)))"
    "\<not> (length fds \<le> i \<or> fds ! i < 0) \<Longrightarrow>
       ok_res (fds_step w0 fds) (isz_reply_attach_buffer w cr j l \<bind> (\<lambda>w. Some (w, isz_consume_fd fds i)))"
  by (rule ok_res_bind [OF replies_ok(1) [OF assms]] ok_res_bind [OF replies_ok(3) [OF assms]],
      force intro: ok_res_Some simp: fds_step_def isz_consume_fd_def not_le)+

lemma fds_done:
  assumes "step_ok w0 v"
  shows "ok_res (fds_step w0 fds) (Some (v, fds))"
    "\<not> (length fds \<le> i \<or> fds ! i < 0) \<Longrightarrow> ok_res (fds_step w0 fds) (Some (v, isz_consume_fd fds i))"
proof -
  show "ok_res (fds_step w0 fds) (Some (v, fds))" using assms by (simp add: ok_res_def fds_step_def)
  assume i: "\<not> (length fds \<le> i \<or> fds ! i < 0)"
  then have "\<exists>j < length fds. 0 \<le> fds ! j \<and> fds[i := -1] = fds[j := -1]" by (intro exI [of _ i]) simp
  with i assms show "ok_res (fds_step w0 fds) (Some (v, isz_consume_fd fds i))"
    by (simp add: ok_res_def fds_step_def isz_consume_fd_def)
qed

lemma register_buffer_ok:
  assumes "w_conns w0 cr \<noteq> None" "step_ok w0 w" "\<And>v i. step_ok w0 v \<Longrightarrow> ok_res Q (k v i)"
  shows "ok_res Q (register_ref w cr b ISZ_OBJECT_BUFFER \<bind> (\<lambda>(v, i). k v i))"
proof -
  from register_ref_spec [OF assms(2,1), of b ISZ_OBJECT_BUFFER] obtain w1 c c' i where
    g: "register_ref w cr b ISZ_OBJECT_BUFFER = Some (upd_conn w1 cr c', i)" "kern.more w1 = kern.more w"
      "w_conns w1 cr = Some c" "conn_ok c'" "conn_view c' = conn_view c"
      "c_objects c' = c_objects c @ (if i = 0 then [] else [\<lparr>oe_id = i, oe_handle = b, oe_kind = ISZ_OBJECT_BUFFER\<rparr>])" by blast
  have s1: "step_ok w0 w1" by (rule step_ok_trans [OF assms(2) step_ok_more [OF step_okD [OF assms(2)] g(2)]])
  have "objs_ok (w_surfaces w1) cr (c_objects c)" using g(3) world_okD(8) [OF step_okD [OF s1]] by (auto simp: conns_ok_def)
  then have "objs_ok (w_surfaces w1) cr (c_objects c')" using g(6) by (auto simp: objs_ok_def)
  with g upd_conn_step [OF s1 g(3,5,4)] assms(3) show ?thesis by simp
qed

lemma attach_step:
  assumes "w_conns w0 cr \<noteq> None" "step_ok w0 w" "w_surfaces w r \<noteq> None"
    "\<And>v rc. step_ok w0 v \<Longrightarrow> w_surfaces v r \<noteq> None \<Longrightarrow> ok_res Q (k v rc)"
  shows "ok_res Q (isz_surface_attach_buffer w (Some r) fd d \<bind> (\<lambda>(v, rc). k v rc))"
proof -
  have "op_ok w (isz_surface_attach_buffer w (Some r) fd d)"
    using surface_ops_live [OF assms(2)] assms(3) by (intro isz_surface_attach_buffer_ok) auto
  then obtain v rc where v: "isz_surface_attach_buffer w (Some r) fd d = Some (v, rc)" "render_ok v" "render_frame w v"
    by (auto simp: op_ok_def)
  have "step_ok w0 v" by (rule step_ok_trans [OF assms(2) step_ok_render [OF step_okD [OF assms(2)] v(2,3)]])
  with assms(3,4) v(1) render_frame_live(2) [OF v(3), of r] show ?thesis by auto
qed

lemma u8_in: "\<not> length p \<le> off \<Longrightarrow> (\<And>v. ok_res Q (k v)) \<Longrightarrow> ok_res Q (isz_proto_read_u8 p off \<bind> k)"
  by (simp add: isz_proto_read_u8_def)

lemma live_in: "w_surfaces w r \<noteq> None \<Longrightarrow> (\<And>s. ok_res Q (k s)) \<Longrightarrow> ok_res Q (w_surfaces w r \<bind> k)"
  by auto

lemma handle_attach_buffer_ok:
  assumes "world_ok w" "w_conns w cr \<noteq> None"
  shows "ok_res (fds_step w fds) (isz_handle_attach_buffer w cr p fds)"
proof -
  note refl = step_ok_refl [OF assms(1)]
  have reg: "ok_res Q ((case cur of None \<Rightarrow> Some (v, 0) | Some b \<Rightarrow> register_ref v cr b ISZ_OBJECT_BUFFER) \<bind> (\<lambda>(v, i). k v i))"
    if "step_ok w v" "\<And>v i. step_ok w v \<Longrightarrow> ok_res Q (k v i)" for Q cur v k
    using that register_buffer_ok [OF assms(2) that] by (cases cur) simp_all
  show ?thesis
    unfolding isz_handle_attach_buffer_def Let_def
    by (intro disp u8_in attach_step [OF assms(2)] live_in reg fds_err [OF assms(2)] lookup_ok [OF assms(2)] refl)
      (assumption | blast)+
qed

lemma capture_own_step:
  assumes "step_ok w0 w"
  shows "step_ok w0 (isz_capture_set_owning_conn w out conn)"
proof -
  note wok = step_okD [OF assms]
  note c = isz_capture_set_owning_conn_ok [OF world_okD(4) [OF wok], of out conn]
  show ?thesis by (rule step_ok_trans [OF assms step_ok_capture [OF wok c(1) _ c(2)]]) (simp add: c(3) world_okD(5) [OF wok])
qed

lemma capture_start_step:
  assumes "step_ok w0 w" "w_outputs w r \<noteq> None" "\<not> (length fds \<le> i \<or> fds ! i < 0)"
    "\<And>v rc. step_ok w0 v \<Longrightarrow> ok_res Q (k v rc)"
  shows "ok_res Q (isz_output_capture_start w (Some r) (fds ! i) (Some d) \<bind> (\<lambda>(v, rc). k v rc))"
proof -
  note wok = step_okD [OF assms(1)]
  from assms(3) have "0 \<le> fds ! i" by simp
  from isz_output_capture_start_outcome [OF world_okD(4,5) [OF wok] assms(2) this, of d] obtain v rc where
    v: "isz_output_capture_start w (Some r) (fds ! i) (Some d) = Some (v, rc)" "captures_ok (w_captures v)"
      "consents_ok (w_consents v)" "capture_frame w v" by blast
  from assms(4) [OF step_ok_trans [OF assms(1) step_ok_capture [OF wok v(2-4)]]] v(1) show ?thesis by simp
qed

lemma handle_capture_start_ok:
  assumes "world_ok w" "w_conns w cr \<noteq> None"
  shows "ok_res (fds_step w fds) (isz_handle_capture_start w cr p fds)"
proof -
  show ?thesis
    unfolding isz_handle_capture_start_def Let_def
    by (intro disp u8_in fds_done(2) capture_own_step capture_start_step fds_err [OF assms(2)] resolve_output_ok [OF assms(2)] step_ok_refl [OF assms(1)])
      (assumption | blast)+
qed

lemma handle_capture_stop_ok:
  assumes "world_ok w" "w_conns w cr \<noteq> None"
  shows "ok_res (step_ok w) (isz_handle_capture_stop w cr p)"
proof -
  have stop: "ok_res (pair_step w) (isz_output_capture_stop v (Some r))" if "step_ok w v" for v r
  proof -
    note wok = step_okD [OF that]
    from isz_output_capture_stop_spec [OF world_okD(4) [OF wok], of r] obtain v' rc where
      v: "isz_output_capture_stop v (Some r) = Some (v', rc)" "captures_ok (w_captures v')" "capture_frame v v'"
        "w_consents v' = w_consents v" by blast
    with step_ok_trans [OF that step_ok_capture [OF wok v(2) _ v(3)]] world_okD(5) [OF wok] show ?thesis
      by (auto simp: ok_res_def pair_step_def)
  qed
  have seq: "ok_res (step_ok w) (reply_unless_ok cr m (isz_output_capture_stop v (Some r)) \<bind>
      (\<lambda>v. Some (isz_capture_set_owning_conn v (Some r) None)))" if "step_ok w v" for v r m
    by (rule ok_res_bind [OF reply_unless_ok [OF assms(2) stop [OF that]]]) (auto intro: ok_res_Some capture_own_step)
  show ?thesis
    unfolding isz_handle_capture_stop_def Let_def
    by (intro disp seq answers [OF assms(2)] step_ok_refl [OF assms(1)]; blast)
qed

section \<open>Clipboard and selections\<close>

lemma clipboard_step:
  assumes "step_ok w0 w" "clipboard_ok s"
  shows "step_ok w0 (w\<lparr>w_clipboard := s\<rparr>)"
proof -
  have "server_view (w\<lparr>w_clipboard := s\<rparr>) = server_view w" by (simp add: server_view_def)
  with assms show ?thesis
    by (simp add: step_ok_def world_ok_def render_ok_def surfaces_ok_def surf_ok_def outputs_ok_def side_ok_def seats_ok_def
        seat_ok_def conns_ok_def)
qed

lemma selection_step:
  assumes "step_ok w0 w"
  shows "step_ok w0 (w\<lparr>w_selection_fd := (w_selection_fd w)[i := d]\<rparr>)"
proof -
  have "server_view (w\<lparr>w_selection_fd := (w_selection_fd w)[i := d]\<rparr>) = server_view w" by (simp add: server_view_def)
  with assms show ?thesis
    by (simp add: step_ok_def world_ok_def render_ok_def surfaces_ok_def surf_ok_def outputs_ok_def side_ok_def seats_ok_def
        seat_ok_def conns_ok_def)
qed

lemma more_step: "step_ok w0 w \<Longrightarrow> kern.more w' = kern.more w \<Longrightarrow> step_ok w0 w'"
  using step_ok_trans step_ok_more step_okD by blast

lemma clear_step:
  assumes "step_ok w0 w"
  shows "step_ok w0 (isz_clipboard_slot_clear w)" "length (cb_mime (w_clipboard (isz_clipboard_slot_clear w))) = 64"
proof -
  let ?v = "if cb_fd (w_clipboard w) \<ge> 0 then k_close w (cb_fd (w_clipboard w)) else w"
  have v: "step_ok w0 ?v" by (rule more_step [OF assms]) simp
  have cl: "length (cb_mime (w_clipboard w)) = 64" using world_okD(6) [OF step_okD [OF assms]] by (simp add: clipboard_ok_def)
  show "step_ok w0 (isz_clipboard_slot_clear w)"
    unfolding isz_clipboard_slot_clear_def Let_def by (rule clipboard_step [OF v]) (simp add: clipboard_ok_def cl)
  show "length (cb_mime (w_clipboard (isz_clipboard_slot_clear w))) = 64" by (simp add: isz_clipboard_slot_clear_def Let_def cl)
qed

lemma dup_ok:
  assumes "step_ok w0 w" "\<And>v. step_ok w0 v \<Longrightarrow> ok_res Q (a v)" "\<And>v d. step_ok w0 v \<Longrightarrow> ok_res Q (b v d)"
  shows "ok_res Q (case k_dup w x of (v, None) \<Rightarrow> a v | (v, Some d) \<Rightarrow> b v d)"
proof -
  obtain v d where k: "k_dup w x = (v, d)" by fastforce
  have "step_ok w0 v" by (rule more_step [OF assms(1)]) (use k_dup_more [of w x] k in simp)
  with assms(2,3) show ?thesis unfolding k by (cases d) simp_all
qed

lemma handle_clipboard_set_ok:
  assumes "world_ok w" "w_conns w cr \<noteq> None"
  shows "ok_res (fds_step w fds) (isz_handle_clipboard_set w cr p fds)"
proof -
  have store: "ok_res (fds_step w fds) (memcpy_at (cb_mime (w_clipboard (isz_clipboard_slot_clear v))) 0 (drop off p) n \<bind>
      (\<lambda>mime. if length mime \<le> n then None
         else Some (isz_clipboard_slot_clear v\<lparr>w_clipboard := (w_clipboard (isz_clipboard_slot_clear v))
           \<lparr>cb_fd := d, cb_mime := mime[n := 0], cb_mime_len := n\<rparr>\<rparr>, isz_consume_fd fds i)))"
    if "step_ok w v" "\<not> (63 < n \<or> length p - off < n)" "\<not> (length fds \<le> i \<or> fds ! i < 0)" for v off n i d
  proof -
    note c = clear_step [OF that(1)]
    from that(2) c(2) obtain mime where
      "memcpy_at (cb_mime (w_clipboard (isz_clipboard_slot_clear v))) 0 (drop off p) n = Some mime" "length mime = 64"
      by (simp add: memcpy_at_def)
    with that(2) fds_done(2) [OF clipboard_step [OF c(1)] that(3)] show ?thesis by (simp add: clipboard_ok_def)
  qed
  show ?thesis
    unfolding isz_handle_clipboard_set_def Let_def
    by (intro disp store dup_ok [OF step_ok_refl [OF assms(1)]] fds_err [OF assms(2)] step_ok_refl [OF assms(1)]) assumption+
qed

lemma send_fds_ok:
  assumes "w_conns w0 cr \<noteq> None" "step_ok w0 w" "n \<le> length p" "length ds \<le> ISZ_PROTO_MAX_FDS"
    "\<And>v rc. step_ok w0 v \<Longrightarrow> ok_res Q (k v rc)"
  shows "ok_res Q (conn_send_ref w cr m (Some p) n (Some ds) (length ds) \<bind> (\<lambda>(v, rc). k v rc))"
proof -
  from step_ok_conn [OF assms(2,1)] obtain c where c: "w_conns w cr = Some c" by auto
  from send_frame_ref_frame [OF this assms(4), of m "take n p"] obtain v rc where
    v: "send_frame_ref w cr m (take n p) ds = Some (v, rc)" "io_frame w v" by blast
  have "step_ok w0 v" by (rule step_ok_trans [OF assms(2) step_ok_io [OF step_okD [OF assms(2)] v(2)]])
  with v(1) assms(3,5) conn_send_ref_take [OF assms(3), of w cr m "Some ds" "length ds"] show ?thesis
    by (simp add: send_frame_ref_def min.absorb2)
qed

lemma handle_clipboard_request_ok:
  assumes "world_ok w" "w_conns w cr \<noteq> None"
  shows "ok_res (step_ok w) (isz_handle_clipboard_request w cr)"
proof -
  note refl = step_ok_refl [OF assms(1)]
  let ?s = "w_clipboard w"
  have cl: "length (cb_mime ?s) = 64" "cb_mime_len ?s < 64" using world_okD(6) [OF assms(1)] by (simp_all add: clipboard_ok_def)
  define p0 where "p0 = the (isz_proto_write_u32 (replicate 68 0) 0 (of_nat (cb_mime_len ?s)))"
  have w32: "isz_proto_write_u32 (replicate 68 0) 0 (of_nat (cb_mime_len ?s)) = Some (fst p0, 4)" "length (fst p0) = 68"
    by (simp_all add: p0_def isz_proto_write_u32_def isz_put_u32_le_def)
  define mp where "mp = (if cb_mime_len ?s > 0
      then the (memcpy_at (fst p0) 4 (cb_mime ?s) (cb_mime_len ?s)) else fst p0)"
  have copy: "(if cb_mime_len ?s > 0
      then do { p \<leftarrow> memcpy_at (fst p0) 4 (cb_mime ?s) (cb_mime_len ?s); Some (p, 4 + cb_mime_len ?s) }
      else Some (fst p0, 4)) = Some (mp, 4 + cb_mime_len ?s)" "length mp = 68"
    using cl w32(2) by (simp_all add: mp_def memcpy_at_def)
  have len: "4 + cb_mime_len ?s \<le> length mp" using cl copy(2) by simp
  have sent: "ok_res (step_ok w) (conn_send_ref v cr ISZ_MSG_CLIPBOARD_REQUEST (Some mp) (4 + cb_mime_len ?s) (Some [d]) 1 \<bind>
      (\<lambda>(v, rc). Some (if rc \<noteq> ISZ_OK then k_close v d else v)))" if "step_ok w v" for v d
  proof -
    have "ok_res (step_ok w) (Some (if rc \<noteq> ISZ_OK then k_close v d else v))" if "step_ok w v" for v rc
      using that more_step [OF that k_close_more(1)] by (simp add: ok_res_def)
    from send_fds_ok [OF assms(2) that len _ this, where ds = "[d]" and m = "ISZ_MSG_CLIPBOARD_REQUEST"] show ?thesis by simp
  qed
  have plain: "ok_res (step_ok w) (conn_send_ref w cr ISZ_MSG_CLIPBOARD_REQUEST (Some mp) (4 + cb_mime_len ?s) None 0 \<bind>
      (\<lambda>(v, rc). Some v))"
    using conn_send_event_take [of "4 + cb_mime_len ?s" mp "take (4 + cb_mime_len ?s) mp"] len send_event_ok [OF refl assms(2)]
    by simp
  have "isz_handle_clipboard_request w cr = (if cb_fd ?s \<ge> 0
      then case k_dup w (cb_fd ?s) of
             (w, None) \<Rightarrow> isz_reply_error w cr ISZ_MSG_CLIPBOARD_REQUEST ISZ_ERR_NO_MEMORY
           | (w, Some d) \<Rightarrow> conn_send_ref w cr ISZ_MSG_CLIPBOARD_REQUEST (Some mp) (4 + cb_mime_len ?s) (Some [d]) 1 \<bind>
               (\<lambda>(v, rc). Some (if rc \<noteq> ISZ_OK then k_close v d else v))
      else conn_send_ref w cr ISZ_MSG_CLIPBOARD_REQUEST (Some mp) (4 + cb_mime_len ?s) None 0 \<bind> (\<lambda>(v, rc). Some v))"
    unfolding isz_handle_clipboard_request_def Let_def w32(1) bind.bind_lunit prod.case copy(1) by (rule HOL.refl)
  then show ?thesis
    by (simp only:) (intro disp dup_ok [OF refl] sent plain replies_ok(1) [OF assms(2)] refl; assumption)
qed

lemma close_selection_step: "step_ok w0 w \<Longrightarrow> step_ok w0 (close_selection_fd w i)"
  using more_step [OF _ k_close_more(1)] by (simp add: close_selection_fd_def)

lemma handle_set_selection_owner_ok:
  assumes "world_ok w" "w_conns w cr \<noteq> None"
  shows "ok_res (fds_step w fds) (isz_handle_set_selection_owner w cr p fds)"
proof -
  note refl = step_ok_refl [OF assms(1)]
  have opt: "ok_res Q (optional_surface w cr i \<bind> f)" if "\<And>x. ok_res Q (f x)" for i f Q
    using that assms(2) by (auto simp: optional_surface_def lookup_ref_def)
  have seat: "ok_res Q (isz_seat_default w \<bind> (\<lambda>(v, st). f v st))"
    if "\<And>v st. step_ok w v \<Longrightarrow> (\<And>r. st = Some r \<Longrightarrow> w_seats v r \<noteq> None) \<Longrightarrow> ok_res Q (f v st)" for Q f
  proof -
    from isz_seat_default_ok [OF world_okD(3) [OF assms(1)]] obtain v st where
      v: "isz_seat_default w = Some (v, st)" "seats_ok v" "seat_frame w v" "\<And>r. st = Some r \<Longrightarrow> w_seats v r \<noteq> None" by blast
    from that [OF step_ok_seat [OF assms(1) v(2,3)] v(4)] v(1) show ?thesis by simp
  qed
  have own: "ok_res Q (isz_seat_set_selection_owner v (Some r) slot ow ts \<bind> (\<lambda>(v, rc). f v rc))"
    if "step_ok w v" "w_seats v r \<noteq> None" "\<And>v rc. step_ok w v \<Longrightarrow> ok_res Q (f v rc)" for v r slot ow ts f Q
  proof -
    have "ok_res (pair_step w) (isz_seat_set_selection_owner v (Some r) slot ow ts)"
      using that(2) by (intro ops_step(3) [OF _ that(1)] seat_setters_ok output_ops_live [OF that(1)]) simp
    then show ?thesis by (rule ok_res_bind) (use that(3) in \<open>auto simp: pair_step_def\<close>)
  qed
  have keep: "ok_res (fds_step w fds) (if fd_index \<noteq> ISZ_SELECTION_FD_NONE \<and> unat fd_index < length fds \<and> 0 \<le> fds ! unat fd_index
      then (case k_dup v (fds ! unat fd_index) of
              (v, None) \<Rightarrow> isz_reply_error v cr m e \<bind> (\<lambda>v. Some (v, isz_consume_fd fds (unat fd_index)))
            | (v, Some stored) \<Rightarrow> Some ((close_selection_fd v i)\<lparr>w_selection_fd :=
                 (w_selection_fd (close_selection_fd v i))[i := stored]\<rparr>, isz_consume_fd fds (unat fd_index)))
      else x)"
    if "step_ok w v" "ok_res (fds_step w fds) x" for fd_index :: u32 and v m e i x
    using that(2)
    by (auto intro!: dup_ok [OF that(1)] fds_err(2) [OF assms(2)] fds_done(2) selection_step close_selection_step)
  show ?thesis
    unfolding isz_handle_set_selection_owner_def Let_def
    by (intro checked_ok opt seat own keep ok_res_option [where Q = "fds_step w fds"] ok_res_if [where Q = "fds_step w fds"]
          fds_done(1) selection_step close_selection_step fds_err(1) [OF assms(2)] refl) (assumption | blast)+
qed

section \<open>Every message\<close>

text \<open>The messages the invariant does not cover: destroying a surface that still has subsurfaces, and destroying
  a buffer the connection has registered.\<close>

definition msg_legal :: "world \<Rightarrow> nat \<Rightarrow> u32 \<Rightarrow> u8 list \<Rightarrow> bool" where
  "msg_legal w cr m p \<longleftrightarrow> (\<forall>i. isz_proto_read_u32 p 0 = Some i \<longrightarrow>
       (m = ISZ_MSG_SURFACE_DESTROY \<longrightarrow> (\<forall>r. lookup_ref w cr i ISZ_OBJECT_SURFACE = Some (Some r) \<longrightarrow> childless w r))
     \<and> (m = ISZ_MSG_BUFFER_DESTROY \<longrightarrow> lookup_ref w cr i ISZ_OBJECT_BUFFER = Some None))"

lemma handle_buffer_destroy_ok:
  assumes "world_ok w" "w_conns w cr \<noteq> None" "\<And>i. isz_proto_read_u32 p 0 = Some i \<Longrightarrow> lookup_ref w cr i ISZ_OBJECT_BUFFER = Some None"
  shows "ok_res (step_ok w) (isz_handle_buffer_destroy w cr p)"
  using replies_ok(1) [OF assms(2) step_ok_refl [OF assms(1)]] assms(3) step_ok_refl [OF assms(1)]
  by (auto simp: isz_handle_buffer_destroy_def checked_def isz_proto_read_u32_checked_def ok_res_def
      isz_proto_read_u32_def isz_get_u32_le_def)

lemma dispatch_fds_ok:
  assumes "world_ok w" "w_conns w cr \<noteq> None" "msg_legal w cr m p"
  shows "ok_res (fds_step w fds) (dispatch_fds w cr m p fds)"
proof -
  note a = assms(1,2)
  have plain: "ok_res (fds_step w fds) (res \<bind> (\<lambda>w. Some (w, fds)))" if "ok_res (step_ok w) res" for res
    by (rule ok_res_bind [OF that]) (rule fds_done(1))
  have sd: "ok_res (step_ok w) (isz_handle_surface_destroy w cr p)" if "m = ISZ_MSG_SURFACE_DESTROY"
    using assms(3) that by (intro handle_surface_destroy_ok [OF a]) (auto simp: msg_legal_def)
  have bd: "ok_res (step_ok w) (isz_handle_buffer_destroy w cr p)" if "m = ISZ_MSG_BUFFER_DESTROY"
    using assms(3) that by (intro handle_buffer_destroy_ok [OF a]) (auto simp: msg_legal_def)
  show ?thesis
    unfolding dispatch_fds_def isz_handle_drag_stub_def
    by (intro ok_res_if plain sd bd handle_attach_buffer_ok [OF a] handle_capture_start_ok [OF a] handle_clipboard_set_ok [OF a]
        handle_set_selection_owner_ok [OF a] create_handlers_ok [OF a] handle_damage_ok [OF a] setter_handlers_ok [OF a]
        handle_commit_ok [OF a] handle_output_enable_ok [OF a] plain_output_handlers_ok [OF a] lut_handlers_ok [OF a]
        handle_output_set_ctm_ok [OF a] handle_output_set_hdr_ok [OF a] seat_handlers_ok [OF a] handle_capture_stop_ok [OF a]
        handle_popup_dismiss_ok [OF a] handle_clipboard_request_ok [OF a] replies_ok(1) [OF a(2) step_ok_refl [OF a(1)]])
      assumption+
qed

lemma handle_client_message_outcome:
  assumes "world_ok w" "w_conns w cr = Some c" "msg_legal w cr m p"
  shows "\<exists>w' fds'. isz_handle_client_message w (Some cr) m p fds
        = Some (w', fds', if c_handshake_done c then ISZ_OK else ISZ_ERR_CLIENT_DISCONNECTED)
    \<and> world_ok w' \<and> server_view w' = server_view w \<and> (c_handshake_done c \<or> w' = w)
    \<and> (fds' = fds \<or> (\<exists>i < length fds. 0 \<le> fds ! i \<and> fds' = fds[i := -1]))"
  using dispatch_fds_ok [of w cr m p fds] assms
  by (auto simp: isz_handle_client_message_def ok_res_def fds_step_def step_ok_def)

section \<open>Properties\<close>

text \<open>C21: the dispatcher is memory safe. For every message id, payload and descriptor array, well formed or not, and
  every outcome of the allocations and system calls on the way, handling the message returns, keeps the
  invariant of the whole server state and leaves the clients and their sockets alone, and takes at most one descriptor from the message, which had not
  been taken before; a connection that has not finished its handshake is refused and changes nothing. The messages
  \<^verbatim>\<open>SURFACE_DESTROY\<close> for a surface with subsurfaces and \<^verbatim>\<open>BUFFER_DESTROY\<close> for a registered buffer are excepted.\<close>

theorem dispatch_safe:
  assumes "world_ok w" and "w_conns w cr = Some c" and "msg_legal w cr m p"
  shows "\<exists>w' fds'. isz_handle_client_message w (Some cr) m p fds
        = Some (w', fds', if c_handshake_done c then ISZ_OK else ISZ_ERR_CLIENT_DISCONNECTED)
    \<and> world_ok w' \<and> server_view w' = server_view w \<and> (c_handshake_done c \<or> w' = w)
    \<and> (fds' = fds \<or> (\<exists>i < length fds. 0 \<le> fds ! i \<and> fds' = fds[i := -1]))"
  using assms by (rule handle_client_message_outcome)

text \<open>A server with one output and one connected client that has no objects yet.\<close>

definition session_conn :: conn where
  "session_conn = sample_conn\<lparr>c_handshake_done := True\<rparr>"

definition session_world :: world where
  "session_world = sample_world\<lparr>w_conns := (\<lambda>_. None)(7 \<mapsto> session_conn)\<rparr>"

lemmas world_init_defs = sample_world_def world_init_def bstate_init_def bstate.defs kern_init_def kern.defs

lemma session_conn_facts: "conn_ok session_conn" "c_objects session_conn = []" "c_handshake_done session_conn"
  using sample_conn_facts by (simp_all add: session_conn_def conn_ok_def sample_conn_def isz_conn_create_def k_alloc_def kern_init_def)

lemma side_ok_sample: "side_ok sample_world" "outputs_ok sample_world"
proof -
  show "side_ok sample_world"
    by (rule side_ok_fields [of world_init])
      (use seats_ok_init consents_ok_init in \<open>simp_all add: side_ok_def captures_ok_def clipboard_ok_def world_init_defs\<close>)
  show "outputs_ok sample_world" by (simp add: outputs_ok_def out_ok_def lut_ok_def output_zero_def color_lut_zero_def world_init_defs)
qed

lemma world_ok_session_world: "world_ok session_world"
proof -
  have "render_ok session_world"
    using render_ok_sample_world by (simp add: session_world_def render_ok_def surfaces_ok_def surf_ok_def world_init_defs)
  moreover have "outputs_ok session_world" "side_ok session_world"
    using side_ok_sample by (simp_all add: session_world_def outputs_ok_def side_ok_def seats_ok_def seat_ok_def)
  moreover have "conns_ok session_world"
    using session_conn_facts by (simp add: session_world_def conns_ok_def objs_ok_def)
  ultimately show ?thesis by (simp add: world_ok_def)
qed

theorem dispatch_safe_witness:
  "world_ok session_world \<and> (\<exists>w' fds'. isz_handle_client_message session_world (Some 7) ISZ_MSG_SURFACE_CREATE [] [3] = Some (w', fds', ISZ_OK)
     \<and> world_ok w' \<and> server_view w' = server_view session_world)"
proof -
  have "w_conns session_world 7 = Some session_conn" "msg_legal session_world 7 ISZ_MSG_SURFACE_CREATE []"
    by (simp_all add: session_world_def msg_legal_def)
  from dispatch_safe [OF world_ok_session_world this, of "[3]"] session_conn_facts(3) world_ok_session_world show ?thesis
    by (auto simp: session_world_def)
qed

text \<open>clients cannot choose an output. No message registers an output with a connection, so whatever output id
  a message names, known or not, the dispatcher resolves it as it resolves the placeholder 0, to the first
  output of the server.\<close>

theorem output_id_ignored:
  assumes "world_ok w" and "w_conns w cr = Some c"
  shows "isz_resolve_output w cr output_id = isz_resolve_output w cr 0"
  using no_outputs_registered [OF assms(2,1), of ISZ_OBJECT_OUTPUT] assms(2)
  by (simp add: isz_resolve_output_def lookup_ref_def)

theorem output_id_ignored_witness:
  "world_ok session_world \<and> isz_resolve_output session_world 7 99 = isz_resolve_output session_world 7 0"
proof -
  have "w_conns session_world 7 = Some session_conn" by (simp add: session_world_def)
  from output_id_ignored [OF world_ok_session_world this] world_ok_session_world show ?thesis by blast
qed

lemma destroy_dangling:
  assumes "surfaces_ok w" "w_surfaces w r = Some s" "sf_current s = Some b" "bs_bufs w b = None"
  shows "isz_surface_destroy w (Some r) = None"
proof -
  have "\<exists>w1. (if sf_idle_inhibit s then isz_surface_inhibit_adjust w (sf_output s) (-1) else Some w) = Some w1 \<and> bs_bufs w1 b = None"
  proof (cases "sf_idle_inhibit s \<and> sf_output s \<noteq> None")
    case True
    with surfaces_okD(1) [OF assms(1,2)] obtain out o' where o': "sf_output s = Some out" "w_outputs w out = Some o'"
      by (auto simp: surf_ok_def)
    from isz_surface_inhibit_adjust_spec [OF assms(1) o'(2), of "-1"] obtain w1 where
      "isz_surface_inhibit_adjust w (Some out) (-1) = Some w1" "io_frame (adjusted w out o' (-1)) w1" by auto
    with True o'(1) io_frame_fields [of "adjusted w out o' (-1)" w1] assms(4) show ?thesis by simp
  qed (auto simp: isz_surface_inhibit_adjust_def assms(4))
  then obtain w1 where w1: "(if sf_idle_inhibit s then isz_surface_inhibit_adjust w (sf_output s) (-1) else Some w) = Some w1"
    "bs_bufs w1 b = None" by blast
  have gone: "release_unref v (Some b) = None" if "bs_bufs v b = None" for v
    using that by (simp add: release_unref_def isz_buffer_release_def)
  have un: "bs_bufs v' = bs_bufs v" if "unlink_child v r par = Some v'" for v v' par
    using that by (auto simp: unlink_child_def bind_eq_Some_conv split: if_splits)
  let ?u = "if sf_kind s = ISZ_SURFACE_SUBSURFACE
      then unlink_child (w1\<lparr>w_surface_list := remove1 r (w_surface_list w1)\<rparr>) r (sf_parent s)
      else Some (w1\<lparr>w_surface_list := remove1 r (w_surface_list w1)\<rparr>)"
  have chain: "bs_bufs w2 b = None" if "?u = Some w2" for w2
    using that w1(2) by (auto split: if_splits dest!: un)
  show ?thesis
  proof (cases ?u)
    case None
    then show ?thesis
      unfolding isz_surface_destroy_def option.case assms(2) bind.bind_lunit w1(1) Let_def by simp
  next
    case (Some w2)
    have "bs_bufs (if sf_plane_slot_set s \<and> sf_output s \<noteq> None
        then isz_plane_slot_release w2 (sf_output s) (sf_plane_slot s) r else w2) b = None"
      using chain [OF Some] by (simp add: isz_plane_slot_release_def split: option.splits)
    from gone [OF this] show ?thesis
      unfolding isz_surface_destroy_def option.case assms(2,3) bind.bind_lunit w1(1) Some Let_def by simp
  qed
qed

text \<open>destroying a registered buffer leaves a dangling pointer. When the buffer a client names in \<^verbatim>\<open>BUFFER_DESTROY\<close> is the
  one shown on a surface, the message frees it and closes its descriptor, and the surface still points to it: the state is
  no longer valid, and destroying that surface afterwards uses freed memory.\<close>

theorem buffer_destroy_dangles:
  assumes "world_ok w" and "w_conns w cr = Some c" and "isz_conn_lookup_object c i ISZ_OBJECT_BUFFER = Some b"
    and "w_surfaces w r = Some s" and "sf_current s = Some b" and "isz_proto_read_u32 p 0 = Some i"
  shows "\<exists>w' d. isz_handle_buffer_destroy w cr p = Some w' \<and> w_surfaces w' = w_surfaces w \<and> bs_bufs w' b = None
    \<and> k_closed w' = k_closed w @ [d] \<and> isz_surface_destroy w' (Some r) = None"
proof -
  from bufs_okD [OF render_okD(2) [OF world_okD(1) [OF assms(1)]] assms(4), of b] assms(5) obtain buf where
    buf: "bs_bufs w b = Some buf" "b_refcount buf = 1" "b_dmabuf_fd buf \<ge> 0" by (auto simp: surf_bufs_def)
  let ?v = "upd_conn w cr (isz_conn_unregister_object c i)"
  let ?w' = "released ?v b buf"
  have "release_unref ?v (Some b) = Some ?w'" by (rule release_unref_eq) (simp_all add: upd_conn_def buf)
  moreover have "checked (rd_u32 p 0) fl k = k i 4" for fl and k :: "u32 \<Rightarrow> nat \<Rightarrow> world option"
    using assms(6) by (auto simp: checked_def isz_proto_read_u32_checked_def isz_proto_read_u32_def isz_get_u32_le_def split: if_splits)
  ultimately have run: "isz_handle_buffer_destroy w cr p = Some ?w'"
    using assms(2,3) by (simp add: isz_handle_buffer_destroy_def lookup_ref_def unregister_ref_def)
  have "surfaces_ok ?w'"
    using render_okD(1) [OF world_okD(1) [OF assms(1)]] by (fastforce simp: surfaces_ok_def surf_ok_def upd_conn_def)
  from destroy_dangling [OF this _ assms(5)] assms(4) have "isz_surface_destroy ?w' (Some r) = None"
    by (simp add: upd_conn_def)
  with run show ?thesis by (auto simp: released_def upd_conn_def)
qed

text \<open>The client of \<^const>\<open>session_world\<close> with one surface that shows one buffer, both registered.\<close>

definition showing_world :: world where
  "showing_world = session_world\<lparr>
     w_conns := (\<lambda>_. None)(7 \<mapsto> session_conn\<lparr>c_objects := [\<lparr>oe_id = 1, oe_handle = 1, oe_kind = ISZ_OBJECT_SURFACE\<rparr>,
        \<lparr>oe_id = 2, oe_handle = 1, oe_kind = ISZ_OBJECT_BUFFER\<rparr>], c_objects_cap := 8, c_next_object_id := 3\<rparr>),
     w_surfaces := (\<lambda>_. None)(1 \<mapsto> surface_zero\<lparr>sf_owning_conn := Some 7, sf_object_id := 1, sf_current := Some 1\<rparr>),
     w_surface_list := [1], w_next_surface := 2,
     bs_bufs := (\<lambda>_. None)(1 \<mapsto> \<lparr>b_dmabuf_fd = 9, b_width = 4, b_height = 4, b_stride = 16, b_offset = 0, b_format = 0x34325258,
        b_modifier = 0, b_alpha_mode = 0, b_client_id = 0, b_released = False, b_refcount = 1, b_priv = None,
        b_priv_size = 0, b_is_shm = False, b_in_syncobj = 0, b_out_syncobj = 0, b_release_pending = False\<rparr>),
     bs_next_buf := 2\<rparr>"

lemma world_ok_showing_world: "world_ok showing_world"
proof -
  have "surfaces_ok showing_world"
    by (simp add: showing_world_def session_world_def surfaces_ok_def surf_ok_def surface_zero_def world_init_defs)
  moreover have "bufs_ok (w_surfaces showing_world) (bs_bufs showing_world) (bs_next_buf showing_world)"
    by (auto simp: showing_world_def bufs_ok_def owned_def surf_bufs_def surface_zero_def)
  moreover have "idle_ok (w_surfaces showing_world) (w_outputs showing_world) (w_events showing_world)"
    by (simp add: showing_world_def session_world_def idle_ok_def inhibitors_def surface_zero_def output_zero_def world_init_defs)
  moreover have "resv_ok (w_resv showing_world)"
    by (simp add: showing_world_def session_world_def resv_ok_def world_init_defs)
  moreover have "outputs_ok showing_world" "side_ok showing_world"
    using world_okD(2,9) [OF world_ok_session_world] by (simp_all add: showing_world_def outputs_ok_def side_ok_def seats_ok_def seat_ok_def)
  moreover have "conns_ok showing_world"
    using session_conn_facts(1) by (simp add: showing_world_def conns_ok_def objs_ok_def conn_ok_def)
  ultimately show ?thesis by (simp add: world_ok_def render_ok_def)
qed

theorem buffer_destroy_dangles_witness:
  "world_ok showing_world \<and> (\<exists>w'. isz_handle_buffer_destroy showing_world 7 [2, 0, 0, 0] = Some w' \<and> isz_surface_destroy w' (Some 1) = None)"
proof -
  have "isz_proto_read_u32 [2, 0, 0, 0] 0 = Some 2" by (simp add: isz_proto_read_u32_def isz_get_u32_le_def)
  from buffer_destroy_dangles [OF world_ok_showing_world _ _ _ _ this, of 7 _ 1 1]
  have "\<exists>w'. isz_handle_buffer_destroy showing_world 7 [2, 0, 0, 0] = Some w' \<and> isz_surface_destroy w' (Some 1) = None"
    by (fastforce simp: showing_world_def isz_conn_lookup_object_def)
  with world_ok_showing_world show ?thesis by simp
qed

end
