(* ===== verification/Isz_Listen.thy ===== *)
theory Isz_Listen
  imports Isz_Handshake Isz_Allowlist Isz_Dispatch_Inv
begin

text \<open>
  The life of client sockets, \<^verbatim>\<open>src/isz_listen.c\<close>: listening, accepting with allowlist and handshake, receiving
  and dispatching messages, and the cleanup of a client.

  The scripts of \<^verbatim>\<open>accept4\<close> and \<^verbatim>\<open>recvmsg\<close> results are taken out of the state while a connection is set up and
  while a message is handled, which use neither.
\<close>

section \<open>Operations\<close>

definition isz_listen :: "world \<Rightarrow> fd \<Rightarrow> world \<times> isz_error" where
  "isz_listen w listen_fd =
     (if listen_fd < 0 then (w, ISZ_ERR_INVALID_ARG)
      else if w_state w \<noteq> ISZ_SERVER_RUNNING then (w, ISZ_ERR_INVALID_ARG)
      else if w_listen_fd w \<ge> 0 then (w, ISZ_ERR_INVALID_ARG)
      else
        let (w, getfl) = k_ctl w
        in if \<not> getfl then (w, ISZ_ERR_INVALID_ARG)
           else
             let (w, setfl) = k_ctl w
             in if \<not> setfl then (w, ISZ_ERR_INVALID_ARG)
                else
                  let w = w\<lparr>w_listen_fd := listen_fd\<rparr>;
                      (w, add) = k_ctl w
                  in if \<not> add then (w\<lparr>w_listen_fd := -1\<rparr>, ISZ_ERR_INVALID_ARG)
                     else (w, ISZ_OK))"

definition isz_client_cleanup :: "world \<Rightarrow> nat option \<Rightarrow> world option" where
  "isz_client_cleanup w client = (case client of
       None \<Rightarrow> Some w
     | Some cl \<Rightarrow> do {
         c \<leftarrow> w_clients w cl;
         w \<leftarrow> (case cl_conn c of
                 None \<Rightarrow> Some w
               | Some cr \<Rightarrow> do { conn \<leftarrow> w_conns w cr; Some (if c_fd conn \<ge> 0 then fst (k_ctl w) else w) });
         let w = w\<lparr>w_client_list := remove1 cl (w_client_list w)\<rparr>;
         w \<leftarrow> (case cl_conn c of
                 None \<Rightarrow> Some w
               | Some cr \<Rightarrow> do {
                   conn \<leftarrow> w_conns w cr;
                   let w = isz_conn_close w conn;
                   Some (w\<lparr>w_conns := (w_conns w)(cr := None)\<rparr>)
                 });
         (w, cache) \<leftarrow> isz_buffer_cache_destroy w (cl_buffer_cache c);
         let w = isz_server_emit_event w ISZ_EVENT_CLIENT_DISCONNECT;
         Some (w\<lparr>w_clients := (w_clients w)(cl := None)\<rparr>)
       })"

text \<open>One round of the accept loop, after \<^verbatim>\<open>accept4\<close> returned \<open>fd\<close>; \<open>cred\<close> is the peer's pid. \<^verbatim>\<open>isz_conn_create\<close> has closed the
  descriptor when it fails. The second half of the round, after the handshake, is \<open>accept_register\<close>.\<close>

definition accept_register :: "world \<Rightarrow> conn \<Rightarrow> int \<Rightarrow> world option" where
  "accept_register w conn pid =
     (let (w, nonblock) = k_ctl w
      in if \<not> nonblock then Some (isz_conn_close w conn)
         else case k_alloc w of
                (w, False) \<Rightarrow> Some (isz_conn_close w conn)
              | (w, True) \<Rightarrow>
                  let cl = w_next_client w;
                      cr = w_next_conn w;
                      c = \<lparr>cl_conn = Some cr, cl_peer_pid = pid, cl_buffer_cache = isz_buffer_cache_init\<rparr>;
                      w = w\<lparr>w_conns := (w_conns w)(cr \<mapsto> conn), w_next_conn := cr + 1,
                            w_clients := (w_clients w)(cl \<mapsto> c), w_next_client := cl + 1,
                            w_client_list := w_client_list w @ [cl]\<rparr>;
                      (w, add) = k_ctl w
                  in if \<not> add
                     then do {
                       let w = w\<lparr>w_client_list := remove1 cl (w_client_list w)\<rparr>;
                       (w, cache) \<leftarrow> isz_buffer_cache_destroy w (cl_buffer_cache c);
                       let w = isz_conn_close w conn;
                       Some (w\<lparr>w_conns := (w_conns w)(cr := None), w_clients := (w_clients w)(cl := None)\<rparr>)
                     }
                     else Some (isz_server_emit_event w ISZ_EVENT_CLIENT_CONNECT))"

definition accept_one :: "(int \<Rightarrow> proc_info) \<Rightarrow> world \<Rightarrow> fd \<Rightarrow> int option \<Rightarrow> world option" where
  "accept_one proc w fd cred = (case cred of
       None \<Rightarrow> Some (k_close w fd)
     | Some pid \<Rightarrow> do {
         allowed \<leftarrow> isz_allowlist_check proc w pid;
         (if \<not> allowed then Some (k_close w fd)
          else
            let (w, getfl) = k_ctl w;
                (w, setfl) = (if getfl then k_ctl w else (w, False))
            in if \<not> getfl \<or> \<not> setfl then Some (k_close w fd)
               else case isz_conn_create w fd of
                      (w, None) \<Rightarrow> Some w
                    | (w, Some conn) \<Rightarrow> do {
                        (w, conn, rc) \<leftarrow> isz_handshake_server_side w (conn\<lparr>c_allowlisted := True\<rparr>);
                        (if rc \<noteq> ISZ_OK then Some (isz_conn_close w conn) else accept_register w conn pid)
                      })
       })"

fun accept_loop :: "(int \<Rightarrow> proc_info) \<Rightarrow> accept_result list \<Rightarrow> world \<Rightarrow> world option" where
  "accept_loop proc [] w = Some w"
| "accept_loop proc (AcceptErr # rs) w = Some (w\<lparr>k_accepts := rs\<rparr>)"
| "accept_loop proc (AcceptIntr # rs) w = accept_loop proc rs w"
| "accept_loop proc (AcceptFd fd cred # rs) w = do { w \<leftarrow> accept_one proc w fd cred; accept_loop proc rs w }"

definition isz_accept_connection :: "(int \<Rightarrow> proc_info) \<Rightarrow> world \<Rightarrow> world option" where
  "isz_accept_connection proc w =
     (if w_listen_fd w < 0 then Some w else accept_loop proc (k_accepts w) (w\<lparr>k_accepts := []\<rparr>))"

text \<open>The receive loop, with the script \<open>rs\<close> of the socket. That it returns is proved below.\<close>

partial_function (option) recv_messages_loop :: "recv_result list \<Rightarrow> world \<Rightarrow> nat \<Rightarrow> world option" where
  "recv_messages_loop rs w cl = do {
     c \<leftarrow> w_clients w cl;
     cr \<leftarrow> cl_conn c;
     conn \<leftarrow> w_conns w cr;
     (w, conn, out) \<leftarrow> isz_conn_recv (w\<lparr>k_recvs := rs\<rparr>) conn ISZ_PROTO_MAX_MESSAGE;
     let rs = k_recvs w;
     let w = upd_conn (w\<lparr>k_recvs := []\<rparr>) cr conn;
     (case out of
        RecvWait \<Rightarrow> Some (w\<lparr>k_recvs := rs\<rparr>)
      | RecvFail \<Rightarrow> isz_client_cleanup (w\<lparr>k_recvs := rs\<rparr>) (Some cl)
      | RecvMsg buf msg_id payload_len fds \<Rightarrow> do {
          (w, fds, rc) \<leftarrow> isz_handle_client_message w (Some cr) msg_id (take payload_len (drop ISZ_MSG_HEADER_SIZE buf)) fds;
          let w = k_close_all w (filter (\<lambda>d. d \<ge> 0) fds);
          (if rc \<noteq> ISZ_OK then isz_client_cleanup (w\<lparr>k_recvs := rs\<rparr>) (Some cl)
           else recv_messages_loop rs w cl)
        })
   }"

definition isz_recv_client_messages :: "world \<Rightarrow> nat option \<Rightarrow> world option" where
  "isz_recv_client_messages w client = (case client of
       None \<Rightarrow> Some w
     | Some cl \<Rightarrow> do {
         c \<leftarrow> w_clients w cl;
         (if cl_conn c = None then Some w
          else recv_messages_loop (k_recvs w) (w\<lparr>k_recvs := []\<rparr>) cl)
       })"

section \<open>Invariant\<close>

text \<open>The client list names the allocated clients; each has a connection of its own that finished the handshake.\<close>

definition client_ok :: "world \<Rightarrow> isz_client \<Rightarrow> bool" where
  "client_ok w c \<longleftrightarrow> cl_buffer_cache c = isz_buffer_cache_init
     \<and> (\<exists>cr k. cl_conn c = Some cr \<and> w_conns w cr = Some k \<and> c_handshake_done k)"

definition clients_ok :: "world \<Rightarrow> bool" where
  "clients_ok w \<longleftrightarrow> distinct (w_client_list w) \<and> set (w_client_list w) = dom (w_clients w)
     \<and> (\<forall>cl c. w_clients w cl = Some c \<longrightarrow> cl < w_next_client w \<and> client_ok w c)
     \<and> (\<forall>cl cl' c c'. w_clients w cl = Some c \<and> w_clients w cl' = Some c' \<and> cl_conn c = cl_conn c' \<longrightarrow> cl = cl')
     \<and> (\<forall>cr. w_conns w cr \<noteq> None \<longrightarrow> cr < w_next_conn w)"

definition server_ok :: "world \<Rightarrow> bool" where
  "server_ok w \<longleftrightarrow> world_ok w \<and> clients_ok w"

lemma clients_ok_view:
  assumes "clients_ok w" "server_view w' = server_view w"
  shows "clients_ok w'"
proof -
  have f: "w_clients w' = w_clients w" "w_client_list w' = w_client_list w" "w_next_client w' = w_next_client w"
    "w_next_conn w' = w_next_conn w" using assms(2) by (simp_all add: server_view_def)
  have mono: "client_ok w' c" if "client_ok w c" for c
  proof -
    from that obtain cr k where k: "cl_conn c = Some cr" "w_conns w cr = Some k" "c_handshake_done k"
      "cl_buffer_cache c = isz_buffer_cache_init" by (auto simp: client_ok_def)
    with server_view_conn [OF assms(2), of cr] obtain k' where "w_conns w' cr = Some k'" "conn_view k' = conn_view k" by auto
    with k show ?thesis by (auto simp: client_ok_def conn_view_def)
  qed
  have live: "w_conns w' cr = None \<longleftrightarrow> w_conns w cr = None" for cr
    using server_view_conn [OF assms(2), of cr] by (cases "w_conns w' cr"; cases "w_conns w cr") simp_all
  from assms(1) show ?thesis
    unfolding clients_ok_def f live by (elim conjE) (intro conjI, assumption, assumption, use mono in blast, assumption, assumption)
qed

lemma server_ok_step: "server_ok w \<Longrightarrow> step_ok w w' \<Longrightarrow> server_ok w'"
  using clients_ok_view by (auto simp: server_ok_def step_ok_def)

section \<open>What the handshake leaves alone\<close>

definition hs_frame :: "'z kern_scheme \<Rightarrow> conn \<Rightarrow> 'z kern_scheme \<Rightarrow> conn \<Rightarrow> bool" where
  "hs_frame k c k' c' \<longleftrightarrow> kern.more k' = kern.more k \<and> prefix (k_closed k) (k_closed k')
     \<and> c_fd c' = c_fd c \<and> c_objects c' = c_objects c"

named_theorems hs_frames \<open>calls that keep everything but the kernel and the connection's own state\<close>

lemma hs_frame_refl: "hs_frame k c k c"
  by (simp add: hs_frame_def)

lemma hs_frame_trans: "hs_frame k c k1 c1 \<Longrightarrow> hs_frame k1 c1 k2 c2 \<Longrightarrow> hs_frame k c k2 c2"
  by (auto simp: hs_frame_def)

lemma isz_send_all_frame: "isz_send_all k d buf = (k', ok) \<Longrightarrow> kern.more k' = kern.more k \<and> k_closed k' = k_closed k \<and> k_recvs k' = k_recvs k"
proof (induction k d buf rule: isz_send_all.induct)
  case (1 k d buf)
  obtain k1 r where s: "k_send k d buf [] = (k1, r)" by fastforce
  have "k_recvs k1 = k_recvs k" using s by (auto simp: k_send_def Let_def split: list.splits io_result.splits)
  with k_send_more [of k d buf "[]"] k_send_spec [OF s] s
  have f: "kern.more k1 = kern.more k" "k_closed k1 = k_closed k" "k_recvs k1 = k_recvs k" by simp_all
  show ?case
  proof (cases "buf = [] \<or> k_sends k = []")
    case True
    with "1.prems" f s show ?thesis by (auto simp: isz_send_all.simps [of k] split: if_splits)
  next
    case False
    then show ?thesis
      using "1.prems" f s "1.IH"(1) [of k1] "1.IH"(2) [of k1]
      by (cases r) (auto simp: isz_send_all.simps [of k] split: if_splits)
  qed
qed

lemma isz_recv_all_frame: "isz_recv_all k n got = (k', r) \<Longrightarrow> kern.more k' = kern.more k \<and> k_closed k' = k_closed k"
proof (induction k n got rule: isz_recv_all.induct)
  case (1 k n got)
  obtain k1 x where s: "k_recv k (n - length got) = (k1, x)" by fastforce
  have f: "kern.more k1 = kern.more k" "k_closed k1 = k_closed k"
    using s by (auto simp: k_recv_def split: list.splits recv_result.splits if_splits)
  show ?case
  proof (cases "n \<le> length got \<or> k_recvs k = []")
    case True
    with "1.prems" show ?thesis by (auto simp: isz_recv_all.simps [of k] split: if_splits)
  next
    case False
    then show ?thesis
      using "1.prems" f s "1.IH"(1) [of k1] "1.IH"(2) [of k1]
      by (cases x) (auto simp: isz_recv_all.simps [of k] split: if_splits)
  qed
qed

lemma send_frame_closed: "isz_proto_send_frame k d b n fds m = (k', r) \<Longrightarrow> k_closed k' = k_closed k"
  using k_send_spec [of k d "take n b"]
  by (fastforce simp: isz_proto_send_frame_def Let_def split: if_splits prod.splits io_result.splits)

lemma conn_send_hs [hs_frames]:
  assumes "isz_conn_send k c m p n None 0 = Some (k', c', r)"
  shows "hs_frame k c k' c'"
proof -
  have enq: "k_closed k2 = k_closed k1 \<and> c_fd c2 = c_fd c \<and> c_objects c2 = c_objects c"
    if "conn_enqueue k1 c b l None 0 = Some (k2, c2, r2)" for k1 b l k2 c2 r2
    using that k_alloc_log [of k1]
    by (fastforce simp: conn_enqueue_def isz_msg_node_alloc_def bind_eq_Some_conv split: if_splits option.splits prod.splits bool.splits)
  have "k_closed k' = k_closed k \<and> c_fd c' = c_fd c \<and> c_objects c' = c_objects c"
  proof (cases "c_dead c")
    case True
    with assms show ?thesis by (simp add: isz_conn_send_def)
  next
    case False
    with assms obtain e where e: "isz_proto_encode (replicate ISZ_PROTO_MAX_MESSAGE 0) ISZ_PROTO_MAX_MESSAGE m p n = Some e"
      by (auto simp: isz_conn_send_def bind_eq_Some_conv)
    show ?thesis
    proof (cases e)
      case (Inl x)
      with assms False e show ?thesis by (simp add: isz_conn_send_def)
    next
      case (Inr x)
      obtain b l where x: "x = (b, l)" by fastforce
      obtain k1 so where so: "isz_proto_send_frame k (c_fd c) b l None 0 = (k1, so)" by fastforce
      have "conn_enqueue k c b l None 0 = Some (k', c', r) \<or> conn_enqueue k1 c b l None 0 = Some (k', c', r)
          \<or> k' = k1 \<and> (c' = c \<or> c' = c\<lparr>c_dead := True\<rparr>)"
        using assms False e Inr x so by (cases so) (simp_all add: isz_conn_send_def split: if_splits)
      with send_frame_closed [OF so] show ?thesis by (auto dest!: enq)
    qed
  qed
  with isz_conn_send_more [OF assms] show ?thesis by (simp add: hs_frame_def)
qed

lemma conn_drain_loop_hs: "conn_drain_loop k c q = (k', c', r) \<Longrightarrow> hs_frame k c k' c'"
proof (induction k c q rule: conn_drain_loop.induct)
  case (2 k c node q)
  obtain k1 s where f: "isz_proto_send_frame k (c_fd c) (mn_buf node) (length (mn_buf node)) (Some (mn_fds node)) (length (mn_fds node)) = (k1, s)"
    by fastforce
  have k1: "kern.more k1 = kern.more k" "k_closed k1 = k_closed k"
    using isz_proto_send_frame_more [of k "c_fd c" "mn_buf node" "length (mn_buf node)" "Some (mn_fds node)" "length (mn_fds node)"] f
      send_frame_closed [OF f] by simp_all
  show ?case
    using "2.prems" "2.IH" [of k1] f k1
    by (cases s) (auto simp: hs_frame_def isz_msg_node_free_def prefix_def)
qed (auto simp: hs_frame_def)

lemma handshake_send_hs [hs_frames]:
  assumes "isz_handshake_send k c m p n = Some (k', c', ok)"
  shows "hs_frame k c k' c'"
proof -
  from assms obtain k1 c1 r where s: "isz_conn_send k c m p n None 0 = Some (k1, c1, r)"
    and "(k', c') = (k1, c1) \<or> (\<exists>r'. isz_conn_drain k1 c1 = (k', c', r'))"
    by (auto simp: isz_handshake_send_def bind_eq_Some_conv split: if_splits prod.splits)
  moreover have "hs_frame k1 c1 k' c'" if "isz_conn_drain k1 c1 = (k', c', r')" for r'
    using that conn_drain_loop_hs [of k1 c1] by (auto simp: isz_conn_drain_def hs_frame_refl split: if_splits)
  ultimately show ?thesis using conn_send_hs [OF s] hs_frame_trans by blast
qed

lemma handshake_hs:
  assumes "isz_handshake_server_side k c = Some (k', c', r)"
  shows "hs_frame k c k' c'"
proof -
  have upd: "hs_frame k c k1 (c1\<lparr>c_dead := b\<rparr>) = hs_frame k c k1 c1" "hs_frame k (c\<lparr>c_version := v\<rparr>) k1 c1 = hs_frame k c k1 c1"
    "hs_frame k c k1 (c1\<lparr>c_handshake_done := b\<rparr>) = hs_frame k c k1 c1" for k :: "'a kern_scheme" and c k1 c1 b v
    by (simp_all add: hs_frame_def)
  have glob: "hs_frame k c k1 c1" if "isz_handshake_send_global_output k c x = Some (k1, c1, ok)" for k :: "'a kern_scheme" and c k1 c1 x ok
    using that by (auto simp: isz_handshake_send_global_output_def bind_eq_Some_conv dest: handshake_send_hs)
  have outs: "hs_frame k c k1 c1" if "handshake_outputs_loop k c xs = Some (k1, c1, ok)" for k :: "'a kern_scheme" and c k1 c1 xs ok
    using that
    by (induction xs arbitrary: k c) (auto simp: bind_eq_Some_conv hs_frame_refl split: if_splits dest!: glob intro: hs_frame_trans)
  have seat: "hs_frame k c k1 c1" if "isz_handshake_send_global_seat k c x = Some (k1, c1, ok)" for k :: "'a kern_scheme" and c k1 c1 x ok
    using that by (auto simp: isz_handshake_send_global_seat_def bind_eq_Some_conv dest: handshake_send_hs)
  have cap: "hs_frame k c k1 c1" if "handshake_capabilities k c = Some (k1, c1, ok)" for k :: "'a kern_scheme" and c k1 c1 ok
    using that by (auto simp: handshake_capabilities_def bind_eq_Some_conv dest: handshake_send_hs)
  have ann: "hs_frame k c k1 c1" if "handshake_announce k c = Some (k1, c1, x)" for k :: "'a kern_scheme" and c k1 c1 x
    using that
    by (auto simp: handshake_announce_def bind_eq_Some_conv handshake_fail_def upd hs_frame_refl split: if_splits option.splits
        dest!: outs seat cap handshake_send_hs) (blast intro: hs_frame_trans)+
  have magic: "hs_frame k c k1 c" if "isz_proto_send_magic k d v = Some (k1, ok)" for k1 d v ok
    using that isz_send_all_frame [of k d _ k1 ok]
    by (auto simp: isz_proto_send_magic_def bind_eq_Some_conv hs_frame_def)
  have ver: "hs_frame k1 c k2 c" if "isz_proto_recv_version_reply k1 = Some (k2, v)" for k1 k2 :: "'a kern_scheme" and v
    using that isz_recv_all_frame [of k1 4 "[]" k2]
    by (auto simp: isz_proto_recv_version_reply_def bind_eq_Some_conv hs_frame_def split: prod.splits option.splits)
  show ?thesis
  proof (cases "c_handshake_done c")
    case True
    with assms show ?thesis by (simp add: isz_handshake_server_side_def hs_frame_refl)
  next
    case False
    with assms obtain k1 ok where k1: "isz_proto_send_magic k (c_fd c) ISZ_PROTOCOL_VERSION = Some (k1, ok)"
      by (auto simp: isz_handshake_server_side_def bind_eq_Some_conv)
    show ?thesis
    proof (cases ok)
      case f: False
      with assms False k1 magic [OF k1] show ?thesis by (simp add: isz_handshake_server_side_def handshake_fail_def) (metis upd(1))
    next
      case True
      with assms False k1 obtain k2 v where k2: "isz_proto_recv_version_reply k1 = Some (k2, v)"
        by (auto simp: isz_handshake_server_side_def bind_eq_Some_conv)
      have "hs_frame k c k2 c" by (rule hs_frame_trans [OF magic [OF k1] ver [OF k2]])
      moreover have "handshake_fail k2 c = Some (k', c', r) \<or> (\<exists>v. handshake_announce k2 (c\<lparr>c_version := v\<rparr>) = Some (k', c', r))"
        using assms False True k1 k2 by (auto simp: isz_handshake_server_side_def split: option.splits if_splits)
      ultimately show ?thesis using ann upd hs_frame_trans by (fastforce simp: handshake_fail_def)
    qed
  qed
qed

section \<open>Cleanup of a client\<close>

lemma isz_conn_close_facts:
  "kern.more (isz_conn_close k c) = kern.more k" "prefix (k_closed k) (k_closed (isz_conn_close k c))"
  "c_fd c \<ge> 0 \<Longrightarrow> c_fd c \<in> set (k_closed (isz_conn_close k c))"
  by (simp_all add: isz_conn_close_def Let_def isz_msg_node_free_fold isz_proto_recv_state_discard_def)

lemma cache_destroy_init: "isz_buffer_cache_destroy w isz_buffer_cache_init = Some (w, isz_buffer_cache_init)"
proof -
  have "cache_unref_all w (replicate n \<lparr>ce_fd = -1, ce_buf = None\<rparr>) = Some w" for n
    by (induction n) (simp_all add: isz_buffer_unref_def)
  then show ?thesis by (simp add: isz_buffer_cache_destroy_def isz_buffer_cache_init_def)
qed

lemma kern_more_ctl: "kern.more (fst (k_ctl k)) = kern.more k" "k_closed (fst (k_ctl k)) = k_closed k"
  by (simp_all add: k_ctl_def split: list.splits)

text \<open>The state without client \<open>cl\<close> and its connection \<open>cr\<close>.\<close>

definition dropped :: "world \<Rightarrow> nat \<Rightarrow> nat \<Rightarrow> world" where
  "dropped w cl cr = isz_server_emit_event (w\<lparr>w_client_list := remove1 cl (w_client_list w), w_conns := (w_conns w)(cr := None),
     w_clients := (w_clients w)(cl := None)\<rparr>) ISZ_EVENT_CLIENT_DISCONNECT"

lemma isz_client_cleanup_spec:
  assumes "clients_ok w" "w_clients w cl = Some c" "cl_conn c = Some cr" "w_conns w cr = Some k"
  shows "\<exists>w'. isz_client_cleanup w (Some cl) = Some w' \<and> kern.more w' = kern.more (dropped w cl cr)
    \<and> prefix (k_closed w) (k_closed w') \<and> (c_fd k \<ge> 0 \<longrightarrow> c_fd k \<in> set (k_closed w'))"
proof -
  define w1 where "w1 = (if c_fd k \<ge> 0 then fst (k_ctl w) else w)"
  define w3 where "w3 = isz_conn_close (w1\<lparr>w_client_list := remove1 cl (w_client_list w1)\<rparr>) k"
  define w4 where "w4 = isz_server_emit_event (w3\<lparr>w_conns := (w_conns w3)(cr := None)\<rparr>) ISZ_EVENT_CLIENT_DISCONNECT"
  define w' where "w' = w4\<lparr>w_clients := (w_clients w4)(cl := None)\<rparr>"
  have m1: "kern.more w1 = kern.more w" "k_closed w1 = k_closed w" by (simp_all add: w1_def kern_more_ctl)
  note f1 = kern_more_world [OF m1(1)]
  have m3: "kern.more w3 = kern.more (w1\<lparr>w_client_list := remove1 cl (w_client_list w1)\<rparr>)"
    unfolding w3_def by (rule isz_conn_close_facts)
  have cl3: "prefix (k_closed w) (k_closed w3)" "c_fd k \<ge> 0 \<Longrightarrow> c_fd k \<in> set (k_closed w3)"
    using isz_conn_close_facts(2,3) [where k = "w1\<lparr>w_client_list := remove1 cl (w_client_list w1)\<rparr>" and c = k] m1(2)
    by (simp_all add: w3_def)
  have c: "w_conns w1 cr = Some k" "cl_buffer_cache c = isz_buffer_cache_init"
    using assms by (auto simp: f1 clients_ok_def client_ok_def)
  have "isz_client_cleanup w (Some cl) = Some w'"
    using assms(2-4) c by (simp add: isz_client_cleanup_def cache_destroy_init Let_def flip: w1_def) (simp add: w'_def w4_def w3_def)
  moreover have "kern.more w' = kern.more (dropped w cl cr)"
    using m1(1) m3 by (cases w1; cases w; cases w3) (simp add: w'_def w4_def dropped_def isz_server_emit_event_def)
  moreover have "k_closed w' = k_closed w3" by (simp add: w'_def w4_def isz_server_emit_event_def)
  ultimately show ?thesis using cl3 by auto
qed

lemma world_ok_more: "world_ok w \<Longrightarrow> kern.more w' = kern.more w \<Longrightarrow> world_ok w'"
  using step_ok_more step_okD by blast

lemma clients_ok_more: "clients_ok w \<Longrightarrow> kern.more w' = kern.more w \<Longrightarrow> clients_ok w'"
  using kern_more_world [of w' w] by (simp add: clients_ok_def client_ok_def)

lemma clients_ok_dropped:
  assumes "clients_ok w" "w_clients w cl = Some c" "cl_conn c = Some cr"
  shows "clients_ok (dropped w cl cr)"
proof -
  have f: "w_clients (dropped w cl cr) = (w_clients w)(cl := None)" "w_client_list (dropped w cl cr) = remove1 cl (w_client_list w)"
    "w_conns (dropped w cl cr) = (w_conns w)(cr := None)" "w_next_client (dropped w cl cr) = w_next_client w"
    "w_next_conn (dropped w cl cr) = w_next_conn w"
    by (simp_all add: dropped_def isz_server_emit_event_def)
  have "client_ok (dropped w cl cr) d" if "w_clients w cl' = Some d" "cl' \<noteq> cl" for cl' d
  proof -
    from that(1) assms(1) have "client_ok w d" by (simp add: clients_ok_def)
    moreover from assms that have "cl_conn d \<noteq> Some cr" unfolding clients_ok_def by metis
    ultimately show ?thesis by (auto simp: client_ok_def f)
  qed
  with assms(1) show ?thesis unfolding clients_ok_def f by (auto split: if_splits)
qed

text \<open>The cleanup keeps the invariant when the client owns no surface.\<close>

lemma world_ok_dropped:
  assumes "world_ok w" "\<And>r s. w_surfaces w r = Some s \<Longrightarrow> sf_owning_conn s \<noteq> Some cr"
  shows "world_ok (dropped w cl cr)"
proof -
  note ok = world_okD [OF assms(1)] and rok = render_okD [OF world_okD(1) [OF assms(1)]]
  have f: "w_surfaces (dropped w cl cr) = w_surfaces w" "w_conns (dropped w cl cr) = (w_conns w)(cr := None)"
    "w_outputs (dropped w cl cr) = w_outputs w" "w_resv (dropped w cl cr) = w_resv w" "bs_bufs (dropped w cl cr) = bs_bufs w"
    "bs_next_buf (dropped w cl cr) = bs_next_buf w" "w_surface_list (dropped w cl cr) = w_surface_list w"
    "w_next_surface (dropped w cl cr) = w_next_surface w" "w_state (dropped w cl cr) = w_state w"
    by (simp_all add: dropped_def isz_server_emit_event_def)
  have "surf_ok (dropped w cl cr) s" if "w_surfaces w r = Some s" for r s
    using surfaces_okD(1) [OF rok(1) that] assms(2) [OF that] by (auto simp: surf_ok_def f)
  then have "surfaces_ok (dropped w cl cr)" using rok(1) by (simp add: surfaces_ok_def f)
  moreover have "idle_ok (w_surfaces w) (w_outputs w) (w_events (dropped w cl cr))"
    using rok(3) by (simp add: dropped_def isz_server_emit_event_def idle_ok_event)
  ultimately have "render_ok (dropped w cl cr)" using rok by (simp add: render_ok_def f)
  moreover have "outputs_ok (dropped w cl cr)" "side_ok (dropped w cl cr)"
    using ok(2,9) by (simp_all add: dropped_def isz_server_emit_event_def outputs_ok_def side_ok_def seats_ok_def seat_ok_def)
  moreover have "conns_ok (dropped w cl cr)" using ok(8) by (simp add: conns_ok_def f)
  ultimately show ?thesis by (simp add: world_ok_def)
qed

section \<open>Receiving\<close>

text \<open>The messages in a byte stream, up to the first incomplete or malformed frame.\<close>

function stream_msgs :: "u8 list \<Rightarrow> (u32 \<times> u8 list) list" where
  "stream_msgs bs = (case isz_proto_decode bs (length bs) of
       Some (Decoded t m p) \<Rightarrow> (m, p) # stream_msgs (drop t bs)
     | _ \<Rightarrow> [])"
  by pat_completeness auto

termination
  by (relation "measure length") (auto dest!: isz_proto_decode_Decoded [OF order_refl])

declare stream_msgs.simps [simp del]

lemma stream_msgs_frame: "length p \<le> 8184 \<Longrightarrow> stream_msgs (frame m p @ bs) = (m, p) # stream_msgs bs"
  by (simp add: stream_msgs.simps [of "frame m p @ bs"] isz_proto_decode_frame)

lemma k_recv_facts:
  assumes "k_recv k cap = (k', r)" "0 < cap"
  shows "kern.more k' = kern.more k" "k_closed k' = k_closed k"
    "recv_size k' + (case r of RecvErr e \<Rightarrow> 0 | RecvData bs cs tr \<Rightarrow> length bs) \<le> recv_size k"
    "recv_stream k = (case r of RecvErr e \<Rightarrow> [] | RecvData bs cs tr \<Rightarrow> bs) @ recv_stream k'"
  using assms by (auto simp: k_recv_def recv_size_def recv_stream_def split: list.splits recv_result.splits if_splits)

lemma extract_facts:
  assumes "isz_extract_fds k cs cap = (k', r)"
  shows "kern.more k' = kern.more k" "recv_size k' = recv_size k" "recv_stream k' = recv_stream k" "prefix (k_closed k) (k_closed k')"
  using assms by (auto simp: isz_extract_fds_eq recv_size_def recv_stream_def k_close_all_def split: if_splits)

text \<open>One call of the receiver: a message it returns is the next frame of the stream, and there is less to receive
  afterwards.\<close>

definition recv_left :: "'z kern_scheme \<Rightarrow> recv_state \<Rightarrow> nat" where
  "recv_left k st = recv_size k + length (rs_bytes st)"

definition recv_inv :: "'z kern_scheme \<Rightarrow> recv_state \<Rightarrow> 'z kern_scheme \<Rightarrow> recv_state \<Rightarrow> bool" where
  "recv_inv k st k' st' \<longleftrightarrow> kern.more k' = kern.more k \<and> prefix (k_closed k) (k_closed k')
     \<and> recv_left k' st' \<le> recv_left k st \<and> recv_state_ok st'
     \<and> rs_bytes st' @ recv_stream k' = rs_bytes st @ recv_stream k"

definition recv_post :: "'z kern_scheme \<Rightarrow> recv_state \<Rightarrow> 'z kern_scheme \<Rightarrow> recv_state \<Rightarrow> recv_out \<Rightarrow> bool" where
  "recv_post k st k' st' out \<longleftrightarrow> kern.more k' = kern.more k \<and> prefix (k_closed k) (k_closed k') \<and> recv_state_ok st'
     \<and> (\<forall>frm m n fds. out = RecvMsg frm m n fds \<longrightarrow> recv_left k' st' < recv_left k st
          \<and> (\<exists>p. length p \<le> 8184 \<and> n = length p \<and> frm = frame m p
                \<and> rs_bytes st @ recv_stream k = frame m p @ rs_bytes st' @ recv_stream k'))"

lemma recv_parse_msg:
  assumes "recv_state_parse st = Some (ParseMsg st' frm m n fds)" "recv_state_ok st"
  shows "recv_state_ok st' \<and> (\<exists>p. length p \<le> 8184 \<and> n = length p \<and> frm = frame m p \<and> rs_bytes st = frame m p @ rs_bytes st')"
proof -
  from assms(1) obtain t p where d: "isz_proto_decode (rs_bytes st) (length (rs_bytes st)) = Some (Decoded t m p)"
    "frm = take t (rs_bytes st)" "n = length p" "rs_bytes st' = drop t (rs_bytes st)"
    by (auto simp: recv_state_parse_decode split: option.splits decoded.splits)
  note f = isz_proto_decode_Decoded [OF order_refl d(1)]
  have "rs_bytes st = frame m p @ rs_bytes st'" using f d(4) by (metis append_take_drop_id)
  moreover have "frm = frame m p" unfolding d(2) using f by blast
  moreover have "length p \<le> 8184" using f by simp
  ultimately show ?thesis using recv_state_parse_ok [OF assms] d(3) by blast
qed

lemma recv_loop_post:
  assumes "recv_state_ok st"
  shows "\<exists>k' st' out. recv_state_loop k st = Some (k', st', out) \<and> recv_post k st k' st' out"
proof (rule recv_state_loop_rule [where P = "recv_inv k st"], goal_cases)
  case 1
  with assms show ?case by (simp add: recv_inv_def)
next
  case (3 k1 st1 st' frm m n fds)
  then have "recv_state_ok st1" by (simp add: recv_inv_def)
  from recv_parse_msg [OF 3(2) this] 3(1) show ?case by (auto simp: recv_inv_def recv_post_def recv_left_def)
next
  case (6 k1 st1 k' e)
  from k_recv_facts [OF 6(5)] 6(1,3) show ?case by (auto simp: recv_inv_def recv_post_def recv_left_def)
next
  case (7 k1 st1 k' bs cs tr)
  obtain k'' d where x: "isz_extract_fds k' cs (8 - length (rs_pending_fds st1)) = (k'', d)" by fastforce
  note f = k_recv_facts [OF 7(5)] and g = extract_facts [OF x]
  have len: "length bs \<le> 8192 - length (rs_bytes st1)" by (rule k_recv_len [OF 7(5)])
  have ds: "length ds \<le> 8 - length (rs_pending_fds st1)" if "d = Some ds" for ds
    using x that by (simp add: isz_extract_fds_len)
  show ?case
    using 7(1,3) f g len ds
    by (auto simp: x Let_def recv_inv_def recv_post_def recv_left_def recv_state_ok_def split: option.splits)
qed (auto simp: recv_inv_def recv_post_def)

text \<open>No message of the stream destroys a surface or a buffer.\<close>

definition stream_clean :: "u8 list \<Rightarrow> bool" where
  "stream_clean bs \<longleftrightarrow> list_all (\<lambda>(m, p). m \<noteq> ISZ_MSG_SURFACE_DESTROY \<and> m \<noteq> ISZ_MSG_BUFFER_DESTROY) (stream_msgs bs)"

definition connected :: "world \<Rightarrow> nat \<Rightarrow> nat \<Rightarrow> conn \<Rightarrow> bool" where
  "connected w cl cr k \<longleftrightarrow> (\<exists>c. w_clients w cl = Some c \<and> cl_conn c = Some cr) \<and> w_conns w cr = Some k"

lemma server_ok_more: "server_ok w \<Longrightarrow> kern.more w' = kern.more w \<Longrightarrow> server_ok w'"
  using world_ok_more clients_ok_more by (auto simp: server_ok_def)

lemma connected_more: "connected w cl cr k \<Longrightarrow> kern.more w' = kern.more w \<Longrightarrow> connected w' cl cr k"
  using kern_more_world [of w' w] by (auto simp: connected_def)

lemma connected_done: "server_ok w \<Longrightarrow> connected w cl cr k \<Longrightarrow> c_handshake_done k \<and> conn_ok k \<and> objs_ok (w_surfaces w) cr (c_objects k)"
  using world_okD(8) [of w] by (fastforce simp: server_ok_def connected_def clients_ok_def client_ok_def conns_ok_def)

lemma server_ok_received:
  assumes "server_ok w" "connected w cl cr k" "recv_state_ok st"
  shows "server_ok (upd_conn w cr (k\<lparr>c_recv_state := st\<rparr>))" "connected (upd_conn w cr (k\<lparr>c_recv_state := st\<rparr>)) cl cr (k\<lparr>c_recv_state := st\<rparr>)"
proof -
  note d = connected_done [OF assms(1,2)]
  have "world_ok (upd_conn w cr (k\<lparr>c_recv_state := st\<rparr>))"
    using assms d by (intro world_ok_upd_conn) (simp_all add: server_ok_def conn_ok_def)
  moreover have "clients_ok (upd_conn w cr (k\<lparr>c_recv_state := st\<rparr>))"
  proof -
    have "client_ok (upd_conn w cr (k\<lparr>c_recv_state := st\<rparr>)) c" if "client_ok w c" for c
      using that assms(2) by (auto simp: client_ok_def upd_conn_def connected_def)
    moreover have "w_conns (upd_conn w cr (k\<lparr>c_recv_state := st\<rparr>)) x = None \<longleftrightarrow> w_conns w x = None" for x
      using assms(2) by (auto simp: upd_conn_def connected_def)
    ultimately show ?thesis
      using assms(1) by (simp add: server_ok_def clients_ok_def) (simp add: upd_conn_def)
  qed
  ultimately show "server_ok (upd_conn w cr (k\<lparr>c_recv_state := st\<rparr>))" by (simp add: server_ok_def)
  show "connected (upd_conn w cr (k\<lparr>c_recv_state := st\<rparr>)) cl cr (k\<lparr>c_recv_state := st\<rparr>)"
    using assms(2) by (simp add: connected_def upd_conn_def)
qed

lemma recv_messages_total:
  assumes "server_ok w" "connected w cl cr k" "stream_clean (rs_bytes (c_recv_state k) @ recv_stream (w\<lparr>k_recvs := rs\<rparr>))"
  shows "\<exists>w'. recv_messages_loop rs w cl = Some w'
    \<and> (server_ok w' \<and> (\<exists>k'. connected w' cl cr k')
       \<or> (\<exists>v k'. server_ok v \<and> connected v cl cr k' \<and> c_fd k' = c_fd k \<and> isz_client_cleanup v (Some cl) = Some w'))"
  using assms
proof (induction "recv_left (w\<lparr>k_recvs := rs\<rparr>) (c_recv_state k)" arbitrary: rs w k rule: less_induct)
  case less
  note dn = connected_done [OF less.prems(1,2)]
  let ?w0 = "w\<lparr>k_recvs := rs\<rparr>" and ?st = "c_recv_state k"
  have "recv_state_ok ?st" using dn by (simp add: conn_ok_def)
  from recv_loop_post [OF this, of ?w0] obtain w1 st' out where
    r: "recv_state_loop ?w0 ?st = Some (w1, st', out)" "recv_post ?w0 ?st w1 st' out" by blast
  let ?k = "k\<lparr>c_recv_state := st'\<rparr>" and ?rs = "k_recvs w1"
  define w2 where "w2 = upd_conn (w1\<lparr>k_recvs := []\<rparr>) cr ?k"
  have recv: "isz_conn_recv ?w0 k ISZ_PROTO_MAX_MESSAGE = Some (w1, ?k, out)"
    using r(1) by (simp add: isz_conn_recv_def isz_proto_recv_state_read_def)
  have m: "kern.more (w1\<lparr>k_recvs := []\<rparr>) = kern.more w" using r(2) by (simp add: recv_post_def)
  have ok2: "server_ok w2" "connected w2 cl cr ?k"
    using server_ok_received [OF server_ok_more [OF less.prems(1) m] connected_more [OF less.prems(2) m], of st'] r(2)
    by (simp_all add: w2_def recv_post_def)
  have ok3: "server_ok (w2\<lparr>k_recvs := ?rs\<rparr>)" "connected (w2\<lparr>k_recvs := ?rs\<rparr>) cl cr ?k"
    by (rule server_ok_more [OF ok2(1)] connected_more [OF ok2(2)], simp)+
  from ok3(2) obtain c where c: "w_clients (w2\<lparr>k_recvs := ?rs\<rparr>) cl = Some c" "cl_conn c = Some cr" "w_conns (w2\<lparr>k_recvs := ?rs\<rparr>) cr = Some ?k"
    by (auto simp: connected_def)
  have unfold: "recv_messages_loop rs w cl = (case out of
        RecvWait \<Rightarrow> Some (w2\<lparr>k_recvs := ?rs\<rparr>)
      | RecvFail \<Rightarrow> isz_client_cleanup (w2\<lparr>k_recvs := ?rs\<rparr>) (Some cl)
      | RecvMsg buf msg_id payload_len fds \<Rightarrow> do {
          (w, fds, rc) \<leftarrow> isz_handle_client_message w2 (Some cr) msg_id (take payload_len (drop ISZ_MSG_HEADER_SIZE buf)) fds;
          let w = k_close_all w (filter (\<lambda>d. d \<ge> 0) fds);
          (if rc \<noteq> ISZ_OK then isz_client_cleanup (w\<lparr>k_recvs := ?rs\<rparr>) (Some cl)
           else recv_messages_loop ?rs w cl)
        })"
    using less.prems(2) recv unfolding w2_def by (subst recv_messages_loop.simps) (cases out, auto simp: connected_def Let_def)
  show ?case
  proof (cases out)
    case RecvWait
    with ok3 show ?thesis unfolding unfold by auto
  next
    case RecvFail
    from isz_client_cleanup_spec [OF _ c] ok3(1) obtain w' where
      "isz_client_cleanup (w2\<lparr>k_recvs := ?rs\<rparr>) (Some cl) = Some w'" by (auto simp: server_ok_def)
    moreover have "c_fd ?k = c_fd k" by simp
    ultimately show ?thesis using RecvFail ok3 unfolding unfold by (simp only: recv_out.case) blast
  next
    case (RecvMsg frm msg n fds)
    with r(2) obtain p where p: "length p \<le> 8184" "n = length p" "frm = frame msg p"
      "rs_bytes ?st @ recv_stream ?w0 = frame msg p @ rs_bytes st' @ recv_stream w1"
      "recv_left w1 st' < recv_left ?w0 ?st" by (auto simp: recv_post_def)
    from less.prems(3) p(1,4) have cl: "msg \<noteq> ISZ_MSG_SURFACE_DESTROY" "msg \<noteq> ISZ_MSG_BUFFER_DESTROY"
      "stream_clean (rs_bytes st' @ recv_stream w1)" by (simp_all add: stream_clean_def stream_msgs_frame)
    have "msg_legal w2 cr msg p" using cl by (simp add: msg_legal_def)
    from handle_client_message_outcome [OF _ _ this, of ?k fds] ok2 dn obtain w3 fds3 where
      h: "isz_handle_client_message w2 (Some cr) msg p fds = Some (w3, fds3, ISZ_OK)" "world_ok w3" "server_view w3 = server_view w2"
      by (auto simp: server_ok_def connected_def)
    let ?w4 = "k_close_all w3 (filter (\<lambda>d. d \<ge> 0) fds3)"
    have ok3: "server_ok w3" using h ok2(1) clients_ok_view by (auto simp: server_ok_def)
    from server_view_conn [OF h(3), of cr] ok2(2) obtain k3 where k3: "w_conns w3 cr = Some k3" "conn_view k3 = conn_view ?k"
      by (auto simp: connected_def)
    have con3: "connected w3 cl cr k3" using k3(1) h(3) ok2(2) by (auto simp: connected_def server_view_def)
    have st3: "c_recv_state k3 = st'" "c_fd k3 = c_fd k" using k3(2) by (simp_all add: conn_view_def)
    have "recv_left (?w4\<lparr>k_recvs := ?rs\<rparr>) st' = recv_left w1 st'" "recv_stream (?w4\<lparr>k_recvs := ?rs\<rparr>) = recv_stream w1"
      by (simp_all add: recv_left_def recv_size_def recv_stream_def)
    with less.hyps [of ?rs ?w4 k3] p(5) st3 cl(3) server_ok_more [OF ok3, of ?w4] connected_more [OF con3, of ?w4] RecvMsg h(1) p(2,3)
    show ?thesis unfolding unfold by (simp add: frame_def k_close_more(2))
  qed
qed

section \<open>Accepting\<close>

lemma isz_conn_create_facts:
  assumes "isz_conn_create k fd = (k', r)"
  shows "kern.more k' = kern.more k" "prefix (k_closed k) (k_closed k')" "r = None \<Longrightarrow> fd \<in> set (k_closed k')"
  using assms by (auto simp: isz_conn_create_def k_alloc_def k_close_def split: list.splits bool.splits)

lemma isz_conn_create_new:
  assumes "isz_conn_create k fd = (k', Some c)"
  shows "conn_ok c" "\<not> c_handshake_done c" "c_queue c = []" "c_fd c = fd" "c_objects c = []"
  using isz_conn_create_ok [OF assms] apply simp
  using assms by (auto simp: isz_conn_create_def split: prod.splits bool.splits)

text \<open>The state with one more client.\<close>

definition admitted :: "world \<Rightarrow> conn \<Rightarrow> int \<Rightarrow> world" where
  "admitted w conn pid =
     w\<lparr>w_conns := (w_conns w)(w_next_conn w \<mapsto> conn), w_next_conn := w_next_conn w + 1,
       w_clients := (w_clients w)(w_next_client w \<mapsto>
         \<lparr>cl_conn = Some (w_next_conn w), cl_peer_pid = pid, cl_buffer_cache = isz_buffer_cache_init\<rparr>),
       w_next_client := w_next_client w + 1, w_client_list := w_client_list w @ [w_next_client w]\<rparr>"

definition passed_over :: "world \<Rightarrow> world" where
  "passed_over w = w\<lparr>w_next_conn := w_next_conn w + 1, w_next_client := w_next_client w + 1\<rparr>"

text \<open>The effect of a round: the peer is refused and its descriptor closed, or it is admitted.\<close>

definition refused :: "world \<Rightarrow> fd \<Rightarrow> world \<Rightarrow> bool" where
  "refused w fd w' \<longleftrightarrow> (kern.more w' = kern.more w \<or> kern.more w' = kern.more (passed_over w))
     \<and> prefix (k_closed w) (k_closed w') \<and> (0 \<le> fd \<longrightarrow> fd \<in> set (k_closed w'))"

definition admits :: "world \<Rightarrow> fd \<Rightarrow> int \<Rightarrow> conn \<Rightarrow> world \<Rightarrow> bool" where
  "admits w fd pid conn w' \<longleftrightarrow> conn_ok conn \<and> c_handshake_done conn \<and> c_fd conn = fd \<and> c_objects conn = []
     \<and> kern.more w' = kern.more (isz_server_emit_event (admitted w conn pid) ISZ_EVENT_CLIENT_CONNECT)
     \<and> prefix (k_closed w) (k_closed w')"

lemma fresh_handles:
  assumes "clients_ok w"
  shows "w_clients w (w_next_client w) = None" "w_conns w (w_next_conn w) = None" "w_next_client w \<notin> set (w_client_list w)"
  using assms by (auto simp: clients_ok_def)

lemma accept_register_outcome:
  assumes "clients_ok w" "conn_ok conn" "c_handshake_done conn" "c_objects conn = []"
  shows "\<exists>w'. accept_register w conn pid = Some w' \<and> (refused w (c_fd conn) w' \<or> admits w (c_fd conn) pid conn w')"
proof -
  obtain w1 b1 where c1: "k_ctl w = (w1, b1)" by fastforce
  obtain w2 b2 where c2: "k_alloc w1 = (w2, b2)" by fastforce
  obtain w3 b3 where c3: "k_ctl (admitted w2 conn pid) = (w3, b3)" by fastforce
  have m: "kern.more w1 = kern.more w" "k_closed w1 = k_closed w" "kern.more w2 = kern.more w" "k_closed w2 = k_closed w"
    "kern.more w3 = kern.more (admitted w2 conn pid)" "k_closed w3 = k_closed (admitted w2 conn pid)"
    using kern_more_ctl [of w] kern_more_ctl [of "admitted w2 conn pid"] c1 c2 c3
    by (auto simp: k_alloc_def split: list.splits)
  note f2 = kern_more_world [OF m(3)] and f3 = kern_more_world [OF m(5)] and fresh = fresh_handles [OF assms(1)]
  define w4 where "w4 = isz_conn_close (w3\<lparr>w_client_list := remove1 (w_next_client w) (w_client_list w3)\<rparr>) conn"
  define w5 where "w5 = w4\<lparr>w_conns := (w_conns w4)(w_next_conn w := None), w_clients := (w_clients w4)(w_next_client w := None)\<rparr>"
  have m4: "kern.more w4 = kern.more (w3\<lparr>w_client_list := remove1 (w_next_client w) (w_client_list w3)\<rparr>)"
    unfolding w4_def by (rule isz_conn_close_facts)
  have m5: "kern.more w5 = kern.more (passed_over w)"
    using m4 m(3,5) fresh
    by (cases w4; cases w3; cases w2; cases w)
       (simp add: w5_def passed_over_def admitted_def remove1_append fun_upd_idem)
  have cl: "prefix (k_closed w) (k_closed w5)" "0 \<le> c_fd conn \<Longrightarrow> c_fd conn \<in> set (k_closed w5)"
    using isz_conn_close_facts(2,3) [where k = "w3\<lparr>w_client_list := remove1 (w_next_client w) (w_client_list w3)\<rparr>" and c = conn] m
    by (simp_all add: w5_def w4_def admitted_def)
  have eq: "accept_register w conn pid = Some
      (if \<not> b1 then isz_conn_close w1 conn else if \<not> b2 then isz_conn_close w2 conn
       else if \<not> b3 then w5 else isz_server_emit_event w3 ISZ_EVENT_CLIENT_CONNECT)"
    using c1 c2 c3 f2
    by (simp add: accept_register_def Let_def admitted_def cache_destroy_init w4_def w5_def split: bool.splits)
  have r1: "refused w (c_fd conn) (isz_conn_close v conn)" if "kern.more v = kern.more w" "k_closed v = k_closed w" for v
    using isz_conn_close_facts [where k = v and c = conn] that by (auto simp: refused_def)
  have r5: "refused w (c_fd conn) w5" using m5 cl by (simp add: refused_def)
  have "kern.more (isz_server_emit_event w3 ISZ_EVENT_CLIENT_CONNECT)
      = kern.more (isz_server_emit_event (admitted w conn pid) ISZ_EVENT_CLIENT_CONNECT)"
    using m(3,5) by (cases w3; cases w2; cases w) (simp add: admitted_def isz_server_emit_event_def)
  then have "admits w (c_fd conn) pid conn (isz_server_emit_event w3 ISZ_EVENT_CLIENT_CONNECT)"
    using assms(2-) m by (simp add: admits_def isz_server_emit_event_def admitted_def)
  with r1 [OF m(1,2)] r1 [OF m(3,4)] r5 show ?thesis unfolding eq by simp
qed

lemma kern_more_upd_cong: "kern.more v = kern.more w \<Longrightarrow> kern.more (passed_over v) = kern.more (passed_over w)"
  "kern.more v = kern.more w \<Longrightarrow> kern.more (isz_server_emit_event (admitted v conn pid) e) = kern.more (isz_server_emit_event (admitted w conn pid) e)"
  for v w :: world
  by (cases v; cases w; simp add: passed_over_def admitted_def isz_server_emit_event_def)+

lemma outcome_from:
  assumes "kern.more v = kern.more w" "prefix (k_closed w) (k_closed v)"
  shows "refused v fd w' \<Longrightarrow> refused w fd w'" "admits v fd pid conn w' \<Longrightarrow> admits w fd pid conn w'"
  using assms kern_more_upd_cong [OF assms(1)] prefix_order.trans unfolding refused_def admits_def by metis+

lemma refused_close:
  assumes "kern.more v = kern.more w" "prefix (k_closed w) (k_closed v)"
  shows "refused w fd (k_close v fd)" "c_fd c = fd \<Longrightarrow> refused w fd (isz_conn_close v c)"
  using assms isz_conn_close_facts [where k = v and c = c] by (auto simp: refused_def k_close_def)

lemma accept_one_outcome:
  assumes "clients_ok w"
  shows "\<exists>w'. accept_one proc w fd cred = Some w' \<and> (refused w fd w'
    \<or> (\<exists>pid conn. cred = Some pid \<and> isz_allowlist_check proc w pid = Some True \<and> admits w fd pid conn w'))"
proof (cases cred)
  case None
  then show ?thesis using refused_close(1) [of w w] by (simp add: accept_one_def)
next
  case (Some pid)
  from isz_allowlist_check_total [of proc w pid] obtain ok where a: "isz_allowlist_check proc w pid = Some ok" by blast
  obtain w1 b1 where c1: "k_ctl w = (w1, b1)" by fastforce
  obtain w2 b2 where c2: "(if b1 then k_ctl w1 else (w1, False)) = (w2, b2)" by fastforce
  obtain w3 r where c3: "isz_conn_create w2 fd = (w3, r)" by fastforce
  have m: "kern.more w2 = kern.more w" "k_closed w2 = k_closed w"
    using kern_more_ctl [of w] kern_more_ctl [of w1] c1 c2 by (auto split: if_splits)
  have m3: "kern.more w3 = kern.more w" "prefix (k_closed w) (k_closed w3)" using isz_conn_create_facts(1,2) [OF c3] m by simp_all
  have eq: "accept_one proc w fd cred = (if \<not> ok then Some (k_close w fd) else if \<not> b1 \<or> \<not> b2 then Some (k_close w2 fd)
      else case r of None \<Rightarrow> Some w3 | Some conn \<Rightarrow> do {
        (w, conn, rc) \<leftarrow> isz_handshake_server_side w3 (conn\<lparr>c_allowlisted := True\<rparr>);
        (if rc \<noteq> ISZ_OK then Some (isz_conn_close w conn) else accept_register w conn pid) })"
    using Some a c1 c2 c3 by (simp add: accept_one_def split: option.splits)
  show ?thesis
  proof (cases "ok \<and> b1 \<and> b2 \<and> r \<noteq> None")
    case False
    then consider "\<not> ok" | "ok" "\<not> b1 \<or> \<not> b2" | "ok" "b1" "b2" "r = None" by blast
    then show ?thesis
    proof cases
      case 3
      with isz_conn_create_facts(3) [OF c3] m3 show ?thesis unfolding eq by (simp add: refused_def)
    qed (use refused_close(1) [of w w fd] refused_close(1) [of w2 w fd] m in \<open>simp_all add: eq\<close>)
  next
    case True
    then obtain conn where conn: "r = Some conn" by auto
    note new = isz_conn_create_new [OF c3 [unfolded conn]]
    let ?c = "conn\<lparr>c_allowlisted := True\<rparr>"
    from handshake_server_side_cases [of ?c w3] new obtain w4 c4 rc where
      h: "isz_handshake_server_side w3 ?c = Some (w4, c4, rc)" "conn_ok c4" "rc = ISZ_OK \<longrightarrow> c_handshake_done c4"
      by (auto simp: conn_ok_def)
    from handshake_hs [OF h(1)] new m3 have f4: "kern.more w4 = kern.more w" "prefix (k_closed w) (k_closed w4)" "c_fd c4 = fd" "c_objects c4 = []"
      by (auto simp: hs_frame_def intro: prefix_order.trans)
    show ?thesis
    proof (cases "rc = ISZ_OK")
      case False
      with True conn h(1) refused_close(2) [OF f4(1,2,3)] show ?thesis unfolding eq by simp
    next
      case ok: True
      from accept_register_outcome [OF clients_ok_more [OF assms f4(1)] h(2) _ f4(4), of pid] h(3) ok f4(3) obtain w' where
        w': "accept_register w4 c4 pid = Some w'" "refused w4 fd w' \<or> admits w4 fd pid c4 w'" by auto
      with outcome_from [OF f4(1,2)] True conn h(1) ok Some a show ?thesis unfolding eq by simp blast
    qed
  qed
qed

lemma server_ok_refused:
  assumes "server_ok w" "refused w fd w'"
  shows "server_ok w'"
proof -
  have "world_ok (passed_over w)"
    using assms(1) by (auto simp: server_ok_def world_ok_def passed_over_def render_ok_def surfaces_ok_def surf_ok_def outputs_ok_def
        side_ok_def seats_ok_def seat_ok_def conns_ok_def)
  moreover have "clients_ok (passed_over w)"
    using assms(1) unfolding server_ok_def by (auto simp: clients_ok_def client_ok_def passed_over_def less_Suc_eq)
  ultimately have "server_ok (passed_over w)" by (simp add: server_ok_def)
  with assms server_ok_more show ?thesis unfolding refused_def by metis
qed

lemma server_ok_admits:
  assumes "server_ok w" "admits w fd pid conn w'"
  shows "server_ok w'"
proof -
  let ?a = "isz_server_emit_event (admitted w conn pid) ISZ_EVENT_CLIENT_CONNECT"
  have k: "conn_ok conn" "c_handshake_done conn" "c_objects conn = []" using assms(2) by (simp_all add: admits_def)
  have ok: "clients_ok w" "world_ok w" using assms(1) by (simp_all add: server_ok_def)
  note fresh = fresh_handles [OF ok(1)]
  have "world_ok (upd_conn w (w_next_conn w) conn)" using ok(2) k by (intro world_ok_upd_conn) (simp_all add: objs_ok_def)
  then have "world_ok ?a"
    by (auto simp: world_ok_def admitted_def upd_conn_def isz_server_emit_event_def render_ok_def surfaces_ok_def surf_ok_def
        outputs_ok_def side_ok_def seats_ok_def seat_ok_def conns_ok_def idle_ok_event)
  moreover have "clients_ok ?a"
  proof -
    have f: "w_clients ?a = (w_clients w)(w_next_client w \<mapsto>
          \<lparr>cl_conn = Some (w_next_conn w), cl_peer_pid = pid, cl_buffer_cache = isz_buffer_cache_init\<rparr>)"
      "w_conns ?a = (w_conns w)(w_next_conn w \<mapsto> conn)" "w_client_list ?a = w_client_list w @ [w_next_client w]"
      "w_next_client ?a = w_next_client w + 1" "w_next_conn ?a = w_next_conn w + 1"
      by (simp_all add: admitted_def isz_server_emit_event_def)
    have old: "client_ok ?a c \<and> cl_conn c \<noteq> Some (w_next_conn w)" if "w_clients w cl = Some c" for cl c
    proof -
      from that ok(1) have "client_ok w c" by (auto simp: clients_ok_def)
      with fresh(2) show ?thesis by (auto simp: client_ok_def f)
    qed
    have new: "client_ok ?a \<lparr>cl_conn = Some (w_next_conn w), cl_peer_pid = pid, cl_buffer_cache = isz_buffer_cache_init\<rparr>"
      using k by (simp add: client_ok_def f)
    have ne: "cl_conn c \<noteq> Some (w_next_conn w)" if "w_clients w cl = Some c" for cl c using old [OF that] by simp
    show ?thesis unfolding clients_ok_def f
    proof (intro conjI allI impI)
      show "distinct (w_client_list w @ [w_next_client w])" using ok(1) fresh by (simp add: clients_ok_def)
    qed (use ok(1) old new ne in \<open>auto simp: clients_ok_def less_Suc_eq split: if_splits\<close>)
  qed
  ultimately have "server_ok ?a" by (simp add: server_ok_def)
  with assms(2) server_ok_more show ?thesis unfolding admits_def by metis
qed

text \<open>The sockets a run of the accept loop takes from the kernel, with the pid of the peer.\<close>

fun accepted_peers :: "accept_result list \<Rightarrow> (fd \<times> int option) list" where
  "accepted_peers (AcceptFd fd cred # rs) = (fd, cred) # accepted_peers rs"
| "accepted_peers (AcceptIntr # rs) = accepted_peers rs"
| "accepted_peers _ = []"

text \<open>Client \<open>cl\<close> is new in \<open>w'\<close>, for the accepted peer, with the handshake done.\<close>

definition joined :: "world \<Rightarrow> world \<Rightarrow> nat \<Rightarrow> isz_client \<Rightarrow> fd \<times> int option \<Rightarrow> bool" where
  "joined w w' cl c peer \<longleftrightarrow> w_clients w cl = None \<and> w_clients w' cl = Some c \<and> snd peer = Some (cl_peer_pid c)
     \<and> (\<exists>cr k. cl_conn c = Some cr \<and> w_conns w cr = None \<and> w_conns w' cr = Some k \<and> c_fd k = fst peer \<and> c_handshake_done k)"

definition accept_post :: "(int \<Rightarrow> proc_info) \<Rightarrow> world \<Rightarrow> (fd \<times> int option) list \<Rightarrow> world \<Rightarrow> bool" where
  "accept_post proc w fds w' \<longleftrightarrow> server_ok w' \<and> w_clients w \<subseteq>\<^sub>m w_clients w' \<and> w_conns w \<subseteq>\<^sub>m w_conns w'
     \<and> w_allow_binaries w' = w_allow_binaries w \<and> w_allow_cgroups w' = w_allow_cgroups w
     \<and> prefix (k_closed w) (k_closed w')
     \<and> (\<forall>cl c. w_clients w cl = None \<and> w_clients w' cl = Some c \<longrightarrow>
          isz_allowlist_check proc w (cl_peer_pid c) = Some True \<and> (\<exists>p \<in> set fds. joined w w' cl c p))
     \<and> (\<forall>p \<in> set fds. 0 \<le> fst p \<longrightarrow> fst p \<in> set (k_closed w') \<or> (\<exists>cl c. joined w w' cl c p))"

lemma map_le_SomeD: "m \<subseteq>\<^sub>m m' \<Longrightarrow> m x = Some y \<Longrightarrow> m' x = Some y"
  unfolding map_le_def by (metis domI)

lemma accept_post_refused:
  assumes "server_ok w" "refused w fd w'"
  shows "accept_post proc w [(fd, cred)] w'"
proof -
  have f: "w_clients w' = w_clients w" "w_conns w' = w_conns w" "w_allow_binaries w' = w_allow_binaries w"
    "w_allow_cgroups w' = w_allow_cgroups w"
  proof -
    have "kern.more w' = kern.more w \<or> kern.more w' = kern.more (passed_over w)" using assms(2) by (simp add: refused_def)
    then obtain v where "kern.more w' = kern.more v" "v = w \<or> v = passed_over w" by blast
    note kern_more_world [OF this(1)] this(2)
    then show "w_clients w' = w_clients w" "w_conns w' = w_conns w" "w_allow_binaries w' = w_allow_binaries w"
      "w_allow_cgroups w' = w_allow_cgroups w" by (auto simp: passed_over_def)
  qed
  from assms(2) have "prefix (k_closed w) (k_closed w')" "0 \<le> fd \<longrightarrow> fd \<in> set (k_closed w')" by (simp_all add: refused_def)
  with server_ok_refused [OF assms] show ?thesis unfolding accept_post_def f by auto
qed

lemma accept_post_admits:
  assumes "server_ok w" "admits w fd pid conn w'" "isz_allowlist_check proc w pid = Some True"
  shows "accept_post proc w [(fd, Some pid)] w'"
proof -
  let ?c = "\<lparr>cl_conn = Some (w_next_conn w), cl_peer_pid = pid, cl_buffer_cache = isz_buffer_cache_init\<rparr>"
  from assms(2) have m: "kern.more w' = kern.more (isz_server_emit_event (admitted w conn pid) ISZ_EVENT_CLIENT_CONNECT)"
    "c_fd conn = fd" "c_handshake_done conn" "prefix (k_closed w) (k_closed w')" by (simp_all add: admits_def)
  have f: "w_clients w' = (w_clients w)(w_next_client w \<mapsto> ?c)" "w_conns w' = (w_conns w)(w_next_conn w \<mapsto> conn)"
    "w_allow_binaries w' = w_allow_binaries w" "w_allow_cgroups w' = w_allow_cgroups w"
    using kern_more_world [OF m(1)] by (simp_all add: admitted_def isz_server_emit_event_def)
  have fresh: "w_clients w (w_next_client w) = None" "w_conns w (w_next_conn w) = None"
    using fresh_handles assms(1) by (simp_all add: server_ok_def)
  have j: "joined w w' (w_next_client w) ?c (fd, Some pid)" using fresh m(2,3) by (simp add: joined_def f)
  have new: "cl = w_next_client w \<and> c = ?c" if "w_clients w cl = None" "w_clients w' cl = Some c" for cl c
    using that by (auto simp: f split: if_splits)
  show ?thesis unfolding accept_post_def
  proof (intro conjI allI impI ballI)
    show "server_ok w'" by (rule server_ok_admits [OF assms(1,2)])
    show "w_clients w \<subseteq>\<^sub>m w_clients w'" "w_conns w \<subseteq>\<^sub>m w_conns w'" using f fresh by (auto simp: map_le_def)
  qed (use f(3,4) m(4) j assms(3) in \<open>auto dest!: new\<close>)
qed

lemma joined_trans:
  assumes "joined w w1 cl c p" "w_clients w1 \<subseteq>\<^sub>m w_clients w2" "w_conns w1 \<subseteq>\<^sub>m w_conns w2"
  shows "joined w w2 cl c p"
  using assms map_le_SomeD [OF assms(2)] map_le_SomeD [OF assms(3)] unfolding joined_def by metis

lemma joined_before:
  assumes "joined w1 w2 cl c p" "w_clients w \<subseteq>\<^sub>m w_clients w1" "w_conns w \<subseteq>\<^sub>m w_conns w1"
  shows "joined w w2 cl c p"
proof -
  have "w_clients w cl = None" "w_conns w cr = None" if "w_conns w1 cr = None" for cr
    using that assms map_le_SomeD [OF assms(2)] map_le_SomeD [OF assms(3)] by (metis joined_def not_Some_eq)+
  with assms(1) show ?thesis unfolding joined_def by blast
qed

lemma accept_post_trans:
  assumes "accept_post proc w fds w1" "accept_post proc w1 fds' w2"
  shows "accept_post proc w (fds @ fds') w2"
proof -
  note p = assms(1) [unfolded accept_post_def] and q = assms(2) [unfolded accept_post_def]
  have al: "isz_allowlist_check proc w1 pid = isz_allowlist_check proc w pid" for pid
    using p by (intro isz_allowlist_check_cong) simp_all
  have "isz_allowlist_check proc w (cl_peer_pid c) = Some True \<and> (\<exists>fd \<in> set (fds @ fds'). joined w w2 cl c fd)"
    if "w_clients w cl = None" "w_clients w2 cl = Some c" for cl c
  proof (cases "w_clients w1 cl")
    case None
    with q that(2) al obtain fd where "isz_allowlist_check proc w (cl_peer_pid c) = Some True" "fd \<in> set fds'" "joined w1 w2 cl c fd"
      by metis
    moreover have "joined w w2 cl c fd" using joined_before calculation(3) p by blast
    ultimately show ?thesis by auto
  next
    case (Some d)
    with q that(2) have "d = c" using map_le_SomeD by fastforce
    with p that(1) Some obtain fd where "isz_allowlist_check proc w (cl_peer_pid c) = Some True" "fd \<in> set fds" "joined w w1 cl c fd"
      by metis
    moreover have "joined w w2 cl c fd" using joined_trans calculation(3) q by blast
    ultimately show ?thesis by auto
  qed
  moreover have "fst fd \<in> set (k_closed w2) \<or> (\<exists>cl c. joined w w2 cl c fd)" if "fd \<in> set (fds @ fds')" "0 \<le> fst fd" for fd
  proof (cases "fd \<in> set fds")
    case True
    with p that have "fst fd \<in> set (k_closed w1) \<or> (\<exists>cl c. joined w w1 cl c fd)" by blast
    with joined_trans q set_mono_prefix show ?thesis by blast
  next
    case False
    with q that have "fst fd \<in> set (k_closed w2) \<or> (\<exists>cl c. joined w1 w2 cl c fd)" by auto
    with joined_before p show ?thesis by blast
  qed
  ultimately show ?thesis
    using p q map_le_trans [of "w_clients w" "w_clients w1" "w_clients w2"] map_le_trans [of "w_conns w" "w_conns w1" "w_conns w2"]
      prefix_order.trans [of "k_closed w" "k_closed w1" "k_closed w2"]
    unfolding accept_post_def by (intro conjI allI impI ballI) auto
qed

lemma accept_loop_post:
  assumes "server_ok w"
  shows "\<exists>w'. accept_loop proc rs w = Some w' \<and> accept_post proc w (accepted_peers rs) w'"
  using assms
proof (induction proc rs w rule: accept_loop.induct)
  case (2 proc rs w)
  have "server_ok (w\<lparr>k_accepts := rs\<rparr>)" by (rule server_ok_more [OF 2]) simp
  then show ?case by (auto simp: accept_post_def)
next
  case (4 proc fd cred rs w)
  from accept_one_outcome [of w proc fd cred] "4.prems" obtain w1 where
    w1: "accept_one proc w fd cred = Some w1" "accept_post proc w [(fd, cred)] w1"
    using accept_post_refused accept_post_admits by (auto simp: server_ok_def)
  moreover from w1(2) have "server_ok w1" by (simp add: accept_post_def)
  with "4.IH" [OF w1(1)] obtain w2 where "accept_loop proc rs w1 = Some w2" "accept_post proc w1 (accepted_peers rs) w2" by blast
  ultimately show ?case using accept_post_trans [of proc w "[(fd, cred)]" w1 "accepted_peers rs" w2] by simp
qed (auto simp: accept_post_def)

section \<open>Properties\<close>

text \<open>C23: only allowed peers become clients. Accepting always returns and keeps the invariants; every client it adds has a
  pid that passes the allowlist and a connection that finished the handshake; every descriptor taken
  from the kernel is closed again or is the socket of a new client; nobody already connected is touched.\<close>

theorem accept_admits_only_allowed:
  assumes "server_ok w" and "w_listen_fd w \<ge> 0"
  shows "\<exists>w'. isz_accept_connection proc w = Some w' \<and> server_ok w'
    \<and> w_clients w \<subseteq>\<^sub>m w_clients w' \<and> w_conns w \<subseteq>\<^sub>m w_conns w'
    \<and> (\<forall>cl c. w_clients w cl = None \<and> w_clients w' cl = Some c \<longrightarrow>
          isz_allowlist_check proc w (cl_peer_pid c) = Some True \<and> (\<exists>p \<in> set (accepted_peers (k_accepts w)). joined w w' cl c p))
    \<and> (\<forall>p \<in> set (accepted_peers (k_accepts w)). 0 \<le> fst p \<longrightarrow> fst p \<in> set (k_closed w') \<or> (\<exists>cl c. joined w w' cl c p))"
proof -
  have "server_ok (w\<lparr>k_accepts := []\<rparr>)" by (rule server_ok_more [OF assms(1)]) simp
  from accept_loop_post [OF this, of proc "k_accepts w"] obtain w' where
    l: "accept_loop proc (k_accepts w) (w\<lparr>k_accepts := []\<rparr>) = Some w'"
    and p: "accept_post proc (w\<lparr>k_accepts := []\<rparr>) (accepted_peers (k_accepts w)) w'" by blast
  have al: "isz_allowlist_check proc (w\<lparr>k_accepts := []\<rparr>) pid = isz_allowlist_check proc w pid" for pid
    by (rule isz_allowlist_check_cong) simp_all
  have j: "joined (w\<lparr>k_accepts := []\<rparr>) w' cl c p = joined w w' cl c p" for cl c p by (simp add: joined_def)
  from p have "isz_accept_connection proc w = Some w' \<and> server_ok w'
    \<and> w_clients w \<subseteq>\<^sub>m w_clients w' \<and> w_conns w \<subseteq>\<^sub>m w_conns w'
    \<and> (\<forall>cl c. w_clients w cl = None \<and> w_clients w' cl = Some c \<longrightarrow>
          isz_allowlist_check proc w (cl_peer_pid c) = Some True \<and> (\<exists>p \<in> set (accepted_peers (k_accepts w)). joined w w' cl c p))
    \<and> (\<forall>p \<in> set (accepted_peers (k_accepts w)). 0 \<le> fst p \<longrightarrow> fst p \<in> set (k_closed w') \<or> (\<exists>cl c. joined w w' cl c p))"
    using l assms(2) unfolding accept_post_def al j isz_accept_connection_def by auto
  then show ?thesis ..
qed

text \<open>A server with one output that listens and lets the binary with device and inode 1 connect.\<close>

definition listening_world :: world where
  "listening_world = sample_world\<lparr>w_listen_fd := 3, w_allow_binaries := [(1, 1)],
     k_accepts := [AcceptFd 5 (Some 100), AcceptFd 6 (Some 200)], k_recvs := [RecvData (le32 1) [] False]\<rparr>"

definition listening_procs :: "int \<Rightarrow> proc_info" where
  "listening_procs pid = \<lparr>pi_exe = (if pid = 100 then Some (1, 1) else None), pi_cgroup = None\<rparr>"

lemma server_ok_listening_world: "server_ok listening_world"
proof -
  have "render_ok listening_world"
    using render_ok_sample_world by (simp add: listening_world_def render_ok_def surfaces_ok_def surf_ok_def world_init_defs)
  moreover have "outputs_ok listening_world" "side_ok listening_world"
    using side_ok_sample by (simp_all add: listening_world_def outputs_ok_def side_ok_def seats_ok_def seat_ok_def)
  moreover have "conns_ok listening_world" "clients_ok listening_world"
    by (simp_all add: listening_world_def conns_ok_def clients_ok_def world_init_defs)
  ultimately show ?thesis by (simp add: world_ok_def server_ok_def)
qed

theorem accept_admits_only_allowed_witness:
  "\<exists>w'. isz_accept_connection listening_procs listening_world = Some w' \<and> server_ok w'
    \<and> 6 \<in> set (k_closed w') \<and> (\<forall>cl c. w_clients w' cl = Some c \<longrightarrow> cl_peer_pid c = 100)"
proof -
  have r: "w_listen_fd listening_world \<ge> 0" "accepted_peers (k_accepts listening_world) = [(5, Some 100), (6, Some 200)]"
    "w_clients listening_world = (\<lambda>_. None)"
    by (simp_all add: listening_world_def world_init_defs)
  have a: "pid = 100" if "isz_allowlist_check listening_procs listening_world pid = Some True" for pid
    using that by (auto simp: isz_allowlist_check_def peer_pid_matches_binary_def peer_pid_matches_cgroup_def
        listening_world_def listening_procs_def world_init_defs split: if_splits)
  from accept_admits_only_allowed [OF server_ok_listening_world r(1), of listening_procs] obtain w' where
    w': "isz_accept_connection listening_procs listening_world = Some w'" "server_ok w'"
    "\<forall>cl c. w_clients w' cl = Some c \<longrightarrow> cl_peer_pid c = 100"
    "6 \<in> set (k_closed w') \<or> (\<exists>cl c. joined listening_world w' cl c (6, Some 200))"
    unfolding r by (auto dest!: a)
  then have "6 \<in> set (k_closed w')" by (auto simp: joined_def)
  with w' show ?thesis by blast
qed

text \<open>C24: reading from a client ends. For every script of \<^verbatim>\<open>recvmsg\<close> results whose bytes hold no request to destroy a surface or a buffer (these two can leave a dangling reference), the loop
  over the messages of a connected client returns: either the client is still connected and all invariants hold, or its entry is off the list of clients, its
  connection is freed and its socket closed. In the second case only the invariant of the table of clients is stated: surfaces of the client keep a pointer to the freed connection
  (\<open>cleanup_leaves_dangling_conn\<close>).\<close>

theorem recv_client_messages_returns:
  assumes "server_ok w" and "w_clients w cl = Some c" and "cl_conn c = Some cr" and "w_conns w cr = Some k"
    and "stream_clean (rs_bytes (c_recv_state k) @ recv_stream w)"
  shows "\<exists>w'. isz_recv_client_messages w (Some cl) = Some w'
    \<and> (server_ok w' \<and> (\<exists>k'. connected w' cl cr k')
       \<or> clients_ok w' \<and> w_clients w' cl = None \<and> w_conns w' cr = None \<and> cl \<notin> set (w_client_list w')
         \<and> (0 \<le> c_fd k \<longrightarrow> c_fd k \<in> set (k_closed w')))"
proof -
  have m: "kern.more (w\<lparr>k_recvs := []\<rparr>) = kern.more w" by simp
  have con: "connected w cl cr k" using assms by (auto simp: connected_def)
  from recv_messages_total [OF server_ok_more [OF assms(1) m] connected_more [OF con m], of "k_recvs w"] assms(5) obtain w' where
    r: "recv_messages_loop (k_recvs w) (w\<lparr>k_recvs := []\<rparr>) cl = Some w'" and
    c: "server_ok w' \<and> (\<exists>k'. connected w' cl cr k')
       \<or> (\<exists>v k'. server_ok v \<and> connected v cl cr k' \<and> c_fd k' = c_fd k \<and> isz_client_cleanup v (Some cl) = Some w')" by auto
  have "isz_recv_client_messages w (Some cl) = Some w'" using assms r by (simp add: isz_recv_client_messages_def)
  moreover have "clients_ok w' \<and> w_clients w' cl = None \<and> w_conns w' cr = None \<and> cl \<notin> set (w_client_list w')
      \<and> (0 \<le> c_fd k \<longrightarrow> c_fd k \<in> set (k_closed w'))"
    if v: "server_ok v" "connected v cl cr k'" "c_fd k' = c_fd k" "isz_client_cleanup v (Some cl) = Some w'" for v k'
  proof -
    from v(1) have ok: "clients_ok v" by (simp add: server_ok_def)
    from v(2) obtain d where d: "w_clients v cl = Some d" "cl_conn d = Some cr" "w_conns v cr = Some k'" by (auto simp: connected_def)
    from isz_client_cleanup_spec [OF ok d] v(3,4) have
      w': "kern.more w' = kern.more (dropped v cl cr)" "0 \<le> c_fd k \<longrightarrow> c_fd k \<in> set (k_closed w')" by auto
    note f = kern_more_world [OF w'(1)]
    have "clients_ok w'" by (rule clients_ok_more [OF clients_ok_dropped [OF ok d(1,2)] w'(1)])
    moreover have "w_clients w' cl = None" "w_conns w' cr = None" "cl \<notin> set (w_client_list w')"
      using ok by (simp_all add: f dropped_def isz_server_emit_event_def clients_ok_def)
    ultimately show ?thesis using w'(2) by blast
  qed
  ultimately show ?thesis using c by blast
qed

text \<open>The client of \<^const>\<open>showing_world\<close>, with one surface, in the middle of a message.\<close>

definition client_world :: world where
  "client_world = showing_world\<lparr>w_clients := (\<lambda>_. None)(1 \<mapsto> \<lparr>cl_conn = Some 7, cl_peer_pid = 100, cl_buffer_cache = isz_buffer_cache_init\<rparr>),
     w_client_list := [1], w_next_client := 2, w_next_conn := 8,
     k_recvs := [RecvData [4, 0, 0, 0] [] False, RecvErr EINTR, RecvData [1, 0, 0, 0] [] False]\<rparr>"

lemma server_ok_client_world: "server_ok client_world"
proof -
  note ok = world_okD [OF world_ok_showing_world]
  have "render_ok client_world" "outputs_ok client_world" "side_ok client_world"
    using ok(1,2,9) by (simp_all add: client_world_def render_ok_def surfaces_ok_def surf_ok_def outputs_ok_def side_ok_def seats_ok_def seat_ok_def)
  moreover have "conns_ok client_world" using ok(8) by (simp add: client_world_def conns_ok_def)
  moreover have "clients_ok client_world"
    using session_conn_facts(3) by (simp add: client_world_def clients_ok_def client_ok_def showing_world_def)
  ultimately show ?thesis by (simp add: world_ok_def server_ok_def)
qed

theorem recv_client_messages_returns_witness:
  "\<exists>w'. isz_recv_client_messages client_world (Some 1) = Some w' \<and> clients_ok w'"
proof -
  let ?k = "session_conn\<lparr>c_objects := [\<lparr>oe_id = 1, oe_handle = 1, oe_kind = ISZ_OBJECT_SURFACE\<rparr>,
        \<lparr>oe_id = 2, oe_handle = 1, oe_kind = ISZ_OBJECT_BUFFER\<rparr>], c_objects_cap := 8, c_next_object_id := 3\<rparr>"
  have f: "w_clients client_world 1 = Some \<lparr>cl_conn = Some 7, cl_peer_pid = 100, cl_buffer_cache = isz_buffer_cache_init\<rparr>"
    "w_conns client_world 7 = Some ?k"
    by (simp_all add: client_world_def showing_world_def)
  have "rs_bytes (c_recv_state ?k) @ recv_stream client_world = frame 1 []"
    by (simp add: session_conn_def sample_conn_def isz_conn_create_def k_alloc_def kern_init_def isz_proto_recv_state_init_def
        client_world_def recv_stream_def frame_def le32_def byte_of_def)
  moreover have "stream_clean (frame 1 [] @ [])"
    by (subst stream_clean_def, subst stream_msgs_frame) (simp_all add: stream_msgs.simps [of "[]"] isz_proto_decode_def)
  ultimately have "stream_clean (rs_bytes (c_recv_state ?k) @ recv_stream client_world)" by simp
  from recv_client_messages_returns [OF server_ok_client_world f(1) _ f(2) this] show ?thesis by (auto simp: server_ok_def)
qed

text \<open>The cleanup frees the connection but leaves the client's surfaces with a pointer to it: the next
  \<^verbatim>\<open>PRESENTED\<close> event of such a surface reads freed memory.\<close>

lemma cleanup_leaves_dangling_conn:
  assumes "server_ok w" "w_clients w cl = Some c" "cl_conn c = Some cr" "w_conns w cr = Some k"
    "w_surfaces w r = Some s" "sf_owning_conn s = Some cr" "sf_object_id s \<noteq> 0"
  shows "\<exists>w'. isz_client_cleanup w (Some cl) = Some w' \<and> \<not> world_ok w' \<and> isz_render_send_presented w' r t = None"
proof -
  have ok: "clients_ok w" using assms(1) by (simp add: server_ok_def)
  from isz_client_cleanup_spec [OF ok assms(2-4)] obtain w' where
    w': "isz_client_cleanup w (Some cl) = Some w'" "kern.more w' = kern.more (dropped w cl cr)" by blast
  note f = kern_more_world [OF w'(2)]
  have s: "w_surfaces w' r = Some s" "w_conns w' cr = None"
    using assms(5) by (simp_all add: f dropped_def isz_server_emit_event_def)
  have "\<not> surf_ok w' s" using s(2) assms(6) by (auto simp: surf_ok_def)
  then have "\<not> world_ok w'" using s(1) surfaces_okD(1) render_okD(1) world_okD(1) by blast
  moreover have "isz_render_send_presented w' r t = None"
    using s assms(6,7) by (simp add: isz_render_send_presented_def sender_eqs send_event_def send_frame_ref_def conn_send_ref_def)
  ultimately show ?thesis using w'(1) by blast
qed

end
