(* ===== verification/Isz_Lifecycle.thy ===== *)
theory Isz_Lifecycle
  imports Isz_Headless Isz_Psi Isz_Thread_Pool Isz_Listen
begin

text \<open>
  Start-up, the dispatch loop and shutdown of a server, \<^verbatim>\<open>src/isz_lifecycle.c\<close>. The record \<open>server\<close> holds what \<^verbatim>\<open>struct isz_server\<close> has
  beside the state \<open>world\<close> of the other components. What the system gives to \<^verbatim>\<open>isz_init\<close> is the record \<open>init_env\<close>; a ready descriptor of
  the epoll set is an \<open>fd_tag\<close>. The registry of listeners is \<open>Isz_Listeners\<close>; its nodes are only freed here.
\<close>

section \<open>State\<close>

record init_env =
  ie_env :: "char list \<Rightarrow> char list option"    \<comment> \<open>the environment\<close>
  ie_psi_dir :: bool                           \<comment> \<open>the pressure directory exists\<close>
  ie_psi_fd :: "fd option"                     \<comment> \<open>open of the pressure file\<close>
  ie_epoll_fd :: "fd option"                   \<comment> \<open>\<^verbatim>\<open>epoll_create1\<close>\<close>
  ie_spawn :: "bool list"                      \<comment> \<open>\<^verbatim>\<open>pthread_create\<close> of each worker\<close>

record server =
  sv_world :: world
  sv_backend_type :: isz_backend_type
  sv_impl :: "isz_headless_state option"       \<comment> \<open>the private state of the backend\<close>
  sv_epoll_fd :: fd
  sv_psi :: isz_psi_monitor
  sv_thread_pool :: "pool option"
  sv_buffer_cache :: buffer_cache

datatype isz_fd_tag =
    ISZ_FD_LISTEN
  | ISZ_FD_CLIENT nat
  | ISZ_FD_PSI "psi_read list" "nat option"    \<comment> \<open>with what read and write on the descriptor give\<close>
  | ISZ_FD_BACKEND
  | ISZ_FD_SEAT

section \<open>Start-up\<close>

definition isz_headless_output_hook :: hook where
  "isz_headless_output_hook w info added =
     (if w_state w = ISZ_SERVER_DESTROYING then Some w
      else if added then map_option fst (isz_server_wrap_headless_output w (Some info))
      else isz_server_unwrap_headless_output w (hi_id info))"

text \<open>The zeroed server with its initialised lists, in a program where no other server ran.\<close>

definition fresh_world :: "kern \<Rightarrow> world" where
  "fresh_world k = kern.extend (kern.truncate k) (kern.more (world_init\<lparr>w_state := ISZ_SERVER_UNINITIALIZED\<rparr>))"

fun wrap_outputs :: "world \<Rightarrow> isz_headless_output list \<Rightarrow> world option" where
  "wrap_outputs w [] = Some w"
| "wrap_outputs w (o' # os) = do {
     (w, rc) \<leftarrow> isz_server_wrap_headless_output w (Some (fill_info o'));
     wrap_outputs w os
   }"

text \<open>The exits for a failure, from the last one up.\<close>

definition fail_psi :: "world \<Rightarrow> isz_psi_monitor \<Rightarrow> buffer_cache \<Rightarrow> (kern \<times> server option) option" where
  "fail_psi w psi cache = do {
     let (w, psi) = isz_psi_destroy w psi;
     (w, cache) \<leftarrow> isz_buffer_cache_destroy w cache;
     Some (kern.truncate w, None)
   }"

definition fail_epoll :: "world \<Rightarrow> fd \<Rightarrow> isz_psi_monitor \<Rightarrow> buffer_cache \<Rightarrow> (kern \<times> server option) option" where
  "fail_epoll w epoll_fd psi cache = fail_psi (if epoll_fd \<ge> 0 then k_close w epoll_fd else w) psi cache"

definition fail_backend ::
    "world \<Rightarrow> isz_backend \<times> isz_headless_state option \<Rightarrow> fd \<Rightarrow> isz_psi_monitor \<Rightarrow> buffer_cache \<Rightarrow> (kern \<times> server option) option" where
  "fail_backend w b epoll_fd psi cache = do {
     w \<leftarrow> isz_backend_destroy isz_headless_output_hook w (Some b);
     fail_epoll w epoll_fd psi cache
   }"

definition isz_init :: "init_env \<Rightarrow> isz_backend_type \<Rightarrow> isz_headless_config option \<Rightarrow> kern \<Rightarrow> (kern \<times> server option) option" where
  "isz_init ie backend config k =
     (case k_alloc k of
        (k, False) \<Rightarrow> Some (k, None)
      | (k, True) \<Rightarrow>
          let w = fresh_world k;
              cache = isz_buffer_cache_init;
              psi = isz_psi_init (ie_psi_dir ie) (ie_psi_fd ie)
          in case ie_epoll_fd ie of
               None \<Rightarrow> fail_psi w psi cache
             | Some epoll_fd \<Rightarrow> do {
                 (w, b) \<leftarrow> isz_backend_create (ie_env ie) backend config w;
                 (case b of
                    None \<Rightarrow> fail_epoll w epoll_fd psi cache
                  | Some (be, impl) \<Rightarrow> do {
                      let w = w\<lparr>w_backend := be\<rparr>;
                      (w, impl) \<leftarrow> (if backend = ISZ_BACKEND_HEADLESS
                                    then do {
                                      let impl = isz_headless_set_output_hook impl;
                                      w \<leftarrow> wrap_outputs w (isz_headless_outputs impl);
                                      Some (w, impl)
                                    }
                                    else Some (w, impl));
                      (w, seat) \<leftarrow> isz_seat_default w;
                      (if seat = None then fail_backend w (be, impl) epoll_fd psi cache
                       else
                         let (w, thread_pool) = isz_thread_pool_create w (ie_spawn ie) ISZ_THREAD_POOL_SIZE;
                             w = (if isz_psi_get_fd psi \<ge> 0 then fst (k_ctl w) else w);
                             w = w\<lparr>w_state := ISZ_SERVER_RUNNING\<rparr>
                         in Some (kern.truncate w, Some \<lparr>sv_world = w, sv_backend_type = backend, sv_impl = impl, sv_epoll_fd = epoll_fd,
                                    sv_psi = psi, sv_thread_pool = thread_pool, sv_buffer_cache = cache\<rparr>))
                    })
               })"

section \<open>Dispatching\<close>

definition dispatch_one :: "(int \<Rightarrow> proc_info) \<Rightarrow> server \<Rightarrow> isz_fd_tag \<Rightarrow> server option" where
  "dispatch_one proc srv tag = (case tag of
       ISZ_FD_LISTEN \<Rightarrow> do { w \<leftarrow> isz_accept_connection proc (sv_world srv); Some (srv\<lparr>sv_world := w\<rparr>) }
     | ISZ_FD_CLIENT cl \<Rightarrow> do { w \<leftarrow> isz_recv_client_messages (sv_world srv) (Some cl); Some (srv\<lparr>sv_world := w\<rparr>) }
     | ISZ_FD_PSI reads written \<Rightarrow> Some (srv\<lparr>sv_psi := fst (isz_psi_dispatch (sv_psi srv) reads written)\<rparr>)
     | ISZ_FD_BACKEND \<Rightarrow>
         let w = sv_world srv
         in Some (srv\<lparr>sv_world := w\<lparr>w_backend := fst (isz_backend_read_events isz_headless_read_events (w_backend w))\<rparr>\<rparr>)
     | ISZ_FD_SEAT \<Rightarrow>
         let w = sv_world srv
         in Some (srv\<lparr>sv_world := w\<lparr>w_backend := fst (isz_backend_read_events isz_headless_read_events (w_backend w))\<rparr>\<rparr>))"

text \<open>The loop over the events of \<^verbatim>\<open>epoll_wait\<close>; an event without a tag is skipped.\<close>

fun dispatch_loop :: "(int \<Rightarrow> proc_info) \<Rightarrow> server \<Rightarrow> isz_fd_tag option list \<Rightarrow> server option" where
  "dispatch_loop proc srv [] = Some srv"
| "dispatch_loop proc srv (None # evs) = dispatch_loop proc srv evs"
| "dispatch_loop proc srv (Some tag # evs) = do { srv \<leftarrow> dispatch_one proc srv tag; dispatch_loop proc srv evs }"

text \<open>\<open>evs\<close> is what \<^verbatim>\<open>epoll_wait\<close> returns, at most 16 events. The session and input functions do nothing in this configuration.\<close>

definition isz_dispatch :: "(int \<Rightarrow> proc_info) \<Rightarrow> server \<Rightarrow> isz_fd_tag option list \<Rightarrow> server option" where
  "isz_dispatch proc srv evs =
     (if w_state (sv_world srv) \<noteq> ISZ_SERVER_RUNNING then Some srv
      else do {
        srv \<leftarrow> (if sv_epoll_fd srv \<ge> 0 then dispatch_loop proc srv evs else Some srv);
        w \<leftarrow> isz_buffer_poll_out_fences (sv_world srv);
        Some (srv\<lparr>sv_world := w\<rparr>)
      })"

fun client_fds :: "world \<Rightarrow> nat list \<Rightarrow> fd list option" where
  "client_fds w [] = Some []"
| "client_fds w (cl # cls) = do {
     c \<leftarrow> w_clients w cl;
     fds \<leftarrow> (case cl_conn c of
               None \<Rightarrow> Some []
             | Some cr \<Rightarrow> do { conn \<leftarrow> w_conns w cr; Some (if c_fd conn \<ge> 0 then [c_fd conn] else []) });
     rest \<leftarrow> client_fds w cls;
     Some (fds @ rest)
   }"

text \<open>The array of at most \<open>cap\<close> descriptors and the number there are; the input state has no descriptor in this configuration.\<close>

definition isz_get_fds :: "server \<Rightarrow> nat \<Rightarrow> (fd list \<times> nat) option" where
  "isz_get_fds srv cap = do {
     let psi_fd = isz_psi_get_fd (sv_psi srv);
     fds \<leftarrow> client_fds (sv_world srv) (w_client_list (sv_world srv));
     let all = (if psi_fd \<ge> 0 then [psi_fd] else []) @ fds;
     Some (take cap all, length all)
   }"

section \<open>Shutdown\<close>

fun destroy_clients :: "world \<Rightarrow> nat list \<Rightarrow> world option" where
  "destroy_clients w [] = Some w"
| "destroy_clients w (cl # cls) = do {
     c \<leftarrow> w_clients w cl;
     let w = w\<lparr>w_client_list := cls\<rparr>;
     w \<leftarrow> (case cl_conn c of
             None \<Rightarrow> Some w
           | Some cr \<Rightarrow> do {
               let w = isz_server_emit_event w ISZ_EVENT_CLIENT_DISCONNECT;
               conn \<leftarrow> w_conns w cr;
               let w = isz_conn_close w conn;
               Some (w\<lparr>w_conns := (w_conns w)(cr := None)\<rparr>)
             });
     (w, cache) \<leftarrow> isz_buffer_cache_destroy w (cl_buffer_cache c);
     destroy_clients (w\<lparr>w_clients := (w_clients w)(cl := None)\<rparr>) cls
   }"

fun destroy_wrappers :: "world \<Rightarrow> nat list \<Rightarrow> world option" where
  "destroy_wrappers w [] = Some w"
| "destroy_wrappers w (r # rs) = do {
     o' \<leftarrow> w_outputs w r;
     destroy_wrappers (w\<lparr>w_output_list := rs, w_outputs := (w_outputs w)(r := None)\<rparr>) rs
   }"

fun destroy_seats :: "world \<Rightarrow> nat list \<Rightarrow> world option" where
  "destroy_seats w [] = Some w"
| "destroy_seats w (r # rs) = do { w \<leftarrow> isz_seat_destroy w (Some r); destroy_seats w rs }"

text \<open>Destroying the thread pool only waits for its workers, see \<open>Isz_Thread_Pool\<close>. The server is freed, so only the kernel is left.\<close>

definition isz_destroy :: "server \<Rightarrow> kern option" where
  "isz_destroy srv = do {
     let w = (sv_world srv)\<lparr>w_state := ISZ_SERVER_DESTROYING\<rparr>;
     let w = (if w_listen_fd w \<ge> 0 then (k_close w (w_listen_fd w))\<lparr>w_listen_fd := -1\<rparr> else w);
     w \<leftarrow> destroy_clients w (w_client_list w);
     w \<leftarrow> destroy_wrappers w (w_output_list w);
     let w = w\<lparr>w_output_list_count := 0\<rparr>;
     w \<leftarrow> (if w_input_state w
           then do { w \<leftarrow> destroy_seats w (w_seat_list w); Some (w\<lparr>w_input_state := False\<rparr>) }
           else Some w);
     w \<leftarrow> isz_backend_destroy isz_headless_output_hook w (Some (w_backend w, sv_impl srv));
     let w = w\<lparr>w_allow_binaries := [], w_allow_cgroups := []\<rparr>;
     let (w, psi) = isz_psi_destroy w (sv_psi srv);
     (w, cache) \<leftarrow> isz_buffer_cache_destroy w (sv_buffer_cache srv);
     w \<leftarrow> isz_buffer_release_destroy w;
     let w = (if sv_epoll_fd srv \<ge> 0 then k_close w (sv_epoll_fd srv) else w);
     Some (kern.truncate w)
   }"

section \<open>Start-up establishes the invariants\<close>

lemma server_ok_fresh: "server_ok (fresh_world k)"
proof -
  let ?w = "world_init\<lparr>w_state := ISZ_SERVER_UNINITIALIZED\<rparr>"
  have "render_ok ?w" "outputs_ok ?w"
    using outputs_ok_init by (simp_all add: render_ok_def surfaces_ok_def surf_ok_def outputs_ok_def world_init_defs)
  moreover have "side_ok ?w"
    using side_ok_sample(1) by (rule side_ok_fields) (simp_all add: world_init_defs)
  moreover have "conns_ok ?w" "clients_ok ?w" by (simp_all add: conns_ok_def clients_ok_def world_init_defs)
  ultimately have "server_ok ?w" by (simp add: world_ok_def server_ok_def)
  then show ?thesis by (rule server_ok_more) (simp add: fresh_world_def kern.defs)
qed

text \<open>What wrapping and unwrapping an output leave alone.\<close>

definition wrap_frame :: "world \<Rightarrow> world \<Rightarrow> bool" where
  "wrap_frame w w' \<longleftrightarrow>
     kern.more (w'\<lparr>w_outputs := w_outputs w, w_output_list := w_output_list w, w_next_output := w_next_output w,
       w_next_output_id := w_next_output_id w, w_events := w_events w\<rparr>) = kern.more w"

lemma wrap_frame_fields:
  assumes "wrap_frame w w'"
  shows "w_state w' = w_state w" "bs_pending w' = bs_pending w" "w_surfaces w' = w_surfaces w" "w_conns w' = w_conns w"
    "w_next_conn w' = w_next_conn w" "w_clients w' = w_clients w" "w_client_list w' = w_client_list w" "w_next_client w' = w_next_client w"
    "w_captures w' = w_captures w" "w_consents w' = w_consents w" "w_input_state w' = w_input_state w" "w_seats w' = w_seats w"
    "w_seat_list w' = w_seat_list w" "w_next_seat w' = w_next_seat w" "w_default_seat w' = w_default_seat w" "w_clipboard w' = w_clipboard w"
    "w_selection_fd w' = w_selection_fd w" "w_text_inputs w' = w_text_inputs w" "w_next_text_input w' = w_next_text_input w"
    "w_input_methods w' = w_input_methods w" "w_next_input_method w' = w_next_input_method w" "w_listen_fd w' = w_listen_fd w"
    "w_backend w' = w_backend w"
  using kern_more_world [OF assms [unfolded wrap_frame_def]] by simp_all

lemma server_ok_wrap_frame:
  assumes "server_ok w" "wrap_frame w w'" "outputs_ok w'" "render_ok w'"
  shows "server_ok w'"
proof -
  note f = wrap_frame_fields [OF assms(2)] and ok = assms(1) [unfolded server_ok_def world_ok_def]
  have "side_ok w'" using ok by (intro side_ok_fields [of w w']) (simp_all add: f)
  moreover have "conns_ok w'" using ok by (simp add: conns_ok_def f)
  moreover have "clients_ok w'" using ok by (simp add: clients_ok_def client_ok_def f)
  ultimately show ?thesis using assms(3,4) by (simp add: server_ok_def world_ok_def)
qed

lemma wrap_server_ok:
  assumes "server_ok w"
  shows "\<exists>w' rc. isz_server_wrap_headless_output w (Some info) = Some (w', rc) \<and> server_ok w' \<and> wrap_frame w w'"
proof -
  have ok: "outputs_ok w" "render_ok w" using assms by (simp_all add: server_ok_def world_ok_def)
  from isz_server_wrap_headless_output_ok [OF ok, of info] obtain w' rc where
    w': "isz_server_wrap_headless_output w (Some info) = Some (w', rc)" "outputs_ok w'" "render_ok w'" by blast
  from headless_wrapped_spec [OF outputs_list_live [OF ok(1)], of "hi_id info"] obtain f where
    f: "headless_wrapped w (w_output_list w) (hi_id info) = Some f" by blast
  have "wrap_frame w w'"
  proof (cases f)
    case (Some r)
    with f w'(1) show ?thesis by (cases w) (simp add: isz_server_wrap_headless_output_def wrap_frame_def)
  next
    case None
    have st: "w_state w \<noteq> ISZ_SERVER_DESTROYING" using ok(2) by (simp add: render_ok_def surfaces_ok_def)
    from f [unfolded None] st show ?thesis
    proof (cases rule: wrap_cases)
      case (fail w1 i)
      have "w' = w1" using fail(1) w'(1) by simp
      with fail(2) show ?thesis by (cases w; cases w1) (simp add: wrap_frame_def)
    next
      case (ok w1 i)
      have "w' = wrapped w1 (headless_output (w_next_output_id w) info)" using ok(1) w'(1) by simp
      with ok(2) show ?thesis by (cases w; cases w1) (simp add: wrap_frame_def wrapped_def)
    qed
  qed
  with server_ok_wrap_frame [OF assms _ w'(2,3)] w'(1) show ?thesis by blast
qed

lemma wrap_frame_trans: "wrap_frame a b \<Longrightarrow> wrap_frame b c \<Longrightarrow> wrap_frame a c"
  by (cases a; cases b; cases c) (simp add: wrap_frame_def)

lemma wrap_frame_refl: "wrap_frame w w"
  by (cases w) (simp add: wrap_frame_def)

lemma wrap_outputs_ok:
  assumes "server_ok w"
  shows "\<exists>w'. wrap_outputs w os = Some w' \<and> server_ok w' \<and> wrap_frame w w'"
  using assms
proof (induction os arbitrary: w)
  case (Cons o' os)
  from wrap_server_ok [OF Cons.prems, of "fill_info o'"] obtain w1 rc where
    w1: "isz_server_wrap_headless_output w (Some (fill_info o')) = Some (w1, rc)" "server_ok w1" "wrap_frame w w1" by blast
  from Cons.IH [OF w1(2)] w1(1) wrap_frame_trans [OF w1(3)] show ?case by auto
qed (simp add: wrap_frame_refl)

lemma isz_thread_pool_create_more:
  "kern.more (fst (isz_thread_pool_create k spawn n)) = kern.more k"
  using kern_more_alloc kern_more_ctl
  by (auto simp: isz_thread_pool_create_def Let_def k_alloc_def k_ctl_def split: list.splits bool.splits prod.splits)

lemma isz_backend_create_outcome:
  "\<exists>w' b. isz_backend_create env type config w = Some (w', b) \<and> kern.more w' = kern.more w
    \<and> (\<forall>be impl. b = Some (be, impl) \<longrightarrow> type = ISZ_BACKEND_HEADLESS \<and> be_state be = ISZ_BACKEND_READY
         \<and> (\<exists>st. impl = Some st \<and> headless_ok st \<and> hs_outputs st = [first_output env config]))"
proof -
  obtain w1 b1 where a: "k_alloc w = (w1, b1)" by fastforce
  have m1: "kern.more w1 = kern.more w" using kern_more_alloc [of w] a by simp
  show ?thesis
  proof (cases "type = ISZ_BACKEND_HEADLESS \<and> b1")
    case False
    then show ?thesis using a m1 by (cases type; cases b1) (auto simp: isz_backend_create_def isz_drm_init_def)
  next
    case True
    from isz_headless_init_outcome [of env config w1] obtain w2 impl rc where
      i: "isz_headless_init env config w1 = Some (w2, impl, rc)" "kern.more w2 = kern.more w1"
      "impl = None \<and> rc = ISZ_ERR_NO_MEMORY \<or> rc = ISZ_OK \<and> (\<exists>st. impl = Some st \<and> headless_ok st \<and> \<not> hs_hook st \<and> hs_outputs st = [first_output env config])"
      by blast
    with True a m1 show ?thesis by (auto simp: isz_backend_create_def)
  qed
qed

lemma fail_psi_closes:
  "\<exists>k'. fail_psi w psi isz_buffer_cache_init = Some (k', None) \<and> prefix (k_closed w) (k_closed k')
    \<and> (0 \<le> pm_fd psi \<longrightarrow> pm_fd psi \<in> set (k_closed k'))"
  by (cases "0 \<le> pm_fd psi") (simp_all add: fail_psi_def isz_psi_destroy_def cache_destroy_init k_close_def kern.defs)

lemma fail_epoll_closes:
  "\<exists>k'. fail_epoll w epoll_fd psi isz_buffer_cache_init = Some (k', None)
    \<and> (0 \<le> epoll_fd \<longrightarrow> epoll_fd \<in> set (k_closed k')) \<and> (0 \<le> pm_fd psi \<longrightarrow> pm_fd psi \<in> set (k_closed k'))"
proof -
  let ?w = "if epoll_fd \<ge> 0 then k_close w epoll_fd else w"
  from fail_psi_closes [of ?w psi] obtain k' where
    k': "fail_psi ?w psi isz_buffer_cache_init = Some (k', None)" "prefix (k_closed ?w) (k_closed k')" "0 \<le> pm_fd psi \<longrightarrow> pm_fd psi \<in> set (k_closed k')"
    by blast
  have "0 \<le> epoll_fd \<longrightarrow> epoll_fd \<in> set (k_closed k')" using set_mono_prefix [OF k'(2)] by (auto simp: k_close_def)
  with k' show ?thesis by (simp add: fail_epoll_def)
qed

lemma unwrap_all_ok:
  assumes "outputs_ok w" "render_ok w"
  shows "\<exists>w'. destroy_outputs isz_headless_output_hook w st os = Some w' \<and> outputs_ok w' \<and> render_ok w'"
  using assms
proof (induction os arbitrary: w)
  case (Cons o' os)
  have st: "w_state w \<noteq> ISZ_SERVER_DESTROYING" using Cons.prems(2) by (simp add: render_ok_def surfaces_ok_def)
  from isz_server_unwrap_headless_output_ok [OF Cons.prems, of "hi_id (fill_info o')"] Cons.prems st obtain w1 where
    "fire_hook isz_headless_output_hook w st o' False = Some w1" "outputs_ok w1" "render_ok w1"
    by (cases "hs_hook st") (auto simp: fire_hook_def isz_headless_output_hook_def)
  with Cons.IH show ?case by simp
qed simp

definition init_ok :: "init_env \<Rightarrow> isz_backend_type \<Rightarrow> isz_headless_config option \<Rightarrow> server \<Rightarrow> bool" where
  "init_ok ie backend config srv \<longleftrightarrow> server_ok (sv_world srv) \<and> w_state (sv_world srv) = ISZ_SERVER_RUNNING
     \<and> backend = ISZ_BACKEND_HEADLESS \<and> be_state (w_backend (sv_world srv)) = ISZ_BACKEND_READY
     \<and> w_default_seat (sv_world srv) \<noteq> None \<and> w_client_list (sv_world srv) = [] \<and> w_listen_fd (sv_world srv) = -1
     \<and> bs_pending (sv_world srv) = []
     \<and> (\<exists>st. sv_impl srv = Some st \<and> hs_hook st \<and> hs_outputs st = [first_output (ie_env ie) config])
     \<and> ie_epoll_fd ie = Some (sv_epoll_fd srv) \<and> sv_psi srv = isz_psi_init (ie_psi_dir ie) (ie_psi_fd ie) \<and> sv_buffer_cache srv = isz_buffer_cache_init"

text \<open>The rest of \<^verbatim>\<open>isz_init\<close> once the backend exists.\<close>

lemma init_tail:
  assumes "kern.more w1 = kern.more (fresh_world k)" "be_state be = ISZ_BACKEND_READY" "hs_outputs st = [first_output (ie_env ie) config]"
    "ie_epoll_fd ie = Some epoll_fd"
  defines "psi \<equiv> isz_psi_init (ie_psi_dir ie) (ie_psi_fd ie)"
  shows "\<exists>k' res. do {
       w \<leftarrow> wrap_outputs (w1\<lparr>w_backend := be\<rparr>) (hs_outputs st);
       (w, seat) \<leftarrow> isz_seat_default w;
       (if seat = None then fail_backend w (be, Some (st\<lparr>hs_hook := True\<rparr>)) epoll_fd psi isz_buffer_cache_init
        else
          let (w, thread_pool) = isz_thread_pool_create w (ie_spawn ie) ISZ_THREAD_POOL_SIZE;
              w = (if isz_psi_get_fd psi \<ge> 0 then fst (k_ctl w) else w);
              w = w\<lparr>w_state := ISZ_SERVER_RUNNING\<rparr>
          in Some (kern.truncate w, Some \<lparr>sv_world = w, sv_backend_type = ISZ_BACKEND_HEADLESS, sv_impl = Some (st\<lparr>hs_hook := True\<rparr>),
               sv_epoll_fd = epoll_fd, sv_psi = psi, sv_thread_pool = thread_pool, sv_buffer_cache = isz_buffer_cache_init\<rparr>)) }
     = Some (k', res)
     \<and> (case res of None \<Rightarrow> (0 \<le> epoll_fd \<longrightarrow> epoll_fd \<in> set (k_closed k')) \<and> (0 \<le> pm_fd psi \<longrightarrow> pm_fd psi \<in> set (k_closed k'))
        | Some srv \<Rightarrow> init_ok ie ISZ_BACKEND_HEADLESS config srv)"
proof -
  let ?w0 = "w1\<lparr>w_backend := be\<rparr>"
  have w0: "server_ok ?w0"
  proof -
    have s: "server_ok w1" by (rule server_ok_more [OF server_ok_fresh assms(1)])
    then show ?thesis by (simp add: server_ok_def world_ok_def render_ok_def surfaces_ok_def surf_ok_def outputs_ok_def side_ok_def seats_ok_def
        seat_ok_def conns_ok_def clients_ok_def client_ok_def)
  qed
  have f0: "w_state ?w0 = ISZ_SERVER_UNINITIALIZED" "w_client_list ?w0 = []" "w_listen_fd ?w0 = -1" "bs_pending ?w0 = []" "w_backend ?w0 = be"
    using kern_more_world [OF assms(1)] by (simp_all add: fresh_world_def kern.defs world_init_defs)
  from wrap_outputs_ok [OF w0, of "hs_outputs st"] obtain w2 where w2: "wrap_outputs ?w0 (hs_outputs st) = Some w2" "server_ok w2" "wrap_frame ?w0 w2" by blast
  note f2 = wrap_frame_fields [OF w2(3)]
  have ok2: "world_ok w2" "seats_ok w2" using w2(2) by (simp_all add: server_ok_def world_ok_def side_ok_def)
  from isz_seat_default_ok [OF ok2(2)] obtain w3 seat where
    w3: "isz_seat_default w2 = Some (w3, seat)" "seats_ok w3" "seat_frame w2 w3" "\<forall>r. seat = Some r \<longrightarrow> w_default_seat w3 = Some r" by blast
  have s3: "server_ok w3" using server_ok_step [OF w2(2) step_ok_seat [OF ok2(1) w3(2,3)]] .
  note f3 = seat_frame_fields [OF w3(3)]
  show ?thesis
  proof (cases seat)
    case None
    have "outputs_ok w3" "render_ok w3" using s3 by (simp_all add: server_ok_def world_ok_def)
    from unwrap_all_ok [OF this, of "st\<lparr>hs_hook := True\<rparr>"] obtain w4 where
      "isz_backend_destroy isz_headless_output_hook w3 (Some (be, Some (st\<lparr>hs_hook := True\<rparr>))) = Some w4"
      by (auto simp: isz_backend_destroy_def isz_headless_destroy_def)
    with fail_epoll_closes [of w4 epoll_fd psi] w2(1) w3(1) None show ?thesis by (auto simp: fail_backend_def)
  next
    case (Some r)
    obtain w4 pool where p: "isz_thread_pool_create w3 (ie_spawn ie) 4 = (w4, pool)" by fastforce
    define w5 where "w5 = (if isz_psi_get_fd psi \<ge> 0 then fst (k_ctl w4) else w4)"
    have m4: "kern.more w4 = kern.more w3" using isz_thread_pool_create_more [of w3 "ie_spawn ie" 4] p by simp
    then have m5: "kern.more w5 = kern.more w3" by (simp add: w5_def kern_more_ctl)
    note f5 = kern_more_world [OF m5]
    have s5: "server_ok w5" by (rule server_ok_more [OF s3 m5])
    then have "server_ok (w5\<lparr>w_state := ISZ_SERVER_RUNNING\<rparr>)"
      by (simp add: server_ok_def world_ok_def render_ok_def surfaces_ok_def surf_ok_def outputs_ok_def side_ok_def seats_ok_def
        seat_ok_def conns_ok_def clients_ok_def client_ok_def)
    moreover have "w_listen_fd w3 = w_listen_fd w2" using kern_more_world [OF conjunct1 [OF w3(3) [unfolded seat_frame_def]]] by simp
    ultimately have "init_ok ie ISZ_BACKEND_HEADLESS config \<lparr>sv_world = w5\<lparr>w_state := ISZ_SERVER_RUNNING\<rparr>, sv_backend_type = ISZ_BACKEND_HEADLESS,
        sv_impl = Some (st\<lparr>hs_hook := True\<rparr>), sv_epoll_fd = epoll_fd, sv_psi = psi, sv_thread_pool = pool, sv_buffer_cache = isz_buffer_cache_init\<rparr>"
      using assms(2-4) w3(4) Some f0 by (simp add: init_ok_def f5 f3 f2 psi_def)
    then show ?thesis using w2(1) w3(1) Some p by (simp add: Let_def flip: w5_def)
  qed
qed

lemma isz_init_outcome:
  fixes ie :: init_env
  assumes "snd (k_alloc k)"
  defines "psi \<equiv> isz_psi_init (ie_psi_dir ie) (ie_psi_fd ie)"
  shows "\<exists>k' res. isz_init ie backend config k = Some (k', res)
     \<and> (case res of None \<Rightarrow> (\<forall>fd. ie_epoll_fd ie = Some fd \<and> 0 \<le> fd \<longrightarrow> fd \<in> set (k_closed k')) \<and> (0 \<le> pm_fd psi \<longrightarrow> pm_fd psi \<in> set (k_closed k'))
        | Some srv \<Rightarrow> init_ok ie backend config srv)"
proof -
  obtain k1 where a: "k_alloc k = (k1, True)" using assms(1) by (cases "k_alloc k") simp
  show ?thesis
  proof (cases "ie_epoll_fd ie")
    case None
    with fail_psi_closes [of "fresh_world k1" psi] a show ?thesis by (auto simp: isz_init_def Let_def psi_def)
  next
    case (Some epoll_fd)
    from isz_backend_create_outcome [of "ie_env ie" backend config "fresh_world k1"] obtain w1 b where
      b: "isz_backend_create (ie_env ie) backend config (fresh_world k1) = Some (w1, b)" "kern.more w1 = kern.more (fresh_world k1)"
      "\<forall>be impl. b = Some (be, impl) \<longrightarrow> backend = ISZ_BACKEND_HEADLESS \<and> be_state be = ISZ_BACKEND_READY
         \<and> (\<exists>st. impl = Some st \<and> headless_ok st \<and> hs_outputs st = [first_output (ie_env ie) config])" by blast
    show ?thesis
    proof (cases b)
      case None
      with fail_epoll_closes [of w1 epoll_fd psi] Some a b(1) show ?thesis by (auto simp: isz_init_def Let_def psi_def)
    next
      case (Some x)
      then obtain be st where x: "b = Some (be, Some st)" "backend = ISZ_BACKEND_HEADLESS" "be_state be = ISZ_BACKEND_READY"
        "hs_outputs st = [first_output (ie_env ie) config]" using b(3) by (cases x) auto
      from init_tail [OF b(2) x(3,4) \<open>ie_epoll_fd ie = Some epoll_fd\<close>] a b(1) x \<open>ie_epoll_fd ie = Some epoll_fd\<close> show ?thesis
        by (simp add: isz_init_def Let_def psi_def isz_headless_set_output_hook_def isz_headless_outputs_def cong: if_cong option.case_cong)
    qed
  qed
qed

section \<open>Shutdown\<close>

lemma destroying_emit: "w_state w = ISZ_SERVER_DESTROYING \<Longrightarrow> isz_server_emit_event w e = w"
  by (simp add: isz_server_emit_event_def)

definition clients_live :: "world \<Rightarrow> nat list \<Rightarrow> bool" where
  "clients_live w cls \<longleftrightarrow> distinct cls \<and> (\<forall>cl \<in> set cls. \<exists>c cr k. w_clients w cl = Some c \<and> cl_buffer_cache c = isz_buffer_cache_init
     \<and> cl_conn c = Some cr \<and> w_conns w cr = Some k)
     \<and> (\<forall>cl \<in> set cls. \<forall>cl' \<in> set cls. map_option cl_conn (w_clients w cl) = map_option cl_conn (w_clients w cl') \<longrightarrow> cl = cl')"

lemma clients_ok_live: "clients_ok w \<Longrightarrow> clients_live w (w_client_list w)"
  unfolding clients_ok_def clients_live_def client_ok_def by fastforce

text \<open>What the removal of the clients leaves alone.\<close>

definition destroy_frame :: "world \<Rightarrow> world \<Rightarrow> bool" where
  "destroy_frame w w' \<longleftrightarrow> prefix (k_closed w) (k_closed w')
     \<and> kern.more (w'\<lparr>w_clients := w_clients w, w_client_list := w_client_list w, w_conns := w_conns w\<rparr>) = kern.more w"

lemma destroy_frame_fields:
  assumes "destroy_frame w w'"
  shows "w_state w' = w_state w" "bs_pending w' = bs_pending w" "w_outputs w' = w_outputs w" "w_output_list w' = w_output_list w"
    "w_input_state w' = w_input_state w" "w_seats w' = w_seats w"
    "w_seat_list w' = w_seat_list w" "w_next_seat w' = w_next_seat w" "w_default_seat w' = w_default_seat w"
    "w_text_inputs w' = w_text_inputs w" "w_next_text_input w' = w_next_text_input w"
    "w_input_methods w' = w_input_methods w" "w_next_input_method w' = w_next_input_method w" "w_events w' = w_events w"
  using kern_more_world [OF conjunct2 [OF assms [unfolded destroy_frame_def]]] by simp_all

lemma destroy_clients_spec:
  assumes "w_state w = ISZ_SERVER_DESTROYING" "clients_live w cls"
  shows "\<exists>w'. destroy_clients w cls = Some w' \<and> destroy_frame w w'
    \<and> (\<forall>cl \<in> set cls. \<forall>c cr k. w_clients w cl = Some c \<and> cl_conn c = Some cr \<and> w_conns w cr = Some k \<and> 0 \<le> c_fd k \<longrightarrow> c_fd k \<in> set (k_closed w'))"
  using assms
proof (induction cls arbitrary: w)
  case Nil
  then show ?case by (cases w) (simp add: destroy_frame_def)
next
  case (Cons cl cls)
  from Cons.prems(2) obtain c cr k where c: "w_clients w cl = Some c" "cl_buffer_cache c = isz_buffer_cache_init" "cl_conn c = Some cr" "w_conns w cr = Some k"
    by (auto simp: clients_live_def)
  define w1 where "w1 = isz_conn_close (w\<lparr>w_client_list := cls\<rparr>) k"
  define w2 where "w2 = w1\<lparr>w_conns := (w_conns w1)(cr := None), w_clients := (w_clients w1)(cl := None)\<rparr>"
  have m1: "kern.more w1 = kern.more (w\<lparr>w_client_list := cls\<rparr>)" "prefix (k_closed w) (k_closed w1)" "0 \<le> c_fd k \<Longrightarrow> c_fd k \<in> set (k_closed w1)"
    using isz_conn_close_facts [where k = "w\<lparr>w_client_list := cls\<rparr>" and c = k] by (simp_all add: w1_def)
  have f: "w_state w2 = ISZ_SERVER_DESTROYING" "w_clients w2 = (w_clients w)(cl := None)" "w_conns w2 = (w_conns w)(cr := None)"
    "k_closed w2 = k_closed w1" using kern_more_world [OF m1(1)] Cons.prems(1) by (simp_all add: w2_def)
  have fr: "destroy_frame w w2" using m1 by (cases w; cases w1) (simp add: destroy_frame_def w2_def)
  have other: "w_clients w2 x = w_clients w x \<and> (\<forall>d r. w_clients w x = Some d \<and> cl_conn d = Some r \<longrightarrow> w_conns w2 r = w_conns w r)"
    if "x \<in> set cls" for x
  proof -
    have "x \<noteq> cl" using that Cons.prems(2) by (auto simp: clients_live_def)
    moreover have "map_option cl_conn (w_clients w x) \<noteq> map_option cl_conn (w_clients w cl)"
      using that Cons.prems(2) \<open>x \<noteq> cl\<close> unfolding clients_live_def by (metis list.set_intros)
    ultimately show ?thesis using c by (auto simp: f)
  qed
  have "clients_live w2 cls" unfolding clients_live_def
  proof (intro conjI ballI impI)
    show "distinct cls" using Cons.prems(2) by (simp add: clients_live_def)
    fix x assume x: "x \<in> set cls"
    then obtain d r k' where "w_clients w x = Some d" "cl_buffer_cache d = isz_buffer_cache_init" "cl_conn d = Some r" "w_conns w r = Some k'"
      using Cons.prems(2) by (auto simp: clients_live_def)
    with other [OF x] show "\<exists>c cr k. w_clients w2 x = Some c \<and> cl_buffer_cache c = isz_buffer_cache_init \<and> cl_conn c = Some cr \<and> w_conns w2 cr = Some k" by auto
    fix y assume "y \<in> set cls" "map_option cl_conn (w_clients w2 x) = map_option cl_conn (w_clients w2 y)"
    with x other Cons.prems(2) show "x = y" unfolding clients_live_def by (metis list.set_intros(2))
  qed
  from Cons.IH [OF f(1) this] obtain w' where w': "destroy_clients w2 cls = Some w'" "destroy_frame w2 w'"
    "\<forall>cl \<in> set cls. \<forall>c cr k. w_clients w2 cl = Some c \<and> cl_conn c = Some cr \<and> w_conns w2 cr = Some k \<and> 0 \<le> c_fd k \<longrightarrow> c_fd k \<in> set (k_closed w')" by blast
  have "destroy_clients w (cl # cls) = Some w'"
    using c w'(1) Cons.prems(1) by (simp add: destroying_emit cache_destroy_init w2_def w1_def Let_def)
  moreover have "destroy_frame w w'" using fr w'(2) by (cases w; cases w2; cases w') (auto simp: destroy_frame_def)
  moreover have "0 \<le> c_fd k \<longrightarrow> c_fd k \<in> set (k_closed w')"
    using m1(3) f(4) w'(2) set_mono_prefix by (fastforce simp: destroy_frame_def)
  ultimately show ?case using c w'(3) other by (intro exI [of _ w']) fastforce
qed


lemma destroy_wrappers_spec:
  assumes "distinct rs" "\<forall>r \<in> set rs. w_outputs w r \<noteq> None"
  shows "\<exists>w'. destroy_wrappers w rs = Some w' \<and> k_closed w' = k_closed w
    \<and> kern.more (w'\<lparr>w_outputs := w_outputs w, w_output_list := w_output_list w\<rparr>) = kern.more w"
  using assms
proof (induction rs arbitrary: w)
  case Nil
  then show ?case by (cases w) simp
next
  case (Cons r rs)
  let ?w = "w\<lparr>w_output_list := rs, w_outputs := (w_outputs w)(r := None)\<rparr>"
  from Cons.prems obtain o' where "w_outputs w r = Some o'" by auto
  moreover have "distinct rs" "\<forall>x \<in> set rs. w_outputs ?w x \<noteq> None" using Cons.prems by auto
  from Cons.IH [OF this] obtain w' where "destroy_wrappers ?w rs = Some w'" "k_closed w' = k_closed ?w"
    "kern.more (w'\<lparr>w_outputs := w_outputs ?w, w_output_list := w_output_list ?w\<rparr>) = kern.more ?w" by blast
  ultimately show ?case by (cases w; cases w') simp
qed

lemma free_text_inputs_closed: "free_text_inputs w ts = Some w' \<Longrightarrow> k_closed w' = k_closed w"
  by (induction w ts rule: free_text_inputs.induct) (auto split: bind_splits)

lemma isz_seat_destroy_closed: "isz_seat_destroy w r = Some w' \<Longrightarrow> k_closed w' = k_closed w"
  by (auto simp: isz_seat_destroy_def Let_def dest!: free_text_inputs_closed split: bind_splits option.splits if_splits)

lemma destroy_seats_spec:
  assumes "seats_ok w" "distinct rs" "\<forall>r \<in> set rs. w_seats w r \<noteq> None"
  shows "\<exists>w'. destroy_seats w rs = Some w' \<and> k_closed w' = k_closed w \<and> w_state w' = w_state w \<and> bs_pending w' = bs_pending w"
  using assms
proof (induction rs arbitrary: w)
  case (Cons r rs)
  from Cons.prems obtain s where "w_seats w r = Some s" by auto
  from isz_seat_destroy_ok [OF Cons.prems(1) this] obtain w1 where w1: "isz_seat_destroy w (Some r) = Some w1" "seats_ok w1" "seat_frame w w1"
    "w_seats w1 = (w_seats w)(r := None)" by blast
  have f: "w_state w1 = w_state w" "bs_pending w1 = bs_pending w" "k_closed w1 = k_closed w"
    using kern_more_world [OF conjunct1 [OF w1(3) [unfolded seat_frame_def]]] isz_seat_destroy_closed [OF w1(1)] by simp_all
  have "distinct rs" "\<forall>x \<in> set rs. w_seats w1 x \<noteq> None" using Cons.prems w1(4) by auto
  from Cons.IH [OF w1(2) this] obtain w' where "destroy_seats w1 rs = Some w'" "k_closed w' = k_closed w1" "w_state w' = w_state w1"
    "bs_pending w' = bs_pending w1" by blast
  with w1(1) f show ?case by simp
qed simp

text \<open>The hook does nothing once the server is being destroyed.\<close>

lemma destroying_backend:
  assumes "w_state w = ISZ_SERVER_DESTROYING"
  shows "isz_backend_destroy isz_headless_output_hook w (Some (b, impl)) = Some w"
proof -
  have "destroy_outputs isz_headless_output_hook w st os = Some w" for st os
    using assms by (induction os) (simp_all add: fire_hook_def isz_headless_output_hook_def)
  then show ?thesis by (simp add: isz_backend_destroy_def isz_headless_destroy_def split: option.split)
qed

lemma destroying_objects:
  assumes "server_ok w" "bs_pending w = []"
  defines "w0 \<equiv> (if w_listen_fd w \<ge> 0 then (k_close (w\<lparr>w_state := ISZ_SERVER_DESTROYING\<rparr>) (w_listen_fd w))\<lparr>w_listen_fd := -1\<rparr> else w\<lparr>w_state := ISZ_SERVER_DESTROYING\<rparr>)"
  shows "\<exists>w1 w2 w3. destroy_clients w0 (w_client_list w0) = Some w1 \<and> destroy_wrappers w1 (w_output_list w1) = Some w2
    \<and> (if w_input_state w2 then do { w \<leftarrow> destroy_seats (w2\<lparr>w_output_list_count := 0\<rparr>) (w_seat_list w2); Some (w\<lparr>w_input_state := False\<rparr>) }
       else Some (w2\<lparr>w_output_list_count := 0\<rparr>)) = Some w3
    \<and> w_state w3 = ISZ_SERVER_DESTROYING \<and> bs_pending w3 = []
    \<and> (0 \<le> w_listen_fd w \<longrightarrow> w_listen_fd w \<in> set (k_closed w3))
    \<and> (\<forall>cl \<in> set (w_client_list w). \<forall>c cr k. w_clients w cl = Some c \<and> cl_conn c = Some cr \<and> w_conns w cr = Some k \<and> 0 \<le> c_fd k
         \<longrightarrow> c_fd k \<in> set (k_closed w3))"
proof -
  note ok = assms(1) [unfolded server_ok_def world_ok_def side_ok_def]
  have f0: "w_state w0 = ISZ_SERVER_DESTROYING" "w_clients w0 = w_clients w" "w_client_list w0 = w_client_list w" "w_conns w0 = w_conns w"
    "w_output_list w0 = w_output_list w" "w_outputs w0 = w_outputs w" "bs_pending w0 = []"
    "0 \<le> w_listen_fd w \<Longrightarrow> w_listen_fd w \<in> set (k_closed w0)"
    using assms(2) by (simp_all add: w0_def k_close_def)
  have s0: "seats_ok w0" using ok by (simp add: w0_def seats_ok_def seat_ok_def k_close_def)
  have "clients_live w0 (w_client_list w0)" using clients_ok_live [of w] ok by (simp add: clients_live_def f0)
  from destroy_clients_spec [OF f0(1) this] obtain w1 where w1: "destroy_clients w0 (w_client_list w0) = Some w1" "destroy_frame w0 w1"
    "\<forall>cl \<in> set (w_client_list w0). \<forall>c cr k. w_clients w0 cl = Some c \<and> cl_conn c = Some cr \<and> w_conns w0 cr = Some k \<and> 0 \<le> c_fd k
       \<longrightarrow> c_fd k \<in> set (k_closed w1)" by blast
  note f1 = destroy_frame_fields [OF w1(2)]
  have "distinct (w_output_list w1)" "\<forall>r \<in> set (w_output_list w1). w_outputs w1 r \<noteq> None"
    using ok by (auto simp: f1 f0 outputs_ok_def)
  from destroy_wrappers_spec [OF this] obtain w2 where w2: "destroy_wrappers w1 (w_output_list w1) = Some w2" "k_closed w2 = k_closed w1"
    "kern.more (w2\<lparr>w_outputs := w_outputs w1, w_output_list := w_output_list w1\<rparr>) = kern.more w1" by blast
  note f2 = kern_more_world [OF w2(3), simplified]
  let ?w = "w2\<lparr>w_output_list_count := 0\<rparr>"
  have s2: "seats_ok ?w" using s0 by (simp add: seats_ok_def seat_ok_def f1 f2)
  then have "distinct (w_seat_list ?w)" "\<forall>r \<in> set (w_seat_list ?w). w_seats ?w r \<noteq> None" by (auto simp: seats_ok_def)
  from destroy_seats_spec [OF s2 this] obtain w' where w': "destroy_seats ?w (w_seat_list w2) = Some w'" "k_closed w' = k_closed w2"
    "w_state w' = w_state w2" "bs_pending w' = bs_pending w2" by auto
  let ?w3 = "if w_input_state w2 then w'\<lparr>w_input_state := False\<rparr> else ?w"
  have k: "k_closed ?w3 = k_closed w1" "w_state ?w3 = ISZ_SERVER_DESTROYING" "bs_pending ?w3 = []" using w' w2(2) f0 by (simp_all add: f1 f2)
  have "set (k_closed w0) \<subseteq> set (k_closed w1)" using w1(2) set_mono_prefix unfolding destroy_frame_def by blast
  with k w1 w2(1) w'(1) f0 show ?thesis by (intro exI [of _ w1] exI [of _ w2] exI [of _ ?w3]) auto
qed


section \<open>The invariants of a running server\<close>

text \<open>
  An event is legal when a client's event is for a live client, its bytes hold no message that destroys an object another part still names, and a
  client that goes away owns no surface any more. What is beyond that is in \<open>cleanup_leaves_dangling_conn\<close> and \<open>buffer_destroy_dangles\<close>.
\<close>

fun event_legal :: "world \<Rightarrow> isz_fd_tag \<Rightarrow> bool" where
  "event_legal w (ISZ_FD_CLIENT cl) \<longleftrightarrow> (\<exists>c cr k. w_clients w cl = Some c \<and> cl_conn c = Some cr \<and> w_conns w cr = Some k
     \<and> stream_clean (rs_bytes (c_recv_state k) @ recv_stream w)
     \<and> (\<forall>w'. isz_recv_client_messages w (Some cl) = Some w' \<and> w_clients w' cl = None \<longrightarrow>
          (\<forall>r s. w_surfaces w' r = Some s \<longrightarrow> sf_owning_conn s \<noteq> Some cr)))"
| "event_legal w _ \<longleftrightarrow> True"

text \<open>A tick is legal when each of its events is, and no release of a buffer waits for a fence at its end, as none does without DRM.\<close>

fun tick_legal :: "(int \<Rightarrow> proc_info) \<Rightarrow> server \<Rightarrow> isz_fd_tag option list \<Rightarrow> bool" where
  "tick_legal proc srv [] \<longleftrightarrow> bs_pending (sv_world srv) = []"
| "tick_legal proc srv (None # evs) \<longleftrightarrow> tick_legal proc srv evs"
| "tick_legal proc srv (Some tag # evs) \<longleftrightarrow> event_legal (sv_world srv) tag
     \<and> (\<forall>srv'. dispatch_one proc srv tag = Some srv' \<longrightarrow> tick_legal proc srv' evs)"

lemma isz_listen_ok:
  assumes "server_ok w" "isz_listen w fd = (w', rc)"
  shows "server_ok w'"
proof -
  have "server_ok (v\<lparr>w_listen_fd := x\<rparr>)" if "server_ok v" for v x
    using that by (simp add: server_ok_def world_ok_def render_ok_def surfaces_ok_def surf_ok_def outputs_ok_def side_ok_def seats_ok_def
        seat_ok_def conns_ok_def clients_ok_def client_ok_def)
  moreover have "server_ok v'" if "server_ok v" "k_ctl v = (v', b)" for v v' b
    using server_ok_more [OF that(1), of v'] kern_more_ctl [of v] that(2) by simp
  ultimately show ?thesis using assms by (auto simp: isz_listen_def Let_def split: if_splits prod.splits) blast+
qed

lemma recv_event_ok:
  assumes "server_ok w" "event_legal w (ISZ_FD_CLIENT cl)"
  shows "\<exists>w'. isz_recv_client_messages w (Some cl) = Some w' \<and> server_ok w'"
proof -
  from assms(2) obtain c cr k where c: "w_clients w cl = Some c" "cl_conn c = Some cr" "w_conns w cr = Some k"
    "stream_clean (rs_bytes (c_recv_state k) @ recv_stream w)" and
    free: "\<forall>w'. isz_recv_client_messages w (Some cl) = Some w' \<and> w_clients w' cl = None \<longrightarrow>
      (\<forall>r s. w_surfaces w' r = Some s \<longrightarrow> sf_owning_conn s \<noteq> Some cr)" by auto
  have m: "kern.more (w\<lparr>k_recvs := []\<rparr>) = kern.more w" by simp
  have con: "connected w cl cr k" using c by (auto simp: connected_def)
  from recv_messages_total [OF server_ok_more [OF assms(1) m] connected_more [OF con m], of "k_recvs w"] c(4) obtain w' where
    r: "recv_messages_loop (k_recvs w) (w\<lparr>k_recvs := []\<rparr>) cl = Some w'" and
    o': "server_ok w' \<or> (\<exists>v k'. server_ok v \<and> connected v cl cr k' \<and> isz_client_cleanup v (Some cl) = Some w')" by auto
  have run: "isz_recv_client_messages w (Some cl) = Some w'" using c r by (simp add: isz_recv_client_messages_def)
  moreover have "server_ok w'" if v: "server_ok v" "connected v cl cr k'" "isz_client_cleanup v (Some cl) = Some w'" for v k'
  proof -
    from v(1) have ok: "clients_ok v" "world_ok v" by (simp_all add: server_ok_def)
    from v(2) obtain d where d: "w_clients v cl = Some d" "cl_conn d = Some cr" "w_conns v cr = Some k'" by (auto simp: connected_def)
    from isz_client_cleanup_spec [OF ok(1) d] v(3) have w': "kern.more w' = kern.more (dropped v cl cr)" by auto
    note f = kern_more_world [OF w']
    have "w_clients w' cl = None" "w_surfaces w' = w_surfaces v" by (simp_all add: f dropped_def isz_server_emit_event_def)
    with free run have "world_ok (dropped v cl cr)" by (intro world_ok_dropped [OF ok(2)]) auto
    then have "server_ok (dropped v cl cr)" using clients_ok_dropped [OF ok(1) d(1,2)] by (simp add: server_ok_def)
    then show ?thesis by (rule server_ok_more [OF _ w'])
  qed
  ultimately show ?thesis using o' by blast
qed

lemma accept_event_ok:
  assumes "server_ok w"
  shows "\<exists>w'. isz_accept_connection proc w = Some w' \<and> server_ok w'"
proof -
  have "server_ok (w\<lparr>k_accepts := []\<rparr>)" by (rule server_ok_more [OF assms]) simp
  from accept_loop_post [OF this, of proc "k_accepts w"] assms show ?thesis by (auto simp: isz_accept_connection_def accept_post_def)
qed

lemma server_ok_backend: "server_ok w \<Longrightarrow> server_ok (w\<lparr>w_backend := be\<rparr>)"
  by (simp add: server_ok_def world_ok_def render_ok_def surfaces_ok_def surf_ok_def outputs_ok_def side_ok_def seats_ok_def
      seat_ok_def conns_ok_def clients_ok_def client_ok_def)

lemma dispatch_one_ok:
  assumes "server_ok (sv_world srv)" "event_legal (sv_world srv) tag"
  shows "\<exists>srv'. dispatch_one proc srv tag = Some srv' \<and> server_ok (sv_world srv')"
proof (cases tag)
  case ISZ_FD_LISTEN
  with accept_event_ok [OF assms(1), of proc] show ?thesis by (auto simp: dispatch_one_def)
next
  case (ISZ_FD_CLIENT cl)
  with recv_event_ok [OF assms(1), of cl] assms(2) show ?thesis by (auto simp: dispatch_one_def)
qed (use assms(1) in \<open>simp_all add: dispatch_one_def Let_def server_ok_backend\<close>)

lemma dispatch_loop_ok:
  assumes "server_ok (sv_world srv)" "tick_legal proc srv evs"
  shows "\<exists>srv'. dispatch_loop proc srv evs = Some srv' \<and> server_ok (sv_world srv') \<and> bs_pending (sv_world srv') = []"
  using assms
proof (induction proc srv evs rule: dispatch_loop.induct)
  case (3 proc srv tag evs)
  from dispatch_one_ok [OF "3.prems"(1), of tag proc] "3.prems"(2) obtain srv1 where
    s: "dispatch_one proc srv tag = Some srv1" "server_ok (sv_world srv1)" "tick_legal proc srv1 evs" by auto
  with "3.IH" [OF s] show ?case by simp
qed simp_all

lemma isz_dispatch_ok:
  assumes "server_ok (sv_world srv)" "tick_legal proc srv evs" "sv_epoll_fd srv \<ge> 0"
  shows "\<exists>srv'. isz_dispatch proc srv evs = Some srv' \<and> server_ok (sv_world srv')"
  using dispatch_loop_ok [OF assms(1,2)] assms(1,3) by (auto simp: isz_dispatch_def isz_buffer_poll_out_fences_def)


lemma dispatch_one_epoll: "dispatch_one proc srv tag = Some srv' \<Longrightarrow> sv_epoll_fd srv' = sv_epoll_fd srv"
  by (auto simp: dispatch_one_def Let_def split: isz_fd_tag.splits bind_splits)

lemma isz_dispatch_epoll: "isz_dispatch proc srv evs = Some srv' \<Longrightarrow> sv_epoll_fd srv' = sv_epoll_fd srv"
proof -
  have "dispatch_loop proc srv evs = Some srv' \<Longrightarrow> sv_epoll_fd srv' = sv_epoll_fd srv" for srv srv'
    by (induction proc srv evs rule: dispatch_loop.induct) (auto dest: dispatch_one_epoll split: bind_splits)
  then show "isz_dispatch proc srv evs = Some srv' \<Longrightarrow> sv_epoll_fd srv' = sv_epoll_fd srv"
    by (fastforce simp: isz_dispatch_def split: if_splits bind_splits)
qed

text \<open>The states a server can be in: it was started, the outside world changes what the next system calls give, the program listens, and it
  dispatches legal ticks. \<^verbatim>\<open>epoll_create1\<close> gives no negative descriptor.\<close>

inductive server_reach :: "(int \<Rightarrow> proc_info) \<Rightarrow> server \<Rightarrow> bool" for proc where
  start: "isz_init ie backend config k = Some (k', Some srv) \<Longrightarrow> snd (k_alloc k) \<Longrightarrow> (\<And>fd. ie_epoll_fd ie = Some fd \<Longrightarrow> 0 \<le> fd) \<Longrightarrow> server_reach proc srv"
| outside: "server_reach proc srv \<Longrightarrow> kern.more w = kern.more (sv_world srv) \<Longrightarrow> server_reach proc (srv\<lparr>sv_world := w\<rparr>)"
| listen: "server_reach proc srv \<Longrightarrow> isz_listen (sv_world srv) fd = (w, rc) \<Longrightarrow> server_reach proc (srv\<lparr>sv_world := w\<rparr>)"
| tick: "server_reach proc srv \<Longrightarrow> tick_legal proc srv evs \<Longrightarrow> isz_dispatch proc srv evs = Some srv' \<Longrightarrow> server_reach proc srv'"

lemma server_reach_ok: "server_reach proc srv \<Longrightarrow> server_ok (sv_world srv) \<and> 0 \<le> sv_epoll_fd srv"
proof (induction rule: server_reach.induct)
  case (start ie backend config k k' srv)
  with isz_init_outcome [OF start(2), of ie backend config] show ?case by (auto simp: init_ok_def)
next
  case (outside srv w)
  then show ?case using server_ok_more by auto
next
  case (listen srv fd w rc)
  then show ?case using isz_listen_ok by auto
next
  case (tick srv evs srv')
  with isz_dispatch_ok [of srv proc evs] isz_dispatch_epoll [OF tick.hyps(3)] show ?case by auto
qed

section \<open>Properties\<close>

text \<open>C29: \<^verbatim>\<open>isz_init\<close> returns. When it gives a server, the server is in the running state and has every invariant of the components, the headless
  backend is ready with its first output and the default seat exists. When it gives none, the epoll descriptor and the descriptor of the pressure
  monitor are closed.\<close>

theorem init_establishes_invariants:
  assumes "snd (k_alloc k)"
  shows "\<exists>k' res. isz_init ie backend config k = Some (k', res)
     \<and> (case res of
          None \<Rightarrow> (\<forall>fd. ie_epoll_fd ie = Some fd \<and> 0 \<le> fd \<longrightarrow> fd \<in> set (k_closed k'))
            \<and> (\<forall>fd. ie_psi_dir ie \<and> ie_psi_fd ie = Some fd \<and> 0 \<le> fd \<longrightarrow> fd \<in> set (k_closed k'))
        | Some srv \<Rightarrow> server_ok (sv_world srv) \<and> w_state (sv_world srv) = ISZ_SERVER_RUNNING \<and> backend = ISZ_BACKEND_HEADLESS
            \<and> be_state (w_backend (sv_world srv)) = ISZ_BACKEND_READY \<and> w_default_seat (sv_world srv) \<noteq> None
            \<and> w_client_list (sv_world srv) = [] \<and> w_listen_fd (sv_world srv) = -1
            \<and> (\<exists>st. sv_impl srv = Some st \<and> hs_outputs st = [first_output (ie_env ie) config])
            \<and> ie_epoll_fd ie = Some (sv_epoll_fd srv))"
proof -
  from isz_init_outcome [OF assms, of ie backend config] obtain k' res where
    r: "isz_init ie backend config k = Some (k', res)"
    "case res of None \<Rightarrow> (\<forall>fd. ie_epoll_fd ie = Some fd \<and> 0 \<le> fd \<longrightarrow> fd \<in> set (k_closed k'))
        \<and> (0 \<le> pm_fd (isz_psi_init (ie_psi_dir ie) (ie_psi_fd ie)) \<longrightarrow> pm_fd (isz_psi_init (ie_psi_dir ie) (ie_psi_fd ie)) \<in> set (k_closed k'))
      | Some srv \<Rightarrow> init_ok ie backend config srv" by blast
  show ?thesis
  proof (cases res)
    case None
    with r show ?thesis by (auto simp: isz_psi_init_def Let_def)
  next
    case (Some srv)
    with r show ?thesis by (auto simp: init_ok_def)
  qed
qed

text \<open>A system where everything \<^verbatim>\<open>isz_init\<close> asks for succeeds.\<close>

definition plain_env :: init_env where
  "plain_env = \<lparr>ie_env = (\<lambda>_. None), ie_psi_dir = True, ie_psi_fd = Some 7, ie_epoll_fd = Some 5, ie_spawn = [True, True, True, True]\<rparr>"

lemma plain_init: "\<exists>k srv. isz_init plain_env ISZ_BACKEND_HEADLESS None kern_init = Some (k, Some srv)"
proof -
  have al: "k_alloc w = (w, True)" if "k_allocs w = []" for w :: "'z kern_scheme" using that by (simp add: k_alloc_def)
  have p: "\<exists>w' pool. isz_thread_pool_create w sp n = (w', pool)" for w :: world and sp n by fastforce
  show ?thesis
    by (simp add: isz_init_def plain_env_def al kern_init_def isz_backend_create_def isz_headless_init_def append_output_def ensure_capacity_def
        fresh_world_def kern.defs world_init_defs fire_hook_def isz_headless_set_output_hook_def isz_headless_outputs_def
        isz_server_wrap_headless_output_def headless_wrapped.simps isz_output_build_headless_slots_def isz_seat_default_def ensure_input_state_def
        isz_seat_create_def Let_def grow_cap.simps upd_seat_def upd_output_def isz_server_emit_event_def split: prod.split)
qed


theorem init_establishes_invariants_witness:
  "\<exists>k srv. isz_init plain_env ISZ_BACKEND_HEADLESS None kern_init = Some (k, Some srv) \<and> server_ok (sv_world srv) \<and> sv_epoll_fd srv = 5
    \<and> w_default_seat (sv_world srv) \<noteq> None"
proof -
  have "snd (k_alloc kern_init)" by (simp add: k_alloc_def kern_init_def)
  from init_establishes_invariants [OF this, of plain_env ISZ_BACKEND_HEADLESS None] plain_init show ?thesis by (auto simp: plain_env_def)
qed



text \<open>C31: \<^verbatim>\<open>isz_destroy\<close> returns, and it has closed the listening socket, the socket of every client, the pressure
  monitor and the epoll set. The hypotheses are the invariant of the server, and what holds in the build without DRM: no backend event is pending and the import cache is empty.\<close>

theorem destroy_closes_everything:
  assumes "server_ok (sv_world srv)" and "bs_pending (sv_world srv) = []" and "sv_buffer_cache srv = isz_buffer_cache_init"
  shows "\<exists>k'. isz_destroy srv = Some k'
    \<and> (\<forall>fd. 0 \<le> fd \<and> (fd = w_listen_fd (sv_world srv) \<or> fd = pm_fd (sv_psi srv) \<or> fd = sv_epoll_fd srv
         \<or> (\<exists>cl c cr conn. w_clients (sv_world srv) cl = Some c \<and> cl_conn c = Some cr \<and> w_conns (sv_world srv) cr = Some conn \<and> c_fd conn = fd))
        \<longrightarrow> fd \<in> set (k_closed k'))"
proof -
  let ?w = "sv_world srv"
  define w0 where "w0 = (if w_listen_fd ?w \<ge> 0 then (k_close (?w\<lparr>w_state := ISZ_SERVER_DESTROYING\<rparr>) (w_listen_fd ?w))\<lparr>w_listen_fd := -1\<rparr>
    else ?w\<lparr>w_state := ISZ_SERVER_DESTROYING\<rparr>)"
  from destroying_objects [OF assms(1,2), folded w0_def] obtain w1 w2 w3 where
    r: "destroy_clients w0 (w_client_list w0) = Some w1" "destroy_wrappers w1 (w_output_list w1) = Some w2"
    "(if w_input_state w2 then do { w \<leftarrow> destroy_seats (w2\<lparr>w_output_list_count := 0\<rparr>) (w_seat_list w2); Some (w\<lparr>w_input_state := False\<rparr>) }
       else Some (w2\<lparr>w_output_list_count := 0\<rparr>)) = Some w3" and
    s: "w_state w3 = ISZ_SERVER_DESTROYING" "bs_pending w3 = []" and
    cl: "0 \<le> w_listen_fd ?w \<longrightarrow> w_listen_fd ?w \<in> set (k_closed w3)"
    "\<forall>cl \<in> set (w_client_list ?w). \<forall>c cr k. w_clients ?w cl = Some c \<and> cl_conn c = Some cr \<and> w_conns ?w cr = Some k \<and> 0 \<le> c_fd k
         \<longrightarrow> c_fd k \<in> set (k_closed w3)" by blast
  have "cl \<in> set (w_client_list ?w)" if "w_clients ?w cl = Some c" for cl c
    using assms(1) that by (auto simp: server_ok_def clients_ok_def)
  with cl(2) have sock: "c_fd conn \<in> set (k_closed w3)"
    if "w_clients ?w cl = Some c" "cl_conn c = Some cr" "w_conns ?w cr = Some conn" "0 \<le> c_fd conn" for cl c cr conn using that by blast
  define w4 where "w4 = fst (isz_psi_destroy (w3\<lparr>w_allow_binaries := [], w_allow_cgroups := []\<rparr>) (sv_psi srv))"
  have w4: "bs_pending w4 = []" "set (k_closed w3) \<subseteq> set (k_closed w4)" "0 \<le> pm_fd (sv_psi srv) \<longrightarrow> pm_fd (sv_psi srv) \<in> set (k_closed w4)"
    using s(2) by (auto simp: w4_def isz_psi_destroy_def k_close_def)
  define w5 where "w5 = (if sv_epoll_fd srv \<ge> 0 then k_close w4 (sv_epoll_fd srv) else w4)"
  have w5: "set (k_closed w4) \<subseteq> set (k_closed w5)" "0 \<le> sv_epoll_fd srv \<longrightarrow> sv_epoll_fd srv \<in> set (k_closed w5)"
    by (auto simp: w5_def k_close_def)
  have "isz_destroy srv = Some (kern.truncate w5)"
    using r s w4(1) assms(3)
    by (simp add: isz_destroy_def Let_def destroying_backend cache_destroy_init isz_buffer_release_destroy_def case_prod_beta
        flip: w0_def w4_def w5_def cong: if_cong)
  moreover have "k_closed (kern.truncate w5) = k_closed w5" by (simp add: kern.defs)
  ultimately show ?thesis using cl(1) sock w4(2,3) w5 by (intro exI [of _ "kern.truncate w5"]) (simp, blast)
qed


definition client_server :: server where
  "client_server = \<lparr>sv_world = client_world\<lparr>w_listen_fd := 4\<rparr>, sv_backend_type = ISZ_BACKEND_HEADLESS, sv_impl = None, sv_epoll_fd = 5,
     sv_psi = isz_psi_init True (Some 6), sv_thread_pool = None, sv_buffer_cache = isz_buffer_cache_init\<rparr>"

theorem destroy_closes_everything_witness:
  "\<exists>k'. isz_destroy client_server = Some k' \<and> 4 \<in> set (k_closed k') \<and> 5 \<in> set (k_closed k') \<and> 6 \<in> set (k_closed k')"
proof -
  have "server_ok (sv_world client_server)"
    using server_ok_client_world by (simp add: client_server_def server_ok_def world_ok_def render_ok_def surfaces_ok_def surf_ok_def outputs_ok_def
        side_ok_def seats_ok_def seat_ok_def conns_ok_def clients_ok_def client_ok_def)
  moreover have "bs_pending (sv_world client_server) = []"
    by (simp add: client_server_def client_world_def showing_world_def session_world_def world_init_defs)
  ultimately show ?thesis using destroy_closes_everything [of client_server]
    by (fastforce simp: client_server_def isz_psi_init_def)
qed

text \<open>The state \<^verbatim>\<open>DESTROYING\<close> is set before the clients are disconnected, and no event is delivered in that state: a listener never sees the
  \<^verbatim>\<open>CLIENT_DISCONNECT\<close> that the loop over the clients emits.\<close>

lemma destroy_emits_nothing:
  assumes "w_state w = ISZ_SERVER_DESTROYING" "clients_live w cls"
  shows "\<exists>w'. destroy_clients w cls = Some w' \<and> w_events w' = w_events w"
  using destroy_clients_spec [OF assms] destroy_frame_fields(14) by blast

end
