(* ===== verification/Isz_List.thy ===== *)
theory Isz_List
  imports Isz_Prelude
begin

text \<open>
  The intrusive doubly linked lists of \<^verbatim>\<open>src/util/isz_list.h\<close>, on a store of nodes. A node that was freed is absent from the store,
  and an access to it is \<open>None\<close>. The other theories keep such lists as HOL lists of references; this theory shows that
  the pointer operations implement them: the locale \<open>linked_seq\<close> is the contract, interpreted on the code's operations.
\<close>

section \<open>Operations\<close>

record isz_list_node =
  ln_prev :: nat
  ln_next :: nat

type_synonym lstore = "nat \<Rightarrow> isz_list_node option"

definition isz_list_init :: "lstore \<Rightarrow> nat \<Rightarrow> lstore" where
  "isz_list_init h l = h(l \<mapsto> \<lparr>ln_prev = l, ln_next = l\<rparr>)"

definition isz_list_empty :: "lstore \<Rightarrow> nat \<Rightarrow> bool option" where
  "isz_list_empty h l = do { s \<leftarrow> h l; Some (ln_next s = l) }"

text \<open>\<^verbatim>\<open>a->next = b\<close> and \<^verbatim>\<open>a->prev = b\<close>\<close>

definition set_next :: "lstore \<Rightarrow> nat \<Rightarrow> nat \<Rightarrow> lstore option" where
  "set_next h a b = do { m \<leftarrow> h a; Some (h(a \<mapsto> m\<lparr>ln_next := b\<rparr>)) }"

definition set_prev :: "lstore \<Rightarrow> nat \<Rightarrow> nat \<Rightarrow> lstore option" where
  "set_prev h a b = do { m \<leftarrow> h a; Some (h(a \<mapsto> m\<lparr>ln_prev := b\<rparr>)) }"

definition isz_list_insert :: "lstore \<Rightarrow> nat \<Rightarrow> nat \<Rightarrow> nat \<Rightarrow> lstore option" where
  "isz_list_insert h n prev next = do {
     h \<leftarrow> set_next h prev n;
     h \<leftarrow> set_prev h next n;
     h \<leftarrow> set_prev h n prev;
     set_next h n next
   }"

definition isz_list_push_back :: "lstore \<Rightarrow> nat \<Rightarrow> nat \<Rightarrow> lstore option" where
  "isz_list_push_back h l n = do { s \<leftarrow> h l; isz_list_insert h n (ln_prev s) l }"

definition isz_list_push_front :: "lstore \<Rightarrow> nat \<Rightarrow> nat \<Rightarrow> lstore option" where
  "isz_list_push_front h l n = do { s \<leftarrow> h l; isz_list_insert h n l (ln_next s) }"

definition isz_list_remove :: "lstore \<Rightarrow> nat \<Rightarrow> lstore option" where
  "isz_list_remove h n = do {
     m \<leftarrow> h n;
     h \<leftarrow> set_next h (ln_prev m) (ln_next m);
     m \<leftarrow> h n;
     h \<leftarrow> set_prev h (ln_next m) (ln_prev m);
     h \<leftarrow> set_prev h n n;
     set_next h n n
   }"

definition isz_list_pop_front :: "lstore \<Rightarrow> nat \<Rightarrow> (lstore \<times> nat option) option" where
  "isz_list_pop_front h l = do {
     s \<leftarrow> h l;
     let n = ln_next s;
     (if n = l then Some (h, None) else do { h \<leftarrow> isz_list_remove h n; Some (h, Some n) })
   }"

section \<open>The list a store represents\<close>

definition nextf :: "lstore \<Rightarrow> nat \<Rightarrow> nat option" where
  "nextf h a = map_option ln_next (h a)"

definition prevf :: "lstore \<Rightarrow> nat \<Rightarrow> nat option" where
  "prevf h a = map_option ln_prev (h a)"

definition is_list :: "lstore \<Rightarrow> nat \<Rightarrow> nat list \<Rightarrow> bool" where
  "is_list h l xs \<longleftrightarrow> distinct (l # xs)
     \<and> map (nextf h) (l # xs) = map Some (xs @ [l]) \<and> map (prevf h) (xs @ [l]) = map Some (l # xs)"

lemma live_iff: "h a = None \<longleftrightarrow> nextf h a = None" "h a = None \<longleftrightarrow> prevf h a = None"
  by (simp_all add: nextf_def prevf_def)

lemma set_next_fields:
  assumes "h a \<noteq> None"
  shows "\<exists>h'. set_next h a b = Some h' \<and> nextf h' = (nextf h)(a \<mapsto> b) \<and> prevf h' = prevf h \<and> dom h' = dom h"
proof -
  from assms obtain m where "h a = Some m" by auto
  then show ?thesis by (intro exI [of _ "h(a \<mapsto> m\<lparr>ln_next := b\<rparr>)"]) (auto simp: set_next_def nextf_def prevf_def)
qed

lemma set_prev_fields:
  assumes "h a \<noteq> None"
  shows "\<exists>h'. set_prev h a b = Some h' \<and> prevf h' = (prevf h)(a \<mapsto> b) \<and> nextf h' = nextf h \<and> dom h' = dom h"
proof -
  from assms obtain m where "h a = Some m" by auto
  then show ?thesis by (intro exI [of _ "h(a \<mapsto> m\<lparr>ln_prev := b\<rparr>)"]) (auto simp: set_prev_def nextf_def prevf_def)
qed

lemma isz_list_insert_fields:
  assumes "h n \<noteq> None" "h p \<noteq> None" "h q \<noteq> None"
  shows "\<exists>h'. isz_list_insert h n p q = Some h' \<and> dom h' = dom h
    \<and> nextf h' = (nextf h)(p \<mapsto> n, n \<mapsto> q) \<and> prevf h' = (prevf h)(q \<mapsto> n, n \<mapsto> p)"
proof -
  obtain h1 where h1: "set_next h p n = Some h1" "nextf h1 = (nextf h)(p \<mapsto> n)" "prevf h1 = prevf h" "dom h1 = dom h"
    using set_next_fields [of h p n] assms by blast
  obtain h2 where h2: "set_prev h1 q n = Some h2" "prevf h2 = (prevf h1)(q \<mapsto> n)" "nextf h2 = nextf h1" "dom h2 = dom h1"
    using set_prev_fields [of h1 q n] assms h1(4) by blast
  obtain h3 where h3: "set_prev h2 n p = Some h3" "prevf h3 = (prevf h2)(n \<mapsto> p)" "nextf h3 = nextf h2" "dom h3 = dom h2"
    using set_prev_fields [of h2 n p] assms h1(4) h2(4) by blast
  obtain h4 where h4: "set_next h3 n q = Some h4" "nextf h4 = (nextf h3)(n \<mapsto> q)" "prevf h4 = prevf h3" "dom h4 = dom h3"
    using set_next_fields [of h3 n q] assms h1(4) h2(4) h3(4) by blast
  show ?thesis using h1 h2 h3 h4 by (simp add: isz_list_insert_def)
qed

lemma isz_list_remove_fields:
  assumes "nextf h n = Some q" "prevf h n = Some p" "h p \<noteq> None" "h q \<noteq> None" "p \<noteq> n" "q \<noteq> n"
  shows "\<exists>h'. isz_list_remove h n = Some h' \<and> dom h' = dom h
    \<and> nextf h' = (nextf h)(p \<mapsto> q, n \<mapsto> n) \<and> prevf h' = (prevf h)(q \<mapsto> p, n \<mapsto> n)"
proof -
  from assms obtain m where m: "h n = Some m" "ln_next m = q" "ln_prev m = p" by (auto simp: nextf_def prevf_def)
  obtain h1 where h1: "set_next h p q = Some h1" "nextf h1 = (nextf h)(p \<mapsto> q)" "prevf h1 = prevf h" "dom h1 = dom h"
    using set_next_fields [of h p q] assms by blast
  then have m1: "h1 n = Some m" using m(1) assms(3,5) by (auto simp: set_next_def)
  obtain h2 where h2: "set_prev h1 q p = Some h2" "prevf h2 = (prevf h1)(q \<mapsto> p)" "nextf h2 = nextf h1" "dom h2 = dom h1"
    using set_prev_fields [of h1 q p] assms h1(4) by blast
  obtain h3 where h3: "set_prev h2 n n = Some h3" "prevf h3 = (prevf h2)(n \<mapsto> n)" "nextf h3 = nextf h2" "dom h3 = dom h2"
    using set_prev_fields [of h2 n n] m(1) h1(4) h2(4) by blast
  obtain h4 where h4: "set_next h3 n n = Some h4" "nextf h4 = (nextf h3)(n \<mapsto> n)" "prevf h4 = prevf h3" "dom h4 = dom h3"
    using set_next_fields [of h3 n n] m(1) h1(4) h2(4) h3(4) by blast
  show ?thesis using m m1 h1 h2 h3 h4 by (simp add: isz_list_remove_def)
qed

lemma is_list_live:
  assumes "is_list h l xs" "a \<in> set (l # xs)"
  shows "h a \<noteq> None"
proof
  assume "h a = None"
  then have "nextf h a = None" by (simp add: nextf_def)
  with assms(2) have "None \<in> set (map (nextf h) (l # xs))" by (metis image_eqI list.set_map)
  with assms(1) show False unfolding is_list_def by auto
qed

lemma is_list_hd: "is_list h l xs \<Longrightarrow> nextf h l = Some (hd (xs @ [l]))"
  by (cases xs) (simp_all add: is_list_def)

lemma is_list_last:
  assumes "is_list h l xs"
  shows "prevf h l = Some (last (l # xs))"
proof (cases xs rule: rev_cases)
  case (snoc ys y)
  with assms have "map (prevf h) (ys @ [y, l]) = map Some (l # ys @ [y])" by (simp add: is_list_def)
  then have "map (prevf h) (ys @ [y]) @ [prevf h l] = map Some (l # ys) @ [Some y]" by simp
  then show ?thesis using snoc by simp
qed (use assms in \<open>simp add: is_list_def\<close>)

lemma isz_list_init_spec: "is_list (isz_list_init h l) l []"
  by (simp add: is_list_def isz_list_init_def nextf_def prevf_def)

lemma isz_list_empty_spec: "is_list h l xs \<Longrightarrow> isz_list_empty h l = Some (xs = [])"
  by (cases xs) (auto simp: isz_list_empty_def is_list_def nextf_def)

text \<open>The two halves of a list: \<open>p\<close> and \<open>q\<close> are the neighbours at the cut.\<close>

lemma is_list_split:
  assumes "l # us = B @ [p]" "vs @ [l] = q # T"
  shows "is_list h l (us @ vs) \<longleftrightarrow> distinct (B @ p # vs)
     \<and> map (nextf h) B = map Some us \<and> nextf h p = Some q \<and> map (nextf h) vs = map Some T
     \<and> map (prevf h) us = map Some B \<and> prevf h q = Some p \<and> map (prevf h) T = map Some vs"
proof -
  have n: "l # us @ vs = B @ p # vs" and p: "(us @ vs) @ [l] = us @ q # T" using assms by simp_all
  have "length (l # us) = length (B @ [p])" using assms(1) by (rule arg_cong)
  then have len: "length B = length us" by simp
  show ?thesis unfolding is_list_def p n using len by (auto simp: append_eq_append_conv)
qed

lemma cut_facts:
  assumes "l # us = B @ [p]" "vs @ [l] = q # T"
  shows "set (q # T) = insert l (set vs)" "set (B @ [p]) = insert l (set us)"
    "distinct (us @ q # T) \<longleftrightarrow> distinct (l # us @ vs)" "distinct (B @ p # vs) \<longleftrightarrow> distinct (l # us @ vs)"
proof -
  have "set (q # T) = set (vs @ [l])" "set (B @ [p]) = set (l # us)" unfolding assms by (rule refl)+
  then show "set (q # T) = insert l (set vs)" "set (B @ [p]) = insert l (set us)" by simp_all
  have e: "us @ q # T = us @ vs @ [l]" "B @ p # vs = l # us @ vs" using assms by simp_all
  show "distinct (us @ q # T) \<longleftrightarrow> distinct (l # us @ vs)" "distinct (B @ p # vs) \<longleftrightarrow> distinct (l # us @ vs)" unfolding e by auto
qed

lemma cut_exists: "\<exists>B p. l # us = B @ [p]" "\<exists>q T. vs @ [l] = q # T"
proof -
  have "l # us = butlast (l # us) @ [last (l # us)]" by simp
  then show "\<exists>B p. l # us = B @ [p]" by blast
  show "\<exists>q T. vs @ [l] = q # T" by (cases vs) simp_all
qed

lemma is_list_insert:
  assumes "is_list h l (us @ vs)" "l # us = B @ [p]" "vs @ [l] = q # T" "n \<notin> set (l # us @ vs)"
    "nextf h' = (nextf h)(p \<mapsto> n, n \<mapsto> q)" "prevf h' = (prevf h)(q \<mapsto> n, n \<mapsto> p)"
  shows "is_list h' l (us @ n # vs)"
proof -
  note c = assms(1) [unfolded is_list_split [OF assms(2,3)]] and f = cut_facts [OF assms(2,3)]
  have d: "distinct (us @ q # T)" using c f by blast
  have n: "n \<notin> set (q # T)" "n \<notin> set (B @ [p])" "n \<notin> set us" "n \<notin> set vs" unfolding f using assms(4) by auto
  have v: "(n # vs) @ [l] = n # q # T" using assms(3) by simp
  show ?thesis unfolding is_list_split [OF assms(2) v] using c d n by (auto simp: assms(5,6))
qed

lemma is_list_delete:
  assumes "is_list h l (us @ n # vs)" "l # us = B @ [p]" "vs @ [l] = q # T"
  shows "nextf h n = Some q" "prevf h n = Some p" "p \<noteq> n" "q \<noteq> n"
    "nextf h' = (nextf h)(p \<mapsto> q, n \<mapsto> n) \<Longrightarrow> prevf h' = (prevf h)(q \<mapsto> p, n \<mapsto> n) \<Longrightarrow> is_list h' l (us @ vs)"
proof -
  have v: "(n # vs) @ [l] = n # q # T" using assms(3) by simp
  note c = assms(1) [unfolded is_list_split [OF assms(2) v]] and f = cut_facts [OF assms(2,3)]
  have n: "n \<notin> set (l # us @ vs)" "distinct (l # us @ vs)" using assms(1) unfolding is_list_def by auto
  then have n': "n \<notin> set (q # T)" "n \<notin> set (B @ [p])" "distinct (us @ q # T)" "distinct (B @ p # vs)"
    unfolding f by auto
  show "is_list h' l (us @ vs)" if "nextf h' = (nextf h)(p \<mapsto> q, n \<mapsto> n)" "prevf h' = (prevf h)(q \<mapsto> p, n \<mapsto> n)"
    unfolding is_list_split [OF assms(2,3)] using c n n' by (auto simp: that)
  show "nextf h n = Some q" "prevf h n = Some p" "p \<noteq> n" "q \<noteq> n" using c n' by auto
qed

section \<open>The operations on the represented list\<close>

text \<open>Only the links of the nodes in \<open>A\<close> differ, so other lists in the same store stay as they are.\<close>

definition same_links :: "lstore \<Rightarrow> lstore \<Rightarrow> nat set \<Rightarrow> bool" where
  "same_links h h' A \<longleftrightarrow> (\<forall>a. a \<notin> A \<longrightarrow> nextf h' a = nextf h a \<and> prevf h' a = prevf h a)"

lemma is_list_frame:
  assumes "is_list h c ys" "same_links h h' A" "A \<inter> set (c # ys) = {}"
  shows "is_list h' c ys"
proof -
  have "nextf h' a = nextf h a \<and> prevf h' a = prevf h a" if "a \<in> set (c # ys)" for a
    using that assms(2,3) by (auto simp: same_links_def)
  then have "map (nextf h') (c # ys) = map (nextf h) (c # ys)" "map (prevf h') (ys @ [c]) = map (prevf h) (ys @ [c])" by auto
  with assms(1) show ?thesis unfolding is_list_def by simp
qed

lemma isz_list_push_back_spec:
  assumes "is_list h l xs" "n \<notin> set (l # xs)" "h n \<noteq> None"
  shows "\<exists>h'. isz_list_push_back h l n = Some h' \<and> dom h' = dom h \<and> is_list h' l (xs @ [n])
    \<and> same_links h h' (set (n # l # xs))"
proof -
  from cut_exists(1) [of l xs] obtain B p where c: "l # xs = B @ [p]" by blast
  have q: "[] @ [l] = l # []" by simp
  have p: "p \<in> set (l # xs)" unfolding c by simp
  with is_list_live [OF assms(1)] have "h p \<noteq> None" "h l \<noteq> None" by simp_all
  with isz_list_insert_fields [of h n p l] assms(3) obtain h' where
    h': "isz_list_insert h n p l = Some h'" "dom h' = dom h"
    "nextf h' = (nextf h)(p \<mapsto> n, n \<mapsto> l)" "prevf h' = (prevf h)(l \<mapsto> n, n \<mapsto> p)" by blast
  obtain s where "h l = Some s" "ln_prev s = p" using is_list_split [OF c q, of h] assms(1) by (auto simp: prevf_def)
  moreover have "same_links h h' (set (n # l # xs))" using h'(3,4) p by (auto simp: same_links_def)
  ultimately show ?thesis using is_list_insert [OF _ c q _ h'(3,4)] h'(1,2) assms(1,2) by (simp add: isz_list_push_back_def)
qed

lemma isz_list_push_front_spec:
  assumes "is_list h l xs" "n \<notin> set (l # xs)" "h n \<noteq> None"
  shows "\<exists>h'. isz_list_push_front h l n = Some h' \<and> dom h' = dom h \<and> is_list h' l (n # xs)
    \<and> same_links h h' (set (n # l # xs))"
proof -
  from cut_exists(2) [of xs l] obtain q T where c: "xs @ [l] = q # T" by blast
  have p: "l # [] = [] @ [l]" by simp
  have q: "q \<in> set (xs @ [l])" unfolding c by simp
  with is_list_live [OF assms(1)] have "h q \<noteq> None" "h l \<noteq> None" by auto
  with isz_list_insert_fields [of h n l q] assms(3) obtain h' where
    h': "isz_list_insert h n l q = Some h'" "dom h' = dom h"
    "nextf h' = (nextf h)(l \<mapsto> n, n \<mapsto> q)" "prevf h' = (prevf h)(q \<mapsto> n, n \<mapsto> l)" by blast
  from is_list_split [OF p c, of h] assms(1) obtain s where "h l = Some s" "ln_next s = q" by (auto simp: nextf_def)
  moreover have "same_links h h' (set (n # l # xs))" using h'(3,4) q by (auto simp: same_links_def)
  ultimately show ?thesis using is_list_insert [OF _ p c _ h'(3,4)] h'(1,2) assms(1,2) by (simp add: isz_list_push_front_def)
qed

lemma isz_list_remove_spec:
  assumes "is_list h l xs" "n \<in> set xs"
  shows "\<exists>h'. isz_list_remove h n = Some h' \<and> dom h' = dom h \<and> is_list h' l (remove1 n xs)
    \<and> same_links h h' (set (l # xs))"
proof -
  from assms(2) obtain us vs where xs: "xs = us @ n # vs" "n \<notin> set us" by (meson split_list_first)
  from cut_exists(1) [of l us] obtain B p where c: "l # us = B @ [p]" by blast
  from cut_exists(2) [of vs l] obtain q T where d: "vs @ [l] = q # T" by blast
  note e = is_list_delete [OF assms(1) [unfolded xs(1)] c d]
  have pq: "p \<in> set (l # us)" "q \<in> set (vs @ [l])" unfolding c d by simp_all
  with is_list_live [OF assms(1)] xs(1) have "h p \<noteq> None" "h q \<noteq> None" by auto
  from isz_list_remove_fields [OF e(1,2) this e(3,4)] obtain h' where h': "isz_list_remove h n = Some h'" "dom h' = dom h"
    "nextf h' = (nextf h)(p \<mapsto> q, n \<mapsto> n)" "prevf h' = (prevf h)(q \<mapsto> p, n \<mapsto> n)" by blast
  moreover have "same_links h h' (set (l # xs))" using h'(3,4) pq xs(1) by (auto simp: same_links_def)
  ultimately show ?thesis using e(5) [OF h'(3,4)] xs by (simp add: remove1_append)
qed

lemma isz_list_pop_front_spec:
  assumes "is_list h l xs"
  shows "\<exists>h'. isz_list_pop_front h l = Some (h', if xs = [] then None else Some (hd xs)) \<and> dom h' = dom h \<and> is_list h' l (tl xs)"
proof (cases xs)
  case Nil
  from is_list_hd [OF assms] obtain s where "h l = Some s" "ln_next s = hd (xs @ [l])" by (auto simp: nextf_def)
  with Nil assms show ?thesis by (simp add: isz_list_pop_front_def)
next
  case (Cons x ys)
  from is_list_hd [OF assms] obtain s where s: "h l = Some s" "ln_next s = x" by (auto simp: nextf_def Cons)
  have "x \<noteq> l" using assms by (auto simp: is_list_def Cons)
  from isz_list_remove_spec [OF assms, of x] obtain h' where "isz_list_remove h x = Some h'" "dom h' = dom h" "is_list h' l ys"
    by (auto simp: Cons)
  with s \<open>x \<noteq> l\<close> Cons show ?thesis by (simp add: isz_list_pop_front_def)
qed

section \<open>The contract\<close>

text \<open>What the components rely on: a store represents a sequence of linked nodes.\<close>

datatype 'n list_op = PushBack 'n | PushFront 'n | Remove 'n | PopFront

fun seq_op :: "'n list \<Rightarrow> 'n list_op \<Rightarrow> 'n list" where
  "seq_op xs (PushBack n) = xs @ [n]"
| "seq_op xs (PushFront n) = n # xs"
| "seq_op xs (Remove n) = remove1 n xs"
| "seq_op xs PopFront = tl xs"

fun list_step :: "('s \<Rightarrow> 'n \<Rightarrow> 's option) \<Rightarrow> ('s \<Rightarrow> 'n \<Rightarrow> 's option) \<Rightarrow> ('s \<Rightarrow> 'n \<Rightarrow> 's option) \<Rightarrow> ('s \<Rightarrow> ('s \<times> 'n option) option)
    \<Rightarrow> 's \<Rightarrow> 'n list_op \<Rightarrow> 's option" where
  "list_step pb pf rm pop s (PushBack n) = pb s n"
| "list_step pb pf rm pop s (PushFront n) = pf s n"
| "list_step pb pf rm pop s (Remove n) = rm s n"
| "list_step pb pf rm pop s PopFront = map_option fst (pop s)"

fun list_steps :: "('s \<Rightarrow> 'n \<Rightarrow> 's option) \<Rightarrow> ('s \<Rightarrow> 'n \<Rightarrow> 's option) \<Rightarrow> ('s \<Rightarrow> 'n \<Rightarrow> 's option) \<Rightarrow> ('s \<Rightarrow> ('s \<times> 'n option) option)
    \<Rightarrow> 's \<Rightarrow> 'n list_op list \<Rightarrow> 's option" where
  "list_steps pb pf rm pop s [] = Some s"
| "list_steps pb pf rm pop s (oper # ops) = do { s \<leftarrow> list_step pb pf rm pop s oper; list_steps pb pf rm pop s ops }"

text \<open>Only live unlinked nodes are linked, and only linked ones unlinked.\<close>

fun seq_legal :: "('n \<Rightarrow> bool) \<Rightarrow> 'n list \<Rightarrow> 'n list_op list \<Rightarrow> bool" where
  "seq_legal live xs [] = True"
| "seq_legal live xs (oper # ops) = ((case oper of PushBack n \<Rightarrow> live n \<and> n \<notin> set xs | PushFront n \<Rightarrow> live n \<and> n \<notin> set xs
     | Remove n \<Rightarrow> n \<in> set xs | PopFront \<Rightarrow> True) \<and> seq_legal live (seq_op xs oper) ops)"

locale linked_seq =
  fixes rep :: "'s \<Rightarrow> 'n list \<Rightarrow> bool" and live :: "'s \<Rightarrow> 'n \<Rightarrow> bool"
    and push_back push_front remove :: "'s \<Rightarrow> 'n \<Rightarrow> 's option" and pop_front :: "'s \<Rightarrow> ('s \<times> 'n option) option"
  assumes rep_distinct: "rep s xs \<Longrightarrow> distinct xs"
    and push_back: "rep s xs \<Longrightarrow> live s n \<Longrightarrow> n \<notin> set xs \<Longrightarrow> \<exists>s'. push_back s n = Some s' \<and> live s' = live s \<and> rep s' (xs @ [n])"
    and push_front: "rep s xs \<Longrightarrow> live s n \<Longrightarrow> n \<notin> set xs \<Longrightarrow> \<exists>s'. push_front s n = Some s' \<and> live s' = live s \<and> rep s' (n # xs)"
    and remove: "rep s xs \<Longrightarrow> n \<in> set xs \<Longrightarrow> \<exists>s'. remove s n = Some s' \<and> live s' = live s \<and> rep s' (remove1 n xs)"
    and pop_front: "rep s xs \<Longrightarrow>
        \<exists>s'. pop_front s = Some (s', case xs of [] \<Rightarrow> None | x # ys \<Rightarrow> Some x) \<and> live s' = live s \<and> rep s' (tl xs)"
begin

lemma list_step_rep:
  assumes "rep s xs" "seq_legal (live s) xs [oper]"
  shows "\<exists>s'. list_step push_back push_front remove pop_front s oper = Some s' \<and> live s' = live s \<and> rep s' (seq_op xs oper)"
proof (cases oper)
  case PopFront
  with pop_front [OF assms(1)] show ?thesis by auto
qed (use assms push_back push_front remove in auto)

lemma list_steps_rep:
  assumes "rep s xs" "seq_legal (live s) xs ops"
  shows "\<exists>s'. list_steps push_back push_front remove pop_front s ops = Some s' \<and> live s' = live s \<and> rep s' (foldl seq_op xs ops)"
  using assms
proof (induction ops arbitrary: s xs)
  case (Cons oper ops)
  from Cons.prems have "seq_legal (live s) xs [oper]" by simp
  from list_step_rep [OF Cons.prems(1) this] obtain s1 where
    s1: "list_step push_back push_front remove pop_front s oper = Some s1" "live s1 = live s" "rep s1 (seq_op xs oper)" by blast
  with Cons.IH [OF s1(3)] Cons.prems(2) show ?case by simp
qed simp

end

interpretation isz_list: linked_seq "\<lambda>h xs. is_list h l xs" "\<lambda>h n. n \<in> dom h \<and> n \<noteq> l" "\<lambda>h. isz_list_push_back h l" "\<lambda>h. isz_list_push_front h l"
  isz_list_remove "\<lambda>h. isz_list_pop_front h l" for l
proof (unfold_locales, goal_cases)
  case (1 h xs)
  then show ?case by (simp add: is_list_def)
next
  case (2 h xs n)
  then have "n \<notin> set (l # xs)" "h n \<noteq> None" by auto
  from isz_list_push_back_spec [OF 2(1) this] show ?case by auto
next
  case (3 h xs n)
  then have "n \<notin> set (l # xs)" "h n \<noteq> None" by auto
  from isz_list_push_front_spec [OF 3(1) this] show ?case by auto
next
  case (4 h xs n)
  from isz_list_remove_spec [OF 4] show ?case by auto
next
  case (5 h xs)
  from isz_list_pop_front_spec [OF 5] show ?case by (cases xs) auto
qed

section \<open>Traversal\<close>

text \<open>\<^verbatim>\<open>isz_list_for_each\<close> with a body that leaves the list alone: the nodes it visits.\<close>

partial_function (option) for_each_from :: "lstore \<Rightarrow> nat \<Rightarrow> nat \<Rightarrow> nat list option" where
  "for_each_from h l pos =
     (if pos = l then Some []
      else do { m \<leftarrow> h pos; rest \<leftarrow> for_each_from h l (ln_next m); Some (pos # rest) })"

definition isz_list_for_each :: "lstore \<Rightarrow> nat \<Rightarrow> nat list option" where
  "isz_list_for_each h l = do { s \<leftarrow> h l; for_each_from h l (ln_next s) }"

lemma for_each_from_suffix:
  assumes "is_list h l (us @ vs)"
  shows "for_each_from h l (hd (vs @ [l])) = Some vs"
  using assms
proof (induction vs arbitrary: us)
  case Nil
  show ?case by (simp add: for_each_from.simps)
next
  case (Cons v vs)
  from cut_exists(1) [of l us] obtain B p where c: "l # us = B @ [p]" by blast
  from cut_exists(2) [of vs l] obtain q T where d: "vs @ [l] = q # T" by blast
  from is_list_delete(1) [OF Cons.prems c d] obtain m where m: "h v = Some m" "ln_next m = q" by (auto simp: nextf_def)
  have "v \<noteq> l" using Cons.prems by (auto simp: is_list_def)
  moreover have "for_each_from h l q = Some vs" using Cons.IH [of "us @ [v]"] Cons.prems d by simp
  ultimately show ?case using m by (simp add: for_each_from.simps [of h l v])
qed

lemma isz_list_for_each_spec: "is_list h l xs \<Longrightarrow> isz_list_for_each h l = Some xs"
  using for_each_from_suffix [of h l "[]" xs] is_list_hd [of h l xs] by (auto simp: isz_list_for_each_def nextf_def)

section \<open>Properties\<close>

text \<open>The operations of the header as one step function.\<close>

definition isz_list_ops :: "nat \<Rightarrow> lstore \<Rightarrow> nat list_op list \<Rightarrow> lstore option" where
  "isz_list_ops l = list_steps (\<lambda>h. isz_list_push_back h l) (\<lambda>h. isz_list_push_front h l) isz_list_remove (\<lambda>h. isz_list_pop_front h l)"

text \<open>C25: the linked lists implement sequences. From an initialised list, any series of pushes of live unlinked nodes, removals of
  linked nodes and pops succeeds without touching a freed node, and a traversal then ends and visits exactly the nodes
  of the sequence obtained by the same operations on HOL lists, in order.\<close>

theorem linked_list_refines_sequence:
  assumes "seq_legal (\<lambda>n. n \<in> dom h \<and> n \<noteq> l) [] ops"
  shows "\<exists>h'. isz_list_ops l (isz_list_init h l) ops = Some h' \<and> isz_list_for_each h' l = Some (foldl seq_op [] ops)
    \<and> isz_list_empty h' l = Some (foldl seq_op [] ops = [])"
proof -
  have "(\<lambda>n. n \<in> dom (isz_list_init h l) \<and> n \<noteq> l) = (\<lambda>n. n \<in> dom h \<and> n \<noteq> l)" by (auto simp: isz_list_init_def)
  with isz_list.list_steps_rep [OF isz_list_init_spec, of h l ops] assms obtain h' where
    "isz_list_ops l (isz_list_init h l) ops = Some h'" "is_list h' l (foldl seq_op [] ops)" by (auto simp: isz_list_ops_def)
  with isz_list_for_each_spec isz_list_empty_spec show ?thesis by blast
qed

theorem linked_list_refines_sequence_witness:
  "\<exists>h'. isz_list_ops 0 (isz_list_init (\<lambda>n. if n < 4 then Some \<lparr>ln_prev = 0, ln_next = 0\<rparr> else None) 0)
      [PushBack 1, PushBack 2, PushFront 3, Remove 1, PopFront] = Some h' \<and> isz_list_for_each h' 0 = Some [2]"
proof -
  let ?h = "\<lambda>n :: nat. if n < 4 then Some \<lparr>ln_prev = 0, ln_next = 0\<rparr> else None"
  have "seq_legal (\<lambda>n. n \<in> dom ?h \<and> n \<noteq> 0) [] [PushBack 1, PushBack 2, PushFront 3, Remove 1, PopFront]"
    by (simp add: dom_def)
  from linked_list_refines_sequence [OF this] show ?thesis by auto
qed

end
