(* ===== verification/Isz_Listeners.thy ===== *)
theory Isz_Listeners
  imports Isz_List
begin

text \<open>
  The registry of event listeners, \<^verbatim>\<open>src/isz_listeners.c\<close>, on the linked lists of \<open>Isz_List\<close>: the heads of the 32 buckets are the
  nodes 0 to 31 of the store, and every listener is a node of its own. A callback is code of the embedding
  program; the parameter \<open>cb\<close> says which calls of the registry it makes. The result \<open>None\<close> is an access to a freed
  listener.
\<close>

section \<open>Registry\<close>

record isz_listener =
  li_fn :: nat
  li_userdata :: nat

record registry = kern +
  rg_nodes :: lstore
  rg_listeners :: "nat \<Rightarrow> isz_listener option"
  rg_next :: nat                               \<comment> \<open>the next unused address\<close>
  rg_destroying :: bool
  rg_calls :: "isz_listener list"              \<comment> \<open>the callbacks made so far\<close>

abbreviation (input) ISZ_LISTENER_BUCKETS :: nat where "ISZ_LISTENER_BUCKETS \<equiv> 32"

definition listener_bucket :: "u32 \<Rightarrow> nat" where
  "listener_bucket t = (let i = unat t in if i < ISZ_LISTENER_BUCKETS then i else 0)"

definition isz_add_listener :: "registry \<Rightarrow> u32 \<Rightarrow> nat option \<Rightarrow> nat \<Rightarrow> (registry \<times> isz_error) option" where
  "isz_add_listener rg ty fn userdata = (case fn of
       None \<Rightarrow> Some (rg, ISZ_ERR_INVALID_ARG)
     | Some f \<Rightarrow>
         if ty = 0 then Some (rg, ISZ_ERR_INVALID_ARG)
         else case k_alloc rg of
                (rg, False) \<Rightarrow> Some (rg, ISZ_ERR_NO_MEMORY)
              | (rg, True) \<Rightarrow> do {
                  let l = rg_next rg;
                  let rg = rg\<lparr>rg_next := l + 1, rg_listeners := (rg_listeners rg)(l \<mapsto> \<lparr>li_fn = f, li_userdata = userdata\<rparr>)\<rparr>;
                  h \<leftarrow> isz_list_push_back ((rg_nodes rg)(l \<mapsto> \<lparr>ln_prev = 0, ln_next = 0\<rparr>)) (listener_bucket ty) l;
                  Some (rg\<lparr>rg_nodes := h\<rparr>, ISZ_OK)
                })"

text \<open>\<^verbatim>\<open>isz_list_remove\<close> and \<^verbatim>\<open>free\<close> of one listener\<close>

definition drop_listener :: "registry \<Rightarrow> nat \<Rightarrow> registry option" where
  "drop_listener rg l = do {
     h \<leftarrow> isz_list_remove (rg_nodes rg) l;
     Some (rg\<lparr>rg_nodes := h(l := None), rg_listeners := (rg_listeners rg)(l := None)\<rparr>)
   }"

partial_function (option) remove_loop :: "registry \<Rightarrow> nat \<Rightarrow> nat \<Rightarrow> nat \<Rightarrow> registry option" where
  "remove_loop rg bucket fn pos =
     (if pos = bucket then Some rg
      else do {
        m \<leftarrow> rg_nodes rg pos;
        l \<leftarrow> rg_listeners rg pos;
        rg \<leftarrow> (if li_fn l = fn then drop_listener rg pos else Some rg);
        remove_loop rg bucket fn (ln_next m)
      })"

definition isz_remove_listener :: "registry \<Rightarrow> u32 \<Rightarrow> nat option \<Rightarrow> (registry \<times> isz_error) option" where
  "isz_remove_listener rg ty fn = (case fn of
       None \<Rightarrow> Some (rg, ISZ_ERR_INVALID_ARG)
     | Some f \<Rightarrow>
         if ty = 0 then Some (rg, ISZ_ERR_INVALID_ARG)
         else do {
           head \<leftarrow> rg_nodes rg (listener_bucket ty);
           rg \<leftarrow> remove_loop rg (listener_bucket ty) f (ln_next head);
           Some (rg, ISZ_OK)
         })"

section \<open>Emission\<close>

datatype reg_op = AddListener u32 nat nat | RemoveListener u32 nat

fun reg_ops :: "registry \<Rightarrow> reg_op list \<Rightarrow> registry option" where
  "reg_ops rg [] = Some rg"
| "reg_ops rg (AddListener ty f ud # ops) = do { (rg, rc) \<leftarrow> isz_add_listener rg ty (Some f) ud; reg_ops rg ops }"
| "reg_ops rg (RemoveListener ty f # ops) = do { (rg, rc) \<leftarrow> isz_remove_listener rg ty (Some f); reg_ops rg ops }"

partial_function (option) emit_loop :: "(isz_listener \<Rightarrow> reg_op list) \<Rightarrow> nat \<Rightarrow> registry \<Rightarrow> nat \<Rightarrow> registry option" where
  "emit_loop cb bucket rg pos =
     (if pos = bucket then Some rg
      else do {
        m \<leftarrow> rg_nodes rg pos;
        l \<leftarrow> rg_listeners rg pos;
        rg \<leftarrow> reg_ops (rg\<lparr>rg_calls := rg_calls rg @ [l]\<rparr>) (cb l);
        emit_loop cb bucket rg (ln_next m)
      })"

definition emit_to_listeners :: "(isz_listener \<Rightarrow> reg_op list) \<Rightarrow> registry \<Rightarrow> u32 \<Rightarrow> registry option" where
  "emit_to_listeners cb rg ty =
     (if rg_destroying rg then Some rg
      else do { head \<leftarrow> rg_nodes rg (listener_bucket ty); emit_loop cb (listener_bucket ty) rg (ln_next head) })"

section \<open>The registry as a table of listeners\<close>

text \<open>\<open>L b\<close> are the nodes of bucket \<open>b\<close>.\<close>

definition reg_rep :: "registry \<Rightarrow> (nat \<Rightarrow> nat list) \<Rightarrow> bool" where
  "reg_rep rg L \<longleftrightarrow> 32 \<le> rg_next rg
     \<and> (\<forall>b<32. is_list (rg_nodes rg) b (L b) \<and> (\<forall>r \<in> set (L b). 32 \<le> r \<and> r < rg_next rg \<and> rg_listeners rg r \<noteq> None))
     \<and> (\<forall>b<32. \<forall>c<32. b \<noteq> c \<longrightarrow> set (L b) \<inter> set (L c) = {})"

definition listeners_of :: "registry \<Rightarrow> (nat \<Rightarrow> nat list) \<Rightarrow> nat \<Rightarrow> isz_listener list" where
  "listeners_of rg L b = map (\<lambda>r. the (rg_listeners rg r)) (L b)"

lemma listener_bucket_less: "listener_bucket t < 32"
  by (simp add: listener_bucket_def Let_def)

lemma reg_repD:
  assumes "reg_rep rg L" "b < 32"
  shows "is_list (rg_nodes rg) b (L b)" "r \<in> set (L b) \<Longrightarrow> 32 \<le> r \<and> r < rg_next rg \<and> (\<exists>l. rg_listeners rg r = Some l)"
    "c < 32 \<Longrightarrow> b \<noteq> c \<Longrightarrow> set (L b) \<inter> set (L c) = {}"
  using assms by (auto simp: reg_rep_def)

text \<open>A change to bucket \<open>b\<close> that only relinks its own nodes and \<open>A\<close>.\<close>

lemma reg_rep_update:
  assumes "reg_rep rg L" "b < 32" "is_list h b xs" "same_links (rg_nodes rg) h (insert r (set (b # L b)))"
    "set xs \<subseteq> insert r (set (L b))" "\<And>c. c < 32 \<Longrightarrow> c \<noteq> b \<Longrightarrow> r \<notin> set (L c)" "32 \<le> r" "rg_next rg \<le> nx"
    "\<And>a. a \<in> set xs \<Longrightarrow> a < nx \<and> S a \<noteq> None" "\<And>a. a \<noteq> r \<Longrightarrow> S a = rg_listeners rg a"
    "rg_nodes rg' = h" "rg_listeners rg' = S" "rg_next rg' = nx"
  shows "reg_rep rg' (L(b := xs))"
proof -
  have other: "is_list h c (L c) \<and> (\<forall>a \<in> set (L c). S a \<noteq> None \<and> a < nx \<and> 32 \<le> a)" if "c < 32" "c \<noteq> b" for c
  proof -
    have "insert r (set (b # L b)) \<inter> set (c # L c) = {}"
      using reg_repD(2) [OF assms(1) that(1)] reg_repD(2) [OF assms(1,2)] reg_repD(3) [OF assms(1) that(1) assms(2) that(2)] assms(2,6,7) that
      by fastforce
    with is_list_frame [OF reg_repD(1) [OF assms(1) that(1)] assms(4)] have "is_list h c (L c)" .
    moreover have "S a \<noteq> None \<and> a < nx \<and> 32 \<le> a" if "a \<in> set (L c)" for a
      using reg_repD(2) [OF assms(1) \<open>c < 32\<close> that] assms(6) [OF \<open>c < 32\<close> \<open>c \<noteq> b\<close>] assms(8,10) that by (metis not_Some_eq order_less_le_trans)
    ultimately show ?thesis by blast
  qed
  have own: "32 \<le> a" if "a \<in> set xs" for a using that assms(5,7) reg_repD(2) [OF assms(1,2)] by blast
  have "set xs \<inter> set (L c) = {}" if "c < 32" "c \<noteq> b" for c
    using assms(5,6) that reg_repD(3) [OF assms(1,2) that(1)] by blast
  then show ?thesis
    using assms(1,3,8,9) other own reg_repD(3) [OF assms(1)] unfolding reg_rep_def assms(11-13) by (auto simp: Int_commute)
qed

section \<open>Adding and removing\<close>

lemma add_listener_outcome:
  assumes "reg_rep rg L" "ty \<noteq> 0"
  defines "b \<equiv> listener_bucket ty"
  shows "\<exists>rg' rc. isz_add_listener rg ty (Some f) ud = Some (rg', rc) \<and> rg_calls rg' = rg_calls rg \<and> rg_destroying rg' = rg_destroying rg
    \<and> (rc = ISZ_ERR_NO_MEMORY \<and> reg_rep rg' L \<and> rg_listeners rg' = rg_listeners rg
       \<or> rc = ISZ_OK \<and> reg_rep rg' (L(b := L b @ [rg_next rg])) \<and> rg_next rg' = rg_next rg + 1
         \<and> rg_listeners rg' = (rg_listeners rg)(rg_next rg \<mapsto> \<lparr>li_fn = f, li_userdata = ud\<rparr>))"
proof -
  obtain rg1 ok where a: "k_alloc rg = (rg1, ok)" by fastforce
  have f1: "rg_nodes rg1 = rg_nodes rg" "rg_listeners rg1 = rg_listeners rg" "rg_next rg1 = rg_next rg"
    "rg_calls rg1 = rg_calls rg" "rg_destroying rg1 = rg_destroying rg"
    using a by (auto simp: k_alloc_def split: list.splits)
  have rep1: "reg_rep rg1 L" using assms(1) by (simp add: reg_rep_def f1)
  have b: "b < 32" by (simp add: b_def listener_bucket_less)
  show ?thesis
  proof (cases ok)
    case False
    with a rep1 f1 assms(2) show ?thesis by (simp add: isz_add_listener_def)
  next
    case True
    let ?r = "rg_next rg" and ?h = "(rg_nodes rg)(rg_next rg \<mapsto> \<lparr>ln_prev = 0, ln_next = 0\<rparr>)"
    have r: "32 \<le> ?r" "\<And>c. c < 32 \<Longrightarrow> ?r \<notin> set (L c)" using assms(1) by (auto simp: reg_rep_def)
    have sl: "same_links (rg_nodes rg) ?h {?r}" by (auto simp: same_links_def nextf_def prevf_def)
    have "is_list ?h b (L b)"
      using is_list_frame [OF reg_repD(1) [OF assms(1) b] sl] r b by auto
    from isz_list_push_back_spec [OF this, of ?r] r b obtain h' where
      h': "isz_list_push_back ?h b ?r = Some h'" "is_list h' b (L b @ [?r])" "same_links ?h h' (set (?r # b # L b))" by auto
    have "same_links (rg_nodes rg) h' (insert ?r (set (b # L b)))" using h'(3) sl by (auto simp: same_links_def)
    then have "reg_rep (rg1\<lparr>rg_next := rg_next rg + 1, rg_listeners := (rg_listeners rg)(?r \<mapsto> \<lparr>li_fn = f, li_userdata = ud\<rparr>), rg_nodes := h'\<rparr>) (L(b := L b @ [?r]))"
      using r reg_repD(2) [OF assms(1) b]
      by (intro reg_rep_update [OF rep1 b h'(2), where r = ?r and nx = "rg_next rg + 1" and S = "(rg_listeners rg)(?r \<mapsto> \<lparr>li_fn = f, li_userdata = ud\<rparr>)"]) (fastforce simp: f1)+
    then show ?thesis using a True h'(1) f1 assms(2) by (simp add: isz_add_listener_def b_def Let_def)
  qed
qed

lemma drop_listener_rep:
  assumes "reg_rep rg L" "b < 32" "r \<in> set (L b)"
  shows "\<exists>rg'. drop_listener rg r = Some rg' \<and> reg_rep rg' (L(b := remove1 r (L b))) \<and> rg_calls rg' = rg_calls rg
    \<and> rg_destroying rg' = rg_destroying rg \<and> rg_listeners rg' = (rg_listeners rg)(r := None) \<and> rg_next rg' = rg_next rg"
proof -
  note il = reg_repD(1) [OF assms(1,2)]
  have d: "distinct (L b)" "b \<notin> set (L b)" using il by (auto simp: is_list_def)
  from isz_list_remove_spec [OF il assms(3)] obtain h where
    h: "isz_list_remove (rg_nodes rg) r = Some h" "is_list h b (remove1 r (L b))" "same_links (rg_nodes rg) h (set (b # L b))" by blast
  have sl: "same_links h (h(r := None)) {r}" by (simp add: same_links_def nextf_def prevf_def)
  have "is_list (h(r := None)) b (remove1 r (L b))" using is_list_frame [OF h(2) sl] d assms(3) by auto
  moreover have "same_links (rg_nodes rg) (h(r := None)) (insert r (set (b # L b)))" using h(3) sl by (auto simp: same_links_def)
  moreover have "r \<notin> set (L c)" if "c < 32" "c \<noteq> b" for c using reg_repD(3) [OF assms(1,2) that(1)] that(2) assms(3) by auto
  moreover have rs: "set (remove1 r (L b)) = set (L b) - {r}" using d by simp
  ultimately have "reg_rep (rg\<lparr>rg_nodes := h(r := None), rg_listeners := (rg_listeners rg)(r := None)\<rparr>) (L(b := remove1 r (L b)))"
    using d assms reg_repD(2) [OF assms(1,2)]
    by (intro reg_rep_update [where r = r and nx = "rg_next rg" and S = "(rg_listeners rg)(r := None)" and h = "h(r := None)"]) (auto simp: rs simp del: set_remove1_eq)
  then show ?thesis using h(1) by (simp add: drop_listener_def)
qed

text \<open>The listeners of \<open>xs\<close> that \<open>isz_remove_listener\<close> keeps.\<close>

abbreviation kept :: "(nat \<Rightarrow> isz_listener option) \<Rightarrow> nat \<Rightarrow> nat list \<Rightarrow> nat list" where
  "kept S f xs \<equiv> filter (\<lambda>r. li_fn (the (S r)) \<noteq> f) xs"

lemma remove_loop_rep:
  assumes "reg_rep rg L" "b < 32" "L b = us @ vs"
  shows "\<exists>rg'. remove_loop rg b f (hd (vs @ [b])) = Some rg' \<and> reg_rep rg' (L(b := us @ kept (rg_listeners rg) f vs))
    \<and> rg_calls rg' = rg_calls rg \<and> rg_destroying rg' = rg_destroying rg \<and> rg_next rg' = rg_next rg
    \<and> (\<forall>r. r \<notin> set vs \<longrightarrow> rg_listeners rg' r = rg_listeners rg r)
    \<and> (\<forall>r \<in> set vs. li_fn (the (rg_listeners rg r)) \<noteq> f \<longrightarrow> rg_listeners rg' r = rg_listeners rg r)"
  using assms
proof (induction vs arbitrary: us rg L)
  case Nil
  moreover have "L(b := us) = L" using Nil(3) by auto
  ultimately show ?case by (simp add: remove_loop.simps)
next
  case (Cons v vs)
  note il = reg_repD(1) [OF Cons.prems(1,2)]
  have dist: "distinct (b # us @ v # vs)" using il Cons.prems(3) by (simp add: is_list_def)
  from cut_exists(1) [of b us] obtain B p where c: "b # us = B @ [p]" by blast
  from cut_exists(2) [of vs b] obtain q T where d: "vs @ [b] = q # T" by blast
  from is_list_delete(1) [OF _ c d, of "rg_nodes rg" v] il Cons.prems(3) obtain m where m: "rg_nodes rg v = Some m" "ln_next m = hd (vs @ [b])"
    by (auto simp: nextf_def d)
  from reg_repD(2) [OF Cons.prems(1,2), of v] Cons.prems(3) obtain l where l: "rg_listeners rg v = Some l" by auto
  have vb: "v \<noteq> b" using dist by auto
  show ?case
  proof (cases "li_fn l = f")
    case False
    have v: "v \<notin> set vs" using dist by auto
    have "L b = (us @ [v]) @ vs" using Cons.prems(3) by simp
    from Cons.IH [OF Cons.prems(1,2) this] obtain rg' where
      rg': "remove_loop rg b f (hd (vs @ [b])) = Some rg'" "reg_rep rg' (L(b := us @ v # kept (rg_listeners rg) f vs))"
      "rg_calls rg' = rg_calls rg" "rg_destroying rg' = rg_destroying rg" "rg_next rg' = rg_next rg"
      "\<forall>r. r \<notin> set vs \<longrightarrow> rg_listeners rg' r = rg_listeners rg r"
      "\<forall>r \<in> set vs. li_fn (the (rg_listeners rg r)) \<noteq> f \<longrightarrow> rg_listeners rg' r = rg_listeners rg r"
      unfolding append.assoc append.simps by blast
    moreover have "remove_loop rg b f (hd ((v # vs) @ [b])) = Some rg'"
      using rg'(1) False l m vb by (simp add: remove_loop.simps [of rg b f v])
    moreover have "kept (rg_listeners rg) f (v # vs) = v # kept (rg_listeners rg) f vs" using False l by simp
    moreover have "\<forall>r \<in> set (v # vs). li_fn (the (rg_listeners rg r)) \<noteq> f \<longrightarrow> rg_listeners rg' r = rg_listeners rg r"
      using rg'(6,7) v by simp
    ultimately show ?thesis by (metis list.set_intros(2))
  next
    case True
    from drop_listener_rep [OF Cons.prems(1,2), of v] Cons.prems(3) obtain rg1 where
      rg1: "drop_listener rg v = Some rg1" "reg_rep rg1 (L(b := us @ vs))" "rg_calls rg1 = rg_calls rg" "rg_destroying rg1 = rg_destroying rg"
      "rg_listeners rg1 = (rg_listeners rg)(v := None)" "rg_next rg1 = rg_next rg"
      using dist by (auto simp: remove1_append)
    have k: "kept (rg_listeners rg1) f vs = kept (rg_listeners rg) f vs" using dist by (auto simp: rg1(5) intro: filter_cong)
    have "(L(b := us @ vs)) b = us @ vs" by simp
    from Cons.IH [OF rg1(2) Cons.prems(2) this, unfolded fun_upd_upd k rg1(3,4,6)] obtain rg2 where
      rg2: "remove_loop rg1 b f (hd (vs @ [b])) = Some rg2" "reg_rep rg2 (L(b := us @ kept (rg_listeners rg) f vs))"
      "rg_calls rg2 = rg_calls rg" "rg_destroying rg2 = rg_destroying rg" "rg_next rg2 = rg_next rg"
      "\<forall>r. r \<notin> set vs \<longrightarrow> rg_listeners rg2 r = rg_listeners rg1 r"
      "\<forall>r \<in> set vs. li_fn (the (rg_listeners rg1 r)) \<noteq> f \<longrightarrow> rg_listeners rg2 r = rg_listeners rg1 r"
      by blast
    have "\<forall>r. r \<notin> set (v # vs) \<longrightarrow> rg_listeners rg2 r = rg_listeners rg r" using rg2(6) by (auto simp: rg1(5))
    moreover have "\<forall>r \<in> set (v # vs). li_fn (the (rg_listeners rg r)) \<noteq> f \<longrightarrow> rg_listeners rg2 r = rg_listeners rg r"
    proof -
      have "rg_listeners rg1 r = rg_listeners rg r" if "r \<in> set vs" for r using that dist by (auto simp: rg1(5))
      with rg2(7) True l show ?thesis by simp
    qed
    moreover have "remove_loop rg b f (hd ((v # vs) @ [b])) = Some rg2"
      using rg2(1) rg1(1) True l m vb by (simp add: remove_loop.simps [of rg b f v])
    moreover have "kept (rg_listeners rg) f (v # vs) = kept (rg_listeners rg) f vs" using True l by simp
    ultimately show ?thesis using rg2(2-5) by metis
  qed
qed

lemma remove_listener_outcome:
  assumes "reg_rep rg L" "ty \<noteq> 0"
  defines "b \<equiv> listener_bucket ty"
  shows "\<exists>rg'. isz_remove_listener rg ty (Some f) = Some (rg', ISZ_OK) \<and> rg_calls rg' = rg_calls rg \<and> rg_destroying rg' = rg_destroying rg
    \<and> reg_rep rg' (L(b := kept (rg_listeners rg) f (L b))) \<and> rg_next rg' = rg_next rg
    \<and> (\<forall>r. r \<notin> set (L b) \<or> li_fn (the (rg_listeners rg r)) \<noteq> f \<longrightarrow> rg_listeners rg' r = rg_listeners rg r)"
proof -
  have b: "b < 32" by (simp add: b_def listener_bucket_less)
  from is_list_hd [OF reg_repD(1) [OF assms(1) b]] obtain m where m: "rg_nodes rg b = Some m" "ln_next m = hd (L b @ [b])"
    by (auto simp: nextf_def)
  from remove_loop_rep [OF assms(1) b, of "[]" "L b" f] obtain rg' where
    rg': "remove_loop rg b f (hd (L b @ [b])) = Some rg'" "reg_rep rg' (L(b := kept (rg_listeners rg) f (L b)))"
    "rg_calls rg' = rg_calls rg" "rg_destroying rg' = rg_destroying rg" "rg_next rg' = rg_next rg"
    "\<forall>r. r \<notin> set (L b) \<longrightarrow> rg_listeners rg' r = rg_listeners rg r"
    "\<forall>r \<in> set (L b). li_fn (the (rg_listeners rg r)) \<noteq> f \<longrightarrow> rg_listeners rg' r = rg_listeners rg r" by auto
  then have "isz_remove_listener rg ty (Some f) = Some (rg', ISZ_OK)"
    using m assms(2) by (simp add: isz_remove_listener_def flip: b_def)
  with rg' show ?thesis by blast
qed

section \<open>Emission to listeners that leave each other alone\<close>

text \<open>During the callback of a listener with function \<open>f\<close>, bucket \<open>b\<close> loses at most that listener.\<close>

fun op_spares :: "nat \<Rightarrow> nat \<Rightarrow> reg_op \<Rightarrow> bool" where
  "op_spares b f (AddListener ty g ud) = (listener_bucket ty \<noteq> b)"
| "op_spares b f (RemoveListener ty g) = (listener_bucket ty \<noteq> b \<or> g = f)"

definition around :: "registry \<Rightarrow> (nat \<Rightarrow> nat list) \<Rightarrow> nat \<Rightarrow> nat list \<Rightarrow> nat \<Rightarrow> nat list \<Rightarrow> (nat \<Rightarrow> isz_listener option) \<Rightarrow> isz_listener \<Rightarrow> bool" where
  "around rg L b ps v ts S l \<longleftrightarrow> reg_rep rg L \<and> (L b = ps @ v # ts \<and> rg_listeners rg v = Some l \<or> L b = ps @ ts)
     \<and> (\<forall>r \<in> set (ps @ ts). rg_listeners rg r = S r)"

lemma around_add:
  assumes "around rg L b ps v ts S l" "b < 32" "listener_bucket ty \<noteq> b"
  shows "\<exists>rg' rc L'. isz_add_listener rg ty (Some f) ud = Some (rg', rc) \<and> around rg' L' b ps v ts S l
    \<and> rg_calls rg' = rg_calls rg \<and> rg_destroying rg' = rg_destroying rg"
proof (cases "ty = 0")
  case True
  with assms(1) show ?thesis by (auto simp: isz_add_listener_def)
next
  case False
  have rep: "reg_rep rg L" using assms(1) by (simp add: around_def)
  have fresh: "r \<noteq> rg_next rg" if "r \<in> set (L b)" for r using reg_repD(2) [OF rep assms(2) that] by auto
  from add_listener_outcome [OF rep False, of f ud] obtain rg' rc L' where
    r: "isz_add_listener rg ty (Some f) ud = Some (rg', rc)" "rg_calls rg' = rg_calls rg" "rg_destroying rg' = rg_destroying rg"
    "reg_rep rg' L'" "L' b = L b" "\<forall>r. r \<noteq> rg_next rg \<longrightarrow> rg_listeners rg' r = rg_listeners rg r"
    using assms(3) by (metis fun_upd_apply)
  moreover have "\<forall>r \<in> set (L b). rg_listeners rg' r = rg_listeners rg r" using r(6) fresh by blast
  ultimately show ?thesis using assms(1) by (auto simp: around_def)
qed

lemma around_remove:
  assumes "around rg L b ps v ts S l" "b < 32" "listener_bucket ty \<noteq> b \<or> f = li_fn l"
    "\<forall>r \<in> set (ps @ ts). \<exists>k. S r = Some k \<and> li_fn k \<noteq> li_fn l"
  shows "\<exists>rg' rc L'. isz_remove_listener rg ty (Some f) = Some (rg', rc) \<and> around rg' L' b ps v ts S l
    \<and> rg_calls rg' = rg_calls rg \<and> rg_destroying rg' = rg_destroying rg"
proof (cases "ty = 0")
  case True
  with assms(1) show ?thesis by (auto simp: isz_remove_listener_def)
next
  case False
  let ?c = "listener_bucket ty"
  have rep: "reg_rep rg L" using assms(1) by (simp add: around_def)
  from remove_listener_outcome [OF rep False, of f] obtain rg' where
    r: "isz_remove_listener rg ty (Some f) = Some (rg', ISZ_OK)" "rg_calls rg' = rg_calls rg" "rg_destroying rg' = rg_destroying rg"
    "reg_rep rg' (L(?c := kept (rg_listeners rg) f (L ?c)))"
    "\<forall>r. r \<notin> set (L ?c) \<or> li_fn (the (rg_listeners rg r)) \<noteq> f \<longrightarrow> rg_listeners rg' r = rg_listeners rg r" by blast
  have "around rg' (L(?c := kept (rg_listeners rg) f (L ?c))) b ps v ts S l"
  proof (cases "?c = b")
    case False
    have "rg_listeners rg' r = rg_listeners rg r" if "r \<in> set (L b)" for r
      using r(5) that reg_repD(3) [OF rep assms(2) listener_bucket_less [of ty]] False by auto
    with r(4) assms(1) False show ?thesis by (auto simp: around_def)
  next
    case True
    with assms(3) have f: "f = li_fn l" by simp
    have keep: "\<forall>r \<in> set (ps @ ts). li_fn (the (rg_listeners rg r)) \<noteq> f"
      using assms(1,4) f by (fastforce simp: around_def)
    then have "kept (rg_listeners rg) f ps = ps" "kept (rg_listeners rg) f ts = ts" by (simp_all add: filter_id_conv)
    then have "kept (rg_listeners rg) f (L b) = ps @ ts" using assms(1) f by (auto simp: around_def)
    with r(4) True have "reg_rep rg' (L(?c := kept (rg_listeners rg) f (L ?c)))" "(L(?c := kept (rg_listeners rg) f (L ?c))) b = ps @ ts" by simp_all
    moreover have "\<forall>r \<in> set (ps @ ts). rg_listeners rg' r = S r" using r(5) keep assms(1) by (simp add: around_def)
    ultimately show ?thesis unfolding around_def by blast
  qed
  with r(1-3) show ?thesis by blast
qed

lemma around_ops:
  assumes "around rg L b ps v ts S l" "b < 32" "\<forall>oper \<in> set ops. op_spares b (li_fn l) oper"
    "\<forall>r \<in> set (ps @ ts). \<exists>k. S r = Some k \<and> li_fn k \<noteq> li_fn l"
  shows "\<exists>rg' L'. reg_ops rg ops = Some rg' \<and> around rg' L' b ps v ts S l
    \<and> rg_calls rg' = rg_calls rg \<and> rg_destroying rg' = rg_destroying rg"
  using assms
proof (induction ops arbitrary: rg L)
  case (Cons oper ops)
  show ?case
  proof (cases oper)
    case (AddListener ty g ud)
    with around_add [OF Cons.prems(1,2), of ty g ud] Cons.prems(3) obtain rg1 rc L1 where
      1: "isz_add_listener rg ty (Some g) ud = Some (rg1, rc)" "around rg1 L1 b ps v ts S l" "rg_calls rg1 = rg_calls rg"
      "rg_destroying rg1 = rg_destroying rg" by auto
    with Cons.IH [OF 1(2) Cons.prems(2) _ Cons.prems(4)] Cons.prems(3) AddListener show ?thesis by simp
  next
    case (RemoveListener ty g)
    with around_remove [OF Cons.prems(1,2) _ Cons.prems(4), of ty g] Cons.prems(3) obtain rg1 rc L1 where
      1: "isz_remove_listener rg ty (Some g) = Some (rg1, rc)" "around rg1 L1 b ps v ts S l" "rg_calls rg1 = rg_calls rg"
      "rg_destroying rg1 = rg_destroying rg" by auto
    with Cons.IH [OF 1(2) Cons.prems(2) _ Cons.prems(4)] Cons.prems(3) RemoveListener show ?thesis by simp
  qed
qed auto

lemma emit_loop_calls:
  assumes "reg_rep rg L" "b < 32" "L b = ps @ ts" "distinct (map li_fn (listeners_of rg L b))"
    "\<forall>l \<in> set (map (\<lambda>r. the (rg_listeners rg r)) ts). \<forall>oper \<in> set (cb l). op_spares b (li_fn l) oper"
  shows "\<exists>rg' L'. emit_loop cb b rg (hd (ts @ [b])) = Some rg' \<and> reg_rep rg' L'
    \<and> rg_calls rg' = rg_calls rg @ map (\<lambda>r. the (rg_listeners rg r)) ts"
  using assms
proof (induction ts arbitrary: ps rg L)
  case Nil
  then show ?case by (auto simp: emit_loop.simps)
next
  case (Cons v ts)
  note il = reg_repD(1) [OF Cons.prems(1,2)]
  from cut_exists(1) [of b ps] obtain B p where c: "b # ps = B @ [p]" by blast
  from cut_exists(2) [of ts b] obtain q T where d: "ts @ [b] = q # T" by blast
  from is_list_delete(1) [OF _ c d, of "rg_nodes rg" v] il Cons.prems(3) obtain m where m: "rg_nodes rg v = Some m" "ln_next m = hd (ts @ [b])"
    by (auto simp: nextf_def d)
  have live: "\<exists>k. rg_listeners rg r = Some k" if "r \<in> set (ps @ v # ts)" for r
    using reg_repD(2) [OF Cons.prems(1,2), of r] Cons.prems(3) that by simp
  then obtain l where l: "rg_listeners rg v = Some l" by auto
  have vb: "v \<noteq> b" using il Cons.prems(3) by (auto simp: is_list_def)
  let ?rg = "rg\<lparr>rg_calls := rg_calls rg @ [l]\<rparr>"
  have a: "around ?rg L b ps v ts (rg_listeners rg) l" using Cons.prems(1,3) l by (simp add: around_def reg_rep_def)
  have dist: "distinct (map (\<lambda>r. li_fn (the (rg_listeners rg r))) (ps @ v # ts))"
    using Cons.prems(4) by (simp add: listeners_of_def Cons.prems(3) comp_def)
  then have oth: "\<forall>r \<in> set (ps @ ts). \<exists>k. rg_listeners rg r = Some k \<and> li_fn k \<noteq> li_fn l"
    using live l by (fastforce simp: image_iff)
  have sp: "\<forall>oper \<in> set (cb l). op_spares b (li_fn l) oper" using Cons.prems(5) l by simp
  from around_ops [OF a Cons.prems(2) sp oth] obtain rg1 L1 where
    1: "reg_ops ?rg (cb l) = Some rg1" "around rg1 L1 b ps v ts (rg_listeners rg) l" "rg_calls rg1 = rg_calls rg @ [l]" by auto
  from 1(2) obtain ps' where ps': "L1 b = ps' @ ts" "ps' = ps @ [v] \<and> rg_listeners rg1 v = Some l \<or> ps' = ps" by (auto simp: around_def)
  have S: "\<forall>r \<in> set (ps' @ ts). rg_listeners rg1 r = rg_listeners rg r" using ps'(2) 1(2) l by (auto simp: around_def)
  have ts: "map (\<lambda>r. the (rg_listeners rg1 r)) ts = map (\<lambda>r. the (rg_listeners rg r)) ts" using S by simp
  have e: "map li_fn (listeners_of rg1 L1 b) = map (\<lambda>r. li_fn (the (rg_listeners rg r))) (ps' @ ts)"
    using S by (simp add: listeners_of_def ps'(1) comp_def)
  have "distinct (map li_fn (listeners_of rg1 L1 b))" unfolding e using dist ps'(2) by (elim disjE conjE) simp_all
  from Cons.IH [OF _ Cons.prems(2) ps'(1) this, unfolded ts] 1(2) Cons.prems(5) obtain rg2 L2 where
    "emit_loop cb b rg1 (hd (ts @ [b])) = Some rg2" "reg_rep rg2 L2" "rg_calls rg2 = rg_calls rg1 @ map (\<lambda>r. the (rg_listeners rg r)) ts"
    by (auto simp: around_def)
  then show ?case using 1(1,3) l m vb by (auto simp: emit_loop.simps [of cb b rg v])
qed

section \<open>Properties\<close>

text \<open>C26: every listener hears every event. For an event type of the table (1 to 31; the header defines 1 to 24), if the functions registered for it are distinct and its callbacks
  neither add to its list nor remove others from it, an emission returns and has called every listener registered for the type
  exactly once, in the order of registration; a callback may remove itself and may change the lists of other types. The hypotheses are needed: without them the code departs from
  its comments (\<open>added_listener_fires_this_round\<close>, \<open>self_removal_uses_freed_listener\<close>, \<open>out_of_range_types_share_listeners\<close>).\<close>

theorem emit_calls_every_listener:
  assumes "reg_rep rg L" and "\<not> rg_destroying rg" and "0 < ty" and "ty < 32"
    and "distinct (map li_fn (listeners_of rg L (unat ty)))"
    and "\<forall>l \<in> set (listeners_of rg L (unat ty)). \<forall>oper \<in> set (cb l). op_spares (unat ty) (li_fn l) oper"
  shows "\<exists>rg' L'. emit_to_listeners cb rg ty = Some rg' \<and> reg_rep rg' L'
    \<and> rg_calls rg' = rg_calls rg @ listeners_of rg L (unat ty)"
proof -
  let ?b = "listener_bucket ty"
  note b = listener_bucket_less [of ty]
  have ty: "?b = unat ty" using assms(4) by (simp add: listener_bucket_def word_less_nat_alt)
  from is_list_hd [OF reg_repD(1) [OF assms(1) b]] obtain m where m: "rg_nodes rg ?b = Some m" "ln_next m = hd (L ?b @ [?b])"
    by (auto simp: nextf_def)
  from emit_loop_calls [OF assms(1) b, of "[]" "L ?b" cb] assms(5,6) obtain rg' L' where
    "emit_loop cb ?b rg (hd (L ?b @ [?b])) = Some rg'" "reg_rep rg' L'" "rg_calls rg' = rg_calls rg @ listeners_of rg L ?b"
    by (auto simp: listeners_of_def ty)
  with m assms(2) show ?thesis by (auto simp: emit_to_listeners_def ty)
qed

text \<open>An empty registry, as \<^verbatim>\<open>isz_init\<close> leaves it.\<close>

definition registry_init :: registry where
  "registry_init = kern.extend kern_init \<lparr>rg_nodes = (\<lambda>n. if n < 32 then Some \<lparr>ln_prev = n, ln_next = n\<rparr> else None),
     rg_listeners = (\<lambda>_. None), rg_next = 32, rg_destroying = False, rg_calls = []\<rparr>"

lemma registry_init_fields [simp]:
  "rg_nodes registry_init = (\<lambda>n. if n < 32 then Some \<lparr>ln_prev = n, ln_next = n\<rparr> else None)"
  "rg_listeners registry_init = (\<lambda>_. None)" "rg_next registry_init = 32" "\<not> rg_destroying registry_init" "rg_calls registry_init = []"
  "k_allocs registry_init = []"
  by (simp_all add: registry_init_def kern.defs kern_init_def)

lemma reg_rep_init: "reg_rep registry_init (\<lambda>_. [])"
  by (simp add: reg_rep_def is_list_def nextf_def prevf_def)

text \<open>Two listeners of \<^verbatim>\<open>ISZ_EVENT_OUTPUT_ADD\<close>, of which the first removes itself.\<close>

theorem emit_calls_every_listener_witness:
  "\<exists>rg rg'. reg_ops registry_init [AddListener 14 1 10, AddListener 14 2 20] = Some rg
    \<and> emit_to_listeners (\<lambda>l. if li_fn l = 1 then [RemoveListener 14 1] else []) rg 14 = Some rg'
    \<and> rg_calls rg' = [\<lparr>li_fn = 1, li_userdata = 10\<rparr>, \<lparr>li_fn = 2, li_userdata = 20\<rparr>]"
proof -
  let ?cb = "\<lambda>l. if li_fn l = 1 then [RemoveListener 14 1] else []"
  have b: "listener_bucket 14 = 14" by (simp add: listener_bucket_def)
  from add_listener_outcome [OF reg_rep_init, of 14 1 10] obtain rg1 rc1 where
    1: "isz_add_listener registry_init 14 (Some 1) 10 = Some (rg1, rc1)" "rg_calls rg1 = []" "\<not> rg_destroying rg1"
    "rc1 = ISZ_OK \<Longrightarrow> reg_rep rg1 ((\<lambda>_. [])(14 := [32])) \<and> rg_next rg1 = 33 \<and> rg_listeners rg1 = (\<lambda>_. None)(32 \<mapsto> \<lparr>li_fn = 1, li_userdata = 10\<rparr>)"
    by (auto simp: b)
  have ok: "rc1 = ISZ_OK" "k_allocs rg1 = []" using 1(1) by (auto simp: isz_add_listener_def k_alloc_def Let_def bind_eq_Some_conv)
  note r1 = 1(4) [OF ok(1)]
  from add_listener_outcome [of rg1 _ 14 2 20] r1 obtain rg2 rc2 where
    2: "isz_add_listener rg1 14 (Some 2) 20 = Some (rg2, rc2)" "rg_calls rg2 = []" "\<not> rg_destroying rg2"
    "rc2 = ISZ_OK \<Longrightarrow> reg_rep rg2 ((\<lambda>_. [])(14 := [32, 33]))
       \<and> rg_listeners rg2 = (\<lambda>_. None)(32 \<mapsto> \<lparr>li_fn = 1, li_userdata = 10\<rparr>, 33 \<mapsto> \<lparr>li_fn = 2, li_userdata = 20\<rparr>)"
    using 1(2,3) by (fastforce simp: b)
  have "rc2 = ISZ_OK" using 2(1) ok(2) by (auto simp: isz_add_listener_def k_alloc_def Let_def bind_eq_Some_conv)
  note r2 = 2(4) [OF this]
  have l: "listeners_of rg2 ((\<lambda>_. [])(14 := [32, 33])) 14 = [\<lparr>li_fn = 1, li_userdata = 10\<rparr>, \<lparr>li_fn = 2, li_userdata = 20\<rparr>]"
    using r2 by (simp add: listeners_of_def)
  from emit_calls_every_listener [of rg2 "(\<lambda>_. [])(14 := [32, 33])" 14 ?cb] r2 2(2,3) l obtain rg' where
    "emit_to_listeners ?cb rg2 14 = Some rg'" "rg_calls rg' = [\<lparr>li_fn = 1, li_userdata = 10\<rparr>, \<lparr>li_fn = 2, li_userdata = 20\<rparr>]"
    by (auto simp: b)
  moreover have "reg_ops registry_init [AddListener 14 1 10, AddListener 14 2 20] = Some rg2" using 1(1) 2(1) by simp
  ultimately show ?thesis by blast
qed

text \<open>A function registered twice that removes itself frees the node the emission goes to next.\<close>

lemmas listener_eval = isz_add_listener_def isz_remove_listener_def k_alloc_def Let_def listener_bucket_def isz_list_push_back_def
  isz_list_insert_def set_next_def set_prev_def isz_list_remove_def drop_listener_def

lemma self_removal_uses_freed_listener:
  "\<exists>rg. reg_ops registry_init [AddListener 14 1 10, AddListener 14 1 20] = Some rg
    \<and> emit_to_listeners (\<lambda>l. [RemoveListener 14 1]) rg 14 = None"
  by (simp add: listener_eval emit_to_listeners_def emit_loop.simps remove_loop.simps)

text \<open>A listener added during an emission is called in the same round when it is not added by the last listener.\<close>

lemma added_listener_fires_this_round:
  "\<exists>rg rg'. reg_ops registry_init [AddListener 14 1 10, AddListener 14 2 20] = Some rg
    \<and> emit_to_listeners (\<lambda>l. if li_fn l = 1 then [AddListener 14 3 30] else []) rg 14 = Some rg' \<and> map li_fn (rg_calls rg') = [1, 2, 3]"
  by (simp add: listener_eval emit_to_listeners_def emit_loop.simps)

text \<open>Types outside the table share bucket 0, which is not empty when a listener was added for one of them.\<close>

lemma out_of_range_types_share_listeners:
  "\<exists>rg rg'. reg_ops registry_init [AddListener 100 1 10] = Some rg
    \<and> emit_to_listeners (\<lambda>l. []) rg 200 = Some rg' \<and> map li_fn (rg_calls rg') = [1]"
  by (simp add: listener_eval emit_to_listeners_def emit_loop.simps)

end
