(* ===== verification/X11_Proto.thy ===== *)
theory X11_Proto
  imports Isz_Wire
begin

text \<open>
  Messages of the X11 protocol as the bridge builds them, \<^verbatim>\<open>x11bridge/x11_proto.c\<close>. A client chooses the byte order. A buffer is a list of bytes, \<open>None\<close> for \<^verbatim>\<open>NULL\<close>;
  an access outside it is the result \<open>None\<close>. The second half says what each message has to look like and that the builders write exactly that.
\<close>

unbundle bit_operations_syntax

section \<open>Bytes\<close>

abbreviation (input) "X11_BYTE_ORDER_LSB \<equiv> (0x6C :: u8)"
abbreviation (input) "X11_BYTE_ORDER_MSB \<equiv> (0x42 :: u8)"

definition x11_get_u16 :: "u8 list \<Rightarrow> nat \<Rightarrow> u8 \<Rightarrow> u16 option" where
  "x11_get_u16 p off byte_order =
     (if off + 2 \<le> length p
      then Some (if byte_order = X11_BYTE_ORDER_MSB then push_bit 8 (ucast (p ! off)) OR ucast (p ! (off + 1))
                 else ucast (p ! off) OR push_bit 8 (ucast (p ! (off + 1))))
      else None)"

definition x11_get_u32 :: "u8 list \<Rightarrow> nat \<Rightarrow> u8 \<Rightarrow> u32 option" where
  "x11_get_u32 p off byte_order =
     (if off + 4 \<le> length p
      then Some (if byte_order = X11_BYTE_ORDER_MSB
                 then push_bit 24 (ucast (p ! off)) OR push_bit 16 (ucast (p ! (off + 1))) OR push_bit 8 (ucast (p ! (off + 2))) OR ucast (p ! (off + 3))
                 else ucast (p ! off) OR push_bit 8 (ucast (p ! (off + 1))) OR push_bit 16 (ucast (p ! (off + 2))) OR push_bit 24 (ucast (p ! (off + 3))))
      else None)"

definition x11_put_u16 :: "u8 list \<Rightarrow> nat \<Rightarrow> u16 \<Rightarrow> u8 \<Rightarrow> u8 list option" where
  "x11_put_u16 p off v byte_order =
     (if off + 2 \<le> length p
      then Some (if byte_order = X11_BYTE_ORDER_MSB then p[off := byte_of 8 v, off + 1 := byte_of 0 v]
                 else p[off := byte_of 0 v, off + 1 := byte_of 8 v])
      else None)"

definition x11_put_u32 :: "u8 list \<Rightarrow> nat \<Rightarrow> u32 \<Rightarrow> u8 \<Rightarrow> u8 list option" where
  "x11_put_u32 p off v byte_order =
     (if off + 4 \<le> length p
      then Some (if byte_order = X11_BYTE_ORDER_MSB
                 then p[off := byte_of 24 v, off + 1 := byte_of 16 v, off + 2 := byte_of 8 v, off + 3 := byte_of 0 v]
                 else p[off := byte_of 0 v, off + 1 := byte_of 8 v, off + 2 := byte_of 16 v, off + 3 := byte_of 24 v])
      else None)"

text \<open>\<^verbatim>\<open>(n + 3u) & ~(size_t)3u\<close>\<close>

definition x11_pad4 :: "nat \<Rightarrow> nat" where
  "x11_pad4 n = (n + 3) div 4 * 4"

text \<open>\<^verbatim>\<open>p[off] = v\<close> and \<^verbatim>\<open>memset(p, 0, n)\<close>\<close>

definition put_u8 :: "u8 list \<Rightarrow> nat \<Rightarrow> u8 \<Rightarrow> u8 list option" where
  "put_u8 p off v = (if off < length p then Some (p[off := v]) else None)"

definition mem_zero :: "u8 list \<Rightarrow> nat \<Rightarrow> u8 list option" where
  "mem_zero p n = (if n \<le> length p then Some (replicate n 0 @ drop n p) else None)"

section \<open>Builders\<close>

abbreviation (input) "X11_EV_KEY_PRESS \<equiv> (2 :: u8)"
abbreviation (input) "X11_EV_KEY_RELEASE \<equiv> (3 :: u8)"
abbreviation (input) "X11_EV_BUTTON_PRESS \<equiv> (4 :: u8)"
abbreviation (input) "X11_EV_BUTTON_RELEASE \<equiv> (5 :: u8)"
abbreviation (input) "X11_EV_MOTION_NOTIFY \<equiv> (6 :: u8)"
abbreviation (input) "X11_EV_EXPOSE \<equiv> (12 :: u8)"
abbreviation (input) "X11_EV_GRAPHICS_EXPOSURE \<equiv> (13 :: u8)"
abbreviation (input) "X11_EV_NO_EXPOSE \<equiv> (14 :: u8)"
abbreviation (input) "X11_EV_DESTROY_NOTIFY \<equiv> (17 :: u8)"
abbreviation (input) "X11_EV_UNMAP_NOTIFY \<equiv> (18 :: u8)"
abbreviation (input) "X11_EV_MAP_NOTIFY \<equiv> (19 :: u8)"
abbreviation (input) "X11_EV_CONFIGURE_NOTIFY \<equiv> (22 :: u8)"
abbreviation (input) "X11_EV_PROPERTY_NOTIFY \<equiv> (28 :: u8)"
abbreviation (input) "X11_EV_SELECTION_CLEAR \<equiv> (29 :: u8)"
abbreviation (input) "X11_EV_SELECTION_REQUEST \<equiv> (30 :: u8)"
abbreviation (input) "X11_EV_SELECTION_NOTIFY \<equiv> (31 :: u8)"

definition x11_build_error ::
    "u8 list option \<Rightarrow> u8 \<Rightarrow> u16 \<Rightarrow> u32 \<Rightarrow> u8 \<Rightarrow> u8 \<Rightarrow> u8
      \<Rightarrow> (u8 list option \<times> nat) option" where
  "x11_build_error out_buf error_code sequence bad_value major_opcode minor_opcode byte_order = (case out_buf of
       None \<Rightarrow> Some (None, 0)
     | Some b \<Rightarrow> do {
         b \<leftarrow> mem_zero b 32;
         b \<leftarrow> put_u8 b 0 0;
         b \<leftarrow> put_u8 b 1 error_code;
         b \<leftarrow> x11_put_u16 b 2 sequence byte_order;
         b \<leftarrow> x11_put_u32 b 4 bad_value byte_order;
         b \<leftarrow> put_u8 b 8 minor_opcode;
         b \<leftarrow> put_u8 b 9 major_opcode;
         Some (Some b, 32)
       })"

definition x11_build_get_geometry_reply ::
    "u8 list option \<Rightarrow> u8 \<Rightarrow> u32 \<Rightarrow> int \<Rightarrow> int \<Rightarrow> u16 \<Rightarrow> u16 \<Rightarrow> u16 \<Rightarrow> u16 \<Rightarrow> u8
      \<Rightarrow> (u8 list option \<times> nat) option" where
  "x11_build_get_geometry_reply out_buf depth root_xid x y width height border_width sequence byte_order = (case out_buf of
       None \<Rightarrow> Some (None, 0)
     | Some b \<Rightarrow> do {
         b \<leftarrow> mem_zero b 32;
         b \<leftarrow> put_u8 b 0 1;
         b \<leftarrow> put_u8 b 1 depth;
         b \<leftarrow> x11_put_u16 b 2 sequence byte_order;
         b \<leftarrow> x11_put_u32 b 4 0 byte_order;
         b \<leftarrow> x11_put_u32 b 8 root_xid byte_order;
         b \<leftarrow> x11_put_u16 b 12 (word_of_int x) byte_order;
         b \<leftarrow> x11_put_u16 b 14 (word_of_int y) byte_order;
         b \<leftarrow> x11_put_u16 b 16 width byte_order;
         b \<leftarrow> x11_put_u16 b 18 height byte_order;
         b \<leftarrow> x11_put_u16 b 20 border_width byte_order;
         Some (Some b, 32)
       })"

definition x11_build_intern_atom_reply ::
    "u8 list option \<Rightarrow> u32 \<Rightarrow> u16 \<Rightarrow> u8
      \<Rightarrow> (u8 list option \<times> nat) option" where
  "x11_build_intern_atom_reply out_buf atom sequence byte_order = (case out_buf of
       None \<Rightarrow> Some (None, 0)
     | Some b \<Rightarrow> do {
         b \<leftarrow> mem_zero b 32;
         b \<leftarrow> put_u8 b 0 1;
         b \<leftarrow> x11_put_u16 b 2 sequence byte_order;
         b \<leftarrow> x11_put_u32 b 4 0 byte_order;
         b \<leftarrow> x11_put_u32 b 8 atom byte_order;
         Some (Some b, 32)
       })"

definition x11_build_map_notify ::
    "u8 list option \<Rightarrow> u32 \<Rightarrow> u32 \<Rightarrow> bool \<Rightarrow> u16 \<Rightarrow> u8
      \<Rightarrow> (u8 list option \<times> nat) option" where
  "x11_build_map_notify out_buf event window override_redirect sequence byte_order = (case out_buf of
       None \<Rightarrow> Some (None, 0)
     | Some b \<Rightarrow> do {
         b \<leftarrow> mem_zero b 32;
         b \<leftarrow> put_u8 b 0 X11_EV_MAP_NOTIFY;
         b \<leftarrow> put_u8 b 1 (if override_redirect then 1 else 0);
         b \<leftarrow> x11_put_u16 b 2 sequence byte_order;
         b \<leftarrow> x11_put_u32 b 4 event byte_order;
         b \<leftarrow> x11_put_u32 b 8 window byte_order;
         Some (Some b, 32)
       })"

definition x11_build_unmap_notify ::
    "u8 list option \<Rightarrow> u32 \<Rightarrow> u32 \<Rightarrow> bool \<Rightarrow> u16 \<Rightarrow> u8
      \<Rightarrow> (u8 list option \<times> nat) option" where
  "x11_build_unmap_notify out_buf event window from_configure sequence byte_order = (case out_buf of
       None \<Rightarrow> Some (None, 0)
     | Some b \<Rightarrow> do {
         b \<leftarrow> mem_zero b 32;
         b \<leftarrow> put_u8 b 0 X11_EV_UNMAP_NOTIFY;
         b \<leftarrow> put_u8 b 1 (if from_configure then 1 else 0);
         b \<leftarrow> x11_put_u16 b 2 sequence byte_order;
         b \<leftarrow> x11_put_u32 b 4 event byte_order;
         b \<leftarrow> x11_put_u32 b 8 window byte_order;
         Some (Some b, 32)
       })"

definition x11_build_configure_notify ::
    "u8 list option \<Rightarrow> u32 \<Rightarrow> u32 \<Rightarrow> u32 \<Rightarrow> int \<Rightarrow> int \<Rightarrow> u16 \<Rightarrow> u16 \<Rightarrow> u16 \<Rightarrow> bool \<Rightarrow> u16 \<Rightarrow> u8
      \<Rightarrow> (u8 list option \<times> nat) option" where
  "x11_build_configure_notify out_buf event window above_sibling x y width height border_width override_redirect sequence
      byte_order = (case out_buf of
       None \<Rightarrow> Some (None, 0)
     | Some b \<Rightarrow> do {
         b \<leftarrow> mem_zero b 32;
         b \<leftarrow> put_u8 b 0 X11_EV_CONFIGURE_NOTIFY;
         b \<leftarrow> x11_put_u16 b 2 sequence byte_order;
         b \<leftarrow> x11_put_u32 b 4 event byte_order;
         b \<leftarrow> x11_put_u32 b 8 window byte_order;
         b \<leftarrow> x11_put_u32 b 12 above_sibling byte_order;
         b \<leftarrow> x11_put_u16 b 16 (word_of_int x) byte_order;
         b \<leftarrow> x11_put_u16 b 18 (word_of_int y) byte_order;
         b \<leftarrow> x11_put_u16 b 20 width byte_order;
         b \<leftarrow> x11_put_u16 b 22 height byte_order;
         b \<leftarrow> x11_put_u16 b 24 border_width byte_order;
         b \<leftarrow> put_u8 b 26 (if override_redirect then 1 else 0);
         Some (Some b, 32)
       })"

definition x11_build_destroy_notify ::
    "u8 list option \<Rightarrow> u32 \<Rightarrow> u32 \<Rightarrow> u16 \<Rightarrow> u8
      \<Rightarrow> (u8 list option \<times> nat) option" where
  "x11_build_destroy_notify out_buf event window sequence byte_order = (case out_buf of
       None \<Rightarrow> Some (None, 0)
     | Some b \<Rightarrow> do {
         b \<leftarrow> mem_zero b 32;
         b \<leftarrow> put_u8 b 0 X11_EV_DESTROY_NOTIFY;
         b \<leftarrow> x11_put_u16 b 2 sequence byte_order;
         b \<leftarrow> x11_put_u32 b 4 event byte_order;
         b \<leftarrow> x11_put_u32 b 8 window byte_order;
         Some (Some b, 32)
       })"

definition x11_build_property_notify ::
    "u8 list option \<Rightarrow> u32 \<Rightarrow> u32 \<Rightarrow> u32 \<Rightarrow> u8 \<Rightarrow> u16 \<Rightarrow> u8
      \<Rightarrow> (u8 list option \<times> nat) option" where
  "x11_build_property_notify out_buf window atom time state sequence byte_order = (case out_buf of
       None \<Rightarrow> Some (None, 0)
     | Some b \<Rightarrow> do {
         b \<leftarrow> mem_zero b 32;
         b \<leftarrow> put_u8 b 0 X11_EV_PROPERTY_NOTIFY;
         b \<leftarrow> x11_put_u16 b 2 sequence byte_order;
         b \<leftarrow> x11_put_u32 b 4 window byte_order;
         b \<leftarrow> x11_put_u32 b 8 atom byte_order;
         b \<leftarrow> x11_put_u32 b 12 time byte_order;
         b \<leftarrow> put_u8 b 16 state;
         Some (Some b, 32)
       })"

definition x11_build_get_window_attributes_reply ::
    "u8 list option \<Rightarrow> u8 \<Rightarrow> u32 \<Rightarrow> u16 \<Rightarrow> u8 \<Rightarrow> u8 \<Rightarrow> u32 \<Rightarrow> u32 \<Rightarrow> bool \<Rightarrow> bool \<Rightarrow> u8 \<Rightarrow> bool \<Rightarrow> u32 \<Rightarrow> u32 \<Rightarrow> u32 \<Rightarrow> u16 \<Rightarrow> u16 \<Rightarrow> u8
      \<Rightarrow> (u8 list option \<times> nat) option" where
  "x11_build_get_window_attributes_reply out_buf backing_store visual class' bit_gravity win_gravity backing_planes backing_pixel
      override_redirect save_under map_state map_installed colormap all_event_masks your_event_mask do_not_propagate_mask sequence
      byte_order = (case out_buf of
       None \<Rightarrow> Some (None, 0)
     | Some b \<Rightarrow> do {
         b \<leftarrow> mem_zero b 44;
         b \<leftarrow> put_u8 b 0 1;
         b \<leftarrow> put_u8 b 1 backing_store;
         b \<leftarrow> x11_put_u16 b 2 sequence byte_order;
         b \<leftarrow> x11_put_u32 b 4 9 byte_order;
         b \<leftarrow> x11_put_u32 b 8 visual byte_order;
         b \<leftarrow> x11_put_u16 b 12 class' byte_order;
         b \<leftarrow> put_u8 b 14 bit_gravity;
         b \<leftarrow> put_u8 b 15 win_gravity;
         b \<leftarrow> x11_put_u32 b 16 backing_planes byte_order;
         b \<leftarrow> x11_put_u32 b 20 backing_pixel byte_order;
         b \<leftarrow> put_u8 b 24 (if override_redirect then 1 else 0);
         b \<leftarrow> put_u8 b 25 (if save_under then 1 else 0);
         b \<leftarrow> put_u8 b 26 map_state;
         b \<leftarrow> put_u8 b 27 (if map_installed then 1 else 0);
         b \<leftarrow> x11_put_u32 b 28 colormap byte_order;
         b \<leftarrow> x11_put_u32 b 32 all_event_masks byte_order;
         b \<leftarrow> x11_put_u32 b 36 your_event_mask byte_order;
         b \<leftarrow> x11_put_u16 b 40 do_not_propagate_mask byte_order;
         Some (Some b, 44)
       })"

definition x11_build_get_selection_owner_reply ::
    "u8 list option \<Rightarrow> u32 \<Rightarrow> u16 \<Rightarrow> u8
      \<Rightarrow> (u8 list option \<times> nat) option" where
  "x11_build_get_selection_owner_reply out_buf owner sequence byte_order = (case out_buf of
       None \<Rightarrow> Some (None, 0)
     | Some b \<Rightarrow> do {
         b \<leftarrow> mem_zero b 32;
         b \<leftarrow> put_u8 b 0 1;
         b \<leftarrow> x11_put_u16 b 2 sequence byte_order;
         b \<leftarrow> x11_put_u32 b 4 0 byte_order;
         b \<leftarrow> x11_put_u32 b 8 owner byte_order;
         Some (Some b, 32)
       })"

definition x11_build_query_pointer_reply ::
    "u8 list option \<Rightarrow> bool \<Rightarrow> u32 \<Rightarrow> u32 \<Rightarrow> int \<Rightarrow> int \<Rightarrow> int \<Rightarrow> int \<Rightarrow> u16 \<Rightarrow> u16 \<Rightarrow> u8
      \<Rightarrow> (u8 list option \<times> nat) option" where
  "x11_build_query_pointer_reply out_buf same_screen root child root_x root_y win_x win_y mask' sequence byte_order = (case out_buf of
       None \<Rightarrow> Some (None, 0)
     | Some b \<Rightarrow> do {
         b \<leftarrow> mem_zero b 32;
         b \<leftarrow> put_u8 b 0 1;
         b \<leftarrow> put_u8 b 1 (if same_screen then 1 else 0);
         b \<leftarrow> x11_put_u16 b 2 sequence byte_order;
         b \<leftarrow> x11_put_u32 b 4 0 byte_order;
         b \<leftarrow> x11_put_u32 b 8 root byte_order;
         b \<leftarrow> x11_put_u32 b 12 child byte_order;
         b \<leftarrow> x11_put_u16 b 16 (word_of_int root_x) byte_order;
         b \<leftarrow> x11_put_u16 b 18 (word_of_int root_y) byte_order;
         b \<leftarrow> x11_put_u16 b 20 (word_of_int win_x) byte_order;
         b \<leftarrow> x11_put_u16 b 22 (word_of_int win_y) byte_order;
         b \<leftarrow> x11_put_u16 b 24 mask' byte_order;
         Some (Some b, 32)
       })"

definition x11_build_selection_clear ::
    "u8 list option \<Rightarrow> u32 \<Rightarrow> u32 \<Rightarrow> u32 \<Rightarrow> u16 \<Rightarrow> u8
      \<Rightarrow> (u8 list option \<times> nat) option" where
  "x11_build_selection_clear out_buf time owner selection_atom sequence byte_order = (case out_buf of
       None \<Rightarrow> Some (None, 0)
     | Some b \<Rightarrow> do {
         b \<leftarrow> mem_zero b 32;
         b \<leftarrow> put_u8 b 0 X11_EV_SELECTION_CLEAR;
         b \<leftarrow> x11_put_u16 b 2 sequence byte_order;
         b \<leftarrow> x11_put_u32 b 4 time byte_order;
         b \<leftarrow> x11_put_u32 b 8 owner byte_order;
         b \<leftarrow> x11_put_u32 b 12 selection_atom byte_order;
         Some (Some b, 32)
       })"

definition x11_build_selection_request ::
    "u8 list option \<Rightarrow> u32 \<Rightarrow> u32 \<Rightarrow> u32 \<Rightarrow> u32 \<Rightarrow> u32 \<Rightarrow> u32 \<Rightarrow> u16 \<Rightarrow> u8
      \<Rightarrow> (u8 list option \<times> nat) option" where
  "x11_build_selection_request out_buf time owner requestor selection_atom target_atom property_atom sequence byte_order = (case out_buf of
       None \<Rightarrow> Some (None, 0)
     | Some b \<Rightarrow> do {
         b \<leftarrow> mem_zero b 32;
         b \<leftarrow> put_u8 b 0 X11_EV_SELECTION_REQUEST;
         b \<leftarrow> x11_put_u16 b 2 sequence byte_order;
         b \<leftarrow> x11_put_u32 b 4 time byte_order;
         b \<leftarrow> x11_put_u32 b 8 owner byte_order;
         b \<leftarrow> x11_put_u32 b 12 requestor byte_order;
         b \<leftarrow> x11_put_u32 b 16 selection_atom byte_order;
         b \<leftarrow> x11_put_u32 b 20 target_atom byte_order;
         b \<leftarrow> x11_put_u32 b 24 property_atom byte_order;
         Some (Some b, 32)
       })"

definition x11_build_selection_notify ::
    "u8 list option \<Rightarrow> u32 \<Rightarrow> u32 \<Rightarrow> u32 \<Rightarrow> u32 \<Rightarrow> u32 \<Rightarrow> u16 \<Rightarrow> u8
      \<Rightarrow> (u8 list option \<times> nat) option" where
  "x11_build_selection_notify out_buf time requestor selection_atom target_atom property_atom sequence byte_order = (case out_buf of
       None \<Rightarrow> Some (None, 0)
     | Some b \<Rightarrow> do {
         b \<leftarrow> mem_zero b 32;
         b \<leftarrow> put_u8 b 0 X11_EV_SELECTION_NOTIFY;
         b \<leftarrow> x11_put_u16 b 2 sequence byte_order;
         b \<leftarrow> x11_put_u32 b 4 time byte_order;
         b \<leftarrow> x11_put_u32 b 8 requestor byte_order;
         b \<leftarrow> x11_put_u32 b 12 selection_atom byte_order;
         b \<leftarrow> x11_put_u32 b 16 target_atom byte_order;
         b \<leftarrow> x11_put_u32 b 20 property_atom byte_order;
         Some (Some b, 32)
       })"

definition x11_build_graphics_exposure ::
    "u8 list option \<Rightarrow> u32 \<Rightarrow> u16 \<Rightarrow> u16 \<Rightarrow> u16 \<Rightarrow> u16 \<Rightarrow> u16 \<Rightarrow> u16 \<Rightarrow> u8 \<Rightarrow> u16 \<Rightarrow> u8
      \<Rightarrow> (u8 list option \<times> nat) option" where
  "x11_build_graphics_exposure out_buf drawable x y width height minor_opcode count major_opcode sequence byte_order = (case out_buf of
       None \<Rightarrow> Some (None, 0)
     | Some b \<Rightarrow> do {
         b \<leftarrow> mem_zero b 32;
         b \<leftarrow> put_u8 b 0 X11_EV_GRAPHICS_EXPOSURE;
         b \<leftarrow> x11_put_u16 b 2 sequence byte_order;
         b \<leftarrow> x11_put_u32 b 4 drawable byte_order;
         b \<leftarrow> x11_put_u16 b 8 x byte_order;
         b \<leftarrow> x11_put_u16 b 10 y byte_order;
         b \<leftarrow> x11_put_u16 b 12 width byte_order;
         b \<leftarrow> x11_put_u16 b 14 height byte_order;
         b \<leftarrow> x11_put_u16 b 16 minor_opcode byte_order;
         b \<leftarrow> x11_put_u16 b 18 count byte_order;
         b \<leftarrow> put_u8 b 20 major_opcode;
         Some (Some b, 32)
       })"

definition x11_build_no_expose ::
    "u8 list option \<Rightarrow> u32 \<Rightarrow> u16 \<Rightarrow> u8 \<Rightarrow> u16 \<Rightarrow> u8
      \<Rightarrow> (u8 list option \<times> nat) option" where
  "x11_build_no_expose out_buf drawable minor_opcode major_opcode sequence byte_order = (case out_buf of
       None \<Rightarrow> Some (None, 0)
     | Some b \<Rightarrow> do {
         b \<leftarrow> mem_zero b 32;
         b \<leftarrow> put_u8 b 0 X11_EV_NO_EXPOSE;
         b \<leftarrow> x11_put_u16 b 2 sequence byte_order;
         b \<leftarrow> x11_put_u32 b 4 drawable byte_order;
         b \<leftarrow> x11_put_u16 b 8 minor_opcode byte_order;
         b \<leftarrow> put_u8 b 10 major_opcode;
         Some (Some b, 32)
       })"

definition x11_build_expose ::
    "u8 list option \<Rightarrow> u32 \<Rightarrow> u16 \<Rightarrow> u16 \<Rightarrow> u16 \<Rightarrow> u16 \<Rightarrow> u16 \<Rightarrow> u16 \<Rightarrow> u8
      \<Rightarrow> (u8 list option \<times> nat) option" where
  "x11_build_expose out_buf window x y width height count sequence byte_order = (case out_buf of
       None \<Rightarrow> Some (None, 0)
     | Some b \<Rightarrow> do {
         b \<leftarrow> mem_zero b 32;
         b \<leftarrow> put_u8 b 0 X11_EV_EXPOSE;
         b \<leftarrow> x11_put_u16 b 2 sequence byte_order;
         b \<leftarrow> x11_put_u32 b 4 window byte_order;
         b \<leftarrow> x11_put_u16 b 8 x byte_order;
         b \<leftarrow> x11_put_u16 b 10 y byte_order;
         b \<leftarrow> x11_put_u16 b 12 width byte_order;
         b \<leftarrow> x11_put_u16 b 14 height byte_order;
         b \<leftarrow> x11_put_u16 b 16 count byte_order;
         Some (Some b, 32)
       })"

definition x11_build_query_best_size_reply ::
    "u8 list option \<Rightarrow> u16 \<Rightarrow> u16 \<Rightarrow> u16 \<Rightarrow> u8
      \<Rightarrow> (u8 list option \<times> nat) option" where
  "x11_build_query_best_size_reply out_buf width height sequence byte_order = (case out_buf of
       None \<Rightarrow> Some (None, 0)
     | Some b \<Rightarrow> do {
         b \<leftarrow> mem_zero b 16;
         b \<leftarrow> put_u8 b 0 1;
         b \<leftarrow> x11_put_u16 b 2 sequence byte_order;
         b \<leftarrow> x11_put_u32 b 4 0 byte_order;
         b \<leftarrow> x11_put_u16 b 8 width byte_order;
         b \<leftarrow> x11_put_u16 b 10 height byte_order;
         Some (Some b, 16)
       })"



definition x11_build_get_property_reply ::
    "u8 list option \<Rightarrow> nat \<Rightarrow> u8 \<Rightarrow> u32 \<Rightarrow> u32 \<Rightarrow> u32 \<Rightarrow> u8 list option \<Rightarrow> nat \<Rightarrow> u16 \<Rightarrow> u8
      \<Rightarrow> (u8 list option \<times> nat) option" where
  "x11_build_get_property_reply out_buf out_cap format type bytes_after value_len value' value_bytes sequence byte_order = (case out_buf of
       None \<Rightarrow> Some (None, 0)
     | Some b \<Rightarrow>
         let padded = x11_pad4 value_bytes
         in if out_cap < 32 + padded then Some (Some b, 0)
            else do {
              b \<leftarrow> mem_zero b (32 + padded);
              b \<leftarrow> put_u8 b 0 1;
              b \<leftarrow> put_u8 b 1 format;
              b \<leftarrow> x11_put_u16 b 2 sequence byte_order;
              b \<leftarrow> x11_put_u32 b 4 (of_nat (padded div 4)) byte_order;
              b \<leftarrow> x11_put_u32 b 8 type byte_order;
              b \<leftarrow> x11_put_u32 b 12 bytes_after byte_order;
              b \<leftarrow> x11_put_u32 b 16 value_len byte_order;
              b \<leftarrow> (case value' of
                      Some v \<Rightarrow> if value_bytes > 0 then memcpy_at b 32 v value_bytes else Some b
                    | None \<Rightarrow> Some b);
              Some (Some b, 32 + padded)
            })"

text \<open>The loop over the children.\<close>

fun put_xids :: "u8 list \<Rightarrow> nat \<Rightarrow> u32 list \<Rightarrow> u8 \<Rightarrow> u8 list option" where
  "put_xids b off [] byte_order = Some b"
| "put_xids b off (x # xs) byte_order = do { b \<leftarrow> x11_put_u32 b off x byte_order; put_xids b (off + 4) xs byte_order }"

definition x11_build_query_tree_reply ::
    "u8 list option \<Rightarrow> nat \<Rightarrow> u32 \<Rightarrow> u32 \<Rightarrow> u32 list \<Rightarrow> u16 \<Rightarrow> u16 \<Rightarrow> u8 \<Rightarrow> (u8 list option \<times> nat) option" where
  "x11_build_query_tree_reply out_buf out_cap root parent children n sequence byte_order = (case out_buf of
       None \<Rightarrow> Some (None, 0)
     | Some b \<Rightarrow>
         let total = 32 + unat n * 4
         in if out_cap < total then Some (Some b, 0)
            else do {
              b \<leftarrow> mem_zero b total;
              b \<leftarrow> put_u8 b 0 1;
              b \<leftarrow> x11_put_u16 b 2 sequence byte_order;
              b \<leftarrow> x11_put_u32 b 4 (6 + ucast n) byte_order;
              b \<leftarrow> x11_put_u32 b 8 root byte_order;
              b \<leftarrow> x11_put_u32 b 12 parent byte_order;
              b \<leftarrow> x11_put_u16 b 16 n byte_order;
              b \<leftarrow> (if unat n \<le> length children then put_xids b 32 (take (unat n) children) byte_order else None);
              Some (Some b, total)
            })"

definition x11_build_get_atom_name_reply ::
    "u8 list option \<Rightarrow> nat \<Rightarrow> u8 list option \<Rightarrow> u16 \<Rightarrow> u16 \<Rightarrow> u8 \<Rightarrow> (u8 list option \<times> nat) option" where
  "x11_build_get_atom_name_reply out_buf out_cap name name_len sequence byte_order = (case out_buf of
       None \<Rightarrow> Some (None, 0)
     | Some b \<Rightarrow>
         let padded = x11_pad4 (unat name_len);
             total = 32 + padded
         in if out_cap < total then Some (Some b, 0)
            else do {
              b \<leftarrow> mem_zero b total;
              b \<leftarrow> put_u8 b 0 1;
              b \<leftarrow> x11_put_u16 b 2 sequence byte_order;
              b \<leftarrow> x11_put_u32 b 4 (of_nat (padded div 4 + 6)) byte_order;
              b \<leftarrow> x11_put_u16 b 8 name_len byte_order;
              b \<leftarrow> (case name of
                      Some v \<Rightarrow> if name_len > 0 then memcpy_at b 32 v (unat name_len) else Some b
                    | None \<Rightarrow> Some b);
              Some (Some b, total)
            })"

text \<open>The structs of the setup reply are written at their offsets; \<open>fmts\<close>, \<open>rootp\<close> and \<open>depthp\<close> are the pointers of the code.\<close>

abbreviation (input) "X11_ROOT_WINDOW_ID \<equiv> (0x100 :: u32)"
abbreviation (input) "X11_ROOT_VISUAL_ID \<equiv> (0x21 :: u32)"
abbreviation (input) "X11_DEFAULT_COLORMAP \<equiv> (0x22 :: u32)"

definition x11_build_setup_success ::
    "u8 list \<Rightarrow> nat \<Rightarrow> u8 \<Rightarrow> u16 \<Rightarrow> u16 \<Rightarrow> u32 \<Rightarrow> u32 \<Rightarrow> u8 list option \<Rightarrow> (u8 list \<times> nat) option" where
  "x11_build_setup_success b out_cap bo server_proto_major server_proto_minor resource_id_base resource_id_mask vendor = (case vendor of
       None \<Rightarrow> Some (b, 0)
     | Some vendor \<Rightarrow>
         let vlen = length vendor
         in if vlen > 252 then Some (b, 0)
            else
              let vpad = x11_pad4 vlen;
                  total = 40 + vpad + 3 * 8 + 40 + (8 + 24)
              in if out_cap < total then Some (b, 0)
                 else do {
                   b \<leftarrow> mem_zero b total;
                   b \<leftarrow> put_u8 b 0 1;
                   b \<leftarrow> x11_put_u16 b 2 server_proto_major bo;
                   b \<leftarrow> x11_put_u16 b 4 server_proto_minor bo;
                   b \<leftarrow> x11_put_u16 b 6 (of_nat ((total - 8) div 4)) bo;
                   b \<leftarrow> x11_put_u32 b 8 11800000 bo;
                   b \<leftarrow> x11_put_u32 b 12 resource_id_base bo;
                   b \<leftarrow> x11_put_u32 b 16 resource_id_mask bo;
                   b \<leftarrow> x11_put_u32 b 20 0 bo;
                   b \<leftarrow> x11_put_u16 b 24 (of_nat vlen) bo;
                   b \<leftarrow> x11_put_u16 b 26 0xFFFF bo;
                   b \<leftarrow> put_u8 b 28 1;
                   b \<leftarrow> put_u8 b 29 3;
                   b \<leftarrow> put_u8 b 30 (if bo = X11_BYTE_ORDER_MSB then 1 else 0);
                   b \<leftarrow> put_u8 b 31 (if bo = X11_BYTE_ORDER_MSB then 1 else 0);
                   b \<leftarrow> put_u8 b 32 32;
                   b \<leftarrow> put_u8 b 33 32;
                   b \<leftarrow> put_u8 b 34 8;
                   b \<leftarrow> put_u8 b 35 255;
                   b \<leftarrow> (if vlen > 0 then memcpy_at b 40 vendor vlen else Some b);
                   let fmts = 40 + vpad;
                   b \<leftarrow> put_u8 b fmts 1;
                   b \<leftarrow> put_u8 b (fmts + 1) 1;
                   b \<leftarrow> put_u8 b (fmts + 2) 32;
                   b \<leftarrow> put_u8 b (fmts + 8) 24;
                   b \<leftarrow> put_u8 b (fmts + 9) 32;
                   b \<leftarrow> put_u8 b (fmts + 10) 32;
                   b \<leftarrow> put_u8 b (fmts + 16) 32;
                   b \<leftarrow> put_u8 b (fmts + 17) 32;
                   b \<leftarrow> put_u8 b (fmts + 18) 32;
                   let rootp = fmts + 24;
                   b \<leftarrow> x11_put_u32 b rootp X11_ROOT_WINDOW_ID bo;
                   b \<leftarrow> x11_put_u32 b (rootp + 4) X11_DEFAULT_COLORMAP bo;
                   b \<leftarrow> x11_put_u32 b (rootp + 8) 0xFFFFFF bo;
                   b \<leftarrow> x11_put_u32 b (rootp + 12) 0 bo;
                   b \<leftarrow> x11_put_u32 b (rootp + 16) 0 bo;
                   b \<leftarrow> x11_put_u16 b (rootp + 20) 1024 bo;
                   b \<leftarrow> x11_put_u16 b (rootp + 22) 768 bo;
                   b \<leftarrow> x11_put_u16 b (rootp + 24) 200 bo;
                   b \<leftarrow> x11_put_u16 b (rootp + 26) 150 bo;
                   b \<leftarrow> x11_put_u16 b (rootp + 28) 1 bo;
                   b \<leftarrow> x11_put_u16 b (rootp + 30) 1 bo;
                   b \<leftarrow> x11_put_u32 b (rootp + 32) X11_ROOT_VISUAL_ID bo;
                   b \<leftarrow> put_u8 b (rootp + 36) 2;
                   b \<leftarrow> put_u8 b (rootp + 37) 0;
                   b \<leftarrow> put_u8 b (rootp + 38) 24;
                   b \<leftarrow> put_u8 b (rootp + 39) 1;
                   let depthp = rootp + 40;
                   b \<leftarrow> put_u8 b depthp 24;
                   b \<leftarrow> x11_put_u16 b (depthp + 2) 1 bo;
                   let vt = depthp + 8;
                   b \<leftarrow> x11_put_u32 b vt X11_ROOT_VISUAL_ID bo;
                   b \<leftarrow> put_u8 b (vt + 4) 2;
                   b \<leftarrow> x11_put_u16 b (vt + 6) 256 bo;
                   b \<leftarrow> x11_put_u32 b (vt + 8) 0x00FF0000 bo;
                   b \<leftarrow> x11_put_u32 b (vt + 12) 0x0000FF00 bo;
                   b \<leftarrow> x11_put_u32 b (vt + 16) 0x000000FF bo;
                   b \<leftarrow> put_u8 b (vt + 20) 8;
                   Some (b, total)
                 })"

section \<open>Byte orders\<close>

definition enc16 :: "u8 \<Rightarrow> u16 \<Rightarrow> u8 list" where
  "enc16 bo v = (if bo = X11_BYTE_ORDER_MSB then [byte_of 8 v, byte_of 0 v] else [byte_of 0 v, byte_of 8 v])"

definition enc32 :: "u8 \<Rightarrow> u32 \<Rightarrow> u8 list" where
  "enc32 bo v = (if bo = X11_BYTE_ORDER_MSB then be32 v else le32 v)"

lemma length_enc [simp]: "length (enc16 bo v) = 2" "length (enc32 bo w) = 4"
  by (simp_all add: enc16_def enc32_def)

lemma x11_put_u16_eq: "x11_put_u16 p off v bo = (if off + 2 \<le> length p then Some (take off p @ enc16 bo v @ drop (off + 2) p) else None)"
proof -
  have "p[off := a, off + 1 := b] = take off p @ [a, b] @ drop (off + 2) p" if "off + 2 \<le> length p" for a b
    using that by (intro nth_equalityI) (auto simp: nth_append nth_list_update nth_Cons' intro!: arg_cong [where f = "(!) p"])
  then show ?thesis by (simp add: x11_put_u16_def enc16_def)
qed

lemma x11_put_u32_eq: "x11_put_u32 p off v bo = (if off + 4 \<le> length p then Some (take off p @ enc32 bo v @ drop (off + 4) p) else None)"
proof -
  have "x11_put_u32 p off v bo = (if bo = X11_BYTE_ORDER_MSB then isz_put_u32_be p off v else isz_put_u32_le p off v)"
    by (simp add: x11_put_u32_def isz_put_u32_be_def isz_put_u32_le_def)
  then show ?thesis by (simp add: isz_put_u32_be_eq isz_put_u32_le_eq enc32_def)
qed

lemma x11_get_u16_enc [simp]: "x11_get_u16 (pre @ enc16 bo v @ post) (length pre) bo = Some v"
proof -
  have "ucast (byte_of 0 v) OR push_bit 8 (ucast (byte_of 8 v)) = v"
    by (rule bit_word_eqI) (auto simp: bit_byte_of bit_simps)
  then show ?thesis by (simp add: x11_get_u16_def enc16_def nth_append or.commute)
qed

lemma x11_get_u32_enc [simp]: "x11_get_u32 (pre @ enc32 bo v @ post) (length pre) bo = Some v"
  using join_bytes_u32 [of v] by (simp add: x11_get_u32_def enc32_def be32_def le32_def nth_append ac_simps)


section \<open>What a message has to look like\<close>

text \<open>A message is a sequence of fields, in the order of the tables in the comments of the code, and is filled up with zero bytes to its size.\<close>

datatype field = Card8 u8 | Card16 u16 | Card32 u32 | Unused nat | Bytes "u8 list"

fun enc_field :: "u8 \<Rightarrow> field \<Rightarrow> u8 list" where
  "enc_field bo (Card8 v) = [v]"
| "enc_field bo (Card16 v) = enc16 bo v"
| "enc_field bo (Card32 v) = enc32 bo v"
| "enc_field bo (Unused n) = replicate n 0"
| "enc_field bo (Bytes bs) = bs"

definition layout :: "u8 \<Rightarrow> field list \<Rightarrow> nat \<Rightarrow> u8 list" where
  "layout bo fs n = (let bs = concat (map (enc_field bo) fs) in bs @ replicate (n - length bs) 0)"

text \<open>A buffer of which \<open>pre\<close> is written, followed by \<open>n\<close> zero bytes and by what the message does not touch.\<close>

definition wbuf :: "u8 list \<Rightarrow> nat \<Rightarrow> u8 list \<Rightarrow> u8 list" where
  "wbuf pre n rest = pre @ replicate n 0 @ rest"

lemma length_wbuf [simp]: "length (wbuf pre n rest) = length pre + n + length rest"
  by (simp add: wbuf_def)

lemma mem_zero_wbuf: "n \<le> length b \<Longrightarrow> mem_zero b n = Some (wbuf [] n (drop n b))"
  by (simp add: mem_zero_def wbuf_def)

lemma write_wbuf:
  assumes "length pre \<le> off" "off + length bs \<le> length pre + n"
  shows "take off (wbuf pre n rest) @ bs @ drop (off + length bs) (wbuf pre n rest)
    = wbuf (pre @ replicate (off - length pre) 0 @ bs) (n - (off - length pre) - length bs) rest"
proof -
  have "take (off - length pre) (replicate n (0 :: u8) @ rest) = replicate (off - length pre) 0" using assms by (simp add: take_append)
  moreover have "drop (off + length bs - length pre) (replicate n (0 :: u8) @ rest) = replicate (n - (off - length pre) - length bs) 0 @ rest"
    using assms by (simp add: drop_append)
  ultimately show ?thesis using assms by (simp add: wbuf_def take_append drop_append)
qed

lemma put_u8_wbuf:
  assumes "length pre \<le> off" "off + 1 \<le> length pre + n"
  shows "put_u8 (wbuf pre n rest) off v = Some (wbuf (pre @ replicate (off - length pre) 0 @ [v]) (n - (off - length pre) - 1) rest)"
proof -
  have "(wbuf pre n rest)[off := v] = take off (wbuf pre n rest) @ [v] @ drop (off + 1) (wbuf pre n rest)"
    using assms by (simp add: upd_conv_take_nth_drop)
  with write_wbuf [of pre off "[v]" n rest] assms show ?thesis by (simp add: put_u8_def)
qed

lemma x11_put_u16_wbuf:
  assumes "length pre \<le> off" "off + 2 \<le> length pre + n"
  shows "x11_put_u16 (wbuf pre n rest) off v bo = Some (wbuf (pre @ replicate (off - length pre) 0 @ enc16 bo v) (n - (off - length pre) - 2) rest)"
  using write_wbuf [of pre off "enc16 bo v" n rest] assms by (simp add: x11_put_u16_eq)

lemma x11_put_u32_wbuf:
  assumes "length pre \<le> off" "off + 4 \<le> length pre + n"
  shows "x11_put_u32 (wbuf pre n rest) off v bo = Some (wbuf (pre @ replicate (off - length pre) 0 @ enc32 bo v) (n - (off - length pre) - 4) rest)"
  using write_wbuf [of pre off "enc32 bo v" n rest] assms by (simp add: x11_put_u32_eq)

lemma memcpy_at_wbuf:
  assumes "length pre \<le> off" "off + len \<le> length pre + n" "len \<le> length bs"
  shows "memcpy_at (wbuf pre n rest) off bs len = Some (wbuf (pre @ replicate (off - length pre) 0 @ take len bs) (n - (off - length pre) - len) rest)"
  using write_wbuf [of pre off "take len bs" n rest] assms by (simp add: memcpy_at_def)

lemmas wbuf_simps = mem_zero_wbuf put_u8_wbuf x11_put_u16_wbuf x11_put_u32_wbuf memcpy_at_wbuf

lemma layout_wbuf: "wbuf (concat (map (enc_field bo) fs)) (n - length (concat (map (enc_field bo) fs))) rest = layout bo fs n @ rest"
  by (simp add: wbuf_def layout_def Let_def)

section \<open>The messages\<close>

datatype x11_msg =
    XGetGeometry u8 u32 int int u16 u16 u16
  | XInternAtom u32
  | XMapNotify u32 u32 bool
  | XUnmapNotify u32 u32 bool
  | XConfigureNotify u32 u32 u32 int int u16 u16 u16 bool
  | XDestroyNotify u32 u32
  | XPropertyNotify u32 u32 u32 u8
  | XGetWindowAttributes u8 u32 u16 u8 u8 u32 u32 bool bool u8 bool u32 u32 u32 u16
  | XGetSelectionOwner u32
  | XQueryPointer bool u32 u32 int int int int u16
  | XSelectionClear u32 u32 u32
  | XSelectionRequest u32 u32 u32 u32 u32 u32
  | XSelectionNotify u32 u32 u32 u32 u32
  | XGraphicsExposure u32 u16 u16 u16 u16 u16 u16 u8
  | XNoExpose u32 u16 u8
  | XExpose u32 u16 u16 u16 u16 u16
  | XQueryBestSize u16 u16
  | XGetProperty u8 u32 u32 u32 "u8 list"
  | XQueryTree u32 u32 "u32 list"
  | XGetAtomName "u8 list"
  | XError u8 u32 u8 u8

text \<open>The call of its builder with a buffer \<open>b\<close>.\<close>

fun x11_build :: "x11_msg \<Rightarrow> u16 \<Rightarrow> u8 \<Rightarrow> u8 list \<Rightarrow> (u8 list option \<times> nat) option" where
  "x11_build (XGetGeometry d r x y w h bw) seq bo b = x11_build_get_geometry_reply (Some b) d r x y w h bw seq bo"
| "x11_build (XInternAtom a) seq bo b = x11_build_intern_atom_reply (Some b) a seq bo"
| "x11_build (XMapNotify e w ovr) seq bo b = x11_build_map_notify (Some b) e w ovr seq bo"
| "x11_build (XUnmapNotify e w fc) seq bo b = x11_build_unmap_notify (Some b) e w fc seq bo"
| "x11_build (XConfigureNotify e w s x y wd h bw ovr) seq bo b = x11_build_configure_notify (Some b) e w s x y wd h bw ovr seq bo"
| "x11_build (XDestroyNotify e w) seq bo b = x11_build_destroy_notify (Some b) e w seq bo"
| "x11_build (XPropertyNotify w a t st) seq bo b = x11_build_property_notify (Some b) w a t st seq bo"
| "x11_build (XGetWindowAttributes bs v c bg wg bp bx ovr su ms mi cm al yo dn) seq bo b =
     x11_build_get_window_attributes_reply (Some b) bs v c bg wg bp bx ovr su ms mi cm al yo dn seq bo"
| "x11_build (XGetSelectionOwner ow) seq bo b = x11_build_get_selection_owner_reply (Some b) ow seq bo"
| "x11_build (XQueryPointer sm r c rx ry wx wy m) seq bo b = x11_build_query_pointer_reply (Some b) sm r c rx ry wx wy m seq bo"
| "x11_build (XSelectionClear t ow sel) seq bo b = x11_build_selection_clear (Some b) t ow sel seq bo"
| "x11_build (XSelectionRequest t ow rq sel tg pr) seq bo b = x11_build_selection_request (Some b) t ow rq sel tg pr seq bo"
| "x11_build (XSelectionNotify t rq sel tg pr) seq bo b = x11_build_selection_notify (Some b) t rq sel tg pr seq bo"
| "x11_build (XGraphicsExposure d x y w h mi c ma) seq bo b = x11_build_graphics_exposure (Some b) d x y w h mi c ma seq bo"
| "x11_build (XNoExpose d mi ma) seq bo b = x11_build_no_expose (Some b) d mi ma seq bo"
| "x11_build (XExpose w x y wd h c) seq bo b = x11_build_expose (Some b) w x y wd h c seq bo"
| "x11_build (XQueryBestSize w h) seq bo b = x11_build_query_best_size_reply (Some b) w h seq bo"
| "x11_build (XGetProperty f t af n v) seq bo b = x11_build_get_property_reply (Some b) (length b) f t af n (Some v) (length v) seq bo"
| "x11_build (XQueryTree r p cs) seq bo b = x11_build_query_tree_reply (Some b) (length b) r p cs (of_nat (length cs)) seq bo"
| "x11_build (XGetAtomName nm) seq bo b = x11_build_get_atom_name_reply (Some b) (length b) (Some nm) (of_nat (length nm)) seq bo"
| "x11_build (XError code bad major minor) seq bo b = x11_build_error (Some b) code seq bad major minor bo"

abbreviation (input) flag :: "bool \<Rightarrow> field" where "flag p \<equiv> Card8 (if p then 1 else 0)"
abbreviation (input) int16 :: "int \<Rightarrow> field" where "int16 x \<equiv> Card16 (word_of_int x)"

fun x11_fields :: "u16 \<Rightarrow> x11_msg \<Rightarrow> field list" where
  "x11_fields seq (XGetGeometry d r x y w h bw) = [Card8 1, Card8 d, Card16 seq, Card32 0, Card32 r, int16 x, int16 y, Card16 w, Card16 h, Card16 bw]"
| "x11_fields seq (XInternAtom a) = [Card8 1, Unused 1, Card16 seq, Card32 0, Card32 a]"
| "x11_fields seq (XMapNotify e w ovr) = [Card8 19, flag ovr, Card16 seq, Card32 e, Card32 w]"
| "x11_fields seq (XUnmapNotify e w fc) = [Card8 18, flag fc, Card16 seq, Card32 e, Card32 w]"
| "x11_fields seq (XConfigureNotify e w s x y wd h bw ovr) =
     [Card8 22, Unused 1, Card16 seq, Card32 e, Card32 w, Card32 s, int16 x, int16 y, Card16 wd, Card16 h, Card16 bw, flag ovr]"
| "x11_fields seq (XDestroyNotify e w) = [Card8 17, Unused 1, Card16 seq, Card32 e, Card32 w]"
| "x11_fields seq (XPropertyNotify w a t st) = [Card8 28, Unused 1, Card16 seq, Card32 w, Card32 a, Card32 t, Card8 st]"
| "x11_fields seq (XGetWindowAttributes bs v c bg wg bp bx ovr su ms mi cm al yo dn) =
     [Card8 1, Card8 bs, Card16 seq, Card32 9, Card32 v, Card16 c, Card8 bg, Card8 wg, Card32 bp, Card32 bx, flag ovr, flag su, Card8 ms, flag mi,
      Card32 cm, Card32 al, Card32 yo, Card16 dn]"
| "x11_fields seq (XGetSelectionOwner ow) = [Card8 1, Unused 1, Card16 seq, Card32 0, Card32 ow]"
| "x11_fields seq (XQueryPointer sm r c rx ry wx wy m) =
     [Card8 1, flag sm, Card16 seq, Card32 0, Card32 r, Card32 c, int16 rx, int16 ry, int16 wx, int16 wy, Card16 m]"
| "x11_fields seq (XSelectionClear t ow sel) = [Card8 29, Unused 1, Card16 seq, Card32 t, Card32 ow, Card32 sel]"
| "x11_fields seq (XSelectionRequest t ow rq sel tg pr) =
     [Card8 30, Unused 1, Card16 seq, Card32 t, Card32 ow, Card32 rq, Card32 sel, Card32 tg, Card32 pr]"
| "x11_fields seq (XSelectionNotify t rq sel tg pr) = [Card8 31, Unused 1, Card16 seq, Card32 t, Card32 rq, Card32 sel, Card32 tg, Card32 pr]"
| "x11_fields seq (XGraphicsExposure d x y w h mi c ma) =
     [Card8 13, Unused 1, Card16 seq, Card32 d, Card16 x, Card16 y, Card16 w, Card16 h, Card16 mi, Card16 c, Card8 ma]"
| "x11_fields seq (XNoExpose d mi ma) = [Card8 14, Unused 1, Card16 seq, Card32 d, Card16 mi, Card8 ma]"
| "x11_fields seq (XExpose w x y wd h c) = [Card8 12, Unused 1, Card16 seq, Card32 w, Card16 x, Card16 y, Card16 wd, Card16 h, Card16 c]"
| "x11_fields seq (XQueryBestSize w h) = [Card8 1, Unused 1, Card16 seq, Card32 0, Card16 w, Card16 h]"
| "x11_fields seq (XGetProperty f t af n v) =
     [Card8 1, Card8 f, Card16 seq, Card32 (of_nat (x11_pad4 (length v) div 4)), Card32 t, Card32 af, Card32 n, Unused 12, Bytes v]"
| "x11_fields seq (XQueryTree r p cs) =
     [Card8 1, Unused 1, Card16 seq, Card32 (of_nat (6 + length cs)), Card32 r, Card32 p, Card16 (of_nat (length cs)), Unused 14] @ map Card32 cs"
| "x11_fields seq (XGetAtomName nm) =
     [Card8 1, Unused 1, Card16 seq, Card32 (of_nat (6 + x11_pad4 (length nm) div 4)), Card16 (of_nat (length nm)), Unused 22, Bytes nm]"
| "x11_fields seq (XError code bad major minor) = [Card8 0, Card8 code, Card16 seq, Card32 bad, Card8 minor, Card8 major]"

fun x11_size :: "x11_msg \<Rightarrow> nat" where
  "x11_size (XGetWindowAttributes _ _ _ _ _ _ _ _ _ _ _ _ _ _ _) = 44"
| "x11_size (XQueryBestSize _ _) = 16"
| "x11_size (XGetProperty _ _ _ _ v) = 32 + x11_pad4 (length v)"
| "x11_size (XQueryTree _ _ cs) = 32 + 4 * length cs"
| "x11_size (XGetAtomName nm) = 32 + x11_pad4 (length nm)"
| "x11_size _ = 32"

text \<open>The lists fit the length fields.\<close>

fun x11_fits :: "x11_msg \<Rightarrow> bool" where
  "x11_fits (XGetProperty _ _ _ _ v) \<longleftrightarrow> length v < 2 ^ 32"
| "x11_fits (XQueryTree _ _ cs) \<longleftrightarrow> length cs < 2 ^ 16"
| "x11_fits (XGetAtomName nm) \<longleftrightarrow> length nm < 2 ^ 16"
| "x11_fits _ \<longleftrightarrow> True"

lemma x11_pad4_ge: "n \<le> x11_pad4 n" "x11_pad4 n < n + 4" "4 dvd x11_pad4 n"
  by (simp_all add: x11_pad4_def)

lemma wbuf_pad: "k \<le> n \<Longrightarrow> wbuf (pre @ replicate k 0) (n - k) rest = wbuf pre n rest"
  by (simp add: wbuf_def) (metis append_assoc le_add_diff_inverse replicate_add)

lemma length_concat_enc32 [simp]: "length (concat (map (enc32 bo) xs)) = 4 * length xs"
  by (induction xs) simp_all

lemma put_xids_wbuf:
  "length pre \<le> off \<Longrightarrow> off + 4 * length xs \<le> length pre + n \<Longrightarrow>
    put_xids (wbuf pre n rest) off xs bo
      = Some (wbuf (pre @ replicate (off - length pre) 0 @ concat (map (enc32 bo) xs)) (n - (off - length pre) - 4 * length xs) rest)"
proof (induction xs arbitrary: pre n off)
  case Nil
  then show ?case using wbuf_pad [of "off - length pre" n pre rest] by simp
next
  case (Cons x xs)
  then show ?case using Cons.IH [of "pre @ replicate (off - length pre) 0 @ enc32 bo x" "off + 4" "n - (off - length pre) - 4"]
    by (simp add: x11_put_u32_wbuf add.assoc)
qed

lemma query_tree_layout:
  assumes "length cs < 2 ^ 16" "32 + 4 * length cs \<le> length b"
  shows "x11_build_query_tree_reply (Some b) (length b) r p cs (of_nat (length cs)) seq bo
    = Some (Some (layout bo (x11_fields seq (XQueryTree r p cs)) (32 + 4 * length cs) @ drop (32 + 4 * length cs) b), 32 + 4 * length cs)"
proof -
  have u: "unat (of_nat (length cs) :: u16) = length cs" using assms(1) by (simp add: unat_of_nat take_bit_nat_eq_self)
  have "(6 + ucast (of_nat (length cs) :: u16) :: u32) = of_nat (6 + length cs)"
    using u by (metis of_nat_add of_nat_numeral of_nat_unat)
  with u assms show ?thesis
    by (simp add: x11_build_query_tree_reply_def wbuf_simps put_xids_wbuf Let_def mult.commute comp_def flip: layout_wbuf)
qed


lemma get_property_layout:
  assumes "length v < 2 ^ 32" "32 + x11_pad4 (length v) \<le> length b"
  shows "x11_build_get_property_reply (Some b) (length b) f t af n (Some v) (length v) seq bo
    = Some (Some (layout bo (x11_fields seq (XGetProperty f t af n v)) (32 + x11_pad4 (length v)) @ drop (32 + x11_pad4 (length v)) b), 32 + x11_pad4 (length v))"
proof (cases v)
  case Nil
  with assms show ?thesis
    by (simp add: x11_build_get_property_reply_def wbuf_simps Let_def x11_pad4_def flip: layout_wbuf) (simp add: wbuf_def replicate_add)
next
  case (Cons x xs)
  with assms x11_pad4_ge [of "length v"] show ?thesis
    by (simp add: x11_build_get_property_reply_def wbuf_simps Let_def flip: layout_wbuf)
qed

lemma get_atom_name_layout:
  assumes "length nm < 2 ^ 16" "32 + x11_pad4 (length nm) \<le> length b"
  shows "x11_build_get_atom_name_reply (Some b) (length b) (Some nm) (of_nat (length nm)) seq bo
    = Some (Some (layout bo (x11_fields seq (XGetAtomName nm)) (32 + x11_pad4 (length nm)) @ drop (32 + x11_pad4 (length nm)) b), 32 + x11_pad4 (length nm))"
proof -
  have u: "unat (of_nat (length nm) :: u16) = length nm" using assms(1) by (simp add: unat_of_nat take_bit_nat_eq_self)
  show ?thesis
  proof (cases nm)
    case Nil
    with assms show ?thesis
      by (simp add: x11_build_get_atom_name_reply_def wbuf_simps Let_def x11_pad4_def flip: layout_wbuf) (simp add: wbuf_def replicate_add)
  next
    case (Cons x xs)
    then have "(of_nat (length nm) :: u16) > 0" using u by (metis length_0_conv list.distinct(1) unat_0 word_gt_0)
    with assms u x11_pad4_ge [of "length nm"] show ?thesis
      by (simp add: x11_build_get_atom_name_reply_def wbuf_simps Let_def add.commute flip: layout_wbuf)
  qed
qed

lemma x11_build_layout:
  assumes "x11_fits m" "x11_size m \<le> length b"
  shows "x11_build m seq bo b = Some (Some (layout bo (x11_fields seq m) (x11_size m) @ drop (x11_size m) b), x11_size m)"
proof (cases m)
  case (XGetProperty f t af n v)
  with assms get_property_layout show ?thesis by simp
next
  case (XQueryTree r p cs)
  with assms query_tree_layout show ?thesis by simp
next
  case (XGetAtomName nm)
  with assms get_atom_name_layout show ?thesis by simp
qed (use assms in \<open>simp_all add: x11_build_get_geometry_reply_def x11_build_intern_atom_reply_def x11_build_map_notify_def x11_build_unmap_notify_def
    x11_build_configure_notify_def x11_build_destroy_notify_def x11_build_property_notify_def x11_build_get_window_attributes_reply_def
    x11_build_get_selection_owner_reply_def x11_build_query_pointer_reply_def x11_build_selection_clear_def x11_build_selection_request_def
    x11_build_selection_notify_def x11_build_graphics_exposure_def x11_build_no_expose_def x11_build_expose_def x11_build_query_best_size_reply_def x11_build_error_def
    wbuf_simps flip: layout_wbuf\<close>)


text \<open>The builders of the messages with a list take the size of the buffer and refuse one that is too small; the others rely on the size that their header asks for.\<close>

fun takes_cap :: "x11_msg \<Rightarrow> bool" where
  "takes_cap (XGetProperty _ _ _ _ _) \<longleftrightarrow> True"
| "takes_cap (XQueryTree _ _ _) \<longleftrightarrow> True"
| "takes_cap (XGetAtomName _) \<longleftrightarrow> True"
| "takes_cap _ \<longleftrightarrow> False"

lemma x11_build_small:
  assumes "x11_fits m" "length b < x11_size m"
  shows "x11_build m seq bo b = (if takes_cap m then Some (Some b, 0) else None)"
proof (cases m)
  case (XQueryTree r p cs)
  then have "unat (of_nat (length cs) :: u16) = length cs" using assms(1) by (simp add: unat_of_nat take_bit_nat_eq_self)
  with XQueryTree assms(2) show ?thesis by (simp add: x11_build_query_tree_reply_def Let_def mult.commute)
next
  case (XGetAtomName nm)
  then have "unat (of_nat (length nm) :: u16) = length nm" using assms(1) by (simp add: unat_of_nat take_bit_nat_eq_self)
  with XGetAtomName assms(2) show ?thesis by (simp add: x11_build_get_atom_name_reply_def Let_def)
qed (use assms(2) in \<open>simp_all add: x11_build_get_property_reply_def Let_def mem_zero_def
    x11_build_get_geometry_reply_def x11_build_intern_atom_reply_def x11_build_map_notify_def x11_build_unmap_notify_def
    x11_build_configure_notify_def x11_build_destroy_notify_def x11_build_property_notify_def x11_build_get_window_attributes_reply_def
    x11_build_get_selection_owner_reply_def x11_build_query_pointer_reply_def x11_build_selection_clear_def x11_build_selection_request_def
    x11_build_selection_notify_def x11_build_graphics_exposure_def x11_build_no_expose_def x11_build_expose_def x11_build_query_best_size_reply_def x11_build_error_def\<close>)

section \<open>Where a receiver looks for the next message\<close>

text \<open>A receiver takes 32 bytes for an error or an event, and for a reply as many units of four bytes more as the length field says.\<close>

definition x11_frame_size :: "u8 \<Rightarrow> u8 list \<Rightarrow> nat option" where
  "x11_frame_size bo bs =
     (if bs = [] then None
      else if hd bs = 1 then map_option (\<lambda>n. 32 + 4 * unat n) (x11_get_u32 bs 4 bo)
      else Some 32)"

fun reply_length_ok :: "x11_msg \<Rightarrow> bool" where
  "reply_length_ok (XGetWindowAttributes _ _ _ _ _ _ _ _ _ _ _ _ _ _ _) \<longleftrightarrow> False"
| "reply_length_ok (XQueryTree _ _ _) \<longleftrightarrow> False"
| "reply_length_ok (XGetAtomName _) \<longleftrightarrow> False"
| "reply_length_ok (XQueryBestSize _ _) \<longleftrightarrow> False"
| "reply_length_ok _ \<longleftrightarrow> True"

lemma get_u32_4: "x11_get_u32 (a # c # enc16 bo s @ enc32 bo v @ rest) 4 bo = Some v"
  using x11_get_u32_enc [of "a # c # enc16 bo s" bo v rest] by simp

lemma x11_frame_size_layout:
  assumes "x11_fits m"
  shows "\<exists>n. x11_frame_size bo (layout bo (x11_fields seq m) (x11_size m)) = Some n \<and> (n = x11_size m \<longleftrightarrow> reply_length_ok m)"
proof -
  have u: "unat (of_nat k :: u32) = k" if "k < 2 ^ 32" for k using that by (simp add: unat_of_nat take_bit_nat_eq_self)
  show ?thesis
  proof (cases m)
    case (XGetProperty f t af n v)
    have "x11_pad4 (length v) div 4 < 2 ^ 32" using assms XGetProperty x11_pad4_ge(2) [of "length v"] by simp
    with XGetProperty u x11_pad4_ge(3) [of "length v"] show ?thesis
      by (simp add: x11_frame_size_def layout_def Let_def get_u32_4)
  next
    case (XQueryTree r p cs)
    then have "6 + length cs < 2 ^ 32" using assms by simp
    then show ?thesis using XQueryTree u [of "6 + length cs"] by (simp add: x11_frame_size_def layout_def Let_def get_u32_4)
  next
    case (XGetAtomName nm)
    then have "6 + x11_pad4 (length nm) div 4 < 2 ^ 32" using assms x11_pad4_ge(2) [of "length nm"] by simp
    then show ?thesis using XGetAtomName u [of "6 + x11_pad4 (length nm) div 4"] x11_pad4_ge(3) [of "length nm"]
      by (auto simp: x11_frame_size_def layout_def Let_def get_u32_4)
  qed (simp_all add: x11_frame_size_def layout_def Let_def get_u32_4)
qed

section \<open>Errors and the setup reply\<close>

lemma x11_build_error_layout:
  assumes "32 \<le> length b"
  shows "x11_build_error (Some b) code seq bad major minor bo
    = Some (Some (layout bo [Card8 0, Card8 code, Card16 seq, Card32 bad, Card8 minor, Card8 major] 32 @ drop 32 b), 32)"
  using x11_build_layout [of "XError code bad major minor" b seq bo] assms by simp

text \<open>In the documented layout of an error the major opcode is byte 10, after two bytes for the minor opcode. The builder puts it into byte 9, so a receiver
  sees major opcode 0.\<close>

lemma error_hides_major_opcode:
  assumes "32 \<le> length b"
  shows "\<exists>b'. x11_build_error (Some b) code seq bad major minor bo = Some (Some b', 32) \<and> b' ! 9 = major \<and> b' ! 10 = 0"
  using x11_build_error_layout [OF assms] by (auto simp: layout_def Let_def nth_append nth_Cons')

text \<open>The setup reply the bridge sends: header, vendor, three pixmap formats, one screen with one depth and one visual.\<close>

definition vendor_name :: "u8 list" where
  "vendor_name = [0x49, 0x73, 0x68, 0x69, 0x7A, 0x75, 0x65]"

definition setup_fields :: "u8 \<Rightarrow> u16 \<Rightarrow> u16 \<Rightarrow> u32 \<Rightarrow> u32 \<Rightarrow> field list" where
  "setup_fields bo major minor base mask' =
     [Card8 1, Unused 1, Card16 major, Card16 minor, Card16 34, Card32 11800000, Card32 base, Card32 mask', Card32 0, Card16 7, Card16 0xFFFF,
      Card8 1, Card8 3, flag (bo = X11_BYTE_ORDER_MSB), flag (bo = X11_BYTE_ORDER_MSB), Card8 32, Card8 32, Card8 8, Card8 255, Unused 4,
      Bytes vendor_name, Unused 1,
      Card8 1, Card8 1, Card8 32, Unused 5, Card8 24, Card8 32, Card8 32, Unused 5, Card8 32, Card8 32, Card8 32, Unused 5,
      Card32 X11_ROOT_WINDOW_ID, Card32 X11_DEFAULT_COLORMAP, Card32 0xFFFFFF, Card32 0, Card32 0, Card16 1024, Card16 768, Card16 200, Card16 150,
      Card16 1, Card16 1, Card32 X11_ROOT_VISUAL_ID, Card8 2, Card8 0, Card8 24, Card8 1,
      Card8 24, Unused 1, Card16 1, Unused 4,
      Card32 X11_ROOT_VISUAL_ID, Card8 2, Unused 1, Card16 256, Card32 0x00FF0000, Card32 0x0000FF00, Card32 0x000000FF, Card8 8]"

lemma x11_build_setup_layout:
  assumes "144 \<le> cap" "cap \<le> length b"
  shows "x11_build_setup_success b cap bo major minor base mask' (Some vendor_name)
    = Some (layout bo (setup_fields bo major minor base mask') 144 @ drop 144 b, 144)"
  using assms by (simp add: x11_build_setup_success_def vendor_name_def x11_pad4_def Let_def wbuf_simps setup_fields_def flip: layout_wbuf)

section \<open>Properties\<close>



text \<open>the size a receiver computes for a message is its real size for every event and reply but four: the length fields of the replies to
  \<^verbatim>\<open>GetWindowAttributes\<close>, \<^verbatim>\<open>QueryTree\<close> and \<^verbatim>\<open>GetAtomName\<close> count the 24 bytes of the header after the first eight, and the reply to \<^verbatim>\<open>QueryBestSize\<close> is
  16 bytes long, so the receiver waits for bytes that belong to the next message.\<close>

theorem x11_reply_lengths:
  assumes "x11_fits m" and "x11_size m \<le> length b"
  shows "\<exists>b' n k. x11_build m seq bo b = Some (Some b', n) \<and> x11_frame_size bo (take n b') = Some k \<and> (k = n \<longleftrightarrow> reply_length_ok m)"
proof -
  have "length (layout bo (x11_fields seq m) (x11_size m)) = x11_size m"
    using assms x11_pad4_ge(1) by (cases m) (auto simp: layout_def Let_def comp_def)
  with x11_build_layout [OF assms, of seq bo] x11_frame_size_layout [OF assms(1), of bo seq] show ?thesis by fastforce
qed

theorem x11_reply_lengths_witness:
  "\<exists>b' n k. x11_build (XGetAtomName [0x41]) 7 0x42 (replicate 36 0) = Some (Some b', n) \<and> x11_frame_size 0x42 (take n b') = Some k \<and> k \<noteq> n"
  using x11_reply_lengths [of "XGetAtomName [0x41]" "replicate 36 0" 7 "0x42"] by (simp add: x11_pad4_def)

end
