(* ===== verification/X11_Atoms.thy ===== *)
theory X11_Atoms
  imports X11_Proto
begin

text \<open>
  The table of X11 atoms, \<^verbatim>\<open>x11bridge/x11_atoms.c\<close>: 68 predefined names and an array of names that clients interned. A name is a list of bytes. The global variables of the file
  are the fields of the record \<open>atoms\<close>.
\<close>

definition predefined_strings :: "string list" where
  "predefined_strings = [
    ''PRIMARY'', ''SECONDARY'', ''ARC'', ''ATOM'', ''BITMAP'', ''CARDINAL'', ''COLORMAP'', ''CURSOR'', ''CUT_BUFFER0'', ''CUT_BUFFER1'',
    ''CUT_BUFFER2'', ''CUT_BUFFER3'', ''CUT_BUFFER4'', ''CUT_BUFFER5'', ''CUT_BUFFER6'', ''CUT_BUFFER7'', ''DRAWABLE'', ''FONT'',
    ''INTEGER'', ''PIXMAP'', ''POINT'', ''RECTANGLE'', ''RESOURCE_MANAGER'', ''RGB_COLOR_MAP'', ''RGB_BEST_MAP'', ''RGB_BLUE_MAP'',
    ''RGB_DEFAULT_MAP'', ''RGB_GRAY_MAP'', ''RGB_GREEN_MAP'', ''RGB_RED_MAP'', ''STRING'', ''VISUALID'', ''WINDOW'', ''WM_COMMAND'',
    ''WM_HINTS'', ''WM_CLIENT_MACHINE'', ''WM_ICON_NAME'', ''WM_ICON_SIZE'', ''WM_NAME'', ''WM_NORMAL_HINTS'', ''WM_SIZE_HINTS'',
    ''WM_ZOOM_HINTS'', ''MIN_SPACE'', ''NORM_SPACE'', ''MAX_SPACE'', ''END_SPACE'', ''SUPERSCRIPT_X'', ''SUPERSCRIPT_Y'', ''SUBSCRIPT_X'',
    ''SUBSCRIPT_Y'', ''UNDERLINE_POSITION'', ''UNDERLINE_THICKNESS'', ''STRIKEOUT_ASCENT'', ''STRIKEOUT_DESCENT'', ''ITALIC_ANGLE'',
    ''X_HEIGHT'', ''QUAD_WIDTH'', ''WEIGHT'', ''POINT_SIZE'', ''RESOLUTION'', ''COPYRIGHT'', ''NOTICE'', ''FONT_NAME'', ''FAMILY_NAME'',
    ''FULL_NAME'', ''CAP_HEIGHT'', ''WM_CLASS'', ''WM_TRANSIENT_FOR'']"

definition X11_PREDEFINED_ATOM_NAMES :: "u8 list list" where
  "X11_PREDEFINED_ATOM_NAMES = map (map (\<lambda>c. of_nat (of_char c))) predefined_strings"

record x11_atom_entry =
  ae_id :: u32
  ae_name :: "u8 list"

record atoms = kern +
  g_dynamic_atoms :: "x11_atom_entry list"
  g_dynamic_atoms_cap :: nat
  g_next_atom :: u32

abbreviation (input) "X11_ATOM_FIRST_DYNAMIC \<equiv> (69 :: u32)"

fun predefined_index :: "u8 list list \<Rightarrow> nat \<Rightarrow> u8 list \<Rightarrow> nat option" where
  "predefined_index [] i name = None"
| "predefined_index (p # ps) i name = (if p = name then Some i else predefined_index ps (i + 1) name)"

fun find_atom_name :: "x11_atom_entry list \<Rightarrow> u8 list \<Rightarrow> u32 option" where
  "find_atom_name [] name = None"
| "find_atom_name (e # es) name = (if ae_name e = name then Some (ae_id e) else find_atom_name es name)"

text \<open>Doubling the array when it is full.\<close>

definition grow_atoms :: "'z atoms_scheme \<Rightarrow> 'z atoms_scheme \<times> bool" where
  "grow_atoms a =
     (if length (g_dynamic_atoms a) = g_dynamic_atoms_cap a
      then (case k_alloc a of
             (a, False) \<Rightarrow> (a, False)
           | (a, True) \<Rightarrow> (a\<lparr>g_dynamic_atoms_cap := (if g_dynamic_atoms_cap a = 0 then 16 else g_dynamic_atoms_cap a * 2)\<rparr>, True))
      else (a, True))"

definition x11_atom_intern :: "'z atoms_scheme \<Rightarrow> u8 list \<Rightarrow> bool \<Rightarrow> 'z atoms_scheme \<times> u32" where
  "x11_atom_intern a name only_if_exists =
     (if name = [] then (a, 0)
      else case predefined_index X11_PREDEFINED_ATOM_NAMES 0 name of
        Some i \<Rightarrow> (a, of_nat (i + 1))
      | None \<Rightarrow>
          (case find_atom_name (g_dynamic_atoms a) name of
             Some atom \<Rightarrow> (a, atom)
           | None \<Rightarrow>
               if only_if_exists then (a, 0)
               else
                 let (a, ok) = grow_atoms a
                 in if \<not> ok then (a, 0)
                    else (case k_alloc a of
                           (a, False) \<Rightarrow> (a, 0)
                         | (a, True) \<Rightarrow>
                             let atom = g_next_atom a
                             in (a\<lparr>g_next_atom := atom + 1, g_dynamic_atoms := g_dynamic_atoms a @ [\<lparr>ae_id = atom, ae_name = name\<rparr>]\<rparr>, atom))))"

text \<open>Copying a name into a buffer, cut off to leave room for the terminator.\<close>

definition copy_name :: "u8 list \<Rightarrow> u8 list \<Rightarrow> u8 list" where
  "copy_name out_buf name =
     (if length name + 1 > length out_buf then take (length out_buf - 1) name @ [0]
      else name @ [0] @ drop (length name + 1) out_buf)"

fun find_atom_id :: "x11_atom_entry list \<Rightarrow> u32 \<Rightarrow> u8 list option" where
  "find_atom_id [] atom = None"
| "find_atom_id (e # es) atom = (if ae_id e = atom then Some (ae_name e) else find_atom_id es atom)"

text \<open>The buffer has \<open>out_cap\<close> bytes; the result is the length of the name.\<close>

definition x11_atom_get_name :: "'z atoms_scheme \<Rightarrow> u32 \<Rightarrow> u8 list \<Rightarrow> u8 list \<times> nat" where
  "x11_atom_get_name a atom out_buf =
     (if out_buf = [] then (out_buf, 0)
      else
        let out_buf = out_buf[0 := 0]
        in if 1 \<le> atom \<and> atom \<le> 68
           then let pname = X11_PREDEFINED_ATOM_NAMES ! unat (atom - 1) in (copy_name out_buf pname, length pname)
           else case find_atom_id (g_dynamic_atoms a) atom of
                  Some pname \<Rightarrow> (copy_name out_buf pname, length pname)
                | None \<Rightarrow> (out_buf, 0))"

section \<open>The table is a bijection\<close>

definition atoms_ok :: "'z atoms_scheme \<Rightarrow> bool" where
  "atoms_ok a \<longleftrightarrow> distinct (map ae_name (g_dynamic_atoms a)) \<and> length (g_dynamic_atoms a) \<le> g_dynamic_atoms_cap a
     \<and> (\<forall>e \<in> set (g_dynamic_atoms a). ae_name e \<noteq> [] \<and> ae_name e \<notin> set X11_PREDEFINED_ATOM_NAMES)
     \<and> (\<forall>i < length (g_dynamic_atoms a). ae_id (g_dynamic_atoms a ! i) = of_nat (69 + i))
     \<and> g_next_atom a = of_nat (69 + length (g_dynamic_atoms a)) \<and> 69 + length (g_dynamic_atoms a) < 2 ^ 32"

text \<open>The number of a name in the table.\<close>

definition atom_of :: "'z atoms_scheme \<Rightarrow> u8 list \<Rightarrow> u32 option" where
  "atom_of a name = (case predefined_index X11_PREDEFINED_ATOM_NAMES 0 name of Some i \<Rightarrow> Some (of_nat (i + 1)) | None \<Rightarrow> find_atom_name (g_dynamic_atoms a) name)"


lemma predefined_index_Some: "predefined_index ps i name = Some j \<Longrightarrow> i \<le> j \<and> j < i + length ps \<and> ps ! (j - i) = name"
proof (induction ps arbitrary: i)
  case (Cons p ps)
  show ?case
  proof (cases "p = name")
    case False
    with Cons.prems Cons.IH [of "i + 1"] show ?thesis by (simp add: nth_Cons')
  qed (use Cons.prems in simp)
qed simp

lemma predefined_index_None: "predefined_index ps i name = None \<longleftrightarrow> name \<notin> set ps"
  by (induction ps i name rule: predefined_index.induct) auto

lemma length_predefined [simp]: "length X11_PREDEFINED_ATOM_NAMES = 68"
  unfolding X11_PREDEFINED_ATOM_NAMES_def length_map by (simp add: predefined_strings_def)

lemma predefined_nonempty: "[] \<notin> set X11_PREDEFINED_ATOM_NAMES"
proof -
  have "[] \<notin> set predefined_strings" by (simp add: predefined_strings_def)
  then show ?thesis by (auto simp: X11_PREDEFINED_ATOM_NAMES_def)
qed

lemma distinct_predefined: "distinct X11_PREDEFINED_ATOM_NAMES"
proof -
  have "distinct predefined_strings" by (simp add: predefined_strings_def)
  moreover have "c = d" if "(of_nat (of_char c) :: u8) = of_nat (of_char d)" for c d
  proof -
    have "unat (of_nat (of_char e) :: u8) = of_char e" for e
      using nat_of_char_less_256 [of e] by (simp add: unat_of_nat take_bit_nat_eq_self)
    with arg_cong [OF that, of unat] show ?thesis by simp
  qed
  then have "inj (map (\<lambda>c. of_nat (of_char c) :: u8))" by (intro inj_mapI injI)
  ultimately show ?thesis unfolding X11_PREDEFINED_ATOM_NAMES_def distinct_map by (blast intro: inj_on_subset)
qed

lemma find_atom_name_iff:
  assumes "atoms_ok a"
  shows "find_atom_name (g_dynamic_atoms a) name = Some x
    \<longleftrightarrow> (\<exists>i < length (g_dynamic_atoms a). ae_name (g_dynamic_atoms a ! i) = name \<and> x = of_nat (69 + i))"
proof -
  have gen: "find_atom_name es name = Some x \<longleftrightarrow> (\<exists>i < length es. ae_name (es ! i) = name \<and> ae_id (es ! i) = x)" if "distinct (map ae_name es)" for es
    using that
  proof (induction es)
    case (Cons e es)
    show ?case
    proof (cases "ae_name e = name")
      case True
      then have "ae_name (es ! i) \<noteq> name" if "i < length es" for i
        using Cons.prems imageI [OF nth_mem [OF that], of ae_name] by auto
      with True show ?thesis by (auto simp: Ex_less_Suc2)
    qed (use Cons in \<open>auto simp: Ex_less_Suc2\<close>)
  qed simp
  from assms have d: "distinct (map ae_name (g_dynamic_atoms a))" "\<forall>i < length (g_dynamic_atoms a). ae_id (g_dynamic_atoms a ! i) = of_nat (69 + i)"
    by (simp_all add: atoms_ok_def)
  show ?thesis unfolding gen [OF d(1)] using d(2) by auto
qed

lemma find_atom_id_nth:
  assumes "atoms_ok a" "i < length (g_dynamic_atoms a)"
  shows "find_atom_id (g_dynamic_atoms a) (of_nat (69 + i)) = Some (ae_name (g_dynamic_atoms a ! i))"
proof -
  have gen: "find_atom_id es x = Some (ae_name (es ! j))" if "j < length es" "ae_id (es ! j) = x" "\<forall>i < length es. ae_id (es ! i) = x \<longrightarrow> i = j" for es x j
    using that
  proof (induction es arbitrary: j)
    case (Cons e es)
    show ?case
    proof (cases j)
      case (Suc j')
      have "ae_id e \<noteq> x" using Cons.prems(3) Suc by fastforce
      moreover have "find_atom_id es x = Some (ae_name (es ! j'))"
      proof (rule Cons.IH)
        show "\<forall>i < length es. ae_id (es ! i) = x \<longrightarrow> i = j'" using Cons.prems(3) Suc by fastforce
      qed (use Cons.prems Suc in auto)
      ultimately show ?thesis using Suc by simp
    qed (use Cons.prems in auto)
  qed simp
  have "k = i" if "k < length (g_dynamic_atoms a)" "(of_nat (69 + k) :: u32) = of_nat (69 + i)" for k
  proof -
    have "unat (of_nat (69 + k) :: u32) = 69 + k" "unat (of_nat (69 + i) :: u32) = 69 + i"
      using that(1) assms unfolding atoms_ok_def by (simp_all add: unat_of_nat take_bit_nat_eq_self del: of_nat_add)
    with that(2) show ?thesis by simp
  qed
  with assms show ?thesis by (intro gen) (auto simp: atoms_ok_def)
qed


lemma atom_of_cases:
  assumes "atoms_ok a" "atom_of a name = Some x"
  shows "(\<exists>i < 68. X11_PREDEFINED_ATOM_NAMES ! i = name \<and> x = of_nat (i + 1))
    \<or> (\<exists>i < length (g_dynamic_atoms a). ae_name (g_dynamic_atoms a ! i) = name \<and> x = of_nat (69 + i))"
proof (cases "predefined_index X11_PREDEFINED_ATOM_NAMES 0 name")
  case None
  with assms show ?thesis by (simp add: atom_of_def find_atom_name_iff)
next
  case (Some i)
  with predefined_index_Some [OF this] assms(2) show ?thesis by (auto simp: atom_of_def)
qed

lemma unat_atom: "i < 68 \<Longrightarrow> unat (of_nat (i + 1) :: u32) = i + 1" "69 + i < 2 ^ 32 \<Longrightarrow> unat (of_nat (69 + i) :: u32) = 69 + i"
  by (simp_all add: unat_of_nat take_bit_nat_eq_self del: of_nat_add of_nat_Suc)

lemma atom_of_get_name:
  assumes "atoms_ok a" "atom_of a name = Some x" "out_buf \<noteq> []"
  shows "x11_atom_get_name a x out_buf = (copy_name (out_buf[0 := 0]) name, length name)"
proof -
  from atom_of_cases [OF assms(1,2)] show ?thesis
  proof (elim disjE exE conjE)
    fix i assume i: "i < 68" "X11_PREDEFINED_ATOM_NAMES ! i = name" "x = of_nat (i + 1)"
    have "unat x = i + 1" using unat_atom(1) i by simp
    moreover from this have "1 \<le> x" "x \<le> 68" using i(1) by (simp_all add: word_le_nat_alt)
    moreover have "unat (x - 1) = i" using \<open>unat x = i + 1\<close> \<open>1 \<le> x\<close> by (simp add: unat_sub)
    ultimately show ?thesis using assms(3) i(2) by (simp add: x11_atom_get_name_def Let_def)
  next
    fix i assume i: "i < length (g_dynamic_atoms a)" "ae_name (g_dynamic_atoms a ! i) = name" "x = of_nat (69 + i)"
    have "unat x = 69 + i" using unat_atom(2) i assms(1) by (simp add: atoms_ok_def)
    then have "\<not> x \<le> 68" by (simp add: word_le_nat_alt)
    with find_atom_id_nth [OF assms(1) i(1)] i assms(3) show ?thesis by (simp add: x11_atom_get_name_def Let_def)
  qed
qed

lemma atom_of_inj:
  assumes "atoms_ok a" "atom_of a n1 = Some x" "atom_of a n2 = Some x"
  shows "n1 = n2"
proof -
  define c :: "u8 list" where "c = replicate (length n1 + length n2 + 1) 0"
  have c: "c \<noteq> []" "length (c[0 := 0]) = length n1 + length n2 + 1" by (simp_all add: c_def)
  have "(copy_name (c[0 := 0]) n1, length n1) = (copy_name (c[0 := 0]) n2, length n2)"
    using atom_of_get_name [OF assms(1,2) c(1)] atom_of_get_name [OF assms(1,3) c(1)] by metis
  then have eq: "copy_name (c[0 := 0]) n1 = copy_name (c[0 := 0]) n2" "length n1 = length n2" by blast+
  have "take (length n1) (copy_name (c[0 := 0]) n1) = n1" "take (length n2) (copy_name (c[0 := 0]) n2) = n2"
    using c(2) by (simp_all add: copy_name_def)
  with eq show ?thesis by metis
qed

lemma atom_of_nonzero:
  assumes "atoms_ok a" "atom_of a name = Some x"
  shows "x \<noteq> 0"
proof -
  have "unat x \<noteq> 0" using atom_of_cases [OF assms]
  proof (elim disjE exE conjE)
    fix i assume "i < 68" "x = of_nat (i + 1)"
    then show ?thesis using unat_atom(1) [of i] by simp
  next
    fix i assume "i < length (g_dynamic_atoms a)" "x = of_nat (69 + i)"
    then show ?thesis using unat_atom(2) [of i] assms(1) by (simp add: atoms_ok_def)
  qed
  then show ?thesis by auto
qed

definition atoms_extend :: "'z atoms_scheme \<Rightarrow> 'z atoms_scheme \<Rightarrow> bool" where
  "atoms_extend a a' \<longleftrightarrow> (\<forall>n x. atom_of a n = Some x \<longrightarrow> atom_of a' n = Some x)"

text \<open>Interning a new name appends it to the table.\<close>

lemma atoms_ok_append:
  assumes "atoms_ok a" "name \<noteq> []" "atom_of a name = None" "length (g_dynamic_atoms a) < cap" "70 + length (g_dynamic_atoms a) < 2 ^ 32"
    "g_dynamic_atoms a' = g_dynamic_atoms a @ [\<lparr>ae_id = g_next_atom a, ae_name = name\<rparr>]" "g_next_atom a' = g_next_atom a + 1" "g_dynamic_atoms_cap a' = cap"
  shows "atoms_ok a' \<and> atoms_extend a a' \<and> atom_of a' name = Some (g_next_atom a)"
proof -
  have new: "name \<notin> set X11_PREDEFINED_ATOM_NAMES" "find_atom_name (g_dynamic_atoms a) name = None"
    using assms(3) by (auto simp: atom_of_def predefined_index_None split: option.splits)
  have fresh: "name \<notin> set (map ae_name (g_dynamic_atoms a))"
  proof
    assume "name \<in> set (map ae_name (g_dynamic_atoms a))"
    then obtain i where "i < length (g_dynamic_atoms a)" "ae_name (g_dynamic_atoms a ! i) = name" by (auto simp: in_set_conv_nth)
    with find_atom_name_iff [OF assms(1), of name "of_nat (69 + i)"] new(2) show False by auto
  qed
  have app: "find_atom_name (es @ fs) n = (case find_atom_name es n of Some x \<Rightarrow> Some x | None \<Rightarrow> find_atom_name fs n)" for es fs n
    by (induction es) auto
  have "atoms_ok a'" using assms new(1) fresh unfolding atoms_ok_def by (auto simp: nth_append less_Suc_eq)
  moreover have "atoms_extend a a'" using assms(6) by (auto simp: atoms_extend_def atom_of_def app split: option.splits)
  moreover have "atom_of a' name = Some (g_next_atom a)"
    using new(2) iffD2 [OF predefined_index_None new(1), of 0] assms(6) by (simp add: atom_of_def app)
  ultimately show ?thesis by blast
qed

lemma atoms_extend_refl: "g_dynamic_atoms a' = g_dynamic_atoms a \<Longrightarrow> atoms_extend a a'"
  by (simp add: atoms_extend_def atom_of_def cong: option.case_cong)

lemma x11_atom_intern_spec:
  assumes "atoms_ok a" "x11_atom_intern a name only = (a', x)" "70 + length (g_dynamic_atoms a) < 2 ^ 32"
  shows "atoms_ok a' \<and> atoms_extend a a' \<and> (x \<noteq> 0 \<longrightarrow> atom_of a' name = Some x)
    \<and> (atom_of a name \<noteq> None \<and> name \<noteq> [] \<longrightarrow> a' = a \<and> atom_of a name = Some x) \<and> (only \<longrightarrow> a' = a)"
proof (cases "name = [] \<or> atom_of a name \<noteq> None \<or> only")
  case True
  then show ?thesis using assms(1,2) atoms_extend_refl [of a a]
    by (auto simp: x11_atom_intern_def atom_of_def split: option.splits if_splits)
next
  case False
  then have n: "predefined_index X11_PREDEFINED_ATOM_NAMES 0 name = None" "find_atom_name (g_dynamic_atoms a) name = None"
    by (auto simp: atom_of_def split: option.splits)
  obtain a1 ok where grow: "grow_atoms a = (a1, ok)" by fastforce
  have a1: "g_dynamic_atoms a1 = g_dynamic_atoms a" "g_next_atom a1 = g_next_atom a" "g_dynamic_atoms_cap a \<le> g_dynamic_atoms_cap a1"
    "ok \<Longrightarrow> length (g_dynamic_atoms a) < g_dynamic_atoms_cap a1"
    using assms(1) grow by (auto simp: grow_atoms_def atoms_ok_def k_alloc_def split: list.splits bool.splits if_splits)
  have ok1: "atoms_ok a1" using assms(1) a1 by (auto simp: atoms_ok_def)
  obtain a2 b where a2: "k_alloc a1 = (a2, b)" by fastforce
  have f2: "g_dynamic_atoms a2 = g_dynamic_atoms a1" "g_next_atom a2 = g_next_atom a1" "g_dynamic_atoms_cap a2 = g_dynamic_atoms_cap a1"
    using a2 by (auto simp: k_alloc_def split: list.splits)
  have run: "(a', x) = (if \<not> ok then (a1, 0) else if \<not> b then (a2, 0)
      else (a2\<lparr>g_next_atom := g_next_atom a2 + 1, g_dynamic_atoms := g_dynamic_atoms a2 @ [\<lparr>ae_id = g_next_atom a2, ae_name = name\<rparr>]\<rparr>, g_next_atom a2))"
    using assms(2) False n a2 grow by (auto simp: x11_atom_intern_def Let_def split: bool.splits if_splits)
  show ?thesis
  proof (cases "ok \<and> b")
    case True
    have "atoms_ok a' \<and> atoms_extend a a' \<and> atom_of a' name = Some (g_next_atom a)"
      using True run a1 f2 False assms(1,3) by (intro atoms_ok_append [of a name "g_dynamic_atoms_cap a1"]) auto
    then show ?thesis using True run f2 a1 False by auto
  next
    case notok: False
    then have "g_dynamic_atoms a' = g_dynamic_atoms a" "atoms_ok a'" "x = 0" using run a1 f2 ok1 by (auto simp: atoms_ok_def split: if_splits)
    then show ?thesis using atoms_extend_refl False by auto
  qed
qed


lemma intern_existing:
  shows "atom_of a name = Some x \<Longrightarrow> name \<noteq> [] \<Longrightarrow> x11_atom_intern a name only = (a, x)"
    and "snd (x11_atom_intern a name True) = x \<Longrightarrow> x \<noteq> 0 \<Longrightarrow> atom_of a name = Some x \<and> name \<noteq> []"
  by (auto simp: x11_atom_intern_def atom_of_def split: option.splits if_splits)

text \<open>C33: Atoms name byte strings for good. When \<open>x11_atom_intern\<close> returns an atom, \<open>x11_atom_get_name\<close> turns it back into the name, interning the name again returns the same atom and changes nothing,
  no other name has that atom, and every atom that existed before still belongs to its name.
\<close>

theorem atoms_are_bijective:
  assumes "atoms_ok a" "70 + length (g_dynamic_atoms a) < 2 ^ 32" "x11_atom_intern a name only = (a', x)" "x \<noteq> 0"
  shows "atoms_ok a'
    \<and> (\<forall>out_buf. length name < length out_buf \<longrightarrow> x11_atom_get_name a' x out_buf = (name @ [0] @ drop (length name + 1) out_buf, length name))
    \<and> (\<forall>again. x11_atom_intern a' name again = (a', x))
    \<and> (\<forall>other. other \<noteq> name \<longrightarrow> snd (x11_atom_intern a' other True) \<noteq> x)
    \<and> (\<forall>other. snd (x11_atom_intern a other True) \<noteq> 0 \<longrightarrow> snd (x11_atom_intern a' other True) = snd (x11_atom_intern a other True))"
proof -
  have s: "atoms_ok a'" "atoms_extend a a'" "atom_of a' name = Some x" using x11_atom_intern_spec [OF assms(1,3,2)] assms(4) by auto
  have n: "name \<noteq> []" using assms(3,4) by (auto simp: x11_atom_intern_def)
  have "x11_atom_get_name a' x out_buf = (name @ [0] @ drop (length name + 1) out_buf, length name)" if "length name < length out_buf" for out_buf
  proof -
    have "out_buf \<noteq> []" using that by auto
    with atom_of_get_name [OF s(1,3) this] that show ?thesis by (simp add: copy_name_def)
  qed
  moreover have "snd (x11_atom_intern a' other True) \<noteq> x" if "other \<noteq> name" for other
    using intern_existing(2) [of a' other x] atom_of_inj [OF s(1) _ s(3), of other] that assms(4) by blast
  moreover have "snd (x11_atom_intern a' other True) = snd (x11_atom_intern a other True)" if "snd (x11_atom_intern a other True) \<noteq> 0" for other
  proof -
    have o: "atom_of a other = Some (snd (x11_atom_intern a other True))" "other \<noteq> []" using intern_existing(2) [OF refl that] by auto
    then have "atom_of a' other = Some (snd (x11_atom_intern a other True))" using s(2) by (simp add: atoms_extend_def)
    from intern_existing(1) [OF this o(2)] show ?thesis by simp
  qed
  ultimately show ?thesis using s(1) intern_existing(1) [OF s(3) n] by blast
qed

text \<open>The initial values of the globals.\<close>

definition atoms_init :: "kern \<Rightarrow> atoms" where
  "atoms_init k = kern.extend k (atoms.fields [] 0 69)"

lemma atoms_ok_init: "atoms_ok (atoms_init k)"
  by (simp add: atoms_ok_def atoms_init_def atoms.defs kern.defs)


lemma witness_intern:
  "x11_atom_intern (atoms_init kern_init) [95, 78] False
     = ((atoms_init kern_init)\<lparr>g_dynamic_atoms_cap := 16, g_next_atom := 70, g_dynamic_atoms := [\<lparr>ae_id = 69, ae_name = [95, 78]\<rparr>]\<rparr>, 69)"
proof -
  have "[95, 78] \<notin> set X11_PREDEFINED_ATOM_NAMES"
  proof
    assume "[95, 78] \<in> set X11_PREDEFINED_ATOM_NAMES"
    then obtain s where "s \<in> set predefined_strings" "length s = 2"
      by (auto simp: X11_PREDEFINED_ATOM_NAMES_def dest!: arg_cong [where f = length])
    then show False by (auto simp: predefined_strings_def)
  qed
  then have "predefined_index X11_PREDEFINED_ATOM_NAMES 0 [95, 78] = None" by (simp add: predefined_index_None)
  then show ?thesis by (simp add: x11_atom_intern_def grow_atoms_def k_alloc_def atoms_init_def atoms.defs kern.defs kern_init_def)
qed

theorem atoms_are_bijective_witness:
  "\<exists>a'. x11_atom_intern (atoms_init kern_init) [95, 78] False = (a', 69) \<and> atoms_ok a'
    \<and> x11_atom_get_name a' 69 [1, 2, 3, 4] = ([95, 78, 0, 4], 2) \<and> x11_atom_intern a' [95, 78] True = (a', 69)"
proof -
  obtain a' where a': "x11_atom_intern (atoms_init kern_init) [95, 78] False = (a', 69)" using witness_intern by blast
  have "70 + length (g_dynamic_atoms (atoms_init kern_init)) < 2 ^ 32" by (simp add: atoms_init_def atoms.defs kern.defs)
  from atoms_are_bijective [OF atoms_ok_init this a'] a' show ?thesis by simp
qed

end
