(* ===== verification/X11_Isz_Client.thy ===== *)
theory X11_Isz_Client
  imports Isz_Listen X11_Atoms
begin

text \<open>
  The side of the X11 bridge that talks to the server, \<^verbatim>\<open>x11bridge/isz_client.c\<close>: connecting, the client side of the handshake, receiving, and one sender for each
  message. It runs over the connection of \<open>Isz_Conn\<close>. The record \<open>isz_link\<close> is the \<^verbatim>\<open>struct isz_client\<close> of the bridge (the server has another struct of that name).
  The results 0 and \<open>-1\<close> are \<open>True\<close> and \<open>False\<close>.
\<close>

unbundle bit_operations_syntax

record isz_link =
  il_conn :: conn
  il_fd :: fd
  il_handshake_done :: bool
  il_next_surface_id :: u32
  il_output_id :: u32
  il_seat_id :: u32

text \<open>\<open>sock\<close> is the result of \<^verbatim>\<open>socket\<close>; whether \<^verbatim>\<open>connect\<close> succeeds comes from the script of control calls. The field \<^verbatim>\<open>sun_path\<close> has 108 bytes.\<close>

definition isz_client_connect :: "'z kern_scheme \<Rightarrow> u8 list option \<Rightarrow> fd option \<Rightarrow> 'z kern_scheme \<times> isz_link option" where
  "isz_client_connect k path sock =
     (case path of
        None \<Rightarrow> (k, None)
      | Some p \<Rightarrow>
          if p = [] then (k, None)
          else case sock of
                 None \<Rightarrow> (k, None)
               | Some fd \<Rightarrow>
                   if length p \<ge> 108 then (k_close k fd, None)
                   else (case k_ctl k of
                           (k, False) \<Rightarrow> (k_close k fd, None)
                         | (k, True) \<Rightarrow>
                             (case isz_conn_create k fd of
                                (k, None) \<Rightarrow> (k, None)
                              | (k, Some conn) \<Rightarrow>
                                  (case k_alloc k of
                                     (k, False) \<Rightarrow> (isz_conn_close k conn, None)
                                   | (k, True) \<Rightarrow>
                                       (k, Some \<lparr>il_conn = conn, il_fd = fd, il_handshake_done = False, il_next_surface_id = 1,
                                                 il_output_id = 0, il_seat_id = 0\<rparr>)))))"

text \<open>One message of the handshake. The result is whether the loop goes on, ends well or fails.\<close>

datatype hs_step = HsNext | HsDone | HsFail

definition handshake_message :: "isz_link \<Rightarrow> u8 list \<Rightarrow> u32 \<Rightarrow> nat \<Rightarrow> (isz_link \<times> hs_step) option" where
  "handshake_message c buf msg_id payload_len =
     (if msg_id = ISZ_MSG_GLOBAL
      then if payload_len \<ge> 8
           then do {
             kind \<leftarrow> isz_get_u32_le buf ISZ_MSG_HEADER_SIZE;
             oid \<leftarrow> isz_get_u32_le buf (ISZ_MSG_HEADER_SIZE + 4);
             Some ((if kind = 0 then c\<lparr>il_output_id := oid\<rparr> else if kind = 1 then c\<lparr>il_seat_id := oid\<rparr> else c), HsNext)
           }
           else Some (c, HsNext)
      else if msg_id = ISZ_MSG_CAPABILITIES then Some (c, HsNext)
      else if msg_id = ISZ_MSG_HANDSHAKE_DONE then Some (c\<lparr>il_handshake_done := True\<rparr>, HsDone)
      else Some (c, HsFail))"

text \<open>The loop that drains messages until the handshake is done. Without a message the id stays 0, which ends the handshake.\<close>

partial_function (option) handshake_drain :: "'z kern_scheme \<Rightarrow> isz_link \<Rightarrow> ('z kern_scheme \<times> isz_link \<times> bool) option" where
  "handshake_drain k c = do {
     (k, conn, out) \<leftarrow> isz_conn_recv k (il_conn c) ISZ_PROTO_MAX_MESSAGE;
     (let c = c\<lparr>il_conn := conn\<rparr>
      in case out of
           RecvFail \<Rightarrow> Some (k, c, False)
         | RecvWait \<Rightarrow> Some (k, c, False)
         | RecvMsg buf msg_id payload_len fds \<Rightarrow> do {
             (c, s) \<leftarrow> handshake_message c buf msg_id payload_len;
             (let k = k_close_all k fds
              in case s of
                   HsNext \<Rightarrow> handshake_drain k c
                 | HsFail \<Rightarrow> Some (k, c, False)
                 | HsDone \<Rightarrow> (case k_ctl k of (k, ok) \<Rightarrow> Some (k, c, ok)))
           })
   }"

text \<open>\<open>blocking\<close> is whether the socket blocks, which \<^verbatim>\<open>fcntl\<close> reports.\<close>

definition isz_client_handshake :: "'z kern_scheme \<Rightarrow> isz_link \<Rightarrow> bool \<Rightarrow> ('z kern_scheme \<times> isz_link \<times> bool) option" where
  "isz_client_handshake k c blocking =
     (case k_ctl k of (k, flags) \<Rightarrow>
        if \<not> flags \<or> \<not> blocking then Some (k, c, False)
        else do {
          (k, s) \<leftarrow> isz_proto_recv_magic k;
          (case s of
             MagicMismatch \<Rightarrow> Some (k, c, False)
           | MagicError \<Rightarrow> Some (k, c, False)
           | MagicOk server_version \<Rightarrow>
               if server_version = 0 then Some (k, c, False)
               else let our_version = (if ISZ_PROTOCOL_VERSION > server_version then server_version else ISZ_PROTOCOL_VERSION)
                    in do {
                      (k, ok) \<leftarrow> isz_proto_send_version_reply k (il_fd c) our_version;
                      (if \<not> ok then Some (k, c, False)
                       else handshake_drain k (c\<lparr>il_conn := (il_conn c)\<lparr>c_version := our_version\<rparr>\<rparr>))
                    })
        })"

definition isz_client_fd :: "isz_link option \<Rightarrow> fd" where
  "isz_client_fd c = (case c of None \<Rightarrow> -1 | Some c \<Rightarrow> il_fd c)"

text \<open>A received message, nothing yet, or the end of the connection.\<close>

definition isz_client_recv :: "'z kern_scheme \<Rightarrow> isz_link \<Rightarrow> nat \<Rightarrow> ('z kern_scheme \<times> isz_link \<times> recv_out) option" where
  "isz_client_recv k c buf_len = do {
     (k, conn, out) \<leftarrow> isz_conn_recv k (il_conn c) buf_len;
     (let c = c\<lparr>il_conn := conn\<rparr>
      in case out of
           RecvMsg buf msg_id payload_len fds \<Rightarrow> Some (k_close_all k fds, c, RecvMsg buf msg_id payload_len [])
         | _ \<Rightarrow> Some (k, c, out))
   }"

section \<open>Senders\<close>

definition isz_client_send :: "'z kern_scheme \<Rightarrow> isz_link \<Rightarrow> u32 \<Rightarrow> u8 list \<Rightarrow> ('z kern_scheme \<times> isz_link \<times> bool) option" where
  "isz_client_send k c msg_id payload = do {
     (k, conn, r) \<leftarrow> isz_conn_send k (il_conn c) msg_id (Some payload) (length payload) None 0;
     (if r \<noteq> ISZ_OK then Some (k, c\<lparr>il_conn := conn\<rparr>, False)
      else case isz_conn_drain k conn of (k, conn, r) \<Rightarrow>
             Some (k, c\<lparr>il_conn := conn\<rparr>, r = ISZ_OK \<or> r = ISZ_ERR_COMMIT_PENDING))
   }"

definition isz_client_put_u32_le :: "u8 list \<Rightarrow> nat \<Rightarrow> u32 \<Rightarrow> u8 list option" where
  "isz_client_put_u32_le p i v =
     (if i + 4 \<le> length p then Some (p[i := byte_of 0 v, i + 1 := byte_of 8 v, i + 2 := byte_of 16 v, i + 3 := byte_of 24 v]) else None)"

definition isz_put_i32_le_local :: "u8 list \<Rightarrow> nat \<Rightarrow> int \<Rightarrow> u8 list option" where
  "isz_put_i32_le_local p i v = isz_client_put_u32_le p i (word_of_int v)"

text \<open>The id of the new surface is the second result.\<close>

definition isz_client_send_surface_create :: "'z kern_scheme \<Rightarrow> isz_link \<Rightarrow> ('z kern_scheme \<times> isz_link \<times> u32 option) option" where
  "isz_client_send_surface_create k c =
     (let i = il_next_surface_id c;
          c = c\<lparr>il_next_surface_id := i + 1\<rparr>;
          payload = [byte_of 0 i, byte_of 8 i, byte_of 16 i, byte_of 24 i]
      in do {
        (k, c, ok) \<leftarrow> isz_client_send k c ISZ_MSG_SURFACE_CREATE payload;
        Some (k, c, if ok then Some i else None)
      })"

definition isz_client_send_surface_set_position ::
    "'z kern_scheme \<Rightarrow> isz_link \<Rightarrow> u32 \<Rightarrow> int \<Rightarrow> int \<Rightarrow> ('z kern_scheme \<times> isz_link \<times> bool) option" where
  "isz_client_send_surface_set_position k c surface_id x y = do {
     payload \<leftarrow> isz_client_put_u32_le (replicate 12 0) 0 surface_id;
     payload \<leftarrow> isz_put_i32_le_local payload 4 x;
     payload \<leftarrow> isz_put_i32_le_local payload 8 y;
     isz_client_send k c ISZ_MSG_SURFACE_SET_POSITION payload
   }"

definition isz_client_send_surface_set_size ::
    "'z kern_scheme \<Rightarrow> isz_link \<Rightarrow> u32 \<Rightarrow> int \<Rightarrow> int \<Rightarrow> ('z kern_scheme \<times> isz_link \<times> bool) option" where
  "isz_client_send_surface_set_size k c surface_id width height = do {
     payload \<leftarrow> isz_client_put_u32_le (replicate 12 0) 0 surface_id;
     payload \<leftarrow> isz_put_i32_le_local payload 4 width;
     payload \<leftarrow> isz_put_i32_le_local payload 8 height;
     isz_client_send k c ISZ_MSG_SURFACE_SET_SIZE payload
   }"

abbreviation (input) "ISZ_MSG_SURFACE_SET_OUTPUT \<equiv> (51 :: u32)"

definition isz_client_send_surface_set_output ::
    "'z kern_scheme \<Rightarrow> isz_link \<Rightarrow> u32 \<Rightarrow> u32 \<Rightarrow> ('z kern_scheme \<times> isz_link \<times> bool) option" where
  "isz_client_send_surface_set_output k c surface_id output_id = do {
     payload \<leftarrow> isz_client_put_u32_le (replicate 8 0) 0 surface_id;
     payload \<leftarrow> isz_client_put_u32_le payload 4 output_id;
     isz_client_send k c ISZ_MSG_SURFACE_SET_OUTPUT payload
   }"

definition isz_client_send_surface_clear_output ::
    "'z kern_scheme \<Rightarrow> isz_link \<Rightarrow> u32 \<Rightarrow> ('z kern_scheme \<times> isz_link \<times> bool) option" where
  "isz_client_send_surface_clear_output k c surface_id = isz_client_send_surface_set_output k c surface_id 0"

definition isz_client_send_surface_set_plane_type ::
    "'z kern_scheme \<Rightarrow> isz_link \<Rightarrow> u32 \<Rightarrow> int \<Rightarrow> ('z kern_scheme \<times> isz_link \<times> bool) option" where
  "isz_client_send_surface_set_plane_type k c surface_id plane_type = do {
     payload \<leftarrow> isz_client_put_u32_le (replicate 8 0) 0 surface_id;
     payload \<leftarrow> isz_client_put_u32_le payload 4 (word_of_int plane_type);
     isz_client_send k c ISZ_MSG_SURFACE_SET_PLANE_TYPE payload
   }"

definition isz_client_send_surface_set_plane_slot ::
    "'z kern_scheme \<Rightarrow> isz_link \<Rightarrow> u32 \<Rightarrow> int \<Rightarrow> ('z kern_scheme \<times> isz_link \<times> bool) option" where
  "isz_client_send_surface_set_plane_slot k c surface_id plane_slot = do {
     payload \<leftarrow> isz_client_put_u32_le (replicate 8 0) 0 surface_id;
     payload \<leftarrow> isz_client_put_u32_le payload 4 (word_of_int plane_slot);
     isz_client_send k c ISZ_MSG_SURFACE_SET_PLANE_SLOT payload
   }"

definition isz_client_send_surface_set_zpos ::
    "'z kern_scheme \<Rightarrow> isz_link \<Rightarrow> u32 \<Rightarrow> int \<Rightarrow> ('z kern_scheme \<times> isz_link \<times> bool) option" where
  "isz_client_send_surface_set_zpos k c surface_id zpos = do {
     payload \<leftarrow> isz_client_put_u32_le (replicate 8 0) 0 surface_id;
     payload \<leftarrow> isz_put_i32_le_local payload 4 zpos;
     isz_client_send k c ISZ_MSG_SURFACE_SET_ZPOS payload
   }"

definition isz_client_send_surface_destroy :: "'z kern_scheme \<Rightarrow> isz_link \<Rightarrow> u32 \<Rightarrow> ('z kern_scheme \<times> isz_link \<times> bool) option" where
  "isz_client_send_surface_destroy k c surface_id = do {
     payload \<leftarrow> isz_client_put_u32_le (replicate 4 0) 0 surface_id;
     isz_client_send k c ISZ_MSG_SURFACE_DESTROY payload
   }"

definition isz_client_send_seat_set_keyboard_focus ::
    "'z kern_scheme \<Rightarrow> isz_link \<Rightarrow> u32 \<Rightarrow> u32 \<Rightarrow> ('z kern_scheme \<times> isz_link \<times> bool) option" where
  "isz_client_send_seat_set_keyboard_focus k c seat_id surface_id = do {
     payload \<leftarrow> isz_client_put_u32_le (replicate 8 0) 0 seat_id;
     payload \<leftarrow> isz_client_put_u32_le payload 4 surface_id;
     isz_client_send k c ISZ_MSG_SEAT_SET_KEYBOARD_FOCUS payload
   }"

definition isz_client_send_commit_flags ::
    "'z kern_scheme \<Rightarrow> isz_link \<Rightarrow> u32 \<Rightarrow> u32 \<Rightarrow> ('z kern_scheme \<times> isz_link \<times> bool) option" where
  "isz_client_send_commit_flags k c output_id flags = do {
     payload \<leftarrow> isz_client_put_u32_le (replicate 8 0) 0 output_id;
     payload \<leftarrow> isz_client_put_u32_le payload 4 flags;
     isz_client_send k c ISZ_MSG_COMMIT payload
   }"

definition isz_client_send_commit :: "'z kern_scheme \<Rightarrow> isz_link \<Rightarrow> u32 \<Rightarrow> ('z kern_scheme \<times> isz_link \<times> bool) option" where
  "isz_client_send_commit k c output_id = isz_client_send_commit_flags k c output_id 0"

definition isz_client_destroy :: "'z kern_scheme \<Rightarrow> isz_link option \<Rightarrow> 'z kern_scheme" where
  "isz_client_destroy k c = (case c of None \<Rightarrow> k | Some c \<Rightarrow> isz_conn_close k (il_conn c))"


section \<open>What the senders send\<close>

lemma isz_client_put_u32_le_eq: "isz_client_put_u32_le = isz_put_u32_le"
  by (intro ext) (simp add: isz_client_put_u32_le_def isz_put_u32_le_def)

lemmas link_payload_simps = isz_client_put_u32_le_eq isz_put_i32_le_local_def wire_simps

lemma isz_conn_send_refused:
  assumes "isz_conn_send k c m (Some p) (length p) fds n = Some (k', c', r)" "r \<noteq> ISZ_OK" "length p \<le> 8184"
  shows "c_dead c'"
  using assms by (auto simp: isz_conn_send_def isz_proto_encode_eq conn_enqueue_def bind_eq_Some_conv
      split: if_splits prod.splits option.splits send_out.splits)

lemma isz_conn_drain_link:
  assumes "isz_conn_drain k c = (k', c', r)"
  shows "kern.more k' = kern.more k" "r = ISZ_OK \<or> r = ISZ_ERR_COMMIT_PENDING \<or> c_dead c'"
proof -
  show "kern.more k' = kern.more k"
    using assms conn_drain_loop_hs [of k c] by (auto simp: isz_conn_drain_def hs_frame_def split: if_splits)
  show "r = ISZ_OK \<or> r = ISZ_ERR_COMMIT_PENDING \<or> c_dead c'"
    using assms conn_drain_loop_spec [of k c "c_queue c" k' c' r] by (auto simp: isz_conn_drain_def split: if_splits)
qed

lemma isz_client_send_spec:
  assumes "length p \<le> 8184"
  shows "\<exists>k' c' ok. isz_client_send k c m p = Some (k', c', ok) \<and> (conn_ok (il_conn c) \<longrightarrow> conn_ok (il_conn c'))
    \<and> c' = c\<lparr>il_conn := il_conn c'\<rparr> \<and> kern.more k' = kern.more k
    \<and> (if ok then \<not> c_dead (il_conn c')
            \<and> conn_delivered (k', il_conn c') @ conn_pending (k', il_conn c')
                = conn_delivered (k, il_conn c) @ conn_pending (k, il_conn c) @ [(frame m p, 0)]
       else c_dead (il_conn c'))"
proof -
  obtain k1 cn1 r where s: "isz_conn_send k (il_conn c) m (Some p) (length p) (Some []) (length ([] :: fd list)) = Some (k1, cn1, r)"
    "conn_ok (il_conn c) \<longrightarrow> conn_ok cn1"
    "if r = ISZ_OK then \<not> c_dead cn1 \<and> conn_delivered (k1, cn1) @ conn_pending (k1, cn1)
        = conn_delivered (k, il_conn c) @ conn_pending (k, il_conn c) @ [(frame m p, 0)] else c_dead cn1 \<or> k1 = k \<and> cn1 = il_conn c"
    using isz_conn_send_spec [of "[]" k "il_conn c" m p] by auto
  obtain k2 cn2 r2 where d: "isz_conn_drain k1 cn1 = (k2, cn2, r2)" by (metis prod_cases3)
  note ds = isz_conn_drain_spec [OF d]
  have more: "kern.more k1 = kern.more k" "kern.more k2 = kern.more k1" using isz_conn_send_more [OF s(1)] isz_conn_drain_link(1) [OF d] by auto
  have run: "isz_client_send k c m p = (if r \<noteq> ISZ_OK then Some (k1, c\<lparr>il_conn := cn1\<rparr>, False)
      else Some (k2, c\<lparr>il_conn := cn2\<rparr>, r2 = ISZ_OK \<or> r2 = ISZ_ERR_COMMIT_PENDING))"
    using s(1) d by (simp add: isz_client_send_def isz_conn_send_NULL)
  have dead: "r \<noteq> ISZ_OK \<Longrightarrow> c_dead cn1"
    using isz_conn_send_refused [OF s(1) _ assms] by blast
  note r2 = isz_conn_drain_link(2) [OF d]
  show ?thesis
  proof (cases "r = ISZ_OK")
    case False
    then show ?thesis using run s(2) more dead by auto
  next
    case True
    then show ?thesis using run s(2,3) more ds r2 by auto
  qed
qed


text \<open>The messages of the bridge and the calls they stand for on the server.\<close>

datatype link_msg =
    LinkCreate
  | LinkPosition u32 int int
  | LinkSize u32 int int
  | LinkOutput u32 u32
  | LinkPlaneType u32 int
  | LinkPlaneSlot u32 int
  | LinkZpos u32 int
  | LinkDestroy u32
  | LinkFocus u32 u32
  | LinkCommit u32 u32

fun link_send :: "'z kern_scheme \<Rightarrow> isz_link \<Rightarrow> link_msg \<Rightarrow> ('z kern_scheme \<times> isz_link \<times> bool) option" where
  "link_send k c LinkCreate = do { (k, c, i) \<leftarrow> isz_client_send_surface_create k c; Some (k, c, i \<noteq> None) }"
| "link_send k c (LinkPosition i x y) = isz_client_send_surface_set_position k c i x y"
| "link_send k c (LinkSize i w h) = isz_client_send_surface_set_size k c i w h"
| "link_send k c (LinkOutput i o') = isz_client_send_surface_set_output k c i o'"
| "link_send k c (LinkPlaneType i t) = isz_client_send_surface_set_plane_type k c i t"
| "link_send k c (LinkPlaneSlot i n) = isz_client_send_surface_set_plane_slot k c i n"
| "link_send k c (LinkZpos i z) = isz_client_send_surface_set_zpos k c i z"
| "link_send k c (LinkDestroy i) = isz_client_send_surface_destroy k c i"
| "link_send k c (LinkFocus s i) = isz_client_send_seat_set_keyboard_focus k c s i"
| "link_send k c (LinkCommit o' f) = isz_client_send_commit_flags k c o' f"

fun link_id :: "link_msg \<Rightarrow> u32" where
  "link_id LinkCreate = ISZ_MSG_SURFACE_CREATE"
| "link_id (LinkPosition i x y) = ISZ_MSG_SURFACE_SET_POSITION"
| "link_id (LinkSize i w h) = ISZ_MSG_SURFACE_SET_SIZE"
| "link_id (LinkOutput i o') = ISZ_MSG_SURFACE_SET_OUTPUT"
| "link_id (LinkPlaneType i t) = ISZ_MSG_SURFACE_SET_PLANE_TYPE"
| "link_id (LinkPlaneSlot i n) = ISZ_MSG_SURFACE_SET_PLANE_SLOT"
| "link_id (LinkZpos i z) = ISZ_MSG_SURFACE_SET_ZPOS"
| "link_id (LinkDestroy i) = ISZ_MSG_SURFACE_DESTROY"
| "link_id (LinkFocus s i) = ISZ_MSG_SEAT_SET_KEYBOARD_FOCUS"
| "link_id (LinkCommit o' f) = ISZ_MSG_COMMIT"

fun link_payload :: "u32 \<Rightarrow> link_msg \<Rightarrow> u8 list" where
  "link_payload new LinkCreate = le32 new"
| "link_payload new (LinkPosition i x y) = le32 i @ le32 (word_of_int x) @ le32 (word_of_int y)"
| "link_payload new (LinkSize i w h) = le32 i @ le32 (word_of_int w) @ le32 (word_of_int h)"
| "link_payload new (LinkOutput i o') = le32 i @ le32 o'"
| "link_payload new (LinkPlaneType i t) = le32 i @ le32 (word_of_int t)"
| "link_payload new (LinkPlaneSlot i n) = le32 i @ le32 (word_of_int n)"
| "link_payload new (LinkZpos i z) = le32 i @ le32 (word_of_int z)"
| "link_payload new (LinkDestroy i) = le32 i"
| "link_payload new (LinkFocus s i) = le32 s @ le32 i"
| "link_payload new (LinkCommit o' f) = le32 o' @ le32 f"

abbreviation (input) "is_i32 v \<equiv> - (2 ^ 31) \<le> v \<and> v < (2 ^ 31 :: int)"

fun link_ints_ok :: "link_msg \<Rightarrow> bool" where
  "link_ints_ok (LinkPosition i x y) = (is_i32 x \<and> is_i32 y)"
| "link_ints_ok (LinkSize i w h) = (is_i32 w \<and> is_i32 h)"
| "link_ints_ok (LinkPlaneType i t) = is_i32 t"
| "link_ints_ok (LinkPlaneSlot i n) = is_i32 n"
| "link_ints_ok (LinkZpos i z) = is_i32 z"
| "link_ints_ok m = True"

text \<open>A call on the surface that the connection \<open>cr\<close> knows under an id.\<close>

definition on_surface :: "world \<Rightarrow> nat \<Rightarrow> u32 \<Rightarrow> u32 \<Rightarrow> (nat option \<Rightarrow> (world \<times> isz_error) option) \<Rightarrow> world option" where
  "on_surface w cr msg i call = do {
     surf \<leftarrow> lookup_ref w cr i ISZ_OBJECT_SURFACE;
     (case surf of None \<Rightarrow> isz_reply_error w cr msg ISZ_ERR_INVALID_ARG | Some r \<Rightarrow> reply_unless_ok cr msg (call (Some r)))
   }"

fun server_call :: "world \<Rightarrow> nat \<Rightarrow> link_msg \<Rightarrow> world option" where
  "server_call w cr LinkCreate = isz_handle_surface_create w cr"
| "server_call w cr (LinkPosition i x y) = on_surface w cr ISZ_MSG_SURFACE_SET_POSITION i (\<lambda>s. isz_surface_set_position w s x y)"
| "server_call w cr (LinkSize i wd h) = on_surface w cr ISZ_MSG_SURFACE_SET_SIZE i (\<lambda>s. isz_surface_set_size w s wd h)"
| "server_call w cr (LinkOutput i o') = isz_reply_error w cr ISZ_MSG_SURFACE_SET_OUTPUT ISZ_ERR_INVALID_ARG"
| "server_call w cr (LinkPlaneType i t) = on_surface w cr ISZ_MSG_SURFACE_SET_PLANE_TYPE i (\<lambda>s. isz_surface_set_plane_type w s t)"
| "server_call w cr (LinkPlaneSlot i n) = on_surface w cr ISZ_MSG_SURFACE_SET_PLANE_SLOT i (\<lambda>s. isz_surface_set_plane_slot w s n)"
| "server_call w cr (LinkZpos i z) = on_surface w cr ISZ_MSG_SURFACE_SET_ZPOS i (\<lambda>s. isz_surface_set_zpos w s z)"
| "server_call w cr (LinkDestroy i) = do {
     surf \<leftarrow> lookup_ref w cr i ISZ_OBJECT_SURFACE;
     (case surf of
        None \<Rightarrow> isz_reply_error w cr ISZ_MSG_SURFACE_DESTROY ISZ_ERR_INVALID_ARG
      | Some r \<Rightarrow> do { w \<leftarrow> unregister_ref w cr i; isz_surface_destroy w (Some r) })
   }"
| "server_call w cr (LinkFocus s i) = do {
     (w, seat) \<leftarrow> isz_resolve_seat w cr s;
     (case seat of
        None \<Rightarrow> isz_reply_error w cr ISZ_MSG_SEAT_SET_KEYBOARD_FOCUS ISZ_ERR_INVALID_ARG
      | Some st \<Rightarrow> do {
        surf \<leftarrow> optional_surface w cr i;
        (case surf of
           None \<Rightarrow> isz_reply_error w cr ISZ_MSG_SEAT_SET_KEYBOARD_FOCUS ISZ_ERR_INVALID_ARG
         | Some sf \<Rightarrow> reply_unless_ok cr ISZ_MSG_SEAT_SET_KEYBOARD_FOCUS (isz_seat_set_keyboard_focus w (Some st) sf))
      })
   }"
| "server_call w cr (LinkCommit o' f) = do {
     (w, out) \<leftarrow> isz_resolve_output w cr o';
     (case out of
        None \<Rightarrow> isz_reply_error w cr ISZ_MSG_COMMIT ISZ_ERR_INVALID_ARG
      | Some o' \<Rightarrow> reply_unless_ok cr ISZ_MSG_COMMIT (isz_commit w (Some o') f))
   }"

lemma length_link_payload: "length (link_payload new m) \<le> 12"
  by (cases m) simp_all

lemma link_send_eq:
  "link_send k c m = isz_client_send k (if m = LinkCreate then c\<lparr>il_next_surface_id := il_next_surface_id c + 1\<rparr> else c)
     (link_id m) (link_payload (il_next_surface_id c) m)"
proof (cases m)
  case LinkCreate
  have "(do { (k, c, i) \<leftarrow> do { (k, c, ok) \<leftarrow> r; Some (k, c, if ok then Some i else None) }; Some (k, c, i \<noteq> None) }) = r"
    for r :: "('a kern_scheme \<times> isz_link \<times> bool) option" and i :: u32
    by (cases r) auto
  with LinkCreate show ?thesis by (simp add: isz_client_send_surface_create_def Let_def le32_def)
qed (simp_all add: isz_client_send_surface_set_position_def isz_client_send_surface_set_size_def isz_client_send_surface_set_output_def
    isz_client_send_surface_set_plane_type_def isz_client_send_surface_set_plane_slot_def isz_client_send_surface_set_zpos_def
    isz_client_send_surface_destroy_def isz_client_send_seat_set_keyboard_focus_def isz_client_send_commit_flags_def link_payload_simps)


lemma rd_payload:
  "4 \<le> n \<Longrightarrow> isz_proto_read_u32_checked (le32 a @ rest) 0 n = Some (Some (a, 4))"
  "8 \<le> n \<Longrightarrow> isz_proto_read_u32_checked (le32 a @ le32 b @ rest) 4 n = Some (Some (b, 8))"
  "8 \<le> n \<Longrightarrow> isz_proto_read_i32_checked (le32 a @ le32 b @ rest) 4 n = Some (Some (sint b, 8))"
  "12 \<le> n \<Longrightarrow> isz_proto_read_i32_checked (le32 a @ le32 b @ le32 d @ rest) 8 n = Some (Some (sint d, 12))"
  using isz_get_u32_le_append [of 8 "le32 a @ le32 b" d rest]
  by (simp_all add: isz_proto_read_u32_checked_def isz_proto_read_i32_checked_def isz_proto_read_u32_def isz_proto_read_i32_def
      isz_get_u32_le_0 isz_get_u32_le_4)

lemmas rd_payload_simps = rd_payload rd_payload [where rest = "[]", simplified]

lemma sint_i32: "is_i32 v \<Longrightarrow> sint (word_of_int v :: u32) = v"
  by (simp add: int_word_sint)

lemma dispatch_link_msg:
  assumes "link_ints_ok m"
  shows "dispatch_fds w cr (link_id m) (link_payload new m) [] = map_option (\<lambda>w. (w, [])) (server_call w cr m)"
proof -
  have bind: "(do { w \<leftarrow> r; Some (w, []) }) = map_option (\<lambda>w. (w, [] :: fd list)) r" for r :: "world option" by (cases r) simp_all
  show ?thesis
    using assms
    by (cases m) (simp_all add: dispatch_fds_def bind checked_def rd_payload_simps sint_i32 isz_handle_set_position_def
        isz_handle_set_size_def isz_handle_surface_setter_def isz_handle_surface_destroy_def isz_handle_seat_set_keyboard_focus_def
        handle_seat_surface_def isz_handle_commit_def on_surface_def Let_def
        cong: option.case_cong split: option.splits)
qed


section \<open>The handshake\<close>

lemma handshake_message_safe:
  assumes "frm = frame m p"
  shows "\<exists>c' s. handshake_message c frm m (length p) = Some (c', s) \<and> il_conn c' = il_conn c \<and> il_fd c' = il_fd c
    \<and> (s = HsDone \<longrightarrow> il_handshake_done c')"
proof -
  have "isz_get_u32_le frm 8 \<noteq> None" "isz_get_u32_le frm 12 \<noteq> None" if "8 \<le> length p"
    using that assms by (simp_all add: isz_get_u32_le_None_iff frame_def)
  then show ?thesis by (auto simp: handshake_message_def)
qed

lemma handshake_drain_total:
  assumes "conn_ok (il_conn c)"
  shows "\<exists>k' c' ok. handshake_drain k c = Some (k', c', ok) \<and> conn_ok (il_conn c') \<and> kern.more k' = kern.more k
    \<and> c_version (il_conn c') = c_version (il_conn c) \<and> c_fd (il_conn c') = c_fd (il_conn c) \<and> (ok \<longrightarrow> il_handshake_done c')"
  using assms
proof (induction "recv_left k (c_recv_state (il_conn c))" arbitrary: k c rule: less_induct)
  case less
  have st: "recv_state_ok (c_recv_state (il_conn c))" using less.prems by (simp add: conn_ok_def)
  obtain k1 st1 out where r: "recv_state_loop k (c_recv_state (il_conn c)) = Some (k1, st1, out)"
    and post: "recv_post k (c_recv_state (il_conn c)) k1 st1 out" using recv_loop_post [OF st] by blast
  define c1 where "c1 = c\<lparr>il_conn := (il_conn c)\<lparr>c_recv_state := st1\<rparr>\<rparr>"
  have c1: "conn_ok (il_conn c1)" "c_version (il_conn c1) = c_version (il_conn c)" "c_recv_state (il_conn c1) = st1" "c_fd (il_conn c1) = c_fd (il_conn c)"
    using less.prems post by (simp_all add: c1_def conn_ok_def recv_post_def)
  have m1: "kern.more k1 = kern.more k" using post by (simp add: recv_post_def)
  have recv: "isz_conn_recv k (il_conn c) 8192 = Some (k1, (il_conn c)\<lparr>c_recv_state := st1\<rparr>, out)"
    using r by (simp add: isz_conn_recv_def isz_proto_recv_state_read_def)
  show ?case
  proof (cases out)
    case (RecvMsg frm m n fds)
    obtain p where p: "n = length p" "frm = frame m p" and left: "recv_left k1 st1 < recv_left k (c_recv_state (il_conn c))"
      using post RecvMsg by (auto simp: recv_post_def)
    obtain c2 s where s: "handshake_message c1 frm m n = Some (c2, s)" "il_conn c2 = il_conn c1" "s = HsDone \<longrightarrow> il_handshake_done c2"
      using handshake_message_safe [OF p(2), of c1] p(1) by blast
    define k2 where "k2 = k_close_all k1 fds"
    have k2: "kern.more k2 = kern.more k" "recv_left k2 st1 = recv_left k1 st1"
      using m1 by (simp_all add: k2_def recv_left_def recv_size_def k_close_all_def)
    have unfold: "handshake_drain k c = (case s of HsNext \<Rightarrow> handshake_drain k2 c2 | HsFail \<Rightarrow> Some (k2, c2, False)
        | HsDone \<Rightarrow> (case k_ctl k2 of (k, ok) \<Rightarrow> Some (k, c2, ok)))"
      using recv s(1) RecvMsg by (subst handshake_drain.simps) (simp add: c1_def Let_def k2_def cong: hs_step.case_cong)
    show ?thesis
    proof (cases s)
      case HsNext
      with less.hyps [of k2 c2] left k2 s(2) c1 unfold show ?thesis by simp
    next
      case HsDone
      with kern_more_ctl(1) [of k2] unfold s c1 k2(1) show ?thesis by (auto split: prod.splits)
    next
      case HsFail
      with unfold s c1 k2(1) show ?thesis by auto
    qed
  next
    case RecvWait
    then have "handshake_drain k c = Some (k1, c1, False)" using recv by (subst handshake_drain.simps) (simp add: c1_def)
    with c1 m1 show ?thesis by auto
  next
    case RecvFail
    then have "handshake_drain k c = Some (k1, c1, False)" using recv by (subst handshake_drain.simps) (simp add: c1_def)
    with c1 m1 show ?thesis by auto
  qed
qed

text \<open>A socket that only delivers bytes.\<close>

definition recv_kept :: "'z kern_scheme \<Rightarrow> 'z kern_scheme \<Rightarrow> bool" where
  "recv_kept k k' \<longleftrightarrow> k_ctls k' = k_ctls k \<and> k_sent k' = k_sent k \<and> k_sends k' = k_sends k"

lemma recv_kept_refl: "recv_kept k k"
  by (simp add: recv_kept_def)

lemma k_recv_kept: "k_recv k n = (k', r) \<Longrightarrow> recv_kept k k'"
  by (auto simp: k_recv_def recv_kept_def split: list.splits recv_result.splits if_splits)

lemma recv_loop_kept:
  assumes "recv_state_loop k st = Some (k', st', out)"
  shows "recv_kept k k'"
proof -
  have "\<exists>k' st' out. recv_state_loop k st = Some (k', st', out) \<and> recv_kept k k'"
  proof (rule recv_state_loop_rule [where P = "\<lambda>k' st'. recv_kept k k'"], goal_cases)
    case (6 k1 st1 k' e)
    with k_recv_kept [OF 6(5)] show ?case by (auto simp: recv_kept_def)
  next
    case (7 k1 st1 k' bs cs tr)
    with k_recv_kept [OF 7(5)] show ?case by (auto simp: recv_kept_def isz_extract_fds_eq k_close_all_def Let_def split: prod.splits option.splits)
  qed (simp_all add: recv_kept_refl)
  with assms show ?thesis by auto
qed


lemma isz_recv_all_stream:
  "isz_recv_all k len got = (k', r) \<Longrightarrow> recv_healthy k \<Longrightarrow> length got \<le> len \<Longrightarrow> len \<le> length got + length (recv_stream k) \<Longrightarrow> recv_fds k = [] \<Longrightarrow>
     recv_healthy k' \<and> recv_fds k' = [] \<and> recv_kept k k' \<and> r = Some (got @ take (len - length got) (recv_stream k))
     \<and> recv_stream k' = drop (len - length got) (recv_stream k)"
proof (induction k len got rule: isz_recv_all.induct)
  case (1 k len got)
  obtain k1 x where s: "k_recv k (len - length got) = (k1, x)" by fastforce
  show ?case
  proof (cases "length got \<ge> len")
    case True
    with "1.prems" show ?thesis by (auto simp: isz_recv_all.simps [of k] recv_kept_refl)
  next
    case False
    with "1.prems" have ne: "k_recvs k \<noteq> []" by (auto simp: recv_stream_def)
    show ?thesis
    proof (cases x)
      case (RecvErr e)
      with k_recv_healthy_err [of k _ k1 e] "1.prems" s ne have
        "e = EINTR" "recv_healthy k1" "recv_stream k1 = recv_stream k" "recv_fds k1 = []" by auto
      with "1.IH"(1) [OF False ne s [symmetric] RecvErr] "1.prems" s RecvErr False ne k_recv_kept [OF s]
      show ?thesis by (auto simp: isz_recv_all.simps [of k len got] recv_kept_def)
    next
      case (RecvData bs cs tr)
      have len: "length bs \<le> len - length got"
        using s RecvData by (auto simp: k_recv_def split: list.splits recv_result.splits if_splits)
      from k_recv_healthy_data [of k _ k1 bs cs tr] "1.prems" s RecvData False have
        "bs \<noteq> []" "recv_healthy k1" "recv_stream k = bs @ recv_stream k1" "recv_fds k1 = []" by auto
      with "1.IH"(2) [OF False ne s [symmetric] RecvData] "1.prems" s RecvData False ne len k_recv_kept [OF s]
      show ?thesis by (auto simp: isz_recv_all.simps [of k len got] recv_kept_def)
    qed
  qed
qed

lemma handshake_drain_next:
  assumes "recv_healthy k" "rs_bytes (c_recv_state (il_conn c)) @ recv_stream k = frame m p @ rest" "length p \<le> 8184"
    "rs_pending_fds (c_recv_state (il_conn c)) = []" "recv_fds k = []" "k_ctls k = []" "m = ISZ_MSG_CAPABILITIES \<or> m = ISZ_MSG_HANDSHAKE_DONE"
  shows "\<exists>k' c'. recv_healthy k' \<and> rs_bytes (c_recv_state (il_conn c')) @ recv_stream k' = rest
    \<and> rs_pending_fds (c_recv_state (il_conn c')) = [] \<and> recv_fds k' = [] \<and> recv_kept k k'
    \<and> c_version (il_conn c') = c_version (il_conn c)
    \<and> handshake_drain k c =
        (if m = ISZ_MSG_CAPABILITIES then handshake_drain k' c' else Some (k', c'\<lparr>il_handshake_done := True\<rparr>, True))"
proof -
  let ?st = "c_recv_state (il_conn c)"
  obtain k' st where r: "recv_state_loop k ?st = Some (k', st, RecvMsg (frame m p) m (length p) [])"
    and h: "recv_healthy k'" "rs_bytes st @ recv_stream k' = rest" "rs_pending_fds st = []" "recv_fds k' = []"
    using recv_next_message [OF assms(1-3)] assms(4,5) by auto
  have kept: "recv_kept k k'" using recv_loop_kept [OF r] .
  then have ctl: "k_ctl k' = (k', True)" using assms(6) by (simp add: recv_kept_def k_ctl_def)
  define c' where "c' = c\<lparr>il_conn := (il_conn c)\<lparr>c_recv_state := st\<rparr>\<rparr>"
  have "isz_conn_recv k (il_conn c) 8192 = Some (k', (il_conn c)\<lparr>c_recv_state := st\<rparr>, RecvMsg (frame m p) m (length p) [])"
    using r by (simp add: isz_conn_recv_def isz_proto_recv_state_read_def)
  then have "handshake_drain k c = (if m = 3 then handshake_drain k' c' else Some (k', c'\<lparr>il_handshake_done := True\<rparr>, True))"
    using assms(7) ctl by (subst handshake_drain.simps) (auto simp: c'_def handshake_message_def)
  with h kept show ?thesis by (intro exI [of _ k'] exI [of _ c']) (simp add: c'_def)
qed

text \<open>The two sides of the handshake meet: on the bytes that the server side produces the client side succeeds.\<close>

lemma client_handshake_healthy:
  assumes "recv_healthy k" "recv_fds k = []" "k_ctls k = []" "k_sends k = []"
    "recv_stream k = be32 ISZ_PROTOCOL_MAGIC @ le32 ISZ_PROTOCOL_VERSION @ frame ISZ_MSG_CAPABILITIES (replicate 12 0) @ frame ISZ_MSG_HANDSHAKE_DONE []"
    "rs_bytes (c_recv_state (il_conn c)) = []" "rs_pending_fds (c_recv_state (il_conn c)) = []"
  shows "\<exists>k' c'. isz_client_handshake k c True = Some (k', c', True) \<and> il_handshake_done c' \<and> c_version (il_conn c') = 1
    \<and> k_sent k' = k_sent k @ [(il_fd c, le32 1, [])] \<and> k_ctls k' = []"
proof -
  have ctl: "k_ctl k = (k, True)" using assms(3) by (simp add: k_ctl_def)
  obtain k1 r where r: "isz_recv_all k 8 [] = (k1, r)" by fastforce
  have k1: "recv_healthy k1" "recv_fds k1 = []" "recv_kept k k1" "r = Some (be32 ISZ_PROTOCOL_MAGIC @ le32 1)"
    "recv_stream k1 = frame 3 (replicate 12 0) @ frame 1 []"
    using isz_recv_all_stream [OF r assms(1)] assms(2,5) by auto
  have magic: "isz_proto_recv_magic k = Some (k1, MagicOk 1)"
    using r k1(4) isz_get_u32_be_append [of 0 "[]" ISZ_PROTOCOL_MAGIC "le32 1"] isz_get_u32_le_append [of 4 "be32 ISZ_PROTOCOL_MAGIC" 1 "[]"]
    by (simp add: isz_proto_recv_magic_def)
  define k2 where "k2 = k1\<lparr>k_sent := k_sent k1 @ [(il_fd c, le32 1, [])]\<rparr>"
  have reply: "isz_proto_send_version_reply k1 (il_fd c) 1 = Some (k2, True)"
    using k1(3) assms(4) by (simp add: isz_proto_send_version_reply_def wire_simps isz_send_all.simps k_send_def recv_kept_def k2_def le32_def)
  have k2: "recv_healthy k2" "recv_fds k2 = []" "recv_stream k2 = frame 3 (replicate 12 0) @ frame 1 []" "k_ctls k2 = []"
    "k_sent k2 = k_sent k @ [(il_fd c, le32 1, [])]"
    using k1 assms(3) by (simp_all add: k2_def recv_healthy_def recv_fds_def recv_stream_def recv_kept_def)
  let ?c = "c\<lparr>il_conn := (il_conn c)\<lparr>c_version := 1\<rparr>\<rparr>"
  have run: "isz_client_handshake k c True = handshake_drain k2 ?c" using ctl magic reply by (simp add: isz_client_handshake_def)
  obtain k3 c3 where s3: "recv_healthy k3" "rs_bytes (c_recv_state (il_conn c3)) @ recv_stream k3 = frame 1 []"
    "rs_pending_fds (c_recv_state (il_conn c3)) = []" "recv_fds k3 = []" "recv_kept k2 k3" "c_version (il_conn c3) = 1"
    "handshake_drain k2 ?c = handshake_drain k3 c3"
    using handshake_drain_next [of k2 ?c 3 "replicate 12 0" "frame 1 []"] k2 assms(6,7) by auto
  obtain k4 c4 where s4: "recv_kept k3 k4" "c_version (il_conn c4) = 1" "handshake_drain k3 c3 = Some (k4, c4\<lparr>il_handshake_done := True\<rparr>, True)"
    using handshake_drain_next [of k3 c3 1 "[]" "[]"] s3 k2(4) by (auto simp: recv_kept_def)
  show ?thesis
  proof (intro exI conjI)
    show "isz_client_handshake k c True = Some (k4, c4\<lparr>il_handshake_done := True\<rparr>, True)" using run s3(7) s4(3) by simp
  qed (use s4 s3(5) k2(4,5) in \<open>auto simp: recv_kept_def\<close>)
qed


lemma client_handshake_total:
  assumes "conn_ok (il_conn c)"
  shows "\<exists>k' c' ok. isz_client_handshake k c blocking = Some (k', c', ok) \<and> conn_ok (il_conn c') \<and> kern.more k' = kern.more k \<and> c_fd (il_conn c') = c_fd (il_conn c)
    \<and> (ok \<longrightarrow> il_handshake_done c' \<and> c_version (il_conn c') = 1)"
proof -
  obtain k1 flags where ctl: "k_ctl k = (k1, flags)" by fastforce
  obtain k2 s where s: "isz_proto_recv_magic k1 = Some (k2, s)" "kern.more k2 = kern.more k1"
  proof -
    obtain k2 r where r: "isz_recv_all k1 8 [] = (k2, r)" by fastforce
    have "\<exists>s. isz_proto_recv_magic k1 = Some (k2, s)"
      using r isz_recv_all_spec [OF r] by (cases r) (auto simp: isz_proto_recv_magic_def isz_get_u32_be_def isz_get_u32_le_def)
    with isz_recv_all_frame [OF r] that show ?thesis by blast
  qed
  have m1: "kern.more k1 = kern.more k" using kern_more_ctl(1) [of k] ctl by simp
  show ?thesis
  proof (cases "flags \<and> blocking \<and> (\<exists>v. s = MagicOk v \<and> v \<noteq> 0)")
    case False
    then have "isz_client_handshake k c blocking = Some (k1, c, False) \<or> isz_client_handshake k c blocking = Some (k2, c, False)"
      using ctl s(1) by (cases s) (auto simp: isz_client_handshake_def)
    with assms m1 s(2) show ?thesis by auto
  next
    case True
    then obtain v where v: "s = MagicOk v" "v \<noteq> 0" "flags" "blocking" by blast
    have ver: "(if ISZ_PROTOCOL_VERSION > v then v else 1) = 1" using v(2) by (auto simp: word_less_nat_alt word_unat_eq_iff)
    obtain k3 ok where r: "isz_proto_send_version_reply k2 (il_fd c) 1 = Some (k3, ok)" "kern.more k3 = kern.more k2"
      using isz_send_all_frame [of k2 "il_fd c" "le32 1"] by (cases "isz_send_all k2 (il_fd c) (le32 1)") (auto simp: isz_proto_send_version_reply_def wire_simps)
    let ?c = "c\<lparr>il_conn := (il_conn c)\<lparr>c_version := 1\<rparr>\<rparr>"
    have run: "isz_client_handshake k c blocking = (if \<not> ok then Some (k3, c, False) else handshake_drain k3 ?c)"
      using ctl s(1) v r(1) unfolding isz_client_handshake_def by (simp add: ver)
    have "conn_ok (il_conn ?c)" using assms by (simp add: conn_ok_def)
    from handshake_drain_total [OF this, of k3] run assms m1 s(2) r(2) show ?thesis by auto
  qed
qed

section \<open>Properties\<close>

text \<open>C34: The client side of the handshake returns for every behaviour of the socket, keeps the connection well formed and succeeds only with protocol version 1. It meets the server side: when
  the server's handshake succeeded, then a client that receives the bytes the server sent, in any fragmentation, succeeds with the version of the server, and answers the version that the server side requires.\<close>

theorem handshake_sides_meet:
  assumes "conn_ok (il_conn c)"
  shows "(\<exists>k' c' ok. isz_client_handshake k c blocking = Some (k', c', ok) \<and> conn_ok (il_conn c')
        \<and> (ok \<longrightarrow> il_handshake_done c' \<and> c_version (il_conn c') = 1))
    \<and> (\<forall>ks cs ks' cs'. conn_ok cs \<and> \<not> c_handshake_done cs \<and> c_queue cs = [] \<and> isz_handshake_server_side ks cs = Some (ks', cs', ISZ_OK)
        \<and> conn_bytes (ks', cs') = conn_bytes (ks, cs) @ recv_stream k
        \<and> recv_healthy k \<and> recv_fds k = [] \<and> k_ctls k = [] \<and> k_sends k = [] \<and> c_recv_state (il_conn c) = isz_proto_recv_state_init
        \<longrightarrow> (\<exists>k' c'. isz_client_handshake k c True = Some (k', c', True) \<and> il_handshake_done c' \<and> c_version (il_conn c') = c_version cs'
              \<and> k_sent k' = k_sent k @ [(il_fd c, le32 (c_version cs'), [])]))"
proof (intro conjI allI impI; (elim conjE)?)
  show "\<exists>k' c' ok. isz_client_handshake k c blocking = Some (k', c', ok) \<and> conn_ok (il_conn c')
      \<and> (ok \<longrightarrow> il_handshake_done c' \<and> c_version (il_conn c') = 1)"
    using client_handshake_total [OF assms, of k blocking] by blast
next
  fix ks :: "'d kern_scheme" and cs ks' cs'
  assume server: "conn_ok cs" "\<not> c_handshake_done cs" "c_queue cs = []" "isz_handshake_server_side ks cs = Some (ks', cs', ISZ_OK)"
    "conn_bytes (ks', cs') = conn_bytes (ks, cs) @ recv_stream k"
    and link: "recv_healthy k" "recv_fds k = []" "k_ctls k = []" "k_sends k = []" "c_recv_state (il_conn c) = isz_proto_recv_state_init"
  have s: "c_version cs' = 1" "recv_stream k = be32 ISZ_PROTOCOL_MAGIC @ le32 1 @ frame 3 (replicate 12 0) @ frame 1 []"
    using handshake_server_side_cases [OF server(1-3), of ks] server(4,5) by auto
  have "rs_bytes (c_recv_state (il_conn c)) = []" "rs_pending_fds (c_recv_state (il_conn c)) = []"
    using link(5) by (simp_all add: isz_proto_recv_state_init_def)
  from client_handshake_healthy [OF link(1-4) s(2) this] s(1)
  show "\<exists>k' c'. isz_client_handshake k c True = Some (k', c', True) \<and> il_handshake_done c' \<and> c_version (il_conn c') = c_version cs'
      \<and> k_sent k' = k_sent k @ [(il_fd c, le32 (c_version cs'), [])]" by auto
qed

definition sample_link :: isz_link where
  "sample_link = \<lparr>il_conn = sample_conn, il_fd = 5, il_handshake_done = False, il_next_surface_id = 1, il_output_id = 0, il_seat_id = 0\<rparr>"

theorem handshake_sides_meet_witness:
  "\<exists>k' c' ks' cs'. isz_handshake_server_side (kern_init\<lparr>k_recvs := [RecvData (le32 1) [] False]\<rparr>) sample_conn = Some (ks', cs', ISZ_OK)
     \<and> isz_client_handshake (kern_init\<lparr>k_recvs := [RecvData (conn_bytes (ks', cs')) [] False]\<rparr>) sample_link True = Some (k', c', True)
     \<and> c_version (il_conn c') = c_version cs'"
proof -
  let ?ks = "kern_init\<lparr>k_recvs := [RecvData (le32 1) [] False]\<rparr>"
  have h: "k_sends ?ks = []" "recv_healthy ?ks" "recv_stream ?ks = le32 1 @ []"
    by (simp_all add: kern_init_def recv_healthy_def recv_stream_def le32_def)
  have sc: "conn_ok sample_conn" "\<not> c_handshake_done sample_conn" "\<not> c_dead sample_conn" "c_queue sample_conn = []"
    "c_recv_state sample_conn = isz_proto_recv_state_init" "conn_bytes (?ks, sample_conn) = []"
    using sample_conn_facts
    by (simp_all add: sample_conn_def isz_conn_create_def k_alloc_def kern_init_def conn_bytes_def conn_delivered_def conn_pending_def)
  obtain ks' cs' where run: "isz_handshake_server_side ?ks sample_conn = Some (ks', cs', ISZ_OK)"
    using handshake_healthy [OF sc(2-4) h(1,2,3)] by auto
  let ?k = "kern_init\<lparr>k_recvs := [RecvData (conn_bytes (ks', cs')) [] False]\<rparr>"
  have "conn_bytes (ks', cs') \<noteq> []" using handshake_server_side_cases [OF sc(1,2,4), of ?ks] run by (auto simp: le32_def)
  then have k: "recv_stream ?k = conn_bytes (ks', cs')" "recv_healthy ?k" "recv_fds ?k = []" "k_ctls ?k = []" "k_sends ?k = []"
    by (simp_all add: recv_stream_def recv_healthy_def recv_fds_def kern_init_def)
  have "conn_ok (il_conn sample_link)" "c_recv_state (il_conn sample_link) = isz_proto_recv_state_init" using sc by (simp_all add: sample_link_def)
  from handshake_sides_meet [OF this(1), of ?k True, THEN conjunct2, rule_format, of sample_conn ?ks ks' cs'] this(2) run sc k
  obtain k' c' where "isz_client_handshake ?k sample_link True = Some (k', c', True)" "c_version (il_conn c') = c_version cs'" by auto
  with run show ?thesis by blast
qed



end
