(* ===== verification/X11_Client.thy ===== *)
theory X11_Client
  imports X11_Isz_Client
begin

text \<open>
  The state of one X11 client and the helpers of its request handlers (first part of \<^verbatim>\<open>x11bridge/x11_client.c\<close>) and the translation of window operations into messages to the server and of
  server events into X11 events (\<^verbatim>\<open>x11bridge/translation.c\<close>).

  The record \<open>bridge\<close> holds what the clients share: the operating system, the atoms, the counter of client slots and the connection to the server (\<open>None\<close> for a null pointer). A table of the C code, an
  array whose entries have a flag \<^verbatim>\<open>in_use\<close>, is a list of options of the length of the array; the code never reads an entry that is not in use. A pointer to an entry is its index. An optional buffer is
  its contents.
\<close>

unbundle bit_operations_syntax

section \<open>Data\<close>

record x11_property =
  pr_property :: u32
  pr_type :: u32
  pr_format :: u8
  pr_value :: "u8 list"

record x11_window =
  xw_x11_id :: u32
  xw_isz_surface_id :: u32
  xw_x :: int
  xw_y :: int
  xw_w :: int
  xw_h :: int
  xw_border_width :: u16
  xw_depth :: u8
  xw_window_class :: u8
  xw_visual_id :: u32
  xw_event_mask :: u32
  xw_parent_xid :: u32
  xw_cursor_xid :: u32
  xw_zpos :: int
  xw_override_redirect :: bool
  xw_mapped :: bool
  xw_has_surface :: bool
  xw_has_output :: bool
  xw_bit_gravity :: u8
  xw_win_gravity :: u8
  xw_backing_store :: u8
  xw_backing_planes :: u32
  xw_backing_pixel :: u32
  xw_background_pixel :: u32
  xw_colormap :: u32
  xw_save_under :: bool
  xw_do_not_propagate_mask :: u16
  xw_backing_image :: "u8 list option"
  xw_backing_image_w :: u16
  xw_backing_image_h :: u16
  xw_backing_image_depth :: u8
  xw_backing_image_format :: u8
  xw_props :: "x11_property option list"

record x11_gc =
  gc_xid :: u32
  gc_drawable_xid :: u32
  gc_value_mask :: u32
  gc_foreground :: u32
  gc_background :: u32
  gc_function :: u8
  gc_line_width :: u16
  gc_line_style :: u8
  gc_cap_style :: u8
  gc_join_style :: u8
  gc_fill_style :: u8
  gc_fill_rule :: u8
  gc_subwindow_mode :: u8
  gc_graphics_exposure :: bool
  gc_clip_x_origin :: int
  gc_clip_y_origin :: int
  gc_arc_mode :: u8

record x11_selection =
  xs_selection_atom :: u32
  xs_owner_xid :: u32
  xs_timestamp :: u32

record x11_pixmap =
  px_pixmap_xid :: u32
  px_drawable_xid :: u32
  px_width :: u16
  px_height :: u16
  px_depth :: u8

record x11_colormap =
  cm_colormap_xid :: u32
  cm_window_xid :: u32
  cm_visual_id :: u32
  cm_alloc_flag :: u8

record x11_font =
  ft_font_xid :: u32
  ft_name :: "u8 list"

record x11_cursor =
  cu_cursor_xid :: u32
  cu_is_glyph :: bool
  cu_source_pixmap :: u32
  cu_mask_pixmap :: u32
  cu_source_font :: u32
  cu_mask_font :: u32
  cu_source_char :: u16
  cu_mask_char :: u16
  cu_fore :: "u16 \<times> u16 \<times> u16"
  cu_back :: "u16 \<times> u16 \<times> u16"
  cu_hotspot_x :: u16
  cu_hotspot_y :: u16

record x11_client =
  xc_fd :: fd
  xc_setup_done :: bool
  xc_byte_order :: u8
  xc_sequence :: u16
  xc_xid_base :: u32
  xc_xid_mask :: u32
  xc_buf :: "u8 list"
  xc_have :: nat
  xc_windows :: "x11_window option list"
  xc_pixmaps :: "x11_pixmap option list"
  xc_gcs :: "x11_gc option list"
  xc_selections :: "x11_selection option list"
  xc_colormaps :: "x11_colormap option list"
  xc_fonts :: "x11_font option list"
  xc_cursors :: "x11_cursor option list"
  xc_focus_xid :: u32
  xc_focus_revert_to :: u8

record bridge = atoms +
  g_xid_slot :: u32
  br_isz :: "isz_link option"

abbreviation (input) "X11_CLIENT_RECV_BUF \<equiv> (16384 :: nat)"
abbreviation (input) "X11_CLIENT_MAX_WIN \<equiv> (64 :: nat)"
abbreviation (input) "X11_CLIENT_MAX_PROPS \<equiv> (16 :: nat)"
abbreviation (input) "X11_PROP_MAX_BYTES \<equiv> (4096 :: nat)"
abbreviation (input) "X11_CLIENT_MAX_PIX \<equiv> (32 :: nat)"
abbreviation (input) "X11_CLIENT_MAX_GCS \<equiv> (32 :: nat)"
abbreviation (input) "X11_CLIENT_MAX_SELS \<equiv> (8 :: nat)"
abbreviation (input) "X11_CLIENT_MAX_CMAPS \<equiv> (16 :: nat)"
abbreviation (input) "X11_CLIENT_MAX_FONTS \<equiv> (16 :: nat)"
abbreviation (input) "X11_CLIENT_MAX_CURSORS \<equiv> (16 :: nat)"
abbreviation (input) "X11_FONT_NAME_MAX \<equiv> (256 :: nat)"
abbreviation (input) "X11_PUT_IMAGE_MAX_BYTES \<equiv> (65536 :: nat)"

section \<open>Clients\<close>

text \<open>The script of allocations decides about \<^verbatim>\<open>calloc\<close>.\<close>

definition x11_client_create :: "bridge \<Rightarrow> fd \<Rightarrow> bridge \<times> x11_client option" where
  "x11_client_create b fd =
     (case k_alloc b of
        (b, False) \<Rightarrow> (k_close b fd, None)
      | (b, True) \<Rightarrow>
          let slot = g_xid_slot b
          in (b\<lparr>g_xid_slot := (slot + 1) AND 0x3FF\<rparr>,
              Some \<lparr>xc_fd = fd, xc_setup_done = False, xc_byte_order = X11_BYTE_ORDER_LSB, xc_sequence = 1,
                    xc_xid_base = 0x40000000 + slot * 0x00200000, xc_xid_mask = 0x001FFFFF,
                    xc_buf = replicate X11_CLIENT_RECV_BUF 0, xc_have = 0,
                    xc_windows = replicate X11_CLIENT_MAX_WIN None, xc_pixmaps = replicate X11_CLIENT_MAX_PIX None,
                    xc_gcs = replicate X11_CLIENT_MAX_GCS None, xc_selections = replicate X11_CLIENT_MAX_SELS None,
                    xc_colormaps = replicate X11_CLIENT_MAX_CMAPS None, xc_fonts = replicate X11_CLIENT_MAX_FONTS None,
                    xc_cursors = replicate X11_CLIENT_MAX_CURSORS None, xc_focus_xid = 0, xc_focus_revert_to = 0\<rparr>))"

definition x11_client_destroy :: "bridge \<Rightarrow> x11_client option \<Rightarrow> bridge" where
  "x11_client_destroy b c = (case c of None \<Rightarrow> b | Some c \<Rightarrow> if xc_fd c \<ge> 0 then k_close b (xc_fd c) else b)"

definition x11_client_fd :: "x11_client option \<Rightarrow> fd" where
  "x11_client_fd c = (case c of None \<Rightarrow> -1 | Some c \<Rightarrow> xc_fd c)"

definition x11_client_next_sequence :: "x11_client \<Rightarrow> x11_client \<times> u16" where
  "x11_client_next_sequence c = (c\<lparr>xc_sequence := xc_sequence c + 1\<rparr>, xc_sequence c)"

section \<open>Tables\<close>

text \<open>The first entry in use that satisfies a condition, and the first entry that is free.\<close>

fun find_slot :: "('a \<Rightarrow> bool) \<Rightarrow> 'a option list \<Rightarrow> nat option" where
  "find_slot P [] = None"
| "find_slot P (x # xs) = (if (case x of None \<Rightarrow> False | Some v \<Rightarrow> P v) then Some 0 else map_option Suc (find_slot P xs))"

fun free_slot :: "'a option list \<Rightarrow> nat option" where
  "free_slot [] = None"
| "free_slot (x # xs) = (if x = None then Some 0 else map_option Suc (free_slot xs))"

definition x11_client_first_mapped :: "x11_client \<Rightarrow> nat option" where
  "x11_client_first_mapped c = find_slot xw_mapped (xc_windows c)"

definition x11_client_find_window :: "x11_client \<Rightarrow> u32 \<Rightarrow> nat option" where
  "x11_client_find_window c x11_id = find_slot (\<lambda>w. xw_x11_id w = x11_id) (xc_windows c)"

definition x11_client_find_window_by_xid :: "x11_client \<Rightarrow> u32 \<Rightarrow> nat option" where
  "x11_client_find_window_by_xid c x11_id = x11_client_find_window c x11_id"

text \<open>An entry after \<^verbatim>\<open>memset\<close>.\<close>

definition zero_window :: x11_window where
  "zero_window = \<lparr>xw_x11_id = 0, xw_isz_surface_id = 0, xw_x = 0, xw_y = 0, xw_w = 0, xw_h = 0, xw_border_width = 0, xw_depth = 0,
     xw_window_class = 0, xw_visual_id = 0, xw_event_mask = 0, xw_parent_xid = 0, xw_cursor_xid = 0, xw_zpos = 0, xw_override_redirect = False,
     xw_mapped = False, xw_has_surface = False, xw_has_output = False, xw_bit_gravity = 0, xw_win_gravity = 0, xw_backing_store = 0,
     xw_backing_planes = 0, xw_backing_pixel = 0, xw_background_pixel = 0, xw_colormap = 0, xw_save_under = False, xw_do_not_propagate_mask = 0,
     xw_backing_image = None, xw_backing_image_w = 0, xw_backing_image_h = 0, xw_backing_image_depth = 0, xw_backing_image_format = 0,
     xw_props = replicate X11_CLIENT_MAX_PROPS None\<rparr>"

definition upd_window :: "x11_client \<Rightarrow> nat \<Rightarrow> x11_window option \<Rightarrow> x11_client" where
  "upd_window c i w = c\<lparr>xc_windows := (xc_windows c)[i := w]\<rparr>"

text \<open>The window behind a pointer.\<close>

definition window_at :: "x11_client \<Rightarrow> nat \<Rightarrow> x11_window option" where
  "window_at c i = (if i < length (xc_windows c) then xc_windows c ! i else None)"

definition x11_client_new_window :: "x11_client \<Rightarrow> u32 \<Rightarrow> x11_client \<times> nat option" where
  "x11_client_new_window c x11_id =
     (case free_slot (xc_windows c) of
        Some i \<Rightarrow> (upd_window c i (Some (zero_window\<lparr>xw_x11_id := x11_id\<rparr>)), Some i)
      | None \<Rightarrow> (c, None))"

definition x11_window_prop_find :: "x11_window \<Rightarrow> u32 \<Rightarrow> nat option" where
  "x11_window_prop_find win atom = find_slot (\<lambda>p. pr_property p = atom) (xw_props win)"

definition x11_window_prop_alloc :: "x11_window \<Rightarrow> nat option" where
  "x11_window_prop_alloc win = free_slot (xw_props win)"

definition x11_window_prop_clear :: "x11_window \<Rightarrow> nat \<Rightarrow> x11_window" where
  "x11_window_prop_clear win i = win\<lparr>xw_props := (xw_props win)[i := None]\<rparr>"

definition x11_window_props_destroy :: "x11_window \<Rightarrow> x11_window" where
  "x11_window_props_destroy win = win\<lparr>xw_props := map (\<lambda>_. None) (xw_props win)\<rparr>"

definition x11_window_backing_image_clear :: "x11_window \<Rightarrow> x11_window" where
  "x11_window_backing_image_clear win = win\<lparr>xw_backing_image := None, xw_backing_image_w := 0, xw_backing_image_h := 0,
     xw_backing_image_depth := 0, xw_backing_image_format := 0\<rparr>"

definition x11_client_find_gc :: "x11_client \<Rightarrow> u32 \<Rightarrow> nat option" where
  "x11_client_find_gc c xid = find_slot (\<lambda>g. gc_xid g = xid) (xc_gcs c)"

definition x11_client_alloc_gc :: "x11_client \<Rightarrow> u32 \<Rightarrow> x11_client \<times> (nat \<times> x11_gc) option" where
  "x11_client_alloc_gc c xid =
     (case free_slot (xc_gcs c) of
        Some i \<Rightarrow>
          let g = \<lparr>gc_xid = xid, gc_drawable_xid = 0, gc_value_mask = 0, gc_foreground = 0, gc_background = 1, gc_function = 0,
                   gc_line_width = 0, gc_line_style = 0, gc_cap_style = 0, gc_join_style = 0, gc_fill_style = 0, gc_fill_rule = 0,
                   gc_subwindow_mode = 0, gc_graphics_exposure = True, gc_clip_x_origin = 0, gc_clip_y_origin = 0, gc_arc_mode = 0\<rparr>
          in (c\<lparr>xc_gcs := (xc_gcs c)[i := Some g]\<rparr>, Some (i, g))
      | None \<Rightarrow> (c, None))"

definition x11_client_find_pixmap :: "x11_client \<Rightarrow> u32 \<Rightarrow> nat option" where
  "x11_client_find_pixmap c pix_xid = find_slot (\<lambda>p. px_pixmap_xid p = pix_xid) (xc_pixmaps c)"

definition x11_client_alloc_pixmap :: "x11_client \<Rightarrow> u32 \<Rightarrow> x11_client \<times> (nat \<times> x11_pixmap) option" where
  "x11_client_alloc_pixmap c pix_xid =
     (case free_slot (xc_pixmaps c) of
        Some i \<Rightarrow>
          let p = \<lparr>px_pixmap_xid = pix_xid, px_drawable_xid = 0, px_width = 0, px_height = 0, px_depth = 0\<rparr>
          in (c\<lparr>xc_pixmaps := (xc_pixmaps c)[i := Some p]\<rparr>, Some (i, p))
      | None \<Rightarrow> (c, None))"

definition x11_client_check_drawable :: "x11_client \<Rightarrow> u32 \<Rightarrow> int" where
  "x11_client_check_drawable c draw =
     (if draw = X11_ROOT_WINDOW_ID then 1
      else if x11_client_find_window c draw \<noteq> None then 2
      else if x11_client_find_pixmap c draw \<noteq> None then 3
      else 0)"

definition x11_client_find_colormap :: "x11_client \<Rightarrow> u32 \<Rightarrow> nat option" where
  "x11_client_find_colormap c cmap_xid = find_slot (\<lambda>m. cm_colormap_xid m = cmap_xid) (xc_colormaps c)"

definition x11_client_alloc_colormap :: "x11_client \<Rightarrow> u32 \<Rightarrow> x11_client \<times> (nat \<times> x11_colormap) option" where
  "x11_client_alloc_colormap c cmap_xid =
     (case free_slot (xc_colormaps c) of
        Some i \<Rightarrow>
          let m = \<lparr>cm_colormap_xid = cmap_xid, cm_window_xid = 0, cm_visual_id = 0, cm_alloc_flag = 0\<rparr>
          in (c\<lparr>xc_colormaps := (xc_colormaps c)[i := Some m]\<rparr>, Some (i, m))
      | None \<Rightarrow> (c, None))"

definition x11_client_find_font :: "x11_client \<Rightarrow> u32 \<Rightarrow> nat option" where
  "x11_client_find_font c font_xid = find_slot (\<lambda>f. ft_font_xid f = font_xid) (xc_fonts c)"

definition x11_client_alloc_font :: "x11_client \<Rightarrow> u32 \<Rightarrow> x11_client \<times> (nat \<times> x11_font) option" where
  "x11_client_alloc_font c font_xid =
     (case free_slot (xc_fonts c) of
        Some i \<Rightarrow> let f = \<lparr>ft_font_xid = font_xid, ft_name = []\<rparr> in (c\<lparr>xc_fonts := (xc_fonts c)[i := Some f]\<rparr>, Some (i, f))
      | None \<Rightarrow> (c, None))"

definition x11_client_find_cursor :: "x11_client \<Rightarrow> u32 \<Rightarrow> nat option" where
  "x11_client_find_cursor c cursor_xid = find_slot (\<lambda>u. cu_cursor_xid u = cursor_xid) (xc_cursors c)"

definition x11_client_alloc_cursor :: "x11_client \<Rightarrow> u32 \<Rightarrow> x11_client \<times> (nat \<times> x11_cursor) option" where
  "x11_client_alloc_cursor c cursor_xid =
     (case free_slot (xc_cursors c) of
        Some i \<Rightarrow>
          let u = \<lparr>cu_cursor_xid = cursor_xid, cu_is_glyph = False, cu_source_pixmap = 0, cu_mask_pixmap = 0, cu_source_font = 0,
                   cu_mask_font = 0, cu_source_char = 0, cu_mask_char = 0, cu_fore = (0, 0, 0), cu_back = (0, 0, 0),
                   cu_hotspot_x = 0, cu_hotspot_y = 0\<rparr>
          in (c\<lparr>xc_cursors := (xc_cursors c)[i := Some u]\<rparr>, Some (i, u))
      | None \<Rightarrow> (c, None))"

definition x11_client_find_selection :: "x11_client \<Rightarrow> u32 \<Rightarrow> nat option" where
  "x11_client_find_selection c atom = find_slot (\<lambda>s. xs_selection_atom s = atom) (xc_selections c)"

definition x11_client_alloc_selection :: "x11_client \<Rightarrow> u32 \<Rightarrow> x11_client \<times> (nat \<times> x11_selection) option" where
  "x11_client_alloc_selection c atom =
     (case free_slot (xc_selections c) of
        Some i \<Rightarrow>
          let s = \<lparr>xs_selection_atom = atom, xs_owner_xid = 0, xs_timestamp = 0\<rparr>
          in (c\<lparr>xc_selections := (xc_selections c)[i := Some s]\<rparr>, Some (i, s))
      | None \<Rightarrow> (c, None))"


section \<open>Sending\<close>

text \<open>The loop of \<^verbatim>\<open>x11_client_send_raw\<close> is that of \<^verbatim>\<open>isz_send_all\<close>: it repeats after \<^verbatim>\<open>EINTR\<close> and after a partial send and fails on any other error.\<close>

definition x11_client_send_raw :: "bridge \<Rightarrow> x11_client \<Rightarrow> u8 list \<Rightarrow> nat \<Rightarrow> (bridge \<times> bool) option" where
  "x11_client_send_raw b c buf len = (if len \<le> length buf then Some (isz_send_all b (xc_fd c) (take len buf)) else None)"

definition x11_client_send_error :: "bridge \<Rightarrow> x11_client \<Rightarrow> u8 \<Rightarrow> u32 \<Rightarrow> u8 \<Rightarrow> u8 \<Rightarrow> (bridge \<times> bool) option" where
  "x11_client_send_error b c error_code bad_value major_opcode minor_opcode =
     (let seq = xc_sequence c - 1
      in do {
        (buf, _) \<leftarrow> x11_build_error (Some (replicate 32 0)) error_code seq bad_value major_opcode minor_opcode (xc_byte_order c);
        buf \<leftarrow> buf;
        x11_client_send_raw b c buf 32
      })"

definition x11_client_send_event :: "bridge \<Rightarrow> x11_client \<Rightarrow> u8 list \<Rightarrow> (bridge \<times> bool) option" where
  "x11_client_send_event b c ev = x11_client_send_raw b c ev 32"

section \<open>Connection setup\<close>

text \<open>The authorization bytes are read into a buffer of 256 bytes and dropped.\<close>

function drain_auth :: "bridge \<Rightarrow> nat \<Rightarrow> bridge \<times> bool" where
  "drain_auth b auth_total =
     (if auth_total = 0 then (b, True)
      else if k_recvs b = [] then (b, False)
      else case k_recv b (if auth_total > 256 then 256 else auth_total) of
             (b, RecvErr e) \<Rightarrow> if e = EINTR then drain_auth b auth_total else (b, False)
           | (b, RecvData bs cs tr) \<Rightarrow> if bs = [] then (b, False) else drain_auth b (auth_total - length bs))"
  by pat_completeness auto

termination
  by (relation "measure (\<lambda>(b, n). recv_size b)") (auto dest!: k_recv_size [OF sym] split: if_splits)

declare drain_auth.simps [simp del]

definition x11_client_do_setup :: "bridge \<Rightarrow> x11_client \<Rightarrow> (bridge \<times> x11_client \<times> bool) option" where
  "x11_client_do_setup b c =
     (case isz_recv_all b 12 [] of
        (b, None) \<Rightarrow> Some (b, c, False)
      | (b, Some hdr) \<Rightarrow>
          let c = c\<lparr>xc_byte_order := hdr ! 0\<rparr>
          in if xc_byte_order c \<noteq> X11_BYTE_ORDER_LSB \<and> xc_byte_order c \<noteq> X11_BYTE_ORDER_MSB then Some (b, c, False)
             else do {
               auth_name_len \<leftarrow> x11_get_u16 hdr 6 (xc_byte_order c);
               auth_data_len \<leftarrow> x11_get_u16 hdr 8 (xc_byte_order c);
               (case drain_auth b (x11_pad4 (unat auth_name_len) + x11_pad4 (unat auth_data_len)) of
                  (b, False) \<Rightarrow> Some (b, c, False)
                | (b, True) \<Rightarrow> do {
                    proto_major \<leftarrow> x11_get_u16 hdr 2 (xc_byte_order c);
                    proto_minor \<leftarrow> x11_get_u16 hdr 4 (xc_byte_order c);
                    (reply, rlen) \<leftarrow> x11_build_setup_success (replicate 512 0) 512 (xc_byte_order c) proto_major proto_minor
                                      (xc_xid_base c) (xc_xid_mask c) (Some vendor_name);
                    (if rlen = 0 then Some (b, c, False)
                     else do {
                       (b, ok) \<leftarrow> x11_client_send_raw b c reply rlen;
                       (if \<not> ok then Some (b, c, False)
                        else
                          let c = c\<lparr>xc_setup_done := True\<rparr>
                          in case x11_client_new_window c X11_ROOT_WINDOW_ID of
                               (c, None) \<Rightarrow> Some (b, c, True)
                             | (c, Some i) \<Rightarrow> do {
                                 root \<leftarrow> window_at c i;
                                 Some (b, upd_window c i (Some (root\<lparr>xw_parent_xid := 0, xw_mapped := True, xw_override_redirect := True,
                                                                   xw_w := 1024, xw_h := 768\<rparr>)), True)
                               })
                     })
                  })
             })"

section \<open>Window attributes\<close>

text \<open>What one value of the list does to the window; the other bits are accepted and dropped.\<close>

definition window_value :: "x11_window \<Rightarrow> u32 \<Rightarrow> u32 \<Rightarrow> x11_window" where
  "window_value win cw v =
     (if cw = 0x10 then win\<lparr>xw_bit_gravity := ucast v\<rparr>
      else if cw = 0x20 then win\<lparr>xw_win_gravity := ucast v\<rparr>
      else if cw = 0x40 then win\<lparr>xw_backing_store := ucast v\<rparr>
      else if cw = 0x80 then win\<lparr>xw_backing_planes := v\<rparr>
      else if cw = 0x100 then win\<lparr>xw_backing_pixel := v\<rparr>
      else if cw = 0x2 then win\<lparr>xw_background_pixel := v\<rparr>
      else if cw = 0x200 then win\<lparr>xw_override_redirect := (v \<noteq> 0)\<rparr>
      else if cw = 0x400 then win\<lparr>xw_save_under := (v \<noteq> 0)\<rparr>
      else if cw = 0x800 then win\<lparr>xw_event_mask := v\<rparr>
      else if cw = 0x1000 then win\<lparr>xw_do_not_propagate_mask := ucast v\<rparr>
      else if cw = 0x2000 then win\<lparr>xw_colormap := v\<rparr>
      else if cw = 0x4000 then win\<lparr>xw_cursor_xid := v\<rparr>
      else win)"

text \<open>The loop over the bits 0 to 14. The values stored before a list that is too short are kept, as in the code.\<close>

fun parse_window_values :: "nat list \<Rightarrow> u8 list \<Rightarrow> nat \<Rightarrow> nat \<Rightarrow> u32 \<Rightarrow> u8 \<Rightarrow> x11_window \<Rightarrow> (x11_window \<times> bool) option" where
  "parse_window_values [] buf vp remaining mask' byte_order win = Some (win, True)"
| "parse_window_values (n # ns) buf vp remaining mask' byte_order win =
     (if mask' AND push_bit n 1 = 0 then parse_window_values ns buf vp remaining mask' byte_order win
      else if remaining < 4 then Some (win, False)
      else do {
        v \<leftarrow> x11_get_u32 buf vp byte_order;
        parse_window_values ns buf (vp + 4) (remaining - 4) mask' byte_order (window_value win (push_bit n 1) v)
      })"

definition parse_window_value_list :: "u8 list \<Rightarrow> nat \<Rightarrow> nat \<Rightarrow> u32 \<Rightarrow> u8 \<Rightarrow> x11_window \<Rightarrow> (x11_window \<times> bool) option" where
  "parse_window_value_list buf vp remaining mask' byte_order win = parse_window_values [0..<15] buf vp remaining mask' byte_order win"

section \<open>Translation to the server\<close>

text \<open>A call of a sender on the connection to the server.\<close>

definition isz_call :: "bridge \<Rightarrow> isz_link \<Rightarrow> (bridge \<Rightarrow> isz_link \<Rightarrow> (bridge \<times> isz_link \<times> 'a) option) \<Rightarrow> (bridge \<times> isz_link \<times> 'a) option" where
  "isz_call b isz f = do { (b, isz, r) \<leftarrow> f b isz; Some (b\<lparr>br_isz := Some isz\<rparr>, isz, r) }"

definition translation_on_x11_create_window ::
    "bridge \<Rightarrow> x11_window \<Rightarrow> int \<Rightarrow> int \<Rightarrow> int \<Rightarrow> int \<Rightarrow> (bridge \<times> x11_window) option" where
  "translation_on_x11_create_window b win x y w h = (case br_isz b of
       None \<Rightarrow> Some (b, win)
     | Some isz \<Rightarrow> do {
         (b, isz, r) \<leftarrow> isz_call b isz isz_client_send_surface_create;
         (case r of
            None \<Rightarrow> Some (b, win)
          | Some i \<Rightarrow>
              let win = win\<lparr>xw_isz_surface_id := i, xw_has_surface := True\<rparr>
              in do {
                (b, isz, _) \<leftarrow> isz_call b isz (\<lambda>b isz. isz_client_send_surface_set_position b isz (xw_isz_surface_id win) x y);
                (b, isz, _) \<leftarrow> isz_call b isz (\<lambda>b isz. isz_client_send_surface_set_size b isz (xw_isz_surface_id win) w h);
                Some (b, win)
              })
       })"

definition translation_on_x11_map_window :: "bridge \<Rightarrow> x11_window \<Rightarrow> (bridge \<times> x11_window) option" where
  "translation_on_x11_map_window b win = (case br_isz b of
       None \<Rightarrow> Some (b, win)
     | Some isz \<Rightarrow>
         if \<not> xw_has_surface win then Some (b, win)
         else do {
           (b, isz) \<leftarrow> (if xw_isz_surface_id win \<noteq> 0
                        then do {
                          (b, isz, _) \<leftarrow> isz_call b isz (\<lambda>b isz. isz_client_send_surface_set_plane_type b isz (xw_isz_surface_id win) 0);
                          (b, isz, _) \<leftarrow> isz_call b isz (\<lambda>b isz. isz_client_send_surface_set_plane_slot b isz (xw_isz_surface_id win) 0);
                          Some (b, isz)
                        }
                        else Some (b, isz));
           (b, isz, _) \<leftarrow> isz_call b isz (\<lambda>b isz. isz_client_send_surface_set_output b isz (xw_isz_surface_id win) (il_output_id isz));
           (b, isz, _) \<leftarrow> isz_call b isz (\<lambda>b isz. isz_client_send_commit_flags b isz (il_output_id isz) 0);
           Some (b, win\<lparr>xw_has_output := True\<rparr>)
         })"

definition translation_on_x11_unmap_window :: "bridge \<Rightarrow> x11_window \<Rightarrow> (bridge \<times> x11_window) option" where
  "translation_on_x11_unmap_window b win = (case br_isz b of
       None \<Rightarrow> Some (b, win)
     | Some isz \<Rightarrow>
         if \<not> xw_has_surface win \<or> \<not> xw_has_output win then Some (b, win)
         else do {
           (b, isz, _) \<leftarrow> isz_call b isz (\<lambda>b isz. isz_client_send_surface_clear_output b isz (xw_isz_surface_id win));
           (b, isz, _) \<leftarrow> isz_call b isz (\<lambda>b isz. isz_client_send_commit_flags b isz (il_output_id isz) 0);
           Some (b, win\<lparr>xw_has_output := False\<rparr>)
         })"

definition translation_on_x11_configure_window ::
    "bridge \<Rightarrow> x11_window \<Rightarrow> int \<Rightarrow> int \<Rightarrow> int \<Rightarrow> int \<Rightarrow> bridge option" where
  "translation_on_x11_configure_window b win x y w h = (case br_isz b of
       None \<Rightarrow> Some b
     | Some isz \<Rightarrow>
         if \<not> xw_has_surface win then Some b
         else do {
           (b, isz, _) \<leftarrow> isz_call b isz (\<lambda>b isz. isz_client_send_surface_set_position b isz (xw_isz_surface_id win) x y);
           (b, isz, _) \<leftarrow> isz_call b isz (\<lambda>b isz. isz_client_send_surface_set_size b isz (xw_isz_surface_id win) w h);
           (if xw_has_output win
            then do {
              (b, isz, _) \<leftarrow> isz_call b isz (\<lambda>b isz. isz_client_send_commit_flags b isz (il_output_id isz) 0);
              Some b
            }
            else Some b)
         })"

definition translation_on_x11_destroy_window :: "bridge \<Rightarrow> x11_window \<Rightarrow> (bridge \<times> x11_window) option" where
  "translation_on_x11_destroy_window b win = (case br_isz b of
       None \<Rightarrow> Some (b, win)
     | Some isz \<Rightarrow>
         if \<not> xw_has_surface win then Some (b, win)
         else do {
           (b, isz, _) \<leftarrow> isz_call b isz (\<lambda>b isz. isz_client_send_surface_destroy b isz (xw_isz_surface_id win));
           Some (b, win\<lparr>xw_has_surface := False, xw_has_output := False\<rparr>)
         })"

section \<open>Events to X11 clients\<close>

definition find_win :: "x11_client \<Rightarrow> u32 \<Rightarrow> nat option" where
  "find_win xc xid = find_slot (\<lambda>w. xw_x11_id w = xid) (xc_windows xc)"

definition translation_deliver_event :: "bridge \<Rightarrow> x11_client \<Rightarrow> u8 list \<Rightarrow> u32 \<Rightarrow> u32 \<Rightarrow> (bridge \<times> bool) option" where
  "translation_deliver_event b xc evt32 required_mask event_window_xid =
     (case find_win xc event_window_xid of
        None \<Rightarrow> Some (b, True)
      | Some i \<Rightarrow> do {
          win \<leftarrow> window_at xc i;
          (if required_mask \<noteq> 0 \<and> xw_event_mask win AND required_mask = 0 then Some (b, True)
           else x11_client_send_event b xc evt32)
        })"

text \<open>The index of the first client with a mapped window, and the window.\<close>

fun find_target :: "x11_client option list \<Rightarrow> (nat \<times> nat) option" where
  "find_target [] = None"
| "find_target (c # cs) =
     (case (case c of None \<Rightarrow> None | Some xc \<Rightarrow> x11_client_first_mapped xc) of
        Some w \<Rightarrow> Some (0, w)
      | None \<Rightarrow> map_option (\<lambda>(i, w). (Suc i, w)) (find_target cs))"

text \<open>The fields of \<^verbatim>\<open>struct x11_event_32\<close> are at the offsets of the struct.\<close>

definition fill_input_event :: "x11_client \<Rightarrow> x11_window \<Rightarrow> u8 \<Rightarrow> u8 \<Rightarrow> (x11_client \<times> u8 list) option" where
  "fill_input_event xc win code detail = (case x11_client_next_sequence xc of (xc, seq) \<Rightarrow> do {
     ev \<leftarrow> put_u8 (replicate 32 0) 0 code;
     ev \<leftarrow> put_u8 ev 1 detail;
     ev \<leftarrow> x11_put_u16 ev 2 seq (xc_byte_order xc);
     ev \<leftarrow> x11_put_u32 ev 8 X11_ROOT_WINDOW_ID (xc_byte_order xc);
     ev \<leftarrow> x11_put_u32 ev 12 (xw_x11_id win) (xc_byte_order xc);
     ev \<leftarrow> x11_put_u32 ev 16 0 (xc_byte_order xc);
     ev \<leftarrow> x11_put_u16 ev 20 (word_of_int (xw_w win)) (xc_byte_order xc);
     ev \<leftarrow> x11_put_u16 ev 22 (word_of_int (xw_h win)) (xc_byte_order xc);
     ev \<leftarrow> x11_put_u16 ev 24 (word_of_int (xw_w win)) (xc_byte_order xc);
     ev \<leftarrow> x11_put_u16 ev 26 (word_of_int (xw_h win)) (xc_byte_order xc);
     ev \<leftarrow> put_u8 ev 30 1;
     Some (xc, ev)
   })"

text \<open>Forwarding an input event: the three functions differ in the event and in what they write into it afterwards.\<close>

definition forward_input ::
    "bridge \<Rightarrow> x11_client option list \<Rightarrow> u8 \<Rightarrow> u8 \<Rightarrow> (x11_client \<Rightarrow> u8 list \<Rightarrow> u8 list option) \<Rightarrow> (bridge \<times> x11_client option list \<times> bool) option" where
  "forward_input b clients code detail edit =
     (case find_target clients of
        None \<Rightarrow> Some (b, clients, False)
      | Some (i, j) \<Rightarrow> do {
          xc \<leftarrow> clients ! i;
          win \<leftarrow> window_at xc j;
          (xc, ev) \<leftarrow> fill_input_event xc win code detail;
          ev \<leftarrow> edit xc ev;
          (b, ok) \<leftarrow> x11_client_send_event b xc ev;
          Some (b, clients[i := Some xc], ok)
        })"

definition translation_forward_keyboard_key ::
    "bridge \<Rightarrow> x11_client option list \<Rightarrow> u32 \<Rightarrow> bool \<Rightarrow> (bridge \<times> x11_client option list \<times> bool) option" where
  "translation_forward_keyboard_key b clients keycode pressed =
     forward_input b clients (if pressed then X11_EV_KEY_PRESS else X11_EV_KEY_RELEASE) (ucast (keycode AND 0xff)) (\<lambda>xc ev. Some ev)"

definition translation_forward_pointer_motion ::
    "bridge \<Rightarrow> x11_client option list \<Rightarrow> int \<Rightarrow> int \<Rightarrow> (bridge \<times> x11_client option list \<times> bool) option" where
  "translation_forward_pointer_motion b clients x y =
     forward_input b clients X11_EV_MOTION_NOTIFY 0 (\<lambda>xc ev. do {
       ev \<leftarrow> x11_put_u16 ev 20 (word_of_int x) (xc_byte_order xc);
       ev \<leftarrow> x11_put_u16 ev 22 (word_of_int y) (xc_byte_order xc);
       ev \<leftarrow> x11_put_u16 ev 24 (word_of_int x) (xc_byte_order xc);
       x11_put_u16 ev 26 (word_of_int y) (xc_byte_order xc)
     })"

definition translation_forward_pointer_button ::
    "bridge \<Rightarrow> x11_client option list \<Rightarrow> u32 \<Rightarrow> bool \<Rightarrow> (bridge \<times> x11_client option list \<times> bool) option" where
  "translation_forward_pointer_button b clients button pressed =
     forward_input b clients (if pressed then X11_EV_BUTTON_PRESS else X11_EV_BUTTON_RELEASE) (ucast (button AND 0xff)) (\<lambda>xc ev. Some ev)"

end
