(* ===== verification/X11_Window_Requests.thy ===== *)
theory X11_Window_Requests
  imports X11_Client
begin

text \<open>
  The request handlers for windows, atoms, properties, selections and focus (\<^verbatim>\<open>x11_client_dispatch_request\<close> in \<^verbatim>\<open>x11bridge/x11_client.c\<close>). A handler is one case of the switch. The request starts at offset
  \<open>p\<close> of the receive buffer and has \<open>tot\<close> bytes; \<open>data\<close> is its second byte and \<open>seq\<close> its sequence number. The last result is whether the client is kept: \<open>False\<close> stands for the return value -1. A read
  beyond the end of the receive buffer is undefined.
\<close>

unbundle bit_operations_syntax

type_synonym handled = "(bridge \<times> x11_client \<times> bool) option"

abbreviation (input) "X11_ERR_VALUE \<equiv> (2 :: u8)"
abbreviation (input) "X11_ERR_WINDOW \<equiv> (3 :: u8)"
abbreviation (input) "X11_ERR_PIXMAP \<equiv> (4 :: u8)"
abbreviation (input) "X11_ERR_ATOM \<equiv> (5 :: u8)"
abbreviation (input) "X11_ERR_CURSOR \<equiv> (6 :: u8)"
abbreviation (input) "X11_ERR_FONT \<equiv> (7 :: u8)"
abbreviation (input) "X11_ERR_MATCH \<equiv> (8 :: u8)"
abbreviation (input) "X11_ERR_DRAWABLE \<equiv> (9 :: u8)"
abbreviation (input) "X11_ERR_ALLOC \<equiv> (11 :: u8)"
abbreviation (input) "X11_ERR_COLORMAP \<equiv> (12 :: u8)"
abbreviation (input) "X11_ERR_GCONTEXT \<equiv> (13 :: u8)"
abbreviation (input) "X11_ERR_IDCHOICE \<equiv> (14 :: u8)"
abbreviation (input) "X11_ERR_NAME \<equiv> (15 :: u8)"
abbreviation (input) "X11_ERR_LENGTH \<equiv> (16 :: u8)"

abbreviation (input) "X11_EVMASK_EXPOSURE \<equiv> (0x8000 :: u32)"
abbreviation (input) "X11_EVMASK_STRUCTURE_NOTIFY \<equiv> (0x20000 :: u32)"
abbreviation (input) "X11_EVMASK_PROPERTY_CHANGE \<equiv> (0x400000 :: u32)"

section \<open>Reading requests and answering them\<close>

abbreviation (input) "rd8 c off \<equiv> (if off < length (xc_buf c) then Some (xc_buf c ! off) else None)"
abbreviation (input) "rd16 c off \<equiv> x11_get_u16 (xc_buf c) off (xc_byte_order c)"
abbreviation (input) "rd32 c off \<equiv> x11_get_u32 (xc_buf c) off (xc_byte_order c)"

text \<open>The bytes of the request from an offset, for \<^verbatim>\<open>memcpy\<close>.\<close>

definition rd_bytes :: "x11_client \<Rightarrow> nat \<Rightarrow> nat \<Rightarrow> u8 list option" where
  "rd_bytes c off n = (if off + n \<le> length (xc_buf c) then Some (take n (drop off (xc_buf c))) else None)"

text \<open>\<^verbatim>\<open>x11_client_send_error(...); break;\<close>\<close>

definition bad :: "bridge \<Rightarrow> x11_client \<Rightarrow> u8 \<Rightarrow> u32 \<Rightarrow> u8 \<Rightarrow> handled" where
  "bad b c code bad_value opcode = do { (b, _) \<leftarrow> x11_client_send_error b c code bad_value opcode 0; Some (b, c, True) }"

text \<open>Sending a reply that a builder wrote; a failed send ends the client.\<close>

definition send_reply :: "bridge \<Rightarrow> x11_client \<Rightarrow> (u8 list option \<times> nat) option \<Rightarrow> handled" where
  "send_reply b c built = do {
     (reply, rlen) \<leftarrow> built;
     reply \<leftarrow> reply;
     (b, ok) \<leftarrow> x11_client_send_raw b c reply rlen;
     Some (b, c, ok)
   }"

text \<open>Delivering an event that a builder wrote; its result is ignored.\<close>

definition deliver :: "bridge \<Rightarrow> x11_client \<Rightarrow> (u8 list option \<times> nat) option \<Rightarrow> u32 \<Rightarrow> u32 \<Rightarrow> bridge option" where
  "deliver b c built required_mask xid = do {
     (evt, _) \<leftarrow> built;
     evt \<leftarrow> evt;
     (b, _) \<leftarrow> translation_deliver_event b c evt required_mask xid;
     Some b
   }"

text \<open>The look-up of a window that most handlers begin with.\<close>

definition with_window :: "bridge \<Rightarrow> x11_client \<Rightarrow> u8 \<Rightarrow> u8 \<Rightarrow> u32 \<Rightarrow> (nat \<Rightarrow> x11_window \<Rightarrow> handled) \<Rightarrow> handled" where
  "with_window b c opcode err wid f =
     (case x11_client_find_window c wid of
        None \<Rightarrow> bad b c err wid opcode
      | Some i \<Rightarrow> do { win \<leftarrow> window_at c i; f i win })"

section \<open>Windows\<close>

definition req_create_window :: "bridge \<Rightarrow> x11_client \<Rightarrow> nat \<Rightarrow> nat \<Rightarrow> u8 \<Rightarrow> u16 \<Rightarrow> handled" where
  "req_create_window b c p tot data seq =
     (let payload_len = tot - 4
      in if payload_len < 24 then bad b c X11_ERR_LENGTH 0 1
         else do {
           wid \<leftarrow> rd32 c (p + 4);
           parent \<leftarrow> rd32 c (p + 8);
           x \<leftarrow> rd16 c (p + 12);
           y \<leftarrow> rd16 c (p + 14);
           w \<leftarrow> rd16 c (p + 16);
           h \<leftarrow> rd16 c (p + 18);
           border \<leftarrow> rd16 c (p + 20);
           cls \<leftarrow> rd16 c (p + 22);
           visual \<leftarrow> rd32 c (p + 24);
           vmask \<leftarrow> rd32 c (p + 28);
           (if cls > 2 then bad b c X11_ERR_VALUE (ucast cls) 1
            else do {
              (tmp, ok) \<leftarrow> parse_window_value_list (xc_buf c) (p + 32) (if payload_len > 28 then payload_len - 28 else 0) vmask (xc_byte_order c)
                             (zero_window\<lparr>xw_depth := data, xw_window_class := ucast cls, xw_visual_id := visual, xw_parent_xid := parent,
                                          xw_border_width := border, xw_win_gravity := 1, xw_backing_planes := 0xFFFFFFFF\<rparr>);
              (if \<not> ok then bad b c X11_ERR_LENGTH 0 1
               else if x11_client_find_window c wid \<noteq> None then bad b c X11_ERR_IDCHOICE wid 1
               else case x11_client_new_window c wid of
                      (c, None) \<Rightarrow> bad b c X11_ERR_ALLOC 0 1
                    | (c, Some i) \<Rightarrow> do {
                        win \<leftarrow> window_at c i;
                        let win = win\<lparr>xw_depth := xw_depth tmp, xw_window_class := xw_window_class tmp, xw_visual_id := xw_visual_id tmp,
                              xw_parent_xid := xw_parent_xid tmp, xw_border_width := xw_border_width tmp, xw_event_mask := xw_event_mask tmp,
                              xw_override_redirect := xw_override_redirect tmp, xw_cursor_xid := xw_cursor_xid tmp,
                              xw_bit_gravity := xw_bit_gravity tmp, xw_win_gravity := xw_win_gravity tmp,
                              xw_backing_store := xw_backing_store tmp, xw_backing_planes := xw_backing_planes tmp,
                              xw_backing_pixel := xw_backing_pixel tmp, xw_background_pixel := xw_background_pixel tmp,
                              xw_colormap := xw_colormap tmp, xw_save_under := xw_save_under tmp,
                              xw_do_not_propagate_mask := xw_do_not_propagate_mask tmp,
                              xw_x := sint x, xw_y := sint y, xw_w := uint w, xw_h := uint h\<rparr>;
                        (if parent = X11_ROOT_WINDOW_ID
                         then do {
                           (b, win) \<leftarrow> translation_on_x11_create_window b win (sint x) (sint y) (uint w) (uint h);
                           Some (b, upd_window c i (Some win), True)
                         }
                         else Some (b, upd_window c i (Some win), True))
                      })
            })
         })"

definition req_change_window_attrs :: "bridge \<Rightarrow> x11_client \<Rightarrow> nat \<Rightarrow> nat \<Rightarrow> handled" where
  "req_change_window_attrs b c p tot =
     (let payload_len = tot - 4
      in if payload_len < 8 then bad b c X11_ERR_LENGTH 0 2
         else do {
           wid \<leftarrow> rd32 c (p + 4);
           vmask \<leftarrow> rd32 c (p + 8);
           with_window b c 2 X11_ERR_WINDOW wid (\<lambda>i win. do {
             (win, ok) \<leftarrow> parse_window_value_list (xc_buf c) (p + 12) (if payload_len > 8 then payload_len - 8 else 0) vmask (xc_byte_order c) win;
             (let c = upd_window c i (Some win)
              in if \<not> ok then bad b c X11_ERR_LENGTH 0 2 else Some (b, c, True))
           })
         })"

definition req_get_geometry :: "bridge \<Rightarrow> x11_client \<Rightarrow> nat \<Rightarrow> nat \<Rightarrow> u16 \<Rightarrow> handled" where
  "req_get_geometry b c p tot seq =
     (if tot - 4 < 4 then bad b c X11_ERR_LENGTH 0 14
      else do {
        did \<leftarrow> rd32 c (p + 4);
        with_window b c 14 X11_ERR_DRAWABLE did (\<lambda>i win.
          let root_xid = (if xw_parent_xid win = X11_ROOT_WINDOW_ID then X11_ROOT_WINDOW_ID else xw_parent_xid win)
          in send_reply b c (x11_build_get_geometry_reply (Some (replicate 32 0)) (xw_depth win) root_xid (xw_x win) (xw_y win)
               (word_of_int (xw_w win)) (word_of_int (xw_h win)) (xw_border_width win) seq (xc_byte_order c)))
      })"

definition req_map_window :: "bridge \<Rightarrow> x11_client \<Rightarrow> nat \<Rightarrow> nat \<Rightarrow> u16 \<Rightarrow> handled" where
  "req_map_window b c p tot seq =
     (if tot - 4 < 4 then bad b c X11_ERR_LENGTH 0 8
      else do {
        window \<leftarrow> rd32 c (p + 4);
        with_window b c 8 X11_ERR_WINDOW window (\<lambda>i win.
          if xw_mapped win then Some (b, c, True)
          else do {
            (b, win) \<leftarrow> translation_on_x11_map_window b (win\<lparr>xw_mapped := True\<rparr>);
            let c = upd_window c i (Some win);
            b \<leftarrow> deliver b c (x11_build_map_notify (Some (replicate 32 0)) (xw_x11_id win) (xw_x11_id win) (xw_override_redirect win) seq (xc_byte_order c))
                   X11_EVMASK_STRUCTURE_NOTIFY (xw_x11_id win);
            Some (b, c, True)
          })
      })"

definition req_unmap_window :: "bridge \<Rightarrow> x11_client \<Rightarrow> nat \<Rightarrow> nat \<Rightarrow> u16 \<Rightarrow> handled" where
  "req_unmap_window b c p tot seq =
     (if tot - 4 < 4 then bad b c X11_ERR_LENGTH 0 10
      else do {
        window \<leftarrow> rd32 c (p + 4);
        with_window b c 10 X11_ERR_WINDOW window (\<lambda>i win.
          if \<not> xw_mapped win then Some (b, c, True)
          else do {
            (b, win) \<leftarrow> translation_on_x11_unmap_window b (win\<lparr>xw_mapped := False\<rparr>);
            let c = upd_window c i (Some win);
            b \<leftarrow> deliver b c (x11_build_unmap_notify (Some (replicate 32 0)) (xw_x11_id win) (xw_x11_id win) False seq (xc_byte_order c))
                   X11_EVMASK_STRUCTURE_NOTIFY (xw_x11_id win);
            (case br_isz b of
               Some isz \<Rightarrow>
                 if xw_has_surface win
                 then do {
                   (b, _, _) \<leftarrow> isz_call b isz (\<lambda>b isz. isz_client_send_seat_set_keyboard_focus b isz (il_seat_id isz) 0);
                   Some (b, c, True)
                 }
                 else Some (b, c, True)
             | None \<Rightarrow> Some (b, c, True))
          })
      })"

text \<open>The values of \<^verbatim>\<open>ConfigureWindow\<close> in the order of the array \<^verbatim>\<open>bits\<close>. The border width is a 16-bit variable that the code writes through a pointer to 32 bits, which is undefined.\<close>

record cfg =
  cf_x :: int
  cf_y :: int
  cf_w :: int
  cf_h :: int
  cf_stack :: "u8 option"

definition cfg_value :: "cfg \<Rightarrow> nat \<Rightarrow> u32 \<Rightarrow> cfg option" where
  "cfg_value f n v =
     (if n = 0 then Some (f\<lparr>cf_x := sint v\<rparr>)
      else if n = 1 then Some (f\<lparr>cf_y := sint v\<rparr>)
      else if n = 2 then Some (f\<lparr>cf_w := sint v\<rparr>)
      else if n = 3 then Some (f\<lparr>cf_h := sint v\<rparr>)
      else if n = 4 then None
      else if n = 5 then Some f
      else Some (f\<lparr>cf_stack := Some (ucast v)\<rparr>))"

fun cfg_values :: "nat list \<Rightarrow> x11_client \<Rightarrow> nat \<Rightarrow> nat \<Rightarrow> u16 \<Rightarrow> cfg \<Rightarrow> cfg option" where
  "cfg_values [] c vp remaining mask' f = Some f"
| "cfg_values (n # ns) c vp remaining mask' f =
     (if mask' AND push_bit n 1 = 0 then cfg_values ns c vp remaining mask' f
      else if remaining < 4 then Some f
      else do {
        v \<leftarrow> rd32 c vp;
        f \<leftarrow> cfg_value f n v;
        cfg_values ns c (vp + 4) (remaining - 4) mask' f
      })"

text \<open>The new stacking position; arithmetic on \<^verbatim>\<open>int32_t\<close> that overflows is undefined.\<close>

definition i32 :: "int \<Rightarrow> int option" where
  "i32 v = (if is_i32 v then Some v else None)"

definition stack_zpos :: "int \<Rightarrow> u8 \<Rightarrow> int option" where
  "stack_zpos zpos stack_mode =
     (if stack_mode = 0 then i32 (zpos + 1)
      else if stack_mode = 1 then i32 (zpos - 1)
      else if stack_mode = 2 then Some (2 ^ 31 - 1)
      else if stack_mode = 3 then Some (- (2 ^ 31))
      else if stack_mode = 4 then i32 (- zpos)
      else Some zpos)"

definition restack :: "bridge \<Rightarrow> x11_window \<Rightarrow> u8 option \<Rightarrow> (bridge \<times> x11_window) option" where
  "restack b win stack =
     (case (stack, br_isz b) of
        (Some stack_mode, Some isz) \<Rightarrow>
          if xw_has_surface win
          then do {
            new_zpos \<leftarrow> stack_zpos (xw_zpos win) stack_mode;
            (if new_zpos \<noteq> xw_zpos win
             then do {
               (b, _, _) \<leftarrow> isz_call b isz (\<lambda>b isz. isz_client_send_surface_set_zpos b isz (xw_isz_surface_id win) new_zpos);
               Some (b, win\<lparr>xw_zpos := new_zpos\<rparr>)
             }
             else Some (b, win))
          }
          else Some (b, win)
      | _ \<Rightarrow> Some (b, win))"

definition req_configure_window :: "bridge \<Rightarrow> x11_client \<Rightarrow> nat \<Rightarrow> nat \<Rightarrow> u16 \<Rightarrow> handled" where
  "req_configure_window b c p tot seq =
     (if tot - 4 < 8 then bad b c X11_ERR_LENGTH 0 12
      else do {
        window \<leftarrow> rd32 c (p + 4);
        with_window b c 12 X11_ERR_WINDOW window (\<lambda>i win. do {
          mask' \<leftarrow> rd16 c (p + 8);
          f \<leftarrow> cfg_values [0..<7] c (p + 12) (tot - 4 - 8) mask'
                 \<lparr>cf_x = xw_x win, cf_y = xw_y win, cf_w = xw_w win, cf_h = xw_h win, cf_stack = None\<rparr>;
          let win = win\<lparr>xw_x := cf_x f, xw_y := cf_y f, xw_w := cf_w f, xw_h := cf_h f\<rparr>;
          (b, win) \<leftarrow> restack b win (cf_stack f);
          b \<leftarrow> translation_on_x11_configure_window b win (cf_x f) (cf_y f) (cf_w f) (cf_h f);
          let c = upd_window c i (Some win);
          b \<leftarrow> deliver b c (x11_build_configure_notify (Some (replicate 32 0)) (xw_x11_id win) (xw_x11_id win) 0 (cf_x f) (cf_y f)
                 (word_of_int (cf_w f)) (word_of_int (cf_h f)) (xw_border_width win) (xw_override_redirect win) seq (xc_byte_order c))
                 X11_EVMASK_STRUCTURE_NOTIFY (xw_x11_id win);
          Some (b, c, True)
        })
      })"

text \<open>Taking a window down: its surface, properties and image go, and its entry is free.\<close>

definition destroy_entry :: "bridge \<Rightarrow> x11_client \<Rightarrow> nat \<Rightarrow> x11_window \<Rightarrow> (bridge \<times> x11_client) option" where
  "destroy_entry b c i win = do {
     (b, win) \<leftarrow> translation_on_x11_destroy_window b win;
     let win = x11_window_backing_image_clear (x11_window_props_destroy win);
     Some (b, upd_window c i None)
   }"

text \<open>One pass over the table destroys the windows whose parent is \<open>window\<close>; passes are repeated until one changes nothing.\<close>

fun destroy_pass :: "nat list \<Rightarrow> bridge \<Rightarrow> x11_client \<Rightarrow> u32 \<Rightarrow> bool \<Rightarrow> (bridge \<times> x11_client \<times> bool) option" where
  "destroy_pass [] b c window changed = Some (b, c, changed)"
| "destroy_pass (i # is) b c window changed =
     (case window_at c i of
        None \<Rightarrow> destroy_pass is b c window changed
      | Some cw \<Rightarrow>
          if xw_parent_xid cw = window
          then do { (b, c) \<leftarrow> destroy_entry b c i cw; destroy_pass is b c window True }
          else destroy_pass is b c window changed)"

partial_function (option) destroy_children :: "bridge \<Rightarrow> x11_client \<Rightarrow> u32 \<Rightarrow> (bridge \<times> x11_client) option" where
  "destroy_children b c window = do {
     (b, c, changed) \<leftarrow> destroy_pass [0..<X11_CLIENT_MAX_WIN] b c window False;
     (if changed then destroy_children b c window else Some (b, c))
   }"

definition req_destroy_window :: "bridge \<Rightarrow> x11_client \<Rightarrow> nat \<Rightarrow> nat \<Rightarrow> u16 \<Rightarrow> handled" where
  "req_destroy_window b c p tot seq =
     (if tot - 4 < 4 then bad b c X11_ERR_LENGTH 0 4
      else do {
        window \<leftarrow> rd32 c (p + 4);
        with_window b c 4 X11_ERR_WINDOW window (\<lambda>i win. do {
          b \<leftarrow> deliver b c (x11_build_destroy_notify (Some (replicate 32 0)) (xw_x11_id win) (xw_x11_id win) seq (xc_byte_order c))
                 X11_EVMASK_STRUCTURE_NOTIFY (xw_x11_id win);
          (b, c) \<leftarrow> destroy_entry b c i win;
          (b, c) \<leftarrow> destroy_children b c window;
          Some (b, c, True)
        })
      })"

definition req_get_window_attrs :: "bridge \<Rightarrow> x11_client \<Rightarrow> nat \<Rightarrow> nat \<Rightarrow> u16 \<Rightarrow> handled" where
  "req_get_window_attrs b c p tot seq =
     (if tot - 4 < 4 then bad b c X11_ERR_LENGTH 0 3
      else do {
        wid \<leftarrow> rd32 c (p + 4);
        with_window b c 3 X11_ERR_WINDOW wid (\<lambda>i win.
          send_reply b c (x11_build_get_window_attributes_reply (Some (replicate 44 0)) (xw_backing_store win) (xw_visual_id win)
            (ucast (xw_window_class win)) (xw_bit_gravity win) (xw_win_gravity win) (xw_backing_planes win) (xw_backing_pixel win)
            (xw_override_redirect win) (xw_save_under win) (if xw_mapped win then 2 else 0) (xw_mapped win) (xw_colormap win)
            (xw_event_mask win) (xw_event_mask win) (xw_do_not_propagate_mask win) seq (xc_byte_order c)))
      })"

definition children_of :: "x11_client \<Rightarrow> u32 \<Rightarrow> u32 list" where
  "children_of c wid = [xw_x11_id win. Some win \<leftarrow> xc_windows c, xw_parent_xid win = wid]"

definition req_query_tree :: "bridge \<Rightarrow> x11_client \<Rightarrow> nat \<Rightarrow> nat \<Rightarrow> u16 \<Rightarrow> handled" where
  "req_query_tree b c p tot seq =
     (if tot - 4 < 4 then bad b c X11_ERR_LENGTH 0 15
      else do {
        wid \<leftarrow> rd32 c (p + 4);
        let answer = (\<lambda>parent_xid. let children = children_of c wid
              in send_reply b c (x11_build_query_tree_reply (Some (replicate (32 + 4 * X11_CLIENT_MAX_WIN) 0)) (32 + 4 * X11_CLIENT_MAX_WIN)
                   X11_ROOT_WINDOW_ID parent_xid children (of_nat (length children)) seq (xc_byte_order c)));
        (if wid = X11_ROOT_WINDOW_ID then answer 0
         else with_window b c 15 X11_ERR_WINDOW wid (\<lambda>i win. answer (xw_parent_xid win)))
      })"

section \<open>Atoms\<close>

definition req_intern_atom :: "bridge \<Rightarrow> x11_client \<Rightarrow> nat \<Rightarrow> nat \<Rightarrow> u8 \<Rightarrow> u16 \<Rightarrow> handled" where
  "req_intern_atom b c p tot data seq =
     (if tot - 4 < 4 then bad b c X11_ERR_LENGTH 0 16
      else do {
        name_len \<leftarrow> rd16 c (p + 4);
        (if unat name_len > tot - 4 - 4 then bad b c X11_ERR_LENGTH 0 16
         else do {
           name \<leftarrow> rd_bytes c (p + 8) (unat name_len);
           (case x11_atom_intern b name (data \<noteq> 0) of (b, atom) \<Rightarrow>
              send_reply b c (x11_build_intern_atom_reply (Some (replicate 32 0)) atom seq (xc_byte_order c)))
         })
      })"

definition req_get_atom_name :: "bridge \<Rightarrow> x11_client \<Rightarrow> nat \<Rightarrow> nat \<Rightarrow> u16 \<Rightarrow> handled" where
  "req_get_atom_name b c p tot seq =
     (if tot - 4 < 4 then bad b c X11_ERR_LENGTH 0 17
      else do {
        atom \<leftarrow> rd32 c (p + 4);
        (if atom = 0 then bad b c X11_ERR_ATOM atom 17
         else case x11_atom_get_name b atom (replicate 256 0) of (namebuf, name_len) \<Rightarrow>
                if name_len = 0 then bad b c X11_ERR_ATOM atom 17
                else let name_len = (if name_len > 65535 then 65535 else name_len)
                     in send_reply b c (x11_build_get_atom_name_reply (Some (replicate 292 0)) 292 (Some namebuf) (of_nat name_len) seq (xc_byte_order c)))
      })"


section \<open>Properties\<close>

definition set_prop :: "x11_window \<Rightarrow> nat \<Rightarrow> x11_property \<Rightarrow> x11_window" where
  "set_prop win j pr = win\<lparr>xw_props := (xw_props win)[j := Some pr]\<rparr>"

definition prop_at :: "x11_window \<Rightarrow> nat \<Rightarrow> x11_property option" where
  "prop_at win j = (if j < length (xw_props win) then xw_props win ! j else None)"

text \<open>Writing the slot \<open>j\<close>, which is empty when \<open>old\<close> is \<open>None\<close>. The result is the window and the error to send, if any.\<close>

definition write_property ::
    "bridge \<Rightarrow> x11_window \<Rightarrow> nat \<Rightarrow> x11_property option \<Rightarrow> u8 \<Rightarrow> u32 \<Rightarrow> u32 \<Rightarrow> u8 \<Rightarrow> u8 list \<Rightarrow> bridge \<times> x11_window \<times> (u8 \<times> u32) option" where
  "write_property b win j old mode prop type fmt bytes =
     (case (if mode = 0 then None else old) of
        None \<Rightarrow>
          let win = x11_window_prop_clear win j;
              win' = set_prop win j \<lparr>pr_property = prop, pr_type = type, pr_format = fmt, pr_value = bytes\<rparr>
          in if bytes = [] then (b, win', None)
             else (case k_alloc b of
                     (b, False) \<Rightarrow> (b, win, Some (X11_ERR_ALLOC, 0))
                   | (b, True) \<Rightarrow> (b, win', None))
      | Some slot \<Rightarrow>
          if mode = 1 \<or> mode = 2
          then if pr_type slot \<noteq> type \<or> pr_format slot \<noteq> fmt then (b, win, Some (X11_ERR_MATCH, 0))
               else
                 let new_len = length (pr_value slot) + length bytes
                 in if new_len > X11_PROP_MAX_BYTES then (b, win, Some (X11_ERR_ALLOC, 0))
                    else (case k_alloc b of (b, grown) \<Rightarrow>
                            if \<not> grown \<and> new_len > 0 then (b, win, Some (X11_ERR_ALLOC, 0))
                            else (b, set_prop win j (slot\<lparr>pr_value := (if mode = 1 then bytes @ pr_value slot else pr_value slot @ bytes)\<rparr>), None))
          else (b, win, Some (X11_ERR_VALUE, ucast mode)))"

definition store_property ::
    "bridge \<Rightarrow> x11_client \<Rightarrow> nat \<Rightarrow> x11_window \<Rightarrow> nat \<Rightarrow> u8 \<Rightarrow> u32 \<Rightarrow> u32 \<Rightarrow> u8 \<Rightarrow> u8 list \<Rightarrow> u16 \<Rightarrow> handled" where
  "store_property b c i win j mode prop type fmt bytes seq =
     (case write_property b win j (prop_at win j) mode prop type fmt bytes of (b, win, err) \<Rightarrow>
        let c = upd_window c i (Some win)
        in case err of
             Some (code, v) \<Rightarrow> bad b c code v 18
           | None \<Rightarrow> do {
               b \<leftarrow> deliver b c (x11_build_property_notify (Some (replicate 32 0)) (xw_x11_id win) prop 0 0 seq (xc_byte_order c))
                      X11_EVMASK_PROPERTY_CHANGE (xw_x11_id win);
               Some (b, c, True)
             })"

definition req_change_property :: "bridge \<Rightarrow> x11_client \<Rightarrow> nat \<Rightarrow> nat \<Rightarrow> u8 \<Rightarrow> u16 \<Rightarrow> handled" where
  "req_change_property b c p tot data seq =
     (if tot - 4 < 20 then bad b c X11_ERR_LENGTH 0 18
      else do {
        wid \<leftarrow> rd32 c (p + 4);
        prop \<leftarrow> rd32 c (p + 8);
        type \<leftarrow> rd32 c (p + 12);
        fmt \<leftarrow> rd8 c (p + 16);
        nunits \<leftarrow> rd32 c (p + 20);
        (let data_bytes = unat nunits * (unat fmt div 8)
         in if fmt \<noteq> 8 \<and> fmt \<noteq> 16 \<and> fmt \<noteq> 32 then bad b c X11_ERR_VALUE (ucast fmt) 18
            else if prop = 0 then bad b c X11_ERR_ATOM prop 18
            else if data_bytes > tot - 4 - 20 then bad b c X11_ERR_LENGTH 0 18
            else if data_bytes > X11_PROP_MAX_BYTES then bad b c X11_ERR_ALLOC 0 18
            else with_window b c 18 X11_ERR_WINDOW wid (\<lambda>i win.
                   case (case x11_window_prop_find win prop of Some j \<Rightarrow> Some j | None \<Rightarrow> x11_window_prop_alloc win) of
                     None \<Rightarrow> bad b c X11_ERR_ALLOC 0 18
                   | Some j \<Rightarrow> do {
                       bytes \<leftarrow> rd_bytes c (p + 24) data_bytes;
                       store_property b c i win j data prop type fmt bytes seq
                     }))
      })"

text \<open>Removing a property and telling the client.\<close>

definition delete_prop :: "bridge \<Rightarrow> x11_client \<Rightarrow> nat \<Rightarrow> x11_window \<Rightarrow> nat \<Rightarrow> u32 \<Rightarrow> u16 \<Rightarrow> (bridge \<times> x11_client) option" where
  "delete_prop b c i win j prop seq =
     (let c = upd_window c i (Some (x11_window_prop_clear win j))
      in do {
        b \<leftarrow> deliver b c (x11_build_property_notify (Some (replicate 32 0)) (xw_x11_id win) prop 0 1 seq (xc_byte_order c))
               X11_EVMASK_PROPERTY_CHANGE (xw_x11_id win);
        Some (b, c)
      })"

definition req_get_property :: "bridge \<Rightarrow> x11_client \<Rightarrow> nat \<Rightarrow> nat \<Rightarrow> u8 \<Rightarrow> u16 \<Rightarrow> handled" where
  "req_get_property b c p tot data seq =
     (if tot - 4 < 20 then bad b c X11_ERR_LENGTH 0 20
      else do {
        wid \<leftarrow> rd32 c (p + 4);
        prop \<leftarrow> rd32 c (p + 8);
        type \<leftarrow> rd32 c (p + 12);
        loff \<leftarrow> rd32 c (p + 16);
        llen \<leftarrow> rd32 c (p + 20);
        with_window b c 20 X11_ERR_WINDOW wid (\<lambda>i win.
          let missing = send_reply b c (x11_build_get_property_reply (Some (replicate 32 0)) 32 0 0 0 0 None 0 seq (xc_byte_order c))
          in case x11_window_prop_find win prop of
               None \<Rightarrow> missing
             | Some j \<Rightarrow> do {
                 slot \<leftarrow> prop_at win j;
                 (if type \<noteq> 0 \<and> pr_type slot \<noteq> type then missing
                  else
                    let offset_bytes = unat loff * 4;
                        max_bytes = unat llen * 4;
                        total_bytes = length (pr_value slot);
                        avail_bytes = (if offset_bytes < total_bytes then total_bytes - offset_bytes else 0);
                        return_bytes = (if avail_bytes < max_bytes then avail_bytes else max_bytes);
                        bytes_after = (if avail_bytes > return_bytes then avail_bytes - return_bytes else 0);
                        value_ptr = (if return_bytes > 0 then Some (drop offset_bytes (pr_value slot)) else None);
                        unit_bytes = unat (pr_format slot) div 8;
                        value_len_units = (if unit_bytes > 0 then of_nat (return_bytes div unit_bytes) else 0)
                    in do {
                      (b, c, ok) \<leftarrow> send_reply b c (x11_build_get_property_reply (Some (replicate 4128 0)) 4128 (pr_format slot) (pr_type slot)
                                        (of_nat bytes_after) value_len_units value_ptr return_bytes seq (xc_byte_order c));
                      (if \<not> ok then Some (b, c, False)
                       else if data \<noteq> 0 \<and> bytes_after = 0
                       then do { (b, c) \<leftarrow> delete_prop b c i win j prop seq; Some (b, c, True) }
                       else Some (b, c, True))
                    })
               })
      })"

definition req_delete_property :: "bridge \<Rightarrow> x11_client \<Rightarrow> nat \<Rightarrow> nat \<Rightarrow> u16 \<Rightarrow> handled" where
  "req_delete_property b c p tot seq =
     (if tot - 4 < 8 then bad b c X11_ERR_LENGTH 0 19
      else do {
        wid \<leftarrow> rd32 c (p + 4);
        prop \<leftarrow> rd32 c (p + 8);
        (if prop = 0 then bad b c X11_ERR_ATOM prop 19
         else with_window b c 19 X11_ERR_WINDOW wid (\<lambda>i win.
                case x11_window_prop_find win prop of
                  None \<Rightarrow> Some (b, c, True)
                | Some j \<Rightarrow> do { (b, c) \<leftarrow> delete_prop b c i win j prop seq; Some (b, c, True) }))
      })"

section \<open>Selections, pointer and focus\<close>

definition selection_at :: "x11_client \<Rightarrow> nat \<Rightarrow> x11_selection option" where
  "selection_at c i = (if i < length (xc_selections c) then xc_selections c ! i else None)"

text \<open>The end of \<^verbatim>\<open>SetSelectionOwner\<close>: the previous owner is told.\<close>

definition selection_changed :: "bridge \<Rightarrow> x11_client \<Rightarrow> u32 \<Rightarrow> u32 \<Rightarrow> u32 \<Rightarrow> u32 \<Rightarrow> u16 \<Rightarrow> handled" where
  "selection_changed b c prev_owner owner sel time seq =
     (if prev_owner \<noteq> 0 \<and> prev_owner \<noteq> owner
      then do {
        b \<leftarrow> deliver b c (x11_build_selection_clear (Some (replicate 32 0)) time prev_owner sel seq (xc_byte_order c)) 0 prev_owner;
        Some (b, c, True)
      }
      else Some (b, c, True))"

definition req_set_selection_owner :: "bridge \<Rightarrow> x11_client \<Rightarrow> nat \<Rightarrow> nat \<Rightarrow> u16 \<Rightarrow> handled" where
  "req_set_selection_owner b c p tot seq =
     (if tot - 4 < 12 then bad b c X11_ERR_LENGTH 0 22
      else do {
        owner \<leftarrow> rd32 c (p + 4);
        sel \<leftarrow> rd32 c (p + 8);
        time \<leftarrow> rd32 c (p + 12);
        (if sel = 0 then bad b c X11_ERR_ATOM sel 22
         else
           let found = x11_client_find_selection c sel;
               old = (case found of None \<Rightarrow> None | Some i \<Rightarrow> selection_at c i);
               prev_owner = (case old of None \<Rightarrow> 0 | Some s \<Rightarrow> xs_owner_xid s)
           in if (case old of None \<Rightarrow> False | Some s \<Rightarrow> time \<noteq> 0 \<and> xs_timestamp s \<noteq> 0 \<and> time < xs_timestamp s) then Some (b, c, True)
              else if owner = 0
              then (case (found, old) of
                      (Some i, Some s) \<Rightarrow>
                        selection_changed b (c\<lparr>xc_selections := (xc_selections c)[i := Some (s\<lparr>xs_owner_xid := 0, xs_timestamp := time\<rparr>)]\<rparr>)
                          prev_owner owner sel time seq
                    | _ \<Rightarrow> selection_changed b c prev_owner owner sel time seq)
              else with_window b c 22 X11_ERR_WINDOW owner (\<lambda>_ _.
                     case (case (found, old) of (Some i, Some s) \<Rightarrow> (c, Some (i, s)) | _ \<Rightarrow> x11_client_alloc_selection c sel) of
                       (c, None) \<Rightarrow> bad b c X11_ERR_ALLOC 0 22
                     | (c, Some (i, s)) \<Rightarrow>
                         selection_changed b (c\<lparr>xc_selections := (xc_selections c)[i := Some (s\<lparr>xs_owner_xid := owner, xs_timestamp := time\<rparr>)]\<rparr>)
                           prev_owner owner sel time seq))
      })"

definition req_get_selection_owner :: "bridge \<Rightarrow> x11_client \<Rightarrow> nat \<Rightarrow> nat \<Rightarrow> u16 \<Rightarrow> handled" where
  "req_get_selection_owner b c p tot seq =
     (if tot - 4 < 4 then bad b c X11_ERR_LENGTH 0 23
      else do {
        sel \<leftarrow> rd32 c (p + 4);
        (if sel = 0 then bad b c X11_ERR_ATOM sel 23
         else
           let owner = (case x11_client_find_selection c sel of
                          None \<Rightarrow> 0
                        | Some i \<Rightarrow> (case selection_at c i of None \<Rightarrow> 0 | Some s \<Rightarrow> xs_owner_xid s))
           in send_reply b c (x11_build_get_selection_owner_reply (Some (replicate 32 0)) owner seq (xc_byte_order c)))
      })"

definition req_query_pointer :: "bridge \<Rightarrow> x11_client \<Rightarrow> nat \<Rightarrow> nat \<Rightarrow> u16 \<Rightarrow> handled" where
  "req_query_pointer b c p tot seq =
     (if tot - 4 < 4 then bad b c X11_ERR_LENGTH 0 38
      else do {
        wid \<leftarrow> rd32 c (p + 4);
        (if wid \<noteq> X11_ROOT_WINDOW_ID \<and> x11_client_find_window c wid = None then bad b c X11_ERR_WINDOW wid 38
         else send_reply b c (x11_build_query_pointer_reply (Some (replicate 32 0)) True X11_ROOT_WINDOW_ID 0 0 0 0 0 0 seq (xc_byte_order c)))
      })"

definition req_set_input_focus :: "bridge \<Rightarrow> x11_client \<Rightarrow> nat \<Rightarrow> nat \<Rightarrow> u8 \<Rightarrow> handled" where
  "req_set_input_focus b c p tot data =
     (if data > 2 then bad b c X11_ERR_VALUE (ucast data) 42
      else if tot - 4 < 8 then bad b c X11_ERR_LENGTH 0 42
      else do {
        focus \<leftarrow> rd32 c (p + 4);
        (if focus \<noteq> 0 \<and> focus \<noteq> 1 \<and> x11_client_find_window c focus = None then bad b c X11_ERR_WINDOW focus 42
         else
           let c = c\<lparr>xc_focus_xid := focus, xc_focus_revert_to := data\<rparr>
           in case br_isz b of
                Some isz \<Rightarrow>
                  if focus \<noteq> 1
                  then do {
                    surf_id \<leftarrow> (if focus \<noteq> 0
                                then (case x11_client_find_window c focus of
                                        Some i \<Rightarrow> do { fwin \<leftarrow> window_at c i; Some (xw_isz_surface_id fwin) }
                                      | None \<Rightarrow> Some 0)
                                else Some 0);
                    (b, _, _) \<leftarrow> isz_call b isz (\<lambda>b isz. isz_client_send_seat_set_keyboard_focus b isz (il_seat_id isz) surf_id);
                    Some (b, c, True)
                  }
                  else Some (b, c, True)
              | None \<Rightarrow> Some (b, c, True))
      })"

end
