(* ===== verification/X11_Draw_Requests.thy ===== *)
theory X11_Draw_Requests
  imports X11_Window_Requests
begin

text \<open>
  The request handlers for graphics contexts, images, pixmaps, colours, fonts, text and cursors, and the remaining small ones (\<^verbatim>\<open>x11_client_dispatch_request\<close> in
  \<^verbatim>\<open>x11bridge/x11_client.c\<close>), with the conventions of \<open>X11_Window_Requests\<close>.
\<close>

unbundle bit_operations_syntax

abbreviation (input) "X11_IMAGE_FORMAT_ZPIXMAP \<equiv> (2 :: u8)"

text \<open>The replies that the handlers build themselves begin with a zeroed buffer, the reply byte, the sequence number and the length field.\<close>

definition reply_head :: "x11_client \<Rightarrow> nat \<Rightarrow> u16 \<Rightarrow> u32 \<Rightarrow> u8 list option" where
  "reply_head c n seq len = do {
     r \<leftarrow> put_u8 (replicate n 0) 0 1;
     r \<leftarrow> x11_put_u16 r 2 seq (xc_byte_order c);
     x11_put_u32 r 4 len (xc_byte_order c)
   }"

definition send_buffer :: "bridge \<Rightarrow> x11_client \<Rightarrow> u8 list option \<Rightarrow> nat \<Rightarrow> handled" where
  "send_buffer b c reply n = do { reply \<leftarrow> reply; (b, ok) \<leftarrow> x11_client_send_raw b c reply n; Some (b, c, ok) }"

text \<open>As \<open>send_buffer\<close> where the code ignores the result of the send.\<close>

definition send_buffer_ignored :: "bridge \<Rightarrow> x11_client \<Rightarrow> u8 list option \<Rightarrow> nat \<Rightarrow> handled" where
  "send_buffer_ignored b c reply n = do { (b, c, _) \<leftarrow> send_buffer b c reply n; Some (b, c, True) }"

text \<open>Writing 16-bit fields at offsets.\<close>

fun put_u16s :: "u8 list \<Rightarrow> (nat \<times> u16) list \<Rightarrow> u8 \<Rightarrow> u8 list option" where
  "put_u16s r [] bo = Some r"
| "put_u16s r ((off, v) # fs) bo = do { r \<leftarrow> x11_put_u16 r off v bo; put_u16s r fs bo }"

section \<open>Graphics contexts\<close>

text \<open>The loop \<^verbatim>\<open>bits &= bits - 1; slots_needed++\<close>. It ends because the value decreases.\<close>

lemma and_minus_one_less:
  fixes w :: "'a::len word"
  assumes "w \<noteq> 0"
  shows "unat (w AND (w - 1)) < unat w"
proof -
  have "w AND (w - 1) \<le> w - 1" by (simp add: word_and_le1)
  then have "unat (w AND (w - 1)) \<le> unat (w - 1)" by (simp add: word_le_nat_alt)
  also have "\<dots> < unat w"
    using assms by (metis measure_unat)
  finally show ?thesis .
qed

function slots_needed :: "u32 \<Rightarrow> nat" where
  "slots_needed bits = (if bits = 0 then 0 else slots_needed (bits AND (bits - 1)) + 1)"
  by pat_completeness auto

termination
  by (relation "measure unat") (auto simp: and_minus_one_less)

declare slots_needed.simps [simp del]

definition gc_value :: "x11_gc \<Rightarrow> nat \<Rightarrow> u32 \<Rightarrow> x11_gc" where
  "gc_value gc n v =
     (if n = 0 then gc\<lparr>gc_function := ucast v\<rparr>
      else if n = 2 then gc\<lparr>gc_foreground := v\<rparr>
      else if n = 3 then gc\<lparr>gc_background := v\<rparr>
      else if n = 4 then gc\<lparr>gc_line_width := ucast v\<rparr>
      else if n = 5 then gc\<lparr>gc_line_style := ucast v\<rparr>
      else if n = 6 then gc\<lparr>gc_cap_style := ucast v\<rparr>
      else if n = 7 then gc\<lparr>gc_join_style := ucast v\<rparr>
      else if n = 8 then gc\<lparr>gc_fill_style := ucast v\<rparr>
      else if n = 9 then gc\<lparr>gc_fill_rule := ucast v\<rparr>
      else if n = 15 then gc\<lparr>gc_subwindow_mode := ucast v\<rparr>
      else if n = 16 then gc\<lparr>gc_graphics_exposure := (v \<noteq> 0)\<rparr>
      else if n = 17 then gc\<lparr>gc_clip_x_origin := sint (ucast v :: u16)\<rparr>
      else if n = 18 then gc\<lparr>gc_clip_y_origin := sint (ucast v :: u16)\<rparr>
      else if n = 22 then gc\<lparr>gc_arc_mode := ucast v\<rparr>
      else gc)"

text \<open>The values of the bits 0 to 22, with no check of the remaining length.\<close>

fun gc_values :: "nat list \<Rightarrow> x11_client \<Rightarrow> nat \<Rightarrow> u32 \<Rightarrow> x11_gc \<Rightarrow> x11_gc option" where
  "gc_values [] c vp vmask gc = Some gc"
| "gc_values (n # ns) c vp vmask gc =
     (if vmask AND push_bit n 1 = 0 then gc_values ns c vp vmask gc
      else do { v \<leftarrow> rd32 c vp; gc_values ns c (vp + 4) vmask (gc_value gc n v) })"

definition upd_gc :: "x11_client \<Rightarrow> nat \<Rightarrow> x11_gc option \<Rightarrow> x11_client" where
  "upd_gc c i gc = c\<lparr>xc_gcs := (xc_gcs c)[i := gc]\<rparr>"

definition req_create_gc :: "bridge \<Rightarrow> x11_client \<Rightarrow> nat \<Rightarrow> nat \<Rightarrow> handled" where
  "req_create_gc b c p tot =
     (if tot - 4 < 12 then bad b c X11_ERR_LENGTH 0 55
      else do {
        gc_xid \<leftarrow> rd32 c (p + 4);
        draw \<leftarrow> rd32 c (p + 8);
        vmask \<leftarrow> rd32 c (p + 12);
        (if x11_client_check_drawable c draw = 0 then bad b c X11_ERR_DRAWABLE draw 55
         else if x11_client_find_gc c gc_xid \<noteq> None then bad b c X11_ERR_IDCHOICE gc_xid 55
         else case x11_client_alloc_gc c gc_xid of
                (c, None) \<Rightarrow> bad b c X11_ERR_ALLOC 0 55
              | (c, Some (i, gc)) \<Rightarrow>
                  let gc = gc\<lparr>gc_drawable_xid := draw, gc_value_mask := vmask\<rparr>;
                      c = upd_gc c i (Some gc)
                  in if slots_needed vmask * 4 > (if tot - 4 > 12 then tot - 4 - 12 else 0) then bad b c X11_ERR_LENGTH 0 55
                     else do {
                       gc \<leftarrow> gc_values [0..<23] c (p + 16) vmask gc;
                       Some (b, upd_gc c i (Some gc), True)
                     })
      })"

definition req_free_gc :: "bridge \<Rightarrow> x11_client \<Rightarrow> nat \<Rightarrow> nat \<Rightarrow> handled" where
  "req_free_gc b c p tot =
     (if tot < 8 then bad b c X11_ERR_LENGTH 0 60
      else do {
        gc_xid \<leftarrow> rd32 c (p + 4);
        (case x11_client_find_gc c gc_xid of
           None \<Rightarrow> bad b c X11_ERR_GCONTEXT gc_xid 60
         | Some i \<Rightarrow> Some (b, upd_gc c i None, True))
      })"

section \<open>Images\<close>

definition req_put_image :: "bridge \<Rightarrow> x11_client \<Rightarrow> nat \<Rightarrow> nat \<Rightarrow> u8 \<Rightarrow> handled" where
  "req_put_image b c p tot data =
     (if data > 2 then bad b c X11_ERR_VALUE (ucast data) 72
      else if tot - 4 < 20 then bad b c X11_ERR_LENGTH 0 72
      else do {
        draw \<leftarrow> rd32 c (p + 4);
        gc_xid \<leftarrow> rd32 c (p + 8);
        width \<leftarrow> rd16 c (p + 12);
        height \<leftarrow> rd16 c (p + 14);
        dst_x \<leftarrow> rd16 c (p + 16);
        dst_y \<leftarrow> rd16 c (p + 18);
        left_pad \<leftarrow> rd8 c (p + 20);
        depth \<leftarrow> rd8 c (p + 21);
        (let data_bytes = (if tot - 4 > 20 then tot - 4 - 20 else 0)
         in if data_bytes > X11_PUT_IMAGE_MAX_BYTES then bad b c X11_ERR_ALLOC 0 72
            else if draw = X11_ROOT_WINDOW_ID then Some (b, c, True)
            else if x11_client_check_drawable c draw = 0 then bad b c X11_ERR_DRAWABLE draw 72
            else case x11_client_find_window c draw of
                   None \<Rightarrow> Some (b, c, True)
                 | Some i \<Rightarrow> do {
                     win \<leftarrow> window_at c i;
                     let win = x11_window_backing_image_clear win;
                     let c = upd_window c i (Some win);
                     (if data_bytes > 0
                      then (case k_alloc b of
                              (b, False) \<Rightarrow> bad b c X11_ERR_ALLOC 0 72
                            | (b, True) \<Rightarrow> do {
                                copy \<leftarrow> rd_bytes c (p + 24) data_bytes;
                                Some (b, upd_window c i (Some (win\<lparr>xw_backing_image := Some copy, xw_backing_image_w := width, xw_backing_image_h := height,
                                                                 xw_backing_image_depth := depth, xw_backing_image_format := data\<rparr>)), True)
                              })
                      else Some (b, c, True))
                   })
      })"

text \<open>One pixel of the rectangle that \<^verbatim>\<open>ClearArea\<close> paints, a row, and the rectangle. A pixel outside the image is skipped.\<close>

definition clear_pixel :: "int \<Rightarrow> int \<Rightarrow> u32 \<Rightarrow> u8 \<Rightarrow> u8 list \<Rightarrow> int \<Rightarrow> u8 list option" where
  "clear_pixel bw py bg bo img px =
     (if px < 0 \<or> px \<ge> bw then Some img
      else let off = (nat py * nat bw + nat px) * 4 in if off + 4 > length img then Some img else x11_put_u32 img off bg bo)"

fun clear_cols :: "nat list \<Rightarrow> int \<Rightarrow> int \<Rightarrow> int \<Rightarrow> u32 \<Rightarrow> u8 \<Rightarrow> u8 list \<Rightarrow> u8 list option" where
  "clear_cols [] x bw py bg bo img = Some img"
| "clear_cols (col # cols) x bw py bg bo img = do { img \<leftarrow> clear_pixel bw py bg bo img (x + int col); clear_cols cols x bw py bg bo img }"

fun clear_rows :: "nat list \<Rightarrow> nat \<Rightarrow> int \<Rightarrow> int \<Rightarrow> int \<Rightarrow> int \<Rightarrow> u32 \<Rightarrow> u8 \<Rightarrow> u8 list \<Rightarrow> u8 list option" where
  "clear_rows [] rw x y bw bh bg bo img = Some img"
| "clear_rows (row # rows) rw x y bw bh bg bo img =
     (let py = y + int row
      in if py < 0 \<or> py \<ge> bh then clear_rows rows rw x y bw bh bg bo img
         else do { img \<leftarrow> clear_cols [0..<rw] x bw py bg bo img; clear_rows rows rw x y bw bh bg bo img })"

definition clear_image :: "x11_window \<Rightarrow> u8 \<Rightarrow> int \<Rightarrow> int \<Rightarrow> u16 \<Rightarrow> u16 \<Rightarrow> x11_window option" where
  "clear_image win bo x y w h =
     (case xw_backing_image win of
        None \<Rightarrow> Some win
      | Some img \<Rightarrow>
          if xw_backing_image_format win = X11_IMAGE_FORMAT_ZPIXMAP \<and> xw_backing_image_depth win = 24
          then
            let bw = uint (xw_backing_image_w win);
                bh = uint (xw_backing_image_h win);
                rw = (if w = 0 then bw - x else uint w);
                rh = (if h = 0 then bh - y else uint h)
            in do {
              img \<leftarrow> clear_rows [0..<nat rh] (nat rw) x y bw bh (xw_background_pixel win) bo img;
              Some (win\<lparr>xw_backing_image := Some img\<rparr>)
            }
          else Some win)"

definition req_clear_area :: "bridge \<Rightarrow> x11_client \<Rightarrow> nat \<Rightarrow> nat \<Rightarrow> u8 \<Rightarrow> u16 \<Rightarrow> handled" where
  "req_clear_area b c p tot data seq =
     (if tot < 16 then bad b c X11_ERR_LENGTH 0 61
      else do {
        wid \<leftarrow> rd32 c (p + 4);
        x \<leftarrow> rd16 c (p + 8);
        y \<leftarrow> rd16 c (p + 10);
        w \<leftarrow> rd16 c (p + 12);
        h \<leftarrow> rd16 c (p + 14);
        with_window b c 61 X11_ERR_WINDOW wid (\<lambda>i win. do {
          win \<leftarrow> clear_image win (xc_byte_order c) (sint x) (sint y) w h;
          let c = upd_window c i (Some win);
          (if data \<noteq> 0
           then
             let ex = (if sint x < 0 then 0 else x);
                 ey = (if sint y < 0 then 0 else y)
             in do {
               b \<leftarrow> deliver b c (x11_build_expose (Some (replicate 32 0)) (xw_x11_id win) ex ey w h 0 seq (xc_byte_order c)) X11_EVMASK_EXPOSURE (xw_x11_id win);
               Some (b, c, True)
             }
           else Some (b, c, True))
        })
      })"

text \<open>A drawable and a graphics context that must exist.\<close>

definition with_drawable_gc :: "bridge \<Rightarrow> x11_client \<Rightarrow> u8 \<Rightarrow> u32 \<Rightarrow> u32 \<Rightarrow> (nat \<Rightarrow> handled) \<Rightarrow> handled" where
  "with_drawable_gc b c opcode draw gcx f =
     (if x11_client_check_drawable c draw = 0 then bad b c X11_ERR_DRAWABLE draw opcode
      else case x11_client_find_gc c gcx of
             None \<Rightarrow> bad b c X11_ERR_GCONTEXT gcx opcode
           | Some i \<Rightarrow> f i)"

definition gc_at :: "x11_client \<Rightarrow> nat \<Rightarrow> x11_gc option" where
  "gc_at c i = (if i < length (xc_gcs c) then xc_gcs c ! i else None)"

definition req_copy_area :: "bridge \<Rightarrow> x11_client \<Rightarrow> nat \<Rightarrow> nat \<Rightarrow> u16 \<Rightarrow> handled" where
  "req_copy_area b c p tot seq =
     (if tot < 28 then bad b c X11_ERR_LENGTH 0 62
      else do {
        src_draw \<leftarrow> rd32 c (p + 4);
        dst_draw \<leftarrow> rd32 c (p + 8);
        gc_xid \<leftarrow> rd32 c (p + 12);
        (if x11_client_check_drawable c src_draw = 0 then bad b c X11_ERR_DRAWABLE src_draw 62
         else with_drawable_gc b c 62 dst_draw gc_xid (\<lambda>i. do {
                gc \<leftarrow> gc_at c i;
                (if \<not> gc_graphics_exposure gc
                 then do {
                   (evt, _) \<leftarrow> x11_build_no_expose (Some (replicate 32 0)) dst_draw 0 62 seq (xc_byte_order c);
                   evt \<leftarrow> evt;
                   (b, _) \<leftarrow> x11_client_send_event b c evt;
                   Some (b, c, True)
                 }
                 else Some (b, c, True))
              }))
      })"

text \<open>The drawing requests that are checked and otherwise ignored. The minimal length of the two image-text requests depends on the second byte.\<close>

definition draw_ignored :: "bridge \<Rightarrow> x11_client \<Rightarrow> nat \<Rightarrow> nat \<Rightarrow> u8 \<Rightarrow> nat \<Rightarrow> handled" where
  "draw_ignored b c p tot opcode least =
     (if tot < least then bad b c X11_ERR_LENGTH 0 opcode
      else do {
        draw \<leftarrow> rd32 c (p + 4);
        gc_xid \<leftarrow> rd32 c (p + 8);
        with_drawable_gc b c opcode draw gc_xid (\<lambda>_. Some (b, c, True))
      })"

definition req_poly_fill_rectangle :: "bridge \<Rightarrow> x11_client \<Rightarrow> nat \<Rightarrow> nat \<Rightarrow> handled" where
  "req_poly_fill_rectangle b c p tot = draw_ignored b c p tot 69 12"

definition req_poly_text_8 :: "bridge \<Rightarrow> x11_client \<Rightarrow> nat \<Rightarrow> nat \<Rightarrow> handled" where
  "req_poly_text_8 b c p tot = draw_ignored b c p tot 74 16"

definition req_poly_text_16 :: "bridge \<Rightarrow> x11_client \<Rightarrow> nat \<Rightarrow> nat \<Rightarrow> handled" where
  "req_poly_text_16 b c p tot = draw_ignored b c p tot 75 16"

definition req_image_text_8 :: "bridge \<Rightarrow> x11_client \<Rightarrow> nat \<Rightarrow> nat \<Rightarrow> u8 \<Rightarrow> handled" where
  "req_image_text_8 b c p tot data = draw_ignored b c p tot 76 (16 + x11_pad4 (unat data))"

definition req_image_text_16 :: "bridge \<Rightarrow> x11_client \<Rightarrow> nat \<Rightarrow> nat \<Rightarrow> u8 \<Rightarrow> handled" where
  "req_image_text_16 b c p tot data = draw_ignored b c p tot 77 (16 + x11_pad4 (unat data * 2))"

text \<open>One pixel, a row and the rectangle that \<^verbatim>\<open>GetImage\<close> copies.\<close>

definition copy_pixel :: "u8 list \<Rightarrow> int \<Rightarrow> nat \<Rightarrow> int \<Rightarrow> nat \<Rightarrow> nat \<Rightarrow> int \<Rightarrow> u8 list \<Rightarrow> u8 list option" where
  "copy_pixel img bw w py row col px reply =
     (if px < 0 \<or> px \<ge> bw then Some reply
      else
        let src_off = (nat py * nat bw + nat px) * 4;
            dst_off = 32 + (row * w + col) * 4
        in if src_off + 4 > length img then Some reply
           else if dst_off + 4 > length reply then Some reply
           else memcpy_at reply dst_off (drop src_off img) 4)"

fun copy_cols :: "nat list \<Rightarrow> u8 list \<Rightarrow> int \<Rightarrow> nat \<Rightarrow> int \<Rightarrow> nat \<Rightarrow> int \<Rightarrow> u8 list \<Rightarrow> u8 list option" where
  "copy_cols [] img bw w py row x reply = Some reply"
| "copy_cols (col # cols) img bw w py row x reply = do { reply \<leftarrow> copy_pixel img bw w py row col (x + int col) reply; copy_cols cols img bw w py row x reply }"

fun copy_rows :: "nat list \<Rightarrow> u8 list \<Rightarrow> int \<Rightarrow> int \<Rightarrow> nat \<Rightarrow> int \<Rightarrow> int \<Rightarrow> u8 list \<Rightarrow> u8 list option" where
  "copy_rows [] img bw bh w x y reply = Some reply"
| "copy_rows (row # rows) img bw bh w x y reply =
     (let py = y + int row
      in if py < 0 \<or> py \<ge> bh then copy_rows rows img bw bh w x y reply
         else do { reply \<leftarrow> copy_cols [0..<w] img bw w py row x reply; copy_rows rows img bw bh w x y reply })"

definition copy_image :: "x11_window option \<Rightarrow> u8 \<Rightarrow> int \<Rightarrow> int \<Rightarrow> u16 \<Rightarrow> u16 \<Rightarrow> u8 list \<Rightarrow> u8 list option" where
  "copy_image win format x y w h reply =
     (case win of
        None \<Rightarrow> Some reply
      | Some win \<Rightarrow>
          (case xw_backing_image win of
             None \<Rightarrow> Some reply
           | Some img \<Rightarrow>
               if xw_backing_image_format win = X11_IMAGE_FORMAT_ZPIXMAP \<and> xw_backing_image_depth win = 24 \<and> format = X11_IMAGE_FORMAT_ZPIXMAP
               then copy_rows [0..<unat h] img (uint (xw_backing_image_w win)) (uint (xw_backing_image_h win)) (unat w) x y reply
               else Some reply))"

definition pixmap_at :: "x11_client \<Rightarrow> nat \<Rightarrow> x11_pixmap option" where
  "pixmap_at c i = (if i < length (xc_pixmaps c) then xc_pixmaps c ! i else None)"

text \<open>The window, the depth and the visual of the drawable; \<open>Inl\<close> when there is none.\<close>

definition image_source :: "x11_client \<Rightarrow> u32 \<Rightarrow> (unit + x11_window option \<times> u8 \<times> u32) option" where
  "image_source c draw =
     (if draw = X11_ROOT_WINDOW_ID then Some (Inr (None, 24, X11_ROOT_VISUAL_ID))
      else case x11_client_find_window c draw of
             Some i \<Rightarrow> do {
               win \<leftarrow> window_at c i;
               Some (Inr (Some win, (if xw_depth win = 0 then 24 else xw_depth win), (if xw_visual_id win = 0 then X11_ROOT_VISUAL_ID else xw_visual_id win)))
             }
           | None \<Rightarrow>
               (case x11_client_find_pixmap c draw of
                  None \<Rightarrow> Some (Inl ())
                | Some i \<Rightarrow> do { pix \<leftarrow> pixmap_at c i; Some (Inr (None, px_depth pix, X11_ROOT_VISUAL_ID)) }))"

definition req_get_image :: "bridge \<Rightarrow> x11_client \<Rightarrow> nat \<Rightarrow> nat \<Rightarrow> u8 \<Rightarrow> u16 \<Rightarrow> handled" where
  "req_get_image b c p tot data seq =
     (if data > 2 then bad b c X11_ERR_VALUE (ucast data) 73
      else if tot < 20 then bad b c X11_ERR_LENGTH 0 73
      else do {
        draw \<leftarrow> rd32 c (p + 4);
        x \<leftarrow> rd16 c (p + 8);
        y \<leftarrow> rd16 c (p + 10);
        w \<leftarrow> rd16 c (p + 12);
        h \<leftarrow> rd16 c (p + 14);
        src \<leftarrow> image_source c draw;
        (case src of
           Inl _ \<Rightarrow> bad b c X11_ERR_DRAWABLE draw 73
         | Inr (win, depth, visual) \<Rightarrow>
             let padded = x11_pad4 (unat w * unat h * 4);
                 reply_len = 32 + padded
             in (case k_alloc b of
                   (b, False) \<Rightarrow> bad b c X11_ERR_ALLOC 0 73
                 | (b, True) \<Rightarrow>
                     send_buffer b c (do {
                       reply \<leftarrow> reply_head c reply_len seq (of_nat (padded div 4));
                       reply \<leftarrow> put_u8 reply 1 depth;
                       reply \<leftarrow> x11_put_u32 reply 8 visual (xc_byte_order c);
                       copy_image win data (sint x) (sint y) w h reply
                     }) reply_len))
      })"

section \<open>Pixmaps and colours\<close>

definition req_create_pixmap :: "bridge \<Rightarrow> x11_client \<Rightarrow> nat \<Rightarrow> nat \<Rightarrow> u8 \<Rightarrow> handled" where
  "req_create_pixmap b c p tot data =
     (if tot < 16 then bad b c X11_ERR_LENGTH 0 53
      else do {
        pid \<leftarrow> rd32 c (p + 4);
        draw \<leftarrow> rd32 c (p + 8);
        w \<leftarrow> rd16 c (p + 12);
        h \<leftarrow> rd16 c (p + 14);
        (if x11_client_check_drawable c draw = 0 then bad b c X11_ERR_DRAWABLE draw 53
         else if x11_client_find_pixmap c pid \<noteq> None then bad b c X11_ERR_IDCHOICE pid 53
         else case x11_client_alloc_pixmap c pid of
                (c, None) \<Rightarrow> bad b c X11_ERR_ALLOC 0 53
              | (c, Some (i, pix)) \<Rightarrow>
                  Some (b, c\<lparr>xc_pixmaps := (xc_pixmaps c)[i := Some (pix\<lparr>px_drawable_xid := draw, px_width := w, px_height := h, px_depth := data\<rparr>)]\<rparr>, True))
      })"

definition req_free_pixmap :: "bridge \<Rightarrow> x11_client \<Rightarrow> nat \<Rightarrow> nat \<Rightarrow> handled" where
  "req_free_pixmap b c p tot =
     (if tot < 8 then bad b c X11_ERR_LENGTH 0 54
      else do {
        pid \<leftarrow> rd32 c (p + 4);
        (case x11_client_find_pixmap c pid of
           None \<Rightarrow> bad b c X11_ERR_PIXMAP pid 54
         | Some i \<Rightarrow> Some (b, c\<lparr>xc_pixmaps := (xc_pixmaps c)[i := None]\<rparr>, True))
      })"

definition req_create_colormap :: "bridge \<Rightarrow> x11_client \<Rightarrow> nat \<Rightarrow> nat \<Rightarrow> u8 \<Rightarrow> handled" where
  "req_create_colormap b c p tot data =
     (if tot < 16 then bad b c X11_ERR_LENGTH 0 78
      else do {
        cmap \<leftarrow> rd32 c (p + 4);
        win_x \<leftarrow> rd32 c (p + 8);
        visual \<leftarrow> rd32 c (p + 12);
        (if data > 1 then bad b c X11_ERR_VALUE (ucast data) 78
         else if win_x \<noteq> X11_ROOT_WINDOW_ID \<and> x11_client_find_window c win_x = None then bad b c X11_ERR_WINDOW win_x 78
         else if x11_client_find_colormap c cmap \<noteq> None then bad b c X11_ERR_IDCHOICE cmap 78
         else case x11_client_alloc_colormap c cmap of
                (c, None) \<Rightarrow> bad b c X11_ERR_ALLOC 0 78
              | (c, Some (i, cm)) \<Rightarrow>
                  Some (b, c\<lparr>xc_colormaps := (xc_colormaps c)[i := Some (cm\<lparr>cm_window_xid := win_x, cm_visual_id := visual, cm_alloc_flag := data\<rparr>)]\<rparr>, True))
      })"

definition req_free_colormap :: "bridge \<Rightarrow> x11_client \<Rightarrow> nat \<Rightarrow> nat \<Rightarrow> handled" where
  "req_free_colormap b c p tot =
     (if tot < 8 then bad b c X11_ERR_LENGTH 0 79
      else do {
        cmap \<leftarrow> rd32 c (p + 4);
        (case x11_client_find_colormap c cmap of
           None \<Rightarrow> bad b c X11_ERR_COLORMAP cmap 79
         | Some i \<Rightarrow> Some (b, c\<lparr>xc_colormaps := (xc_colormaps c)[i := None]\<rparr>, True))
      })"

definition colormap_known :: "x11_client \<Rightarrow> u32 \<Rightarrow> bool" where
  "colormap_known c cmap \<longleftrightarrow> \<not> (cmap \<noteq> X11_DEFAULT_COLORMAP \<and> x11_client_find_colormap c cmap = None)"

definition req_alloc_color :: "bridge \<Rightarrow> x11_client \<Rightarrow> nat \<Rightarrow> nat \<Rightarrow> u16 \<Rightarrow> handled" where
  "req_alloc_color b c p tot seq =
     (if tot < 16 then bad b c X11_ERR_LENGTH 0 84
      else do {
        cmap \<leftarrow> rd32 c (p + 4);
        r \<leftarrow> rd16 c (p + 8);
        g \<leftarrow> rd16 c (p + 10);
        bl \<leftarrow> rd16 c (p + 12);
        (if \<not> colormap_known c cmap then bad b c X11_ERR_COLORMAP cmap 84
         else
           let pixel = push_bit 16 (ucast (r AND 0xFF) :: u32) OR push_bit 8 (ucast (g AND 0xFF)) OR ucast (bl AND 0xFF)
           in send_buffer b c (do {
                reply \<leftarrow> reply_head c 32 seq 0;
                reply \<leftarrow> put_u16s reply [(8, r), (10, g), (12, bl)] (xc_byte_order c);
                x11_put_u32 reply 16 pixel (xc_byte_order c)
              }) 32)
      })"

text \<open>The colours of the pixels \<open>i\<close>, each written at its place in the reply.\<close>

fun put_colors :: "nat list \<Rightarrow> x11_client \<Rightarrow> nat \<Rightarrow> u8 list \<Rightarrow> u8 list option" where
  "put_colors [] c p reply = Some reply"
| "put_colors (i # is) c p reply = do {
     px \<leftarrow> rd32 c (p + 8 + i * 4);
     let off = 32 + i * 8;
     reply \<leftarrow> put_u16s reply [(off, ucast (drop_bit 16 px AND 0xFF)), (off + 2, ucast (drop_bit 8 px AND 0xFF)), (off + 4, ucast (px AND 0xFF))] (xc_byte_order c);
     put_colors is c p reply
   }"

definition req_query_colors :: "bridge \<Rightarrow> x11_client \<Rightarrow> nat \<Rightarrow> nat \<Rightarrow> u16 \<Rightarrow> handled" where
  "req_query_colors b c p tot seq =
     (if tot < 8 then bad b c X11_ERR_LENGTH 0 91
      else do {
        cmap \<leftarrow> rd32 c (p + 4);
        (if \<not> colormap_known c cmap then bad b c X11_ERR_COLORMAP cmap 91
         else
           let n = (if tot > 8 then tot - 8 else 0) div 4
           in if n > 256 then bad b c X11_ERR_LENGTH 0 91
              else send_buffer b c (do {
                     reply \<leftarrow> reply_head c (32 + 256 * 8) seq (of_nat (2 * n));
                     reply \<leftarrow> x11_put_u16 reply 8 (of_nat n) (xc_byte_order c);
                     put_colors [0..<n] c p reply
                   }) (32 + n * 8))
      })"

definition req_lookup_color :: "bridge \<Rightarrow> x11_client \<Rightarrow> nat \<Rightarrow> nat \<Rightarrow> u16 \<Rightarrow> handled" where
  "req_lookup_color b c p tot seq =
     (if tot < 12 then bad b c X11_ERR_LENGTH 0 92
      else do {
        cmap \<leftarrow> rd32 c (p + 4);
        name_len \<leftarrow> rd16 c (p + 8);
        (if \<not> colormap_known c cmap then bad b c X11_ERR_COLORMAP cmap 92
         else if name_len = 0 then bad b c X11_ERR_VALUE 0 92
         else if tot < 12 + x11_pad4 (unat name_len) then bad b c X11_ERR_LENGTH 0 92
         else send_buffer b c (reply_head c 32 seq 0) 32)
      })"


section \<open>Fonts and text\<close>

definition req_open_font :: "bridge \<Rightarrow> x11_client \<Rightarrow> nat \<Rightarrow> nat \<Rightarrow> handled" where
  "req_open_font b c p tot =
     (if tot < 12 then bad b c X11_ERR_LENGTH 0 45
      else do {
        font_xid \<leftarrow> rd32 c (p + 4);
        name_len \<leftarrow> rd16 c (p + 8);
        (if unat name_len > (if tot > 12 then tot - 12 else 0) then bad b c X11_ERR_LENGTH 0 45
         else if unat name_len \<ge> X11_FONT_NAME_MAX then bad b c X11_ERR_NAME 0 45
         else if x11_client_find_font c font_xid \<noteq> None then bad b c X11_ERR_IDCHOICE font_xid 45
         else case x11_client_alloc_font c font_xid of
                (c, None) \<Rightarrow> bad b c X11_ERR_ALLOC 0 45
              | (c, Some (i, f)) \<Rightarrow> do {
                  name \<leftarrow> (if name_len > 0 then rd_bytes c (p + 12) (unat name_len) else Some []);
                  Some (b, c\<lparr>xc_fonts := (xc_fonts c)[i := Some (f\<lparr>ft_name := name\<rparr>)]\<rparr>, True)
                })
      })"

definition req_close_font :: "bridge \<Rightarrow> x11_client \<Rightarrow> nat \<Rightarrow> nat \<Rightarrow> handled" where
  "req_close_font b c p tot =
     (if tot < 8 then bad b c X11_ERR_LENGTH 0 46
      else do {
        font_xid \<leftarrow> rd32 c (p + 4);
        (case x11_client_find_font c font_xid of
           Some i \<Rightarrow> Some (b, c\<lparr>xc_fonts := (xc_fonts c)[i := None]\<rparr>, True)
         | None \<Rightarrow> Some (b, c, True))
      })"

text \<open>A font or a graphics context.\<close>

definition fontable :: "x11_client \<Rightarrow> u32 \<Rightarrow> bool" where
  "fontable c xid \<longleftrightarrow> x11_client_find_font c xid \<noteq> None \<or> x11_client_find_gc c xid \<noteq> None"

definition req_query_font :: "bridge \<Rightarrow> x11_client \<Rightarrow> nat \<Rightarrow> nat \<Rightarrow> u16 \<Rightarrow> handled" where
  "req_query_font b c p tot seq =
     (if tot < 8 then bad b c X11_ERR_LENGTH 0 47
      else do {
        font_xid \<leftarrow> rd32 c (p + 4);
        (if \<not> fontable c font_xid then bad b c X11_ERR_FONT font_xid 47
         else send_buffer b c (do {
                reply \<leftarrow> reply_head c 60 seq 13;
                reply \<leftarrow> put_u16s reply [(10, 6), (12, 6), (14, 10), (16, 3), (26, 6), (28, 6), (30, 10), (32, 3), (40, 0x20), (42, 0x7e), (44, 0x3f)]
                           (xc_byte_order c);
                reply \<leftarrow> put_u8 reply 51 1;
                put_u16s reply [(52, 10), (54, 3)] (xc_byte_order c)
              }) 60)
      })"

definition req_query_text_extents :: "bridge \<Rightarrow> x11_client \<Rightarrow> nat \<Rightarrow> nat \<Rightarrow> u16 \<Rightarrow> handled" where
  "req_query_text_extents b c p tot seq =
     (if tot < 8 then bad b c X11_ERR_LENGTH 0 48
      else do {
        font_xid \<leftarrow> rd32 c (p + 4);
        (if \<not> fontable c font_xid then bad b c X11_ERR_FONT font_xid 48
         else send_buffer b c (do { reply \<leftarrow> reply_head c 32 seq 0; put_u8 reply 1 0 }) 32)
      })"

text \<open>The checks that the two requests listing fonts share.\<close>

definition font_pattern :: "bridge \<Rightarrow> x11_client \<Rightarrow> nat \<Rightarrow> nat \<Rightarrow> u8 \<Rightarrow> handled \<Rightarrow> handled" where
  "font_pattern b c p tot opcode answer =
     (if tot < 8 then bad b c X11_ERR_LENGTH 0 opcode
      else do {
        max_names \<leftarrow> rd16 c (p + 4);
        pattern_len \<leftarrow> rd16 c (p + 6);
        (if tot < 8 + x11_pad4 (unat pattern_len) then bad b c X11_ERR_LENGTH 0 opcode else answer)
      })"

definition req_list_fonts :: "bridge \<Rightarrow> x11_client \<Rightarrow> nat \<Rightarrow> nat \<Rightarrow> u16 \<Rightarrow> handled" where
  "req_list_fonts b c p tot seq =
     font_pattern b c p tot 49 (send_buffer b c (do { reply \<leftarrow> reply_head c 32 seq 0; x11_put_u16 reply 8 0 (xc_byte_order c) }) 32)"

definition req_list_fonts_with_info :: "bridge \<Rightarrow> x11_client \<Rightarrow> nat \<Rightarrow> nat \<Rightarrow> u16 \<Rightarrow> handled" where
  "req_list_fonts_with_info b c p tot seq =
     font_pattern b c p tot 50 (send_buffer b c (do { reply \<leftarrow> reply_head c 60 seq 13; put_u8 reply 1 0 }) 60)"

definition req_set_font_path :: "bridge \<Rightarrow> x11_client \<Rightarrow> nat \<Rightarrow> nat \<Rightarrow> handled" where
  "req_set_font_path b c p tot =
     (if tot < 8 then bad b c X11_ERR_LENGTH 0 51
      else do { nfonts \<leftarrow> rd16 c (p + 4); Some (b, c, True) })"

definition req_get_font_path :: "bridge \<Rightarrow> x11_client \<Rightarrow> nat \<Rightarrow> nat \<Rightarrow> u16 \<Rightarrow> handled" where
  "req_get_font_path b c p tot seq =
     (if tot < 4 then bad b c X11_ERR_LENGTH 0 52
      else send_buffer b c (do { reply \<leftarrow> reply_head c 32 seq 0; x11_put_u16 reply 8 0 (xc_byte_order c) }) 32)"

section \<open>Cursors\<close>

definition upd_cursor :: "x11_client \<Rightarrow> nat \<Rightarrow> x11_cursor option \<Rightarrow> x11_client" where
  "upd_cursor c i cu = c\<lparr>xc_cursors := (xc_cursors c)[i := cu]\<rparr>"

definition req_create_cursor :: "bridge \<Rightarrow> x11_client \<Rightarrow> nat \<Rightarrow> nat \<Rightarrow> handled" where
  "req_create_cursor b c p tot =
     (if tot < 32 then bad b c X11_ERR_LENGTH 0 93
      else do {
        cursor_xid \<leftarrow> rd32 c (p + 4);
        src_pix \<leftarrow> rd32 c (p + 8);
        mask_pix \<leftarrow> rd32 c (p + 12);
        fr \<leftarrow> rd16 c (p + 16);
        fg \<leftarrow> rd16 c (p + 18);
        fb \<leftarrow> rd16 c (p + 20);
        br \<leftarrow> rd16 c (p + 22);
        bg \<leftarrow> rd16 c (p + 24);
        bb \<leftarrow> rd16 c (p + 26);
        hx \<leftarrow> rd16 c (p + 28);
        hy \<leftarrow> rd16 c (p + 30);
        (if x11_client_find_cursor c cursor_xid \<noteq> None then bad b c X11_ERR_IDCHOICE cursor_xid 93
         else if x11_client_find_pixmap c src_pix = None then bad b c X11_ERR_PIXMAP src_pix 93
         else if mask_pix \<noteq> 0 \<and> x11_client_find_pixmap c mask_pix = None then bad b c X11_ERR_PIXMAP mask_pix 93
         else case x11_client_alloc_cursor c cursor_xid of
                (c, None) \<Rightarrow> bad b c X11_ERR_ALLOC 0 93
              | (c, Some (i, cu)) \<Rightarrow>
                  Some (b, upd_cursor c i (Some (cu\<lparr>cu_is_glyph := False, cu_source_pixmap := src_pix, cu_mask_pixmap := mask_pix,
                          cu_fore := (fr, fg, fb), cu_back := (br, bg, bb), cu_hotspot_x := hx, cu_hotspot_y := hy\<rparr>)), True))
      })"

definition req_create_glyph_cursor :: "bridge \<Rightarrow> x11_client \<Rightarrow> nat \<Rightarrow> nat \<Rightarrow> handled" where
  "req_create_glyph_cursor b c p tot =
     (if tot < 32 then bad b c X11_ERR_LENGTH 0 94
      else do {
        cursor_xid \<leftarrow> rd32 c (p + 4);
        src_font \<leftarrow> rd32 c (p + 8);
        mask_font \<leftarrow> rd32 c (p + 12);
        src_char \<leftarrow> rd16 c (p + 16);
        mask_char \<leftarrow> rd16 c (p + 18);
        fr \<leftarrow> rd16 c (p + 20);
        fg \<leftarrow> rd16 c (p + 22);
        fb \<leftarrow> rd16 c (p + 24);
        br \<leftarrow> rd16 c (p + 26);
        bg \<leftarrow> rd16 c (p + 28);
        bb \<leftarrow> rd16 c (p + 30);
        (if x11_client_find_cursor c cursor_xid \<noteq> None then bad b c X11_ERR_IDCHOICE cursor_xid 94
         else if x11_client_find_font c src_font = None then bad b c X11_ERR_FONT src_font 94
         else if mask_font \<noteq> 0 \<and> x11_client_find_font c mask_font = None then bad b c X11_ERR_FONT mask_font 94
         else case x11_client_alloc_cursor c cursor_xid of
                (c, None) \<Rightarrow> bad b c X11_ERR_ALLOC 0 94
              | (c, Some (i, cu)) \<Rightarrow>
                  Some (b, upd_cursor c i (Some (cu\<lparr>cu_is_glyph := True, cu_source_font := src_font, cu_mask_font := mask_font,
                          cu_source_char := src_char, cu_mask_char := mask_char, cu_fore := (fr, fg, fb), cu_back := (br, bg, bb)\<rparr>)), True))
      })"

definition req_free_cursor :: "bridge \<Rightarrow> x11_client \<Rightarrow> nat \<Rightarrow> nat \<Rightarrow> handled" where
  "req_free_cursor b c p tot =
     (if tot < 8 then bad b c X11_ERR_LENGTH 0 95
      else do {
        cursor_xid \<leftarrow> rd32 c (p + 4);
        (case x11_client_find_cursor c cursor_xid of
           None \<Rightarrow> bad b c X11_ERR_CURSOR cursor_xid 95
         | Some i \<Rightarrow> Some (b, upd_cursor c i None, True))
      })"

definition req_recolor_cursor :: "bridge \<Rightarrow> x11_client \<Rightarrow> nat \<Rightarrow> nat \<Rightarrow> handled" where
  "req_recolor_cursor b c p tot =
     (if tot < 20 then bad b c X11_ERR_LENGTH 0 96
      else do {
        cursor_xid \<leftarrow> rd32 c (p + 4);
        fr \<leftarrow> rd16 c (p + 8);
        fg \<leftarrow> rd16 c (p + 10);
        fb \<leftarrow> rd16 c (p + 12);
        br \<leftarrow> rd16 c (p + 14);
        bg \<leftarrow> rd16 c (p + 16);
        bb \<leftarrow> rd16 c (p + 18);
        (case x11_client_find_cursor c cursor_xid of
           None \<Rightarrow> bad b c X11_ERR_CURSOR cursor_xid 96
         | Some i \<Rightarrow> do {
             cu \<leftarrow> (if i < length (xc_cursors c) then xc_cursors c ! i else None);
             Some (b, upd_cursor c i (Some (cu\<lparr>cu_fore := (fr, fg, fb), cu_back := (br, bg, bb)\<rparr>)), True)
           })
      })"

section \<open>Other requests\<close>

definition req_query_best_size :: "bridge \<Rightarrow> x11_client \<Rightarrow> nat \<Rightarrow> nat \<Rightarrow> u8 \<Rightarrow> u16 \<Rightarrow> handled" where
  "req_query_best_size b c p tot data seq =
     (if data > 2 then bad b c X11_ERR_VALUE (ucast data) 97
      else if tot < 12 then bad b c X11_ERR_LENGTH 0 97
      else do {
        draw \<leftarrow> rd32 c (p + 4);
        w \<leftarrow> rd16 c (p + 8);
        h \<leftarrow> rd16 c (p + 10);
        (if x11_client_check_drawable c draw = 0 then bad b c X11_ERR_DRAWABLE draw 97
         else send_reply b c (x11_build_query_best_size_reply (Some (replicate 16 0)) w h seq (xc_byte_order c)))
      })"

text \<open>The name is copied into a buffer of 256 bytes for the log; the answer is always that the extension is not present.\<close>

definition req_query_extension :: "bridge \<Rightarrow> x11_client \<Rightarrow> nat \<Rightarrow> nat \<Rightarrow> u16 \<Rightarrow> handled" where
  "req_query_extension b c p tot seq =
     (if tot < 8 then bad b c X11_ERR_LENGTH 0 98
      else do {
        name_len \<leftarrow> rd16 c (p + 4);
        (if tot < 8 + x11_pad4 (unat name_len) then bad b c X11_ERR_LENGTH 0 98
         else do {
           name \<leftarrow> rd_bytes c (p + 8) (if unat name_len < 255 then unat name_len else 255);
           ext_name \<leftarrow> memcpy_at (replicate 256 0) 0 (name @ [0]) (length name + 1);
           send_buffer_ignored b c (do { reply \<leftarrow> reply_head c 32 seq 0; put_u8 reply 8 0 }) 32
         })
      })"

definition req_list_extensions :: "bridge \<Rightarrow> x11_client \<Rightarrow> u16 \<Rightarrow> handled" where
  "req_list_extensions b c seq = send_buffer_ignored b c (do { reply \<leftarrow> reply_head c 32 seq 0; put_u8 reply 1 0 }) 32"

definition req_get_input_focus :: "bridge \<Rightarrow> x11_client \<Rightarrow> u16 \<Rightarrow> handled" where
  "req_get_input_focus b c seq =
     send_buffer_ignored b c (do { reply \<leftarrow> reply_head c 32 seq 0; reply \<leftarrow> put_u8 reply 1 0; x11_put_u32 reply 8 0 (xc_byte_order c) }) 32"

end
