(* ===== verification/X11_Dispatch.thy ===== *)
theory X11_Dispatch
  imports X11_Draw_Requests
begin

text \<open>
  The dispatch of a request and the reading of requests from the socket (\<^verbatim>\<open>x11_client_dispatch_request\<close> and \<^verbatim>\<open>x11_client_drain\<close> in \<^verbatim>\<open>x11bridge/x11_client.c\<close>).
\<close>

section \<open>The switch over the opcodes\<close>

definition dispatch_opcode :: "bridge \<Rightarrow> x11_client \<Rightarrow> nat \<Rightarrow> nat \<Rightarrow> u8 \<Rightarrow> u8 \<Rightarrow> u16 \<Rightarrow> handled" where
  "dispatch_opcode b c p tot opcode data seq =
     (if opcode = 1 then req_create_window b c p tot data seq
      else if opcode = 2 then req_change_window_attrs b c p tot
      else if opcode = 3 then req_get_window_attrs b c p tot seq
      else if opcode = 4 then req_destroy_window b c p tot seq
      else if opcode = 8 then req_map_window b c p tot seq
      else if opcode = 10 then req_unmap_window b c p tot seq
      else if opcode = 12 then req_configure_window b c p tot seq
      else if opcode = 14 then req_get_geometry b c p tot seq
      else if opcode = 15 then req_query_tree b c p tot seq
      else if opcode = 16 then req_intern_atom b c p tot data seq
      else if opcode = 17 then req_get_atom_name b c p tot seq
      else if opcode = 18 then req_change_property b c p tot data seq
      else if opcode = 19 then req_delete_property b c p tot seq
      else if opcode = 20 then req_get_property b c p tot data seq
      else if opcode = 22 then req_set_selection_owner b c p tot seq
      else if opcode = 23 then req_get_selection_owner b c p tot seq
      else if opcode = 38 then req_query_pointer b c p tot seq
      else if opcode = 42 then req_set_input_focus b c p tot data
      else if opcode = 43 then req_get_input_focus b c seq
      else if opcode = 45 then req_open_font b c p tot
      else if opcode = 46 then req_close_font b c p tot
      else if opcode = 47 then req_query_font b c p tot seq
      else if opcode = 48 then req_query_text_extents b c p tot seq
      else if opcode = 49 then req_list_fonts b c p tot seq
      else if opcode = 50 then req_list_fonts_with_info b c p tot seq
      else if opcode = 51 then req_set_font_path b c p tot
      else if opcode = 52 then req_get_font_path b c p tot seq
      else if opcode = 53 then req_create_pixmap b c p tot data
      else if opcode = 54 then req_free_pixmap b c p tot
      else if opcode = 55 then req_create_gc b c p tot
      else if opcode = 60 then req_free_gc b c p tot
      else if opcode = 61 then req_clear_area b c p tot data seq
      else if opcode = 62 then req_copy_area b c p tot seq
      else if opcode = 69 then req_poly_fill_rectangle b c p tot
      else if opcode = 72 then req_put_image b c p tot data
      else if opcode = 73 then req_get_image b c p tot data seq
      else if opcode = 74 then req_poly_text_8 b c p tot
      else if opcode = 75 then req_poly_text_16 b c p tot
      else if opcode = 76 then req_image_text_8 b c p tot data
      else if opcode = 77 then req_image_text_16 b c p tot data
      else if opcode = 78 then req_create_colormap b c p tot data
      else if opcode = 79 then req_free_colormap b c p tot
      else if opcode = 84 then req_alloc_color b c p tot seq
      else if opcode = 91 then req_query_colors b c p tot seq
      else if opcode = 92 then req_lookup_color b c p tot seq
      else if opcode = 93 then req_create_cursor b c p tot
      else if opcode = 94 then req_create_glyph_cursor b c p tot
      else if opcode = 95 then req_free_cursor b c p tot
      else if opcode = 96 then req_recolor_cursor b c p tot
      else if opcode = 97 then req_query_best_size b c p tot data seq
      else if opcode = 98 then req_query_extension b c p tot seq
      else if opcode = 99 then req_list_extensions b c seq
      else Some (b, c, True))"

definition x11_client_dispatch_request :: "bridge \<Rightarrow> x11_client \<Rightarrow> nat \<Rightarrow> nat \<Rightarrow> handled" where
  "x11_client_dispatch_request b c p tot =
     (if tot < 4 then Some (b, c, False)
      else do {
        opcode \<leftarrow> rd8 c p;
        data \<leftarrow> rd8 c (p + 1);
        len \<leftarrow> rd16 c (p + 2);
        (if unat len * 4 \<noteq> tot then Some (b, c, False)
         else case x11_client_next_sequence c of (c, seq) \<Rightarrow> dispatch_opcode b c p tot opcode data seq)
      })"

section \<open>Reading from the socket\<close>

text \<open>The receive loop ends with the first call that is not interrupted. An exhausted script answers \<^verbatim>\<open>EAGAIN\<close>. The result is whether parsing goes on.\<close>

function recv_requests :: "bridge \<Rightarrow> x11_client \<Rightarrow> bridge \<times> x11_client \<times> bool" where
  "recv_requests b c =
     (let cap = length (xc_buf c) - xc_have c
      in if cap = 0 then (b, c, False)
         else if k_recvs b = [] then (b, c, True)
         else case k_recv b cap of
                (b, RecvErr e) \<Rightarrow>
                  if e = EINTR then recv_requests b c
                  else if e = EAGAIN then (b, c, True)
                  else (b, c, False)
              | (b, RecvData bs cs tr) \<Rightarrow>
                  if bs = [] then (b, c, False)
                  else (b, c\<lparr>xc_buf := take (xc_have c) (xc_buf c) @ bs @ drop (xc_have c + length bs) (xc_buf c), xc_have := xc_have c + length bs\<rparr>, True))"
  by pat_completeness auto

termination
  by (relation "measure (\<lambda>(b, c). recv_size b)") (auto dest!: k_recv_size [OF sym] split: if_splits)

declare recv_requests.simps [simp del]

text \<open>The loop that parses requests; the result includes how many bytes are consumed. The client is dropped when the flag is \<open>False\<close>.\<close>

partial_function (option) parse_requests :: "bridge \<Rightarrow> x11_client \<Rightarrow> nat \<Rightarrow> (bridge \<times> x11_client \<times> nat \<times> bool) option" where
  "parse_requests b c consumed =
     (if xc_have c - consumed < 4 then Some (b, c, consumed, True)
      else do {
        len \<leftarrow> rd16 c (consumed + 2);
        (let tot = unat len * 4
         in if len < 1 then Some (b, c, consumed, False)
            else if tot > length (xc_buf c) then Some (b, c, consumed, False)
            else if xc_have c - consumed < tot then Some (b, c, consumed, True)
            else do {
              (b, c, keep) \<leftarrow> x11_client_dispatch_request b c consumed tot;
              (if \<not> keep then Some (b, c, consumed, False)
               else parse_requests b c (consumed + tot))
            })
      })"

definition shift_buffer :: "x11_client \<Rightarrow> nat \<Rightarrow> x11_client" where
  "shift_buffer c consumed =
     (if consumed > 0
      then let rest = xc_have c - consumed
           in c\<lparr>xc_buf := take rest (drop consumed (xc_buf c)) @ drop rest (xc_buf c), xc_have := rest\<rparr>
      else c)"

definition x11_client_drain :: "bridge \<Rightarrow> x11_client \<Rightarrow> handled" where
  "x11_client_drain b c =
     (if \<not> xc_setup_done c then x11_client_do_setup b c
      else case recv_requests b c of
             (b, c, False) \<Rightarrow> Some (b, c, False)
           | (b, c, True) \<Rightarrow> do {
               (b, c, consumed, keep) \<leftarrow> parse_requests b c 0;
               (if \<not> keep then Some (b, c, False) else Some (b, shift_buffer c consumed, True))
             })"

end
