(* ===== verification/X11_Client_Inv.thy ===== *)
theory X11_Client_Inv
  imports X11_Dispatch
begin

text \<open>
  What holds of an X11 client at all times: its receive buffer and tables keep their sizes, ids are unique in each table, and stored values stay within their limits. The rules say of
  each operation that the request handlers call that it returns, and what holds of its result.
\<close>

section \<open>Tables with unique keys\<close>

definition unique_keys :: "('a \<Rightarrow> 'k) \<Rightarrow> 'a option list \<Rightarrow> bool" where
  "unique_keys key xs \<longleftrightarrow>
     (\<forall>i < length xs. \<forall>j < length xs. \<forall>u v. xs ! i = Some u \<longrightarrow> xs ! j = Some v \<longrightarrow> key u = key v \<longrightarrow> i = j)"

lemma find_slot_SomeD: "find_slot P xs = Some i \<Longrightarrow> i < length xs \<and> (\<exists>v. xs ! i = Some v \<and> P v)"
  by (induction xs arbitrary: i) (auto split: if_splits option.splits)

lemma find_slot_None_iff: "find_slot P xs = None \<longleftrightarrow> (\<forall>i < length xs. \<forall>v. xs ! i = Some v \<longrightarrow> \<not> P v)"
proof (induction xs)
  case (Cons x xs)
  then show ?case by (auto simp: nth_Cons' less_Suc_eq_0_disj split: option.splits if_splits)
qed simp

lemma free_slot_SomeD: "free_slot xs = Some i \<Longrightarrow> i < length xs \<and> xs ! i = None"
  by (induction xs arbitrary: i) (auto split: if_splits)

lemma unique_keys_update:
  assumes "unique_keys key xs" "\<And>v j u. y = Some v \<Longrightarrow> j < length xs \<Longrightarrow> j \<noteq> i \<Longrightarrow> xs ! j = Some u \<Longrightarrow> key u \<noteq> key v"
  shows "unique_keys key (xs[i := y])"
  unfolding unique_keys_def
proof (intro allI impI)
  fix a b u v
  assume ab: "a < length (xs[i := y])" "b < length (xs[i := y])" "xs[i := y] ! a = Some u" "xs[i := y] ! b = Some v" "key u = key v"
  show "a = b"
  proof (cases "a = i \<or> b = i")
    case True
    with ab assms(2) show ?thesis by (metis length_list_update nth_list_update_eq nth_list_update_neq)
  next
    case False
    with ab have "a < length xs" "b < length xs" "xs ! a = Some u" "xs ! b = Some v" by simp_all
    with ab(5) assms(1) show ?thesis by (simp add: unique_keys_def)
  qed
qed

lemma unique_keys_free: "unique_keys key xs \<Longrightarrow> unique_keys key (xs[i := None])"
  by (rule unique_keys_update) simp_all

lemma unique_keys_replace:
  "unique_keys key xs \<Longrightarrow> i < length xs \<Longrightarrow> xs ! i = Some old \<Longrightarrow> key new = key old \<Longrightarrow> unique_keys key (xs[i := Some new])"
  by (rule unique_keys_update) (auto simp: unique_keys_def)

lemma unique_keys_alloc:
  "unique_keys key xs \<Longrightarrow> find_slot (\<lambda>v. key v = k) xs = None \<Longrightarrow> key new = k \<Longrightarrow> unique_keys key (xs[i := Some new])"
  by (rule unique_keys_update) (auto simp: find_slot_None_iff)

lemma unique_keys_replicate: "unique_keys key (replicate n None)"
  by (simp add: unique_keys_def)

text \<open>With unique keys the search finds the entry with the key.\<close>

lemma find_slot_unique:
  assumes "unique_keys key xs" "i < length xs" "xs ! i = Some v"
  shows "find_slot (\<lambda>u. key u = key v) xs = Some i"
proof (cases "find_slot (\<lambda>u. key u = key v) xs")
  case None
  with assms show ?thesis by (auto simp: find_slot_None_iff)
next
  case (Some j)
  with find_slot_SomeD [OF Some] assms show ?thesis by (auto simp: unique_keys_def)
qed

section \<open>The invariant\<close>

definition property_ok :: "x11_property \<Rightarrow> bool" where
  "property_ok pr \<longleftrightarrow> length (pr_value pr) \<le> X11_PROP_MAX_BYTES \<and> (pr_format pr = 8 \<or> pr_format pr = 16 \<or> pr_format pr = 32) \<and> pr_property pr \<noteq> 0"

definition window_ok :: "x11_window \<Rightarrow> bool" where
  "window_ok w \<longleftrightarrow> length (xw_props w) = X11_CLIENT_MAX_PROPS \<and> unique_keys pr_property (xw_props w)
     \<and> (\<forall>pr. Some pr \<in> set (xw_props w) \<longrightarrow> property_ok pr)
     \<and> is_i32 (xw_x w) \<and> is_i32 (xw_y w) \<and> is_i32 (xw_w w) \<and> is_i32 (xw_h w) \<and> is_i32 (xw_zpos w)
     \<and> (\<forall>img. xw_backing_image w = Some img \<longrightarrow> length img \<le> X11_PUT_IMAGE_MAX_BYTES)"

definition x11_ok :: "x11_client \<Rightarrow> bool" where
  "x11_ok c \<longleftrightarrow> length (xc_buf c) = X11_CLIENT_RECV_BUF \<and> xc_have c \<le> X11_CLIENT_RECV_BUF
     \<and> length (xc_windows c) = X11_CLIENT_MAX_WIN \<and> unique_keys xw_x11_id (xc_windows c) \<and> (\<forall>w. Some w \<in> set (xc_windows c) \<longrightarrow> window_ok w)
     \<and> length (xc_pixmaps c) = X11_CLIENT_MAX_PIX \<and> unique_keys px_pixmap_xid (xc_pixmaps c)
     \<and> length (xc_gcs c) = X11_CLIENT_MAX_GCS \<and> unique_keys gc_xid (xc_gcs c)
     \<and> length (xc_selections c) = X11_CLIENT_MAX_SELS \<and> unique_keys xs_selection_atom (xc_selections c)
     \<and> length (xc_colormaps c) = X11_CLIENT_MAX_CMAPS \<and> unique_keys cm_colormap_xid (xc_colormaps c)
     \<and> length (xc_fonts c) = X11_CLIENT_MAX_FONTS \<and> unique_keys ft_font_xid (xc_fonts c)
     \<and> (\<forall>f. Some f \<in> set (xc_fonts c) \<longrightarrow> length (ft_name f) < X11_FONT_NAME_MAX)
     \<and> length (xc_cursors c) = X11_CLIENT_MAX_CURSORS \<and> unique_keys cu_cursor_xid (xc_cursors c)"

text \<open>The connection of the bridge to the server is in order, if there is one.\<close>

definition bridge_ok :: "bridge \<Rightarrow> bool" where
  "bridge_ok b \<longleftrightarrow> (\<forall>isz. br_isz b = Some isz \<longrightarrow> conn_ok (il_conn isz))"

text \<open>What a handler does not change of the client.\<close>

definition same_stream :: "x11_client \<Rightarrow> x11_client \<Rightarrow> bool" where
  "same_stream c c' \<longleftrightarrow> xc_buf c' = xc_buf c \<and> xc_have c' = xc_have c \<and> xc_fd c' = xc_fd c \<and> xc_byte_order c' = xc_byte_order c
     \<and> xc_sequence c' = xc_sequence c \<and> xc_setup_done c' = xc_setup_done c \<and> xc_xid_base c' = xc_xid_base c \<and> xc_xid_mask c' = xc_xid_mask c"

definition handled_ok :: "x11_client \<Rightarrow> bridge \<times> x11_client \<times> bool \<Rightarrow> bool" where
  "handled_ok c = (\<lambda>(b', c', keep). bridge_ok b' \<and> x11_ok c' \<and> same_stream c c')"

lemma handled_okI [intro!]: "bridge_ok b' \<Longrightarrow> x11_ok c' \<Longrightarrow> same_stream c c' \<Longrightarrow> handled_ok c (b', c', keep)"
  by (simp add: handled_ok_def)

lemma same_stream_refl [simp]: "same_stream c c"
  by (simp add: same_stream_def)

lemma same_stream_upd [simp]:
  "same_stream c (upd_window c' i w) \<longleftrightarrow> same_stream c c'"
  "same_stream c (upd_gc c' i g) \<longleftrightarrow> same_stream c c'"
  "same_stream c (upd_cursor c' i u) \<longleftrightarrow> same_stream c c'"
  "same_stream c (c'\<lparr>xc_pixmaps := ps\<rparr>) \<longleftrightarrow> same_stream c c'"
  "same_stream c (c'\<lparr>xc_colormaps := ms\<rparr>) \<longleftrightarrow> same_stream c c'"
  "same_stream c (c'\<lparr>xc_fonts := fs\<rparr>) \<longleftrightarrow> same_stream c c'"
  "same_stream c (c'\<lparr>xc_selections := ss\<rparr>) \<longleftrightarrow> same_stream c c'"
  "same_stream c (c'\<lparr>xc_focus_xid := f, xc_focus_revert_to := r\<rparr>) \<longleftrightarrow> same_stream c c'"
  by (simp_all add: same_stream_def upd_window_def upd_gc_def upd_cursor_def)

lemma x11_ok_buf: "x11_ok c \<Longrightarrow> length (xc_buf c) = 16384"
  by (simp add: x11_ok_def)

lemma x11_ok_window: "x11_ok c \<Longrightarrow> window_at c i = Some w \<Longrightarrow> window_ok w"
  by (auto simp: x11_ok_def window_at_def split: if_splits) (metis nth_mem)

lemma x11_ok_upd_window:
  assumes "x11_ok c" "window_at c i = Some old" "xw_x11_id w = xw_x11_id old" "window_ok w"
  shows "x11_ok (upd_window c i (Some w))"
proof -
  have "i < length (xc_windows c)" "xc_windows c ! i = Some old" using assms(2) by (simp_all add: window_at_def split: if_splits)
  with assms unique_keys_replace [of xw_x11_id "xc_windows c" i old w] show ?thesis
    by (auto simp: x11_ok_def upd_window_def dest!: set_update_subset_insert [THEN subsetD])
qed

lemma x11_ok_free_window: "x11_ok c \<Longrightarrow> x11_ok (upd_window c i None)"
  by (auto simp: x11_ok_def upd_window_def unique_keys_free dest!: set_update_subset_insert [THEN subsetD])

lemma x11_ok_new_window:
  assumes "x11_ok c" "x11_client_find_window c xid = None" "window_ok w" "xw_x11_id w = xid"
  shows "x11_ok (upd_window c i (Some w))"
  using assms unique_keys_alloc [of xw_x11_id "xc_windows c" xid w i]
  by (auto simp: x11_ok_def upd_window_def x11_client_find_window_def dest!: set_update_subset_insert [THEN subsetD])

section \<open>Rules for the operations the handlers call\<close>

lemma succeeds_bind: "succeeds r (\<lambda>x. succeeds (f x) Q) \<Longrightarrow> succeeds (Option.bind r f) Q"
  by simp

lemma succeeds_Some: "Q x \<Longrightarrow> succeeds (Some x) Q"
  by simp

lemma bridge_more: "kern.more b' = kern.more (b :: bridge) \<Longrightarrow> br_isz b' = br_isz b"
  by (cases b; cases b') simp

lemma bridge_ok_more: "kern.more b' = kern.more b \<Longrightarrow> bridge_ok b' \<longleftrightarrow> bridge_ok b"
  using bridge_more [of b' b] by (simp add: bridge_ok_def)

lemma bridge_ok_alloc: "k_alloc b = (b', ok) \<Longrightarrow> bridge_ok b' \<longleftrightarrow> bridge_ok b"
  by (rule bridge_ok_more) (auto simp: k_alloc_def split: list.splits)

lemma get_u16_ok [succeeds_intros]:
  "off + 2 \<le> length p \<Longrightarrow> (\<And>v. x11_get_u16 p off bo = Some v \<Longrightarrow> Q v) \<Longrightarrow> succeeds (x11_get_u16 p off bo) Q"
  by (auto simp: x11_get_u16_def succeeds_def)

lemma get_u32_ok [succeeds_intros]:
  "off + 4 \<le> length p \<Longrightarrow> (\<And>v. x11_get_u32 p off bo = Some v \<Longrightarrow> Q v) \<Longrightarrow> succeeds (x11_get_u32 p off bo) Q"
  by (auto simp: x11_get_u32_def succeeds_def)

lemma put_u8_ok [succeeds_intros]: "off < length p \<Longrightarrow> (\<And>p'. length p' = length p \<Longrightarrow> Q p') \<Longrightarrow> succeeds (put_u8 p off v) Q"
  by (simp add: put_u8_def)

lemma put_u16_ok [succeeds_intros]: "off + 2 \<le> length p \<Longrightarrow> (\<And>p'. length p' = length p \<Longrightarrow> Q p') \<Longrightarrow> succeeds (x11_put_u16 p off v bo) Q"
  by (simp add: x11_put_u16_eq)

lemma put_u32_ok [succeeds_intros]: "off + 4 \<le> length p \<Longrightarrow> (\<And>p'. length p' = length p \<Longrightarrow> Q p') \<Longrightarrow> succeeds (x11_put_u32 p off v bo) Q"
  by (simp add: x11_put_u32_eq)

lemma mem_zero_ok [succeeds_intros]: "n \<le> length p \<Longrightarrow> (\<And>p'. length p' = length p \<Longrightarrow> Q p') \<Longrightarrow> succeeds (mem_zero p n) Q"
  by (simp add: mem_zero_def)

lemma memcpy_ok [succeeds_intros]: "off + n \<le> length p \<Longrightarrow> n \<le> length src \<Longrightarrow> (\<And>p'. length p' = length p \<Longrightarrow> Q p') \<Longrightarrow> succeeds (memcpy_at p off src n) Q"
  by (simp add: memcpy_at_def)

lemma rd_bytes_ok [succeeds_intros]: "off + n \<le> length (xc_buf c) \<Longrightarrow> (\<And>v. length v = n \<Longrightarrow> Q v) \<Longrightarrow> succeeds (rd_bytes c off n) Q"
  by (simp add: rd_bytes_def)

lemma send_raw_ok [succeeds_intros]:
  assumes "n \<le> length buf" "bridge_ok b" "\<And>b' ok. bridge_ok b' \<Longrightarrow> Q (b', ok)"
  shows "succeeds (x11_client_send_raw b c buf n) Q"
proof -
  obtain b' ok where s: "isz_send_all b (xc_fd c) (take n buf) = (b', ok)" by fastforce
  with isz_send_all_frame [OF s] bridge_ok_more [of b' b] assms show ?thesis by (simp add: x11_client_send_raw_def)
qed

lemma send_error_ok [succeeds_intros]:
  assumes "bridge_ok b" "\<And>b' ok. bridge_ok b' \<Longrightarrow> Q (b', ok)"
  shows "succeeds (x11_client_send_error b c code v major minor) Q"
  unfolding x11_client_send_error_def Let_def
  by (auto simp: x11_build_error_layout layout_def Let_def intro!: succeeds_intros assms)

lemma bad_ok [succeeds_intros]:
  "bridge_ok b \<Longrightarrow> (\<And>b'. bridge_ok b' \<Longrightarrow> Q (b', c, True)) \<Longrightarrow> succeeds (bad b c code v opcode) Q"
  unfolding bad_def by (auto intro!: succeeds_intros)

text \<open>The calls of the builders return a message of their size in a buffer that has room for it.\<close>

definition built_ok :: "nat \<Rightarrow> (u8 list option \<times> nat) option \<Rightarrow> bool" where
  "built_ok n r \<longleftrightarrow> (\<exists>msg. r = Some (Some msg, n) \<and> n \<le> length msg)"

lemma x11_build_ok: "x11_fits m \<Longrightarrow> x11_size m \<le> length b \<Longrightarrow> built_ok (x11_size m) (x11_build m seq bo b)"
proof -
  have "x11_size m \<le> length (layout bo (x11_fields seq m) (x11_size m))" by (simp add: layout_def Let_def)
  moreover assume "x11_fits m" "x11_size m \<le> length b"
  ultimately show ?thesis using x11_build_layout [of m b seq bo] by (simp add: built_ok_def)
qed

lemmas builders_ok =
  x11_build_ok [of "XGetGeometry d r x y w h bw" for d r x y w h bw, simplified]
  x11_build_ok [of "XInternAtom a" for a, simplified]
  x11_build_ok [of "XMapNotify e w ovr" for e w ovr, simplified]
  x11_build_ok [of "XUnmapNotify e w fc" for e w fc, simplified]
  x11_build_ok [of "XConfigureNotify e w s x y wd h bw ovr" for e w s x y wd h bw ovr, simplified]
  x11_build_ok [of "XDestroyNotify e w" for e w, simplified]
  x11_build_ok [of "XPropertyNotify w a t st" for w a t st, simplified]
  x11_build_ok [of "XGetWindowAttributes bs v c bg wg bp bx ovr su ms mi cm al yo dn" for bs v c bg wg bp bx ovr su ms mi cm al yo dn, simplified]
  x11_build_ok [of "XGetSelectionOwner ow" for ow, simplified]
  x11_build_ok [of "XQueryPointer sm r c rx ry wx wy m" for sm r c rx ry wx wy m, simplified]
  x11_build_ok [of "XSelectionClear t ow sel" for t ow sel, simplified]
  x11_build_ok [of "XNoExpose d mi ma" for d mi ma, simplified]
  x11_build_ok [of "XExpose w x y wd h c" for w x y wd h c, simplified]
  x11_build_ok [of "XQueryBestSize w h" for w h, simplified]

definition reply_built :: "(u8 list option \<times> nat) option \<Rightarrow> bool" where
  "reply_built r \<longleftrightarrow> succeeds r (\<lambda>(msg, n). \<exists>m. msg = Some m \<and> n \<le> length m)"

lemma reply_builtI: "built_ok n r \<Longrightarrow> reply_built r"
  by (auto simp: built_ok_def reply_built_def)

lemmas build_intros = builders_ok builders_ok [THEN reply_builtI]

lemma send_reply_ok [succeeds_intros]:
  assumes "reply_built r" "bridge_ok b" "\<And>b' ok. bridge_ok b' \<Longrightarrow> Q (b', c, ok)"
  shows "succeeds (send_reply b c r) Q"
  using assms(1) unfolding send_reply_def reply_built_def succeeds_def [of r] by (auto intro!: succeeds_intros assms(2,3))

lemma send_buffer_ok [succeeds_intros]:
  assumes "succeeds r (\<lambda>msg. n \<le> length msg)" "bridge_ok b" "\<And>b' ok. bridge_ok b' \<Longrightarrow> Q (b', c, ok)"
  shows "succeeds (send_buffer b c r n) Q"
  using assms(1) unfolding send_buffer_def by (auto simp: succeeds_def [of r] intro!: succeeds_intros assms(2,3))

lemma deliver_ok [succeeds_intros]:
  assumes "built_ok 32 r" "x11_ok c" "bridge_ok b" "\<And>b'. bridge_ok b' \<Longrightarrow> Q b'"
  shows "succeeds (deliver b c r required_mask xid) Q"
proof -
  have win: "find_win c xid = Some i \<Longrightarrow> \<exists>w. window_at c i = Some w" for i
    using find_slot_SomeD [of _ "xc_windows c" i] by (auto simp: find_win_def window_at_def)
  from assms(1) obtain msg where m: "r = Some (Some msg, 32)" "32 \<le> length msg" by (auto simp: built_ok_def)
  show ?thesis
    unfolding deliver_def m(1) translation_deliver_event_def x11_client_send_event_def using m(2) assms(2,3)
    by (auto intro!: succeeds_intros assms(4) split: option.split dest!: win)
qed

text \<open>The entry \<open>i\<close> can be replaced by any valid window with the same id.\<close>

definition writable :: "x11_client \<Rightarrow> nat \<Rightarrow> u32 \<Rightarrow> bool" where
  "writable c i wid \<longleftrightarrow> (\<forall>w. window_ok w \<longrightarrow> xw_x11_id w = wid \<longrightarrow> x11_ok (upd_window c i (Some w)))"

lemma writableD [succeeds_intros]: "writable c i (xw_x11_id w) \<Longrightarrow> window_ok w \<Longrightarrow> x11_ok (upd_window c i (Some w))"
  by (simp add: writable_def)

lemma with_window_ok [succeeds_intros]:
  assumes "x11_ok c" "bridge_ok b" "\<And>b'. bridge_ok b' \<Longrightarrow> Q (b', c, True)"
    "\<And>i win. x11_client_find_window c wid = Some i \<Longrightarrow> window_at c i = Some win \<Longrightarrow> window_ok win \<Longrightarrow> xw_x11_id win = wid \<Longrightarrow> writable c i wid
       \<Longrightarrow> succeeds (f i win) Q"
  shows "succeeds (with_window b c opcode err wid f) Q"
proof (cases "x11_client_find_window c wid")
  case None
  then show ?thesis using assms(2,3) by (auto simp: with_window_def intro!: succeeds_intros)
next
  case (Some i)
  then obtain win where "window_at c i = Some win" "xw_x11_id win = wid"
    using find_slot_SomeD [of _ "xc_windows c" i] by (auto simp: x11_client_find_window_def window_at_def)
  with Some assms(4) [of i win] x11_ok_window [OF assms(1)] x11_ok_upd_window [OF assms(1)] show ?thesis by (simp add: with_window_def writable_def)
qed

section \<open>Messages to the server\<close>

definition sender_ok :: "(bridge \<Rightarrow> isz_link \<Rightarrow> (bridge \<times> isz_link \<times> 'a) option) \<Rightarrow> bool" where
  "sender_ok f \<longleftrightarrow> (\<forall>b isz. conn_ok (il_conn isz) \<longrightarrow> succeeds (f b isz) (\<lambda>(b', isz', r). conn_ok (il_conn isz')))"

lemma link_send_ok: "conn_ok (il_conn isz) \<Longrightarrow> succeeds (link_send (b :: bridge) isz m) (\<lambda>(b', isz', r). conn_ok (il_conn isz'))"
proof -
  assume ok: "conn_ok (il_conn isz)"
  let ?isz = "if m = LinkCreate then isz\<lparr>il_next_surface_id := il_next_surface_id isz + 1\<rparr> else isz"
  from ok have "conn_ok (il_conn ?isz)" by simp
  moreover have "length (link_payload (il_next_surface_id isz) m) \<le> 8184" using length_link_payload [of "il_next_surface_id isz" m] by linarith
  ultimately show ?thesis
    unfolding link_send_eq succeeds_def using isz_client_send_spec [of _ b ?isz "link_id m"] by fastforce
qed

lemmas senders_ok =
  link_send_ok [where m = "LinkPosition i x y" for i x y, simplified]
  link_send_ok [where m = "LinkSize i w h" for i w h, simplified]
  link_send_ok [where m = "LinkOutput i u" for i u, simplified]
  link_send_ok [where m = "LinkPlaneType i t" for i t, simplified]
  link_send_ok [where m = "LinkPlaneSlot i n" for i n, simplified]
  link_send_ok [where m = "LinkZpos i z" for i z, simplified]
  link_send_ok [where m = "LinkDestroy i" for i, simplified]
  link_send_ok [where m = "LinkFocus s i" for s i, simplified]
  link_send_ok [where m = "LinkCommit u f" for u f, simplified]

lemma sender_create_ok: "conn_ok (il_conn isz) \<Longrightarrow> succeeds (isz_client_send_surface_create (b :: bridge) isz) (\<lambda>(b', isz', r). conn_ok (il_conn isz'))"
  using link_send_ok [of isz b LinkCreate] by (auto elim!: succeeds_conseq)

lemma isz_call_ok [succeeds_intros]:
  assumes "br_isz b = Some isz" "bridge_ok b" "sender_ok f" "\<And>b' isz' r. bridge_ok b' \<Longrightarrow> br_isz b' = Some isz' \<Longrightarrow> Q (b', isz', r)"
  shows "succeeds (isz_call b isz f) Q"
proof -
  from assms(1-3) have "succeeds (f b isz) (\<lambda>(b', isz', r). conn_ok (il_conn isz'))" by (simp add: sender_ok_def bridge_ok_def)
  then show ?thesis
    unfolding isz_call_def succeeds_simps by (rule succeeds_conseq) (auto simp: bridge_ok_def intro!: assms(4))
qed

lemmas sender_simps = sender_ok_def senders_ok sender_create_ok isz_client_send_surface_clear_output_def

text \<open>A translation returns and keeps the window valid and its id.\<close>

lemma window_ok_surface [simp]:
  "window_ok (w\<lparr>xw_isz_surface_id := i\<rparr>) = window_ok w"
  "window_ok (w\<lparr>xw_has_output := u\<rparr>) = window_ok w"
  "window_ok (w\<lparr>xw_has_surface := s\<rparr>) = window_ok w"
  "window_ok (w\<lparr>xw_mapped := m\<rparr>) = window_ok w"
  by (simp_all add: window_ok_def)

lemma translation_create_ok [succeeds_intros]:
  assumes "bridge_ok b" "\<And>b' w'. bridge_ok b' \<Longrightarrow> window_ok w' = window_ok win \<Longrightarrow> xw_x11_id w' = xw_x11_id win \<Longrightarrow> Q (b', w')"
  shows "succeeds (translation_on_x11_create_window b win x y w h) Q"
  unfolding translation_on_x11_create_window_def using assms(1)
  by (auto simp: sender_simps Let_def intro!: succeeds_intros assms(2))

lemma translation_map_ok [succeeds_intros]:
  assumes "bridge_ok b" "\<And>b' w'. bridge_ok b' \<Longrightarrow> window_ok w' = window_ok win \<Longrightarrow> xw_x11_id w' = xw_x11_id win \<Longrightarrow> Q (b', w')"
  shows "succeeds (translation_on_x11_map_window b win) Q"
  unfolding translation_on_x11_map_window_def using assms(1)
  by (auto simp: sender_simps intro!: succeeds_intros assms(2))

lemma translation_unmap_ok [succeeds_intros]:
  assumes "bridge_ok b" "\<And>b' w'. bridge_ok b' \<Longrightarrow> window_ok w' = window_ok win \<Longrightarrow> xw_x11_id w' = xw_x11_id win \<Longrightarrow> Q (b', w')"
  shows "succeeds (translation_on_x11_unmap_window b win) Q"
  unfolding translation_on_x11_unmap_window_def using assms(1)
  by (auto simp: sender_simps intro!: succeeds_intros assms(2))

lemma translation_configure_ok [succeeds_intros]:
  assumes "bridge_ok b" "\<And>b'. bridge_ok b' \<Longrightarrow> Q b'"
  shows "succeeds (translation_on_x11_configure_window b win x y w h) Q"
  unfolding translation_on_x11_configure_window_def using assms(1)
  by (auto simp: sender_simps intro!: succeeds_intros assms(2))

lemma translation_destroy_ok [succeeds_intros]:
  assumes "bridge_ok b" "\<And>b' w'. bridge_ok b' \<Longrightarrow> window_ok w' = window_ok win \<Longrightarrow> xw_x11_id w' = xw_x11_id win \<Longrightarrow> Q (b', w')"
  shows "succeeds (translation_on_x11_destroy_window b win) Q"
  unfolding translation_on_x11_destroy_window_def using assms(1)
  by (auto simp: sender_simps intro!: succeeds_intros assms(2))

end
