(* ===== verification/X11_Window_Safe.thy ===== *)
theory X11_Window_Safe
  imports X11_Client_Inv
begin

text \<open>
  The handlers of \<open>X11_Window_Requests\<close> return and keep the invariant, except for the requests in the predicates called hazard, on which the C code has undefined behaviour.
\<close>

unbundle bit_operations_syntax

section \<open>Handlers for windows\<close>

lemma get_geometry_ok:
  assumes "x11_ok c" "bridge_ok b" "p + tot \<le> 16384"
  shows "succeeds (req_get_geometry b c p tot seq) (handled_ok c)"
  unfolding req_get_geometry_def using assms
  by (auto simp: x11_ok_buf [OF assms(1)] Let_def intro!: succeeds_intros build_intros)

lemma map_window_ok:
  assumes "x11_ok c" "bridge_ok b" "p + tot \<le> 16384"
  shows "succeeds (req_map_window b c p tot seq) (handled_ok c)"
  unfolding req_map_window_def using assms
  by (auto simp: x11_ok_buf [OF assms(1)] Let_def intro!: succeeds_intros build_intros)

lemma unmap_window_ok:
  assumes "x11_ok c" "bridge_ok b" "p + tot \<le> 16384"
  shows "succeeds (req_unmap_window b c p tot seq) (handled_ok c)"
  unfolding req_unmap_window_def using assms
  by (auto simp: x11_ok_buf [OF assms(1)] Let_def sender_simps intro!: succeeds_intros build_intros)

lemma get_window_attrs_ok:
  assumes "x11_ok c" "bridge_ok b" "p + tot \<le> 16384"
  shows "succeeds (req_get_window_attrs b c p tot seq) (handled_ok c)"
  unfolding req_get_window_attrs_def using assms
  by (auto simp: x11_ok_buf [OF assms(1)] Let_def intro!: succeeds_intros build_intros)

lemma window_value_ok [simp]: "window_ok (window_value w cw v) = window_ok w" "xw_x11_id (window_value w cw v) = xw_x11_id w"
  by (simp_all add: window_value_def window_ok_def)

lemma parse_window_values_ok:
  assumes "vp + remaining \<le> length buf" "\<And>w' ok. window_ok w' = window_ok win \<Longrightarrow> xw_x11_id w' = xw_x11_id win \<Longrightarrow> Q (w', ok)"
  shows "succeeds (parse_window_values ns buf vp remaining mask' bo win) Q"
  using assms by (induction ns buf vp remaining mask' bo win rule: parse_window_values.induct) (auto intro!: get_u32_ok)

lemma parse_value_list_ok [succeeds_intros]:
  assumes "vp + remaining \<le> length buf" "\<And>w' ok. window_ok w' = window_ok win \<Longrightarrow> xw_x11_id w' = xw_x11_id win \<Longrightarrow> Q (w', ok)"
  shows "succeeds (parse_window_value_list buf vp remaining mask' bo win) Q"
  unfolding parse_window_value_list_def using assms by (rule parse_window_values_ok)

lemma change_window_attrs_ok:
  assumes "x11_ok c" "bridge_ok b" "p + tot \<le> 16384"
  shows "succeeds (req_change_window_attrs b c p tot) (handled_ok c)"
  unfolding req_change_window_attrs_def Let_def using assms
  by (auto simp: x11_ok_buf [OF assms(1)] intro!: succeeds_intros; arith)

lemma zero_window_ok [simp]: "window_ok zero_window"
  by (simp add: window_ok_def zero_window_def unique_keys_replicate)

text \<open>The guard of \<^verbatim>\<open>CreateWindow\<close> asks for 24 bytes, but the value mask lies behind them.\<close>

definition create_window_hazard :: "nat \<Rightarrow> nat \<Rightarrow> bool" where
  "create_window_hazard p tot \<longleftrightarrow> 28 \<le> tot \<and> p + 32 > X11_CLIENT_RECV_BUF"

lemma new_window_None: "x11_client_new_window c wid = (c', None) \<Longrightarrow> c' = c"
  by (simp add: x11_client_new_window_def split: option.splits)

lemma new_window_Some:
  assumes "x11_client_new_window c wid = (c', Some i)" "x11_ok c" "x11_client_find_window c wid = None"
  shows "window_at c' i = Some (zero_window\<lparr>xw_x11_id := wid\<rparr>) \<and> x11_ok c' \<and> writable c' i wid \<and> same_stream c c'"
proof -
  let ?w = "zero_window\<lparr>xw_x11_id := wid\<rparr>"
  from assms(1) have i: "free_slot (xc_windows c) = Some i" "c' = upd_window c i (Some ?w)"
    by (auto simp: x11_client_new_window_def split: option.splits)
  have "window_ok ?w" using zero_window_ok by (simp add: window_ok_def)
  then have x: "x11_ok c'" using x11_ok_new_window [OF assms(2,3)] i(2) by simp
  moreover have at: "window_at c' i = Some ?w" using free_slot_SomeD [OF i(1)] i(2) by (simp add: window_at_def upd_window_def)
  moreover have "writable c' i wid"
    unfolding writable_def by (intro allI impI, rule x11_ok_upd_window [OF x at]) simp_all
  ultimately show ?thesis using i(2) by simp
qed

lemma window_ok_attrs [simp]:
  "window_ok (w\<lparr>xw_x11_id := v\<rparr>) = window_ok w" "window_ok (w\<lparr>xw_depth := d\<rparr>) = window_ok w" "window_ok (w\<lparr>xw_window_class := cl\<rparr>) = window_ok w"
  "window_ok (w\<lparr>xw_visual_id := v\<rparr>) = window_ok w" "window_ok (w\<lparr>xw_parent_xid := v\<rparr>) = window_ok w"
  "window_ok (w\<lparr>xw_border_width := bw\<rparr>) = window_ok w" "window_ok (w\<lparr>xw_event_mask := v\<rparr>) = window_ok w"
  "window_ok (w\<lparr>xw_override_redirect := f\<rparr>) = window_ok w" "window_ok (w\<lparr>xw_cursor_xid := v\<rparr>) = window_ok w"
  "window_ok (w\<lparr>xw_bit_gravity := g\<rparr>) = window_ok w" "window_ok (w\<lparr>xw_win_gravity := g\<rparr>) = window_ok w"
  "window_ok (w\<lparr>xw_backing_store := g\<rparr>) = window_ok w" "window_ok (w\<lparr>xw_backing_planes := v\<rparr>) = window_ok w"
  "window_ok (w\<lparr>xw_backing_pixel := v\<rparr>) = window_ok w" "window_ok (w\<lparr>xw_background_pixel := v\<rparr>) = window_ok w"
  "window_ok (w\<lparr>xw_colormap := v\<rparr>) = window_ok w" "window_ok (w\<lparr>xw_save_under := f\<rparr>) = window_ok w"
  "window_ok (w\<lparr>xw_do_not_propagate_mask := m\<rparr>) = window_ok w"
  by (simp_all add: window_ok_def)

lemma window_ok_geometry:
  "window_ok w \<Longrightarrow> is_i32 x \<Longrightarrow> is_i32 y \<Longrightarrow> is_i32 wd \<Longrightarrow> is_i32 h \<Longrightarrow> window_ok (w\<lparr>xw_x := x, xw_y := y, xw_w := wd, xw_h := h\<rparr>)"
  by (simp add: window_ok_def)

lemma i32_of_u16: "is_i32 (sint v)" "is_i32 (uint v)" for v :: u16
  using sint_range_size [of v] uint_lt2p [of v] order_trans [OF _ uint_ge_0 [of v], of "- (2 ^ 31)"] by (simp_all add: word_size)

lemma create_window_ok:
  assumes "x11_ok c" "bridge_ok b" "p + tot \<le> 16384" "\<not> create_window_hazard p tot"
  shows "succeeds (req_create_window b c p tot data seq) (handled_ok c)"
  unfolding req_create_window_def Let_def using assms
  by (auto simp: x11_ok_buf [OF assms(1)] create_window_hazard_def i32_of_u16 [simplified]
      intro!: succeeds_intros window_ok_geometry dest!: new_window_None new_window_Some)

text \<open>\<^verbatim>\<open>ConfigureWindow\<close> writes 32 bits into its 16-bit variable when the request has a value for the border width.\<close>

fun border_reached :: "nat list \<Rightarrow> u16 \<Rightarrow> nat \<Rightarrow> bool" where
  "border_reached [] mask' remaining = False"
| "border_reached (n # ns) mask' remaining =
     (if mask' AND push_bit n 1 = 0 then border_reached ns mask' remaining
      else if remaining < 4 then False
      else n = 4 \<or> border_reached ns mask' (remaining - 4))"

definition cfg_ok :: "cfg \<Rightarrow> bool" where
  "cfg_ok f \<longleftrightarrow> is_i32 (cf_x f) \<and> is_i32 (cf_y f) \<and> is_i32 (cf_w f) \<and> is_i32 (cf_h f)"

lemma i32_of_u32: "is_i32 (sint v)" for v :: u32
  using sint_range_size [of v] by (simp add: word_size)

lemma cfg_value_ok: "n \<noteq> 4 \<Longrightarrow> cfg_ok f \<Longrightarrow> succeeds (cfg_value f n v) cfg_ok"
  by (auto simp: cfg_value_def cfg_ok_def i32_of_u32 [simplified])

lemma cfg_values_ok:
  assumes "\<not> border_reached ns mask' remaining" "vp + remaining \<le> length (xc_buf c)" "cfg_ok f"
  shows "succeeds (cfg_values ns c vp remaining mask' f) cfg_ok"
  using assms
proof (induction ns arbitrary: vp remaining f)
  case (Cons n ns)
  show ?case
  proof (cases "mask' AND push_bit n 1 = 0 \<or> remaining < 4")
    case True
    with Cons show ?thesis by auto
  next
    case False
    then have n: "n \<noteq> 4" "\<not> border_reached ns mask' (remaining - 4)" using Cons.prems(1) by auto
    have "succeeds (cfg_value f n v \<bind> cfg_values ns c (vp + 4) (remaining - 4) mask') cfg_ok" for v
      unfolding succeeds_simps
      by (rule succeeds_conseq [OF cfg_value_ok [OF n(1) Cons.prems(3)]], rule Cons.IH) (use False n Cons.prems in auto)
    with False Cons.prems(2) show ?thesis by (auto intro!: get_u32_ok)
  qed
qed simp

text \<open>The last disjunct is the overflow of the stacking position.\<close>

definition configure_hazard :: "bridge \<Rightarrow> x11_client \<Rightarrow> nat \<Rightarrow> nat \<Rightarrow> bool" where
  "configure_hazard b c p tot \<longleftrightarrow> 12 \<le> tot \<and>
     (\<exists>window i win mask'. rd32 c (p + 4) = Some window \<and> x11_client_find_window c window = Some i \<and> window_at c i = Some win
        \<and> rd16 c (p + 8) = Some mask'
        \<and> (border_reached [0..<7] mask' (tot - 12)
           \<or> (\<exists>f m. cfg_values [0..<7] c (p + 12) (tot - 12) mask'
                 \<lparr>cf_x = xw_x win, cf_y = xw_y win, cf_w = xw_w win, cf_h = xw_h win, cf_stack = None\<rparr> = Some f
               \<and> cf_stack f = Some m \<and> xw_has_surface win \<and> br_isz b \<noteq> None \<and> stack_zpos (xw_zpos win) m = None)))"

lemma stack_zpos_i32: "is_i32 z \<Longrightarrow> stack_zpos z m = Some z' \<Longrightarrow> is_i32 z'"
  by (auto simp: stack_zpos_def i32_def split: if_splits)

lemma restack_ok:
  assumes "bridge_ok b" "window_ok win"
    "\<And>m. s = Some m \<Longrightarrow> xw_has_surface win \<Longrightarrow> br_isz b \<noteq> None \<Longrightarrow> stack_zpos (xw_zpos win) m \<noteq> None"
  shows "succeeds (restack b win s) (\<lambda>(b', win'). bridge_ok b' \<and> window_ok win' \<and> xw_x11_id win' = xw_x11_id win)"
proof (cases "\<exists>m isz. s = Some m \<and> br_isz b = Some isz \<and> xw_has_surface win")
  case True
  then obtain m isz z where s: "s = Some m" "br_isz b = Some isz" "xw_has_surface win" "stack_zpos (xw_zpos win) m = Some z"
    using assms(3) by auto
  have "is_i32 (xw_zpos win)" using assms(2) by (simp add: window_ok_def)
  from stack_zpos_i32 [OF this s(4)] have "window_ok (win\<lparr>xw_zpos := z\<rparr>)" using assms(2) by (simp add: window_ok_def)
  moreover have "sender_ok (\<lambda>b isz. isz_client_send_surface_set_zpos b isz (xw_isz_surface_id win) z)" by (simp add: sender_simps)
  ultimately show ?thesis
    unfolding restack_def using s assms(1,2) by (simp, intro impI isz_call_ok [OF s(2) assms(1)]) auto
next
  case False
  with assms(1,2) show ?thesis by (cases s; cases "br_isz b") (auto simp: restack_def)
qed

text \<open>The part of the handler after the window was found.\<close>

lemma configure_body_ok:
  assumes "x11_ok c" "bridge_ok b" "writable c i (xw_x11_id win)" "cfg_ok f" "window_ok win"
    "\<And>m. cf_stack f = Some m \<Longrightarrow> xw_has_surface win \<Longrightarrow> br_isz b \<noteq> None \<Longrightarrow> stack_zpos (xw_zpos win) m \<noteq> None"
  shows "succeeds (do {
          let win = win\<lparr>xw_x := cf_x f, xw_y := cf_y f, xw_w := cf_w f, xw_h := cf_h f\<rparr>;
          (b, win) \<leftarrow> restack b win (cf_stack f);
          b \<leftarrow> translation_on_x11_configure_window b win (cf_x f) (cf_y f) (cf_w f) (cf_h f);
          let c = upd_window c i (Some win);
          b \<leftarrow> deliver b c (x11_build_configure_notify (Some (replicate 32 0)) (xw_x11_id win) (xw_x11_id win) 0 (cf_x f) (cf_y f)
                 (word_of_int (cf_w f)) (word_of_int (cf_h f)) (xw_border_width win) (xw_override_redirect win) seq (xc_byte_order c))
                 X11_EVMASK_STRUCTURE_NOTIFY (xw_x11_id win);
          Some (b, c, True)
        }) (handled_ok c)"
proof -
  let ?win = "win\<lparr>xw_x := cf_x f, xw_y := cf_y f, xw_w := cf_w f, xw_h := cf_h f\<rparr>"
  have "window_ok ?win" using assms(4,5) by (auto simp: cfg_ok_def intro!: window_ok_geometry)
  then have "succeeds (restack b ?win (cf_stack f)) (\<lambda>(b', win'). bridge_ok b' \<and> window_ok win' \<and> xw_x11_id win' = xw_x11_id win)"
    using restack_ok [of b ?win "cf_stack f"] assms(2,6) by simp
  then show ?thesis
    unfolding Let_def succeeds_simps
    by (rule succeeds_conseq) (use assms(1,3) in \<open>auto intro!: succeeds_intros build_intros\<close>)
qed

lemma configure_window_ok:
  assumes "x11_ok c" "bridge_ok b" "p + tot \<le> 16384" "\<not> configure_hazard b c p tot"
  shows "succeeds (req_configure_window b c p tot seq) (handled_ok c)"
proof (cases "tot < 12")
  case True
  with assms show ?thesis by (auto simp: req_configure_window_def intro!: succeeds_intros)
next
  case False
  then have t: "12 \<le> tot" by simp
  have cfg: "succeeds (cfg_values [0..<7] c (p + 12) (tot - 12) mask'
        \<lparr>cf_x = xw_x win, cf_y = xw_y win, cf_w = xw_w win, cf_h = xw_h win, cf_stack = None\<rparr>)
      (\<lambda>f. cfg_ok f \<and> (\<forall>m. cf_stack f = Some m \<longrightarrow> xw_has_surface win \<longrightarrow> br_isz b \<noteq> None \<longrightarrow> stack_zpos (xw_zpos win) m \<noteq> None))"
    if w: "rd32 c (p + 4) = Some (xw_x11_id win)" "x11_client_find_window c (xw_x11_id win) = Some i" "window_at c i = Some win" "window_ok win"
      and m: "rd16 c (p + 8) = Some mask'" for i win mask'
  proof -
    let ?f = "\<lparr>cf_x = xw_x win, cf_y = xw_y win, cf_w = xw_w win, cf_h = xw_h win, cf_stack = None\<rparr>"
    have "cfg_ok ?f" using w(4) by (simp add: cfg_ok_def window_ok_def)
    moreover have "\<not> border_reached [0..<7] mask' (tot - 12)" using assms(4) t w m unfolding configure_hazard_def by blast
    ultimately obtain f where f: "cfg_values [0..<7] c (p + 12) (tot - 12) mask' ?f = Some f" "cfg_ok f"
      using cfg_values_ok [of "[0..<7]" mask' "tot - 12" "p + 12" c ?f] False assms(3) x11_ok_buf [OF assms(1)] by (auto simp: succeeds_def)
    moreover have "stack_zpos (xw_zpos win) m \<noteq> None" if "cf_stack f = Some m" "xw_has_surface win" "br_isz b \<noteq> None" for m
    proof
      assume "stack_zpos (xw_zpos win) m = None"
      with f(1) that have "\<exists>f m. cfg_values [0..<7] c (p + 12) (tot - 12) mask' ?f = Some f \<and> cf_stack f = Some m \<and> xw_has_surface win
          \<and> br_isz b \<noteq> None \<and> stack_zpos (xw_zpos win) m = None" by blast
      with t w m assms(4) show False unfolding configure_hazard_def by blast
    qed
    ultimately show ?thesis by (simp add: succeeds_def del: upt_Suc upt_rec_numeral)
  qed
  show ?thesis
    unfolding req_configure_window_def Let_def using assms False
    by (auto simp: x11_ok_buf [OF assms(1)] simp del: upt_rec_numeral intro!: succeeds_intros succeeds_conseq [OF cfg] configure_body_ok [unfolded succeeds_simps Let_def])
qed

text \<open>\<^verbatim>\<open>DestroyWindow\<close>: a pass over the table frees the windows whose parent is the window.\<close>

definition child_of :: "u32 \<Rightarrow> x11_window option \<Rightarrow> bool" where
  "child_of window x \<longleftrightarrow> (case x of None \<Rightarrow> False | Some w \<Rightarrow> xw_parent_xid w = window)"

fun drop_children :: "u32 \<Rightarrow> nat list \<Rightarrow> x11_window option list \<Rightarrow> x11_window option list" where
  "drop_children window [] xs = xs"
| "drop_children window (i # is) xs = drop_children window is (if i < length xs \<and> child_of window (xs ! i) then xs[i := None] else xs)"

lemma length_drop_children [simp]: "length (drop_children window is xs) = length xs"
  by (induction window "is" xs rule: drop_children.induct) auto

lemma nth_drop_children:
  "j < length xs \<Longrightarrow> drop_children window is xs ! j = (if j \<in> set is \<and> child_of window (xs ! j) then None else xs ! j)"
proof (induction window "is" xs rule: drop_children.induct)
  case (2 window i "is" xs)
  have "\<not> child_of window None" by (simp add: child_of_def)
  with 2 show ?case by (cases "j = i") auto
qed simp

lemma destroy_entry_ok:
  assumes "bridge_ok b"
  shows "\<exists>b'. destroy_entry b c i win = Some (b', upd_window c i None) \<and> bridge_ok b'"
  using translation_destroy_ok [of b win "\<lambda>(b', w'). bridge_ok b'"] assms by (auto simp: destroy_entry_def succeeds_def)

lemma destroy_pass_spec:
  assumes "bridge_ok b"
  shows "\<exists>b'. bridge_ok b' \<and> destroy_pass is b c window changed
    = Some (b', c\<lparr>xc_windows := drop_children window is (xc_windows c)\<rparr>, changed \<or> (\<exists>i \<in> set is. i < length (xc_windows c) \<and> child_of window (xc_windows c ! i)))"
  using assms
proof (induction "is" arbitrary: b c changed)
  case (Cons i "is")
  show ?case
  proof (cases "i < length (xc_windows c) \<and> child_of window (xc_windows c ! i)")
    case True
    then obtain w where w: "window_at c i = Some w" "xw_parent_xid w = window" by (auto simp: window_at_def child_of_def split: option.splits)
    from destroy_entry_ok [OF Cons.prems] obtain b1 where b1: "destroy_entry b c i w = Some (b1, upd_window c i None)" "bridge_ok b1" by blast
    from Cons.IH [OF b1(2), of "upd_window c i None" True] True w b1(1) show ?thesis by (auto simp: upd_window_def)
  next
    case False
    then have "destroy_pass (i # is) b c window changed = destroy_pass is b c window changed"
      by (auto simp: window_at_def child_of_def split: option.splits)
    with Cons.IH [OF Cons.prems, of c changed] False show ?thesis by auto
  qed
qed simp

definition without_children :: "u32 \<Rightarrow> x11_client \<Rightarrow> x11_client" where
  "without_children window c = c\<lparr>xc_windows := map (\<lambda>x. if child_of window x then None else x) (xc_windows c)\<rparr>"

lemma destroy_children_ok:
  assumes "bridge_ok b" "x11_ok c"
  shows "\<exists>b'. bridge_ok b' \<and> destroy_children b c window = Some (b', without_children window c)"
proof -
  have len: "length (xc_windows c) = 64" using assms(2) by (simp add: x11_ok_def)
  have all: "drop_children window [0..<64] xs = map (\<lambda>x. if child_of window x then None else x) xs" if "length xs = 64" for xs
    using that by (intro nth_equalityI) (auto simp: nth_drop_children simp del: upt_rec_numeral)
  have pass: "\<exists>b'. bridge_ok b' \<and> destroy_pass [0..<64] b c window False
      = Some (b', without_children window c, \<exists>x \<in> set (xc_windows c). child_of window x)"
    if "bridge_ok b" "length (xc_windows c) = 64" for b c
  proof -
    have "(\<exists>i \<in> set [0..<64]. i < length (xc_windows c) \<and> child_of window (xc_windows c ! i)) \<longleftrightarrow> (\<exists>x \<in> set (xc_windows c). child_of window x)"
      unfolding set_upt Bex_def in_set_conv_nth atLeastLessThan_iff that(2) by auto
    with destroy_pass_spec [OF that(1), of "[0..<64]" c window False] all [OF that(2)] show ?thesis
      unfolding without_children_def by simp
  qed
  from pass [OF assms(1) len] obtain b1 where b1: "bridge_ok b1"
    "destroy_pass [0..<64] b c window False = Some (b1, without_children window c, \<exists>x \<in> set (xc_windows c). child_of window x)" by blast
  let ?c = "without_children window c"
  have none: "\<not> (\<exists>x \<in> set (xc_windows ?c). child_of window x)" by (auto simp: without_children_def child_of_def)
  have idem: "without_children window ?c = ?c"
    by (auto simp: without_children_def child_of_def split: option.splits)
  have "length (xc_windows ?c) = 64" using len by (simp add: without_children_def)
  from pass [OF b1(1) this] none idem obtain b2 where b2: "bridge_ok b2" "destroy_pass [0..<64] b1 ?c window False = Some (b2, ?c, False)"
    by (simp only: simp_thms) blast
  show ?thesis
    using b1 b2 destroy_children.simps [of b c window] destroy_children.simps [of b1 ?c window] by (auto simp del: upt_rec_numeral)
qed

lemma without_children_ok: "x11_ok c \<Longrightarrow> x11_ok (without_children window c)"
  by (auto simp: x11_ok_def without_children_def unique_keys_def split: if_splits)

lemma destroy_window_ok:
  assumes "x11_ok c" "bridge_ok b" "p + tot \<le> 16384"
  shows "succeeds (req_destroy_window b c p tot seq) (handled_ok c)"
proof -
  have entry: "succeeds (destroy_entry b c i win) (\<lambda>x. succeeds (case x of (b, c) \<Rightarrow> do { (b, c) \<leftarrow> destroy_children b c window; Some (b, c, True) }) (handled_ok c))"
    if "bridge_ok b" for b i win window
  proof -
    from destroy_entry_ok [OF that, of c i win] obtain b1 where b1: "destroy_entry b c i win = Some (b1, upd_window c i None)" "bridge_ok b1" by blast
    from destroy_children_ok [OF b1(2) x11_ok_free_window [OF assms(1)]] obtain b2
      where "bridge_ok b2" "destroy_children b1 (upd_window c i None) window = Some (b2, without_children window (upd_window c i None))" by blast
    moreover have "same_stream c (without_children window (upd_window c i None))" by (simp add: same_stream_def without_children_def upd_window_def)
    ultimately show ?thesis using b1(1) without_children_ok [OF x11_ok_free_window [OF assms(1)]] by auto
  qed
  show ?thesis
    unfolding req_destroy_window_def using assms
    by (auto simp: x11_ok_buf [OF assms(1)] intro!: succeeds_intros build_intros entry)
qed

lemma length_children_of: "length (children_of c wid) \<le> length (xc_windows c)"
proof -
  have "length (concat (map f xs)) \<le> length xs" if "\<And>x. length (f x) \<le> 1" for f :: "x11_window option \<Rightarrow> u32 list" and xs
  proof (induction xs)
    case (Cons x xs)
    then show ?case using that [of x] by simp
  qed simp
  then show ?thesis unfolding children_of_def by (simp split: option.split)
qed

lemma query_tree_ok:
  assumes "x11_ok c" "bridge_ok b" "p + tot \<le> 16384"
  shows "succeeds (req_query_tree b c p tot seq) (handled_ok c)"
proof -
  have built: "built_ok (32 + 4 * length (children_of c wid)) (x11_build_query_tree_reply (Some (replicate 288 0)) 288 r parent
      (children_of c wid) (of_nat (length (children_of c wid))) seq bo)" for wid r parent bo
    using x11_build_ok [of "XQueryTree r parent (children_of c wid)" "replicate 288 0" seq bo] length_children_of [of c wid] assms(1)
    by (simp add: x11_ok_def)
  show ?thesis
    unfolding req_query_tree_def Let_def using assms
    by (auto simp: x11_ok_buf [OF assms(1)] intro!: succeeds_intros built [THEN reply_builtI])
qed

section \<open>Handlers for atoms and properties\<close>

lemma grow_atoms_isz: "grow_atoms b = (b', ok) \<Longrightarrow> br_isz b' = br_isz (b :: bridge)"
  by (auto simp: grow_atoms_def k_alloc_def split: if_splits list.splits prod.splits bool.splits)

lemma intern_isz: "x11_atom_intern b name only = (b', atom) \<Longrightarrow> br_isz b' = br_isz (b :: bridge)"
  by (auto simp: x11_atom_intern_def k_alloc_def Let_def split: if_splits option.splits list.splits prod.splits bool.splits dest!: grow_atoms_isz)

lemma intern_atom_ok:
  assumes "x11_ok c" "bridge_ok b" "p + tot \<le> 16384"
  shows "succeeds (req_intern_atom b c p tot data seq) (handled_ok c)"
  unfolding req_intern_atom_def Let_def using assms intern_isz
  by (auto simp: x11_ok_buf [OF assms(1)] bridge_ok_def intro!: succeeds_intros build_intros)

text \<open>A name of 257 to 260 bytes fits the reply but not the buffer that it is read from.\<close>

definition atom_name_hazard :: "bridge \<Rightarrow> x11_client \<Rightarrow> nat \<Rightarrow> nat \<Rightarrow> bool" where
  "atom_name_hazard b c p tot \<longleftrightarrow> 8 \<le> tot \<and>
     (\<exists>atom. rd32 c (p + 4) = Some atom \<and> atom \<noteq> 0 \<and> 256 < snd (x11_atom_get_name b atom (replicate 256 0)) \<and> snd (x11_atom_get_name b atom (replicate 256 0)) \<le> 260)"

lemma atom_name_reply_ok:
  assumes "unat n \<le> length name \<or> 260 < unat n"
  shows "reply_built (x11_build_get_atom_name_reply (Some (replicate 292 0)) 292 (Some name) n seq bo)"
  using assms x11_pad4_ge(1) [of "unat n"] unfolding reply_built_def x11_build_get_atom_name_reply_def Let_def
  by (auto intro!: succeeds_intros)

lemma length_copy_name: "buf \<noteq> [] \<Longrightarrow> length (copy_name buf name) = length buf"
  by (simp add: copy_name_def)

lemma get_atom_name_len: "x11_atom_get_name b atom (replicate 256 0) = (namebuf, n) \<Longrightarrow> length namebuf = 256"
  by (auto simp: x11_atom_get_name_def Let_def length_copy_name split: if_splits option.splits)

lemma get_atom_name_ok:
  assumes "x11_ok c" "bridge_ok b" "p + tot \<le> 16384" "\<not> atom_name_hazard b c p tot"
  shows "succeeds (req_get_atom_name b c p tot seq) (handled_ok c)"
proof -
  have len: "n \<le> length namebuf"
    if "x11_atom_get_name b atom (replicate 256 0) = (namebuf, n)" "rd32 c (p + 4) = Some atom" "\<not> tot - 4 < 4" "\<not> 260 < n" "atom \<noteq> 0" for namebuf n atom
    using that assms(4) get_atom_name_len [OF that(1)] by (auto simp: atom_name_hazard_def)
  show ?thesis
    unfolding req_get_atom_name_def Let_def using assms
    by (auto simp: x11_ok_buf [OF assms(1)] unat_of_nat take_bit_nat_eq_self intro!: succeeds_intros atom_name_reply_ok) (rule len)
qed

lemma window_ok_prop_clear [simp]: "window_ok win \<Longrightarrow> window_ok (x11_window_prop_clear win j)" "xw_x11_id (x11_window_prop_clear win j) = xw_x11_id win"
  by (auto simp: window_ok_def x11_window_prop_clear_def unique_keys_free dest!: set_update_subset_insert [THEN subsetD])

lemma window_ok_set_prop:
  assumes "window_ok win" "property_ok pr" "x11_window_prop_find win (pr_property pr) = None \<or> x11_window_prop_find win (pr_property pr) = Some j"
  shows "window_ok (set_prop win j pr)"
proof -
  have "unique_keys pr_property ((xw_props win)[j := Some pr])"
    using assms(3)
  proof
    assume "x11_window_prop_find win (pr_property pr) = None"
    then show ?thesis using assms(1) by (auto simp: x11_window_prop_find_def window_ok_def intro: unique_keys_alloc)
  next
    assume "x11_window_prop_find win (pr_property pr) = Some j"
    then obtain old where "j < length (xw_props win)" "xw_props win ! j = Some old" "pr_property old = pr_property pr"
      using find_slot_SomeD [of _ "xw_props win" j] by (auto simp: x11_window_prop_find_def)
    with assms(1) show ?thesis by (auto simp: window_ok_def intro: unique_keys_replace)
  qed
  with assms(1,2) show ?thesis by (auto simp: window_ok_def set_prop_def dest!: set_update_subset_insert [THEN subsetD])
qed

lemma set_prop_simps [simp]: "set_prop (x11_window_prop_clear win j) j pr = set_prop win j pr" "xw_x11_id (set_prop win j pr) = xw_x11_id win"
  by (simp_all add: set_prop_def x11_window_prop_clear_def)

lemma prop_find_at:
  assumes "x11_window_prop_find win prop = Some j"
  shows "\<exists>pr. prop_at win j = Some pr \<and> pr_property pr = prop"
  using find_slot_SomeD [of _ "xw_props win" j] assms by (auto simp: x11_window_prop_find_def prop_at_def)

lemma prop_alloc_at: "x11_window_prop_alloc win = Some j \<Longrightarrow> prop_at win j = None"
  using free_slot_SomeD [of "xw_props win" j] by (simp add: x11_window_prop_alloc_def prop_at_def)

text \<open>The slot is the one of the property, or a free one when the window does not have the property.\<close>

definition prop_slot :: "x11_window \<Rightarrow> u32 \<Rightarrow> nat \<Rightarrow> bool" where
  "prop_slot win prop j \<longleftrightarrow> (case x11_window_prop_find win prop of Some i \<Rightarrow> i = j | None \<Rightarrow> x11_window_prop_alloc win = Some j)"

lemma write_property_ok:
  assumes "write_property b win j (prop_at win j) mode prop type fmt bytes = (b', win', err)" "window_ok win" "prop_slot win prop j"
    "prop \<noteq> 0" "fmt = 8 \<or> fmt = 16 \<or> fmt = 32" "length bytes \<le> 4096"
  shows "window_ok win'" "xw_x11_id win' = xw_x11_id win" "bridge_ok b \<Longrightarrow> bridge_ok b'"
proof -
  have find: "x11_window_prop_find win prop = None \<or> x11_window_prop_find win prop = Some j" using assms(3) by (auto simp: prop_slot_def split: option.splits)
  have new: "window_ok (set_prop win j \<lparr>pr_property = prop, pr_type = type, pr_format = fmt, pr_value = bytes\<rparr>)"
    by (rule window_ok_set_prop) (use assms find in \<open>auto simp: property_ok_def\<close>)
  have grown: "window_ok (set_prop win j (slot\<lparr>pr_value := v\<rparr>))" if "prop_at win j = Some slot" "length v \<le> 4096" for slot v
  proof (rule window_ok_set_prop [OF assms(2)])
    have "Some slot \<in> set (xw_props win)" using that(1) by (auto simp: prop_at_def split: if_splits) (metis nth_mem)
    with assms(2) that(2) show "property_ok (slot\<lparr>pr_value := v\<rparr>)" by (auto simp: window_ok_def property_ok_def)
    have "pr_property slot = prop" using that(1) find assms(3) prop_find_at prop_alloc_at by (fastforce simp: prop_slot_def)
    with find show "x11_window_prop_find win (pr_property (slot\<lparr>pr_value := v\<rparr>)) = None \<or> x11_window_prop_find win (pr_property (slot\<lparr>pr_value := v\<rparr>)) = Some j"
      by simp
  qed
  from assms(1,2) new grown show "window_ok win'"
    by (auto simp: write_property_def Let_def split: option.splits if_splits prod.splits bool.splits)
  from assms(1) show "xw_x11_id win' = xw_x11_id win"
    by (auto simp: write_property_def Let_def split: option.splits if_splits prod.splits bool.splits)
  from assms(1) show "bridge_ok b \<Longrightarrow> bridge_ok b'"
    by (auto simp: write_property_def Let_def split: option.splits if_splits prod.splits bool.splits dest!: bridge_ok_alloc)
qed

lemma store_property_ok:
  assumes "x11_ok c" "bridge_ok b" "window_ok win" "writable c i (xw_x11_id win)"
    "(case x11_window_prop_find win prop of Some j \<Rightarrow> Some j | None \<Rightarrow> x11_window_prop_alloc win) = Some j"
    "prop \<noteq> 0" "\<not> (fmt \<noteq> 8 \<and> fmt \<noteq> 16 \<and> fmt \<noteq> 32)" "length bytes \<le> 4096"
  shows "succeeds (store_property b c i win j mode prop type fmt bytes seq) (handled_ok c)"
proof (cases "write_property b win j (prop_at win j) mode prop type fmt bytes")
  case (fields b' win' err)
  have slot: "prop_slot win prop j" using assms(5) by (auto simp: prop_slot_def split: option.splits)
  have fmt: "fmt = 8 \<or> fmt = 16 \<or> fmt = 32" using assms(7) by blast
  note w = write_property_ok [OF fields assms(3) slot assms(6) fmt assms(8)]
  have "writable c i (xw_x11_id win')" using assms(4) w(2) by simp
  with w assms(2) fields show ?thesis unfolding store_property_def Let_def by (auto intro!: succeeds_intros build_intros split: option.split)
qed

lemma change_property_ok:
  assumes "x11_ok c" "bridge_ok b" "p + tot \<le> 16384"
  shows "succeeds (req_change_property b c p tot data seq) (handled_ok c)"
  unfolding req_change_property_def Let_def
  by (intro succeeds_bind succeeds_Some get_u32_ok succeeds_if with_window_ok succeeds_case_option rd_bytes_ok bad_ok store_property_ok)
    (use assms x11_ok_buf [OF assms(1)] in auto)

lemma property_reply_ok:
  assumes "\<And>v. value' = Some v \<Longrightarrow> n \<le> length v"
  shows "reply_built (x11_build_get_property_reply (Some (replicate cap 0)) cap f t af vl value' n seq bo)"
  using assms x11_pad4_ge(1) [of n] unfolding reply_built_def x11_build_get_property_reply_def Let_def
  by (auto intro!: succeeds_intros)

lemma delete_prop_ok [succeeds_intros]:
  assumes "x11_ok c" "bridge_ok b" "window_ok win" "writable c i (xw_x11_id win)"
    "\<And>b' c'. bridge_ok b' \<Longrightarrow> x11_ok c' \<Longrightarrow> same_stream c c' \<Longrightarrow> Q (b', c')"
  shows "succeeds (delete_prop b c i win j prop seq) Q"
proof -
  have "x11_ok (upd_window c i (Some (x11_window_prop_clear win j)))" using assms(3,4) by (auto intro!: succeeds_intros)
  then show ?thesis
    unfolding delete_prop_def Let_def using assms(2) by (auto intro!: succeeds_intros build_intros assms(5))
qed

lemma delete_property_ok:
  assumes "x11_ok c" "bridge_ok b" "p + tot \<le> 16384"
  shows "succeeds (req_delete_property b c p tot seq) (handled_ok c)"
  unfolding req_delete_property_def Let_def using assms
  by (auto simp: x11_ok_buf [OF assms(1)] intro!: succeeds_intros)

lemma get_property_ok:
  assumes "x11_ok c" "bridge_ok b" "p + tot \<le> 16384"
  shows "succeeds (req_get_property b c p tot data seq) (handled_ok c)"
proof -
  have slot: "succeeds (prop_at win j) Q" if "x11_window_prop_find win prop = Some j" "\<And>s. prop_at win j = Some s \<Longrightarrow> Q s" for win j "prop" Q
    using prop_find_at [OF that(1)] that(2) by auto
  show ?thesis
    unfolding req_get_property_def Let_def using assms
    by (auto simp: x11_ok_buf [OF assms(1)] intro!: succeeds_intros slot property_reply_ok)
qed

section \<open>Handlers for selections, pointer and focus\<close>

lemma x11_ok_selections:
  "x11_ok c \<Longrightarrow> length ss = 8 \<Longrightarrow> unique_keys xs_selection_atom ss \<Longrightarrow> x11_ok (c\<lparr>xc_selections := ss\<rparr>)"
  by (simp add: x11_ok_def)

lemma x11_ok_find_selection:
  assumes "x11_client_find_selection c sel = Some i"
  shows "\<exists>s. selection_at c i = Some s \<and> xs_selection_atom s = sel \<and> i < length (xc_selections c) \<and> xc_selections c ! i = Some s"
  using find_slot_SomeD [of _ "xc_selections c" i] assms by (auto simp: x11_client_find_selection_def selection_at_def)

lemma x11_ok_set_selection:
  assumes "x11_ok c" "selection_at c i = Some s" "xs_selection_atom s' = xs_selection_atom s"
  shows "x11_ok (c\<lparr>xc_selections := (xc_selections c)[i := Some s']\<rparr>)"
  using assms unique_keys_replace [of xs_selection_atom "xc_selections c" i s s']
  by (intro x11_ok_selections) (auto simp: x11_ok_def selection_at_def split: if_splits)

lemma x11_ok_alloc_selection:
  assumes "x11_ok c" "x11_client_find_selection c sel = None" "x11_client_alloc_selection c sel = (c', r)"
  shows "(case r of None \<Rightarrow> c' = c
    | Some (i, s) \<Rightarrow> x11_ok (c'\<lparr>xc_selections := (xc_selections c')[i := Some (s\<lparr>xs_owner_xid := ow, xs_timestamp := t\<rparr>)]\<rparr>) \<and> same_stream c c')"
  using assms unique_keys_alloc [of xs_selection_atom "xc_selections c" sel]
  by (auto simp: x11_client_alloc_selection_def x11_client_find_selection_def Let_def x11_ok_def split: option.splits)

lemma selection_changed_ok [succeeds_intros]:
  "x11_ok c' \<Longrightarrow> bridge_ok b \<Longrightarrow> same_stream c c' \<Longrightarrow> succeeds (selection_changed b c' prev_owner owner sel time seq) (handled_ok c)"
  unfolding selection_changed_def by (auto intro!: succeeds_intros build_intros)

lemma get_selection_owner_ok:
  assumes "x11_ok c" "bridge_ok b" "p + tot \<le> 16384"
  shows "succeeds (req_get_selection_owner b c p tot seq) (handled_ok c)"
  unfolding req_get_selection_owner_def Let_def using assms
  by (auto simp: x11_ok_buf [OF assms(1)] intro!: succeeds_intros build_intros)

lemma query_pointer_ok:
  assumes "x11_ok c" "bridge_ok b" "p + tot \<le> 16384"
  shows "succeeds (req_query_pointer b c p tot seq) (handled_ok c)"
  unfolding req_query_pointer_def Let_def using assms
  by (auto simp: x11_ok_buf [OF assms(1)] intro!: succeeds_intros build_intros)

lemma find_window_at:
  assumes "x11_client_find_window c wid = Some i"
  shows "\<exists>win. window_at c i = Some win \<and> xw_x11_id win = wid"
  using find_slot_SomeD [of _ "xc_windows c" i] assms by (auto simp: x11_client_find_window_def window_at_def)

lemma x11_ok_focus: "x11_ok (c\<lparr>xc_focus_xid := f, xc_focus_revert_to := r\<rparr>) = x11_ok c"
  by (simp add: x11_ok_def)

lemma set_input_focus_ok:
  assumes "x11_ok c" "bridge_ok b" "p + tot \<le> 16384"
  shows "succeeds (req_set_input_focus b c p tot data) (handled_ok c)"
proof -
  have at: "succeeds (window_at (c\<lparr>xc_focus_xid := f, xc_focus_revert_to := r\<rparr>) i) Q"
    if "x11_client_find_window (c\<lparr>xc_focus_xid := f, xc_focus_revert_to := r\<rparr>) wid = Some i" "\<And>w. Q w" for f r wid i Q
    using find_window_at [OF that(1)] that(2) by auto
  show ?thesis
    unfolding req_set_input_focus_def Let_def using assms
    by (auto simp: x11_ok_buf [OF assms(1)] x11_ok_focus sender_simps intro!: succeeds_intros at)
qed

lemma set_selection_owner_ok:
  assumes "x11_ok c" "bridge_ok b" "p + tot \<le> 16384"
  shows "succeeds (req_set_selection_owner b c p tot seq) (handled_ok c)"
proof (cases "tot - 4 < 12")
  case True
  with assms show ?thesis by (auto simp: req_set_selection_owner_def intro!: succeeds_intros)
next
  case False
  have changed: "succeeds (selection_changed b (c\<lparr>xc_selections := (xc_selections c)[i := Some (s\<lparr>xs_owner_xid := ow, xs_timestamp := t\<rparr>)]\<rparr>) prev ow' sel t' seq) (handled_ok c)"
    if "selection_at c i = Some s" for i s ow t prev ow' sel t'
    using x11_ok_set_selection [OF assms(1) that] assms(2) by (auto intro!: succeeds_intros)
  have alloc: "succeeds (case x11_client_alloc_selection c sel of (c, None) \<Rightarrow> bad b c X11_ERR_ALLOC 0 22
        | (c, Some (i, s)) \<Rightarrow> selection_changed b (c\<lparr>xc_selections := (xc_selections c)[i := Some (s\<lparr>xs_owner_xid := ow, xs_timestamp := t\<rparr>)]\<rparr>) prev ow' sel t' seq)
      (handled_ok c)"
    if "x11_client_find_selection c sel = None" for sel ow t prev ow' t'
    using x11_ok_alloc_selection [OF assms(1) that, of "fst (x11_client_alloc_selection c sel)" "snd (x11_client_alloc_selection c sel)" t ow] assms
    by (auto intro!: succeeds_intros split: prod.splits option.splits)
  have body: "succeeds (
      let found = x11_client_find_selection c sel;
          old = (case found of None \<Rightarrow> None | Some i \<Rightarrow> selection_at c i);
          prev_owner = (case old of None \<Rightarrow> 0 | Some s \<Rightarrow> xs_owner_xid s)
      in if (case old of None \<Rightarrow> False | Some s \<Rightarrow> time \<noteq> 0 \<and> xs_timestamp s \<noteq> 0 \<and> time < xs_timestamp s) then Some (b, c, True)
         else if owner = 0
         then (case (found, old) of
                 (Some i, Some s) \<Rightarrow>
                   selection_changed b (c\<lparr>xc_selections := (xc_selections c)[i := Some (s\<lparr>xs_owner_xid := 0, xs_timestamp := time\<rparr>)]\<rparr>)
                     prev_owner owner sel time seq
               | _ \<Rightarrow> selection_changed b c prev_owner owner sel time seq)
         else with_window b c 22 X11_ERR_WINDOW owner (\<lambda>_ _.
                case (case (found, old) of (Some i, Some s) \<Rightarrow> (c, Some (i, s)) | _ \<Rightarrow> x11_client_alloc_selection c sel) of
                  (c, None) \<Rightarrow> bad b c X11_ERR_ALLOC 0 22
                | (c, Some (i, s)) \<Rightarrow>
                    selection_changed b (c\<lparr>xc_selections := (xc_selections c)[i := Some (s\<lparr>xs_owner_xid := owner, xs_timestamp := time\<rparr>)]\<rparr>)
                      prev_owner owner sel time seq)) (handled_ok c)" for sel owner time
  proof (cases "x11_client_find_selection c sel")
    case None
    then show ?thesis
      using assms by (auto simp: Let_def intro!: with_window_ok alloc [OF None] selection_changed_ok)
  next
    case (Some i)
    from x11_ok_find_selection [OF Some] obtain s where "selection_at c i = Some s" by blast
    with Some assms show ?thesis by (auto simp: Let_def intro!: with_window_ok changed)
  qed
  show ?thesis
    unfolding req_set_selection_owner_def
    by (intro succeeds_bind succeeds_Some succeeds_if bad_ok get_u32_ok body) (use assms False x11_ok_buf [OF assms(1)] in auto)
qed

end
