(* ===== verification/X11_Draw_Safe.thy ===== *)
theory X11_Draw_Safe
  imports X11_Window_Safe
begin

text \<open>The handlers of \<open>X11_Draw_Requests\<close> return and keep the invariant.\<close>

unbundle bit_operations_syntax

section \<open>Handlers for drawing\<close>

lemma x11_ok_gcs: "x11_ok c \<Longrightarrow> length gs = 32 \<Longrightarrow> unique_keys gc_xid gs \<Longrightarrow> x11_ok (c\<lparr>xc_gcs := gs\<rparr>)"
  by (simp add: x11_ok_def)

lemma x11_ok_free_gc: "x11_ok c \<Longrightarrow> x11_ok (upd_gc c i None)"
  unfolding upd_gc_def by (rule x11_ok_gcs) (auto simp: x11_ok_def unique_keys_free)

lemma free_gc_ok:
  assumes "x11_ok c" "bridge_ok b" "p + tot \<le> 16384"
  shows "succeeds (req_free_gc b c p tot) (handled_ok c)"
  unfolding req_free_gc_def using assms by (auto simp: x11_ok_buf [OF assms(1)] intro!: succeeds_intros x11_ok_free_gc)

text \<open>The counting loop clears the lowest bit that is set, so it counts the bits.\<close>

lemma and_pred_clears_bit:
  "0 < a \<Longrightarrow> \<exists>k. bit a k \<and> (\<forall>n. bit (a AND (a - 1)) n \<longleftrightarrow> bit a n \<and> n \<noteq> k)" for a :: nat
proof (induction a rule: less_induct)
  case (less a)
  show ?case
  proof (cases "odd a")
    case True
    then have "(a - 1) div 2 = a div 2" by (auto elim!: oddE)
    then have "bit (a AND (a - 1)) n \<longleftrightarrow> bit a n \<and> n \<noteq> 0" for n
      using True unfolding bit_and_iff by (cases n) (auto simp: bit_Suc bit_0)
    with True show ?thesis by (intro exI [of _ 0]) (simp add: bit_0)
  next
    case False
    then have "0 < a div 2" "a div 2 < a" using less.prems by auto
    from less.IH [OF this(2,1)] obtain k where k: "bit (a div 2) k" "\<And>n. bit (a div 2 AND (a div 2 - 1)) n \<longleftrightarrow> bit (a div 2) n \<and> n \<noteq> k" by blast
    have "(a - 1) div 2 = a div 2 - 1" using False by auto
    then have "bit (a AND (a - 1)) n \<longleftrightarrow> bit a n \<and> n \<noteq> Suc k" for n
      using False k(2) unfolding bit_and_iff by (cases n) (auto simp: bit_Suc bit_0)
    with k(1) show ?thesis by (intro exI [of _ "Suc k"]) (simp add: bit_Suc)
  qed
qed

lemma slots_needed_counts: "slots_needed w = card {n. bit w n}"
proof (induction w rule: slots_needed.induct)
  case (1 w)
  show ?case
  proof (cases "w = 0")
    case False
    then have "0 < unat w" by (simp add: unat_gt_0)
    from and_pred_clears_bit [OF this] obtain k where k: "bit w k" "\<And>n. bit (unat w AND (unat w - 1)) n \<longleftrightarrow> bit w n \<and> n \<noteq> k"
      by (auto simp: bit_unsigned_iff)
    have "unat (w AND (w - 1)) = unat w AND (unat w - 1)"
      using False by (simp add: unsigned_and_eq unat_minus_one)
    then have "bit (w AND (w - 1)) n \<longleftrightarrow> bit w n \<and> n \<noteq> k" for n
      using k(2) [of n] bit_unsigned_iff [where 'a = nat, of "w AND (w - 1)" n] by simp
    then have "{n. bit (w AND (w - 1)) n} = {n. bit w n} - {k}" by blast
    with 1 False have "slots_needed w = Suc (card ({n. bit w n} - {k}))" by (simp add: slots_needed.simps [of w])
    also have "\<dots> = card {n. bit w n}" by (rule card_Suc_Diff1) (use k(1) in simp_all)
    finally show ?thesis .
  qed (simp add: slots_needed.simps)
qed

lemma gc_value_xid [simp]: "gc_xid (gc_value gc n v) = gc_xid gc"
  by (simp add: gc_value_def)

lemma gc_values_ok:
  assumes "vp + 4 * length (filter (bit vmask) ns) \<le> length (xc_buf c)"
  shows "succeeds (gc_values ns c vp vmask gc) (\<lambda>gc'. gc_xid gc' = gc_xid gc)"
  using assms
proof (induction ns arbitrary: vp gc)
  case (Cons n ns)
  have bit: "vmask AND push_bit n 1 = 0 \<longleftrightarrow> \<not> bit vmask n" by (simp add: bit_iff_and_push_bit_not_eq_0)
  show ?case
  proof (cases "bit vmask n")
    case True
    have "succeeds (gc_values ns c (vp + 4) vmask (gc_value gc n v)) (\<lambda>gc'. gc_xid gc' = gc_xid gc)" for v
      using Cons.IH [of "vp + 4" "gc_value gc n v"] Cons.prems True by simp
    with True Cons.prems bit show ?thesis by (auto intro!: get_u32_ok simp del: push_bit_of_1)
  next
    case False
    with Cons bit show ?thesis by (simp del: push_bit_of_1)
  qed
qed simp

lemma gc_slots_bound: "length (filter (bit w) [0..<23]) \<le> slots_needed w"
proof -
  have "length (filter (bit w) [0..<23]) = card {n \<in> {0..<23}. bit w n}" by (simp add: distinct_length_filter Int_def conj_commute del: upt_rec_numeral)
  also have "\<dots> \<le> card {n. bit w n}" by (rule card_mono) auto
  finally show ?thesis by (simp add: slots_needed_counts)
qed

lemma alloc_gc_Some:
  assumes "x11_client_alloc_gc c xid = (c', Some (i, g))" "x11_ok c" "x11_client_find_gc c xid = None"
  shows "same_stream c c' \<and> xc_buf c' = xc_buf c \<and> gc_xid g = xid \<and> (\<forall>g'. gc_xid g' = xid \<longrightarrow> x11_ok (upd_gc c' i (Some g')))
    \<and> (\<forall>g0 g'. upd_gc (upd_gc c' i g0) i g' = upd_gc c' i g')"
proof -
  from assms(1) have i: "c' = c\<lparr>xc_gcs := (xc_gcs c)[i := Some g]\<rparr>" "gc_xid g = xid"
    by (auto simp: x11_client_alloc_gc_def Let_def split: option.splits)
  moreover have "x11_ok (c\<lparr>xc_gcs := (xc_gcs c)[i := Some g']\<rparr>)" if "gc_xid g' = xid" for g'
    using assms(2,3) that unique_keys_alloc [of gc_xid "xc_gcs c" xid g' i] by (intro x11_ok_gcs) (auto simp: x11_ok_def x11_client_find_gc_def)
  ultimately show ?thesis by (auto simp: same_stream_def upd_gc_def)
qed

lemma alloc_gc_None: "x11_client_alloc_gc c xid = (c', None) \<Longrightarrow> c' = c"
  by (auto simp: x11_client_alloc_gc_def Let_def split: option.splits)

lemma create_gc_ok:
  assumes "x11_ok c" "bridge_ok b" "p + tot \<le> 16384"
  shows "succeeds (req_create_gc b c p tot) (handled_ok c)"
proof -
  have vals: "succeeds (gc_values [0..<23] (upd_gc c' i g0) (p + 16) vmask gc) (\<lambda>gc'. handled_ok c (b, upd_gc c' i (Some gc'), True))"
    if "\<not> (if tot - 4 > 12 then tot - 4 - 12 else 0) < slots_needed vmask * 4" "\<not> tot - 4 < 12" "xc_buf c' = xc_buf c"
      "\<And>g'. gc_xid g' = gc_xid gc \<Longrightarrow> x11_ok (upd_gc c' i (Some g'))" "same_stream c c'" for c' i g0 vmask gc
  proof -
    have "p + 16 + 4 * length (filter (bit vmask) [0..<23]) \<le> length (xc_buf (upd_gc c' i g0))"
      using that(1-3) gc_slots_bound [of vmask] assms(3) x11_ok_buf [OF assms(1)] by (auto simp: upd_gc_def simp del: upt_rec_numeral split: if_splits)
    from gc_values_ok [OF this, of gc] show ?thesis
      by (rule succeeds_conseq) (use that(4,5) assms(2) in auto)
  qed
  show ?thesis
    unfolding req_create_gc_def Let_def using assms
    by (auto simp: x11_ok_buf [OF assms(1)] simp del: upt_rec_numeral intro!: succeeds_intros vals dest!: alloc_gc_None alloc_gc_Some)
qed

lemma window_ok_image [simp]: "window_ok win \<Longrightarrow> window_ok (x11_window_backing_image_clear win)" "xw_x11_id (x11_window_backing_image_clear win) = xw_x11_id win"
  by (simp_all add: window_ok_def x11_window_backing_image_clear_def)

lemma window_ok_stash:
  "window_ok win \<Longrightarrow> length img \<le> 65536 \<Longrightarrow> window_ok (win\<lparr>xw_backing_image := Some img, xw_backing_image_w := w, xw_backing_image_h := h,
     xw_backing_image_depth := d, xw_backing_image_format := f\<rparr>)"
  by (simp add: window_ok_def)

lemma find_window_writable:
  assumes "x11_ok c" "x11_client_find_window c wid = Some i"
  shows "\<exists>win. window_at c i = Some win \<and> window_ok win \<and> xw_x11_id win = wid \<and> writable c i wid"
  using find_window_at [OF assms(2)] x11_ok_window [OF assms(1)] x11_ok_upd_window [OF assms(1)] by (auto simp: writable_def)

lemma upd_window_twice [simp]: "upd_window (upd_window c i w) i w' = upd_window c i w'"
  by (simp add: upd_window_def)

lemma xc_buf_upd_window [simp]: "xc_buf (upd_window c i w) = xc_buf c"
  by (simp add: upd_window_def)

lemma put_image_ok:
  assumes "x11_ok c" "bridge_ok b" "p + tot \<le> 16384"
  shows "succeeds (req_put_image b c p tot data) (handled_ok c)"
proof -
  have win: "succeeds (window_at c i) Q"
    if "x11_client_find_window c wid = Some i" "\<And>win. window_ok win \<Longrightarrow> writable c i (xw_x11_id win) \<Longrightarrow> Q win" for i wid Q
    using find_window_writable [OF assms(1) that(1)] that(2) by auto
  show ?thesis
    unfolding req_put_image_def Let_def using assms
    by (auto simp: x11_ok_buf [OF assms(1)] intro!: succeeds_intros win window_ok_stash split: prod.split bool.split dest!: bridge_ok_alloc)
qed

lemma clear_pixel_ok: "succeeds (clear_pixel bw py bg bo img px) (\<lambda>img'. length img' = length img)"
  by (auto simp: clear_pixel_def Let_def intro!: put_u32_ok)

lemma clear_cols_ok: "succeeds (clear_cols cols x bw py bg bo img) (\<lambda>img'. length img' = length img)"
proof (induction cols arbitrary: img)
  case (Cons col cols)
  have "succeeds (clear_cols cols x bw py bg bo img1) (\<lambda>img'. length img' = length img)" if "length img1 = length img" for img1
    using Cons.IH [of img1] that by simp
  then show ?case by (auto intro: succeeds_conseq [OF clear_pixel_ok])
qed simp

lemma clear_rows_ok: "succeeds (clear_rows rows rw x y bw bh bg bo img) (\<lambda>img'. length img' = length img)"
proof (induction rows arbitrary: img)
  case (Cons row rows)
  have "succeeds (clear_rows rows rw x y bw bh bg bo img1) (\<lambda>img'. length img' = length img)" if "length img1 = length img" for img1
    using Cons.IH [of img1] that by simp
  then show ?case by (auto simp: Let_def intro: succeeds_conseq [OF clear_cols_ok])
qed simp

lemma clear_image_ok [succeeds_intros]:
  assumes "window_ok win" "\<And>w'. window_ok w' \<Longrightarrow> xw_x11_id w' = xw_x11_id win \<Longrightarrow> Q w'"
  shows "succeeds (clear_image win bo x y w h) Q"
proof -
  have "Q (win\<lparr>xw_backing_image := Some img'\<rparr>)" if "xw_backing_image win = Some img" "length img' = length img" for img img'
    using assms that by (auto simp: window_ok_def)
  then show ?thesis
    unfolding clear_image_def Let_def using assms by (auto intro!: succeeds_conseq [OF clear_rows_ok] split: option.split)
qed

lemma clear_area_ok:
  assumes "x11_ok c" "bridge_ok b" "p + tot \<le> 16384"
  shows "succeeds (req_clear_area b c p tot data seq) (handled_ok c)"
  unfolding req_clear_area_def Let_def using assms
  by (auto simp: x11_ok_buf [OF assms(1)] intro!: succeeds_intros build_intros)

lemma with_drawable_gc_ok [succeeds_intros]:
  assumes "bridge_ok b" "\<And>b'. bridge_ok b' \<Longrightarrow> Q (b', c, True)" "\<And>i g. gc_at c i = Some g \<Longrightarrow> succeeds (f i) Q"
  shows "succeeds (with_drawable_gc b c opcode draw g f) Q"
proof -
  have "\<exists>g'. gc_at c i = Some g'" if "x11_client_find_gc c g = Some i" for i
    using find_slot_SomeD [of _ "xc_gcs c" i] that by (auto simp: x11_client_find_gc_def gc_at_def)
  with assms show ?thesis unfolding with_drawable_gc_def by (auto intro!: succeeds_intros)
qed

lemma copy_area_ok:
  assumes "x11_ok c" "bridge_ok b" "p + tot \<le> 16384"
  shows "succeeds (req_copy_area b c p tot seq) (handled_ok c)"
proof -
  have evt: "succeeds (x11_build_no_expose (Some (replicate 32 0)) d mi ma seq bo) Q" if "\<And>msg n. 32 \<le> length msg \<Longrightarrow> Q (Some msg, n)" for d mi ma bo Q
    using x11_build_ok [of "XNoExpose d mi ma" "replicate 32 0" seq bo] that by (auto simp: built_ok_def)
  show ?thesis
    unfolding req_copy_area_def Let_def x11_client_send_event_def using assms
    by (auto simp: x11_ok_buf [OF assms(1)] intro!: succeeds_intros evt)
qed

lemma draw_ignored_ok:
  assumes "x11_ok c" "bridge_ok b" "p + tot \<le> 16384" "12 \<le> least"
  shows "succeeds (draw_ignored b c p tot opcode least) (handled_ok c)"
  unfolding draw_ignored_def using assms
  by (auto simp: x11_ok_buf [OF assms(1)] intro!: succeeds_intros)

lemma ignored_drawing_ok:
  assumes "x11_ok c" "bridge_ok b" "p + tot \<le> 16384"
  shows "succeeds (req_poly_fill_rectangle b c p tot) (handled_ok c)" "succeeds (req_poly_text_8 b c p tot) (handled_ok c)"
    "succeeds (req_poly_text_16 b c p tot) (handled_ok c)" "succeeds (req_image_text_8 b c p tot data) (handled_ok c)"
    "succeeds (req_image_text_16 b c p tot data) (handled_ok c)"
  unfolding req_poly_fill_rectangle_def req_poly_text_8_def req_poly_text_16_def req_image_text_8_def req_image_text_16_def
  using assms by (simp_all add: draw_ignored_ok)

lemma copy_pixel_ok: "succeeds (copy_pixel img bw w py row col px reply) (\<lambda>r. length r = length reply)"
  by (auto simp: copy_pixel_def Let_def intro!: memcpy_ok)

lemma copy_cols_ok: "succeeds (copy_cols cols img bw w py row x reply) (\<lambda>r. length r = length reply)"
proof (induction cols arbitrary: reply)
  case (Cons col cols)
  have "succeeds (copy_cols cols img bw w py row x r1) (\<lambda>r. length r = length reply)" if "length r1 = length reply" for r1
    using Cons.IH [of r1] that by simp
  then show ?case by (auto intro: succeeds_conseq [OF copy_pixel_ok])
qed simp

lemma copy_rows_ok: "succeeds (copy_rows rows img bw bh w x y reply) (\<lambda>r. length r = length reply)"
proof (induction rows arbitrary: reply)
  case (Cons row rows)
  have "succeeds (copy_rows rows img bw bh w x y r1) (\<lambda>r. length r = length reply)" if "length r1 = length reply" for r1
    using Cons.IH [of r1] that by simp
  then show ?case by (auto simp: Let_def intro: succeeds_conseq [OF copy_cols_ok])
qed simp

lemma copy_image_ok [succeeds_intros]:
  "(\<And>r. length r = length reply \<Longrightarrow> Q r) \<Longrightarrow> succeeds (copy_image win format x y w h reply) Q"
  unfolding copy_image_def by (auto intro!: succeeds_conseq [OF copy_rows_ok] split: option.split)

lemma reply_head_ok [succeeds_intros]:
  "8 \<le> n \<Longrightarrow> (\<And>r. length r = n \<Longrightarrow> Q r) \<Longrightarrow> succeeds (reply_head c n seq len) Q"
  unfolding reply_head_def by (auto intro!: succeeds_intros)

lemma image_source_ok [succeeds_intros]:
  assumes "x11_ok c" "\<And>s. Q s"
  shows "succeeds (image_source c draw) Q"
proof -
  have "\<exists>p. pixmap_at c i = Some p" if "x11_client_find_pixmap c draw = Some i" for i
    using find_slot_SomeD [of _ "xc_pixmaps c" i] that by (auto simp: x11_client_find_pixmap_def pixmap_at_def)
  with assms find_window_at [of c draw] show ?thesis unfolding image_source_def by (fastforce split: option.split)
qed

lemma get_image_ok:
  assumes "x11_ok c" "bridge_ok b" "p + tot \<le> 16384"
  shows "succeeds (req_get_image b c p tot data seq) (handled_ok c)"
  unfolding req_get_image_def Let_def using assms
  by (auto simp: x11_ok_buf [OF assms(1)] intro!: succeeds_intros split: prod.split bool.split sum.split dest!: bridge_ok_alloc)

section \<open>Handlers for pixmaps, colours, fonts and cursors\<close>

lemma x11_ok_pixmaps: "x11_ok c \<Longrightarrow> length xs = 32 \<Longrightarrow> unique_keys px_pixmap_xid xs \<Longrightarrow> x11_ok (c\<lparr>xc_pixmaps := xs\<rparr>)"
  and x11_ok_colormaps: "x11_ok c \<Longrightarrow> length ms = 16 \<Longrightarrow> unique_keys cm_colormap_xid ms \<Longrightarrow> x11_ok (c\<lparr>xc_colormaps := ms\<rparr>)"
  and x11_ok_fonts: "x11_ok c \<Longrightarrow> length fs = 16 \<Longrightarrow> unique_keys ft_font_xid fs \<Longrightarrow> \<forall>f. Some f \<in> set fs \<longrightarrow> length (ft_name f) < 256 \<Longrightarrow> x11_ok (c\<lparr>xc_fonts := fs\<rparr>)"
  and x11_ok_cursors: "x11_ok c \<Longrightarrow> length us = 16 \<Longrightarrow> unique_keys cu_cursor_xid us \<Longrightarrow> x11_ok (c\<lparr>xc_cursors := us\<rparr>)"
  by (simp_all add: x11_ok_def)

lemma x11_ok_free:
  assumes "x11_ok c"
  shows "x11_ok (c\<lparr>xc_pixmaps := (xc_pixmaps c)[i := None]\<rparr>)" "x11_ok (c\<lparr>xc_colormaps := (xc_colormaps c)[i := None]\<rparr>)"
    "x11_ok (c\<lparr>xc_fonts := (xc_fonts c)[i := None]\<rparr>)" "x11_ok (upd_cursor c i None)"
  using assms unfolding upd_cursor_def
  by (auto simp: x11_ok_def unique_keys_free intro!: x11_ok_pixmaps x11_ok_colormaps x11_ok_fonts x11_ok_cursors dest!: set_update_subset_insert [THEN subsetD])

lemma create_pixmap_ok:
  assumes "x11_ok c" "bridge_ok b" "p + tot \<le> 16384"
  shows "succeeds (req_create_pixmap b c p tot data) (handled_ok c)"
proof -
  have alloc: "x11_ok (c'\<lparr>xc_pixmaps := (xc_pixmaps c')[i := Some (pix\<lparr>px_drawable_xid := d, px_width := w, px_height := h, px_depth := dp\<rparr>)]\<rparr>) \<and> same_stream c c'"
    if "x11_client_alloc_pixmap c pid = (c', Some (i, pix))" "x11_client_find_pixmap c pid = None" for c' i pix pid d w h dp
    using that assms(1) unique_keys_alloc [of px_pixmap_xid "xc_pixmaps c" pid]
    by (auto simp: x11_client_alloc_pixmap_def x11_client_find_pixmap_def Let_def x11_ok_def split: option.splits)
  have full: "c' = c" if "x11_client_alloc_pixmap c pid = (c', None)" for c' pid
    using that by (auto simp: x11_client_alloc_pixmap_def Let_def split: option.splits)
  show ?thesis
    unfolding req_create_pixmap_def using assms
    by (auto simp: x11_ok_buf [OF assms(1)] alloc intro!: succeeds_intros dest!: full)
qed

lemma free_pixmap_ok:
  assumes "x11_ok c" "bridge_ok b" "p + tot \<le> 16384"
  shows "succeeds (req_free_pixmap b c p tot) (handled_ok c)"
  unfolding req_free_pixmap_def using assms by (auto simp: x11_ok_buf [OF assms(1)] x11_ok_free intro!: succeeds_intros)

lemma create_colormap_ok:
  assumes "x11_ok c" "bridge_ok b" "p + tot \<le> 16384"
  shows "succeeds (req_create_colormap b c p tot data) (handled_ok c)"
proof -
  have alloc: "x11_ok (c'\<lparr>xc_colormaps := (xc_colormaps c')[i := Some (cm\<lparr>cm_window_xid := w, cm_visual_id := v, cm_alloc_flag := a\<rparr>)]\<rparr>) \<and> same_stream c c'"
    if "x11_client_alloc_colormap c xid = (c', Some (i, cm))" "x11_client_find_colormap c xid = None" for c' i cm xid w v a
    using that assms(1) unique_keys_alloc [of cm_colormap_xid "xc_colormaps c" xid]
    by (auto simp: x11_client_alloc_colormap_def x11_client_find_colormap_def Let_def x11_ok_def split: option.splits)
  have full: "c' = c" if "x11_client_alloc_colormap c xid = (c', None)" for c' xid
    using that by (auto simp: x11_client_alloc_colormap_def Let_def split: option.splits)
  show ?thesis
    unfolding req_create_colormap_def using assms
    by (auto simp: x11_ok_buf [OF assms(1)] alloc intro!: succeeds_intros dest!: full)
qed

lemma free_colormap_ok:
  assumes "x11_ok c" "bridge_ok b" "p + tot \<le> 16384"
  shows "succeeds (req_free_colormap b c p tot) (handled_ok c)"
  unfolding req_free_colormap_def using assms by (auto simp: x11_ok_buf [OF assms(1)] x11_ok_free intro!: succeeds_intros)

lemma put_u16s_ok [succeeds_intros]:
  assumes "list_all (\<lambda>(off, v). off + 2 \<le> length r) fs" "\<And>r'. length r' = length r \<Longrightarrow> Q r'"
  shows "succeeds (put_u16s r fs bo) Q"
  using assms
proof (induction fs arbitrary: r)
  case (Cons f fs)
  obtain off v where f: "f = (off, v)" by fastforce
  show ?case
    unfolding f put_u16s.simps succeeds_simps
    by (rule put_u16_ok) (use Cons.prems f in \<open>auto intro!: Cons.IH\<close>)
qed simp

lemma alloc_color_ok:
  assumes "x11_ok c" "bridge_ok b" "p + tot \<le> 16384"
  shows "succeeds (req_alloc_color b c p tot seq) (handled_ok c)"
  unfolding req_alloc_color_def Let_def using assms
  by (auto simp: x11_ok_buf [OF assms(1)] intro!: succeeds_intros)

lemma put_colors_ok:
  assumes "\<And>i. i \<in> set is \<Longrightarrow> p + 8 + i * 4 + 4 \<le> length (xc_buf c) \<and> 32 + i * 8 + 8 \<le> length r"
  shows "succeeds (put_colors is c p r) (\<lambda>r'. length r' = length r)"
  using assms
proof (induction "is" arbitrary: r)
  case (Cons i "is")
  have "p + 8 + i * 4 + 4 \<le> length (xc_buf c)" "32 + i * 8 + 8 \<le> length r" using Cons.prems [of i] by simp_all
  moreover have "succeeds (put_colors is c p r1) (\<lambda>r'. length r' = length r)" if "length r1 = length r" for r1
    using Cons.IH [of r1] Cons.prems that by simp
  ultimately show ?case by (auto simp: Let_def intro!: get_u32_ok put_u16_ok)
qed simp

lemma query_colors_ok:
  assumes "x11_ok c" "bridge_ok b" "p + tot \<le> 16384"
  shows "succeeds (req_query_colors b c p tot seq) (handled_ok c)"
proof -
  have colors: "succeeds (put_colors [0..<(tot - 8) div 4] c p r) (\<lambda>m. 32 + (tot - 8) div 4 * 8 \<le> length m)"
    if "\<not> 256 < (tot - 8) div 4" "length r = 2080" "\<not> tot < 8" for r
    by (rule succeeds_conseq [OF put_colors_ok]) (use that assms(3) x11_ok_buf [OF assms(1)] in auto)
  have n: "(if tot > 8 then tot - 8 else 0) div 4 = (tot - 8) div 4" by simp
  show ?thesis
    unfolding req_query_colors_def Let_def n using assms
    by (auto simp: x11_ok_buf [OF assms(1)] intro!: succeeds_intros colors)
qed

lemma lookup_color_ok:
  assumes "x11_ok c" "bridge_ok b" "p + tot \<le> 16384"
  shows "succeeds (req_lookup_color b c p tot seq) (handled_ok c)"
  unfolding req_lookup_color_def using assms
  by (auto simp: x11_ok_buf [OF assms(1)] intro!: succeeds_intros)

lemma open_font_ok:
  assumes "x11_ok c" "bridge_ok b" "p + tot \<le> 16384"
  shows "succeeds (req_open_font b c p tot) (handled_ok c)"
proof -
  have alloc: "xc_buf c' = xc_buf c \<and> same_stream c c' \<and> (\<forall>nm. length nm < 256 \<longrightarrow> x11_ok (c'\<lparr>xc_fonts := (xc_fonts c')[i := Some (f\<lparr>ft_name := nm\<rparr>)]\<rparr>))"
    if "x11_client_alloc_font c xid = (c', Some (i, f))" "x11_client_find_font c xid = None" for c' i f xid
    using that assms(1) unique_keys_alloc [of ft_font_xid "xc_fonts c" xid]
    by (auto simp: x11_client_alloc_font_def x11_client_find_font_def Let_def x11_ok_def split: option.splits dest!: set_update_subset_insert [THEN subsetD])
  have full: "c' = c" if "x11_client_alloc_font c xid = (c', None)" for c' xid
    using that by (auto simp: x11_client_alloc_font_def Let_def split: option.splits)
  show ?thesis
    unfolding req_open_font_def using assms
    by (auto simp: x11_ok_buf [OF assms(1)] word_gt_0 intro!: succeeds_intros dest!: full alloc split: if_splits)
qed

lemma close_font_ok:
  assumes "x11_ok c" "bridge_ok b" "p + tot \<le> 16384"
  shows "succeeds (req_close_font b c p tot) (handled_ok c)"
  unfolding req_close_font_def using assms by (auto simp: x11_ok_buf [OF assms(1)] x11_ok_free intro!: succeeds_intros)

lemma query_font_ok:
  assumes "x11_ok c" "bridge_ok b" "p + tot \<le> 16384"
  shows "succeeds (req_query_font b c p tot seq) (handled_ok c)"
  unfolding req_query_font_def using assms
  by (auto simp: x11_ok_buf [OF assms(1)] simp del: put_u16s.simps intro!: succeeds_intros)

lemma query_text_extents_ok:
  assumes "x11_ok c" "bridge_ok b" "p + tot \<le> 16384"
  shows "succeeds (req_query_text_extents b c p tot seq) (handled_ok c)"
  unfolding req_query_text_extents_def using assms
  by (auto simp: x11_ok_buf [OF assms(1)] intro!: succeeds_intros)

lemma list_fonts_ok:
  assumes "x11_ok c" "bridge_ok b" "p + tot \<le> 16384"
  shows "succeeds (req_list_fonts b c p tot seq) (handled_ok c)" "succeeds (req_list_fonts_with_info b c p tot seq) (handled_ok c)"
  unfolding req_list_fonts_def req_list_fonts_with_info_def font_pattern_def using assms
  by (auto simp: x11_ok_buf [OF assms(1)] intro!: succeeds_intros)

lemma font_path_ok:
  assumes "x11_ok c" "bridge_ok b" "p + tot \<le> 16384"
  shows "succeeds (req_set_font_path b c p tot) (handled_ok c)" "succeeds (req_get_font_path b c p tot seq) (handled_ok c)"
  unfolding req_set_font_path_def req_get_font_path_def using assms
  by (auto simp: x11_ok_buf [OF assms(1)] intro!: succeeds_intros)

lemma x11_ok_cursor:
  assumes "x11_ok c" "x11_client_find_cursor c xid = None \<or> xc_cursors c ! i = Some old \<and> cu_cursor_xid old = xid \<and> i < length (xc_cursors c)" "cu_cursor_xid u = xid"
  shows "x11_ok (upd_cursor c i (Some u))"
  using assms unique_keys_alloc [of cu_cursor_xid "xc_cursors c" xid u i] unique_keys_replace [of cu_cursor_xid "xc_cursors c" i old u]
  unfolding upd_cursor_def by (intro x11_ok_cursors) (auto simp: x11_ok_def x11_client_find_cursor_def)

lemma alloc_cursor_Some:
  assumes "x11_client_alloc_cursor c xid = (c', Some (i, u))" "x11_ok c" "x11_client_find_cursor c xid = None"
  shows "same_stream c c' \<and> (\<forall>u'. cu_cursor_xid u' = xid \<longrightarrow> x11_ok (upd_cursor c' i (Some u'))) \<and> cu_cursor_xid u = xid"
proof -
  from assms(1) have "c' = upd_cursor c i (Some u)" "cu_cursor_xid u = xid"
    by (auto simp: x11_client_alloc_cursor_def upd_cursor_def Let_def split: option.splits)
  moreover have "upd_cursor (upd_cursor c i (Some u)) i u' = upd_cursor c i u'" for u' by (simp add: upd_cursor_def)
  ultimately show ?thesis using x11_ok_cursor [OF assms(2) disjI1 [OF assms(3)]] by simp
qed

lemma alloc_cursor_None: "x11_client_alloc_cursor c xid = (c', None) \<Longrightarrow> c' = c"
  by (auto simp: x11_client_alloc_cursor_def Let_def split: option.splits)

lemma create_cursor_ok:
  assumes "x11_ok c" "bridge_ok b" "p + tot \<le> 16384"
  shows "succeeds (req_create_cursor b c p tot) (handled_ok c)"
  unfolding req_create_cursor_def using assms
  by (auto simp: x11_ok_buf [OF assms(1)] intro!: succeeds_intros dest!: alloc_cursor_None alloc_cursor_Some)

lemma create_glyph_cursor_ok:
  assumes "x11_ok c" "bridge_ok b" "p + tot \<le> 16384"
  shows "succeeds (req_create_glyph_cursor b c p tot) (handled_ok c)"
  unfolding req_create_glyph_cursor_def using assms
  by (auto simp: x11_ok_buf [OF assms(1)] intro!: succeeds_intros dest!: alloc_cursor_None alloc_cursor_Some)

lemma free_cursor_ok:
  assumes "x11_ok c" "bridge_ok b" "p + tot \<le> 16384"
  shows "succeeds (req_free_cursor b c p tot) (handled_ok c)"
  unfolding req_free_cursor_def using assms by (auto simp: x11_ok_buf [OF assms(1)] x11_ok_free intro!: succeeds_intros)

lemma recolor_cursor_ok:
  assumes "x11_ok c" "bridge_ok b" "p + tot \<le> 16384"
  shows "succeeds (req_recolor_cursor b c p tot) (handled_ok c)"
proof -
  have cursor: "\<exists>u. xc_cursors c ! i = Some u \<and> i < length (xc_cursors c) \<and> (\<forall>u'. cu_cursor_xid u' = cu_cursor_xid u \<longrightarrow> x11_ok (upd_cursor c i (Some u')))"
    if "x11_client_find_cursor c xid = Some i" for i xid
    using find_slot_SomeD [of _ "xc_cursors c" i] that x11_ok_cursor [OF assms(1), of xid i] by (fastforce simp: x11_client_find_cursor_def)
  show ?thesis
    unfolding req_recolor_cursor_def using assms
    by (auto simp: x11_ok_buf [OF assms(1)] intro!: succeeds_intros dest!: cursor)
qed

section \<open>The remaining handlers\<close>

lemma query_best_size_ok:
  assumes "x11_ok c" "bridge_ok b" "p + tot \<le> 16384"
  shows "succeeds (req_query_best_size b c p tot data seq) (handled_ok c)"
  unfolding req_query_best_size_def using assms
  by (auto simp: x11_ok_buf [OF assms(1)] intro!: succeeds_intros build_intros)

lemma send_buffer_ignored_ok [succeeds_intros]:
  assumes "succeeds r (\<lambda>msg. n \<le> length msg)" "bridge_ok b" "\<And>b'. bridge_ok b' \<Longrightarrow> Q (b', c, True)"
  shows "succeeds (send_buffer_ignored b c r n) Q"
  unfolding send_buffer_ignored_def using assms by (auto intro!: send_buffer_ok)

lemma query_extension_ok:
  assumes "x11_ok c" "bridge_ok b" "p + tot \<le> 16384"
  shows "succeeds (req_query_extension b c p tot seq) (handled_ok c)"
proof -
  have "p + 8 + (if unat v < 255 then unat v else 255) \<le> 16384" if "\<not> tot < 8 + x11_pad4 (unat v)" for v :: u16
    using that assms(3) x11_pad4_ge(1) [of "unat v"] by simp
  then show ?thesis
    unfolding req_query_extension_def using assms(1,2,3)
    by (auto simp: x11_ok_buf [OF assms(1)] split del: if_split intro!: succeeds_intros) simp
qed

lemma small_replies_ok:
  assumes "x11_ok c" "bridge_ok b"
  shows "succeeds (req_list_extensions b c seq) (handled_ok c)" "succeeds (req_get_input_focus b c seq) (handled_ok c)"
  unfolding req_list_extensions_def req_get_input_focus_def using assms by (auto intro!: succeeds_intros)

end
