(* ===== verification/X11_Dispatch_Safe.thy ===== *)
theory X11_Dispatch_Safe
  imports X11_Draw_Safe
begin

text \<open>
  Dispatching a request and draining the socket of a client (\<open>X11_Dispatch\<close>): every request is handled, keeps the invariant and uses up one sequence number, unless it is one of the requests with
  undefined behaviour, and exactly these are undefined. The loop that parses requests ends, and it never leaves the buffer full.
\<close>

unbundle bit_operations_syntax

section \<open>Requests with undefined behaviour\<close>

definition request_hazard :: "bridge \<Rightarrow> x11_client \<Rightarrow> nat \<Rightarrow> nat \<Rightarrow> bool" where
  "request_hazard b c p tot \<longleftrightarrow>
     (let opcode = xc_buf c ! p
      in opcode = 1 \<and> create_window_hazard p tot \<or> opcode = 12 \<and> configure_hazard b c p tot \<or> opcode = 17 \<and> atom_name_hazard b c p tot)"

text \<open>A complete request at offset \<open>p\<close>.\<close>

definition request_at :: "x11_client \<Rightarrow> nat \<Rightarrow> nat \<Rightarrow> bool" where
  "request_at c p tot \<longleftrightarrow> 4 \<le> tot \<and> p + tot \<le> xc_have c \<and> (\<exists>len. rd16 c (p + 2) = Some len \<and> unat len * 4 = tot)"

lemma cfg_values_sequence: "cfg_values ns (c\<lparr>xc_sequence := s\<rparr>) vp remaining mask' f = cfg_values ns c vp remaining mask' f"
  by (induction ns arbitrary: vp remaining f) (auto intro!: Option.bind_cong)

lemma hazards_sequence:
  "configure_hazard b (c\<lparr>xc_sequence := s\<rparr>) p tot = configure_hazard b c p tot"
  "atom_name_hazard b (c\<lparr>xc_sequence := s\<rparr>) p tot = atom_name_hazard b c p tot"
  by (simp_all add: configure_hazard_def atom_name_hazard_def cfg_values_sequence x11_client_find_window_def window_at_def)

section \<open>Dispatch\<close>

lemmas handlers_ok =
  change_window_attrs_ok get_window_attrs_ok destroy_window_ok map_window_ok unmap_window_ok get_geometry_ok query_tree_ok intern_atom_ok
  change_property_ok delete_property_ok get_property_ok set_selection_owner_ok get_selection_owner_ok query_pointer_ok
  set_input_focus_ok small_replies_ok open_font_ok close_font_ok query_font_ok query_text_extents_ok list_fonts_ok font_path_ok create_pixmap_ok free_pixmap_ok
  create_gc_ok free_gc_ok clear_area_ok copy_area_ok put_image_ok get_image_ok ignored_drawing_ok create_colormap_ok free_colormap_ok alloc_color_ok
  query_colors_ok lookup_color_ok create_cursor_ok create_glyph_cursor_ok free_cursor_ok recolor_cursor_ok query_best_size_ok query_extension_ok

lemma dispatch_opcode_ok:
  assumes "x11_ok c" "bridge_ok b" "p + tot \<le> 16384" "opcode = 1 \<Longrightarrow> \<not> create_window_hazard p tot" "opcode = 12 \<Longrightarrow> \<not> configure_hazard b c p tot"
    "opcode = 17 \<Longrightarrow> \<not> atom_name_hazard b c p tot"
  shows "succeeds (dispatch_opcode b c p tot opcode data seq) (handled_ok c)"
  unfolding dispatch_opcode_def
  by (intro succeeds_if) (use assms in \<open>auto intro!: handlers_ok create_window_ok configure_window_ok get_atom_name_ok\<close>)

lemma request_at_read:
  assumes "x11_ok c" "request_at c p tot"
  shows "p + tot \<le> 16384" "p < length (xc_buf c)" "p + 1 < length (xc_buf c)"
  using assms by (auto simp: request_at_def x11_ok_def)

lemma dispatch_eq:
  assumes "x11_ok c" "request_at c p tot"
  shows "x11_client_dispatch_request b c p tot
    = dispatch_opcode b (c\<lparr>xc_sequence := xc_sequence c + 1\<rparr>) p tot (xc_buf c ! p) (xc_buf c ! (p + 1)) (xc_sequence c)"
  using assms request_at_read [OF assms] by (auto simp: x11_client_dispatch_request_def request_at_def x11_client_next_sequence_def)

lemma dispatch_request_ok:
  assumes "x11_ok c" "bridge_ok b" "request_at c p tot" "\<not> request_hazard b c p tot"
  shows "\<exists>b' c' keep. x11_client_dispatch_request b c p tot = Some (b', c', keep) \<and> bridge_ok b' \<and> x11_ok c'
    \<and> same_stream (c\<lparr>xc_sequence := xc_sequence c + 1\<rparr>) c'"
proof -
  let ?c = "c\<lparr>xc_sequence := xc_sequence c + 1\<rparr>"
  have "x11_ok ?c" using assms(1) by (simp add: x11_ok_def)
  then have "succeeds (dispatch_opcode b ?c p tot (xc_buf c ! p) (xc_buf c ! (p + 1)) (xc_sequence c)) (handled_ok ?c)"
    using assms request_at_read [OF assms(1,3)] by (intro dispatch_opcode_ok) (auto simp: request_hazard_def Let_def hazards_sequence)
  then show ?thesis unfolding dispatch_eq [OF assms(1,3)] by (auto simp: succeeds_def handled_ok_def)
qed

text \<open>The hazards are undefined behaviour of the model.\<close>

lemma create_window_undefined:
  assumes "x11_ok c" "create_window_hazard p tot"
  shows "req_create_window b c p tot data seq = None"
proof -
  have "x11_get_u32 (xc_buf c) (p + 28) (xc_byte_order c) = None" using assms by (auto simp: x11_get_u32_def create_window_hazard_def x11_ok_buf)
  then show ?thesis using assms(2) by (auto simp: req_create_window_def Let_def create_window_hazard_def bind_eq_None_conv)
qed

lemma border_undefined: "border_reached ns mask' remaining \<Longrightarrow> cfg_values ns c vp remaining mask' f = None"
proof (induction ns arbitrary: vp remaining f)
  case (Cons n ns)
  then show ?case by (auto simp: cfg_value_def bind_eq_None_conv split: if_splits)
qed simp

lemma configure_undefined:
  assumes "configure_hazard b c p tot"
  shows "req_configure_window b c p tot seq = None"
proof -
  from assms obtain window i win mask' where w: "12 \<le> tot" "rd32 c (p + 4) = Some window" "x11_client_find_window c window = Some i"
    "window_at c i = Some win" "rd16 c (p + 8) = Some mask'"
    and h: "border_reached [0..<7] mask' (tot - 12)
       \<or> (\<exists>f m. cfg_values [0..<7] c (p + 12) (tot - 12) mask'
             \<lparr>cf_x = xw_x win, cf_y = xw_y win, cf_w = xw_w win, cf_h = xw_h win, cf_stack = None\<rparr> = Some f
           \<and> cf_stack f = Some m \<and> xw_has_surface win \<and> br_isz b \<noteq> None \<and> stack_zpos (xw_zpos win) m = None)"
    unfolding configure_hazard_def by blast
  have t: "\<not> tot - 4 < 8" using w(1) by linarith
  from h show ?thesis
  proof
    assume "border_reached [0..<7] mask' (tot - 12)"
    from border_undefined [OF this] w t show ?thesis by (simp add: req_configure_window_def with_window_def del: upt_rec_numeral)
  next
    assume "\<exists>f m. cfg_values [0..<7] c (p + 12) (tot - 12) mask'
             \<lparr>cf_x = xw_x win, cf_y = xw_y win, cf_w = xw_w win, cf_h = xw_h win, cf_stack = None\<rparr> = Some f
           \<and> cf_stack f = Some m \<and> xw_has_surface win \<and> br_isz b \<noteq> None \<and> stack_zpos (xw_zpos win) m = None"
    then obtain f m where f: "cfg_values [0..<7] c (p + 12) (tot - 12) mask'
             \<lparr>cf_x = xw_x win, cf_y = xw_y win, cf_w = xw_w win, cf_h = xw_h win, cf_stack = None\<rparr> = Some f"
      "cf_stack f = Some m" "xw_has_surface win" "br_isz b \<noteq> None" "stack_zpos (xw_zpos win) m = None" by blast
    then have "restack b (win\<lparr>xw_x := cf_x f, xw_y := cf_y f, xw_w := cf_w f, xw_h := cf_h f\<rparr>) (cf_stack f) = None" by (auto simp: restack_def)
    with w t f(1) show ?thesis by (simp add: req_configure_window_def with_window_def Let_def del: upt_rec_numeral)
  qed
qed

lemma atom_name_undefined:
  assumes "atom_name_hazard b c p tot"
  shows "req_get_atom_name b c p tot seq = None"
proof -
  from assms obtain atom namebuf n where a: "8 \<le> tot" "rd32 c (p + 4) = Some atom" "atom \<noteq> 0"
    "x11_atom_get_name b atom (replicate 256 0) = (namebuf, n)" "256 < n" "n \<le> 260"
    unfolding atom_name_hazard_def by (metis prod.collapse)
  have n: "unat (of_nat n :: u16) = n" "(of_nat n :: u16) > 0" using a(5,6) by (auto simp: unat_of_nat take_bit_nat_eq_self word_gt_0 simp flip: unat_eq_0)
  have "x11_build_get_atom_name_reply (Some (replicate 292 0)) 292 (Some namebuf) (of_nat n) seq (xc_byte_order c) = None"
    using get_atom_name_len [OF a(4)] a(5,6) n by (auto simp: x11_build_get_atom_name_reply_def Let_def memcpy_at_def x11_pad4_def bind_eq_None_conv)
  moreover have "\<not> tot - 4 < 4" using a(1) by linarith
  ultimately show ?thesis using a by (simp add: req_get_atom_name_def send_reply_def)
qed

lemma dispatch_undefined:
  assumes "x11_ok c" "bridge_ok b" "request_at c p tot"
  shows "x11_client_dispatch_request b c p tot = None \<longleftrightarrow> request_hazard b c p tot"
proof
  let ?c = "c\<lparr>xc_sequence := xc_sequence c + 1\<rparr>"
  assume h: "request_hazard b c p tot"
  have ok: "x11_ok ?c" using assms(1) by (simp add: x11_ok_def)
  from h show "x11_client_dispatch_request b c p tot = None"
    unfolding dispatch_eq [OF assms(1,3)] request_hazard_def Let_def
    using configure_undefined [of b ?c p tot] atom_name_undefined [of b ?c p tot] unfolding hazards_sequence
    by (auto simp: dispatch_opcode_def create_window_undefined [OF ok])
qed (use dispatch_request_ok [OF assms] in force)

section \<open>Reading requests\<close>

lemma k_recv_more: "k_recv k cap = (k', r) \<Longrightarrow> kern.more k' = kern.more k"
  by (auto simp: k_recv_def split: list.splits recv_result.splits if_splits)

text \<open>What a receive leaves of the client: the bytes it had, followed by new ones.\<close>

definition received :: "x11_client \<Rightarrow> x11_client \<Rightarrow> bool" where
  "received c c' \<longleftrightarrow> (\<exists>buf have. c' = c\<lparr>xc_buf := buf, xc_have := have\<rparr> \<and> length buf = length (xc_buf c) \<and> xc_have c \<le> have \<and> have \<le> length buf
     \<and> take (xc_have c) buf = take (xc_have c) (xc_buf c))"

lemma recv_requests_ok:
  assumes "recv_requests b c = (b', c', go)" "x11_ok c" "bridge_ok b"
  shows "bridge_ok b' \<and> received c c'"
  using assms
proof (induction b c rule: recv_requests.induct)
  case (1 b c)
  have len: "length (xc_buf c) = 16384" "xc_have c \<le> 16384" using "1.prems"(2) by (simp_all add: x11_ok_def)
  have same: "received c c" unfolding received_def using len by (intro exI [of _ "xc_buf c"] exI [of _ "xc_have c"]) simp
  show ?case
  proof (cases "length (xc_buf c) - xc_have c = 0 \<or> k_recvs b = []")
    case True
    with "1.prems" same show ?thesis by (auto simp: recv_requests.simps [of b c] Let_def split: if_splits)
  next
    case False
    obtain b1 r where r: "k_recv b (length (xc_buf c) - xc_have c) = (b1, r)" by fastforce
    have b1: "bridge_ok b1" using bridge_ok_more [OF k_recv_more [OF r]] "1.prems"(3) by simp
    show ?thesis
    proof (cases r)
      case (RecvErr e)
      with False r "1.prems" b1 same "1.IH" [OF HOL.refl _ _ r [symmetric] RecvErr] show ?thesis
        by (auto simp: recv_requests.simps [of b c] Let_def split: if_splits)
    next
      case (RecvData bs cs tr)
      have "length bs \<le> length (xc_buf c) - xc_have c" using k_recv_len r RecvData by simp
      with len have "received c (c\<lparr>xc_buf := take (xc_have c) (xc_buf c) @ bs @ drop (xc_have c + length bs) (xc_buf c), xc_have := xc_have c + length bs\<rparr>)"
        unfolding received_def
        by (intro exI [of _ "take (xc_have c) (xc_buf c) @ bs @ drop (xc_have c + length bs) (xc_buf c)"] exI [of _ "xc_have c + length bs"]) auto
      with False r RecvData "1.prems" b1 same show ?thesis
        by (auto simp: recv_requests.simps [of b c] Let_def split: if_splits)
    qed
  qed
qed

lemma received_ok: "received c c' \<Longrightarrow> x11_ok c \<Longrightarrow> x11_ok c'"
  by (auto simp: received_def x11_ok_def)

text \<open>The states that the parsing loop goes through, with the requests it has dispatched.\<close>

inductive parsing :: "bridge \<Rightarrow> x11_client \<Rightarrow> u8 list list \<Rightarrow> bridge \<Rightarrow> x11_client \<Rightarrow> nat \<Rightarrow> bool" for b c where
  start: "parsing b c [] b c 0"
| request: "parsing b c rs b1 c1 p \<Longrightarrow> request_at c1 p tot \<Longrightarrow> x11_client_dispatch_request b1 c1 p tot = Some (b2, c2, True)
    \<Longrightarrow> parsing b c (rs @ [take tot (drop p (xc_buf c1))]) b2 c2 (p + tot)"

text \<open>The loop stops before a request that is not complete.\<close>

definition incomplete :: "x11_client \<Rightarrow> nat \<Rightarrow> bool" where
  "incomplete c p \<longleftrightarrow> xc_have c - p < 4 \<or> (\<exists>len. rd16 c (p + 2) = Some len \<and> xc_have c - p < unat len * 4 \<and> unat len * 4 \<le> X11_CLIENT_RECV_BUF)"

text \<open>The loop ends with the client dropped at a request that announces no length or more than the buffer holds, or whose handler gives the client up.\<close>

definition gives_up_at :: "bridge \<Rightarrow> x11_client \<Rightarrow> nat \<Rightarrow> bool" where
  "gives_up_at b c p \<longleftrightarrow> (\<exists>len. p + 4 \<le> xc_have c \<and> rd16 c (p + 2) = Some len \<and> (len = 0 \<or> unat len * 4 > X11_CLIENT_RECV_BUF))
     \<or> (\<exists>tot b' c'. request_at c p tot \<and> x11_client_dispatch_request b c p tot = Some (b', c', False))"

lemma parse_requests_outcome:
  assumes "x11_ok c1" "bridge_ok b1" "parsing b c rs b1 c1 p1" "p1 \<le> xc_have c1"
  shows "(\<exists>b' c' q keep. parse_requests b1 c1 p1 = Some (b', c', q, keep) \<and> bridge_ok b' \<and> x11_ok c' \<and> p1 \<le> q \<and> q \<le> xc_have c'
        \<and> xc_have c' = xc_have c1 \<and> xc_buf c' = xc_buf c1 \<and> xc_fd c' = xc_fd c1 \<and> (if keep then (\<exists>rs. parsing b c rs b' c' q) \<and> incomplete c' q else \<exists>rs b0 c0. parsing b c rs b0 c0 q \<and> gives_up_at b0 c0 q))
    \<or> (\<exists>rs b' c' q tot. parsing b c rs b' c' q \<and> request_at c' q tot \<and> request_hazard b' c' q tot)"
  using assms
proof (induction "xc_have c1 - p1" arbitrary: b1 c1 p1 rs rule: less_induct)
  case less
  have buf: "length (xc_buf c1) = 16384" "xc_have c1 \<le> 16384" using less.prems(1) by (simp_all add: x11_ok_def)
  show ?case
  proof (cases "xc_have c1 - p1 < 4")
    case True
    with less.prems show ?thesis by (subst parse_requests.simps) (auto simp: incomplete_def)
  next
    case False
    then have "p1 + 2 + 2 \<le> length (xc_buf c1)" using buf by linarith
    then obtain len where len: "rd16 c1 (p1 + 2) = Some len"
      using get_u16_ok [of "p1 + 2" "xc_buf c1" "xc_byte_order c1" "\<lambda>_. True"] by (auto simp: succeeds_def)
    consider (bad) "len < 1 \<or> unat len * 4 > 16384" | (wait) "\<not> len < 1" "unat len * 4 \<le> 16384" "xc_have c1 - p1 < unat len * 4"
      | (go) "\<not> len < 1" "unat len * 4 \<le> 16384" "unat len * 4 \<le> xc_have c1 - p1" by linarith
    then show ?thesis
    proof cases
      case bad
      have ref: "gives_up_at b1 c1 p1" using bad len False by (auto simp: gives_up_at_def)
      have run: "parse_requests b1 c1 p1 = Some (b1, c1, p1, False)"
        using bad False len buf by (subst parse_requests.simps) (auto simp: Let_def)
      show ?thesis unfolding run by (rule disjI1) (use ref less.prems in \<open>auto intro!: exI\<close>)
    next
      case wait
      with False len buf less.prems show ?thesis by (subst parse_requests.simps) (auto simp: Let_def incomplete_def)
    next
      case go
      let ?tot = "unat len * 4"
      have "1 \<le> unat len" using go(1) by (simp add: word_less_nat_alt)
      then have at: "request_at c1 p1 ?tot" using go(3) len less.prems(4) False by (auto simp: request_at_def)
      show ?thesis
      proof (cases "request_hazard b1 c1 p1 ?tot")
        case True
        with at less.prems(3) show ?thesis by blast
      next
        case nh: False
        from dispatch_request_ok [OF less.prems(1,2) at nh] obtain b2 c2 keep where d:
          "x11_client_dispatch_request b1 c1 p1 ?tot = Some (b2, c2, keep)" "bridge_ok b2" "x11_ok c2" "xc_have c2 = xc_have c1" "xc_buf c2 = xc_buf c1" "xc_fd c2 = xc_fd c1"
          by (auto simp: same_stream_def)
        have run: "parse_requests b1 c1 p1 = (if \<not> keep then Some (b2, c2, p1, False) else parse_requests b2 c2 (p1 + ?tot))"
          using False len buf go d(1) by (subst parse_requests.simps) (auto simp: Let_def)
        show ?thesis
        proof (cases keep)
          case True
          have "parsing b c (rs @ [take ?tot (drop p1 (xc_buf c1))]) b2 c2 (p1 + ?tot)" using parsing.request [OF less.prems(3) at] d(1) True by simp
          from less.hyps [OF _ d(3,2) this] at d(4-6) run True \<open>1 \<le> unat len\<close> show ?thesis by (fastforce simp: request_at_def)
        next
          case keep: False
          then have ref: "gives_up_at b1 c1 p1" using at d(1) by (auto simp: gives_up_at_def)
          have run: "parse_requests b1 c1 p1 = Some (b2, c2, p1, False)" using run keep by simp
          show ?thesis unfolding run by (rule disjI1) (use ref d less.prems in auto)
        qed
      qed
    qed
  qed
qed

lemma upd_window_fd [simp]: "xc_fd (upd_window c i w) = xc_fd c"
  by (simp add: upd_window_def)

section \<open>The life of a client\<close>

text \<open>A client between two calls of \<open>x11_client_drain\<close>: before the setup its table of windows is empty, and its buffer is never full.\<close>

definition client_live :: "x11_client \<Rightarrow> bool" where
  "client_live c \<longleftrightarrow> x11_ok c \<and> xc_have c < X11_CLIENT_RECV_BUF \<and> (xc_setup_done c \<or> (\<forall>w \<in> set (xc_windows c). w = None))"

lemma create_live: "x11_client_create b fd = (b', Some c) \<Longrightarrow> client_live c"
  by (auto simp: x11_client_create_def client_live_def x11_ok_def unique_keys_replicate Let_def split: prod.splits bool.splits)

lemma create_bridge_ok: "x11_client_create b fd = (b', r) \<Longrightarrow> bridge_ok b \<Longrightarrow> bridge_ok b'"
proof -
  assume c: "x11_client_create b fd = (b', r)" "bridge_ok b"
  obtain b1 ok where a: "k_alloc b = (b1, ok)" by fastforce
  have "bridge_ok b1" using bridge_ok_alloc [OF a] c(2) by simp
  moreover have "br_isz (k_close b1 fd) = br_isz b1" for fd by (rule bridge_more) (simp add: k_close_def)
  ultimately show ?thesis using c(1) a by (auto simp: x11_client_create_def Let_def bridge_ok_def split: bool.splits)
qed

lemma drain_auth_more: "drain_auth b n = (b', ok) \<Longrightarrow> kern.more b' = kern.more b"
proof (induction b n rule: drain_auth.induct)
  case (1 b n)
  obtain b1 r where r: "k_recv b (if n > 256 then 256 else n) = (b1, r)" by fastforce
  note m = k_recv_more [OF r]
  show ?case
  proof (cases "n = 0 \<or> k_recvs b = []")
    case True
    with "1.prems" show ?thesis by (auto simp: drain_auth.simps [of b n] split: if_splits)
  next
    case False
    then have n: "n \<noteq> 0" "k_recvs b \<noteq> []" by auto
    show ?thesis
      using "1.prems" n r m "1.IH"(1) [OF n r [symmetric]] "1.IH"(2) [OF n r [symmetric]]
      by (cases r) (auto simp: drain_auth.simps [of b n] split: if_splits)
  qed
qed

lemma setup_ok:
  assumes "client_live c" "bridge_ok b" "\<not> xc_setup_done c"
  shows "succeeds (x11_client_do_setup b c) (\<lambda>(b', c', keep). bridge_ok b' \<and> xc_fd c' = xc_fd c \<and> (keep \<longrightarrow> client_live c' \<and> xc_setup_done c'))"
proof -
  have none: "x11_client_find_window c' X11_ROOT_WINDOW_ID = None" if "xc_windows c' = xc_windows c" for c'
    using assms(1,3) that unfolding x11_client_find_window_def find_slot_None_iff by (fastforce simp: client_live_def all_set_conv_all_nth)
  obtain b1 r where r: "isz_recv_all b 12 [] = (b1, r)" by fastforce
  have b1: "bridge_ok b1" using bridge_ok_more isz_recv_all_frame [OF r] assms(2) by blast
  have len: "length hdr = 12" if "r = Some hdr" for hdr using isz_recv_all_spec [OF r] that by simp
  have auth: "bridge_ok b2" if "drain_auth b1 n = (b2, ok)" for n b2 ok using bridge_ok_more [OF drain_auth_more [OF that]] b1 by simp
  have ok: "x11_ok c'" "xc_have c' < 16384" "xc_setup_done c'" "x11_client_find_window c' X11_ROOT_WINDOW_ID = None"
    if "c' = c\<lparr>xc_byte_order := bo, xc_setup_done := True\<rparr>" for c' bo
    using assms(1) that none [of c'] by (auto simp: client_live_def x11_ok_def)
  have full: "client_live c2 \<and> xc_setup_done c2 \<and> xc_fd c2 = xc_fd c"
    if "x11_client_new_window (c\<lparr>xc_byte_order := bo, xc_setup_done := True\<rparr>) X11_ROOT_WINDOW_ID = (c2, None)" for c2 bo
    using new_window_None [OF that] ok [OF refl, of bo] by (simp add: client_live_def)
  have root: "\<exists>root. window_at c2 i = Some root \<and> xc_fd c2 = xc_fd c
      \<and> client_live (upd_window c2 i (Some (root\<lparr>xw_parent_xid := 0, xw_mapped := True, xw_override_redirect := True, xw_w := 1024, xw_h := 768\<rparr>)))
      \<and> xc_setup_done (upd_window c2 i (Some (root\<lparr>xw_parent_xid := 0, xw_mapped := True, xw_override_redirect := True, xw_w := 1024, xw_h := 768\<rparr>)))"
    if "x11_client_new_window (c\<lparr>xc_byte_order := bo, xc_setup_done := True\<rparr>) X11_ROOT_WINDOW_ID = (c2, Some i)" for c2 i bo
  proof -
    note w = new_window_Some [OF that ok(1) [OF refl] ok(4) [OF refl]]
    let ?root = "zero_window\<lparr>xw_x11_id := X11_ROOT_WINDOW_ID, xw_parent_xid := 0, xw_mapped := True, xw_override_redirect := True, xw_w := 1024, xw_h := 768\<rparr>"
    have "window_ok ?root" using zero_window_ok by (simp add: window_ok_def)
    with w have "x11_ok (upd_window c2 i (Some ?root))" unfolding writable_def by auto
    moreover have "xc_have c2 < 16384" "xc_setup_done c2" "xc_fd c2 = xc_fd c" using w ok(2,3) [OF refl, of bo] by (auto simp: same_stream_def)
    ultimately show ?thesis using w by (auto simp: client_live_def upd_window_def)
  qed
  show ?thesis
  proof (cases r)
    case None
    with r b1 show ?thesis by (simp add: x11_client_do_setup_def)
  next
    case (Some hdr)
    have "length hdr = 12" by (rule len [OF Some])
    then show ?thesis
      unfolding x11_client_do_setup_def r Some Let_def using b1
      by (auto simp: x11_build_setup_layout layout_def Let_def split del: if_split intro!: succeeds_intros dest!: auth full root)
  qed
qed

section \<open>Draining a client\<close>

text \<open>The bytes received and not yet parsed, and the form of a request.\<close>

definition pending :: "x11_client \<Rightarrow> u8 list" where
  "pending c = take (xc_have c) (xc_buf c)"

definition is_request :: "u8 \<Rightarrow> u8 list \<Rightarrow> bool" where
  "is_request bo r \<longleftrightarrow> 4 \<le> length r \<and> (\<exists>len. x11_get_u16 r 2 bo = Some len \<and> length r = 4 * unat len)"

lemma get_u16_slice: "p + 4 \<le> length b \<Longrightarrow> 4 \<le> n \<Longrightarrow> x11_get_u16 (take n (drop p b)) 2 bo = x11_get_u16 b (p + 2) bo"
proof -
  assume "p + 4 \<le> length b" "4 \<le> n"
  moreover from this have "4 \<le> length b - p" by linarith
  ultimately show ?thesis by (auto simp: x11_get_u16_def numeral_3_eq_3)
qed

lemma request_at_is_request:
  assumes "x11_ok c" "request_at c p tot"
  shows "is_request (xc_byte_order c) (take tot (drop p (xc_buf c)))"
  using assms get_u16_slice [of p "xc_buf c" tot "xc_byte_order c"] by (auto simp: is_request_def request_at_def x11_ok_def)

lemma parsing_spec:
  assumes "parsing b c rs b' c' q" "x11_ok c" "bridge_ok b"
  shows "x11_ok c' \<and> bridge_ok b' \<and> xc_buf c' = xc_buf c \<and> xc_have c' = xc_have c \<and> xc_byte_order c' = xc_byte_order c \<and> xc_setup_done c' = xc_setup_done c
    \<and> q \<le> xc_have c \<and> concat rs = take q (xc_buf c) \<and> (\<forall>r \<in> set rs. is_request (xc_byte_order c) r) \<and> xc_sequence c' = xc_sequence c + of_nat (length rs)"
  using assms
proof (induction rule: parsing.induct)
  case (request rs b1 c1 p tot b2 c2)
  note IH = request.IH [OF request.prems]
  have nh: "\<not> request_hazard b1 c1 p tot" using dispatch_undefined [of c1 b1 p tot] IH request.hyps by auto
  from dispatch_request_ok [OF _ _ request.hyps(2) nh] IH request.hyps(3)
  have d: "x11_ok c2" "bridge_ok b2" "same_stream (c1\<lparr>xc_sequence := xc_sequence c1 + 1\<rparr>) c2" by auto
  have "take p (xc_buf c) @ take tot (drop p (xc_buf c)) = take (p + tot) (xc_buf c)" by (simp add: take_add)
  with IH d request_at_is_request [OF _ request.hyps(2)] request.hyps(2) show ?case by (auto simp: same_stream_def request_at_def)
qed simp

text \<open>What one call of the receive loop gets from the socket: interrupted calls are repeated, nothing may be there yet, and the end of the stream or an
  error of the socket is \<open>None\<close>.\<close>

fun next_arrival :: "nat \<Rightarrow> recv_result list \<Rightarrow> u8 list option" where
  "next_arrival cap [] = Some []"
| "next_arrival cap (RecvErr e # rs) = (if e = EINTR then next_arrival cap rs else if e = EAGAIN then Some [] else None)"
| "next_arrival cap (RecvData bs cs tr # rs) = (if bs = [] then None else Some (take cap bs))"

lemma recv_requests_arrival:
  assumes "recv_requests b c = (b', c', go)" "x11_ok c" "xc_have c < X11_CLIENT_RECV_BUF"
  shows "case next_arrival (X11_CLIENT_RECV_BUF - xc_have c) (k_recvs b) of None \<Rightarrow> \<not> go | Some new \<Rightarrow> go \<and> pending c' = pending c @ new"
  using assms
proof (induction b c rule: recv_requests.induct)
  case (1 b c)
  let ?cap = "X11_CLIENT_RECV_BUF - xc_have c"
  have len: "length (xc_buf c) = 16384" using "1.prems"(2) by (simp add: x11_ok_def)
  have cap: "length (xc_buf c) - xc_have c = ?cap" "0 < ?cap" "\<not> length (xc_buf c) \<le> xc_have c" using "1.prems"(3) len by simp_all
  show ?case
  proof (cases "k_recvs b")
    case Nil
    with "1.prems" cap show ?thesis by (auto simp: recv_requests.simps [of b c] Let_def)
  next
    case (Cons r rs)
    show ?thesis
    proof (cases r)
      case (RecvErr e)
      have k: "k_recv b (length (xc_buf c) - xc_have c) = (b\<lparr>k_recvs := rs\<rparr>, RecvErr e)" using Cons RecvErr by (simp add: k_recv_def)
      from "1.IH" [OF HOL.refl _ _ k [symmetric] HOL.refl] "1.prems" cap Cons RecvErr k show ?thesis
        by (auto simp: recv_requests.simps [of b c] Let_def split: if_splits)
    next
      case (RecvData bs cs tr)
      have k: "\<exists>b1. k_recv b (length (xc_buf c) - xc_have c) = (b1, RecvData (take ?cap bs) cs tr)" using Cons RecvData cap by (auto simp: k_recv_def)
      have "take (xc_have c + n) (take (xc_have c) (xc_buf c) @ take ?cap bs @ z) = take (xc_have c) (xc_buf c) @ take ?cap bs" if "n = length (take ?cap bs)" for n z
        using that len "1.prems"(3) by (auto simp: min_def)
      with k "1.prems" cap Cons RecvData show ?thesis
        by (auto simp: recv_requests.simps [of b c] Let_def pending_def split: if_splits)
    qed
  qed
qed

text \<open>No complete request is left in some bytes.\<close>

definition no_request_yet :: "u8 \<Rightarrow> u8 list \<Rightarrow> bool" where
  "no_request_yet bo bs \<longleftrightarrow> length bs < 4 \<or> (\<exists>len. x11_get_u16 bs 2 bo = Some len \<and> length bs < unat len * 4)"

lemma incomplete_rest:
  assumes "x11_ok c" "q \<le> xc_have c" "incomplete c q" "rest = take (xc_have c - q) (drop q (xc_buf c))"
  shows "no_request_yet (xc_byte_order c) rest"
proof (cases "xc_have c - q < 4")
  case True
  with assms(4) show ?thesis by (auto simp: no_request_yet_def)
next
  case False
  have "length (xc_buf c) = 16384" "xc_have c \<le> 16384" using assms(1) by (simp_all add: x11_ok_def)
  with get_u16_slice [of q "xc_buf c" "xc_have c - q" "xc_byte_order c"] False assms(2-4) show ?thesis
    by (auto simp: no_request_yet_def incomplete_def)
qed

lemma shift_buffer_ok:
  assumes "x11_ok c" "q \<le> xc_have c"
  shows "x11_ok (shift_buffer c q)" "pending c = take q (xc_buf c) @ pending (shift_buffer c q)" "xc_have (shift_buffer c q) = xc_have c - q"
    "xc_setup_done (shift_buffer c q) = xc_setup_done c" "xc_sequence (shift_buffer c q) = xc_sequence c"
proof -
  have len: "length (xc_buf c) = 16384" "xc_have c \<le> 16384" using assms(1) by (simp_all add: x11_ok_def)
  show "x11_ok (shift_buffer c q)" using assms len by (auto simp: shift_buffer_def Let_def x11_ok_def)
  have "take (xc_have c) (xc_buf c) = take q (xc_buf c) @ take (xc_have c - q) (drop q (xc_buf c))"
    using assms(2) by (metis le_add_diff_inverse take_add)
  moreover have "pending (shift_buffer c q) = take (xc_have c - q) (drop q (xc_buf c))"
    using len by (cases "q = 0") (simp_all add: pending_def shift_buffer_def Let_def)
  ultimately show "pending c = take q (xc_buf c) @ pending (shift_buffer c q)" by (simp add: pending_def)
qed (simp_all add: shift_buffer_def Let_def)

lemma incomplete_room: "incomplete c q \<Longrightarrow> xc_have c - q < 16384"
  by (auto simp: incomplete_def)

text \<open>Draining reaches a request with undefined behaviour.\<close>

definition drain_hazard :: "bridge \<Rightarrow> x11_client \<Rightarrow> bool" where
  "drain_hazard b c \<longleftrightarrow> (\<exists>b1 c1 rs b' c' q tot. recv_requests b c = (b1, c1, True) \<and> parsing b1 c1 rs b' c' q \<and> request_at c' q tot \<and> request_hazard b' c' q tot)"

text \<open>The parsing loop runs through the states of \<open>parsing\<close>, so draining is undefined when one of them has a request with undefined behaviour.\<close>

lemma parsing_run:
  assumes "parsing b c rs b' c' q" "x11_ok c" "bridge_ok b"
  shows "parse_requests b c 0 = parse_requests b' c' q"
  using assms
proof (induction rule: parsing.induct)
  case (request rs b1 c1 p tot b2 c2)
  have "x11_ok c1" using parsing_spec [OF request.hyps(1) request.prems] by blast
  then have "length (xc_buf c1) = 16384" "xc_have c1 \<le> 16384" by (simp_all add: x11_ok_def)
  with request.hyps(2,3) have "parse_requests b1 c1 p = parse_requests b2 c2 (p + tot)"
    by (subst parse_requests.simps) (auto simp: request_at_def Let_def word_less_nat_alt)
  with request.IH [OF request.prems] show ?case by simp
qed simp

lemma drain_undefined:
  assumes "client_live c" "bridge_ok b" "xc_setup_done c" "drain_hazard b c"
  shows "x11_client_drain b c = None"
proof -
  from assms(4) obtain b1 c1 rs b2 c2 q tot where h: "recv_requests b c = (b1, c1, True)" "parsing b1 c1 rs b2 c2 q" "request_at c2 q tot" "request_hazard b2 c2 q tot"
    by (auto simp: drain_hazard_def)
  have c1: "x11_ok c1" "bridge_ok b1" using recv_requests_ok [OF h(1) _ assms(2)] received_ok assms(1) by (auto simp: client_live_def)
  have c2: "x11_ok c2" "bridge_ok b2" using parsing_spec [OF h(2) c1] by simp_all
  have "x11_client_dispatch_request b2 c2 q tot = None" using dispatch_undefined [OF c2 h(3)] h(4) by simp
  moreover have "length (xc_buf c2) = 16384" "xc_have c2 \<le> 16384" using c2(1) by (simp_all add: x11_ok_def)
  ultimately have "parse_requests b2 c2 q = None" using h(3)
    by (subst parse_requests.simps) (auto simp: request_at_def Let_def word_less_nat_alt)
  with parsing_run [OF h(2) c1] h(1) assms(3) show ?thesis by (simp add: x11_client_drain_def)
qed

text \<open>What a parsing run is of the bytes that wait in the buffer of its first state: requests, dispatched one after the other, and a rest.\<close>

lemma parsing_cuts:
  assumes "parsing b c rs b' c' q" "x11_ok c" "bridge_ok b"
  shows "pending c = concat rs @ take (xc_have c' - q) (drop q (xc_buf c'))" "q = length (concat rs)"
proof -
  note ps = parsing_spec [OF assms]
  have q: "q \<le> xc_have c" "xc_have c \<le> length (xc_buf c)" using ps assms(2) by (simp_all add: x11_ok_def)
  then have "take (xc_have c) (xc_buf c) = take q (xc_buf c) @ take (xc_have c - q) (drop q (xc_buf c))"
    by (metis le_add_diff_inverse take_add)
  with ps show "pending c = concat rs @ take (xc_have c' - q) (drop q (xc_buf c'))" by (simp add: pending_def)
  from ps q show "q = length (concat rs)" by simp
qed

text \<open>What a drain makes of the bytes that waited and those that arrived: \<open>rs\<close> are dispatched in order and lead to the state \<open>(b2, c2)\<close>. A client that is kept
  waits for the rest of an incomplete request; a client is dropped only at a request that is refused.\<close>

definition drain_cut :: "bridge \<Rightarrow> x11_client \<Rightarrow> u8 list \<Rightarrow> bridge \<Rightarrow> x11_client \<Rightarrow> bool \<Rightarrow> bool" where
  "drain_cut b c new b' c' keep \<longleftrightarrow> (\<exists>b1 c1 rs rest b2 c2. recv_requests b c = (b1, c1, True)
     \<and> pending c1 = pending c @ new \<and> pending c @ new = concat rs @ rest \<and> (\<forall>r \<in> set rs. is_request (xc_byte_order c) r)
     \<and> parsing b1 c1 rs b2 c2 (length (concat rs)) \<and> xc_sequence c2 = xc_sequence c + of_nat (length rs)
     \<and> (if keep then b' = b2 \<and> c' = shift_buffer c2 (length (concat rs)) \<and> pending c' = rest \<and> no_request_yet (xc_byte_order c) rest
        else gives_up_at b2 c2 (length (concat rs))))"

lemma drain_cut_intro:
  assumes "recv_requests b c = (b1, c1, True)" "pending c1 = pending c @ new" "x11_ok c1" "bridge_ok b1" "xc_byte_order c1 = xc_byte_order c" "xc_sequence c1 = xc_sequence c"
    and p: "parsing b1 c1 rs b2 c2 q"
    and k: "if keep then b' = b2 \<and> c' = shift_buffer c2 q \<and> incomplete c2 q else gives_up_at b2 c2 q"
  shows "drain_cut b c new b' c' keep"
proof -
  note ps = parsing_spec [OF p assms(3,4)]
  note cut = parsing_cuts [OF p assms(3,4)]
  let ?rest = "take (xc_have c2 - q) (drop q (xc_buf c2))"
  have q: "q \<le> xc_have c2" using ps by simp
  have sh: "pending c2 = take q (xc_buf c2) @ pending (shift_buffer c2 q)" using shift_buffer_ok [of c2 q] ps q by blast
  have "length (take q (xc_buf c2)) = q" using ps q by (auto simp: x11_ok_def)
  moreover have "pending c2 = take q (xc_buf c2) @ ?rest" using cut(1) ps by (simp add: pending_def)
  ultimately have rest: "pending (shift_buffer c2 q) = ?rest" using sh by simp
  have "no_request_yet (xc_byte_order c) ?rest" if keep
    using incomplete_rest [of c2 q ?rest] ps q k that assms(5) by simp
  with k rest have fin: "if keep then b' = b2 \<and> c' = shift_buffer c2 q \<and> pending c' = ?rest \<and> no_request_yet (xc_byte_order c) ?rest else gives_up_at b2 c2 q"
    by (simp split: if_splits)
  have eq: "pending c @ new = concat rs @ ?rest" using cut(1) assms(2) by simp
  have reqs: "\<forall>r \<in> set rs. is_request (xc_byte_order c) r" "xc_sequence c2 = xc_sequence c + of_nat (length rs)"
    using ps assms(5,6) by simp_all
  show ?thesis unfolding drain_cut_def
    by (rule exI [of _ b1], rule exI [of _ c1], rule exI [of _ rs], rule exI [of _ ?rest], rule exI [of _ b2], rule exI [of _ c2])
      (unfold cut(2) [symmetric], intro conjI assms(1,2) eq reqs p fin)
qed

lemma drain_ok:
  assumes "client_live c" "bridge_ok b" "xc_setup_done c" "\<not> drain_hazard b c"
  shows "\<exists>b' c' keep. x11_client_drain b c = Some (b', c', keep) \<and> bridge_ok b' \<and> xc_fd c' = xc_fd c
    \<and> (keep \<longrightarrow> client_live c' \<and> xc_setup_done c')
    \<and> (case next_arrival (X11_CLIENT_RECV_BUF - xc_have c) (k_recvs b) of None \<Rightarrow> \<not> keep | Some new \<Rightarrow> drain_cut b c new b' c' keep)"
proof -
  let ?new = "next_arrival (X11_CLIENT_RECV_BUF - xc_have c) (k_recvs b)"
  have ok: "x11_ok c" "xc_have c < X11_CLIENT_RECV_BUF" using assms(1) by (simp_all add: client_live_def)
  obtain b1 c1 go where r: "recv_requests b c = (b1, c1, go)" by (metis prod_cases3)
  note rc = recv_requests_ok [OF r ok(1) assms(2)]
  note new = recv_requests_arrival [OF r ok]
  have c1: "x11_ok c1" "bridge_ok b1" "xc_setup_done c1" "xc_byte_order c1 = xc_byte_order c" "xc_sequence c1 = xc_sequence c" "xc_fd c1 = xc_fd c"
    using rc received_ok [OF _ ok(1)] assms(3) by (auto simp: received_def)
  show ?thesis
  proof (cases go)
    case False
    with r assms(3) have run: "x11_client_drain b c = Some (b1, c1, False)" by (simp add: x11_client_drain_def)
    have "?new = None" using new False by (simp split: option.splits)
    with run c1(2,6) show ?thesis by (simp, intro exI [of _ False], simp)
  next
    case True
    from new True obtain nw where nw: "?new = Some nw" "pending c1 = pending c @ nw" by (auto split: option.splits)
    have "recv_requests b c = (b1, c1, True)" using r True by simp
    note cutI = drain_cut_intro [OF this nw(2) c1(1,2,4,5)]
    have nh: "\<not> (\<exists>rs b' c' q tot. parsing b1 c1 rs b' c' q \<and> request_at c' q tot \<and> request_hazard b' c' q tot)"
      using assms(4) r True by (auto simp: drain_hazard_def)
    from parse_requests_outcome [OF c1(1,2) parsing.start zero_le] nh obtain b2 c2 q keep where p:
      "parse_requests b1 c1 0 = Some (b2, c2, q, keep)" "bridge_ok b2" "x11_ok c2" "q \<le> xc_have c2" "xc_fd c2 = xc_fd c1"
      "if keep then (\<exists>rs. parsing b1 c1 rs b2 c2 q) \<and> incomplete c2 q else \<exists>rs b0 c0. parsing b1 c1 rs b0 c0 q \<and> gives_up_at b0 c0 q"
      by (elim disjE) (blast, blast)
    have run: "x11_client_drain b c = Some (if keep then (b2, shift_buffer c2 q, True) else (b2, c2, False))"
      using r True p(1) assms(3) by (simp add: x11_client_drain_def)
    show ?thesis
    proof (cases keep)
      case False
      with p(6) obtain rs b0 c0 where "parsing b1 c1 rs b0 c0 q" "gives_up_at b0 c0 q" by auto
      then have "drain_cut b c nw b2 c2 False" by (intro cutI) simp_all
      with False run p(2,5) c1(6) nw(1) show ?thesis by (simp, intro exI [of _ False], simp)
    next
      case keep: True
      from p(6) keep obtain rs where rs: "parsing b1 c1 rs b2 c2 q" "incomplete c2 q" by auto
      let ?c = "shift_buffer c2 q"
      have "drain_cut b c nw b2 ?c True" using rs by (intro cutI) simp_all
      moreover have "client_live ?c" "xc_setup_done ?c"
        using shift_buffer_ok [OF p(3,4)] incomplete_room [OF rs(2)] parsing_spec [OF rs(1) c1(1,2)] c1(3) by (simp_all add: client_live_def)
      moreover have "xc_fd ?c = xc_fd c" using p(5) c1(6) by (simp add: shift_buffer_def Let_def)
      ultimately show ?thesis using keep p(2) nw(1) run by (simp, intro exI [of _ True], simp)
    qed
  qed
qed

end
