(* ===== verification/X11_Requests_Correct.thy ===== *)
theory X11_Requests_Correct
  imports X11_Dispatch_Safe
begin

text \<open>
  What the requests of an X11 client come to: the type safety of the dispatch, the reading of the stream of requests, and properties of windows that are stored and found again.
\<close>

unbundle bit_operations_syntax

section \<open>Properties are stored and found again\<close>

text \<open>The fields of a request to replace a property and of a request to read it from the beginning.\<close>

definition reads_change :: "x11_client \<Rightarrow> nat \<Rightarrow> nat \<Rightarrow> u32 \<Rightarrow> u32 \<Rightarrow> u32 \<Rightarrow> u8 \<Rightarrow> u8 list \<Rightarrow> bool" where
  "reads_change c p tot wid prop type fmt bytes \<longleftrightarrow> 24 + length bytes \<le> tot \<and> rd32 c (p + 4) = Some wid \<and> rd32 c (p + 8) = Some prop
     \<and> rd32 c (p + 12) = Some type \<and> rd8 c (p + 16) = Some fmt
     \<and> (\<exists>n. rd32 c (p + 20) = Some n \<and> unat n * (unat fmt div 8) = length bytes) \<and> rd_bytes c (p + 24) (length bytes) = Some bytes"

definition reads_get :: "x11_client \<Rightarrow> nat \<Rightarrow> nat \<Rightarrow> u32 \<Rightarrow> u32 \<Rightarrow> u32 \<Rightarrow> u32 \<Rightarrow> bool" where
  "reads_get c p tot wid prop type llen \<longleftrightarrow> 24 \<le> tot \<and> rd32 c (p + 4) = Some wid \<and> rd32 c (p + 8) = Some prop
     \<and> rd32 c (p + 12) = Some type \<and> rd32 c (p + 16) = Some 0 \<and> rd32 c (p + 20) = Some llen"

lemma prop_find_set:
  assumes "window_ok win" "property_ok pr" "prop_slot win (pr_property pr) j"
  shows "x11_window_prop_find (set_prop win j pr) (pr_property pr) = Some j" "prop_at (set_prop win j pr) j = Some pr"
proof -
  have j: "j < length (xw_props win)"
    using assms(3) find_slot_SomeD [of _ "xw_props win" j] free_slot_SomeD [of "xw_props win" j]
    by (auto simp: prop_slot_def x11_window_prop_find_def x11_window_prop_alloc_def split: option.splits)
  have "window_ok (set_prop win j pr)" using assms by (intro window_ok_set_prop) (auto simp: prop_slot_def split: option.splits)
  then have "unique_keys pr_property (xw_props (set_prop win j pr))" by (simp add: window_ok_def)
  from find_slot_unique [OF this, of j pr] j show "x11_window_prop_find (set_prop win j pr) (pr_property pr) = Some j"
    by (simp add: x11_window_prop_find_def set_prop_def)
  from j show "prop_at (set_prop win j pr) j = Some pr" by (simp add: prop_at_def set_prop_def)
qed

lemma change_property_stores:
  assumes "x11_ok c" "bridge_ok b" "reads_change c p tot wid prop type fmt bytes" "prop \<noteq> 0" "fmt = 8 \<or> fmt = 16 \<or> fmt = 32"
    "length bytes \<le> 4096" "x11_client_find_window c wid = Some i" "window_at c i = Some win" "prop_slot win prop j" "bytes = [] \<or> snd (k_alloc b)"
  shows "\<exists>b'. req_change_property b c p tot 0 seq
      = Some (b', upd_window c i (Some (set_prop win j \<lparr>pr_property = prop, pr_type = type, pr_format = fmt, pr_value = bytes\<rparr>)), True)"
proof -
  let ?pr = "\<lparr>pr_property = prop, pr_type = type, pr_format = fmt, pr_value = bytes\<rparr>"
  from assms(3) obtain n where n: "24 + length bytes \<le> tot" "rd32 c (p + 4) = Some wid" "rd32 c (p + 8) = Some prop" "rd32 c (p + 12) = Some type"
    "rd8 c (p + 16) = Some fmt" "rd32 c (p + 20) = Some n" "unat n * (unat fmt div 8) = length bytes" "rd_bytes c (p + 24) (length bytes) = Some bytes"
    by (auto simp: reads_change_def)
  have win: "window_ok win" "xw_x11_id win = wid" "writable c i wid" using find_window_writable [OF assms(1,7)] assms(8) by auto
  have "\<exists>b1. write_property b win j (prop_at win j) 0 prop type fmt bytes = (b1, set_prop win j ?pr, None)"
    using assms(10) by (cases "k_alloc b") (auto simp: write_property_def Let_def)
  then obtain b1 where b1: "write_property b win j (prop_at win j) 0 prop type fmt bytes = (b1, set_prop win j ?pr, None)" by blast
  note w = write_property_ok [OF b1 win(1) assms(9,4,5,6)]
  have ok: "x11_ok (upd_window c i (Some (set_prop win j ?pr)))" using win(2,3) w(1,2) by (auto simp: writable_def)
  have "succeeds (deliver b1 (upd_window c i (Some (set_prop win j ?pr)))
      (x11_build_property_notify (Some (replicate 32 0)) wid prop 0 0 seq (xc_byte_order (upd_window c i (Some (set_prop win j ?pr))))) X11_EVMASK_PROPERTY_CHANGE wid) (\<lambda>_. True)"
    using ok w(3) [OF assms(2)] by (auto intro!: succeeds_intros build_intros)
  then obtain b2 where d: "deliver b1 (upd_window c i (Some (set_prop win j ?pr)))
      (x11_build_property_notify (Some (replicate 32 0)) wid prop 0 0 seq (xc_byte_order (upd_window c i (Some (set_prop win j ?pr))))) X11_EVMASK_PROPERTY_CHANGE wid = Some b2"
    by (auto simp: succeeds_def)
  have slot: "(case x11_window_prop_find win prop of Some j \<Rightarrow> Some j | None \<Rightarrow> x11_window_prop_alloc win) = Some j"
    using assms(9) by (auto simp: prop_slot_def split: option.splits)
  have "store_property b c i win j 0 prop type fmt bytes seq = Some (b2, upd_window c i (Some (set_prop win j ?pr)), True)"
    unfolding store_property_def b1 using d win(2) by (simp add: Let_def)
  moreover have "\<not> tot - 4 < 20" "\<not> length bytes > tot - 4 - 20" using n(1) by linarith+
  ultimately show ?thesis
    using n assms(4-8) slot unfolding req_change_property_def with_window_def Let_def by (auto simp del: bind_eq_Some_conv)
qed

lemma get_property_replies:
  assumes "reads_get c p tot wid prop type llen" "x11_client_find_window c wid = Some i" "window_at c i = Some win"
    "x11_window_prop_find win prop = Some j" "prop_at win j = Some pr" "type = 0 \<or> type = pr_type pr" "length (pr_value pr) \<le> 4 * unat llen" "property_ok pr"
  shows "req_get_property b c p tot 0 seq = send_reply b c (x11_build (XGetProperty (pr_format pr) (pr_type pr) 0
      (of_nat (length (pr_value pr) div (unat (pr_format pr) div 8))) (pr_value pr)) seq (xc_byte_order c) (replicate 4128 0))"
proof -
  have fmt: "unat (pr_format pr) div 8 > 0" using assms(8) by (auto simp: property_ok_def)
  have none: "x11_build_get_property_reply (Some (replicate 4128 0)) 4128 f t 0 0 None 0 seq bo = x11_build_get_property_reply (Some (replicate 4128 0)) 4128 f t 0 0 (Some []) 0 seq bo"
    for f t bo by (simp add: x11_build_get_property_reply_def Let_def)
  have bind: "r \<bind> (\<lambda>(b, c, ok). if \<not> ok then Some (b, c, False) else if (0 :: u8) \<noteq> 0 \<and> z then g b c else Some (b, c, True)) = r" for r :: handled and z g
    by (cases r) auto
  have t: "\<not> tot - 4 < 20" using assms(1) by (auto simp: reads_get_def)
  have ret: "(if length (pr_value pr) < unat llen * 4 then length (pr_value pr) else unat llen * 4) = length (pr_value pr)"
    "(if 0 < length (pr_value pr) then length (pr_value pr) - 0 else 0) = length (pr_value pr)" using assms(7) by auto
  have ty: "\<not> (type \<noteq> 0 \<and> pr_type pr \<noteq> type)" using assms(6) by blast
  have "req_get_property b c p tot 0 seq = send_reply b c (x11_build_get_property_reply (Some (replicate 4128 0)) 4128 (pr_format pr) (pr_type pr)
      (of_nat 0) (of_nat (length (pr_value pr) div (unat (pr_format pr) div 8))) (if length (pr_value pr) > 0 then Some (drop 0 (pr_value pr)) else None)
      (length (pr_value pr)) seq (xc_byte_order c))"
    using assms(1-5) unfolding reads_get_def req_get_property_def with_window_def Let_def
    by (simp only: t if_False ret ty fmt if_True bind option.case bind.bind_lunit unat_0 mult_0 less_irrefl)
  then show ?thesis using none by (cases "pr_value pr") simp_all
qed

section \<open>Examples\<close>

text \<open>A bridge that has just started, without a connection to the server, and a client with some bytes in its buffer.\<close>

definition sample_bridge :: bridge where
  "sample_bridge = \<lparr>k_allocs = [], k_sends = [], k_recvs = [], k_dups = [], k_clock = [], k_accepts = [], k_ctls = [], k_sent = [], k_closed = [], k_duped = [],
     g_dynamic_atoms = [], g_dynamic_atoms_cap = 0, g_next_atom = 69, g_xid_slot = 0, br_isz = None\<rparr>"

definition sample_window :: x11_window where
  "sample_window = zero_window\<lparr>xw_x11_id := 0x40000001\<rparr>"

definition sample_client :: "u8 list \<Rightarrow> x11_client" where
  "sample_client bs = \<lparr>xc_fd = 7, xc_setup_done = True, xc_byte_order = X11_BYTE_ORDER_LSB, xc_sequence = 1, xc_xid_base = 0x40000000, xc_xid_mask = 0x001FFFFF,
     xc_buf = bs @ replicate (16384 - length bs) 0, xc_have = length bs,
     xc_windows = Some sample_window # replicate 63 None, xc_pixmaps = replicate 32 None, xc_gcs = replicate 32 None, xc_selections = replicate 8 None,
     xc_colormaps = replicate 16 None, xc_fonts = replicate 16 None, xc_cursors = replicate 16 None, xc_focus_xid = 0, xc_focus_revert_to = 0\<rparr>"

lemma sample_bridge_ok: "bridge_ok sample_bridge"
  by (simp add: sample_bridge_def bridge_ok_def)

lemma sample_client_ok: "length bs \<le> 16384 \<Longrightarrow> x11_ok (sample_client bs)"
proof -
  have "unique_keys xw_x11_id (Some sample_window # replicate 63 None)"
    by (auto simp: unique_keys_def nth_Cons')
  moreover have "window_ok sample_window" using zero_window_ok by (simp add: sample_window_def window_ok_def)
  moreover assume "length bs \<le> 16384"
  ultimately show ?thesis by (auto simp: x11_ok_def sample_client_def unique_keys_replicate)
qed

definition sample_name_requests :: "u8 list" where
  "sample_name_requests = [18, 0, 7, 0, 1, 0, 0, 0x40, 39, 0, 0, 0, 31, 0, 0, 0, 8, 0, 0, 0, 4, 0, 0, 0, 97, 98, 99, 100,
     20, 0, 6, 0, 1, 0, 0, 0x40, 39, 0, 0, 0, 0, 0, 0, 0, 0, 0, 0, 0, 100, 0, 0, 0]"

lemma find_window_upd:
  assumes "x11_ok (upd_window c i (Some w))" "i < length (xc_windows c)"
  shows "x11_client_find_window (upd_window c i (Some w)) (xw_x11_id w) = Some i"
  using assms find_slot_unique [of xw_x11_id "(xc_windows c)[i := Some w]" i w]
  by (simp add: x11_ok_def upd_window_def x11_client_find_window_def)

lemma property_reply_sent:
  assumes "length bytes \<le> 4096"
  shows "send_reply b c (x11_build (XGetProperty fmt type af n bytes) seq (xc_byte_order c) (replicate 4128 0))
    = Some (case isz_send_all b (xc_fd c) (layout (xc_byte_order c) (x11_fields seq (XGetProperty fmt type af n bytes)) (32 + x11_pad4 (length bytes)))
        of (b', ok) \<Rightarrow> (b', c, ok))"
proof -
  have pad: "x11_pad4 (length bytes) \<le> 4096" using assms by (simp add: x11_pad4_def)
  have "length (layout (xc_byte_order c) (x11_fields seq (XGetProperty fmt type af n bytes)) (32 + x11_pad4 (length bytes))) = 32 + x11_pad4 (length bytes)"
    using x11_pad4_ge(1) [of "length bytes"] by (simp add: layout_def Let_def comp_def)
  then show ?thesis
    using assms pad x11_build_layout [of "XGetProperty fmt type af n bytes" "replicate 4128 0" seq "xc_byte_order c"]
    by (simp add: send_reply_def x11_client_send_raw_def split: prod.splits)
qed

section \<open>Properties\<close>

text \<open>C36: requests are well typed. For every well-formed client and every complete request in its buffer, whatever the bytes, the dispatch returns: the client and the bridge are well formed
  again, the request uses up one sequence number and the buffer is not touched. The only exceptions are the three requests of \<open>request_hazard\<close>, and these are undefined.\<close>

theorem x11_requests_well_typed:
  assumes "x11_ok c" and "bridge_ok b" and "request_at c p tot"
  shows "if request_hazard b c p tot then x11_client_dispatch_request b c p tot = None
    else \<exists>b' c' keep. x11_client_dispatch_request b c p tot = Some (b', c', keep) \<and> x11_ok c' \<and> bridge_ok b'
      \<and> xc_sequence c' = xc_sequence c + 1 \<and> xc_buf c' = xc_buf c \<and> xc_have c' = xc_have c"
  using dispatch_undefined [OF assms] dispatch_request_ok [OF assms] by (auto simp: same_stream_def)

text \<open>A request for the atom of the name \<open>NAME\<close>.\<close>

theorem x11_requests_well_typed_witness:
  "\<exists>b' c' keep. x11_client_dispatch_request sample_bridge (sample_client [16, 0, 3, 0, 4, 0, 0, 0, 78, 65, 77, 69]) 0 12 = Some (b', c', keep)
     \<and> x11_ok c' \<and> xc_sequence c' = 2"
proof -
  let ?c = "sample_client [16, 0, 3, 0, 4, 0, 0, 0, 78, 65, 77, 69]"
  have "x11_ok ?c" by (rule sample_client_ok) simp
  moreover have "request_at ?c 0 12" by (simp add: request_at_def sample_client_def x11_get_u16_def)
  moreover have "\<not> request_hazard sample_bridge ?c 0 12" by (simp add: request_hazard_def sample_client_def Let_def)
  ultimately show ?thesis
    using x11_requests_well_typed [of ?c sample_bridge 0 12] sample_bridge_ok by (auto simp: sample_client_def)
qed

text \<open>C37: a call of \<^verbatim>\<open>x11_client_drain\<close> on a client that has finished its setup returns for every behaviour of the socket, unless it meets a request with undefined behaviour,
  and then it is undefined. When the peer has closed or the socket fails, the client is dropped. Otherwise the bytes that were waiting, followed by exactly the bytes that the socket delivers
  (\<open>next_arrival\<close>, up to the room in the buffer), are cut into requests \<open>rs\<close>, each with the length it announces, all dispatched in order and counted by the sequence
  number (\<open>drain_cut\<close>). A client that is kept has as its pending bytes the rest behind these requests, in which no complete request is left; it is well formed, and its buffer is
  not full, so that the next call can receive again. A client is dropped only at a request that announces no length or more than the buffer holds, or whose handler gives it up.\<close>

theorem x11_drain_cuts_requests:
  assumes "client_live c" and "bridge_ok b" and "xc_setup_done c"
  shows "if drain_hazard b c then x11_client_drain b c = None
    else \<exists>b' c' keep. x11_client_drain b c = Some (b', c', keep) \<and> bridge_ok b' \<and> xc_fd c' = xc_fd c
      \<and> (keep \<longrightarrow> client_live c' \<and> xc_setup_done c')
      \<and> (case next_arrival (X11_CLIENT_RECV_BUF - xc_have c) (k_recvs b) of None \<Rightarrow> \<not> keep | Some new \<Rightarrow> drain_cut b c new b' c' keep)"
  using drain_undefined [OF assms] drain_ok [OF assms] by (cases "drain_hazard b c") (simp_all only: if_True if_False simp_thms)

text \<open>A client that sends \<^verbatim>\<open>NoOperation\<close>.\<close>

lemma sample_drain: 
  "recv_requests (sample_bridge\<lparr>k_recvs := [RecvData [119, 0, 1, 0] [] False]\<rparr>) (sample_client [])
    = (sample_bridge, sample_client [119, 0, 1, 0], True)"
  by (simp add: recv_requests.simps Let_def k_recv_def sample_bridge_def sample_client_def)

theorem x11_drain_cuts_requests_witness:
  "\<exists>b' c' keep. x11_client_drain (sample_bridge\<lparr>k_recvs := [RecvData [119, 0, 1, 0] [] False]\<rparr>) (sample_client []) = Some (b', c', keep) \<and> bridge_ok b'
     \<and> drain_cut (sample_bridge\<lparr>k_recvs := [RecvData [119, 0, 1, 0] [] False]\<rparr>) (sample_client []) [119, 0, 1, 0] b' c' keep"
proof -
  let ?b = "sample_bridge\<lparr>k_recvs := [RecvData [119, 0, 1, 0] [] False]\<rparr>"
  have ok: "x11_ok (sample_client [119, 0, 1, 0])" "x11_ok (sample_client [])" by (simp_all add: sample_client_ok)
  have "\<not> drain_hazard ?b (sample_client [])"
  proof
    assume "drain_hazard ?b (sample_client [])"
    then obtain rs b' c' q tot where h: "parsing sample_bridge (sample_client [119, 0, 1, 0]) rs b' c' q" "request_at c' q tot" "request_hazard b' c' q tot"
      unfolding drain_hazard_def sample_drain by blast
    note ps = parsing_spec [OF h(1) ok(1) sample_bridge_ok]
    then have "q = 0" using h(2) by (auto simp: request_at_def sample_client_def)
    then show False using h(3) ps by (simp add: request_hazard_def Let_def sample_client_def)
  qed
  moreover have "bridge_ok ?b" using sample_bridge_ok by (simp add: bridge_ok_def)
  moreover have "client_live (sample_client [])" "xc_setup_done (sample_client [])" using ok(2) by (simp_all add: client_live_def sample_client_def)
  moreover have "next_arrival (X11_CLIENT_RECV_BUF - xc_have (sample_client [])) (k_recvs ?b) = Some [119, 0, 1, 0]" by (simp add: sample_client_def)
  ultimately show ?thesis using x11_drain_cuts_requests [of "sample_client []" ?b] unfolding if_not_P [OF \<open>\<not> drain_hazard ?b (sample_client [])\<close>] by auto
qed

text \<open>C38: a property of a window is stored and found again. After a \<^verbatim>\<open>ChangeProperty\<close> in replace mode that finds its window and a slot for the property, a \<^verbatim>\<open>GetProperty\<close> of
  the same property, with a length limit that covers the value, is answered with the type, the format and exactly the bytes that were stored.\<close>

theorem property_roundtrip:
  assumes "x11_ok c" and "bridge_ok b" and "reads_change c p tot wid prop type fmt bytes" and "prop \<noteq> 0" and "fmt = 8 \<or> fmt = 16 \<or> fmt = 32"
    and "length bytes \<le> X11_PROP_MAX_BYTES" and "x11_client_find_window c wid = Some i" and "window_at c i = Some win" and "prop_slot win prop j"
    and "bytes = [] \<or> snd (k_alloc b)" and "reads_get c p' tot' wid prop t llen" and "t = 0 \<or> t = type" and "length bytes \<le> 4 * unat llen"
  shows "\<exists>b' c'. req_change_property b c p tot 0 seq = Some (b', c', True)
    \<and> req_get_property b' c' p' tot' 0 seq'
      = Some (case isz_send_all b' (xc_fd c) (layout (xc_byte_order c)
            (x11_fields seq' (XGetProperty fmt type 0 (of_nat (length bytes div (unat fmt div 8))) bytes)) (32 + x11_pad4 (length bytes)))
          of (b'', ok) \<Rightarrow> (b'', c', ok))"
proof -
  let ?pr = "\<lparr>pr_property = prop, pr_type = type, pr_format = fmt, pr_value = bytes\<rparr>"
  let ?c = "upd_window c i (Some (set_prop win j ?pr))"
  let ?m = "XGetProperty fmt type 0 (of_nat (length bytes div (unat fmt div 8))) bytes"
  have i: "i < length (xc_windows c)" using assms(8) by (simp add: window_at_def split: if_splits)
  have pr: "property_ok ?pr" using assms(4-6) by (simp add: property_ok_def)
  have win: "window_ok win" "xw_x11_id win = wid" "writable c i wid" using find_window_writable [OF assms(1,7)] assms(8) by auto
  from change_property_stores [OF assms(1-10)] obtain b' where b': "req_change_property b c p tot 0 seq = Some (b', ?c, True)" by blast
  have "window_ok (set_prop win j ?pr)" using win(1) pr assms(9) by (intro window_ok_set_prop) (auto simp: prop_slot_def split: option.splits)
  with win(2,3) have "x11_ok ?c" by (simp add: writable_def)
  from find_window_upd [OF this i] win(2) i have "x11_client_find_window ?c wid = Some i" "window_at ?c i = Some (set_prop win j ?pr)"
    by (simp_all add: window_at_def upd_window_def)
  moreover have "reads_get ?c p' tot' wid prop t llen" using assms(11) by (simp add: reads_get_def upd_window_def)
  ultimately have "req_get_property b' ?c p' tot' 0 seq' = send_reply b' ?c (x11_build ?m seq' (xc_byte_order ?c) (replicate 4128 0))"
    using prop_find_set [OF win(1) pr] assms(9,12,13) pr
    by (subst get_property_replies [where win = "set_prop win j ?pr" and pr = ?pr]) simp_all
  then show ?thesis using assms(6) b' property_reply_sent [of bytes b' ?c] by (auto simp: upd_window_def)
qed

text \<open>The name \<open>abcd\<close> of a window is set and read.\<close>

theorem property_roundtrip_witness:
  "\<exists>b' c'. req_change_property sample_bridge (sample_client sample_name_requests) 0 28 0 1 = Some (b', c', True)
    \<and> req_get_property b' c' 28 24 0 2
      = Some (case isz_send_all b' 7 (layout X11_BYTE_ORDER_LSB (x11_fields 2 (XGetProperty 8 31 0 4 [97, 98, 99, 100])) 36) of (b'', ok) \<Rightarrow> (b'', c', ok))"
proof -
  let ?c = "sample_client sample_name_requests"
  have c: "x11_ok ?c" by (rule sample_client_ok) (simp add: sample_name_requests_def)
  have reads: "reads_change ?c 0 28 0x40000001 39 31 8 [97, 98, 99, 100]" "reads_get ?c 28 24 0x40000001 39 0 100"
    by (simp_all add: reads_change_def reads_get_def sample_client_def sample_name_requests_def x11_get_u32_def rd_bytes_def)
  have win: "x11_client_find_window ?c 0x40000001 = Some 0" "window_at ?c 0 = Some sample_window"
    by (simp_all add: sample_client_def x11_client_find_window_def window_at_def sample_window_def)
  have slot: "prop_slot sample_window 39 0" by code_simp
  have alloc: "snd (k_alloc sample_bridge)" by (simp add: k_alloc_def sample_bridge_def)
  have "xc_fd ?c = 7" "xc_byte_order ?c = X11_BYTE_ORDER_LSB" by (simp_all add: sample_client_def)
  then show ?thesis
    using property_roundtrip [OF c sample_bridge_ok reads(1) _ _ _ win slot _ reads(2), of 1 2] alloc by (simp add: x11_pad4_def)
qed

end
