(* ===== verification/X11_Bridge.thy ===== *)
theory X11_Bridge
  imports X11_Requests_Correct Isz_Text
begin

text \<open>
  The program of the X11 bridge, \<^verbatim>\<open>x11bridge/main.c\<close>: its start, the table of clients, the handlers of the three kinds of sockets, the event loop and the shutdown. A pointer to a slot
  of the table is its index, and an epoll tag is a value of \<open>fd_tag\<close>. The interest list of the epoll instance is part of the state. The results of \<^verbatim>\<open>accept4\<close> come from the script of the
  operating system, an exhausted script answers \<^verbatim>\<open>EAGAIN\<close>; those of \<^verbatim>\<open>fcntl\<close>, \<^verbatim>\<open>epoll_ctl\<close>, \<^verbatim>\<open>bind\<close> and \<^verbatim>\<open>listen\<close> come from the script of control calls.
\<close>

unbundle bit_operations_syntax

section \<open>Configuration\<close>

text \<open>\<^verbatim>\<open>strtol\<close> with base 10: the value and the rest of the string, \<open>None\<close> when no digit is found. A value that does not fit becomes \<^verbatim>\<open>LONG_MAX\<close> or \<^verbatim>\<open>LONG_MIN\<close>.\<close>

definition strtol :: "char list \<Rightarrow> (int \<times> char list) option" where
  "strtol s =
     (let t = dropWhile is_space s;
          neg = (t \<noteq> [] \<and> hd t = CHR ''-'');
          t = (if t \<noteq> [] \<and> (hd t = CHR ''-'' \<or> hd t = CHR ''+'') then tl t else t);
          ds = takeWhile is_digit t;
          v = (if neg then - int (dec_val ds) else int (dec_val ds))
      in if ds = [] then None else Some (max (- (2 ^ 63)) (min (2 ^ 63 - 1) v), dropWhile is_digit t))"

definition parse_display :: "char list option \<Rightarrow> int option" where
  "parse_display s =
     (case s of
        None \<Rightarrow> Some 0
      | Some s \<Rightarrow>
          if s = [] then Some 0
          else case strtol s of
                 None \<Rightarrow> None
               | Some (v, rest) \<Rightarrow> if rest \<noteq> [] then None else if v < 0 \<or> v > 99 then None else Some v)"

text \<open>The socket file of a display.\<close>

definition x11_socket_path :: "int \<Rightarrow> char list" where
  "x11_socket_path display = ''/tmp/.X11-unix/X'' @ dec (nat display)"

text \<open>\<open>made\<close> is whether \<^verbatim>\<open>mkdir\<close> succeeds or finds the directory, and \<open>sock\<close> the result of \<^verbatim>\<open>socket\<close>.\<close>

definition open_x11_listen :: "bridge \<Rightarrow> int \<Rightarrow> bool \<Rightarrow> fd option \<Rightarrow> bridge \<times> fd option" where
  "open_x11_listen b display made sock =
     (if \<not> made then (b, None)
      else let (path, n) = snprintf 108 (x11_socket_path display)
           in if n \<ge> 108 then (b, None)
              else case sock of
                     None \<Rightarrow> (b, None)
                   | Some fd \<Rightarrow>
                       (case k_ctl b of (b, bound) \<Rightarrow>
                          if \<not> bound then (k_close b fd, None)
                          else (case k_ctl b of (b, listening) \<Rightarrow>
                                  if \<not> listening then (k_close b fd, None) else (b, Some fd))))"

section \<open>The table of clients\<close>

datatype fd_tag = FD_ISZ | FD_X11_LISTEN | FD_X11_CLIENT nat

record client_slot =
  sl_client :: "x11_client option"
  sl_fd :: fd

abbreviation (input) "X11_MAX_CLIENTS \<equiv> (32 :: nat)"

record x11_main =
  xm_bridge :: bridge
  g_slots :: "client_slot list"
  g_exit :: bool
  xm_watch :: "(fd \<times> fd_tag) list"           \<comment> \<open>the interest list of \<^verbatim>\<open>epoll_fd\<close>\<close>
  xm_listen :: fd
  xm_epoll :: fd
  xm_display :: int

fun empty_slot :: "client_slot list \<Rightarrow> nat option" where
  "empty_slot [] = None"
| "empty_slot (s # ss) = (if sl_client s = None then Some 0 else map_option Suc (empty_slot ss))"

definition slot_alloc :: "x11_main \<Rightarrow> x11_client \<Rightarrow> fd \<Rightarrow> (x11_main \<times> nat) option" where
  "slot_alloc m c fd =
     (case empty_slot (g_slots m) of
        None \<Rightarrow> None
      | Some i \<Rightarrow> Some (m\<lparr>g_slots := (g_slots m)[i := \<lparr>sl_client = Some c, sl_fd = fd\<rparr>]\<rparr>, i))"

definition slot_free :: "x11_main \<Rightarrow> nat \<Rightarrow> x11_main" where
  "slot_free m i = m\<lparr>g_slots := (g_slots m)[i := \<lparr>sl_client = None, sl_fd = -1\<rparr>]\<rparr>"

text \<open>The pointers in the array are the indices of the occupied slots.\<close>

definition build_clients_array :: "x11_main \<Rightarrow> nat \<Rightarrow> nat list" where
  "build_clients_array m cap = take cap (filter (\<lambda>i. sl_client (g_slots m ! i) \<noteq> None) [0..<length (g_slots m)])"

text \<open>What a call did to the clients behind the pointers.\<close>

fun store_clients :: "client_slot list \<Rightarrow> nat list \<Rightarrow> x11_client option list \<Rightarrow> client_slot list" where
  "store_clients ss (i # is) (c # cs) = store_clients (ss[i := (ss ! i)\<lparr>sl_client := c\<rparr>]) is cs"
| "store_clients ss _ _ = ss"

section \<open>Accepting X11 clients\<close>

text \<open>\<^verbatim>\<open>x11_client_destroy(c); slot_free(s); continue;\<close>\<close>

definition reject_client :: "x11_main \<Rightarrow> bridge \<Rightarrow> x11_client \<Rightarrow> nat \<Rightarrow> x11_main" where
  "reject_client m b c i = slot_free (m\<lparr>xm_bridge := x11_client_destroy b (Some c)\<rparr>) i"

definition accept_client :: "x11_main \<Rightarrow> fd \<Rightarrow> x11_main option" where
  "accept_client m fd =
     (case x11_client_create (xm_bridge m) fd of
        (b, None) \<Rightarrow> Some (m\<lparr>xm_bridge := b\<rparr>)
      | (b, Some c) \<Rightarrow>
          (case slot_alloc m c fd of
             None \<Rightarrow> Some (m\<lparr>xm_bridge := x11_client_destroy b (Some c)\<rparr>)
           | Some (m, i) \<Rightarrow>
               (case k_ctl b of (b, got) \<Rightarrow>
                  if \<not> got then Some (reject_client m b c i)
                  else (case k_ctl b of (b, blocking) \<Rightarrow>
                    if \<not> blocking then Some (reject_client m b c i)
                    else do {
                      (b, c, keep) \<leftarrow> x11_client_drain b c;
                      (if \<not> keep then Some (reject_client m b c i)
                       else case k_ctl b of (b, nonblocking) \<Rightarrow>
                         if \<not> nonblocking then Some (reject_client m b c i)
                         else (case k_ctl b of (b, added) \<Rightarrow>
                           if \<not> added then Some (reject_client m b c i)
                           else Some (m\<lparr>xm_bridge := b, g_slots := (g_slots m)[i := \<lparr>sl_client = Some c, sl_fd = fd\<rparr>],
                                       xm_watch := (fd, FD_X11_CLIENT i) # xm_watch m\<rparr>)))
                    }))))"

fun x11_accept_loop :: "accept_result list \<Rightarrow> x11_main \<Rightarrow> (x11_main \<times> accept_result list) option" where
  "x11_accept_loop [] m = Some (m, [])"
| "x11_accept_loop (AcceptErr # as) m = Some (m, as)"
| "x11_accept_loop (AcceptIntr # as) m = x11_accept_loop as m"
| "x11_accept_loop (AcceptFd fd pid # as) m = do { m \<leftarrow> accept_client m fd; x11_accept_loop as m }"

text \<open>The script of \<^verbatim>\<open>accept4\<close> is used by this function alone.\<close>

definition on_x11_accept :: "x11_main \<Rightarrow> x11_main option" where
  "on_x11_accept m = do {
     (m, as) \<leftarrow> x11_accept_loop (k_accepts (xm_bridge m)) m;
     Some (m\<lparr>xm_bridge := (xm_bridge m)\<lparr>k_accepts := as\<rparr>\<rparr>)
   }"

section \<open>Ready sockets\<close>

definition on_x11_client_ready :: "x11_main \<Rightarrow> nat \<Rightarrow> x11_main option" where
  "on_x11_client_ready m i =
     (if i < length (g_slots m)
      then case sl_client (g_slots m ! i) of
             None \<Rightarrow> Some m
           | Some c \<Rightarrow> do {
               (b, c, keep) \<leftarrow> x11_client_drain (xm_bridge m) c;
               (if keep then Some (m\<lparr>xm_bridge := b, g_slots := (g_slots m)[i := (g_slots m ! i)\<lparr>sl_client := Some c\<rparr>]\<rparr>)
                else
                  let fd = sl_fd (g_slots m ! i);
                      b = fst (k_ctl b)
                  in Some (slot_free (m\<lparr>xm_bridge := x11_client_destroy b (Some c), xm_watch := filter (\<lambda>w. fst w \<noteq> fd) (xm_watch m)\<rparr>) i))
             }
      else None)"

abbreviation (input) "ISZ_MSG_INPUT_KEYBOARD_KEY \<equiv> (41 :: u32)"
abbreviation (input) "ISZ_MSG_INPUT_POINTER_MOTION \<equiv> (43 :: u32)"
abbreviation (input) "ISZ_MSG_INPUT_POINTER_BUTTON \<equiv> (44 :: u32)"

text \<open>A call of a forwarding function with the array of clients.\<close>

definition forward_to_clients ::
    "x11_main \<Rightarrow> (bridge \<Rightarrow> x11_client option list \<Rightarrow> (bridge \<times> x11_client option list \<times> bool) option) \<Rightarrow> x11_main option" where
  "forward_to_clients m forward =
     (let clients = build_clients_array m X11_MAX_CLIENTS
      in do {
        (b, cs, _) \<leftarrow> forward (xm_bridge m) (map (\<lambda>i. sl_client (g_slots m ! i)) clients);
        Some (m\<lparr>xm_bridge := b, g_slots := store_clients (g_slots m) clients cs\<rparr>)
      })"

definition isz_message :: "x11_main \<Rightarrow> u8 list \<Rightarrow> u32 \<Rightarrow> nat \<Rightarrow> x11_main option" where
  "isz_message m buf msg_id payload_len =
     (if msg_id = ISZ_MSG_INPUT_KEYBOARD_KEY
      then if payload_len < 5 then Some m
           else do {
             keycode \<leftarrow> isz_get_u32_le buf ISZ_MSG_HEADER_SIZE;
             pressed \<leftarrow> (if ISZ_MSG_HEADER_SIZE + 4 < length buf then Some (buf ! (ISZ_MSG_HEADER_SIZE + 4) \<noteq> 0) else None);
             forward_to_clients m (\<lambda>b cs. translation_forward_keyboard_key b cs keycode pressed)
           }
      else if msg_id = ISZ_MSG_INPUT_POINTER_MOTION
      then if payload_len < 8 then Some m
           else do {
             x \<leftarrow> isz_get_u32_le buf ISZ_MSG_HEADER_SIZE;
             y \<leftarrow> isz_get_u32_le buf (ISZ_MSG_HEADER_SIZE + 4);
             forward_to_clients m (\<lambda>b cs. translation_forward_pointer_motion b cs (sint x) (sint y))
           }
      else if msg_id = ISZ_MSG_INPUT_POINTER_BUTTON
      then if payload_len < 5 then Some m
           else do {
             button \<leftarrow> isz_get_u32_le buf ISZ_MSG_HEADER_SIZE;
             pressed \<leftarrow> (if ISZ_MSG_HEADER_SIZE + 4 < length buf then Some (buf ! (ISZ_MSG_HEADER_SIZE + 4) \<noteq> 0) else None);
             forward_to_clients m (\<lambda>b cs. translation_forward_pointer_button b cs button pressed)
           }
      else Some m)"

text \<open>A null pointer for the connection is answered like an error.\<close>

partial_function (option) on_isz_ready :: "x11_main \<Rightarrow> x11_main option" where
  "on_isz_ready m =
     (case br_isz (xm_bridge m) of
        None \<Rightarrow> Some (m\<lparr>g_exit := True\<rparr>)
      | Some isz \<Rightarrow> do {
          (b, isz, out) \<leftarrow> isz_client_recv (xm_bridge m) isz ISZ_PROTO_MAX_MESSAGE;
          (let m = m\<lparr>xm_bridge := b\<lparr>br_isz := Some isz\<rparr>\<rparr>
           in case out of
                RecvFail \<Rightarrow> Some (m\<lparr>g_exit := True\<rparr>)
              | RecvWait \<Rightarrow> Some m
              | RecvMsg buf msg_id payload_len fds \<Rightarrow> do {
                  m \<leftarrow> isz_message m buf msg_id payload_len;
                  on_isz_ready m
                })
        })"

section \<open>The event loop\<close>

definition handle_event :: "x11_main \<Rightarrow> fd_tag \<Rightarrow> x11_main option" where
  "handle_event m t =
     (case t of
        FD_ISZ \<Rightarrow> on_isz_ready m
      | FD_X11_LISTEN \<Rightarrow> on_x11_accept m
      | FD_X11_CLIENT i \<Rightarrow> on_x11_client_ready m i)"

fun handle_events :: "fd_tag list \<Rightarrow> x11_main \<Rightarrow> x11_main option" where
  "handle_events [] m = Some m"
| "handle_events (t # ts) m = (if g_exit m then Some m else do { m \<leftarrow> handle_event m t; handle_events ts m })"

text \<open>What \<^verbatim>\<open>epoll_wait\<close> returns, or a signal that arrives meanwhile and sets \<^verbatim>\<open>g_exit\<close>. An exhausted script ends the loop, as an error does.\<close>

datatype wait_result = WaitReady "fd_tag list" | WaitIntr | WaitErr | WaitSignal

fun event_loop :: "wait_result list \<Rightarrow> x11_main \<Rightarrow> x11_main option" where
  "event_loop [] m = Some m"
| "event_loop (r # rs) m =
     (if g_exit m then Some m
      else case r of
             WaitReady ts \<Rightarrow> do { m \<leftarrow> handle_events ts m; event_loop rs m }
           | WaitIntr \<Rightarrow> event_loop rs m
           | WaitErr \<Rightarrow> Some m
           | WaitSignal \<Rightarrow> event_loop rs (m\<lparr>g_exit := True\<rparr>))"

section \<open>Start and shutdown\<close>

text \<open>What the start depends on: the environment variables, the results of \<^verbatim>\<open>socket\<close>, \<^verbatim>\<open>mkdir\<close> and \<^verbatim>\<open>epoll_create1\<close>, and whether the socket to the server blocks.\<close>

record start_env =
  se_isz_socket :: "u8 list option"
  se_display :: "char list option"
  se_sock :: "fd option"
  se_blocking :: bool
  se_made :: bool
  se_listen_sock :: "fd option"
  se_epoll :: "fd option"

definition ISZ_DEFAULT_SOCKET :: "u8 list" where
  "ISZ_DEFAULT_SOCKET = map (\<lambda>c. of_nat (of_char c)) ''/tmp/.ishizue-0''"

definition isz_path :: "u8 list option \<Rightarrow> u8 list" where
  "isz_path s = (case s of None \<Rightarrow> ISZ_DEFAULT_SOCKET | Some p \<Rightarrow> if p = [] then ISZ_DEFAULT_SOCKET else p)"

definition fail_start :: "bridge \<Rightarrow> fd \<Rightarrow> fd \<Rightarrow> isz_link \<Rightarrow> bridge" where
  "fail_start b epoll_fd x11_listen isz = isz_client_destroy (k_close (k_close b epoll_fd) x11_listen) (Some isz)"

definition main_start :: "bridge \<Rightarrow> start_env \<Rightarrow> (bridge + x11_main) option" where
  "main_start b e =
     (case parse_display (se_display e) of
        None \<Rightarrow> Some (Inl b)
      | Some display \<Rightarrow>
          (case isz_client_connect b (Some (isz_path (se_isz_socket e))) (se_sock e) of
             (b, None) \<Rightarrow> Some (Inl b)
           | (b, Some isz) \<Rightarrow> do {
               (b, isz, ok) \<leftarrow> isz_client_handshake b isz (se_blocking e);
               (if \<not> ok then Some (Inl (isz_client_destroy b (Some isz)))
                else case open_x11_listen b display (se_made e) (se_listen_sock e) of
                       (b, None) \<Rightarrow> Some (Inl (isz_client_destroy b (Some isz)))
                     | (b, Some x11_listen) \<Rightarrow>
                         (case se_epoll e of
                            None \<Rightarrow> Some (Inl (isz_client_destroy (k_close b x11_listen) (Some isz)))
                          | Some epoll_fd \<Rightarrow>
                              (case k_ctl b of (b, added) \<Rightarrow>
                                 if \<not> added then Some (Inl (fail_start b epoll_fd x11_listen isz))
                                 else (case k_ctl b of (b, added) \<Rightarrow>
                                   if \<not> added then Some (Inl (fail_start b epoll_fd x11_listen isz))
                                   else Some (Inr \<lparr>xm_bridge = b\<lparr>br_isz := Some isz\<rparr>,
                                                    g_slots = replicate X11_MAX_CLIENTS \<lparr>sl_client = None, sl_fd = 0\<rparr>, g_exit = False,
                                                    xm_watch = [(x11_listen, FD_X11_LISTEN), (isz_client_fd (Some isz), FD_ISZ)],
                                                    xm_listen = x11_listen, xm_epoll = epoll_fd, xm_display = display\<rparr>)))))
             }))"

fun teardown_clients :: "nat list \<Rightarrow> x11_main \<Rightarrow> x11_main" where
  "teardown_clients [] m = m"
| "teardown_clients (i # is) m =
     (case sl_client (g_slots m ! i) of
        None \<Rightarrow> teardown_clients is m
      | Some c \<Rightarrow>
          let fd = sl_fd (g_slots m ! i);
              b = fst (k_ctl (xm_bridge m))
          in teardown_clients is (slot_free (m\<lparr>xm_bridge := x11_client_destroy b (Some c), xm_watch := filter (\<lambda>w. fst w \<noteq> fd) (xm_watch m)\<rparr>) i))"

text \<open>The shutdown also tells which path it unlinks.\<close>

definition main_stop :: "x11_main \<Rightarrow> bridge \<times> char list" where
  "main_stop m =
     (let m = teardown_clients [0..<X11_MAX_CLIENTS] m;
          b = k_close (xm_bridge m) (xm_listen m);
          path = fst (snprintf 64 (x11_socket_path (xm_display m)));
          b = k_close b (xm_epoll m)
      in (isz_client_destroy b (br_isz b), path))"

text \<open>The final state, the path that is unlinked on the way out, and the exit status.\<close>

definition x11bridge_main :: "bridge \<Rightarrow> start_env \<Rightarrow> wait_result list \<Rightarrow> (bridge \<times> char list option \<times> nat) option" where
  "x11bridge_main b e waits = do {
     r \<leftarrow> main_start b e;
     (case r of
        Inl b \<Rightarrow> Some (b, None, 1)
      | Inr m \<Rightarrow> do {
          m \<leftarrow> event_loop waits m;
          (case main_stop m of (b, path) \<Rightarrow> Some (b, Some path, 0))
        })
   }"

section \<open>The invariant of the program\<close>

definition live_client :: "fd \<Rightarrow> x11_client \<Rightarrow> bool" where
  "live_client fd c \<longleftrightarrow> client_live c \<and> xc_setup_done c \<and> xc_fd c = fd"

definition slot_ok :: "client_slot \<Rightarrow> bool" where
  "slot_ok s \<longleftrightarrow> (\<forall>c. sl_client s = Some c \<longrightarrow> live_client (sl_fd s) c)"

text \<open>A tag in the interest list that points to a slot points to an occupied slot, with the descriptor that is watched.\<close>

definition watch_ok :: "client_slot list \<Rightarrow> (fd \<times> fd_tag) list \<Rightarrow> bool" where
  "watch_ok ss ws \<longleftrightarrow> (\<forall>fd i. (fd, FD_X11_CLIENT i) \<in> set ws \<longrightarrow> i < length ss \<and> sl_client (ss ! i) \<noteq> None \<and> sl_fd (ss ! i) = fd)"

definition main_ok :: "x11_main \<Rightarrow> bool" where
  "main_ok m \<longleftrightarrow> bridge_ok (xm_bridge m) \<and> length (g_slots m) = X11_MAX_CLIENTS \<and> (\<forall>s \<in> set (g_slots m). slot_ok s) \<and> watch_ok (g_slots m) (xm_watch m)"

lemma main_okI [intro]:
  "bridge_ok (xm_bridge m) \<Longrightarrow> length (g_slots m) = 32 \<Longrightarrow> (\<And>s. s \<in> set (g_slots m) \<Longrightarrow> slot_ok s) \<Longrightarrow> watch_ok (g_slots m) (xm_watch m) \<Longrightarrow> main_ok m"
  by (simp add: main_ok_def)

lemma main_ok_update:
  assumes "main_ok m" "bridge_ok b" "slot_ok s" "watch_ok ((g_slots m)[i := s]) ws"
  shows "main_ok (m\<lparr>xm_bridge := b, g_slots := (g_slots m)[i := s], xm_watch := ws\<rparr>)"
  using assms by (auto simp: main_ok_def dest!: set_update_subset_insert [THEN subsetD])

lemma empty_slot_SomeD: "empty_slot ss = Some i \<Longrightarrow> i < length ss \<and> sl_client (ss ! i) = None"
  by (induction ss arbitrary: i) (auto split: if_splits)

lemma watch_ok_update:
  assumes "watch_ok ss ws" "\<And>fd. (fd, FD_X11_CLIENT i) \<notin> set ws"
  shows "watch_ok (ss[i := s]) ws"
  unfolding watch_ok_def
proof (intro allI impI)
  fix fd j
  assume w: "(fd, FD_X11_CLIENT j) \<in> set ws"
  with assms(2) have "j \<noteq> i" by blast
  with assms(1) w show "j < length (ss[i := s]) \<and> sl_client (ss[i := s] ! j) \<noteq> None \<and> sl_fd (ss[i := s] ! j) = fd" by (simp add: watch_ok_def)
qed

lemma watch_ok_empty: "watch_ok ss ws \<Longrightarrow> sl_client (ss ! i) = None \<Longrightarrow> (fd, FD_X11_CLIENT i) \<notin> set ws"
  by (force simp: watch_ok_def)

lemma watch_ok_Cons: "watch_ok ss ws \<Longrightarrow> i < length ss \<Longrightarrow> sl_client (ss ! i) \<noteq> None \<Longrightarrow> sl_fd (ss ! i) = fd \<Longrightarrow> watch_ok ss ((fd, FD_X11_CLIENT i) # ws)"
  by (auto simp: watch_ok_def)

lemma bridge_ok_close [simp]: "bridge_ok (k_close b fd) = bridge_ok b"
  by (rule bridge_ok_more) (simp add: k_close_def)

lemma bridge_ok_ctl: "k_ctl b = (b', ok) \<Longrightarrow> bridge_ok b' = bridge_ok b"
  using kern_more_ctl(1) [of b] by (intro bridge_ok_more) simp

lemma bridge_ok_ctl_fst [simp]: "bridge_ok (fst (k_ctl b)) = bridge_ok b"
  using bridge_ok_ctl [of b "fst (k_ctl b)" "snd (k_ctl b)"] by simp

lemma bridge_ok_client_destroy [simp]: "bridge_ok (x11_client_destroy b c) = bridge_ok b"
  by (simp add: x11_client_destroy_def split: option.splits)

lemma bridge_ok_accepts [simp]: "bridge_ok (b\<lparr>k_accepts := as\<rparr>) = bridge_ok b"
  by (simp add: bridge_ok_def)

lemma slot_ok_empty [simp]: "slot_ok \<lparr>sl_client = None, sl_fd = fd\<rparr>"
  by (simp add: slot_ok_def)

lemma closed_by_destroy: "0 \<le> xc_fd c \<Longrightarrow> xc_fd c \<in> set (k_closed (x11_client_destroy b (Some c)))"
  by (simp add: x11_client_destroy_def k_close_def)

lemma succeeds_mono: "succeeds r Q \<Longrightarrow> (\<And>x. r = Some x \<Longrightarrow> Q x \<Longrightarrow> R x) \<Longrightarrow> succeeds r R"
  by (auto simp: succeeds_def)

lemma ctl_ok:
  "bridge_ok b \<Longrightarrow> (\<And>b' ok. bridge_ok b' \<Longrightarrow> succeeds (f b' ok) Q) \<Longrightarrow> succeeds (case k_ctl b of (b', ok) \<Rightarrow> f b' ok) Q"
  using bridge_ok_ctl [of b "fst (k_ctl b)" "snd (k_ctl b)"] by (simp add: case_prod_beta)

section \<open>Accepting\<close>

lemma reject_ok:
  assumes "main_ok m" "slot_alloc m c0 fd = Some (m1, i)" "bridge_ok b"
  shows "main_ok (reject_client m1 b c i)"
proof -
  from assms(2) have i: "empty_slot (g_slots m) = Some i" and m1: "m1 = m\<lparr>g_slots := (g_slots m)[i := \<lparr>sl_client = Some c0, sl_fd = fd\<rparr>]\<rparr>"
    by (auto simp: slot_alloc_def split: option.splits)
  have "watch_ok ((g_slots m)[i := \<lparr>sl_client = None, sl_fd = -1\<rparr>]) (xm_watch m)"
    using assms(1) empty_slot_SomeD [OF i] by (intro watch_ok_update watch_ok_empty) (auto simp: main_ok_def)
  with assms(1,3) m1 show ?thesis
    by (auto simp: reject_client_def slot_free_def main_ok_def dest!: set_update_subset_insert [THEN subsetD])
qed

lemma keep_ok:
  assumes "main_ok m" "slot_alloc m c0 fd = Some (m1, i)" "bridge_ok b" "live_client fd c"
  shows "main_ok (m1\<lparr>xm_bridge := b, g_slots := (g_slots m1)[i := \<lparr>sl_client = Some c, sl_fd = fd\<rparr>], xm_watch := (fd, FD_X11_CLIENT i) # xm_watch m1\<rparr>)"
    and "i < 32 \<and> length (g_slots m1) = 32"
proof -
  from assms(2) have i: "empty_slot (g_slots m) = Some i" and m1: "m1 = m\<lparr>g_slots := (g_slots m)[i := \<lparr>sl_client = Some c0, sl_fd = fd\<rparr>]\<rparr>"
    by (auto simp: slot_alloc_def split: option.splits)
  note e = empty_slot_SomeD [OF i]
  have "watch_ok ((g_slots m)[i := \<lparr>sl_client = Some c, sl_fd = fd\<rparr>]) ((fd, FD_X11_CLIENT i) # xm_watch m)"
    using assms(1) e by (intro watch_ok_Cons watch_ok_update watch_ok_empty) (auto simp: main_ok_def)
  moreover have "slot_ok \<lparr>sl_client = Some c, sl_fd = fd\<rparr>" using assms(4) by (simp add: slot_ok_def)
  ultimately show "main_ok (m1\<lparr>xm_bridge := b, g_slots := (g_slots m1)[i := \<lparr>sl_client = Some c, sl_fd = fd\<rparr>], xm_watch := (fd, FD_X11_CLIENT i) # xm_watch m1\<rparr>)"
    using assms(1,3) m1 by (auto simp: main_ok_def dest!: set_update_subset_insert [THEN subsetD])
  show "i < 32 \<and> length (g_slots m1) = 32" using e m1 assms(1) by (simp add: main_ok_def)
qed

text \<open>An accepted descriptor ends in a slot that is watched, or is closed.\<close>

definition settled :: "fd \<Rightarrow> x11_main \<Rightarrow> bool" where
  "settled fd m \<longleftrightarrow> (\<exists>i < X11_MAX_CLIENTS. sl_client (g_slots m ! i) \<noteq> None \<and> sl_fd (g_slots m ! i) = fd \<and> (fd, FD_X11_CLIENT i) \<in> set (xm_watch m))
     \<or> fd \<in> set (k_closed (xm_bridge m))"

lemma create_client_spec:
  assumes "x11_client_create b fd = (b', r)"
  shows "case r of None \<Rightarrow> fd \<in> set (k_closed b') | Some c \<Rightarrow> client_live c \<and> \<not> xc_setup_done c \<and> xc_fd c = fd"
  using assms create_live [of b fd b'] by (auto simp: x11_client_create_def Let_def k_close_def split: prod.splits bool.splits)

lemma accept_client_ok:
  assumes "main_ok m"
  shows "succeeds (accept_client m fd) (\<lambda>m'. main_ok m' \<and> (0 \<le> fd \<longrightarrow> settled fd m'))"
proof -
  obtain b1 r where cr: "x11_client_create (xm_bridge m) fd = (b1, r)" by fastforce
  have b1: "bridge_ok b1" using create_bridge_ok [OF cr] assms by (simp add: main_ok_def)
  show ?thesis
  proof (cases r)
    case None
    with create_client_spec [OF cr] cr b1 assms show ?thesis by (auto simp: accept_client_def main_ok_def settled_def)
  next
    case (Some c)
    have c: "client_live c" "\<not> xc_setup_done c" "xc_fd c = fd" using create_client_spec [OF cr] Some by simp_all
    show ?thesis
    proof (cases "slot_alloc m c fd")
      case None
      with Some cr b1 assms c(3) closed_by_destroy [of c b1] show ?thesis by (auto simp: accept_client_def main_ok_def settled_def)
    next
      case alloc: (Some z)
      obtain m1 i where z: "z = (m1, i)" by fastforce
      note sa = alloc [unfolded z]
      define here where "here c' \<longleftrightarrow> xc_fd c' = fd" for c' :: x11_client
      define Q where "Q m' \<longleftrightarrow> main_ok m' \<and> (0 \<le> fd \<longrightarrow> settled fd m')" for m'
      have rej: "Q (reject_client m1 b c' i)" if "bridge_ok b" "here c'" for b c'
        using reject_ok [OF assms sa that(1)] closed_by_destroy [of c' b] that(2)
        by (simp add: Q_def here_def settled_def reject_client_def slot_free_def)
      have kp: "Q (m1\<lparr>xm_bridge := b, g_slots := (g_slots m1)[i := \<lparr>sl_client = Some c', sl_fd = fd\<rparr>], xm_watch := (fd, FD_X11_CLIENT i) # xm_watch m1\<rparr>)"
        if "bridge_ok b" "live_client fd c'" for b c'
        using keep_ok [OF assms sa that] by (auto simp: Q_def settled_def)
      have drain: "succeeds (x11_client_drain b c) (\<lambda>(b', c', keep). bridge_ok b' \<and> here c' \<and> (keep \<longrightarrow> live_client fd c'))" if "bridge_ok b" for b
        using setup_ok [OF c(1) that c(2)] c(2,3) by (auto simp: x11_client_drain_def live_client_def here_def elim!: succeeds_mono)
      have "here c" using c(3) by (simp add: here_def)
      then have "succeeds (accept_client m fd) Q"
        unfolding accept_client_def cr
        by (simp only: Some sa prod.case option.case) (auto intro!: ctl_ok succeeds_if succeeds_bind succeeds_mono [OF drain] rej kp b1)
      then show ?thesis by (simp add: Q_def [abs_def])
    qed
  qed
qed

lemma x11_accept_loop_ok: "main_ok m \<Longrightarrow> succeeds (x11_accept_loop as m) (\<lambda>(m', rest). main_ok m')"
proof (induction "as" m rule: x11_accept_loop.induct)
  case (4 fd pid "as" m)
  show ?case
    unfolding x11_accept_loop.simps
    by (intro succeeds_bind succeeds_mono [OF accept_client_ok [OF "4.prems"]]) (use "4.IH" in blast)
qed simp_all

lemma on_x11_accept_ok: "main_ok m \<Longrightarrow> succeeds (on_x11_accept m) main_ok"
  unfolding on_x11_accept_def
  by (intro succeeds_bind succeeds_mono [OF x11_accept_loop_ok]) (auto simp: main_ok_def)

section \<open>A ready client\<close>

definition client_hazard :: "x11_main \<Rightarrow> nat \<Rightarrow> bool" where
  "client_hazard m i \<longleftrightarrow> (\<exists>c. sl_client (g_slots m ! i) = Some c \<and> drain_hazard (xm_bridge m) c)"

text \<open>When a client is dropped its descriptor is closed and no longer watched.\<close>

lemma drop_client_ok:
  assumes "main_ok m" "i < 32" "bridge_ok b"
  shows "main_ok (slot_free (m\<lparr>xm_bridge := b, xm_watch := filter (\<lambda>w. fst w \<noteq> sl_fd (g_slots m ! i)) (xm_watch m)\<rparr>) i)"
proof -
  have "watch_ok (g_slots m) (xm_watch m)" using assms(1) by (simp add: main_ok_def)
  then have "watch_ok ((g_slots m)[i := \<lparr>sl_client = None, sl_fd = -1\<rparr>]) (filter (\<lambda>w. fst w \<noteq> sl_fd (g_slots m ! i)) (xm_watch m))"
    by (intro watch_ok_update) (auto simp: watch_ok_def)
  with assms show ?thesis by (auto simp: slot_free_def main_ok_def dest!: set_update_subset_insert [THEN subsetD])
qed

lemma on_x11_client_ready_ok:
  assumes "main_ok m" "i < X11_MAX_CLIENTS" "\<not> client_hazard m i"
  shows "succeeds (on_x11_client_ready m i) main_ok"
proof (cases "sl_client (g_slots m ! i)")
  case None
  with assms show ?thesis by (simp add: on_x11_client_ready_def main_ok_def)
next
  case (Some c)
  have i: "i < length (g_slots m)" "bridge_ok (xm_bridge m)" using assms by (simp_all add: main_ok_def)
  have "slot_ok (g_slots m ! i)" using assms(1) i(1) by (simp add: main_ok_def)
  then have c: "client_live c" "xc_setup_done c" "xc_fd c = sl_fd (g_slots m ! i)" using Some by (simp_all add: slot_ok_def live_client_def)
  obtain b' c' keep where d: "x11_client_drain (xm_bridge m) c = Some (b', c', keep)" "bridge_ok b'" "xc_fd c' = xc_fd c"
    "keep \<longrightarrow> client_live c' \<and> xc_setup_done c'"
    using drain_ok [OF c(1) i(2) c(2)] assms(3) Some by (auto simp: client_hazard_def)
  have "watch_ok ((g_slots m)[i := (g_slots m ! i)\<lparr>sl_client := Some c'\<rparr>]) (xm_watch m)"
    using assms(1) i(1) Some by (auto simp: main_ok_def watch_ok_def nth_list_update)
  moreover have "slot_ok ((g_slots m ! i)\<lparr>sl_client := Some c'\<rparr>)" if keep using that c d by (simp add: slot_ok_def live_client_def)
  ultimately have "main_ok (m\<lparr>xm_bridge := b', g_slots := (g_slots m)[i := (g_slots m ! i)\<lparr>sl_client := Some c'\<rparr>]\<rparr>)" if keep
    using assms(1) d(2) that by (auto simp: main_ok_def dest!: set_update_subset_insert [THEN subsetD])
  moreover have "main_ok (slot_free (m\<lparr>xm_bridge := x11_client_destroy (fst (k_ctl b')) (Some c'),
      xm_watch := filter (\<lambda>w. fst w \<noteq> sl_fd (g_slots m ! i)) (xm_watch m)\<rparr>) i)"
    using assms(1,2) d(2) by (intro drop_client_ok) simp_all
  ultimately show ?thesis using Some i(1) d(1) by (simp add: on_x11_client_ready_def Let_def)
qed

section \<open>Input from the server\<close>

lemma find_target_SomeD:
  "find_target cs = Some (i, j) \<Longrightarrow> i < length cs \<and> (\<exists>xc. cs ! i = Some xc \<and> x11_client_first_mapped xc = Some j)"
  by (induction cs arbitrary: i) (auto split: option.splits)

lemma first_mapped_at: "x11_client_first_mapped xc = Some j \<Longrightarrow> window_at xc j \<noteq> None"
  using find_slot_SomeD [of xw_mapped "xc_windows xc" j] by (auto simp: x11_client_first_mapped_def window_at_def)

lemma fill_input_event_ok:
  "succeeds (fill_input_event xc win code detail) (\<lambda>(xc', ev). xc' = xc\<lparr>xc_sequence := xc_sequence xc + 1\<rparr> \<and> length ev = 32)"
  unfolding fill_input_event_def x11_client_next_sequence_def by (auto intro!: succeeds_intros)

text \<open>The array of clients after a forwarded event: at most one sequence number has changed.\<close>

definition forward_ok :: "(bridge \<Rightarrow> x11_client option list \<Rightarrow> (bridge \<times> x11_client option list \<times> bool) option) \<Rightarrow> bool" where
  "forward_ok f \<longleftrightarrow> (\<forall>b cs. succeeds (f b cs) (\<lambda>(b', cs', ok). kern.more b' = kern.more b \<and> k_recvs b' = k_recvs b
     \<and> (cs' = cs \<or> (\<exists>i xc s. i < length cs \<and> cs ! i = Some xc \<and> cs' = cs[i := Some (xc\<lparr>xc_sequence := s\<rparr>)]))))"

lemma forward_input_ok:
  assumes "\<And>xc ev. length ev = 32 \<Longrightarrow> succeeds (edit xc ev) (\<lambda>ev'. length ev' = 32)"
  shows "forward_ok (\<lambda>b cs. forward_input b cs code detail edit)"
  unfolding forward_ok_def
proof (intro allI)
  fix b cs
  show "succeeds (forward_input b cs code detail edit) (\<lambda>(b', cs', ok). kern.more b' = kern.more b \<and> k_recvs b' = k_recvs b
     \<and> (cs' = cs \<or> (\<exists>i xc s. i < length cs \<and> cs ! i = Some xc \<and> cs' = cs[i := Some (xc\<lparr>xc_sequence := s\<rparr>)])))"
  proof (cases "find_target cs")
    case None
    then show ?thesis by (simp add: forward_input_def)
  next
    case (Some ij)
    obtain i j where ij: "ij = (i, j)" by fastforce
    obtain xc win where t: "i < length cs" "cs ! i = Some xc" "window_at xc j = Some win"
      using find_target_SomeD [of cs i j] first_mapped_at Some ij by blast
    obtain xc' ev where f: "fill_input_event xc win code detail = Some (xc', ev)" "xc' = xc\<lparr>xc_sequence := xc_sequence xc + 1\<rparr>" "length ev = 32"
      using fill_input_event_ok [of xc win code detail] by (auto simp: succeeds_def)
    obtain ev' where e: "edit xc' ev = Some ev'" "length ev' = 32" using assms [OF f(3), of xc'] by (auto simp: succeeds_def)
    obtain b' ok where s: "isz_send_all b (xc_fd xc') ev' = (b', ok)" by fastforce
    have "forward_input b cs code detail edit = Some (b', cs[i := Some xc'], ok)"
      using Some ij t f(1) e s by (simp add: forward_input_def x11_client_send_event_def x11_client_send_raw_def)
    with t f(2) isz_send_all_frame [OF s] show ?thesis by (auto simp: succeeds_def)
  qed
qed

lemma forwards_ok:
  "forward_ok (\<lambda>b cs. translation_forward_keyboard_key b cs keycode pressed)"
  "forward_ok (\<lambda>b cs. translation_forward_pointer_motion b cs x y)"
  "forward_ok (\<lambda>b cs. translation_forward_pointer_button b cs button pressed)"
  unfolding translation_forward_keyboard_key_def translation_forward_pointer_motion_def translation_forward_pointer_button_def
  by (auto intro!: forward_input_ok succeeds_intros)

definition slot_takes :: "client_slot list \<Rightarrow> nat \<Rightarrow> x11_client option \<Rightarrow> bool" where
  "slot_takes ss i c \<longleftrightarrow> i < length ss \<and> sl_client (ss ! i) \<noteq> None \<and> (\<exists>c'. c = Some c' \<and> live_client (sl_fd (ss ! i)) c')"

lemma watch_ok_same:
  assumes "watch_ok ss ws" "length ss' = length ss"
    "\<forall>i < length ss. sl_fd (ss' ! i) = sl_fd (ss ! i) \<and> (sl_client (ss' ! i) = None \<longleftrightarrow> sl_client (ss ! i) = None)"
  shows "watch_ok ss' ws"
  using assms by (simp add: watch_ok_def del: not_None_eq)

lemma store_clients_ok:
  assumes "\<forall>s \<in> set ss. slot_ok s" "list_all2 (slot_takes ss) is cs"
  shows "length (store_clients ss is cs) = length ss \<and> (\<forall>s \<in> set (store_clients ss is cs). slot_ok s)
    \<and> (\<forall>i < length ss. sl_fd (store_clients ss is cs ! i) = sl_fd (ss ! i) \<and> (sl_client (store_clients ss is cs ! i) = None \<longleftrightarrow> sl_client (ss ! i) = None))"
  using assms
proof (induction ss "is" cs rule: store_clients.induct)
  case (1 ss i "is" c cs)
  let ?ss = "ss[i := (ss ! i)\<lparr>sl_client := c\<rparr>]"
  have t: "slot_takes ss i c" "list_all2 (slot_takes ss) is cs" using "1.prems"(2) by simp_all
  have kept: "sl_fd (?ss ! j) = sl_fd (ss ! j) \<and> (sl_client (?ss ! j) = None \<longleftrightarrow> sl_client (ss ! j) = None)" if "j < length ss" for j
    using t(1) that by (auto simp: slot_takes_def nth_list_update)
  then have "slot_takes ?ss j d = slot_takes ss j d" for j d by (cases "j < length ss") (simp_all add: slot_takes_def)
  then have "slot_takes ?ss = slot_takes ss" by (intro ext)
  moreover have "\<forall>s \<in> set ?ss. slot_ok s"
    using "1.prems"(1) t(1) by (auto simp: slot_takes_def slot_ok_def dest!: set_update_subset_insert [THEN subsetD])
  ultimately show ?case using "1.IH" kept t(2) by simp
qed simp_all

lemma forward_to_clients_ok:
  assumes "main_ok m" "forward_ok f"
  shows "succeeds (forward_to_clients m f) (\<lambda>m'. main_ok m' \<and> kern.more (xm_bridge m') = kern.more (xm_bridge m) \<and> k_recvs (xm_bridge m') = k_recvs (xm_bridge m))"
proof -
  let ?is = "build_clients_array m 32"
  let ?cs = "map (\<lambda>i. sl_client (g_slots m ! i)) ?is"
  obtain b' cs' ok where f: "f (xm_bridge m) ?cs = Some (b', cs', ok)" "kern.more b' = kern.more (xm_bridge m)" "k_recvs b' = k_recvs (xm_bridge m)"
    and cs': "cs' = ?cs \<or> (\<exists>i xc s. i < length ?cs \<and> ?cs ! i = Some xc \<and> cs' = ?cs[i := Some (xc\<lparr>xc_sequence := s\<rparr>)])"
    using assms(2) [unfolded forward_ok_def, rule_format, of "xm_bridge m" ?cs] unfolding succeeds_def by (elim exE conjE case_prodE) simp
  have seq: "live_client fd (xc\<lparr>xc_sequence := s\<rparr>) = live_client fd xc" for fd xc s by (simp add: live_client_def client_live_def x11_ok_def)
  have base: "slot_takes (g_slots m) (?is ! k) (?cs ! k)" if "k < length ?is" for k
  proof -
    have "?is ! k \<in> set ?is" using that by simp
    with assms(1) that show ?thesis by (auto simp: slot_takes_def build_clients_array_def main_ok_def slot_ok_def dest!: in_set_takeD)
  qed
  have "length cs' = length ?is" using cs' by auto
  moreover have "slot_takes (g_slots m) (?is ! k) (cs' ! k)" if "k < length ?is" for k
    using cs' base [OF that] that seq by (auto simp: nth_list_update slot_takes_def)
  ultimately have "list_all2 (slot_takes (g_slots m)) ?is cs'" by (simp add: list_all2_conv_all_nth)
  from store_clients_ok [OF _ this] assms(1) watch_ok_same [of "g_slots m" "xm_watch m" "store_clients (g_slots m) ?is cs'"]
  have "main_ok (m\<lparr>xm_bridge := b', g_slots := store_clients (g_slots m) ?is cs'\<rparr>)"
    using bridge_ok_more [OF f(2)] by (simp add: main_ok_def)
  with f show ?thesis by (simp add: forward_to_clients_def)
qed

lemma isz_message_ok:
  assumes "main_ok m" "buf = frame msg_id p"
  shows "succeeds (isz_message m buf msg_id (length p)) (\<lambda>m'. main_ok m' \<and> kern.more (xm_bridge m') = kern.more (xm_bridge m) \<and> k_recvs (xm_bridge m') = k_recvs (xm_bridge m))"
proof -
  have len: "length buf = 8 + length p" using assms(2) by (simp add: frame_def)
  have rd: "succeeds (isz_get_u32_le buf i) Q" if "i + 4 \<le> length buf" "\<And>v. Q v" for i Q using that by (simp add: isz_get_u32_le_def)
  show ?thesis
    unfolding isz_message_def using assms(1) len
    by (auto intro!: succeeds_if succeeds_bind rd forward_to_clients_ok forwards_ok)
qed

text \<open>The loop ends because each message uses up bytes that the socket delivers.\<close>

lemma main_ok_simps [simp]:
  "main_ok (m\<lparr>g_exit := x\<rparr>) = main_ok m"
  "main_ok m \<Longrightarrow> bridge_ok b \<Longrightarrow> main_ok (m\<lparr>xm_bridge := b\<rparr>)"
  by (simp_all add: main_ok_def)

lemma on_isz_ready_ok:
  assumes "main_ok m"
  shows "succeeds (on_isz_ready m) main_ok"
proof (cases "br_isz (xm_bridge m)")
  case None
  with assms show ?thesis by (simp add: on_isz_ready.simps [of m])
next
  case (Some isz)
  with assms show ?thesis
  proof (induction "recv_left (xm_bridge m) (c_recv_state (il_conn isz))" arbitrary: m isz rule: less_induct)
    case less
    have conn: "conn_ok (il_conn isz)" using less.prems by (simp add: main_ok_def bridge_ok_def)
    then have st: "recv_state_ok (c_recv_state (il_conn isz))" by (simp add: conn_ok_def)
    obtain b1 st1 out where r: "recv_state_loop (xm_bridge m) (c_recv_state (il_conn isz)) = Some (b1, st1, out)"
      and post: "recv_post (xm_bridge m) (c_recv_state (il_conn isz)) b1 st1 out" using recv_loop_post [OF st] by blast
    define isz1 where "isz1 = isz\<lparr>il_conn := (il_conn isz)\<lparr>c_recv_state := st1\<rparr>\<rparr>"
    have c1: "conn_ok (il_conn isz1)" "c_recv_state (il_conn isz1) = st1" using conn post by (simp_all add: isz1_def conn_ok_def recv_post_def)
    have ok: "main_ok (m\<lparr>xm_bridge := b\<lparr>br_isz := Some isz1\<rparr>\<rparr>)" for b
      using less.prems(1) c1(1) by (simp add: main_ok_def bridge_ok_def)
    have recv: "isz_conn_recv (xm_bridge m) (il_conn isz) 8192 = Some (b1, (il_conn isz)\<lparr>c_recv_state := st1\<rparr>, out)"
      using r by (simp add: isz_conn_recv_def isz_proto_recv_state_read_def)
    show ?case
    proof (cases out)
      case (RecvMsg frm msg_id n fds)
      obtain p where p: "n = length p" "frm = frame msg_id p"
        and left: "recv_left b1 st1 < recv_left (xm_bridge m) (c_recv_state (il_conn isz))"
        using post RecvMsg by (auto simp: recv_post_def)
      define m1 where "m1 = m\<lparr>xm_bridge := (k_close_all b1 fds)\<lparr>br_isz := Some isz1\<rparr>\<rparr>"
      have m1: "main_ok m1" "br_isz (xm_bridge m1) = Some isz1" "k_recvs (xm_bridge m1) = k_recvs b1" using ok by (simp_all add: m1_def k_close_all_def)
      obtain m2 where m2: "isz_message m1 frm msg_id n = Some m2" "main_ok m2" "kern.more (xm_bridge m2) = kern.more (xm_bridge m1)"
        "k_recvs (xm_bridge m2) = k_recvs (xm_bridge m1)"
        using isz_message_ok [OF m1(1) p(2)] p(1) by (auto simp: succeeds_def)
      have run: "on_isz_ready m = on_isz_ready m2"
        using less.prems(2) recv RecvMsg m2(1) by (subst on_isz_ready.simps) (simp add: isz_client_recv_def Let_def m1_def isz1_def)
      have "br_isz (xm_bridge m2) = Some isz1" using bridge_more [OF m2(3)] m1(2) by simp
      moreover have "recv_left (xm_bridge m2) (c_recv_state (il_conn isz1)) = recv_left b1 st1"
        using m2(4) m1(3) c1(2) by (simp add: recv_left_def recv_size_def)
      ultimately show ?thesis using less.hyps [of m2 isz1] left m2(2) run by simp
    qed (use less.prems(2) recv ok in \<open>(subst on_isz_ready.simps, simp add: isz_client_recv_def Let_def isz1_def)+\<close>)
  qed
qed

section \<open>Events\<close>

definition event_hazard :: "x11_main \<Rightarrow> fd_tag \<Rightarrow> bool" where
  "event_hazard m t \<longleftrightarrow> (\<exists>i. t = FD_X11_CLIENT i \<and> client_hazard m i)"

text \<open>Tags point into the table.\<close>

definition tag_ok :: "fd_tag \<Rightarrow> bool" where
  "tag_ok t \<longleftrightarrow> (case t of FD_X11_CLIENT i \<Rightarrow> i < X11_MAX_CLIENTS | _ \<Rightarrow> True)"

lemma handle_event_ok:
  assumes "main_ok m" "tag_ok t" "\<not> event_hazard m t"
  shows "succeeds (handle_event m t) main_ok"
  using assms on_isz_ready_ok on_x11_accept_ok on_x11_client_ready_ok by (cases t) (auto simp: handle_event_def tag_ok_def event_hazard_def)


section \<open>Start\<close>

lemma connect_spec:
  assumes "isz_client_connect b (Some p) sock = (b', r)"
  shows "case r of None \<Rightarrow> (\<forall>fd. p \<noteq> [] \<and> sock = Some fd \<and> 0 \<le> fd \<longrightarrow> fd \<in> set (k_closed b'))
    | Some isz \<Rightarrow> conn_ok (il_conn isz) \<and> sock = Some (c_fd (il_conn isz))"
proof (cases sock)
  case None
  with assms show ?thesis by (auto simp: isz_client_connect_def split: if_splits)
next
  case (Some fd)
  obtain b1 ok where ctl: "k_ctl b = (b1, ok)" by fastforce
  obtain b2 cn where cr: "isz_conn_create b1 fd = (b2, cn)" by fastforce
  obtain b3 al where al: "k_alloc b2 = (b3, al)" by fastforce
  have "fd \<in> set (k_closed b2)" if "cn = None" using cr that by (auto simp: isz_conn_create_def k_close_def split: prod.splits bool.splits)
  moreover have "conn_ok conn \<and> c_fd conn = fd" if "cn = Some conn" for conn using isz_conn_create_ok [of b1 fd b2 conn] cr that by simp
  ultimately show ?thesis
    using assms Some ctl cr al isz_conn_close_facts(3) [where k = b3]
    by (cases cn) (auto simp: isz_client_connect_def k_close_def split: if_splits bool.splits)
qed

lemma listen_spec:
  assumes "open_x11_listen b display made sock = (b', r)" "0 \<le> display" "display \<le> 99"
  shows "kern.more b' = kern.more b \<and> set (k_closed b) \<subseteq> set (k_closed b')
    \<and> (r = None \<longrightarrow> made \<longrightarrow> (\<forall>fd. sock = Some fd \<longrightarrow> fd \<in> set (k_closed b'))) \<and> (\<forall>fd. r = Some fd \<longrightarrow> made \<and> sock = Some fd)"
proof -
  have "length (dec (nat display)) \<le> Suc 1" using assms(2,3) by (intro length_dec) simp
  then have short: "\<not> 108 \<le> length (x11_socket_path display)" by (simp add: x11_socket_path_def)
  obtain b1 x where c1: "k_ctl b = (b1, x)" by fastforce
  obtain b2 y where c2: "k_ctl b1 = (b2, y)" by fastforce
  have f: "kern.more b1 = kern.more b" "k_closed b1 = k_closed b" "kern.more b2 = kern.more b" "k_closed b2 = k_closed b"
    using kern_more_ctl [of b] kern_more_ctl [of b1] c1 c2 by simp_all
  show ?thesis
    using assms(1) short f c1 c2 unfolding open_x11_listen_def Let_def snprintf_def
    by (auto simp: k_close_def split: if_splits option.splits)
qed

lemma parse_display_range: "parse_display s = Some d \<Longrightarrow> 0 \<le> d \<and> d \<le> 99"
  by (auto simp: parse_display_def split: option.splits if_splits)

text \<open>Every display number that the bridge accepts can be written in decimal and is read back.\<close>

lemma parse_display_dec:
  assumes "n \<le> 99"
  shows "parse_display (Some (dec n)) = Some (int n)"
proof -
  obtain c s where cs: "dec n = c # s" using dec_nonempty by (cases "dec n") auto
  have c: "\<not> is_space c" "c \<noteq> CHR ''-''" "c \<noteq> CHR ''+''" using dec_is_digits [of c n] cs by simp_all
  have all: "takeWhile is_digit (dec n) = dec n" "dropWhile is_digit (dec n) = []" using dec_is_digits(1) by (simp_all add: takeWhile_eq_all_conv)
  have "dropWhile is_space (dec n) = dec n" using cs c(1) by simp
  then have "strtol (dec n) = Some (int n, [])" using assms all cs c dec_val_dec [of n] by (simp add: strtol_def Let_def)
  with assms show ?thesis using dec_nonempty by (simp add: parse_display_def)
qed

text \<open>The descriptors that the start opens, as far as it gets.\<close>

definition start_opens :: "bridge \<Rightarrow> start_env \<Rightarrow> fd set" where
  "start_opens b e =
     (case parse_display (se_display e) of
        None \<Rightarrow> {}
      | Some display \<Rightarrow> set_option (se_sock e)
          \<union> (case isz_client_connect b (Some (isz_path (se_isz_socket e))) (se_sock e) of
               (b, None) \<Rightarrow> {}
             | (b, Some isz) \<Rightarrow>
                 (case isz_client_handshake b isz (se_blocking e) of
                    Some (b, isz, True) \<Rightarrow>
                      (if se_made e then set_option (se_listen_sock e) else {})
                      \<union> (case open_x11_listen b display (se_made e) (se_listen_sock e) of (b, None) \<Rightarrow> {} | (b, Some fd) \<Rightarrow> set_option (se_epoll e))
                  | _ \<Rightarrow> {})))"

lemma client_destroy_closes:
  "set (k_closed b) \<subseteq> set (k_closed (isz_client_destroy b c))"
  "0 \<le> c_fd (il_conn isz) \<Longrightarrow> c_fd (il_conn isz) \<in> set (k_closed (isz_client_destroy b (Some isz)))"
  using isz_conn_close_facts(2) [of b] isz_conn_close_facts(3) [of "il_conn isz" b]
  by (auto simp: isz_client_destroy_def split: option.splits dest: set_mono_prefix)

text \<open>What the start leads to: it fails with everything closed, or the loop is entered with no client.\<close>

definition started :: "bridge \<Rightarrow> start_env \<Rightarrow> bridge + x11_main \<Rightarrow> bool" where
  "started b e r \<longleftrightarrow>
     (case r of
        Inl b' \<Rightarrow> (\<forall>fd \<in> start_opens b e. 0 \<le> fd \<longrightarrow> fd \<in> set (k_closed b'))
      | Inr m \<Rightarrow> main_ok m \<and> \<not> g_exit m \<and> (\<forall>s \<in> set (g_slots m). sl_client s = None)
          \<and> (\<exists>isz. br_isz (xm_bridge m) = Some isz \<and> il_handshake_done isz \<and> start_opens b e = {c_fd (il_conn isz), xm_listen m, xm_epoll m})
          \<and> parse_display (se_display e) = Some (xm_display m))"

lemma main_start_ok: "succeeds (main_start b e) (started b e)"
proof (cases "parse_display (se_display e)")
  case None
  then show ?thesis by (simp add: main_start_def started_def start_opens_def)
next
  case (Some display)
  note d = this and range = parse_display_range [OF this]
  obtain b1 r where cn: "isz_client_connect b (Some (isz_path (se_isz_socket e))) (se_sock e) = (b1, r)" by fastforce
  have "isz_path (se_isz_socket e) \<noteq> []" by (simp add: isz_path_def ISZ_DEFAULT_SOCKET_def split: option.splits)
  note cs = connect_spec [OF cn]
  show ?thesis
  proof (cases r)
    case None
    with cs \<open>isz_path (se_isz_socket e) \<noteq> []\<close> d cn show ?thesis by (auto simp: main_start_def started_def start_opens_def)
  next
    case (Some isz)
    with cs have isz: "conn_ok (il_conn isz)" "se_sock e = Some (c_fd (il_conn isz))" by simp_all
    obtain b2 isz2 ok where h: "isz_client_handshake b1 isz (se_blocking e) = Some (b2, isz2, ok)" "conn_ok (il_conn isz2)"
      "c_fd (il_conn isz2) = c_fd (il_conn isz)" "ok \<longrightarrow> il_handshake_done isz2"
      using client_handshake_total [OF isz(1), of b1 "se_blocking e"] by blast
    note closes = client_destroy_closes(2) [of isz2, unfolded h(3)] client_destroy_closes(1)
    show ?thesis
    proof (cases ok)
      case False
      with d cn Some h closes isz(2) show ?thesis by (auto simp: main_start_def started_def start_opens_def)
    next
      case True
      obtain b3 l where l: "open_x11_listen b2 display (se_made e) (se_listen_sock e) = (b3, l)" by fastforce
      note ls = listen_spec [OF l range [THEN conjunct1] range [THEN conjunct2]]
      have opens: "start_opens b e = {c_fd (il_conn isz)} \<union> (if se_made e then set_option (se_listen_sock e) else {})
          \<union> (case l of None \<Rightarrow> {} | Some fd \<Rightarrow> set_option (se_epoll e))"
        using d cn Some h(1) True l isz(2) by (simp add: start_opens_def)
      have run: "main_start b e = (case l of None \<Rightarrow> Some (Inl (isz_client_destroy b3 (Some isz2)))
          | Some x11_listen \<Rightarrow> (case se_epoll e of None \<Rightarrow> Some (Inl (isz_client_destroy (k_close b3 x11_listen) (Some isz2)))
             | Some epoll_fd \<Rightarrow> (case k_ctl b3 of (b, added) \<Rightarrow> if \<not> added then Some (Inl (fail_start b epoll_fd x11_listen isz2))
                 else (case k_ctl b of (b, added) \<Rightarrow> if \<not> added then Some (Inl (fail_start b epoll_fd x11_listen isz2))
                   else Some (Inr \<lparr>xm_bridge = b\<lparr>br_isz := Some isz2\<rparr>, g_slots = replicate 32 \<lparr>sl_client = None, sl_fd = 0\<rparr>, g_exit = False,
                     xm_watch = [(x11_listen, FD_X11_LISTEN), (isz_client_fd (Some isz2), FD_ISZ)], xm_listen = x11_listen, xm_epoll = epoll_fd, xm_display = display\<rparr>)))))"
        using d cn Some h(1) True l by (simp add: main_start_def)
      show ?thesis
      proof (cases l)
        case None
        with run opens ls closes(1) [of b3] closes(2) [of b3 "Some isz2"] show ?thesis by (auto simp: started_def)
      next
        case lfd: (Some lfd)
        then have made: "se_made e" "se_listen_sock e = Some lfd" using ls by auto
        show ?thesis
        proof (cases "se_epoll e")
          case None
          with run opens lfd made closes(1) [of "k_close b3 lfd"] closes(2) [of "k_close b3 lfd" "Some isz2"] show ?thesis
            by (auto simp: started_def k_close_def)
        next
          case (Some ep)
          have failed: "started b e (Inl (fail_start b' ep lfd isz2))" for b'
            using opens lfd made Some closes(1) [of "k_close (k_close b' ep) lfd"] closes(2) [of "k_close (k_close b' ep) lfd" "Some isz2"]
            by (auto simp: started_def fail_start_def k_close_def)
          have good: "started b e (Inr \<lparr>xm_bridge = b'\<lparr>br_isz := Some isz2\<rparr>, g_slots = replicate 32 \<lparr>sl_client = None, sl_fd = 0\<rparr>, g_exit = False,
              xm_watch = [(lfd, FD_X11_LISTEN), (isz_client_fd (Some isz2), FD_ISZ)], xm_listen = lfd, xm_epoll = ep, xm_display = display\<rparr>)" for b'
            using opens lfd made Some h True d by (auto simp: started_def main_ok_def bridge_ok_def watch_ok_def)
          show ?thesis using run lfd Some failed good by (auto split: prod.split)
        qed
      qed
    qed
  qed
qed

section \<open>Shutdown\<close>

lemma teardown_spec:
  assumes "main_ok m" "\<forall>i \<in> set is. i < X11_MAX_CLIENTS"
  shows "let m' = teardown_clients is m in xm_listen m' = xm_listen m \<and> xm_epoll m' = xm_epoll m \<and> br_isz (xm_bridge m') = br_isz (xm_bridge m)
    \<and> set (k_closed (xm_bridge m)) \<subseteq> set (k_closed (xm_bridge m'))
    \<and> (\<forall>i \<in> set is. sl_client (g_slots m ! i) \<noteq> None \<longrightarrow> 0 \<le> sl_fd (g_slots m ! i) \<longrightarrow> sl_fd (g_slots m ! i) \<in> set (k_closed (xm_bridge m')))"
  using assms
proof (induction "is" m rule: teardown_clients.induct)
  case (2 i "is" m)
  show ?case
  proof (cases "sl_client (g_slots m ! i)")
    case None
    with 2 show ?thesis by (simp add: Let_def)
  next
    case (Some c)
    have i: "i < 32" "length (g_slots m) = 32" using "2.prems" by (simp_all add: main_ok_def)
    define b where "b = x11_client_destroy (fst (k_ctl (xm_bridge m))) (Some c)"
    define m1 where "m1 = slot_free (m\<lparr>xm_bridge := b, xm_watch := filter (\<lambda>w. fst w \<noteq> sl_fd (g_slots m ! i)) (xm_watch m)\<rparr>) i"
    have "slot_ok (g_slots m ! i)" using "2.prems"(1) i by (simp add: main_ok_def)
    then have fd: "xc_fd c = sl_fd (g_slots m ! i)" using Some by (simp add: slot_ok_def live_client_def)
    have b: "kern.more b = kern.more (xm_bridge m)" "set (k_closed (xm_bridge m)) \<subseteq> set (k_closed b)"
      "0 \<le> sl_fd (g_slots m ! i) \<Longrightarrow> sl_fd (g_slots m ! i) \<in> set (k_closed b)"
      using kern_more_ctl [of "xm_bridge m"] fd by (auto simp: b_def x11_client_destroy_def k_close_def)
    have "bridge_ok b" using "2.prems"(1) by (simp add: b_def main_ok_def)
    then have m1: "main_ok m1" unfolding m1_def by (rule drop_client_ok [OF "2.prems"(1) i(1)])
    have sl: "sl_client (g_slots m1 ! j) = sl_client (g_slots m ! j) \<and> sl_fd (g_slots m1 ! j) = sl_fd (g_slots m ! j)" if "j \<noteq> i" for j
      using that by (simp add: m1_def slot_free_def)
    have step: "teardown_clients (i # is) m = teardown_clients is m1" using Some by (simp add: m1_def b_def Let_def)
    have IH: "let m' = teardown_clients is m1 in xm_listen m' = xm_listen m1 \<and> xm_epoll m' = xm_epoll m1 \<and> br_isz (xm_bridge m') = br_isz (xm_bridge m1)
        \<and> set (k_closed (xm_bridge m1)) \<subseteq> set (k_closed (xm_bridge m'))
        \<and> (\<forall>i \<in> set is. sl_client (g_slots m1 ! i) \<noteq> None \<longrightarrow> 0 \<le> sl_fd (g_slots m1 ! i) \<longrightarrow> sl_fd (g_slots m1 ! i) \<in> set (k_closed (xm_bridge m')))"
      using "2.IH"(2) [OF Some refl refl] m1 "2.prems"(2) by (simp add: m1_def b_def)
    have m1b: "xm_bridge m1 = b" "xm_listen m1 = xm_listen m" "xm_epoll m1 = xm_epoll m" by (simp_all add: m1_def slot_free_def)
    show ?thesis
      unfolding step Let_def
    proof (intro conjI ballI impI)
      fix j
      assume j: "j \<in> set (i # is)" "sl_client (g_slots m ! j) \<noteq> None" "0 \<le> sl_fd (g_slots m ! j)"
      show "sl_fd (g_slots m ! j) \<in> set (k_closed (xm_bridge (teardown_clients is m1)))"
      proof (cases "j = i")
        case True
        with IH b(3) j(3) m1b(1) show ?thesis by (auto simp: Let_def)
      next
        case False
        with IH sl [OF False] j show ?thesis by (auto simp: Let_def)
      qed
    qed (use IH b(2) bridge_more [OF b(1)] m1b in \<open>auto simp: Let_def\<close>)
  qed
qed simp_all

lemma teardown_display [simp]: "xm_display (teardown_clients is m) = xm_display m"
  by (induction "is" m rule: teardown_clients.induct) (auto simp: Let_def slot_free_def split: option.splits)

lemma main_stop_closes:
  assumes "main_ok m" "main_stop m = (b', path)"
  shows "xm_listen m \<in> set (k_closed b')" "xm_epoll m \<in> set (k_closed b')"
    "br_isz (xm_bridge m) = Some isz \<Longrightarrow> 0 \<le> c_fd (il_conn isz) \<Longrightarrow> c_fd (il_conn isz) \<in> set (k_closed b')"
    "s \<in> set (g_slots m) \<Longrightarrow> sl_client s \<noteq> None \<Longrightarrow> 0 \<le> sl_fd s \<Longrightarrow> sl_fd s \<in> set (k_closed b')"
proof -
  define m' where "m' = teardown_clients [0..<32] m"
  have t: "xm_listen m' = xm_listen m" "xm_epoll m' = xm_epoll m" "br_isz (xm_bridge m') = br_isz (xm_bridge m)"
    "\<forall>i \<in> set [0..<32]. sl_client (g_slots m ! i) \<noteq> None \<longrightarrow> 0 \<le> sl_fd (g_slots m ! i) \<longrightarrow> sl_fd (g_slots m ! i) \<in> set (k_closed (xm_bridge m'))"
    using teardown_spec [OF assms(1), of "[0..<32]"] by (simp_all add: m'_def Let_def del: upt_rec_numeral)
  define b where "b = k_close (k_close (xm_bridge m') (xm_listen m)) (xm_epoll m)"
  have b: "br_isz b = br_isz (xm_bridge m)" "set (k_closed b) = set (k_closed (xm_bridge m')) \<union> {xm_listen m, xm_epoll m}"
    using t(3) by (auto simp: b_def k_close_def)
  have stop: "b' = isz_client_destroy b (br_isz b)"
    using t assms(2) unfolding main_stop_def by (simp add: b_def m'_def Let_def del: upt_rec_numeral)
  note cl = client_destroy_closes(1) [of b "br_isz b", folded stop]
  show "xm_listen m \<in> set (k_closed b')" "xm_epoll m \<in> set (k_closed b')" using cl b(2) by auto
  show "c_fd (il_conn isz) \<in> set (k_closed b')" if "br_isz (xm_bridge m) = Some isz" "0 \<le> c_fd (il_conn isz)"
    using client_destroy_closes(2) [OF that(2), of b] stop b(1) that(1) by simp
  show "sl_fd s \<in> set (k_closed b')" if s: "s \<in> set (g_slots m)" "sl_client s \<noteq> None" "0 \<le> sl_fd s"
  proof -
    obtain i where "i < 32" "s = g_slots m ! i" using s(1) assms(1) by (auto simp: in_set_conv_nth main_ok_def)
    with t(4) s(2,3) have "sl_fd s \<in> set (k_closed (xm_bridge m'))" by (simp del: upt_rec_numeral)
    with cl b(2) show ?thesis by auto
  qed
qed

lemma main_stop_path:
  assumes "0 \<le> xm_display m" "xm_display m \<le> 99" "main_stop m = (b', path)"
  shows "path = x11_socket_path (xm_display m)"
proof -
  have "length (dec (nat (xm_display m))) \<le> Suc 1" using assms(1,2) by (intro length_dec) simp
  then have "length (x11_socket_path (xm_display m)) < 64" by (simp add: x11_socket_path_def)
  then show ?thesis using assms(3) unfolding main_stop_def by (simp add: Let_def snprintf_def del: upt_rec_numeral)
qed

section \<open>Undefined behaviour\<close>

lemma event_undefined:
  assumes "main_ok m" "tag_ok t" "event_hazard m t"
  shows "handle_event m t = None"
proof -
  from assms(3) obtain i c where t: "t = FD_X11_CLIENT i" "sl_client (g_slots m ! i) = Some c" "drain_hazard (xm_bridge m) c"
    by (auto simp: event_hazard_def client_hazard_def)
  have i: "i < length (g_slots m)" "bridge_ok (xm_bridge m)" using assms(1,2) t(1) by (simp_all add: main_ok_def tag_ok_def)
  then have "slot_ok (g_slots m ! i)" using assms(1) by (simp add: main_ok_def)
  then have "client_live c" "xc_setup_done c" using t(2) by (simp_all add: slot_ok_def live_client_def)
  from drain_undefined [OF this(1) i(2) this(2) t(3)] t i(1) show ?thesis by (simp add: handle_event_def on_x11_client_ready_def)
qed

section \<open>What the loop keeps\<close>

text \<open>The descriptors and the display number of the start.\<close>

definition same_start :: "x11_main \<Rightarrow> x11_main \<Rightarrow> bool" where
  "same_start m m' \<longleftrightarrow> xm_listen m' = xm_listen m \<and> xm_epoll m' = xm_epoll m \<and> xm_display m' = xm_display m"

lemma same_start_trans: "same_start m m' \<Longrightarrow> same_start m' m'' \<Longrightarrow> same_start m m''"
  by (simp add: same_start_def)

lemma accept_client_keeps: "accept_client m fd = Some m' \<Longrightarrow> same_start m m'"
  by (auto simp: accept_client_def slot_alloc_def reject_client_def slot_free_def same_start_def split: prod.splits option.splits if_splits bind_splits)

lemma accept_loop_keeps: "x11_accept_loop as m = Some (m', as') \<Longrightarrow> same_start m m'"
proof (induction as m rule: x11_accept_loop.induct)
  case (4 fd pid as m)
  then obtain m1 where m1: "accept_client m fd = Some m1" "x11_accept_loop as m1 = Some (m', as')" by (auto simp: bind_eq_Some_conv)
  from same_start_trans [OF accept_client_keeps [OF m1(1)] "4.IH" [OF m1]] show ?case .
qed (simp_all add: same_start_def)

lemma forward_keeps: "forward_to_clients m f = Some m' \<Longrightarrow> same_start m m'"
  by (auto simp: forward_to_clients_def same_start_def Let_def split: bind_splits)

lemma isz_message_keeps:
  assumes "isz_message m buf i n = Some m'"
  shows "same_start m m'"
proof -
  have "same_start m m" by (simp add: same_start_def)
  with assms show ?thesis unfolding isz_message_def
    by (simp only: bind_eq_Some_conv if_split_eq1 option.inject split: if_split_asm) (blast dest: forward_keeps)+
qed

lemma on_isz_ready_keeps:
  assumes "on_isz_ready m = Some m'"
  shows "same_start m m'"
proof (rule on_isz_ready.raw_induct [OF _ assms])
  fix f m m'
  assume IH: "\<And>x y. f x = Some y \<Longrightarrow> same_start x y"
    and run: "(case br_isz (xm_bridge m) of
        None \<Rightarrow> Some (m\<lparr>g_exit := True\<rparr>)
      | Some isz \<Rightarrow> do {
          (b, isz, out) \<leftarrow> isz_client_recv (xm_bridge m) isz ISZ_PROTO_MAX_MESSAGE;
          (let m = m\<lparr>xm_bridge := b\<lparr>br_isz := Some isz\<rparr>\<rparr>
           in case out of
                RecvFail \<Rightarrow> Some (m\<lparr>g_exit := True\<rparr>)
              | RecvWait \<Rightarrow> Some m
              | RecvMsg buf msg_id payload_len fds \<Rightarrow> do { m \<leftarrow> isz_message m buf msg_id payload_len; f m })
        }) = Some m'"
  then show "same_start m m'"
    by (auto simp: Let_def same_start_def split: option.splits bind_splits recv_out.splits dest!: isz_message_keeps IH)
qed

lemma handle_event_keeps: "handle_event m t = Some m' \<Longrightarrow> same_start m m'"
proof (cases t)
  case FD_X11_LISTEN
  assume "handle_event m t = Some m'"
  with FD_X11_LISTEN show ?thesis
    by (auto simp: handle_event_def on_x11_accept_def same_start_def split: bind_splits dest!: accept_loop_keeps)
next
  case (FD_X11_CLIENT i)
  assume "handle_event m t = Some m'"
  with FD_X11_CLIENT show ?thesis
    by (auto simp: handle_event_def on_x11_client_ready_def same_start_def slot_free_def Let_def split: bind_splits option.splits if_splits)
qed (simp add: handle_event_def on_isz_ready_keeps)

section \<open>Runs of the program\<close>

inductive bridge_steps :: "x11_main \<Rightarrow> x11_main \<Rightarrow> bool" for m0 where
  start: "bridge_steps m0 m0"
| event: "bridge_steps m0 m \<Longrightarrow> \<not> g_exit m \<Longrightarrow> tag_ok t \<Longrightarrow> handle_event m t = Some m' \<Longrightarrow> bridge_steps m0 m'"
| signal: "bridge_steps m0 m \<Longrightarrow> bridge_steps m0 (m\<lparr>g_exit := True\<rparr>)"

lemma steps_ok: "bridge_steps m0 m \<Longrightarrow> main_ok m0 \<Longrightarrow> main_ok m"
proof (induction rule: bridge_steps.induct)
  case (event m t m')
  then have "\<not> event_hazard m t" using event_undefined [of m t] by auto
  with handle_event_ok [of m t] event show ?case by (auto simp: succeeds_def)
qed simp_all

lemma steps_keep: "bridge_steps m0 m \<Longrightarrow> same_start m0 m"
  by (induction rule: bridge_steps.induct) (auto dest: handle_event_keeps simp: same_start_def)

definition waits_ok :: "wait_result list \<Rightarrow> bool" where
  "waits_ok rs \<longleftrightarrow> (\<forall>ts. WaitReady ts \<in> set rs \<longrightarrow> (\<forall>t \<in> set ts. tag_ok t))"

lemma handle_events_steps:
  "handle_events ts m = Some m' \<Longrightarrow> bridge_steps m0 m \<Longrightarrow> \<forall>t \<in> set ts. tag_ok t \<Longrightarrow> bridge_steps m0 m'"
proof (induction ts m rule: handle_events.induct)
  case (2 t ts m)
  then show ?case by (auto split: if_splits bind_splits intro: bridge_steps.event)
qed simp

lemma event_loop_steps:
  "event_loop rs m = Some m' \<Longrightarrow> bridge_steps m0 m \<Longrightarrow> waits_ok rs \<Longrightarrow> bridge_steps m0 m'"
proof (induction rs m rule: event_loop.induct)
  case (2 r rs m)
  have w: "waits_ok rs" "\<And>ts. r = WaitReady ts \<Longrightarrow> \<forall>t \<in> set ts. tag_ok t" using "2.prems"(3) by (auto simp: waits_ok_def)
  show ?case
  proof (cases "g_exit m")
    case True
    with "2.prems" show ?thesis by simp
  next
    case False
    show ?thesis
    proof (cases r)
      case (WaitReady ts)
      with "2.prems"(1) False obtain m1 where m1: "handle_events ts m = Some m1" "event_loop rs m1 = Some m'" by (auto split: bind_splits)
      from "2.IH"(1) [OF False WaitReady m1(1) m1(2) handle_events_steps [OF m1(1) "2.prems"(2) w(2) [OF WaitReady]] w(1)] show ?thesis .
    qed (use "2.prems" "2.IH"(2,3) [OF False] w(1) False bridge_steps.signal in auto)
  qed
qed simp

text \<open>A run that does not return has met a request with undefined behaviour.\<close>

lemma handle_events_undefined:
  "handle_events ts m = None \<Longrightarrow> bridge_steps m0 m \<Longrightarrow> main_ok m0 \<Longrightarrow> \<forall>t \<in> set ts. tag_ok t
    \<Longrightarrow> \<exists>m' t. bridge_steps m0 m' \<and> tag_ok t \<and> event_hazard m' t"
proof (induction ts m rule: handle_events.induct)
  case (2 t ts m)
  have g: "\<not> g_exit m" and t: "tag_ok t" using "2.prems" by (auto split: if_splits)
  show ?case
  proof (cases "handle_event m t")
    case None
    then have "event_hazard m t" using handle_event_ok [OF steps_ok [OF "2.prems"(2,3)] t] by (auto simp: succeeds_def)
    with "2.prems"(2) t show ?thesis by blast
  next
    case (Some m1)
    with "2.prems" g have "handle_events ts m1 = None" by simp
    from "2.IH" [OF g Some this bridge_steps.event [OF "2.prems"(2) g t Some]] "2.prems"(3,4) show ?thesis by simp
  qed
qed simp

lemma event_loop_undefined:
  "event_loop rs m = None \<Longrightarrow> bridge_steps m0 m \<Longrightarrow> main_ok m0 \<Longrightarrow> waits_ok rs
    \<Longrightarrow> \<exists>m' t. bridge_steps m0 m' \<and> tag_ok t \<and> event_hazard m' t"
proof (induction rs m rule: event_loop.induct)
  case (2 r rs m)
  have w: "waits_ok rs" "\<And>ts. r = WaitReady ts \<Longrightarrow> \<forall>t \<in> set ts. tag_ok t" using "2.prems"(4) by (auto simp: waits_ok_def)
  have g: "\<not> g_exit m" using "2.prems"(1) by (auto split: if_splits)
  show ?case
  proof (cases r)
    case (WaitReady ts)
    show ?thesis
    proof (cases "handle_events ts m")
      case None
      then show ?thesis by (rule handle_events_undefined [OF _ "2.prems"(2,3) w(2) [OF WaitReady]])
    next
      case (Some m1)
      with "2.prems"(1) g WaitReady have "event_loop rs m1 = None" by simp
      from "2.IH"(1) [OF g WaitReady Some this handle_events_steps [OF Some "2.prems"(2) w(2) [OF WaitReady]] "2.prems"(3) w(1)] show ?thesis .
    qed
  qed (use "2.prems" "2.IH"(2,3) [OF g] w(1) g bridge_steps.signal in auto)
qed simp

section \<open>Examples\<close>

text \<open>A start with a server that answers the handshake.\<close>

definition sample_start :: bridge where
  "sample_start = sample_bridge\<lparr>k_recvs := [RecvData (be32 ISZ_PROTOCOL_MAGIC @ le32 ISZ_PROTOCOL_VERSION
     @ frame ISZ_MSG_CAPABILITIES (replicate 12 0) @ frame ISZ_MSG_HANDSHAKE_DONE []) [] False]\<rparr>"

definition sample_env :: start_env where
  "sample_env = \<lparr>se_isz_socket = None, se_display = Some ''1'', se_sock = Some 5, se_blocking = True, se_made = True, se_listen_sock = Some 6, se_epoll = Some 8\<rparr>"

lemma sample_starts: "\<exists>m. main_start sample_start sample_env = Some (Inr m)"
proof -
  define cn where "cn = \<lparr>c_fd = 5, c_recv_state = isz_proto_recv_state_init, c_version = 0, c_allowlisted = False, c_handshake_done = False, c_dead = False,
    c_queue = [], c_queued_events = 0, c_objects = [], c_objects_cap = 0, c_next_object_id = 1\<rparr>"
  define isz where "isz = \<lparr>il_conn = cn, il_fd = 5, il_handshake_done = False, il_next_surface_id = 1, il_output_id = 0, il_seat_id = 0\<rparr>"
  have "length ISZ_DEFAULT_SOCKET = 15" by (simp add: ISZ_DEFAULT_SOCKET_def)
  then have "isz_client_connect sample_start (Some ISZ_DEFAULT_SOCKET) (Some 5) = (sample_start, Some isz)"
    by (auto simp: isz_client_connect_def isz_conn_create_def k_ctl_def k_alloc_def sample_start_def sample_bridge_def isz_def cn_def)
  moreover obtain b2 isz2 where "isz_client_handshake sample_start isz True = Some (b2, isz2, True)" "k_ctls b2 = []"
    using client_handshake_healthy [of sample_start isz]
    by (auto simp: sample_start_def sample_bridge_def recv_healthy_def recv_fds_def recv_stream_def isz_def cn_def isz_proto_recv_state_init_def le32_def)
  moreover have "parse_display (Some ''1'') = Some 1" by code_simp
  moreover have "open_x11_listen b 1 True (Some 6) = (b, Some 6)" if "k_ctls b = []" for b
    using that length_dec [of 1 0] by (simp add: open_x11_listen_def x11_socket_path_def snprintf_def k_ctl_def)
  ultimately show ?thesis by (simp add: main_start_def sample_env_def isz_path_def k_ctl_def)
qed

section \<open>Properties\<close>

text \<open>C39: in every state that the event loop of the bridge can reach from its start, by any sequence of events, clients that connect and leave, and signals, the table of clients, the clients
  themselves, the connection to the server and the interest list are well formed. An event is handled and leads to such a state again, unless a client has sent a request with undefined behaviour;
  exactly then the handling is undefined.\<close>

theorem bridge_stays_well_formed:
  assumes "main_start b e = Some (Inr m0)" and "bridge_steps m0 m" and "tag_ok t"
  shows "main_ok m \<and> (if event_hazard m t then handle_event m t = None else \<exists>m'. handle_event m t = Some m' \<and> main_ok m')"
proof -
  have "main_ok m0" using main_start_ok [of b e] assms(1) by (simp add: started_def)
  then have "main_ok m" by (rule steps_ok [OF assms(2)])
  with event_undefined [OF _ assms(3)] handle_event_ok [OF _ assms(3)] show ?thesis by (auto simp: succeeds_def)
qed

text \<open>The listening socket becomes ready right after the start.\<close>

theorem bridge_stays_well_formed_witness:
  "\<exists>m0. main_start sample_start sample_env = Some (Inr m0) \<and> (\<exists>m'. handle_event m0 FD_X11_LISTEN = Some m' \<and> main_ok m')"
proof -
  obtain m0 where m0: "main_start sample_start sample_env = Some (Inr m0)" using sample_starts by blast
  from bridge_stays_well_formed [OF this bridge_steps.start, of FD_X11_LISTEN] m0 show ?thesis by (auto simp: tag_ok_def event_hazard_def)
qed

text \<open>C40: the bridge closes what it has open when it ends. For every start and every sequence of events the program ends, unless its loop reaches a state with a request with undefined
  behaviour. When the start fails, every descriptor that it had opened is closed and the exit status is 1. Otherwise the loop has ended in a state \<open>m\<close> and the status is 0: the socket of
  every client that was connected in \<open>m\<close>, the listening socket and the epoll descriptor of the start and the connection to the server that \<open>m\<close> holds are closed, and the
  socket file that is unlinked is the one of the display, to which the listening socket was bound. A failed start does not unlink the file.\<close>

theorem bridge_closes_everything:
  assumes "waits_ok waits"
  shows "case x11bridge_main b e waits of
      None \<Rightarrow> \<exists>m0 m t. main_start b e = Some (Inr m0) \<and> bridge_steps m0 m \<and> tag_ok t \<and> event_hazard m t
    | Some (b', unlinked, status) \<Rightarrow>
        if status = 0
        then \<exists>m0 m. main_start b e = Some (Inr m0) \<and> event_loop waits m0 = Some m
          \<and> (\<forall>s \<in> set (g_slots m). sl_client s \<noteq> None \<and> 0 \<le> sl_fd s \<longrightarrow> sl_fd s \<in> set (k_closed b'))
          \<and> {xm_listen m0, xm_epoll m0} \<subseteq> set (k_closed b')
          \<and> (\<forall>isz. br_isz (xm_bridge m) = Some isz \<and> 0 \<le> c_fd (il_conn isz) \<longrightarrow> c_fd (il_conn isz) \<in> set (k_closed b'))
          \<and> (\<exists>d. parse_display (se_display e) = Some d \<and> unlinked = Some (x11_socket_path d))
        else status = 1 \<and> unlinked = None \<and> (\<forall>fd \<in> start_opens b e. 0 \<le> fd \<longrightarrow> fd \<in> set (k_closed b'))"
proof -
  obtain r where r: "main_start b e = Some r" "started b e r" using main_start_ok [of b e] by (auto simp: succeeds_def)
  show ?thesis
  proof (cases r)
    case (Inl b1)
    with r show ?thesis by (simp add: x11bridge_main_def started_def)
  next
    case (Inr m0)
    have m0: "main_ok m0" "parse_display (se_display e) = Some (xm_display m0)" using r(2) Inr by (simp_all add: started_def)
    show ?thesis
    proof (cases "event_loop waits m0")
      case None
      with r(1) Inr event_loop_undefined [OF None bridge_steps.start m0(1) assms] show ?thesis by (simp add: x11bridge_main_def)
    next
      case (Some m)
      obtain b' path where stop: "main_stop m = (b', path)" by fastforce
      have run: "bridge_steps m0 m" by (rule event_loop_steps [OF Some bridge_steps.start assms])
      have kept: "xm_listen m = xm_listen m0" "xm_epoll m = xm_epoll m0" "xm_display m = xm_display m0" using steps_keep [OF run] by (simp_all add: same_start_def)
      note closes = main_stop_closes [OF steps_ok [OF run m0(1)] stop, unfolded kept]
      have "path = x11_socket_path (xm_display m0)" using main_stop_path [OF _ _ stop] parse_display_range [OF m0(2)] kept(3) by simp
      with closes r(1) Inr Some stop m0(2) show ?thesis by (auto simp: x11bridge_main_def)
    qed
  qed
qed

text \<open>The bridge is started on display 1 and ended by a signal.\<close>

theorem bridge_closes_everything_witness:
  "\<exists>b' m0. x11bridge_main sample_start sample_env [WaitSignal] = Some (b', Some ''/tmp/.X11-unix/X1'', 0)
     \<and> main_start sample_start sample_env = Some (Inr m0) \<and> {xm_listen m0, xm_epoll m0} \<subseteq> set (k_closed b')"
proof -
  obtain m0 where m0: "main_start sample_start sample_env = Some (Inr m0)" using sample_starts by blast
  then obtain b' path where run: "x11bridge_main sample_start sample_env [WaitSignal] = Some (b', Some path, 0)"
    by (cases "main_stop (if g_exit m0 then m0 else m0\<lparr>g_exit := True\<rparr>)") (auto simp: x11bridge_main_def split: if_splits)
  have "parse_display (se_display sample_env) = Some 1" by code_simp
  moreover have "x11_socket_path 1 = ''/tmp/.X11-unix/X1''" by code_simp
  moreover have "waits_ok [WaitSignal]" by (simp add: waits_ok_def)
  ultimately show ?thesis using bridge_closes_everything [of "[WaitSignal]" sample_start sample_env] m0 run by auto
qed

end
