(* ===== verification/Spec2Isabelle.thy ===== *)
theory Spec2Isabelle
  imports Isz_Lifecycle Isz_Listeners X11_Bridge
begin

text \<open>
  Verification of Ishizue, a display server library in C. A process that links the library (the architect)
  calls its public interface (\<^verbatim>\<open>include/ishizue/isz.h\<close>); clients connect over a Unix socket and send framed messages,
  which the dispatcher turns into calls of the same operations.

  \<^bold>\<open>Parts of the program and the theories that model them\<close>, in the order in which they build on each other. The paths are
  relative to \<^verbatim>\<open>src/src\<close>; a definition has the name of the C function it models.

  \<^item> \<open>Isz_Prelude\<close>: error codes, \<^verbatim>\<open>errno\<close>, and the record \<open>kern\<close> of what the operating system does. Its scripts list the outcomes of
    the coming system calls and allocations, so a theorem for every \<open>kern\<close> is a theorem for every behaviour
    of the sockets, the clock and the allocator; its logs hold the bytes and descriptors sent and the descriptors closed.
  \<^item> \<open>Isz_Wire\<close>: framing of messages and typed access to payloads (\<^verbatim>\<open>protocol/isz_protocol.c\<close>, first half). Round trip of
    encode and decode, decode never reads outside the input, a prefix of a frame is incomplete and not an error.
  \<^item> \<open>Isz_Socket\<close>: sending and receiving frames with descriptors (\<^verbatim>\<open>protocol/isz_protocol.c\<close>, second half). The stateful
    receiver is memory safe, reassembles a stream of messages with at most eight descriptors each from every fragmentation, and hands out with a message the descriptors that have arrived
    up to its last byte.
  \<^item> \<open>Isz_Conn\<close>: a client connection (\<^verbatim>\<open>protocol/isz_conn.c\<close>): outbound queue and object table. The locales \<open>fifo_channel\<close> and \<open>id_table\<close>
    are the contracts of the two; they are interpreted on the model and give in-order delivery, and object ids that resolve to their object exactly until it is dropped.
  \<^item> \<open>Isz_Handshake\<close>: the server side of the handshake (\<^verbatim>\<open>protocol/isz_handshake.c\<close>): the outcome for every behaviour of the peer. The code announces no outputs and seats.
  \<^item> \<open>Isz_Buffer\<close>: imported buffers, reference counts, the import cache (\<^verbatim>\<open>buffer/isz_buffer.c\<close>).
  \<^item> \<open>Isz_World\<close>: the structs of \<^verbatim>\<open>isz_server_internal.h\<close>, \<^verbatim>\<open>render/isz_surface_internal.h\<close> and \<^verbatim>\<open>input/isz_seat_internal.h\<close>, as one record \<open>world\<close>
    that extends \<open>kern\<close>. Pointers are numbers into partial maps (a freed object is absent from its map), and
    the static variables of the C files are fields.
  \<^item> \<open>Isz_Senders\<close>: replies and events to clients (\<^verbatim>\<open>isz_client_dispatch.c\<close>).
  \<^item> \<open>Isz_Backend\<close>, \<open>Isz_Headless\<close>: the state machine of a backend (\<^verbatim>\<open>backend/isz_backend.c\<close>) and the headless backend with its output records
    (\<^verbatim>\<open>backend/isz_headless.c\<close>); the locale \<open>backend_contract\<close> is what the header promises.
  \<^item> \<open>Isz_Plane_Slots\<close>: reservations of hardware planes (\<^verbatim>\<open>render/isz_plane_slots.c\<close>); the locale \<open>slot_registry\<close> is what surfaces and
    commits rely on: one holder for each slot.
  \<^item> \<open>Isz_Surface\<close>, \<open>Isz_Surface_Inv\<close>: surfaces (\<^verbatim>\<open>render/isz_surface.c\<close>) and the invariant \<open>render_ok\<close>: every buffer has one owner, damage
    stays within its bound, idle-inhibit counts equal the number of inhibiting surfaces and match the events sent.
  \<^item> \<open>Isz_Output\<close>: outputs (\<^verbatim>\<open>isz_output.c\<close>, headless outputs) and their invariant \<open>outputs_ok\<close>.
  \<^item> \<open>Isz_Commit\<close>: committing the surfaces of an output (\<^verbatim>\<open>render/isz_commit.c\<close>): outcome of a commit on every branch, rollback.
  \<^item> \<open>Isz_Seat\<close>: seats, selections, text inputs and input methods (\<^verbatim>\<open>input/isz_seat_api.c\<close>).
  \<^item> \<open>Isz_Consent\<close>, \<open>Isz_Capture\<close>: consent to screen capture (\<^verbatim>\<open>isz_capture_consent.c\<close>) and captures (\<^verbatim>\<open>render/isz_capture.c\<close>).
  \<^item> \<open>Isz_Dispatch\<close>, \<open>Isz_Dispatch_Inv\<close>: the handler of every client message (\<^verbatim>\<open>isz_client_dispatch.c\<close>), the invariant \<open>world_ok\<close> of the whole server state, and that
    the dispatcher keeps it.
  \<^item> \<open>Isz_Allowlist\<close>: which processes may connect (\<^verbatim>\<open>isz_allowlist.c\<close>); the file system and \<^verbatim>\<open>/proc\<close> are parameters. The check admits nobody who is not listed,
    and it admits those who are, up to two limits of the scan of cgroup files.
  \<^item> \<open>Isz_Listen\<close>: the life of client sockets (\<^verbatim>\<open>isz_listen.c\<close>): only allowed peers that finish the handshake become clients, the receive loop
    ends, and what the cleanup of a client leaves behind.
  \<^item> \<open>Isz_List\<close>: the intrusive lists (\<^verbatim>\<open>util/isz_list.h\<close>) at the level of their pointers. The locale \<open>linked_seq\<close> is the contract of a sequence; the
    other theories, which have lists of references where the code has such lists, rest on this refinement.
  \<^item> \<open>Isz_Listeners\<close>: the registry of event listeners (\<^verbatim>\<open>isz_listeners.c\<close>) over these lists, with listeners that change the registry while an event is delivered.
  \<^item> \<open>Isz_Thread_Pool\<close>: the worker threads (\<^verbatim>\<open>util/isz_thread_pool.c\<close>) as a step relation in which the threads interleave at their critical sections.
  \<^item> \<open>Isz_Text\<close>, \<open>Isz_Psi\<close>: decimal numbers as \<^verbatim>\<open>snprintf\<close> writes and \<^verbatim>\<open>strtoul\<close> reads them, and the monitor of memory pressure (\<^verbatim>\<open>buffer/isz_psi.c\<close>).
  \<^item> \<open>Isz_Lifecycle\<close>: start-up, the dispatch loop and shutdown (\<^verbatim>\<open>isz_lifecycle.c\<close>), which compose all of the above: start-up establishes the invariants,
    every reachable state keeps them, and shutdown closes the listening socket, the sockets of the clients, the pressure monitor and the epoll set.
  \<^item> \<open>X11_Proto\<close>: the messages that the X11 bridge sends to X11 clients (\<^verbatim>\<open>src/x11bridge/x11_proto.c\<close>). Each builder but the one of the setup writes the layout of its message in the byte order
    of the client; which length fields agree with the size of the message, and what happens in a buffer that is too small.
  \<^item> \<open>X11_Atoms\<close>: the table of atoms of the bridge (\<^verbatim>\<open>src/x11bridge/x11_atoms.c\<close>): names and atoms correspond one to one and stay so.
  \<^item> \<open>X11_Isz_Client\<close>: the connection of the bridge to the server (\<^verbatim>\<open>src/x11bridge/isz_client.c\<close>). It composes the two programs: the two sides of the handshake meet, and the server dispatches each message
    of the bridge to the call it stands for (one of them is unknown to the server).
  \<^item> \<open>X11_Client\<close>: the state of an X11 client, its tables and setup (\<^verbatim>\<open>src/x11bridge/x11_client.c\<close>) and the translation of window operations and input events (\<^verbatim>\<open>src/x11bridge/translation.c\<close>).
  \<^item> \<open>X11_Window_Requests\<close>, \<open>X11_Draw_Requests\<close>, \<open>X11_Dispatch\<close>: the handlers of the X11 requests, one definition for each case of the switch, and the loop that reads and dispatches
    requests (\<^verbatim>\<open>src/x11bridge/x11_client.c\<close>).
  \<^item> \<open>X11_Client_Inv\<close>, \<open>X11_Window_Safe\<close>, \<open>X11_Draw_Safe\<close>, \<open>X11_Dispatch_Safe\<close>: the invariant of a client (sizes of its buffer and tables, unique ids, limits of stored values) and of the
    connection to the server; each handler returns and keeps them, except for three requests, of which it is characterised when they are undefined (\<open>request_hazard\<close>).
  \<^item> \<open>X11_Requests_Correct\<close>: what follows for the dispatch of any request, for the stream of a client, which is cut into requests that are dispatched in order and a rest without a complete request,
    and for the properties of windows.
  \<^item> \<open>X11_Bridge\<close>: the program of the bridge (\<^verbatim>\<open>src/x11bridge/main.c\<close>): start, table of clients, event loop and shutdown. Every event is handled and keeps the invariant of the program,
    unless a client sends a request with undefined behaviour; the shutdown closes the sockets of the clients, the listening socket, the epoll descriptor and the connection to the server, and
    unlinks the socket file of the display.

  \<^bold>\<open>Conventions.\<close> An operation takes the state and returns the new one; the result \<open>None\<close> is undefined behaviour of the C code: an access outside an array,
    through a dangling pointer or a freed object. So a theorem that the result is \<open>Some\<close> states memory safety. Error codes are values of
  \<open>isz_error\<close>; results that are either an error or a value are sums. Machine integers are words of their width. Payloads are byte lists of exactly
  \<^verbatim>\<open>payload_len\<close> bytes. A descriptor array in which an entry was consumed has \<open>-1\<close> there, as in the code. Events to listeners
  are a log in the state; their delivery to listeners is \<open>Isz_Listeners\<close>.

  \<^bold>\<open>Termination and fuel.\<close> No definition uses fuel. Loops are structural recursions, have termination measures, or are \<^theory_text>\<open>partial_function (option)\<close> where the
  code follows pointers or a socket (\<open>recv_messages_loop\<close>, \<open>for_each_from\<close>, \<open>remove_loop\<close>, \<open>emit_loop\<close>, \<open>handshake_drain\<close>, \<open>parse_requests\<close>, \<open>on_isz_ready\<close>) or repeats passes over a table (\<open>destroy_children\<close>); for these it is proved that they return. The receive
  loop ends because each round uses up an entry of the script of socket results, and an exhausted script answers \<^verbatim>\<open>EAGAIN\<close>; the loops over pointers end because the
  lists are well formed. The workers of the thread pool end after shutdown because each of their steps lowers a measure.

  \<^bold>\<open>Configuration.\<close> The build without \<^verbatim>\<open>ISHIZUE_HAVE_DRM\<close>, \<^verbatim>\<open>ISHIZUE_HAVE_LIBINPUT\<close> and \<^verbatim>\<open>ISHIZUE_HAVE_XKBCOMMON\<close>, with HDR and the thread pool enabled, and the headless backend.

  \<^bold>\<open>Not modelled.\<close> The DRM backend and its helpers, libinput and xkbcommon input, the session code (device and library bindings);
  logging and crash recovery (text output, signal handlers); the example compositor and the tools (programs of their own); one-line wrappers.
\<close>

end
